(* ===== verification/Prelude.thy ===== *)
theory Prelude
  imports Main "HOL-Library.Word"
begin

unbundle bit_operations_syntax

text \<open>
  Shared vocabulary of the development: the byte and word types, the big-endian
  integer layouts every wire format of the program uses, the error type for C++ behaviour
  outside the abstract machine, and the collections of rewrite rules the component
  theories add to.
    \<^item> \<open>codec\<close> collects the equations that read back what an encoder wrote;
    \<^item> \<open>frame\<close> collects facts saying that an operation leaves a part of the state alone.
\<close>

named_theorems codec "reading back what an encoder wrote"
named_theorems frame "what an operation leaves unchanged"

type_synonym byte = "8 word"
type_synonym bytes = "byte list"
type_synonym u16 = "16 word"
type_synonym u32 = "32 word"
type_synonym u64 = "64 word"

text \<open>
  Undefined behaviour of C++ that the program can reach is an error value: reading or
  writing a container outside its bounds, overflow of a signed \<open>int\<close>, and use of a
  pointer that points to no live object of its type.
\<close>

datatype fault = OutOfBounds | SignedOverflow | WildPointer

abbreviation ok :: "'a \<Rightarrow> fault + 'a" where
  "ok \<equiv> Inr"

fun bindF :: "fault + 'a \<Rightarrow> ('a \<Rightarrow> fault + 'b) \<Rightarrow> fault + 'b" where
  "bindF (Inl e) f = Inl e"
| "bindF (Inr x) f = f x"

lemma bindF_ok [simp]: "bindF m ok = m"
  by (cases m) simp_all

lemma bindF_cong [fundef_cong]:
  "m = m' \<Longrightarrow> (\<And>x. m' = Inr x \<Longrightarrow> f x = g x) \<Longrightarrow> bindF m f = bindF m' g"
  by (cases m') simp_all

lemma bindF_eq_ok_iff: "bindF m f = Inr y \<longleftrightarrow> (\<exists>x. m = Inr x \<and> f x = Inr y)"
  by (cases m) simp_all

lemma bindF_assoc: "bindF (bindF m f) g = bindF m (\<lambda>x. bindF (f x) g)"
  by (cases m) simp_all

text \<open>\<open>isOk m\<close>: the computation reached no undefined behaviour.\<close>

definition isOk :: "fault + 'a \<Rightarrow> bool" where
  "isOk m = (case m of Inl _ \<Rightarrow> False | Inr _ \<Rightarrow> True)"

lemma isOk_simps [simp]: "isOk (Inr x)" "\<not> isOk (Inl e)"
  by (simp_all add: isOk_def)

lemma isOk_bindF: "isOk m \<Longrightarrow> (\<And>x. m = Inr x \<Longrightarrow> isOk (f x)) \<Longrightarrow> isOk (bindF m f)"
  by (cases m) simp_all

lemma isOk_iff: "isOk m \<longleftrightarrow> (\<exists>x. m = Inr x)"
  by (cases m) simp_all

text \<open>A C++ \<open>int\<close> is 32 bits: \<open>fitsInt\<close> is its range, \<open>intOp\<close> the result of an arithmetic
  operation on it, whose overflow is undefined.\<close>

definition fitsInt :: "int \<Rightarrow> bool" where
  "fitsInt n \<longleftrightarrow> - (2 ^ 31) \<le> n \<and> n < 2 ^ 31"

definition intOp :: "int \<Rightarrow> fault + int" where
  "intOp n = (if fitsInt n then Inr n else Inl SignedOverflow)"

lemma intOp_ok: "fitsInt n \<Longrightarrow> intOp n = Inr n"
  by (simp add: intOp_def)

text \<open>Conversion of an unsigned 32-bit value to \<open>int\<close> keeps the bits.\<close>

definition toInt32 :: "u32 \<Rightarrow> int" where
  "toInt32 w = sint w"

lemma toInt32_small: "unat w < 2 ^ 31 \<Longrightarrow> toInt32 w = int (unat w)"
proof -
  assume "unat w < 2 ^ 31"
  then have "int (unat w) < int (2 ^ 31)" by (simp only: of_nat_less_iff)
  then have *: "uint w < 2 ^ (LENGTH(32) - Suc 0)" by simp
  have "signed_take_bit (LENGTH(32) - Suc 0) (uint w) = uint w"
    by (rule signed_take_bit_int_eq_self) (use * in \<open>auto intro: order_trans [OF _ uint_ge_0]\<close>)
  then show ?thesis
    by (simp add: toInt32_def sint_uint)
qed

section \<open>Big-endian integers\<close>

definition be16 :: "u16 \<Rightarrow> bytes" where
  "be16 w = [ucast (drop_bit 8 w), ucast w]"

definition be32 :: "u32 \<Rightarrow> bytes" where
  "be32 w = [ucast (drop_bit 24 w), ucast (drop_bit 16 w), ucast (drop_bit 8 w), ucast w]"

definition join16 :: "byte \<Rightarrow> byte \<Rightarrow> u16" where
  "join16 a b = push_bit 8 (ucast a) OR ucast b"

definition join32 :: "byte \<Rightarrow> byte \<Rightarrow> byte \<Rightarrow> byte \<Rightarrow> u32" where
  "join32 a b c d = push_bit 24 (ucast a) OR push_bit 16 (ucast b) OR push_bit 8 (ucast c) OR ucast d"

lemma length_be [simp]: "length (be16 w) = 2" "length (be32 v) = 4"
  by (simp_all add: be16_def be32_def)

lemma join16_split [codec]: "join16 (ucast (drop_bit 8 w)) (ucast w) = w"
  unfolding join16_def
  by (rule bit_word_eqI) (auto simp: bit_simps not_le)

lemma join32_split [codec]:
  "join32 (ucast (drop_bit 24 w)) (ucast (drop_bit 16 w)) (ucast (drop_bit 8 w)) (ucast w) = w"
  unfolding join32_def
  by (rule bit_word_eqI, rename_tac n, case_tac "n < 8"; case_tac "n < 16"; case_tac "n < 24";
      auto simp: bit_simps not_le)

lemma unat_join16: "unat (join16 a b) = 256 * unat a + unat b"
proof -
  have "push_bit 8 (ucast a :: u16) AND ucast b = 0"
    by (rule bit_word_eqI) (auto simp: bit_simps dest: bit_imp_le_length)
  then have "unat (join16 a b) = unat (push_bit 8 (ucast a :: u16) + (ucast b :: u16))"
    by (simp add: join16_def disjunctive_add_eq_or)
  also have "\<dots> = 256 * unat a + unat b"
    using unsigned_less [of a, where 'a = nat] unsigned_less [of b, where 'a = nat]
    by (simp add: push_bit_eq_mult unat_word_ariths unsigned_ucast_eq take_bit_eq_mod)
  finally show ?thesis .
qed

section \<open>Arithmetic\<close>

text \<open>The number of zero bytes that fill \<open>n\<close> bytes up to a multiple of four.\<close>

definition pad_count :: "nat \<Rightarrow> nat" where
  "pad_count n = (n + 3) div 4 * 4 - n"

lemma pad_count_0: "n mod 4 = 0 \<Longrightarrow> pad_count n = 0"
  unfolding pad_count_def by presburger

lemma pad_count_Suc: "n mod 4 \<noteq> 0 \<Longrightarrow> pad_count n = Suc (pad_count (Suc n))"
  unfolding pad_count_def by presburger

lemma pad_count_total: "n + pad_count n = (n + 3) div 4 * 4"
  unfolding pad_count_def by presburger

lemma pad_count_add: "k mod 4 = 0 \<Longrightarrow> pad_count (k + n) = pad_count n"
  unfolding pad_count_def by presburger

lemma unat_of_nat_small: "n < 2 ^ LENGTH('a) \<Longrightarrow> unat (of_nat n :: 'a::len word) = n"
  by (simp add: unat_of_nat)

end
