(* ===== verification/Qt_Core.thy ===== *)
theory Qt_Core
  imports Prelude "HOL-Library.Sublist" "HOL-Library.Char_ord"
begin

text \<open>
  The operations of the value classes \<open>QByteArray\<close>, \<open>QString\<close> and \<open>QList\<close> that the
  program uses as its standard library, as documented. A \<open>QByteArray\<close> is a list of bytes, a
  \<open>QString\<close> a list of characters. \<open>mid\<close>, \<open>left\<close> and \<open>remove\<close> are written with \<open>take\<close> and
  \<open>drop\<close>, which clip at the end as the Qt functions do; \<open>indexOf\<close> answers \<open>None\<close> for -1.
  Case mapping is the one of ASCII. Conversions between bytes and text (UTF-8) are parameters
  of the definitions that use them.
\<close>

section \<open>Searching\<close>

fun index_of :: "'a \<Rightarrow> 'a list \<Rightarrow> nat option" where
  "index_of a [] = None"
| "index_of a (x # xs) = (if x = a then Some 0 else map_option Suc (index_of a xs))"

definition index_from :: "'a \<Rightarrow> nat \<Rightarrow> 'a list \<Rightarrow> nat option" where
  "index_from a i xs = map_option ((+) i) (index_of a (drop i xs))"

definition last_index_of :: "'a \<Rightarrow> 'a list \<Rightarrow> nat option" where
  "last_index_of a xs = map_option (\<lambda>i. length xs - Suc i) (index_of a (rev xs))"

lemma index_of_None_iff [simp]: "index_of a xs = None \<longleftrightarrow> a \<notin> set xs"
  by (induction xs) auto

lemma index_of_append_hit [simp]: "a \<notin> set xs \<Longrightarrow> index_of a (xs @ a # ys) = Some (length xs)"
  by (induction xs) auto

lemma index_of_SomeD:
  "index_of a xs = Some i \<Longrightarrow> i < length xs \<and> xs ! i = a \<and> a \<notin> set (take i xs)"
  by (induction xs arbitrary: i) (auto split: if_splits simp: less_Suc_eq_0_disj)

lemma index_of_Some_split:
  assumes "index_of a xs = Some i"
  shows "xs = take i xs @ a # drop (Suc i) xs"
  using index_of_SomeD [OF assms] id_take_nth_drop [of i xs] by simp

lemma last_index_of_None_iff [simp]: "last_index_of a xs = None \<longleftrightarrow> a \<notin> set xs"
  by (simp add: last_index_of_def)

lemma last_index_of_append_hit [simp]:
  "a \<notin> set ys \<Longrightarrow> last_index_of a (xs @ a # ys) = Some (length xs)"
  by (simp add: last_index_of_def)

section \<open>Splitting and joining\<close>

fun split_on :: "'a \<Rightarrow> 'a list \<Rightarrow> 'a list list" where
  "split_on c [] = [[]]"
| "split_on c (x # xs) =
     (if x = c then [] # split_on c xs
      else (case split_on c xs of [] \<Rightarrow> [[x]] | p # ps \<Rightarrow> (x # p) # ps))"

text \<open>\<open>Qt::SkipEmptyParts\<close>.\<close>

definition split_skip :: "'a \<Rightarrow> 'a list \<Rightarrow> 'a list list" where
  "split_skip c xs = filter (\<lambda>p. p \<noteq> []) (split_on c xs)"

fun join_with :: "'a list \<Rightarrow> 'a list list \<Rightarrow> 'a list" where
  "join_with s [] = []"
| "join_with s [p] = p"
| "join_with s (p # q # ps) = p @ s @ join_with s (q # ps)"

lemma split_on_nonempty [simp]: "split_on c xs \<noteq> []"
  by (cases xs) (auto split: list.splits)

lemma split_on_part: "p \<in> set (split_on c xs) \<Longrightarrow> c \<notin> set p"
  by (induction xs arbitrary: p) (fastforce split: if_splits list.splits)+

lemma split_on_no_sep [simp]: "c \<notin> set p \<Longrightarrow> split_on c p = [p]"
  by (induction p) auto

lemma split_on_append_sep [simp]:
  "c \<notin> set p \<Longrightarrow> split_on c (p @ c # xs) = p # split_on c xs"
  by (induction p) auto

lemma join_with_Cons: "ps \<noteq> [] \<Longrightarrow> join_with s (p # ps) = p @ s @ join_with s ps"
  by (cases ps) auto

lemma join_with_head: "join_with s ((x # p) # ps) = x # join_with s (p # ps)"
  by (cases ps) auto

lemma split_join:
  assumes "ps \<noteq> []" and "\<forall>p \<in> set ps. c \<notin> set p"
  shows "split_on c (join_with [c] ps) = ps"
  using assms by (induction ps rule: induct_list012) auto

lemma join_split: "join_with [c] (split_on c xs) = xs"
proof (induction xs)
  case (Cons x xs)
  obtain q qs where "split_on c xs = q # qs" by (meson neq_Nil_conv split_on_nonempty)
  with Cons show ?case by (simp add: join_with_head)
qed simp

lemma split_skip_part: "p \<in> set (split_skip c xs) \<Longrightarrow> p \<noteq> [] \<and> c \<notin> set p"
  by (auto simp: split_skip_def dest: split_on_part)

lemma split_skip_Nil [simp]: "split_skip c [] = []"
  by (simp add: split_skip_def)

lemma split_skip_Cons_sep [simp]: "split_skip c (c # xs) = split_skip c xs"
  by (simp add: split_skip_def)

lemma split_skip_no_sep [simp]: "c \<notin> set p \<Longrightarrow> split_skip c p = (if p = [] then [] else [p])"
  by (simp add: split_skip_def)

lemma split_skip_append_sep [simp]:
  "c \<notin> set p \<Longrightarrow> split_skip c (p @ c # xs) = (if p = [] then [] else [p]) @ split_skip c xs"
  by (simp add: split_skip_def)

lemma split_on_append: "split_on c (xs @ c # ys) = split_on c xs @ split_on c ys"
  by (induction xs) (auto split: list.splits)

lemma split_skip_append: "split_skip c (xs @ c # ys) = split_skip c xs @ split_skip c ys"
  by (simp add: split_skip_def split_on_append)

lemma split_skip_join:
  assumes "\<forall>p \<in> set ps. p \<noteq> [] \<and> c \<notin> set p"
  shows "split_skip c (join_with [c] ps) = ps"
  using assms by (induction ps rule: induct_list012) auto

section \<open>Text\<close>

text \<open>\<open>QChar::isSpace\<close> on one-byte code units.\<close>

definition is_space :: "char \<Rightarrow> bool" where
  "is_space c \<longleftrightarrow> (let n = of_char c :: nat in (9 \<le> n \<and> n \<le> 13) \<or> n = 32 \<or> n = 133 \<or> n = 160)"

definition trimmed :: "string \<Rightarrow> string" where
  "trimmed s = rev (dropWhile is_space (rev (dropWhile is_space s)))"

definition is_digit :: "char \<Rightarrow> bool" where
  "is_digit c \<longleftrightarrow> (let n = of_char c :: nat in 48 \<le> n \<and> n \<le> 57)"

definition digit_val :: "char \<Rightarrow> nat" where
  "digit_val c = of_char c - 48"

definition upper_char :: "char \<Rightarrow> char" where
  "upper_char c = (let n = of_char c :: nat in if 97 \<le> n \<and> n \<le> 122 then char_of (n - 32) else c)"

definition lower_char :: "char \<Rightarrow> char" where
  "lower_char c = (let n = of_char c :: nat in if 65 \<le> n \<and> n \<le> 90 then char_of (n + 32) else c)"

abbreviation to_upper :: "string \<Rightarrow> string" where
  "to_upper \<equiv> map upper_char"

abbreviation to_lower :: "string \<Rightarrow> string" where
  "to_lower \<equiv> map lower_char"

definition starts_with :: "'a list \<Rightarrow> 'a list \<Rightarrow> bool" where
  "starts_with p s \<longleftrightarrow> take (length p) s = p"

definition ends_with :: "'a list \<Rightarrow> 'a list \<Rightarrow> bool" where
  "ends_with p s \<longleftrightarrow> length p \<le> length s \<and> drop (length s - length p) s = p"

lemma starts_with_append [simp]: "starts_with p (p @ s)"
  by (simp add: starts_with_def)

lemma starts_with_iff: "starts_with p s \<longleftrightarrow> (\<exists>t. s = p @ t)"
  by (metis append_eq_conv_conj append_take_drop_id starts_with_def)

text \<open>\<open>toLatin1\<close> and \<open>fromLatin1\<close>, and byte literals.\<close>

definition byte_of_char :: "char \<Rightarrow> byte" where
  "byte_of_char c = of_nat (of_char c)"

definition char_of_byte :: "byte \<Rightarrow> char" where
  "char_of_byte b = char_of (unat b)"

abbreviation to_latin1 :: "string \<Rightarrow> bytes" where
  "to_latin1 \<equiv> map byte_of_char"

abbreviation from_latin1 :: "bytes \<Rightarrow> string" where
  "from_latin1 \<equiv> map char_of_byte"

lemma char_of_byte_of_char [simp]: "char_of_byte (byte_of_char c) = c"
proof -
  have "of_char c < (256 :: nat)" by simp
  then have "unat (of_nat (of_char c) :: byte) = of_char c" by (intro unat_of_nat_small) simp
  then show ?thesis by (simp add: char_of_byte_def byte_of_char_def)
qed

lemma from_to_latin1 [simp]: "from_latin1 (to_latin1 s) = s"
  by (simp add: comp_def)

section \<open>Decimal numbers\<close>

fun digits_val :: "nat \<Rightarrow> string \<Rightarrow> nat" where
  "digits_val acc [] = acc"
| "digits_val acc (c # cs) = digits_val (10 * acc + digit_val c) cs"

definition nat_of_dec :: "string \<Rightarrow> nat option" where
  "nat_of_dec s = (if s \<noteq> [] \<and> list_all is_digit s then Some (digits_val 0 s) else None)"

text \<open>
  \<open>toInt(&ok)\<close> in base 10: surrounding white space is ignored, one sign is accepted, and the
  conversion fails (\<open>None\<close>, where \<open>ok\<close> becomes false and 0 is returned) on anything else
  and outside the range of \<open>int\<close>.
\<close>

definition to_int :: "string \<Rightarrow> int option" where
  "to_int s =
     (let t = trimmed s;
          r = (case t of [] \<Rightarrow> None
               | c # cs \<Rightarrow> if c = CHR ''-'' then map_option (\<lambda>n. - int n) (nat_of_dec cs)
                           else if c = CHR ''+'' then map_option int (nat_of_dec cs)
                           else map_option int (nat_of_dec t))
      in (case r of None \<Rightarrow> None | Some n \<Rightarrow> if fitsInt n then Some n else None))"

text \<open>\<open>toInt()\<close> without looking at \<open>ok\<close>.\<close>

definition to_int0 :: "string \<Rightarrow> int" where
  "to_int0 s = (case to_int s of None \<Rightarrow> 0 | Some n \<Rightarrow> n)"

definition to_uint :: "string \<Rightarrow> nat option" where
  "to_uint s =
     (let t = trimmed s;
          r = (case t of [] \<Rightarrow> None
               | c # cs \<Rightarrow> if c = CHR ''+'' then nat_of_dec cs else nat_of_dec t)
      in (case r of None \<Rightarrow> None | Some n \<Rightarrow> if n < 2 ^ 32 then Some n else None))"

text \<open>\<open>QString::number\<close>.\<close>

fun dec_of_nat :: "nat \<Rightarrow> string" where
  "dec_of_nat n = (if n < 10 then [char_of (48 + n)] else dec_of_nat (n div 10) @ [char_of (48 + n mod 10)])"

declare dec_of_nat.simps [simp del]

definition dec_of_int :: "int \<Rightarrow> string" where
  "dec_of_int n = (if n < 0 then CHR ''-'' # dec_of_nat (nat (- n)) else dec_of_nat (nat n))"

lemma digits_val_append: "digits_val acc (xs @ ys) = digits_val (digits_val acc xs) ys"
  by (induction xs arbitrary: acc) auto

lemma is_digit_dec: "(n :: nat) < 10 \<Longrightarrow> is_digit (char_of (48 + n))"
  by (simp add: is_digit_def Let_def)

lemma dec_of_nat_digits: "c \<in> set (dec_of_nat n) \<Longrightarrow> is_digit c"
proof (induction n rule: dec_of_nat.induct)
  case (1 n)
  then show ?case
    by (subst (asm) (2) dec_of_nat.simps) (auto split: if_splits intro: is_digit_dec)
qed

lemma dec_of_nat_nonempty [simp]: "dec_of_nat n \<noteq> []"
  by (subst dec_of_nat.simps) simp

lemma digits_val_dec [simp]: "digits_val 0 (dec_of_nat n) = n"
proof (induction n rule: dec_of_nat.induct)
  case (1 n)
  then show ?case
    by (subst dec_of_nat.simps) (auto simp: digits_val_append digit_val_def)
qed

lemma nat_of_dec_dec [simp]: "nat_of_dec (dec_of_nat n) = Some n"
  by (auto simp: nat_of_dec_def list_all_iff dest: dec_of_nat_digits)

lemma digit_not_space: "is_digit c \<Longrightarrow> \<not> is_space c"
  by (auto simp: is_digit_def is_space_def Let_def)

lemma dropWhile_hd: "\<not> P (hd s) \<Longrightarrow> dropWhile P s = s"
  by (cases s) auto

lemma trimmed_id: "\<not> is_space (hd s) \<Longrightarrow> \<not> is_space (last s) \<Longrightarrow> trimmed s = s"
  by (simp add: trimmed_def dropWhile_hd hd_rev)

lemma trimmed_digits: "s \<noteq> [] \<Longrightarrow> \<forall>c \<in> set s. is_digit c \<Longrightarrow> trimmed s = s"
  by (rule trimmed_id) (simp_all add: digit_not_space)

lemma trimmed_dec [simp]: "trimmed (dec_of_nat n) = dec_of_nat n"
  by (rule trimmed_digits) (auto intro: dec_of_nat_digits)

lemma last_dec_not_space: "\<not> is_space (last (dec_of_nat n))"
  by (meson dec_of_nat_digits dec_of_nat_nonempty digit_not_space last_in_set)

lemma to_int_dec_of_nat: "int n < 2 ^ 31 \<Longrightarrow> to_int (dec_of_nat n) = Some (int n)"
proof -
  assume n: "int n < 2 ^ 31"
  obtain c cs where d: "dec_of_nat n = c # cs" by (meson dec_of_nat_nonempty neq_Nil_conv)
  then have "is_digit c" by (metis dec_of_nat_digits list.set_intros(1))
  then have "c \<noteq> CHR ''-''" "c \<noteq> CHR ''+''" by (auto simp: is_digit_def)
  then show ?thesis
    using n d nat_of_dec_dec [of n] trimmed_dec [of n] by (simp add: to_int_def fitsInt_def)
qed

lemma to_int_dec_of_int: "fitsInt n \<Longrightarrow> to_int (dec_of_int n) = Some n"
proof (cases "n < 0")
  case True
  assume f: "fitsInt n"
  have "trimmed (CHR ''-'' # dec_of_nat (nat (- n))) = CHR ''-'' # dec_of_nat (nat (- n))"
    by (rule trimmed_id)
      (simp_all add: is_space_def [of "CHR ''-''"] last_dec_not_space)
  with True f show ?thesis by (simp add: to_int_def dec_of_int_def)
next
  case False
  assume "fitsInt n"
  with False show ?thesis
    using to_int_dec_of_nat [of "nat n"] by (simp add: dec_of_int_def fitsInt_def)
qed

end
