(* ===== verification/Stream_Scan.thy ===== *)
theory Stream_Scan
  imports Prelude
begin

text \<open>
  The contract of the stateful byte scanners of the program (Telnet negotiation, the OSC and
  private-mode sniffers of the terminal): they are fed a stream in chunks of any size, as the
  socket delivers them, and keep their state between calls. \<open>scan s bs\<close> is one call. The law
  asked of a scanner is that splitting a chunk in two changes nothing; the client's lemma is
  that the whole stream may be cut anywhere. Outputs are combined by \<open>cat\<close>.
\<close>

primrec feed :: "('o \<Rightarrow> 'o \<Rightarrow> 'o) \<Rightarrow> 'o \<Rightarrow> ('s \<Rightarrow> 'b list \<Rightarrow> 's \<times> 'o) \<Rightarrow> 's \<Rightarrow> 'b list list \<Rightarrow> 's \<times> 'o" where
  "feed cat nil scan s [] = (s, nil)"
| "feed cat nil scan s (c # cs) =
     (let (s1, o1) = scan s c; (s2, o2) = feed cat nil scan s1 cs in (s2, cat o1 o2))"

locale chunked_scanner =
  fixes cat :: "'o \<Rightarrow> 'o \<Rightarrow> 'o" and nil :: 'o and scan :: "'s \<Rightarrow> 'b list \<Rightarrow> 's \<times> 'o"
  assumes scan_Nil: "scan s [] = (s, nil)"
    and scan_append: "scan s (xs @ ys) =
      (let (s1, o1) = scan s xs; (s2, o2) = scan s1 ys in (s2, cat o1 o2))"
begin

lemma feed_concat: "feed cat nil scan s css = scan s (concat css)"
  by (induction css arbitrary: s) (simp_all add: scan_Nil scan_append split: prod.split)

lemma chunking_irrelevant:
  "concat css = concat dss \<Longrightarrow> feed cat nil scan s css = feed cat nil scan s dss"
  by (simp add: feed_concat)

lemma bytewise: "feed cat nil scan s (map (\<lambda>b. [b]) bs) = scan s bs"
  by (simp add: feed_concat)

end

text \<open>
  A scanner written as a loop over the bytes with an accumulator satisfies the law when its
  loop body only appends to the accumulator.
\<close>

lemma foldl_scan_append:
  assumes step: "\<And>s acc b. step (s, acc) b = (fst (step (s, nil) b), cat acc (snd (step (s, nil) b)))"
    and nil: "\<And>x. cat x nil = x"
    and assoc: "\<And>x y z. cat (cat x y) z = cat x (cat y z)"
  shows "foldl step (s, acc) bs = (fst (foldl step (s, nil) bs), cat acc (snd (foldl step (s, nil) bs)))"
proof (induction bs arbitrary: s acc)
  case Nil
  then show ?case by (simp add: nil)
next
  case (Cons b bs)
  let ?r = "step (s, nil) b"
  have "foldl step (s, acc) (b # bs) = foldl step (fst ?r, cat acc (snd ?r)) bs"
    by (simp add: step [of s acc])
  moreover have "foldl step (s, nil) (b # bs) = foldl step (fst ?r, snd ?r) bs"
    by simp
  ultimately show ?case
    by (simp only: Cons.IH [of "fst ?r" "cat acc (snd ?r)"] Cons.IH [of "fst ?r" "snd ?r"] assoc fst_conv snd_conv)
qed

end
