(* ===== verification/Telnet.thy ===== *)
theory Telnet
  imports Stream_Scan
begin

text \<open>
  Telnet option negotiation, \<open>src/src/connect/TelnetProtocol.{h,cpp}\<close>: the state machine that
  strips \<open>IAC\<close> sequences from the inbound stream, returns the application data and answers the
  negotiation requests.
\<close>

section \<open>The protocol processor\<close>

abbreviation "SE \<equiv> (240 :: byte)"
abbreviation "SB \<equiv> (250 :: byte)"
abbreviation "WILL \<equiv> (251 :: byte)"
abbreviation "WONT \<equiv> (252 :: byte)"
abbreviation "DO \<equiv> (253 :: byte)"
abbreviation "DONT \<equiv> (254 :: byte)"
abbreviation "IAC \<equiv> (255 :: byte)"
abbreviation "OPT_ECHO \<equiv> (1 :: byte)"
abbreviation "OPT_SGA \<equiv> (3 :: byte)"

datatype St = St_Data | St_Iac | St_Will | St_Wont | St_Do | St_Dont | St_Sb | St_SbIac

record telnet_result =
  appData :: bytes
  response :: bytes

definition negotiate :: "byte \<Rightarrow> byte \<Rightarrow> bytes \<Rightarrow> bytes" where
  "negotiate verb opt resp =
     (let reply = (\<lambda>v. resp @ [IAC, v, opt])
      in if verb = DO then reply (if opt = OPT_SGA then WILL else WONT)
         else if verb = DONT then reply WONT
         else if verb = WILL then reply (if opt = OPT_ECHO \<or> opt = OPT_SGA then DO else DONT)
         else if verb = WONT then reply DONT
         else resp)"

text \<open>The body of the loop over the input bytes.\<close>

fun telnet_byte :: "St \<times> telnet_result \<Rightarrow> byte \<Rightarrow> St \<times> telnet_result" where
  "telnet_byte (St_Data, r) b =
     (if b = IAC then (St_Iac, r) else (St_Data, r\<lparr>appData := appData r @ [b]\<rparr>))"
| "telnet_byte (St_Iac, r) b =
     (if b = IAC then (St_Data, r\<lparr>appData := appData r @ [IAC]\<rparr>)
      else if b = WILL then (St_Will, r)
      else if b = WONT then (St_Wont, r)
      else if b = DO then (St_Do, r)
      else if b = DONT then (St_Dont, r)
      else if b = SB then (St_Sb, r)
      else (St_Data, r))"
| "telnet_byte (St_Will, r) b = (St_Data, r\<lparr>response := negotiate WILL b (response r)\<rparr>)"
| "telnet_byte (St_Wont, r) b = (St_Data, r\<lparr>response := negotiate WONT b (response r)\<rparr>)"
| "telnet_byte (St_Do, r) b = (St_Data, r\<lparr>response := negotiate DO b (response r)\<rparr>)"
| "telnet_byte (St_Dont, r) b = (St_Data, r\<lparr>response := negotiate DONT b (response r)\<rparr>)"
| "telnet_byte (St_Sb, r) b = (if b = IAC then St_SbIac else St_Sb, r)"
| "telnet_byte (St_SbIac, r) b = (if b = SE then St_Data else St_Sb, r)"

definition process :: "St \<Rightarrow> bytes \<Rightarrow> St \<times> telnet_result" where
  "process st in_bytes = foldl telnet_byte (st, \<lparr>appData = [], response = []\<rparr>) in_bytes"

section \<open>Chunks\<close>

definition result_cat :: "telnet_result \<Rightarrow> telnet_result \<Rightarrow> telnet_result" where
  "result_cat x y = \<lparr>appData = appData x @ appData y, response = response x @ response y\<rparr>"

abbreviation "result_nil \<equiv> \<lparr>appData = [], response = []\<rparr> :: telnet_result"

lemma negotiate_append: "negotiate v o' resp = resp @ negotiate v o' []"
  by (simp add: negotiate_def Let_def)

lemma telnet_byte_acc:
  "telnet_byte (s, acc) b =
     (fst (telnet_byte (s, result_nil) b), result_cat acc (snd (telnet_byte (s, result_nil) b)))"
  by (cases s) (simp_all add: result_cat_def negotiate_append [of _ _ "response acc"])

lemma telnet_foldl_acc:
  "foldl telnet_byte (s, acc) bs = (fst (process s bs), result_cat acc (snd (process s bs)))"
  unfolding process_def
  by (rule foldl_scan_append [where nil = result_nil and cat = result_cat])
    (rule telnet_byte_acc, simp_all add: result_cat_def)

lemma process_append:
  "process s (xs @ ys) =
     (let (s1, o1) = process s xs; (s2, o2) = process s1 ys in (s2, result_cat o1 o2))"
proof -
  have "process s (xs @ ys) = foldl telnet_byte (process s xs) ys"
    by (simp add: process_def)
  then show ?thesis
    using telnet_foldl_acc [of "fst (process s xs)" "snd (process s xs)" ys]
    by (simp add: split_def Let_def)
qed

lemma process_Nil [simp]: "process s [] = (s, result_nil)"
  by (simp add: process_def)

interpretation telnet: chunked_scanner result_cat result_nil process
  by unfold_locales (simp_all add: process_append)

section \<open>The stream grammar of RFC 854\<close>

text \<open>
  What a server may send, as a list of items, and how each item looks on the wire. A
  subnegotiation payload has its \<open>IAC\<close> bytes doubled.
\<close>

datatype telnet_item =
    Plain byte
  | Quoted
  | Command byte
  | Negotiation byte byte
  | Subnegotiation bytes

definition stuff :: "bytes \<Rightarrow> bytes" where
  "stuff p = concat (map (\<lambda>b. if b = IAC then [IAC, IAC] else [b]) p)"

fun wire :: "telnet_item \<Rightarrow> bytes" where
  "wire (Plain b) = [b]"
| "wire Quoted = [IAC, IAC]"
| "wire (Command c) = [IAC, c]"
| "wire (Negotiation v opt) = [IAC, v, opt]"
| "wire (Subnegotiation p) = [IAC, SB] @ stuff p @ [IAC, SE]"

fun wf_item :: "telnet_item \<Rightarrow> bool" where
  "wf_item (Plain b) = (b \<noteq> IAC)"
| "wf_item (Command c) = (c \<notin> {IAC, WILL, WONT, DO, DONT, SB})"
| "wf_item (Negotiation v opt) = (v \<in> {WILL, WONT, DO, DONT})"
| "wf_item _ = True"

text \<open>The meaning of an item: the data it carries, and the answer policy of the client
  (accept the server's \<open>ECHO\<close>, and \<open>SGA\<close> in both directions; refuse the rest).\<close>

fun item_data :: "telnet_item \<Rightarrow> bytes" where
  "item_data (Plain b) = [b]"
| "item_data Quoted = [IAC]"
| "item_data _ = []"

definition answer_verb :: "byte \<Rightarrow> byte \<Rightarrow> byte" where
  "answer_verb v opt =
     (if v = WILL \<and> opt \<in> {OPT_ECHO, OPT_SGA} then DO
      else if v = DO \<and> opt = OPT_SGA then WILL
      else if v \<in> {WILL, WONT} then DONT else WONT)"

fun item_answer :: "telnet_item \<Rightarrow> bytes" where
  "item_answer (Negotiation v opt) = [IAC, answer_verb v opt, opt]"
| "item_answer _ = []"

lemma process_stuff: "process St_Sb (stuff p) = (St_Sb, result_nil)"
proof (induction p)
  case (Cons b p)
  have "process St_Sb (if b = IAC then [IAC, IAC] else [b]) = (St_Sb, result_nil)"
    by (simp add: process_def)
  with Cons show ?case
    by (simp add: stuff_def process_append result_cat_def)
qed (simp add: stuff_def)

lemma process_item:
  assumes "wf_item it"
  shows "process St_Data (wire it) = (St_Data, \<lparr>appData = item_data it, response = item_answer it\<rparr>)"
proof (cases it)
  case (Subnegotiation p)
  have "process St_Data [IAC, SB] = (St_Sb, result_nil)"
    and "process St_Sb [IAC, SE] = (St_Data, result_nil)"
    by (simp_all add: process_def)
  with Subnegotiation show ?thesis
    by (simp only: wire.simps process_append process_stuff Let_def split_def fst_conv snd_conv)
      (simp add: result_cat_def)
qed (use assms in \<open>auto simp: process_def negotiate_def answer_verb_def Let_def\<close>)

lemma process_items:
  assumes "list_all wf_item items"
  shows "process St_Data (concat (map wire items)) =
    (St_Data, \<lparr>appData = concat (map item_data items), response = concat (map item_answer items)\<rparr>)"
  using assms
  by (induction items) (simp_all add: process_append process_item result_cat_def)

section \<open>What may be answered\<close>

definition allowed_reply :: "byte \<times> byte \<Rightarrow> bool" where
  "allowed_reply r =
     (case r of (v, opt) \<Rightarrow>
        (v = WILL \<and> opt = OPT_SGA) \<or> (v = DO \<and> opt \<in> {OPT_ECHO, OPT_SGA}) \<or> v = WONT \<or> v = DONT)"

definition wellformed_replies :: "bytes \<Rightarrow> bool" where
  "wellformed_replies resp =
     (\<exists>rs. list_all allowed_reply rs \<and> resp = concat (map (\<lambda>(v, opt). [IAC, v, opt]) rs))"

lemma wellformed_replies_Nil: "wellformed_replies []"
  unfolding wellformed_replies_def by (rule exI [of _ "[]"]) simp

lemma wellformed_replies_snoc:
  assumes "wellformed_replies resp" and "allowed_reply (v, opt)"
  shows "wellformed_replies (resp @ [IAC, v, opt])"
proof -
  from assms(1) obtain rs where "list_all allowed_reply rs" "resp = concat (map (\<lambda>(v, opt). [IAC, v, opt]) rs)"
    unfolding wellformed_replies_def by blast
  with assms(2) show ?thesis
    unfolding wellformed_replies_def by (intro exI [of _ "rs @ [(v, opt)]"]) simp
qed

lemma negotiate_replies: "wellformed_replies resp \<Longrightarrow> wellformed_replies (negotiate v opt resp)"
  by (simp add: negotiate_def Let_def wellformed_replies_snoc allowed_reply_def)

lemma telnet_byte_replies:
  "wellformed_replies (response r) \<Longrightarrow> wellformed_replies (response (snd (telnet_byte (s, r) b)))"
  by (cases s) (simp_all add: negotiate_replies)

lemma foldl_replies:
  "wellformed_replies (response r) \<Longrightarrow> wellformed_replies (response (snd (foldl telnet_byte (s, r) bs)))"
proof (induction bs arbitrary: s r)
  case (Cons b bs)
  obtain s' r' where "telnet_byte (s, r) b = (s', r')" by fastforce
  with Cons telnet_byte_replies [of r s b] show ?case by simp
qed simp

section \<open>Properties\<close>

text \<open>However the network cuts a well-formed Telnet stream into reads, the terminal
  receives exactly the data of the stream, every option request is answered once, in order and
  by the client's policy, and the processor ends ready for more data.\<close>

theorem telnet_any_chunking:
  assumes "list_all wf_item items" and "concat chunks = concat (map wire items)"
  shows "feed result_cat result_nil process St_Data chunks =
    (St_Data, \<lparr>appData = concat (map item_data items), response = concat (map item_answer items)\<rparr>)"
  using assms by (simp add: telnet.feed_concat process_items)

theorem telnet_any_chunking_witness:
  "feed result_cat result_nil process St_Data [[104, IAC], [WILL, OPT_ECHO, IAC], [IAC, 105]] =
    (St_Data, \<lparr>appData = [104, IAC, 105], response = [IAC, DO, OPT_ECHO]\<rparr>)"
  using telnet_any_chunking [of "[Plain 104, Negotiation WILL OPT_ECHO, Quoted, Plain 105]"
      "[[104, IAC], [WILL, OPT_ECHO, IAC], [IAC, 105]]"]
  by (simp add: answer_verb_def)

text \<open>Whatever bytes arrive, in whatever state, the reply to the server is a sequence of
  three-byte option answers that never accept anything but \<open>ECHO\<close> and \<open>SGA\<close> from the server and
  never offer anything but \<open>SGA\<close>.\<close>

theorem telnet_replies_policy: "wellformed_replies (response (snd (process s bs)))"
  unfolding process_def by (rule foldl_replies) (simp add: wellformed_replies_Nil)

end
