(* ===== verification/Field_Codec.thy ===== *)
theory Field_Codec
  imports Prelude
begin

text \<open>
  The contract of the wire formats of the program: a field is appended to a buffer by
  \<open>put\<close> and read back at an offset by \<open>get\<close>, which answers the value and the offset behind it,
  or \<open>None\<close> when the buffer is too short. Fields occupy a multiple of \<open>unit\<close> bytes (4 for XDR, 1
  elsewhere), \<open>wf\<close> says which values the format can carry and \<open>legal\<close> which buffers a reader
  may be given (a datagram has a maximal size). The law is that \<open>get\<close> reads
  what \<open>put\<close> wrote, wherever it stands and whatever follows. The clients' lemmas: a sequence
  of fields reads back, and the format is unambiguous.
\<close>

primrec get_seq :: "(bytes \<Rightarrow> nat \<Rightarrow> ('a \<times> nat) option) \<Rightarrow> nat \<Rightarrow> bytes \<Rightarrow> nat \<Rightarrow> ('a list \<times> nat) option" where
  "get_seq get 0 buf pos = Some ([], pos)"
| "get_seq get (Suc n) buf pos =
     (case get buf pos of None \<Rightarrow> None
      | Some (x, pos') \<Rightarrow>
          (case get_seq get n buf pos' of None \<Rightarrow> None
           | Some (xs, pos'') \<Rightarrow> Some (x # xs, pos'')))"

locale field_codec =
  fixes unit :: nat and wf :: "'a \<Rightarrow> bool" and legal :: "bytes \<Rightarrow> bool"
    and put :: "'a \<Rightarrow> bytes" and get :: "bytes \<Rightarrow> nat \<Rightarrow> ('a \<times> nat) option"
  assumes unit_pos: "0 < unit"
    and put_unit: "wf x \<Longrightarrow> length (put x) mod unit = 0"
    and get_put: "wf x \<Longrightarrow> length pre mod unit = 0 \<Longrightarrow> legal (pre @ put x @ post) \<Longrightarrow>
      get (pre @ put x @ post) (length pre) = Some (x, length pre + length (put x))"
begin

lemma get_put_front: "wf x \<Longrightarrow> legal (put x @ post) \<Longrightarrow> get (put x @ post) 0 = Some (x, length (put x))"
  using get_put [of x "[]" post] by simp

lemma get_seq_put:
  assumes "list_all wf xs" and "length pre mod unit = 0"
    and "legal (pre @ concat (map put xs) @ post)"
  shows "get_seq get (length xs) (pre @ concat (map put xs) @ post) (length pre) =
    Some (xs, length pre + length (concat (map put xs)))"
  using assms
proof (induction xs arbitrary: pre)
  case (Cons x xs)
  then have x: "wf x" and xs: "list_all wf xs" by simp_all
  have "length (pre @ put x) mod unit = 0"
    using Cons.prems(2) put_unit [OF x] by (metis length_append mod_add_self1 mod_add_eq add_0 mod_0)
  with Cons.IH [OF xs this] get_put [OF x Cons.prems(2), of "concat (map put xs) @ post"] Cons.prems(3)
  show ?case by (simp add: add.assoc)
qed simp

lemma put_inj:
  assumes "wf x" and "wf y" and "legal (put x @ p)" and eq: "put x @ p = put y @ q"
  shows "x = y \<and> p = q"
proof -
  have "legal (put y @ q)" using assms(3) unfolding eq .
  then have y: "get (put y @ q) 0 = Some (y, length (put y))" by (rule get_put_front [OF assms(2)])
  have x: "get (put x @ p) 0 = Some (x, length (put x))" by (rule get_put_front [OF assms(1,3)])
  have "x = y" using x y unfolding eq by (simp only: option.inject prod.inject)
  with eq show ?thesis by simp
qed

end

text \<open>Four-byte and two-byte big-endian reads at an offset, for every format.\<close>

definition get32 :: "bytes \<Rightarrow> nat \<Rightarrow> (u32 \<times> nat) option" where
  "get32 buf pos =
     (if length buf < pos + 4 then None
      else Some (join32 (buf ! pos) (buf ! (pos + 1)) (buf ! (pos + 2)) (buf ! (pos + 3)), pos + 4))"

lemma get32_put: "get32 (pre @ be32 v @ post) (length pre) = Some (v, length pre + 4)"
proof -
  have nth: "(pre @ be32 v @ post) ! (length pre + i) = be32 v ! i" if "i < 4" for i
    using that by (simp add: nth_append)
  show ?thesis
    using nth [of 0] nth [of 1] nth [of 2] nth [of 3]
    by (simp add: get32_def be32_def codec)
qed

interpretation f32: field_codec 1 "\<lambda>_. True" "\<lambda>_. True" be32 get32
  by unfold_locales (simp_all add: get32_put)

interpretation f32x4: field_codec 4 "\<lambda>_. True" "\<lambda>_. True" be32 get32
  by unfold_locales (simp_all add: get32_put)

end
