(* ===== verification/Xdr.thy ===== *)
theory Xdr
  imports Field_Codec Qt_Core
begin

text \<open>
  The XDR reader and writer of the NFS server, \<open>src/src/tools/Xdr.{h,cpp}\<close>. A writer is its
  buffer; a reader is a buffer and a position. A read answers the value, the new value of the
  caller's \<open>ok\<close> flag (set to true or false by every read) and the reader behind it.
\<close>

section \<open>Writer\<close>

definition w_u32 :: "bytes \<Rightarrow> u32 \<Rightarrow> bytes" where
  "w_u32 buf v = buf @ be32 v"

definition w_u64 :: "bytes \<Rightarrow> u64 \<Rightarrow> bytes" where
  "w_u64 buf v = w_u32 (w_u32 buf (ucast (drop_bit 32 v))) (ucast v)"

function pad_loop :: "bytes \<Rightarrow> bytes" where
  "pad_loop buf = (if length buf mod 4 \<noteq> 0 then pad_loop (buf @ [0]) else buf)"
  by pat_completeness auto
termination
  by (relation "measure (\<lambda>buf. pad_count (length buf))") (simp_all add: pad_count_Suc)

declare pad_loop.simps [simp del]

definition w_opaqueFixed :: "bytes \<Rightarrow> bytes \<Rightarrow> bytes" where
  "w_opaqueFixed buf b = pad_loop (buf @ b)"

definition w_opaqueVar :: "bytes \<Rightarrow> bytes \<Rightarrow> bytes" where
  "w_opaqueVar buf b = w_opaqueFixed (w_u32 buf (of_nat (length b))) b"

section \<open>Reader\<close>

record xdr_reader =
  m_buf :: bytes
  m_pos :: nat

definition r_u32 :: "xdr_reader \<Rightarrow> u32 \<times> bool \<times> xdr_reader" where
  "r_u32 r =
     (if length (m_buf r) < m_pos r + 4 then (0, False, r)
      else let p = m_pos r; b = m_buf r
           in (join32 (b ! p) (b ! (p + 1)) (b ! (p + 2)) (b ! (p + 3)), True, r\<lparr>m_pos := p + 4\<rparr>))"

definition r_u64 :: "xdr_reader \<Rightarrow> u64 \<times> bool \<times> xdr_reader" where
  "r_u64 r =
     (let (hi, a, r1) = r_u32 r; (lo, b, r2) = r_u32 r1
      in (push_bit 32 (ucast hi) OR ucast lo, a \<and> b, r2))"

text \<open>\<open>(n + 3) & ~3\<close> rounds \<open>n + 3\<close> down to a multiple of four.\<close>

definition r_opaqueFixed :: "nat \<Rightarrow> xdr_reader \<Rightarrow> bytes \<times> bool \<times> xdr_reader" where
  "r_opaqueFixed n r =
     (let padded = (n + 3) div 4 * 4
      in if length (m_buf r) < m_pos r + padded then ([], False, r)
         else (take n (drop (m_pos r) (m_buf r)), True, r\<lparr>m_pos := m_pos r + padded\<rparr>))"

definition r_opaqueVar :: "xdr_reader \<Rightarrow> bytes \<times> bool \<times> xdr_reader" where
  "r_opaqueVar r =
     (let (n, a, r1) = r_u32 r
      in if \<not> a \<or> (of_nat (length (m_buf r1)) :: u32) < n then ([], False, r1)
         else r_opaqueFixed (unat n) r1)"

section \<open>Padding\<close>

lemma pad_loop_eq: "pad_loop buf = buf @ replicate (pad_count (length buf)) 0"
proof (induction buf rule: pad_loop.induct)
  case (1 buf)
  show ?case
  proof (cases "length buf mod 4 = 0")
    case True
    then show ?thesis by (simp add: pad_loop.simps pad_count_0)
  next
    case False
    with 1 show ?thesis
      by (simp add: pad_loop.simps [of buf] pad_count_Suc)
  qed
qed

definition padding :: "bytes \<Rightarrow> bytes" where
  "padding b = replicate (pad_count (length b)) 0"

lemma w_opaqueFixed_aligned:
  "length buf mod 4 = 0 \<Longrightarrow> w_opaqueFixed buf b = buf @ b @ padding b"
  by (simp add: w_opaqueFixed_def pad_loop_eq padding_def pad_count_add)

lemma w_opaqueVar_aligned:
  "length buf mod 4 = 0 \<Longrightarrow> w_opaqueVar buf b = buf @ be32 (of_nat (length b)) @ b @ padding b"
  by (simp add: w_opaqueVar_def w_u32_def w_opaqueFixed_aligned)

lemma length_padded: "length b + length (padding b) = (length b + 3) div 4 * 4"
  by (simp add: padding_def pad_count_total)

section \<open>Round trips\<close>

text \<open>A reading operation as the \<open>get\<close> of a field codec.\<close>

definition reader_get :: "(xdr_reader \<Rightarrow> 'a \<times> bool \<times> xdr_reader) \<Rightarrow> bytes \<Rightarrow> nat \<Rightarrow> ('a \<times> nat) option" where
  "reader_get rd buf pos =
     (case rd \<lparr>m_buf = buf, m_pos = pos\<rparr> of (x, k, r) \<Rightarrow> if k then Some (x, m_pos r) else None)"

lemma r_u32_get32:
  "r_u32 r = (case get32 (m_buf r) (m_pos r) of None \<Rightarrow> (0, False, r)
              | Some (v, p) \<Rightarrow> (v, True, r\<lparr>m_pos := p\<rparr>))"
  by (simp add: r_u32_def get32_def Let_def)

lemma reader_get_u32: "reader_get r_u32 = get32"
  by (intro ext) (simp add: reader_get_def r_u32_get32 split: option.split prod.split)

definition xdr_opaque :: "bytes \<Rightarrow> bytes" where
  "xdr_opaque b = w_opaqueVar [] b"

lemma xdr_opaque_eq: "xdr_opaque b = be32 (of_nat (length b)) @ b @ padding b"
  by (simp add: xdr_opaque_def w_opaqueVar_aligned)

lemma length_xdr_opaque: "length (xdr_opaque b) = 4 + (length b + 3) div 4 * 4"
  using length_padded [of b] by (simp add: xdr_opaque_eq)

text \<open>
  The reader compares the length field with the whole buffer's size as a 32-bit number; a UDP
  datagram is far below that, hence the bound on the buffer.
\<close>

lemma r_opaqueVar_put:
  assumes "length (pre @ xdr_opaque b @ post) < 2 ^ 31"
  shows "r_opaqueVar \<lparr>m_buf = pre @ xdr_opaque b @ post, m_pos = length pre\<rparr> =
    (b, True, \<lparr>m_buf = pre @ xdr_opaque b @ post, m_pos = length pre + length (xdr_opaque b)\<rparr>)"
proof -
  let ?buf = "pre @ xdr_opaque b @ post"
  have buf: "?buf = pre @ be32 (of_nat (length b)) @ (b @ padding b @ post)"
    by (simp add: xdr_opaque_eq)
  have lb: "length b \<le> length ?buf"
    by (simp add: xdr_opaque_eq)
  have un: "unat (of_nat (length b) :: u32) = length b" "unat (of_nat (length ?buf) :: u32) = length ?buf"
    by (rule unat_of_nat_small, use assms lb in simp)+
  have "r_u32 \<lparr>m_buf = ?buf, m_pos = length pre\<rparr> =
      (of_nat (length b), True, \<lparr>m_buf = ?buf, m_pos = length pre + 4\<rparr>)"
    using get32_put [of pre "of_nat (length b)" "b @ padding b @ post"]
    by (simp add: r_u32_get32 buf [symmetric])
  moreover have "\<not> (of_nat (length ?buf) :: u32) < of_nat (length b)"
    unfolding word_less_nat_alt un using lb by simp
  moreover have "drop (length pre + 4) ?buf = b @ padding b @ post"
    by (simp add: xdr_opaque_eq)
  moreover have "length pre + 4 + (length b + 3) div 4 * 4 \<le> length ?buf"
    using length_xdr_opaque [of b] by simp
  ultimately show ?thesis
    by (simp add: r_opaqueVar_def r_opaqueFixed_def un(1) length_xdr_opaque Let_def)
qed

text \<open>
  XDR fields as codecs: 32-bit and 64-bit integers and variable-length opaques, all in units
  of four bytes.
\<close>

definition datagram :: "bytes \<Rightarrow> bool" where
  "datagram buf \<longleftrightarrow> length buf < 2 ^ 31"

interpretation xdr_u32: field_codec 4 "\<lambda>_. True" "\<lambda>_. True" "w_u32 []" "reader_get r_u32"
  by unfold_locales (simp_all add: reader_get_u32 w_u32_def get32_put)

lemma r_u64_put:
  "r_u64 \<lparr>m_buf = pre @ w_u64 [] v @ post, m_pos = length pre\<rparr> =
    (v, True, \<lparr>m_buf = pre @ w_u64 [] v @ post, m_pos = length pre + 8\<rparr>)"
proof -
  let ?hi = "ucast (drop_bit 32 v) :: u32" and ?lo = "ucast v :: u32"
  have buf: "pre @ w_u64 [] v @ post = pre @ be32 ?hi @ (be32 ?lo @ post)"
    by (simp add: w_u64_def w_u32_def)
  have "push_bit 32 (ucast ?hi) OR ucast ?lo = v"
    by (rule bit_word_eqI, rename_tac n, case_tac "n < 32"; auto simp: bit_simps not_le)
  then show ?thesis
    using get32_put [of pre ?hi "be32 ?lo @ post"] get32_put [of "pre @ be32 ?hi" ?lo post]
    by (simp add: r_u64_def r_u32_get32 buf)
qed

interpretation xdr_u64: field_codec 4 "\<lambda>_. True" "\<lambda>_. True" "w_u64 []" "reader_get r_u64"
  by unfold_locales (simp_all add: reader_get_def r_u64_put, simp_all add: w_u64_def w_u32_def)

interpretation xdr_blob: field_codec 4 "\<lambda>_. True" datagram xdr_opaque "reader_get r_opaqueVar"
  by unfold_locales (simp_all add: reader_get_def r_opaqueVar_put datagram_def length_xdr_opaque)

section \<open>Properties\<close>

text \<open>Any sequence of opaque values written one after the other by the XDR writer is read
  back by the reader, value by value, up to exactly the end of what was written.\<close>

theorem xdr_opaque_sequence:
  assumes "length (concat (map xdr_opaque bs) @ post) < 2 ^ 31"
  shows "get_seq (reader_get r_opaqueVar) (length bs) (concat (map xdr_opaque bs) @ post) 0 =
    Some (bs, length (concat (map xdr_opaque bs)))"
  using assms xdr_blob.get_seq_put [of bs "[]" post] by (simp add: datagram_def list_all_iff)

theorem xdr_opaque_sequence_witness:
  "get_seq (reader_get r_opaqueVar) 2 ([0,0,0,1, 7,0,0,0, 0,0,0,0] @ [9]) 0 = Some ([[7], []], 12)"
proof -
  have "xdr_opaque [7] = [0,0,0,1, 7,0,0,0]" "xdr_opaque [] = [0,0,0,0]"
    by code_simp+
  then have c: "concat (map xdr_opaque [[7], []]) = [0,0,0,1, 7,0,0,0, 0,0,0,0]"
    by (simp only: list.map concat.simps append.simps)
  have n: "length [[7], [] :: bytes] = 2" "length ([0,0,0,1, 7,0,0,0, 0,0,0,0] :: bytes) = 12"
    by simp_all
  show ?thesis
    using xdr_opaque_sequence [of "[[7], []]" "[9]"] unfolding c n by simp
qed

end
