(* ===== verification/Remote_Path.thy ===== *)
theory Remote_Path
  imports Qt_Core
begin

text \<open>
  POSIX path helpers of the file browsers and the light servers,
  \<open>src/src/sftp/RemotePath.{h,cpp}\<close>: resolution of \<open>.\<close> and \<open>..\<close> segments, joining, parent and
  base name.
\<close>

section \<open>The operations\<close>

text \<open>The loop body over the segments of the path.\<close>

definition norm_seg :: "bool \<Rightarrow> string list \<Rightarrow> string \<Rightarrow> string list" where
  "norm_seg absolute out seg =
     (if seg = ''.'' then out
      else if seg = ''..'' then
        (if out \<noteq> [] \<and> last out \<noteq> ''..'' then butlast out
         else if \<not> absolute then out @ [''..''] else out)
      else out @ [seg])"

definition normalize :: "string \<Rightarrow> string" where
  "normalize path =
     (if path = [] then ''/''
      else let absolute = starts_with ''/'' path;
               raw = split_skip CHR ''/'' path;
               out = foldl (norm_seg absolute) [] raw;
               result = (if absolute then ''/'' else []) @ join_with ''/'' out
           in if result = [] then (if absolute then ''/'' else ''.'') else result)"

definition join_path :: "string \<Rightarrow> string \<Rightarrow> string" where
  "join_path base child =
     (if starts_with ''/'' child then normalize child else normalize (base @ ''/'' @ child))"

definition parent :: "string \<Rightarrow> string" where
  "parent path =
     (let n = normalize path
      in if n = ''/'' then n
         else (case last_index_of CHR ''/'' n of
                 None \<Rightarrow> ''/''
               | Some slash \<Rightarrow> if slash = 0 then ''/'' else take slash n))"

definition baseName :: "string \<Rightarrow> string" where
  "baseName path =
     (let n = normalize path
      in if n = ''/'' then []
         else (case last_index_of CHR ''/'' n of None \<Rightarrow> n | Some slash \<Rightarrow> drop (Suc slash) n))"

section \<open>Segments\<close>

text \<open>A proper segment names an entry; a clean path is a list of proper segments.\<close>

definition proper_seg :: "string \<Rightarrow> bool" where
  "proper_seg s \<longleftrightarrow> s \<noteq> [] \<and> s \<noteq> ''.'' \<and> s \<noteq> ''..'' \<and> CHR ''/'' \<notin> set s"

definition abs_path :: "string list \<Rightarrow> string" where
  "abs_path segs = CHR ''/'' # join_with ''/'' segs"

definition resolve_segs :: "string list \<Rightarrow> string list" where
  "resolve_segs segs = foldl (norm_seg True) [] segs"

definition good_segs :: "string list \<Rightarrow> bool" where
  "good_segs segs \<longleftrightarrow> list_all (\<lambda>s. s \<noteq> [] \<and> CHR ''/'' \<notin> set s) segs"

lemma good_segs_split_skip [simp]: "good_segs (split_skip CHR ''/'' s)"
  by (auto simp: good_segs_def list_all_iff dest: split_skip_part)

lemma good_segs_simps [simp]:
  "good_segs []"
  "good_segs (s # ss) \<longleftrightarrow> s \<noteq> [] \<and> CHR ''/'' \<notin> set s \<and> good_segs ss"
  "good_segs (ss @ ts) \<longleftrightarrow> good_segs ss \<and> good_segs ts"
  by (auto simp: good_segs_def)

lemma norm_seg_proper:
  assumes "list_all proper_seg out" and "seg \<noteq> []" and "CHR ''/'' \<notin> set seg"
  shows "list_all proper_seg (norm_seg True out seg)"
  using assms by (auto simp: norm_seg_def proper_seg_def list_all_iff dest: in_set_butlastD)

lemma foldl_norm_proper:
  "list_all proper_seg out \<Longrightarrow> good_segs segs \<Longrightarrow> list_all proper_seg (foldl (norm_seg True) out segs)"
  by (induction segs arbitrary: out) (simp_all add: norm_seg_proper)

lemma resolve_segs_proper: "good_segs segs \<Longrightarrow> list_all proper_seg (resolve_segs segs)"
  by (simp add: resolve_segs_def foldl_norm_proper)

lemma norm_seg_id: "proper_seg s \<Longrightarrow> norm_seg a out s = out @ [s]"
  by (auto simp: norm_seg_def proper_seg_def)

lemma foldl_norm_id: "list_all proper_seg segs \<Longrightarrow> foldl (norm_seg a) out segs = out @ segs"
  by (induction segs arbitrary: out) (simp_all add: norm_seg_id)

lemma resolve_segs_id: "list_all proper_seg segs \<Longrightarrow> resolve_segs segs = segs"
  by (simp add: resolve_segs_def foldl_norm_id)

lemma resolve_segs_append: "good_segs xs \<Longrightarrow> resolve_segs (resolve_segs xs @ ys) = resolve_segs (xs @ ys)"
  using resolve_segs_id [OF resolve_segs_proper, of xs] by (simp add: resolve_segs_def)

section \<open>Absolute paths\<close>

lemma starts_with_slash [simp]: "starts_with ''/'' (CHR ''/'' # p)" "starts_with ''/'' p \<longleftrightarrow> (p \<noteq> [] \<and> hd p = CHR ''/'')"
  by (cases p; simp add: starts_with_def)+

lemma normalize_abs:
  "normalize (CHR ''/'' # p) = abs_path (resolve_segs (split_skip CHR ''/'' p))"
  by (simp add: normalize_def abs_path_def resolve_segs_def Let_def)

lemma split_skip_abs_path:
  "list_all proper_seg segs \<Longrightarrow> split_skip CHR ''/'' (abs_path segs) = segs"
  by (auto simp: abs_path_def list_all_iff proper_seg_def intro!: split_skip_join)

lemma normalize_abs_path: "list_all proper_seg segs \<Longrightarrow> normalize (abs_path segs) = abs_path segs"
  using split_skip_abs_path [of segs]
  by (simp add: abs_path_def normalize_abs resolve_segs_id)

lemma normalize_absE:
  obtains segs where "list_all proper_seg segs" "normalize (CHR ''/'' # p) = abs_path segs"
  using resolve_segs_proper [OF good_segs_split_skip] normalize_abs by metis

lemma normalize_append:
  "normalize (CHR ''/'' # p @ CHR ''/'' # q) =
    abs_path (resolve_segs (split_skip CHR ''/'' p @ split_skip CHR ''/'' q))"
  by (simp add: normalize_abs split_skip_append)

lemma abs_path_snoc: "abs_path (segs @ [s]) = (if segs = [] then [] else abs_path segs) @ CHR ''/'' # s"
  by (induction segs rule: induct_list012) (simp_all add: abs_path_def)

lemma abs_path_inj:
  "list_all proper_seg xs \<Longrightarrow> list_all proper_seg ys \<Longrightarrow> abs_path xs = abs_path ys \<Longrightarrow> xs = ys"
  by (metis split_skip_abs_path)

lemma normalize_absI: "starts_with ''/'' p \<Longrightarrow> normalize p = abs_path (resolve_segs (split_skip CHR ''/'' p))"
  by (cases p) (simp_all add: normalize_abs)

lemma normalize_abs_starts: "starts_with ''/'' p \<Longrightarrow> starts_with ''/'' (normalize p)"
  by (simp add: normalize_absI abs_path_def)

section \<open>Relative paths\<close>

text \<open>The segments of a clean relative path: some \<open>..\<close>, then proper segments.\<close>

definition rel_shape :: "string list \<Rightarrow> bool" where
  "rel_shape out \<longleftrightarrow> (\<exists>k segs. out = replicate k ''..'' @ segs \<and> list_all proper_seg segs)"

lemma rel_shapeI: "list_all proper_seg segs \<Longrightarrow> rel_shape (replicate k ''..'' @ segs)"
  by (auto simp: rel_shape_def)

lemma norm_seg_rel:
  assumes "rel_shape out" and "seg \<noteq> []" and "CHR ''/'' \<notin> set seg"
  shows "rel_shape (norm_seg False out seg)"
proof -
  from assms(1) obtain k segs where out: "out = replicate k ''..'' @ segs" and ps: "list_all proper_seg segs"
    by (auto simp: rel_shape_def)
  consider "seg = ''.''" | "seg = ''..''" | "proper_seg seg"
    using assms by (auto simp: proper_seg_def)
  then show ?thesis
  proof cases
    case 2
    show ?thesis
    proof (cases segs rule: rev_cases)
      case Nil
      have "norm_seg False out seg = replicate (Suc k) ''..'' @ []"
        using 2 Nil by (cases k) (simp_all add: norm_seg_def out replicate_append_same)
      then show ?thesis using rel_shapeI [of "[]"] by (simp del: replicate_Suc)
    next
      case (snoc ss s)
      with ps have "s \<noteq> ''..''" "list_all proper_seg ss" by (simp_all add: proper_seg_def)
      then show ?thesis using 2 snoc rel_shapeI [of ss] by (simp add: norm_seg_def out butlast_append)
    qed
  next
    case 3
    with ps rel_shapeI [of "segs @ [seg]" k] show ?thesis by (simp add: norm_seg_id out)
  qed (use assms in \<open>simp add: norm_seg_def\<close>)
qed

lemma foldl_norm_rel: "rel_shape out \<Longrightarrow> good_segs segs \<Longrightarrow> rel_shape (foldl (norm_seg False) out segs)"
  by (induction segs arbitrary: out) (simp_all add: norm_seg_rel)

lemma foldl_norm_dots: "foldl (norm_seg False) (replicate j ''..'') (replicate k ''..'') = replicate (j + k) ''..''"
proof (induction k arbitrary: j)
  case (Suc k)
  have "norm_seg False (replicate j ''..'') ''..'' = replicate (Suc j) ''..''"
    by (cases j) (simp_all add: norm_seg_def replicate_append_same)
  then show ?case using Suc [of "Suc j"] by simp
qed simp

lemma foldl_norm_rel_id:
  assumes "rel_shape out"
  shows "foldl (norm_seg False) [] out = out"
proof -
  from assms obtain k segs where out: "out = replicate k ''..'' @ segs" and ps: "list_all proper_seg segs"
    by (auto simp: rel_shape_def)
  show ?thesis
    unfolding out foldl_append using foldl_norm_dots [of 0 k] foldl_norm_id [OF ps] by simp
qed

lemma rel_shape_segs:
  assumes "rel_shape out"
  shows "\<forall>p \<in> set out. p \<noteq> [] \<and> CHR ''/'' \<notin> set p"
proof -
  from assms obtain k segs where out: "out = replicate k ''..'' @ segs" and ps: "list_all proper_seg segs"
    by (auto simp: rel_shape_def)
  have "p = ''..'' \<or> proper_seg p" if "p \<in> set out" for p
    using that ps by (auto simp: out list_all_iff)
  then show ?thesis by (fastforce simp: proper_seg_def)
qed

lemma rel_shape_no_dot: "rel_shape out \<Longrightarrow> ''.'' \<notin> set out"
  unfolding rel_shape_def list_all_iff by (fastforce simp: proper_seg_def)

lemma join_with_hd:
  assumes "ps \<noteq> []" and "\<forall>p \<in> set ps. p \<noteq> [] \<and> c \<notin> set p"
  shows "join_with s ps \<noteq> [] \<and> hd (join_with s ps) \<noteq> c"
proof -
  from assms(1) obtain q qs where ps: "ps = q # qs" by (cases ps) simp_all
  with assms(2) obtain x p where "q = x # p" "x \<noteq> c" by (cases q) auto
  with ps have "ps = (x # p) # qs" "x \<noteq> c" by simp_all
  then show ?thesis by (simp add: join_with_head)
qed

lemma normalize_rel:
  assumes "p \<noteq> []" and "\<not> starts_with ''/'' p"
  shows "\<exists>out. rel_shape out \<and> normalize p = (if out = [] then ''.'' else join_with ''/'' out)"
proof (intro exI conjI)
  let ?out = "foldl (norm_seg False) [] (split_skip CHR ''/'' p)"
  show rel: "rel_shape ?out"
    using rel_shapeI [of "[]" 0] by (intro foldl_norm_rel) simp_all
  show "normalize p = (if ?out = [] then ''.'' else join_with ''/'' ?out)"
    using assms join_with_hd [OF _ rel_shape_segs [OF rel]] by (simp add: normalize_def Let_def)
qed

lemma normalize_rel_id:
  assumes "rel_shape out"
  shows "normalize (if out = [] then ''.'' else join_with ''/'' out) = (if out = [] then ''.'' else join_with ''/'' out)"
proof (cases "out = []")
  case True
  then show ?thesis by (simp add: normalize_def norm_seg_def)
next
  case False
  have "split_skip CHR ''/'' (join_with ''/'' out) = out"
    by (rule split_skip_join) (rule rel_shape_segs [OF assms])
  with False show ?thesis
    using join_with_hd [OF False rel_shape_segs [OF assms]] foldl_norm_rel_id [OF assms]
    by (simp add: normalize_def Let_def)
qed

lemma normalize_rel_starts:
  assumes "p \<noteq> []" and "\<not> starts_with ''/'' p"
  shows "\<not> starts_with ''/'' (normalize p)"
proof -
  from normalize_rel [OF assms] obtain out where r: "rel_shape out"
    and n: "normalize p = (if out = [] then ''.'' else join_with ''/'' out)" by blast
  show ?thesis using join_with_hd [OF _ rel_shape_segs [OF r]] by (auto simp: n)
qed

section \<open>Joining\<close>

text \<open>Collapsing relative segments first does not change where they lead.\<close>

lemma foldl_norm_seg_rel:
  assumes "rel_shape acc" and "seg \<noteq> []" and "CHR ''/'' \<notin> set seg"
  shows "foldl (norm_seg True) out (norm_seg False acc seg) = norm_seg True (foldl (norm_seg True) out acc) seg"
proof -
  consider "seg = ''.''" | "seg = ''..''" "acc \<noteq> [] \<and> last acc \<noteq> ''..''"
    | "seg = ''..''" "\<not> (acc \<noteq> [] \<and> last acc \<noteq> ''..'')" | "proper_seg seg"
    using assms by (auto simp: proper_seg_def)
  then show ?thesis
  proof cases
    case 2
    then obtain as s where acc: "acc = as @ [s]" and "s \<noteq> ''..''"
      by (cases acc rule: rev_cases) auto
    moreover have "s \<noteq> ''.''"
      using rel_shape_no_dot [OF assms(1)] by (auto simp: acc)
    ultimately show ?thesis using 2 by (simp add: norm_seg_def)
  next
    case 4
    then show ?thesis by (simp add: norm_seg_id)
  next
    case 3
    then have "norm_seg False acc seg = acc @ [''..'']" by (auto simp: norm_seg_def)
    with 3 show ?thesis by simp
  qed (simp add: norm_seg_def)
qed

lemma foldl_norm_rel_abs:
  assumes "good_segs segs"
  shows "foldl (norm_seg True) out (foldl (norm_seg False) [] segs) = foldl (norm_seg True) out segs"
  using assms
proof (induction segs rule: rev_induct)
  case (snoc s ss)
  then have "rel_shape (foldl (norm_seg False) [] ss)"
    using rel_shapeI [of "[]" 0] by (intro foldl_norm_rel) simp_all
  with snoc show ?case by (simp add: foldl_norm_seg_rel)
qed simp

lemma split_skip_normalize_rel:
  assumes "p \<noteq> []" and "\<not> starts_with ''/'' p"
  shows "foldl (norm_seg True) out (split_skip CHR ''/'' (normalize p)) = foldl (norm_seg True) out (split_skip CHR ''/'' p)"
proof -
  let ?out = "foldl (norm_seg False) [] (split_skip CHR ''/'' p)"
  have rel: "rel_shape ?out"
    using rel_shapeI [of "[]" 0] by (intro foldl_norm_rel) simp_all
  have n: "normalize p = (if ?out = [] then ''.'' else join_with ''/'' ?out)"
    using assms join_with_hd [OF _ rel_shape_segs [OF rel]] by (simp add: normalize_def Let_def)
  have "foldl (norm_seg True) out (split_skip CHR ''/'' (normalize p)) = foldl (norm_seg True) out ?out"
    using split_skip_join [OF rel_shape_segs [OF rel]] by (auto simp: n norm_seg_def)
  then show ?thesis by (simp add: foldl_norm_rel_abs)
qed

lemma split_skip_normalize_abs:
  assumes "starts_with ''/'' p"
  shows "split_skip CHR ''/'' (normalize p) = resolve_segs (split_skip CHR ''/'' p)"
  by (simp add: normalize_absI [OF assms] split_skip_abs_path resolve_segs_proper)

lemma normalize_abs_twice: "starts_with ''/'' p \<Longrightarrow> normalize (normalize p) = normalize p"
  by (simp only: normalize_absI normalize_abs_path resolve_segs_proper good_segs_split_skip)

lemma join_path_rel:
  assumes "starts_with ''/'' base" and "\<not> starts_with ''/'' child"
  shows "join_path base child = abs_path (resolve_segs (split_skip CHR ''/'' base @ split_skip CHR ''/'' child))"
proof -
  from assms(1) obtain b where "base = CHR ''/'' # b" by (cases base) auto
  with assms(2) normalize_append [of b child] show ?thesis by (auto simp: join_path_def)
qed

lemma join_path_starts: "starts_with ''/'' base \<Longrightarrow> starts_with ''/'' (join_path base child)"
proof (cases "starts_with ''/'' child")
  case True
  then show ?thesis using normalize_abs_starts [OF True] by (simp only: join_path_def if_True)
next
  case False
  assume "starts_with ''/'' base"
  from join_path_rel [OF this False] show ?thesis by (simp add: abs_path_def)
qed

lemma split_skip_join_path:
  assumes "starts_with ''/'' base" and "\<not> starts_with ''/'' child"
  shows "split_skip CHR ''/'' (join_path base child) = resolve_segs (split_skip CHR ''/'' base @ split_skip CHR ''/'' child)"
  by (simp add: join_path_rel [OF assms] split_skip_abs_path resolve_segs_proper)

lemma join_abs_seg:
  assumes "list_all proper_seg ss" and "proper_seg s"
  shows "join_path (abs_path ss) s = abs_path (ss @ [s])"
proof -
  have ns: "\<not> starts_with ''/'' s" "split_skip CHR ''/'' s = [s]"
    using assms(2) hd_in_set [of s] by (simp add: proper_seg_def, metis) (use assms(2) in \<open>simp add: proper_seg_def\<close>)
  have "starts_with ''/'' (abs_path ss)" by (simp add: abs_path_def)
  from join_path_rel [OF this ns(1)] show ?thesis
    using assms by (simp add: split_skip_abs_path ns resolve_segs_id)
qed

lemma join_rel_rel:
  assumes "starts_with ''/'' base" and "rel \<noteq> []" and "\<not> starts_with ''/'' rel" and "\<not> starts_with ''/'' child"
  shows "join_path base (join_path rel child) = join_path (join_path base rel) child"
proof -
  let ?rc = "rel @ CHR ''/'' # child"
  have rc: "?rc \<noteq> []" "\<not> starts_with ''/'' ?rc" using assms by auto
  have "join_path base (normalize ?rc) =
      abs_path (foldl (norm_seg True) (resolve_segs (split_skip CHR ''/'' base)) (split_skip CHR ''/'' (normalize ?rc)))"
    unfolding join_path_rel [OF assms(1) normalize_rel_starts [OF rc]] by (simp add: resolve_segs_def)
  also have "\<dots> = abs_path (resolve_segs (split_skip CHR ''/'' base @ split_skip CHR ''/'' rel @ split_skip CHR ''/'' child))"
    unfolding split_skip_normalize_rel [OF rc] by (simp add: split_skip_append resolve_segs_def)
  also have "\<dots> = join_path (join_path base rel) child"
    using resolve_segs_append [of "split_skip CHR ''/'' base @ split_skip CHR ''/'' rel"]
    by (simp add: join_path_rel [OF join_path_starts [OF assms(1)] assms(4)] split_skip_join_path [OF assms(1,3)])
  finally show ?thesis using assms(4) by (auto simp: join_path_def [of rel])
qed

section \<open>Properties\<close>

lemma normalize_twice: "normalize (normalize p) = normalize p"
proof (cases "p = []")
  case True
  then show ?thesis by (simp add: normalize_def)
next
  case False
  show ?thesis
  proof (cases "starts_with ''/'' p")
    case True
    then show ?thesis by (rule normalize_abs_twice)
  next
    case rel: False
    from normalize_rel [OF False rel] obtain out where "rel_shape out"
      and "normalize p = (if out = [] then ''.'' else join_with ''/'' out)" by blast
    then show ?thesis by (simp only: normalize_rel_id)
  qed
qed

text \<open>Normalisation is canonical: a normalised path, absolute or relative, is a fixed point,
  and an absolute path becomes a slash followed by its segments, none of which is empty, \<open>.\<close> or
  \<open>..\<close>, so it cannot lead above the root.\<close>

theorem normalize_canonical:
  "normalize (normalize p) = normalize p \<and>
   (let segs = split_skip CHR ''/'' (normalize (CHR ''/'' # p))
    in list_all proper_seg segs \<and> normalize (CHR ''/'' # p) = CHR ''/'' # join_with ''/'' segs)"
proof -
  have "split_skip CHR ''/'' (normalize (CHR ''/'' # p)) = resolve_segs (split_skip CHR ''/'' p)"
    by (simp add: normalize_abs split_skip_abs_path resolve_segs_proper)
  then show ?thesis
    by (simp add: normalize_twice resolve_segs_proper normalize_abs abs_path_def Let_def)
qed

text \<open>Joining is associative when the middle part is not empty: a chain of names leads to
  the same absolute path whether it is first collapsed or followed step by step.\<close>

theorem join_assoc:
  assumes "starts_with ''/'' base" and "rel \<noteq> []"
  shows "join_path base (join_path rel child) = join_path (join_path base rel) child"
proof -
  consider (ca) "starts_with ''/'' child" | (ra) "starts_with ''/'' rel" "\<not> starts_with ''/'' child"
    | (rr) "\<not> starts_with ''/'' rel" "\<not> starts_with ''/'' child" by blast
  then show ?thesis
  proof cases
    case ca
    from ca normalize_abs_starts [OF ca] normalize_abs_twice [OF ca] show ?thesis
      by (simp only: join_path_def if_True)
  next
    case ra
    have "starts_with ''/'' (join_path rel child)" by (rule join_path_starts [OF ra(1)])
    with ra show ?thesis
      by (simp add: join_path_def [of base] join_path_rel normalize_abs_starts split_skip_normalize_abs
          normalize_abs_path resolve_segs_proper resolve_segs_append
          del: starts_with_slash)
  next
    case rr
    with join_rel_rel assms show ?thesis by blast
  qed
qed

theorem join_assoc_witness:
  "join_path ''/srv/a'' (join_path ''../b'' ''c'') = join_path (join_path ''/srv/a'' ''../b'') ''c''"
  by (rule join_assoc) (simp_all add: starts_with_def)

text \<open>Outside the root, a path is its parent joined with its base name, the base name is a
  proper segment, and the parent is a shorter path.\<close>

theorem parent_baseName:
  assumes "starts_with ''/'' p" and "normalize p \<noteq> ''/''"
  shows "join_path (parent p) (baseName p) = normalize p \<and> proper_seg (baseName p) \<and>
    length (parent p) < length (normalize p)"
proof -
  obtain segs where segs: "list_all proper_seg segs" and n: "normalize p = abs_path segs"
    using assms(1) normalize_absI resolve_segs_proper [OF good_segs_split_skip] by metis
  with assms(2) obtain ss s where ss: "segs = ss @ [s]"
    by (cases segs rule: rev_cases) (auto simp: abs_path_def)
  with segs have s: "proper_seg s" "CHR ''/'' \<notin> set s" and pss: "list_all proper_seg ss"
    by (auto simp: proper_seg_def)
  have "last_index_of CHR ''/'' (normalize p) = Some (length (if ss = [] then [] else abs_path ss))"
    unfolding n ss abs_path_snoc by (rule last_index_of_append_hit [OF s(2)])
  then have par: "parent p = abs_path ss" and bn: "baseName p = s"
    using assms(2) by (auto simp: parent_def baseName_def n ss abs_path_snoc Let_def) (simp_all add: abs_path_def)
  have "join_path (parent p) (baseName p) = normalize p"
    using join_abs_seg [OF pss s(1)] by (simp add: par bn n ss)
  moreover have "length (parent p) < length (normalize p)"
    using s(1) by (auto simp: par n ss abs_path_snoc proper_seg_def) (auto simp: abs_path_def)
  ultimately show ?thesis by (simp add: bn s)
qed

theorem parent_baseName_witness:
  "join_path (parent ''/srv/../x'') (baseName ''/srv/../x'') = normalize ''/srv/../x'' \<and>
   proper_seg (baseName ''/srv/../x'') \<and> length (parent ''/srv/../x'') < length (normalize ''/srv/../x'')"
  by (rule parent_baseName) code_simp+

end
