(* ===== verification/Host.thy ===== *)
theory Host
  imports Remote_Path
begin

text \<open>
  What the program asks of the host and does not define itself: Qt's path functions
  (\<open>QDir::cleanPath\<close>, \<open>QDir::filePath\<close>, \<open>QDir::absoluteFilePath\<close>) and text conversion. They are
  fields of a record that the definitions take as an argument, so that every theorem holds for
  any implementation of them. The second half is the containment test that the servers share:
  a path is the served root or lies under it.
\<close>

record host =
  cleanPath :: "string \<Rightarrow> string"
  filePath :: "string \<Rightarrow> string \<Rightarrow> string"
  toUtf8 :: "string \<Rightarrow> bytes"
  fromUtf8 :: "bytes \<Rightarrow> string"

text \<open>\<open>p == root || p.startsWith(root + '/')\<close>.\<close>

definition under :: "string \<Rightarrow> string \<Rightarrow> bool" where
  "under root p \<longleftrightarrow> p = root \<or> starts_with (root @ ''/'') p"

lemma under_refl [simp]: "under root root"
  by (simp add: under_def)

lemma under_iff: "under root p \<longleftrightarrow> p = root \<or> (\<exists>t. p = root @ CHR ''/'' # t)"
  by (simp add: under_def starts_with_iff)

lemma under_trans: "under r p \<Longrightarrow> under p q \<Longrightarrow> under r q"
  by (auto simp: under_iff)

lemma join_with_append: "xs \<noteq> [] \<Longrightarrow> ys \<noteq> [] \<Longrightarrow> join_with s (xs @ ys) = join_with s xs @ s @ join_with s ys"
  by (induction xs rule: induct_list012) (simp_all add: join_with_Cons)

lemma under_abs_append: "xs \<noteq> [] \<Longrightarrow> under (abs_path xs) (abs_path (xs @ ys))"
  by (cases "ys = []") (simp_all add: under_iff abs_path_def join_with_append)

text \<open>
  The contract of a path resolver: whatever a client sends, the answer is inside the root or
  there is none. The client's lemmas: a resolved path never leaves the root, and neither does
  anything resolved further down from it.
\<close>

locale confined_resolver =
  fixes root :: "'s \<Rightarrow> string" and resolve :: "'s \<Rightarrow> 'a \<Rightarrow> string option"
  assumes resolve_under: "resolve s a = Some p \<Longrightarrow> under (root s) p"
begin

lemma resolved_not_sibling:
  assumes "resolve s a = Some p"
  shows "p = root s \<or> (length (root s) < length p \<and> take (length (root s)) p = root s \<and> p ! length (root s) = CHR ''/'')"
  using resolve_under [OF assms] by (auto simp: under_iff nth_append)

lemma resolve_all: "list_all (\<lambda>a. case resolve s a of None \<Rightarrow> True | Some p \<Rightarrow> under (root s) p) as"
  by (auto simp: list_all_iff resolve_under split: option.split)

end

end
