(* ===== verification/Nfs.thy ===== *)
theory Nfs
  imports Xdr Host
begin

text \<open>
  The NFS version 3 server, \<open>src/src/tools/NfsServer.{h,cpp}\<close>: portmapper, MOUNT and NFS
  procedures over ONC-RPC datagrams, with its table of file handles. The file system of the
  host is the type variable \<open>'fs\<close>, its calls are the fields of \<open>nfs_fs\<close>; the POSIX branches of
  the conditional compilation are the modelled ones. Handles, sizes and cookies keep their
  width. A request answers the reply datagram (empty for none) and the new server.
\<close>

section \<open>The file system calls\<close>

record nfs_stat =
  st_mode :: u32
  st_nlink :: u32
  st_uid :: u32
  st_gid :: u32
  st_size :: u64
  st_blocks :: u64
  st_dev :: u64
  st_ino :: u64
  st_atime :: u64
  st_mtime :: u64
  st_ctime :: u64
  st_isDir :: bool
  st_isLnk :: bool

text \<open>
  \<open>fs_read\<close> is opening for reading, seeking, reading at most the given number of bytes and
  \<open>atEnd\<close>; \<open>fs_write\<close> is opening for reading and writing, seeking and writing, and answers what
  \<open>write\<close> returned; \<open>None\<close> when the file cannot be opened.
\<close>

record 'fs nfs_fs =
  fs_stat :: "'fs \<Rightarrow> string \<Rightarrow> nfs_stat option"
  fs_symLinkTarget :: "'fs \<Rightarrow> string \<Rightarrow> string"
  fs_read :: "'fs \<Rightarrow> string \<Rightarrow> u64 \<Rightarrow> nat \<Rightarrow> (bytes \<times> bool) option"
  fs_entries :: "'fs \<Rightarrow> string \<Rightarrow> string list"
  fs_chmod :: "string \<Rightarrow> u32 \<Rightarrow> 'fs \<Rightarrow> 'fs"
  fs_truncate :: "string \<Rightarrow> u64 \<Rightarrow> 'fs \<Rightarrow> 'fs"
  fs_write :: "string \<Rightarrow> u64 \<Rightarrow> bytes \<Rightarrow> 'fs \<Rightarrow> (u32 \<times> 'fs) option"
  fs_create :: "string \<Rightarrow> 'fs \<Rightarrow> 'fs option"
  fs_mkdir :: "string \<Rightarrow> 'fs \<Rightarrow> bool \<times> 'fs"
  fs_remove :: "string \<Rightarrow> 'fs \<Rightarrow> bool \<times> 'fs"
  fs_rmdir :: "string \<Rightarrow> 'fs \<Rightarrow> bool \<times> 'fs"
  fs_rename :: "string \<Rightarrow> string \<Rightarrow> 'fs \<Rightarrow> bool \<times> 'fs"

section \<open>State\<close>

record 'fs nfs_server =
  m_export :: string
  m_port :: u16
  m_handleToPath :: "bytes \<rightharpoonup> string"
  m_pathToHandle :: "string \<rightharpoonup> bytes"
  m_nextHandle :: u32
  disk :: 'fs

definition fileHandle :: "host \<Rightarrow> string \<Rightarrow> 'fs nfs_server \<Rightarrow> bytes \<times> 'fs nfs_server" where
  "fileHandle h path s =
     (let clean = cleanPath h path
      in case m_pathToHandle s clean of
           Some fh \<Rightarrow> (fh, s)
         | None \<Rightarrow>
             let fh = be32 (m_nextHandle s) @ replicate 28 0
             in (fh, s\<lparr>m_nextHandle := m_nextHandle s + 1,
                       m_pathToHandle := (m_pathToHandle s)(clean \<mapsto> fh),
                       m_handleToPath := (m_handleToPath s)(fh \<mapsto> clean)\<rparr>))"

definition pathForHandle :: "'fs nfs_server \<Rightarrow> bytes \<Rightarrow> string" where
  "pathForHandle s fh = (case m_handleToPath s fh of None \<Rightarrow> [] | Some p \<Rightarrow> p)"

definition childWithin :: "host \<Rightarrow> 'fs nfs_server \<Rightarrow> string \<Rightarrow> string \<Rightarrow> string" where
  "childWithin h s dir name =
     (if dir = [] then []
      else let child = cleanPath h (filePath h dir name)
           in if child = m_export s \<or> starts_with (m_export s @ ''/'') child then child else [])"

text \<open>\<open>stop\<close> empties the tables; \<open>start\<close> does so too and enters the export root.\<close>

definition nfs_stop :: "'fs nfs_server \<Rightarrow> 'fs nfs_server" where
  "nfs_stop s = s\<lparr>m_handleToPath := Map.empty, m_pathToHandle := Map.empty, m_nextHandle := 1\<rparr>"

definition nfs_start :: "host \<Rightarrow> bool \<Rightarrow> string \<Rightarrow> u16 \<Rightarrow> 'fs nfs_server \<Rightarrow> bool \<times> 'fs nfs_server" where
  "nfs_start h bound exportDir p s =
     (let s1 = (nfs_stop s)\<lparr>m_export := cleanPath h exportDir, m_port := p\<rparr>;
          s2 = snd (fileHandle h (m_export s1) s1)
      in if bound then (True, s2) else (False, nfs_stop s2))"

section \<open>Reply building blocks\<close>

definition NFS3_OK :: u32 where "NFS3_OK = 0"
definition NFS3ERR_NOENT :: u32 where "NFS3ERR_NOENT = 2"
definition NFS3ERR_ACCES :: u32 where "NFS3ERR_ACCES = 13"

definition w_u32s :: "bytes \<Rightarrow> u32 list \<Rightarrow> bytes" where
  "w_u32s w vs = foldl w_u32 w vs"

definition w_u64s :: "bytes \<Rightarrow> u64 list \<Rightarrow> bytes" where
  "w_u64s w vs = foldl w_u64 w vs"

definition nfsStat :: "'fs nfs_fs \<Rightarrow> 'fs \<Rightarrow> string \<Rightarrow> nfs_stat option" where
  "nfsStat ops fs path = (if path = [] then None else fs_stat ops fs path)"

definition putFattr3 :: "bytes \<Rightarrow> nfs_stat \<Rightarrow> bytes" where
  "putFattr3 w st =
     (let type = (if st_isDir st then 2 else if st_isLnk st then 5 else 1);
          w = w_u32s w [type, st_mode st AND 0xFFF, st_nlink st, st_uid st, st_gid st];
          w = w_u64s w [st_size st, st_blocks st * 512];
          w = w_u32s w [0, 0];
          w = w_u64s w [st_dev st, st_ino st]
      in w_u32s w [ucast (st_atime st), 0, ucast (st_mtime st), 0, ucast (st_ctime st), 0])"

definition putPostOpAttr :: "'fs nfs_fs \<Rightarrow> 'fs \<Rightarrow> bytes \<Rightarrow> string \<Rightarrow> bytes" where
  "putPostOpAttr ops fs w path =
     (case nfsStat ops fs path of
        Some st \<Rightarrow> putFattr3 (w_u32 w 1) st
      | None \<Rightarrow> w_u32 w 0)"

definition putWccData :: "'fs nfs_fs \<Rightarrow> 'fs \<Rightarrow> bytes \<Rightarrow> string \<Rightarrow> bytes" where
  "putWccData ops fs w path = putPostOpAttr ops fs (w_u32 w 0) path"

definition putReplyHeader :: "bytes \<Rightarrow> u32 \<Rightarrow> bytes" where
  "putReplyHeader w xid = w_u32s w [xid, 1, 0, 0, 0, 0]"

definition r_str :: "host \<Rightarrow> xdr_reader \<Rightarrow> string \<times> bool \<times> xdr_reader" where
  "r_str h r = (let (b, k, r') = r_opaqueVar r in (fromUtf8 h b, k, r'))"

definition w_str :: "host \<Rightarrow> bytes \<Rightarrow> string \<Rightarrow> bytes" where
  "w_str h w t = w_opaqueVar w (toUtf8 h t)"

text \<open>An optional field of \<open>sattr3\<close>: a presence word and, when it is not zero, the value.\<close>

definition read_opt32 :: "xdr_reader \<Rightarrow> u32 option \<times> xdr_reader" where
  "read_opt32 r = (let (f, _, r) = r_u32 r in if f \<noteq> 0 then let (v, _, r) = r_u32 r in (Some v, r) else (None, r))"

definition read_opt64 :: "xdr_reader \<Rightarrow> u64 option \<times> xdr_reader" where
  "read_opt64 r = (let (f, _, r) = r_u32 r in if f \<noteq> 0 then let (v, _, r) = r_u64 r in (Some v, r) else (None, r))"

definition skip_time :: "xdr_reader \<Rightarrow> xdr_reader" where
  "skip_time r =
     (let (f, _, r) = r_u32 r
      in if f = 2 then snd (snd (r_u32 (snd (snd (r_u32 r))))) else r)"

definition skipSattr3 :: "xdr_reader \<Rightarrow> xdr_reader" where
  "skipSattr3 r =
     (let (_, r) = read_opt32 r; (_, r) = read_opt32 r; (_, r) = read_opt32 r; (_, r) = read_opt64 r
      in skip_time (skip_time r))"

section \<open>Procedures that read\<close>

text \<open>
  Each procedure gets the reader behind the credentials, the reply with its header, and the
  server. The flag \<open>ok\<close> of the code holds the outcome of the last read that was given it.
\<close>

definition proc_getattr :: "host \<Rightarrow> 'fs nfs_fs \<Rightarrow> xdr_reader \<Rightarrow> bytes \<Rightarrow> 'fs nfs_server \<Rightarrow> bytes \<times> 'fs nfs_server" where
  "proc_getattr h ops r w s =
     (let (fh, k, r) = r_opaqueVar r; path = pathForHandle s fh
      in case (if k then nfsStat ops (disk s) path else None) of
           Some st \<Rightarrow> (putFattr3 (w_u32 w NFS3_OK) st, s)
         | None \<Rightarrow> (w_u32 w NFS3ERR_NOENT, s))"

definition proc_lookup :: "host \<Rightarrow> 'fs nfs_fs \<Rightarrow> xdr_reader \<Rightarrow> bytes \<Rightarrow> 'fs nfs_server \<Rightarrow> bytes \<times> 'fs nfs_server" where
  "proc_lookup h ops r w s =
     (let (fh, k, r) = r_opaqueVar r; dir = pathForHandle s fh;
          (name, k, r) = r_str h r; child = childWithin h s dir name
      in if k \<and> dir \<noteq> [] \<and> nfsStat ops (disk s) child \<noteq> None
         then let w = w_u32 w NFS3_OK;
                  (cfh, s) = fileHandle h child s;
                  w = w_opaqueVar w cfh;
                  w = putPostOpAttr ops (disk s) w child
              in (putPostOpAttr ops (disk s) w dir, s)
         else (putPostOpAttr ops (disk s) (w_u32 w NFS3ERR_NOENT) dir, s))"

definition proc_access :: "host \<Rightarrow> 'fs nfs_fs \<Rightarrow> xdr_reader \<Rightarrow> bytes \<Rightarrow> 'fs nfs_server \<Rightarrow> bytes \<times> 'fs nfs_server" where
  "proc_access h ops r w s =
     (let (fh, k, r) = r_opaqueVar r; path = pathForHandle s fh; (mask, k, r) = r_u32 r
      in (w_u32 (putPostOpAttr ops (disk s) (w_u32 w NFS3_OK) path) (mask AND 0x1F), s))"

definition proc_readlink :: "host \<Rightarrow> 'fs nfs_fs \<Rightarrow> xdr_reader \<Rightarrow> bytes \<Rightarrow> 'fs nfs_server \<Rightarrow> bytes \<times> 'fs nfs_server" where
  "proc_readlink h ops r w s =
     (let (fh, k, r) = r_opaqueVar r; path = pathForHandle s fh;
          target = toUtf8 h (fs_symLinkTarget ops (disk s) path)
      in (w_opaqueVar (putPostOpAttr ops (disk s) (w_u32 w NFS3_OK) path) target, s))"

definition proc_read :: "host \<Rightarrow> 'fs nfs_fs \<Rightarrow> xdr_reader \<Rightarrow> bytes \<Rightarrow> 'fs nfs_server \<Rightarrow> bytes \<times> 'fs nfs_server" where
  "proc_read h ops r w s =
     (let (fh, k, r) = r_opaqueVar r; path = pathForHandle s fh;
          (offset, k, r) = r_u64 r; (count, k, r) = r_u32 r
      in case (if k then fs_read ops (disk s) path offset (min (unat count) 65536) else None) of
           Some (data, eof) \<Rightarrow>
             let w = putPostOpAttr ops (disk s) (w_u32 w NFS3_OK) path;
                 w = w_u32 w (of_nat (length data));
                 w = w_u32 w (if eof then 1 else 0)
             in (w_opaqueVar w data, s)
         | None \<Rightarrow> (putPostOpAttr ops (disk s) (w_u32 w NFS3ERR_ACCES) path, s))"

text \<open>One entry of the listing; the last part is \<open>READDIRPLUS\<close> only.\<close>

definition readdir_entry :: "host \<Rightarrow> 'fs nfs_fs \<Rightarrow> bool \<Rightarrow> string \<Rightarrow> u64 \<Rightarrow> string \<Rightarrow> bytes \<Rightarrow>
    'fs nfs_server \<Rightarrow> bytes \<times> 'fs nfs_server" where
  "readdir_entry h ops withAttrs path idx name w s =
     (let child = filePath h path name;
          ino = (case nfsStat ops (disk s) child of None \<Rightarrow> 0 | Some st \<Rightarrow> st_ino st);
          w = w_u32 w 1;
          w = w_u64 w (if ino \<noteq> 0 then ino else idx);
          w = w_str h w name;
          w = w_u64 w idx
      in if withAttrs
         then let w = w_u32 (putPostOpAttr ops (disk s) w child) 1;
                  (fh, s) = fileHandle h child s
              in (w_opaqueVar w fh, s)
         else (w, s))"

text \<open>The loop over the directory entries: \<open>idx\<close> counts them, those before the cookie are
  passed over, and at most 64 are sent.\<close>

fun readdir_loop :: "host \<Rightarrow> 'fs nfs_fs \<Rightarrow> bool \<Rightarrow> string \<Rightarrow> u64 \<Rightarrow> string list \<Rightarrow> u64 \<Rightarrow> bytes \<Rightarrow>
    'fs nfs_server \<Rightarrow> u64 \<times> bytes \<times> 'fs nfs_server" where
  "readdir_loop h ops withAttrs path cookie [] idx w s = (idx, w, s)"
| "readdir_loop h ops withAttrs path cookie (name # rest) idx w s =
     (if idx < cookie then readdir_loop h ops withAttrs path cookie rest (idx + 1) w s
      else
        let idx = idx + 1;
            (w, s) = readdir_entry h ops withAttrs path idx name w s
        in if 64 \<le> idx - cookie then (idx, w, s)
           else readdir_loop h ops withAttrs path cookie rest idx w s)"

definition proc_readdir :: "bool \<Rightarrow> host \<Rightarrow> 'fs nfs_fs \<Rightarrow> xdr_reader \<Rightarrow> bytes \<Rightarrow> 'fs nfs_server \<Rightarrow> bytes \<times> 'fs nfs_server" where
  "proc_readdir withAttrs h ops r w s =
     (let (fh, k, r) = r_opaqueVar r; path = pathForHandle s fh;
          (cookie, k, r) = r_u64 r;
          (_, k, r) = r_opaqueFixed 8 r;
          w = putPostOpAttr ops (disk s) (w_u32 w NFS3_OK) path;
          w = w_opaqueFixed w (replicate 8 0);
          entries = fs_entries ops (disk s) path;
          (idx, w, s) = readdir_loop h ops withAttrs path cookie entries 0 w s;
          w = w_u32 w 0
      in (w_u32 w (if of_nat (length entries) \<le> idx then 1 else 0), s))"

definition proc_fsstat :: "host \<Rightarrow> 'fs nfs_fs \<Rightarrow> xdr_reader \<Rightarrow> bytes \<Rightarrow> 'fs nfs_server \<Rightarrow> bytes \<times> 'fs nfs_server" where
  "proc_fsstat h ops r w s =
     (let (fh, k, r) = r_opaqueVar r; path = pathForHandle s fh;
          w = putPostOpAttr ops (disk s) (w_u32 w NFS3_OK) path;
          w = w_u64s w [push_bit 40 1, push_bit 39 1, push_bit 39 1];
          w = w_u64s w [push_bit 20 1, push_bit 19 1, push_bit 19 1]
      in (w_u32 w 0, s))"

definition proc_fsinfo :: "host \<Rightarrow> 'fs nfs_fs \<Rightarrow> xdr_reader \<Rightarrow> bytes \<Rightarrow> 'fs nfs_server \<Rightarrow> bytes \<times> 'fs nfs_server" where
  "proc_fsinfo h ops r w s =
     (let (fh, k, r) = r_opaqueVar r; path = pathForHandle s fh;
          w = putPostOpAttr ops (disk s) (w_u32 w NFS3_OK) path;
          w = w_u32s w [65536, 65536, 4096, 65536, 65536, 4096, 4096];
          w = w_u64 w (push_bit 40 1)
      in (w_u32s w [1, 0, 0x1B], s))"

definition proc_pathconf :: "host \<Rightarrow> 'fs nfs_fs \<Rightarrow> xdr_reader \<Rightarrow> bytes \<Rightarrow> 'fs nfs_server \<Rightarrow> bytes \<times> 'fs nfs_server" where
  "proc_pathconf h ops r w s =
     (let (fh, k, r) = r_opaqueVar r; path = pathForHandle s fh;
          w = putPostOpAttr ops (disk s) (w_u32 w NFS3_OK) path
      in (w_u32s w [32000, 255, 0, 1, 1, 0], s))"

section \<open>Procedures that write\<close>

text \<open>The fields of a \<open>SETATTR\<close> request, with the flag as the last read leaves it.\<close>

record setattr_args =
  sa_path :: string
  sa_mode :: "u32 option"
  sa_size :: "u64 option"
  sa_ok :: bool

definition read_setattr :: "'fs nfs_server \<Rightarrow> xdr_reader \<Rightarrow> setattr_args" where
  "read_setattr s r =
     (let (fh, k, r) = r_opaqueVar r; path = pathForHandle s fh;
          (mode, r) = read_opt32 r;
          (_, r) = read_opt32 r; (_, r) = read_opt32 r;
          (size, r) = read_opt64 r;
          r = skip_time (skip_time r);
          (_, k, r) = r_u32 r
      in \<lparr>sa_path = path, sa_mode = mode, sa_size = size, sa_ok = k\<rparr>)"

definition apply_setattr :: "'fs nfs_fs \<Rightarrow> setattr_args \<Rightarrow> 'fs \<Rightarrow> 'fs" where
  "apply_setattr ops a fs =
     (if sa_ok a \<and> sa_path a \<noteq> []
      then let fs = (case sa_mode a of None \<Rightarrow> fs | Some m \<Rightarrow> fs_chmod ops (sa_path a) (m AND 0xFFF) fs)
           in (case sa_size a of None \<Rightarrow> fs | Some z \<Rightarrow> fs_truncate ops (sa_path a) z fs)
      else fs)"

definition proc_setattr :: "host \<Rightarrow> 'fs nfs_fs \<Rightarrow> xdr_reader \<Rightarrow> bytes \<Rightarrow> 'fs nfs_server \<Rightarrow> bytes \<times> 'fs nfs_server" where
  "proc_setattr h ops r w s =
     (let a = read_setattr s r;
          s = s\<lparr>disk := apply_setattr ops a (disk s)\<rparr>
      in (putWccData ops (disk s) (w_u32 w NFS3_OK) (sa_path a), s))"

definition proc_write :: "host \<Rightarrow> 'fs nfs_fs \<Rightarrow> xdr_reader \<Rightarrow> bytes \<Rightarrow> 'fs nfs_server \<Rightarrow> bytes \<times> 'fs nfs_server" where
  "proc_write h ops r w s =
     (let (fh, k, r) = r_opaqueVar r; path = pathForHandle s fh;
          (offset, k, r) = r_u64 r; (_, k, r) = r_u32 r; (_, k, r) = r_u32 r;
          (data, k, r) = r_opaqueVar r
      in case (if k then fs_write ops path offset data (disk s) else None) of
           Some (wrote, fs) \<Rightarrow>
             let s = s\<lparr>disk := fs\<rparr>;
                 w = putWccData ops (disk s) (w_u32 w NFS3_OK) path;
                 w = w_u32 (w_u32 w wrote) 2
             in (w_opaqueFixed w (replicate 8 0), s)
         | None \<Rightarrow> (putWccData ops (disk s) (w_u32 w NFS3ERR_ACCES) path, s))"

definition proc_create :: "host \<Rightarrow> 'fs nfs_fs \<Rightarrow> xdr_reader \<Rightarrow> bytes \<Rightarrow> 'fs nfs_server \<Rightarrow> bytes \<times> 'fs nfs_server" where
  "proc_create h ops r w s =
     (let (fh, k, r) = r_opaqueVar r; dir = pathForHandle s fh;
          (name, k, r) = r_str h r; (_, k, r) = r_u32 r; r = skipSattr3 r;
          child = childWithin h s dir name
      in case (if k \<and> dir \<noteq> [] then fs_create ops child (disk s) else None) of
           Some fs \<Rightarrow>
             let s = s\<lparr>disk := fs\<rparr>;
                 (cfh, s) = fileHandle h child s;
                 w = w_opaqueVar (w_u32 (w_u32 w NFS3_OK) 1) cfh;
                 w = putPostOpAttr ops (disk s) w child
             in (putWccData ops (disk s) w dir, s)
         | None \<Rightarrow> (putWccData ops (disk s) (w_u32 w NFS3ERR_ACCES) dir, s))"

definition proc_mkdir :: "host \<Rightarrow> 'fs nfs_fs \<Rightarrow> xdr_reader \<Rightarrow> bytes \<Rightarrow> 'fs nfs_server \<Rightarrow> bytes \<times> 'fs nfs_server" where
  "proc_mkdir h ops r w s =
     (let (fh, k, r) = r_opaqueVar r; dir = pathForHandle s fh;
          (name, k, r) = r_str h r; r = skipSattr3 r;
          child = childWithin h s dir name;
          (done, fs) = (if k \<and> dir \<noteq> [] then fs_mkdir ops child (disk s) else (False, disk s));
          s = s\<lparr>disk := fs\<rparr>
      in if done
         then let (cfh, s) = fileHandle h child s;
                  w = w_opaqueVar (w_u32 (w_u32 w NFS3_OK) 1) cfh;
                  w = putPostOpAttr ops (disk s) w child
              in (putWccData ops (disk s) w dir, s)
         else (putWccData ops (disk s) (w_u32 w NFS3ERR_ACCES) dir, s))"

definition proc_remove :: "bool \<Rightarrow> host \<Rightarrow> 'fs nfs_fs \<Rightarrow> xdr_reader \<Rightarrow> bytes \<Rightarrow> 'fs nfs_server \<Rightarrow> bytes \<times> 'fs nfs_server" where
  "proc_remove isFile h ops r w s =
     (let (fh, k, r) = r_opaqueVar r; dir = pathForHandle s fh;
          (name, k, r) = r_str h r;
          child = childWithin h s dir name;
          (done, fs) =
            (if k \<and> dir \<noteq> []
             then (if isFile then fs_remove ops child (disk s) else fs_rmdir ops child (disk s))
             else (False, disk s));
          s = s\<lparr>disk := fs\<rparr>
      in (putWccData ops (disk s) (w_u32 w (if done then NFS3_OK else NFS3ERR_ACCES)) dir, s))"

definition proc_rename :: "host \<Rightarrow> 'fs nfs_fs \<Rightarrow> xdr_reader \<Rightarrow> bytes \<Rightarrow> 'fs nfs_server \<Rightarrow> bytes \<times> 'fs nfs_server" where
  "proc_rename h ops r w s =
     (let (fh, k, r) = r_opaqueVar r; fromDir = pathForHandle s fh;
          (fromName, k, r) = r_str h r;
          (fh2, k, r) = r_opaqueVar r; toDir = pathForHandle s fh2;
          (toName, k, r) = r_str h r;
          (done, fs) =
            (if k \<and> fromDir \<noteq> [] \<and> toDir \<noteq> []
             then fs_rename ops (childWithin h s fromDir fromName) (childWithin h s toDir toName) (disk s)
             else (False, disk s));
          s = s\<lparr>disk := fs\<rparr>;
          w = w_u32 w (if done then NFS3_OK else NFS3ERR_ACCES)
      in (putWccData ops (disk s) (putWccData ops (disk s) w fromDir) toDir, s))"

definition proc_commit :: "host \<Rightarrow> 'fs nfs_fs \<Rightarrow> xdr_reader \<Rightarrow> bytes \<Rightarrow> 'fs nfs_server \<Rightarrow> bytes \<times> 'fs nfs_server" where
  "proc_commit h ops r w s =
     (let (fh, k, r) = r_opaqueVar r; path = pathForHandle s fh;
          w = putWccData ops (disk s) (w_u32 w NFS3_OK) path
      in (w_opaqueFixed w (replicate 8 0), s))"

section \<open>Dispatch\<close>

definition nfs3_proc :: "u32 \<Rightarrow> host \<Rightarrow> 'fs nfs_fs \<Rightarrow> xdr_reader \<Rightarrow> bytes \<Rightarrow> 'fs nfs_server \<Rightarrow> bytes \<times> 'fs nfs_server" where
  "nfs3_proc n h ops r w s =
     (if n = 0 then (w, s)
      else if n = 1 then proc_getattr h ops r w s
      else if n = 3 then proc_lookup h ops r w s
      else if n = 4 then proc_access h ops r w s
      else if n = 5 then proc_readlink h ops r w s
      else if n = 6 then proc_read h ops r w s
      else if n = 16 then proc_readdir False h ops r w s
      else if n = 17 then proc_readdir True h ops r w s
      else if n = 18 then proc_fsstat h ops r w s
      else if n = 19 then proc_fsinfo h ops r w s
      else if n = 20 then proc_pathconf h ops r w s
      else if n = 2 then proc_setattr h ops r w s
      else if n = 7 then proc_write h ops r w s
      else if n = 8 then proc_create h ops r w s
      else if n = 9 then proc_mkdir h ops r w s
      else if n = 12 then proc_remove True h ops r w s
      else if n = 13 then proc_remove False h ops r w s
      else if n = 14 then proc_rename h ops r w s
      else if n = 21 then proc_commit h ops r w s
      else (w_u32 w NFS3ERR_ACCES, s))"

definition portmap_proc :: "u32 \<Rightarrow> bytes \<Rightarrow> 'fs nfs_server \<Rightarrow> bytes \<times> 'fs nfs_server" where
  "portmap_proc n w s =
     (if n = 0 then (w, s) else if n = 3 then (w_u32 w (ucast (m_port s)), s) else (w_u32 w 0, s))"

definition mount_proc :: "u32 \<Rightarrow> host \<Rightarrow> bytes \<Rightarrow> 'fs nfs_server \<Rightarrow> bytes \<times> 'fs nfs_server" where
  "mount_proc n h w s =
     (if n = 0 then (w, s)
      else if n = 1 then
        let w = w_u32 w NFS3_OK; (fh, s) = fileHandle h (m_export s) s
        in (w_u32s (w_opaqueVar w fh) [1, 0], s)
      else if n = 3 then (w_u32 w 0, s)
      else if n = 5 then (w_u32 w 0, s)
      else (w_u32 w NFS3ERR_ACCES, s))"

record rpc_call =
  rpc_xid :: u32
  rpc_prog :: u32
  rpc_vers :: u32
  rpc_proc :: u32
  rpc_args :: xdr_reader

text \<open>The call header and the credentials; \<open>None\<close> when the datagram is not a call. Again only
  the last read before each test counts.\<close>

definition read_call :: "bytes \<Rightarrow> rpc_call option" where
  "read_call request =
     (let r = \<lparr>m_buf = request, m_pos = 0\<rparr>;
          (xid, k, r) = r_u32 r; (msgType, k, r) = r_u32 r; (rpcvers, k, r) = r_u32 r;
          (prog, k, r) = r_u32 r; (vers, k, r) = r_u32 r; (prc, k, r) = r_u32 r
      in if \<not> k \<or> msgType \<noteq> 0 \<or> rpcvers \<noteq> 2 then None
         else let (_, k, r) = r_u32 r; (_, k, r) = r_opaqueVar r;
                  (_, k, r) = r_u32 r; (_, k, r) = r_opaqueVar r
              in if \<not> k then None
                 else Some \<lparr>rpc_xid = xid, rpc_prog = prog, rpc_vers = vers, rpc_proc = prc, rpc_args = r\<rparr>)"

definition handleDatagram :: "host \<Rightarrow> 'fs nfs_fs \<Rightarrow> bytes \<Rightarrow> 'fs nfs_server \<Rightarrow> bytes \<times> 'fs nfs_server" where
  "handleDatagram h ops request s =
     (case read_call request of
        None \<Rightarrow> ([], s)
      | Some c \<Rightarrow>
          let w = putReplyHeader [] (rpc_xid c)
          in if rpc_prog c = 100000 then portmap_proc (rpc_proc c) w s
             else if rpc_prog c = 100005 then mount_proc (rpc_proc c) h w s
             else if rpc_prog c = 100003 \<and> rpc_vers c = 3 then nfs3_proc (rpc_proc c) h ops (rpc_args c) w s
             else ([], s))"

text \<open>\<open>onReadyRead\<close> answers the pending datagrams in order.\<close>

fun onReadyRead :: "host \<Rightarrow> 'fs nfs_fs \<Rightarrow> bytes list \<Rightarrow> 'fs nfs_server \<Rightarrow> bytes list \<times> 'fs nfs_server" where
  "onReadyRead h ops [] s = ([], s)"
| "onReadyRead h ops (d # ds) s =
     (let (reply, s) = handleDatagram h ops d s; (replies, s) = onReadyRead h ops ds s
      in ((if reply \<noteq> [] then [reply] else []) @ replies, s))"

end
