(* ===== verification/Confined.thy ===== *)
theory Confined
  imports Host
begin

text \<open>
  Paths that stay below a root, for a host that resolves \<open>..\<close>. A path that merely begins with
  the root and a slash need not lie in it (\<open>/srv/../etc\<close>); one whose rest has no \<open>..\<close> segment
  does, and only of such paths a law of the file system can say that what lies outside is left
  alone. That the paths the servers call have this form rests on \<open>QDir::cleanPath\<close>: its
  documentation says that it resolves \<open>..\<close> as far as possible, so that a \<open>..\<close> is left in front of
  the first name only.
\<close>

definition segments :: "string \<Rightarrow> string list" where
  "segments p = split_skip CHR ''/'' p"

definition stays :: "string \<Rightarrow> string \<Rightarrow> bool" where
  "stays root p \<longleftrightarrow> p = root \<or>
     (starts_with (root @ ''/'') p \<and> ''..'' \<notin> set (segments (drop (Suc (length root)) p)))"

text \<open>A path with a name in it, so neither the file system's root nor a climb.\<close>

definition named_dir :: "string \<Rightarrow> bool" where
  "named_dir root \<longleftrightarrow> list_ex (\<lambda>s. s \<noteq> ''..'') (segments root)"

fun dots_lead :: "string list \<Rightarrow> bool" where
  "dots_lead [] = True"
| "dots_lead (s # ss) = (if s = ''..'' then dots_lead ss else ''..'' \<notin> set ss)"

text \<open>The documented behaviour of \<open>QDir::cleanPath\<close>.\<close>

definition clean_resolves :: "host \<Rightarrow> bool" where
  "clean_resolves h \<longleftrightarrow> (\<forall>p. dots_lead (segments (cleanPath h p)))"

lemma stays_iff: "stays root p \<longleftrightarrow> p = root \<or> (\<exists>t. p = root @ CHR ''/'' # t \<and> ''..'' \<notin> set (segments t))"
  by (auto simp: stays_def starts_with_iff)

lemma stays_refl [simp]: "stays root root"
  by (simp add: stays_def)

lemma stays_under: "stays root p \<Longrightarrow> under root p"
  by (auto simp: stays_iff under_iff)

lemma segments_slash: "segments (p @ CHR ''/'' # q) = segments p @ segments q"
  by (simp add: segments_def split_skip_append)

lemma stays_name: "CHR ''/'' \<notin> set n \<Longrightarrow> stays root (root @ CHR ''/'' # n) \<longleftrightarrow> n \<noteq> ''..''"
  by (auto simp: stays_iff segments_def)

lemma stays_trans: "stays root p \<Longrightarrow> stays p q \<Longrightarrow> stays root q"
proof -
  assume "stays root p" and "stays p q"
  then consider "q = p" | "p = root" | t u where "p = root @ CHR ''/'' # t" "''..'' \<notin> set (segments t)"
    "q = root @ CHR ''/'' # (t @ CHR ''/'' # u)" "''..'' \<notin> set (segments u)"
    unfolding stays_iff by fastforce
  then show ?thesis
  proof cases
    case 3
    then have "''..'' \<notin> set (segments (t @ CHR ''/'' # u))" by (simp add: segments_slash)
    with 3 show ?thesis unfolding stays_iff by blast
  qed (use \<open>stays root p\<close> \<open>stays p q\<close> in simp_all)
qed

lemma dots_lead_name: "dots_lead (xs @ ys) \<Longrightarrow> list_ex (\<lambda>s. s \<noteq> ''..'') xs \<Longrightarrow> ''..'' \<notin> set ys"
  by (induction xs) (auto split: if_splits)

text \<open>A cleaned path that begins with a named root and a slash stays below it.\<close>

lemma clean_stays:
  assumes "clean_resolves h" and "named_dir root" and "under root (cleanPath h p)"
  shows "stays root (cleanPath h p)"
proof (cases "cleanPath h p = root")
  case False
  with assms(3) obtain t where t: "cleanPath h p = root @ CHR ''/'' # t" by (auto simp: under_iff)
  have "dots_lead (segments root @ segments t)"
    using assms(1) unfolding clean_resolves_def by (metis t segments_slash)
  then have "''..'' \<notin> set (segments t)"
    using assms(2) by (intro dots_lead_name) (simp_all add: named_dir_def)
  with t show ?thesis by (auto simp: stays_iff)
qed simp

section \<open>A host that resolves \<open>..\<close>\<close>

text \<open>\<open>normalize\<close> obeys the law of \<open>QDir::cleanPath\<close>; a file system of the witnesses looks a path
  up by its normal form, so that \<open>/srv/../etc\<close> is \<open>/etc\<close> there.\<close>

lemma dots_lead_no_dots: "''..'' \<notin> set ss \<Longrightarrow> dots_lead ss"
  by (cases ss) auto

lemma dots_lead_rel: "rel_shape out \<Longrightarrow> dots_lead out"
proof -
  have "dots_lead (replicate k ''..'' @ segs)" if "''..'' \<notin> set segs" for k and segs :: "string list"
    by (induction k) (simp_all add: that dots_lead_no_dots)
  moreover assume "rel_shape out"
  ultimately show ?thesis by (fastforce simp: rel_shape_def list_all_iff proper_seg_def)
qed

lemma segments_normalize_abs: "segments (normalize (CHR ''/'' # p)) = resolve_segs (segments p)"
  by (simp add: segments_def split_skip_normalize_abs)

lemma proper_no_dots: "list_all proper_seg ss \<Longrightarrow> ''..'' \<notin> set ss"
  by (auto simp: list_all_iff proper_seg_def)

lemma normalize_dots_lead: "dots_lead (segments (normalize p))"
proof -
  consider "p = []" | q where "p = CHR ''/'' # q" | "p \<noteq> []" "\<not> starts_with ''/'' p"
    by (cases p) (auto simp: starts_with_def)
  then show ?thesis
  proof cases
    case 1
    then show ?thesis by (simp add: normalize_def segments_def)
  next
    case (2 q)
    have "list_all proper_seg (resolve_segs (segments q))"
      by (simp add: resolve_segs_proper segments_def)
    then show ?thesis by (simp add: 2 segments_normalize_abs dots_lead_no_dots proper_no_dots)
  next
    case 3
    from normalize_rel [OF this] obtain out where out: "rel_shape out"
      "normalize p = (if out = [] then ''.'' else join_with ''/'' out)" by blast
    have "split_skip CHR ''/'' (join_with ''/'' out) = out"
      by (rule split_skip_join) (rule rel_shape_segs [OF out(1)])
    then show ?thesis using dots_lead_rel [OF out(1)] by (simp add: out(2) segments_def)
  qed
qed

lemma normalize_resolves: "cleanPath h = normalize \<Longrightarrow> clean_resolves h"
  by (simp add: clean_resolves_def normalize_dots_lead)

lemma foldl_norm_no_dots: "''..'' \<notin> set ss \<Longrightarrow> foldl (norm_seg True) out ss = out @ filter (\<lambda>s. s \<noteq> ''.'') ss"
  by (induction ss arbitrary: out) (auto simp: norm_seg_def)

definition real_path :: "string \<Rightarrow> string" where
  "real_path p = (if p = [] then [] else normalize p)"

text \<open>Where \<open>..\<close> is resolved, the paths that stay below a root do lie in it.\<close>

lemma stays_real:
  assumes "segs \<noteq> []" and "list_all proper_seg segs" and "stays (abs_path segs) p"
  shows "under (abs_path segs) (real_path p)"
proof (cases "p = abs_path segs")
  case True
  then show ?thesis using normalize_abs_path [OF assms(2)] by (simp add: real_path_def abs_path_def)
next
  case False
  with assms(3) obtain t where t: "p = abs_path segs @ CHR ''/'' # t" "''..'' \<notin> set (segments t)"
    by (auto simp: stays_iff)
  have "normalize p = abs_path (resolve_segs (segments (abs_path segs) @ segments t))"
    by (simp add: t(1) abs_path_def segments_def normalize_append)
  also have "segments (abs_path segs) = segs"
    by (simp add: segments_def split_skip_abs_path [OF assms(2)])
  also have "resolve_segs (segs @ segments t) = segs @ filter (\<lambda>s. s \<noteq> ''.'') (segments t)"
    using foldl_norm_no_dots [OF t(2)] resolve_segs_id [OF assms(2)] by (simp add: resolve_segs_def)
  finally show ?thesis
    using under_abs_append [OF assms(1)] t(1) by (simp add: real_path_def abs_path_def)
qed

lemma stays_real_srv: "stays ''/srv'' p \<Longrightarrow> under ''/srv'' (real_path p)"
  using stays_real [of "[''srv'']" p] by (simp add: abs_path_def proper_seg_def)

text \<open>A name that climbs out is seen as such.\<close>

lemma real_path_climbs: "real_path ''/srv/../etc'' = ''/etc''"
  by code_simp

end
