(* ===== verification/Nfs_Safety.thy ===== *)
theory Nfs_Safety
  imports Nfs Confined
begin

text \<open>
  Safety of the NFS server of theory \<open>Nfs\<close>. The interface \<open>nfs_invariant\<close> says what a property
  of the server must survive, namely entering a handle and calling the file system on paths that
  are \<open>safe\<close> for the export root; its lemmas derive that every datagram keeps it. It is
  interpreted on the consistency of the handle tables (any path is safe) and on confinement to
  the export (paths under the root are safe).
\<close>

section \<open>Changes to the file system\<close>

text \<open>One changing call on paths that satisfy \<open>okp\<close>, whatever it returns.\<close>

inductive fs_call :: "'fs nfs_fs \<Rightarrow> (string \<Rightarrow> bool) \<Rightarrow> 'fs \<Rightarrow> 'fs \<Rightarrow> bool"
  for ops :: "'fs nfs_fs" and okp :: "string \<Rightarrow> bool" where
  call_chmod: "okp p \<Longrightarrow> fs_call ops okp fs (fs_chmod ops p m fs)"
| call_truncate: "okp p \<Longrightarrow> fs_call ops okp fs (fs_truncate ops p z fs)"
| call_write: "okp p \<Longrightarrow> fs_write ops p i d fs = Some (n, fs') \<Longrightarrow> fs_call ops okp fs fs'"
| call_create: "okp p \<Longrightarrow> fs_create ops p fs = Some fs' \<Longrightarrow> fs_call ops okp fs fs'"
| call_mkdir: "okp p \<Longrightarrow> fs_mkdir ops p fs = (b, fs') \<Longrightarrow> fs_call ops okp fs fs'"
| call_remove: "okp p \<Longrightarrow> fs_remove ops p fs = (b, fs') \<Longrightarrow> fs_call ops okp fs fs'"
| call_rmdir: "okp p \<Longrightarrow> fs_rmdir ops p fs = (b, fs') \<Longrightarrow> fs_call ops okp fs fs'"
| call_rename: "okp p \<Longrightarrow> okp q \<Longrightarrow> fs_rename ops p q fs = (b, fs') \<Longrightarrow> fs_call ops okp fs fs'"

lemma fs_call_mono: "fs_call ops okp fs fs' \<Longrightarrow> (\<And>p. okp p \<Longrightarrow> okq p) \<Longrightarrow> fs_call ops okq fs fs'"
  by (induction rule: fs_call.induct) (blast intro: fs_call.intros)+

lemma fileHandle_frame [frame, simp]:
  "m_export (snd (fileHandle h p s)) = m_export s"
  "m_port (snd (fileHandle h p s)) = m_port s"
  "disk (snd (fileHandle h p s)) = disk s"
  by (simp_all add: fileHandle_def Let_def split: option.split)

lemma readdir_entry_frame [frame, simp]:
  "m_export (snd (readdir_entry h ops withAttrs path idx n w s)) = m_export s"
  "m_port (snd (readdir_entry h ops withAttrs path idx n w s)) = m_port s"
  "disk (snd (readdir_entry h ops withAttrs path idx n w s)) = disk s"
  by (simp_all add: readdir_entry_def Let_def split_def)

lemma pathForHandle_cases: "pathForHandle s fh = [] \<or> m_handleToPath s fh = Some (pathForHandle s fh)"
  by (simp add: pathForHandle_def split: option.split)

text \<open>Two file systems that answer every call on paths that satisfy \<open>okp\<close> alike, whatever they do
  on other paths.\<close>

definition same_calls :: "(string \<Rightarrow> bool) \<Rightarrow> 'fs nfs_fs \<Rightarrow> 'fs nfs_fs \<Rightarrow> bool" where
  "same_calls okp ops ops' \<longleftrightarrow>
     (\<forall>p. okp p \<longrightarrow>
        (\<forall>fs. fs_stat ops' fs p = fs_stat ops fs p \<and> fs_symLinkTarget ops' fs p = fs_symLinkTarget ops fs p \<and>
           fs_read ops' fs p = fs_read ops fs p \<and> fs_entries ops' fs p = fs_entries ops fs p) \<and>
        fs_chmod ops' p = fs_chmod ops p \<and> fs_truncate ops' p = fs_truncate ops p \<and>
        fs_write ops' p = fs_write ops p \<and> fs_create ops' p = fs_create ops p \<and> fs_mkdir ops' p = fs_mkdir ops p \<and>
        fs_remove ops' p = fs_remove ops p \<and> fs_rmdir ops' p = fs_rmdir ops p \<and>
        (\<forall>q. okp q \<longrightarrow> fs_rename ops' p q = fs_rename ops p q))"

lemma same_calls_mono: "same_calls okq ops ops' \<Longrightarrow> (\<And>p. okp p \<Longrightarrow> okq p) \<Longrightarrow> same_calls okp ops ops'"
  unfolding same_calls_def by blast

lemma childWithin_disk [simp]: "childWithin h (s\<lparr>disk := fs\<rparr>) = childWithin h s"
  by (intro ext) (simp add: childWithin_def)

section \<open>What every datagram keeps\<close>

definition plus_entries_safe :: "host \<Rightarrow> 'fs nfs_fs \<Rightarrow> (string \<Rightarrow> string \<Rightarrow> bool) \<Rightarrow> xdr_reader \<Rightarrow> 'fs nfs_server \<Rightarrow> bool" where
  "plus_entries_safe h ops safe r s =
     (let path = pathForHandle s (fst (r_opaqueVar r))
      in list_all (\<lambda>name. safe (m_export s) (filePath h path name)) (fs_entries ops (disk s) path))"

definition request_safe :: "host \<Rightarrow> 'fs nfs_fs \<Rightarrow> (string \<Rightarrow> string \<Rightarrow> bool) \<Rightarrow> bytes \<Rightarrow> 'fs nfs_server \<Rightarrow> bool" where
  "request_safe h ops safe request s =
     (case read_call request of None \<Rightarrow> True
      | Some c \<Rightarrow> rpc_prog c = 100003 \<and> rpc_vers c = 3 \<and> rpc_proc c = 17 \<longrightarrow>
                  plus_entries_safe h ops safe (rpc_args c) s)"

text \<open>Requests of \<open>READDIRPLUS\<close>, which enters handles without the containment test.\<close>

definition is_readdirplus :: "bytes \<Rightarrow> bool" where
  "is_readdirplus d =
     (case read_call d of None \<Rightarrow> False
      | Some c \<Rightarrow> rpc_prog c = 100003 \<and> rpc_vers c = 3 \<and> rpc_proc c = 17)"

text \<open>Requests that list a directory, and so look at its entries \<open>.\<close> and \<open>..\<close> as well.\<close>

definition is_listing :: "bytes \<Rightarrow> bool" where
  "is_listing d =
     (case read_call d of None \<Rightarrow> False
      | Some c \<Rightarrow> rpc_prog c = 100003 \<and> rpc_vers c = 3 \<and> (rpc_proc c = 16 \<or> rpc_proc c = 17))"

lemma readdirplus_lists: "is_readdirplus d \<Longrightarrow> is_listing d"
  by (simp add: is_readdirplus_def is_listing_def split: option.splits)

locale nfs_invariant =
  fixes h :: host and ops :: "'fs nfs_fs" and safe :: "string \<Rightarrow> string \<Rightarrow> bool"
    and Inv :: "'fs nfs_server \<Rightarrow> bool"
  assumes inv_fileHandle: "Inv s \<Longrightarrow> safe (m_export s) p \<Longrightarrow> Inv (snd (fileHandle h p s))"
    and safe_export: "Inv s \<Longrightarrow> safe (m_export s) (m_export s)"
    and safe_child: "Inv s \<Longrightarrow> childWithin h s dir name \<noteq> [] \<Longrightarrow> safe (m_export s) (childWithin h s dir name)"
    and safe_handle: "Inv s \<Longrightarrow> m_handleToPath s fh = Some p \<Longrightarrow> safe (m_export s) p"
    and no_empty: "Inv s \<Longrightarrow> safe (m_export s) [] \<or> (fs_create ops [] fs = None \<and> \<not> fst (fs_mkdir ops [] fs))"
    and inv_call: "Inv s \<Longrightarrow> fs_call ops (\<lambda>p. p = [] \<or> safe (m_export s) p) (disk s) fs' \<Longrightarrow> Inv (s\<lparr>disk := fs'\<rparr>)"
begin

lemma ok_child: "Inv s \<Longrightarrow> childWithin h s dir name = [] \<or> safe (m_export s) (childWithin h s dir name)"
  using safe_child by blast

lemma ok_handle: "Inv s \<Longrightarrow> pathForHandle s fh = [] \<or> safe (m_export s) (pathForHandle s fh)"
  using pathForHandle_cases safe_handle by metis

text \<open>What a request other than a listing answers and does depends on calls on safe paths alone.\<close>

lemma proc_same_calls:
  assumes "Inv s" and same: "same_calls (\<lambda>p. p = [] \<or> safe (m_export s) p) ops ops'" and "n \<noteq> 16" and "n \<noteq> 17"
  shows "nfs3_proc n h ops' r w s = nfs3_proc n h ops r w s"
proof -
  note ok = ok_handle [OF assms(1)] ok_child [OF assms(1)]
  have calls: "fs_stat ops' fs (pathForHandle s fh) = fs_stat ops fs (pathForHandle s fh)"
    "fs_symLinkTarget ops' fs (pathForHandle s fh) = fs_symLinkTarget ops fs (pathForHandle s fh)"
    "fs_read ops' fs (pathForHandle s fh) = fs_read ops fs (pathForHandle s fh)"
    "fs_chmod ops' (pathForHandle s fh) = fs_chmod ops (pathForHandle s fh)"
    "fs_truncate ops' (pathForHandle s fh) = fs_truncate ops (pathForHandle s fh)"
    "fs_write ops' (pathForHandle s fh) = fs_write ops (pathForHandle s fh)" for fs fh
    using same ok(1) [of fh] unfolding same_calls_def by blast+
  have child: "fs_stat ops' fs (childWithin h s d m) = fs_stat ops fs (childWithin h s d m)"
    "fs_create ops' (childWithin h s d m) = fs_create ops (childWithin h s d m)"
    "fs_mkdir ops' (childWithin h s d m) = fs_mkdir ops (childWithin h s d m)"
    "fs_remove ops' (childWithin h s d m) = fs_remove ops (childWithin h s d m)"
    "fs_rmdir ops' (childWithin h s d m) = fs_rmdir ops (childWithin h s d m)"
    "fs_rename ops' (childWithin h s d m) (childWithin h s d' m') = fs_rename ops (childWithin h s d m) (childWithin h s d' m')"
    for fs d m d' m'
    using same ok(2) [of d m] ok(2) [of d' m'] unfolding same_calls_def by blast+
  have "sa_path (read_setattr s r) = pathForHandle s (fst (r_opaqueVar r))"
    by (simp add: read_setattr_def Let_def split_def)
  then have setattr: "proc_setattr h ops' r w s = proc_setattr h ops r w s"
    by (simp add: proc_setattr_def apply_setattr_def putWccData_def putPostOpAttr_def nfsStat_def Let_def calls
        cong: option.case_cong)
  show ?thesis
    using assms(3,4)
    by (simp add: nfs3_proc_def setattr proc_getattr_def proc_lookup_def proc_access_def proc_readlink_def proc_read_def
        proc_fsstat_def proc_fsinfo_def proc_pathconf_def proc_write_def proc_create_def proc_mkdir_def
        proc_remove_def proc_rename_def proc_commit_def putWccData_def putPostOpAttr_def nfsStat_def
        split_def Let_def calls child cong: if_cong option.case_cong)
qed

lemma datagram_same_calls:
  assumes "Inv s" and "same_calls (\<lambda>p. p = [] \<or> safe (m_export s) p) ops ops'" and "\<not> is_listing d"
  shows "handleDatagram h ops' d s = handleDatagram h ops d s"
  using assms proc_same_calls [OF assms(1,2)]
  by (auto simp: handleDatagram_def is_listing_def Let_def split: option.split)

lemma inv_reads:
  assumes "Inv s"
  shows "Inv (snd (proc_getattr h ops r w s))" "Inv (snd (proc_access h ops r w s))"
    "Inv (snd (proc_readlink h ops r w s))" "Inv (snd (proc_read h ops r w s))"
    "Inv (snd (proc_fsstat h ops r w s))" "Inv (snd (proc_fsinfo h ops r w s))"
    "Inv (snd (proc_pathconf h ops r w s))" "Inv (snd (proc_commit h ops r w s))"
  using assms
  by (simp_all add: proc_getattr_def proc_access_def proc_readlink_def proc_read_def proc_fsstat_def
      proc_fsinfo_def proc_pathconf_def proc_commit_def Let_def split: prod.split option.split)

lemma inv_lookup: "Inv s \<Longrightarrow> Inv (snd (proc_lookup h ops r w s))"
  using inv_fileHandle [of s] safe_child [of s]
  by (auto simp: proc_lookup_def Let_def nfsStat_def split: prod.split if_splits) (metis snd_conv)+

lemma inv_setattr:
  assumes "Inv s"
  shows "Inv (snd (proc_setattr h ops r w s))"
proof -
  let ?a = "read_setattr s r"
  have path: "sa_path ?a = [] \<or> safe (m_export s) (sa_path ?a)"
    using ok_handle [OF assms] by (simp add: read_setattr_def Let_def split: prod.split)
  define s1 where "s1 = s\<lparr>disk := (case sa_mode ?a of None \<Rightarrow> disk s
      | Some m \<Rightarrow> fs_chmod ops (sa_path ?a) (m AND 0xFFF) (disk s))\<rparr>"
  have "Inv s1"
    unfolding s1_def
    using assms inv_call [OF assms call_chmod [where p = "sa_path ?a"]] path
    by (simp split: option.split)
  moreover have "m_export s1 = m_export s" by (simp add: s1_def)
  ultimately have i: "Inv (s1\<lparr>disk := (case sa_size ?a of None \<Rightarrow> disk s1
      | Some z \<Rightarrow> fs_truncate ops (sa_path ?a) z (disk s1))\<rparr>)"
    using inv_call [of s1, OF _ call_truncate [where p = "sa_path ?a"]] path
    by (simp split: option.split)
  have e: "s1\<lparr>disk := fs\<rparr> = s\<lparr>disk := fs\<rparr>" for fs by (simp add: s1_def)
  have d: "disk s1 = (case sa_mode ?a of None \<Rightarrow> disk s
      | Some m \<Rightarrow> fs_chmod ops (sa_path ?a) (m AND 0xFFF) (disk s))" by (simp add: s1_def)
  show ?thesis
    using assms i [unfolded e d] by (simp add: proc_setattr_def apply_setattr_def Let_def)
qed

lemma disk_changes:
  assumes "Inv s"
  shows "fs_write ops (pathForHandle s fh) i d (disk s) = Some (n, fs) \<Longrightarrow> Inv (s\<lparr>disk := fs\<rparr>)"
    and "fs_mkdir ops (childWithin h s dir name) (disk s) = (b, fs) \<Longrightarrow> Inv (s\<lparr>disk := fs\<rparr>)"
    and "fs_remove ops (childWithin h s dir name) (disk s) = (b, fs) \<Longrightarrow> Inv (s\<lparr>disk := fs\<rparr>)"
    and "fs_rmdir ops (childWithin h s dir name) (disk s) = (b, fs) \<Longrightarrow> Inv (s\<lparr>disk := fs\<rparr>)"
    and "fs_rename ops (childWithin h s dir name) (childWithin h s dir2 name2) (disk s) = (b, fs) \<Longrightarrow> Inv (s\<lparr>disk := fs\<rparr>)"
  by (rule inv_call [OF assms], erule call_write call_mkdir call_remove call_rmdir call_rename
      call_write [rotated] call_mkdir [rotated] call_remove [rotated] call_rmdir [rotated] call_rename [rotated 2];
      use ok_handle [OF assms] ok_child [OF assms] in blast)+

lemma inv_write: "Inv s \<Longrightarrow> Inv (snd (proc_write h ops r w s))"
  by (auto simp: proc_write_def Let_def split: prod.split option.split if_splits dest: disk_changes(1))

lemma inv_made:
  assumes "Inv s" and "fs_call ops (\<lambda>p. p = [] \<or> safe (m_export s) p) (disk s) fs"
    and "safe (m_export s) child"
  shows "Inv (snd (fileHandle h child (s\<lparr>disk := fs\<rparr>)))"
  using inv_fileHandle [OF inv_call [OF assms(1,2)]] assms(3) by simp

lemma inv_create:
  assumes "Inv s"
  shows "Inv (snd (proc_create h ops r w s))"
proof -
  have "Inv (snd (fileHandle h c (s\<lparr>disk := fs\<rparr>)))"
    if "c = childWithin h s dir name" and "fs_create ops c (disk s) = Some fs" for c dir name fs
  proof (rule inv_made [OF assms call_create])
    show "c = [] \<or> safe (m_export s) c" using ok_child [OF assms] that(1) by simp
    then show "safe (m_export s) c" using no_empty [OF assms, of "disk s"] that(2) by auto
  qed (rule that(2))
  with assms show ?thesis
    by (auto simp: proc_create_def Let_def split: prod.split option.split if_splits)
      (metis snd_conv)+
qed

lemma inv_mkdir:
  assumes "Inv s"
  shows "Inv (snd (proc_mkdir h ops r w s))"
proof -
  have "Inv (snd (fileHandle h c (s\<lparr>disk := fs\<rparr>)))"
    if "c = childWithin h s dir name" and "fs_mkdir ops c (disk s) = (True, fs)" for c dir name fs
  proof (rule inv_made [OF assms call_mkdir])
    show "c = [] \<or> safe (m_export s) c" using ok_child [OF assms] that(1) by simp
    then show "safe (m_export s) c" using no_empty [OF assms, of "disk s"] that(2) by auto
  qed (rule that(2))
  with assms show ?thesis
    by (auto simp: proc_mkdir_def Let_def split: prod.split if_splits dest: disk_changes(2)) (metis snd_conv)+
qed

lemma inv_remove: "Inv s \<Longrightarrow> Inv (snd (proc_remove isFile h ops r w s))"
  by (auto simp: proc_remove_def Let_def split: prod.split if_splits dest: disk_changes(3,4))

lemma inv_rename: "Inv s \<Longrightarrow> Inv (snd (proc_rename h ops r w s))"
  by (auto simp: proc_rename_def Let_def split: prod.split if_splits dest: disk_changes(5))

lemma inv_readdir_entry:
  assumes "Inv s" and "withAttrs \<Longrightarrow> safe (m_export s) (filePath h path n)"
  shows "Inv (snd (readdir_entry h ops withAttrs path idx n w s))"
  using assms inv_fileHandle [OF assms(1), of "filePath h path n"]
  by (simp add: readdir_entry_def Let_def split_def)

lemma inv_readdir_loop:
  assumes "Inv s" and "withAttrs \<Longrightarrow> list_all (\<lambda>n. safe (m_export s) (filePath h path n)) names"
  shows "Inv (snd (snd (readdir_loop h ops withAttrs path cookie names idx w s)))"
  using assms
proof (induction names arbitrary: idx w s)
  case (Cons n names)
  let ?s1 = "snd (readdir_entry h ops withAttrs path (idx + 1) n w s)"
  have "Inv ?s1" using Cons.prems by (intro inv_readdir_entry) simp_all
  with Cons.prems Cons.IH show ?case by (simp add: Let_def split_def)
qed simp

lemma inv_readdir:
  assumes "Inv s" and "withAttrs \<Longrightarrow> plus_entries_safe h ops safe r s"
  shows "Inv (snd (proc_readdir withAttrs h ops r w s))"
proof -
  let ?path = "pathForHandle s (fst (r_opaqueVar r))"
  have "Inv (snd (snd (readdir_loop h ops withAttrs ?path cookie (fs_entries ops (disk s) ?path) 0 w' s)))" for cookie w'
    by (rule inv_readdir_loop [OF assms(1)]) (use assms(2) in \<open>simp add: plus_entries_safe_def Let_def\<close>)
  then show ?thesis
    by (simp add: proc_readdir_def Let_def split: prod.split) (metis fst_conv snd_conv)
qed

lemma inv_nfs3_proc:
  "Inv s \<Longrightarrow> (n = 17 \<Longrightarrow> plus_entries_safe h ops safe r s) \<Longrightarrow> Inv (snd (nfs3_proc n h ops r w s))"
  by (simp add: nfs3_proc_def inv_reads inv_lookup inv_setattr inv_write inv_create inv_mkdir
      inv_remove inv_rename inv_readdir)

lemma inv_mount: "Inv s \<Longrightarrow> Inv (snd (mount_proc n h w s))"
  using inv_fileHandle [OF _ safe_export, of s] by (simp add: mount_proc_def Let_def split: prod.split) (metis snd_conv)

lemma inv_datagram: "Inv s \<Longrightarrow> request_safe h ops safe d s \<Longrightarrow> Inv (snd (handleDatagram h ops d s))"
  by (auto simp: handleDatagram_def request_safe_def Let_def portmap_proc_def split: option.split
      intro: inv_mount inv_nfs3_proc)

lemma inv_no_plus: "Inv s \<Longrightarrow> \<not> is_readdirplus d \<Longrightarrow> Inv (snd (handleDatagram h ops d s))"
  by (rule inv_datagram) (auto simp: request_safe_def is_readdirplus_def split: option.splits)

lemma inv_onReadyRead:
  assumes "Inv s" and "list_all (\<lambda>d. \<not> is_readdirplus d) ds \<or> (\<forall>e p. safe e p)"
  shows "Inv (snd (onReadyRead h ops ds s))"
  using assms
proof (induction ds arbitrary: s)
  case (Cons d ds)
  have "Inv (snd (handleDatagram h ops d s))"
  proof (cases "is_readdirplus d")
    case True
    with Cons.prems have "safe e p" for e p by simp
    then have "request_safe h ops safe d s"
      by (simp add: request_safe_def plus_entries_safe_def Let_def list_all_iff split: option.split)
    with Cons.prems(1) show ?thesis by (rule inv_datagram)
  qed (simp add: inv_no_plus Cons.prems)
  moreover have "list_all (\<lambda>d. \<not> is_readdirplus d) ds \<or> (\<forall>e p. safe e p)" using Cons.prems(2) by auto
  ultimately have "Inv (snd (onReadyRead h ops ds (snd (handleDatagram h ops d s))))" by (rule Cons.IH)
  then show ?case by (simp add: split_def Let_def)
qed simp

lemma onReadyRead_same_calls:
  assumes "Inv s" and "list_all (\<lambda>d. \<not> is_listing d) ds"
    and "\<And>t. Inv t \<Longrightarrow> same_calls (\<lambda>p. p = [] \<or> safe (m_export t) p) ops ops'"
  shows "onReadyRead h ops' ds s = onReadyRead h ops ds s"
  using assms(1,2)
proof (induction ds arbitrary: s)
  case (Cons d ds)
  have "handleDatagram h ops' d s = handleDatagram h ops d s"
    using Cons.prems by (intro datagram_same_calls assms(3)) simp_all
  moreover have "Inv (snd (handleDatagram h ops d s))"
    using Cons.prems by (intro inv_no_plus) (auto dest: readdirplus_lists)
  ultimately show ?case using Cons by (simp add: split_def Let_def)
qed simp

end

section \<open>The handle tables\<close>

definition handle_of :: "nat \<Rightarrow> bytes" where
  "handle_of k = be32 (of_nat k) @ replicate 28 0"

text \<open>Handles are numbered from one without gaps, and the two tables are inverse.\<close>

definition tables_ok :: "'fs nfs_server \<Rightarrow> bool" where
  "tables_ok s \<longleftrightarrow>
     (\<forall>p fh. m_pathToHandle s p = Some fh \<longleftrightarrow> m_handleToPath s fh = Some p) \<and>
     (\<forall>fh p. m_handleToPath s fh = Some p \<longrightarrow>
        (\<exists>k. 0 < k \<and> k \<le> card (dom (m_pathToHandle s)) \<and> fh = handle_of k)) \<and>
     m_nextHandle s = of_nat (Suc (card (dom (m_pathToHandle s))))"

text \<open>The counter has 32 bits: the claims hold while fewer than \<open>2 ^ 32 - 1\<close> paths have handles.\<close>

definition few_handles :: "'fs nfs_server \<Rightarrow> bool" where
  "few_handles s \<longleftrightarrow> card (dom (m_pathToHandle s)) < 2 ^ 32 - 1"

definition handles_inv :: "(bytes \<rightharpoonup> string) \<Rightarrow> 'fs nfs_server \<Rightarrow> bool" where
  "handles_inv T s \<longleftrightarrow> finite (dom (m_pathToHandle s)) \<and>
     (few_handles s \<longrightarrow> tables_ok s \<and> T \<subseteq>\<^sub>m m_handleToPath s)"

lemma be32_inj: "be32 v = be32 w \<Longrightarrow> v = w"
  using f32.put_inj [where x = v and y = w and p = "[]" and q = "[]"] by simp

lemma handle_of_inj:
  assumes "handle_of j = handle_of k" and "j < 2 ^ 32" and "k < 2 ^ 32"
  shows "j = k"
proof -
  have "(of_nat j :: u32) = of_nat k"
    using assms(1) unfolding handle_of_def by (intro be32_inj) (simp only: append_same_eq)
  then have "unat (of_nat j :: u32) = unat (of_nat k :: u32)" by simp
  moreover have "unat (of_nat j :: u32) = j" "unat (of_nat k :: u32) = k"
    by (rule unat_of_nat_small, use assms in simp)+
  ultimately show ?thesis by simp
qed

lemma handles_inv_fileHandle:
  assumes "handles_inv T s"
  shows "handles_inv T (snd (fileHandle h path s))"
proof (cases "m_pathToHandle s (cleanPath h path)")
  case (Some fh)
  with assms show ?thesis by (simp add: fileHandle_def)
next
  case None
  let ?p = "cleanPath h path" and ?n = "card (dom (m_pathToHandle s))" and ?s = "snd (fileHandle h path s)"
  let ?fh = "be32 (m_nextHandle s) @ replicate 28 0"
  have s': "m_pathToHandle ?s = (m_pathToHandle s)(?p \<mapsto> ?fh)" "m_handleToPath ?s = (m_handleToPath s)(?fh \<mapsto> ?p)"
    "m_nextHandle ?s = m_nextHandle s + 1"
    using None by (simp_all add: fileHandle_def Let_def)
  have fin: "finite (dom (m_pathToHandle s))" using assms by (simp add: handles_inv_def)
  have card: "card (dom (m_pathToHandle ?s)) = Suc ?n"
    using None fin by (simp add: s' domIff)
  show ?thesis
    unfolding handles_inv_def
  proof (intro conjI impI)
    show "finite (dom (m_pathToHandle ?s))" using fin by (simp add: s')
    assume few: "few_handles ?s"
    then have n: "Suc ?n < 2 ^ 32 - 1" using card by (simp add: few_handles_def)
    with assms have ok: "tables_ok s" and T: "T \<subseteq>\<^sub>m m_handleToPath s"
      by (simp_all add: handles_inv_def few_handles_def)
    have fh: "?fh = handle_of (Suc ?n)" using ok by (simp add: tables_ok_def handle_of_def)
    have fresh: "m_handleToPath s ?fh = None"
    proof (rule ccontr)
      assume "m_handleToPath s ?fh \<noteq> None"
      with ok obtain k where "0 < k" "k \<le> ?n" "?fh = handle_of k" unfolding tables_ok_def by blast
      with fh n handle_of_inj [of "Suc ?n" k] show False by simp
    qed
    from T fresh show "T \<subseteq>\<^sub>m m_handleToPath ?s"
      by (auto simp: s' map_le_def dom_def)
    have inv: "m_pathToHandle s p = Some f \<longleftrightarrow> m_handleToPath s f = Some p" for p f
      using ok unfolding tables_ok_def by blast
    have "m_pathToHandle ?s p = Some f \<longleftrightarrow> m_handleToPath ?s f = Some p" for p f
      using inv [of p f] inv [of ?p f] inv [of p ?fh] None fresh unfolding s' by (auto split: if_splits)
    moreover have "\<exists>k. 0 < k \<and> k \<le> Suc ?n \<and> f = handle_of k" if "m_handleToPath ?s f = Some p" for f p
    proof (cases "f = ?fh")
      case False
      with that ok obtain k where "0 < k" "k \<le> ?n" "f = handle_of k" unfolding tables_ok_def s' by auto
      then show ?thesis by (intro exI [of _ k]) simp
    qed (use fh in blast)
    moreover have "m_nextHandle ?s = of_nat (Suc (Suc ?n))"
      using ok by (simp add: s' tables_ok_def)
    ultimately show "tables_ok ?s"
      unfolding tables_ok_def card by blast
  qed
qed

interpretation nfs_handles: nfs_invariant h ops "\<lambda>_ _. True" "handles_inv T"
  for h :: host and ops :: "'fs nfs_fs" and T
  by unfold_locales (simp_all add: handles_inv_fileHandle, simp add: handles_inv_def few_handles_def tables_ok_def)

lemma handles_inv_start: "few_handles s \<Longrightarrow> tables_ok s \<Longrightarrow> finite (dom (m_pathToHandle s)) \<Longrightarrow> handles_inv (m_handleToPath s) s"
  by (simp add: handles_inv_def)

lemma tables_ok_stop: "tables_ok (nfs_stop s)" "dom (m_pathToHandle (nfs_stop s)) = {}"
  by (simp_all add: tables_ok_def nfs_stop_def)

lemma handles_inv_nfs_start: "handles_inv Map.empty (snd (nfs_start h bound dir port s))"
proof -
  have st: "handles_inv Map.empty (nfs_stop t)" for t :: "'a nfs_server"
    using tables_ok_stop [of t] by (simp add: handles_inv_def)
  then have "handles_inv Map.empty ((nfs_stop s)\<lparr>m_export := cleanPath h dir, m_port := port\<rparr>)"
    by (simp add: handles_inv_def few_handles_def tables_ok_def)
  from handles_inv_fileHandle [OF this] st show ?thesis
    by (simp add: nfs_start_def Let_def)
qed

section \<open>Confinement to the export\<close>

text \<open>Documented behaviour of Qt: cleaning a clean path changes nothing. Of the file system: a
  call on the empty file name makes nothing.\<close>

definition clean_idem :: "host \<Rightarrow> bool" where
  "clean_idem h \<longleftrightarrow> (\<forall>p. cleanPath h (cleanPath h p) = cleanPath h p)"

definition empty_name_fails :: "'fs nfs_fs \<Rightarrow> bool" where
  "empty_name_fails ops \<longleftrightarrow> (\<forall>fs. fs_create ops [] fs = None \<and> \<not> fst (fs_mkdir ops [] fs))"

text \<open>\<open>keeps_outside ops view root\<close>: what \<open>view\<close> shows of the file system is not changed by calls
  on paths that stay below the root (a view of everything outside it, on a tree without links out
  of it). Of a path such as \<open>root/../x\<close> it says nothing.\<close>

definition keeps_outside :: "'fs nfs_fs \<Rightarrow> ('fs \<Rightarrow> 'v) \<Rightarrow> string \<Rightarrow> bool" where
  "keeps_outside ops view root \<longleftrightarrow>
     (\<forall>fs fs'. fs_call ops (\<lambda>p. p = [] \<or> stays root p) fs fs' \<longrightarrow> view fs' = view fs)"

definition confined_path :: "host \<Rightarrow> string \<Rightarrow> string \<Rightarrow> bool" where
  "confined_path h root p \<longleftrightarrow> under root p \<and> p \<noteq> [] \<and> cleanPath h p = p"

definition confined :: "host \<Rightarrow> 'fs nfs_server \<Rightarrow> bool" where
  "confined h s \<longleftrightarrow> (\<forall>fh p. m_handleToPath s fh = Some p \<longrightarrow> confined_path h (m_export s) p) \<and>
     confined_path h (m_export s) (m_export s)"

definition confined_inv :: "host \<Rightarrow> 'fs nfs_fs \<Rightarrow> ('fs \<Rightarrow> 'v) \<Rightarrow> string \<Rightarrow> 'v \<Rightarrow> 'fs nfs_server \<Rightarrow> bool" where
  "confined_inv h ops view root v s \<longleftrightarrow>
     clean_idem h \<and> clean_resolves h \<and> named_dir root \<and> empty_name_fails ops \<and> keeps_outside ops view root \<and>
     m_export s = root \<and> confined h s \<and> view (disk s) = v"

lemma childWithin_under:
  assumes "childWithin h s dir name \<noteq> []"
  shows "under (m_export s) (childWithin h s dir name)"
  using assms by (auto simp: childWithin_def Let_def under_def split: if_splits)

lemma childWithin_confined:
  "clean_idem h \<Longrightarrow> childWithin h s dir name \<noteq> [] \<Longrightarrow> confined_path h (m_export s) (childWithin h s dir name)"
  using childWithin_under [of h s dir name]
  by (auto simp: confined_path_def childWithin_def Let_def clean_idem_def split: if_splits)

lemma confined_fileHandle:
  "confined h s \<Longrightarrow> confined_path h (m_export s) p \<Longrightarrow> confined h (snd (fileHandle h p s))"
  by (auto simp: confined_def fileHandle_def Let_def confined_path_def split: option.split)

text \<open>The step where cleaning counts: a clean path under the root stays below it.\<close>

lemma confined_stays: "clean_resolves h \<Longrightarrow> named_dir root \<Longrightarrow> confined_path h root p \<Longrightarrow> stays root p"
  using clean_stays [of h root p] by (simp add: confined_path_def)

interpretation nfs_confined: nfs_invariant h ops "confined_path h" "confined_inv h ops view root v"
  for h :: host and ops :: "'fs nfs_fs" and view :: "'fs \<Rightarrow> 'v" and root v
proof unfold_locales
  fix s :: "'fs nfs_server" and p fh dir name fs fs'
  assume I: "confined_inv h ops view root v s"
  show "confined_path h (m_export s) p \<Longrightarrow> confined_inv h ops view root v (snd (fileHandle h p s))"
    using I by (simp add: confined_inv_def confined_fileHandle)
  show "confined_path h (m_export s) (m_export s)"
    using I by (auto simp: confined_inv_def confined_def)
  show "childWithin h s dir name \<noteq> [] \<Longrightarrow> confined_path h (m_export s) (childWithin h s dir name)"
    using I by (auto simp: confined_inv_def intro: childWithin_confined)
  show "m_handleToPath s fh = Some p \<Longrightarrow> confined_path h (m_export s) p"
    using I unfolding confined_inv_def confined_def by blast
  show "confined_path h (m_export s) [] \<or> fs_create ops [] fs = None \<and> \<not> fst (fs_mkdir ops [] fs)"
    using I by (simp add: confined_inv_def empty_name_fails_def)
  assume "fs_call ops (\<lambda>p. p = [] \<or> confined_path h (m_export s) p) (disk s) fs'"
  then have "fs_call ops (\<lambda>p. p = [] \<or> stays root p) (disk s) fs'"
    using I by (elim fs_call_mono) (auto simp: confined_inv_def intro: confined_stays)
  then show "confined_inv h ops view root v (s\<lparr>disk := fs'\<rparr>)"
    using I by (auto simp: confined_inv_def keeps_outside_def confined_def)
qed

text \<open>Every answer of the containment test lies in the export.\<close>

interpretation nfs_child: confined_resolver m_export
    "\<lambda>s (dir, name). let c = childWithin h s dir name in if c = [] then None else Some c"
  for h :: host
  by unfold_locales (auto simp: Let_def childWithin_under split: if_splits)

section \<open>A concrete host\<close>

text \<open>The host of the witnesses: paths cleaned by \<open>normalize\<close>, one-byte text, and a file
  system that maps resolved paths to contents, so that \<open>/srv/../x\<close> is a path outside \<open>/srv\<close>.\<close>

definition demo_host :: host where
  "demo_host = \<lparr>cleanPath = normalize,
     filePath = (\<lambda>dir name. if starts_with ''/'' name then name else dir @ ''/'' @ name),
     toUtf8 = to_latin1, fromUtf8 = from_latin1\<rparr>"

definition demo_fs :: "(string \<rightharpoonup> bytes) nfs_fs" where
  "demo_fs = \<lparr>fs_stat = (\<lambda>m p. map_option (\<lambda>b. \<lparr>st_mode = 0, st_nlink = 1, st_uid = 0, st_gid = 0,
        st_size = of_nat (length b), st_blocks = 0, st_dev = 0, st_ino = 7, st_atime = 0, st_mtime = 0,
        st_ctime = 0, st_isDir = False, st_isLnk = False\<rparr>) (m (real_path p))),
     fs_symLinkTarget = (\<lambda>_ _. []),
     fs_read = (\<lambda>m p off n. map_option (\<lambda>b. (take n (drop (unat off) b), length b \<le> unat off + n)) (m (real_path p))),
     fs_entries = (\<lambda>_ _. [''.'', ''..'', ''a'']),
     fs_chmod = (\<lambda>_ _ m. m),
     fs_truncate = (\<lambda>p z m. m(real_path p := map_option (take (unat z)) (m (real_path p)))),
     fs_write = (\<lambda>p off d m. Some (of_nat (length d), m(real_path p \<mapsto> d))),
     fs_create = (\<lambda>p m. if p = [] then None else Some (m(real_path p \<mapsto> []))),
     fs_mkdir = (\<lambda>_ m. (False, m)),
     fs_remove = (\<lambda>p m. (m (real_path p) \<noteq> None, m(real_path p := None))),
     fs_rmdir = (\<lambda>p m. (m (real_path p) \<noteq> None, m(real_path p := None))),
     fs_rename = (\<lambda>p q m. (m (real_path p) \<noteq> None, m(real_path q := m (real_path p), real_path p := None)))\<rparr>"

definition outside :: "string \<Rightarrow> (string \<rightharpoonup> bytes) \<Rightarrow> string \<rightharpoonup> bytes" where
  "outside root m = m |` {p. p \<noteq> [] \<and> \<not> under root p}"

lemma demo_host_clean: "clean_idem demo_host"
  by (simp add: clean_idem_def demo_host_def normalize_twice)

lemma demo_empty: "empty_name_fails demo_fs"
  by (simp add: empty_name_fails_def demo_fs_def)

lemma demo_host_resolves: "clean_resolves demo_host"
  by (rule normalize_resolves) (simp add: demo_host_def)

lemma outside_upd:
  assumes "p = [] \<or> stays ''/srv'' p"
  shows "outside ''/srv'' (m(real_path p := x)) = outside ''/srv'' m"
proof -
  have "real_path p = [] \<or> under ''/srv'' (real_path p)"
    using assms stays_real_srv [of p] by (auto simp: real_path_def)
  then show ?thesis by (auto simp: outside_def)
qed

lemma demo_keeps_outside: "keeps_outside demo_fs (outside ''/srv'') ''/srv''"
proof -
  have "outside ''/srv'' fs' = outside ''/srv'' fs" if "fs_call demo_fs (\<lambda>p. p = [] \<or> stays ''/srv'' p) fs fs'" for fs fs'
    using that
  proof cases
    case (call_create p)
    then show ?thesis using outside_upd [of p fs "Some []"] by (simp add: demo_fs_def split: if_splits)
  next
    case (call_chmod p m)
    then show ?thesis by (simp add: demo_fs_def)
  next
    case (call_truncate p z)
    then show ?thesis using outside_upd [of p] by (simp add: demo_fs_def)
  next
    case (call_write p i d n)
    then show ?thesis using outside_upd [of p fs "Some d"] by (simp add: demo_fs_def)
  next
    case (call_mkdir p b)
    then show ?thesis by (simp add: demo_fs_def)
  next
    case (call_remove p b)
    then show ?thesis using outside_upd [of p fs None] by (simp add: demo_fs_def)
  next
    case (call_rmdir p b)
    then show ?thesis using outside_upd [of p fs None] by (simp add: demo_fs_def)
  next
    case (call_rename p q b)
    then show ?thesis
      using outside_upd [of p "fs(real_path q := fs (real_path p))" None] outside_upd [of q fs "fs (real_path p)"]
      by (simp add: demo_fs_def)
  qed
  then show ?thesis by (simp add: keeps_outside_def)
qed

text \<open>The law says nothing of a path that climbs, and there the file system does change outside.\<close>

lemma demo_climbs: "outside ''/srv'' (snd (fs_remove demo_fs ''/srv/../etc'' [''/etc'' \<mapsto> []])) \<noteq> outside ''/srv'' [''/etc'' \<mapsto> []]"
proof -
  have "outside ''/srv'' [''/etc'' \<mapsto> []] ''/etc'' = Some []"
    by (simp add: outside_def under_def starts_with_def)
  moreover have "outside ''/srv'' (snd (fs_remove demo_fs ''/srv/../etc'' [''/etc'' \<mapsto> []])) ''/etc'' = None"
    by (simp add: demo_fs_def real_path_climbs outside_def restrict_map_def)
  ultimately show ?thesis by (metis option.distinct(1))
qed

definition demo_call :: "u32 \<Rightarrow> bytes \<Rightarrow> bytes" where
  "demo_call prc args = w_u32s [] [1, 0, 2, 100003, 3, prc, 0, 0, 0, 0] @ args"

definition demo_server :: "(string \<rightharpoonup> bytes) nfs_server" where
  "demo_server = \<lparr>m_export = [], m_port = 0, m_handleToPath = Map.empty, m_pathToHandle = Map.empty,
     m_nextHandle = 1, disk = Map.empty\<rparr>"

definition demo_started :: "(string \<rightharpoonup> bytes) nfs_server" where
  "demo_started = snd (nfs_start demo_host True ''/srv'' 2049 demo_server)"

lemma demo_clean_srv: "cleanPath demo_host ''/srv'' = ''/srv''"
  by code_simp

lemma demo_started_tables:
  "m_export demo_started = ''/srv''"
  "m_pathToHandle demo_started = [''/srv'' \<mapsto> handle_of 1]"
  "m_handleToPath demo_started = [handle_of 1 \<mapsto> ''/srv'']"
  by (simp_all add: demo_started_def nfs_start_def nfs_stop_def demo_server_def fileHandle_def
      demo_clean_srv handle_of_def Let_def)

section \<open>Properties\<close>

text \<open>C1: A file handle denotes the same path for as long as the server runs: after any
  datagrams the two tables are inverse to each other, and later datagrams only add handles, as
  long as fewer than \<open>2 ^ 32 - 1\<close> paths have been given one.\<close>

theorem nfs_handles_stable:
  assumes "s = snd (onReadyRead h ops ds (snd (nfs_start h bound dir port s0)))"
    and "s' = snd (onReadyRead h ops ds' s)" and "few_handles s'"
  shows "(\<forall>p fh. m_pathToHandle s' p = Some fh \<longleftrightarrow> m_handleToPath s' fh = Some p) \<and>
    m_handleToPath s \<subseteq>\<^sub>m m_handleToPath s'"
proof -
  have "handles_inv Map.empty s"
    unfolding assms(1) by (rule nfs_handles.inv_onReadyRead) (simp_all add: handles_inv_nfs_start)
  then have "handles_inv (m_handleToPath s) s" by (simp add: handles_inv_def)
  then have "handles_inv (m_handleToPath s) s'"
    unfolding assms(2) by (rule nfs_handles.inv_onReadyRead) simp
  with assms(3) show ?thesis by (simp add: handles_inv_def tables_ok_def)
qed

lemma demo_getattr:
  "snd (onReadyRead demo_host demo_fs [demo_call 1 (w_opaqueVar [] (handle_of 1))] s) = s"
proof -
  let ?d = "demo_call 1 (w_opaqueVar [] (handle_of 1))"
  have "map_option (\<lambda>c. (rpc_prog c, rpc_vers c, rpc_proc c)) (read_call ?d) = Some (100003, 3, 1)"
    by code_simp
  then obtain c where "read_call ?d = Some c" "rpc_prog c = 100003" "rpc_vers c = 3" "rpc_proc c = 1"
    by (cases "read_call ?d") auto
  then show ?thesis
    by (simp add: handleDatagram_def Let_def nfs3_proc_def proc_getattr_def split_def split: option.split)
qed

theorem nfs_handles_stable_witness:
  "let s = snd (onReadyRead demo_host demo_fs [] demo_started);
       s' = snd (onReadyRead demo_host demo_fs [demo_call 1 (w_opaqueVar [] (handle_of 1))] s)
   in (\<forall>p fh. m_pathToHandle s' p = Some fh \<longleftrightarrow> m_handleToPath s' fh = Some p) \<and>
      m_handleToPath s \<subseteq>\<^sub>m m_handleToPath s'"
proof -
  have "few_handles (snd (onReadyRead demo_host demo_fs [demo_call 1 (w_opaqueVar [] (handle_of 1))]
      (snd (onReadyRead demo_host demo_fs [] demo_started))))"
    by (simp only: demo_getattr onReadyRead.simps(1) snd_conv) (simp add: few_handles_def demo_started_tables)
  moreover have "snd (onReadyRead demo_host demo_fs [] demo_started) =
      snd (onReadyRead demo_host demo_fs [] (snd (nfs_start demo_host True ''/srv'' 2049 demo_server)))"
    by (simp only: demo_started_def)
  ultimately show ?thesis
    unfolding Let_def by (intro nfs_handles_stable [OF _ refl])
qed

text \<open>C2: Without \<open>READDIRPLUS\<close>, no request leads out of the export (a directory with a name):
  whatever handles and names clients send, every handle in the table denotes a path under the
  export root, and what lies outside the root is what it was when the server started. If the
  datagrams do not list directories either (\<open>READDIR\<close> looks at the entry \<open>..\<close> for its inode), no
  reply and no effect depends on what the file system would answer for any other path: with every
  call on paths that do not stay below the root replaced, the whole run is the same. The file
  system is only assumed to keep calls on paths below the root without a \<open>..\<close> away from the
  outside, and \<open>QDir::cleanPath\<close> to resolve \<open>..\<close>.\<close>

theorem nfs_confinement:
  assumes "clean_idem h" and "clean_resolves h" and "named_dir (cleanPath h dir)" and "empty_name_fails ops"
    and "keeps_outside ops view (cleanPath h dir)"
    and "list_all (\<lambda>d. \<not> is_readdirplus d) ds"
    and "s = snd (nfs_start h True dir port s0)" and "s' = snd (onReadyRead h ops ds s)"
  shows "(\<forall>fh p. m_handleToPath s' fh = Some p \<longrightarrow> under (cleanPath h dir) p) \<and>
    view (disk s') = view (disk s) \<and>
    (list_all (\<lambda>d. \<not> is_listing d) ds \<longrightarrow>
      (\<forall>ops'. same_calls (\<lambda>p. p = [] \<or> stays (cleanPath h dir) p) ops ops' \<longrightarrow>
        onReadyRead h ops' ds s = onReadyRead h ops ds s))"
proof -
  let ?root = "cleanPath h dir" and ?inv = "confined_inv h ops view (cleanPath h dir) (view (disk s))"
  let ?t = "(nfs_stop s0)\<lparr>m_export := ?root, m_port := port\<rparr>"
  have "?root \<noteq> []" using assms(3) by (auto simp: named_dir_def segments_def)
  then have root: "confined_path h ?root ?root"
    using assms(1) by (simp add: confined_path_def clean_idem_def)
  have "?inv ?t"
    using assms(1-5,7) root by (simp add: confined_inv_def confined_def nfs_stop_def nfs_start_def Let_def)
  then have inv: "?inv s"
    using nfs_confined.inv_fileHandle [of h ops view ?root "view (disk s)" ?t ?root] root assms(7)
    by (simp add: nfs_start_def Let_def)
  then have "?inv s'"
    unfolding assms(8) by (rule nfs_confined.inv_onReadyRead) (simp add: assms(6))
  moreover have "onReadyRead h ops' ds s = onReadyRead h ops ds s"
    if "list_all (\<lambda>d. \<not> is_listing d) ds" "same_calls (\<lambda>p. p = [] \<or> stays ?root p) ops ops'" for ops'
  proof (rule nfs_confined.onReadyRead_same_calls [OF inv that(1)])
    fix t :: "'a nfs_server"
    assume "?inv t"
    then have "m_export t = ?root" by (simp add: confined_inv_def)
    then show "same_calls (\<lambda>p. p = [] \<or> confined_path h (m_export t) p) ops ops'"
      by (intro same_calls_mono [OF that(2)]) (use confined_stays [OF assms(2,3)] in auto)
  qed
  ultimately show ?thesis by (auto simp: confined_inv_def confined_def confined_path_def)
qed

theorem nfs_confinement_witness:
  "let ds = [demo_call 8 (w_opaqueVar (w_opaqueVar [] (handle_of 1)) (to_latin1 ''../x'') @ be32 0)];
       s' = snd (onReadyRead demo_host demo_fs ds demo_started)
   in (\<forall>fh p. m_handleToPath s' fh = Some p \<longrightarrow> under ''/srv'' p) \<and>
      outside ''/srv'' (disk s') = outside ''/srv'' (disk demo_started) \<and>
      onReadyRead demo_host (demo_fs\<lparr>fs_create := \<lambda>p. if p = ''/x'' then \<lambda>_. None else fs_create demo_fs p\<rparr>) ds demo_started =
        onReadyRead demo_host demo_fs ds demo_started"
proof -
  let ?ds = "[demo_call 8 (w_opaqueVar (w_opaqueVar [] (handle_of 1)) (to_latin1 ''../x'') @ be32 0)]"
  let ?ops = "demo_fs\<lparr>fs_create := \<lambda>p. if p = ''/x'' then \<lambda>_. None else fs_create demo_fs p\<rparr>"
  have ds: "list_all (\<lambda>d. \<not> is_readdirplus d) ?ds" "list_all (\<lambda>d. \<not> is_listing d) ?ds"
    by code_simp+
  have root: "named_dir (cleanPath demo_host ''/srv'')" by code_simp
  have "\<not> (''/x'' = [] \<or> stays ''/srv'' ''/x'')" by code_simp
  then have "same_calls (\<lambda>p. p = [] \<or> stays ''/srv'' p) demo_fs ?ops"
    by (auto simp: same_calls_def)
  with ds nfs_confinement [OF demo_host_clean demo_host_resolves root demo_empty _ ds(1) demo_started_def refl,
      of "outside ''/srv''"]
  show ?thesis
    unfolding demo_clean_srv Let_def by (simp only: demo_keeps_outside simp_thms) blast
qed

lemma fileHandle_dom: "dom (m_pathToHandle s) \<subseteq> dom (m_pathToHandle (snd (fileHandle h p s)))"
  "cleanPath h p \<in> dom (m_pathToHandle (snd (fileHandle h p s)))"
  by (auto simp: fileHandle_def Let_def split: option.split)

lemma readdir_entry_dom:
  "dom (m_pathToHandle s) \<subseteq> dom (m_pathToHandle (snd (readdir_entry h ops b path idx n w s)))"
  "cleanPath h (filePath h path n) \<in> dom (m_pathToHandle (snd (readdir_entry h ops True path idx n w s)))"
  using fileHandle_dom [where s = s and h = h and p = "filePath h path n"] by (simp_all add: readdir_entry_def Let_def split_def)

lemma readdir_loop_dom:
  "dom (m_pathToHandle s) \<subseteq> dom (m_pathToHandle (snd (snd (readdir_loop h ops b path cookie names idx w s))))"
proof (induction names arbitrary: idx w s)
  case (Cons n names)
  show ?case
    using Cons readdir_entry_dom(1) [where s = s and h = h and ops = ops and b = b and path = path and idx = "idx + 1" and n = n and w = w]
    by (simp add: Let_def split_def) (meson subset_trans)
qed simp

lemma readdir_loop_enters:
  assumes "k + length pre < 64"
  shows "cleanPath h (filePath h path n) \<in>
    dom (m_pathToHandle (snd (snd (readdir_loop h ops True path 0 (pre @ n # post) (of_nat k) w s))))"
  using assms
proof (induction pre arbitrary: k w s)
  case Nil
  show ?case
    using readdir_entry_dom(2) [of h path n ops "of_nat k + 1" w s]
    by (simp add: Let_def split_def) (intro impI, erule subsetD [OF readdir_loop_dom])
next
  case (Cons m pre)
  have "unat (of_nat (Suc k) :: u64) = Suc k"
    by (rule unat_of_nat_small) (use Cons.prems in simp)
  then have "\<not> (64 :: u64) \<le> of_nat (Suc k)"
    using Cons.prems by (simp add: word_le_nat_alt del: of_nat_Suc)
  then show ?case
    using Cons.IH [of "Suc k"] Cons.prems by (simp add: Let_def split_def add.commute)
qed

text \<open>\<open>READDIRPLUS\<close> does lead out: listing a directory whose entries include \<open>..\<close> (the listing
  does not leave it out) enters a handle for the path that \<open>..\<close> cleans to, the parent of the
  export when the directory is the root.\<close>

theorem nfs_readdirplus_escapes:
  assumes "fs_entries ops (disk s) path = pre @ ''..'' # post" and "length pre < 64"
    and "read_call d = Some c" and "rpc_prog c = 100003" and "rpc_vers c = 3" and "rpc_proc c = 17"
    and "pathForHandle s (fst (r_opaqueVar (rpc_args c))) = path"
    and "fst (r_u64 (snd (snd (r_opaqueVar (rpc_args c))))) = 0"
  shows "cleanPath h (filePath h path ''..'') \<in> dom (m_pathToHandle (snd (handleDatagram h ops d s)))"
proof -
  have "handleDatagram h ops d s = proc_readdir True h ops (rpc_args c) (putReplyHeader [] (rpc_xid c)) s"
    using assms(3-6) by (simp add: handleDatagram_def nfs3_proc_def Let_def)
  then show ?thesis
    using readdir_loop_enters [of 0 pre h path "''..''" ops post] assms(1,2,7,8)
    by (simp add: proc_readdir_def Let_def split_def)
qed

theorem nfs_readdirplus_escapes_witness:
  "''/'' \<in> dom (m_pathToHandle (snd (handleDatagram demo_host demo_fs
      (demo_call 17 (w_opaqueVar [] (handle_of 1) @ replicate 16 0)) demo_started)))"
proof -
  let ?d = "demo_call 17 (w_opaqueVar [] (handle_of 1) @ replicate 16 0)"
  have "map_option (\<lambda>c. (rpc_prog c, rpc_vers c, rpc_proc c, fst (r_opaqueVar (rpc_args c)),
        fst (r_u64 (snd (snd (r_opaqueVar (rpc_args c))))))) (read_call ?d) =
      Some (100003, 3, 17, handle_of 1, 0)"
    by code_simp
  then obtain c where c: "read_call ?d = Some c" "rpc_prog c = 100003" "rpc_vers c = 3" "rpc_proc c = 17"
    "fst (r_opaqueVar (rpc_args c)) = handle_of 1" "fst (r_u64 (snd (snd (r_opaqueVar (rpc_args c))))) = 0"
    by (cases "read_call ?d") auto
  have path: "pathForHandle demo_started (fst (r_opaqueVar (rpc_args c))) = ''/srv''"
    by (simp add: c(5) pathForHandle_def demo_started_tables)
  have parent: "cleanPath demo_host (filePath demo_host ''/srv'' ''..'') = ''/''"
    by code_simp
  have "fs_entries demo_fs (disk demo_started) ''/srv'' = [''.''] @ ''..'' # [''a'']"
    by (simp add: demo_fs_def)
  from nfs_readdirplus_escapes [OF this _ c(1-4) path c(6), of demo_host] show ?thesis
    by (simp add: parent)
qed

end
