(* ===== verification/Nfs_Replies.thy ===== *)
theory Nfs_Replies
  imports Nfs
begin

text \<open>
  The wire side of the NFS server of theory \<open>Nfs\<close>: every reply is a well-formed RPC reply, and
  a \<open>SETATTR\<close> request changes the file system only when all of it could be read.
\<close>

section \<open>Replies only grow, in units of four bytes\<close>

definition grows :: "bytes \<Rightarrow> bytes \<Rightarrow> bool" where
  "grows w w' \<longleftrightarrow> (\<exists>x. w' = w @ x) \<and> (length w mod 4 = 0 \<longrightarrow> length w' mod 4 = 0)"

lemma grows_refl [simp]: "grows w w"
  by (simp add: grows_def)

lemma grows_append: "grows w v \<Longrightarrow> length x mod 4 = 0 \<Longrightarrow> grows w (v @ x)"
  by (auto simp: grows_def)

lemma grows_u32 [simp]: "grows w v \<Longrightarrow> grows w (w_u32 v n)"
  by (simp add: w_u32_def grows_append)

lemma grows_u64 [simp]: "grows w v \<Longrightarrow> grows w (w_u64 v n)"
  by (simp add: w_u64_def)

lemma grows_u32s [simp]: "grows w v \<Longrightarrow> grows w (w_u32s v ns)"
  unfolding w_u32s_def by (induction ns arbitrary: v) simp_all

lemma grows_u64s [simp]: "grows w v \<Longrightarrow> grows w (w_u64s v ns)"
  unfolding w_u64s_def by (induction ns arbitrary: v) simp_all

lemma length_pad_loop: "length (pad_loop b) mod 4 = 0"
  using pad_count_total [of "length b"] by (simp add: pad_loop_eq)

lemma grows_opaqueFixed [simp]: "grows w v \<Longrightarrow> grows w (w_opaqueFixed v b)"
  using length_pad_loop [of "v @ b"] by (auto simp: grows_def w_opaqueFixed_def) (simp_all add: pad_loop_eq [of "w @ _"])

lemma grows_opaqueVar [simp]: "grows w v \<Longrightarrow> grows w (w_opaqueVar v b)"
  by (simp add: w_opaqueVar_def)

lemma grows_str [simp]: "grows w v \<Longrightarrow> grows w (w_str h v t)"
  by (simp add: w_str_def)

lemma grows_fattr [simp]: "grows w v \<Longrightarrow> grows w (putFattr3 v st)"
  by (simp add: putFattr3_def Let_def)

lemma grows_post [simp]: "grows w v \<Longrightarrow> grows w (putPostOpAttr ops fs v p)"
  by (simp add: putPostOpAttr_def split: option.split)

lemma grows_wcc [simp]: "grows w v \<Longrightarrow> grows w (putWccData ops fs v p)"
  by (simp add: putWccData_def)

lemma grows_readdir_entry [simp]: "grows w v \<Longrightarrow> grows w (fst (readdir_entry h ops b path idx n v s))"
  by (simp add: readdir_entry_def Let_def split_def)

lemma grows_readdir_loop:
  "grows w v \<Longrightarrow> grows w (fst (snd (readdir_loop h ops b path cookie names idx v s)))"
  by (induction names arbitrary: idx v s) (simp_all add: Let_def split_def)

lemmas nfs_procs =
  proc_getattr_def proc_lookup_def proc_access_def proc_readlink_def proc_read_def proc_readdir_def
  proc_fsstat_def proc_fsinfo_def proc_pathconf_def proc_setattr_def proc_write_def proc_create_def
  proc_mkdir_def proc_remove_def proc_rename_def proc_commit_def

lemma grows_nfs3_proc: "grows w (fst (nfs3_proc n h ops r w s))"
  unfolding nfs3_proc_def
  by (simp add: nfs_procs Let_def split_def grows_readdir_loop split: option.split)

lemma grows_mount: "grows w (fst (mount_proc n h w s))"
  by (simp add: mount_proc_def Let_def split_def)

lemma grows_portmap: "grows w (fst (portmap_proc n w s))"
  by (simp add: portmap_proc_def)

section \<open>A strict reader of \<open>SETATTR\<close>\<close>

text \<open>What the request says, read field by field with every failure final.\<close>

definition get64 :: "bytes \<Rightarrow> nat \<Rightarrow> (u64 \<times> nat) option" where
  "get64 buf pos =
     Option.bind (get32 buf pos) (\<lambda>(hi, p). map_option (map_prod (\<lambda>lo. push_bit 32 (ucast hi) OR ucast lo) id) (get32 buf p))"

definition strict_opt :: "(bytes \<Rightarrow> nat \<Rightarrow> ('a \<times> nat) option) \<Rightarrow> bytes \<Rightarrow> nat \<Rightarrow> ('a option \<times> nat) option" where
  "strict_opt get buf pos =
     Option.bind (get32 buf pos) (\<lambda>(f, p). if f = 0 then Some (None, p) else map_option (map_prod Some id) (get buf p))"

definition strict_time :: "bytes \<Rightarrow> nat \<Rightarrow> (unit \<times> nat) option" where
  "strict_time buf pos =
     Option.bind (get32 buf pos) (\<lambda>(f, p). if f = 2
       then Option.bind (get32 buf p) (\<lambda>(_, p). map_option (map_prod (\<lambda>_. ()) id) (get32 buf p)) else Some ((), p))"

definition strict_fields :: "bytes \<Rightarrow> nat \<Rightarrow> ((u32 option \<times> u64 option) \<times> nat) option" where
  "strict_fields buf pos =
     Option.bind (strict_opt get32 buf pos) (\<lambda>(mode, p).
     Option.bind (strict_opt get32 buf p) (\<lambda>(_, p).
     Option.bind (strict_opt get32 buf p) (\<lambda>(_, p).
     Option.bind (strict_opt get64 buf p) (\<lambda>(sz, p).
     Option.bind (strict_time buf p) (\<lambda>(_, p).
     Option.bind (strict_time buf p) (\<lambda>(_, p). Some ((mode, sz), p)))))))"

definition strict_setattr :: "bytes \<Rightarrow> nat \<Rightarrow> (u32 option \<times> u64 option) option" where
  "strict_setattr buf pos =
     Option.bind (strict_fields buf pos) (\<lambda>(fields, p). map_option (\<lambda>_. fields) (get32 buf p))"

text \<open>\<open>tracks f g\<close>: the lenient step \<open>f\<close> reads what the strict \<open>g\<close> reads, and where \<open>g\<close> fails
  the reader is left so close to the end that all later reads fail too.\<close>

definition stuck :: "xdr_reader \<Rightarrow> bool" where
  "stuck r \<longleftrightarrow> length (m_buf r) < m_pos r + 4"

definition tracks :: "(xdr_reader \<Rightarrow> 'a \<times> xdr_reader) \<Rightarrow> (bytes \<Rightarrow> nat \<Rightarrow> ('a \<times> nat) option) \<Rightarrow> bool" where
  "tracks f g \<longleftrightarrow>
     (\<forall>r. (stuck r \<longrightarrow> stuck (snd (f r))) \<and>
          (case g (m_buf r) (m_pos r) of None \<Rightarrow> stuck (snd (f r))
           | Some (x, p) \<Rightarrow> f r = (x, r\<lparr>m_pos := p\<rparr>)))"

lemma stuck_u32: "stuck r \<Longrightarrow> r_u32 r = (0, False, r)"
  by (simp add: stuck_def r_u32_def)

lemma get32_None_iff: "get32 (m_buf r) (m_pos r) = None \<longleftrightarrow> stuck r"
  by (simp add: get32_def stuck_def)

lemma r_u32_cases:
  obtains "stuck r" "r_u32 r = (0, False, r)" "get32 (m_buf r) (m_pos r) = None"
  | v p where "\<not> stuck r" "r_u32 r = (v, True, r\<lparr>m_pos := p\<rparr>)" "get32 (m_buf r) (m_pos r) = Some (v, p)"
proof (cases "get32 (m_buf r) (m_pos r)")
  case None
  then show ?thesis using that(1) by (simp add: get32_None_iff stuck_u32)
next
  case (Some vp)
  obtain v p where "vp = (v, p)" by (cases vp)
  with Some show ?thesis using that(2) [of v p] get32_None_iff [of r] by (simp add: r_u32_get32)
qed

definition step32 :: "xdr_reader \<Rightarrow> u32 \<times> xdr_reader" where
  "step32 r = (let (v, _, r) = r_u32 r in (v, r))"

definition step64 :: "xdr_reader \<Rightarrow> u64 \<times> xdr_reader" where
  "step64 r = (let (v, _, r) = r_u64 r in (v, r))"

lemma tracksI:
  assumes "\<And>r. stuck r \<Longrightarrow> stuck (snd (f r))"
    and "\<And>r. \<not> stuck r \<Longrightarrow> (case g (m_buf r) (m_pos r) of None \<Rightarrow> stuck (snd (f r)) | Some (x, p) \<Rightarrow> f r = (x, r\<lparr>m_pos := p\<rparr>))"
    and "\<And>r. stuck r \<Longrightarrow> g (m_buf r) (m_pos r) = None"
  shows "tracks f g"
  unfolding tracks_def
proof (intro allI conjI impI)
  fix r
  show "stuck r \<Longrightarrow> stuck (snd (f r))" by (rule assms(1))
  show "case g (m_buf r) (m_pos r) of None \<Rightarrow> stuck (snd (f r)) | Some (x, p) \<Rightarrow> f r = (x, r\<lparr>m_pos := p\<rparr>)"
    using assms(1-3) by (cases "stuck r") simp_all
qed

lemma tracks_Some: "tracks f g \<Longrightarrow> g (m_buf r) (m_pos r) = Some (x, p) \<Longrightarrow> f r = (x, r\<lparr>m_pos := p\<rparr>)"
  unfolding tracks_def by (metis (mono_tags, lifting) option.simps(5) case_prod_conv)

lemma tracks_None: "tracks f g \<Longrightarrow> g (m_buf r) (m_pos r) = None \<Longrightarrow> stuck (snd (f r))"
  unfolding tracks_def by (metis (mono_tags, lifting) option.simps(4))

lemma tracks_stuck: "tracks f g \<Longrightarrow> stuck r \<Longrightarrow> stuck (snd (f r))"
  unfolding tracks_def by blast

lemma tracks32: "tracks step32 get32"
proof (rule tracksI)
  fix r
  show "stuck r \<Longrightarrow> stuck (snd (step32 r))" by (simp add: step32_def stuck_u32)
  show "\<not> stuck r \<Longrightarrow> case get32 (m_buf r) (m_pos r) of None \<Rightarrow> stuck (snd (step32 r)) | Some (x, p) \<Rightarrow> step32 r = (x, r\<lparr>m_pos := p\<rparr>)"
    by (cases r rule: r_u32_cases) (simp_all add: step32_def)
qed (simp add: get32_None_iff)

lemma tracks_bind:
  assumes f: "tracks f g" and k: "\<And>x. tracks (kf x) (kg x)"
  shows "tracks (\<lambda>r. let (x, r') = f r in kf x r') (\<lambda>buf pos. Option.bind (g buf pos) (\<lambda>(x, p). kg x buf p))"
  unfolding tracks_def
proof (intro allI conjI impI)
  fix r
  obtain x r' where fr: "f r = (x, r')" by fastforce
  show "stuck r \<Longrightarrow> stuck (snd (let (x, r') = f r in kf x r'))"
    using tracks_stuck [OF f, of r] tracks_stuck [OF k, of r'] by (simp add: fr)
  show "case Option.bind (g (m_buf r) (m_pos r)) (\<lambda>(x, p). kg x (m_buf r) p) of
      None \<Rightarrow> stuck (snd (let (x, r') = f r in kf x r'))
    | Some (y, p) \<Rightarrow> (let (x, r') = f r in kf x r') = (y, r\<lparr>m_pos := p\<rparr>)"
  proof (cases "g (m_buf r) (m_pos r)")
    case None
    then show ?thesis using tracks_None [OF f None] tracks_stuck [OF k, of r'] by (simp add: fr)
  next
    case (Some xp)
    obtain x' p where xp: "xp = (x', p)" by (cases xp)
    with Some tracks_Some [OF f] have "f r = (x', r\<lparr>m_pos := p\<rparr>)" by simp
    with Some xp k [of x'] show ?thesis
      by (auto simp: tracks_def dest!: spec [of _ "r\<lparr>m_pos := p\<rparr>"] split: option.splits)
  qed
qed

lemma tracks_const: "tracks (\<lambda>r. (x, r)) (\<lambda>buf pos. Some (x, pos))"
  by (simp add: tracks_def)

lemma tracks64: "tracks step64 get64"
proof -
  have "tracks (\<lambda>r. let (hi, r) = step32 r in let (lo, r) = step32 r in (push_bit 32 (ucast hi) OR ucast lo :: u64, r))
      (\<lambda>buf pos. Option.bind (get32 buf pos) (\<lambda>(hi, p). Option.bind (get32 buf p) (\<lambda>(lo, p). Some (push_bit 32 (ucast hi) OR ucast lo :: u64, p))))"
    by (intro tracks_bind tracks32 tracks_const)
  moreover have "(\<lambda>r. let (hi, r) = step32 r in let (lo, r) = step32 r in (push_bit 32 (ucast hi) OR ucast lo :: u64, r)) = step64"
    by (simp add: fun_eq_iff step64_def step32_def r_u64_def Let_def split: prod.split)
  moreover have "(\<lambda>buf pos. Option.bind (get32 buf pos) (\<lambda>(hi, p). Option.bind (get32 buf p)
      (\<lambda>(lo, p). Some (push_bit 32 (ucast hi) OR ucast lo :: u64, p)))) = get64"
    by (simp add: fun_eq_iff get64_def split: Option.bind_split prod.split)
  ultimately show ?thesis by (simp only:)
qed

lemma tracks_opt:
  assumes "tracks f g"
  shows "tracks (\<lambda>r. let (p, r) = step32 r in if p \<noteq> 0 then let (v, r) = f r in (Some v, r) else (None, r)) (strict_opt g)"
proof -
  have "tracks (\<lambda>r. if p \<noteq> 0 then let (v, r) = f r in (Some v, r) else (None, r))
      (\<lambda>buf pos. if p \<noteq> 0 then Option.bind (g buf pos) (\<lambda>(v, q). Some (Some v, q)) else Some (None, pos))" for p :: u32
    by (cases "p = 0"; simp only: simp_thms if_True if_False not_True_eq_False not_False_eq_True; intro tracks_bind tracks_const assms)
  from tracks_bind [OF tracks32 this]
  have "tracks (\<lambda>r. let (p, r) = step32 r in if p \<noteq> 0 then let (v, r) = f r in (Some v, r) else (None, r))
    (\<lambda>buf pos. Option.bind (get32 buf pos) (\<lambda>(p, q). if p \<noteq> 0 then Option.bind (g buf q) (\<lambda>(v, q). Some (Some v, q)) else Some (None, q)))" .
  moreover have "(\<lambda>buf pos. Option.bind (get32 buf pos) (\<lambda>(p, q). if p \<noteq> 0
      then Option.bind (g buf q) (\<lambda>(v, q). Some (Some v, q)) else Some (None, q))) = strict_opt g"
    by (auto simp: fun_eq_iff strict_opt_def split: Option.bind_split prod.split)
  ultimately show ?thesis by (simp only:)
qed

lemma tracks_opt32: "tracks read_opt32 (strict_opt get32)"
proof -
  have "read_opt32 = (\<lambda>r. let (p, r) = step32 r in if p \<noteq> 0 then let (v, r) = step32 r in (Some v, r) else (None, r))"
    by (simp add: fun_eq_iff read_opt32_def step32_def Let_def split: prod.split)
  then show ?thesis using tracks_opt [OF tracks32] by (simp only:)
qed

lemma tracks_opt64: "tracks read_opt64 (strict_opt get64)"
proof -
  have "read_opt64 = (\<lambda>r. let (p, r) = step32 r in if p \<noteq> 0 then let (v, r) = step64 r in (Some v, r) else (None, r))"
    by (simp add: fun_eq_iff read_opt64_def step32_def step64_def Let_def split: prod.split)
  then show ?thesis using tracks_opt [OF tracks64] by (simp only:)
qed

lemma tracks_time: "tracks (\<lambda>r. ((), skip_time r)) strict_time"
proof -
  have "tracks (\<lambda>r. if p = 2 then let (a, r) = step32 r in let (b, r) = step32 r in ((), r) else ((), r))
      (\<lambda>buf pos. if p = 2 then Option.bind (get32 buf pos) (\<lambda>(a, q). Option.bind (get32 buf q) (\<lambda>(b, q). Some ((), q)))
        else Some ((), pos))" for p :: u32
    by (cases "p = 2"; simp only: simp_thms if_True if_False; intro tracks_bind tracks_const tracks32)
  from tracks_bind [OF tracks32 this]
  have "tracks (\<lambda>r. let (p, r) = step32 r in if p = 2 then let (a, r) = step32 r in let (b, r) = step32 r in ((), r) else ((), r))
    (\<lambda>buf pos. Option.bind (get32 buf pos) (\<lambda>(p, q). if p = 2 then Option.bind (get32 buf q)
      (\<lambda>(a, q). Option.bind (get32 buf q) (\<lambda>(b, q). Some ((), q))) else Some ((), q)))" .
  moreover have "(\<lambda>buf pos. Option.bind (get32 buf pos) (\<lambda>(p, q). if p = 2 then Option.bind (get32 buf q)
      (\<lambda>(a, q). Option.bind (get32 buf q) (\<lambda>(b, q). Some ((), q))) else Some ((), q))) = strict_time"
    by (auto simp: fun_eq_iff strict_time_def split: Option.bind_split prod.split)
  moreover have "(\<lambda>r. let (p, r) = step32 r in if p = 2 then let (a, r) = step32 r in let (b, r) = step32 r in ((), r) else ((), r))
      = (\<lambda>r. ((), skip_time r))"
    by (simp add: fun_eq_iff skip_time_def step32_def Let_def split: prod.split)
  ultimately show ?thesis by (simp only:)
qed

definition lenient_fields :: "xdr_reader \<Rightarrow> (u32 option \<times> u64 option) \<times> xdr_reader" where
  "lenient_fields r =
     (let (mode, r) = read_opt32 r; (_, r) = read_opt32 r; (_, r) = read_opt32 r; (sz, r) = read_opt64 r
      in ((mode, sz), skip_time (skip_time r)))"

lemma tracks_fields: "tracks lenient_fields strict_fields"
proof -
  have "tracks (\<lambda>r. let (mode, r) = read_opt32 r in let (_, r) = read_opt32 r in let (_, r) = read_opt32 r in
      let (sz, r) = read_opt64 r in let (_, r) = ((), skip_time r) in let (_, r) = ((), skip_time r) in
      ((mode, sz), r)) (\<lambda>buf pos. strict_fields buf pos)"
    unfolding strict_fields_def
    by (intro tracks_bind tracks_const tracks_opt32 tracks_opt64 tracks_time)
  moreover have "(\<lambda>r. let (mode, r) = read_opt32 r in let (_, r) = read_opt32 r in let (_, r) = read_opt32 r in
      let (sz, r) = read_opt64 r in let (_, r) = ((), skip_time r) in let (_, r) = ((), skip_time r) in
      ((mode, sz), r)) = lenient_fields"
    by (simp add: fun_eq_iff lenient_fields_def Let_def)
  ultimately show ?thesis by (simp only:)
qed

lemma read_setattr_lenient:
  "read_setattr s r =
     (let (fh, _, r) = r_opaqueVar r; ((mode, sz), r) = lenient_fields r; (_, k, _) = r_u32 r
      in \<lparr>sa_path = pathForHandle s fh, sa_mode = mode, sa_size = sz, sa_ok = k\<rparr>)"
  by (simp add: read_setattr_def lenient_fields_def Let_def split_def)

lemma read_setattr_strict:
  fixes s :: "'fs nfs_server"
  defines "a r \<equiv> read_setattr s r" and "rest r \<equiv> snd (snd (r_opaqueVar r))"
  shows "case strict_setattr (m_buf (rest r)) (m_pos (rest r)) of
      None \<Rightarrow> \<not> sa_ok (a r)
    | Some (mode, sz) \<Rightarrow> a r = \<lparr>sa_path = pathForHandle s (fst (r_opaqueVar r)), sa_mode = mode, sa_size = sz, sa_ok = True\<rparr>"
proof (cases "strict_fields (m_buf (rest r)) (m_pos (rest r))")
  case None
  from tracks_None [OF tracks_fields None] show ?thesis
    by (simp add: strict_setattr_def None a_def read_setattr_lenient split_def Let_def stuck_u32 flip: rest_def)
next
  case (Some x)
  obtain mode sz p where x: "x = ((mode, sz), p)" by (metis surj_pair)
  from tracks_Some [OF tracks_fields, of "rest r" "(mode, sz)" p] Some
  have "lenient_fields (rest r) = ((mode, sz), (rest r)\<lparr>m_pos := p\<rparr>)" by (simp add: x)
  then show ?thesis
    by (cases "(rest r)\<lparr>m_pos := p\<rparr>" rule: r_u32_cases)
      (simp_all add: strict_setattr_def Some x a_def read_setattr_lenient split_def Let_def flip: rest_def)
qed

section \<open>Properties\<close>

text \<open>C6: \<open>SETATTR\<close> is all or nothing: read strictly, the attributes of the request either parse
  completely and exactly those are applied, or some field is cut off and the file system is not
  touched.\<close>

theorem nfs_setattr_all_or_nothing:
  "disk (snd (proc_setattr h ops r w s)) =
     (let (fh, _, rest) = r_opaqueVar r; path = pathForHandle s fh
      in case strict_setattr (m_buf rest) (m_pos rest) of
           None \<Rightarrow> disk s
         | Some (mode, sz) \<Rightarrow>
             if path = [] then disk s
             else let fs = (case mode of None \<Rightarrow> disk s | Some m \<Rightarrow> fs_chmod ops path (m AND 0xFFF) (disk s))
                  in case sz of None \<Rightarrow> fs | Some z \<Rightarrow> fs_truncate ops path z fs)"
proof -
  obtain fh k rest where o: "r_opaqueVar r = (fh, k, rest)" by (cases "r_opaqueVar r")
  show ?thesis
    using read_setattr_strict [where r = r and s = s]
    by (cases "strict_setattr (m_buf rest) (m_pos rest)")
      (auto simp: proc_setattr_def apply_setattr_def Let_def o cong: option.case_cong)
qed

text \<open>C7: Every reply is empty or an accepted RPC reply to the call: it starts with the
  transaction id of the request, the reply and success words and a null verifier, and it is a
  whole number of XDR units.\<close>

theorem nfs_reply_wellformed:
  "let reply = fst (handleDatagram h ops d s)
   in reply = [] \<or> (take 24 reply = be32 (fst (r_u32 \<lparr>m_buf = d, m_pos = 0\<rparr>)) @ be32 1 @ replicate 16 0 \<and>
       length reply mod 4 = 0)"
proof (cases "read_call d")
  case None
  then show ?thesis by (simp add: handleDatagram_def)
next
  case (Some c)
  let ?hd = "putReplyHeader [] (rpc_xid c)" and ?reply = "fst (handleDatagram h ops d s)"
  have xid: "rpc_xid c = fst (r_u32 \<lparr>m_buf = d, m_pos = 0\<rparr>)"
    using Some by (auto simp: read_call_def Let_def split_def split: if_splits)
  have hd: "?hd = be32 (rpc_xid c) @ be32 1 @ replicate 16 0"
    by (simp add: putReplyHeader_def w_u32s_def w_u32_def be32_def eval_nat_numeral)
  have "?reply = [] \<or> grows ?hd ?reply"
    using Some by (simp add: handleDatagram_def Let_def grows_nfs3_proc grows_mount grows_portmap)
  then show ?thesis
    by (auto simp: Let_def grows_def hd simp flip: xid)
qed

end
