(* ===== verification/Tftp.thy ===== *)
theory Tftp
  imports Remote_Path Host
begin

text \<open>
  The TFTP packet codec and the read-only TFTP server, \<open>src/src/tools/TftpPacket.{h,cpp}\<close> and
  \<open>src/src/tools/TftpServer.{h,cpp}\<close>. The server answers one datagram at a time; its state is
  the table of running transfers, keyed by the peer. The host's files are the argument
  \<open>tftp_files\<close>.
\<close>

section \<open>Packets\<close>

datatype Op = RRQ | WRQ | DATA | ACK | ERROR | Invalid

record Packet =
  op :: Op
  filename :: string
  mode :: string
  block :: u16
  pdata :: bytes
  errorCode :: u16
  errorMsg :: string
  valid :: bool

definition empty_packet :: Packet where
  "empty_packet = \<lparr>op = Invalid, filename = [], mode = [], block = 0, pdata = [], errorCode = 0,
     errorMsg = [], valid = False\<rparr>"

definition rd16 :: "bytes \<Rightarrow> nat \<Rightarrow> u16" where
  "rd16 b off = join16 (b ! off) (b ! (off + 1))"

definition wr16 :: "bytes \<Rightarrow> u16 \<Rightarrow> bytes" where
  "wr16 b v = b @ [ucast (drop_bit 8 v), ucast v]"

definition decode :: "host \<Rightarrow> bytes \<Rightarrow> Packet" where
  "decode h b =
     (let p = empty_packet in
      if length b < 2 then p
      else let opc = rd16 b 0 in
        if opc = 1 \<or> opc = 2 then
          let p = p\<lparr>op := (if opc = 1 then RRQ else WRQ)\<rparr>
          in (case index_from 0 2 b of None \<Rightarrow> p
              | Some fnEnd \<Rightarrow>
                  let p = p\<lparr>filename := fromUtf8 h (take (fnEnd - 2) (drop 2 b))\<rparr>
                  in (case index_from 0 (fnEnd + 1) b of None \<Rightarrow> p
                      | Some mEnd \<Rightarrow>
                          p\<lparr>mode := fromUtf8 h (take (mEnd - fnEnd - 1) (drop (fnEnd + 1) b)), valid := True\<rparr>))
        else if opc = 3 then
          (if length b < 4 then p
           else p\<lparr>op := DATA, block := rd16 b 2, pdata := drop 4 b, valid := True\<rparr>)
        else if opc = 4 then
          (if length b < 4 then p else p\<lparr>op := ACK, block := rd16 b 2, valid := True\<rparr>)
        else if opc = 5 then
          (if length b < 4 then p
           else p\<lparr>op := ERROR, errorCode := rd16 b 2,
                  errorMsg := fromUtf8 h (case index_from 0 4 b of None \<Rightarrow> drop 4 b
                                          | Some e \<Rightarrow> take (e - 4) (drop 4 b)),
                  valid := True\<rparr>)
        else p)"

definition encodeAck :: "u16 \<Rightarrow> bytes" where
  "encodeAck blk = wr16 (wr16 [] 4) blk"

definition encodeData :: "u16 \<Rightarrow> bytes \<Rightarrow> bytes" where
  "encodeData blk d = wr16 (wr16 [] 3) blk @ d"

definition encodeError :: "host \<Rightarrow> u16 \<Rightarrow> string \<Rightarrow> bytes" where
  "encodeError h code msg = wr16 (wr16 [] 5) code @ toUtf8 h msg @ [0]"

section \<open>The server\<close>

abbreviation "kBlockSize \<equiv> 512 :: int"

record Transfer =
  tdata :: bytes
  nextBlock :: int

record tftp_server =
  m_root :: string
  m_transfers :: "string \<rightharpoonup> Transfer"

text \<open>\<open>QFileInfo::absoluteFilePath\<close>, \<open>isFile\<close>, and opening and reading a whole file.\<close>

record tftp_files =
  absoluteFilePath :: "string \<Rightarrow> string"
  isFile :: "string \<Rightarrow> bool"
  readFile :: "string \<Rightarrow> bytes option"

definition tftp_start :: "tftp_files \<Rightarrow> string \<Rightarrow> tftp_server" where
  "tftp_start fl rootDir = \<lparr>m_root = absoluteFilePath fl rootDir, m_transfers = Map.empty\<rparr>"

definition tftp_stop :: "tftp_server \<Rightarrow> tftp_server" where
  "tftp_stop s = s\<lparr>m_transfers := Map.empty\<rparr>"

text \<open>\<open>it->data.mid(off, kBlockSize)\<close>: an offset behind the end gives nothing.\<close>

definition data_block :: "bytes \<Rightarrow> int \<Rightarrow> bytes" where
  "data_block d off = take 512 (drop (nat off) d)"

definition set_transfer :: "string \<Rightarrow> Transfer option \<Rightarrow> tftp_server \<Rightarrow> tftp_server" where
  "set_transfer key t s = s\<lparr>m_transfers := (m_transfers s)(key := t)\<rparr>"

definition handle_rrq :: "host \<Rightarrow> tftp_files \<Rightarrow> string \<Rightarrow> Packet \<Rightarrow> tftp_server \<Rightarrow> bytes list \<times> tftp_server" where
  "handle_rrq h fl key p s =
     (let rel = normalize (''/'' @ filename p);
          full = absoluteFilePath fl (m_root s @ rel)
      in if \<not> starts_with (m_root s) full \<or> \<not> isFile fl full
         then ([encodeError h 1 ''File not found''], s)
         else (case readFile fl full of
                 None \<Rightarrow> ([encodeError h 2 ''Access violation''], s)
               | Some d \<Rightarrow>
                   ([encodeData 1 (take 512 d)],
                    set_transfer key (Some \<lparr>tdata = d, nextBlock = 1\<rparr>) s)))"

definition handle_ack :: "string \<Rightarrow> Packet \<Rightarrow> tftp_server \<Rightarrow> bytes list \<times> tftp_server" where
  "handle_ack key p s =
     (case m_transfers s key of
        None \<Rightarrow> ([], s)
      | Some t \<Rightarrow>
          if uint (block p) = nextBlock t
          then let ackedStart = (nextBlock t - 1) * kBlockSize;
                   ackedLen = min kBlockSize (int (length (tdata t)) - ackedStart)
               in if ackedLen < kBlockSize
                  then ([], set_transfer key None s)
                  else let t = t\<lparr>nextBlock := nextBlock t + 1\<rparr>;
                           off = (nextBlock t - 1) * kBlockSize
                       in ([encodeData (of_int (nextBlock t)) (data_block (tdata t) off)],
                           set_transfer key (Some t) s)
          else ([], s))"

definition onDatagram :: "host \<Rightarrow> tftp_files \<Rightarrow> string \<times> bytes \<Rightarrow> tftp_server \<Rightarrow> bytes list \<times> tftp_server" where
  "onDatagram h fl dg s =
     (case dg of (key, buf) \<Rightarrow>
        let p = decode h buf in
        (case op p of
           RRQ \<Rightarrow> handle_rrq h fl key p s
         | ACK \<Rightarrow> handle_ack key p s
         | WRQ \<Rightarrow> ([encodeError h 2 ''Server is read-only''], s)
         | _ \<Rightarrow> ([], s)))"

fun run_tftp :: "host \<Rightarrow> tftp_files \<Rightarrow> (string \<times> bytes) list \<Rightarrow> tftp_server \<Rightarrow> bytes list \<times> tftp_server" where
  "run_tftp h fl [] s = ([], s)"
| "run_tftp h fl (d # ds) s =
     (let (out, s) = onDatagram h fl d s; (outs, s) = run_tftp h fl ds s in (out @ outs, s))"

lemma set_transfer_simps [simp]:
  "m_transfers (set_transfer key t s) = (m_transfers s)(key := t)"
  "m_root (set_transfer key t s) = m_root s"
  "set_transfer key t (set_transfer key u s) = set_transfer key t s"
  by (simp_all add: set_transfer_def)

lemma set_transfer_id: "m_transfers s key = t \<Longrightarrow> set_transfer key t s = s"
  by (auto simp: set_transfer_def intro: tftp_server.equality)

section \<open>Codec lemmas\<close>

lemma rd16_pair: "rd16 (a # b # r) 0 = join16 a b"
  by (simp add: rd16_def)

lemma join16_consts [simp]:
  "join16 0 1 = 1" "join16 0 2 = 2" "join16 0 3 = 3" "join16 0 4 = 4" "join16 0 5 = 5"
  by (simp_all add: join16_def)

lemma decode_ack: "decode h (encodeAck b) = empty_packet\<lparr>op := ACK, block := b, valid := True\<rparr>"
  by (simp add: decode_def encodeAck_def wr16_def rd16_def codec Let_def)

lemma decode_data: "decode h (encodeData b d) = empty_packet\<lparr>op := DATA, block := b, pdata := d, valid := True\<rparr>"
  by (simp add: decode_def encodeData_def wr16_def rd16_def codec Let_def)

lemma decode_error:
  assumes "0 \<notin> set (toUtf8 h msg)"
  shows "decode h (encodeError h c msg) =
    empty_packet\<lparr>op := ERROR, errorCode := c, errorMsg := fromUtf8 h (toUtf8 h msg), valid := True\<rparr>"
  using assms
  by (simp add: decode_def encodeError_def wr16_def rd16_def codec Let_def index_from_def)

section \<open>A whole transfer\<close>

text \<open>The blocks of a file: full ones, then a shorter one that may be empty.\<close>

function tftp_blocks :: "bytes \<Rightarrow> bytes list" where
  "tftp_blocks d = (if length d < 512 then [d] else take 512 d # tftp_blocks (drop 512 d))"
  by pat_completeness auto
termination
  by (relation "measure length") auto

declare tftp_blocks.simps [simp del]

lemma concat_blocks: "concat (tftp_blocks d) = d"
  by (induction d rule: tftp_blocks.induct) (subst tftp_blocks.simps, simp)

lemma length_blocks: "length (tftp_blocks d) = length d div 512 + 1"
proof (induction d rule: tftp_blocks.induct)
  case (1 d)
  show ?case
  proof (cases "length d < 512")
    case False
    then have "length d div 512 = (length d - 512) div 512 + 1" by (simp add: le_div_geq)
    with False 1 show ?thesis by (simp add: tftp_blocks.simps [of d])
  qed (simp add: tftp_blocks.simps)
qed

lemma nth_blocks: "i \<le> length d div 512 \<Longrightarrow> tftp_blocks d ! i = take 512 (drop (512 * i) d)"
proof (induction d arbitrary: i rule: tftp_blocks.induct)
  case (1 d)
  show ?case
  proof (cases "length d < 512")
    case False
    then have "length d div 512 = (length d - 512) div 512 + 1" by (simp add: le_div_geq)
    with False 1 show ?thesis
      by (cases i) (simp_all add: tftp_blocks.simps [of d] add.commute)
  qed (use "1.prems" in \<open>simp add: tftp_blocks.simps\<close>)
qed

definition acks :: "string \<Rightarrow> nat list \<Rightarrow> (string \<times> bytes) list" where
  "acks key ks = map (\<lambda>k. (key, encodeAck (of_nat k))) ks"

definition sent_block :: "bytes \<Rightarrow> nat \<Rightarrow> bytes" where
  "sent_block d k = encodeData (of_nat k) (tftp_blocks d ! (k - 1))"

lemma ack_step:
  assumes "m_transfers s key = Some \<lparr>tdata = d, nextBlock = int k\<rparr>" and "0 < k" and "k < 2 ^ 16"
    and "512 * (k - 1) \<le> length d"
  shows "onDatagram h fl (key, encodeAck (of_nat k)) s =
    (if length d < 512 * k then ([], set_transfer key None s)
     else ([sent_block d (Suc k)], set_transfer key (Some \<lparr>tdata = d, nextBlock = int (Suc k)\<rparr>) s))"
proof -
  obtain j where k: "k = Suc j" using assms(2) by (cases k) auto
  have "uint (of_nat k :: u16) = int k"
    using unat_of_nat_small [of k, where 'a = 16] assms(3) by (simp add: uint_nat)
  moreover have "tftp_blocks d ! k = take 512 (drop (512 * k) d)" if "\<not> length d < 512 * k"
    by (rule nth_blocks) (use that in \<open>simp add: less_eq_div_iff_mult_less_eq mult.commute\<close>)
  moreover have "nat ((int k + 1 - 1) * kBlockSize) = 512 * k" by simp
  ultimately show ?thesis
    using assms(1,4)
    by (auto simp: onDatagram_def decode_ack handle_ack_def k Let_def empty_packet_def sent_block_def
        data_block_def min_def algebra_simps nat_mult_distrib)
qed

lemma run_tftp_append:
  "run_tftp h fl (xs @ ys) s =
     (let (o1, s1) = run_tftp h fl xs s; (o2, s2) = run_tftp h fl ys s1 in (o1 @ o2, s2))"
  by (induction xs arbitrary: s) (simp_all add: Let_def split_def)

lemma acks_snoc: "acks key (ks @ [k]) = acks key ks @ [(key, encodeAck (of_nat k))]"
  by (simp add: acks_def)

text \<open>Acknowledging the first \<open>m\<close> blocks, all of them full.\<close>

lemma ack_prefix:
  assumes "m_transfers s key = Some \<lparr>tdata = d, nextBlock = 1\<rparr>"
    and "m < 2 ^ 16" and "512 * m \<le> length d"
  shows "run_tftp h fl (acks key [1..<Suc m]) s =
    (map (sent_block d) [2..<Suc (Suc m)],
     set_transfer key (Some \<lparr>tdata = d, nextBlock = int (Suc m)\<rparr>) s)"
  using assms(2,3)
proof (induction m)
  case 0
  show ?case using assms(1) by (simp add: acks_def set_transfer_id)
next
  case (Suc m)
  let ?s = "set_transfer key (Some \<lparr>tdata = d, nextBlock = int (Suc m)\<rparr>) s"
  have "onDatagram h fl (key, encodeAck (of_nat (Suc m))) ?s =
      ([sent_block d (Suc (Suc m))], set_transfer key (Some \<lparr>tdata = d, nextBlock = int (Suc (Suc m))\<rparr>) s)"
    using ack_step [of ?s key d "Suc m" h fl] Suc.prems by simp
  moreover have "[1..<Suc (Suc m)] = [1..<Suc m] @ [Suc m]" "[2..<Suc (Suc (Suc m))] = [2..<Suc (Suc m)] @ [Suc (Suc m)]"
    by simp_all
  ultimately show ?case
    using Suc by (simp add: run_tftp_append acks_snoc Let_def del: upt_Suc of_nat_Suc)
qed

lemma ack_run:
  assumes "m_transfers s key = Some \<lparr>tdata = d, nextBlock = 1\<rparr>" and "length d < 512 * 65535"
  shows "run_tftp h fl (acks key [1..<Suc (length (tftp_blocks d))]) s =
    (map (sent_block d) [2..<Suc (length (tftp_blocks d))],
     set_transfer key None s)"
proof -
  let ?m = "length d div 512"
  let ?s = "set_transfer key (Some \<lparr>tdata = d, nextBlock = int (Suc ?m)\<rparr>) s"
  have m: "512 * ?m \<le> length d" "length d < 512 * Suc ?m" "Suc ?m < 2 ^ 16"
    using assms(2) by (simp_all add: dividend_less_times_div)
  have "onDatagram h fl (key, encodeAck (of_nat (Suc ?m))) ?s = ([], set_transfer key None s)"
    using ack_step [of ?s key d "Suc ?m" h fl] m by simp
  moreover have "[1..<Suc (Suc ?m)] = [1..<Suc ?m] @ [Suc ?m]" by simp
  ultimately show ?thesis
    using ack_prefix [OF assms(1), of ?m h fl] m
    by (simp add: length_blocks run_tftp_append acks_snoc Let_def del: upt_Suc of_nat_Suc)
qed

definition served :: "tftp_files \<Rightarrow> tftp_server \<Rightarrow> string \<Rightarrow> bytes option" where
  "served fl s name =
     (let full = absoluteFilePath fl (m_root s @ normalize (''/'' @ name))
      in if starts_with (m_root s) full \<and> isFile fl full then readFile fl full else None)"

lemma rrq_served:
  "served fl s (filename p) = Some d \<Longrightarrow> handle_rrq h fl key p s =
     ([encodeData 1 (take 512 d)], set_transfer key (Some \<lparr>tdata = d, nextBlock = 1\<rparr>) s)"
  by (auto simp: served_def handle_rrq_def Let_def split: if_splits)

lemma upt_from1: "0 < n \<Longrightarrow> [1..<Suc n] = 1 # [2..<Suc n]"
  using upt_conv_Cons [of 1 "Suc n"] by (simp only: Suc_1)

lemma tftp_stall:
  assumes N: "int (Suc N) = 65536" and rrq: "op (decode h rrq) = RRQ"
    and served: "served fl s (filename (decode h rrq)) = Some d"
    and big: "512 * N \<le> length d" and bufs: "list_all (\<lambda>buf. op (decode h buf) = ACK) bufs"
  shows "fst (run_tftp h fl ((key, rrq) # acks key [1..<Suc N] @ map (Pair key) bufs) s) =
    map (sent_block d) [1..<Suc (Suc N)]"
proof -
  let ?s = "\<lambda>k. set_transfer key (Some \<lparr>tdata = d, nextBlock = k\<rparr>) s"
  have first: "onDatagram h fl (key, rrq) s = ([sent_block d 1], ?s 1)"
    using rrq_served [OF served] nth_blocks [of 0 d] by (simp add: onDatagram_def rrq Let_def sent_block_def)
  have stall: "onDatagram h fl (key, buf) (?s 65536) = ([], ?s 65536)" if "op (decode h buf) = ACK" for buf
  proof -
    have "uint (block (decode h buf)) < 65536"
      using uint_lt2p [of "block (decode h buf)"] by simp
    then show ?thesis using that by (simp add: onDatagram_def handle_ack_def)
  qed
  have last: "run_tftp h fl (map (Pair key) bufs) (?s 65536) = ([], ?s 65536)"
    using bufs by (induction bufs) (simp_all add: stall)
  have "N < 2 ^ 16" using N by simp
  then have mid: "run_tftp h fl (acks key [1..<Suc N]) (?s 1) = (map (sent_block d) [2..<Suc (Suc N)], ?s 65536)"
    using ack_prefix [of "?s 1" key d N h fl] big unfolding N by (simp del: upt_Suc)
  show ?thesis
    unfolding upt_from1 [OF zero_less_Suc]
    by (simp add: first run_tftp_append mid last Let_def del: upt_Suc One_nat_def)
qed

section \<open>Properties\<close>

text \<open>C3: A read request followed by the acknowledgement of every block transfers the file: the
  server sends data packets numbered from one whose payloads, all full but the last, concatenate
  to the file, and forgets the transfer after the last acknowledgement. This holds for files
  below 65535 full blocks.\<close>

theorem tftp_transfer_complete:
  assumes "op (decode h rrq) = RRQ" and "served fl s (filename (decode h rrq)) = Some d"
    and "length d < 512 * 65535"
  shows "let n = length d div 512 + 1;
             (outs, s') = run_tftp h fl ((key, rrq) # acks key [1..<Suc n]) s;
             packets = map (decode h) outs
         in concat (map pdata packets) = d \<and> map block packets = map of_nat [1..<Suc n] \<and>
            map (length \<circ> pdata) packets = replicate (n - 1) 512 @ [length d mod 512] \<and>
            m_transfers s' = (m_transfers s)(key := None)"
proof -
  let ?n = "length (tftp_blocks d)"
  let ?s = "set_transfer key (Some \<lparr>tdata = d, nextBlock = 1\<rparr>) s"
  let ?sent = "map (sent_block d) [1..<Suc ?n]"
  have rrq: "onDatagram h fl (key, rrq) s = ([sent_block d 1], ?s)"
    using rrq_served [OF assms(2)] nth_blocks [of 0 d] by (simp add: onDatagram_def assms(1) Let_def sent_block_def)
  have "1 \<le> ?n" by (simp add: length_blocks)
  then have "run_tftp h fl (acks key [1..<Suc ?n]) ?s =
      (map (sent_block d) [2..<Suc ?n], set_transfer key None s)"
    using ack_run [of ?s key d h fl] assms(3) by (simp del: upt_Suc)
  moreover have "[1..<Suc ?n] = 1 # [2..<Suc ?n]" using \<open>1 \<le> ?n\<close> by (intro upt_from1) linarith
  ultimately have run: "run_tftp h fl ((key, rrq) # acks key [1..<Suc ?n]) s =
      (?sent, set_transfer key None s)"
    by (simp add: rrq del: upt_Suc)
  have blocks: "map (pdata \<circ> decode h) ?sent = tftp_blocks d"
    by (rule nth_equalityI) (simp_all add: sent_block_def decode_data empty_packet_def del: upt_Suc)
  have "map length (tftp_blocks d) = replicate (length d div 512) 512 @ [length d mod 512]"
  proof (rule nth_equalityI)
    fix i assume "i < length (map length (tftp_blocks d))"
    then have i: "i \<le> length d div 512" by (simp add: length_blocks)
    then have "512 * i \<le> length d" by (simp add: less_eq_div_iff_mult_less_eq mult.commute)
    with i show "map length (tftp_blocks d) ! i = (replicate (length d div 512) 512 @ [length d mod 512]) ! i"
      by (auto simp: nth_blocks length_blocks nth_append min_def minus_mult_div_eq_mod [symmetric] not_less
          dest!: le_neq_implies_less intro: antisym)
  qed (simp add: length_blocks)
  then have lens: "map (length \<circ> pdata) (map (decode h) ?sent) = replicate (?n - 1) 512 @ [length d mod 512]"
    using blocks by (metis (no_types) add_diff_cancel_right' length_blocks map_map)
  have nums: "map block (map (decode h) ?sent) = map of_nat [1..<Suc ?n]"
    by (simp add: sent_block_def decode_data empty_packet_def del: upt_Suc)
  have payload: "concat (map pdata (map (decode h) ?sent)) = d"
    using blocks concat_blocks [of d] by (simp only: map_map comp_assoc)
  show ?thesis
    unfolding Let_def length_blocks [symmetric] run prod.case
    using lens nums payload by (simp only: set_transfer_simps)
qed

theorem tftp_transfer_complete_witness:
  "let fl = \<lparr>absoluteFilePath = (\<lambda>p. p), isFile = (\<lambda>p. p = ''/srv/a''), readFile = (\<lambda>p. Some [1,2,3])\<rparr>;
       h = \<lparr>cleanPath = normalize, filePath = (\<lambda>d n. n), toUtf8 = to_latin1, fromUtf8 = from_latin1\<rparr>;
       (outs, s') = run_tftp h fl ((''c:9'', wr16 [] 1 @ to_latin1 ''a'' @ [0] @ to_latin1 ''octet'' @ [0]) # acks ''c:9'' [1..<Suc 1])
          \<lparr>m_root = ''/srv'', m_transfers = Map.empty\<rparr>;
       packets = map (decode h) outs
   in concat (map pdata packets) = [1,2,3] \<and> map block packets = map of_nat [1..<Suc 1] \<and>
      map (length \<circ> pdata) packets = replicate (1 - 1) 512 @ [3] \<and> m_transfers s' = Map.empty"
proof -
  let ?h = "\<lparr>cleanPath = normalize, filePath = (\<lambda>d n. n), toUtf8 = to_latin1, fromUtf8 = from_latin1\<rparr>"
  let ?fl = "\<lparr>absoluteFilePath = (\<lambda>p. p), isFile = (\<lambda>p. p = ''/srv/a''), readFile = (\<lambda>p. Some [1,2,3])\<rparr>"
  let ?rrq = "wr16 [] 1 @ to_latin1 ''a'' @ [0] @ to_latin1 ''octet'' @ [0]"
  let ?s = "\<lparr>m_root = ''/srv'', m_transfers = Map.empty\<rparr>"
  have 1: "op (decode ?h ?rrq) = RRQ" by code_simp
  have 2: "served ?fl ?s (filename (decode ?h ?rrq)) = Some [1,2,3]" by code_simp
  from tftp_transfer_complete [OF 1 2, of "''c:9''"] show ?thesis by (simp add: Let_def del: upt_Suc)
qed

text \<open>A file of 65535 full blocks or more is never transferred completely: after the peer has
  acknowledged the first 65535 blocks and received block 65536 (numbered 0), whatever it
  acknowledges, the server sends nothing more, because the 16-bit block number of a packet
  cannot equal the counter.\<close>

theorem tftp_large_transfer_stalls:
  assumes "op (decode h rrq) = RRQ" and "served fl s (filename (decode h rrq)) = Some d"
    and "512 * 65535 \<le> length d" and "list_all (\<lambda>buf. op (decode h buf) = ACK) bufs"
  shows "fst (run_tftp h fl ((key, rrq) # acks key [1..<Suc 65535] @ map (Pair key) bufs) s) =
    map (sent_block d) [1..<Suc 65536]"
proof -
  have "65536 = Suc 65535" "int (Suc 65535) = 65536" by simp_all
  with tftp_stall [OF _ assms(1-4)] show ?thesis by metis
qed

theorem tftp_large_transfer_stalls_witness:
  "let fl = \<lparr>absoluteFilePath = (\<lambda>p. p), isFile = (\<lambda>p. True), readFile = (\<lambda>p. Some (replicate (512 * 65535) 0))\<rparr>;
       h = \<lparr>cleanPath = normalize, filePath = (\<lambda>d n. n), toUtf8 = to_latin1, fromUtf8 = from_latin1\<rparr>
   in fst (run_tftp h fl ((''c:9'', wr16 [] 1 @ to_latin1 ''a'' @ [0] @ to_latin1 ''octet'' @ [0]) #
          acks ''c:9'' [1..<Suc 65535] @ map (Pair ''c:9'') [encodeAck 0, encodeAck 1])
        \<lparr>m_root = ''/srv'', m_transfers = Map.empty\<rparr>) =
      map (sent_block (replicate (512 * 65535) 0)) [1..<Suc 65536]"
proof -
  let ?h = "\<lparr>cleanPath = normalize, filePath = (\<lambda>d n. n), toUtf8 = to_latin1, fromUtf8 = from_latin1\<rparr>"
  have rrq: "op (decode ?h (wr16 [] 1 @ to_latin1 ''a'' @ [0] @ to_latin1 ''octet'' @ [0])) = RRQ" by code_simp
  have "starts_with ''/srv'' (''/srv'' @ p)" for p by (rule starts_with_append)
  then show ?thesis
    unfolding Let_def
    by (intro tftp_large_transfer_stalls rrq) (simp_all add: served_def Let_def decode_ack starts_with_def)
qed

text \<open>The server reads only files under its root: with a host whose absolute paths are clean,
  every file name of a request that is answered with data leads to a path under the root.\<close>

theorem tftp_confined:
  assumes "list_all proper_seg segs" and "m_root s = abs_path segs" and "segs \<noteq> []"
    and "\<And>p. starts_with ''/'' p \<Longrightarrow> absoluteFilePath fl p = normalize p"
    and "served fl s name = Some d"
  shows "\<exists>p. under (m_root s) p \<and> isFile fl p \<and> readFile fl p = Some d"
proof -
  have "starts_with ''/'' (''/'' @ name)" by simp
  then obtain rs where rs: "list_all proper_seg rs" "normalize (''/'' @ name) = abs_path rs"
    using normalize_absE by auto
  let ?full = "absoluteFilePath fl (m_root s @ normalize (''/'' @ name))"
  have "m_root s @ normalize (''/'' @ name) = CHR ''/'' # join_with ''/'' segs @ CHR ''/'' # join_with ''/'' rs"
    by (simp add: assms(2) rs(2) [simplified] abs_path_def)
  then have "?full = normalize (CHR ''/'' # join_with ''/'' segs @ CHR ''/'' # join_with ''/'' rs)"
    using assms(4) by simp
  also have "\<dots> = abs_path (segs @ rs)"
    using split_skip_abs_path [OF assms(1)] split_skip_abs_path [OF rs(1)] assms(1) rs(1)
    by (simp add: normalize_append abs_path_def resolve_segs_id)
  finally have "under (m_root s) ?full"
    using assms(3) by (simp add: assms(2) under_abs_append)
  then show ?thesis using assms(5) by (auto simp: served_def Let_def split: if_splits)
qed

theorem tftp_confined_witness:
  "let fl = \<lparr>absoluteFilePath = normalize, isFile = (\<lambda>p. p = ''/srv/etc''), readFile = (\<lambda>p. Some [7])\<rparr>
   in \<exists>p. under ''/srv'' p \<and> isFile fl p \<and> readFile fl p = Some [7]"
proof -
  let ?fl = "\<lparr>absoluteFilePath = normalize, isFile = (\<lambda>p. p = ''/srv/etc''), readFile = (\<lambda>p. Some [7])\<rparr>"
  let ?s = "\<lparr>m_root = ''/srv'', m_transfers = Map.empty\<rparr>"
  have segs: "list_all proper_seg [''srv'']" "m_root ?s = abs_path [''srv'']" by code_simp+
  have "served ?fl ?s ''../../etc'' = Some [7]" by code_simp
  from tftp_confined [OF segs _ _ this] show ?thesis by simp
qed

end
