(* ===== verification/Ftp_Server.thy ===== *)
theory Ftp_Server
  imports Confined
begin

text \<open>
  The FTP server: command parsing and replies (\<open>src/src/tools/FtpCommand.{h,cpp}\<close>) and the
  control connection (\<open>src/src/tools/FtpServer.{h,cpp}\<close>). The handler of a line answers what it
  writes, in order, on the control and the data connection, the connection's new state and the
  new file system. File system and data connections are the fields of \<open>ftp_env\<close>.
\<close>

section \<open>Commands\<close>

record ftp_command =
  verb :: string
  arg :: string
  cvalid :: bool

definition parse :: "host \<Rightarrow> bytes \<Rightarrow> ftp_command" where
  "parse h line =
     (let s = trimmed (fromUtf8 h line)
      in if s = [] then \<lparr>verb = [], arg = [], cvalid = False\<rparr>
         else let (v, a) = (case index_of CHR '' '' s of
                              None \<Rightarrow> (to_upper s, [])
                            | Some sp \<Rightarrow> (to_upper (take sp s), drop (sp + 1) s))
              in \<lparr>verb = v, arg = a, cvalid = v \<noteq> []\<rparr>)"

definition crlf :: string where
  "crlf = [char_of (13 :: nat), char_of (10 :: nat)]"

definition reply :: "host \<Rightarrow> nat \<Rightarrow> string \<Rightarrow> bytes" where
  "reply h code txt = to_latin1 (dec_of_nat code @ '' '') @ toUtf8 h txt @ to_latin1 crlf"

section \<open>The connection\<close>

record Conn =
  cwd :: string
  dataSrv :: bool
  storeTarget :: string

definition new_conn :: Conn where
  "new_conn = \<lparr>cwd = ''/'', dataSrv = False, storeTarget = []\<rparr>"

record ftp_server =
  m_root :: string
  m_bindAddr :: string

text \<open>
  What the host does: the file system calls (\<open>e_store\<close> opens for writing and writes a body, and
  answers whether both succeeded), the listing of a directory as name, directory flag, size and
  time stamp text, the outcome of listening for a data connection (its port), whether a client
  connects to it, and what it sends.
\<close>

record 'fs ftp_env =
  e_isDir :: "'fs \<Rightarrow> string \<Rightarrow> bool"
  e_exists :: "'fs \<Rightarrow> string \<Rightarrow> bool"
  e_list :: "'fs \<Rightarrow> string \<Rightarrow> (string \<times> bool \<times> nat \<times> string) list"
  e_read :: "'fs \<Rightarrow> string \<Rightarrow> bytes option"
  e_store :: "string \<Rightarrow> bytes \<Rightarrow> 'fs \<Rightarrow> bool \<times> 'fs"
  e_mkpath :: "string \<Rightarrow> 'fs \<Rightarrow> bool \<times> 'fs"
  e_removeTree :: "string \<Rightarrow> 'fs \<Rightarrow> bool \<times> 'fs"
  e_remove :: "string \<Rightarrow> 'fs \<Rightarrow> bool \<times> 'fs"
  e_rename :: "string \<Rightarrow> string \<Rightarrow> 'fs \<Rightarrow> bool \<times> 'fs"
  e_listen :: "u16 option"
  e_accept :: bool
  e_incoming :: bytes

datatype out = Control bytes | Data bytes | Disconnect

definition resolve :: "host \<Rightarrow> ftp_server \<Rightarrow> Conn \<Rightarrow> string \<Rightarrow> string" where
  "resolve h s conn a =
     (let rel = (if starts_with ''/'' a then a else cwd conn @ ''/'' @ a);
          abs = cleanPath h (m_root s @ ''/'' @ rel);
          rootAbs = cleanPath h (m_root s)
      in if abs \<noteq> rootAbs \<and> \<not> starts_with (rootAbs @ ''/'') abs then rootAbs else abs)"

text \<open>\<open>acceptData\<close>: a data socket, when \<open>PASV\<close> opened a listener and a client comes.\<close>

definition acceptData :: "'fs ftp_env \<Rightarrow> Conn \<Rightarrow> bool" where
  "acceptData e conn \<longleftrightarrow> dataSrv conn \<and> e_accept e"

text \<open>\<open>arg(size, 12)\<close> pads with blanks on the left.\<close>

definition pad_left :: "nat \<Rightarrow> string \<Rightarrow> string" where
  "pad_left n s = replicate (n - length s) (CHR '' '') @ s"

definition list_line :: "host \<Rightarrow> bool \<Rightarrow> string \<times> bool \<times> nat \<times> string \<Rightarrow> bytes" where
  "list_line h names fi =
     (case fi of (name, isDir, sz, stamp) \<Rightarrow>
        if names then toUtf8 h name @ to_latin1 crlf
        else toUtf8 h ((if isDir then ''d'' else ''-'') @ ''rw-r--r-- 1 owner group '' @
               pad_left 12 (dec_of_nat sz) @ '' '' @ stamp @ '' '' @ name @ crlf))"

definition nth_or_empty :: "string list \<Rightarrow> nat \<Rightarrow> string" where
  "nth_or_empty xs i = (if i < length xs then xs ! i else [])"

definition pasv_text :: "string \<Rightarrow> u16 \<Rightarrow> string" where
  "pasv_text addr p =
     (let oct = split_on CHR ''.'' addr
      in ''Entering Passive Mode ('' @ nth_or_empty oct 0 @ '','' @ nth_or_empty oct 1 @ '','' @
         nth_or_empty oct 2 @ '','' @ nth_or_empty oct 3 @ '','' @
         dec_of_nat (unat p div 256) @ '','' @ dec_of_nat (unat p mod 256) @ '')'')"

type_synonym 'fs result = "out list \<times> Conn \<times> 'fs"

definition yes_no :: "host \<Rightarrow> bool \<Rightarrow> nat \<times> string \<Rightarrow> nat \<times> string \<Rightarrow> out list" where
  "yes_no h b y n = [Control (case if b then y else n of (c, t) \<Rightarrow> reply h c t)]"

definition cmd_cwd :: "host \<Rightarrow> 'fs ftp_env \<Rightarrow> ftp_server \<Rightarrow> string \<Rightarrow> Conn \<Rightarrow> 'fs \<Rightarrow> 'fs result" where
  "cmd_cwd h e s a conn fs =
     (let abs = resolve h s conn a
      in if e_isDir e fs abs
         then let rel = drop (length (cleanPath h (m_root s))) abs;
                  conn = conn\<lparr>cwd := (if rel = [] then ''/'' else rel)\<rparr>
              in ([Control (reply h 250 (''Directory changed to '' @ cwd conn))], conn, fs)
         else ([Control (reply h 550 ''No such directory'')], conn, fs))"

definition cmd_pasv :: "host \<Rightarrow> 'fs ftp_env \<Rightarrow> ftp_server \<Rightarrow> Conn \<Rightarrow> 'fs \<Rightarrow> 'fs result" where
  "cmd_pasv h e s conn fs =
     (let conn = conn\<lparr>dataSrv := True\<rparr>
      in case e_listen e of
           None \<Rightarrow> ([Control (reply h 425 ''Cannot open data connection'')], conn, fs)
         | Some p \<Rightarrow> ([Control (reply h 227 (pasv_text (m_bindAddr s) p))], conn, fs))"

definition cmd_list :: "host \<Rightarrow> 'fs ftp_env \<Rightarrow> ftp_server \<Rightarrow> bool \<Rightarrow> string \<Rightarrow> Conn \<Rightarrow> 'fs \<Rightarrow> 'fs result" where
  "cmd_list h e s names a conn fs =
     (let abs = resolve h s conn a;
          first = Control (reply h 150 ''Opening data connection for directory list'')
      in if \<not> acceptData e conn then ([first, Control (reply h 425 ''No data connection'')], conn, fs)
         else let body = concat (map (list_line h names) (e_list e fs abs))
              in ([first, Data body, Control (reply h 226 ''Transfer complete'')], conn, fs))"

definition cmd_retr :: "host \<Rightarrow> 'fs ftp_env \<Rightarrow> ftp_server \<Rightarrow> string \<Rightarrow> Conn \<Rightarrow> 'fs \<Rightarrow> 'fs result" where
  "cmd_retr h e s a conn fs =
     (case e_read e fs (resolve h s conn a) of
        None \<Rightarrow> ([Control (reply h 550 ''No such file'')], conn, fs)
      | Some d \<Rightarrow>
          let first = Control (reply h 150 ''Opening data connection'')
          in if \<not> acceptData e conn then ([first, Control (reply h 425 ''No data connection'')], conn, fs)
             else ([first, Data d, Control (reply h 226 ''Transfer complete'')], conn, fs))"

definition cmd_stor :: "host \<Rightarrow> 'fs ftp_env \<Rightarrow> ftp_server \<Rightarrow> string \<Rightarrow> Conn \<Rightarrow> 'fs \<Rightarrow> 'fs result" where
  "cmd_stor h e s a conn fs =
     (let abs = resolve h s conn a;
          first = Control (reply h 150 ''Opening data connection'')
      in if \<not> acceptData e conn then ([first, Control (reply h 425 ''No data connection'')], conn, fs)
         else let (k, fs) = e_store e abs (e_incoming e) fs
              in (first # yes_no h k (226, ''Transfer complete'') (550, ''Cannot store file''), conn, fs))"

text \<open>A call that changes the file system, answered with one of two replies.\<close>

definition cmd_change :: "host \<Rightarrow> ('fs \<Rightarrow> bool \<times> 'fs) \<Rightarrow> nat \<times> string \<Rightarrow> nat \<times> string \<Rightarrow> Conn \<Rightarrow> 'fs \<Rightarrow> 'fs result" where
  "cmd_change h f y n conn fs = (let (k, fs) = f fs in (yes_no h k y n, conn, fs))"

definition cmd_rnfr :: "host \<Rightarrow> 'fs ftp_env \<Rightarrow> ftp_server \<Rightarrow> string \<Rightarrow> Conn \<Rightarrow> 'fs \<Rightarrow> 'fs result" where
  "cmd_rnfr h e s a conn fs =
     (let conn = conn\<lparr>storeTarget := resolve h s conn a\<rparr>
      in (yes_no h (e_exists e fs (storeTarget conn)) (350, ''Ready for RNTO'') (550, ''No such file''), conn, fs))"

definition cmd_rnto :: "host \<Rightarrow> 'fs ftp_env \<Rightarrow> ftp_server \<Rightarrow> string \<Rightarrow> Conn \<Rightarrow> 'fs \<Rightarrow> 'fs result" where
  "cmd_rnto h e s a conn fs =
     (let (k, fs) = (if storeTarget conn \<noteq> [] then e_rename e (storeTarget conn) (resolve h s conn a) fs
                     else (False, fs))
      in (yes_no h k (250, ''Renamed'') (550, ''Rename failed''), conn\<lparr>storeTarget := []\<rparr>, fs))"

definition handleLine :: "host \<Rightarrow> 'fs ftp_env \<Rightarrow> ftp_server \<Rightarrow> bytes \<Rightarrow> Conn \<Rightarrow> 'fs \<Rightarrow> 'fs result" where
  "handleLine h e s line conn fs =
     (let cmd = parse h line; v = verb cmd; a = arg cmd; say = (\<lambda>c t. ([Control (reply h c t)], conn, fs))
      in if \<not> cvalid cmd then say 500 ''Syntax error''
         else if v = ''USER'' then say 331 ''User name okay, need password''
         else if v = ''PASS'' then say 230 ''User logged in''
         else if v = ''SYST'' then say 215 ''UNIX Type: L8''
         else if v = ''TYPE'' then say 200 (''Type set to '' @ a)
         else if v = ''NOOP'' then say 200 ''OK''
         else if v = ''PWD'' then say 257 (CHR 0x22 # cwd conn @ [CHR 0x22] @ '' is current directory'')
         else if v = ''CWD'' then cmd_cwd h e s a conn fs
         else if v = ''PASV'' then cmd_pasv h e s conn fs
         else if v = ''LIST'' \<or> v = ''NLST'' then cmd_list h e s (v = ''NLST'') a conn fs
         else if v = ''RETR'' then cmd_retr h e s a conn fs
         else if v = ''STOR'' then cmd_stor h e s a conn fs
         else if v = ''MKD'' then
           cmd_change h (e_mkpath e (resolve h s conn a)) (257, CHR 0x22 # a @ [CHR 0x22] @ '' created'')
             (550, ''Cannot create directory'') conn fs
         else if v = ''RMD'' then
           cmd_change h (e_removeTree e (resolve h s conn a)) (250, ''Directory removed'') (550, ''Cannot remove'') conn fs
         else if v = ''DELE'' then
           cmd_change h (e_remove e (resolve h s conn a)) (250, ''File deleted'') (550, ''Cannot delete'') conn fs
         else if v = ''RNFR'' then cmd_rnfr h e s a conn fs
         else if v = ''RNTO'' then cmd_rnto h e s a conn fs
         else if v = ''SITE'' then say 200 ''OK''
         else if v = ''QUIT'' then ([Control (reply h 221 ''Goodbye''), Disconnect], conn, fs)
         else say 502 ''Command not implemented'')"

text \<open>\<open>onNewConnection\<close> greets, then the lines are handled in order, each in its own
  environment.\<close>

fun drain :: "host \<Rightarrow> ftp_server \<Rightarrow> ('fs ftp_env \<times> bytes) list \<Rightarrow> Conn \<Rightarrow> 'fs \<Rightarrow> 'fs result" where
  "drain h s [] conn fs = ([], conn, fs)"
| "drain h s ((e, line) # ls) conn fs =
     (let (out, conn, fs) = handleLine h e s line conn fs; (outs, conn, fs) = drain h s ls conn fs
      in (out @ outs, conn, fs))"

definition session :: "host \<Rightarrow> ftp_server \<Rightarrow> ('fs ftp_env \<times> bytes) list \<Rightarrow> 'fs \<Rightarrow> 'fs result" where
  "session h s ls fs =
     (let (outs, conn, fs) = drain h s ls new_conn fs
      in (Control (reply h 220 ''macXterm FTP ready'') # outs, conn, fs))"

section \<open>Confinement\<close>

lemma resolve_under: "under (cleanPath h (m_root s)) (resolve h s conn a)"
  by (auto simp: resolve_def Let_def under_def)

text \<open>The path a name resolves to is cleaned, so it stays below a root that has a name.\<close>

definition served :: "host \<Rightarrow> ftp_server \<Rightarrow> bool" where
  "served h s \<longleftrightarrow> clean_resolves h \<and> named_dir (cleanPath h (m_root s))"

lemma resolve_stays:
  assumes "served h s"
  shows "stays (cleanPath h (m_root s)) (resolve h s conn a)"
proof -
  have "\<exists>p. resolve h s conn a = cleanPath h p"
    by (simp only: resolve_def Let_def split: if_split) blast
  then obtain p where "resolve h s conn a = cleanPath h p" ..
  then show ?thesis
    using clean_stays [of h "cleanPath h (m_root s)" p] assms resolve_under [of h s conn a] by (simp add: served_def)
qed

interpretation ftp_resolve: confined_resolver "\<lambda>(s, conn). cleanPath h (m_root s)" "\<lambda>(s, conn) a. Some (resolve h s conn a)"
  for h :: host
  by unfold_locales (auto simp: resolve_under)

text \<open>One changing call on paths that satisfy \<open>okp\<close>.\<close>

inductive ftp_call :: "'fs ftp_env \<Rightarrow> (string \<Rightarrow> bool) \<Rightarrow> 'fs \<Rightarrow> 'fs \<Rightarrow> bool"
  for e :: "'fs ftp_env" and okp :: "string \<Rightarrow> bool" where
  ftp_store: "okp p \<Longrightarrow> e_store e p b fs = (k, fs') \<Longrightarrow> ftp_call e okp fs fs'"
| ftp_mkpath: "okp p \<Longrightarrow> e_mkpath e p fs = (k, fs') \<Longrightarrow> ftp_call e okp fs fs'"
| ftp_removeTree: "okp p \<Longrightarrow> e_removeTree e p fs = (k, fs') \<Longrightarrow> ftp_call e okp fs fs'"
| ftp_remove: "okp p \<Longrightarrow> e_remove e p fs = (k, fs') \<Longrightarrow> ftp_call e okp fs fs'"
| ftp_rename: "okp p \<Longrightarrow> okp q \<Longrightarrow> e_rename e p q fs = (k, fs') \<Longrightarrow> ftp_call e okp fs fs'"

definition conn_ok :: "host \<Rightarrow> ftp_server \<Rightarrow> Conn \<Rightarrow> bool" where
  "conn_ok h s conn \<longleftrightarrow> storeTarget conn = [] \<or> stays (cleanPath h (m_root s)) (storeTarget conn)"

lemmas ftp_cmds =
  cmd_cwd_def cmd_pasv_def cmd_list_def cmd_retr_def cmd_stor_def cmd_change_def cmd_rnfr_def cmd_rnto_def

lemma resolved_calls:
  assumes "served h s"
  shows "e_store e (resolve h s conn a) b fs = (k, fs') \<Longrightarrow> ftp_call e (stays (cleanPath h (m_root s))) fs fs'"
  "e_mkpath e (resolve h s conn a) fs = (k, fs') \<Longrightarrow> ftp_call e (stays (cleanPath h (m_root s))) fs fs'"
  "e_removeTree e (resolve h s conn a) fs = (k, fs') \<Longrightarrow> ftp_call e (stays (cleanPath h (m_root s))) fs fs'"
  "e_remove e (resolve h s conn a) fs = (k, fs') \<Longrightarrow> ftp_call e (stays (cleanPath h (m_root s))) fs fs'"
  "stays (cleanPath h (m_root s)) p \<Longrightarrow> e_rename e p (resolve h s conn a) fs = (k, fs') \<Longrightarrow>
    ftp_call e (stays (cleanPath h (m_root s))) fs fs'"
  using resolve_stays [OF assms] by (blast intro: ftp_call.intros)+

lemma handleLine_calls:
  assumes srv: "served h s" and "conn_ok h s conn" and "handleLine h e s line conn fs = (out, conn', fs')"
  shows "conn_ok h s conn' \<and> (fs' = fs \<or> ftp_call e (stays (cleanPath h (m_root s))) fs fs')"
proof -
  show ?thesis
    using assms(2,3)
    by (simp add: handleLine_def Let_def split: if_splits)
      (auto simp: ftp_cmds Let_def conn_ok_def resolve_stays [OF srv] split: if_splits option.splits prod.splits
        dest: resolved_calls [OF srv])
qed

section \<open>One completion reply per command\<close>

text \<open>A completion reply is a control reply whose code does not start with 1 (150 only announces
  the transfer).\<close>

definition is_completion :: "out \<Rightarrow> bool" where
  "is_completion x = (case x of Control b \<Rightarrow> b \<noteq> [] \<and> hd b \<noteq> byte_of_char CHR ''1'' | _ \<Rightarrow> False)"

lemma completion_reply [simp]:
  "is_completion (Control (reply h n t)) \<longleftrightarrow> hd (dec_of_nat n) \<noteq> CHR ''1''"
proof -
  have inj: "byte_of_char c = byte_of_char d \<longleftrightarrow> c = d" for c d
    by (metis char_of_byte_of_char)
  show ?thesis by (simp add: is_completion_def reply_def hd_append hd_map inj)
qed

lemma completion_other [simp]: "\<not> is_completion (Data d)" "\<not> is_completion Disconnect"
  by (simp_all add: is_completion_def)

lemma reply_codes [simp]:
  "hd (dec_of_nat 150) = CHR ''1''" "hd (dec_of_nat 200) = CHR ''2''" "hd (dec_of_nat 215) = CHR ''2''"
  "hd (dec_of_nat 221) = CHR ''2''" "hd (dec_of_nat 226) = CHR ''2''" "hd (dec_of_nat 227) = CHR ''2''"
  "hd (dec_of_nat 230) = CHR ''2''" "hd (dec_of_nat 250) = CHR ''2''" "hd (dec_of_nat 257) = CHR ''2''"
  "hd (dec_of_nat 331) = CHR ''3''" "hd (dec_of_nat 350) = CHR ''3''" "hd (dec_of_nat 425) = CHR ''4''"
  "hd (dec_of_nat 500) = CHR ''5''" "hd (dec_of_nat 502) = CHR ''5''" "hd (dec_of_nat 550) = CHR ''5''"
  by code_simp+

lemma yes_no_completion:
  "hd (dec_of_nat (fst y)) \<noteq> CHR ''1'' \<Longrightarrow> hd (dec_of_nat (fst n)) \<noteq> CHR ''1'' \<Longrightarrow> filter is_completion (yes_no h k y n) = yes_no h k y n"
  by (auto simp: yes_no_def split: prod.split)

lemma length_yes_no [simp]: "length (yes_no h k y n) = 1"
  by (simp add: yes_no_def)

text \<open>Results with one completion reply, closed under the case distinctions of the handler.\<close>

definition one_completion :: "'fs result \<Rightarrow> bool" where
  "one_completion r \<longleftrightarrow> length (filter is_completion (fst r)) = 1"

lemma one_completion_if: "one_completion x \<Longrightarrow> one_completion y \<Longrightarrow> one_completion (if b then x else y)"
  by simp

lemma one_completion_say:
  "hd (dec_of_nat n) \<noteq> CHR ''1'' \<Longrightarrow> one_completion ([Control (reply h n t)], conn, fs)"
  "hd (dec_of_nat n) \<noteq> CHR ''1'' \<Longrightarrow> one_completion ([Control (reply h n t), Disconnect], conn, fs)"
  by (simp_all add: one_completion_def)

lemma one_completion_cmds:
  "one_completion (cmd_cwd h e s a conn fs)" "one_completion (cmd_pasv h e s conn fs)"
  "one_completion (cmd_list h e s names a conn fs)" "one_completion (cmd_retr h e s a conn fs)"
  "one_completion (cmd_stor h e s a conn fs)" "one_completion (cmd_rnfr h e s a conn fs)"
  "one_completion (cmd_rnto h e s a conn fs)"
  "hd (dec_of_nat (fst y)) \<noteq> CHR ''1'' \<Longrightarrow> hd (dec_of_nat (fst n)) \<noteq> CHR ''1'' \<Longrightarrow>
    one_completion (cmd_change h f y n conn fs)"
  by (simp_all add: ftp_cmds one_completion_def Let_def yes_no_completion split: option.split prod.split)

text \<open>The law of the file system: calls on paths that stay below the root leave what \<open>view\<close> shows
  (all that is outside, on a tree without links out of it) alone. Of a path such as
  \<open>root/../x\<close> it says nothing.\<close>

definition ftp_keeps_outside :: "('fs \<Rightarrow> 'v) \<Rightarrow> string \<Rightarrow> 'fs ftp_env \<Rightarrow> bool" where
  "ftp_keeps_outside view root e \<longleftrightarrow> (\<forall>fs fs'. ftp_call e (stays root) fs fs' \<longrightarrow> view fs' = view fs)"

lemma drain_outside:
  assumes "list_all (ftp_keeps_outside view (cleanPath h (m_root s))) (map fst ls)" and "served h s" and "conn_ok h s conn"
  shows "view (snd (snd (drain h s ls conn fs))) = view fs"
  using assms
proof (induction ls arbitrary: conn fs)
  case (Cons x ls)
  obtain e line out conn1 fs1 where x: "x = (e, line)" and r: "handleLine h e s line conn fs = (out, conn1, fs1)"
    by (metis surj_pair)
  from handleLine_calls [OF Cons.prems(2,3) r] Cons.prems(1) x
  have "conn_ok h s conn1" "view fs1 = view fs" by (auto simp: ftp_keeps_outside_def)
  with Cons x r show ?case by (simp add: split_def Let_def)
qed simp

section \<open>Properties\<close>

text \<open>Every line a client sends is answered by exactly one completion reply, on every path
  through the handler.\<close>

theorem ftp_one_completion:
  "length (filter is_completion (fst (handleLine h e s line conn fs))) = 1"
  unfolding handleLine_def Let_def one_completion_def [symmetric]
  by (intro one_completion_if one_completion_cmds one_completion_say) simp_all

text \<open>C4: Over a whole session, whatever lines the client sends, every change of the file system
  is a call on a cleaned path that stays below the served root, without a \<open>..\<close> behind it: on a
  file system that keeps such calls away from the outside, what lies outside the root stays as it
  was. The root is a directory with a name, and \<open>QDir::cleanPath\<close> resolves \<open>..\<close> as documented.\<close>

theorem ftp_session_confined:
  assumes "clean_resolves h" and "named_dir (cleanPath h (m_root s))"
    and "list_all (ftp_keeps_outside view (cleanPath h (m_root s))) (map fst ls)"
  shows "view (snd (snd (session h s ls fs))) = view fs"
  using drain_outside [OF assms(3), of new_conn fs] assms(1,2)
  by (simp add: session_def split_def Let_def new_conn_def conn_ok_def served_def)

text \<open>A name that leads out of the root is not refused but taken for the root itself: removing
  it removes the whole served tree.\<close>

theorem ftp_rmd_escape_removes_root:
  assumes "parse h line = \<lparr>verb = ''RMD'', arg = a, cvalid = True\<rparr>"
    and "\<not> under (cleanPath h (m_root s)) (cleanPath h (m_root s @ ''/'' @ (if starts_with ''/'' a then a else cwd conn @ ''/'' @ a)))"
  shows "snd (snd (handleLine h e s line conn fs)) = snd (e_removeTree e (cleanPath h (m_root s)) fs)"
proof -
  have "resolve h s conn a = cleanPath h (m_root s)"
    using assms(2) by (auto simp: resolve_def Let_def under_def)
  then show ?thesis
    by (simp add: handleLine_def assms(1) Let_def cmd_change_def split_def)
qed

section \<open>Concrete runs\<close>

text \<open>A file system given by the set of its resolved paths: a call looks its path up with \<open>..\<close>
  resolved, so that \<open>/srv/../etc\<close> is \<open>/etc\<close>.\<close>

definition demo_env :: "(string set) ftp_env" where
  "demo_env = \<lparr>e_isDir = (\<lambda>fs p. real_path p \<in> fs), e_exists = (\<lambda>fs p. real_path p \<in> fs), e_list = (\<lambda>_ _. []),
     e_read = (\<lambda>_ _. None), e_store = (\<lambda>p _ fs. (True, insert (real_path p) fs)),
     e_mkpath = (\<lambda>p fs. (True, insert (real_path p) fs)),
     e_removeTree = (\<lambda>p fs. (True, {q \<in> fs. \<not> under (real_path p) q})),
     e_remove = (\<lambda>p fs. (real_path p \<in> fs, fs - {real_path p})),
     e_rename = (\<lambda>p q fs. (real_path p \<in> fs, insert (real_path q) (fs - {real_path p}))), e_listen = Some 5000,
     e_accept = True, e_incoming = []\<rparr>"

definition demo_ftp_host :: host where
  "demo_ftp_host = \<lparr>cleanPath = normalize, filePath = (\<lambda>d n. d @ ''/'' @ n), toUtf8 = to_latin1, fromUtf8 = from_latin1\<rparr>"

lemma real_srv: "real_path ''/srv'' = ''/srv''"
  by code_simp

lemma demo_ftp_clean: "cleanPath demo_ftp_host ''/srv'' = ''/srv''"
  by code_simp

lemma demo_env_keeps: "ftp_keeps_outside (\<lambda>fs. {p \<in> fs. \<not> under ''/srv'' p}) ''/srv'' demo_env"
proof -
  have "{p \<in> fs'. \<not> under ''/srv'' p} = {p \<in> fs. \<not> under ''/srv'' p}"
    if "ftp_call demo_env (stays ''/srv'') fs fs'" for fs fs'
    using that
  proof cases
    case (ftp_removeTree p k)
    then show ?thesis using under_trans [OF stays_real_srv] by (auto simp: demo_env_def)
  qed (auto simp: demo_env_def dest: stays_real_srv)
  then show ?thesis by (simp add: ftp_keeps_outside_def)
qed

text \<open>A path that climbs does reach the outside there, so the law depends on the cleaning.\<close>

lemma demo_env_climbs: "snd (e_remove demo_env ''/srv/../etc'' {''/etc'', ''/srv''}) = {''/srv''}"
  by (simp add: demo_env_def real_path_climbs insert_Diff_if)

theorem ftp_session_confined_witness:
  "let view = \<lambda>fs. {p \<in> fs. \<not> under ''/srv'' p}
   in view (snd (snd (session demo_ftp_host \<lparr>m_root = ''/srv'', m_bindAddr = ''127.0.0.1''\<rparr>
        [(demo_env, to_latin1 ''DELE ../etc''), (demo_env, to_latin1 ''MKD a'')] {''/etc'', ''/srv''}))) =
      view {''/etc'', ''/srv''}"
proof -
  let ?s = "\<lparr>m_root = ''/srv'', m_bindAddr = ''127.0.0.1''\<rparr>"
  let ?view = "\<lambda>fs. {p \<in> fs. \<not> under ''/srv'' p}"
  have law: "clean_resolves demo_ftp_host"
    by (rule normalize_resolves) (simp add: demo_ftp_host_def)
  have named: "named_dir (cleanPath demo_ftp_host (m_root ?s))"
    by code_simp
  have "list_all (ftp_keeps_outside ?view (cleanPath demo_ftp_host (m_root ?s)))
      (map fst [(demo_env, to_latin1 ''DELE ../etc''), (demo_env, to_latin1 ''MKD a'')])"
    using demo_env_keeps by (simp only: list.map list.pred_inject fst_conv ftp_server.select_convs demo_ftp_clean simp_thms)
  from ftp_session_confined [OF law named this] show ?thesis unfolding Let_def .
qed

theorem ftp_rmd_escape_witness:
  "snd (snd (handleLine demo_ftp_host demo_env \<lparr>m_root = ''/srv'', m_bindAddr = ''127.0.0.1''\<rparr>
      (to_latin1 ''RMD ../tmp'') new_conn {''/etc'', ''/srv'', ''/srv/data''})) = {''/etc''}"
proof -
  have p: "parse demo_ftp_host (to_latin1 ''RMD ../tmp'') = \<lparr>verb = ''RMD'', arg = ''../tmp'', cvalid = True\<rparr>"
    by code_simp
  have "\<not> under (cleanPath demo_ftp_host (m_root \<lparr>m_root = ''/srv'', m_bindAddr = ''127.0.0.1''\<rparr>))
      (cleanPath demo_ftp_host (m_root \<lparr>m_root = ''/srv'', m_bindAddr = ''127.0.0.1''\<rparr> @ ''/'' @
        (if starts_with ''/'' ''../tmp'' then ''../tmp'' else cwd new_conn @ ''/'' @ ''../tmp'')))"
    by code_simp
  from ftp_rmd_escape_removes_root [OF p this, of demo_env "{''/etc'', ''/srv'', ''/srv/data''}"]
  show ?thesis
    by (auto simp: demo_ftp_clean demo_env_def real_srv under_iff)
qed

end
