(* ===== verification/Http_Server.thy ===== *)
theory Http_Server
  imports Host
begin

text \<open>
  The HTTP server for quick file sharing, \<open>src/src/tools/HttpServer.{h,cpp}\<close>: parsing of the
  request line, the containment check, and the response. The host's files are the argument
  \<open>http_files\<close>; one call of the handler answers the bytes written before the connection is
  closed.
\<close>

section \<open>The handler\<close>

text \<open>\<open>QByteArray::trimmed\<close>.\<close>

definition byte_space :: "byte \<Rightarrow> bool" where
  "byte_space b \<longleftrightarrow> (9 \<le> b \<and> b \<le> 13) \<or> b = 32"

definition trimmed_bytes :: "bytes \<Rightarrow> bytes" where
  "trimmed_bytes s = rev (dropWhile byte_space (rev (dropWhile byte_space s)))"

definition parseRequestPath :: "host \<Rightarrow> bytes \<Rightarrow> string" where
  "parseRequestPath h requestLine =
     (let parts = split_on 32 (trimmed_bytes requestLine)
      in if length parts < 2 \<or> parts ! 0 \<noteq> to_latin1 ''GET'' then []
         else let path = fromUtf8 h (parts ! 1)
              in (case index_of CHR ''?'' path of None \<Rightarrow> path | Some q \<Rightarrow> take q path))"

record http_server =
  m_root :: string

record http_files =
  absoluteFilePath :: "string \<Rightarrow> string"
  isFile :: "string \<Rightarrow> bool"
  readFile :: "string \<Rightarrow> bytes option"

definition http_start :: "http_files \<Rightarrow> string \<Rightarrow> http_server" where
  "http_start fl rootDir = \<lparr>m_root = absoluteFilePath fl rootDir\<rparr>"

definition eol :: string where
  "eol = [char_of (13 :: nat), char_of (10 :: nat)]"

definition respond :: "host \<Rightarrow> nat \<Rightarrow> string \<Rightarrow> bytes \<Rightarrow> string \<Rightarrow> bytes" where
  "respond h code status body type =
     to_latin1 (''HTTP/1.1 '' @ dec_of_nat code @ '' '') @ toUtf8 h status @ to_latin1 eol @
     to_latin1 (''Content-Type: '' @ type @ eol) @
     to_latin1 (''Content-Length: '' @ dec_of_nat (length body) @ eol) @
     to_latin1 (''Connection: close'' @ eol @ eol) @ body"

definition resolve :: "http_files \<Rightarrow> http_server \<Rightarrow> string \<Rightarrow> string option" where
  "resolve fl s path =
     (let rel = normalize path;
          full = absoluteFilePath fl (m_root s @ ''/'' @ rel)
      in if \<not> starts_with (m_root s) full \<or> \<not> isFile fl full then None else Some full)"

definition handle :: "host \<Rightarrow> http_files \<Rightarrow> bytes \<Rightarrow> http_server \<Rightarrow> bytes" where
  "handle h fl req s =
     (let path = parseRequestPath h req
      in if path = [] then respond h 400 ''Bad Request'' (to_latin1 ''bad request'') ''application/octet-stream''
         else (case resolve fl s path of
                 None \<Rightarrow> respond h 404 ''Not Found'' (to_latin1 ''not found'') ''text/plain''
               | Some full \<Rightarrow>
                   (case readFile fl full of
                      None \<Rightarrow> respond h 403 ''Forbidden'' (to_latin1 ''forbidden'') ''text/plain''
                    | Some d \<Rightarrow> respond h 200 ''OK'' d ''application/octet-stream'')))"

section \<open>Properties\<close>

lemma resolve_clean:
  assumes "list_all proper_seg segs" and "m_root s = abs_path segs" and "segs \<noteq> []"
    and "\<And>p. starts_with ''/'' p \<Longrightarrow> absoluteFilePath fl p = normalize p"
  shows "absoluteFilePath fl (m_root s @ ''/'' @ normalize path) =
    (if starts_with ''/'' path then abs_path (segs @ resolve_segs (split_skip CHR ''/'' path))
     else abs_path (resolve_segs (segs @ split_skip CHR ''/'' (normalize path))))"
proof -
  have "absoluteFilePath fl (m_root s @ ''/'' @ normalize path) =
      normalize (CHR ''/'' # join_with ''/'' segs @ CHR ''/'' # normalize path)"
    using assms(2,4) by (simp add: abs_path_def)
  also have "\<dots> = abs_path (resolve_segs (segs @ split_skip CHR ''/'' (normalize path)))"
    using split_skip_abs_path [OF assms(1)] by (simp add: normalize_append abs_path_def)
  finally show ?thesis
    using assms(1) resolve_segs_proper [OF good_segs_split_skip, of path]
    by (simp add: split_skip_normalize_abs resolve_segs_id)
qed

text \<open>A request whose target starts with a slash, as HTTP demands, is answered from a file
  under the root or not at all.\<close>

theorem http_absolute_target_confined:
  assumes "list_all proper_seg segs" and "m_root s = abs_path segs" and "segs \<noteq> []"
    and "\<And>p. starts_with ''/'' p \<Longrightarrow> absoluteFilePath fl p = normalize p"
    and "starts_with ''/'' path" and "resolve fl s path = Some full"
  shows "under (m_root s) full"
proof -
  have "full = absoluteFilePath fl (m_root s @ ''/'' @ normalize path)"
    using assms(6) by (auto simp only: resolve_def Let_def option.inject option.distinct split: if_splits)
  then have "full = abs_path (segs @ resolve_segs (split_skip CHR ''/'' path))"
    using resolve_clean [OF assms(1-4), of path] by (simp only: assms(5) if_True)
  then show ?thesis by (simp only: assms(2) under_abs_append [OF assms(3)])
qed

theorem http_absolute_target_confined_witness:
  "under ''/srv/www'' ''/srv/www/x''"
proof -
  let ?fl = "\<lparr>absoluteFilePath = normalize, isFile = (\<lambda>p. True), readFile = (\<lambda>p. None)\<rparr>"
  let ?s = "\<lparr>m_root = ''/srv/www''\<rparr>"
  have segs: "list_all proper_seg [''srv'', ''www'']" "m_root ?s = abs_path [''srv'', ''www'']" by code_simp+
  have "starts_with ''/'' ''/../../x''" "resolve ?fl ?s ''/../../x'' = Some ''/srv/www/x''" by code_simp+
  from http_absolute_target_confined [OF segs _ _ this] show ?thesis by simp
qed

text \<open>A target without the slash is not brought under the root: it stays relative, keeps its
  \<open>..\<close>, and the check compares prefixes of the text only, so that a sibling of the root whose
  name continues the root's name is served.\<close>

theorem http_sibling_escape:
  "handle \<lparr>cleanPath = normalize, filePath = (\<lambda>d n. n), toUtf8 = to_latin1, fromUtf8 = from_latin1\<rparr>
     \<lparr>absoluteFilePath = normalize, isFile = (\<lambda>p. p = ''/srv/www-private/key''), readFile = (\<lambda>p. Some [42])\<rparr>
     (to_latin1 ''GET ../www-private/key HTTP/1.1'') \<lparr>m_root = ''/srv/www''\<rparr> =
   respond \<lparr>cleanPath = normalize, filePath = (\<lambda>d n. n), toUtf8 = to_latin1, fromUtf8 = from_latin1\<rparr>
     200 ''OK'' [42] ''application/octet-stream''"
  by code_simp

end
