(* ===== verification/Rfb.thy ===== *)
theory Rfb
  imports Field_Codec Host
begin

text \<open>
  The RFB (VNC) message codec, first part of \<open>src/src/connect/RfbProtocol.{h,cpp}\<close>: protocol
  version, server initialisation, the header of a framebuffer update and the client messages.
  Theory \<open>Rfb_Rect\<close> decodes the rectangles.
\<close>

section \<open>Protocol version\<close>

record Version =
  major :: int
  minor :: int
  vvalid :: bool

definition parseVersion :: "bytes \<Rightarrow> Version" where
  "parseVersion b =
     (let v = \<lparr>major = 0, minor = 0, vvalid = False\<rparr>
      in if length b < 12 \<or> \<not> starts_with (to_latin1 ''RFB '') b \<or> b ! 11 \<noteq> 10 then v
         else case (to_int (from_latin1 (take 3 (drop 4 b))), to_int (from_latin1 (take 3 (drop 8 b)))) of
                (Some ma, Some mi) \<Rightarrow> \<lparr>major = ma, minor = mi, vvalid = True\<rparr>
              | _ \<Rightarrow> v)"

definition rightJustified :: "nat \<Rightarrow> char \<Rightarrow> string \<Rightarrow> string" where
  "rightJustified n c s = replicate (n - length s) c @ s"

definition formatVersion :: "Version \<Rightarrow> bytes" where
  "formatVersion v =
     to_latin1 (''RFB '' @ rightJustified 3 CHR ''0'' (dec_of_int (major v)) @ ''.'' @
       rightJustified 3 CHR ''0'' (dec_of_int (minor v)) @ [char_of (10 :: nat)])"

section \<open>Server initialisation\<close>

record ServerInit =
  width :: u16
  height :: u16
  bitsPerPixel :: byte
  depth :: byte
  sname :: string
  svalid :: bool

definition rd16be :: "bytes \<Rightarrow> nat \<Rightarrow> u16" where
  "rd16be b off = join16 (b ! off) (b ! (off + 1))"

definition rd32be :: "bytes \<Rightarrow> nat \<Rightarrow> u32" where
  "rd32be b off = join32 (b ! off) (b ! (off + 1)) (b ! (off + 2)) (b ! (off + 3))"

text \<open>\<open>static_cast<int>(24 + nameLen)\<close>: the sum wraps at 32 bits and is then read as signed.\<close>

definition parseServerInit :: "host \<Rightarrow> bytes \<Rightarrow> ServerInit" where
  "parseServerInit h b =
     (let s = \<lparr>width = 0, height = 0, bitsPerPixel = 0, depth = 0, sname = [], svalid = False\<rparr>
      in if length b < 24 then s
         else let s = s\<lparr>width := rd16be b 0, height := rd16be b 2, bitsPerPixel := b ! 4, depth := b ! 5\<rparr>;
                  nameLen = rd32be b 20
              in if int (length b) < toInt32 (24 + nameLen) then s
                 else s\<lparr>sname := fromUtf8 h (take (unat nameLen) (drop 24 b)), svalid := True\<rparr>)"

section \<open>Framebuffer update header\<close>

record Rectangle =
  rx :: u16
  ry :: u16
  rwidth :: u16
  rheight :: u16
  encoding :: u32

definition read_rect :: "bytes \<Rightarrow> nat \<Rightarrow> Rectangle" where
  "read_rect b off =
     \<lparr>rx = rd16be b off, ry = rd16be b (off + 2), rwidth = rd16be b (off + 4),
      rheight = rd16be b (off + 6), encoding = rd32be b (off + 8)\<rparr>"

record FramebufferUpdate =
  rects :: "Rectangle list"
  uvalid :: bool

text \<open>The loop over \<open>n\<close> rectangle headers from offset \<open>off\<close>, which it takes to be adjacent.\<close>

fun parse_rects :: "bytes \<Rightarrow> nat \<Rightarrow> nat \<Rightarrow> Rectangle list \<Rightarrow> FramebufferUpdate" where
  "parse_rects b 0 off rs = \<lparr>rects = rs, uvalid = True\<rparr>"
| "parse_rects b (Suc n) off rs =
     (if length b < off + 12 then \<lparr>rects = rs, uvalid = False\<rparr>
      else parse_rects b n (off + 12) (rs @ [read_rect b off]))"

definition parseFramebufferUpdate :: "bytes \<Rightarrow> FramebufferUpdate" where
  "parseFramebufferUpdate b =
     (if length b < 4 \<or> b ! 0 \<noteq> 0 then \<lparr>rects = [], uvalid = False\<rparr>
      else parse_rects b (unat (rd16be b 2)) 4 [])"

section \<open>Client messages\<close>

text \<open>The low 16 bits of an \<open>int\<close>, high byte first.\<close>

definition int16 :: "int \<Rightarrow> bytes" where
  "int16 v = [of_int (v div 256), of_int v]"

definition encodeSetEncodings :: "u32 list \<Rightarrow> bytes" where
  "encodeSetEncodings encs = [2, 0] @ int16 (int (length encs)) @ concat (map be32 encs)"

definition encodePointerEvent :: "int \<Rightarrow> int \<Rightarrow> int \<Rightarrow> bytes" where
  "encodePointerEvent x y buttonMask =
     (let px = (if x < 0 then 0 else x); py = (if y < 0 then 0 else y)
      in [5, of_int buttonMask] @ int16 px @ int16 py)"

definition encodeKeyEvent :: "u32 \<Rightarrow> bool \<Rightarrow> bytes" where
  "encodeKeyEvent keysym down = [4, if down then 1 else 0, 0, 0] @ be32 keysym"

lemma int16_be16: "int16 v = be16 (of_int v)"
proof -
  have "of_int (v div 256) = (ucast (drop_bit 8 (of_int v :: u16)) :: byte)"
  proof (rule bit_word_eqI)
    fix n assume "n < LENGTH(8)"
    have "v div 256 = drop_bit 8 v" by (simp add: drop_bit_eq_div)
    with \<open>n < LENGTH(8)\<close> show "bit (of_int (v div 256) :: byte) n \<longleftrightarrow> bit (ucast (drop_bit 8 (of_int v :: u16)) :: byte) n"
      by (simp add: bit_simps)
  qed
  moreover have "of_int v = (ucast (of_int v :: u16) :: byte)"
    by (rule bit_word_eqI) (auto simp: bit_simps)
  ultimately show ?thesis by (simp add: int16_def be16_def)
qed

section \<open>Rectangle headers as a codec\<close>

definition put_rect :: "Rectangle \<Rightarrow> bytes" where
  "put_rect r = be16 (rx r) @ be16 (ry r) @ be16 (rwidth r) @ be16 (rheight r) @ be32 (encoding r)"

definition get_rect :: "bytes \<Rightarrow> nat \<Rightarrow> (Rectangle \<times> nat) option" where
  "get_rect b off = (if length b < off + 12 then None else Some (read_rect b off, off + 12))"

lemma length_put_rect [simp]: "length (put_rect r) = 12"
  by (simp add: put_rect_def)

lemma rd_shift:
  "rd16be (pre @ x) (length pre + k) = rd16be x k" "rd32be (pre @ x) (length pre + k) = rd32be x k"
  by (simp_all add: rd16be_def rd32be_def nth_append)

lemma read_rect_shift: "read_rect (pre @ x) (length pre) = read_rect x 0"
proof -
  have "rd16be (pre @ x) (length pre) = rd16be x 0" using rd_shift(1) [of pre x 0] by simp
  then show ?thesis by (simp only: read_rect_def rd_shift add_0)
qed

lemma read_rect_put: "read_rect (put_rect r @ post) 0 = r"
  by (simp add: read_rect_def rd16be_def rd32be_def put_rect_def be16_def be32_def codec)

lemma get_rect_put: "get_rect (pre @ put_rect r @ post) (length pre) = Some (r, length pre + 12)"
  by (simp add: get_rect_def read_rect_shift read_rect_put)

interpretation rfb_rect: field_codec 1 "\<lambda>_. True" "\<lambda>_. True" put_rect get_rect
  by unfold_locales (simp_all add: get_rect_put)

lemma parse_rects_Some:
  "get_seq get_rect n b off = Some (rs', e) \<Longrightarrow> parse_rects b n off rs = \<lparr>rects = rs @ rs', uvalid = True\<rparr>"
  by (induction n arbitrary: off rs rs') (auto simp: get_rect_def split: if_splits option.splits prod.splits)

lemma parse_rects_None: "get_seq get_rect n b off = None \<Longrightarrow> \<not> uvalid (parse_rects b n off rs)"
  by (induction n arbitrary: off rs) (auto simp: get_rect_def split: if_splits option.splits prod.splits)

section \<open>Version round trip\<close>

lemma length_dec_of_nat: "n < 1000 \<Longrightarrow> length (dec_of_nat n) \<le> 3"
  by (simp add: dec_of_nat.simps [of n] dec_of_nat.simps [of "n div 10"] dec_of_nat.simps [of "n div 10 div 10"])

lemma digits_val_zeros: "digits_val 0 (replicate k CHR ''0'' @ s) = digits_val 0 s"
  by (induction k) (simp_all add: digit_val_def)

lemma to_int_justified:
  assumes "0 \<le> n" and "n < 1000"
  shows "to_int (rightJustified 3 CHR ''0'' (dec_of_int n)) = Some n \<and> length (rightJustified 3 CHR ''0'' (dec_of_int n)) = 3"
proof
  let ?d = "dec_of_nat (nat n)" and ?s = "rightJustified 3 CHR ''0'' (dec_of_int n)"
  have s: "?s = replicate (3 - length ?d) CHR ''0'' @ ?d"
    using assms by (simp add: rightJustified_def dec_of_int_def)
  have len: "length ?d \<le> 3" by (rule length_dec_of_nat) (use assms in simp)
  then show "length ?s = 3" by (simp add: s)
  have dig: "\<forall>c \<in> set ?s. is_digit c"
    by (auto simp: s dest: dec_of_nat_digits) (simp add: is_digit_def)
  have "nat_of_dec ?s = Some (nat n)"
    using dig by (simp add: nat_of_dec_def s list_all_iff digits_val_zeros) 
  moreover obtain c cs where "?s = c # cs" by (cases ?s) (simp_all add: s)
  moreover have "trimmed ?s = ?s"
    by (rule trimmed_digits) (use dig s in auto)
  ultimately show "to_int ?s = Some n"
    using dig assms by (auto simp: to_int_def fitsInt_def is_digit_def)
qed

section \<open>Properties\<close>

text \<open>A protocol version survives formatting and parsing: every version with components of up to
  three digits comes back, and its wire form has the twelve bytes of the protocol.\<close>

theorem rfb_version_roundtrip:
  assumes "0 \<le> major v" and "major v < 1000" and "0 \<le> minor v" and "minor v < 1000"
  shows "length (formatVersion v) = 12 \<and> parseVersion (formatVersion v) = v\<lparr>vvalid := True\<rparr>"
proof -
  let ?a = "rightJustified 3 CHR ''0'' (dec_of_int (major v))" and ?i = "rightJustified 3 CHR ''0'' (dec_of_int (minor v))"
  have a: "to_int ?a = Some (major v)" "length ?a = 3" and i: "to_int ?i = Some (minor v)" "length ?i = 3"
    using to_int_justified assms by simp_all
  then obtain a0 a1 a2 i0 i1 i2 where "?a = [a0, a1, a2]" "?i = [i0, i1, i2]"
    by (auto simp: length_Suc_conv eval_nat_numeral)
  moreover have "byte_of_char (char_of (10 :: nat)) = 10" by (simp add: byte_of_char_def)
  ultimately show ?thesis
    using a(1) i(1) by (simp add: formatVersion_def parseVersion_def starts_with_def Let_def)
qed

theorem rfb_version_roundtrip_witness:
  "parseVersion (formatVersion \<lparr>major = 3, minor = 8, vvalid = False\<rparr>) = \<lparr>major = 3, minor = 8, vvalid = True\<rparr>"
  using rfb_version_roundtrip [of "\<lparr>major = 3, minor = 8, vvalid = False\<rparr>"] by simp

text \<open>The encodings a client announces are what a server reads: behind the message type and
  the count, the message is exactly the list, in order of preference.\<close>

theorem rfb_set_encodings_roundtrip:
  assumes "length encs < 2 ^ 16"
  shows "let m = encodeSetEncodings encs
    in take 2 m = [2, 0] \<and> unat (rd16be m 2) = length encs \<and>
       get_seq get32 (length encs) (m @ rest) 4 = Some (encs, length m)"
proof -
  have "rd16be (encodeSetEncodings encs) 2 = of_nat (length encs)"
    by (simp add: rd16be_def encodeSetEncodings_def int16_be16 be16_def codec)
  then have "unat (rd16be (encodeSetEncodings encs) 2) = length encs"
    using unat_of_nat_small [of "length encs", where 'a = 16] assms by simp
  moreover have "get_seq get32 (length encs) (([2, 0] @ int16 (int (length encs))) @ concat (map be32 encs) @ rest) 4 =
      Some (encs, 4 + length (concat (map be32 encs)))"
    using f32.get_seq_put [of encs "[2, 0] @ int16 (int (length encs))" rest] by (simp add: int16_def list_all_iff eval_nat_numeral)
  ultimately show ?thesis by (simp add: encodeSetEncodings_def int16_def Let_def eval_nat_numeral)
qed

theorem rfb_set_encodings_roundtrip_witness:
  "let m = encodeSetEncodings [16, 5, 2, 1, 0]
   in take 2 m = [2, 0] \<and> unat (rd16be m 2) = length [16 :: u32, 5, 2, 1, 0] \<and>
      get_seq get32 (length [16 :: u32, 5, 2, 1, 0]) (m @ [9]) 4 = Some ([16, 5, 2, 1, 0], length m)"
  by (rule rfb_set_encodings_roundtrip) simp

text \<open>Of a framebuffer update only the first rectangle header is certain: the parser takes the
  headers to be adjacent, so that in an update as the protocol sends it, each header followed
  by its pixels, the second header is read from the first rectangle's pixels.\<close>

theorem rfb_second_header_from_pixels:
  assumes "12 \<le> length d1"
  shows "parseFramebufferUpdate ([0, 0] @ be16 2 @ put_rect r1 @ d1 @ put_rect r2 @ d2) =
    \<lparr>rects = [r1, read_rect d1 0], uvalid = True\<rparr>"
proof -
  define b where "b = [0, 0] @ be16 2 @ put_rect r1 @ d1 @ put_rect r2 @ d2"
  have n: "unat (rd16be b 2) = Suc (Suc 0)"
    by (simp add: b_def rd16be_def be16_def unat_join16)
  have r1: "read_rect b 4 = r1"
    using read_rect_shift [of "[0, 0] @ be16 2" "put_rect r1 @ d1 @ put_rect r2 @ d2"]
    by (simp add: b_def read_rect_put eval_nat_numeral)
  have "read_rect b 16 = read_rect (d1 @ put_rect r2 @ d2) 0"
    using read_rect_shift [of "[0, 0] @ be16 2 @ put_rect r1" "d1 @ put_rect r2 @ d2"] by (simp add: b_def)
  also have "\<dots> = read_rect d1 0"
    using assms by (auto simp: read_rect_def rd16be_def rd32be_def nth_append)
  finally have r2: "read_rect b 16 = read_rect d1 0" .
  have len: "28 \<le> length b" "b ! 0 = 0" using assms by (simp_all add: b_def)
  then have "parseFramebufferUpdate b = \<lparr>rects = [r1, read_rect d1 0], uvalid = True\<rparr>"
    by (simp add: parseFramebufferUpdate_def n r1 r2)
  then show ?thesis by (simp only: b_def)
qed

theorem rfb_second_header_from_pixels_witness:
  "let r = \<lparr>rx = 0, ry = 0, rwidth = 3, rheight = 1, encoding = 0\<rparr>; d = replicate 12 7
   in parseFramebufferUpdate ([0, 0] @ be16 2 @ put_rect r @ d @ put_rect (r\<lparr>ry := 1\<rparr>) @ d) =
      \<lparr>rects = [r, read_rect d 0], uvalid = True\<rparr>"
  unfolding Let_def by (rule rfb_second_header_from_pixels) simp

end
