(* ===== verification/Checked.thy ===== *)
theory Checked
  imports Prelude
begin

text \<open>
  Loops over C++ containers with every access checked, and a small Hoare logic for them:
  \<open>okP m P\<close> says that the computation \<open>m\<close> reaches no undefined behaviour and its result
  satisfies \<open>P\<close>. The decoders of the VNC client are written with it.
\<close>

section \<open>Checked access and loops\<close>

definition nthF :: "'a list \<Rightarrow> nat \<Rightarrow> fault + 'a" where
  "nthF xs i = (if i < length xs then ok (xs ! i) else Inl OutOfBounds)"

definition updF :: "'a list \<Rightarrow> nat \<Rightarrow> 'a \<Rightarrow> fault + 'a list" where
  "updF xs i v = (if i < length xs then ok (xs[i := v]) else Inl OutOfBounds)"

fun foldF :: "('x \<Rightarrow> 'a \<Rightarrow> fault + 'a) \<Rightarrow> 'x list \<Rightarrow> 'a \<Rightarrow> fault + 'a" where
  "foldF f [] a = ok a"
| "foldF f (x # xs) a = bindF (f x a) (foldF f xs)"

lemma foldF_append: "foldF f (xs @ ys) a = bindF (foldF f xs a) (foldF f ys)"
proof (induction xs arbitrary: a)
  case (Cons x xs)
  then show ?case by (cases "f x a") simp_all
qed simp

text \<open>A loop whose body may leave it: the flag says whether it ran to its end.\<close>

fun loopF :: "('x \<Rightarrow> 'a \<Rightarrow> fault + bool \<times> 'a) \<Rightarrow> 'x list \<Rightarrow> 'a \<Rightarrow> fault + bool \<times> 'a" where
  "loopF f [] a = ok (True, a)"
| "loopF f (x # xs) a = bindF (f x a) (\<lambda>(go, a). if go then loopF f xs a else ok (False, a))"

text \<open>The coordinates of a block, row by row.\<close>

definition grid :: "nat \<Rightarrow> nat \<Rightarrow> (nat \<times> nat) list" where
  "grid w h = concat (map (\<lambda>y. map (\<lambda>x. (x, y)) [0..<w]) [0..<h])"

lemma set_grid [simp]: "set (grid w h) = {0..<w} \<times> {0..<h}"
  by (auto simp: grid_def)

section \<open>Correctness of checked computations\<close>

definition okP :: "fault + 'a \<Rightarrow> ('a \<Rightarrow> bool) \<Rightarrow> bool" where
  "okP m P = (case m of Inl _ \<Rightarrow> False | Inr a \<Rightarrow> P a)"

lemma okP_simps [simp]: "okP (Inr a) P \<longleftrightarrow> P a" "\<not> okP (Inl e) P"
  by (simp_all add: okP_def)

lemma okP_isOk: "okP m P \<Longrightarrow> isOk m"
  by (cases m) simp_all

lemma okP_bind: "okP m P \<Longrightarrow> (\<And>a. P a \<Longrightarrow> okP (f a) Q) \<Longrightarrow> okP (bindF m f) Q"
  by (cases m) simp_all

lemma okP_mono: "okP m P \<Longrightarrow> (\<And>a. P a \<Longrightarrow> Q a) \<Longrightarrow> okP m Q"
  by (cases m) simp_all

lemma okP_if: "(b \<Longrightarrow> okP x P) \<Longrightarrow> (\<not> b \<Longrightarrow> okP y P) \<Longrightarrow> okP (if b then x else y) P"
  by simp

lemma okP_nth: "i < length xs \<Longrightarrow> P (xs ! i) \<Longrightarrow> okP (nthF xs i) P"
  by (simp add: nthF_def)

lemma okP_upd: "i < length xs \<Longrightarrow> P (xs[i := v]) \<Longrightarrow> okP (updF xs i v) P"
  by (simp add: updF_def)

lemma okP_int: "fitsInt n \<Longrightarrow> P n \<Longrightarrow> okP (intOp n) P"
  by (simp add: intOp_def)

lemma okP_foldF:
  "P a \<Longrightarrow> (\<And>x a. x \<in> set xs \<Longrightarrow> P a \<Longrightarrow> okP (f x a) P) \<Longrightarrow> okP (foldF f xs a) P"
  by (induction xs arbitrary: a) (auto intro: okP_bind)

lemma okP_loopF:
  assumes "P a" and "\<And>x a. x \<in> set xs \<Longrightarrow> P a \<Longrightarrow> okP (f x a) (\<lambda>r. P (snd r))"
  shows "okP (loopF f xs a) (\<lambda>r. P (snd r))"
  using assms
proof (induction xs arbitrary: a)
  case (Cons x xs)
  show ?case unfolding loopF.simps
  proof (rule okP_bind)
    show "okP (f x a) (\<lambda>r. P (snd r))" using Cons.prems by simp
    fix r :: "bool \<times> _" assume "P (snd r)"
    with Cons show "okP (case r of (go, a) \<Rightarrow> if go then loopF f xs a else ok (False, a)) (\<lambda>r. P (snd r))"
      by (cases r) simp
  qed
qed simp

lemma grid_index: "px < w \<Longrightarrow> py < h \<Longrightarrow> py * w + px < w * (h :: nat)"
proof -
  assume "px < w" "py < h"
  then have "py * w + px < Suc py * w" by simp
  also have "\<dots> \<le> h * w" using \<open>py < h\<close> by (intro mult_le_mono1) simp
  finally show ?thesis by (simp add: mult.commute)
qed

text \<open>Appending one element per round builds the image of the list.\<close>

lemma foldF_map:
  "(\<And>x. x \<in> set xs \<Longrightarrow> \<forall>acc. f x acc = ok (acc @ [g x])) \<Longrightarrow> foldF f xs acc = ok (acc @ map g xs)"
  by (induction xs arbitrary: acc) simp_all

end
