(* ===== verification/Rfb_Rect.thy ===== *)
theory Rfb_Rect
  imports Rfb Checked
begin

text \<open>
  Decoding of the Raw, CopyRect, RRE and Hextile rectangles, second part of
  \<open>src/src/connect/RfbProtocol.{h,cpp}\<close>. Every access to the buffer and the pixel list is checked
  and the products and sums of \<open>int\<close> that the server controls are checked for overflow; what C++
  leaves undefined is a \<open>fault\<close>. Positions in the buffer are natural numbers (a buffer is below
  2 GB).
\<close>

section \<open>Pixels\<close>

type_synonym pixel = u32

definition argb :: "byte \<Rightarrow> byte \<Rightarrow> byte \<Rightarrow> pixel" where
  "argb red green blue =
     0xFF000000 OR push_bit 16 (ucast red) OR push_bit 8 (ucast green) OR ucast blue"

definition readPixel :: "bytes \<Rightarrow> nat \<Rightarrow> nat \<Rightarrow> fault + pixel" where
  "readPixel b off bpp =
     bindF (nthF b off) (\<lambda>blue.
     bindF (if 1 < bpp then nthF b (off + 1) else ok 0) (\<lambda>green.
     bindF (if 2 < bpp then nthF b (off + 2) else ok 0) (\<lambda>red.
     ok (argb red green blue))))"

definition decodeRawRect :: "Rectangle \<Rightarrow> bytes \<Rightarrow> nat \<Rightarrow> fault + pixel list" where
  "decodeRawRect r pixelData bpp =
     bindF (intOp (int (unat (rwidth r)) * int (unat (rheight r)))) (\<lambda>count.
     bindF (intOp (count * int bpp)) (\<lambda>need.
     if int (length pixelData) < need then ok []
     else foldF (\<lambda>i pixels.
            let o' = i * bpp in
            bindF (nthF pixelData o') (\<lambda>blue.
            bindF (nthF pixelData (o' + 1)) (\<lambda>green.
            bindF (nthF pixelData (o' + 2)) (\<lambda>red.
            ok (pixels @ [argb red green blue]))))) [0..<nat count] []))"

section \<open>One rectangle\<close>

record RectData =
  complete :: bool
  consumed :: int
  pixels :: "pixel list"
  isCopy :: bool
  srcX :: nat
  srcY :: nat

definition no_rect :: RectData where
  "no_rect = \<lparr>complete = False, consumed = 0, pixels = [], isCopy = False, srcX = 0, srcY = 0\<rparr>"

definition decode_raw :: "Rectangle \<Rightarrow> bytes \<Rightarrow> nat \<Rightarrow> nat \<Rightarrow> int \<Rightarrow> fault + RectData" where
  "decode_raw r buf off bpp n =
     bindF (intOp (n * int bpp)) (\<lambda>need.
     bindF (intOp (int off + need)) (\<lambda>end.
     if int (length buf) < end then ok no_rect
     else bindF (decodeRawRect r (take (nat need) (drop off buf)) bpp) (\<lambda>ps.
          ok (no_rect\<lparr>pixels := ps, consumed := need, complete := True\<rparr>))))"

definition decode_copy :: "bytes \<Rightarrow> nat \<Rightarrow> fault + RectData" where
  "decode_copy buf off =
     (if length buf < off + 4 then ok no_rect
      else ok (no_rect\<lparr>isCopy := True, srcX := unat (rd16be buf off), srcY := unat (rd16be buf (off + 2)),
                 consumed := 4, complete := True\<rparr>))"

text \<open>Painting a block of one colour, clipped to the rectangle.\<close>

definition paint :: "nat \<Rightarrow> nat \<Rightarrow> nat \<Rightarrow> nat \<Rightarrow> nat \<Rightarrow> nat \<Rightarrow> pixel \<Rightarrow> pixel list \<Rightarrow> fault + pixel list" where
  "paint w h x0 y0 lw lh c ps =
     foldF (\<lambda>(xx, yy) ps. let px = x0 + xx; py = y0 + yy
                           in if px < w \<and> py < h then updF ps (py * w + px) c else ok ps) (grid lw lh) ps"

definition rre_sub :: "nat \<Rightarrow> nat \<Rightarrow> bytes \<Rightarrow> nat \<Rightarrow> nat \<Rightarrow> pixel list \<Rightarrow> fault + pixel list" where
  "rre_sub w h buf bpp p ps =
     bindF (readPixel buf p bpp) (\<lambda>color.
     if length buf < p + bpp + 8 then Inl OutOfBounds
     else let sx = unat (rd16be buf (p + bpp)); sy = unat (rd16be buf (p + bpp + 2));
              sw = unat (rd16be buf (p + bpp + 4)); sh = unat (rd16be buf (p + bpp + 6))
          in paint w h sx sy sw sh color ps)"

definition decode_rre :: "nat \<Rightarrow> nat \<Rightarrow> bytes \<Rightarrow> nat \<Rightarrow> nat \<Rightarrow> int \<Rightarrow> fault + RectData" where
  "decode_rre w h buf off bpp n =
     (if length buf < off + 4 + bpp then ok no_rect
      else let nsub = rd32be buf off; subSize = bpp + 8 in
        bindF (intOp (toInt32 nsub * int subSize)) (\<lambda>subs.
        bindF (intOp (4 + int bpp + subs)) (\<lambda>need.
        bindF (intOp (int off + need)) (\<lambda>end.
        if int (length buf) < end then ok no_rect
        else bindF (readPixel buf (off + 4) bpp) (\<lambda>bg.
             bindF (foldF (\<lambda>s. rre_sub w h buf bpp (off + 4 + bpp + s * subSize)) [0..<unat nsub] (replicate (nat n) bg)) (\<lambda>ps.
             ok (no_rect\<lparr>pixels := ps, consumed := need, complete := True\<rparr>)))))))"

section \<open>Hextile\<close>

record hex_state =
  hp :: nat
  hbg :: pixel
  hfg :: pixel
  hpix :: "pixel list"

text \<open>\<open>if (buf.size() < p + bpp) return out; c = readPixel(buf, p, bpp); p += bpp\<close>.\<close>

definition take_pixel :: "bytes \<Rightarrow> nat \<Rightarrow> nat \<Rightarrow> fault + (pixel \<times> nat) option" where
  "take_pixel buf bpp p =
     (if length buf < p + bpp then ok None
      else bindF (readPixel buf p bpp) (\<lambda>c. ok (Some (c, p + bpp))))"

definition opt_pixel :: "bytes \<Rightarrow> nat \<Rightarrow> bool \<Rightarrow> pixel \<Rightarrow> nat \<Rightarrow> fault + (pixel \<times> nat) option" where
  "opt_pixel buf bpp b c p = (if b then take_pixel buf bpp p else ok (Some (c, p)))"

definition hex_raw :: "nat \<Rightarrow> nat \<Rightarrow> bytes \<Rightarrow> nat \<Rightarrow> nat \<Rightarrow> nat \<Rightarrow> nat \<Rightarrow> nat \<Rightarrow> hex_state \<Rightarrow> fault + bool \<times> hex_state" where
  "hex_raw w h buf bpp tx ty tw th st =
     (let need = tw * th * bpp; p = hp st
      in if length buf < p + need then ok (False, st)
         else bindF (foldF (\<lambda>(xx, yy) ps.
                let px = tx + xx; py = ty + yy
                in if px < w \<and> py < h
                   then bindF (readPixel buf (p + (yy * tw + xx) * bpp) bpp) (updF ps (py * w + px))
                   else ok ps) (grid tw th) (hpix st)) (\<lambda>ps.
              ok (True, st\<lparr>hpix := ps, hp := p + need\<rparr>)))"

definition hex_subrect :: "nat \<Rightarrow> nat \<Rightarrow> bytes \<Rightarrow> nat \<Rightarrow> bool \<Rightarrow> nat \<Rightarrow> nat \<Rightarrow> hex_state \<Rightarrow> fault + bool \<times> hex_state" where
  "hex_subrect w h buf bpp coloured tx ty st =
     bindF (opt_pixel buf bpp coloured (hfg st) (hp st)) (\<lambda>r.
     case r of None \<Rightarrow> ok (False, st)
     | Some (c, p) \<Rightarrow>
         if length buf < p + 2 then ok (False, st)
         else let xy = buf ! p; wh = buf ! (p + 1)
              in bindF (paint w h (tx + unat (drop_bit 4 xy)) (ty + unat (xy AND 0x0F))
                     (unat (drop_bit 4 wh) + 1) (unat (wh AND 0x0F) + 1) c (hpix st)) (\<lambda>ps.
                 ok (True, st\<lparr>hpix := ps, hp := p + 2\<rparr>)))"

definition hex_colours :: "nat \<Rightarrow> nat \<Rightarrow> bytes \<Rightarrow> nat \<Rightarrow> byte \<Rightarrow> hex_state \<Rightarrow> fault + bool \<times> hex_state" where
  "hex_colours w h buf bpp sub st =
     bindF (opt_pixel buf bpp (bit sub 1) (hbg st) (hp st)) (\<lambda>r.
     case r of None \<Rightarrow> ok (False, st)
     | Some (bg, p) \<Rightarrow>
         let st = st\<lparr>hbg := bg, hp := p\<rparr>
         in bindF (opt_pixel buf bpp (bit sub 2) (hfg st) (hp st)) (\<lambda>r.
            case r of None \<Rightarrow> ok (False, st)
            | Some (fg, p) \<Rightarrow> ok (True, st\<lparr>hfg := fg, hp := p\<rparr>)))"

text \<open>One tile, at \<open>(tx, ty)\<close>; the first component says whether the buffer was long enough.\<close>

definition hex_tile :: "nat \<Rightarrow> nat \<Rightarrow> bytes \<Rightarrow> nat \<Rightarrow> nat \<times> nat \<Rightarrow> hex_state \<Rightarrow> fault + bool \<times> hex_state" where
  "hex_tile w h buf bpp t st =
     (case t of (tx, ty) \<Rightarrow>
        let th = min 16 (h - ty); tw = min 16 (w - tx)
        in if length buf < hp st + 1 then ok (False, st)
           else let sub = buf ! hp st; st = st\<lparr>hp := hp st + 1\<rparr>
                in if bit sub 0 then hex_raw w h buf bpp tx ty tw th st
                   else bindF (hex_colours w h buf bpp sub st) (\<lambda>(go, st).
                        if \<not> go then ok (False, st)
                        else bindF (paint w h tx ty tw th (hbg st) (hpix st)) (\<lambda>ps.
                             let st = st\<lparr>hpix := ps\<rparr>
                             in if \<not> bit sub 3 then ok (True, st)
                                else if length buf < hp st + 1 then ok (False, st)
                                else let ns = unat (buf ! hp st); st = st\<lparr>hp := hp st + 1\<rparr>
                                     in loopF (\<lambda>_. hex_subrect w h buf bpp (bit sub 4) tx ty) [0..<ns] st)))"

definition tiles :: "nat \<Rightarrow> nat \<Rightarrow> nat \<Rightarrow> (nat \<times> nat) list" where
  "tiles k w h = map (\<lambda>(x, y). (k * x, k * y)) (grid ((w + k - 1) div k) ((h + k - 1) div k))"

definition decode_hextile :: "nat \<Rightarrow> nat \<Rightarrow> bytes \<Rightarrow> nat \<Rightarrow> nat \<Rightarrow> int \<Rightarrow> fault + RectData" where
  "decode_hextile w h buf off bpp n =
     (let st = \<lparr>hp = off, hbg = 0xFF000000, hfg = 0xFFFFFFFF, hpix = replicate (nat n) 0xFF000000\<rparr>
      in bindF (loopF (hex_tile w h buf bpp) (tiles 16 w h) st) (\<lambda>(done, st).
         if \<not> done then ok (no_rect\<lparr>pixels := hpix st\<rparr>)
         else ok (no_rect\<lparr>pixels := hpix st, consumed := int (hp st) - int off, complete := True\<rparr>)))"

definition decodeRect :: "Rectangle \<Rightarrow> bytes \<Rightarrow> nat \<Rightarrow> nat \<Rightarrow> fault + RectData" where
  "decodeRect r buf off bpp =
     (let w = unat (rwidth r); h = unat (rheight r)
      in bindF (intOp (int w * int h)) (\<lambda>n.
         if encoding r = 0 then decode_raw r buf off bpp n
         else if encoding r = 1 then decode_copy buf off
         else if encoding r = 2 then decode_rre w h buf off bpp n
         else if encoding r = 5 then decode_hextile w h buf off bpp n
         else ok no_rect))"

section \<open>Safety\<close>

text \<open>The pixel list keeps its length while it is painted.\<close>

lemma okP_paint: "length ps = w * h \<Longrightarrow> okP (paint w h x0 y0 lw lh c ps) (\<lambda>ps. length ps = w * h)"
  unfolding paint_def
  by (rule okP_foldF) (auto simp: Let_def updF_def grid_index intro!: okP_if)

lemma okP_readPixel:
  assumes "off + 4 \<le> length b"
  shows "okP (readPixel b off 4) (\<lambda>_. True)"
  using assms by (simp add: readPixel_def nthF_def)

lemma okP_take_pixel:
  "okP (take_pixel buf 4 p) (\<lambda>r. case r of None \<Rightarrow> True | Some (_, p') \<Rightarrow> p' \<le> length buf \<and> p \<le> p')"
  unfolding take_pixel_def by (auto intro!: okP_if okP_bind [OF okP_readPixel])

definition hex_ok :: "nat \<Rightarrow> nat \<Rightarrow> bytes \<Rightarrow> nat \<Rightarrow> hex_state \<Rightarrow> bool" where
  "hex_ok w h buf off st \<longleftrightarrow> length (hpix st) = w * h \<and> off \<le> hp st \<and> hp st \<le> max off (length buf)"

lemma okP_hex_raw:
  assumes "hex_ok w h buf off st" and "hp st \<le> length buf"
  shows "okP (hex_raw w h buf 4 tx ty tw th st) (\<lambda>r. hex_ok w h buf off (snd r))"
proof -
  let ?p = "hp st" and ?need = "tw * th * 4"
  have read: "okP (readPixel buf (?p + (yy * tw + xx) * 4) 4) (\<lambda>_. True)"
    if "xx < tw" "yy < th" "?p + ?need \<le> length buf" for xx yy
    by (rule okP_readPixel) (use grid_index [OF that(1,2)] that(3) in simp)
  have "okP (foldF (\<lambda>(xx, yy) ps.
          let px = tx + xx; py = ty + yy
          in if px < w \<and> py < h
             then bindF (readPixel buf (?p + (yy * tw + xx) * 4) 4) (updF ps (py * w + px))
             else ok ps) (grid tw th) (hpix st)) (\<lambda>ps. length ps = w * h)"
    if "?p + ?need \<le> length buf"
    using assms(1) that
    by (intro okP_foldF) (auto simp: hex_ok_def Let_def updF_def grid_index intro!: okP_if okP_bind [OF read])
  then show ?thesis
    using assms unfolding hex_raw_def Let_def
    by (intro okP_if) (auto simp: hex_ok_def not_less intro!: okP_bind)
qed

lemma okP_opt_pixel:
  "p \<le> length buf \<Longrightarrow> okP (opt_pixel buf 4 b c p) (\<lambda>r. case r of None \<Rightarrow> True | Some (_, p') \<Rightarrow> p' \<le> length buf \<and> p \<le> p')"
  by (simp add: opt_pixel_def okP_take_pixel)

lemma okP_hex_subrect:
  assumes "hex_ok w h buf off st" and "hp st \<le> length buf"
  shows "okP (hex_subrect w h buf 4 coloured tx ty st) (\<lambda>r. hex_ok w h buf off (snd r) \<and> hp (snd r) \<le> length buf)"
  unfolding hex_subrect_def
proof (rule okP_bind [OF okP_opt_pixel [OF assms(2)]])
  fix r assume r: "case r of None \<Rightarrow> True | Some (_ :: pixel, p) \<Rightarrow> p \<le> length buf \<and> hp st \<le> p"
  show "okP (case r of None \<Rightarrow> ok (False, st)
     | Some (c, p) \<Rightarrow>
         if length buf < p + 2 then ok (False, st)
         else let xy = buf ! p; wh = buf ! (p + 1)
              in bindF (paint w h (tx + unat (drop_bit 4 xy)) (ty + unat (xy AND 0x0F))
                     (unat (drop_bit 4 wh) + 1) (unat (wh AND 0x0F) + 1) c (hpix st)) (\<lambda>ps.
                 ok (True, st\<lparr>hpix := ps, hp := p + 2\<rparr>))) (\<lambda>r. hex_ok w h buf off (snd r) \<and> hp (snd r) \<le> length buf)"
    using r assms
    by (auto simp: Let_def hex_ok_def split: option.split intro!: okP_if okP_bind [OF okP_paint])
qed

lemma okP_hex_colours:
  assumes "hex_ok w h buf off st" and "hp st \<le> length buf"
  shows "okP (hex_colours w h buf 4 sub st) (\<lambda>r. hex_ok w h buf off (snd r) \<and> hp (snd r) \<le> length buf)"
  unfolding hex_colours_def Let_def
  using assms by (auto simp: hex_ok_def split: option.splits intro!: okP_bind [OF okP_opt_pixel])

lemma okP_hex_tile:
  assumes "hex_ok w h buf off st"
  shows "okP (hex_tile w h buf 4 t st) (\<lambda>r. hex_ok w h buf off (snd r))"
proof -
  obtain tx ty where t: "t = (tx, ty)" by (cases t)
  let ?tw = "min 16 (w - tx)" and ?th = "min 16 (h - ty)"
  let ?st = "st\<lparr>hp := hp st + 1\<rparr>" and ?sub = "buf ! hp st"
  let ?Q = "\<lambda>r. hex_ok w h buf off (snd r) \<and> hp (snd r) \<le> length buf"
  have rest: "okP (case r of (go, st) \<Rightarrow>
        if \<not> go then ok (False, st)
        else bindF (paint w h tx ty ?tw ?th (hbg st) (hpix st)) (\<lambda>ps.
             let st = st\<lparr>hpix := ps\<rparr>
             in if \<not> bit ?sub 3 then ok (True, st)
                else if length buf < hp st + 1 then ok (False, st)
                else let ns = unat (buf ! hp st); st = st\<lparr>hp := hp st + 1\<rparr>
                     in loopF (\<lambda>_. hex_subrect w h buf 4 (bit ?sub 4) tx ty) [0..<ns] st)) ?Q"
    if "?Q r" for r :: "bool \<times> hex_state"
  proof -
    obtain go st1 where r: "r = (go, st1)" by (cases r)
    have sub: "okP (loopF (\<lambda>_. hex_subrect w h buf 4 c tx ty) xs st2)
        (\<lambda>r. length (hpix (snd r)) = w * h \<and> off \<le> hp (snd r) \<and> hp (snd r) \<le> length buf)"
      if "length (hpix st2) = w * h" "off \<le> hp st2" "hp st2 \<le> length buf" for c st2 and xs :: "nat list"
    proof (rule okP_mono [OF okP_loopF [of "\<lambda>st. hex_ok w h buf off st \<and> hp st \<le> length buf"]])
      show "hex_ok w h buf off st2 \<and> hp st2 \<le> length buf" using that by (simp add: hex_ok_def)
      show "okP (hex_subrect w h buf 4 c tx ty a) (\<lambda>r. hex_ok w h buf off (snd r) \<and> hp (snd r) \<le> length buf)"
        if "hex_ok w h buf off a \<and> hp a \<le> length buf" for a using that by (simp add: okP_hex_subrect)
    qed (auto simp: hex_ok_def)
    show ?thesis
      using that r
      by (auto simp: hex_ok_def Let_def intro!: okP_if okP_bind [OF okP_paint] sub)
  qed
  have st1: "hex_ok w h buf off ?st \<and> hp ?st \<le> length buf" if "\<not> length buf < hp st + 1"
    using assms that by (simp add: hex_ok_def)
  show ?thesis
    unfolding hex_tile_def t prod.case Let_def
    using st1 assms
    by (auto intro!: okP_if okP_hex_raw okP_mono [OF okP_bind [OF okP_hex_colours rest [unfolded Let_def]]])
qed

lemma okP_decode_hextile:
  "okP (decode_hextile w h buf off 4 (int w * int h))
     (\<lambda>d. complete d \<longrightarrow> length (pixels d) = w * h \<and> 0 \<le> consumed d \<and> int off + consumed d \<le> int (max off (length buf)))"
proof -
  have "okP (loopF (hex_tile w h buf 4) ts st) (\<lambda>r. hex_ok w h buf off (snd r))" if "hex_ok w h buf off st" for ts st
    using okP_loopF [of "hex_ok w h buf off" st ts "hex_tile w h buf 4"] okP_hex_tile that by blast
  then show ?thesis
    unfolding decode_hextile_def Let_def
    by (intro okP_bind [where P = "\<lambda>r. hex_ok w h buf off (snd r)"])
      (auto simp: hex_ok_def nat_mult_distrib no_rect_def split: prod.split)
qed

section \<open>Raw rectangles\<close>

lemma decodeRawRect_ok:
  assumes "fitsInt (int (w * h * 4))" and "unat (rwidth r) = w" and "unat (rheight r) = h"
    and "w * h * 4 \<le> length d"
  shows "decodeRawRect r d 4 = ok (map (\<lambda>i. argb (d ! (4 * i + 2)) (d ! (4 * i + 1)) (d ! (4 * i))) [0..<w * h])"
proof -
  have "0 \<le> int w * int h" by simp
  then have "fitsInt (int w * int h)" using assms(1) by (auto simp: fitsInt_def mult.commute)
  then have i1: "intOp (int w * int h) = ok (int (w * h))" by (simp add: intOp_def)
  have i2: "intOp (int (w * h) * int 4) = ok (int (w * h * 4))" using assms(1) by (simp add: intOp_def)
  have loop: "foldF (\<lambda>i pixels. let o' = i * 4 in bindF (nthF d o') (\<lambda>blue. bindF (nthF d (o' + 1)) (\<lambda>green.
        bindF (nthF d (o' + 2)) (\<lambda>red. ok (pixels @ [argb red green blue]))))) [0..<w * h] [] =
      ok ([] @ map (\<lambda>i. argb (d ! (4 * i + 2)) (d ! (4 * i + 1)) (d ! (4 * i))) [0..<w * h])"
    by (rule foldF_map) (use assms(4) in \<open>auto simp: nthF_def Let_def mult.commute\<close>)
  have "\<not> int (length d) < int (w * h * 4)" using assms(4) by linarith
  then show ?thesis
    unfolding decodeRawRect_def assms(2,3) i1 bindF.simps i2 nat_int loop by simp
qed

section \<open>Any rectangle\<close>

lemma fitsInt_le: "fitsInt m \<Longrightarrow> 0 \<le> n \<Longrightarrow> n \<le> m \<Longrightarrow> fitsInt n"
  by (auto simp: fitsInt_def)

lemma okP_decode_raw:
  assumes "fitsInt (int (off + w * h * 4))" and "unat (rwidth r) = w" and "unat (rheight r) = h"
  shows "okP (decode_raw r buf off 4 (int w * int h))
     (\<lambda>d. complete d \<longrightarrow> length (pixels d) = w * h \<and> 0 \<le> consumed d \<and> int off + consumed d \<le> int (max off (length buf)))"
proof -
  have f: "fitsInt (int (w * h * 4))" by (rule fitsInt_le [OF assms(1)]) simp_all
  have i1: "intOp (int w * int h * int 4) = ok (int (w * h * 4))" using f by (simp add: intOp_def)
  have i2: "intOp (int off + int (w * h * 4)) = ok (int (off + w * h * 4))" using assms(1) by (simp add: intOp_def)
  show ?thesis
  proof (cases "off + w * h * 4 \<le> length buf")
    case True
    then have "\<not> int (length buf) < int (off + w * h * 4)" by linarith
    then show ?thesis
      unfolding decode_raw_def i1 bindF.simps i2 nat_int
      using decodeRawRect_ok [OF f assms(2,3), of "take (w * h * 4) (drop off buf)"] True
      by (simp add: no_rect_def)
  next
    case False
    then have "int (length buf) < int (off + w * h * 4)" by linarith
    then show ?thesis
      unfolding decode_raw_def i1 bindF.simps i2 nat_int by (simp only: if_True okP_simps) (simp add: no_rect_def)
  qed
qed

lemma okP_decode_copy:
  "okP (decode_copy buf off) (\<lambda>d. complete d \<longrightarrow> isCopy d \<and> 0 \<le> consumed d \<and> int off + consumed d \<le> int (max off (length buf)))"
  by (simp add: decode_copy_def no_rect_def)

lemma okP_decode_rre:
  assumes "nsub = unat (rd32be buf off)" and "fitsInt (int (off + 8 + nsub * 12))"
  shows "okP (decode_rre w h buf off 4 (int w * int h))
     (\<lambda>d. complete d \<longrightarrow> length (pixels d) = w * h \<and> 0 \<le> consumed d \<and> int off + consumed d \<le> int (max off (length buf)))"
proof -
  have f: "fitsInt (int (nsub * 12))" "fitsInt (int (8 + nsub * 12))"
    by (rule fitsInt_le [OF assms(2)]; simp)+
  have "nsub < 2 ^ 31" using f(1) by (simp add: fitsInt_def)
  then have n: "toInt32 (rd32be buf off) = int nsub" using toInt32_small assms(1) by blast
  have i: "intOp (int nsub * int (4 + 8)) = ok (int (nsub * 12))"
    "intOp (4 + int 4 + int (nsub * 12)) = ok (int (8 + nsub * 12))"
    "intOp (int off + int (8 + nsub * 12)) = ok (int (off + 8 + nsub * 12))"
    using f assms(2) by (simp_all add: intOp_def add.assoc)
  have sub: "okP (rre_sub w h buf 4 (off + 4 + 4 + s * (4 + 8)) ps) (\<lambda>ps. length ps = w * h)"
    if "length ps = w * h" "s < nsub" "off + 8 + nsub * 12 \<le> length buf" for s ps
  proof -
    have "off + 4 + 4 + s * (4 + 8) + 12 \<le> length buf"
      using that(2,3) mult_le_mono1 [of "Suc s" nsub 12] by simp
    then show ?thesis
      unfolding rre_sub_def Let_def
      by (auto intro!: okP_bind [OF okP_readPixel] okP_if okP_paint simp: that(1))
  qed
  have loop: "okP (foldF (\<lambda>s. rre_sub w h buf 4 (off + 4 + 4 + s * (4 + 8))) [0..<nsub] ps) (\<lambda>ps. length ps = w * h)"
    if "length ps = w * h" "off + 8 + nsub * 12 \<le> length buf" for ps
    by (rule okP_foldF) (use that sub in auto)
  show ?thesis
  proof (cases "off + 8 + nsub * 12 \<le> length buf")
    case True
    then have "\<not> int (length buf) < int (off + 8 + nsub * 12)" by linarith
    moreover have "okP (bindF (readPixel buf (off + 4) 4) (\<lambda>bg.
        bindF (foldF (\<lambda>s. rre_sub w h buf 4 (off + 4 + 4 + s * (4 + 8))) [0..<nsub] (replicate (w * h) bg)) (\<lambda>ps.
        ok (no_rect\<lparr>pixels := ps, consumed := int (8 + nsub * 12), complete := True\<rparr>))))
      (\<lambda>d. complete d \<longrightarrow> length (pixels d) = w * h \<and> 0 \<le> consumed d \<and> int off + consumed d \<le> int (max off (length buf)))"
      by (rule okP_bind [OF okP_readPixel], use True in simp, rule okP_bind [OF loop]) (use True in simp_all)
    ultimately show ?thesis
      unfolding decode_rre_def Let_def n assms(1) [symmetric] i bindF.simps nat_int
      by (simp add: nat_mult_distrib no_rect_def)
  next
    case False
    then have "int (length buf) < int (off + 8 + nsub * 12)" by linarith
    then show ?thesis
      unfolding decode_rre_def Let_def n assms(1) [symmetric] i bindF.simps
      by (simp add: no_rect_def)
  qed
qed

lemma foldF_fault: "x \<in> set xs \<Longrightarrow> (\<And>a. \<not> isOk (f x a)) \<Longrightarrow> \<not> isOk (foldF f xs a)"
proof (induction xs arbitrary: a)
  case (Cons y ys)
  show ?case
  proof (cases "f y a")
    case (Inr b)
    with Cons show ?thesis by (cases "x = y") (metis isOk_simps(1), simp)
  qed simp
qed simp

text \<open>What the protocol lets a server send in one rectangle, as far as \<open>int\<close> can count it.\<close>

definition rect_bounds :: "Rectangle \<Rightarrow> nat \<Rightarrow> bool" where
  "rect_bounds r off \<longleftrightarrow> off + unat (rwidth r) * unat (rheight r) * 4 < 2 ^ 31"

lemma rect_bounds_int:
  assumes "rect_bounds r off"
  shows "intOp (int (unat (rwidth r)) * int (unat (rheight r))) = ok (int (unat (rwidth r)) * int (unat (rheight r)))"
    and "fitsInt (int (off + unat (rwidth r) * unat (rheight r) * 4))"
proof -
  let ?w = "unat (rwidth r)" and ?h = "unat (rheight r)"
  have "off + ?w * ?h * 4 < 2 ^ 31" using assms by (simp add: rect_bounds_def)
  then have "int (off + ?w * ?h * 4) < int (2 ^ 31)" by (simp only: of_nat_less_iff)
  then show f: "fitsInt (int (off + ?w * ?h * 4))" by (simp add: fitsInt_def del: of_nat_add of_nat_mult)
  have "fitsInt (int (?w * ?h))" by (rule fitsInt_le [OF f]) simp_all
  then show "intOp (int ?w * int ?h) = ok (int ?w * int ?h)" by (simp add: intOp_def)
qed

section \<open>Properties\<close>



text \<open>A raw rectangle that is there decodes to its pixels: point \<open>i\<close> in row order takes its blue,
  green and red from the three bytes at \<open>4 i\<close>, and the whole block is consumed.\<close>

theorem rfb_raw_pixels:
  assumes "rect_bounds r off" and "encoding r = 0"
    and "n = unat (rwidth r) * unat (rheight r)" and "off + n * 4 \<le> length buf"
  shows "decodeRect r buf off 4 = ok (no_rect\<lparr>complete := True, consumed := int (n * 4),
    pixels := map (\<lambda>i. argb (buf ! (off + 4 * i + 2)) (buf ! (off + 4 * i + 1)) (buf ! (off + 4 * i))) [0..<n]\<rparr>)"
proof -
  define w h where "w = unat (rwidth r)" and "h = unat (rheight r)"
  have n: "n = w * h" by (simp add: assms(3) w_def h_def)
  note b = rect_bounds_int [OF assms(1), folded w_def h_def]
  have f: "fitsInt (int (w * h * 4))" by (rule fitsInt_le [OF b(2)]) simp_all
  have i: "intOp (int w * int h * int 4) = ok (int (w * h * 4))" "intOp (int off + int (w * h * 4)) = ok (int (off + w * h * 4))"
    using f b(2) by (simp_all add: intOp_def)
  have len: "\<not> int (length buf) < int (off + w * h * 4)" using assms(4) unfolding n by linarith
  have "w * h * 4 \<le> length (take (w * h * 4) (drop off buf))" using assms(4) by (simp add: n)
  from decodeRawRect_ok [OF f w_def [symmetric] h_def [symmetric] this]
  have raw: "decodeRawRect r (take (w * h * 4) (drop off buf)) 4 =
      ok (map (\<lambda>i. argb (buf ! (off + 4 * i + 2)) (buf ! (off + 4 * i + 1)) (buf ! (off + 4 * i))) [0..<w * h])"
    using assms(4) by (simp add: n)
  show ?thesis
    unfolding decodeRect_def Let_def b(1) bindF.simps w_def [symmetric] h_def [symmetric] decode_raw_def i nat_int raw
    using len by (simp add: assms(2) n no_rect_def del: of_nat_add of_nat_mult)
qed

theorem rfb_raw_pixels_witness:
  "decodeRect \<lparr>rx = 0, ry = 0, rwidth = 1, rheight = 1, encoding = 0\<rparr> [9, 1, 2, 3, 0] 1 4 =
    ok (no_rect\<lparr>complete := True, consumed := int (1 * 4), pixels := [argb 3 2 1]\<rparr>)"
  using rfb_raw_pixels [of "\<lparr>rx = 0, ry = 0, rwidth = 1, rheight = 1, encoding = 0\<rparr>" 1 1 "[9, 1, 2, 3, 0]"]
  by (simp add: rect_bounds_def)

text \<open>An RRE rectangle can make the decoder read outside its buffer: with a subrectangle count of
  \<open>2 ^ 32 - 1\<close>, read as -1, the size check passes on any buffer and the loop runs over its end.\<close>

theorem rfb_rre_overread:
  assumes "rect_bounds r off" and "encoding r = 2" and "rd32be buf off = 0xFFFFFFFF"
    and "off + 8 \<le> length buf" and "length buf < 2 ^ 31"
  shows "\<not> isOk (decodeRect r buf off 4)"
proof -
  note b = rect_bounds_int [OF assms(1)]
  define w h where "w = unat (rwidth r)" and "h = unat (rheight r)"
  define N where "N = unat (0xFFFFFFFF :: u32)"
  have N: "N = 4294967295" by (simp add: N_def)
  have m1: "toInt32 (0xFFFFFFFF :: u32) = - 1" by (simp add: toInt32_def)
  have i: "intOp (- 1 * int (4 + 8)) = ok (- 12)" "intOp (4 + int 4 + - 12) = ok (- 4)"
    "intOp (int off + - 4) = ok (int off - 4)"
    using assms(4,5) by (simp_all add: intOp_def fitsInt_def)
  have f: "\<not> isOk (rre_sub w h buf 4 (off + 4 + 4 + (N - 1) * (4 + 8)) ps)" for ps
    using assms(5) by (simp add: rre_sub_def readPixel_def nthF_def N)
  have "\<not> isOk (foldF (\<lambda>s. rre_sub w h buf 4 (off + 4 + 4 + s * (4 + 8))) [0..<N] ps)" for ps
  proof (rule foldF_fault)
    show "N - 1 \<in> set [0..<N]" using N by (simp only: set_upt atLeastLessThan_iff) simp
  qed (rule f)
  then have "\<not> isOk (bindF (foldF (\<lambda>s. rre_sub w h buf 4 (off + 4 + 4 + s * (4 + 8))) [0..<N] ps) k)"
    for ps and k :: "pixel list \<Rightarrow> fault + RectData"
    by (rule contrapos_nn) (auto simp: isOk_iff bindF_eq_ok_iff)
  moreover obtain bg where "readPixel buf (off + 4) 4 = ok bg"
    using okP_isOk [OF okP_readPixel, of "off + 4" buf] assms(4) by (auto simp: isOk_iff)
  ultimately show ?thesis
    unfolding decodeRect_def Let_def w_def [symmetric] h_def [symmetric] rect_bounds_int(1) [OF assms(1), folded w_def h_def]
      bindF.simps decode_rre_def assms(3) m1 i N_def [symmetric]
    using assms(2,4) by simp
qed

theorem rfb_rre_overread_witness:
  "\<not> isOk (decodeRect \<lparr>rx = 0, ry = 0, rwidth = 1, rheight = 1, encoding = 2\<rparr> [255, 255, 255, 255, 0, 0, 0, 0] 0 4)"
proof -
  have "rd32be [255, 255, 255, 255, 0, 0, 0, 0] 0 = 0xFFFFFFFF" by code_simp
  then show ?thesis by (intro rfb_rre_overread) (simp_all add: rect_bounds_def)
qed

end
