(* ===== verification/Rfb_Zrle.thy ===== *)
theory Rfb_Zrle
  imports Rfb_Rect
begin

text \<open>
  ZRLE rectangles, the last part of \<open>src/src/connect/RfbProtocol.cpp\<close>: the cursor over inflated
  tile data, which latches \<open>bad\<close> instead of reading past the end, the five tile encodings and
  the rectangle. zlib with the drain loop of \<open>RfbZlibStream::inflate\<close> around it is a parameter,
  a record over the stream's state. The length of the compressed block is read as the code does,
  into an \<open>int\<close>, so it can be negative.
\<close>

section \<open>The cursor\<close>

record tile_reader =
  tp :: nat
  tbad :: bool

definition t_u8 :: "bytes \<Rightarrow> tile_reader \<Rightarrow> byte \<times> tile_reader" where
  "t_u8 b t = (if length b < tp t + 1 then (0, t\<lparr>tbad := True\<rparr>) else (b ! tp t, t\<lparr>tp := tp t + 1\<rparr>))"

definition t_cpixel :: "bytes \<Rightarrow> tile_reader \<Rightarrow> pixel \<times> tile_reader" where
  "t_cpixel b t =
     (if length b < tp t + 3 then (0xFF000000, t\<lparr>tbad := True\<rparr>)
      else (argb (b ! (tp t + 2)) (b ! (tp t + 1)) (b ! tp t), t\<lparr>tp := tp t + 3\<rparr>))"

text \<open>What is left to read; nothing once the cursor is bad.\<close>

definition t_left :: "bytes \<Rightarrow> tile_reader \<Rightarrow> nat" where
  "t_left b t = (if tbad t then 0 else Suc (length b - tp t))"

lemma t_left_u8: "\<not> tbad t \<Longrightarrow> t_left b (snd (t_u8 b t)) < t_left b t"
  by (auto simp: t_u8_def t_left_def)

lemma t_left_cpixel: "\<not> tbad t \<Longrightarrow> t_left b (snd (t_cpixel b t)) < t_left b t"
  by (auto simp: t_cpixel_def t_left_def)

lemma t_left_u8_le: "t_left b (snd (t_u8 b t)) \<le> t_left b t"
  by (cases "tbad t") (auto simp: t_u8_def t_left_def)

text \<open>\<open>do { c = u8(); sum += c; } while (c == 255 && !bad); return sum + 1\<close>, the sum an \<open>int\<close>.\<close>

function run_sum :: "bytes \<Rightarrow> int \<Rightarrow> tile_reader \<Rightarrow> fault + int \<times> tile_reader" where
  "run_sum b acc t =
     (let (c, t') = t_u8 b t; acc' = acc + uint c
      in if \<not> fitsInt acc' then Inl SignedOverflow
         else if c = 255 \<and> \<not> tbad t' then run_sum b acc' t'
         else if \<not> fitsInt (acc' + 1) then Inl SignedOverflow else ok (acc' + 1, t'))"
  by pat_completeness auto
termination
proof (relation "measure (\<lambda>(b, acc, t). if tbad t then 0 else t_left b t)")
  fix b acc t x y c t' acc'
  assume x: "x = t_u8 b t" "(c, t') = x" "acc' = acc + uint c" and "\<not> \<not> fitsInt acc'" and go: "c = 255 \<and> \<not> tbad t'"
  then have "\<not> tbad t" by (auto simp: t_u8_def split: if_splits)
  moreover have "t' = snd (t_u8 b t)" using x by (metis snd_conv)
  ultimately show "((b, acc', t'), b, acc, t) \<in> measure (\<lambda>(b, acc, t). if tbad t then 0 else t_left b t)"
    using t_left_u8 [of t b] go by simp
qed simp

declare run_sum.simps [simp del]

abbreviation "runLength b t \<equiv> run_sum b 0 t"

section \<open>Tiles\<close>

record zstate =
  zt :: tile_reader
  zpix :: "pixel list"

text \<open>\<open>put\<close>, at the tile's origin, clipped.\<close>

definition zput :: "nat \<Rightarrow> nat \<Rightarrow> nat \<Rightarrow> nat \<Rightarrow> nat \<Rightarrow> nat \<Rightarrow> pixel \<Rightarrow> pixel list \<Rightarrow> fault + pixel list" where
  "zput w h tx ty lx ly c ps =
     (let px = tx + lx; py = ty + ly in if px < w \<and> py < h then updF ps (py * w + px) c else ok ps)"

definition zrle_raw :: "nat \<Rightarrow> nat \<Rightarrow> bytes \<Rightarrow> nat \<Rightarrow> nat \<Rightarrow> nat \<Rightarrow> nat \<Rightarrow> zstate \<Rightarrow> fault + zstate" where
  "zrle_raw w h b tx ty tw th =
     foldF (\<lambda>(x, y) st. let (c, t) = t_cpixel b (zt st)
                        in bindF (zput w h tx ty x y c (zpix st)) (\<lambda>ps. ok (st\<lparr>zt := t, zpix := ps\<rparr>))) (grid tw th)"

definition zrle_solid :: "nat \<Rightarrow> nat \<Rightarrow> bytes \<Rightarrow> nat \<Rightarrow> nat \<Rightarrow> nat \<Rightarrow> nat \<Rightarrow> zstate \<Rightarrow> fault + zstate" where
  "zrle_solid w h b tx ty tw th st =
     (let (c, t) = t_cpixel b (zt st)
      in bindF (foldF (\<lambda>(x, y). zput w h tx ty x y c) (grid tw th) (zpix st)) (\<lambda>ps. ok (st\<lparr>zt := t, zpix := ps\<rparr>)))"

text \<open>The palette, entry by entry.\<close>

fun read_palette :: "bytes \<Rightarrow> nat \<Rightarrow> tile_reader \<Rightarrow> pixel list \<times> tile_reader" where
  "read_palette b 0 t = ([], t)"
| "read_palette b (Suc n) t =
     (let (c, t) = t_cpixel b t; (cs, t) = read_palette b n t in (c # cs, t))"

definition pal_colour :: "pixel list \<Rightarrow> nat \<Rightarrow> pixel" where
  "pal_colour pal idx = (if idx < length pal then pal ! idx else 0xFF000000)"

text \<open>One row of packed indices: \<open>bit\<close> bits of \<open>cur\<close> are left.\<close>

record packed_row =
  pbit :: nat
  pcur :: byte
  pst :: zstate

definition packed_cell :: "nat \<Rightarrow> nat \<Rightarrow> bytes \<Rightarrow> nat \<Rightarrow> nat \<Rightarrow> pixel list \<Rightarrow> nat \<Rightarrow> nat \<Rightarrow> nat \<Rightarrow> packed_row \<Rightarrow> fault + packed_row" where
  "packed_cell w h b tx ty pal bits y x r =
     (let (cur, t, bit) = (if pbit r = 0 then let (c, t) = t_u8 b (zt (pst r)) in (c, t, 8)
                           else (pcur r, zt (pst r), pbit r));
          bit = bit - bits;
          idx = unat (drop_bit bit cur AND (2 ^ bits - 1))
      in bindF (zput w h tx ty x y (pal_colour pal idx) (zpix (pst r))) (\<lambda>ps.
         ok \<lparr>pbit = bit, pcur = cur, pst = (pst r)\<lparr>zt := t, zpix := ps\<rparr>\<rparr>))"

definition zrle_packed :: "nat \<Rightarrow> nat \<Rightarrow> bytes \<Rightarrow> nat \<Rightarrow> nat \<Rightarrow> nat \<Rightarrow> nat \<Rightarrow> nat \<Rightarrow> zstate \<Rightarrow> fault + zstate" where
  "zrle_packed w h b tx ty tw th palSize st =
     (let (pal, t) = read_palette b palSize (zt st);
          bits = (if palSize \<le> 2 then 1 else if palSize \<le> 4 then 2 else 4)
      in foldF (\<lambda>y st. if tbad (zt st) then ok st
           else bindF (foldF (packed_cell w h b tx ty pal bits y) [0..<tw] \<lparr>pbit = 0, pcur = 0, pst = st\<rparr>) (\<lambda>r. ok (pst r)))
         [0..<th] (st\<lparr>zt := t\<rparr>))"

text \<open>A run: \<open>while (run-- > 0 && y < th) { put; if (++x >= tw) { x = 0; ++y; } }\<close>.\<close>

fun fill_run :: "nat \<Rightarrow> nat \<Rightarrow> nat \<Rightarrow> nat \<Rightarrow> nat \<Rightarrow> nat \<Rightarrow> pixel \<Rightarrow> nat \<Rightarrow> nat \<times> nat \<Rightarrow> pixel list \<Rightarrow> fault + (nat \<times> nat) \<times> pixel list" where
  "fill_run w h tx ty tw th c 0 (x, y) ps = ok ((x, y), ps)"
| "fill_run w h tx ty tw th c (Suc run) (x, y) ps =
     (if th \<le> y then ok ((x, y), ps)
      else bindF (zput w h tx ty x y c ps) (\<lambda>ps.
           fill_run w h tx ty tw th c run (if tw \<le> x + 1 then (0, y + 1) else (x + 1, y)) ps))"

text \<open>The colour and length of the next run, plain (\<open>None\<close>) or from a palette.\<close>

definition next_run :: "pixel list option \<Rightarrow> bytes \<Rightarrow> tile_reader \<Rightarrow> fault + pixel \<times> int \<times> tile_reader" where
  "next_run pal b t =
     (case pal of
        None \<Rightarrow> let (c, t) = t_cpixel b t in bindF (runLength b t) (\<lambda>(run, t). ok (c, run, t))
      | Some pal \<Rightarrow>
          let (idxByte, t) = t_u8 b t; c = pal_colour pal (unat (idxByte AND 0x7f))
          in if bit idxByte 7 then bindF (runLength b t) (\<lambda>(run, t). ok (c, run, t)) else ok (c, 1, t))"

lemma run_sum_left: "run_sum b acc t = ok (r, t') \<Longrightarrow> t_left b t' \<le> t_left b t"
proof (induction b acc t rule: run_sum.induct)
  case (1 b acc t)
  obtain c t1 where c: "t_u8 b t = (c, t1)" by (cases "t_u8 b t")
  then have le: "t_left b t1 \<le> t_left b t" using t_left_u8_le [of b t] by simp
  have "(c = 255 \<and> \<not> tbad t1 \<and> run_sum b (acc + uint c) t1 = ok (r, t')) \<or> t' = t1"
    using "1.prems" by (subst (asm) run_sum.simps) (auto simp: c Let_def split: if_splits)
  moreover have "fitsInt (acc + uint c)"
    using "1.prems" by (subst (asm) run_sum.simps) (auto simp: c Let_def split: if_splits)
  ultimately show ?case using "1.IH" [OF c [symmetric] refl refl] le by (auto simp: c)
qed

lemma next_run_left:
  assumes "next_run pal b t = ok (c, run, t')" and "\<not> tbad t"
  shows "t_left b t' < t_left b t"
proof (cases pal)
  case None
  with assms show ?thesis
    using t_left_cpixel [OF assms(2), of b] run_sum_left [of b 0 "snd (t_cpixel b t)"]
    by (auto simp: next_run_def split_def bindF_eq_ok_iff Let_def)
next
  case (Some p)
  with assms show ?thesis
    using t_left_u8 [OF assms(2), of b] run_sum_left [of b 0 "snd (t_u8 b t)"]
    by (auto simp: next_run_def split_def bindF_eq_ok_iff Let_def split: if_splits)
qed

text \<open>\<open>while (y < th && !bad)\<close>: every round reads, so it ends.\<close>

function rle_loop :: "nat \<Rightarrow> nat \<Rightarrow> bytes \<Rightarrow> nat \<Rightarrow> nat \<Rightarrow> nat \<Rightarrow> nat \<Rightarrow> pixel list option \<Rightarrow> nat \<times> nat \<Rightarrow> zstate \<Rightarrow> fault + zstate" where
  "rle_loop w h b tx ty tw th pal xy st =
     (if snd xy < th \<and> \<not> tbad (zt st)
      then bindF (next_run pal b (zt st)) (\<lambda>r.
           bindF (fill_run w h tx ty tw th (fst r) (nat (fst (snd r))) xy (zpix st)) (\<lambda>f.
           rle_loop w h b tx ty tw th pal (fst f) (st\<lparr>zt := snd (snd r), zpix := snd f\<rparr>)))
      else ok st)"
  by pat_completeness auto
termination
  by (relation "measure (\<lambda>(w, h, b, tx, ty, tw, th, pal, xy, st). t_left b (zt st))")
    (auto dest: next_run_left)

declare rle_loop.simps [simp del]

definition zrle_tile :: "nat \<Rightarrow> nat \<Rightarrow> bytes \<Rightarrow> nat \<times> nat \<Rightarrow> zstate \<Rightarrow> fault + zstate" where
  "zrle_tile w h b origin st =
     (case origin of (tx, ty) \<Rightarrow>
        if tbad (zt st) then ok st
        else let th = min 64 (h - ty); tw = min 64 (w - tx); (sub, t) = t_u8 b (zt st); st = st\<lparr>zt := t\<rparr>
             in if sub = 0 then zrle_raw w h b tx ty tw th st
                else if sub = 1 then zrle_solid w h b tx ty tw th st
                else if 2 \<le> sub \<and> sub \<le> 16 then zrle_packed w h b tx ty tw th (unat sub) st
                else if sub = 128 then rle_loop w h b tx ty tw th None (0, 0) st
                else if 130 \<le> sub then
                  let (pal, t) = read_palette b (unat sub - 128) (zt st)
                  in rle_loop w h b tx ty tw th (Some pal) (0, 0) (st\<lparr>zt := t\<rparr>)
                else ok (st\<lparr>zt := (zt st)\<lparr>tbad := True\<rparr>\<rparr>))"

section \<open>The rectangle\<close>

record 'z zlib =
  z_inflate :: "'z \<Rightarrow> bytes \<Rightarrow> bytes \<times> 'z"
  z_failed :: "'z \<Rightarrow> bool"

text \<open>\<open>QByteArray::mid\<close> with an \<open>int\<close> length: a negative one takes everything.\<close>

definition mid_int :: "bytes \<Rightarrow> nat \<Rightarrow> int \<Rightarrow> bytes" where
  "mid_int b off n = (if n < 0 then drop off b else take (nat n) (drop off b))"

definition decodeZRLERect :: "'z zlib \<Rightarrow> Rectangle \<Rightarrow> bytes \<Rightarrow> nat \<Rightarrow> 'z \<Rightarrow> fault + RectData \<times> 'z" where
  "decodeZRLERect zl r buf off z =
     (if length buf < off + 4 then ok (no_rect, z)
      else let len = toInt32 (rd32be buf off) in
        bindF (intOp (int off + 4 + len)) (\<lambda>end.
        if int (length buf) < end then ok (no_rect, z)
        else let (tiles_data, z) = z_inflate zl z (mid_int buf (off + 4) len) in
          bindF (intOp (4 + len)) (\<lambda>used.
          if z_failed zl z then ok (no_rect\<lparr>consumed := used, complete := True\<rparr>, z)
          else let w = unat (rwidth r); h = unat (rheight r) in
            bindF (intOp (int w * int h)) (\<lambda>n.
            bindF (foldF (zrle_tile w h tiles_data) (tiles 64 w h)
                     \<lparr>zt = \<lparr>tp = 0, tbad = False\<rparr>, zpix = replicate (nat n) 0xFF000000\<rparr>) (\<lambda>st.
            ok (no_rect\<lparr>pixels := if tbad (zt st) then [] else zpix st, consumed := used, complete := True\<rparr>, z))))))"

section \<open>Safety\<close>

abbreviation zlen :: "nat \<Rightarrow> nat \<Rightarrow> zstate \<Rightarrow> bool" where
  "zlen w h st \<equiv> length (zpix st) = w * h"

lemma okP_zput: "length ps = w * h \<Longrightarrow> okP (zput w h tx ty lx ly c ps) (\<lambda>ps. length ps = w * h)"
  by (auto simp: zput_def Let_def updF_def grid_index)

lemma okP_zrle_raw: "zlen w h st \<Longrightarrow> okP (zrle_raw w h b tx ty tw th st) (zlen w h)"
  unfolding zrle_raw_def by (rule okP_foldF) (auto simp: split_def Let_def intro!: okP_bind [OF okP_zput])

lemma okP_zrle_solid: "zlen w h st \<Longrightarrow> okP (zrle_solid w h b tx ty tw th st) (zlen w h)"
  unfolding zrle_solid_def split_def Let_def
  by (rule okP_bind [OF okP_foldF [where P = "\<lambda>ps. length ps = w * h"]]) (auto intro: okP_zput)

lemma okP_packed_cell: "zlen w h (pst r) \<Longrightarrow> okP (packed_cell w h b tx ty pal bits y x r) (\<lambda>r. zlen w h (pst r))"
  unfolding packed_cell_def Let_def split_def by (rule okP_bind [OF okP_zput]) simp_all

lemma okP_zrle_packed: "zlen w h st \<Longrightarrow> okP (zrle_packed w h b tx ty tw th n st) (zlen w h)"
  unfolding zrle_packed_def Let_def split_def
  by (rule okP_foldF) (auto intro!: okP_if okP_bind [OF okP_foldF [where P = "\<lambda>r. zlen w h (pst r)"]] okP_packed_cell)

lemma okP_fill_run: "length ps = w * h \<Longrightarrow> okP (fill_run w h tx ty tw th c n xy ps) (\<lambda>f. length (snd f) = w * h)"
proof (induction w h tx ty tw th c n xy ps rule: fill_run.induct)
  case (2 w h tx ty tw th c run x y ps)
  show ?case
  proof (cases "th \<le> y")
    case False
    obtain ps' where z: "zput w h tx ty x y c ps = ok ps'" "length ps' = w * h"
      using okP_zput [OF "2.prems", of tx ty x y c] by (cases "zput w h tx ty x y c ps") auto
    with False show ?thesis using "2.IH" [OF False z(1) z(2)] by simp
  qed (simp add: 2)
qed simp

text \<open>A run length fits \<open>int\<close> when the data is below \<open>2 ^ 22\<close> bytes.\<close>

lemma okP_run_sum:
  "0 \<le> acc \<Longrightarrow> acc + 255 * int (Suc (length b - tp t)) + 1 < 2 ^ 31 \<Longrightarrow> okP (run_sum b acc t) (\<lambda>_. True)"
proof (induction b acc t rule: run_sum.induct)
  case (1 b acc t)
  obtain c t1 where c: "t_u8 b t = (c, t1)" by (cases "t_u8 b t")
  have pos: "0 \<le> uint c" by simp
  have "uint c \<le> 255" using uint_bounded [of c] by simp
  moreover define m where "m = int (Suc (length b - tp t))"
  moreover have "1 \<le> m" by (simp add: m_def)
  ultimately have "acc + uint c + 1 < 2 ^ 31" using "1.prems"(2) unfolding m_def [symmetric] by linarith
  then have fit: "fitsInt (acc + uint c)" "fitsInt (acc + uint c + 1)"
    using add_nonneg_nonneg [OF "1.prems"(1) pos] by (simp_all add: fitsInt_def)
  have "okP (run_sum b (acc + uint c) t1) (\<lambda>_. True)" if "c = 255" "\<not> tbad t1"
  proof -
    have "tp t + 1 \<le> length b" "t1 = t\<lparr>tp := tp t + 1\<rparr>"
      using c that by (auto simp: t_u8_def split: if_splits)
    then have "length b - tp t = Suc (length b - tp t1)" by simp
    with "1.prems" show ?thesis using that fit by (intro "1.IH" [OF c [symmetric] refl refl]) auto
  qed
  then show ?case using fit by (subst run_sum.simps) (auto simp: c Let_def)
qed

lemma okP_runLength: "length b \<le> 2 ^ 22 \<Longrightarrow> okP (runLength b t) (\<lambda>_. True)"
  by (rule okP_run_sum) simp_all

lemma okP_next_run: "length b \<le> 2 ^ 22 \<Longrightarrow> okP (next_run pal b t) (\<lambda>_. True)"
  unfolding next_run_def Let_def split_def
  by (auto split: option.split intro!: okP_bind [OF okP_runLength])

lemma okP_rle_loop:
  assumes "length b \<le> 2 ^ 22"
  shows "zlen w h st \<Longrightarrow> okP (rle_loop w h b tx ty tw th pal xy st) (zlen w h)"
  using assms
proof (induction w h b tx ty tw th pal xy st rule: rle_loop.induct)
  case (1 w h b tx ty tw th pal xy st)
  show ?case
  proof (cases "snd xy < th \<and> \<not> tbad (zt st)")
    case True
    obtain r where r: "next_run pal b (zt st) = ok r"
      using okP_next_run [OF "1.prems"(2), of pal "zt st"] by (cases "next_run pal b (zt st)") auto
    have "okP (bindF (fill_run w h tx ty tw th (fst r) (nat (fst (snd r))) xy (zpix st)) (\<lambda>f.
           rle_loop w h b tx ty tw th pal (fst f) (st\<lparr>zt := snd (snd r), zpix := snd f\<rparr>))) (zlen w h)"
      using okP_fill_run [OF "1.prems"(1), of tx ty tw th "fst r" "nat (fst (snd r))" xy]
        "1.IH" [OF True r] "1.prems"(2)
      by (cases "fill_run w h tx ty tw th (fst r) (nat (fst (snd r))) xy (zpix st)") auto
    with True r show ?thesis by (subst rle_loop.simps) simp
  next
    case False
    then show ?thesis using "1.prems" by (subst rle_loop.simps) auto
  qed
qed

lemma okP_zrle_tile: "length b \<le> 2 ^ 22 \<Longrightarrow> zlen w h st \<Longrightarrow> okP (zrle_tile w h b org st) (zlen w h)"
  unfolding zrle_tile_def Let_def split_def
  by (intro okP_if okP_zrle_raw okP_zrle_solid okP_zrle_packed okP_rle_loop) simp_all

section \<open>Properties\<close>

text \<open>C40: Decoding a ZRLE rectangle is memory safe whatever zlib makes of the block: for a
  rectangle whose pixels \<open>int\<close> can count, a block that ends below \<open>2 ^ 31\<close> and tile data of at most
  \<open>2 ^ 22\<close> bytes, nothing is written outside the pixel list, all runs fit, and a complete
  rectangle is dropped or has one pixel per point.\<close>

theorem zrle_decode_safe:
  assumes "rect_bounds r off" and "off + 4 + unat (rd32be buf off) < 2 ^ 31"
    and "length (fst (z_inflate zl z (mid_int buf (off + 4) (toInt32 (rd32be buf off))))) \<le> 2 ^ 22"
  shows "\<exists>d z'. decodeZRLERect zl r buf off z = ok (d, z') \<and>
    (complete d \<longrightarrow> (pixels d = [] \<or> length (pixels d) = unat (rwidth r) * unat (rheight r)) \<and>
      0 \<le> consumed d \<and> int off + consumed d \<le> int (max off (length buf)))"
proof -
  define len where "len = toInt32 (rd32be buf off)"
  define data where "data = z_inflate zl z (mid_int buf (off + 4) len)"
  have "len = int (unat (rd32be buf off))" using assms(2) by (simp add: len_def toInt32_small)
  moreover have "int (off + 4 + unat (rd32be buf off)) < int (2 ^ 31)" using assms(2) by (simp only: of_nat_less_iff)
  ultimately have len: "0 \<le> len" "int off + 4 + len < 2 ^ 31" by simp_all
  have i: "intOp (int off + 4 + len) = ok (int off + 4 + len)" "intOp (4 + len) = ok (4 + len)"
    using len by (simp_all add: intOp_def fitsInt_def)
  note b = rect_bounds_int(1) [OF assms(1)]
  define w where "w = unat (rwidth r)"
  define h where "h = unat (rheight r)"
  have small: "length (fst data) \<le> 2 ^ 22" using assms(3) by (simp add: data_def len_def)
  have tiles: "okP (foldF (zrle_tile w h (fst data)) (tiles 64 w h)
      \<lparr>zt = \<lparr>tp = 0, tbad = False\<rparr>, zpix = replicate (nat (int w * int h)) 0xFF000000\<rparr>) (zlen w h)"
    by (rule okP_foldF) (simp_all add: nat_mult_distrib okP_zrle_tile [OF small])
  have "okP (decodeZRLERect zl r buf off z) (\<lambda>(d, z'). complete d \<longrightarrow>
      (pixels d = [] \<or> length (pixels d) = w * h) \<and> 0 \<le> consumed d \<and> int off + consumed d \<le> int (max off (length buf)))"
    unfolding decodeZRLERect_def Let_def split_def len_def [symmetric] data_def [symmetric] i bindF.simps b
      w_def [symmetric] h_def [symmetric] b [folded w_def h_def]
    by (intro okP_if okP_bind [OF tiles]) (use len in \<open>auto simp: no_rect_def\<close>)
  then show ?thesis by (cases "decodeZRLERect zl r buf off z") (auto simp: w_def h_def)
qed

theorem zrle_decode_safe_witness:
  "\<exists>d z'. decodeZRLERect \<lparr>z_inflate = (\<lambda>z x. (drop 1 x, z + 1)), z_failed = (\<lambda>z. False)\<rparr>
       \<lparr>rx = 0, ry = 0, rwidth = 2, rheight = 1, encoding = 16\<rparr> [0, 0, 0, 5, 9, 1, 1, 2, 3] 0 (0 :: nat) = ok (d, z') \<and>
     (complete d \<longrightarrow> (pixels d = [] \<or> length (pixels d) = unat (2 :: u16) * unat (1 :: u16)) \<and>
       0 \<le> consumed d \<and> int 0 + consumed d \<le> int (max 0 (length [0, 0, 0, 5, 9, 1, 1, 2, 3 :: byte])))"
proof -
  define zl :: "nat zlib" where "zl = \<lparr>z_inflate = (\<lambda>z x. (drop 1 x, z + 1)), z_failed = (\<lambda>z. False)\<rparr>"
  define r :: Rectangle where "r = \<lparr>rx = 0, ry = 0, rwidth = 2, rheight = 1, encoding = 16\<rparr>"
  define buf :: bytes where "buf = [0, 0, 0, 5, 9, 1, 1, 2, 3]"
  have l5: "unat (rd32be buf 0) = 5" "toInt32 (rd32be buf 0) = 5"
    unfolding buf_def by code_simp+
  have m: "length (fst (z_inflate zl 0 (mid_int buf (0 + 4) (toInt32 (rd32be buf 0))))) \<le> 2 ^ 22"
    unfolding l5 by (simp add: zl_def buf_def mid_int_def)
  have l: "0 + 4 + unat (rd32be buf 0) < 2 ^ 31" unfolding l5 by simp
  have r: "rect_bounds r 0" by (simp add: r_def rect_bounds_def)
  show ?thesis
    using zrle_decode_safe [OF r l m]
    unfolding zl_def r_def buf_def by simp
qed

end
