(* ===== verification/Screen.thy ===== *)
theory Screen
  imports Qt_Core Checked
begin

text \<open>
  \<open>src/src/term/ScreenBuffer\<close>: the cell grid of a terminal and its rendering as text. A cell holds
  a whole code point; text is UTF-16, as in \<open>QString\<close>, so code points above \<open>0xFFFF\<close> become two
  units. Sizes are \<open>int\<close>; the product of \<open>resize\<close> is checked for overflow.
\<close>

datatype CellColor = Default | Ansi | Rgb

record Cell =
  ch :: u32
  fgKind :: CellColor
  bgKind :: CellColor
  fgIndex :: byte
  bgIndex :: byte
  fgRgb :: u32
  bgRgb :: u32
  bold :: bool
  reverse :: bool
  wide :: bool

definition blank_cell :: Cell where
  "blank_cell = \<lparr>ch = 32, fgKind = Default, bgKind = Default, fgIndex = 7, bgIndex = 0, fgRgb = 0,
     bgRgb = 0, bold = False, reverse = False, wide = False\<rparr>"

type_synonym text16 = "u16 list"

definition appendCodePoint :: "text16 \<Rightarrow> u32 \<Rightarrow> text16" where
  "appendCodePoint s cp =
     (if 0x10000 \<le> cp
      then s @ [ucast (drop_bit 10 cp) + 0xD7C0] @ [ucast (cp mod 0x400) + 0xDC00]
      else s @ [ucast cp])"

definition codePointString :: "u32 \<Rightarrow> text16" where
  "codePointString cp = appendCodePoint [] cp"

definition cellUnit :: "u32 \<Rightarrow> u16" where
  "cellUnit cp = (if cp \<le> 0xFFFF then ucast cp else 0xFFFD)"

record ScreenBuffer =
  m_rows :: nat
  m_cols :: nat
  m_cells :: "Cell list"

definition at_least_1 :: "int \<Rightarrow> int" where
  "at_least_1 n = (if 0 < n then n else 1)"

definition screen_resize :: "int \<Rightarrow> int \<Rightarrow> fault + ScreenBuffer" where
  "screen_resize rows cols =
     bindF (intOp (at_least_1 rows * at_least_1 cols)) (\<lambda>n.
       ok \<lparr>m_rows = nat (at_least_1 rows), m_cols = nat (at_least_1 cols), m_cells = replicate (nat n) blank_cell\<rparr>)"

definition screen_clear :: "ScreenBuffer \<Rightarrow> ScreenBuffer" where
  "screen_clear s = s\<lparr>m_cells := map (\<lambda>_. blank_cell) (m_cells s)\<rparr>"

definition screen_at :: "ScreenBuffer \<Rightarrow> nat \<Rightarrow> nat \<Rightarrow> fault + Cell" where
  "screen_at s r c = nthF (m_cells s) (r * m_cols s + c)"

definition screen_put :: "nat \<Rightarrow> nat \<Rightarrow> Cell \<Rightarrow> ScreenBuffer \<Rightarrow> fault + ScreenBuffer" where
  "screen_put r c v s = bindF (updF (m_cells s) (r * m_cols s + c) v) (\<lambda>cs. ok (s\<lparr>m_cells := cs\<rparr>))"

definition chop_trailing :: "('a \<Rightarrow> bool) \<Rightarrow> 'a list \<Rightarrow> 'a list" where
  "chop_trailing p xs = rev (dropWhile p (rev xs))"

definition rowText :: "ScreenBuffer \<Rightarrow> int \<Rightarrow> fault + text16" where
  "rowText s r =
     (if r < 0 \<or> int (m_rows s) \<le> r then ok []
      else bindF (foldF (\<lambda>c line. bindF (screen_at s (nat r) c) (\<lambda>cell. ok (appendCodePoint line (ch cell))))
             [0..<m_cols s] [])
           (\<lambda>line. ok (chop_trailing (\<lambda>u. u = 32) line)))"

definition toText :: "ScreenBuffer \<Rightarrow> fault + text16" where
  "toText s =
     bindF (foldF (\<lambda>r ls. bindF (rowText s (int r)) (\<lambda>l. ok (ls @ [l]))) [0..<m_rows s] [])
       (\<lambda>ls. ok (join_with [10] (chop_trailing (\<lambda>l. l = []) ls)))"

section \<open>The grid invariant\<close>

definition screen_ok :: "ScreenBuffer \<Rightarrow> bool" where
  "screen_ok s \<longleftrightarrow> 0 < m_rows s \<and> 0 < m_cols s \<and> length (m_cells s) = m_rows s * m_cols s"

lemma screen_index: "screen_ok s \<Longrightarrow> r < m_rows s \<Longrightarrow> c < m_cols s \<Longrightarrow> r * m_cols s + c < length (m_cells s)"
  using grid_index [of c "m_cols s" r "m_rows s"] by (simp add: screen_ok_def mult.commute)

lemma okP_screen_resize:
  "fitsInt (at_least_1 rows * at_least_1 cols) \<Longrightarrow>
    okP (screen_resize rows cols)
      (\<lambda>s. screen_ok s \<and> m_rows s = nat (at_least_1 rows) \<and> m_cols s = nat (at_least_1 cols))"
  by (simp add: screen_resize_def intOp_ok screen_ok_def at_least_1_def nat_mult_distrib)

lemma screen_ok_clear: "screen_ok s \<Longrightarrow> screen_ok (screen_clear s)"
  by (simp add: screen_ok_def screen_clear_def)

lemma okP_screen_put:
  "screen_ok s \<Longrightarrow> r < m_rows s \<Longrightarrow> c < m_cols s \<Longrightarrow>
    okP (screen_put r c v s) (\<lambda>s'. screen_ok s' \<and> m_rows s' = m_rows s \<and> m_cols s' = m_cols s)"
  using screen_index [of s r c] by (simp add: screen_put_def updF_def screen_ok_def)

lemma okP_rowText: "screen_ok s \<Longrightarrow> okP (rowText s r) (\<lambda>_. True)"
  unfolding rowText_def
  by (intro okP_if okP_bind [where P = "\<lambda>_. True"] okP_foldF)
    (auto simp: screen_at_def intro!: okP_bind [where P = "\<lambda>_. True"] okP_nth screen_index)

lemma okP_toText: "screen_ok s \<Longrightarrow> okP (toText s) (\<lambda>_. True)"
  unfolding toText_def
  by (intro okP_bind [where P = "\<lambda>_. True"] okP_foldF)
    (auto intro!: okP_bind [where P = "\<lambda>_. True"] okP_rowText)

end
