(* ===== verification/Vt_Scan.thy ===== *)
theory Vt_Scan
  imports Stream_Scan Host
begin

text \<open>
  The two scanners of \<open>src/src/term/VtEngine.cpp\<close> that read the raw stream beside libvterm:
  \<open>scanOsc\<close> for the working directory (\<open>OSC 7\<close>) and \<open>scanPrivateModes\<close> for the private modes
  (bracketed paste, mouse tracking and encoding). Both keep their state between calls, so that a
  sequence may be cut anywhere; both are interpretations of \<open>chunked_scanner\<close>. The second half
  is the grammar of the streams the mode scanner is made for and what it makes of them.
\<close>

section \<open>OSC 7\<close>

record osc_scan =
  m_oscState :: nat
  m_oscBuf :: bytes

text \<open>The payload of an \<open>OSC 7\<close>; \<open>url_path\<close> is \<open>QUrl::path\<close>.\<close>

definition osc_cwd :: "host \<Rightarrow> (string \<Rightarrow> string) \<Rightarrow> bytes \<Rightarrow> string list" where
  "osc_cwd h url_path buf =
     (case index_of 59 buf of
        None \<Rightarrow> []
      | Some semi \<Rightarrow>
          if 0 < semi \<and> take semi buf = [55]
          then let path = url_path (fromUtf8 h (drop (Suc semi) buf)) in if path \<noteq> [] then [path] else []
          else [])"

definition osc_byte :: "host \<Rightarrow> (string \<Rightarrow> string) \<Rightarrow> osc_scan \<times> string list \<Rightarrow> byte \<Rightarrow> osc_scan \<times> string list" where
  "osc_byte h url_path = (\<lambda>(s, out) b.
     if m_oscState s = 0 then (if b = 0x1b then s\<lparr>m_oscState := 1\<rparr> else s, out)
     else if m_oscState s = 1 then
       (if b = 0x5d then s\<lparr>m_oscState := 2, m_oscBuf := []\<rparr> else s\<lparr>m_oscState := 0\<rparr>, out)
     else if m_oscState s = 2 then
       (if b = 0x07 \<or> b = 0x1b
        then (s\<lparr>m_oscBuf := [], m_oscState := if b = 0x1b then 1 else 0\<rparr>, out @ osc_cwd h url_path (m_oscBuf s))
        else (if length (m_oscBuf s) < 4096 then s\<lparr>m_oscBuf := m_oscBuf s @ [b]\<rparr> else s, out))
     else (s, out))"

definition scanOsc :: "host \<Rightarrow> (string \<Rightarrow> string) \<Rightarrow> osc_scan \<Rightarrow> bytes \<Rightarrow> osc_scan \<times> string list" where
  "scanOsc h url_path s bs = foldl (osc_byte h url_path) (s, []) bs"

lemma osc_byte_acc:
  "osc_byte h u (s, acc) b = (fst (osc_byte h u (s, []) b), acc @ snd (osc_byte h u (s, []) b))"
  by (simp add: osc_byte_def)

lemma scanOsc_append:
  "scanOsc h u s (xs @ ys) = (let (s1, o1) = scanOsc h u s xs; (s2, o2) = scanOsc h u s1 ys in (s2, o1 @ o2))"
proof -
  have "foldl (osc_byte h u) (s', acc) bs = (fst (scanOsc h u s' bs), acc @ snd (scanOsc h u s' bs))" for s' acc bs
    unfolding scanOsc_def
    by (rule foldl_scan_append [where nil = "[]" and cat = "(@)"]) (rule osc_byte_acc, simp_all)
  moreover have "scanOsc h u s (xs @ ys) = foldl (osc_byte h u) (scanOsc h u s xs) ys"
    by (simp add: scanOsc_def)
  ultimately show ?thesis by (metis (no_types, lifting) case_prod_beta' prod.collapse)
qed

interpretation osc: chunked_scanner "(@)" "[]" "scanOsc h u" for h u
  by unfold_locales (simp_all add: scanOsc_append, simp add: scanOsc_def)

section \<open>Private modes\<close>

datatype MouseTracking = TrackNone | X10 | Normal | ButtonEvent | AnyMotion
datatype MouseEncoding = EncDefault | Utf8 | Sgr | Urxvt

record vt_modes =
  m_bracketedPaste :: bool
  m_mouseTracking :: MouseTracking
  m_mouseEncoding :: MouseEncoding

record csi_scan =
  m_csiState :: nat
  m_csiParams :: bytes
  m_modes :: vt_modes

definition set_mode :: "bool \<Rightarrow> vt_modes \<Rightarrow> int \<Rightarrow> vt_modes" where
  "set_mode set_it m mode =
     (if mode = 2004 then m\<lparr>m_bracketedPaste := set_it\<rparr>
      else if mode = 9 then m\<lparr>m_mouseTracking := if set_it then X10 else TrackNone\<rparr>
      else if mode = 1000 then m\<lparr>m_mouseTracking := if set_it then Normal else TrackNone\<rparr>
      else if mode = 1002 then m\<lparr>m_mouseTracking := if set_it then ButtonEvent else TrackNone\<rparr>
      else if mode = 1003 then m\<lparr>m_mouseTracking := if set_it then AnyMotion else TrackNone\<rparr>
      else if mode = 1005 then m\<lparr>m_mouseEncoding := if set_it then Utf8 else EncDefault\<rparr>
      else if mode = 1006 then m\<lparr>m_mouseEncoding := if set_it then Sgr else EncDefault\<rparr>
      else if mode = 1015 then m\<lparr>m_mouseEncoding := if set_it then Urxvt else EncDefault\<rparr>
      else m)"

definition apply_params :: "bool \<Rightarrow> bytes \<Rightarrow> vt_modes \<Rightarrow> vt_modes" where
  "apply_params set_it params m =
     foldl (\<lambda>m p. set_mode set_it m (to_int0 (from_latin1 p))) m (split_on 59 params)"

definition csi_byte :: "csi_scan \<Rightarrow> byte \<Rightarrow> csi_scan" where
  "csi_byte s b =
     (if m_csiState s = 0 then if b = 0x1b then s\<lparr>m_csiState := 1\<rparr> else s
      else if m_csiState s = 1 then s\<lparr>m_csiState := if b = 0x5b then 2 else 0\<rparr>
      else if m_csiState s = 2 then
        if b = 0x3f then s\<lparr>m_csiState := 3, m_csiParams := []\<rparr> else s\<lparr>m_csiState := 0\<rparr>
      else if m_csiState s = 3 then
        if b = 0x68 \<or> b = 0x6c
        then s\<lparr>m_modes := apply_params (b = 0x68) (m_csiParams s) (m_modes s), m_csiState := 0\<rparr>
        else if (0x30 \<le> b \<and> b \<le> 0x39) \<or> b = 0x3b
        then (if length (m_csiParams s) < 64 then s\<lparr>m_csiParams := m_csiParams s @ [b]\<rparr> else s)
        else if b = 0x1b then s\<lparr>m_csiState := 1\<rparr>
        else s\<lparr>m_csiState := 0\<rparr>
      else s)"

definition scanPrivateModes :: "csi_scan \<Rightarrow> bytes \<Rightarrow> csi_scan" where
  "scanPrivateModes s bs = foldl csi_byte s bs"

lemma scanPrivateModes_simps [simp]:
  "scanPrivateModes s [] = s"
  "scanPrivateModes s (b # bs) = scanPrivateModes (csi_byte s b) bs"
  "scanPrivateModes s (xs @ ys) = scanPrivateModes (scanPrivateModes s xs) ys"
  by (simp_all add: scanPrivateModes_def)

interpretation csi: chunked_scanner "\<lambda>_ _. ()" "()" "\<lambda>s bs. (scanPrivateModes s bs, ())"
  by unfold_locales simp_all

section \<open>Streams with mode changes\<close>

text \<open>
  What arrives from the far end, as far as this scanner is concerned: bytes other than
  \<open>ESC\<close>, two-byte escapes, control sequences that are not private, and private sequences: a
  list of mode numbers with a final byte. \<open>h\<close> sets the modes, \<open>l\<close> resets them, any other
  final byte is not about modes.
\<close>

datatype vt_item = Plain byte | Escape byte | Control byte | Private "nat list" byte

definition mode_params :: "nat list \<Rightarrow> bytes" where
  "mode_params ms = join_with [59] (map (\<lambda>m. to_latin1 (dec_of_nat m)) ms)"

fun item_bytes :: "vt_item \<Rightarrow> bytes" where
  "item_bytes (Plain b) = [b]"
| "item_bytes (Escape b) = [0x1b, b]"
| "item_bytes (Control b) = [0x1b, 0x5b, b]"
| "item_bytes (Private ms b) = [0x1b, 0x5b, 0x3f] @ mode_params ms @ [b]"

fun item_ok :: "vt_item \<Rightarrow> bool" where
  "item_ok (Plain b) \<longleftrightarrow> b \<noteq> 0x1b"
| "item_ok (Escape b) \<longleftrightarrow> b \<noteq> 0x5b"
| "item_ok (Control b) \<longleftrightarrow> b \<noteq> 0x3f"
| "item_ok (Private ms b) \<longleftrightarrow>
     ms \<noteq> [] \<and> length (mode_params ms) \<le> 64 \<and> \<not> (0x30 \<le> b \<and> b \<le> 0x39) \<and> b \<noteq> 0x3b \<and> b \<noteq> 0x1b"

fun item_modes :: "vt_modes \<Rightarrow> vt_item \<Rightarrow> vt_modes" where
  "item_modes m (Private ms b) =
     (if b = 0x68 then foldl (\<lambda>m n. set_mode True m (int n)) m ms
      else if b = 0x6c then foldl (\<lambda>m n. set_mode False m (int n)) m ms
      else m)"
| "item_modes m _ = m"

lemma byte_of_digit:
  assumes "is_digit c"
  shows "0x30 \<le> byte_of_char c \<and> byte_of_char c \<le> 0x39"
proof -
  let ?n = "of_char c :: nat"
  have n: "48 \<le> ?n" "?n \<le> 57" using assms by (simp_all add: is_digit_def Let_def)
  then have "unat (byte_of_char c) = ?n" by (simp add: byte_of_char_def unat_of_nat_small)
  with n show ?thesis by (simp add: word_le_nat_alt)
qed

lemma mode_params_digits: "b \<in> set (mode_params ms) \<Longrightarrow> (0x30 \<le> b \<and> b \<le> 0x39) \<or> b = 0x3b"
  unfolding mode_params_def
  by (induction ms rule: induct_list012) (auto dest!: dec_of_nat_digits byte_of_digit)

lemma split_mode_params: "ms \<noteq> [] \<Longrightarrow> split_on 59 (mode_params ms) = map (\<lambda>m. to_latin1 (dec_of_nat m)) ms"
  unfolding mode_params_def
  by (rule split_join) (auto dest!: dec_of_nat_digits byte_of_digit)

text \<open>A number too large for \<open>int\<close> reads as 0, which is no mode either.\<close>

lemma set_mode_read: "set_mode v m (to_int0 (dec_of_nat n)) = set_mode v m (int n)"
proof (cases "int n < 2 ^ 31")
  case True
  then show ?thesis by (simp add: to_int0_def to_int_dec_of_nat)
next
  case False
  obtain c cs where d: "dec_of_nat n = c # cs" by (meson dec_of_nat_nonempty neq_Nil_conv)
  then have "is_digit c" by (metis dec_of_nat_digits list.set_intros(1))
  then have "c \<noteq> CHR ''-''" "c \<noteq> CHR ''+''" by (auto simp: is_digit_def)
  then have "to_int (dec_of_nat n) = None"
    using False d nat_of_dec_dec [of n] trimmed_dec [of n] by (simp add: to_int_def fitsInt_def)
  with False show ?thesis by (simp add: to_int0_def set_mode_def)
qed

lemma apply_mode_params:
  "ms \<noteq> [] \<Longrightarrow> apply_params v (mode_params ms) m = foldl (\<lambda>m n. set_mode v m (int n)) m ms"
proof -
  have "foldl (\<lambda>m p. set_mode v m (to_int0 (from_latin1 p))) m (map (\<lambda>m. to_latin1 (dec_of_nat m)) ms) =
      foldl (\<lambda>m n. set_mode v m (int n)) m ms" for m
    by (induction ms arbitrary: m) (simp_all add: set_mode_read del: map_map)
  then show "ms \<noteq> [] \<Longrightarrow> ?thesis" by (simp add: apply_params_def split_mode_params)
qed

lemma scan_params:
  assumes "m_csiState s = 3" and "\<forall>b \<in> set ps. (0x30 \<le> b \<and> b \<le> 0x39) \<or> b = 0x3b"
    and "length (m_csiParams s) + length ps \<le> 64"
  shows "scanPrivateModes s ps = s\<lparr>m_csiParams := m_csiParams s @ ps\<rparr>"
  using assms
proof (induction ps arbitrary: s)
  case (Cons b ps)
  have "b \<noteq> 0x68 \<and> b \<noteq> 0x6c" using Cons.prems(2) by auto
  then have "csi_byte s b = s\<lparr>m_csiParams := m_csiParams s @ [b]\<rparr>"
    using Cons.prems by (simp add: csi_byte_def)
  then show ?case using Cons.prems Cons.IH [of "s\<lparr>m_csiParams := m_csiParams s @ [b]\<rparr>"] by simp
qed simp

text \<open>Every item is read from the idle state back into it, whatever the last parameters were.\<close>

lemma scan_item:
  assumes "item_ok i" and "m_csiState s = 0"
  shows "m_csiState (scanPrivateModes s (item_bytes i)) = 0 \<and>
    m_modes (scanPrivateModes s (item_bytes i)) = item_modes (m_modes s) i"
proof (cases i)
  case (Private ms b)
  let ?s = "s\<lparr>m_csiState := 3, m_csiParams := []\<rparr>"
  have "scanPrivateModes s [0x1b, 0x5b, 0x3f] = ?s"
    using assms(2) by (simp add: csi_byte_def)
  then have "scanPrivateModes s (item_bytes i) = csi_byte (scanPrivateModes ?s (mode_params ms)) b"
    by (simp add: Private)
  also have "scanPrivateModes ?s (mode_params ms) = ?s\<lparr>m_csiParams := mode_params ms\<rparr>"
    using assms(1) by (subst scan_params) (simp_all add: Private mode_params_digits)
  finally have scan: "scanPrivateModes s (item_bytes i) = csi_byte (?s\<lparr>m_csiParams := mode_params ms\<rparr>) b" .
  have "ms \<noteq> []" "\<not> (0x30 \<le> b \<and> b \<le> 0x39)" "b \<noteq> 0x3b" "b \<noteq> 0x1b" using assms(1) by (simp_all add: Private)
  then have "csi_byte (?s\<lparr>m_csiParams := mode_params ms\<rparr>) b =
      ?s\<lparr>m_csiParams := mode_params ms, m_csiState := 0, m_modes := item_modes (m_modes s) i\<rparr>"
    by (cases "b = 0x68"; cases "b = 0x6c") (simp_all add: Private csi_byte_def apply_mode_params)
  then show ?thesis by (simp add: scan)
next
  case (Plain b)
  with assms show ?thesis by (simp add: csi_byte_def)
next
  case (Escape b)
  with assms show ?thesis by (simp add: csi_byte_def)
next
  case (Control b)
  with assms have "b \<noteq> 0x3f" by simp
  with assms(2) show ?thesis by (simp add: Control csi_byte_def)
qed

lemma scan_items:
  assumes "list_all item_ok is" and "m_csiState s = 0"
  shows "m_csiState (scanPrivateModes s (concat (map item_bytes is))) = 0 \<and>
    m_modes (scanPrivateModes s (concat (map item_bytes is))) = foldl item_modes (m_modes s) is"
  using assms
proof (induction "is" arbitrary: s)
  case (Cons i "is")
  then show ?case using scan_item [of i s] Cons.IH [of "scanPrivateModes s (item_bytes i)"] by simp
qed simp

section \<open>Properties\<close>

text \<open>The mode scanner follows the stream however it is cut: fed any chunks of a stream of
  items, it is idle at the end and the modes are those that the private sequences, in order,
  set and reset.\<close>

theorem vt_modes_any_chunking:
  assumes "list_all item_ok is" and "m_csiState s = 0" and "concat chunks = concat (map item_bytes is)"
  shows "m_csiState (foldl scanPrivateModes s chunks) = 0 \<and>
    m_modes (foldl scanPrivateModes s chunks) = foldl item_modes (m_modes s) is"
proof -
  have "foldl scanPrivateModes s chunks = scanPrivateModes s (concat chunks)"
    by (induction chunks arbitrary: s) simp_all
  then show ?thesis using scan_items [OF assms(1,2)] by (simp only: assms(3))
qed

theorem vt_modes_any_chunking_witness:
  "m_mouseTracking (m_modes (foldl scanPrivateModes
     \<lparr>m_csiState = 0, m_csiParams = [], m_modes = \<lparr>m_bracketedPaste = False, m_mouseTracking = TrackNone, m_mouseEncoding = EncDefault\<rparr>\<rparr>
     [[0x41, 0x1b], [0x5b, 0x3f, 0x31, 0x30], [0x30, 0x32, 0x3b, 0x32, 0x30, 0x30, 0x34, 0x68]])) = ButtonEvent"
proof -
  have items: "list_all item_ok [Plain 0x41, Private [1002, 2004] 0x68]"
    "concat [[0x41, 0x1b], [0x5b, 0x3f, 0x31, 0x30], [0x30, 0x32, 0x3b, 0x32, 0x30, 0x30, 0x34, 0x68]] =
       concat (map item_bytes [Plain 0x41, Private [1002, 2004] 0x68])"
    by code_simp+
  show ?thesis
    using vt_modes_any_chunking [OF items(1) _ items(2),
        of "\<lparr>m_csiState = 0, m_csiParams = [], m_modes = \<lparr>m_bracketedPaste = False, m_mouseTracking = TrackNone, m_mouseEncoding = EncDefault\<rparr>\<rparr>"]
    by (simp add: set_mode_def)
qed

end
