(* ===== verification/Vt_Engine.thy ===== *)
theory Vt_Engine
  imports Screen Vt_Scan
begin

text \<open>
  \<open>src/src/term/VtEngine\<close>: the emulator around libvterm. The library is a parameter: a state
  \<open>'v\<close>, and calls that run as a sequence of callbacks (output to send, a line scrolled off, a
  line wanted back, a new title) before they return the new state, which is the datatype
  \<open>vt_act\<close>; a theorem about the engine holds for whatever the library calls. The engine's own
  state is the grid, the scrollback with its soft-wrap flags, the pending output and the two
  scanners. Signals are the list a call returns.
\<close>

section \<open>The interface to libvterm\<close>

text \<open>A colour as the library's macros classify it, and the cell fields that are read.\<close>

datatype VTermColor = DefaultColor | Indexed byte | TrueColor byte byte byte

record VTermScreenCell =
  chars0 :: u32
  vwidth :: int
  vbold :: bool
  vreverse :: bool
  vfg :: VTermColor
  vbg :: VTermColor

datatype 'v vt_act =
    VtReturn 'v
  | VtOutput bytes "'v vt_act"
  | VtPushline "VTermScreenCell list" "'v vt_act"
  | VtPopline nat "(u32 \<times> int) list option \<Rightarrow> 'v vt_act"
  | VtTitle bytes "'v vt_act"

record 'v vterm =
  vterm_input_write :: "'v \<Rightarrow> bytes \<Rightarrow> 'v vt_act"
  vterm_set_size :: "'v \<Rightarrow> int \<Rightarrow> int \<Rightarrow> 'v vt_act"
  vterm_screen_reset :: "'v \<Rightarrow> 'v vt_act"
  vterm_screen_get_cell :: "'v \<Rightarrow> nat \<Rightarrow> nat \<Rightarrow> VTermScreenCell option"
  vterm_get_cursorpos :: "'v \<Rightarrow> int \<times> int"

section \<open>Colours and cells\<close>

definition cube_level :: "nat \<Rightarrow> u32" where
  "cube_level i = [0, 95, 135, 175, 215, 255] ! i"

definition palette_rgb :: "u32 \<Rightarrow> u32" where
  "palette_rgb idx =
     (let (r, g, b) =
        (if idx < 232
         then let c = unat (idx - 16) in (cube_level (c div 36 mod 6), cube_level (c div 6 mod 6), cube_level (c mod 6))
         else let v = 8 + 10 * (idx - 232) in (v, v, v))
      in push_bit 16 r OR push_bit 8 g OR b)"

definition mapColor :: "VTermColor \<Rightarrow> CellColor \<times> byte \<times> u32 \<Rightarrow> CellColor \<times> byte \<times> u32" where
  "mapColor col = (\<lambda>(kind, index, rgb).
     (case col of
        DefaultColor \<Rightarrow> (Default, index, rgb)
      | Indexed idx \<Rightarrow> if idx < 16 then (Ansi, idx, rgb) else (Rgb, index, palette_rgb (ucast idx))
      | TrueColor r g b \<Rightarrow> (Rgb, index, push_bit 16 (ucast r) OR push_bit 8 (ucast g) OR ucast b)))"

text \<open>\<open>(uint32_t)-1\<close> marks the right half of a wide glyph.\<close>

definition is_glyph :: "u32 \<Rightarrow> bool" where
  "is_glyph cp \<longleftrightarrow> cp \<noteq> 0 \<and> cp \<noteq> - 1"

definition set_attrs :: "VTermScreenCell \<Rightarrow> Cell \<Rightarrow> Cell" where
  "set_attrs vc cell =
     (let (fk, fi, fr) = mapColor (vfg vc) (fgKind cell, fgIndex cell, fgRgb cell);
          (bk, bi, br) = mapColor (vbg vc) (bgKind cell, bgIndex cell, bgRgb cell)
      in cell\<lparr>bold := vbold vc, reverse := vreverse vc, wide := (vwidth vc = 2),
              fgKind := fk, fgIndex := fi, fgRgb := fr, bgKind := bk, bgIndex := bi, bgRgb := br\<rparr>)"

definition pushed_cell :: "VTermScreenCell \<Rightarrow> Cell" where
  "pushed_cell vc =
     set_attrs vc (if is_glyph (chars0 vc) then blank_cell\<lparr>ch := chars0 vc\<rparr> else blank_cell)"

definition synced_cell :: "VTermScreenCell option \<Rightarrow> Cell" where
  "synced_cell r =
     (case r of
        None \<Rightarrow> blank_cell
      | Some vc \<Rightarrow> if is_glyph (chars0 vc) then set_attrs vc (blank_cell\<lparr>ch := chars0 vc\<rparr>) else blank_cell)"

definition isBlank :: "Cell \<Rightarrow> bool" where
  "isBlank c \<longleftrightarrow> ch c = 0 \<or> ch c = 32"

section \<open>The engine\<close>

datatype signal = OutputReady bytes | ScreenUpdated | TitleChanged string | CwdChanged string

record 'v VtEngine =
  m_vt :: 'v
  m_screen :: ScreenBuffer
  m_cursor :: "int \<times> int"
  m_pendingOutput :: bytes
  m_scrollback :: "Cell list list"
  m_sbWrapped :: "bool list"
  m_scrollbackMax :: nat
  m_osc :: osc_scan
  m_csi :: csi_scan

text \<open>The loop that drops the oldest lines while there are too many.\<close>

function trim_oldest :: "nat \<Rightarrow> 'a list \<times> 'b list \<Rightarrow> 'a list \<times> 'b list" where
  "trim_oldest n (ls, ws) = (if n < length ls then trim_oldest n (tl ls, tl ws) else (ls, ws))"
  by pat_completeness auto
termination by (relation "measure (\<lambda>(n, ls, ws). length ls)") auto

declare trim_oldest.simps [simp del]

definition set_scrollback :: "Cell list list \<times> bool list \<Rightarrow> 'v VtEngine \<Rightarrow> 'v VtEngine" where
  "set_scrollback = (\<lambda>(ls, ws) s. s\<lparr>m_scrollback := ls, m_sbWrapped := ws\<rparr>)"

definition setScrollbackMax :: "int \<Rightarrow> 'v VtEngine \<Rightarrow> 'v VtEngine" where
  "setScrollbackMax lines s =
     (let n = nat (if lines < 0 then 0 else lines)
      in set_scrollback (trim_oldest n (m_scrollback s, m_sbWrapped s)) (s\<lparr>m_scrollbackMax := n\<rparr>))"

definition clearScrollback :: "'v VtEngine \<Rightarrow> 'v VtEngine" where
  "clearScrollback s = s\<lparr>m_scrollback := [], m_sbWrapped := []\<rparr>"

definition soft_wrapped :: "Cell list \<Rightarrow> bool" where
  "soft_wrapped line \<longleftrightarrow> line \<noteq> [] \<and> \<not> isBlank (last line)"

definition vt_sb_pushline :: "VTermScreenCell list \<Rightarrow> 'v VtEngine \<Rightarrow> 'v VtEngine" where
  "vt_sb_pushline cells s =
     (let line = map pushed_cell cells
      in set_scrollback
           (trim_oldest (m_scrollbackMax s) (m_scrollback s @ [line], m_sbWrapped s @ [soft_wrapped line])) s)"

definition vt_sb_popline :: "nat \<Rightarrow> 'v VtEngine \<Rightarrow> (u32 \<times> int) list option \<times> 'v VtEngine" where
  "vt_sb_popline cols s =
     (if m_scrollback s = [] then (None, s)
      else let line = last (m_scrollback s)
           in (Some (map (\<lambda>c. (if c < length line then ch (line ! c) else 0,
                               if c < length line \<and> wide (line ! c) then 2 else 1)) [0..<cols]),
               set_scrollback (butlast (m_scrollback s), butlast (m_sbWrapped s)) s))"

text \<open>A library call with its callbacks.\<close>

primrec run_vt :: "host \<Rightarrow> 'v vt_act \<Rightarrow> 'v VtEngine \<Rightarrow> signal list \<times> 'v VtEngine" where
  "run_vt h (VtReturn v) s = ([], s\<lparr>m_vt := v\<rparr>)"
| "run_vt h (VtOutput out k) s = run_vt h k (s\<lparr>m_pendingOutput := m_pendingOutput s @ out\<rparr>)"
| "run_vt h (VtPushline cells k) s = run_vt h k (vt_sb_pushline cells s)"
| "run_vt h (VtPopline cols k) s = (let (r, s) = vt_sb_popline cols s in run_vt h (k r) s)"
| "run_vt h (VtTitle t k) s = (let (sigs, s) = run_vt h k s in (TitleChanged (fromUtf8 h t) # sigs, s))"

section \<open>Reflow\<close>

text \<open>Step 1 of \<open>reflowScrollback\<close>: soft-wrapped runs become logical lines, hard line ends lose
  their padding. A flag that is missing counts as hard.\<close>

fun rejoin :: "Cell list list \<Rightarrow> bool list \<Rightarrow> Cell list \<Rightarrow> Cell list list" where
  "rejoin [] ws cur = (if cur = [] then [] else [cur])"
| "rejoin (line # ls) ws cur =
     (let wrapped = (ws \<noteq> [] \<and> hd ws)
      in if wrapped then rejoin ls (tl ws) (cur @ line)
         else (cur @ chop_trailing isBlank line) # rejoin ls (tl ws) [])"

text \<open>Step 2: a logical line is cut into pieces of the new width, all but the last flagged.\<close>

function pieces :: "nat \<Rightarrow> 'a list \<Rightarrow> ('a list \<times> bool) list" where
  "pieces w L = (if w = 0 \<or> L = [] then [] else (take w L, w < length L) # pieces w (drop w L))"
  by pat_completeness auto
termination by (relation "measure (\<lambda>(w, L). length L)") auto

declare pieces.simps [simp del]

definition resplit :: "nat \<Rightarrow> Cell list \<Rightarrow> (Cell list \<times> bool) list" where
  "resplit w L = (if L = [] then [([], False)] else pieces w L)"

definition reflowScrollback :: "int \<Rightarrow> 'v VtEngine \<Rightarrow> 'v VtEngine" where
  "reflowScrollback newCols s =
     (if newCols \<le> 0 \<or> m_scrollback s = [] then s
      else let logical = rejoin (m_scrollback s) (m_sbWrapped s) [];
               out = concat (map (resplit (nat newCols)) logical)
           in set_scrollback (trim_oldest (m_scrollbackMax s) (map fst out, map snd out)) s)"

section \<open>Operations\<close>

definition syncFromVterm :: "'v vterm \<Rightarrow> 'v VtEngine \<Rightarrow> fault + signal list \<times> 'v VtEngine" where
  "syncFromVterm vt s =
     bindF (foldF (\<lambda>r. foldF (\<lambda>c. screen_put r c (synced_cell (vterm_screen_get_cell vt (m_vt s) r c)))
             [0..<m_cols (m_screen s)]) [0..<m_rows (m_screen s)] (m_screen s))
       (\<lambda>scr. ok ([ScreenUpdated], s\<lparr>m_screen := scr, m_cursor := vterm_get_cursorpos vt (m_vt s)\<rparr>))"

definition input :: "host \<Rightarrow> (string \<Rightarrow> string) \<Rightarrow> 'v vterm \<Rightarrow> bytes \<Rightarrow> 'v VtEngine \<Rightarrow> fault + signal list \<times> 'v VtEngine" where
  "input h url_path vt bs s =
     (let (osc, cwds) = scanOsc h url_path (m_osc s) bs;
          s = s\<lparr>m_osc := osc, m_csi := scanPrivateModes (m_csi s) bs\<rparr>;
          (sigs, s) = run_vt h (vterm_input_write vt (m_vt s) bs) s;
          replies = (if m_pendingOutput s \<noteq> [] then [OutputReady (m_pendingOutput s)] else []);
          s = s\<lparr>m_pendingOutput := []\<rparr>
      in bindF (syncFromVterm vt s) (\<lambda>(upd, s). ok (map CwdChanged cwds @ sigs @ replies @ upd, s)))"

definition vt_resize :: "host \<Rightarrow> 'v vterm \<Rightarrow> int \<Rightarrow> int \<Rightarrow> 'v VtEngine \<Rightarrow> fault + signal list \<times> 'v VtEngine" where
  "vt_resize h vt rows cols s =
     (let s = (if cols \<noteq> int (m_cols (m_screen s)) then reflowScrollback cols s else s);
          (sigs, s) = run_vt h (vterm_set_size vt (m_vt s) rows cols) s
      in bindF (screen_resize rows cols) (\<lambda>scr.
         bindF (syncFromVterm vt (s\<lparr>m_screen := scr\<rparr>)) (\<lambda>(upd, s). ok (sigs @ upd, s))))"

definition vt_reset :: "host \<Rightarrow> 'v vterm \<Rightarrow> 'v VtEngine \<Rightarrow> signal list \<times> 'v VtEngine" where
  "vt_reset h vt s =
     (let (sigs, s) = run_vt h (vterm_screen_reset vt (m_vt s)) s
      in (sigs @ [ScreenUpdated], s\<lparr>m_screen := screen_clear (m_screen s)\<rparr>))"

text \<open>The constructor; \<open>v\<close> is the library state after \<open>vterm_new\<close>.\<close>

definition vt_new :: "host \<Rightarrow> 'v vterm \<Rightarrow> int \<Rightarrow> int \<Rightarrow> 'v \<Rightarrow> fault + signal list \<times> 'v VtEngine" where
  "vt_new h vt rows cols v =
     bindF (screen_resize rows cols) (\<lambda>scr.
       ok (run_vt h (vterm_screen_reset vt v)
         \<lparr>m_vt = v, m_screen = scr, m_cursor = (0, 0), m_pendingOutput = [], m_scrollback = [], m_sbWrapped = [],
          m_scrollbackMax = 10000, m_osc = \<lparr>m_oscState = 0, m_oscBuf = []\<rparr>,
          m_csi = \<lparr>m_csiState = 0, m_csiParams = [],
            m_modes = \<lparr>m_bracketedPaste = False, m_mouseTracking = TrackNone, m_mouseEncoding = EncDefault\<rparr>\<rparr>\<rparr>))"

end
