(* ===== verification/Vt_History.thy ===== *)
theory Vt_History
  imports Vt_Engine
begin

text \<open>
  The terminal engine's invariant and the history it keeps. \<open>engine_ok\<close> holds in every state
  the engine reaches, whatever libvterm calls back; reflowing the history is a function of its
  logical lines, so that widths may change in any order.
\<close>

section \<open>The cap on the history\<close>

lemma trim_oldest_drop: "trim_oldest n (ls, ws) = (drop (length ls - n) ls, drop (length ls - n) ws)"
proof (induction n "(ls, ws)" arbitrary: ls ws rule: trim_oldest.induct)
  case (1 n ls ws)
  show ?case
  proof (cases "n < length ls")
    case True
    then have "length ls - n = Suc (length (tl ls) - n)" by simp
    with 1 True show ?thesis by (subst trim_oldest.simps) (simp add: drop_Suc)
  qed (subst trim_oldest.simps, simp)
qed

lemma set_scrollback_simps [simp]:
  "m_scrollback (set_scrollback p s) = fst p" "m_sbWrapped (set_scrollback p s) = snd p"
  "m_scrollbackMax (set_scrollback p s) = m_scrollbackMax s" "m_screen (set_scrollback p s) = m_screen s"
  by (cases p; simp add: set_scrollback_def)+

definition engine_ok :: "'v VtEngine \<Rightarrow> bool" where
  "engine_ok s \<longleftrightarrow> screen_ok (m_screen s) \<and> length (m_sbWrapped s) = length (m_scrollback s) \<and>
     length (m_scrollback s) \<le> m_scrollbackMax s"

lemma engine_ok_trim:
  "screen_ok (m_screen s) \<Longrightarrow> length ws = length ls \<Longrightarrow>
    engine_ok (set_scrollback (trim_oldest (m_scrollbackMax s) (ls, ws)) s)"
  by (simp add: engine_ok_def trim_oldest_drop)

lemma engine_ok_pushline: "engine_ok s \<Longrightarrow> engine_ok (vt_sb_pushline cells s)"
  unfolding vt_sb_pushline_def Let_def by (rule engine_ok_trim) (simp_all add: engine_ok_def)

lemma engine_ok_popline: "engine_ok s \<Longrightarrow> engine_ok (snd (vt_sb_popline cols s))"
  by (auto simp: vt_sb_popline_def engine_ok_def Let_def)

lemma engine_ok_run: "engine_ok s \<Longrightarrow> engine_ok (snd (run_vt h a s))"
proof (induction a arbitrary: s)
  case (VtPopline cols k)
  then show ?case using engine_ok_popline [OF VtPopline.prems, of cols] by (auto simp: split_def Let_def)
qed (simp_all add: engine_ok_pushline split_def Let_def, simp_all add: engine_ok_def)

lemma engine_ok_reflow: "engine_ok s \<Longrightarrow> engine_ok (reflowScrollback w s)"
  by (auto simp: reflowScrollback_def Let_def engine_ok_def trim_oldest_drop)

lemma okP_sync: "engine_ok s \<Longrightarrow> okP (syncFromVterm vt s) (\<lambda>r. engine_ok (snd r))"
proof -
  assume ok: "engine_ok s"
  let ?P = "\<lambda>scr. screen_ok scr \<and> m_rows scr = m_rows (m_screen s) \<and> m_cols scr = m_cols (m_screen s)"
  show ?thesis
    unfolding syncFromVterm_def
    using ok
    by (intro okP_bind [where P = ?P] okP_foldF okP_mono [OF okP_screen_put]) (auto simp: engine_ok_def)
qed

lemma okP_input: "engine_ok s \<Longrightarrow> okP (input h u vt bs s) (\<lambda>r. engine_ok (snd r))"
proof -
  assume ok: "engine_ok s"
  have "engine_ok (snd (run_vt h a (s\<lparr>m_osc := x, m_csi := y\<rparr>)))" for a x y
    using ok by (intro engine_ok_run) (simp add: engine_ok_def)
  then have "engine_ok (snd (run_vt h a (s\<lparr>m_osc := x, m_csi := y\<rparr>))\<lparr>m_pendingOutput := []\<rparr>)" for a x y
    by (simp add: engine_ok_def)
  from okP_sync [OF this] show ?thesis
    unfolding input_def Let_def split_def by (rule okP_bind) simp
qed

lemma okP_resize:
  "engine_ok s \<Longrightarrow> fitsInt (at_least_1 rows * at_least_1 cols) \<Longrightarrow>
    okP (vt_resize h vt rows cols s) (\<lambda>r. engine_ok (snd r))"
proof -
  assume ok: "engine_ok s" and size: "fitsInt (at_least_1 rows * at_least_1 cols)"
  have run: "engine_ok (snd (run_vt h a (if b then reflowScrollback cols s else s)))" for a b
    using ok by (intro engine_ok_run) (simp add: engine_ok_reflow)
  have "engine_ok (snd (run_vt h a (if b then reflowScrollback cols s else s))\<lparr>m_screen := scr\<rparr>)"
    if "screen_ok scr" for a b scr
    using run [of a b] that by (simp add: engine_ok_def)
  then show ?thesis
    unfolding vt_resize_def Let_def split_def
    by (intro okP_bind [OF okP_screen_resize [OF size]] okP_bind [OF okP_sync]) auto
qed

section \<open>Reachable states\<close>

inductive vt_step :: "host \<Rightarrow> (string \<Rightarrow> string) \<Rightarrow> 'v vterm \<Rightarrow> 'v VtEngine \<Rightarrow> 'v VtEngine \<Rightarrow> bool"
  for h u vt where
  step_input: "input h u vt bs s = ok (sigs, s') \<Longrightarrow> vt_step h u vt s s'"
| step_resize: "vt_resize h vt rows cols s = ok (sigs, s') \<Longrightarrow> vt_step h u vt s s'"
| step_reset: "vt_reset h vt s = (sigs, s') \<Longrightarrow> vt_step h u vt s s'"
| step_max: "vt_step h u vt s (setScrollbackMax n s)"
| step_clear: "vt_step h u vt s (clearScrollback s)"

inductive_cases vt_stepE: "vt_step h u vt s s'"

lemma okP_eqD: "okP m P \<Longrightarrow> m = ok a \<Longrightarrow> P a"
  by simp

lemma engine_ok_step: "vt_step h u vt s s' \<Longrightarrow> engine_ok s \<Longrightarrow> engine_ok s'"
proof (induction rule: vt_step.induct)
  case (step_input bs s sigs s')
  then show ?case using okP_eqD [OF okP_input] by fastforce
next
  case (step_resize rows cols s sigs s')
  have "fitsInt (at_least_1 rows * at_least_1 cols)"
    using step_resize.hyps
    by (auto simp: vt_resize_def screen_resize_def intOp_def Let_def split_def split: if_splits)
  then show ?case using step_resize okP_eqD [OF okP_resize] by fastforce
next
  case (step_reset s sigs s')
  then show ?case
    using engine_ok_run [OF step_reset.prems]
    by (fastforce simp: vt_reset_def engine_ok_def split_def Let_def screen_ok_clear)
next
  case (step_max s n)
  then show ?case by (simp add: setScrollbackMax_def engine_ok_def Let_def trim_oldest_drop)
qed (simp add: clearScrollback_def engine_ok_def)

lemma engine_ok_new:
  assumes "vt_new h vt rows cols v = ok (sigs, s)"
  shows "engine_ok s"
proof -
  obtain scr where scr: "screen_resize rows cols = ok scr" "screen_ok scr"
    using assms okP_screen_resize [of rows cols]
    by (cases "screen_resize rows cols") (auto simp: vt_new_def screen_resize_def intOp_def split: if_splits)
  then show ?thesis
    using assms engine_ok_run [of _ h "vterm_screen_reset vt v"] unfolding vt_new_def
    by (smt (verit, del_insts) Inr_inject VtEngine.select_convs(2,5-7) bindF.simps(2) engine_ok_def le0 list.size(3) snd_conv)
qed

section \<open>Logical lines\<close>

definition soft_flags :: "'v VtEngine \<Rightarrow> bool" where
  "soft_flags s \<longleftrightarrow> list_all2 (\<lambda>l w. w \<longrightarrow> soft_wrapped l) (m_scrollback s) (m_sbWrapped s)"

definition full_line :: "Cell list \<Rightarrow> bool" where
  "full_line L \<longleftrightarrow> L = [] \<or> \<not> isBlank (last L)"

lemma full_line_Nil [simp]: "full_line []"
  by (simp add: full_line_def)

lemma chop_trailing_full: "full_line (chop_trailing isBlank L)"
proof -
  have "dropWhile isBlank xs = [] \<or> \<not> isBlank (hd (dropWhile isBlank xs))" for xs
    by (induction xs) auto
  from this [of "rev L"] show ?thesis by (auto simp: full_line_def chop_trailing_def last_rev)
qed

lemma chop_trailing_id: "full_line L \<Longrightarrow> chop_trailing isBlank L = L"
  by (cases L rule: rev_cases) (auto simp: chop_trailing_def full_line_def)

lemma full_line_append: "full_line a \<Longrightarrow> full_line b \<Longrightarrow> full_line (a @ b)"
  by (cases "b = []") (auto simp: full_line_def)

lemma soft_wrapped_full: "soft_wrapped L \<Longrightarrow> full_line L"
  by (simp add: soft_wrapped_def full_line_def)

lemma rejoin_full:
  "list_all2 (\<lambda>l w. w \<longrightarrow> soft_wrapped l) ls ws \<Longrightarrow> full_line cur \<Longrightarrow> list_all full_line (rejoin ls ws cur)"
  by (induction ls ws arbitrary: cur rule: list_all2_induct)
    (auto simp: Let_def chop_trailing_full full_line_append soft_wrapped_full)

lemma rejoin_nonempty:
  "list_all2 (\<lambda>l w. w \<longrightarrow> soft_wrapped l) ls ws \<Longrightarrow> ls \<noteq> [] \<or> cur \<noteq> [] \<Longrightarrow> rejoin ls ws cur \<noteq> []"
  by (induction ls ws arbitrary: cur rule: list_all2_induct) (auto simp: Let_def soft_wrapped_def)

lemma rejoin_pieces:
  assumes "0 < w" and "L \<noteq> []" and "full_line L"
  shows "rejoin (map fst (pieces w L) @ ls) (map snd (pieces w L) @ ws) cur = (cur @ L) # rejoin ls ws []"
  using assms
proof (induction w L arbitrary: cur rule: pieces.induct)
  case (1 w L)
  show ?case
  proof (cases "w < length L")
    case True
    then have "drop w L \<noteq> []" "full_line (drop w L)" using 1 by (auto simp: full_line_def)
    then have "rejoin (map fst (pieces w (drop w L)) @ ls) (map snd (pieces w (drop w L)) @ ws) (cur @ take w L) =
        (cur @ take w L @ drop w L) # rejoin ls ws []"
      using 1 by simp
    then show ?thesis using True 1 by (subst (1 2) pieces.simps) simp
  next
    case False
    then have "pieces w L = [(L, False)]"
      using 1 by (subst pieces.simps) (simp add: pieces.simps [of w "[]"])
    then show ?thesis using 1 by (simp add: chop_trailing_id)
  qed
qed

lemma rejoin_resplit:
  assumes "0 < w" and "list_all full_line Ls"
  shows "rejoin (map fst (concat (map (resplit w) Ls))) (map snd (concat (map (resplit w) Ls))) [] = Ls"
  using assms(2)
  by (induction Ls) (simp_all add: resplit_def rejoin_pieces assms(1) chop_trailing_def)

lemma resplit_nonempty: "0 < w \<Longrightarrow> resplit w L \<noteq> []"
  by (simp add: resplit_def pieces.simps [of w L])

text \<open>The pieces the history is cut into at a width, before the cap.\<close>

definition reflowed :: "nat \<Rightarrow> 'v VtEngine \<Rightarrow> (Cell list \<times> bool) list" where
  "reflowed w s = concat (map (resplit w) (rejoin (m_scrollback s) (m_sbWrapped s) []))"

lemma soft_flags_push: "soft_flags s \<Longrightarrow> soft_flags (vt_sb_pushline cells s)"
proof -
  let ?ls = "m_scrollback s @ [map pushed_cell cells]"
  let ?ws = "m_sbWrapped s @ [soft_wrapped (map pushed_cell cells)]"
  assume "soft_flags s"
  then have "list_all2 (\<lambda>l w. w \<longrightarrow> soft_wrapped l) ?ls ?ws"
    by (auto simp: soft_flags_def intro!: list_all2_appendI)
  then have "list_all2 (\<lambda>l w. w \<longrightarrow> soft_wrapped l) (drop n ?ls) (drop n ?ws)" for n
    by (rule list_all2_dropI)
  then show ?thesis
    by (simp add: vt_sb_pushline_def Let_def trim_oldest_drop soft_flags_def del: drop_append)
qed

lemma soft_flags_pushes: "soft_flags s \<Longrightarrow> soft_flags (fold vt_sb_pushline ls s)"
  by (induction ls arbitrary: s) (simp_all add: soft_flags_push)

lemma reflow_eq:
  "0 < w \<Longrightarrow> m_scrollback s \<noteq> [] \<Longrightarrow> reflowScrollback w s =
    set_scrollback (trim_oldest (m_scrollbackMax s) (map fst (reflowed (nat w) s), map snd (reflowed (nat w) s))) s"
  by (simp add: reflowScrollback_def reflowed_def Let_def)

lemma set_scrollback_twice [simp]: "set_scrollback p (set_scrollback q s) = set_scrollback p s"
  by (cases p; cases q) (simp add: set_scrollback_def)

lemma reflow_reflow:
  assumes "soft_flags s" and "0 < w1" and "0 < w2" and "length (reflowed (nat w1) s) \<le> m_scrollbackMax s"
  shows "reflowScrollback w2 (reflowScrollback w1 s) = reflowScrollback w2 s"
proof (cases "m_scrollback s = []")
  case False
  let ?L = "rejoin (m_scrollback s) (m_sbWrapped s) []"
  let ?s1 = "set_scrollback (map fst (reflowed (nat w1) s), map snd (reflowed (nat w1) s)) s"
  have L: "list_all full_line ?L" "?L \<noteq> []"
    using rejoin_full [OF assms(1) [unfolded soft_flags_def]] rejoin_nonempty [OF assms(1) [unfolded soft_flags_def]] False
    by simp_all
  then have ne: "reflowed (nat w1) s \<noteq> []"
    using assms(2) by (cases ?L) (simp_all add: reflowed_def resplit_nonempty)
  have s1: "reflowScrollback w1 s = ?s1"
    using assms(4) by (simp add: reflow_eq [OF assms(2) False] trim_oldest_drop)
  have "rejoin (m_scrollback ?s1) (m_sbWrapped ?s1) [] = ?L"
    using assms(2) L(1) by (simp add: reflowed_def rejoin_resplit)
  then have "reflowed (nat w2) ?s1 = reflowed (nat w2) s" by (simp only: reflowed_def)
  then show ?thesis
    using ne by (simp add: s1 reflow_eq [OF assms(3)] False)
qed (simp add: reflowScrollback_def)

section \<open>Properties\<close>

text \<open>C31: Whatever libvterm calls back and whatever is sent, resized, reset, capped or cleared,
  the engine stays well formed: the grid has its cells, every kept line its wrap flag, no
  more lines are kept than the cap; and no call of it accesses a cell outside the grid.\<close>

theorem vt_engine_invariant:
  assumes "vt_new h vt rows cols v = ok (sigs, s0)" and "(vt_step h u vt)\<^sup>*\<^sup>* s0 s"
  shows "engine_ok s \<and> isOk (input h u vt bs s) \<and>
    (fitsInt (at_least_1 r * at_least_1 c) \<longrightarrow> isOk (vt_resize h vt r c s))"
proof -
  have "engine_ok s"
    using assms(2) by induction (simp_all add: engine_ok_new [OF assms(1)] engine_ok_step)
  then show ?thesis using okP_isOk [OF okP_input] okP_isOk [OF okP_resize] by blast
qed


section \<open>Witnesses\<close>

definition demo_vterm :: "unit vterm" where
  "demo_vterm =
     \<lparr>vterm_input_write = (\<lambda>_ bs. VtPushline (map (\<lambda>b. \<lparr>chars0 = ucast b, vwidth = 1, vbold = False,
          vreverse = False, vfg = DefaultColor, vbg = Indexed 20\<rparr>) bs) (VtOutput [1] (VtReturn ()))),
      vterm_set_size = (\<lambda>_ r c. VtPopline 3 (\<lambda>_. VtReturn ())), vterm_screen_reset = VtReturn,
      vterm_screen_get_cell = (\<lambda>_ r c. None), vterm_get_cursorpos = (\<lambda>_. (0, 0))\<rparr>"

definition demo_host :: host where
  "demo_host = \<lparr>cleanPath = normalize, filePath = (\<lambda>d n. n), toUtf8 = to_latin1, fromUtf8 = from_latin1\<rparr>"

theorem vt_engine_invariant_witness:
  "\<exists>sigs s. vt_new demo_host demo_vterm 2 3 () = ok (sigs, s) \<and>
     engine_ok (setScrollbackMax 5 s) \<and> isOk (input demo_host id demo_vterm [65, 66] (setScrollbackMax 5 s))"
proof -
  obtain sigs s where new: "vt_new demo_host demo_vterm 2 3 () = ok (sigs, s)"
    by (simp add: vt_new_def screen_resize_def intOp_def fitsInt_def at_least_1_def demo_vterm_def)
  have "(vt_step demo_host id demo_vterm)\<^sup>*\<^sup>* s (setScrollbackMax 5 s)"
    by (rule r_into_rtranclp, rule step_max)
  from vt_engine_invariant [OF new this] new show ?thesis by blast
qed

definition demo_engine :: "unit VtEngine" where
  "demo_engine = \<lparr>m_vt = (), m_screen = \<lparr>m_rows = 1, m_cols = 1, m_cells = [blank_cell]\<rparr>, m_cursor = (0, 0),
     m_pendingOutput = [], m_scrollback = [], m_sbWrapped = [], m_scrollbackMax = 10,
     m_osc = \<lparr>m_oscState = 0, m_oscBuf = []\<rparr>,
     m_csi = \<lparr>m_csiState = 0, m_csiParams = [],
       m_modes = \<lparr>m_bracketedPaste = False, m_mouseTracking = TrackNone, m_mouseEncoding = EncDefault\<rparr>\<rparr>\<rparr>"

definition demo_cells :: "string \<Rightarrow> VTermScreenCell list" where
  "demo_cells t = map (\<lambda>c. \<lparr>chars0 = of_nat (of_char c), vwidth = 1, vbold = False, vreverse = False,
     vfg = DefaultColor, vbg = DefaultColor\<rparr>) t"


end
