(* ===== verification/Vt_Text.thy ===== *)
theory Vt_Text
  imports Vt_Scan
begin

text \<open>
  The text functions of the terminal: mouse reports, scrollback search and link detection of
  \<open>src/src/term/VtEngine.cpp\<close>, and \<open>src/src/term/SyntaxHighlighter\<close>. The case folding of characters and
  the user's regular expressions are parameters; the one expression of \<open>detectUrlAt\<close> is
  written out as the scan it performs.
\<close>

section \<open>Mouse reports\<close>

definition clamp223 :: "int \<Rightarrow> byte" where
  "clamp223 v = of_int (max 0 (min v 223) + 32)"

definition int_bytes :: "int \<Rightarrow> bytes" where
  "int_bytes n = to_latin1 (dec_of_int n)"

text \<open>\<open>cb\<close> is a signed \<open>int\<close>; its two's complement takes the \<open>OR\<close>.\<close>

definition encodeMouseReport :: "MouseEncoding \<Rightarrow> int \<Rightarrow> int \<Rightarrow> int \<Rightarrow> bool \<Rightarrow> bytes" where
  "encodeMouseReport enc cb col1 row1 release =
     (if enc = Sgr
      then [0x1b, 0x5b, 0x3c] @ int_bytes cb @ [0x3b] @ int_bytes col1 @ [0x3b] @ int_bytes row1 @
           [if release then 0x6d else 0x4d]
      else let b = (if release then cb OR 3 else cb)
           in [0x1b, 0x5b, 0x4d] @ [clamp223 b, clamp223 col1, clamp223 row1])"

section \<open>Scrollback search\<close>

definition occurs_at :: "('c \<Rightarrow> 'c) \<Rightarrow> 'c list \<Rightarrow> 'c list \<Rightarrow> nat \<Rightarrow> bool" where
  "occurs_at fold_case query text i \<longleftrightarrow>
     map fold_case (take (length query) (drop i text)) = map fold_case query"

text \<open>\<open>text.indexOf(query, from, Qt::CaseInsensitive)\<close>.\<close>

definition indexOf_ci :: "('c \<Rightarrow> 'c) \<Rightarrow> 'c list \<Rightarrow> 'c list \<Rightarrow> nat \<Rightarrow> nat option" where
  "indexOf_ci fold_case query text from = List.find (occurs_at fold_case query text) [from..<length text]"

lemma find_upt_bounds: "List.find P [from..<n] = Some i \<Longrightarrow> from \<le> i \<and> i < n \<and> P i"
  by (auto simp: find_Some_iff)

function matches_from :: "('c \<Rightarrow> 'c) \<Rightarrow> 'c list \<Rightarrow> 'c list \<Rightarrow> nat \<Rightarrow> nat list" where
  "matches_from fold_case query text from =
     (case indexOf_ci fold_case query text from of
        None \<Rightarrow> []
      | Some idx \<Rightarrow> idx # matches_from fold_case query text (idx + 1))"
  by pat_completeness auto
termination
  by (relation "measure (\<lambda>(_, _, text, from). length text - from)")
    (auto simp: indexOf_ci_def dest!: find_upt_bounds)

declare matches_from.simps [simp del]

definition findMatches :: "('c \<Rightarrow> 'c) \<Rightarrow> 'c list list \<Rightarrow> 'c list \<Rightarrow> (nat \<times> nat) list" where
  "findMatches fold_case lines query =
     (if query = [] then []
      else concat (map (\<lambda>L. map (\<lambda>idx. (idx, L)) (matches_from fold_case query (lines ! L) 0)) [0..<length lines]))"

section \<open>Links\<close>

definition url_char :: "char \<Rightarrow> bool" where
  "url_char c \<longleftrightarrow> (let n = of_char c :: nat in \<not> (9 \<le> n \<and> n \<le> 13) \<and> n \<noteq> 32) \<and>
     c \<notin> {CHR 0x22, CHR 0x27, CHR 0x3C, CHR 0x3E, CHR 0x28, CHR 0x29}"

definition url_prefixes :: "string list" where
  "url_prefixes = [''https://'', ''http://'', ''ftp://'', ''file://'', ''www.'']"

text \<open>The length of a match of the expression at the start of the text.\<close>

definition url_len :: "string \<Rightarrow> nat option" where
  "url_len s =
     (case List.find (\<lambda>p. starts_with p (to_lower s)) url_prefixes of
        None \<Rightarrow> None
      | Some p \<Rightarrow> let run = takeWhile url_char (drop (length p) s)
                  in if run = [] then None else Some (length p + length run))"

lemma url_len_pos: "url_len s = Some n \<Longrightarrow> 0 < n"
  by (auto simp: url_len_def Let_def split: option.splits if_splits)

function url_matches :: "string \<Rightarrow> nat \<Rightarrow> (nat \<times> nat) list" where
  "url_matches line i =
     (if length line \<le> i then []
      else case url_len (drop i line) of
             None \<Rightarrow> url_matches line (i + 1)
           | Some n \<Rightarrow> (i, n) # url_matches line (i + n))"
  by pat_completeness auto
termination
  by (relation "measure (\<lambda>(line, i). length line - i)") (auto dest!: url_len_pos)

declare url_matches.simps [simp del]

definition detectUrlAt :: "string \<Rightarrow> int \<Rightarrow> string" where
  "detectUrlAt line col =
     (case List.find (\<lambda>(start, n). int start \<le> col \<and> col < int (start + n)) (url_matches line 0) of
        None \<Rightarrow> []
      | Some (start, n) \<Rightarrow>
          let url = rev (dropWhile (\<lambda>c. c \<in> set ''.,;:!?'') (rev (take n (drop start line))))
          in if starts_with ''www.'' (to_lower url) then ''https://'' @ url else url)"

section \<open>Highlighting\<close>

record 'col HighlightSpan =
  sp_start :: nat
  sp_length :: nat
  sp_color :: 'col

text \<open>A rule is a compiled expression, given by the matches \<open>globalMatch\<close> yields on a line, and
  a colour. \<open>compile\<close> is \<open>None\<close> for an invalid pattern.\<close>

type_synonym 'col rule = "(string \<Rightarrow> (nat \<times> nat) list) \<times> 'col"

record 'col SyntaxHighlighter =
  m_rules :: "'col rule list"
  m_enabled :: bool

definition addRule :: "('p \<Rightarrow> (string \<Rightarrow> (nat \<times> nat) list) option) \<Rightarrow> 'p \<Rightarrow> 'col \<Rightarrow> 'col SyntaxHighlighter \<Rightarrow> 'col SyntaxHighlighter" where
  "addRule compile pattern color s =
     (case compile pattern of None \<Rightarrow> s | Some re \<Rightarrow> s\<lparr>m_rules := m_rules s @ [(re, color)]\<rparr>)"

definition clearRules :: "'col SyntaxHighlighter \<Rightarrow> 'col SyntaxHighlighter" where
  "clearRules s = s\<lparr>m_rules := []\<rparr>"

text \<open>A pattern is its text and whether \<open>CaseInsensitiveOption\<close> is given; a colour its
  components. In the literals below \<open>~\<close> stands for the backslash, \<open>!\<close> for the double and \<open>@\<close> for the
  single quote, none of which occurs otherwise.\<close>

definition pat :: "string \<Rightarrow> string" where
  "pat s = map (\<lambda>c. if c = CHR ''~'' then CHR 0x5C else if c = CHR ''!'' then CHR 0x22
     else if c = CHR ''@'' then CHR 0x27 else c) s"

definition loadDefaults :: "(string \<times> bool \<Rightarrow> (string \<Rightarrow> (nat \<times> nat) list) option) \<Rightarrow>
    (nat \<times> nat \<times> nat) SyntaxHighlighter \<Rightarrow> (nat \<times> nat \<times> nat) SyntaxHighlighter" where
  "loadDefaults compile s =
     fold (\<lambda>(p, ci, color). addRule compile (pat p, ci) color)
       [(''~b(error|fail(ed|ure)?|fatal|denied|refused|panic)~b'', True, 0xff, 0x55, 0x55),
        (''~b(warn(ing)?|deprecated)~b'', True, 0xff, 0xcc, 0x33),
        (''~b(ok|success|done|passed|listening|started)~b'', True, 0x66, 0xdd, 0x66),
        (''~b~d{1,3}(?:~.~d{1,3}){3}~b'', False, 0x66, 0xcc, 0xff),
        (''~b[a-z]+://[^~s]+'', True, 0x88, 0xaa, 0xff),
        (''![^!]*!|@[^@]*@'', False, 0xcc, 0x99, 0x66),
        (''~b~d+~b'', False, 0xaa, 0xbb, 0xcc)] s"

definition mark :: "nat \<Rightarrow> nat \<Rightarrow> bool list \<Rightarrow> bool list" where
  "mark start len taken = map (\<lambda>i. taken ! i \<or> (start \<le> i \<and> i < start + len)) [0..<length taken]"

definition highlight_match :: "'col \<Rightarrow> nat \<times> nat \<Rightarrow> bool list \<times> 'col HighlightSpan list \<Rightarrow> bool list \<times> 'col HighlightSpan list" where
  "highlight_match color = (\<lambda>(start, len) (taken, spans).
     if len = 0 then (taken, spans)
     else if list_ex (\<lambda>i. taken ! i) [start..<min (start + len) (length taken)] then (taken, spans)
     else (mark start len taken, spans @ [\<lparr>sp_start = start, sp_length = len, sp_color = color\<rparr>]))"

definition highlight :: "'col SyntaxHighlighter \<Rightarrow> string \<Rightarrow> 'col HighlightSpan list" where
  "highlight s line =
     (if \<not> m_enabled s \<or> line = [] \<or> m_rules s = [] then []
      else sort_key sp_start
        (snd (fold (\<lambda>(re, color). fold (highlight_match color) (re line)) (m_rules s)
          (replicate (length line) False, []))))"

lemma length_mark [simp]: "length (mark a n taken) = length taken"
  by (simp add: mark_def)

lemma mark_nth: "i < length taken \<Longrightarrow> mark a n taken ! i \<longleftrightarrow> taken ! i \<or> (a \<le> i \<and> i < a + n)"
  by (simp add: mark_def)

text \<open>What the loop maintains: the columns taken are those of the spans, which lie in the line,
  are not empty and pairwise disjoint.\<close>

definition columns :: "'col HighlightSpan \<Rightarrow> nat set" where
  "columns sp = {sp_start sp ..< sp_start sp + sp_length sp}"

lemma columns_le: "columns sp \<noteq> {} \<Longrightarrow> columns sp \<subseteq> {..<n} \<Longrightarrow> sp_start sp + sp_length sp \<le> n"
  by (auto simp: columns_def lessThan_atLeast0 ivl_subset)

definition spans_ok :: "nat \<Rightarrow> bool list \<times> 'col HighlightSpan list \<Rightarrow> bool" where
  "spans_ok n = (\<lambda>(taken, spans). length taken = n \<and> (\<forall>i < n. taken ! i \<longleftrightarrow> i \<in> \<Union> (columns ` set spans)) \<and>
     distinct spans \<and> (\<forall>a \<in> set spans. columns a \<noteq> {} \<and> columns a \<subseteq> {..<n} \<and>
       (\<forall>b \<in> set spans. a \<noteq> b \<longrightarrow> columns a \<inter> columns b = {})))"

lemma highlight_match_cases:
  assumes "spans_ok n (taken, spans)" and "a + len \<le> n" and "sp = \<lparr>sp_start = a, sp_length = len, sp_color = color\<rparr>"
  shows "highlight_match color (a, len) (taken, spans) =
     (if len = 0 \<or> columns sp \<inter> \<Union> (columns ` set spans) \<noteq> {} then (taken, spans) else (mark a len taken, spans @ [sp]))"
proof -
  have "list_ex (\<lambda>i. taken ! i) [a..<min (a + len) (length taken)] \<longleftrightarrow> (\<exists>i \<in> columns sp. taken ! i)"
    using assms by (auto simp: list_ex_iff spans_ok_def columns_def)
  also have "\<dots> \<longleftrightarrow> (\<exists>i \<in> columns sp. i \<in> \<Union> (columns ` set spans))"
    using assms by (auto simp: spans_ok_def columns_def)
  also have "\<dots> \<longleftrightarrow> columns sp \<inter> \<Union> (columns ` set spans) \<noteq> {}" by blast
  finally show ?thesis by (simp add: highlight_match_def assms(3))
qed

lemma spans_ok_add:
  assumes "spans_ok n (taken, spans)" and "columns sp \<noteq> {}" and "columns sp \<subseteq> {..<n}"
    and free: "columns sp \<inter> \<Union> (columns ` set spans) = {}"
  shows "spans_ok n (mark (sp_start sp) (sp_length sp) taken, spans @ [sp])"
proof -
  have "sp \<notin> set spans" using free assms(2) by blast
  moreover have "mark (sp_start sp) (sp_length sp) taken ! i \<longleftrightarrow> i \<in> \<Union> (columns ` set (spans @ [sp]))" if "i < n" for i
    using that assms(1) by (auto simp: spans_ok_def mark_nth) (auto simp: columns_def)
  ultimately show ?thesis
    using assms by (simp add: spans_ok_def) blast
qed

text \<open>One match keeps the invariant, keeps the spans there are, and afterwards meets a span.\<close>

lemma highlight_match_step:
  assumes "spans_ok n st" and "fst m + snd m \<le> n"
  shows "spans_ok n (highlight_match color m st)"
    and "set (snd st) \<subseteq> set (snd (highlight_match color m st))"
    and "set (snd (highlight_match color m st)) \<subseteq>
      insert \<lparr>sp_start = fst m, sp_length = snd m, sp_color = color\<rparr> (set (snd st))"
    and "snd m \<noteq> 0 \<Longrightarrow> \<exists>sp \<in> set (snd (highlight_match color m st)). {fst m ..< fst m + snd m} \<inter> columns sp \<noteq> {}"
proof -
  obtain taken spans a len where st: "st = (taken, spans)" "m = (a, len)" by (cases st, cases m)
  define sp where "sp = \<lparr>sp_start = a, sp_length = len, sp_color = color\<rparr>"
  have c: "columns sp = {a ..< a + len}" by (simp add: sp_def columns_def)
  have step: "highlight_match color m st = (if len = 0 \<or> columns sp \<inter> \<Union> (columns ` set spans) \<noteq> {} then (taken, spans)
      else (mark a len taken, spans @ [sp]))"
    using highlight_match_cases [OF assms(1) [unfolded st(1)] _ sp_def] assms(2) by (simp add: st)
  show "spans_ok n (highlight_match color m st)"
  proof -
    have "columns sp \<subseteq> {..<n}" using assms(2) by (auto simp: st c)
    moreover have "sp_start sp = a" "sp_length sp = len" by (simp_all add: sp_def)
    ultimately show ?thesis
      using assms(1) spans_ok_add [of n taken spans sp] unfolding step by (auto simp: st c)
  qed
  show "set (snd st) \<subseteq> set (snd (highlight_match color m st))" unfolding step by (auto simp: st)
  show "set (snd (highlight_match color m st)) \<subseteq>
      insert \<lparr>sp_start = fst m, sp_length = snd m, sp_color = color\<rparr> (set (snd st))"
    unfolding step by (auto simp: st sp_def)
  show "\<exists>sp \<in> set (snd (highlight_match color m st)). {fst m ..< fst m + snd m} \<inter> columns sp \<noteq> {}" if "snd m \<noteq> 0"
    using that unfolding step by (simp add: st c [symmetric]) (auto simp: c)
qed

text \<open>The loops over the rules and their matches are one loop over all matches.\<close>

definition all_matches :: "'col rule list \<Rightarrow> string \<Rightarrow> ('col \<times> nat \<times> nat) list" where
  "all_matches rules line = concat (map (\<lambda>(re, color). map (Pair color) (re line)) rules)"

abbreviation run_matches :: "('col \<times> nat \<times> nat) list \<Rightarrow> bool list \<times> 'col HighlightSpan list \<Rightarrow> bool list \<times> 'col HighlightSpan list" where
  "run_matches \<equiv> fold (\<lambda>(color, m). highlight_match color m)"

lemma fold_all_matches:
  "fold (\<lambda>(re, color). fold (highlight_match color) (re line)) rules st = run_matches (all_matches rules line) st"
proof -
  have "fold (highlight_match c) ms st = run_matches (map (Pair c) ms) st" for c :: 'a and ms st
    by (induction ms arbitrary: st) simp_all
  then show ?thesis by (induction rules arbitrary: st) (auto simp: all_matches_def)
qed

lemma run_matches_ok:
  assumes "spans_ok n st" and "\<forall>(c, a, len) \<in> set ms. a + len \<le> n"
  shows "spans_ok n (run_matches ms st) \<and> set (snd st) \<subseteq> set (snd (run_matches ms st)) \<and>
    set (snd (run_matches ms st)) \<subseteq>
      set (snd st) \<union> (\<lambda>(c, a, len). \<lparr>sp_start = a, sp_length = len, sp_color = c\<rparr>) ` set ms"
  using assms
proof (induction ms arbitrary: st)
  case (Cons m ms)
  obtain c a len where m: "m = (c, a, len)" by (cases m)
  have al: "fst (a, len) + snd (a, len) \<le> n" using Cons.prems(2) by (auto simp: m)
  note step = highlight_match_step [OF Cons.prems(1) al, of c]
  have "\<forall>(c, a, len) \<in> set ms. a + len \<le> n" using Cons.prems(2) by simp
  from Cons.IH [OF step(1) this] step(2,3) show ?case unfolding m by simp blast
qed simp

lemma run_matches_cover:
  assumes "spans_ok n st" and "\<forall>(c, a, len) \<in> set ms. a + len \<le> n" and "(c, a, len) \<in> set ms" and "len \<noteq> 0"
  shows "\<exists>sp \<in> set (snd (run_matches ms st)). {a ..< a + len} \<inter> columns sp \<noteq> {}"
proof -
  obtain ms1 ms2 where ms: "ms = ms1 @ (c, a, len) # ms2" using assms(3) by (meson split_list)
  let ?st = "run_matches ms1 st"
  have 1: "spans_ok n ?st" using run_matches_ok [OF assms(1), of ms1] assms(2) by (simp add: ms)
  have al: "fst (a, len) + snd (a, len) \<le> n" using assms(2) by (auto simp: ms)
  note step = highlight_match_step [OF 1 al, of c]
  have "set (snd (highlight_match c (a, len) ?st)) \<subseteq> set (snd (run_matches ms st))"
    using run_matches_ok [OF step(1), of ms2] assms(2) by (simp add: ms)
  then show ?thesis using step(4) assms(4) by auto
qed

text \<open>Sorted by start, disjoint spans follow one another.\<close>

lemma sort_spans:
  assumes "spans_ok n (taken, spans)"
  shows "sorted_wrt (\<lambda>x y. sp_start x + sp_length x \<le> sp_start y) (sort_key sp_start spans)"
proof -
  let ?ss = "sort_key sp_start spans"
  have d: "distinct ?ss" "set ?ss = set spans" using assms by (simp_all add: spans_ok_def)
  have "sp_start (?ss ! i) + sp_length (?ss ! i) \<le> sp_start (?ss ! j)" if ij: "i < j" "j < length ?ss" for i j
  proof -
    have le: "sp_start (?ss ! i) \<le> sp_start (?ss ! j)"
      using ij sorted_sort_key [of sp_start spans] by (auto simp: sorted_iff_nth_mono_less)
    have "?ss ! i \<noteq> ?ss ! j" using ij d(1) by (simp add: nth_eq_iff_index_eq)
    moreover have "?ss ! i \<in> set spans" "?ss ! j \<in> set spans" using ij d(2) by (metis nth_mem order.strict_trans)+
    ultimately have "columns (?ss ! i) \<inter> columns (?ss ! j) = {}" "columns (?ss ! j) \<noteq> {}"
      using assms by (auto simp: spans_ok_def)
    then show ?thesis using le by (auto simp: columns_def)
  qed
  then show ?thesis by (simp add: sorted_wrt_iff_nth_less)
qed

section \<open>Search\<close>

lemma filter_find:
  "filter P [from..<n] = (case List.find P [from..<n] of None \<Rightarrow> [] | Some i \<Rightarrow> i # filter P [Suc i..<n])"
proof (induction "n - from" arbitrary: "from")
  case (Suc k)
  then have "[from..<n] = from # [Suc from..<n]" by (simp add: upt_conv_Cons)
  then show ?case using Suc.hyps(1) [of "Suc from"] Suc.hyps(2) by simp
qed simp

lemma matches_from_filter:
  "matches_from fold_case query text from = filter (occurs_at fold_case query text) [from..<length text]"
proof (induction fold_case query "text" "from" rule: matches_from.induct)
  case (1 f q t i)
  then show ?case
    by (subst matches_from.simps, subst filter_find) (auto simp: indexOf_ci_def split: option.split)
qed

section \<open>Properties\<close>

text \<open>Searching the history finds exactly the places where the query stands, ignoring case,
  in reading order, overlapping ones included.\<close>

theorem find_matches_complete:
  "query \<noteq> [] \<Longrightarrow> findMatches fold_case lines query =
     [(col, row). row \<leftarrow> [0..<length lines], col \<leftarrow> [0..<length (lines ! row)],
        map fold_case (take (length query) (drop col (lines ! row))) = map fold_case query]"
proof -
  have "map (\<lambda>col. (col, row)) (filter P cols) = concat (map (\<lambda>col. if P col then [(col, row)] else []) cols)"
    for P :: "nat \<Rightarrow> bool" and row :: nat and cols
    by (induction cols) auto
  then show "query \<noteq> [] \<Longrightarrow> ?thesis"
    by (simp add: findMatches_def matches_from_filter occurs_at_def)
qed

theorem find_matches_complete_witness:
  "findMatches lower_char [''aAa'', ''ba''] ''aa'' = [(0, 0), (1, 0)]"
  using find_matches_complete [of "''aa''" lower_char "[''aAa'', ''ba'']"] by code_simp

text \<open>Highlighting a line gives spans in reading order that do not overlap, lie in the line and
  are matches of rules in their colours; a match that is not shown meets one that is.\<close>

theorem highlight_spans:
  assumes "\<forall>(re, color) \<in> set (m_rules s). \<forall>(a, len) \<in> set (re line). a + len \<le> length line"
  shows "sorted_wrt (\<lambda>x y. sp_start x + sp_length x \<le> sp_start y) (highlight s line)
    \<and> (\<forall>sp \<in> set (highlight s line). 0 < sp_length sp \<and> sp_start sp + sp_length sp \<le> length line \<and>
        (\<exists>re. (re, sp_color sp) \<in> set (m_rules s) \<and> (sp_start sp, sp_length sp) \<in> set (re line)))
    \<and> (m_enabled s \<longrightarrow> (\<forall>(re, color) \<in> set (m_rules s). \<forall>(a, len) \<in> set (re line). 0 < len \<longrightarrow>
        (\<exists>sp \<in> set (highlight s line). sp_start sp < a + len \<and> a < sp_start sp + sp_length sp)))"
proof (cases "m_enabled s \<and> line \<noteq> [] \<and> m_rules s \<noteq> []")
  case True
  let ?ms = "all_matches (m_rules s) line"
  let ?st = "(replicate (length line) False, [])"
  define r where "r = run_matches ?ms ?st"
  have ms: "\<forall>(c, a, len) \<in> set ?ms. a + len \<le> length line" using assms by (fastforce simp: all_matches_def)
  have st: "spans_ok (length line) ?st" by (simp add: spans_ok_def)
  have ok: "spans_ok (length line) (fst r, snd r)" using run_matches_ok [OF st ms] by (simp add: r_def)
  have h: "highlight s line = sort_key sp_start (snd r)"
    using True by (simp add: highlight_def fold_all_matches r_def)
  have "\<exists>re. (re, sp_color sp) \<in> set (m_rules s) \<and> (sp_start sp, sp_length sp) \<in> set (re line)" if "sp \<in> set (snd r)" for sp
    using run_matches_ok [OF st ms] that by (fastforce simp: r_def all_matches_def)
  moreover have "0 < sp_length sp \<and> sp_start sp + sp_length sp \<le> length line" if "sp \<in> set (snd r)" for sp
  proof -
    have "columns sp \<noteq> {}" "columns sp \<subseteq> {..<length line}" using ok that by (simp_all add: spans_ok_def split_def)
    from columns_le [OF this] this(1) show ?thesis by (auto simp: columns_def)
  qed
  moreover have "\<exists>sp \<in> set (snd r). sp_start sp < a + len \<and> a < sp_start sp + sp_length sp"
    if "(re, color) \<in> set (m_rules s)" "(a, len) \<in> set (re line)" "0 < len" for re color a len
  proof -
    have "(color, a, len) \<in> set ?ms" using that by (auto simp: all_matches_def)
    from run_matches_cover [OF st ms this] that(3) show ?thesis by (auto simp: r_def columns_def)
  qed
  ultimately show ?thesis using sort_spans [OF ok] by (auto simp: h)
qed (use assms in \<open>fastforce simp: highlight_def\<close>)

theorem highlight_spans_witness:
  "map (\<lambda>sp. (sp_start sp, sp_length sp, sp_color sp))
     (highlight \<lparr>m_rules = [(\<lambda>_. [(2, 2)], CHR ''a''), (\<lambda>_. [(0, 1), (1, 2)], CHR ''b'')], m_enabled = True\<rparr> ''wxyz'') =
     [(0, 1, CHR ''b''), (2, 2, CHR ''a'')] \<and>
   sorted_wrt (\<lambda>x y. sp_start x + sp_length x \<le> sp_start y)
     (highlight \<lparr>m_rules = [(\<lambda>_. [(2, 2)], CHR ''a''), (\<lambda>_. [(0, 1), (1, 2)], CHR ''b'')], m_enabled = True\<rparr> ''wxyz'')"
proof (rule conjI)
  show "map (\<lambda>sp. (sp_start sp, sp_length sp, sp_color sp))
     (highlight \<lparr>m_rules = [(\<lambda>_. [(2, 2)], CHR ''a''), (\<lambda>_. [(0, 1), (1, 2)], CHR ''b'')], m_enabled = True\<rparr> ''wxyz'') =
     [(0, 1, CHR ''b''), (2, 2, CHR ''a'')]" by code_simp
qed (rule highlight_spans [THEN conjunct1], simp)

end
