(* ===== verification/Qt_Map.thy ===== *)
theory Qt_Map
  imports Qt_Core "HOL-Library.List_Lexorder"
begin

text \<open>
  \<open>QMap\<close>, the ordered dictionary in which the program keeps session parameters, form fields,
  settings and secrets: a list of pairs in the order of the keys, with the operations the code
  calls. The contract its clients rely on is the locale \<open>kv_store\<close>, which \<open>QMap\<close> satisfies; its
  facts are about any sequence of insertions.
\<close>

type_synonym ('k, 'v) qmap = "('k \<times> 'v) list"

fun qinsert :: "'k::linorder \<Rightarrow> 'v \<Rightarrow> ('k, 'v) qmap \<Rightarrow> ('k, 'v) qmap" where
  "qinsert k v [] = [(k, v)]"
| "qinsert k v ((a, b) # m) =
     (if k < a then (k, v) # (a, b) # m else if k = a then (k, v) # m else (a, b) # qinsert k v m)"

definition qremove :: "'k \<Rightarrow> ('k, 'v) qmap \<Rightarrow> ('k, 'v) qmap" where
  "qremove k m = filter (\<lambda>p. fst p \<noteq> k) m"

definition qcontains :: "('k, 'v) qmap \<Rightarrow> 'k \<Rightarrow> bool" where
  "qcontains m k \<longleftrightarrow> map_of m k \<noteq> None"

definition qvalue :: "('k, 'v) qmap \<Rightarrow> 'k \<Rightarrow> 'v \<Rightarrow> 'v" where
  "qvalue m k d = (case map_of m k of None \<Rightarrow> d | Some v \<Rightarrow> v)"

text \<open>The keys ascend.\<close>

definition qmap_ok :: "('k::linorder, 'v) qmap \<Rightarrow> bool" where
  "qmap_ok m \<longleftrightarrow> sorted_wrt (<) (map fst m)"

lemma qmap_ok_Nil [simp]: "qmap_ok []"
  by (simp add: qmap_ok_def)

lemma fst_qinsert: "fst ` set (qinsert k v m) = insert k (fst ` set m)"
  by (induction m rule: qinsert.induct) auto

lemma qmap_ok_insert [simp]: "qmap_ok m \<Longrightarrow> qmap_ok (qinsert k v m)"
proof (induction k v m rule: qinsert.induct)
  case (2 k v a b m)
  have "\<forall>x \<in> set (map fst (qinsert k v m)). x = k \<or> x \<in> set (map fst m)"
    using fst_qinsert [of k v m] by auto
  with 2 show ?case by (fastforce simp: qmap_ok_def)
qed (simp add: qmap_ok_def)

lemma qmap_ok_remove [simp]: "qmap_ok m \<Longrightarrow> qmap_ok (qremove k m)"
  by (induction m) (auto simp: qmap_ok_def qremove_def)

lemma map_of_qinsert_ok: "qmap_ok m \<Longrightarrow> map_of (qinsert k v m) = (map_of m)(k \<mapsto> v)"
  by (induction k v m rule: qinsert.induct) (auto simp: qmap_ok_def fun_eq_iff)

lemma map_of_qinsert [simp]: "map_of (qinsert k v m) x = (if x = k then Some v else map_of m x)"
  by (induction k v m rule: qinsert.induct) auto

lemma map_of_qremove [simp]: "map_of (qremove k m) x = (if x = k then None else map_of m x)"
  by (induction m) (auto simp: qremove_def)

text \<open>Two maps with the same entries are equal.\<close>

lemma qmap_eqI: "qmap_ok m \<Longrightarrow> qmap_ok m' \<Longrightarrow> map_of m = map_of m' \<Longrightarrow> m = m'"
proof -
  assume ok: "qmap_ok m" "qmap_ok m'" and eq: "map_of m = map_of m'"
  have d: "distinct (map fst m)" "distinct (map fst m')" "sorted (map fst m)" "sorted (map fst m')"
    using ok by (auto simp: qmap_ok_def strict_sorted_iff)
  then have "set m = set m'" using eq by (metis graph_map_of_if_distinct_dom)
  with d show ?thesis by (intro map_sorted_distinct_set_unique [of fst]) (simp_all add: distinct_map)
qed

declare qinsert.simps [simp del]

section \<open>The contract of a dictionary\<close>

locale kv_store =
  fixes look :: "'m \<Rightarrow> 'k \<Rightarrow> 'v option" and ins :: "'k \<Rightarrow> 'v \<Rightarrow> 'm \<Rightarrow> 'm"
  assumes look_ins: "look (ins k v m) x = (if x = k then Some v else look m x)"
begin

lemma look_inserts:
  "look (fold (\<lambda>(k, v). ins k v) kvs m) x = (case map_of (rev kvs) x of None \<Rightarrow> look m x | Some v \<Rightarrow> Some v)"
  by (induction kvs arbitrary: m) (auto simp: look_ins map_add_def split: option.split)

lemma look_inserts_if:
  "look (fold (\<lambda>(k, v). if P k then ins k (f v) else (\<lambda>m. m)) kvs m) x =
     (if P x then case map_of (rev kvs) x of None \<Rightarrow> look m x | Some v \<Rightarrow> Some (f v) else look m x)"
  by (induction kvs arbitrary: m) (auto simp: look_ins map_add_def split: option.split)

end

interpretation qmap: kv_store map_of qinsert
  by unfold_locales simp

lemma map_of_rev_distinct: "distinct (map fst m) \<Longrightarrow> map_of (rev m) = map_of m"
  by (induction m) (auto simp: map_add_def fun_eq_iff split: option.split dest!: map_of_SomeD,
    metis fst_conv image_eqI)

lemma map_of_rev_ok: "qmap_ok m \<Longrightarrow> map_of (rev m) = map_of m"
  by (rule map_of_rev_distinct) (auto simp: qmap_ok_def strict_sorted_iff)

end
