(* ===== verification/Sessions.thy ===== *)
theory Sessions
  imports Qt_Map
begin

text \<open>
  \<open>src/src/core/Session\<close>, \<open>SessionTree\<close> and \<open>SessionForm\<close>: a saved session with its parameters,
  the folder tree, the edit operations on the flat list of sessions behind the bookmark tree,
  and the mapping between a session and the fields of its editor. A \<open>QVariant\<close> of these maps is
  its text, which is how the code reads it (\<open>toString\<close>, \<open>toInt\<close>).
\<close>

section \<open>Sessions\<close>

datatype SessionType =
  Ssh | Telnet | Rsh | Rlogin | Serial | Mosh | Sftp | Ftp | S3 | Shell | Rdp | Vnc | Xdmcp | Browser | Unknown

definition typeNames :: "(SessionType \<times> string) list" where
  "typeNames =
     [(Ssh, ''SSH''), (Telnet, ''Telnet''), (Rsh, ''RSH''), (Rlogin, ''Rlogin''), (Serial, ''Serial''),
      (Mosh, ''Mosh''), (Sftp, ''SFTP''), (Ftp, ''FTP''), (S3, ''S3''), (Shell, ''Shell''), (Rdp, ''RDP''),
      (Vnc, ''VNC''), (Xdmcp, ''XDMCP''), (Browser, ''Browser''), (Unknown, ''Unknown'')]"

definition sessionTypeToString :: "SessionType \<Rightarrow> string" where
  "sessionTypeToString t = (case map_of typeNames t of None \<Rightarrow> ''Unknown'' | Some n \<Rightarrow> n)"

definition sessionTypeFromString :: "string \<Rightarrow> SessionType" where
  "sessionTypeFromString s =
     (case List.find (\<lambda>p. to_upper (snd p) = to_upper (trimmed s)) typeNames of
        None \<Rightarrow> Unknown | Some p \<Rightarrow> fst p)"

type_synonym fields = "(string, string) qmap"

record Session =
  s_name :: string
  s_type :: SessionType
  s_params :: fields

definition new_session :: "string \<Rightarrow> SessionType \<Rightarrow> Session" where
  "new_session n t = \<lparr>s_name = n, s_type = t, s_params = []\<rparr>"

definition setParam :: "string \<Rightarrow> string \<Rightarrow> Session \<Rightarrow> Session" where
  "setParam k v s = s\<lparr>s_params := qinsert k v (s_params s)\<rparr>"

definition param_def :: "Session \<Rightarrow> string \<Rightarrow> string \<Rightarrow> string" where
  "param_def s k d = qvalue (s_params s) k d"

abbreviation param :: "Session \<Rightarrow> string \<Rightarrow> string" where
  "param s k \<equiv> param_def s k []"

definition default_port :: "SessionType \<Rightarrow> int" where
  "default_port t =
     (case t of Ssh \<Rightarrow> 22 | Sftp \<Rightarrow> 22 | Mosh \<Rightarrow> 22 | Telnet \<Rightarrow> 23 | Rlogin \<Rightarrow> 513 | Rsh \<Rightarrow> 514 | Ftp \<Rightarrow> 21
      | Rdp \<Rightarrow> 3389 | Vnc \<Rightarrow> 5900 | Xdmcp \<Rightarrow> 177 | _ \<Rightarrow> 0)"

definition port :: "Session \<Rightarrow> int" where
  "port s = (case to_int (param s ''port'') of Some p \<Rightarrow> p | None \<Rightarrow> default_port (s_type s))"

abbreviation setPort :: "int \<Rightarrow> Session \<Rightarrow> Session" where
  "setPort p \<equiv> setParam ''port'' (dec_of_int p)"

section \<open>The folder tree\<close>

datatype SessionFolder = Folder (f_name: string) (f_folders: "SessionFolder list") (f_sessions: "Session list")

definition addFolder :: "string \<Rightarrow> SessionFolder \<Rightarrow> SessionFolder" where
  "addFolder n f = Folder (f_name f) (f_folders f @ [Folder n [] []]) (f_sessions f)"

definition addSession :: "Session \<Rightarrow> SessionFolder \<Rightarrow> SessionFolder" where
  "addSession s f = Folder (f_name f) (f_folders f) (f_sessions f @ [s])"

fun totalSessions :: "SessionFolder \<Rightarrow> nat" where
  "totalSessions (Folder n fs ss) = length ss + sum_list (map totalSessions fs)"

text \<open>Sessions of a folder first, then its folders in depth.\<close>

fun findSession :: "string \<Rightarrow> SessionFolder \<Rightarrow> Session option" and findIn :: "string \<Rightarrow> SessionFolder list \<Rightarrow> Session option" where
  "findSession n (Folder m fs ss) =
     (case List.find (\<lambda>s. s_name s = n) ss of Some s \<Rightarrow> Some s | None \<Rightarrow> findIn n fs)"
| "findIn n [] = None"
| "findIn n (f # fs) = (case findSession n f of Some s \<Rightarrow> Some s | None \<Rightarrow> findIn n fs)"

section \<open>Grouping\<close>

record FolderGroup =
  g_folder :: string
  g_sessions :: "Session list"

text \<open>File a session under its folder, behind the groups there are when it is a new one.\<close>

fun file_session :: "string \<Rightarrow> Session \<Rightarrow> FolderGroup list \<Rightarrow> FolderGroup list" where
  "file_session folder s [] = [\<lparr>g_folder = folder, g_sessions = [s]\<rparr>]"
| "file_session folder s (g # gs) =
     (if g_folder g = folder then g\<lparr>g_sessions := g_sessions g @ [s]\<rparr> # gs else g # file_session folder s gs)"

definition groupSessionsByFolder :: "Session list \<Rightarrow> FolderGroup list" where
  "groupSessionsByFolder ss =
     (let groups = fold (\<lambda>s. file_session (param s ''folder'') s) ss [\<lparr>g_folder = [], g_sessions = []\<rparr>]
      in if g_sessions (hd groups) = [] then tl groups else groups)"

definition folderNames :: "Session list \<Rightarrow> string list" where
  "folderNames ss =
     fold (\<lambda>s names. let f = param s ''folder'' in if f \<noteq> [] \<and> f \<notin> set names then names @ [f] else names) ss []"

section \<open>Editing the list\<close>

definition find_index :: "string \<Rightarrow> Session list \<Rightarrow> nat option" where
  "find_index n ss = List.find (\<lambda>i. s_name (ss ! i) = n) [0..<length ss]"

definition renameSessionInList :: "Session list \<Rightarrow> string \<Rightarrow> string \<Rightarrow> bool \<times> Session list" where
  "renameSessionInList ss oldName newName =
     (let target = trimmed newName
      in if target = [] then (False, ss)
         else case find_index oldName ss of
                None \<Rightarrow> (False, ss)
              | Some i \<Rightarrow>
                  if target = oldName then (True, ss)
                  else if list_ex (\<lambda>j. j \<noteq> i \<and> s_name (ss ! j) = target) [0..<length ss] then (False, ss)
                  else (True, ss[i := (ss ! i)\<lparr>s_name := target\<rparr>]))"

definition set_in_list :: "string \<Rightarrow> Session list \<Rightarrow> string \<Rightarrow> string \<Rightarrow> bool \<times> Session list" where
  "set_in_list key ss n v =
     (case find_index n ss of
        None \<Rightarrow> (False, ss)
      | Some i \<Rightarrow> (True, ss[i := setParam key (trimmed v) (ss ! i)]))"

definition moveSessionToFolder :: "Session list \<Rightarrow> string \<Rightarrow> string \<Rightarrow> bool \<times> Session list" where
  "moveSessionToFolder = set_in_list ''folder''"

definition setSessionIcon :: "Session list \<Rightarrow> string \<Rightarrow> string \<Rightarrow> bool \<times> Session list" where
  "setSessionIcon = set_in_list ''icon''"

definition renameFolderInList :: "Session list \<Rightarrow> string \<Rightarrow> string \<Rightarrow> nat \<times> Session list" where
  "renameFolderInList ss oldFolder newFolder =
     (length (filter (\<lambda>s. param s ''folder'' = oldFolder) ss),
      map (\<lambda>s. if param s ''folder'' = oldFolder then setParam ''folder'' (trimmed newFolder) s else s) ss)"

definition taken :: "Session list \<Rightarrow> string \<Rightarrow> bool" where
  "taken ss n = list_ex (\<lambda>s. s_name s = n) ss"

definition copy_name :: "string \<Rightarrow> nat \<Rightarrow> string" where
  "copy_name base n = base @ '' (copy '' @ dec_of_nat n @ '')''"

definition contains_ci :: "string \<Rightarrow> string \<Rightarrow> bool" where
  "contains_ci field q = list_ex (\<lambda>i. starts_with (to_lower q) (drop i (to_lower field))) [0..<Suc (length field)]"

definition sessionMatchesFilter :: "Session \<Rightarrow> string \<Rightarrow> bool" where
  "sessionMatchesFilter s query =
     (let q = trimmed query
      in q = [] \<or> contains_ci (s_name s) q \<or> contains_ci (param s ''host'') q \<or>
         contains_ci (param s ''username'') q \<or> contains_ci (param s ''folder'') q)"

text \<open>The search for a free copy name ends: the candidates differ, and only finitely many names
  are taken.\<close>

lemma copy_name_inj: "copy_name b m = copy_name b n \<Longrightarrow> m = n"
  by (simp add: copy_name_def) (metis digits_val_dec)

lemma taken_finite: "finite {k. n \<le> k \<and> taken ss (copy_name base k)}"
proof -
  have "{k. n \<le> k \<and> taken ss (copy_name base k)} \<subseteq> copy_name base -` (s_name ` set ss)"
    by (auto simp: taken_def list_ex_iff) (metis imageI)
  moreover have "finite (copy_name base -` (s_name ` set ss))"
    by (rule finite_vimageI) (auto simp: inj_on_def dest: copy_name_inj)
  ultimately show ?thesis by (rule finite_subset)
qed

function copy_loop :: "Session list \<Rightarrow> string \<Rightarrow> nat \<Rightarrow> string \<Rightarrow> string" where
  "copy_loop ss base n candidate =
     (if taken ss candidate then copy_loop ss base (n + 1) (copy_name base n) else candidate)"
  by pat_completeness auto
termination
proof (relation "measure (\<lambda>(ss, base, n, cand). card {k. n \<le> k \<and> taken ss (copy_name base k)} + of_bool (taken ss cand))")
  fix ss base n cand assume cand: "taken ss cand"
  let ?K = "\<lambda>m. {k. m \<le> k \<and> taken ss (copy_name base k)}"
  have "?K n = (if taken ss (copy_name base n) then insert n (?K (n + 1)) else ?K (n + 1))"
    by (auto simp: Suc_le_eq dest: le_neq_implies_less)
  then have "card (?K n) = card (?K (n + 1)) + of_bool (taken ss (copy_name base n))"
    using taken_finite [of "n + 1" ss base] by simp
  with cand show "((ss, base, n + 1, copy_name base n), ss, base, n, cand) \<in>
      measure (\<lambda>(ss, base, n, cand). card {k. n \<le> k \<and> taken ss (copy_name base k)} + of_bool (taken ss cand))"
    by simp
qed simp

declare copy_loop.simps [simp del]

definition uniqueCopyName :: "Session list \<Rightarrow> string \<Rightarrow> string" where
  "uniqueCopyName ss base = copy_loop ss base 2 (base @ '' (copy)'')"

end
