(* ===== verification/Session_Edit.thy ===== *)
theory Session_Edit
  imports Sessions
begin

text \<open>
  Correctness of the operations on the list of sessions: the copy names, the edits of the
  bookmark menu and the grouping for display.
\<close>

section \<open>Copy names\<close>

lemma copy_loop_result:
  "\<not> taken ss (copy_loop ss base n cand) \<and>
   (copy_loop ss base n cand = cand \<or>
    (taken ss cand \<and> (\<exists>m. n \<le> m \<and> copy_loop ss base n cand = copy_name base m \<and>
       list_all (\<lambda>k. taken ss (copy_name base k)) [n..<m])))"
proof (induction ss base n cand rule: copy_loop.induct)
  case (1 ss base n cand)
  show ?case
  proof (cases "taken ss cand")
    case True
    then have step: "copy_loop ss base n cand = copy_loop ss base (n + 1) (copy_name base n)"
      by (simp add: copy_loop.simps)
    from "1.IH" [OF True] consider "copy_loop ss base (n + 1) (copy_name base n) = copy_name base n"
      | m where "taken ss (copy_name base n)" "n + 1 \<le> m" "copy_loop ss base (n + 1) (copy_name base n) = copy_name base m"
        "list_all (\<lambda>k. taken ss (copy_name base k)) [n + 1..<m]" by blast
    then show ?thesis
    proof cases
      case 1
      have "\<not> taken ss (copy_loop ss base n cand)" using "1.IH" [OF True] by (simp add: step)
      moreover have "copy_loop ss base n cand = copy_name base n" using 1 step by simp
      moreover have "list_all (\<lambda>k. taken ss (copy_name base k)) [n..<n]" by simp
      ultimately show ?thesis using True by blast
    next
      case 2
      then have "[n..<m] = n # [n + 1..<m]" by (simp add: upt_conv_Cons)
      with 2 have "list_all (\<lambda>k. taken ss (copy_name base k)) [n..<m]" by simp
      moreover have "n \<le> m" using 2 by simp
      moreover have "\<not> taken ss (copy_loop ss base n cand)" using "1.IH" [OF True] by (simp add: step)
      ultimately show ?thesis using 2 True step by metis
    qed
  next
    case False
    then show ?thesis by (simp add: copy_loop.simps)
  qed
qed

section \<open>Edits\<close>

lemma find_index_Some: "find_index n ss = Some i \<Longrightarrow> i < length ss \<and> s_name (ss ! i) = n"
  by (auto simp: find_index_def find_Some_iff)

text \<open>The edits of the context menu, with the copy a session is duplicated as.\<close>

datatype edit =
    Rename string string
  | Move string string
  | SetIcon string string
  | RenameFolder string string
  | Duplicate string

fun apply_edit :: "edit \<Rightarrow> Session list \<Rightarrow> Session list" where
  "apply_edit (Rename n m) ss = snd (renameSessionInList ss n m)"
| "apply_edit (Move n f) ss = snd (moveSessionToFolder ss n f)"
| "apply_edit (SetIcon n i) ss = snd (setSessionIcon ss n i)"
| "apply_edit (RenameFolder f g) ss = snd (renameFolderInList ss f g)"
| "apply_edit (Duplicate n) ss =
     (case find_index n ss of
        None \<Rightarrow> ss
      | Some i \<Rightarrow> ss @ [(ss ! i)\<lparr>s_name := uniqueCopyName ss n\<rparr>])"

lemma setParam_simps [simp]: "s_name (setParam k v s) = s_name s" "s_type (setParam k v s) = s_type s"
  by (simp_all add: setParam_def)

lemma names_update: "i < length ss \<Longrightarrow> s_name s = s_name (ss ! i) \<Longrightarrow> map s_name (ss[i := s]) = map s_name ss"
  by (metis list_update_id map_update)

lemma names_set_in_list: "map s_name (snd (set_in_list k ss n v)) = map s_name ss"
  by (auto simp: set_in_list_def names_update dest!: find_index_Some split: option.split)

lemma distinct_rename:
  assumes "distinct (map s_name ss)"
  shows "distinct (map s_name (snd (renameSessionInList ss n m)))"
proof -
  have "distinct ((map s_name ss)[i := t])" if "\<forall>j \<in> {0..<length ss}. j = i \<or> s_name (ss ! j) \<noteq> t" for i t
  proof (rule distinct_list_update [OF assms])
    have "j = i" if "j < length ss" "s_name (ss ! j) = t" for j
      using that \<open>\<forall>j \<in> {0..<length ss}. j = i \<or> s_name (ss ! j) \<noteq> t\<close> by auto
    then show "t \<notin> set (map s_name ss) - {map s_name ss ! i}"
      by (auto simp: in_set_conv_nth)
  qed
  then show ?thesis
    using assms by (auto simp: renameSessionInList_def Let_def map_update list_ex_iff split: option.split)
qed

lemma not_taken_names: "\<not> taken ss n \<longleftrightarrow> n \<notin> set (map s_name ss)"
  by (auto simp: taken_def list_ex_iff)

lemma distinct_edit: "distinct (map s_name ss) \<Longrightarrow> distinct (map s_name (apply_edit e ss))"
proof (induction e ss rule: apply_edit.induct)
  case (1 n m ss)
  then show ?case by (simp add: distinct_rename)
next
  case (4 f g ss)
  have "map s_name (snd (renameFolderInList ss f g)) = map s_name ss"
    by (simp add: renameFolderInList_def)
  then show ?case using 4 by simp
next
  case (5 n ss)
  have "uniqueCopyName ss n \<notin> set (map s_name ss)"
    unfolding not_taken_names [symmetric] uniqueCopyName_def by (rule copy_loop_result [THEN conjunct1])
  then show ?case using 5 by (simp split: option.split)
qed (simp_all add: moveSessionToFolder_def setSessionIcon_def names_set_in_list)

section \<open>Grouping\<close>

text \<open>The groups of a list: one per label, with the sessions of that label.\<close>

definition group_of :: "Session list \<Rightarrow> string \<Rightarrow> FolderGroup" where
  "group_of ss f = \<lparr>g_folder = f, g_sessions = filter (\<lambda>s. param s ''folder'' = f) ss\<rparr>"

definition add_label :: "string \<Rightarrow> string list \<Rightarrow> string list" where
  "add_label f labels = (if f \<in> set labels then labels else labels @ [f])"

lemma distinct_add_label: "distinct labels \<Longrightarrow> distinct (add_label f labels)"
  by (simp add: add_label_def)

lemma group_of_simps [simp]: "g_folder (group_of ss f) = f"
  "g_sessions (group_of ss f) = filter (\<lambda>s. param s ''folder'' = f) ss"
  by (simp_all add: group_of_def)

lemma group_of_snoc:
  "group_of (ss @ [s]) f = (if param s ''folder'' = f then (group_of ss f)\<lparr>g_sessions := g_sessions (group_of ss f) @ [s]\<rparr> else group_of ss f)"
  by (simp add: group_of_def)

lemma file_session_groups:
  assumes "distinct labels" and "F \<notin> set labels \<Longrightarrow> filter (\<lambda>s. param s ''folder'' = F) ss = []" and "F = param s ''folder''"
  shows "file_session F s (map (group_of ss) labels) = map (group_of (ss @ [s])) (add_label F labels)"
  using assms
proof (induction labels)
  case Nil
  then show ?case by (simp add: add_label_def group_of_def)
next
  case (Cons l labels)
  show ?case
  proof (cases "F = l")
    case True
    then have "map (group_of (ss @ [s])) labels = map (group_of ss) labels"
      using Cons.prems by (auto simp: group_of_snoc)
    with True Cons.prems(3) show ?thesis by (simp add: add_label_def group_of_snoc)
  next
    case False
    then have "file_session F s (map (group_of ss) labels) = map (group_of (ss @ [s])) (add_label F labels)"
      using Cons.prems by (intro Cons.IH) auto
    then show ?thesis using False Cons.prems(3) by (simp add: add_label_def group_of_snoc)
  qed
qed

lemma file_sessions_groups:
  assumes "distinct labels" and "\<forall>s \<in> set pre. param s ''folder'' \<in> set labels"
  shows "fold (\<lambda>s. file_session (param s ''folder'') s) ss (map (group_of pre) labels) =
    map (group_of (pre @ ss)) (fold (\<lambda>s. add_label (param s ''folder'')) ss labels)"
  using assms
proof (induction ss arbitrary: pre labels)
  case (Cons s ss)
  let ?l = "add_label (param s ''folder'') labels"
  have "file_session (param s ''folder'') s (map (group_of pre) labels) = map (group_of (pre @ [s])) ?l"
    using Cons.prems by (intro file_session_groups) (auto simp: filter_empty_conv)
  moreover have "distinct ?l" "\<forall>x \<in> set (pre @ [s]). param x ''folder'' \<in> set ?l"
    using Cons.prems by (auto simp: add_label_def)
  ultimately show ?case using Cons.IH [of ?l "pre @ [s]"] by simp
qed simp

text \<open>The labels, after the one of the loose sessions, are the folder names.\<close>

lemma labels_folderNames:
  "fold (\<lambda>s. add_label (param s ''folder'')) ss ([] # names) =
   [] # fold (\<lambda>s names. let f = param s ''folder'' in if f \<noteq> [] \<and> f \<notin> set names then names @ [f] else names) ss names"
  by (induction ss arbitrary: names) (auto simp: add_label_def Let_def)

section \<open>Properties\<close>

text \<open>C33: The search for the name of a copy ends with a name that is not in use, the first such
  one: the base with \<open>(copy)\<close>, or with the smallest number from 2 on that is free.\<close>

theorem unique_copy_name_free:
  "\<not> taken ss (uniqueCopyName ss base) \<and>
   (uniqueCopyName ss base = base @ '' (copy)'' \<or>
    (taken ss (base @ '' (copy)'') \<and> (\<exists>m. 2 \<le> m \<and> uniqueCopyName ss base = copy_name base m \<and>
       list_all (\<lambda>k. taken ss (copy_name base k)) [2..<m])))"
  unfolding uniqueCopyName_def by (rule copy_loop_result)

text \<open>The bookmark menu keeps session names unique: after any edits of a list whose names
  differ, they still do.\<close>

theorem session_names_distinct:
  assumes "distinct (map s_name ss)"
  shows "distinct (map s_name (fold apply_edit es ss))"
  using assms by (induction es arbitrary: ss) (simp_all add: distinct_edit)

text \<open>Grouping is filtering: the tree shows, for the loose sessions if there are any and then
  for each folder name in the order of first use, exactly the sessions filed there, in their order.\<close>

theorem group_sessions_filter:
  "groupSessionsByFolder ss =
     map (group_of ss) ((if list_ex (\<lambda>s. param s ''folder'' = []) ss then [[]] else []) @ folderNames ss)"
proof -
  have init: "[\<lparr>g_folder = [], g_sessions = []\<rparr>] = map (group_of []) [[]]" by (simp add: group_of_def)
  have "fold (\<lambda>s. file_session (param s ''folder'') s) ss [\<lparr>g_folder = [], g_sessions = []\<rparr>] =
      map (group_of ss) ([] # folderNames ss)"
    unfolding init by (subst file_sessions_groups) (simp_all add: labels_folderNames folderNames_def)
  then show ?thesis
    by (auto simp: groupSessionsByFolder_def Let_def filter_empty_conv list_ex_iff)
qed

section \<open>Witnesses\<close>

theorem session_names_distinct_witness:
  "distinct (map s_name (fold apply_edit [Duplicate ''a'', Rename ''b'' ''a (copy)'', Duplicate ''a'']
     [new_session ''a'' Ssh, new_session ''b'' Rdp]))"
  by (rule session_names_distinct) (simp add: new_session_def)

end
