(* ===== verification/Session_Form.thy ===== *)
theory Session_Form
  imports Sessions
begin

text \<open>
  \<open>src/src/core/SessionForm\<close>: the session editor's fields and back, validation, and the options of
  the \<open>Advanced\<close> tab. What one pass through the editor does to a session is stated in full; it
  is the identity on network sessions, and loses the device of a serial one.
\<close>

definition kCoreFields :: "string list" where
  "kCoreFields = [''name'', ''type'', ''host'', ''port'', ''username'']"

abbreviation field :: "fields \<Rightarrow> string \<Rightarrow> string" where
  "field f k \<equiv> qvalue f k []"

definition toSession :: "fields \<Rightarrow> Session" where
  "toSession f =
     (let s = new_session (field f ''name'') (sessionTypeFromString (field f ''type''));
          s = (if qcontains f ''host'' then setParam ''host'' (field f ''host'') s else s);
          s = (if qcontains f ''username'' then setParam ''username'' (field f ''username'') s else s);
          s = (if qcontains f ''port''
               then (case to_int (field f ''port'') of Some p \<Rightarrow> if 0 < p then setPort p s else s | None \<Rightarrow> s)
               else s)
      in fold (\<lambda>(k, v). if k \<notin> set kCoreFields then setParam k v else (\<lambda>s. s)) f s)"

definition fromSession :: "Session \<Rightarrow> fields" where
  "fromSession s =
     (let f = qinsert ''name'' (s_name s) [];
          f = qinsert ''type'' (sessionTypeToString (s_type s)) f;
          f = qinsert ''host'' (param s ''host'') f;
          f = qinsert ''username'' (param s ''username'') f;
          f = (if qcontains (s_params s) ''port'' then qinsert ''port'' (param s ''port'') f else f)
      in fold (\<lambda>(k, v). if k \<notin> set kCoreFields then qinsert k v else (\<lambda>f. f)) (s_params s) f)"

text \<open>The empty text is success.\<close>

definition validate :: "fields \<Rightarrow> string" where
  "validate f =
     (if trimmed (field f ''name'') = [] then ''Session name is required''
      else let t = sessionTypeFromString (field f ''type'')
           in if t = Unknown then ''Unknown session type''
              else if t \<noteq> Shell \<and> t \<noteq> Serial \<and> trimmed (field f ''host'') = []
              then ''Host is required for this session type''
              else if t = Serial \<and> trimmed (field f ''port'') = [] then ''Serial port is required''
              else [])"

record AdvancedOptions =
  compression :: bool
  x11 :: bool
  agent :: bool
  agentForward :: bool
  sshKeepalive :: int
  sshRemoteCommand :: string
  sshStayOpen :: bool
  gatewayUser :: string
  gatewayPassword :: string
  gatewayPassphrase :: string
  domain :: string
  rdpWidth :: int
  rdpHeight :: int
  rdpClipboard :: bool
  rdpDrives :: bool
  rdpAudio :: bool
  rdpNla :: bool
  rdpIgnoreCert :: bool
  vncViewOnly :: bool

definition put_if :: "bool \<Rightarrow> string \<Rightarrow> string \<Rightarrow> fields \<Rightarrow> fields" where
  "put_if b k v f = (if b then qinsert k v f else f)"

definition applyAdvanced :: "SessionType \<Rightarrow> bool \<Rightarrow> AdvancedOptions \<Rightarrow> fields \<Rightarrow> fields" where
  "applyAdvanced t hasGateway opts f =
     (let f = (if t = Ssh
               then put_if (sshStayOpen opts) ''stayopen'' ''1''
                     (put_if (sshRemoteCommand opts \<noteq> []) ''remotecommand'' (sshRemoteCommand opts)
                     (put_if (0 < sshKeepalive opts) ''keepalive'' (dec_of_int (sshKeepalive opts))
                     (put_if (agentForward opts) ''agentforward'' ''1''
                     (put_if (agent opts) ''agent'' ''1''
                     (put_if (\<not> x11 opts) ''x11'' ''0''
                     (put_if (compression opts) ''compression'' ''1'' f))))))
               else f);
          f = (if hasGateway
               then put_if (gatewayPassphrase opts \<noteq> []) ''gateway_passphrase'' (gatewayPassphrase opts)
                     (put_if (gatewayPassword opts \<noteq> []) ''gateway_password'' (gatewayPassword opts)
                     (put_if (gatewayUser opts \<noteq> []) ''gateway_user'' (gatewayUser opts) f))
               else f);
          f = (if t = Rdp
               then put_if (rdpIgnoreCert opts) ''ignorecert'' ''1''
                     (put_if (\<not> rdpNla opts) ''nla'' ''0''
                     (put_if (rdpAudio opts) ''redirect_audio'' ''1''
                     (put_if (rdpDrives opts) ''redirect_drives'' ''1''
                     (put_if (\<not> rdpClipboard opts) ''redirect_clipboard'' ''0''
                     (put_if (0 < rdpWidth opts \<and> 0 < rdpHeight opts) ''height'' (dec_of_int (rdpHeight opts))
                     (put_if (0 < rdpWidth opts \<and> 0 < rdpHeight opts) ''width'' (dec_of_int (rdpWidth opts))
                     (put_if (domain opts \<noteq> []) ''domain'' (domain opts) f)))))))
               else f)
      in if t = Vnc then put_if (vncViewOnly opts) ''viewonly'' ''1'' f else f)"

section \<open>One pass through the editor\<close>

lemma type_name_roundtrip: "sessionTypeFromString (sessionTypeToString t) = t"
proof -
  have "list_all (\<lambda>t. sessionTypeFromString (sessionTypeToString t) = t) (map fst typeNames)" by code_simp
  then show ?thesis by (cases t) (simp_all add: typeNames_def)
qed

lemma setParam_params [simp]: "s_params (setParam k v s) = qinsert k v (s_params s)"
  "s_name (setParam k v s) = s_name s" "s_type (setParam k v s) = s_type s"
  by (simp_all add: setParam_def)

lemma fold_setParam:
  "s_params (fold (\<lambda>(k, v). if P k then setParam k v else (\<lambda>s. s)) kvs s) =
     fold (\<lambda>(k, v). if P k then qinsert k v else (\<lambda>m. m)) kvs (s_params s) \<and>
   s_name (fold (\<lambda>(k, v). if P k then setParam k v else (\<lambda>s. s)) kvs s) = s_name s \<and>
   s_type (fold (\<lambda>(k, v). if P k then setParam k v else (\<lambda>s. s)) kvs s) = s_type s"
  by (induction kvs arbitrary: s) auto

lemma fold_qinsert_ok:
  "qmap_ok m \<Longrightarrow> qmap_ok (fold (\<lambda>(k, v). if P k then qinsert k v else (\<lambda>m. m)) kvs m)"
  by (induction kvs arbitrary: m) auto

lemma look_inserts_id:
  "map_of (fold (\<lambda>(k, v). if P k then qinsert k v else (\<lambda>m. m)) kvs m) x =
     (if P x then case map_of (rev kvs) x of None \<Rightarrow> map_of m x | Some v \<Rightarrow> Some v else map_of m x)"
  by (rule qmap.look_inserts_if [where f = "\<lambda>v. v"])

lemma core_strings [simp]:
  "''name'' \<in> set kCoreFields" "''type'' \<in> set kCoreFields" "''host'' \<in> set kCoreFields"
  "''port'' \<in> set kCoreFields" "''username'' \<in> set kCoreFields"
  by (simp_all add: kCoreFields_def)

lemma not_core: "k \<notin> set kCoreFields \<Longrightarrow>
    k \<noteq> ''name'' \<and> k \<noteq> ''type'' \<and> k \<noteq> ''host'' \<and> k \<noteq> ''port'' \<and> k \<noteq> ''username''"
  by (auto simp: kCoreFields_def)

lemma core_cases [case_names name type host port username other]:
  obtains "k = ''name''" | "k = ''type''" | "k = ''host''" | "k = ''port''" | "k = ''username''" | "k \<notin> set kCoreFields"
  by (auto simp: kCoreFields_def)

lemma fromSession_ok: "qmap_ok (fromSession s)"
  unfolding fromSession_def Let_def by (intro fold_qinsert_ok) simp

lemma map_of_fromSession:
  assumes "qmap_ok (s_params s)"
  shows "map_of (fromSession s) k =
     (if k \<notin> set kCoreFields then map_of (s_params s) k
      else if k = ''name'' then Some (s_name s)
      else if k = ''type'' then Some (sessionTypeToString (s_type s))
      else if k = ''host'' then Some (param s ''host'')
      else if k = ''username'' then Some (param s ''username'')
      else map_of (s_params s) k)"
proof -
  have port_param: "qcontains (s_params s) ''port'' \<Longrightarrow> Some (param s ''port'') = map_of (s_params s) ''port''"
    by (auto simp: qcontains_def param_def_def qvalue_def)
  note unf = fromSession_def Let_def look_inserts_id map_of_rev_ok [OF assms]
  show ?thesis
  proof (cases k rule: core_cases)
    case other
    then show ?thesis using not_core [OF other] by (simp add: unf split: option.split)
  next
    case port
    then show ?thesis using port_param by (simp add: unf qcontains_def)
  qed (simp_all add: unf)
qed

lemma param_toSession:
  assumes "qmap_ok f"
  shows "map_of (s_params (toSession f)) k =
     (if k \<notin> set kCoreFields then map_of f k
      else if k = ''host'' \<or> k = ''username'' then map_of f k
      else if k = ''port'' then
        (case to_int (field f ''port'') of Some p \<Rightarrow> if 0 < p then Some (dec_of_int p) else None | None \<Rightarrow> None)
      else None)"
proof -
  have empty: "\<not> qcontains f ''port'' \<Longrightarrow> to_int (field f ''port'') = None"
    by (simp add: qcontains_def qvalue_def) code_simp
  have some: "qcontains f x \<Longrightarrow> Some (field f x) = map_of f x" for x
    by (auto simp: qcontains_def qvalue_def)
  note unf = toSession_def Let_def fold_setParam look_inserts_id map_of_rev_ok [OF assms] new_session_def
  show ?thesis
  proof (cases k rule: core_cases)
    case other
    then show ?thesis using not_core [OF other] by (simp add: unf split: option.split)
  next
    case port
    then show ?thesis using empty by (simp add: unf split: option.split)
  next
    case host
    then show ?thesis using some [of k] by (simp add: unf qcontains_def split: option.split)
  next
    case username
    then show ?thesis using some [of k] by (simp add: unf qcontains_def split: option.split)
  qed (simp_all add: unf split: option.split)
qed

lemma toSession_ok: "qmap_ok (s_params (toSession f))"
  unfolding toSession_def Let_def
  by (auto simp: fold_setParam new_session_def intro!: fold_qinsert_ok split: option.split)

lemma toSession_core: "s_name (toSession f) = field f ''name''"
  "s_type (toSession f) = sessionTypeFromString (field f ''type'')"
  unfolding toSession_def Let_def by (auto simp: fold_setParam new_session_def split: option.split)

section \<open>Properties\<close>

text \<open>A session survives the editor: with a host and a user name, a port that is absent or
  the decimal of a positive number, and no parameter called \<open>name\<close> or \<open>type\<close>, turning it into
  fields and back gives the same session.\<close>

theorem session_form_roundtrip:
  assumes "qmap_ok (s_params s)" and "qcontains (s_params s) ''host''" and "qcontains (s_params s) ''username''"
    and "\<not> qcontains (s_params s) ''name''" and "\<not> qcontains (s_params s) ''type''"
    and "map_of (s_params s) ''port'' \<in> {None} \<union> (\<lambda>p. Some (dec_of_int p)) ` {1..<2 ^ 31}"
  shows "toSession (fromSession s) = s"
proof -
  let ?f = "fromSession s"
  note f = map_of_fromSession [OF assms(1)]
  have "map_of (s_params (toSession ?f)) = map_of (s_params s)"
  proof (rule ext)
    fix k
    have port: "(case to_int (field ?f ''port'') of Some p \<Rightarrow> if 0 < p then Some (dec_of_int p) else None | None \<Rightarrow> None) =
        map_of (s_params s) ''port''"
    proof (cases "map_of (s_params s) ''port''")
      case None
      have "to_int [] = None" by code_simp
      with None show ?thesis by (simp add: qvalue_def f)
    next
      case (Some v)
      then obtain p where p: "v = dec_of_int p" "0 < p" "p < 2 ^ 31" using assms(6) by auto
      then have "to_int v = Some p" by (simp add: to_int_dec_of_int fitsInt_def)
      with Some p show ?thesis by (simp add: qvalue_def f)
    qed
    show "map_of (s_params (toSession ?f)) k = map_of (s_params s) k"
      using assms(2-5) port
      by (cases k rule: core_cases) (auto simp: param_toSession [OF fromSession_ok] f qcontains_def param_def_def qvalue_def)
  qed
  then have "s_params (toSession ?f) = s_params s" by (intro qmap_eqI toSession_ok assms(1))
  moreover have "s_name (toSession ?f) = s_name s" "s_type (toSession ?f) = s_type s"
    by (simp_all add: toSession_core qvalue_def f type_name_roundtrip)
  ultimately show ?thesis by simp
qed

text \<open>A serial session does not: its port is the name of a device, not a number, and is gone
  after one pass through the editor.\<close>

theorem session_form_loses_device:
  assumes "qmap_ok (s_params s)" and "s_type s = Serial" and "to_int (param s ''port'') = None"
  shows "s_type (toSession (fromSession s)) = Serial \<and> param (toSession (fromSession s)) ''port'' = []"
proof -
  have "field (fromSession s) ''port'' = param s ''port''"
    by (simp add: qvalue_def map_of_fromSession [OF assms(1)] param_def_def)
  then have "map_of (s_params (toSession (fromSession s))) ''port'' = None"
    using assms(3) by (simp add: param_toSession [OF fromSession_ok])
  then show ?thesis
    by (simp add: toSession_core param_def_def qvalue_def map_of_fromSession [OF assms(1)] assms(2) type_name_roundtrip)
qed

section \<open>Witnesses\<close>

theorem session_form_roundtrip_witness:
  "toSession (fromSession \<lparr>s_name = ''web'', s_type = Ssh,
     s_params = [(''host'', ''h''), (''keyfile'', ''k''), (''port'', ''2222''), (''username'', ''u'')]\<rparr>) =
   \<lparr>s_name = ''web'', s_type = Ssh,
     s_params = [(''host'', ''h''), (''keyfile'', ''k''), (''port'', ''2222''), (''username'', ''u'')]\<rparr>"
proof (rule session_form_roundtrip)
  have "''2222'' = dec_of_int 2222" by code_simp
  then show "map_of (s_params \<lparr>s_name = ''web'', s_type = Ssh,
     s_params = [(''host'', ''h''), (''keyfile'', ''k''), (''port'', ''2222''), (''username'', ''u'')]\<rparr>) ''port''
     \<in> {None} \<union> (\<lambda>p. Some (dec_of_int p)) ` {1..<2 ^ 31}" by (auto intro: image_eqI [where x = 2222])
qed code_simp+

theorem session_form_loses_device_witness:
  "param (toSession (fromSession \<lparr>s_name = ''console'', s_type = Serial, s_params = [(''port'', ''/dev/ttyUSB0'')]\<rparr>)) ''port'' = []"
proof -
  have "qmap_ok [(''port'', ''/dev/ttyUSB0'')]"
    "to_int (param \<lparr>s_name = ''console'', s_type = Serial, s_params = [(''port'', ''/dev/ttyUSB0'')]\<rparr> ''port'') = None"
    by code_simp+
  then show ?thesis
    using session_form_loses_device [of "\<lparr>s_name = ''console'', s_type = Serial, s_params = [(''port'', ''/dev/ttyUSB0'')]\<rparr>"]
    by simp
qed

end
