(* ===== verification/Text_Diff.thy ===== *)
theory Text_Diff
  imports Qt_Core
begin

text \<open>
  \<open>src/src/tools/TextDiff\<close>: the line diff. The table of longest common subsequences is filled from
  the last row and the last column as in the code, and then walked from the start. Against the
  definition of a common subsequence, the diff explains both texts and keeps as many lines as
  any common subsequence has.
\<close>

datatype Kind = Equal | Added | Removed

type_synonym 'a diff_line = "Kind \<times> 'a"

section \<open>The table\<close>

text \<open>Row \<open>i\<close> from row \<open>i + 1\<close>, from right to left; then all rows, from the bottom.\<close>

fun lcs_row :: "'a \<Rightarrow> 'a list \<Rightarrow> nat list \<Rightarrow> nat list" where
  "lcs_row a [] below = [0]"
| "lcs_row a (b # bs) below =
     (let row = lcs_row a bs (tl below)
      in (if a = b then below ! 1 + 1 else max (below ! 0) (row ! 0)) # row)"

fun lcs_table :: "'a list \<Rightarrow> 'a list \<Rightarrow> nat list list" where
  "lcs_table [] B = [replicate (length B + 1) 0]"
| "lcs_table (a # A) B = (let t = lcs_table A B in lcs_row a B (t ! 0) # t)"

section \<open>The walk\<close>

function walk :: "nat list list \<Rightarrow> 'a list \<Rightarrow> 'a list \<Rightarrow> nat \<Rightarrow> nat \<Rightarrow> 'a diff_line list" where
  "walk lcs A B i j =
     (if i < length A \<and> j < length B
      then if A ! i = B ! j then (Equal, A ! i) # walk lcs A B (i + 1) (j + 1)
           else if lcs ! i ! (j + 1) \<le> lcs ! (i + 1) ! j then (Removed, A ! i) # walk lcs A B (i + 1) j
           else (Added, B ! j) # walk lcs A B i (j + 1)
      else map (Pair Removed) (drop i A) @ map (Pair Added) (drop j B))"
  by pat_completeness auto
termination by (relation "measure (\<lambda>(lcs, A, B, i, j). (length A - i) + (length B - j))") auto

declare walk.simps [simp del]

definition diff_lines :: "'a list \<Rightarrow> 'a list \<Rightarrow> 'a diff_line list" where
  "diff_lines A B = walk (lcs_table A B) A B 0 0"

definition diff :: "string \<Rightarrow> string \<Rightarrow> string diff_line list" where
  "diff a b = diff_lines (split_on (char_of (10 :: nat)) a) (split_on (char_of (10 :: nat)) b)"

definition counts :: "'a diff_line list \<Rightarrow> nat \<times> nat" where
  "counts d = fold (\<lambda>l (added, removed).
     if fst l = Added then (added + 1, removed) else if fst l = Removed then (added, removed + 1) else (added, removed)) d (0, 0)"

section \<open>What the table holds\<close>

fun lcs :: "'a list \<Rightarrow> 'a list \<Rightarrow> nat" where
  "lcs [] B = 0"
| "lcs A [] = 0"
| "lcs (a # A) (b # B) = (if a = b then lcs A B + 1 else max (lcs A (b # B)) (lcs (a # A) B))"

lemma lcs_Nil [simp]: "lcs A [] = 0"
  by (cases A) auto

definition suffixes_lcs :: "'a list \<Rightarrow> 'a list \<Rightarrow> nat list" where
  "suffixes_lcs A B = map (\<lambda>j. lcs A (drop j B)) [0..<Suc (length B)]"

lemma suffixes_lcs_Nil [simp]: "suffixes_lcs A [] = [0]"
  by (simp add: suffixes_lcs_def)

lemma suffixes_lcs_Cons: "suffixes_lcs A (b # B) = lcs A (b # B) # suffixes_lcs A B"
  unfolding suffixes_lcs_def length_Cons
  by (subst upt_conv_Cons) (simp_all add: map_Suc_upt [symmetric] comp_def del: upt_Suc)

lemma suffixes_lcs_nth0: "suffixes_lcs A B ! 0 = lcs A B"
  by (cases B) (simp_all add: suffixes_lcs_Cons)

lemma lcs_row_correct: "lcs_row a B (suffixes_lcs A B) = suffixes_lcs (a # A) B"
  by (induction B) (simp_all add: suffixes_lcs_Cons suffixes_lcs_nth0 Let_def)

lemma lcs_table_nth: "i \<le> length A \<Longrightarrow> lcs_table A B ! i = suffixes_lcs (drop i A) B"
proof (induction A arbitrary: i)
  case Nil
  then show ?case by (simp add: suffixes_lcs_def map_replicate_const)
next
  case (Cons a A)
  then show ?case using Cons.IH [of 0] by (cases i) (simp_all add: Let_def lcs_row_correct)
qed

lemma lcs_table_correct:
  "i \<le> length A \<Longrightarrow> j \<le> length B \<Longrightarrow> lcs_table A B ! i ! j = lcs (drop i A) (drop j B)"
  by (simp add: lcs_table_nth suffixes_lcs_def del: upt_Suc)

text \<open>No common subsequence is longer.\<close>

lemma lcs_upper: "subseq s A \<Longrightarrow> subseq s B \<Longrightarrow> length s \<le> lcs A B"
proof (induction A B arbitrary: s rule: lcs.induct)
  case (3 a A b B)
  show ?case
  proof (cases s)
    case (Cons x s')
    show ?thesis
    proof (cases "a = b")
      case True
      then have "subseq (if x = a then s' else s) A" "subseq (if x = a then s' else s) B"
        using "3.prems" by (auto simp: Cons split: if_splits)
      moreover have "subseq s' A" "subseq s' B"
        using "3.prems" Cons by (auto dest: subseq_Cons' split: if_splits)
      ultimately show ?thesis using "3.IH"(1) [OF True, of s'] True by (simp add: Cons)
    next
      case False
      have "subseq s A \<or> subseq s B" using "3.prems" False by (auto simp: Cons split: if_splits)
      then show ?thesis using "3.IH"(2,3) [OF False] "3.prems" False by fastforce
    qed
  qed simp
qed simp_all

section \<open>What the walk writes\<close>

abbreviation lines_of :: "Kind set \<Rightarrow> 'a diff_line list \<Rightarrow> 'a list" where
  "lines_of ks d \<equiv> map snd (filter (\<lambda>l. fst l \<in> ks) d)"

lemma snd_Pair [simp]: "snd \<circ> Pair k = id"
  by (simp add: fun_eq_iff)

lemma lines_of_map [simp]: "lines_of ks (map (Pair k) xs) = (if k \<in> ks then xs else [])"
  by (induction xs) simp_all

text \<open>The four cases of a step.\<close>

lemma walk_step:
  "i < length A \<Longrightarrow> j < length B \<Longrightarrow> A ! i = B ! j \<Longrightarrow>
    walk t A B i j = (Equal, A ! i) # walk t A B (i + 1) (j + 1)"
  "i < length A \<Longrightarrow> j < length B \<Longrightarrow> A ! i \<noteq> B ! j \<Longrightarrow> t ! i ! (j + 1) \<le> t ! (i + 1) ! j \<Longrightarrow>
    walk t A B i j = (Removed, A ! i) # walk t A B (i + 1) j"
  "i < length A \<Longrightarrow> j < length B \<Longrightarrow> A ! i \<noteq> B ! j \<Longrightarrow> \<not> t ! i ! (j + 1) \<le> t ! (i + 1) ! j \<Longrightarrow>
    walk t A B i j = (Added, B ! j) # walk t A B i (j + 1)"
  "\<not> (i < length A \<and> j < length B) \<Longrightarrow>
    walk t A B i j = map (Pair Removed) (drop i A) @ map (Pair Added) (drop j B)"
  by (auto simp: walk.simps [of t A B i j])

lemma drop_step: "i < length xs \<Longrightarrow> drop i xs = xs ! i # drop (i + 1) xs"
  by (simp add: Cons_nth_drop_Suc)

lemma walk_lines:
  assumes "i \<le> length A" and "j \<le> length B"
  shows "lines_of {Equal, Removed} (walk t A B i j) = drop i A \<and> lines_of {Equal, Added} (walk t A B i j) = drop j B"
  using assms
proof (induction t A B i j rule: walk.induct)
  case (1 t A B i j)
  consider "\<not> (i < length A \<and> j < length B)" | "i < length A" "j < length B" "A ! i = B ! j"
    | "i < length A" "j < length B" "A ! i \<noteq> B ! j" "t ! i ! (j + 1) \<le> t ! (i + 1) ! j"
    | "i < length A" "j < length B" "A ! i \<noteq> B ! j" "\<not> t ! i ! (j + 1) \<le> t ! (i + 1) ! j" by blast
  then show ?case
  proof cases
    case 1
    then have "drop i A = [] \<or> drop j B = []" by auto
    with 1 show ?thesis by (auto simp: walk_step)
  next
    case 2
    with "1.IH"(1) show ?thesis by (simp add: walk_step(1) drop_step [of i A] drop_step [of j B])
  next
    case 3
    with "1.IH"(2) show ?thesis using "1.prems"(2) by (simp add: walk_step(2) drop_step [of i A])
  next
    case 4
    with "1.IH"(3) show ?thesis using "1.prems"(1) by (simp add: walk_step(3) drop_step [of j B])
  qed
qed

lemma walk_equal:
  assumes "i \<le> length A" and "j \<le> length B"
  shows "length (lines_of {Equal} (walk (lcs_table A B) A B i j)) = lcs (drop i A) (drop j B)"
  using assms
proof (induction "lcs_table A B" A B i j rule: walk.induct)
  case (1 A B i j)
  let ?t = "lcs_table A B"
  consider "\<not> (i < length A \<and> j < length B)" | "i < length A" "j < length B" "A ! i = B ! j"
    | "i < length A" "j < length B" "A ! i \<noteq> B ! j" "?t ! i ! (j + 1) \<le> ?t ! (i + 1) ! j"
    | "i < length A" "j < length B" "A ! i \<noteq> B ! j" "\<not> ?t ! i ! (j + 1) \<le> ?t ! (i + 1) ! j" by blast
  then show ?case
  proof cases
    case 1
    then have "drop i A = [] \<or> drop j B = []" by auto
    with 1 show ?thesis by (auto simp: walk_step(4))
  next
    case 2
    with "1.hyps"(1) show ?thesis by (simp add: walk_step(1) drop_step [of i A] drop_step [of j B])
  next
    case 3
    then have "lcs (drop i A) (drop (j + 1) B) \<le> lcs (drop (i + 1) A) (drop j B)"
      by (simp add: lcs_table_correct)
    then have "lcs (drop i A) (drop j B) = lcs (drop (i + 1) A) (drop j B)"
      using 3 by (simp add: drop_step [of i A] drop_step [of j B] max_def)
    with "1.hyps"(2) 3 "1.prems"(2) show ?thesis by (simp add: walk_step(2))
  next
    case 4
    then have "\<not> lcs (drop i A) (drop (j + 1) B) \<le> lcs (drop (i + 1) A) (drop j B)"
      by (simp add: lcs_table_correct)
    then have "lcs (drop i A) (drop j B) = lcs (drop i A) (drop (j + 1) B)"
      using 4 by (simp add: drop_step [of i A] drop_step [of j B] max_def)
    with "1.hyps"(3) 4 "1.prems"(1) show ?thesis by (simp add: walk_step(3))
  qed
qed

lemma counts_fold:
  "fold (\<lambda>l (added, removed).
     if fst l = Added then (added + 1, removed) else if fst l = Removed then (added, removed + 1) else (added, removed)) d (a, r) =
   (a + length (lines_of {Added} d), r + length (lines_of {Removed} d))"
  by (induction d arbitrary: a r) (auto simp: split_def)

section \<open>Properties\<close>

text \<open>C38: The diff of two texts explains both: without the added lines it is the first, without the
  removed lines the second; no common subsequence of the two has more lines than are marked
  equal; and the counts are those of the marks.\<close>

theorem text_diff_optimal:
  assumes "subseq s (split_on (char_of (10 :: nat)) a)" and "subseq s (split_on (char_of (10 :: nat)) b)"
  shows "lines_of {Equal, Removed} (diff a b) = split_on (char_of (10 :: nat)) a \<and>
    lines_of {Equal, Added} (diff a b) = split_on (char_of (10 :: nat)) b \<and>
    length s \<le> length (lines_of {Equal} (diff a b)) \<and>
    counts (diff a b) = (length (lines_of {Added} (diff a b)), length (lines_of {Removed} (diff a b)))"
proof -
  let ?A = "split_on (char_of (10 :: nat)) a" and ?B = "split_on (char_of (10 :: nat)) b"
  have "length s \<le> length (lines_of {Equal} (diff a b))"
    using lcs_upper [OF assms] walk_equal [of 0 ?A 0 ?B] by (simp add: diff_def diff_lines_def)
  then show ?thesis
    using walk_lines [of 0 ?A 0 ?B] counts_fold [where a = 0 and r = 0] by (simp add: diff_def diff_lines_def counts_def)
qed

theorem text_diff_optimal_witness:
  "lines_of {Equal, Removed} (diff ''a'' ''a'') = split_on (char_of (10 :: nat)) ''a''"
proof -
  have "subseq [''a''] (split_on (char_of (10 :: nat)) ''a'')" by code_simp
  from text_diff_optimal [OF this this] show ?thesis by blast
qed

end
