(* ===== verification/Cron.thy ===== *)
theory Cron
  imports Qt_Core Checked
begin

text \<open>
  \<open>src/src/tools/CronExpr\<close> and \<open>CronServer\<close>: cron expressions as bit masks, when they are due, and
  the job list. Masks are words of the width of the code's fields; the loop over a range adds the
  step to an \<open>int\<close>, so it is checked for overflow. The reference the masks are compared with is
  the set of values a field denotes.
\<close>

section \<open>Fields\<close>

text \<open>The loop \<open>for (int v = a; v <= b; v += step) msk |= quint64(1) << v\<close>.\<close>

function mask_loop :: "int \<Rightarrow> int \<Rightarrow> int \<Rightarrow> u64 \<Rightarrow> fault + u64" where
  "mask_loop v b step msk =
     (if 0 < step \<and> v \<le> b
      then if fitsInt (v + step) then mask_loop (v + step) b step (msk OR push_bit (nat v) 1)
           else Inl SignedOverflow
      else ok msk)"
  by pat_completeness auto
termination
  by (relation "measure (\<lambda>(v, b, step, msk). nat (b + 1 - v))") auto

declare mask_loop.simps [simp del]

text \<open>The range of a part, as the parser reads it.\<close>

definition parse_range :: "string \<Rightarrow> int \<Rightarrow> int \<Rightarrow> (int \<times> int) option" where
  "parse_range part lo hi =
     (if part = ''*'' then Some (lo, hi)
      else case index_of (CHR ''-'') part of
             Some dash \<Rightarrow> (case (to_int (take dash part), to_int (drop (Suc dash) part)) of
                            (Some a, Some b) \<Rightarrow> Some (a, b) | _ \<Rightarrow> None)
           | None \<Rightarrow> map_option (\<lambda>n. (n, n)) (to_int part))"

text \<open>One element of a comma list: the range and the step, \<open>None\<close> when malformed.\<close>

definition parse_part :: "string \<Rightarrow> int \<Rightarrow> int \<Rightarrow> (int \<times> int \<times> int) option" where
  "parse_part partIn lo hi =
     (let slash = index_of (CHR ''/'') partIn;
          step = (case slash of None \<Rightarrow> Some 1
                  | Some i \<Rightarrow> (case to_int (drop (Suc i) partIn) of Some n \<Rightarrow> if n \<le> 0 then None else Some n | None \<Rightarrow> None));
          part = (case slash of None \<Rightarrow> partIn | Some i \<Rightarrow> take i partIn)
      in case step of None \<Rightarrow> None
         | Some st \<Rightarrow>
             (case parse_range part lo hi of None \<Rightarrow> None
              | Some (a, b) \<Rightarrow> if a < lo \<or> hi < b \<or> b < a then None else Some (a, b, st)))"

fun parse_parts :: "string list \<Rightarrow> int \<Rightarrow> int \<Rightarrow> u64 \<Rightarrow> fault + u64 option" where
  "parse_parts [] lo hi msk = ok (Some msk)"
| "parse_parts (p # ps) lo hi msk =
     (case parse_part p lo hi of
        None \<Rightarrow> ok None
      | Some (a, b, st) \<Rightarrow> bindF (mask_loop a b st msk) (parse_parts ps lo hi))"

definition parseField :: "string \<Rightarrow> int \<Rightarrow> int \<Rightarrow> fault + u64 option" where
  "parseField field lo hi =
     (let parts = split_skip (CHR '','') field
      in if parts = [] then ok None else parse_parts parts lo hi 0)"

definition fullMask :: "nat \<Rightarrow> nat \<Rightarrow> u64" where
  "fullMask lo hi = fold (\<lambda>v m. m OR push_bit v 1) [lo..<Suc hi] 0"

section \<open>Expressions\<close>

record CronExpr =
  m_valid :: bool
  m_min :: u64
  m_hour :: u32
  m_dom :: u32
  m_month :: u16
  m_dow :: byte

definition invalid_cron :: CronExpr where
  "invalid_cron = \<lparr>m_valid = False, m_min = 0, m_hour = 0, m_dom = 0, m_month = 0, m_dow = 0\<rparr>"

text \<open>\<open>simplified()\<close>: white space at the ends goes, inner runs become one space. Splitting at
  spaces and dropping empty parts then gives the words.\<close>

fun words_of :: "string \<Rightarrow> string \<Rightarrow> string list" where
  "words_of cur [] = (if cur = [] then [] else [cur])"
| "words_of cur (c # cs) =
     (if is_space c then (if cur = [] then [] else [cur]) @ words_of [] cs else words_of (cur @ [c]) cs)"

definition bind2 :: "fault + 'a option \<Rightarrow> ('a \<Rightarrow> fault + 'b option) \<Rightarrow> fault + 'b option" where
  "bind2 m f = bindF m (\<lambda>r. case r of None \<Rightarrow> ok None | Some x \<Rightarrow> f x)"

definition fold_sunday :: "u64 \<Rightarrow> u64" where
  "fold_sunday d = (if bit d 7 then d OR 1 else d) AND 0x7f"

definition cron_parse :: "string \<Rightarrow> fault + CronExpr" where
  "cron_parse expr =
     (case words_of [] expr of
        [f0, f1, f2, f3, f4] \<Rightarrow>
          bindF (bind2 (parseField f0 0 59) (\<lambda>m. bind2 (parseField f1 0 23) (\<lambda>h.
                 bind2 (parseField f2 1 31) (\<lambda>dom. bind2 (parseField f3 1 12) (\<lambda>mon.
                 bind2 (parseField f4 0 7) (\<lambda>d.
                   ok (Some \<lparr>m_valid = True, m_min = m, m_hour = ucast h, m_dom = ucast dom,
                             m_month = ucast mon, m_dow = ucast (fold_sunday d)\<rparr>)))))))
            (\<lambda>r. ok (case r of None \<Rightarrow> invalid_cron | Some c \<Rightarrow> c))
      | _ \<Rightarrow> ok invalid_cron)"

text \<open>The fields of a \<open>QDateTime\<close> that are read; \<open>dt_dow\<close> is 1 for Monday to 7 for Sunday.\<close>

record DateTime =
  dt_minute :: nat
  dt_hour :: nat
  dt_day :: nat
  dt_month :: nat
  dt_dow :: nat

definition cron_matches :: "CronExpr \<Rightarrow> DateTime \<Rightarrow> bool" where
  "cron_matches c t =
     (if \<not> m_valid c then False
      else if m_min c AND push_bit (dt_minute t) 1 = 0 then False
      else if m_hour c AND push_bit (dt_hour t) 1 = 0 then False
      else if m_month c AND push_bit (dt_month t) 1 = 0 then False
      else let cronDow = dt_dow t mod 7;
               domMatch = (m_dom c AND push_bit (dt_day t) 1 \<noteq> 0);
               dowMatch = (m_dow c AND push_bit cronDow 1 \<noteq> 0);
               domRestricted = (ucast (m_dom c) \<noteq> fullMask 1 31);
               dowRestricted = (m_dow c \<noteq> 0x7f)
           in if domRestricted \<and> dowRestricted then domMatch \<or> dowMatch else domMatch \<and> dowMatch)"

section \<open>The daemon\<close>

record Job =
  j_expr :: string
  j_command :: string
  j_cron :: CronExpr

record CronServer =
  m_jobs :: "Job list"
  m_active :: bool

definition addJob :: "string \<Rightarrow> string \<Rightarrow> CronServer \<Rightarrow> fault + bool \<times> CronServer" where
  "addJob expr command s =
     bindF (cron_parse expr) (\<lambda>c.
       if \<not> m_valid c then ok (False, s)
       else ok (True, s\<lparr>m_jobs := m_jobs s @ [\<lparr>j_expr = expr, j_command = command, j_cron = c\<rparr>]\<rparr>))"

definition clearJobs :: "CronServer \<Rightarrow> CronServer" where
  "clearJobs s = s\<lparr>m_jobs := []\<rparr>"

definition cron_start :: "CronServer \<Rightarrow> CronServer" where
  "cron_start s = s\<lparr>m_active := True\<rparr>"

definition cron_stop :: "CronServer \<Rightarrow> CronServer" where
  "cron_stop s = s\<lparr>m_active := False\<rparr>"

text \<open>The commands a tick hands to the shell, in order.\<close>

definition tick :: "DateTime \<Rightarrow> CronServer \<Rightarrow> string list" where
  "tick now s = map j_command (filter (\<lambda>j. cron_matches (j_cron j) now) (m_jobs s))"

section \<open>Masks as sets\<close>

definition mask_set :: "'a::len word \<Rightarrow> nat set" where
  "mask_set w = {i. bit w i}"

lemma mask_test: "(w :: 'a::len word) AND push_bit i 1 = 0 \<longleftrightarrow> i \<notin> mask_set w"
  by (simp add: mask_set_def bit_iff_and_push_bit_not_eq_0 [of w i])

lemma mask_set_or [simp]: "mask_set (v OR w) = mask_set v \<union> mask_set w"
  by (auto simp: mask_set_def bit_simps)

lemma mask_set_0 [simp]: "mask_set 0 = {}"
  by (simp add: mask_set_def)

lemma mask_set_single: "i < LENGTH('a) \<Longrightarrow> mask_set (2 ^ i :: 'a::len word) = {i}"
  by (auto simp: mask_set_def bit_simps)

definition steps :: "int \<Rightarrow> int \<Rightarrow> int \<Rightarrow> nat set" where
  "steps a b st = nat ` {v. a \<le> v \<and> v \<le> b \<and> st dvd (v - a)}"

lemma steps_empty: "b < a \<Longrightarrow> steps a b st = {}"
  by (auto simp: steps_def)

lemma steps_first:
  assumes "0 < st" and "a \<le> b"
  shows "steps a b st = insert (nat a) (steps (a + st) b st)"
proof -
  have "st dvd (v - a) \<and> a \<le> v \<longleftrightarrow> v = a \<or> (a + st \<le> v \<and> st dvd (v - (a + st)))" for v
  proof -
    have "st dvd (v - a) \<longleftrightarrow> st dvd (v - (a + st))" 
      by (metis diff_add_cancel diff_diff_eq dvd_add_triv_right_iff)
    moreover have "st dvd (v - a) \<Longrightarrow> a < v \<Longrightarrow> a + st \<le> v" using zdvd_imp_le [of st "v - a"] by simp
    ultimately show ?thesis using assms(1) by fastforce
  qed
  then have "{v. a \<le> v \<and> v \<le> b \<and> st dvd (v - a)} = insert a {v. a + st \<le> v \<and> v \<le> b \<and> st dvd (v - (a + st))}"
    using assms(2) by blast
  then show ?thesis by (simp add: steps_def)
qed

lemma mask_loop_set:
  assumes "0 < st" and "0 \<le> v" and "b < 64" and "v \<le> b + st" and "b + st < 2 ^ 31"
  shows "\<exists>m. mask_loop v b st msk = ok m \<and> mask_set m = mask_set msk \<union> steps v b st"
  using assms
proof (induction v b st msk rule: mask_loop.induct)
  case (1 v b st msk)
  show ?case
  proof (cases "v \<le> b")
    case True
    then have i: "fitsInt (v + st)" using 1 by (simp add: fitsInt_def)
    have "mask_set (msk OR push_bit (nat v) 1) = insert (nat v) (mask_set msk)"
      using True "1.prems" by (simp add: mask_set_single nat_less_iff push_bit_of_1)
    moreover obtain m where "mask_loop (v + st) b st (msk OR push_bit (nat v) 1) = ok m"
      "mask_set m = mask_set (msk OR push_bit (nat v) 1) \<union> steps (v + st) b st"
      using "1.IH" True i "1.prems" by auto
    ultimately show ?thesis
      using True "1.prems" by (subst mask_loop.simps) (simp add: i steps_first insert_commute)
  next
    case False
    then show ?thesis by (subst mask_loop.simps) (simp add: steps_empty)
  qed
qed

section \<open>What an expression denotes\<close>

text \<open>
  The grammar of a field, apart from the parser. A number is what \<open>QString::toInt\<close> takes for one; a
  range is a star, a number, or two with a dash between them; a part is a range, with a slash and a
  step behind it or not, that lies in the limits of the field; a field is a list of parts with commas
  between them. Each denotes its values: all of a range, or every so many of them from its first.
\<close>

definition number :: "string \<Rightarrow> int \<Rightarrow> bool" where
  "number s n \<longleftrightarrow> to_int s = Some n"

inductive range_denotes :: "int \<Rightarrow> int \<Rightarrow> string \<Rightarrow> int \<Rightarrow> int \<Rightarrow> bool" for lo hi :: int where
  range_every: "range_denotes lo hi ''*'' lo hi"
| range_one: "number s n \<Longrightarrow> CHR ''-'' \<notin> set s \<Longrightarrow> range_denotes lo hi s n n"
| range_from_to: "number s a \<Longrightarrow> number t b \<Longrightarrow> CHR ''-'' \<notin> set s \<Longrightarrow> range_denotes lo hi (s @ CHR ''-'' # t) a b"

inductive part_denotes :: "int \<Rightarrow> int \<Rightarrow> string \<Rightarrow> nat set \<Rightarrow> bool" for lo hi :: int where
  part_range: "range_denotes lo hi p a b \<Longrightarrow> CHR ''/'' \<notin> set p \<Longrightarrow> lo \<le> a \<Longrightarrow> a \<le> b \<Longrightarrow> b \<le> hi \<Longrightarrow>
    part_denotes lo hi p {v. a \<le> int v \<and> int v \<le> b}"
| part_step: "range_denotes lo hi p a b \<Longrightarrow> CHR ''/'' \<notin> set p \<Longrightarrow> lo \<le> a \<Longrightarrow> a \<le> b \<Longrightarrow> b \<le> hi \<Longrightarrow>
    number q st \<Longrightarrow> 0 < st \<Longrightarrow>
    part_denotes lo hi (p @ CHR ''/'' # q) {v. a \<le> int v \<and> int v \<le> b \<and> st dvd (int v - a)}"

definition field_denotes :: "int \<Rightarrow> int \<Rightarrow> string \<Rightarrow> nat set \<Rightarrow> bool" where
  "field_denotes lo hi field V \<longleftrightarrow>
     (let parts = split_skip (CHR '','') field
      in parts \<noteq> [] \<and> (\<exists>Vs. list_all2 (part_denotes lo hi) parts Vs \<and> V = \<Union> (set Vs)))"

text \<open>Steps that stay clear of the end of \<open>int\<close>.\<close>

definition small_step :: "string \<Rightarrow> bool" where
  "small_step p =
     (case index_of (CHR ''/'') p of
        None \<Rightarrow> True
      | Some i \<Rightarrow> (case to_int (drop (Suc i) p) of None \<Rightarrow> True | Some n \<Rightarrow> n < 2 ^ 30))"

definition small_steps :: "string \<Rightarrow> bool" where
  "small_steps field \<longleftrightarrow> list_all small_step (split_skip (CHR '','') field)"

text \<open>When an expression is due: each word a set, Sunday both 0 and 7, and a day by its number
  or by its name when both are restricted.\<close>

definition due_on :: "nat set \<Rightarrow> nat set \<Rightarrow> nat set \<Rightarrow> nat set \<Rightarrow> nat set \<Rightarrow> DateTime \<Rightarrow> bool" where
  "due_on mins hours days months names t \<longleftrightarrow>
     dt_minute t \<in> mins \<and> dt_hour t \<in> hours \<and> dt_month t \<in> months \<and>
     (if days \<noteq> {1..31} \<and> names \<noteq> {0..6} then dt_day t \<in> days \<or> dt_dow t mod 7 \<in> names
      else dt_day t \<in> days \<and> dt_dow t mod 7 \<in> names)"

definition cron_due :: "string \<Rightarrow> DateTime \<Rightarrow> bool" where
  "cron_due expr t \<longleftrightarrow>
     (\<exists>f0 f1 f2 f3 f4 mins hours days months wdays.
        words_of [] expr = [f0, f1, f2, f3, f4] \<and>
        field_denotes 0 59 f0 mins \<and> field_denotes 0 23 f1 hours \<and> field_denotes 1 31 f2 days \<and>
        field_denotes 1 12 f3 months \<and> field_denotes 0 7 f4 wdays \<and>
        due_on mins hours days months ((\<lambda>d. d mod 7) ` wdays) t)"

text \<open>A well-formed expression: five words, each a field within its limits.\<close>

definition cron_wellformed :: "string \<Rightarrow> bool" where
  "cron_wellformed expr \<longleftrightarrow>
     (\<exists>f0 f1 f2 f3 f4 mins hours days months wdays.
        words_of [] expr = [f0, f1, f2, f3, f4] \<and>
        field_denotes 0 59 f0 mins \<and> field_denotes 0 23 f1 hours \<and> field_denotes 1 31 f2 days \<and>
        field_denotes 1 12 f3 months \<and> field_denotes 0 7 f4 wdays)"

section \<open>The parser and the grammar\<close>

text \<open>What the parser makes of a field.\<close>

definition part_values :: "int \<Rightarrow> int \<Rightarrow> string \<Rightarrow> nat set option" where
  "part_values lo hi p = map_option (\<lambda>(a, b, st). steps a b st) (parse_part p lo hi)"

definition field_values :: "int \<Rightarrow> int \<Rightarrow> string \<Rightarrow> nat set option" where
  "field_values lo hi field =
     (let parts = split_skip (CHR '','') field
      in if parts = [] \<or> None \<in> set (map (part_values lo hi) parts) then None
         else Some (\<Union> (set (map (\<lambda>p. the (part_values lo hi p)) parts))))"

lemma steps_nat: "0 \<le> a \<Longrightarrow> steps a b st = {v. a \<le> int v \<and> int v \<le> b \<and> st dvd (int v - a)}"
  by (auto simp: steps_def intro!: image_eqI [where x = "int _"])

lemma index_of_absent: "c \<notin> set p \<Longrightarrow> index_of c p = None"
  by simp

lemma star_no_number: "\<not> number ''*'' n"
proof -
  have "to_int ''*'' = None" by code_simp
  then show ?thesis by (simp add: number_def)
qed

lemma parse_range_denotes: "parse_range p lo hi = Some (a, b) \<longleftrightarrow> range_denotes lo hi p a b"
proof
  assume r: "parse_range p lo hi = Some (a, b)"
  show "range_denotes lo hi p a b"
  proof (cases "p = ''*''")
    case False
    show ?thesis
    proof (cases "index_of (CHR ''-'') p")
      case None
      with r False show ?thesis
        by (auto simp: parse_range_def number_def intro: range_one)
    next
      case (Some i)
      from index_of_Some_split [OF Some] index_of_SomeD [OF Some]
      have p: "p = take i p @ CHR ''-'' # drop (Suc i) p" "CHR ''-'' \<notin> set (take i p)" by simp_all
      have "number (take i p) a" "number (drop (Suc i) p) b"
        using r False Some by (auto simp: parse_range_def number_def split: option.splits)
      with p show ?thesis by (metis range_from_to)
    qed
  qed (use r in \<open>simp add: parse_range_def range_every\<close>)
next
  assume "range_denotes lo hi p a b"
  then show "parse_range p lo hi = Some (a, b)"
  proof cases
    case range_every
    then show ?thesis by (simp add: parse_range_def)
  next
    case range_one
    moreover have "p \<noteq> ''*''" using range_one star_no_number by auto
    ultimately show ?thesis by (simp add: parse_range_def number_def index_of_absent)
  next
    case (range_from_to s t)
    then have "p \<noteq> ''*''" by (auto simp: append_eq_Cons_conv)
    with range_from_to show ?thesis by (simp add: parse_range_def number_def)
  qed
qed

lemma part_values_denotes:
  assumes "0 \<le> lo"
  shows "part_values lo hi p = Some V \<longleftrightarrow> part_denotes lo hi p V"
proof
  assume "part_values lo hi p = Some V"
  then obtain a b st where part: "parse_part p lo hi = Some (a, b, st)" and V: "V = steps a b st"
    by (auto simp: part_values_def)
  show "part_denotes lo hi p V"
  proof (cases "index_of (CHR ''/'') p")
    case None
    then have nos: "CHR ''/'' \<notin> set p" by simp
    have "parse_range p lo hi = Some (a, b)" "lo \<le> a" "a \<le> b" "b \<le> hi" "st = 1"
      using part by (auto simp: parse_part_def Let_def index_of_absent [OF nos] split: option.splits if_splits)
    moreover note nos
    moreover have "V = {v. a \<le> int v \<and> int v \<le> b}" using calculation assms by (simp add: V steps_nat)
    ultimately show ?thesis by (simp add: parse_range_denotes part_range)
  next
    case (Some i)
    from index_of_Some_split [OF Some] index_of_SomeD [OF Some]
    have p: "p = take i p @ CHR ''/'' # drop (Suc i) p" "CHR ''/'' \<notin> set (take i p)" by simp_all
    have r: "range_denotes lo hi (take i p) a b" "lo \<le> a" "a \<le> b" "b \<le> hi" "number (drop (Suc i) p) st" "0 < st"
      using part Some unfolding parse_range_denotes [symmetric]
      by (auto simp: parse_part_def Let_def number_def split: option.splits if_splits)
    have "V = {v. a \<le> int v \<and> int v \<le> b \<and> st dvd (int v - a)}" using r(2) assms by (simp add: V steps_nat)
    then show ?thesis using part_step [OF r(1) p(2) r(2-6)] p(1) by simp
  qed
next
  assume "part_denotes lo hi p V"
  then show "part_values lo hi p = Some V"
  proof cases
    case (part_range a b)
    then have "parse_range p lo hi = Some (a, b)" by (simp add: parse_range_denotes)
    then have "parse_part p lo hi = Some (a, b, 1)" using part_range by (simp add: parse_part_def index_of_absent)
    then show ?thesis using part_range assms by (simp add: part_values_def steps_nat)
  next
    case (part_step r a b q st)
    then have "parse_range r lo hi = Some (a, b)" by (simp add: parse_range_denotes)
    then have "parse_part p lo hi = Some (a, b, st)" using part_step by (simp add: parse_part_def number_def)
    then show ?thesis using part_step assms by (simp add: part_values_def steps_nat)
  qed
qed

lemma field_values_denotes:
  assumes "0 \<le> lo"
  shows "field_values lo hi f = Some V \<longleftrightarrow> field_denotes lo hi f V"
proof -
  let ?ps = "split_skip (CHR '','') f"
  have all: "(\<exists>Vs. list_all2 (part_denotes lo hi) ps Vs \<and> V = \<Union> (set Vs)) \<longleftrightarrow>
      None \<notin> set (map (part_values lo hi) ps) \<and> V = \<Union> (set (map (\<lambda>p. the (part_values lo hi p)) ps))" for ps
  proof (induction ps arbitrary: V)
    case (Cons p ps)
    have "(\<exists>Vs. list_all2 (part_denotes lo hi) (p # ps) Vs \<and> V = \<Union> (set Vs)) \<longleftrightarrow>
        (\<exists>W U. part_denotes lo hi p W \<and> (\<exists>Vs. list_all2 (part_denotes lo hi) ps Vs \<and> U = \<Union> (set Vs)) \<and> V = W \<union> U)"
    proof
      assume "\<exists>Vs. list_all2 (part_denotes lo hi) (p # ps) Vs \<and> V = \<Union> (set Vs)"
      then obtain W Ws where "part_denotes lo hi p W" "list_all2 (part_denotes lo hi) ps Ws" "V = W \<union> \<Union> (set Ws)"
        by (auto simp: list_all2_Cons1)
      then show "\<exists>W U. part_denotes lo hi p W \<and> (\<exists>Vs. list_all2 (part_denotes lo hi) ps Vs \<and> U = \<Union> (set Vs)) \<and> V = W \<union> U"
        by blast
    next
      assume "\<exists>W U. part_denotes lo hi p W \<and> (\<exists>Vs. list_all2 (part_denotes lo hi) ps Vs \<and> U = \<Union> (set Vs)) \<and> V = W \<union> U"
      then obtain W Ws where "list_all2 (part_denotes lo hi) (p # ps) (W # Ws)" "V = \<Union> (set (W # Ws))" by auto
      then show "\<exists>Vs. list_all2 (part_denotes lo hi) (p # ps) Vs \<and> V = \<Union> (set Vs)" by blast
    qed
    also have "\<dots> \<longleftrightarrow> (\<exists>W. part_values lo hi p = Some W \<and> None \<notin> set (map (part_values lo hi) ps) \<and>
        V = W \<union> \<Union> (set (map (\<lambda>p. the (part_values lo hi p)) ps)))"
      unfolding Cons.IH part_values_denotes [OF assms, symmetric] by blast
    also have "\<dots> \<longleftrightarrow> None \<notin> set (map (part_values lo hi) (p # ps)) \<and>
        V = \<Union> (set (map (\<lambda>p. the (part_values lo hi p)) (p # ps)))"
      by (cases "part_values lo hi p") auto
    finally show ?case .
  qed simp
  have "field_values lo hi f = Some V \<longleftrightarrow> ?ps \<noteq> [] \<and> None \<notin> set (map (part_values lo hi) ?ps) \<and>
      V = \<Union> (set (map (\<lambda>p. the (part_values lo hi p)) ?ps))"
    by (auto simp: field_values_def Let_def)
  then show ?thesis unfolding field_denotes_def Let_def all .
qed

lemma parse_part_bounds:
  assumes "parse_part p lo hi = Some (a, b, st)"
  shows "lo \<le> a \<and> a \<le> b \<and> b \<le> hi \<and> 0 < st \<and>
    (st = 1 \<or> (\<exists>i. index_of (CHR ''/'') p = Some i \<and> to_int (drop (Suc i) p) = Some st))"
  using assms unfolding parse_part_def Let_def
  by (auto split: option.splits if_splits prod.splits)

lemma parse_parts_values:
  assumes "0 \<le> lo" and "hi < 64"
    and "list_all small_step ps"
  shows "if None \<in> set (map (part_values lo hi) ps) then parse_parts ps lo hi msk = ok None
    else \<exists>m. parse_parts ps lo hi msk = ok (Some m) \<and>
      mask_set m = mask_set msk \<union> \<Union> (set (map (\<lambda>p. the (part_values lo hi p)) ps))"
  using assms(3)
proof (induction ps arbitrary: msk)
  case (Cons p ps)
  show ?case
  proof (cases "parse_part p lo hi")
    case None
    then show ?thesis by (simp add: part_values_def)
  next
    case (Some r)
    obtain a b st where r: "r = (a, b, st)" by (cases r)
    note bnd = parse_part_bounds [OF Some [unfolded r]]
    then have "st < 2 ^ 30" using Cons.prems by (auto simp: small_step_def)
    then obtain m where m: "mask_loop a b st msk = ok m" "mask_set m = mask_set msk \<union> steps a b st"
      using mask_loop_set [of st a b msk] bnd assms(1,2) by auto
    have pv: "part_values lo hi p = Some (steps a b st)" by (simp add: part_values_def Some r)
    show ?thesis using Cons.IH [of m] Cons.prems by (auto simp: Some r m pv)
  qed
qed simp

lemma parseField_values:
  assumes "0 \<le> lo" and "hi < 64" and "small_steps field"
  shows "(field_values lo hi field = None \<and> parseField field lo hi = ok None) \<or>
    (\<exists>m. field_values lo hi field = Some (mask_set m) \<and> parseField field lo hi = ok (Some m))"
  using parse_parts_values [OF assms(1,2), of "split_skip (CHR '','') field" 0] assms(3)
  by (auto simp: parseField_def field_values_def small_steps_def Let_def split: if_splits)

lemma steps_bounds: "i \<in> steps a b st \<Longrightarrow> 0 \<le> a \<Longrightarrow> a \<le> int i \<and> int i \<le> b"
  by (auto simp: steps_def)

lemma field_values_bounds:
  assumes "field_values lo hi field = Some V" and "0 \<le> lo"
  shows "V \<subseteq> {nat lo..nat hi}"
proof
  fix i assume "i \<in> V"
  have none: "None \<notin> set (map (part_values lo hi) (split_skip (CHR '','') field))"
    and V: "V = \<Union> (set (map (\<lambda>p. the (part_values lo hi p)) (split_skip (CHR '','') field)))"
    using assms(1) by (simp_all add: field_values_def Let_def split: if_splits)
  then obtain p where p: "p \<in> set (split_skip (CHR '','') field)" "i \<in> the (part_values lo hi p)"
    using \<open>i \<in> V\<close> by auto
  then have "part_values lo hi p \<noteq> None" using none by (metis image_eqI list.set_map)
  with p(2) obtain a b st where p: "parse_part p lo hi = Some (a, b, st)" "i \<in> steps a b st"
    by (auto simp: part_values_def)
  have "lo \<le> a" "b \<le> hi" using parse_part_bounds [OF p(1)] by blast+
  moreover have "a \<le> int i" "int i \<le> b" using steps_bounds [OF p(2)] assms(2) calculation(1) by linarith+
  ultimately have "lo \<le> int i" "int i \<le> hi" by linarith+
  then show "i \<in> {nat lo..nat hi}" by (simp add: nat_le_iff nat_le_eq_zle zless_nat_eq_int_zless)
qed

lemma mask_set_ucast:
  "mask_set (w :: 'a::len word) \<subseteq> {..<LENGTH('b)} \<Longrightarrow> mask_set (ucast w :: 'b::len word) = mask_set w"
  by (auto simp: mask_set_def bit_simps dest: bit_imp_le_length)

lemma mask_set_ucast_range:
  assumes "mask_set (w :: 'a::len word) \<subseteq> {lo..hi}" and "hi < LENGTH('b)"
  shows "mask_set (ucast w :: 'b::len word) = mask_set w"
proof (rule mask_set_ucast)
  show "mask_set w \<subseteq> {..<LENGTH('b)}" using assms by force
qed

lemma mask_set_inject: "mask_set v = mask_set w \<longleftrightarrow> v = w"
  by (auto simp: mask_set_def set_eq_iff intro: bit_word_eqI)

lemma mask_set_fullMask:
  assumes "hi < 64"
  shows "mask_set (fullMask lo hi) = {lo..hi}"
proof -
  have "mask_set (fold (\<lambda>v m. m OR push_bit v 1) vs m) = mask_set (m :: u64) \<union> set vs" if "\<forall>v \<in> set vs. v < 64" for vs m
    using that
  proof (induction vs arbitrary: m)
    case (Cons v vs)
    have "mask_set (m OR push_bit v 1) = insert v (mask_set m)"
      using Cons.prems by (simp add: push_bit_of_1 mask_set_single)
    then show ?case using Cons.IH [of "m OR push_bit v 1"] Cons.prems by simp
  qed simp
  moreover have "\<forall>v \<in> set [lo..<Suc hi]. v < 64"
    by (intro ballI) (use assms in \<open>simp only: set_upt atLeastLessThan_iff, linarith\<close>)
  ultimately have "mask_set (fold (\<lambda>v m. m OR push_bit v 1) [lo..<Suc hi] m) = mask_set (m :: u64) \<union> set [lo..<Suc hi]" for m
    by blast
  from this [of 0] show ?thesis
    by (simp only: fullMask_def mask_set_0 set_upt atLeastLessThanSuc_atLeastAtMost Un_empty_left)
qed

lemma mask_set_7f [simp]: "mask_set (0x7f :: byte) = {0..6}"
proof -
  have eq: "(0x7f :: byte) = Bit_Operations.mask 7" by code_simp
  have b: "bit (0x7f :: byte) i \<longleftrightarrow> i < 7" for i unfolding eq bit_mask_iff by auto
  have "mask_set (0x7f :: byte) = {i. i < 7}" unfolding mask_set_def b by blast
  then show ?thesis by fastforce
qed

lemma mask_set_fold_sunday:
  assumes "mask_set d \<subseteq> {0..7}"
  shows "mask_set (fold_sunday d) = (\<lambda>d. d mod 7) ` mask_set d"
proof -
  have m: "(0x7f :: u64) = Bit_Operations.mask 7" by code_simp
  have "mask_set (fold_sunday d) = {i. i < 7 \<and> (i \<in> mask_set d \<or> (7 \<in> mask_set d \<and> i = 0))}"
    by (auto simp: fold_sunday_def m mask_set_def bit_simps)
  also have "\<dots> = (\<lambda>d. d mod 7) ` mask_set d"
  proof (intro set_eqI iffI)
    fix i assume "i \<in> {i. i < 7 \<and> (i \<in> mask_set d \<or> (7 \<in> mask_set d \<and> i = 0))}"
    then show "i \<in> (\<lambda>d. d mod 7) ` mask_set d" by (auto intro: rev_image_eqI)
  next
    fix i assume "i \<in> (\<lambda>d. d mod 7) ` mask_set d"
    then obtain x where x: "x \<in> mask_set d" "i = x mod 7" by blast
    then have "x < 7 \<or> x = 7" using assms by auto
    with x show "i \<in> {i. i < 7 \<and> (i \<in> mask_set d \<or> (7 \<in> mask_set d \<and> i = 0))}" by auto
  qed
  finally show ?thesis .
qed

section \<open>Properties\<close>

text \<open>The meaning of an expression whose fields are known.\<close>

lemma cron_due_known:
  assumes "words_of [] expr = [f0, f1, f2, f3, f4]"
    and "field_values 0 59 f0 = Some mins" "field_values 0 23 f1 = Some hours" "field_values 1 31 f2 = Some days"
      "field_values 1 12 f3 = Some months" "field_values 0 7 f4 = Some wdays"
  shows "cron_wellformed expr" "cron_due expr t \<longleftrightarrow> due_on mins hours days months ((\<lambda>d. d mod 7) ` wdays) t"
proof -
  have fields: "field_denotes 0 59 f0 V \<longleftrightarrow> mins = V" "field_denotes 0 23 f1 V \<longleftrightarrow> hours = V" "field_denotes 1 31 f2 V \<longleftrightarrow> days = V"
    "field_denotes 1 12 f3 V \<longleftrightarrow> months = V" "field_denotes 0 7 f4 V \<longleftrightarrow> wdays = V" for V
    using assms(2-) by (simp_all add: field_values_denotes [symmetric])
  show "cron_wellformed expr"
    unfolding cron_wellformed_def by (intro exI conjI, rule assms(1)) (simp_all only: fields)
  show "cron_due expr t \<longleftrightarrow> due_on mins hours days months ((\<lambda>d. d mod 7) ` wdays) t"
    by (simp add: cron_due_def assms(1) fields)
qed

lemma cron_due_wellformed: "cron_due expr t \<Longrightarrow> cron_wellformed expr"
  unfolding cron_due_def cron_wellformed_def by blast

text \<open>C39: A job is due when its expression says so. For steps below \<open>2 ^ 30\<close> (beyond that the
  loop over a range can run past the end of \<open>int\<close>), parsing reaches no undefined behaviour, an
  expression is accepted exactly if it is five words that are fields of the grammar, and the mask
  test agrees with the sets of values that the grammar gives the fields.\<close>

theorem cron_due_correct:
  assumes "list_all small_steps (words_of [] expr)"
  shows "\<exists>c. cron_parse expr = ok c \<and> m_valid c = cron_wellformed expr \<and> cron_matches c t = cron_due expr t"
proof (cases "\<exists>f0 f1 f2 f3 f4. words_of [] expr = [f0, f1, f2, f3, f4]")
  case True
  then obtain f0 f1 f2 f3 f4 where w: "words_of [] expr = [f0, f1, f2, f3, f4]" by blast
  have small: "small_steps f0" "small_steps f1" "small_steps f2" "small_steps f3" "small_steps f4"
    using assms by (simp_all add: w)
  note fields = parseField_values [OF _ _ small(1), of 0 59] parseField_values [OF _ _ small(2), of 0 23]
    parseField_values [OF _ _ small(3), of 1 31] parseField_values [OF _ _ small(4), of 1 12]
    parseField_values [OF _ _ small(5), of 0 7]
  show ?thesis
  proof (cases "\<exists>m h dom mon d. parseField f0 0 59 = ok (Some m) \<and> parseField f1 0 23 = ok (Some h) \<and>
      parseField f2 1 31 = ok (Some dom) \<and> parseField f3 1 12 = ok (Some mon) \<and> parseField f4 0 7 = ok (Some d)")
    case True
    then obtain m h dom mon d where p: "parseField f0 0 59 = ok (Some m)" "parseField f1 0 23 = ok (Some h)"
      "parseField f2 1 31 = ok (Some dom)" "parseField f3 1 12 = ok (Some mon)" "parseField f4 0 7 = ok (Some d)" by blast
    have v: "field_values 0 59 f0 = Some (mask_set m)" "field_values 0 23 f1 = Some (mask_set h)"
      "field_values 1 31 f2 = Some (mask_set dom)" "field_values 1 12 f3 = Some (mask_set mon)"
      "field_values 0 7 f4 = Some (mask_set d)" using fields p by auto
    let ?c = "\<lparr>m_valid = True, m_min = m, m_hour = ucast h, m_dom = ucast dom, m_month = ucast mon, m_dow = ucast (fold_sunday d)\<rparr>"
    have parse: "cron_parse expr = ok ?c" by (simp add: cron_parse_def w p bind2_def)
    have b: "mask_set h \<subseteq> {0..23}" "mask_set dom \<subseteq> {1..31}" "mask_set mon \<subseteq> {1..12}" "mask_set d \<subseteq> {0..7}"
      using v [THEN field_values_bounds] by simp_all
    have u: "mask_set (ucast h :: u32) = mask_set h" "mask_set (ucast dom :: u32) = mask_set dom"
      "mask_set (ucast mon :: u16) = mask_set mon"
      by (rule mask_set_ucast_range [OF b(1)], simp, rule mask_set_ucast_range [OF b(2)], simp,
          rule mask_set_ucast_range [OF b(3)], simp)
    have u2: "mask_set (ucast (ucast dom :: u32) :: u64) = mask_set dom"
      using mask_set_ucast_range [where 'b = 64, of "ucast dom :: u32" 1 31] b(2) by (simp only: u) simp
    have sd: "mask_set (fold_sunday d) \<subseteq> {0..6}" unfolding mask_set_fold_sunday [OF b(4)] by force
    have s: "mask_set (ucast (fold_sunday d) :: byte) = (\<lambda>d. d mod 7) ` mask_set d"
      using mask_set_ucast_range [OF sd, where 'b = 8] by (simp only: mask_set_fold_sunday [OF b(4)]) simp
    have full: "ucast (ucast dom :: u32) = fullMask 1 31 \<longleftrightarrow> mask_set dom = {1..31}"
      "(ucast (fold_sunday d) :: byte) = 0x7f \<longleftrightarrow> (\<lambda>d. d mod 7) ` mask_set d = {0..6}"
      using mask_set_inject [of "ucast (ucast dom :: u32)" "fullMask 1 31"] mask_set_inject [of "ucast (fold_sunday d) :: byte" "0x7f"]
      by (simp_all only: u2 s mask_set_fullMask mask_set_7f)
    have "cron_matches ?c t = cron_due expr t"
      unfolding cron_matches_def cron_due_known(2) [OF w v] due_on_def CronExpr.simps Let_def mask_test u s full
      by simp
    then show ?thesis using parse cron_due_known(1) [OF w v] by auto
  next
    case False
    have "cron_parse expr = ok invalid_cron" using False fields by (auto simp: cron_parse_def w bind2_def)
    moreover have "\<not> cron_wellformed expr"
    proof
      assume "cron_wellformed expr"
      then obtain V0 V1 V2 V3 V4 where "field_values 0 59 f0 = Some V0" "field_values 0 23 f1 = Some V1"
        "field_values 1 31 f2 = Some V2" "field_values 1 12 f3 = Some V3" "field_values 0 7 f4 = Some V4"
        by (auto simp: cron_wellformed_def w field_values_denotes)
      then show False using False fields by simp blast
    qed
    ultimately show ?thesis using cron_due_wellformed by (auto simp: cron_matches_def invalid_cron_def)
  qed
next
  case False
  then have "cron_parse expr = ok invalid_cron" "\<not> cron_wellformed expr"
    by (auto simp: cron_parse_def cron_wellformed_def split: list.split)
  then show ?thesis using cron_due_wellformed by (auto simp: cron_matches_def invalid_cron_def)
qed

theorem cron_due_correct_witness:
  "\<exists>c. cron_parse ''*/15 9-17 * * 1-5'' = ok c \<and> m_valid c \<and>
     cron_matches c \<lparr>dt_minute = 30, dt_hour = 17, dt_day = 3, dt_month = 2, dt_dow = 5\<rparr> \<and>
     \<not> cron_matches c \<lparr>dt_minute = 31, dt_hour = 9, dt_day = 3, dt_month = 2, dt_dow = 1\<rparr>"
proof -
  let ?e = "''*/15 9-17 * * 1-5''"
  have w: "words_of [] ?e = [''*/15'', ''9-17'', ''*'', ''*'', ''1-5'']" by code_simp
  have parts: "split_skip (CHR '','') ''*/15'' = [''*/15'']" "split_skip (CHR '','') ''9-17'' = [''9-17'']"
    "split_skip (CHR '','') ''*'' = [''*'']" "split_skip (CHR '','') ''1-5'' = [''1-5'']" by code_simp+
  have "to_int ''15'' = Some 15" by code_simp
  then have "small_step ''*/15''" "small_step ''9-17''" "small_step ''*''" "small_step ''1-5''"
    by (simp_all add: small_step_def)
  then have "list_all small_steps (words_of [] ?e)"
    by (simp only: w small_steps_def parts list.pred_inject simp_thms)
  note due = cron_due_correct [OF this]
  have "parse_part ''*/15'' 0 59 = Some (0, 59, 15)" "parse_part ''9-17'' 0 23 = Some (9, 17, 1)"
    "parse_part ''*'' 1 31 = Some (1, 31, 1)" "parse_part ''*'' 1 12 = Some (1, 12, 1)" "parse_part ''1-5'' 0 7 = Some (1, 5, 1)"
    by code_simp+
  then have v: "field_values 0 59 ''*/15'' = Some (steps 0 59 15)" "field_values 0 23 ''9-17'' = Some (steps 9 17 1)"
    "field_values 1 31 ''*'' = Some (steps 1 31 1)" "field_values 1 12 ''*'' = Some (steps 1 12 1)"
    "field_values 0 7 ''1-5'' = Some (steps 1 5 1)"
    by (simp_all add: field_values_def parts part_values_def)
  have "30 \<in> steps 0 59 15" "31 \<notin> steps 0 59 15" "17 \<in> steps 9 17 1" "2 \<in> steps 1 12 1" "3 \<in> steps 1 31 1" "5 \<in> steps 1 5 1"
    by (simp_all add: steps_nat)
  moreover have "steps 1 31 1 = {1..31}" by (auto simp: steps_nat)
  moreover have "(5 :: nat) \<in> (\<lambda>d. d mod 7) ` steps 1 5 1" using calculation(6) by (rule rev_image_eqI) (rule mod_less [symmetric], simp)
  ultimately show ?thesis
    using due [of "\<lparr>dt_minute = 30, dt_hour = 17, dt_day = 3, dt_month = 2, dt_dow = 5\<rparr>"]
      due [of "\<lparr>dt_minute = 31, dt_hour = 9, dt_day = 3, dt_month = 2, dt_dow = 1\<rparr>"]
    by (auto simp: cron_due_known [OF w v] due_on_def)
qed

end
