(* ===== verification/Ssh_Server.thy ===== *)
theory Ssh_Server
  imports Host
begin

text \<open>
  The embedded SSH server, \<open>src/src/tools/SshServer.{h,cpp}\<close>: the path guard of the SFTP
  subsystem, its request handler on POSIX systems, the session from key exchange to the
  service, and the server's accept loop. libssh's table of SFTP handles and the operating system
  are records of functions. A handle holds a \<open>void*\<close>, a 64-bit word here: the file requests put
  a descriptor into it and cast it back, the directory requests an address, as the code does.
\<close>

section \<open>Paths\<close>

definition resolveRooted :: "host \<Rightarrow> string \<Rightarrow> bytes \<Rightarrow> string" where
  "resolveRooted h root path =
     (let p = fromUtf8 h path;
          p = (if starts_with ''/'' p then p else CHR ''/'' # p);
          full = cleanPath h (root @ p)
      in if full \<noteq> root \<and> \<not> starts_with (root @ ''/'') full then [] else full)"

lemma resolveRooted_under: "resolveRooted h root path \<noteq> [] \<Longrightarrow> under root (resolveRooted h root path)"
  by (auto simp: resolveRooted_def Let_def under_def)

lemma resolveRooted_clean: "resolveRooted h root path \<noteq> [] \<Longrightarrow> \<exists>q. resolveRooted h root path = cleanPath h q"
  unfolding resolveRooted_def Let_def by metis

interpretation sftp_resolve: confined_resolver snd
  "\<lambda>(h, root) path. let full = resolveRooted h root path in if full = [] then None else Some full"
  by unfold_locales (auto simp: Let_def resolveRooted_under split: if_splits)

section \<open>The host and libssh\<close>

datatype access = RdOnly | WrOnly | RdWr

record oflags =
  o_access :: access
  o_creat :: bool
  o_trunc :: bool
  o_append :: bool

record attrs =
  a_size :: nat
  a_uid :: nat
  a_gid :: nat
  a_permissions :: nat
  a_atime :: nat
  a_mtime :: nat

text \<open>The system calls. An answer of \<open>os_opendir\<close> is an address, 0 for failure; the calls that take
  an address fault when no directory stream is there. \<open>os_pread\<close> answers \<open>None\<close> for an error.\<close>

record 'o sys =
  os_stat :: "string \<Rightarrow> 'o \<Rightarrow> attrs option \<times> 'o"
  os_opendir :: "string \<Rightarrow> 'o \<Rightarrow> u64 \<times> 'o"
  os_readdir :: "u64 \<Rightarrow> 'o \<Rightarrow> fault + (string \<times> bool) option \<times> 'o"
  os_open :: "string \<Rightarrow> oflags \<Rightarrow> 'o \<Rightarrow> int \<times> 'o"
  os_pread :: "int \<Rightarrow> nat \<Rightarrow> u64 \<Rightarrow> 'o \<Rightarrow> bytes option \<times> 'o"
  os_pwrite :: "int \<Rightarrow> bytes \<Rightarrow> u64 \<Rightarrow> 'o \<Rightarrow> bool \<times> 'o"
  os_close :: "int \<Rightarrow> 'o \<Rightarrow> 'o"
  os_closedir :: "u64 \<Rightarrow> 'o \<Rightarrow> fault + 'o"
  os_mkdir :: "string \<Rightarrow> 'o \<Rightarrow> bool \<times> 'o"
  os_rmdir :: "string \<Rightarrow> 'o \<Rightarrow> bool \<times> 'o"
  os_unlink :: "string \<Rightarrow> 'o \<Rightarrow> bool \<times> 'o"

text \<open>libssh's handles: \<open>sftp_handle_alloc\<close> (no handle when the table is full), \<open>sftp_handle\<close>
  (the null pointer for an unknown one) and \<open>sftp_handle_remove\<close>.\<close>

record 'h handles =
  h_alloc :: "u64 \<Rightarrow> 'h \<Rightarrow> bytes option \<times> 'h"
  h_find :: "'h \<Rightarrow> bytes \<Rightarrow> u64"
  h_remove :: "u64 \<Rightarrow> 'h \<Rightarrow> 'h"

section \<open>SFTP requests\<close>

datatype fxp = Realpath | Stat | Lstat | Opendir | Readdir | Open | Read | Write | Close
  | Mkdir | Rmdir | Remove | Setstat | Fsetstat | OtherRequest

record sftp_msg =
  sm_type :: fxp
  sm_filename :: "bytes option"
  sm_handle :: bytes
  sm_flags :: u32
  sm_offset :: u64
  sm_len :: u32
  sm_data :: bytes

datatype fx = FxOk | FxEof | FxNoSuchFile | FxPermissionDenied | FxFailure | FxOpUnsupported

datatype sftp_reply = R_status fx | R_attr attrs | R_handle "bytes option" | R_name string nat
  | R_names "(string \<times> nat) list" | R_data bytes

type_synonym ('o, 'h) answer = "fault + sftp_reply \<times> 'h \<times> 'o"

abbreviation name_or :: "bytes \<Rightarrow> sftp_msg \<Rightarrow> bytes" where
  "name_or d m \<equiv> (case sm_filename m of None \<Rightarrow> d | Some n \<Rightarrow> n)"

abbreviation slash :: bytes where
  "slash \<equiv> [0x2f]"

definition sftp_realpath :: "host \<Rightarrow> sftp_msg \<Rightarrow> 'h \<Rightarrow> 'o \<Rightarrow> ('o, 'h) answer" where
  "sftp_realpath h m hh os =
     (let p = fromUtf8 h (name_or [0x2e] m);
          p = (if p = ''.'' then ''/'' else p);
          p = (if starts_with ''/'' p then p else CHR ''/'' # p)
      in ok (R_name (cleanPath h p) 0x41ED, hh, os))"

definition sftpReplyStat :: "'o sys \<Rightarrow> string \<Rightarrow> 'h \<Rightarrow> 'o \<Rightarrow> ('o, 'h) answer" where
  "sftpReplyStat sy path hh os =
     (case os_stat sy path os of
        (None, os) \<Rightarrow> ok (R_status FxNoSuchFile, hh, os)
      | (Some a, os) \<Rightarrow> ok (R_attr a, hh, os))"

definition sftp_stat :: "host \<Rightarrow> 'o sys \<Rightarrow> string \<Rightarrow> sftp_msg \<Rightarrow> 'h \<Rightarrow> 'o \<Rightarrow> ('o, 'h) answer" where
  "sftp_stat h sy root m hh os =
     (let full = resolveRooted h root (name_or slash m)
      in if full = [] then ok (R_status FxPermissionDenied, hh, os) else sftpReplyStat sy full hh os)"

definition sftp_opendir :: "host \<Rightarrow> 'o sys \<Rightarrow> 'h handles \<Rightarrow> string \<Rightarrow> sftp_msg \<Rightarrow> 'h \<Rightarrow> 'o \<Rightarrow> ('o, 'h) answer" where
  "sftp_opendir h sy lib root m hh os =
     (let full = resolveRooted h root (name_or slash m);
          (d, os) = (if full = [] then (0, os) else os_opendir sy full os)
      in if d = 0 then ok (R_status FxNoSuchFile, hh, os)
         else let (k, hh) = h_alloc lib d hh in ok (R_handle k, hh, os))"

text \<open>At most \<open>n\<close> entries of a directory stream, with the permissions shown for each.\<close>

fun read_entries :: "'o sys \<Rightarrow> u64 \<Rightarrow> nat \<Rightarrow> 'o \<Rightarrow> fault + (string \<times> nat) list \<times> 'o" where
  "read_entries sy d 0 os = ok ([], os)"
| "read_entries sy d (Suc n) os =
     bindF (os_readdir sy d os) (\<lambda>(e, os). case e of
        None \<Rightarrow> ok ([], os)
      | Some (name, isDir) \<Rightarrow> bindF (read_entries sy d n os) (\<lambda>(es, os).
          ok ((name, if isDir then 0x41ED else 0x81A4) # es, os)))"

definition sftp_readdir :: "'o sys \<Rightarrow> 'h handles \<Rightarrow> sftp_msg \<Rightarrow> 'h \<Rightarrow> 'o \<Rightarrow> ('o, 'h) answer" where
  "sftp_readdir sy lib m hh os =
     (let d = h_find lib hh (sm_handle m)
      in if d = 0 then ok (R_status FxFailure, hh, os)
         else bindF (read_entries sy d 50 os) (\<lambda>(es, os).
                ok (if es \<noteq> [] then R_names es else R_status FxEof, hh, os)))"

definition open_flags :: "u32 \<Rightarrow> oflags" where
  "open_flags flags =
     \<lparr>o_access = (if bit flags 1 \<and> bit flags 0 then RdWr else if bit flags 1 then WrOnly else RdOnly),
      o_creat = bit flags 3, o_trunc = bit flags 4, o_append = bit flags 2\<rparr>"

definition sftp_open :: "host \<Rightarrow> 'o sys \<Rightarrow> 'h handles \<Rightarrow> string \<Rightarrow> sftp_msg \<Rightarrow> 'h \<Rightarrow> 'o \<Rightarrow> ('o, 'h) answer" where
  "sftp_open h sy lib root m hh os =
     (let full = resolveRooted h root (name_or [] m);
          (fd, os) = (if full = [] then (-1, os) else os_open sy full (open_flags (sm_flags m)) os)
      in if fd < 0 then ok (R_status FxPermissionDenied, hh, os)
         else let (k, hh) = h_alloc lib (word_of_int fd) hh in ok (R_handle k, hh, os))"

text \<open>The descriptor in a handle: \<open>static_cast<int>(reinterpret_cast<intptr_t>(...))\<close>.\<close>

definition handle_fd :: "'h handles \<Rightarrow> 'h \<Rightarrow> sftp_msg \<Rightarrow> int" where
  "handle_fd lib hh m = toInt32 (ucast (h_find lib hh (sm_handle m)))"

definition sftp_read :: "'o sys \<Rightarrow> 'h handles \<Rightarrow> sftp_msg \<Rightarrow> 'h \<Rightarrow> 'o \<Rightarrow> ('o, 'h) answer" where
  "sftp_read sy lib m hh os =
     (let size_wanted = (if sm_len m \<noteq> 0 then unat (sm_len m) else 16384);
          (r, os) = os_pread sy (handle_fd lib hh m) size_wanted (sm_offset m) os
      in case r of
           None \<Rightarrow> ok (R_status FxEof, hh, os)
         | Some d \<Rightarrow> ok (if d \<noteq> [] then R_data d else R_status FxEof, hh, os))"

definition sftp_write :: "'o sys \<Rightarrow> 'h handles \<Rightarrow> sftp_msg \<Rightarrow> 'h \<Rightarrow> 'o \<Rightarrow> ('o, 'h) answer" where
  "sftp_write sy lib m hh os =
     (let (good, os) = os_pwrite sy (handle_fd lib hh m) (sm_data m) (sm_offset m) os
      in ok (R_status (if good then FxOk else FxFailure), hh, os))"

definition sftp_close :: "'o sys \<Rightarrow> 'h handles \<Rightarrow> sftp_msg \<Rightarrow> 'h \<Rightarrow> 'o \<Rightarrow> ('o, 'h) answer" where
  "sftp_close sy lib m hh os =
     (let p = h_find lib hh (sm_handle m); v = sint p
      in bindF (if 0 < v \<and> v < 2 ^ 20 then ok (os_close sy v os)
                else if p \<noteq> 0 then os_closedir sy p os else ok os) (\<lambda>os.
         ok (R_status FxOk, h_remove lib p hh, os)))"

text \<open>\<open>MKDIR\<close>, \<open>RMDIR\<close> and \<open>REMOVE\<close>: one call on the resolved path.\<close>

definition sftp_path_call :: "host \<Rightarrow> (string \<Rightarrow> 'o \<Rightarrow> bool \<times> 'o) \<Rightarrow> string \<Rightarrow> sftp_msg \<Rightarrow> 'h \<Rightarrow> 'o \<Rightarrow> ('o, 'h) answer" where
  "sftp_path_call h call root m hh os =
     (let full = resolveRooted h root (name_or [] m);
          (good, os) = (if full = [] then (False, os) else call full os)
      in ok (R_status (if good then FxOk else FxFailure), hh, os))"

definition sftp_step :: "host \<Rightarrow> 'o sys \<Rightarrow> 'h handles \<Rightarrow> string \<Rightarrow> sftp_msg \<Rightarrow> 'h \<Rightarrow> 'o \<Rightarrow> ('o, 'h) answer" where
  "sftp_step h sy lib root m hh os =
     (case sm_type m of
        Realpath \<Rightarrow> sftp_realpath h m hh os
      | Stat \<Rightarrow> sftp_stat h sy root m hh os
      | Lstat \<Rightarrow> sftp_stat h sy root m hh os
      | Opendir \<Rightarrow> sftp_opendir h sy lib root m hh os
      | Readdir \<Rightarrow> sftp_readdir sy lib m hh os
      | Open \<Rightarrow> sftp_open h sy lib root m hh os
      | Read \<Rightarrow> sftp_read sy lib m hh os
      | Write \<Rightarrow> sftp_write sy lib m hh os
      | Close \<Rightarrow> sftp_close sy lib m hh os
      | Mkdir \<Rightarrow> sftp_path_call h (os_mkdir sy) root m hh os
      | Rmdir \<Rightarrow> sftp_path_call h (os_rmdir sy) root m hh os
      | Remove \<Rightarrow> sftp_path_call h (os_unlink sy) root m hh os
      | Setstat \<Rightarrow> ok (R_status FxOk, hh, os)
      | Fsetstat \<Rightarrow> ok (R_status FxOk, hh, os)
      | OtherRequest \<Rightarrow> ok (R_status FxOpUnsupported, hh, os))"

fun runSftp :: "host \<Rightarrow> 'o sys \<Rightarrow> 'h handles \<Rightarrow> string \<Rightarrow> sftp_msg list \<Rightarrow> 'h \<Rightarrow> 'o \<Rightarrow> fault + sftp_reply list \<times> 'h \<times> 'o" where
  "runSftp h sy lib root [] hh os = ok ([], hh, os)"
| "runSftp h sy lib root (m # ms) hh os =
     bindF (sftp_step h sy lib root m hh os) (\<lambda>(r, hh, os).
     bindF (runSftp h sy lib root ms hh os) (\<lambda>(rs, hh, os). ok (r # rs, hh, os)))"

section \<open>The session\<close>

datatype rc = SshOk | SshAgain | SshError

text \<open>The key exchange: its result in each round, and whether the server is stopping, the client
  gone or the deadline past.\<close>

partial_function (option) kex_loop :: "(nat \<Rightarrow> rc) \<Rightarrow> (nat \<Rightarrow> bool) \<Rightarrow> nat \<Rightarrow> bool option" where
  "kex_loop step give_up n =
     (case step n of
        SshAgain \<Rightarrow> if give_up n then Some False else kex_loop step give_up (n + 1)
      | SshOk \<Rightarrow> Some True
      | SshError \<Rightarrow> Some False)"

datatype ssh_msg = AuthPassword "string option" "string option" | AuthOther
  | ChannelOpen bool bool \<comment> \<open>a session channel; accepting it succeeds\<close>
  | RequestPty | RequestShell | RequestSubsystem "string option" | OtherMessage

datatype ssh_answer = AuthSuccess | MethodsPassword | ChannelAccepted | RequestSuccess | DefaultReply

datatype service = ShellService | SftpService

fun auth_loop :: "string \<Rightarrow> string \<Rightarrow> ssh_msg list \<Rightarrow> (ssh_answer list \<times> ssh_msg list) option" where
  "auth_loop user pass [] = None"
| "auth_loop user pass (m # ms) =
     (case m of
        AuthPassword u p \<Rightarrow>
          if u = Some user \<and> p = Some pass then Some ([AuthSuccess], ms)
          else map_option (apfst ((#) MethodsPassword)) (auth_loop user pass ms)
      | _ \<Rightarrow> map_option (apfst ((#) MethodsPassword)) (auth_loop user pass ms))"

fun channel_loop :: "ssh_msg list \<Rightarrow> (ssh_answer list \<times> ssh_msg list) option" where
  "channel_loop [] = None"
| "channel_loop (m # ms) =
     (case m of
        ChannelOpen True True \<Rightarrow> Some ([ChannelAccepted], ms)
      | ChannelOpen True False \<Rightarrow> channel_loop ms
      | _ \<Rightarrow> map_option (apfst ((#) DefaultReply)) (channel_loop ms))"

fun request_loop :: "ssh_msg list \<Rightarrow> (ssh_answer list \<times> service) option" where
  "request_loop [] = None"
| "request_loop (m # ms) =
     (case m of
        RequestPty \<Rightarrow> map_option (apfst ((#) RequestSuccess)) (request_loop ms)
      | RequestShell \<Rightarrow> Some ([RequestSuccess], ShellService)
      | RequestSubsystem sub \<Rightarrow>
          if sub = Some ''sftp'' then Some ([RequestSuccess], SftpService)
          else map_option (apfst ((#) DefaultReply)) (request_loop ms)
      | _ \<Rightarrow> map_option (apfst ((#) DefaultReply)) (request_loop ms))"

text \<open>The service a session comes to, if any, and what was answered on the way.\<close>

definition handleSession :: "(nat \<Rightarrow> rc) \<Rightarrow> (nat \<Rightarrow> bool) \<Rightarrow> string \<Rightarrow> string \<Rightarrow> ssh_msg list \<Rightarrow> (ssh_answer list \<times> service) option option" where
  "handleSession step give_up user pass ms =
     map_option (\<lambda>kex.
       if \<not> kex then None
       else Option.bind (auth_loop user pass ms) (\<lambda>(as, ms).
            Option.bind (channel_loop ms) (\<lambda>(cs, ms).
            map_option (apfst (\<lambda>rs. as @ cs @ rs)) (request_loop ms)))) (kex_loop step give_up 0)"

section \<open>The server\<close>

record ssh_server =
  m_port :: u16
  m_user :: string
  m_pass :: string
  m_root :: string
  m_stop :: bool
  m_running :: bool
  m_sessions :: nat
  m_sessionFds :: "int list"

text \<open>\<open>stop\<close> answers the sockets it shuts down; the joined threads are gone.\<close>

definition ssh_stop :: "ssh_server \<Rightarrow> int list \<times> ssh_server" where
  "ssh_stop s = (m_sessionFds s, s\<lparr>m_stop := True, m_sessions := 0, m_sessionFds := [], m_running := False\<rparr>)"

definition ssh_start :: "host \<Rightarrow> string \<Rightarrow> u16 \<Rightarrow> string \<Rightarrow> string \<Rightarrow> string \<Rightarrow> ssh_server \<Rightarrow> bool \<times> ssh_server" where
  "ssh_start h home p user pass dir s =
     (True, (snd (ssh_stop s))\<lparr>m_port := p, m_user := user, m_pass := pass,
        m_root := cleanPath h (if dir = [] then home else dir), m_stop := False, m_running := True\<rparr>)"

text \<open>The accept loop: the steps before it can fail, then one round per poll of the socket, which
  answers a session's descriptor when a client was accepted.\<close>

definition accept_setup :: "bool \<Rightarrow> bool \<Rightarrow> bool \<Rightarrow> ssh_server \<Rightarrow> bool \<times> ssh_server" where
  "accept_setup bound key listening s =
     (if bound \<and> key \<and> listening then (True, s) else (False, s\<lparr>m_running := False\<rparr>))"

definition accept_round :: "int \<Rightarrow> int option \<Rightarrow> ssh_server \<Rightarrow> ssh_server" where
  "accept_round poll accepted s =
     (if poll \<le> 0 then s
      else case accepted of
             None \<Rightarrow> s
           | Some fd \<Rightarrow> s\<lparr>m_sessions := m_sessions s + 1, m_sessionFds := m_sessionFds s @ [fd]\<rparr>)"

fun acceptLoop :: "(bool \<times> int \<times> int option) list \<Rightarrow> ssh_server \<Rightarrow> ssh_server" where
  "acceptLoop [] s = s"
| "acceptLoop ((stopping, poll, accepted) # rounds) s =
     (if stopping then s\<lparr>m_running := False\<rparr> else acceptLoop rounds (accept_round poll accepted s))"

text \<open>A session from its key exchange to the end of its SFTP requests; the calls of a shell are
  not the server's.\<close>

definition serve_session ::
  "host \<Rightarrow> 'o sys \<Rightarrow> 'h handles \<Rightarrow> ssh_server \<Rightarrow> (nat \<Rightarrow> rc) \<Rightarrow> (nat \<Rightarrow> bool) \<Rightarrow> ssh_msg list \<Rightarrow> sftp_msg list \<Rightarrow> 'h \<Rightarrow> 'o
   \<Rightarrow> fault + sftp_reply list \<times> 'o" where
  "serve_session h sy lib s step give_up ms reqs hh os =
     (case handleSession step give_up (m_user s) (m_pass s) ms of
        Some (Some (as, SftpService)) \<Rightarrow> bindF (runSftp h sy lib (m_root s) reqs hh os) (\<lambda>(rs, _, os). ok (rs, os))
      | _ \<Rightarrow> ok ([], os))"

section \<open>Which calls a run makes\<close>

datatype call = C_stat string | C_opendir string | C_open string oflags | C_mkdir string | C_rmdir string
  | C_unlink string | C_readdir u64 | C_pread int | C_pwrite int | C_close int | C_closedir u64

text \<open>The host with a log of the calls made to it.\<close>

definition logging :: "call \<Rightarrow> ('o \<Rightarrow> 'a \<times> 'o) \<Rightarrow> 'o \<times> call list \<Rightarrow> 'a \<times> 'o \<times> call list" where
  "logging c f = (\<lambda>(os, l). apsnd (\<lambda>os. (os, l @ [c])) (f os))"

definition logged :: "'o sys \<Rightarrow> ('o \<times> call list) sys" where
  "logged sy =
     \<lparr>os_stat = (\<lambda>p. logging (C_stat p) (os_stat sy p)),
      os_opendir = (\<lambda>p. logging (C_opendir p) (os_opendir sy p)),
      os_readdir = (\<lambda>d (os, l). bindF (os_readdir sy d os) (\<lambda>(e, os). ok (e, os, l @ [C_readdir d]))),
      os_open = (\<lambda>p fl. logging (C_open p fl) (os_open sy p fl)),
      os_pread = (\<lambda>fd n off. logging (C_pread fd) (os_pread sy fd n off)),
      os_pwrite = (\<lambda>fd d off. logging (C_pwrite fd) (os_pwrite sy fd d off)),
      os_close = (\<lambda>fd (os, l). (os_close sy fd os, l @ [C_close fd])),
      os_closedir = (\<lambda>d (os, l). bindF (os_closedir sy d os) (\<lambda>os. ok (os, l @ [C_closedir d]))),
      os_mkdir = (\<lambda>p. logging (C_mkdir p) (os_mkdir sy p)),
      os_rmdir = (\<lambda>p. logging (C_rmdir p) (os_rmdir sy p)),
      os_unlink = (\<lambda>p. logging (C_unlink p) (os_unlink sy p))\<rparr>"

fun call_path :: "call \<Rightarrow> string option" where
  "call_path (C_stat p) = Some p"
| "call_path (C_opendir p) = Some p"
| "call_path (C_open p fl) = Some p"
| "call_path (C_mkdir p) = Some p"
| "call_path (C_rmdir p) = Some p"
| "call_path (C_unlink p) = Some p"
| "call_path _ = None"

definition served_path :: "host \<Rightarrow> string \<Rightarrow> string \<Rightarrow> bool" where
  "served_path h root p \<longleftrightarrow> under root p \<and> (\<exists>q. p = cleanPath h q)"

definition served_call :: "host \<Rightarrow> string \<Rightarrow> call \<Rightarrow> bool" where
  "served_call h root c = pred_option (served_path h root) (call_path c)"

lemma served_call_simps [simp]:
  "served_call h root (C_stat p) = served_path h root p"
  "served_call h root (C_opendir p) = served_path h root p"
  "served_call h root (C_open p fl) = served_path h root p"
  "served_call h root (C_mkdir p) = served_path h root p"
  "served_call h root (C_rmdir p) = served_path h root p"
  "served_call h root (C_unlink p) = served_path h root p"
  "served_call h root (C_readdir d)" "served_call h root (C_pread fd)" "served_call h root (C_pwrite fd)"
  "served_call h root (C_close fd)" "served_call h root (C_closedir d)"
  by (simp_all add: served_call_def)

lemma resolveRooted_served: "resolveRooted h root path \<noteq> [] \<Longrightarrow> served_path h root (resolveRooted h root path)"
  by (simp add: served_path_def resolveRooted_under resolveRooted_clean)

text \<open>A log whose calls all stay in the root: the invariant of a run.\<close>

abbreviation served_log :: "host \<Rightarrow> string \<Rightarrow> 'o \<times> call list \<Rightarrow> bool" where
  "served_log h root st \<equiv> list_all (served_call h root) (snd st)"

lemma logging_served:
  "logging c f st = (a, st') \<Longrightarrow> served_log h root st \<Longrightarrow> served_call h root c \<Longrightarrow> served_log h root st'"
  by (cases "f (fst st)") (auto simp: logging_def split_def)

lemma read_entries_served:
  "read_entries (logged sy) d n st = ok (es, st') \<Longrightarrow> served_log h root st \<Longrightarrow> served_log h root st'"
proof (induction n arbitrary: st es)
  case (Suc n)
  obtain e st1 where e: "os_readdir (logged sy) d st = ok (e, st1)" "served_log h root st1"
    using Suc.prems by (cases st) (auto simp: logged_def bindF_eq_ok_iff)
  then show ?case using Suc.prems Suc.IH [of st1] by (cases st1) (auto simp: bindF_eq_ok_iff split: option.splits)
qed simp

lemma sftp_step_served:
  assumes "sftp_step h (logged sy) lib root m hh st = ok (r, hh', st')" and "served_log h root st"
  shows "served_log h root st'"
proof (cases "sm_type m")
  case Readdir
  then show ?thesis using assms read_entries_served
    by (fastforce simp: sftp_step_def sftp_readdir_def Let_def bindF_eq_ok_iff split: if_splits)
next
  case Close
  then show ?thesis using assms
    by (cases st) (auto simp: sftp_step_def sftp_close_def Let_def bindF_eq_ok_iff logged_def split: if_splits)
qed (use assms in \<open>auto simp: sftp_step_def sftp_realpath_def sftp_stat_def sftpReplyStat_def sftp_opendir_def
    sftp_open_def sftp_read_def sftp_write_def sftp_path_call_def Let_def logged_def resolveRooted_served
    split: if_splits prod.splits option.splits elim!: logging_served\<close>)

lemma runSftp_served:
  "runSftp h (logged sy) lib root ms hh st = ok (rs, hh', st') \<Longrightarrow> served_log h root st \<Longrightarrow>
   served_log h root st' \<and> length rs = length ms"
proof (induction ms arbitrary: hh st rs)
  case (Cons m ms)
  then obtain r hh1 st1 rs' where step: "sftp_step h (logged sy) lib root m hh st = ok (r, hh1, st1)"
    and rest: "runSftp h (logged sy) lib root ms hh1 st1 = ok (rs', hh', st')" "rs = r # rs'"
    by (auto simp: bindF_eq_ok_iff)
  with Cons.IH [OF rest(1) sftp_step_served [OF step Cons.prems(2)]] show ?case by simp
qed simp

section \<open>What a session takes\<close>

text \<open>The three loops of a session wait for a message of a kind; \<open>after P\<close> is that message and
  what comes behind it.\<close>

fun after :: "('a \<Rightarrow> bool) \<Rightarrow> 'a list \<Rightarrow> ('a \<times> 'a list) option" where
  "after P [] = None"
| "after P (m # ms) = (if P m then Some (m, ms) else after P ms)"

lemma after_iff: "after P ms = Some (m, rest) \<longleftrightarrow> P m \<and> (\<exists>pre. ms = pre @ m # rest \<and> (\<forall>x \<in> set pre. \<not> P x))"
proof (induction ms)
  case (Cons a ms)
  then show ?case
    by (cases "P a") (auto simp: Cons_eq_append_conv intro: exI [where x = "a # pre" for pre])
qed simp

lemma auth_loop_after:
  "map_option snd (auth_loop u p ms) = map_option snd (after (\<lambda>m. m = AuthPassword (Some u) (Some p)) ms)"
  by (induction ms) (auto simp: option.map_comp comp_def split: ssh_msg.split)

lemma channel_loop_after:
  "map_option snd (channel_loop ms) = map_option snd (after (\<lambda>m. m = ChannelOpen True True) ms)"
  by (induction ms) (auto simp: option.map_comp comp_def split: ssh_msg.split bool.split)

fun service_of :: "ssh_msg \<Rightarrow> service option" where
  "service_of RequestShell = Some ShellService"
| "service_of (RequestSubsystem sub) = (if sub = Some ''sftp'' then Some SftpService else None)"
| "service_of _ = None"

lemma request_loop_after:
  "map_option snd (request_loop ms) = Option.bind (after (\<lambda>m. service_of m \<noteq> None) ms) (service_of \<circ> fst)"
  by (induction ms) (auto simp: option.map_comp comp_def split: ssh_msg.split)

lemma kex_returns: "give_up n \<Longrightarrow> k \<le> n \<Longrightarrow> kex_loop step give_up k \<noteq> None"
proof (induction "n - k" arbitrary: k)
  case 0
  then show ?case by (subst kex_loop.simps) (auto split: rc.split)
next
  case (Suc d)
  then show ?case by (subst kex_loop.simps) (auto split: rc.split)
qed

lemma map_snd_eq_Some: "map_option snd x = Some b \<longleftrightarrow> (\<exists>a. x = Some (a, b))"
  by (cases x) auto

lemma auth_loop_iff:
  "map_option snd (auth_loop u p ms) = Some rest \<longleftrightarrow>
   (\<exists>pre. ms = pre @ AuthPassword (Some u) (Some p) # rest \<and> AuthPassword (Some u) (Some p) \<notin> set pre)"
  unfolding auth_loop_after map_snd_eq_Some after_iff by auto

lemma channel_loop_iff:
  "map_option snd (channel_loop ms) = Some rest \<longleftrightarrow>
   (\<exists>pre. ms = pre @ ChannelOpen True True # rest \<and> ChannelOpen True True \<notin> set pre)"
  unfolding channel_loop_after map_snd_eq_Some after_iff by auto

lemma request_loop_iff:
  "map_option snd (request_loop ms) = Some svc \<longleftrightarrow>
   (\<exists>pre m rest. ms = pre @ m # rest \<and> service_of m = Some svc \<and> (\<forall>x \<in> set pre. service_of x = None))"
  unfolding request_loop_after bind_eq_Some_conv by (auto simp: after_iff)

lemma session_service_iff:
  "(\<exists>as. handleSession step give_up u p ms = Some (Some (as, svc))) \<longleftrightarrow>
   kex_loop step give_up 0 = Some True \<and>
   (\<exists>ms1 ms2. map_option snd (auth_loop u p ms) = Some ms1 \<and> map_option snd (channel_loop ms1) = Some ms2 \<and>
      map_option snd (request_loop ms2) = Some svc)"
  by (auto simp: handleSession_def bind_eq_Some_conv map_snd_eq_Some split: if_splits) blast

section \<open>Properties\<close>

text \<open>A session reaches a service exactly when its key exchange succeeds and the client sends,
  in this order and with other messages in between, the configured name and password, a session
  channel that opens, and the request for that service; nothing it sends before the password
  counts.\<close>

theorem ssh_session_access:
  "(\<exists>as. handleSession step give_up u p ms = Some (Some (as, svc))) \<longleftrightarrow>
   kex_loop step give_up 0 = Some True \<and>
   (\<exists>as cs rs m rest. ms = as @ AuthPassword (Some u) (Some p) # cs @ ChannelOpen True True # rs @ m # rest \<and>
      AuthPassword (Some u) (Some p) \<notin> set as \<and> ChannelOpen True True \<notin> set cs \<and>
      (\<forall>x \<in> set rs. service_of x = None) \<and> service_of m = Some svc)"
  unfolding session_service_iff auth_loop_iff channel_loop_iff request_loop_iff by blast

text \<open>C18: Whatever a client sends, the SFTP subsystem of a server started on a directory makes no
  call at all unless the configured name and password were sent, names only cleaned paths that
  are the directory or lie under it, and answers every request once.\<close>

theorem ssh_sftp_confined:
  assumes "serve_session h (logged sy) lib (snd (ssh_start h home port user pass dir s0)) step give_up ms reqs hh (os, []) = ok (rs, os', l)"
    and "dir \<noteq> []"
  shows "(l \<noteq> [] \<longrightarrow> AuthPassword (Some user) (Some pass) \<in> set ms) \<and>
    (\<forall>c p. c \<in> set l \<longrightarrow> call_path c = Some p \<longrightarrow> under (cleanPath h dir) p \<and> (\<exists>q. p = cleanPath h q)) \<and>
    length rs \<le> length reqs"
proof (cases "\<exists>as. handleSession step give_up user pass ms = Some (Some (as, SftpService))")
  case True
  then have "AuthPassword (Some user) (Some pass) \<in> set ms"
    unfolding session_service_iff auth_loop_iff by auto
  moreover from True assms have "\<exists>hh'. runSftp h (logged sy) lib (cleanPath h dir) reqs hh (os, []) = ok (rs, hh', os', l)"
    by (auto simp: serve_session_def ssh_start_def bindF_eq_ok_iff)
  then have "served_log h (cleanPath h dir) (os', l)" "length rs = length reqs"
    using runSftp_served by fastforce+
  ultimately show ?thesis by (auto simp: list_all_iff served_call_def served_path_def)
next
  case False
  then have "rs = [] \<and> l = []"
    using assms by (auto simp: serve_session_def ssh_start_def split: option.splits service.splits)
  then show ?thesis by simp
qed

text \<open>The handle of an open file given to READDIR is used as the address of a directory
  stream: two requests of a client stop the server with a wild pointer, when the first is
  granted a handle.\<close>

theorem ssh_readdir_file_handle:
  assumes "sm_type m1 = Open" and "sm_type m2 = Readdir" and "sm_filename m1 = Some name"
    and "resolveRooted h root name \<noteq> []"
    and "os_open sy (resolveRooted h root name) (open_flags (sm_flags m1)) os = (fd, os1)" and "0 < fd" and "fd < 2 ^ 31"
    and "h_alloc lib (word_of_int fd) hh = (Some k, hh1)" and "sm_handle m2 = k"
    and "h_find lib hh1 k = word_of_int fd"
    and "\<And>a os. uint a < 2 ^ 31 \<Longrightarrow> os_readdir sy a os = Inl WildPointer"
  shows "runSftp h sy lib root [m1, m2] hh os = Inl WildPointer"
proof -
  have fd: "uint (word_of_int fd :: u64) = fd"
    using assms(6,7) by (simp add: word_of_int_inverse)
  then have "(word_of_int fd :: u64) \<noteq> 0" using assms(6) by (metis less_irrefl unsigned_0)
  moreover have "os_readdir sy (word_of_int fd) o1 = Inl WildPointer" for o1
    by (rule assms(11)) (simp only: fd assms(7))
  then have "read_entries sy (word_of_int fd) 50 o1 = Inl WildPointer" for o1
    by (simp add: numeral_eq_Suc)
  ultimately have "sftp_step h sy lib root m2 hh1 os1 = Inl WildPointer"
    using assms by (simp add: sftp_step_def sftp_readdir_def)
  moreover have "sftp_step h sy lib root m1 hh os = ok (R_handle (Some k), hh1, os1)"
    using assms by (simp add: sftp_step_def sftp_open_def)
  ultimately show ?thesis by simp
qed

lemma sftp_write_unknown_handle:
  assumes "sm_type m = Write" and "h_find lib hh (sm_handle m) = 0"
  shows "sftp_step h sy lib root m hh os =
    (let (good, os') = os_pwrite sy 0 (sm_data m) (sm_offset m) os in ok (R_status (if good then FxOk else FxFailure), hh, os'))"
  using assms by (simp add: sftp_step_def sftp_write_def handle_fd_def toInt32_def)

section \<open>Witnesses\<close>

definition demo_sys :: "nat sys" where
  "demo_sys =
     \<lparr>os_stat = (\<lambda>p n. (None, n)), os_opendir = (\<lambda>p n. (0x7F0000000000, n)),
      os_readdir = (\<lambda>d n. if uint d < 0x80000000 then Inl WildPointer else ok (None, n)),
      os_open = (\<lambda>p fl n. (int n, n + 1)), os_pread = (\<lambda>fd k off n. (Some [], n)),
      os_pwrite = (\<lambda>fd d off n. (True, n)), os_close = (\<lambda>fd n. n), os_closedir = (\<lambda>d n. ok n),
      os_mkdir = (\<lambda>p n. (True, n)), os_rmdir = (\<lambda>p n. (True, n)), os_unlink = (\<lambda>p n. (True, n))\<rparr>"

definition demo_handles :: "u64 list handles" where
  "demo_handles =
     \<lparr>h_alloc = (\<lambda>p hh. (Some [of_nat (length hh)], hh @ [p])),
      h_find = (\<lambda>hh k. if k \<noteq> [] \<and> unat (hd k) < length hh then hh ! unat (hd k) else 0),
      h_remove = (\<lambda>p hh. map (\<lambda>q. if q = p then 0 else q) hh)\<rparr>"

definition demo_ssh_host :: host where
  "demo_ssh_host = \<lparr>cleanPath = normalize, filePath = (\<lambda>d n. d @ ''/'' @ n), toUtf8 = to_latin1, fromUtf8 = from_latin1\<rparr>"

definition demo_msg :: "fxp \<Rightarrow> string \<Rightarrow> bytes \<Rightarrow> sftp_msg" where
  "demo_msg t n k = \<lparr>sm_type = t, sm_filename = Some (to_latin1 n), sm_handle = k, sm_flags = 3, sm_offset = 0, sm_len = 0, sm_data = []\<rparr>"

definition demo_server :: ssh_server where
  "demo_server = \<lparr>m_port = 0, m_user = [], m_pass = [], m_root = [], m_stop = False, m_running = False, m_sessions = 0, m_sessionFds = []\<rparr>"

definition demo_login :: "ssh_msg list" where
  "demo_login = [AuthOther, AuthPassword (Some ''me'') (Some ''pw''), ChannelOpen True True, RequestPty, RequestSubsystem (Some ''sftp'')]"

lemma demo_kex: "kex_loop (\<lambda>_. SshOk) give_up 0 = Some True"
  by (subst kex_loop.simps) simp

theorem ssh_session_access_witness:
  "\<exists>as. handleSession (\<lambda>_. SshOk) (\<lambda>_. False) ''me'' ''pw'' demo_login = Some (Some (as, SftpService))"
proof -
  have "demo_login = [AuthOther] @ AuthPassword (Some ''me'') (Some ''pw'') # [] @ ChannelOpen True True #
      [RequestPty] @ RequestSubsystem (Some ''sftp'') # []" by (simp add: demo_login_def)
  moreover have "AuthPassword (Some ''me'') (Some ''pw'') \<notin> set [AuthOther] \<and> ChannelOpen True True \<notin> set [] \<and>
      (\<forall>x \<in> set [RequestPty]. service_of x = None) \<and> service_of (RequestSubsystem (Some ''sftp'')) = Some SftpService"
    by simp
  ultimately show ?thesis unfolding ssh_session_access demo_kex by blast
qed

theorem ssh_sftp_confined_witness:
  "\<exists>rs os' l. serve_session demo_ssh_host (logged demo_sys) demo_handles
      (snd (ssh_start demo_ssh_host ''/home'' 2222 ''me'' ''pw'' ''/srv'' demo_server)) (\<lambda>_. SshOk) (\<lambda>_. False)
      demo_login [demo_msg Mkdir ''a/b'' [], demo_msg Remove ''../etc'' [], demo_msg Open ''f'' []] [] (3, []) = ok (rs, os', l) \<and>
    l \<noteq> [] \<and> AuthPassword (Some ''me'') (Some ''pw'') \<in> set demo_login \<and> length rs \<le> 3"
proof -
  have run: "serve_session demo_ssh_host (logged demo_sys) demo_handles
      (snd (ssh_start demo_ssh_host ''/home'' 2222 ''me'' ''pw'' ''/srv'' demo_server)) (\<lambda>_. SshOk) (\<lambda>_. False)
      demo_login [demo_msg Mkdir ''a/b'' [], demo_msg Remove ''../etc'' [], demo_msg Open ''f'' []] [] (3, []) =
    ok ([R_status FxOk, R_status FxFailure, R_handle (Some [0])], 4, [C_mkdir ''/srv/a/b'', C_open ''/srv/f'' (open_flags 3)])"
    unfolding serve_session_def handleSession_def demo_kex by code_simp
  show ?thesis using run ssh_sftp_confined [OF run] by simp
qed

theorem ssh_readdir_file_handle_witness:
  "runSftp demo_ssh_host demo_sys demo_handles ''/srv'' [demo_msg Open ''f'' [], demo_msg Readdir [] [0]] [] 3 = Inl WildPointer"
proof (rule ssh_readdir_file_handle [where fd = 3 and ?os1.0 = 4 and name = "to_latin1 ''f''" and k = "[0]" and ?hh1.0 = "[3]"])
  show "resolveRooted demo_ssh_host ''/srv'' (to_latin1 ''f'') \<noteq> []" by code_simp
qed (simp_all add: demo_msg_def demo_sys_def demo_handles_def)

end
