(* ===== verification/Vnc_Connection.thy ===== *)
theory Vnc_Connection
  imports Rfb_Zrle Sessions
begin

text \<open>
  The VNC client connection, \<open>src/src/connect/VncConnection.{h,cpp}\<close> over the state of
  \<open>src/src/connect/IConnection.h\<close>: the handshake phases, the loop over framebuffer updates and
  the input messages. What the connection writes to its socket and the signals it emits are
  appended to a log, in order. The update loop can run for ever, so a call of \<open>onReadyRead\<close> is
  an option: \<open>None\<close> when it does not return.
\<close>

section \<open>The connection\<close>

datatype State = Disconnected | Connecting | Connected | Failed | Closed

datatype Phase = PVersion | PSecurity | PSecurityResult | PServerInit | PRunning

datatype vnc_event =
    Wrote bytes
  | StateChanged State
  | ErrorOccurred string
  | ServerReady u16 u16 string
  | RectDecoded u16 u16 u16 u16 "pixel list"
  | CopyRect nat nat u16 u16 u16 u16

record 'z vnc =
  v_state :: State
  v_sock :: bool
  v_phase :: Phase
  v_buf :: bytes
  v_init :: ServerInit
  v_zlib :: 'z
  v_viewOnly :: bool
  v_buttonMask :: int
  v_log :: "vnc_event list"

definition emit :: "vnc_event \<Rightarrow> 'z vnc \<Rightarrow> 'z vnc" where
  "emit e v = v\<lparr>v_log := v_log v @ [e]\<rparr>"

definition setState :: "State \<Rightarrow> 'z vnc \<Rightarrow> 'z vnc" where
  "setState s v = (if s \<noteq> v_state v then emit (StateChanged s) (v\<lparr>v_state := s\<rparr>) else v)"

definition fail_with :: "string \<Rightarrow> 'z vnc \<Rightarrow> 'z vnc" where
  "fail_with msg v = emit (ErrorOccurred msg) (setState Failed v)"

definition connectSession :: "'z vnc \<Rightarrow> 'z vnc" where
  "connectSession v = (setState Connecting v)\<lparr>v_phase := PVersion, v_buf := [], v_sock := True\<rparr>"

definition disconnectSession :: "'z vnc \<Rightarrow> 'z vnc" where
  "disconnectSession v = setState Disconnected (v\<lparr>v_sock := False\<rparr>)"

definition on_disconnected :: "'z vnc \<Rightarrow> 'z vnc" where
  "on_disconnected v = setState Closed v"

definition on_error :: "string \<Rightarrow> 'z vnc \<Rightarrow> 'z vnc" where
  "on_error msg v = fail_with msg v"

section \<open>The handshake\<close>

text \<open>A phase answers whether \<open>onReadyRead\<close> goes on to the next one.\<close>

definition vnc_version :: "'z vnc \<Rightarrow> bool \<times> 'z vnc" where
  "vnc_version v =
     (if v_phase v = PVersion then
        if length (v_buf v) < 12 then (False, v)
        else let ver = parseVersion (take 12 (v_buf v))
             in if \<not> vvalid ver then (False, fail_with ''Bad RFB version'' v)
                else (True, (emit (Wrote (formatVersion ver)) (v\<lparr>v_buf := drop 12 (v_buf v)\<rparr>))\<lparr>v_phase := PSecurity\<rparr>)
      else (True, v))"

definition vnc_security :: "'z vnc \<Rightarrow> bool \<times> 'z vnc" where
  "vnc_security v =
     (if v_phase v = PSecurity then
        if v_buf v = [] then (False, v)
        else let n = unat (hd (v_buf v))
             in if n = 0 then (False, fail_with ''Server rejected connection'' v)
                else if length (v_buf v) < 1 + n then (False, v)
                else let types = take n (drop 1 (v_buf v)); chosen = (if 1 \<in> set types then 1 else hd types)
                     in (True, (emit (Wrote [chosen]) (v\<lparr>v_buf := drop (1 + n) (v_buf v)\<rparr>))\<lparr>v_phase := PSecurityResult\<rparr>)
      else (True, v))"

definition vnc_result :: "'z vnc \<Rightarrow> bool \<times> 'z vnc" where
  "vnc_result v =
     (if v_phase v = PSecurityResult then
        if length (v_buf v) < 4 then (False, v)
        else let result = rd32be (v_buf v) 0; v = v\<lparr>v_buf := drop 4 (v_buf v)\<rparr>
             in if result \<noteq> 0 then (False, fail_with ''VNC authentication failed'' v)
                else (True, (emit (Wrote [1]) v)\<lparr>v_phase := PServerInit\<rparr>)
      else (True, v))"

definition requestFramebuffer :: "'z vnc \<Rightarrow> 'z vnc" where
  "requestFramebuffer v =
     emit (Wrote ([3, 0] @ int16 0 @ int16 0 @ int16 (uint (width (v_init v))) @ int16 (uint (height (v_init v))))) v"

text \<open>\<open>24 + nameLen\<close> wraps at 32 bits; the comparison reads it as a signed \<open>int\<close>.\<close>

definition vnc_init :: "host \<Rightarrow> 'z vnc \<Rightarrow> bool \<times> 'z vnc" where
  "vnc_init h v =
     (if v_phase v = PServerInit then
        if length (v_buf v) < 24 then (False, v)
        else let nameLen = rd32be (v_buf v) 20; end = 24 + nameLen
             in if int (length (v_buf v)) < toInt32 end then (False, v)
                else let init = parseServerInit h (take (unat end) (v_buf v));
                         v = setState Connected (v\<lparr>v_init := init, v_buf := drop (unat end) (v_buf v)\<rparr>);
                         v = emit (ServerReady (width init) (height init) (sname init)) v;
                         v = emit (Wrote (encodeSetEncodings [16, 5, 2, 1, 0])) v
                     in (True, (requestFramebuffer v)\<lparr>v_phase := PRunning\<rparr>)
      else (True, v))"

definition then_go :: "bool \<times> 's \<Rightarrow> ('s \<Rightarrow> bool \<times> 's) \<Rightarrow> bool \<times> 's" where
  "then_go r f = (if fst r then f (snd r) else r)"

definition handshake :: "host \<Rightarrow> 'z vnc \<Rightarrow> bool \<times> 'z vnc" where
  "handshake h v = then_go (then_go (then_go (vnc_version v) vnc_security) vnc_result) (vnc_init h)"

section \<open>Framebuffer updates\<close>

text \<open>
  A ZRLE length read as a negative \<open>int\<close> can take the offset below zero. \<open>QByteArray::mid\<close> at
  a negative position is short, so a Raw rectangle decodes to no pixels there; the other
  encodings index the buffer.
\<close>

definition decode_before :: "Rectangle \<Rightarrow> bytes \<Rightarrow> int \<Rightarrow> fault + RectData" where
  "decode_before r buf off =
     (let n = int (unat (rwidth r)) * int (unat (rheight r)) in
      bindF (intOp n) (\<lambda>n.
      if encoding r = 0 then
        bindF (intOp (n * 4)) (\<lambda>need.
        if int (length buf) < off + need then ok no_rect else ok (no_rect\<lparr>consumed := need, complete := True\<rparr>))
      else if encoding r = 1 then if int (length buf) < off + 4 then ok no_rect else Inl OutOfBounds
      else if encoding r = 2 then if int (length buf) < off + 8 then ok no_rect else Inl OutOfBounds
      else if encoding r = 5 then if n = 0 then ok (no_rect\<lparr>complete := True\<rparr>) else Inl OutOfBounds
      else ok no_rect))"

definition decode_at :: "'z zlib \<Rightarrow> Rectangle \<Rightarrow> bytes \<Rightarrow> int \<Rightarrow> 'z \<Rightarrow> fault + RectData \<times> 'z" where
  "decode_at zl r buf off z =
     (if encoding r = 16 then
        if 0 \<le> off then decodeZRLERect zl r buf (nat off) z
        else if int (length buf) < off + 4 then ok (no_rect, z) else Inl OutOfBounds
      else bindF (if 0 \<le> off then decodeRect r buf (nat off) 4 else decode_before r buf off) (\<lambda>d. ok (d, z)))"

definition rect_event :: "Rectangle \<Rightarrow> RectData \<Rightarrow> vnc_event" where
  "rect_event r d =
     (if isCopy d then CopyRect (srcX d) (srcY d) (rx r) (ry r) (rwidth r) (rheight r)
      else RectDecoded (rx r) (ry r) (rwidth r) (rheight r) (pixels d))"

fun vnc_rects :: "'z zlib \<Rightarrow> Rectangle list \<Rightarrow> int \<Rightarrow> 'z vnc \<Rightarrow> fault + bool \<times> int \<times> 'z vnc" where
  "vnc_rects zl [] off v = ok (True, off, v)"
| "vnc_rects zl (r # rs) off v =
     bindF (intOp (off + 12)) (\<lambda>off.
     bindF (decode_at zl r (v_buf v) off (v_zlib v)) (\<lambda>(d, z).
       let v = v\<lparr>v_zlib := z\<rparr>
       in if \<not> complete d then ok (False, off, v)
          else bindF (intOp (off + consumed d)) (\<lambda>off. vnc_rects zl rs off (emit (rect_event r d) v))))"

text \<open>\<open>m_buf.remove(0, n)\<close> does nothing for a count that is not positive.\<close>

definition remove_front :: "int \<Rightarrow> bytes \<Rightarrow> bytes" where
  "remove_front n b = (if n \<le> 0 then b else drop (nat n) b)"

definition vnc_round :: "'z zlib \<Rightarrow> 'z vnc \<Rightarrow> fault + bool \<times> 'z vnc" where
  "vnc_round zl v =
     (if v_buf v = [] \<or> hd (v_buf v) \<noteq> 0 then ok (False, v)
      else let hdr = parseFramebufferUpdate (v_buf v)
           in if \<not> uvalid hdr then ok (False, v)
              else bindF (vnc_rects zl (rects hdr) 4 v) (\<lambda>(c, off, v).
                   ok (if c then (True, v\<lparr>v_buf := remove_front off (v_buf v)\<rparr>) else (False, v))))"

partial_function (option) vnc_updates :: "'z zlib \<Rightarrow> 'z vnc \<Rightarrow> (fault + 'z vnc) option" where
  "vnc_updates zl v =
     (case vnc_round zl v of
        Inl e \<Rightarrow> Some (Inl e)
      | Inr (again, v') \<Rightarrow> if again then vnc_updates zl v' else Some (ok v'))"

definition onReadyRead :: "host \<Rightarrow> 'z zlib \<Rightarrow> bytes \<Rightarrow> 'z vnc \<Rightarrow> (fault + 'z vnc) option" where
  "onReadyRead h zl data v =
     (case handshake h (v\<lparr>v_buf := v_buf v @ data\<rparr>) of
        (go, v) \<Rightarrow> if go \<and> v_phase v = PRunning then vnc_updates zl v else Some (ok v))"

section \<open>Input\<close>

definition sendPointerEvent :: "int \<Rightarrow> int \<Rightarrow> int \<Rightarrow> 'z vnc \<Rightarrow> 'z vnc" where
  "sendPointerEvent x y buttons v =
     (if v_viewOnly v \<or> v_phase v \<noteq> PRunning \<or> \<not> v_sock v then v
      else emit (Wrote (encodePointerEvent x y buttons)) (v\<lparr>v_buttonMask := buttons\<rparr>))"

definition sendKeyEvent :: "u32 \<Rightarrow> bool \<Rightarrow> 'z vnc \<Rightarrow> 'z vnc" where
  "sendKeyEvent keysym down v =
     (if v_viewOnly v \<or> v_phase v \<noteq> PRunning \<or> \<not> v_sock v then v
      else emit (Wrote (encodeKeyEvent keysym down)) v)"

section \<open>The stream\<close>

text \<open>The calls of \<open>onReadyRead\<close> for the chunks a socket delivers.\<close>

fun vnc_feed :: "host \<Rightarrow> 'z zlib \<Rightarrow> bytes list \<Rightarrow> 'z vnc \<Rightarrow> (fault + 'z vnc) option" where
  "vnc_feed h zl [] v = Some (ok v)"
| "vnc_feed h zl (c # cs) v =
     (case onReadyRead h zl c v of
        Some (Inr v') \<Rightarrow> vnc_feed h zl cs v'
      | r \<Rightarrow> r)"

lemma vnc_idle: "v_buf v = [] \<or> hd (v_buf v) \<noteq> 0 \<Longrightarrow> vnc_updates zl v = Some (ok v)"
  by (subst vnc_updates.simps) (simp add: vnc_round_def)

text \<open>A message of another type at the head of the buffer is never taken off it.\<close>

lemma running_stalled:
  assumes "v_phase v = PRunning" and "v_buf v \<noteq> []" and "hd (v_buf v) \<noteq> 0"
  shows "onReadyRead h zl data v = Some (ok (v\<lparr>v_buf := v_buf v @ data\<rparr>))"
  using assms
  by (simp add: onReadyRead_def handshake_def then_go_def vnc_version_def vnc_security_def vnc_result_def
      vnc_init_def vnc_idle)

text \<open>After the handshake only framebuffer updates are understood: any other message of the
  server - a bell, a clipboard text, a colour map - stays at the head of the buffer, and from
  then on nothing the server sends is drawn or answered; it is only kept.\<close>

theorem vnc_other_message_stalls:
  assumes "v_phase v = PRunning" and "v_buf v = []" and "c \<noteq> []" and "hd c \<noteq> 0"
  shows "vnc_feed h zl (c # cs) v = Some (ok (v\<lparr>v_buf := c @ concat cs\<rparr>))"
proof -
  have "vnc_feed h zl cs v' = Some (ok (v'\<lparr>v_buf := v_buf v' @ concat cs\<rparr>))"
    if "v_phase v' = PRunning" "v_buf v' \<noteq> []" "hd (v_buf v') \<noteq> 0" for v' :: "'a vnc"
    using that by (induction cs arbitrary: v') (simp_all add: running_stalled)
  from this [of "v\<lparr>v_buf := c\<rparr>"] show ?thesis
    using assms
    by (simp add: onReadyRead_def handshake_def then_go_def vnc_version_def vnc_security_def vnc_result_def
        vnc_init_def vnc_idle)
qed

end
