(* ===== verification/Vnc_Handshake.thy ===== *)
theory Vnc_Handshake
  imports Vnc_Connection
begin

text \<open>
  The handshake of the VNC client does not depend on how the socket cuts the stream. Each phase
  is a streaming step: on a buffer too short it changes nothing, and what it does on a longer
  one is the same whatever follows.
\<close>

section \<open>Streaming phases\<close>

definition fed :: "bytes \<Rightarrow> 'z vnc \<Rightarrow> 'z vnc" where
  "fed ys v = v\<lparr>v_buf := v_buf v @ ys\<rparr>"

lemma more_simps [simp]:
  "v_buf (fed ys v) = v_buf v @ ys" "v_phase (fed ys v) = v_phase v" "v_state (fed ys v) = v_state v"
  "fed [] v = v" "fed zs (fed ys v) = fed (ys @ zs) v"
  by (simp_all add: fed_def)

lemma more_commute:
  "fed ys (emit e v) = emit e (fed ys v)" "fed ys (setState s v) = setState s (fed ys v)"
  "fed ys (fail_with msg v) = fail_with msg (fed ys v)"
  "fed ys (v\<lparr>v_phase := p\<rparr>) = (fed ys v)\<lparr>v_phase := p\<rparr>"
  "fed ys (v\<lparr>v_buf := b\<rparr>) = v\<lparr>v_buf := b @ ys\<rparr>"
  "(fed ys v)\<lparr>v_buf := b\<rparr> = v\<lparr>v_buf := b\<rparr>"
  "fed ys (v\<lparr>v_init := i, v_buf := b\<rparr>) = v\<lparr>v_init := i, v_buf := b @ ys\<rparr>"
  "(fed ys v)\<lparr>v_init := i, v_buf := b\<rparr> = v\<lparr>v_init := i, v_buf := b\<rparr>"
  by (simp_all add: fed_def emit_def setState_def fail_with_def)

lemma requestFramebuffer_more: "fed ys (requestFramebuffer v) = requestFramebuffer (fed ys v)"
  by (simp add: requestFramebuffer_def fed_def emit_def)

fun rank :: "Phase \<Rightarrow> nat" where
  "rank PVersion = 0" | "rank PSecurity = 1" | "rank PSecurityResult = 2" | "rank PServerInit = 3" | "rank PRunning = 4"

lemma rank_eq [simp]:
  "rank p = 0 \<longleftrightarrow> p = PVersion" "rank p = Suc 0 \<longleftrightarrow> p = PSecurity" "rank p = 2 \<longleftrightarrow> p = PSecurityResult" "rank p = 3 \<longleftrightarrow> p = PServerInit"
  by (cases p; simp)+

definition streaming :: "nat \<Rightarrow> ('z vnc \<Rightarrow> bool \<times> 'z vnc) \<Rightarrow> bool" where
  "streaming k f \<longleftrightarrow> (\<forall>v.
     (rank (v_phase v) \<noteq> k \<longrightarrow> f v = (True, v)) \<and>
     (rank (v_phase v) = k \<longrightarrow> f v = (False, v) \<or>
        (\<forall>ys. f (fed ys v) = apsnd (fed ys) (f v)) \<and>
        (if fst (f v) then rank (v_phase (snd (f v))) = Suc k \<and> v_state (snd (f v)) = v_state v else v_state (snd (f v)) = Failed)))"

lemma state_failed [simp]: "v_state (fail_with msg v) = Failed"
  by (simp add: fail_with_def setState_def emit_def)

lemma state_emit [simp]: "v_state (emit e v) = v_state v" "v_phase (emit e v) = v_phase v" "v_buf (emit e v) = v_buf v"
  by (simp_all add: emit_def)

lemma streaming_version: "streaming 0 vnc_version"
  by (auto simp: streaming_def vnc_version_def Let_def more_commute)

lemma streaming_security: "streaming 1 vnc_security"
  by (auto simp: streaming_def vnc_security_def Let_def more_commute hd_append not_less)

lemma rd32be_append: "off + 4 \<le> length b \<Longrightarrow> rd32be (b @ ys) off = rd32be b off"
  by (simp add: rd32be_def nth_append)

lemma streaming_result: "streaming 2 vnc_result"
  by (auto simp: streaming_def vnc_result_def Let_def more_commute rd32be_append not_less)

section \<open>Phases in a row\<close>

primrec chain :: "('s \<Rightarrow> bool \<times> 's) list \<Rightarrow> 's \<Rightarrow> bool \<times> 's" where
  "chain [] v = (True, v)"
| "chain (f # fs) v = then_go (f v) (chain fs)"

primrec phases :: "nat \<Rightarrow> ('z vnc \<Rightarrow> bool \<times> 'z vnc) list \<Rightarrow> bool" where
  "phases k [] = True"
| "phases k (f # fs) = (streaming k f \<and> phases (Suc k) fs)"

abbreviation "end_of r \<equiv> snd r"

lemma streaming_other: "streaming k f \<Longrightarrow> rank (v_phase v) \<noteq> k \<Longrightarrow> f v = (True, v)"
  by (simp add: streaming_def)

lemma chain_rank: "phases k fs \<Longrightarrow> rank (v_phase v) \<le> rank (v_phase (end_of (chain fs v))) \<or> v_state (end_of (chain fs v)) = Failed"
proof (induction fs arbitrary: k v)
  case (Cons f fs)
  have st: "streaming k f" and ph: "phases (Suc k) fs" using Cons.prems by auto
  obtain g v' where f: "f v = (g, v')" by fastforce
  have "(g \<and> rank (v_phase v) \<le> rank (v_phase v')) \<or> (\<not> g \<and> (v' = v \<or> v_state v' = Failed))"
    using st f unfolding streaming_def by (metis Suc_n_not_le_n fst_conv nat_le_linear prod.inject snd_conv)
  then show ?case using Cons.IH [OF ph, of v'] f by (auto simp: then_go_def)
qed simp

text \<open>Stopping after a prefix and going on with the rest is the same as one run on both, as long
  as the handshake does not fail.\<close>

lemma chain_more:
  "phases k fs \<Longrightarrow> k \<le> rank (v_phase v) \<Longrightarrow> v_state v \<noteq> Failed \<Longrightarrow> v_state (end_of (chain fs (fed ys v))) \<noteq> Failed \<Longrightarrow>
   v_state (end_of (chain fs v)) \<noteq> Failed \<and> chain fs (fed ys (end_of (chain fs v))) = chain fs (fed ys v)"
proof (induction fs arbitrary: k v)
  case (Cons f fs)
  have st: "streaming k f" and ph: "phases (Suc k) fs" using Cons.prems by auto
  have step: ?case if f: "f v = (True, v')" "f (fed ys v) = (True, fed ys v')"
    and v': "Suc k \<le> rank (v_phase v')" "v_state v' \<noteq> Failed" for v'
  proof -
    let ?v1 = "end_of (chain fs v')"
    have "v_state ?v1 \<noteq> Failed \<and> chain fs (fed ys ?v1) = chain fs (fed ys v')"
      using Cons.IH [OF ph v'] Cons.prems f by (simp add: then_go_def)
    moreover from this have "rank (v_phase (fed ys ?v1)) \<noteq> k"
      using chain_rank [OF ph, of v'] v'(1) by auto
    ultimately show ?thesis using streaming_other [OF st] f by (simp add: then_go_def)
  qed
  show ?case
  proof (cases "rank (v_phase v) = k \<and> f v \<noteq> (False, v)")
    case True
    then have f: "f (fed ys v) = apsnd (fed ys) (f v)" "if fst (f v) then rank (v_phase (snd (f v))) = Suc k \<and>
        v_state (snd (f v)) = v_state v else v_state (snd (f v)) = Failed"
      using st by (auto simp: streaming_def)
    then have "fst (f v)" using Cons.prems by (auto simp: then_go_def split: if_splits)
    with f Cons.prems show ?thesis by (intro step [of "snd (f v)"]) (simp_all add: prod_eq_iff)
  next
    case False
    show ?thesis
    proof (cases "rank (v_phase v) = k")
      case True
      with False Cons.prems show ?thesis by (simp add: then_go_def)
    next
      case other: False
      then show ?thesis
        using streaming_other [OF st, of v] streaming_other [OF st, of "fed ys v"] Cons.prems by (intro step [of v]) simp_all
    qed
  qed
qed simp

lemma chain_True:
  "phases k fs \<Longrightarrow> chain fs v = (True, v1) \<Longrightarrow> chain fs (fed ys v) = (True, fed ys v1)"
proof (induction fs arbitrary: k v)
  case (Cons f fs)
  have st: "streaming k f" and ph: "phases (Suc k) fs" using Cons.prems by auto
  obtain v' where f: "f v = (True, v')" and c: "chain fs v' = (True, v1)"
    using Cons.prems by (cases "f v") (auto simp: then_go_def split: if_splits)
  have "f (fed ys v) = (True, fed ys v')"
    using st [unfolded streaming_def, THEN spec, of v] f streaming_other [OF st, of "fed ys v"]
    by (cases "rank (v_phase v) = k") auto
  then show ?case using Cons.IH [OF ph c] by (simp add: then_go_def)
qed simp

section \<open>The whole handshake\<close>

abbreviation (input) first_phases :: "('z vnc \<Rightarrow> bool \<times> 'z vnc) list" where
  "first_phases \<equiv> [vnc_version, vnc_security, vnc_result]"

lemma phases_first: "phases 0 (first_phases :: ('z vnc \<Rightarrow> bool \<times> 'z vnc) list)"
  using streaming_version streaming_security streaming_result by (simp add: numeral_2_eq_2)

lemma handshake_chain: "handshake h v = then_go (chain first_phases v) (vnc_init h)"
  by (auto simp: handshake_def then_go_def)

text \<open>A buffer that completes the handshake exactly: \<open>vi\<close> is the connection when it has the
  server's initialisation message and nothing else to read.\<close>

definition completes :: "'z vnc \<Rightarrow> 'z vnc \<Rightarrow> bool" where
  "completes v vi \<longleftrightarrow> chain first_phases v = (True, vi) \<and> v_phase vi = PServerInit \<and> v_state vi \<noteq> Failed \<and>
     24 \<le> length (v_buf vi) \<and> unat (24 + rd32be (v_buf vi) 20) = length (v_buf vi) \<and> length (v_buf vi) < 2 ^ 31"

lemma handshake_progress:
  assumes "v_state w \<noteq> Failed" and "completes (fed ys w) vi"
  shows "(\<exists>w1. handshake h w = (False, w1) \<and> handshake h w1 = (False, w1) \<and> v_state w1 \<noteq> Failed \<and> completes (fed ys w1) vi) \<or>
    (handshake h w = vnc_init h vi \<and> ys = [])"
proof -
  obtain g w1 where w1: "chain first_phases w = (g, w1)" by fastforce
  have more: "v_state w1 \<noteq> Failed \<and> chain first_phases (fed ys w1) = chain first_phases (fed ys w)"
    using chain_more [OF phases_first, of w ys] assms w1 by (simp add: completes_def)
  have again: "chain first_phases w1 = (g, w1)"
    using chain_more [OF phases_first, of w "[]"] assms(1) w1 more by simp
  have comp: "completes (fed ys w1) vi" using more assms(2) by (simp add: completes_def)
  show ?thesis
  proof (cases g)
    case False
    then show ?thesis using w1 again more comp by (auto simp: handshake_chain then_go_def)
  next
    case True
    then have vi: "vi = fed ys w1"
      using chain_True [OF phases_first, of w1 w1 ys] again comp by (simp add: completes_def)
    have ph: "v_phase w1 = PServerInit" using comp vi by (simp add: completes_def)
    let ?n = "24 + rd32be (v_buf vi) 20"
    show ?thesis
    proof (cases "ys = []")
      case True
      then show ?thesis using vi w1 \<open>g\<close> by (simp add: handshake_chain then_go_def)
    next
      case False
      have "vnc_init h w1 = (False, w1)"
      proof (cases "24 \<le> length (v_buf w1)")
        case long: True
        then have "rd32be (v_buf w1) 20 = rd32be (v_buf vi) 20" using vi by (simp add: rd32be_append)
        moreover have "toInt32 ?n = int (length (v_buf w1) + length ys)"
          using comp vi by (simp add: completes_def toInt32_small)
        ultimately show ?thesis using ph False long by (simp add: vnc_init_def)
      qed (simp add: vnc_init_def ph)
      then show ?thesis using w1 again \<open>g\<close> more comp by (auto simp: handshake_chain then_go_def)
    qed
  qed
qed

lemma vnc_init_completed:
  assumes "completes v vi"
  shows "\<exists>vf. vnc_init h vi = (True, vf) \<and> v_phase vf = PRunning \<and> v_buf vf = []"
  using assms
  by (simp add: completes_def vnc_init_def toInt32_small Let_def requestFramebuffer_def emit_def setState_def)

lemma feed_completes:
  assumes "v_state v \<noteq> Failed" and "handshake h v = (False, v)" and "completes (fed (concat cs) v) vi"
  shows "vnc_feed h zl cs v = Some (ok (snd (vnc_init h vi)))"
  using assms
proof (induction cs arbitrary: v)
  case Nil
  then show ?case
    using handshake_progress [of v "[]" vi h] vnc_init_completed [OF Nil.prems(3), of h]
    by (auto simp: handshake_chain then_go_def completes_def)
next
  case (Cons c cs)
  obtain vf where vf: "vnc_init h vi = (True, vf)" "v_phase vf = PRunning" "v_buf vf = []"
    using vnc_init_completed [OF Cons.prems(3), of h] by auto
  have "completes (fed (concat cs) (fed c v)) vi" using Cons.prems(3) by simp
  from handshake_progress [OF _ this, of h] Cons.prems(1)
  consider w1 where "handshake h (fed c v) = (False, w1)" "handshake h w1 = (False, w1)" "v_state w1 \<noteq> Failed"
      "completes (fed (concat cs) w1) vi"
    | "handshake h (fed c v) = (True, vf)" "concat cs = []" using vf by auto
  then show ?case
  proof cases
    case 1
    then show ?thesis using Cons.IH [of w1] by (simp add: onReadyRead_def fed_def)
  next
    case 2
    have "onReadyRead h zl [] vf = Some (ok vf)"
      using vf by (simp add: onReadyRead_def handshake_def then_go_def vnc_version_def vnc_security_def
          vnc_result_def vnc_init_def vnc_idle)
    then have "vnc_feed h zl cs vf = Some (ok vf)"
      using 2(2) by (induction cs) simp_all
    then show ?thesis using 2 vf by (simp add: onReadyRead_def fed_def vnc_idle)
  qed
qed

text \<open>What a server sends up to its initialisation message.\<close>

definition greeting :: "bytes \<Rightarrow> bytes \<Rightarrow> bytes \<Rightarrow> bytes \<Rightarrow> bytes" where
  "greeting ver types fixed name =
     ver @ of_nat (length types) # types @ [0, 0, 0, 0] @ fixed @ be32 (of_nat (length name)) @ name"

lemma rd32be_be32: "length xs = off \<Longrightarrow> rd32be (xs @ be32 n @ ys) off = n"
  using rd_shift(2) [of xs "be32 n @ ys" 0] by (simp add: rd32be_def be32_def join32_split)

lemma greeting_completes:
  assumes "length ver = 12" and "vvalid (parseVersion ver)" and "types \<noteq> []" and "length types < 256"
    and "length fixed = 20" and "length name < 2 ^ 31 - 24"
    and "v_phase v = PVersion" and "v_buf v = []" and "v_state v \<noteq> Failed"
  shows "completes (fed (greeting ver types fixed name) v)
    (v\<lparr>v_phase := PServerInit, v_buf := fixed @ be32 (of_nat (length name)) @ name,
       v_log := v_log v @ [Wrote (formatVersion (parseVersion ver)), Wrote [if 1 \<in> set types then 1 else hd types], Wrote [1]]\<rparr>)"
proof -
  define msg where "msg = fixed @ be32 (of_nat (length name)) @ name"
  have n: "unat (of_nat (length types) :: byte) = length types"
    using assms(4) by (simp add: unat_of_nat_small)
  have len: "unat (24 + rd32be msg 20) = 24 + length name"
    using assms(5,6) by (simp add: msg_def rd32be_be32 unat_of_nat unat_word_ariths)
  have "chain first_phases (fed (greeting ver types fixed name) v) =
     (True, v\<lparr>v_phase := PServerInit, v_buf := msg, v_log := v_log v @
        [Wrote (formatVersion (parseVersion ver)), Wrote [if 1 \<in> set types then 1 else hd types], Wrote [1]]\<rparr>)"
    using assms n
    by (simp add: greeting_def msg_def [symmetric] vnc_version_def vnc_security_def vnc_result_def then_go_def
        fed_def emit_def Let_def rd32be_def join32_def)
  then show ?thesis using len assms(5,6,9) by (simp add: completes_def msg_def)
qed

text \<open>C8: However the socket cuts a server's greeting into chunks, the client answers the same:
  its version, the security type it chose (none, when offered), the shared flag, the encodings
  and one full request, in this order; and it reports itself connected once, with the
  server's size and name.\<close>

theorem vnc_handshake_any_chunking:
  assumes "concat cs = greeting ver types fixed name"
    and "length ver = 12" and "vvalid (parseVersion ver)" and "types \<noteq> []" and "length types < 256"
    and "length fixed = 20" and "length name < 2 ^ 31 - 24"
    and "v_phase v = PVersion" and "v_buf v = []" and "v_state v = Connecting"
    and "init = parseServerInit h (fixed @ be32 (of_nat (length name)) @ name)"
  shows "vnc_feed h zl cs v = Some (ok (v\<lparr>v_state := Connected, v_phase := PRunning, v_init := init,
    v_log := v_log v @ [Wrote (formatVersion (parseVersion ver)), Wrote [if 1 \<in> set types then 1 else hd types], Wrote [1],
      StateChanged Connected, ServerReady (width init) (height init) (sname init),
      Wrote (encodeSetEncodings [16, 5, 2, 1, 0]),
      Wrote ([3, 0] @ int16 0 @ int16 0 @ int16 (uint (width init)) @ int16 (uint (height init)))]\<rparr>))"
proof -
  define vi where "vi = v\<lparr>v_phase := PServerInit, v_buf := fixed @ be32 (of_nat (length name)) @ name,
    v_log := v_log v @ [Wrote (formatVersion (parseVersion ver)), Wrote [if 1 \<in> set types then 1 else hd types], Wrote [1]]\<rparr>"
  have c: "completes (fed (concat cs) v) vi"
    using greeting_completes [of ver types "fixed" name v] assms by (simp add: vi_def)
  then have "toInt32 (24 + rd32be (v_buf vi) 20) = int (length (v_buf vi))"
    and "unat (24 + rd32be (v_buf vi) 20) = length (v_buf vi)" "24 \<le> length (v_buf vi)"
    by (simp_all add: completes_def toInt32_small)
  then have "snd (vnc_init h vi) = (requestFramebuffer (emit (Wrote (encodeSetEncodings [16, 5, 2, 1, 0]))
      (emit (ServerReady (width init) (height init) (sname init)) (setState Connected (vi\<lparr>v_init := init, v_buf := []\<rparr>)))))\<lparr>v_phase := PRunning\<rparr>"
    using assms(11) by (simp add: vnc_init_def vi_def Let_def)
  moreover have "handshake h v = (False, v)"
    using assms by (simp add: handshake_def then_go_def vnc_version_def)
  ultimately show ?thesis
    using feed_completes [OF _ _ c, of h zl] assms
    by (simp add: vi_def requestFramebuffer_def emit_def setState_def)
qed

section \<open>A length below zero\<close>

text \<open>One ZRLE rectangle whose block length, read as an \<open>int\<close>, takes the offset to zero or below.\<close>

definition zrle_bomb :: "byte \<Rightarrow> Rectangle \<Rightarrow> u32 \<Rightarrow> bytes \<Rightarrow> bytes" where
  "zrle_bomb pad r len rest = [0, pad, 0, 1] @ put_rect r @ be32 len @ rest"

lemma bomb_header:
  assumes "b = zrle_bomb pad r len rest"
  shows "parseFramebufferUpdate b = \<lparr>rects = [r], uvalid = True\<rparr>" and "rd32be b 16 = len" and "20 \<le> length b"
proof -
  have "read_rect b 4 = r"
    using read_rect_shift [of "[0, pad, 0, 1]" "put_rect r @ be32 len @ rest"]
    by (simp add: assms zrle_bomb_def read_rect_put eval_nat_numeral)
  moreover have "rd16be b 2 = 1" by (simp add: assms zrle_bomb_def rd16be_def join16_def)
  ultimately show "parseFramebufferUpdate b = \<lparr>rects = [r], uvalid = True\<rparr>"
    by (simp add: parseFramebufferUpdate_def assms zrle_bomb_def)
  show "rd32be b 16 = len"
    using rd32be_be32 [of "[0, pad, 0, 1] @ put_rect r" 16 len rest] by (simp add: assms zrle_bomb_def)
qed (simp add: assms zrle_bomb_def)

lemma bomb_decode:
  assumes "b = zrle_bomb pad r len rest" and "encoding r = 16" and "toInt32 len \<le> -20"
    and "decode_at zl r b 16 z = ok (d, z')"
  shows "complete d \<and> consumed d = 4 + toInt32 len"
proof -
  have "- (2 ^ 31) \<le> toInt32 len" using sint_ge [of len] by (simp add: toInt32_def)
  then have i: "intOp (16 + 4 + toInt32 len) = ok (16 + 4 + toInt32 len)" "intOp (4 + toInt32 len) = ok (4 + toInt32 len)"
    using assms(3) by (simp_all add: intOp_def fitsInt_def)
  have "\<not> int (length b) < 16 + 4 + toInt32 len" using assms(3) by simp
  moreover have "decodeZRLERect zl r b 16 z = ok (d, z')" using assms(2,4) by (simp add: decode_at_def)
  ultimately show ?thesis
    using i bomb_header [OF assms(1)]
    by (auto simp: decodeZRLERect_def Let_def bindF_eq_ok_iff split: if_splits prod.splits)
qed

lemma bomb_round:
  assumes "v_buf v = zrle_bomb pad r len rest" and "encoding r = 16" and "toInt32 len \<le> -20"
    and "vnc_round zl v = ok (again, v')"
  shows "again \<and> v_buf v' = v_buf v"
proof -
  note h = bomb_header [OF assms(1)]
  have unfolded: "vnc_round zl v = bindF (decode_at zl r (v_buf v) 16 (v_zlib v)) (\<lambda>(d, z).
      if \<not> complete d then ok (False, v\<lparr>v_zlib := z\<rparr>)
      else bindF (intOp (16 + consumed d)) (\<lambda>off. let v = emit (rect_event r d) (v\<lparr>v_zlib := z\<rparr>) in ok (True, v\<lparr>v_buf := remove_front off (v_buf v)\<rparr>)))"
    using h assms(1)
    by (simp add: vnc_round_def zrle_bomb_def intOp_def [of 16] fitsInt_def bindF_assoc split_def Let_def if_distrib [of "\<lambda>x. bindF x _"] cong: if_cong)
  with assms(4) obtain d z where d: "decode_at zl r (v_buf v) 16 (v_zlib v) = ok (d, z)"
    by (auto simp: bindF_eq_ok_iff)
  with bomb_decode [OF assms(1-3) d] show ?thesis
    using assms(3,4) unfolded
    by (auto simp: bindF_eq_ok_iff intOp_def remove_front_def emit_def Let_def split: if_splits)
qed

lemma bomb_updates:
  assumes "encoding r = 16" and "toInt32 len \<le> -20" and "vnc_updates zl w = Some y"
  shows "v_buf w = zrle_bomb pad r len rest \<longrightarrow> (\<exists>e. y = Inl e)"
proof (rule vnc_updates.raw_induct [OF _ assms(3)], intro impI)
  fix updates zl w y
  assume IH: "\<And>zl w y. updates zl w = Some y \<Longrightarrow> v_buf w = zrle_bomb pad r len rest \<longrightarrow> (\<exists>e. y = Inl e)"
    and step: "(case vnc_round zl w of Inl e \<Rightarrow> Some (Inl e)
      | Inr (again, v') \<Rightarrow> if again then updates zl v' else Some (ok v')) = Some y"
    and buf: "v_buf w = zrle_bomb pad r len rest"
  show "\<exists>e. y = Inl e"
  proof (cases "vnc_round zl w")
    case (Inr res)
    then obtain again w' where res: "vnc_round zl w = ok (again, w')" by (cases res) auto
    with bomb_round [OF buf assms(1,2)] have "again" "v_buf w' = zrle_bomb pad r len rest" using buf by auto
    with IH [of zl w' y] step res show ?thesis by simp
  qed (use step in auto)
qed

text \<open>The block length of a ZRLE rectangle is read into a signed \<open>int\<close>. A length of at least
  2^31 that stays at least 20 below 2^32 passes the size check whatever zlib does, nothing is
  taken off the buffer, and the call that receives it never returns: it goes round for ever
  or ends in undefined behaviour.\<close>

theorem vnc_negative_length_hangs:
  assumes "v_phase v = PRunning" and "v_buf v @ data = zrle_bomb pad r len rest"
    and "encoding r = 16" and "toInt32 len \<le> -20"
  shows "onReadyRead h zl data v \<noteq> Some (ok v')"
proof -
  have "onReadyRead h zl data v = vnc_updates zl (v\<lparr>v_buf := v_buf v @ data\<rparr>)"
    using assms(1)
    by (simp add: onReadyRead_def handshake_def then_go_def vnc_version_def vnc_security_def vnc_result_def vnc_init_def)
  then show ?thesis
    using bomb_updates [OF assms(3,4), of zl "v\<lparr>v_buf := v_buf v @ data\<rparr>" "ok v'" pad rest] assms(2) by auto
qed

section \<open>Witnesses\<close>

definition demo_vnc :: "Phase \<Rightarrow> State \<Rightarrow> unit vnc" where
  "demo_vnc ph st =
     \<lparr>v_state = st, v_sock = True, v_phase = ph, v_buf = [],
      v_init = \<lparr>width = 0, height = 0, bitsPerPixel = 0, depth = 0, sname = [], svalid = False\<rparr>,
      v_zlib = (), v_viewOnly = False, v_buttonMask = 0, v_log = []\<rparr>"

definition no_zlib :: "unit zlib" where
  "no_zlib = \<lparr>z_inflate = (\<lambda>z x. ([], z)), z_failed = (\<lambda>z. True)\<rparr>"

definition demo_vnc_host :: host where
  "demo_vnc_host = \<lparr>cleanPath = normalize, filePath = (\<lambda>d n. n), toUtf8 = to_latin1, fromUtf8 = from_latin1\<rparr>"

definition demo_version :: bytes where
  "demo_version = [82, 70, 66, 32, 48, 48, 51, 46, 48, 48, 56, 10]"

lemma demo_version_ok: "vvalid (parseVersion demo_version)" "formatVersion (parseVersion demo_version) = demo_version"
  and length_demo_version: "length demo_version = 12"
  by code_simp+

theorem vnc_handshake_any_chunking_witness:
  "v_log (case vnc_feed demo_vnc_host no_zlib [take 5 (greeting demo_version [2, 1] (replicate 20 0) [65]),
       drop 5 (greeting demo_version [2, 1] (replicate 20 0) [65])] (demo_vnc PVersion Connecting) of
     Some (Inr v) \<Rightarrow> v | _ \<Rightarrow> demo_vnc PVersion Failed) =
   [Wrote demo_version, Wrote [1], Wrote [1], StateChanged Connected, ServerReady 0 0 ''A'',
    Wrote [2, 0, 0, 5, 0, 0, 0, 16, 0, 0, 0, 5, 0, 0, 0, 2, 0, 0, 0, 1, 0, 0, 0, 0],
    Wrote [3, 0, 0, 0, 0, 0, 0, 0, 0, 0]]"
proof -
  let ?h = demo_vnc_host
  have init: "parseServerInit ?h (replicate 20 0 @ be32 1 @ [65]) =
      \<lparr>width = 0, height = 0, bitsPerPixel = 0, depth = 0, sname = ''A'', svalid = True\<rparr>"
    by code_simp
  have enc: "encodeSetEncodings [16, 5, 2, 1, 0] = [2, 0, 0, 5, 0, 0, 0, 16, 0, 0, 0, 5, 0, 0, 0, 2, 0, 0, 0, 1, 0, 0, 0, 0]"
    "int16 0 = [0, 0]" by code_simp+
  show ?thesis
    by (subst vnc_handshake_any_chunking [where ver = demo_version and types = "[2, 1]" and ?fixed = "replicate 20 0" and name = "[65]"
        and init = "\<lparr>width = 0, height = 0, bitsPerPixel = 0, depth = 0, sname = ''A'', svalid = True\<rparr>"])
      (simp_all add: init enc demo_version_ok length_demo_version demo_vnc_def)
qed

theorem vnc_other_message_stalls_witness:
  "vnc_feed demo_vnc_host no_zlib [[2], [0, 0]] (demo_vnc PRunning Connected) = Some (ok ((demo_vnc PRunning Connected)\<lparr>v_buf := [2, 0, 0]\<rparr>))"
  using vnc_other_message_stalls [of "demo_vnc PRunning Connected" "[2]" demo_vnc_host no_zlib "[[0, 0]]"]
  by (simp add: demo_vnc_def)

theorem vnc_negative_length_hangs_witness:
  "\<forall>v'. onReadyRead demo_vnc_host no_zlib (zrle_bomb 0 \<lparr>rx = 0, ry = 0, rwidth = 1, rheight = 1, encoding = 16\<rparr> 0x80000000 [])
     (demo_vnc PRunning Connected) \<noteq> Some (ok v')"
proof
  have neg: "toInt32 0x80000000 \<le> -20" by code_simp
  show "onReadyRead demo_vnc_host no_zlib (zrle_bomb 0 \<lparr>rx = 0, ry = 0, rwidth = 1, rheight = 1, encoding = 16\<rparr> 0x80000000 [])
     (demo_vnc PRunning Connected) \<noteq> Some (ok v')" for v'
    by (rule vnc_negative_length_hangs [where pad = 0 and rest = "[]" and len = "0x80000000"
          and r = "\<lparr>rx = 0, ry = 0, rwidth = 1, rheight = 1, encoding = 16\<rparr>"]) (simp_all add: demo_vnc_def neg)
qed

end
