(* ===== verification/Tunnels.thy ===== *)
theory Tunnels
  imports Qt_Map
begin

text \<open>
  Tunnels: the SOCKS server side of dynamic forwarding (\<open>src/src/tunnel/Socks.{h,cpp}\<close>), the
  tunnel list of a session (\<open>Tunnel.{h,cpp}\<close>) and the form that edits one tunnel
  (\<open>TunnelForm.{h,cpp}\<close>). The negotiation reads from a blocking socket: its state is what the
  client will send until it closes, and what was sent to it. \<open>inet_ntop\<close> is a parameter.
\<close>

section \<open>Reading from the socket\<close>

record sock =
  s_in :: bytes
  s_out :: bytes

type_synonym 'a reading = "'a option \<times> sock"

text \<open>\<open>readN\<close>: all of \<open>n\<close> bytes, or nothing when the stream ends before.\<close>

definition readN :: "nat \<Rightarrow> sock \<Rightarrow> bytes reading" where
  "readN n s =
     (if n \<le> length (s_in s) then (Some (take n (s_in s)), s\<lparr>s_in := drop n (s_in s)\<rparr>)
      else (None, s\<lparr>s_in := []\<rparr>))"

definition send_sock :: "bytes \<Rightarrow> sock \<Rightarrow> sock" where
  "send_sock b s = s\<lparr>s_out := s_out s @ b\<rparr>"

definition bindS :: "'a reading \<Rightarrow> ('a \<Rightarrow> sock \<Rightarrow> 'b reading) \<Rightarrow> 'b reading" where
  "bindS m f = (case m of (None, s) \<Rightarrow> (None, s) | (Some a, s) \<Rightarrow> f a s)"

lemma bindS_simps [simp]: "bindS (Some a, s) f = f a s" "bindS (None, s) f = (None, s)"
  by (simp_all add: bindS_def)

text \<open>\<open>do { read c } while (c != 0)\<close>, collecting the bytes before the zero.\<close>

fun read_until_zero :: "bytes \<Rightarrow> bytes option \<times> bytes" where
  "read_until_zero [] = (None, [])"
| "read_until_zero (c # cs) =
     (if c = 0 then (Some [], cs) else apfst (map_option ((#) c)) (read_until_zero cs))"

definition readz :: "sock \<Rightarrow> bytes reading" where
  "readz s = (case read_until_zero (s_in s) of (r, rest) \<Rightarrow> (r, s\<lparr>s_in := rest\<rparr>))"

lemma readN_append: "length b = n \<Longrightarrow> readN n \<lparr>s_in = b @ rest, s_out = w\<rparr> = (Some b, \<lparr>s_in = rest, s_out = w\<rparr>)"
  by (simp add: readN_def)

lemma readN_more: "readN (Suc n) \<lparr>s_in = c # cs, s_out = w\<rparr> =
    (case readN n \<lparr>s_in = cs, s_out = w\<rparr> of (r, s) \<Rightarrow> (map_option ((#) c) r, s))"
  by (simp add: readN_def)

lemma readN_0 [simp]: "readN 0 s = (Some [], s)"
  by (simp add: readN_def)

lemma read_until_zero_append: "0 \<notin> set b \<Longrightarrow> read_until_zero (b @ 0 # rest) = (Some b, rest)"
  by (induction b) auto

lemma readz_append: "0 \<notin> set b \<Longrightarrow> readz \<lparr>s_in = b @ 0 # rest, s_out = w\<rparr> = (Some b, \<lparr>s_in = rest, s_out = w\<rparr>)"
  by (simp add: readz_def read_until_zero_append)

section \<open>SOCKS\<close>

definition dotted :: "bytes \<Rightarrow> bytes" where
  "dotted ip = to_latin1 (join_with ''.'' (map (\<lambda>b. dec_of_nat (unat b)) ip))"

definition port_of :: "byte \<Rightarrow> byte \<Rightarrow> nat" where
  "port_of hi lo = unat hi * 256 + unat lo"

text \<open>The address of a SOCKS5 request, by its type.\<close>

definition socks5_host :: "(bytes \<Rightarrow> bytes) \<Rightarrow> byte \<Rightarrow> sock \<Rightarrow> bytes reading" where
  "socks5_host ntop atyp s =
     (if atyp = 1 then bindS (readN 4 s) (\<lambda>ip s. (Some (dotted ip), s))
      else if atyp = 3 then bindS (readN 1 s) (\<lambda>len s. readN (unat (hd len)) s)
      else if atyp = 4 then bindS (readN 16 s) (\<lambda>ip6 s. (Some (ntop ip6), s))
      else (None, s))"

definition socks5 :: "(bytes \<Rightarrow> bytes) \<Rightarrow> sock \<Rightarrow> (bytes \<times> nat) reading" where
  "socks5 ntop s =
     bindS (readN 1 s) (\<lambda>nm s. bindS (readN (unat (hd nm)) s) (\<lambda>methods s.
       let s = send_sock [5, 0] s in
       bindS (readN 4 s) (\<lambda>hdr s.
         if hdr ! 1 \<noteq> 1 then (None, s)
         else bindS (socks5_host ntop (hdr ! 3) s) (\<lambda>h s.
              bindS (readN 2 s) (\<lambda>pb s.
                (Some (h, port_of (pb ! 0) (pb ! 1)), send_sock [5, 0, 0, 1, 0, 0, 0, 0, 0, 0] s))))))"

definition socks4 :: "sock \<Rightarrow> (bytes \<times> nat) reading" where
  "socks4 s =
     bindS (readN 7 s) (\<lambda>req s.
       if req ! 0 \<noteq> 1 then (None, s)
       else bindS (readz s) (\<lambda>_ s.
         let socks4a = (req ! 3 = 0 \<and> req ! 4 = 0 \<and> req ! 5 = 0 \<and> req ! 6 \<noteq> 0)
         in bindS (if socks4a then readz s else (Some (dotted (drop 3 req)), s)) (\<lambda>h s.
              (Some (h, port_of (req ! 1) (req ! 2)), send_sock [0, 0x5A, 0, 0, 0, 0, 0, 0] s))))"

definition socksNegotiate :: "(bytes \<Rightarrow> bytes) \<Rightarrow> sock \<Rightarrow> (bytes \<times> nat) reading" where
  "socksNegotiate ntop s =
     bindS (readN 1 s) (\<lambda>ver s.
       if hd ver = 5 then socks5 ntop s else if hd ver = 4 then socks4 s else (None, s))"

section \<open>What a client sends\<close>

datatype socks_request =
    Socks5_ip bytes | Socks5_name bytes | Socks5_ip6 bytes
  | Socks4_ip bytes bytes | Socks4a byte bytes bytes

fun req_ok :: "socks_request \<Rightarrow> bool" where
  "req_ok (Socks5_ip ip) = (length ip = 4)"
| "req_ok (Socks5_name n) = (length n < 256)"
| "req_ok (Socks5_ip6 ip) = (length ip = 16)"
| "req_ok (Socks4_ip ip user) = (length ip = 4 \<and> \<not> (take 3 ip = [0, 0, 0] \<and> ip ! 3 \<noteq> 0) \<and> 0 \<notin> set user)"
| "req_ok (Socks4a x n user) = (x \<noteq> 0 \<and> 0 \<notin> set n \<and> 0 \<notin> set user)"

fun req_host :: "(bytes \<Rightarrow> bytes) \<Rightarrow> socks_request \<Rightarrow> bytes" where
  "req_host ntop (Socks5_ip ip) = dotted ip"
| "req_host ntop (Socks5_name n) = n"
| "req_host ntop (Socks5_ip6 ip) = ntop ip"
| "req_host ntop (Socks4_ip ip user) = dotted ip"
| "req_host ntop (Socks4a x n user) = n"

definition socks5_greeting :: "bytes \<Rightarrow> bytes" where
  "socks5_greeting methods = 5 # of_nat (length methods) # methods"

text \<open>Greeting with the methods the client offers, then the request. A SOCKS4a request has the
  address \<open>0.0.0.x\<close> for any \<open>x\<close> but 0, and the name behind it.\<close>

fun encode_req :: "bytes \<Rightarrow> socks_request \<Rightarrow> u16 \<Rightarrow> bytes" where
  "encode_req ms (Socks5_ip ip) p = socks5_greeting ms @ [5, 1, 0, 1] @ ip @ be16 p"
| "encode_req ms (Socks5_name n) p = socks5_greeting ms @ [5, 1, 0, 3, of_nat (length n)] @ n @ be16 p"
| "encode_req ms (Socks5_ip6 ip) p = socks5_greeting ms @ [5, 1, 0, 4] @ ip @ be16 p"
| "encode_req ms (Socks4_ip ip user) p = [4, 1] @ be16 p @ ip @ user @ [0]"
| "encode_req ms (Socks4a x n user) p = [4, 1] @ be16 p @ [0, 0, 0, x] @ user @ [0] @ n @ [0]"

fun req_replies :: "socks_request \<Rightarrow> bytes" where
  "req_replies (Socks4_ip ip user) = [0, 0x5A, 0, 0, 0, 0, 0, 0]"
| "req_replies (Socks4a x n user) = [0, 0x5A, 0, 0, 0, 0, 0, 0]"
| "req_replies _ = [5, 0] @ [5, 0, 0, 1, 0, 0, 0, 0, 0, 0]"

lemma port_of_be16: "be16 p = [hi, lo] \<Longrightarrow> port_of hi lo = unat p"
proof -
  assume "be16 p = [hi, lo]"
  then have "join16 hi lo = p" by (auto simp: be16_def codec)
  then show ?thesis using unat_join16 [of hi lo] by (simp add: port_of_def)
qed

lemma be16_cases: obtains hi lo where "be16 p = [hi, lo]" "port_of hi lo = unat p"
  using port_of_be16 [of p] by (simp add: be16_def)

lemma readN_be16: "readN 2 \<lparr>s_in = be16 p @ rest, s_out = w\<rparr> = (Some (be16 p), \<lparr>s_in = rest, s_out = w\<rparr>)"
  by (rule readN_append) simp

lemma length_4E: "length xs = 4 \<Longrightarrow> (\<And>a b c d. xs = [a, b, c, d] \<Longrightarrow> P) \<Longrightarrow> P"
  by (auto simp: length_Suc_conv eval_nat_numeral)

lemma socks_greeting:
  assumes "length ms < 256"
  shows "socksNegotiate ntop \<lparr>s_in = socks5_greeting ms @ [5, 1, 0, atyp] @ rest, s_out = w\<rparr> =
    bindS (socks5_host ntop atyp \<lparr>s_in = rest, s_out = w @ [5, 0]\<rparr>) (\<lambda>h s. bindS (readN 2 s) (\<lambda>pb s.
      (Some (h, port_of (pb ! 0) (pb ! 1)), send_sock [5, 0, 0, 1, 0, 0, 0, 0, 0, 0] s)))"
proof -
  have n: "unat (of_nat (length ms) :: byte) = length ms" using assms by (simp add: unat_of_nat_small)
  have one: "readN (Suc 0) \<lparr>s_in = c # cs, s_out = w\<rparr> = (Some [c], \<lparr>s_in = cs, s_out = w\<rparr>)" for c cs w
    by (simp add: readN_def)
  show ?thesis
    using readN_append [of "[5, 1, 0, atyp]" 4 rest "w @ [5, 0]"]
    by (simp add: socksNegotiate_def socks5_def socks5_greeting_def one n readN_append send_sock_def)
qed

lemma socks_accepts:
  assumes "req_ok q" and "length ms < 256"
  shows "socksNegotiate ntop \<lparr>s_in = encode_req ms q p @ rest, s_out = w\<rparr> =
    (Some (req_host ntop q, unat p), \<lparr>s_in = rest, s_out = w @ req_replies q\<rparr>)"
proof -
  obtain hi lo where p: "be16 p = [hi, lo]" "port_of hi lo = unat p" by (rule be16_cases)
  have one: "readN (Suc 0) \<lparr>s_in = c # cs, s_out = w\<rparr> = (Some [c], \<lparr>s_in = cs, s_out = w\<rparr>)" for c cs w
    by (simp add: readN_def)
  have two: "readN 2 \<lparr>s_in = hi # lo # rest, s_out = w\<rparr> = (Some [hi, lo], \<lparr>s_in = rest, s_out = w\<rparr>)" for w
    by (simp add: readN_def)
  show ?thesis
  proof (cases q)
    case (Socks5_ip ip)
    then show ?thesis
      using assms socks_greeting [OF assms(2), of ntop 1 "ip @ be16 p @ rest" w]
      by (simp add: socks5_host_def readN_append p two send_sock_def)
  next
    case (Socks5_name n)
    then have n: "unat (of_nat (length n) :: byte) = length n" using assms(1) by (simp add: unat_of_nat_small)
    show ?thesis
      using Socks5_name n socks_greeting [OF assms(2), of ntop 3 "of_nat (length n) # n @ be16 p @ rest" w]
      by (simp add: socks5_host_def one readN_append p two send_sock_def)
  next
    case (Socks5_ip6 ip)
    then show ?thesis
      using assms socks_greeting [OF assms(2), of ntop 4 "ip @ be16 p @ rest" w]
      by (simp add: socks5_host_def readN_append p two send_sock_def)
  next
    case (Socks4_ip ip user)
    then obtain a b c d where ip: "ip = [a, b, c, d]" using assms(1) by (auto elim: length_4E)
    have "readN 7 \<lparr>s_in = [1, hi, lo, a, b, c, d] @ user @ 0 # rest, s_out = w\<rparr> =
        (Some [1, hi, lo, a, b, c, d], \<lparr>s_in = user @ 0 # rest, s_out = w\<rparr>)"
      by (rule readN_append) simp
    then show ?thesis
      using Socks4_ip assms(1) ip p
      by (auto simp: socksNegotiate_def socks4_def one readz_append send_sock_def)
  next
    case (Socks4a x n user)
    have "readN 7 \<lparr>s_in = [1, hi, lo, 0, 0, 0, x] @ user @ 0 # n @ 0 # rest, s_out = w\<rparr> =
        (Some [1, hi, lo, 0, 0, 0, x], \<lparr>s_in = user @ 0 # n @ 0 # rest, s_out = w\<rparr>)"
      by (rule readN_append) simp
    then show ?thesis
      using Socks4a assms(1) p
      by (simp add: socksNegotiate_def socks4_def one readz_append send_sock_def)
  qed
qed



lemma socks4a_any_marker:
  "socksNegotiate id \<lparr>s_in = encode_req [] (Socks4a 7 [97, 46, 98] []) 443, s_out = []\<rparr> =
   (Some ([97, 46, 98], 443), \<lparr>s_in = [], s_out = [0, 0x5A, 0, 0, 0, 0, 0, 0]\<rparr>)"
  using socks_accepts [of "Socks4a 7 [97, 46, 98] []" "[]" id 443 "[]" "[]"] by simp

section \<open>The tunnels of a session\<close>

datatype TunnelKind = Local | Remote | Dynamic

definition tunnelKindToString :: "TunnelKind \<Rightarrow> string" where
  "tunnelKindToString k = (case k of Local \<Rightarrow> ''local'' | Remote \<Rightarrow> ''remote'' | Dynamic \<Rightarrow> ''dynamic'')"

record Tunnel =
  t_kind :: TunnelKind
  t_bindAddr :: string
  t_bindPort :: u16
  t_targetHost :: string
  t_targetPort :: u16
  t_enabled :: bool

definition new_tunnel :: Tunnel where
  "new_tunnel = \<lparr>t_kind = Local, t_bindAddr = ''127.0.0.1'', t_bindPort = 0, t_targetHost = [], t_targetPort = 0, t_enabled = True\<rparr>"

definition tunnel_isValid :: "Tunnel \<Rightarrow> bool" where
  "tunnel_isValid t =
     (if t_bindPort t = 0 then False
      else if t_kind t = Dynamic then True
      else t_targetHost t \<noteq> [] \<and> t_targetPort t \<noteq> 0)"

definition bindPortInUse :: "Tunnel list \<Rightarrow> u16 \<Rightarrow> bool" where
  "bindPortInUse ts p = list_ex (\<lambda>t. t_bindPort t = p) ts"

definition add_tunnel :: "Tunnel \<Rightarrow> Tunnel list \<Rightarrow> bool \<times> Tunnel list" where
  "add_tunnel t ts =
     (if \<not> tunnel_isValid t then (False, ts)
      else if bindPortInUse ts (t_bindPort t) then (False, ts)
      else (True, ts @ [t]))"

definition remove_tunnel :: "int \<Rightarrow> Tunnel list \<Rightarrow> Tunnel list" where
  "remove_tunnel i ts =
     (if 0 \<le> i \<and> i < int (length ts) then take (nat i) ts @ drop (Suc (nat i)) ts else ts)"

datatype tunnel_edit = AddTunnel Tunnel | RemoveTunnel int

fun edit_tunnels :: "tunnel_edit \<Rightarrow> Tunnel list \<Rightarrow> Tunnel list" where
  "edit_tunnels (AddTunnel t) ts = snd (add_tunnel t ts)"
| "edit_tunnels (RemoveTunnel i) ts = remove_tunnel i ts"

definition tunnels_ok :: "Tunnel list \<Rightarrow> bool" where
  "tunnels_ok ts \<longleftrightarrow> list_all tunnel_isValid ts \<and> distinct (map t_bindPort ts)"

lemma tunnels_ok_edit: "tunnels_ok ts \<Longrightarrow> tunnels_ok (edit_tunnels e ts)"
proof (cases e)
  case (RemoveTunnel i)
  assume ok: "tunnels_ok ts"
  show ?thesis
  proof (cases "0 \<le> i \<and> i < int (length ts)")
    case True
    then have "ts = take (nat i) ts @ ts ! nat i # drop (Suc (nat i)) ts"
      by (intro id_take_nth_drop) linarith
    then have "map t_bindPort ts = map t_bindPort (take (nat i) ts) @ t_bindPort (ts ! nat i) # map t_bindPort (drop (Suc (nat i)) ts)"
      by (metis list.simps(9) map_append)
    with ok True RemoveTunnel show ?thesis
      by (auto simp: tunnels_ok_def remove_tunnel_def list_all_iff dest: in_set_takeD in_set_dropD)
  qed (use ok RemoveTunnel in \<open>auto simp: remove_tunnel_def\<close>)
qed (auto simp: tunnels_ok_def add_tunnel_def bindPortInUse_def list_ex_iff)

section \<open>The form\<close>

datatype QVariant = Invalid | Text string | UInt nat

fun toString :: "QVariant \<Rightarrow> string" where
  "toString Invalid = []" | "toString (Text s) = s" | "toString (UInt n) = dec_of_nat n"

fun toUInt :: "QVariant \<Rightarrow> nat" where
  "toUInt Invalid = 0"
| "toUInt (Text s) = (case to_uint s of None \<Rightarrow> 0 | Some n \<Rightarrow> n)"
| "toUInt (UInt n) = n"

definition kindFromString :: "string \<Rightarrow> TunnelKind" where
  "kindFromString s =
     (let k = to_lower s in if k = ''remote'' then Remote else if k = ''dynamic'' then Dynamic else Local)"

type_synonym vfields = "(string, QVariant) qmap"

abbreviation vfield :: "vfields \<Rightarrow> string \<Rightarrow> QVariant" where
  "vfield f k \<equiv> qvalue f k Invalid"

definition toTunnel :: "vfields \<Rightarrow> Tunnel" where
  "toTunnel f =
     new_tunnel
       \<lparr>t_kind := kindFromString (toString (vfield f ''kind'')),
        t_bindAddr := (if qcontains f ''bindAddr'' then toString (vfield f ''bindAddr'') else t_bindAddr new_tunnel),
        t_bindPort := of_nat (toUInt (vfield f ''bindPort'')),
        t_targetHost := toString (vfield f ''targetHost''),
        t_targetPort := of_nat (toUInt (vfield f ''targetPort''))\<rparr>"

definition fromTunnel :: "Tunnel \<Rightarrow> vfields" where
  "fromTunnel t =
     qinsert ''targetPort'' (UInt (unat (t_targetPort t)))
    (qinsert ''targetHost'' (Text (t_targetHost t))
    (qinsert ''bindPort'' (UInt (unat (t_bindPort t)))
    (qinsert ''bindAddr'' (Text (t_bindAddr t))
    (qinsert ''kind'' (Text (tunnelKindToString (t_kind t))) []))))"

definition validate_tunnel :: "vfields \<Rightarrow> string" where
  "validate_tunnel f =
     (let t = toTunnel f
      in if t_bindPort t = 0 then ''Bind port is required''
         else if t_kind t \<noteq> Dynamic then
           if t_targetHost t = [] then ''Target host is required''
           else if t_targetPort t = 0 then ''Target port is required'' else []
         else [])"

lemma validate_tunnel_iff: "validate_tunnel f = [] \<longleftrightarrow> tunnel_isValid (toTunnel f)"
  by (auto simp: validate_tunnel_def tunnel_isValid_def Let_def)

lemma toTunnel_fromTunnel: "t_enabled t \<Longrightarrow> toTunnel (fromTunnel t) = t"
proof -
  have "kindFromString (tunnelKindToString Local) = Local" "kindFromString (tunnelKindToString Remote) = Remote"
    "kindFromString (tunnelKindToString Dynamic) = Dynamic" by code_simp+
  then have "kindFromString (tunnelKindToString k) = k" for k by (cases k) simp_all
  then show "t_enabled t \<Longrightarrow> ?thesis"
    by (simp add: toTunnel_def fromTunnel_def new_tunnel_def qvalue_def qcontains_def)
qed

text \<open>The tunnels of a session, through any additions and removals, are valid and listen on
  distinct ports; what the form accepts is what the manager accepts as valid; and an enabled
  tunnel edited in the form without a change is the same tunnel.\<close>

theorem tunnels_valid_distinct:
  "tunnels_ok (fold edit_tunnels es []) \<and>
   (validate_tunnel f = [] \<longleftrightarrow> tunnel_isValid (toTunnel f)) \<and>
   (t_enabled t \<longrightarrow> toTunnel (fromTunnel t) = t)"
proof -
  have "tunnels_ok ts \<Longrightarrow> tunnels_ok (fold edit_tunnels es ts)" for ts
    by (induction es arbitrary: ts) (simp_all add: tunnels_ok_edit)
  moreover have "tunnels_ok []" by (simp add: tunnels_ok_def)
  ultimately show ?thesis by (simp add: validate_tunnel_iff toTunnel_fromTunnel)
qed

theorem tunnels_valid_distinct_witness:
  "tunnels_ok (fold edit_tunnels [AddTunnel (new_tunnel\<lparr>t_kind := Dynamic, t_bindPort := 1080\<rparr>), RemoveTunnel 3] []) \<and>
   toTunnel (fromTunnel (new_tunnel\<lparr>t_bindPort := 8080\<rparr>)) = new_tunnel\<lparr>t_bindPort := 8080\<rparr>"
  using tunnels_valid_distinct [of "[AddTunnel (new_tunnel\<lparr>t_kind := Dynamic, t_bindPort := 1080\<rparr>), RemoveTunnel 3]" "[]"
      "new_tunnel\<lparr>t_bindPort := 8080\<rparr>"]
  by (simp add: new_tunnel_def)

section \<open>The forwarder\<close>

text \<open>
  \<open>src/src/tunnel/LocalForwarder.cpp\<close>: each accepted client gets an upstream socket and a run-once
  guard (\<open>done\<close>); stopping drops the listener and resets the count, the connections go on.
  Bytes are pumped from one socket to the other as they come.
\<close>

record fw_conn =
  c_done :: bool
  c_upstream :: bytes
  c_client :: bytes

record forwarder =
  f_server :: bool
  f_targetHost :: string
  f_targetPort :: u16
  f_active :: nat
  f_conns :: "fw_conn list"
  f_counts :: "nat list"

definition fw_stop :: "forwarder \<Rightarrow> forwarder" where
  "fw_stop s = s\<lparr>f_server := False, f_active := 0\<rparr>"

definition fw_start :: "string \<Rightarrow> u16 \<Rightarrow> forwarder \<Rightarrow> forwarder" where
  "fw_start host p s = (fw_stop s)\<lparr>f_targetHost := host, f_targetPort := p, f_server := True\<rparr>"

text \<open>A client with the bytes it has sent already.\<close>

definition fw_accept :: "bytes \<Rightarrow> forwarder \<Rightarrow> forwarder" where
  "fw_accept early s =
     (if f_server s then
        s\<lparr>f_conns := f_conns s @ [\<lparr>c_done = False, c_upstream = early, c_client = []\<rparr>],
          f_active := f_active s + 1, f_counts := f_counts s @ [f_active s + 1]\<rparr>
      else s)"

definition fw_pump :: "nat \<Rightarrow> bool \<Rightarrow> bytes \<Rightarrow> forwarder \<Rightarrow> forwarder" where
  "fw_pump i up data s =
     (if i < length (f_conns s) \<and> \<not> c_done (f_conns s ! i) then
        let c = f_conns s ! i
        in s\<lparr>f_conns := (f_conns s)[i := if up then c\<lparr>c_upstream := c_upstream c @ data\<rparr>
                                         else c\<lparr>c_client := c_client c @ data\<rparr>]\<rparr>
      else s)"

definition fw_teardown :: "nat \<Rightarrow> forwarder \<Rightarrow> forwarder" where
  "fw_teardown i s =
     (if i < length (f_conns s) \<and> \<not> c_done (f_conns s ! i) then
        let s = s\<lparr>f_conns := (f_conns s)[i := (f_conns s ! i)\<lparr>c_done := True\<rparr>]\<rparr>
        in if f_active s > 0 then s\<lparr>f_active := f_active s - 1, f_counts := f_counts s @ [f_active s - 1]\<rparr> else s
      else s)"

definition fw_open :: "forwarder \<Rightarrow> nat" where
  "fw_open s = length (filter (\<lambda>c. \<not> c_done c) (f_conns s))"

definition new_forwarder :: forwarder where
  "new_forwarder = \<lparr>f_server = False, f_targetHost = [], f_targetPort = 0, f_active = 0, f_conns = [], f_counts = []\<rparr>"

text \<open>The runs in which the forwarder is stopped and started only when no connection is open.\<close>

inductive fw_run :: "forwarder \<Rightarrow> bool" where
  fw_new: "fw_run new_forwarder"
| fw_started: "fw_run s \<Longrightarrow> fw_open s = 0 \<Longrightarrow> fw_run (fw_start h p s)"
| fw_stopped: "fw_run s \<Longrightarrow> fw_open s = 0 \<Longrightarrow> fw_run (fw_stop s)"
| fw_accepted: "fw_run s \<Longrightarrow> fw_run (fw_accept b s)"
| fw_pumped: "fw_run s \<Longrightarrow> fw_run (fw_pump i up b s)"
| fw_closed: "fw_run s \<Longrightarrow> fw_run (fw_teardown i s)"

lemma open_update:
  "i < length xs \<Longrightarrow> \<not> P (xs ! i) \<Longrightarrow> length (filter (\<lambda>c. \<not> P c) (xs[i := y])) + of_bool (P y) = length (filter (\<lambda>c. \<not> P c) xs)"
proof (induction xs arbitrary: i)
  case (Cons x xs)
  then show ?case by (cases i) (auto split: if_splits)
qed simp

lemma open_teardown: "i < length cs \<Longrightarrow> \<not> c_done (cs ! i) \<Longrightarrow>
    Suc (length (filter (\<lambda>c. \<not> c_done c) (cs[i := (cs ! i)\<lparr>c_done := True\<rparr>]))) = length (filter (\<lambda>c. \<not> c_done c) cs)"
  using open_update [of i cs c_done "(cs ! i)\<lparr>c_done := True\<rparr>"] by simp

lemma open_kept: "i < length cs \<Longrightarrow> \<not> c_done (cs ! i) \<Longrightarrow> \<not> c_done y \<Longrightarrow>
    length (filter (\<lambda>c. \<not> c_done c) (cs[i := y])) = length (filter (\<lambda>c. \<not> c_done c) cs)"
  using open_update [of i cs c_done y] by simp

lemma fw_count: "fw_run s \<Longrightarrow> f_active s = fw_open s"
proof (induction rule: fw_run.induct)
  case (fw_pumped s i up b)
  then show ?case
    by (simp add: fw_pump_def fw_open_def Let_def open_kept)
next
  case (fw_closed s i)
  then show ?case
    using open_teardown [of i "f_conns s"] by (auto simp: fw_teardown_def fw_open_def Let_def)
qed (simp_all add: new_forwarder_def fw_open_def fw_start_def fw_stop_def fw_accept_def)

text \<open>While the forwarder is not restarted over open connections, the count it reports is the
  number of connections open. Restarted over one, it forgets it, and its end is then
  counted against another: with one new client still connected it reports none.\<close>

theorem forwarder_count:
  "(fw_run s \<longrightarrow> f_active s = fw_open s) \<and>
   (let s = fw_teardown 0 (fw_accept [] (fw_start h p (fw_accept [] (fw_start h p new_forwarder))))
    in f_active s = 0 \<and> fw_open s = 1)"
  by (simp add: fw_count) (simp add: new_forwarder_def fw_open_def fw_start_def fw_stop_def fw_accept_def fw_teardown_def)

theorem forwarder_count_witness:
  "f_active (fw_accept [1] (fw_start ''h'' 80 new_forwarder)) = fw_open (fw_accept [1] (fw_start ''h'' 80 new_forwarder))"
proof -
  have "fw_run (fw_accept [1] (fw_start ''h'' 80 new_forwarder))"
    by (intro fw_run.intros) (simp add: new_forwarder_def fw_open_def)
  then show ?thesis using forwarder_count by blast
qed

end
