(* ===== verification/Ini_Store.thy ===== *)
theory Ini_Store
  imports Session_Form Host
begin

text \<open>
  The text format of the session tree, \<open>src/src/core/IniStore.{h,cpp}\<close>. Writing walks the tree;
  reading keeps a cursor, the folder named by the last header. The cursor is a path of names from
  the root: where siblings share a name the first of them is meant, as in the code's search.
\<close>

section \<open>Writing\<close>

definition newline :: string where
  "newline = [char_of (10 :: nat)]"

definition session_line :: "Session \<Rightarrow> string" where
  "session_line s =
     s_name s @ ''='' @ join_with '';''
       (sessionTypeToString (s_type s) # map (\<lambda>k. k @ ''='' @ param s k) (sort (map fst (s_params s))))"

fun collect :: "host \<Rightarrow> SessionFolder \<Rightarrow> string \<Rightarrow> bytes" where
  "collect h (Folder n fs ss) path =
     (let header = (if path = [] then n else path)
      in to_latin1 ''[Folder='' @ toUtf8 h header @ to_latin1 ('']'' @ newline) @
         concat (map (\<lambda>s. toUtf8 h (session_line s) @ to_latin1 newline) ss) @
         concat (map (\<lambda>sub. collect h sub (header @ ''/'' @ f_name sub)) fs))"

definition ini_serialize :: "host \<Rightarrow> SessionFolder \<Rightarrow> bytes" where
  "ini_serialize h root = collect h root []"

section \<open>Reading\<close>

text \<open>The first folder of that name, or a new one at the end.\<close>

fun at_child :: "string \<Rightarrow> (SessionFolder \<Rightarrow> SessionFolder) \<Rightarrow> SessionFolder list \<Rightarrow> SessionFolder list" where
  "at_child p g [] = [g (Folder p [] [])]"
| "at_child p g (f # fs) = (if f_name f = p then g f # fs else f # at_child p g fs)"

definition in_folders :: "(SessionFolder list \<Rightarrow> SessionFolder list) \<Rightarrow> SessionFolder \<Rightarrow> SessionFolder" where
  "in_folders u f = Folder (f_name f) (u (f_folders f)) (f_sessions f)"

primrec at_path :: "(SessionFolder \<Rightarrow> SessionFolder) \<Rightarrow> string list \<Rightarrow> SessionFolder \<Rightarrow> SessionFolder" where
  "at_path g [] f = g f"
| "at_path g (p # ps) f = in_folders (at_child p (at_path g ps)) f"

text \<open>\<open>ensurePath\<close>: the path below the root, which now exists.\<close>

definition ensurePath :: "string \<Rightarrow> SessionFolder \<Rightarrow> SessionFolder \<times> string list" where
  "ensurePath fullPath root =
     (let parts = split_skip CHR ''/'' fullPath
      in if parts = [] then (root, [])
         else let parts = (if hd parts = f_name root then tl parts else parts)
              in (at_path (\<lambda>f. f) parts root, parts))"

definition set_field :: "string \<Rightarrow> Session \<Rightarrow> Session" where
  "set_field fld s =
     (case index_of CHR ''='' fld of
        None \<Rightarrow> s
      | Some e \<Rightarrow> if e > 0 then setParam (take e fld) (drop (e + 1) fld) s else s)"

definition parse_session :: "string \<Rightarrow> Session option" where
  "parse_session line =
     (case index_of CHR ''='' line of
        None \<Rightarrow> None
      | Some eq \<Rightarrow>
          if eq = 0 then None
          else let fields = split_on CHR '';'' (drop (eq + 1) line)
               in Some (fold set_field (tl fields) (new_session (take eq line) (sessionTypeFromString (hd fields)))))"

definition ini_line :: "string \<Rightarrow> SessionFolder \<times> string list \<Rightarrow> SessionFolder \<times> string list" where
  "ini_line raw st =
     (let line = trimmed raw
      in if line = [] \<or> starts_with ''#'' line then st
         else if starts_with ''[Folder='' line \<and> ends_with '']'' line
         then ensurePath (take (length line - 9) (drop 8 line)) (fst st)
         else case parse_session line of
                None \<Rightarrow> st
              | Some s \<Rightarrow> (at_path (addSession s) (snd st) (fst st), snd st))"

definition ini_deserialize :: "host \<Rightarrow> bytes \<Rightarrow> SessionFolder" where
  "ini_deserialize h data =
     fst (fold ini_line (split_on (char_of (10 :: nat)) (fromUtf8 h data)) (Folder ''Sessions'' [] [], []))"

text \<open>\<open>save\<close> and \<open>load\<close>. A file is its content, or nothing where it cannot be opened; writing
  truncates first and may fail after that.\<close>

definition ini_save :: "host \<Rightarrow> bool \<Rightarrow> bool \<Rightarrow> SessionFolder \<Rightarrow> bytes option \<Rightarrow> bool \<times> bytes option" where
  "ini_save h opens writes root file =
     (if \<not> opens then (False, file)
      else if writes then (True, Some (ini_serialize h root)) else (False, Some []))"

definition ini_load :: "host \<Rightarrow> bytes option \<Rightarrow> SessionFolder \<Rightarrow> bool \<times> SessionFolder" where
  "ini_load h file out = (case file of None \<Rightarrow> (False, out) | Some b \<Rightarrow> (True, ini_deserialize h b))"

section \<open>Working at a path\<close>

lemma at_path_append: "at_path g (ps @ qs) = at_path (at_path g qs) ps"
proof (induction ps)
  case (Cons p ps)
  then show ?case by (intro ext) (simp only: append_Cons at_path.simps)
qed (simp add: fun_eq_iff)

definition keeps_name :: "(SessionFolder \<Rightarrow> SessionFolder) \<Rightarrow> bool" where
  "keeps_name g \<longleftrightarrow> (\<forall>f. f_name (g f) = f_name f)"

lemma keeps_name_simps [simp]:
  "keeps_name (\<lambda>f. f)" "keeps_name (addSession s)" "keeps_name (in_folders u)"
  "keeps_name g \<Longrightarrow> keeps_name g' \<Longrightarrow> keeps_name (\<lambda>x. g (g' x))"
  by (simp_all add: keeps_name_def addSession_def in_folders_def)

lemma keeps_name_at_path [simp]: "keeps_name g \<Longrightarrow> keeps_name (at_path g ps)"
  by (cases ps) (simp_all add: keeps_name_def in_folders_def)

lemma at_child_comp: "keeps_name g' \<Longrightarrow> at_child p g (at_child p g' fs) = at_child p (\<lambda>x. g (g' x)) fs"
  by (induction fs) (simp_all add: keeps_name_def)

lemma at_path_comp: "keeps_name g' \<Longrightarrow> at_path g ps (at_path g' ps f) = at_path (\<lambda>x. g (g' x)) ps f"
  by (induction ps arbitrary: f) (simp_all add: in_folders_def at_child_comp)

text \<open>What the lines of a folder do to the folder they are read into.\<close>

fun merge :: "SessionFolder \<Rightarrow> SessionFolder \<Rightarrow> SessionFolder" where
  "merge (Folder n fs ss) x =
     Folder (f_name x) (fold (\<lambda>sub. at_child (f_name sub) (merge sub)) fs (f_folders x)) (f_sessions x @ ss)"

lemma keeps_name_merge [simp]: "keeps_name (merge f)"
  by (cases f) (simp add: keeps_name_def)

fun distinct_names :: "SessionFolder \<Rightarrow> bool" where
  "distinct_names (Folder n fs ss) \<longleftrightarrow> distinct (map f_name fs) \<and> list_all distinct_names fs"

lemma at_child_new: "p \<notin> f_name ` set fs \<Longrightarrow> at_child p g fs = fs @ [g (Folder p [] [])]"
  by (induction fs) auto

lemma merge_new: "distinct_names f \<Longrightarrow> merge f (Folder (f_name f) [] []) = f"
proof (induction f rule: distinct_names.induct)
  case (1 n fs ss)
  have "fold (\<lambda>sub. at_child (f_name sub) (merge sub)) fs acc = acc @ fs"
    if "distinct (map f_name fs)" "\<forall>sub \<in> set fs. merge sub (Folder (f_name sub) [] []) = sub"
      "f_name ` set fs \<inter> f_name ` set acc = {}" for fs acc
    using that by (induction fs arbitrary: acc) (auto simp: at_child_new image_iff)
  with 1 show ?case by (simp add: list_all_iff)
qed

section \<open>Reading what was written\<close>

text \<open>The lines of a folder at a path from the root.\<close>

definition header_of :: "string list \<Rightarrow> string" where
  "header_of ps = join_with ''/'' (''Sessions'' # ps)"

fun folder_lines :: "SessionFolder \<Rightarrow> string list \<Rightarrow> string list" where
  "folder_lines (Folder n fs ss) ps =
     (''[Folder='' @ header_of ps @ '']'') # map session_line ss @
     concat (map (\<lambda>sub. folder_lines sub (ps @ [f_name sub])) fs)"

text \<open>UTF-8 in Qt: texts are encoded piece by piece, come back, and ASCII is itself.\<close>

definition ascii :: "string \<Rightarrow> bool" where
  "ascii s \<longleftrightarrow> list_all (\<lambda>c. of_char c < (128 :: nat)) s"

definition utf8_laws :: "host \<Rightarrow> bool" where
  "utf8_laws h \<longleftrightarrow> (\<forall>x y. toUtf8 h (x @ y) = toUtf8 h x @ toUtf8 h y) \<and> (\<forall>x. fromUtf8 h (toUtf8 h x) = x) \<and>
     (\<forall>x. ascii x \<longrightarrow> toUtf8 h x = to_latin1 x)"

lemma ascii_parts: "ascii newline" "ascii ''[Folder=''" "ascii ('']'' @ newline)"
  by code_simp+

lemma ascii_utf8: "utf8_laws h \<Longrightarrow> ascii x \<Longrightarrow> toUtf8 h x = to_latin1 x"
  by (simp add: utf8_laws_def)

lemma toUtf8_concat: "utf8_laws h \<Longrightarrow> toUtf8 h (concat xs) = concat (map (toUtf8 h) xs)"
proof (induction xs)
  case Nil
  then have "fromUtf8 h (toUtf8 h []) = []" "toUtf8 h ([] @ []) = toUtf8 h [] @ toUtf8 h []"
    by (simp_all only: utf8_laws_def)
  then show ?case by simp
qed (simp add: utf8_laws_def)

abbreviation ended :: "string \<Rightarrow> string" where
  "ended l \<equiv> l @ newline"

lemma header_of_snoc: "header_of (ps @ [n]) = header_of ps @ ''/'' @ n"
proof -
  have "xs \<noteq> [] \<Longrightarrow> join_with ''/'' (xs @ [n]) = join_with ''/'' xs @ ''/'' @ n" for xs
    by (induction xs rule: induct_list012) simp_all
  then show ?thesis unfolding header_of_def by (metis append_Cons list.distinct(1))
qed

lemma concat_concat: "concat (concat xss) = concat (map concat xss)"
  by (induction xss) simp_all

lemma collect_lines:
  assumes "utf8_laws h"
  shows "collect h f (header_of ps) = toUtf8 h (concat (map ended (folder_lines f ps)))"
proof (induction f ps rule: folder_lines.induct)
  case (1 n fs ss ps)
  define F where "F = ''[Folder=''"
  define E where "E = '']'' @ newline"
  have ne: "header_of ps \<noteq> []" by (cases ps) (simp_all add: header_of_def)
  have cat: "toUtf8 h (x @ y) = toUtf8 h x @ toUtf8 h y" for x y using assms by (simp add: utf8_laws_def)
  have "concat (map (\<lambda>sub. collect h sub (header_of ps @ ''/'' @ f_name sub)) fs) =
      concat (map (\<lambda>sub. toUtf8 h (concat (map ended (folder_lines sub (ps @ [f_name sub]))))) fs)"
    using 1 by (simp add: header_of_snoc cong: map_cong)
  moreover have "concat (map (\<lambda>s. toUtf8 h (session_line s) @ to_latin1 newline) ss) =
      toUtf8 h (concat (map (ended \<circ> session_line) ss))"
    using assms ascii_parts(1) by (simp add: toUtf8_concat cat utf8_laws_def comp_def)
  moreover have "concat (map ended (folder_lines (Folder n fs ss) ps)) = F @ header_of ps @ E @
      concat (map (ended \<circ> session_line) ss) @
      concat (map (\<lambda>sub. concat (map ended (folder_lines sub (ps @ [f_name sub])))) fs)"
    by (simp add: F_def E_def map_concat comp_def concat_concat)
  moreover have "toUtf8 h F = to_latin1 F" "toUtf8 h E = to_latin1 E"
    unfolding F_def E_def by (rule ascii_utf8 [OF assms ascii_parts(2)], rule ascii_utf8 [OF assms ascii_parts(3)])
  moreover have "collect h (Folder n fs ss) (header_of ps) = to_latin1 F @ toUtf8 h (header_of ps) @ to_latin1 E @
      concat (map (\<lambda>s. toUtf8 h (session_line s) @ to_latin1 newline) ss) @
      concat (map (\<lambda>sub. collect h sub (header_of ps @ ''/'' @ f_name sub)) fs)"
    using ne by (simp add: F_def E_def Let_def)
  ultimately show ?case
    by (simp only: cat toUtf8_concat [OF assms] comp_def append_assoc map_map)
qed

definition folder_name_ok :: "string \<Rightarrow> bool" where
  "folder_name_ok n \<longleftrightarrow> n \<noteq> [] \<and> CHR ''/'' \<notin> set n \<and> char_of (10 :: nat) \<notin> set n"

definition param_ok :: "string \<times> string \<Rightarrow> bool" where
  "param_ok kv \<longleftrightarrow> fst kv \<noteq> [] \<and> CHR ''='' \<notin> set (fst kv) \<and>
     (\<forall>t \<in> {fst kv, snd kv}. CHR '';'' \<notin> set t \<and> char_of (10 :: nat) \<notin> set t)"

text \<open>Sessions that the format can carry: it has no quoting.\<close>

definition session_ok :: "Session \<Rightarrow> bool" where
  "session_ok s \<longleftrightarrow> qmap_ok (s_params s) \<and> s_name s \<noteq> [] \<and> \<not> is_space (hd (s_name s)) \<and>
     hd (s_name s) \<notin> {CHR ''#'', CHR ''[''} \<and> CHR ''='' \<notin> set (s_name s) \<and> char_of (10 :: nat) \<notin> set (s_name s) \<and>
     list_all param_ok (s_params s) \<and> \<not> is_space (last (session_line s))"

fun folder_ok :: "SessionFolder \<Rightarrow> bool" where
  "folder_ok (Folder n fs ss) \<longleftrightarrow> folder_name_ok n \<and> list_all session_ok ss \<and> list_all folder_ok fs"

lemma header_parts: "\<forall>n \<in> set ps. folder_name_ok n \<Longrightarrow> split_skip CHR ''/'' (header_of ps) = ''Sessions'' # ps"
  unfolding header_of_def by (rule split_skip_join) (auto simp: folder_name_ok_def)

lemma ini_line_header:
  assumes "f_name root = ''Sessions''" and "\<forall>n \<in> set ps. folder_name_ok n"
  shows "ini_line (''[Folder='' @ header_of ps @ '']'') (root, cur) = (at_path (\<lambda>f. f) ps root, ps)"
proof -
  let ?l = "''[Folder='' @ header_of ps @ '']''"
  have "trimmed ?l = ?l" by (rule trimmed_id) (simp_all add: is_space_def)
  moreover have "ends_with '']'' ?l" by (simp add: ends_with_def suffix_def)
  ultimately show ?thesis
    using header_parts [OF assms(2)] assms(1) by (simp add: ini_line_def ensurePath_def starts_with_def)
qed

lemma type_name_ok: "CHR '';'' \<notin> set (sessionTypeToString t)" "char_of (10 :: nat) \<notin> set (sessionTypeToString t)"
proof -
  have "list_all (\<lambda>t. CHR '';'' \<notin> set (sessionTypeToString t) \<and> char_of (10 :: nat) \<notin> set (sessionTypeToString t)) (map fst typeNames)"
    by code_simp
  then show "CHR '';'' \<notin> set (sessionTypeToString t)" "char_of (10 :: nat) \<notin> set (sessionTypeToString t)"
    by (cases t; simp add: typeNames_def)+
qed

text \<open>The parameters in a line, in the order of their keys, which is their order in the map.\<close>

lemma sort_keys: "qmap_ok m \<Longrightarrow> sort (map fst m) = map fst m"
  by (rule sorted_sort_id) (simp add: qmap_ok_def strict_sorted_imp_sorted)

lemma session_line_params:
  assumes "qmap_ok (s_params s)"
  shows "session_line s = s_name s @ ''='' @ join_with '';'' (sessionTypeToString (s_type s) # map (\<lambda>(k, v). k @ CHR ''='' # v) (s_params s))"
proof -
  have "param s k = v" if "(k, v) \<in> set (s_params s)" for k v
    using that assms map_of_is_SomeI [of "s_params s" k v]
    by (auto simp: param_def_def qvalue_def qmap_ok_def strict_sorted_iff)
  then have eq: "map (\<lambda>k. k @ ''='' @ param s k) (map fst (s_params s)) = map (\<lambda>(k, v). k @ CHR ''='' # v) (s_params s)"
    by (simp only: map_map, intro map_cong) auto
  show ?thesis unfolding session_line_def sort_keys [OF assms] eq by simp
qed

lemma set_field_param: "param_ok (k, v) \<Longrightarrow> set_field (k @ CHR ''='' # v) s = setParam k v s"
  by (simp add: set_field_def param_ok_def)

lemma fold_set_fields:
  "list_all param_ok m \<Longrightarrow> fold set_field (map (\<lambda>(k, v). k @ CHR ''='' # v) m) s = fold (\<lambda>(k, v). setParam k v) m s"
proof (induction m arbitrary: s)
  case (Cons kv m)
  then show ?case using set_field_param [of "fst kv" "snd kv"] by (cases kv) simp
qed simp

lemma fold_setParams: "fold (\<lambda>(k, v). setParam k v) kvs s = s\<lparr>s_params := fold (\<lambda>(k, v). qinsert k v) kvs (s_params s)\<rparr>"
  by (induction kvs arbitrary: s) (auto simp: setParam_def)

lemma fold_qinsert_id: "qmap_ok m \<Longrightarrow> fold (\<lambda>(k, v). qinsert k v) m [] = m"
proof (rule qmap_eqI)
  assume m: "qmap_ok m"
  have "qmap_ok acc \<Longrightarrow> qmap_ok (fold (\<lambda>(k, v). qinsert k v) m acc)" for acc and m :: "('a, 'b) qmap"
    by (induction m arbitrary: acc) auto
  then show "qmap_ok (fold (\<lambda>(k, v). qinsert k v) m [])" by simp
  show "map_of (fold (\<lambda>(k, v). qinsert k v) m []) = map_of m"
    by (rule ext) (simp add: qmap.look_inserts map_of_rev_ok [OF m] split: option.split)
qed

lemma parse_session_line:
  assumes "session_ok s"
  shows "parse_session (session_line s) = Some s"
proof -
  note ok = assms [unfolded session_ok_def]
  define parts where "parts = sessionTypeToString (s_type s) # map (\<lambda>(k, v). k @ CHR ''='' # v) (s_params s)"
  have line: "session_line s = s_name s @ CHR ''='' # join_with '';'' parts"
    using session_line_params ok by (simp add: parts_def)
  have "\<forall>p \<in> set parts. CHR '';'' \<notin> set p"
    using ok type_name_ok by (fastforce simp: parts_def list_all_iff param_ok_def)
  then have "split_on CHR '';'' (join_with '';'' parts) = parts" by (intro split_join) (simp_all add: parts_def)
  then have "parse_session (session_line s) = Some (fold set_field (tl parts) (new_session (s_name s) (sessionTypeFromString (hd parts))))"
    using ok by (simp add: parse_session_def line)
  also have "\<dots> = Some s"
    using ok by (simp add: parts_def fold_set_fields fold_setParams type_name_roundtrip new_session_def fold_qinsert_id)
  finally show ?thesis .
qed

lemma ini_line_session:
  assumes "session_ok s"
  shows "ini_line (session_line s) (root, cur) = (at_path (addSession s) cur root, cur)"
proof -
  note ok = assms [unfolded session_ok_def]
  have hd: "session_line s \<noteq> []" "hd (session_line s) = hd (s_name s)" using ok by (simp_all add: session_line_def)
  then have "trimmed (session_line s) = session_line s" using ok by (intro trimmed_id) simp_all
  moreover have "\<not> starts_with ''#'' (session_line s)" "\<not> starts_with ''[Folder='' (session_line s)"
    using ok hd by (auto simp: starts_with_iff)
  ultimately show ?thesis using hd parse_session_line [OF assms] by (simp add: ini_line_def)
qed

text \<open>Reading the lines of a folder merges it into the folder its header names.\<close>

lemma fold_in_folders: "fold (\<lambda>x. in_folders (u x)) xs f = in_folders (fold u xs) f"
  by (induction xs arbitrary: f) (simp_all add: in_folders_def)

lemma fold_addSession: "fold addSession ss f = Folder (f_name f) (f_folders f) (f_sessions f @ ss)"
  by (induction ss arbitrary: f) (simp_all add: addSession_def)

lemma at_path_child: "at_path g [p] = in_folders (at_child p g)"
proof -
  have eq: "at_path g [] = g" by (simp add: fun_eq_iff)
  show ?thesis by (intro ext) (simp only: at_path.simps eq)
qed

lemma merge_steps: "merge (Folder n fs ss) = (\<lambda>x. fold (\<lambda>sub. at_path (merge sub) [f_name sub]) fs (fold addSession ss x))"
  by (simp add: fun_eq_iff at_path_child fold_in_folders fold_addSession in_folders_def del: at_path.simps)

lemma keeps_name_fold: "\<forall>x \<in> set xs. keeps_name (u x) \<Longrightarrow> keeps_name (fold u xs)"
  by (induction xs) (auto simp: keeps_name_def)

lemma at_path_id_keeps: "f_name root = ''Sessions'' \<Longrightarrow> keeps_name g \<Longrightarrow> f_name (at_path g ps root) = ''Sessions''"
  using keeps_name_at_path [of g ps] by (simp add: keeps_name_def del: keeps_name_at_path)

lemma read_sessions:
  "list_all session_ok ss \<Longrightarrow> keeps_name g \<Longrightarrow>
   fold ini_line (map session_line ss) (at_path g cur root, cur) = (at_path (\<lambda>x. fold addSession ss (g x)) cur root, cur)"
proof (induction ss arbitrary: g)
  case (Cons s ss)
  then show ?case
    using Cons.IH [of "\<lambda>x. addSession s (g x)"] by (simp add: ini_line_session at_path_comp)
qed simp

lemma read_folder:
  "folder_ok f \<Longrightarrow> \<forall>n \<in> set ps. folder_name_ok n \<Longrightarrow> f_name root = ''Sessions'' \<Longrightarrow>
   fst (fold ini_line (folder_lines f ps) (root, cur)) = at_path (merge f) ps root"
proof (induction f ps arbitrary: root cur rule: folder_lines.induct)
  case (1 n fs ss ps)
  have subs: "fst (fold ini_line (concat (map (\<lambda>sub. folder_lines sub (ps @ [f_name sub])) xs)) (at_path g ps root, cur)) =
      at_path (\<lambda>x. fold (\<lambda>sub. at_path (merge sub) [f_name sub]) xs (g x)) ps root"
    if "set xs \<subseteq> set fs" "keeps_name g" for xs g cur
    using that
  proof (induction xs arbitrary: g cur)
    case (Cons sub xs)
    have sub: "sub \<in> set fs" "folder_ok sub" "folder_name_ok (f_name sub)"
      using Cons.prems "1.prems"(1) by (auto simp: list_all_iff) (cases sub; auto)
    obtain r c where rc: "fold ini_line (folder_lines sub (ps @ [f_name sub])) (at_path g ps root, cur) = (r, c)"
      by fastforce
    have "r = at_path (merge sub) (ps @ [f_name sub]) (at_path g ps root)"
      using "1.IH" [OF sub(1,2), of "at_path g ps root" cur] rc "1.prems" sub(3) Cons.prems(2)
      by (simp add: at_path_id_keeps)
    also have "\<dots> = at_path (\<lambda>x. at_path (merge sub) [f_name sub] (g x)) ps root"
      using Cons.prems(2) by (simp add: at_path_append at_path_comp del: at_path.simps)
    finally show ?case
      using Cons.IH [of "\<lambda>x. at_path (merge sub) [f_name sub] (g x)" c] Cons.prems rc
      by (simp del: at_path.simps)
  qed simp
  have "fold ini_line (map session_line ss) (at_path (\<lambda>x. x) ps root, ps) = (at_path (fold addSession ss) ps root, ps)"
    using read_sessions [of ss "\<lambda>x. x" ps root] "1.prems"(1) by simp
  moreover have "keeps_name (fold addSession ss)" by (rule keeps_name_fold) simp
  ultimately show ?case
    using ini_line_header [OF "1.prems"(3,2)] subs [of fs "fold addSession ss" ps] by (simp add: merge_steps del: merge.simps)
qed

abbreviation "nl \<equiv> char_of (10 :: nat) :: char"

lemma split_lines: "\<forall>l \<in> set ls. nl \<notin> set l \<Longrightarrow> split_on nl (concat (map ended ls)) = ls @ [[]]"
  by (induction ls) (simp_all add: newline_def)

lemma nl_chars: "nl \<notin> set '';=/[]Folder=Sessions''"
  by code_simp

lemma join_without: "c \<notin> set s \<Longrightarrow> \<forall>p \<in> set ps. c \<notin> set p \<Longrightarrow> c \<notin> set (join_with s ps)"
  by (induction ps rule: induct_list012) auto

lemma session_line_no_nl:
  assumes "session_ok s"
  shows "nl \<notin> set (session_line s)"
proof -
  have "\<forall>p \<in> set (sessionTypeToString (s_type s) # map (\<lambda>(k, v). k @ CHR ''='' # v) (s_params s)). nl \<notin> set p"
    using assms type_name_ok(2) nl_chars by (fastforce simp: session_ok_def list_all_iff param_ok_def)
  then have "nl \<notin> set (join_with '';'' (sessionTypeToString (s_type s) # map (\<lambda>(k, v). k @ CHR ''='' # v) (s_params s)))"
    using nl_chars by (intro join_without) simp_all
  then show ?thesis using assms session_line_params [of s] nl_chars by (simp add: session_ok_def)
qed

lemma header_no_nl: "\<forall>n \<in> set ps. folder_name_ok n \<Longrightarrow> nl \<notin> set (''[Folder='' @ header_of ps @ '']'')"
  using nl_chars join_without [of nl "''/''" "''Sessions'' # ps"] by (auto simp: header_of_def folder_name_ok_def)

lemma folder_lines_no_nl: "folder_ok f \<Longrightarrow> \<forall>n \<in> set ps. folder_name_ok n \<Longrightarrow> \<forall>l \<in> set (folder_lines f ps). nl \<notin> set l"
proof (induction f ps rule: folder_lines.induct)
  case (1 n fs ss ps)
  have sub: "\<forall>l \<in> set (folder_lines sub (ps @ [f_name sub])). nl \<notin> set l" if "sub \<in> set fs" for sub
  proof (rule "1.IH" [OF that])
    show "folder_ok sub" using "1.prems"(1) that by (simp add: list_all_iff)
    then have "folder_name_ok (f_name sub)" by (cases sub) simp
    then show "\<forall>n \<in> set (ps @ [f_name sub]). folder_name_ok n" using "1.prems"(2) by simp
  qed
  have "\<forall>s \<in> set ss. nl \<notin> set (session_line s)"
    using "1.prems"(1) session_line_no_nl by (simp add: list_all_iff)
  then show ?case
    unfolding folder_lines.simps set_append list.set set_map set_concat
    using header_no_nl [OF "1.prems"(2)] sub by blast
qed

text \<open>C24: A tree of folders and sessions written to the text format and read back is the same tree, at any depth, when
  its root is named \<open>Sessions\<close>, the folders in a folder have distinct names, and nothing holds a character that the
  format, which has no quoting, uses there (\<open>folder_ok\<close>): no folder's name is empty or has a slash, no session's is
  empty, has an equals sign or begins with a blank, '#' or '[', no parameter's name is empty or has an equals sign, no
  parameter has a semicolon, none of these texts a line break, and no line ends with a blank.\<close>

theorem ini_roundtrip:
  assumes "utf8_laws h" and "f_name root = ''Sessions''" and "folder_ok root" and "distinct_names root"
  shows "ini_deserialize h (ini_serialize h root) = root"
proof -
  have "collect h root [] = collect h root (header_of [])"
    using assms(2) by (cases root) (simp add: header_of_def)
  then have "fromUtf8 h (ini_serialize h root) = concat (map ended (folder_lines root []))"
    using assms(1) by (simp add: ini_serialize_def collect_lines utf8_laws_def)
  then have "split_on nl (fromUtf8 h (ini_serialize h root)) = folder_lines root [] @ [[]]"
    using split_lines folder_lines_no_nl [OF assms(3), of "[]"] by simp
  moreover have "ini_line [] st = st" for st by (simp add: ini_line_def trimmed_def)
  ultimately have "ini_deserialize h (ini_serialize h root) = fst (fold ini_line (folder_lines root []) (Folder ''Sessions'' [] [], []))"
    by (simp add: ini_deserialize_def)
  also have "\<dots> = merge root (Folder (f_name root) [] [])"
    using read_folder [OF assms(3), of "[]" "Folder ''Sessions'' [] []" "[]"] assms(2) by simp
  finally show ?thesis using merge_new [OF assms(4)] by simp
qed

definition demo_tree :: SessionFolder where
  "demo_tree = Folder ''Sessions''
     [Folder ''Production'' [Folder ''DB'' [] [\<lparr>s_name = ''db1'', s_type = Ssh, s_params = [(''host'', ''10.0.0.2'')]\<rparr>]] []]
     [\<lparr>s_name = ''box'', s_type = Telnet, s_params = [(''host'', ''h''), (''port'', ''23'')]\<rparr>]"

definition ini_host :: host where
  "ini_host = \<lparr>cleanPath = normalize, filePath = (\<lambda>d n. n), toUtf8 = to_latin1, fromUtf8 = from_latin1\<rparr>"

theorem ini_roundtrip_witness: "ini_deserialize ini_host (ini_serialize ini_host demo_tree) = demo_tree"
proof (rule ini_roundtrip)
  show "utf8_laws ini_host" by (simp add: utf8_laws_def ini_host_def comp_def)
  show "folder_ok demo_tree" by code_simp
qed code_simp+

end
