(* ===== verification/Importers.thy ===== *)
theory Importers
  imports Ini_Store
begin

text \<open>
  The session importers: OpenSSH's client configuration (\<open>src/src/core/SshConfigImporter.cpp\<close>),
  PuTTY's session files and registry (\<open>PuttyImporter.cpp\<close>) and WinSCP's (\<open>WinScpImporter.cpp\<close>).
  Qt's percent decoding is a parameter. The registry is the list of its sessions, in the order of
  enumeration, each with its texts (empty when absent) and its numbers (0 when absent).
\<close>

definition text_lines :: "host \<Rightarrow> bytes \<Rightarrow> string list" where
  "text_lines h b = split_on (char_of (10 :: nat)) (fromUtf8 h b)"

definition param_if :: "bool \<Rightarrow> string \<Rightarrow> string \<Rightarrow> Session \<Rightarrow> Session" where
  "param_if b k v s = (if b then setParam k v s else s)"

section \<open>OpenSSH\<close>

record Pending =
  p_alias :: string
  p_hostName :: string
  p_user :: string
  p_identityFile :: string
  p_proxyJump :: string
  p_port :: int

definition no_pending :: Pending where
  "no_pending = \<lparr>p_alias = [], p_hostName = [], p_user = [], p_identityFile = [], p_proxyJump = [], p_port = 0\<rparr>"

definition pending_valid :: "Pending \<Rightarrow> bool" where
  "pending_valid p \<longleftrightarrow> p_alias p \<noteq> [] \<and> CHR ''*'' \<notin> set (p_alias p) \<and> CHR ''?'' \<notin> set (p_alias p)"

definition pending_session :: "Pending \<Rightarrow> Session" where
  "pending_session p =
     (let s = new_session (p_alias p) Ssh;
          s = setParam ''host'' (if p_hostName p = [] then p_alias p else p_hostName p) s;
          s = param_if (p_user p \<noteq> []) ''username'' (p_user p) s;
          s = (if p_port p > 0 then setPort (p_port p) s else s);
          s = param_if (p_identityFile p \<noteq> []) ''keyfile'' (p_identityFile p) s
      in param_if (p_proxyJump p \<noteq> []) ''jumphost'' (p_proxyJump p) s)"

text \<open>\<open>flush\<close>: the block closed, if it names a host, and a fresh one.\<close>

definition flush_pending :: "Pending \<Rightarrow> Session list \<Rightarrow> Pending \<times> Session list" where
  "flush_pending p ss =
     (if \<not> pending_valid p then (no_pending, ss) else (no_pending, ss @ [pending_session p]))"

text \<open>The expression \<open>\s\<close>.\<close>

definition re_space :: "char \<Rightarrow> bool" where
  "re_space c \<longleftrightarrow> of_char c \<in> {9 .. 13 :: nat} \<or> c = CHR '' ''"

definition set_option :: "string \<Rightarrow> string \<Rightarrow> Pending \<times> Session list \<Rightarrow> Pending \<times> Session list" where
  "set_option key val st =
     (case st of (cur, ss) \<Rightarrow>
        if key = ''host'' then
          let (cur, ss) = flush_pending cur ss
          in (cur\<lparr>p_alias := hd (split_on CHR '' '' val)\<rparr>, ss)
        else if key = ''hostname'' then (cur\<lparr>p_hostName := val\<rparr>, ss)
        else if key = ''user'' then (cur\<lparr>p_user := val\<rparr>, ss)
        else if key = ''port'' then (cur\<lparr>p_port := to_int0 val\<rparr>, ss)
        else if key = ''identityfile'' then (cur\<lparr>p_identityFile := val\<rparr>, ss)
        else if key = ''proxyjump'' then (cur\<lparr>p_proxyJump := val\<rparr>, ss)
        else (cur, ss))"

definition config_line :: "string \<Rightarrow> Pending \<times> Session list \<Rightarrow> Pending \<times> Session list" where
  "config_line raw st =
     (let line = trimmed raw
      in if line = [] \<or> starts_with ''#'' line then st
         else let norm = map (\<lambda>c. if c = CHR ''='' then CHR '' '' else c) line
              in case List.find (\<lambda>i. re_space (norm ! i)) [0..<length norm] of
                   None \<Rightarrow> st
                 | Some sp \<Rightarrow>
                     let key = to_lower (take sp norm); val = trimmed (drop (sp + 1) norm)
                     in if val = [] then st else set_option key val st)"

definition ssh_config_parse :: "host \<Rightarrow> bytes \<Rightarrow> SessionFolder" where
  "ssh_config_parse h b =
     Folder ''Imported (ssh_config)'' []
       (snd (case fold config_line (text_lines h b) (no_pending, []) of (cur, ss) \<Rightarrow> flush_pending cur ss))"

text \<open>\<open>importFile\<close>: the content of the file, where it can be read.\<close>

definition ssh_config_importFile :: "host \<Rightarrow> bytes option \<Rightarrow> SessionFolder" where
  "ssh_config_importFile h f = (case f of None \<Rightarrow> Folder ''Imported (ssh_config)'' [] [] | Some b \<Rightarrow> ssh_config_parse h b)"

section \<open>PuTTY\<close>

definition decodeName :: "host \<Rightarrow> (bytes \<Rightarrow> bytes) \<Rightarrow> string \<Rightarrow> string" where
  "decodeName h pct raw = fromUtf8 h (pct (toUtf8 h raw))"

definition backslash :: char where
  "backslash = CHR 0x5C"

text \<open>One line: a key and a value, at the first backslash or the first \<open>=\<close> before it.\<close>

definition putty_line :: "string \<Rightarrow> fields \<Rightarrow> fields" where
  "putty_line raw kv =
     (let line = trimmed raw
      in if line = [] then kv
         else let bs = index_of backslash line; eq = index_of CHR ''='' line;
                  sep = (case bs of None \<Rightarrow> eq | Some i \<Rightarrow> (case eq of None \<Rightarrow> bs | Some j \<Rightarrow> if j < i then eq else bs))
              in case sep of
                   None \<Rightarrow> kv
                 | Some i \<Rightarrow>
                     if i = 0 then kv
                     else let val = drop (i + 1) line;
                              val = (if val \<noteq> [] \<and> last val = backslash then butlast val else val)
                          in qinsert (trimmed (take i line)) (trimmed val) kv)"

definition putty_type :: "string \<Rightarrow> SessionType" where
  "putty_type proto =
     (if proto = ''telnet'' \<or> proto = ''raw'' then Telnet
      else if proto = ''rlogin'' then Rlogin
      else if proto = ''serial'' then Serial else Ssh)"

definition putty_gateway :: "(string \<Rightarrow> string) \<Rightarrow> Session \<Rightarrow> Session" where
  "putty_gateway kv s =
     (if kv ''ProxyHost'' = [] then s
      else let gw = kv ''ProxyHost''; pp = kv ''ProxyPort''; pu = kv ''ProxyUsername'';
               gw = (if pp \<noteq> [] \<and> pp \<noteq> ''0'' then gw @ '':'' @ pp else gw);
               gw = (if pu \<noteq> [] then pu @ ''@'' @ gw else gw)
           in setParam ''gateway'' gw s)"

text \<open>The session of a name and its settings.\<close>

definition putty_session :: "string \<Rightarrow> (string \<Rightarrow> string) \<Rightarrow> Session" where
  "putty_session name kv =
     (let type = putty_type (to_lower (kv ''Protocol''));
          s = new_session name type;
          s = param_if (kv ''HostName'' \<noteq> []) ''host'' (kv ''HostName'') s;
          p = to_int0 (kv ''PortNumber'');
          s = (if p > 0 then setPort p s else s);
          s = param_if (kv ''UserName'' \<noteq> []) ''username'' (kv ''UserName'') s;
          s = param_if (kv ''PublicKeyFile'' \<noteq> []) ''keyfile'' (kv ''PublicKeyFile'') s;
          s = param_if (kv ''Compression'' = ''1'') ''compression'' ''1'' s;
          s = putty_gateway kv s;
          b = to_int0 (kv ''SerialSpeed'')
      in if type = Serial
         then param_if (b > 0) ''baud'' (dec_of_int b) (param_if (kv ''SerialLine'' \<noteq> []) ''port'' (kv ''SerialLine'') s)
         else s)"

definition putty_kv :: "host \<Rightarrow> bytes \<Rightarrow> fields" where
  "putty_kv h b = fold putty_line (text_lines h b) []"

definition parseSession :: "host \<Rightarrow> string \<Rightarrow> bytes \<Rightarrow> Session" where
  "parseSession h name b = putty_session name (\<lambda>k. qvalue (putty_kv h b) k [])"

text \<open>A directory: the names of its files and their contents, where readable; no directory, none.\<close>

definition importFromDir :: "host \<Rightarrow> (bytes \<Rightarrow> bytes) \<Rightarrow> (string \<times> bytes option) list option \<Rightarrow> SessionFolder" where
  "importFromDir h pct dir =
     Folder ''Imported (PuTTY)'' []
       (case dir of
          None \<Rightarrow> []
        | Some files \<Rightarrow>
            filter (\<lambda>s. param s ''host'' \<noteq> [])
              (concat (map (\<lambda>(n, c). case c of None \<Rightarrow> [] | Some b \<Rightarrow> [parseSession h (decodeName h pct n) b]) files)))"

record reg_session =
  reg_name :: string
  reg_str :: "string \<Rightarrow> string"
  reg_dword :: "string \<Rightarrow> u32"

definition reg_add :: "host \<Rightarrow> string \<Rightarrow> string \<Rightarrow> bytes" where
  "reg_add h k v = (if v \<noteq> [] then to_latin1 k @ to_latin1 ''='' @ toUtf8 h v @ [10] else [])"

definition reg_num :: "reg_session \<Rightarrow> string \<Rightarrow> string" where
  "reg_num r k = (let n = toInt32 (reg_dword r k) in if n > 0 then dec_of_int n else [])"

definition putty_texts :: "string list" where
  "putty_texts = [''HostName'', ''Protocol'', ''UserName'', ''PublicKeyFile'', ''ProxyHost'', ''ProxyUsername'', ''SerialLine'']"

text \<open>The values of a registry session, written as the text that \<open>parseSession\<close> reads.\<close>

definition reg_body :: "host \<Rightarrow> reg_session \<Rightarrow> bytes" where
  "reg_body h r =
     concat (map (\<lambda>k. reg_add h k (reg_str r k)) putty_texts) @
     reg_add h ''PortNumber'' (reg_num r ''PortNumber'') @
     reg_add h ''Compression'' (if toInt32 (reg_dword r ''Compression'') \<noteq> 0 then ''1'' else []) @
     reg_add h ''ProxyPort'' (reg_num r ''ProxyPort'') @
     reg_add h ''SerialSpeed'' (reg_num r ''SerialSpeed'')"

definition putty_registry :: "host \<Rightarrow> (bytes \<Rightarrow> bytes) \<Rightarrow> reg_session list \<Rightarrow> SessionFolder" where
  "putty_registry h pct rs =
     Folder ''Imported (PuTTY)'' []
       (filter (\<lambda>s. param s ''host'' \<noteq> [] \<or> s_type s = Serial)
          (map (\<lambda>r. parseSession h (decodeName h pct (reg_name r)) (reg_body h r)) rs))"

section \<open>WinSCP\<close>

definition sessionFromKv :: "string \<Rightarrow> (string \<Rightarrow> string) \<Rightarrow> Session" where
  "sessionFromKv name kv =
     (let s = new_session name (if to_int0 (kv ''FSProtocol'') = 5 then Ftp else Sftp);
          s = param_if (kv ''HostName'' \<noteq> []) ''host'' (kv ''HostName'') s;
          p = to_int0 (kv ''PortNumber'');
          s = (if p > 0 then setPort p s else s);
          s = param_if (kv ''UserName'' \<noteq> []) ''username'' (kv ''UserName'') s
      in param_if (kv ''PublicKeyFile'' \<noteq> []) ''keyfile'' (kv ''PublicKeyFile'') s)"

record winscp =
  w_section :: string
  w_kv :: fields
  w_root :: "Session list"

definition sessions_prefix :: string where
  "sessions_prefix = ''Sessions'' @ [backslash]"

definition winscp_flush :: "host \<Rightarrow> (bytes \<Rightarrow> bytes) \<Rightarrow> winscp \<Rightarrow> winscp" where
  "winscp_flush h pct w =
     (let root = (if starts_with sessions_prefix (w_section w) then
                    let enc = drop (length sessions_prefix) (w_section w)
                    in if enc \<noteq> ''Default%20Settings'' \<and> enc \<noteq> [] then
                         let s = sessionFromKv (decodeName h pct enc) (\<lambda>k. qvalue (w_kv w) k [])
                         in if param s ''host'' \<noteq> [] then w_root w @ [s] else w_root w
                       else w_root w
                  else w_root w)
      in w\<lparr>w_kv := [], w_root := root\<rparr>)"

definition winscp_line :: "host \<Rightarrow> (bytes \<Rightarrow> bytes) \<Rightarrow> string \<Rightarrow> winscp \<Rightarrow> winscp" where
  "winscp_line h pct raw w =
     (let line = trimmed raw
      in if line = [] \<or> starts_with '';'' line then w
         else if starts_with ''['' line \<and> ends_with '']'' line
         then (winscp_flush h pct w)\<lparr>w_section := take (length line - 2) (drop 1 line)\<rparr>
         else case index_of CHR ''='' line of
                None \<Rightarrow> w
              | Some eq \<Rightarrow>
                  if eq = 0 then w
                  else w\<lparr>w_kv := qinsert (trimmed (take eq line)) (trimmed (drop (eq + 1) line)) (w_kv w)\<rparr>)"

definition parseIni :: "host \<Rightarrow> (bytes \<Rightarrow> bytes) \<Rightarrow> bytes \<Rightarrow> SessionFolder" where
  "parseIni h pct b =
     Folder ''Imported (WinSCP)'' []
       (w_root (winscp_flush h pct (fold (winscp_line h pct) (text_lines h b) \<lparr>w_section = [], w_kv = [], w_root = []\<rparr>)))"

definition winscp_importFile :: "host \<Rightarrow> (bytes \<Rightarrow> bytes) \<Rightarrow> bytes option \<Rightarrow> SessionFolder" where
  "winscp_importFile h pct f = (case f of None \<Rightarrow> Folder ''Imported (WinSCP)'' [] [] | Some b \<Rightarrow> parseIni h pct b)"

text \<open>The registry: its values go into the map directly.\<close>

definition winscp_reg_kv :: "reg_session \<Rightarrow> fields" where
  "winscp_reg_kv r =
     (let put = (\<lambda>k v m. if v \<noteq> [] then qinsert k v m else m)
      in qinsert ''FSProtocol'' (dec_of_int (toInt32 (reg_dword r ''FSProtocol'')))
           (put ''PortNumber'' (reg_num r ''PortNumber'')
           (put ''PublicKeyFile'' (reg_str r ''PublicKeyFile'')
           (put ''UserName'' (reg_str r ''UserName'')
           (put ''HostName'' (reg_str r ''HostName'') [])))))"

definition winscp_registry :: "host \<Rightarrow> (bytes \<Rightarrow> bytes) \<Rightarrow> reg_session list \<Rightarrow> SessionFolder" where
  "winscp_registry h pct rs =
     Folder ''Imported (WinSCP)'' []
       (map (\<lambda>r. sessionFromKv (decodeName h pct (reg_name r)) (\<lambda>k. qvalue (winscp_reg_kv r) k []))
          (filter (\<lambda>r. reg_name r \<noteq> ''Default%20Settings'' \<and> reg_str r ''HostName'' \<noteq> []) rs))"

section \<open>What a configuration file gives\<close>

text \<open>A value as a line can carry it: the importer takes every \<open>=\<close> for a separator.\<close>

definition value_ok :: "string \<Rightarrow> bool" where
  "value_ok v \<longleftrightarrow> v \<noteq> [] \<and> trimmed v = v \<and> \<not> is_space (last v) \<and> CHR ''='' \<notin> set v \<and> nl \<notin> set v"

definition key_ok :: "string \<Rightarrow> bool" where
  "key_ok k \<longleftrightarrow> k \<noteq> [] \<and> list_all (\<lambda>c. is_space c \<noteq> True \<and> \<not> re_space c \<and> c \<noteq> CHR ''='' \<and> c \<noteq> nl) k \<and> hd k \<noteq> CHR ''#''"

lemma find_first: "\<forall>i < n. \<not> P i \<Longrightarrow> P n \<Longrightarrow> n < m \<Longrightarrow> List.find P [0..<m] = Some n"
  by (auto simp: find_Some_iff intro!: exI [where x = n])

lemma map_id_on: "\<forall>c \<in> set xs. f c = c \<Longrightarrow> map f xs = xs"
  by (induction xs) auto

lemma config_option_line:
  assumes "key_ok k" and "value_ok v"
  shows "config_line (k @ CHR '' '' # v) st = set_option (to_lower k) v st"
proof -
  let ?l = "k @ CHR '' '' # v"
  have t: "trimmed ?l = ?l"
    using assms by (intro trimmed_id) (auto simp: key_ok_def value_ok_def list_all_iff)
  have n: "map (\<lambda>c. if c = CHR ''='' then CHR '' '' else c) ?l = ?l"
    using assms by (intro map_id_on) (auto simp: key_ok_def value_ok_def list_all_iff)
  have f: "List.find (\<lambda>i. re_space (?l ! i)) [0..<length ?l] = Some (length k)"
    using assms(1) by (intro find_first) (auto simp: nth_append key_ok_def list_all_iff re_space_def)
  have "\<not> starts_with ''#'' ?l" using assms(1) by (cases k) (auto simp: key_ok_def starts_with_iff)
  with t n f assms(2) show ?thesis by (simp add: config_line_def Let_def value_ok_def)
qed

lemma keys_ok: "key_ok ''Host''" "key_ok ''HostName''" "key_ok ''User''" "key_ok ''Port''" "key_ok ''IdentityFile''" "key_ok ''ProxyJump''"
  by code_simp+

lemma keys_lower: "to_lower ''Host'' = ''host''" "to_lower ''HostName'' = ''hostname''" "to_lower ''User'' = ''user''"
  "to_lower ''Port'' = ''port''" "to_lower ''IdentityFile'' = ''identityfile''" "to_lower ''ProxyJump'' = ''proxyjump''"
  by code_simp+

definition option_line :: "string \<Rightarrow> string \<Rightarrow> string list" where
  "option_line k v = (if v = [] then [] else [k @ CHR '' '' # v])"

definition render_host :: "Pending \<Rightarrow> string list" where
  "render_host p =
     (''Host '' @ p_alias p) #
     option_line ''HostName'' (p_hostName p) @ option_line ''User'' (p_user p) @
     option_line ''Port'' (if p_port p > 0 then dec_of_int (p_port p) else []) @
     option_line ''IdentityFile'' (p_identityFile p) @ option_line ''ProxyJump'' (p_proxyJump p)"

definition pending_ok :: "Pending \<Rightarrow> bool" where
  "pending_ok p \<longleftrightarrow> value_ok (p_alias p) \<and> CHR '' '' \<notin> set (p_alias p) \<and> 0 \<le> p_port p \<and> p_port p < 2 ^ 31 \<and>
     (\<forall>v \<in> {p_hostName p, p_user p, p_identityFile p, p_proxyJump p}. v \<noteq> [] \<longrightarrow> value_ok v)"

lemma fold_option_line:
  "key_ok k \<Longrightarrow> (v \<noteq> [] \<longrightarrow> value_ok v) \<Longrightarrow>
   fold config_line (option_line k v) st = (if v = [] then st else set_option (to_lower k) v st)"
  by (simp add: option_line_def config_option_line)

lemma dec_value_ok: "0 < n \<Longrightarrow> value_ok (dec_of_int n)"
proof -
  have "\<not> is_digit CHR ''=''" "\<not> is_digit nl" by code_simp+
  then show "0 < n \<Longrightarrow> ?thesis"
    using dec_of_nat_digits [of _ "nat n"] last_dec_not_space [of "nat n"] by (auto simp: value_ok_def dec_of_int_def)
qed

lemma dec_of_int_nonempty [simp]: "dec_of_int n \<noteq> []"
  by (simp add: dec_of_int_def)

lemmas block_lines = config_option_line [OF keys_ok(1), unfolded keys_lower] fold_option_line [OF keys_ok(2), unfolded keys_lower]
  fold_option_line [OF keys_ok(3), unfolded keys_lower] fold_option_line [OF keys_ok(4), unfolded keys_lower]
  fold_option_line [OF keys_ok(5), unfolded keys_lower] fold_option_line [OF keys_ok(6), unfolded keys_lower]

lemma read_block:
  assumes "pending_ok p"
  shows "fold config_line (render_host p) (cur, ss) = (p, snd (flush_pending cur ss))"
proof -
  have host: "config_line (''Host'' @ CHR '' '' # p_alias p) (cur, ss) = (no_pending\<lparr>p_alias := p_alias p\<rparr>, snd (flush_pending cur ss))"
    using assms block_lines(1) [of "p_alias p" "(cur, ss)"]
    by (simp add: pending_ok_def set_option_def flush_pending_def)
  have "p_port p > 0 \<Longrightarrow> to_int0 (dec_of_int (p_port p)) = p_port p"
    using assms by (simp add: to_int0_def to_int_dec_of_int fitsInt_def pending_ok_def)
  then show ?thesis
    using assms host
    by (cases p) (auto simp: render_host_def block_lines(2-) dec_value_ok pending_ok_def set_option_def no_pending_def)
qed

lemma option_line_no_nl: "key_ok k \<Longrightarrow> (v \<noteq> [] \<longrightarrow> value_ok v) \<Longrightarrow> \<forall>l \<in> set (option_line k v). nl \<notin> set l"
proof -
  have "nl \<noteq> CHR '' ''" by code_simp
  then show "key_ok k \<Longrightarrow> (v \<noteq> [] \<longrightarrow> value_ok v) \<Longrightarrow> ?thesis"
    by (auto simp: option_line_def key_ok_def value_ok_def list_all_iff)
qed

lemma render_no_nl:
  assumes "pending_ok p" and "l \<in> set (render_host p)"
  shows "nl \<notin> set l"
proof -
  have "nl \<notin> set ''Host ''" by code_simp
  then have "nl \<notin> set (''Host '' @ p_alias p)" unfolding set_append using assms(1) by (simp add: pending_ok_def value_ok_def)
  moreover have "p_port p > 0 \<longrightarrow> value_ok (dec_of_int (p_port p))" by (simp add: dec_value_ok)
  ultimately show ?thesis
    using assms option_line_no_nl [OF keys_ok(2), of "p_hostName p"] option_line_no_nl [OF keys_ok(3), of "p_user p"]
      option_line_no_nl [OF keys_ok(4), of "if p_port p > 0 then dec_of_int (p_port p) else []"]
      option_line_no_nl [OF keys_ok(5), of "p_identityFile p"] option_line_no_nl [OF keys_ok(6), of "p_proxyJump p"]
    unfolding render_host_def pending_ok_def set_append list.set(2) by (auto split: if_splits)
qed

text \<open>A configuration of host blocks, in the importer's syntax, becomes one SSH session per block
  whose name is not a pattern, in order, with the block's options; a pattern block leaves no trace.\<close>

theorem ssh_config_import:
  assumes "\<forall>p \<in> set ps. pending_ok p" and "ps \<noteq> []" and "\<forall>x. fromUtf8 h (toUtf8 h x) = x"
  shows "ssh_config_parse h (toUtf8 h (join_with newline (concat (map render_host ps)))) =
    Folder ''Imported (ssh_config)'' [] (map pending_session (filter pending_valid ps))"
proof -
  have blocks: "snd (case fold config_line (concat (map render_host ps)) (cur, ss) of (cur, ss) \<Rightarrow> flush_pending cur ss) =
      snd (flush_pending cur ss) @ map pending_session (filter pending_valid ps)"
    if "\<forall>p \<in> set ps. pending_ok p" for ps cur ss
    using that
  proof (induction ps arbitrary: cur ss)
    case (Cons p ps)
    then show ?case using Cons.IH [of p "snd (flush_pending cur ss)"]
      by (simp add: read_block) (simp add: flush_pending_def)
  qed simp
  have "concat (map render_host ps) \<noteq> []" using assms(2) by (cases ps) (simp_all add: render_host_def)
  then have "split_on nl (join_with newline (concat (map render_host ps))) = concat (map render_host ps)"
    unfolding newline_def using assms(1) render_no_nl by (intro split_join) auto
  then show ?thesis
    using blocks [OF assms(1), of no_pending "[]"] assms(3)
    by (simp add: ssh_config_parse_def text_lines_def) (simp add: flush_pending_def no_pending_def pending_valid_def)
qed

section \<open>What a registry session gives\<close>

definition reg_entries :: "reg_session \<Rightarrow> (string \<times> string) list" where
  "reg_entries r =
     map (\<lambda>k. (k, reg_str r k)) putty_texts @
     [(''PortNumber'', reg_num r ''PortNumber''),
      (''Compression'', if toInt32 (reg_dword r ''Compression'') \<noteq> 0 then ''1'' else []),
      (''ProxyPort'', reg_num r ''ProxyPort''), (''SerialSpeed'', reg_num r ''SerialSpeed'')]"

definition reg_value :: "reg_session \<Rightarrow> string \<Rightarrow> string" where
  "reg_value r k = (case map_of (reg_entries r) k of None \<Rightarrow> [] | Some v \<Rightarrow> v)"

lemma reg_body_entries: "reg_body h r = concat (map (\<lambda>(k, v). reg_add h k v) (reg_entries r))"
  by (simp add: reg_body_def reg_entries_def putty_texts_def)

text \<open>A text that the neutral form can carry.\<close>

definition reg_text_ok :: "string \<Rightarrow> bool" where
  "reg_text_ok v \<longleftrightarrow> nl \<notin> set v \<and> trimmed v = v \<and> (v \<noteq> [] \<longrightarrow> \<not> is_space (last v) \<and> last v \<noteq> backslash)"

definition reg_key_ok :: "string \<Rightarrow> bool" where
  "reg_key_ok k \<longleftrightarrow> k \<noteq> [] \<and> list_all (\<lambda>c. \<not> is_space c \<and> c \<noteq> CHR ''='' \<and> c \<noteq> backslash \<and> c \<noteq> nl) k \<and> ascii k"

lemma putty_line_entry:
  assumes "reg_key_ok k" and "reg_text_ok v" and "v \<noteq> []"
  shows "putty_line (k @ CHR ''='' # v) kv = qinsert k v kv"
proof -
  let ?l = "k @ CHR ''='' # v"
  have t: "trimmed ?l = ?l"
    using assms by (intro trimmed_id) (auto simp: reg_key_ok_def reg_text_ok_def list_all_iff)
  have k: "trimmed k = k"
    using assms(1) by (intro trimmed_id) (auto simp: reg_key_ok_def list_all_iff)
  have "CHR ''='' \<notin> set k" using assms(1) by (auto simp: reg_key_ok_def list_all_iff)
  then have eq: "index_of CHR ''='' ?l = Some (length k)" by (rule index_of_append_hit)
  have bs: "index_of backslash ?l = Some i \<Longrightarrow> length k < i" for i
  proof -
    assume "index_of backslash ?l = Some i"
    then have "?l ! i = backslash" "i < length ?l" by (auto dest: index_of_SomeD)
    moreover have "\<forall>j \<le> length k. ?l ! j \<noteq> backslash"
      using assms(1) by (auto simp: nth_append reg_key_ok_def list_all_iff le_less backslash_def)
    ultimately show "length k < i" by (meson not_le)
  qed
  show ?thesis
    using assms t k eq bs by (auto simp: putty_line_def Let_def reg_key_ok_def reg_text_ok_def split: option.split)
qed

lemma reg_add_line:
  assumes "utf8_laws h" and "reg_key_ok k" and "v \<noteq> []"
  shows "reg_add h k v = toUtf8 h (ended (k @ CHR ''='' # v))"
proof -
  define E where "E = ''=''"
  have cat: "toUtf8 h (x @ y) = toUtf8 h x @ toUtf8 h y" for x y using assms(1) by (simp add: utf8_laws_def)
  have "ascii E" "to_latin1 newline = [10]" unfolding E_def by code_simp+
  moreover have "ended (k @ CHR ''='' # v) = k @ E @ v @ newline" by (simp add: E_def)
  moreover have "reg_add h k v = to_latin1 k @ to_latin1 E @ toUtf8 h v @ [10]" using assms(3) by (simp add: reg_add_def E_def)
  ultimately show ?thesis
    using assms(2) ascii_utf8 [OF assms(1)] ascii_parts(1) by (simp only: cat reg_key_ok_def)
qed

lemma entries_keys: "\<forall>e \<in> set (reg_entries r). reg_key_ok (fst e)" and entries_distinct: "distinct (map fst (reg_entries r))"
proof -
  have "list_all reg_key_ok (putty_texts @ [''PortNumber'', ''Compression'', ''ProxyPort'', ''SerialSpeed''])" by code_simp
  then show "\<forall>e \<in> set (reg_entries r). reg_key_ok (fst e)" by (auto simp: reg_entries_def list_all_iff)
  have "distinct (putty_texts @ [''PortNumber'', ''Compression'', ''ProxyPort'', ''SerialSpeed''])" by code_simp
  then show "distinct (map fst (reg_entries r))" by (simp add: reg_entries_def comp_def)
qed

lemma reg_num_ok: "reg_text_ok (reg_num r k)"
proof (cases "0 < toInt32 (reg_dword r k)")
  case True
  let ?n = "nat (toInt32 (reg_dword r k))"
  have "last (dec_of_nat ?n) \<in> set (dec_of_nat ?n)" by simp
  moreover have "\<not> is_digit backslash" by code_simp
  ultimately have "last (dec_of_nat ?n) \<noteq> backslash" using dec_of_nat_digits by metis
  with True dec_value_ok [of "toInt32 (reg_dword r k)"] show ?thesis
    by (auto simp: reg_num_def Let_def reg_text_ok_def value_ok_def dec_of_int_def)
next
  case False
  then show ?thesis by (simp add: reg_num_def Let_def reg_text_ok_def trimmed_def)
qed

lemma map_of_nonempty:
  "distinct (map fst m) \<Longrightarrow> (case map_of (filter (\<lambda>(k, v). v \<noteq> []) m) x of None \<Rightarrow> [] | Some v \<Rightarrow> v) = (case map_of m x of None \<Rightarrow> [] | Some v \<Rightarrow> v)"
proof (induction m)
  case (Cons e m)
  then show ?case
    by (cases e) (auto split: option.splits dest: map_of_SomeD simp: image_iff)
qed simp

lemma fold_putty_entries:
  "\<forall>e \<in> set es. reg_key_ok (fst e) \<and> reg_text_ok (snd e) \<and> snd e \<noteq> [] \<Longrightarrow>
   fold putty_line (map (\<lambda>(k, v). k @ CHR ''='' # v) es) kv = fold (\<lambda>(k, v). qinsert k v) es kv"
  by (induction es arbitrary: kv) (auto simp: putty_line_entry)

lemma concat_drop_empty: "\<forall>x \<in> set xs. \<not> P x \<longrightarrow> f x = [] \<Longrightarrow> concat (map f xs) = concat (map f (filter P xs))"
  by (induction xs) auto

text \<open>A PuTTY session of the registry becomes the session of its values, texts and numbers: the
  neutral text that carries them to the file parser, with empty values left out and the numbers
  printed, loses none and mixes none up.\<close>

theorem putty_registry_values:
  assumes "utf8_laws h" and "\<forall>k \<in> set putty_texts. reg_text_ok (reg_str r k)"
  shows "parseSession h name (reg_body h r) = putty_session name (reg_value r)"
proof -
  let ?es = "filter (\<lambda>(k, v). v \<noteq> []) (reg_entries r)"
  let ?ls = "map (\<lambda>(k, v). k @ CHR ''='' # v) ?es"
  have "reg_text_ok (if b then ''1'' else [])" for b
  proof -
    have "reg_text_ok ''1''" "reg_text_ok []" by code_simp+
    then show ?thesis by simp
  qed
  then have ok: "\<forall>e \<in> set ?es. reg_key_ok (fst e) \<and> reg_text_ok (snd e) \<and> snd e \<noteq> []"
    using entries_keys [of r] assms(2) reg_num_ok by (auto simp: reg_entries_def)
  have nl_free: "nl \<notin> set (k @ CHR ''='' # v)" if "reg_key_ok k" "reg_text_ok v" for k v
    using that nl_chars by (auto simp: reg_key_ok_def reg_text_ok_def list_all_iff)
  have "reg_body h r = concat (map (\<lambda>(k, v). reg_add h k v) ?es)"
    unfolding reg_body_entries by (rule concat_drop_empty) (auto simp: reg_add_def)
  also have "\<dots> = concat (map (\<lambda>e. toUtf8 h (ended (case e of (k, v) \<Rightarrow> k @ CHR ''='' # v))) ?es)"
    using ok reg_add_line [OF assms(1)] by (intro arg_cong [where f = concat] map_cong) auto
  also have "\<dots> = toUtf8 h (concat (map ended ?ls))"
    by (simp add: toUtf8_concat [OF assms(1)] comp_def)
  finally have "fromUtf8 h (reg_body h r) = concat (map ended ?ls)" using assms(1) by (simp add: utf8_laws_def)
  then have "text_lines h (reg_body h r) = ?ls @ [[]]"
    unfolding text_lines_def using split_lines [of ?ls] ok nl_free by (fastforce)
  moreover have "putty_line [] kv = kv" for kv by (simp add: putty_line_def trimmed_def)
  ultimately have kv: "putty_kv h (reg_body h r) = fold (\<lambda>(k, v). qinsert k v) ?es []"
    using fold_putty_entries [OF ok] by (simp add: putty_kv_def)
  have d: "distinct (map fst ?es)" using entries_distinct [of r] by (simp add: distinct_map_filter)
  have "qvalue (putty_kv h (reg_body h r)) k [] = reg_value r k" for k
    using map_of_nonempty [OF entries_distinct, of r k]
    by (simp add: kv qvalue_def reg_value_def qmap.look_inserts map_of_rev_distinct [OF d] split: option.splits)
  then show ?thesis by (simp add: parseSession_def)
qed

definition demo_reg :: reg_session where
  "demo_reg = \<lparr>reg_name = ''web%20box'', reg_str = (\<lambda>k. if k = ''HostName'' then ''h=1'' else if k = ''ProxyHost'' then ''gw'' else []),
     reg_dword = (\<lambda>k. if k = ''PortNumber'' then 2222 else 0)\<rparr>"

theorem putty_registry_values_witness:
  "parseSession ini_host ''box'' (reg_body ini_host demo_reg) = putty_session ''box'' (reg_value demo_reg)"
proof (rule putty_registry_values)
  show "utf8_laws ini_host" by (simp add: utf8_laws_def ini_host_def comp_def)
  show "\<forall>k \<in> set putty_texts. reg_text_ok (reg_str demo_reg k)" by code_simp
qed

definition demo_pendings :: "Pending list" where
  "demo_pendings =
     [no_pending\<lparr>p_alias := ''web'', p_hostName := ''10.0.0.1'', p_user := ''root'', p_port := 2222\<rparr>,
      no_pending\<lparr>p_alias := ''*'', p_user := ''any''\<rparr>]"

theorem ssh_config_import_witness:
  "ssh_config_parse ini_host (toUtf8 ini_host (join_with newline (concat (map render_host demo_pendings)))) =
     Folder ''Imported (ssh_config)'' [] (map pending_session (filter pending_valid demo_pendings))"
proof (rule ssh_config_import)
  show "\<forall>p \<in> set demo_pendings. pending_ok p" by code_simp
  show "demo_pendings \<noteq> []" by code_simp
  show "\<forall>x. fromUtf8 ini_host (toUtf8 ini_host x) = x" by (simp add: ini_host_def comp_def)
qed

section \<open>Where the importers differ from what they import\<close>

text \<open>Options of a \<open>Match\<close> block go to the host block before it.\<close>

lemma match_options_leak:
  "map (\<lambda>s. param s ''username'')
     (f_sessions (ssh_config_parse ini_host (to_latin1 (join_with newline [''Host web'', ''Match host db'', ''User postgres''])))) = [''postgres'']"
  by code_simp

text \<open>A serial session of a directory is dropped, of the registry kept.\<close>

lemma serial_only_from_registry:
  "f_sessions (importFromDir ini_host (\<lambda>b. b) (Some [(''tty'', Some (to_latin1 ''Protocol=serial''))])) = []"
  "map s_name (f_sessions (putty_registry ini_host (\<lambda>b. b)
     [\<lparr>reg_name = ''tty'', reg_str = (\<lambda>k. if k = ''Protocol'' then ''serial'' else []), reg_dword = (\<lambda>k. 0)\<rparr>])) = [''tty'']"
  by code_simp+

end
