(* ===== verification/Vault.thy ===== *)
theory Vault
  imports Ini_Store
begin

text \<open>
  The credential vault, \<open>src/src/core/CredentialVault.{h,cpp}\<close>: the secrets as text, the sealed
  blob, opening it, and the files around it, with the Windows variant that the user's account
  protects. OpenSSL and the Windows call are parameters. The cipher's calls from initialisation to
  the tag are one function each way; what the development needs of them is \<open>gcm_laws\<close>.
\<close>

section \<open>The secrets as text\<close>

type_synonym secrets = "(string, string) qmap"

definition setSecret :: "string \<Rightarrow> string \<Rightarrow> secrets \<Rightarrow> secrets" where
  "setSecret i s m = qinsert i s m"

definition secret :: "secrets \<Rightarrow> string \<Rightarrow> string" where
  "secret m i = qvalue m i []"

definition hasSecret :: "secrets \<Rightarrow> string \<Rightarrow> bool" where
  "hasSecret m i = qcontains m i"

definition removeSecret :: "string \<Rightarrow> secrets \<Rightarrow> secrets" where
  "removeSecret i m = qremove i m"

lemma secret_edits:
  "secret (setSecret i s m) j = (if j = i then s else secret m j)"
  "secret (removeSecret i m) j = (if j = i then [] else secret m j)"
  "qmap_ok m \<Longrightarrow> qmap_ok (setSecret i s m)" "qmap_ok m \<Longrightarrow> qmap_ok (removeSecret i m)"
  by (simp_all add: secret_def setSecret_def removeSecret_def qvalue_def)

definition tab :: char where
  "tab = char_of (9 :: nat)"

definition flatten :: "host \<Rightarrow> secrets \<Rightarrow> bytes" where
  "flatten h m = concat (map (\<lambda>(k, v). toUtf8 h k @ [9] @ toUtf8 h v @ [10]) m)"

definition secret_line :: "string \<Rightarrow> secrets \<Rightarrow> secrets" where
  "secret_line line m =
     (case index_of tab line of
        None \<Rightarrow> m
      | Some t \<Rightarrow> if t > 0 then qinsert (take t line) (drop (t + 1) line) m else m)"

definition unflatten :: "host \<Rightarrow> bytes \<Rightarrow> secrets" where
  "unflatten h data = fold secret_line (split_skip (char_of (10 :: nat)) (fromUtf8 h data)) []"

section \<open>Keys and ciphers\<close>

text \<open>The library: key derivation from the costs, the password, the salt and the length, and
  AES-256-GCM from the key and the nonce. \<open>has_argon2\<close> is a property of the build.\<close>

record crypto =
  has_argon2 :: bool
  argon2id :: "nat \<Rightarrow> nat \<Rightarrow> nat \<Rightarrow> nat \<Rightarrow> bytes \<Rightarrow> bytes \<Rightarrow> nat \<Rightarrow> bytes option"
  scrypt :: "nat \<Rightarrow> nat \<Rightarrow> nat \<Rightarrow> bytes \<Rightarrow> bytes \<Rightarrow> nat \<Rightarrow> bytes option"
  gcm_seal :: "bytes \<Rightarrow> bytes \<Rightarrow> bytes \<Rightarrow> (bytes \<times> bytes) option"
  gcm_open :: "bytes \<Rightarrow> bytes \<Rightarrow> bytes \<Rightarrow> bytes \<Rightarrow> bytes option"

definition kMagic :: bytes where
  "kMagic = to_latin1 ''MXVAULT1''"

definition kSaltLen :: nat where "kSaltLen = 16"
definition kNonceLen :: nat where "kNonceLen = 12"
definition kTagLen :: nat where "kTagLen = 16"
definition kKeyLen :: nat where "kKeyLen = 32"

definition KdfArgon2id :: byte where "KdfArgon2id = 1"
definition KdfScrypt :: byte where "KdfScrypt = 2"

definition preferredKdf :: "crypto \<Rightarrow> byte" where
  "preferredKdf c = (if has_argon2 c then KdfArgon2id else KdfScrypt)"

definition deriveArgon2id :: "crypto \<Rightarrow> bytes \<Rightarrow> bytes \<Rightarrow> bytes option" where
  "deriveArgon2id c pw salt = (if has_argon2 c then argon2id c 3 1 1 (64 * 1024) pw salt kKeyLen else None)"

definition deriveScrypt :: "crypto \<Rightarrow> bytes \<Rightarrow> bytes \<Rightarrow> bytes option" where
  "deriveScrypt c pw salt = scrypt c 16384 8 1 pw salt kKeyLen"

definition deriveKey :: "host \<Rightarrow> crypto \<Rightarrow> string \<Rightarrow> bytes \<Rightarrow> byte \<Rightarrow> bytes option" where
  "deriveKey h c password salt kdfId =
     (let pw = toUtf8 h password
      in if kdfId = KdfArgon2id then deriveArgon2id c pw salt
         else if kdfId = KdfScrypt then deriveScrypt c pw salt
         else None)"

section \<open>Sealing and opening\<close>

text \<open>The salt and the nonce are what the random generator gave, if it did. An empty blob means
  failure.\<close>

definition vault_encrypt :: "host \<Rightarrow> crypto \<Rightarrow> bytes option \<Rightarrow> bytes option \<Rightarrow> string \<Rightarrow> secrets \<Rightarrow> bytes" where
  "vault_encrypt h c rsalt rnonce pw m =
     (case rsalt of None \<Rightarrow> [] | Some salt \<Rightarrow>
      case rnonce of None \<Rightarrow> [] | Some nonce \<Rightarrow>
        let kdfId = preferredKdf c
        in case deriveKey h c pw salt kdfId of None \<Rightarrow> [] | Some key \<Rightarrow>
           case gcm_seal c key nonce (flatten h m) of None \<Rightarrow> [] | Some (cipher, tag) \<Rightarrow>
             kMagic @ [kdfId] @ salt @ nonce @ tag @ cipher)"

definition mid :: "nat \<Rightarrow> nat \<Rightarrow> bytes \<Rightarrow> bytes" where
  "mid off n b = take n (drop off b)"

definition vault_decrypt :: "host \<Rightarrow> crypto \<Rightarrow> bytes \<Rightarrow> string \<Rightarrow> secrets \<Rightarrow> bool \<times> secrets" where
  "vault_decrypt h c blob pw m =
     (let header = length kMagic + 1 + kSaltLen + kNonceLen + kTagLen
      in if length blob < header then (False, m)
         else if take (length kMagic) blob \<noteq> kMagic then (False, m)
         else let off = length kMagic;
                  kdfId = blob ! off; off = off + 1;
                  salt = mid off kSaltLen blob; off = off + kSaltLen;
                  nonce = mid off kNonceLen blob; off = off + kNonceLen;
                  tag = mid off kTagLen blob; off = off + kTagLen;
                  cipher = drop off blob
              in case deriveKey h c pw salt kdfId of
                   None \<Rightarrow> (False, m)
                 | Some key \<Rightarrow>
                     (case gcm_open c key nonce cipher tag of
                        None \<Rightarrow> (False, m)
                      | Some plain \<Rightarrow> (True, unflatten h plain)))"

text \<open>A file: its content or none, whether it opens, and how many of the bytes a write stores.
  Opening for writing truncates.\<close>

definition write_file :: "bool \<Rightarrow> (bytes \<Rightarrow> nat) \<Rightarrow> bytes \<Rightarrow> bytes option \<Rightarrow> bool \<times> bytes option" where
  "write_file opens stores b file =
     (if \<not> opens then (False, file) else (stores b = length b, Some (take (stores b) b)))"

definition vault_save ::
  "host \<Rightarrow> crypto \<Rightarrow> bytes option \<Rightarrow> bytes option \<Rightarrow> bool \<Rightarrow> (bytes \<Rightarrow> nat) \<Rightarrow> string \<Rightarrow> secrets \<Rightarrow> bytes option \<Rightarrow> bool \<times> bytes option" where
  "vault_save h c rsalt rnonce opens stores pw m file =
     (let blob = vault_encrypt h c rsalt rnonce pw m
      in if blob = [] then (False, file) else write_file opens stores blob file)"

definition vault_load :: "host \<Rightarrow> crypto \<Rightarrow> bytes option \<Rightarrow> string \<Rightarrow> secrets \<Rightarrow> bool \<times> secrets" where
  "vault_load h c file pw m = (case file of None \<Rightarrow> (False, m) | Some b \<Rightarrow> vault_decrypt h c b pw m)"

text \<open>Protection by the Windows account: \<open>None\<close> stands for another system.\<close>

record dpapi =
  protect :: "bytes \<Rightarrow> bytes option"
  unprotect :: "bytes \<Rightarrow> bytes option"

definition kDpapiMagic :: bytes where
  "kDpapiMagic = to_latin1 ''MXVDPAP1''"

definition saveDpapi ::
  "host \<Rightarrow> dpapi option \<Rightarrow> bool \<Rightarrow> (bytes \<Rightarrow> nat) \<Rightarrow> secrets \<Rightarrow> bytes option \<Rightarrow> bool \<times> bytes option" where
  "saveDpapi h w opens stores m file =
     (case w of None \<Rightarrow> (False, file) | Some d \<Rightarrow>
        case protect d (flatten h m) of None \<Rightarrow> (False, file)
        | Some out \<Rightarrow> write_file opens stores (kDpapiMagic @ out) file)"

definition loadDpapi :: "host \<Rightarrow> dpapi option \<Rightarrow> bytes option \<Rightarrow> secrets \<Rightarrow> bool \<times> secrets" where
  "loadDpapi h w file m =
     (case w of None \<Rightarrow> (False, m) | Some d \<Rightarrow>
        case file of None \<Rightarrow> (False, m) | Some blob \<Rightarrow>
          if length blob < length kDpapiMagic \<or> take (length kDpapiMagic) blob \<noteq> kDpapiMagic then (False, m)
          else case unprotect d (drop (length kDpapiMagic) blob) of
                 None \<Rightarrow> (False, m)
               | Some plain \<Rightarrow> (True, unflatten h plain))"

section \<open>Text and back\<close>

text \<open>A secret that the text form can carry.\<close>

definition secret_ok :: "string \<times> string \<Rightarrow> bool" where
  "secret_ok e \<longleftrightarrow> fst e \<noteq> [] \<and> tab \<notin> set (fst e) \<and> nl \<notin> set (fst e) \<and> nl \<notin> set (snd e)"

lemma flatten_utf8:
  assumes "utf8_laws h"
  shows "flatten h m = toUtf8 h (concat (map (\<lambda>(k, v). ended (k @ tab # v)) m))"
proof -
  define T where "T = [tab]"
  have cat: "toUtf8 h (x @ y) = toUtf8 h x @ toUtf8 h y" for x y using assms by (simp add: utf8_laws_def)
  have "ascii T" "to_latin1 T = [9]" "to_latin1 newline = [10]" unfolding T_def by code_simp+
  then have t: "toUtf8 h T = [9]" "toUtf8 h newline = [10]" using ascii_utf8 [OF assms] ascii_parts(1) by simp_all
  have "ended (k @ tab # v) = k @ T @ v @ newline" for k v by (simp add: T_def)
  then have "toUtf8 h (ended (k @ tab # v)) = toUtf8 h k @ [9] @ toUtf8 h v @ [10]" for k v
    by (simp only: cat t)
  then show ?thesis by (simp add: flatten_def toUtf8_concat [OF assms] comp_def case_prod_unfold)
qed

lemma split_skip_lines:
  "\<forall>l \<in> set ls. nl \<notin> set l \<and> l \<noteq> [] \<Longrightarrow> split_skip nl (concat (map ended ls)) = ls"
  using split_lines [of ls] by (auto simp: split_skip_def)

lemma secret_line_entry: "fst e \<noteq> [] \<Longrightarrow> tab \<notin> set (fst e) \<Longrightarrow> secret_line (fst e @ tab # snd e) m = qinsert (fst e) (snd e) m"
  by (simp add: secret_line_def)

lemma tab_nl: "tab \<noteq> nl"
  by code_simp

lemma unflatten_flatten:
  assumes "utf8_laws h" and "\<forall>e \<in> set m. secret_ok e"
  shows "unflatten h (flatten h m) = fold (\<lambda>(k, v). qinsert k v) m []"
proof -
  let ?ls = "map (\<lambda>(k, v). k @ tab # v) m"
  have "fromUtf8 h (flatten h m) = concat (map ended ?ls)"
    using assms(1) by (simp add: flatten_utf8 utf8_laws_def comp_def case_prod_unfold)
  moreover have "\<forall>l \<in> set ?ls. nl \<notin> set l \<and> l \<noteq> []"
    using assms(2) tab_nl by (auto simp: secret_ok_def)
  ultimately have "unflatten h (flatten h m) = fold secret_line ?ls []"
    unfolding unflatten_def by (simp only: split_skip_lines)
  also have "fold secret_line ?ls acc = fold (\<lambda>(k, v). qinsert k v) m acc" for acc
    using assms(2) secret_line_entry by (induction m arbitrary: acc) (auto simp: secret_ok_def)
  finally show ?thesis .
qed

lemma fold_qinsert_same:
  assumes "qmap_ok m"
  shows "fold (\<lambda>(k, v). qinsert k v) m [] = m"
proof (rule qmap_eqI [OF _ assms])
  show "qmap_ok (fold (\<lambda>(k, v). qinsert k v) m [])"
    by (rule fold_invariant [of m "\<lambda>_. True" qmap_ok]) auto
  show "map_of (fold (\<lambda>(k, v). qinsert k v) m []) = map_of m"
    by (rule ext) (simp add: qmap.look_inserts map_of_rev_ok [OF assms] split: option.split)
qed

section \<open>The blob\<close>

text \<open>GCM is deterministic and authenticated: a ciphertext opens, under a key and a nonce, exactly
  if sealing its plaintext under them gives that ciphertext and tag. The tag has its length.\<close>

definition gcm_laws :: "crypto \<Rightarrow> bool" where
  "gcm_laws c \<longleftrightarrow>
     (\<forall>key nonce cipher tag p. gcm_open c key nonce cipher tag = Some p \<longleftrightarrow> gcm_seal c key nonce p = Some (cipher, tag)) \<and>
     (\<forall>key nonce p cipher tag. gcm_seal c key nonce p = Some (cipher, tag) \<longrightarrow> length tag = kTagLen)"

definition vault_blob :: "byte \<Rightarrow> bytes \<Rightarrow> bytes \<Rightarrow> bytes \<Rightarrow> bytes \<Rightarrow> bytes" where
  "vault_blob kdfId salt nonce tag cipher = kMagic @ [kdfId] @ salt @ nonce @ tag @ cipher"

definition parts_ok :: "bytes \<Rightarrow> bytes \<Rightarrow> bytes \<Rightarrow> bool" where
  "parts_ok salt nonce tag \<longleftrightarrow> length salt = kSaltLen \<and> length nonce = kNonceLen \<and> length tag = kTagLen"

lemma length_kMagic [simp]: "length kMagic = 8"
  by (simp add: kMagic_def)

lemmas vault_lens = kSaltLen_def kNonceLen_def kTagLen_def

lemma decrypt_blob:
  "parts_ok salt nonce tag \<Longrightarrow>
   vault_decrypt h c (vault_blob kdfId salt nonce tag cipher) pw m =
     (case deriveKey h c pw salt kdfId of
        None \<Rightarrow> (False, m)
      | Some key \<Rightarrow> (case gcm_open c key nonce cipher tag of None \<Rightarrow> (False, m) | Some plain \<Rightarrow> (True, unflatten h plain)))"
  by (simp add: vault_decrypt_def vault_blob_def parts_ok_def Let_def mid_def vault_lens nth_append drop_Cons' cong: option.case_cong)

lemma cut_front: "n \<le> length xs \<Longrightarrow> \<exists>a b. xs = a @ b \<and> length a = n"
  by (rule exI [where x = "take n xs"], rule exI [where x = "drop n xs"]) simp

lemma blob_cases:
  assumes "length blob \<ge> 53" and "take 8 blob = kMagic"
  obtains kdfId salt nonce tag cipher where "blob = vault_blob kdfId salt nonce tag cipher" and "parts_ok salt nonce tag"
proof -
  have blob: "blob = kMagic @ drop 8 blob" using assms(2) by (metis append_take_drop_id)
  obtain k r1 where r1: "drop 8 blob = k @ r1" "length k = 1" using assms(1) cut_front [of 1 "drop 8 blob"] by fastforce
  obtain salt r2 where r2: "r1 = salt @ r2" "length salt = 16"
    using cut_front [of 16 r1] arg_cong [OF r1(1), of length] r1(2) assms(1) by fastforce
  obtain nonce r3 where r3: "r2 = nonce @ r3" "length nonce = 12"
    using cut_front [of 12 r2] arg_cong [OF r1(1), of length] r1(2) r2 assms(1) by fastforce
  obtain tag cipher where r4: "r3 = tag @ cipher" "length tag = 16"
    using cut_front [of 16 r3] arg_cong [OF r1(1), of length] r1(2) r2 r3 assms(1) by fastforce
  obtain kdfId where "k = [kdfId]" using r1(2) by (auto simp: length_Suc_conv)
  with blob r1(1) r2 r3 r4 show ?thesis by (intro that [of kdfId salt nonce tag cipher]) (simp_all add: vault_blob_def parts_ok_def vault_lens)
qed

section \<open>Properties\<close>

lemma derive_same_build: "deriveKey h c pw salt (preferredKdf c) = Some key \<Longrightarrow>
  has_argon2 c' = has_argon2 c \<or> \<not> has_argon2 c \<Longrightarrow> argon2id c' = argon2id c \<Longrightarrow> scrypt c' = scrypt c \<Longrightarrow>
  deriveKey h c' pw salt (preferredKdf c) = Some key"
  by (auto simp: deriveKey_def preferredKdf_def KdfArgon2id_def KdfScrypt_def deriveArgon2id_def deriveScrypt_def Let_def split: if_splits)

text \<open>Two builds of the program on the same library.\<close>

definition reads_vaults_of :: "crypto \<Rightarrow> crypto \<Rightarrow> bool" where
  "reads_vaults_of c' c \<longleftrightarrow>
     (has_argon2 c \<longrightarrow> has_argon2 c') \<and> argon2id c' = argon2id c \<and> scrypt c' = scrypt c \<and>
     gcm_seal c' = gcm_seal c \<and> gcm_open c' = gcm_open c"

lemma encrypt_blob:
  assumes "vault_encrypt h c rsalt rnonce pw m \<noteq> []"
  shows "\<exists>salt nonce key cipher tag. rsalt = Some salt \<and> rnonce = Some nonce \<and>
    deriveKey h c pw salt (preferredKdf c) = Some key \<and> gcm_seal c key nonce (flatten h m) = Some (cipher, tag) \<and>
    vault_encrypt h c rsalt rnonce pw m = vault_blob (preferredKdf c) salt nonce tag cipher"
  using assms by (auto simp: vault_encrypt_def vault_blob_def Let_def split: option.splits)

text \<open>A vault saved to a file and loaded with the same password has the same secrets, on every
  build that has the key derivation of the build that saved it (one with Argon2id reads both), when no secret's
  name holds a tab and nothing holds a line break.\<close>

theorem vault_roundtrip:
  assumes "utf8_laws h" and "gcm_laws c" and "reads_vaults_of c' c"
    and "qmap_ok m" and "\<forall>e \<in> set m. secret_ok e"
    and "\<forall>salt. rsalt = Some salt \<longrightarrow> length salt = kSaltLen" and "\<forall>nonce. rnonce = Some nonce \<longrightarrow> length nonce = kNonceLen"
    and "vault_save h c rsalt rnonce opens stores pw m before = (True, after)"
  shows "vault_load h c' after pw old = (True, m)"
proof -
  let ?b = "vault_encrypt h c rsalt rnonce pw m"
  have b: "?b \<noteq> []" and f: "write_file opens stores ?b before = (True, after)"
    using assms(8) by (auto simp: vault_save_def Let_def split: if_splits)
  then have out: "after = Some ?b" by (auto simp: write_file_def split: if_splits)
  obtain salt nonce key cipher tag where e: "rsalt = Some salt" "rnonce = Some nonce"
    "deriveKey h c pw salt (preferredKdf c) = Some key" "gcm_seal c key nonce (flatten h m) = Some (cipher, tag)"
    "?b = vault_blob (preferredKdf c) salt nonce tag cipher"
    using encrypt_blob [OF b] by blast
  have "parts_ok salt nonce tag" using assms(2,6,7) e(1,2,4) by (auto simp: parts_ok_def gcm_laws_def)
  moreover have "deriveKey h c' pw salt (preferredKdf c) = Some key"
    using derive_same_build [OF e(3)] assms(3) by (auto simp: reads_vaults_of_def)
  moreover have "gcm_open c' key nonce cipher tag = Some (flatten h m)"
    using assms(2,3) e(4) by (simp add: gcm_laws_def reads_vaults_of_def)
  ultimately show ?thesis
    by (simp add: out vault_load_def e(5) decrypt_blob unflatten_flatten [OF assms(1,5)] fold_qinsert_same [OF assms(4)])
qed

text \<open>Opening succeeds exactly on what sealing under the same password gives: a known key
  derivation, a salt and a nonce of their lengths, and the ciphertext and tag of the text whose
  secrets are the result. On anything else, a truncated, foreign or altered file and a wrong password included, the
  secrets in memory stay as they were.\<close>

theorem vault_opens_only_sealed:
  assumes "gcm_laws c"
  shows "(vault_decrypt h c blob pw m = (True, m') \<longleftrightarrow>
      (\<exists>kdfId salt nonce key plain cipher tag.
         length salt = kSaltLen \<and> length nonce = kNonceLen \<and> deriveKey h c pw salt kdfId = Some key \<and>
         gcm_seal c key nonce plain = Some (cipher, tag) \<and> blob = kMagic @ [kdfId] @ salt @ nonce @ tag @ cipher \<and>
         m' = unflatten h plain)) \<and>
    (fst (vault_decrypt h c blob pw m) \<or> snd (vault_decrypt h c blob pw m) = m)"
proof
  show "fst (vault_decrypt h c blob pw m) \<or> snd (vault_decrypt h c blob pw m) = m"
    by (simp add: vault_decrypt_def Let_def split: option.split)
  show "vault_decrypt h c blob pw m = (True, m') \<longleftrightarrow>
      (\<exists>kdfId salt nonce key plain cipher tag.
         length salt = kSaltLen \<and> length nonce = kNonceLen \<and> deriveKey h c pw salt kdfId = Some key \<and>
         gcm_seal c key nonce plain = Some (cipher, tag) \<and> blob = kMagic @ [kdfId] @ salt @ nonce @ tag @ cipher \<and>
         m' = unflatten h plain)" (is "?L \<longleftrightarrow> ?R")
  proof
    assume L: ?L
    then have "length blob \<ge> 53" "take 8 blob = kMagic"
      by (auto simp: vault_decrypt_def Let_def vault_lens split: if_splits)
    then obtain kdfId salt nonce tag cipher where b: "blob = vault_blob kdfId salt nonce tag cipher" "parts_ok salt nonce tag"
      by (rule blob_cases)
    with L obtain key plain where "deriveKey h c pw salt kdfId = Some key" "gcm_open c key nonce cipher tag = Some plain"
      "m' = unflatten h plain" by (auto simp: decrypt_blob split: option.splits)
    with assms b show ?R unfolding gcm_laws_def vault_blob_def parts_ok_def by blast
  next
    assume ?R
    then obtain kdfId salt nonce key plain cipher tag where r: "length salt = kSaltLen" "length nonce = kNonceLen"
      "deriveKey h c pw salt kdfId = Some key" "gcm_seal c key nonce plain = Some (cipher, tag)"
      "blob = vault_blob kdfId salt nonce tag cipher" "m' = unflatten h plain"
      unfolding vault_blob_def by blast
    with assms have "parts_ok salt nonce tag" "gcm_open c key nonce cipher tag = Some plain"
      by (auto simp: parts_ok_def gcm_laws_def)
    with r show ?L by (simp add: decrypt_blob)
  qed
qed

lemma qinsert_last: "\<forall>x \<in> fst ` set m. x < k \<Longrightarrow> qinsert k v m = m @ [(k, v)]"
  by (induction k v m rule: qinsert.induct) (force simp: qinsert.simps)+

text \<open>A line break in a secret ends it: the text after it is read as an entry of its own, which
  plants that entry or replaces an existing one. Here the secret is the last of the vault.\<close>

theorem vault_secret_injection:
  assumes "utf8_laws h" and "qmap_ok m" and "\<forall>e \<in> set m. secret_ok e \<and> fst e < k"
    and "secret_ok (k, v)" and "secret_ok (k', v')"
  shows "unflatten h (flatten h (qinsert k (v @ newline @ k' @ [tab] @ v') m)) = qinsert k' v' (qinsert k v m)"
proof -
  have "flatten h (qinsert k (v @ newline @ k' @ [tab] @ v') m) = flatten h (m @ [(k, v), (k', v')])"
    using assms(3) by (simp add: qinsert_last flatten_utf8 [OF assms(1)] newline_def)
  moreover have "unflatten h (flatten h (m @ [(k, v), (k', v')])) = qinsert k' v' (qinsert k v m)"
    using assms(3-5) by (subst unflatten_flatten [OF assms(1)]) (auto simp: fold_qinsert_same [OF assms(2)])
  ultimately show ?thesis by simp
qed

section \<open>Witnesses\<close>

text \<open>A cipher that shows the laws consistent: it appends the key and gives the nonce, filled up, as the tag.\<close>

definition demo_crypto :: crypto where
  "demo_crypto =
     \<lparr>has_argon2 = False,
      argon2id = (\<lambda>t l th m pw salt n. None),
      scrypt = (\<lambda>n r p pw salt len. if pw = [] then None else Some (pw @ salt)),
      gcm_seal = (\<lambda>key nonce p. Some (p @ key, take kTagLen (nonce @ replicate kTagLen 0))),
      gcm_open = (\<lambda>key nonce c t.
        if t = take kTagLen (nonce @ replicate kTagLen 0) \<and> ends_with key c then Some (take (length c - length key) c) else None)\<rparr>"

lemma demo_crypto_laws: "gcm_laws demo_crypto"
proof -
  have "length key \<le> length c \<Longrightarrow> drop (length c - length key) c = key \<Longrightarrow> take (length c - length key) c @ key = c"
    for key c :: bytes by (metis append_take_drop_id)
  then show ?thesis by (auto simp: gcm_laws_def demo_crypto_def ends_with_def vault_lens)
qed

definition demo_secrets :: secrets where
  "demo_secrets = [(''db'', ''p@ss''), (''web'', ''x y'')]"

definition demo_nonce :: bytes where
  "demo_nonce = map of_nat [1 ..< 13]"

definition demo_salt :: bytes where
  "demo_salt = map of_nat [1 ..< 17]"

definition demo_blob :: bytes where
  "demo_blob = vault_encrypt ini_host demo_crypto (Some demo_salt) (Some demo_nonce) ''pw'' demo_secrets"

lemma ini_host_utf8: "utf8_laws ini_host"
  by (simp add: utf8_laws_def ini_host_def comp_def)

theorem vault_roundtrip_witness:
  "vault_load ini_host (demo_crypto\<lparr>has_argon2 := True\<rparr>) (Some demo_blob) ''pw'' [] = (True, demo_secrets)"
proof (rule vault_roundtrip [where c = demo_crypto and rsalt = "Some demo_salt" and rnonce = "Some demo_nonce"
      and opens = True and stores = length and before = None])
  show "utf8_laws ini_host" by (rule ini_host_utf8)
  show "gcm_laws demo_crypto" by (rule demo_crypto_laws)
  show "reads_vaults_of (demo_crypto\<lparr>has_argon2 := True\<rparr>) demo_crypto"
    by (simp add: reads_vaults_of_def demo_crypto_def)
  show "vault_save ini_host demo_crypto (Some demo_salt) (Some demo_nonce) True length ''pw'' demo_secrets None =
    (True, Some demo_blob)"
    by (simp add: vault_save_def write_file_def demo_blob_def [symmetric] Let_def, code_simp)
qed (simp_all add: demo_salt_def demo_nonce_def vault_lens, code_simp+)

theorem vault_opens_only_sealed_witness:
  "vault_decrypt ini_host demo_crypto (kMagic @ [KdfScrypt] @ demo_salt @ demo_nonce @ demo_nonce @ replicate 4 0 @ [65, 9, 66] @ [112] @ demo_salt) ''p'' [] =
     (True, [(''A'', ''B'')])"
proof -
  have d: "deriveKey ini_host demo_crypto ''p'' demo_salt KdfScrypt = Some ([112] @ demo_salt)" by code_simp
  have e: "gcm_seal demo_crypto ([112] @ demo_salt) demo_nonce [65, 9, 66] =
      Some ([65, 9, 66] @ [112] @ demo_salt, demo_nonce @ replicate 4 0)" by code_simp
  have f: "[(''A'', ''B'')] = unflatten ini_host [65, 9, 66]" by code_simp
  have g: "length demo_salt = kSaltLen" "length demo_nonce = kNonceLen" by code_simp+
  show ?thesis
    by (rule vault_opens_only_sealed [OF demo_crypto_laws, THEN conjunct1, THEN iffD2])
      (rule exI conjI d e f g refl | simp only: append_assoc)+
qed

theorem vault_secret_injection_witness:
  "unflatten ini_host (flatten ini_host (qinsert ''web'' (''x'' @ newline @ ''db'' @ [tab] @ ''evil'') [(''db'', ''good'')])) =
     qinsert ''db'' ''evil'' (qinsert ''web'' ''x'' [(''db'', ''good'')])"
proof (rule vault_secret_injection)
  show "utf8_laws ini_host" by (rule ini_host_utf8)
qed code_simp+

end
