(* ===== verification/Xdmcp.thy ===== *)
theory Xdmcp
  imports Qt_Core
begin

text \<open>
  The X display manager protocol: its packets (\<open>src/src/connect/XdmcpProtocol.{h,cpp}\<close>) and the
  driver of the handshake (\<open>XdmcpConnection.{h,cpp}\<close>). The socket is the list of datagrams that
  wait in it; signals and sent datagrams form the log.
\<close>

section \<open>Packets\<close>

definition Query :: u16 where "Query = 2"
definition Willing :: u16 where "Willing = 5"
definition Request :: u16 where "Request = 7"
definition Accept :: u16 where "Accept = 8"
definition Decline :: u16 where "Decline = 9"
definition Refuse :: u16 where "Refuse = 11"
definition Failed :: u16 where "Failed = 12"

definition kVersion :: u16 where
  "kVersion = 1"

lemmas opcodes = Query_def Willing_def Request_def Accept_def Decline_def Refuse_def Failed_def kVersion_def

definition getU16 :: "bytes \<Rightarrow> nat \<Rightarrow> u16" where
  "getU16 b off = join16 (b ! off) (b ! (off + 1))"

definition putArray8 :: "bytes \<Rightarrow> bytes" where
  "putArray8 a = of_nat (length a) # a"

record Header =
  h_version :: u16
  h_opcode :: u16
  h_length :: u16
  h_valid :: bool

definition parseHeader :: "bytes \<Rightarrow> Header" where
  "parseHeader buf =
     (if length buf < 6 then \<lparr>h_version = 0, h_opcode = 0, h_length = 0, h_valid = False\<rparr>
      else \<lparr>h_version = getU16 buf 0, h_opcode = getU16 buf 2, h_length = getU16 buf 4, h_valid = True\<rparr>)"

definition xdmcp_packet :: "u16 \<Rightarrow> bytes \<Rightarrow> bytes" where
  "xdmcp_packet opcode body = be16 kVersion @ be16 opcode @ be16 (of_nat (length body)) @ body"

definition putArrays :: "bytes list \<Rightarrow> bytes" where
  "putArrays as = of_nat (length as) # concat (map putArray8 as)"

definition encodeQuery :: "bytes list \<Rightarrow> bytes" where
  "encodeQuery authNames = xdmcp_packet Query (putArrays authNames)"

text \<open>\<open>readArray8\<close>: the field at a position and the position behind it.\<close>

definition readArray8 :: "bytes \<Rightarrow> nat \<Rightarrow> (bytes \<times> nat) option" where
  "readArray8 buf off =
     (if off + 1 > length buf then None
      else let len = unat (buf ! off); off = off + 1
           in if off + len > length buf then None else Some (take len (drop off buf), off + len))"

text \<open>The fields of the answers: a field that could not be read stays empty, and the ones after it.\<close>

fun readArrays :: "nat \<Rightarrow> bytes \<Rightarrow> nat \<Rightarrow> bytes list \<times> bool" where
  "readArrays 0 buf off = ([], True)"
| "readArrays (Suc n) buf off =
     (case readArray8 buf off of
        None \<Rightarrow> (replicate (Suc n) [], False)
      | Some (a, off') \<Rightarrow> (let (as, b) = readArrays n buf off' in (a # as, b)))"

record WillingInfo =
  w_authenticationName :: bytes
  w_hostname :: bytes
  w_status :: bytes
  w_valid :: bool

definition parseWilling :: "bytes \<Rightarrow> WillingInfo" where
  "parseWilling buf =
     (let h = parseHeader buf
      in if \<not> h_valid h \<or> h_opcode h \<noteq> Willing
         then \<lparr>w_authenticationName = [], w_hostname = [], w_status = [], w_valid = False\<rparr>
         else let (as, b) = readArrays 3 buf 6
              in \<lparr>w_authenticationName = as ! 0, w_hostname = as ! 1, w_status = as ! 2, w_valid = b\<rparr>)"

record RequestParams =
  displayNumber :: u16
  connectionTypes :: "u16 list"
  connectionAddresses :: "bytes list"
  authenticationName :: bytes
  authenticationData :: bytes
  authorizationNames :: "bytes list"
  manufacturerDisplayID :: bytes

definition request_body :: "RequestParams \<Rightarrow> bytes" where
  "request_body p =
     be16 (displayNumber p) @
     of_nat (length (connectionTypes p)) # concat (map be16 (connectionTypes p)) @
     putArrays (connectionAddresses p) @
     putArray8 (authenticationName p) @ putArray8 (authenticationData p) @
     putArrays (authorizationNames p) @ putArray8 (manufacturerDisplayID p)"

definition encodeRequest :: "RequestParams \<Rightarrow> bytes" where
  "encodeRequest p = xdmcp_packet Request (request_body p)"

record AcceptInfo =
  a_sessionId :: u32
  a_authenticationName :: bytes
  a_authenticationData :: bytes
  a_authorizationName :: bytes
  a_authorizationData :: bytes
  a_valid :: bool

definition no_accept :: AcceptInfo where
  "no_accept = \<lparr>a_sessionId = 0, a_authenticationName = [], a_authenticationData = [], a_authorizationName = [],
     a_authorizationData = [], a_valid = False\<rparr>"

definition parseAccept :: "bytes \<Rightarrow> AcceptInfo" where
  "parseAccept buf =
     (let h = parseHeader buf
      in if \<not> h_valid h \<or> h_opcode h \<noteq> Accept then no_accept
         else if 6 + 4 > length buf then no_accept
         else let (as, b) = readArrays 4 buf 10
              in \<lparr>a_sessionId = join32 (buf ! 6) (buf ! 7) (buf ! 8) (buf ! 9),
                  a_authenticationName = as ! 0, a_authenticationData = as ! 1,
                  a_authorizationName = as ! 2, a_authorizationData = as ! 3, a_valid = b\<rparr>)"

definition isRejection :: "u16 \<Rightarrow> bool" where
  "isRejection opcode \<longleftrightarrow> opcode = Decline \<or> opcode = Refuse \<or> opcode = Failed"

section \<open>The driver\<close>

datatype xdmcp_phase = XIdle | XQuery | XRequest | XDone

datatype xdmcp_event =
    XSent bytes string u16
  | XWilling bytes bytes
  | XAccepted u32
  | XRejected u16
  | XFailed string

text \<open>The peer is an address, kept as a text.\<close>

record xdmcp =
  x_sock :: bool
  x_peer :: string
  x_peerPort :: u16
  x_phase :: xdmcp_phase
  x_log :: "xdmcp_event list"

definition xlog :: "xdmcp_event \<Rightarrow> xdmcp \<Rightarrow> xdmcp" where
  "xlog e s = s\<lparr>x_log := x_log s @ [e]\<rparr>"

definition ipv4Bytes :: "u32 \<Rightarrow> bytes" where
  "ipv4Bytes v4 = be32 (if v4 \<noteq> 0 then v4 else 0x7F000001)"

text \<open>\<open>start\<close>: what the host resolves to, if to anything, and whether the socket binds.\<close>

definition xdmcp_start :: "string option \<Rightarrow> bool \<Rightarrow> u16 \<Rightarrow> xdmcp \<Rightarrow> bool \<times> xdmcp" where
  "xdmcp_start resolved binds port s =
     (case resolved of
        None \<Rightarrow> (False, xlog (XFailed ''Cannot resolve host'') s)
      | Some peer \<Rightarrow>
          let s = s\<lparr>x_peer := peer, x_peerPort := port\<rparr>
          in if \<not> binds then (False, (xlog (XFailed ''Cannot bind UDP socket'') s)\<lparr>x_sock := False\<rparr>)
             else (True, xlog (XSent (encodeQuery []) peer port) (s\<lparr>x_sock := True, x_phase := XQuery\<rparr>)))"

definition xdmcp_stop :: "xdmcp \<Rightarrow> xdmcp" where
  "xdmcp_stop s = s\<lparr>x_sock := False, x_phase := XIdle\<rparr>"

definition request_for :: "u32 \<Rightarrow> RequestParams" where
  "request_for local =
     \<lparr>displayNumber = 0, connectionTypes = [0], connectionAddresses = [ipv4Bytes local],
      authenticationName = [], authenticationData = [],
      authorizationNames = [to_latin1 ''MIT-MAGIC-COOKIE-1''], manufacturerDisplayID = []\<rparr>"

text \<open>One datagram: the state after it, and whether the slot returns. The signals are raised within it; what is connected
  to them does not call the connection back (the program connects nothing to them yet, the tests record them only).\<close>

definition xdmcp_datagram :: "u32 \<Rightarrow> bytes \<Rightarrow> xdmcp \<Rightarrow> bool \<times> xdmcp" where
  "xdmcp_datagram local dg s =
     (let h = parseHeader dg
      in if \<not> h_valid h then (False, s)
         else if isRejection (h_opcode h) then (True, xlog (XRejected (h_opcode h)) (s\<lparr>x_phase := XDone\<rparr>))
         else if x_phase s = XQuery \<and> h_opcode h = Willing then
           let w = parseWilling dg
           in if \<not> w_valid w then (False, s)
              else (False, (xlog (XSent (encodeRequest (request_for local)) (x_peer s) (x_peerPort s))
                     (xlog (XWilling (w_hostname w) (w_status w)) s))\<lparr>x_phase := XRequest\<rparr>)
         else if x_phase s = XRequest \<and> h_opcode h = Accept then
           let a = parseAccept dg
           in if \<not> a_valid a then (False, s)
              else (False, xlog (XAccepted (a_sessionId a)) (s\<lparr>x_phase := XDone\<rparr>))
         else (False, s))"

text \<open>\<open>onReadyRead\<close>: the datagrams left waiting and the state.\<close>

fun xdmcp_read :: "u32 \<Rightarrow> bytes list \<Rightarrow> xdmcp \<Rightarrow> bytes list \<times> xdmcp" where
  "xdmcp_read local [] s = ([], s)"
| "xdmcp_read local (dg # dgs) s =
     (if \<not> x_sock s then (dg # dgs, s)
      else let (ret, s) = xdmcp_datagram local dg s in if ret then (dgs, s) else xdmcp_read local dgs s)"

definition new_xdmcp :: xdmcp where
  "new_xdmcp = \<lparr>x_sock = False, x_peer = [], x_peerPort = 177, x_phase = XIdle, x_log = []\<rparr>"

section \<open>Fields and packets\<close>

definition short :: "bytes \<Rightarrow> bool" where
  "short a \<longleftrightarrow> length a < 256"

lemma byte_length: "n < 256 \<Longrightarrow> unat (of_nat n :: byte) = n"
  by (rule unat_of_nat_small) simp

lemma readArray8_put:
  "short a \<Longrightarrow> readArray8 (pre @ putArray8 a @ rest) (length pre) = Some (a, length (pre @ putArray8 a))"
  by (simp add: readArray8_def putArray8_def short_def byte_length nth_append Let_def)

lemma readArrays_put:
  "\<forall>a \<in> set as. short a \<Longrightarrow> readArrays (length as) (pre @ concat (map putArray8 as) @ rest) (length pre) = (as, True)"
proof (induction as arbitrary: pre)
  case (Cons a as)
  then show ?case
    using readArray8_put [of a pre "concat (map putArray8 as) @ rest"] Cons.IH [of "pre @ putArray8 a"] by simp
qed simp

lemma readArrays_cut:
  "\<forall>a \<in> set as. short a \<Longrightarrow> k < length (pre @ concat (map putArray8 as)) \<Longrightarrow> length pre \<le> k \<Longrightarrow>
   \<not> snd (readArrays (length as) (take k (pre @ concat (map putArray8 as))) (length pre))"
proof (induction as arbitrary: pre)
  case (Cons a as)
  let ?b = "pre @ concat (map putArray8 (a # as))"
  show ?case
  proof (cases "length (pre @ putArray8 a) \<le> k")
    case True
    define r where "r = take (k - length (pre @ putArray8 a)) (concat (map putArray8 as))"
    have "take k ?b = (pre @ putArray8 a) @ r" using True by (simp add: r_def)
    moreover have "take k ?b = take k ((pre @ putArray8 a) @ concat (map putArray8 as))" by simp
    moreover have "\<not> snd (readArrays (length as) (take k ((pre @ putArray8 a) @ concat (map putArray8 as))) (length (pre @ putArray8 a)))"
      using Cons.prems True by (intro Cons.IH) simp_all
    ultimately show ?thesis
      using readArray8_put [of a pre r] Cons.prems(1) by (simp add: case_prod_unfold Let_def)
  next
    case False
    have "length pre < k \<Longrightarrow> take k ?b ! length pre = of_nat (length a)"
      by (simp add: nth_append putArray8_def)
    then have "readArray8 (take k ?b) (length pre) = None"
      using False Cons.prems by (auto simp: readArray8_def Let_def putArray8_def short_def byte_length not_le)
    then show ?thesis by simp
  qed
qed simp

lemma header_packet:
  "parseHeader (xdmcp_packet opcode body @ rest) =
     \<lparr>h_version = kVersion, h_opcode = opcode, h_length = of_nat (length body), h_valid = True\<rparr>"
  by (simp add: parseHeader_def xdmcp_packet_def getU16_def be16_def join16_split)

lemma header_prefix:
  "6 \<le> k \<Longrightarrow> parseHeader (take k b) = parseHeader b" "k < 6 \<Longrightarrow> \<not> h_valid (parseHeader (take k b))"
  by (auto simp: parseHeader_def getU16_def)

definition willing_packet :: "bytes \<Rightarrow> bytes \<Rightarrow> bytes \<Rightarrow> bytes" where
  "willing_packet a n st = xdmcp_packet Willing (concat (map putArray8 [a, n, st]))"

definition accept_packet :: "u32 \<Rightarrow> bytes list \<Rightarrow> bytes" where
  "accept_packet sid fs = xdmcp_packet Accept (be32 sid @ concat (map putArray8 fs))"

lemma xdmcp_packet_front: "xdmcp_packet opcode body = (be16 kVersion @ be16 opcode @ be16 (of_nat (length body))) @ body"
  by (simp add: xdmcp_packet_def)

lemma packet_arrays:
  assumes "\<forall>a \<in> set as. short a" and "length as = n" and "6 + length pre = off"
  shows "readArrays n (xdmcp_packet opcode (pre @ concat (map putArray8 as)) @ rest) off = (as, True)"
    and "k < length (xdmcp_packet opcode (pre @ concat (map putArray8 as))) \<Longrightarrow> off \<le> k \<Longrightarrow>
      \<not> snd (readArrays n (take k (xdmcp_packet opcode (pre @ concat (map putArray8 as)))) off)"
proof -
  define H where "H = be16 kVersion @ be16 opcode @ be16 (of_nat (length (pre @ concat (map putArray8 as))))"
  have p: "xdmcp_packet opcode (pre @ concat (map putArray8 as)) = (H @ pre) @ concat (map putArray8 as)"
    by (simp add: H_def xdmcp_packet_def)
  have l: "length (H @ pre) = off" using assms(3) by (simp add: H_def)
  show "readArrays n (xdmcp_packet opcode (pre @ concat (map putArray8 as)) @ rest) off = (as, True)"
    using readArrays_put [OF assms(1), of "H @ pre" rest] l assms(2) by (simp add: p)
  show "\<not> snd (readArrays n (take k (xdmcp_packet opcode (pre @ concat (map putArray8 as)))) off)"
    if "k < length (xdmcp_packet opcode (pre @ concat (map putArray8 as)))" "off \<le> k"
    using readArrays_cut [OF assms(1), of k "H @ pre"] l assms(2) that unfolding p by simp
qed

lemma parseWilling_packet:
  assumes "short a" and "short n" and "short st"
  shows "parseWilling (willing_packet a n st @ rest) =
    \<lparr>w_authenticationName = a, w_hostname = n, w_status = st, w_valid = True\<rparr>"
proof -
  define as where "as = [a, n, st]"
  have "readArrays 3 (xdmcp_packet Willing ([] @ concat (map putArray8 as)) @ rest) 6 = (as, True)"
    using assms by (intro packet_arrays(1)) (simp_all add: as_def)
  then show ?thesis
    by (simp add: parseWilling_def willing_packet_def header_packet Let_def flip: as_def) (simp add: as_def)
qed

lemma parseWilling_cut:
  assumes "short a" and "short n" and "short st" and "k < length (willing_packet a n st)"
  shows "\<not> w_valid (parseWilling (take k (willing_packet a n st)))"
proof (cases "k < 6")
  case False
  define as where "as = [a, n, st]"
  have "\<not> snd (readArrays 3 (take k (xdmcp_packet Willing ([] @ concat (map putArray8 as)))) 6)"
    using assms False by (intro packet_arrays(2)) (simp_all add: as_def willing_packet_def)
  then show ?thesis
    by (simp add: parseWilling_def willing_packet_def Let_def case_prod_unfold flip: as_def)
qed (simp add: parseWilling_def header_prefix Let_def)

lemma parseAccept_packet:
  assumes "length fs = 4" and "\<forall>f \<in> set fs. short f"
  shows "parseAccept (accept_packet sid fs @ rest) =
    \<lparr>a_sessionId = sid, a_authenticationName = fs ! 0, a_authenticationData = fs ! 1,
     a_authorizationName = fs ! 2, a_authorizationData = fs ! 3, a_valid = True\<rparr>"
proof -
  have "readArrays 4 (accept_packet sid fs @ rest) 10 = (fs, True)"
    unfolding accept_packet_def using assms by (intro packet_arrays(1)) simp_all
  moreover have "join32 ((accept_packet sid fs @ rest) ! 6) ((accept_packet sid fs @ rest) ! 7)
      ((accept_packet sid fs @ rest) ! 8) ((accept_packet sid fs @ rest) ! 9) = sid"
    by (simp add: accept_packet_def xdmcp_packet_def be16_def be32_def join32_split)
  moreover have "10 \<le> length (accept_packet sid fs @ rest)"
    by (simp add: accept_packet_def xdmcp_packet_def)
  moreover have "parseHeader (accept_packet sid fs @ rest) =
     \<lparr>h_version = kVersion, h_opcode = Accept, h_length = of_nat (length (be32 sid @ concat (map putArray8 fs))), h_valid = True\<rparr>"
    unfolding accept_packet_def by (rule header_packet)
  ultimately show ?thesis by (simp add: parseAccept_def Let_def)
qed

lemma parseAccept_cut:
  assumes "length fs = 4" and "\<forall>f \<in> set fs. short f" and "k < length (accept_packet sid fs)"
  shows "\<not> a_valid (parseAccept (take k (accept_packet sid fs)))"
proof (cases "k < 10")
  case False
  then have "\<not> snd (readArrays 4 (take k (accept_packet sid fs)) 10)"
    unfolding accept_packet_def using assms by (intro packet_arrays(2)) (simp_all add: accept_packet_def)
  then show ?thesis by (simp add: parseAccept_def Let_def case_prod_unfold no_accept_def)
next
  case True
  then have "length (take k (accept_packet sid fs)) < 10" by simp
  then show ?thesis by (simp add: parseAccept_def no_accept_def Let_def del: length_take)
qed

text \<open>An answer of the display manager, Willing or Accept, is read back field by field, whatever
  follows it in the datagram, and no answer that was cut short is taken for valid.\<close>

theorem xdmcp_answers:
  assumes "length fs = 4" and "\<forall>f \<in> set fs. short f" and "short a" and "short n" and "short st"
  shows "parseWilling (willing_packet a n st @ rest) = \<lparr>w_authenticationName = a, w_hostname = n, w_status = st, w_valid = True\<rparr> \<and>
    parseAccept (accept_packet sid fs @ rest) =
      \<lparr>a_sessionId = sid, a_authenticationName = fs ! 0, a_authenticationData = fs ! 1,
       a_authorizationName = fs ! 2, a_authorizationData = fs ! 3, a_valid = True\<rparr> \<and>
    (\<forall>k < length (willing_packet a n st). \<not> w_valid (parseWilling (take k (willing_packet a n st)))) \<and>
    (\<forall>k < length (accept_packet sid fs). \<not> a_valid (parseAccept (take k (accept_packet sid fs))))"
  using assms parseWilling_packet parseAccept_packet parseWilling_cut parseAccept_cut by blast

section \<open>The handshake\<close>

text \<open>What can happen to a driver: the runs from a new one.\<close>

inductive xdmcp_reach :: "xdmcp \<Rightarrow> bool" where
  created: "xdmcp_reach new_xdmcp"
| started: "xdmcp_reach s \<Longrightarrow> xdmcp_reach (snd (xdmcp_start resolved binds port s))"
| stopped: "xdmcp_reach s \<Longrightarrow> xdmcp_reach (xdmcp_stop s)"
| received: "xdmcp_reach s \<Longrightarrow> xdmcp_reach (snd (xdmcp_read local dgs s))"

fun notable :: "xdmcp_event \<Rightarrow> bool" where
  "notable (XFailed _) = False"
| "notable _ = True"

definition events :: "xdmcp \<Rightarrow> xdmcp_event list" where
  "events s = filter notable (x_log s)"

text \<open>The events of one handshake, up to each phase: the query; the first valid Willing and the request that
  answers it; at the end the acceptance or a rejection. Rejections go on being reported after the end.\<close>

definition queried :: "string \<Rightarrow> u16 \<Rightarrow> xdmcp_event list \<Rightarrow> bool" where
  "queried peer port l \<longleftrightarrow> l = [XSent (encodeQuery []) peer port]"

definition requested :: "string \<Rightarrow> u16 \<Rightarrow> xdmcp_event list \<Rightarrow> bool" where
  "requested peer port l \<longleftrightarrow>
     (\<exists>q n st local. queried peer port q \<and> l = q @ [XWilling n st, XSent (encodeRequest (request_for local)) peer port])"

definition ended_with :: "string \<Rightarrow> u16 \<Rightarrow> xdmcp_event list \<Rightarrow> bool" where
  "ended_with peer port l \<longleftrightarrow>
     (\<exists>l0 rs. l = l0 @ map XRejected rs \<and>
        ((queried peer port l0 \<or> requested peer port l0) \<and> rs \<noteq> [] \<or>
         (\<exists>r sid. requested peer port r \<and> l0 = r @ [XAccepted sid])))"

fun handshake_log :: "xdmcp_phase \<Rightarrow> string \<Rightarrow> u16 \<Rightarrow> xdmcp_event list \<Rightarrow> bool" where
  "handshake_log XIdle peer port l \<longleftrightarrow> False"
| "handshake_log XQuery peer port l \<longleftrightarrow> queried peer port l"
| "handshake_log XRequest peer port l \<longleftrightarrow> requested peer port l"
| "handshake_log XDone peer port l \<longleftrightarrow> ended_with peer port l"

lemma rejection_ends: "handshake_log ph peer port l \<Longrightarrow> ended_with peer port (l @ [XRejected r])"
proof (cases ph)
  case XDone
  assume "handshake_log ph peer port l"
  with XDone have "ended_with peer port l" by simp
  then obtain l0 rs where l: "l = l0 @ map XRejected rs" and
    c: "(queried peer port l0 \<or> requested peer port l0) \<and> rs \<noteq> [] \<or> (\<exists>r sid. requested peer port r \<and> l0 = r @ [XAccepted sid])"
    unfolding ended_with_def by (elim exE conjE)
  have "l @ [XRejected r] = l0 @ map XRejected (rs @ [r])" using l by simp
  with c show ?thesis unfolding ended_with_def by blast
next
  case XQuery
  assume "handshake_log ph peer port l"
  with XQuery show ?thesis unfolding ended_with_def by (intro exI [where x = l] exI [where x = "[r]"]) simp
next
  case XRequest
  assume "handshake_log ph peer port l"
  with XRequest show ?thesis unfolding ended_with_def by (intro exI [where x = l] exI [where x = "[r]"]) simp
qed simp

definition in_handshake :: "xdmcp \<Rightarrow> bool" where
  "in_handshake s \<longleftrightarrow>
     (x_sock s \<longrightarrow> (\<exists>earlier cur. events s = earlier @ cur \<and> handshake_log (x_phase s) (x_peer s) (x_peerPort s) cur))"

lemma events_xlog [simp]: "events (xlog e s) = events s @ (if notable e then [e] else [])"
  by (simp add: events_def xlog_def)

lemma events_upd [simp]: "events (s\<lparr>x_phase := ph\<rparr>) = events s" "events (s\<lparr>x_sock := b\<rparr>) = events s"
  "events (s\<lparr>x_peer := pe\<rparr>) = events s" "events (s\<lparr>x_peerPort := po\<rparr>) = events s"
  by (simp_all add: events_def)

lemma xlog_fields [simp]: "x_sock (xlog e s) = x_sock s" "x_phase (xlog e s) = x_phase s"
  "x_peer (xlog e s) = x_peer s" "x_peerPort (xlog e s) = x_peerPort s"
  by (simp_all add: xlog_def)

lemma datagram_in_handshake:
  assumes "in_handshake s" and "x_sock s"
  shows "in_handshake (snd (xdmcp_datagram local dg s)) \<and> x_sock (snd (xdmcp_datagram local dg s))"
proof -
  obtain earlier cur where e: "events s = earlier @ cur" and c: "handshake_log (x_phase s) (x_peer s) (x_peerPort s) cur"
    using assms by (auto simp: in_handshake_def)
  have rej: "ended_with (x_peer s) (x_peerPort s) (cur @ [XRejected r])" for r using rejection_ends [OF c] .
  have acc: "ended_with (x_peer s) (x_peerPort s) (cur @ [XAccepted sid])" if "x_phase s = XRequest" for sid
    using c that unfolding ended_with_def by (intro exI [where x = "cur @ [XAccepted sid]"] exI [where x = "[]"]) auto
  let ?t = "snd (xdmcp_datagram local dg s)"
  have "?t = s \<or> (\<exists>r. ?t = xlog (XRejected r) (s\<lparr>x_phase := XDone\<rparr>)) \<or>
    (\<exists>n st. x_phase s = XQuery \<and>
       ?t = (xlog (XSent (encodeRequest (request_for local)) (x_peer s) (x_peerPort s)) (xlog (XWilling n st) s))\<lparr>x_phase := XRequest\<rparr>) \<or>
    (\<exists>sid. x_phase s = XRequest \<and> ?t = xlog (XAccepted sid) (s\<lparr>x_phase := XDone\<rparr>))"
    by (auto simp: xdmcp_datagram_def Let_def)
  then consider (same) "?t = s"
    | (rej) r where "?t = xlog (XRejected r) (s\<lparr>x_phase := XDone\<rparr>)"
    | (req) n st where "x_phase s = XQuery"
        "?t = (xlog (XSent (encodeRequest (request_for local)) (x_peer s) (x_peerPort s)) (xlog (XWilling n st) s))\<lparr>x_phase := XRequest\<rparr>"
    | (acc) sid where "x_phase s = XRequest" "?t = xlog (XAccepted sid) (s\<lparr>x_phase := XDone\<rparr>)"
    by blast
  then show ?thesis
  proof cases
    case same
    with assms show ?thesis by simp
  next
    case rej
    have "events ?t = earlier @ (cur @ [XRejected r])" using e rej by simp
    moreover have "handshake_log (x_phase ?t) (x_peer ?t) (x_peerPort ?t) (cur @ [XRejected r])"
      using \<open>\<And>r. ended_with (x_peer s) (x_peerPort s) (cur @ [XRejected r])\<close> rej by simp
    ultimately show ?thesis using assms(2) rej unfolding in_handshake_def by auto
  next
    case req
    let ?new = "[XWilling n st, XSent (encodeRequest (request_for local)) (x_peer s) (x_peerPort s)]"
    have "events ?t = earlier @ (cur @ ?new)" using e req(2) by simp
    moreover have "handshake_log (x_phase ?t) (x_peer ?t) (x_peerPort ?t) (cur @ ?new)"
      using c req by (auto simp: requested_def)
    ultimately show ?thesis using assms(2) req unfolding in_handshake_def by auto
  next
    case acc
    have "events ?t = earlier @ (cur @ [XAccepted sid])" using e acc(2) by simp
    moreover have "handshake_log (x_phase ?t) (x_peer ?t) (x_peerPort ?t) (cur @ [XAccepted sid])"
      using \<open>\<And>sid. x_phase s = XRequest \<Longrightarrow> ended_with (x_peer s) (x_peerPort s) (cur @ [XAccepted sid])\<close> acc by simp
    ultimately show ?thesis using assms(2) acc unfolding in_handshake_def by auto
  qed
qed

lemma read_in_handshake: "in_handshake s \<Longrightarrow> in_handshake (snd (xdmcp_read local dgs s))"
proof (induction dgs arbitrary: s)
  case (Cons dg dgs)
  then show ?case
    using datagram_in_handshake [of s local dg] by (auto simp: case_prod_unfold Let_def)
qed simp

text \<open>C25: However a driver is started, stopped and fed, what it did since its last start is a handshake in order:
  one query, the first valid Willing and one request to the same peer, then at most one acceptance,
  and rejections only at the end.\<close>

theorem xdmcp_handshake_order:
  assumes "xdmcp_reach s" and "x_sock s"
  shows "\<exists>earlier cur. events s = earlier @ cur \<and> handshake_log (x_phase s) (x_peer s) (x_peerPort s) cur"
proof -
  have "in_handshake s"
    using assms(1)
  proof (induction rule: xdmcp_reach.induct)
    case created
    show ?case by (simp add: in_handshake_def new_xdmcp_def)
  next
    case (started s resolved binds port)
    have "events (s\<lparr>x_peer := peer, x_peerPort := port, x_sock := True, x_phase := XQuery\<rparr>) = events s" for peer
      by (simp add: events_def)
    with started.IH show ?case
      by (auto simp: xdmcp_start_def in_handshake_def Let_def queried_def split: option.split)
  next
    case (stopped s)
    show ?case by (simp add: xdmcp_stop_def in_handshake_def)
  next
    case (received s local dgs)
    from received.IH show ?case by (rule read_in_handshake)
  qed
  with assms(2) show ?thesis by (simp add: in_handshake_def)
qed

section \<open>The request\<close>

definition request_ok :: "RequestParams \<Rightarrow> bool" where
  "request_ok p \<longleftrightarrow> length (connectionTypes p) < 256 \<and> length (connectionAddresses p) < 256 \<and> length (authorizationNames p) < 256 \<and>
     (\<forall>a \<in> set (connectionAddresses p) \<union> set (authorizationNames p) \<union>
        {authenticationName p, authenticationData p, manufacturerDisplayID p}. short a)"

lemma byte_of_length_eq: "m < 256 \<Longrightarrow> n < 256 \<Longrightarrow> (of_nat m :: byte) = of_nat n \<longleftrightarrow> m = n"
  by (metis byte_length)

lemma putArray8_inject: "short a \<Longrightarrow> short b \<Longrightarrow> putArray8 a @ x = putArray8 b @ y \<longleftrightarrow> a = b \<and> x = y"
  by (auto simp: putArray8_def short_def byte_of_length_eq)

lemma putArray8_inject1: "short a \<Longrightarrow> short b \<Longrightarrow> putArray8 a = putArray8 b \<longleftrightarrow> a = b"
  using putArray8_inject [of a b "[]" "[]"] by simp

lemma arrays_inject:
  "length as = length bs \<Longrightarrow> \<forall>a \<in> set as \<union> set bs. short a \<Longrightarrow>
   concat (map putArray8 as) @ x = concat (map putArray8 bs) @ y \<longleftrightarrow> as = bs \<and> x = y"
  by (induction as bs arbitrary: x y rule: list_induct2) (auto simp: putArray8_inject)

lemma putArrays_inject:
  assumes "length as < 256" and "length bs < 256" and "\<forall>a \<in> set as \<union> set bs. short a"
  shows "putArrays as @ x = putArrays bs @ y \<longleftrightarrow> as = bs \<and> x = y"
  using assms arrays_inject [of as bs x y] by (auto simp: putArrays_def byte_of_length_eq)

lemma be16_inject: "be16 v @ x = be16 w @ y \<longleftrightarrow> v = w \<and> x = y"
  by (metis append_Cons append_eq_append_conv be16_def join16_split length_be(1) list.inject)

lemma be16s_inject:
  "length vs = length ws \<Longrightarrow> concat (map be16 vs) @ x = concat (map be16 ws) @ y \<longleftrightarrow> vs = ws \<and> x = y"
  by (induction vs ws arbitrary: x y rule: list_induct2) (auto simp: be16_inject)

text \<open>A request determines its fields: two requests whose fields fit their one-byte counts have the
  same packet only if they are the same.\<close>

theorem xdmcp_request_unambiguous:
  assumes "request_ok p" and "request_ok q" and "encodeRequest p = encodeRequest q"
  shows "p = q"
proof -
  have "xdmcp_packet Request (request_body p) @ [] = xdmcp_packet Request (request_body q) @ []"
    using assms(3) by (simp add: encodeRequest_def)
  then have "request_body p @ [] = request_body q @ []"
    unfolding xdmcp_packet_def append_assoc by (simp add: be16_inject)
  then have 1: "displayNumber p = displayNumber q" "length (connectionTypes p) = length (connectionTypes q)"
    and e: "concat (map be16 (connectionTypes p)) @ putArrays (connectionAddresses p) @ putArray8 (authenticationName p) @
        putArray8 (authenticationData p) @ putArrays (authorizationNames p) @ putArray8 (manufacturerDisplayID p) =
      concat (map be16 (connectionTypes q)) @ putArrays (connectionAddresses q) @ putArray8 (authenticationName q) @
        putArray8 (authenticationData q) @ putArrays (authorizationNames q) @ putArray8 (manufacturerDisplayID q)"
    using assms(1,2) by (auto simp: request_body_def request_ok_def be16_inject byte_of_length_eq)
  have "\<forall>a \<in> set (connectionAddresses p) \<union> set (connectionAddresses q). short a"
    "\<forall>a \<in> set (authorizationNames p) \<union> set (authorizationNames q). short a"
    using assms(1,2) by (auto simp: request_ok_def)
  with assms(1,2) 1 e have "connectionTypes p = connectionTypes q \<and> connectionAddresses p = connectionAddresses q \<and>
      authenticationName p = authenticationName q \<and> authenticationData p = authenticationData q \<and>
      authorizationNames p = authorizationNames q \<and> manufacturerDisplayID p = manufacturerDisplayID q"
    by (simp only: be16s_inject [OF 1(2)]) (simp add: request_ok_def putArrays_inject putArray8_inject putArray8_inject1)
  with 1 show ?thesis by simp
qed

section \<open>Witnesses\<close>

theorem xdmcp_answers_witness:
  "w_hostname (parseWilling (willing_packet [] (to_latin1 ''hal'') (to_latin1 ''Willing to manage'') @ [0, 0])) = to_latin1 ''hal''"
proof -
  have "length [[], [], [], [1 :: byte]] = 4" "\<forall>f \<in> set [[], [], [], [1 :: byte]]. short f" "short ([] :: bytes)"
    "short (to_latin1 ''hal'')" "short (to_latin1 ''Willing to manage'')" by (simp_all add: short_def)
  from xdmcp_answers [OF this, of "[0, 0]" 7] show ?thesis by simp
qed

definition demo_xdmcp :: xdmcp where
  "demo_xdmcp = snd (xdmcp_read 0
     [[1], willing_packet [] (to_latin1 ''hal'') [], xdmcp_packet Willing [], accept_packet 7 [[], [], [], [1]], xdmcp_packet Refuse []]
     (snd (xdmcp_start (Some ''10.0.0.5'') True 177 new_xdmcp)))"

lemma demo_xdmcp_events:
  "events demo_xdmcp =
     [XSent (encodeQuery []) ''10.0.0.5'' 177, XWilling (to_latin1 ''hal'') [],
      XSent (encodeRequest (request_for 0)) ''10.0.0.5'' 177, XAccepted 7, XRejected Refuse]"
  by code_simp

theorem xdmcp_handshake_order_witness:
  "\<exists>earlier cur. events demo_xdmcp = earlier @ cur \<and> ended_with ''10.0.0.5'' 177 cur"
proof -
  have "xdmcp_reach demo_xdmcp" unfolding demo_xdmcp_def by (intro xdmcp_reach.intros)
  moreover have "x_sock demo_xdmcp" "x_phase demo_xdmcp = XDone" "x_peer demo_xdmcp = ''10.0.0.5''" "x_peerPort demo_xdmcp = 177"
    by code_simp+
  ultimately show ?thesis using xdmcp_handshake_order [of demo_xdmcp] by simp
qed

theorem xdmcp_request_unambiguous_witness:
  "request_for 0 = request_for 0x7F000001"
proof (rule xdmcp_request_unambiguous)
  show "request_ok (request_for 0)" "request_ok (request_for 0x7F000001)"
    "encodeRequest (request_for 0) = encodeRequest (request_for 0x7F000001)" by code_simp+
qed

end
