(* ===== verification/Store.thy ===== *)
theory Store
  imports Ini_Store
begin

text \<open>
  The database of sessions and known hosts, \<open>src/src/core/Store.{h,cpp}\<close>. A table is the list of
  its rows in the order of their row ids, which is the order in which SQLite scans them; NULL is
  \<open>None\<close>. Of SQLite the model takes: a new integer key is one above the largest, deleting a
  folder deletes what refers to it, a statement that the tables allow succeeds, and a commit may fail. Names are not
  null strings.
\<close>

section \<open>Tables\<close>

type_synonym folder_row = "nat \<times> nat option \<times> string"

record session_row =
  sr_id :: nat
  sr_folder :: nat
  sr_name :: string
  sr_type :: string
  sr_host :: "string option"
  sr_port :: "int option"
  sr_username :: "string option"
  sr_vault_ref :: "string option"

type_synonym param_row = "nat \<times> string \<times> string"

record database =
  db_version :: "nat list"
  db_folders :: "folder_row list"
  db_sessions :: "session_row list"
  db_params :: "param_row list"
  db_hosts :: "((string \<times> int \<times> string) \<times> string) list"

definition empty_db :: database where
  "empty_db = \<lparr>db_version = [], db_folders = [], db_sessions = [], db_params = [], db_hosts = []\<rparr>"

definition next_id :: "nat list \<Rightarrow> nat" where
  "next_id ids = (if ids = [] then 1 else Suc (Max (set ids)))"

section \<open>Opening\<close>

text \<open>\<open>st_db\<close> is what the connection sees, and \<open>st_file\<close> what the file holds, which is what the next connection
  sees. They differ while a transaction is open whose commit has failed.\<close>

record store =
  m_open :: bool
  st_db :: database
  st_file :: database
  st_pending :: bool

definition no_store :: store where
  "no_store = \<lparr>m_open = False, st_db = empty_db, st_file = empty_db, st_pending = False\<rparr>"

definition applySchema :: "bool \<Rightarrow> database \<Rightarrow> bool \<times> database" where
  "applySchema ddl_ok db =
     (if \<not> ddl_ok then (False, db)
      else (True, if length (db_version db) = 0 then db\<lparr>db_version := [1]\<rparr> else db))"

definition store_close :: "store \<Rightarrow> store" where
  "store_close st = (if m_open st then st\<lparr>m_open := False, st_db := st_file st, st_pending := False\<rparr> else st)"

text \<open>The content of the file, if it opens as a database.\<close>

definition store_open :: "database option \<Rightarrow> bool \<Rightarrow> store \<Rightarrow> bool \<times> store" where
  "store_open content ddl_ok st =
     (let st = store_close st
      in case content of
           None \<Rightarrow> (False, st)
         | Some db \<Rightarrow> (let (b, db) = applySchema ddl_ok db in (b, \<lparr>m_open = True, st_db = db, st_file = db, st_pending = False\<rparr>)))"

definition schemaVersion :: "database \<Rightarrow> nat" where
  "schemaVersion db = (if db_version db = [] then 0 else Max (set (db_version db)))"

section \<open>Saving the tree\<close>

definition insert_folder :: "nat option \<Rightarrow> string \<Rightarrow> database \<Rightarrow> nat \<times> database" where
  "insert_folder up n db =
     (let i = next_id (map fst (db_folders db)) in (i, db\<lparr>db_folders := db_folders db @ [(i, up, n)]\<rparr>))"

text \<open>\<open>INSERT OR REPLACE\<close> on the key of a session and a name.\<close>

definition put_param :: "nat \<Rightarrow> string \<times> string \<Rightarrow> database \<Rightarrow> database" where
  "put_param sid kv db =
     db\<lparr>db_params := filter (\<lambda>(s, k, v). \<not> (s = sid \<and> k = fst kv)) (db_params db) @ [(sid, fst kv, snd kv)]\<rparr>"

definition save_session :: "nat \<Rightarrow> Session \<Rightarrow> database \<Rightarrow> database" where
  "save_session fid s db =
     (let sid = next_id (map sr_id (db_sessions db));
          row = \<lparr>sr_id = sid, sr_folder = fid, sr_name = s_name s, sr_type = sessionTypeToString (s_type s),
                 sr_host = map_of (s_params s) ''host'', sr_port = Some (port s),
                 sr_username = map_of (s_params s) ''username'', sr_vault_ref = map_of (s_params s) ''vault_ref''\<rparr>
      in fold (put_param sid) (s_params s) (db\<lparr>db_sessions := db_sessions db @ [row]\<rparr>))"

fun saveFolder :: "SessionFolder \<Rightarrow> nat option \<Rightarrow> database \<Rightarrow> database" where
  "saveFolder (Folder n fs ss) up db =
     (let (fid, db) = insert_folder up n db
      in fold (\<lambda>sub. saveFolder sub (Some fid)) fs (fold (save_session fid) ss db))"

definition delete_folders :: "database \<Rightarrow> database" where
  "delete_folders db = db\<lparr>db_folders := [], db_sessions := [], db_params := []\<rparr>"

text \<open>A commit succeeds, or it fails and leaves the transaction open (as when another program reads the file), or it
  fails and SQLite has rolled the transaction back (as when the disk is full). In an open transaction the next
  \<open>BEGIN\<close> fails, which the code does not ask, and its commit is the commit of both.\<close>

datatype commit = Commits | Stays_open | Rolls_back

definition saveTree :: "commit \<Rightarrow> SessionFolder \<Rightarrow> store \<Rightarrow> bool \<times> store" where
  "saveTree commit root st =
     (if \<not> m_open st then (False, st)
      else let db = saveFolder root None (delete_folders (st_db st))
           in case commit of
                Commits \<Rightarrow> (True, st\<lparr>st_db := db, st_file := db, st_pending := False\<rparr>)
              | Stays_open \<Rightarrow> (False, st\<lparr>st_db := db, st_pending := True\<rparr>)
              | Rolls_back \<Rightarrow> (False, st\<lparr>st_db := st_file st, st_pending := False\<rparr>))"

section \<open>Loading it\<close>

definition params_of :: "nat \<Rightarrow> database \<Rightarrow> (string \<times> string) list" where
  "params_of sid db = map snd (filter (\<lambda>r. fst r = sid) (db_params db))"

definition load_session :: "database \<Rightarrow> session_row \<Rightarrow> Session" where
  "load_session db r =
     (let s = new_session (sr_name r) (sessionTypeFromString (sr_type r));
          s = (case sr_host r of None \<Rightarrow> s | Some h \<Rightarrow> setParam ''host'' h s);
          s = (case sr_port r of None \<Rightarrow> s | Some p \<Rightarrow> setPort p s);
          s = (case sr_username r of None \<Rightarrow> s | Some u \<Rightarrow> setParam ''username'' u s);
          s = (case sr_vault_ref r of None \<Rightarrow> s | Some v \<Rightarrow> if v = [] then s else setParam ''vault_ref'' v s)
      in fold (\<lambda>(k, v). setParam k v) (params_of (sr_id r) db) s)"

definition child_rows :: "nat \<Rightarrow> database \<Rightarrow> folder_row list" where
  "child_rows i db = filter (\<lambda>(c, p, n). p = Some i) (db_folders db)"

definition append_folder :: "SessionFolder \<Rightarrow> SessionFolder \<Rightarrow> SessionFolder" where
  "append_folder f sub = Folder (f_name f) (f_folders f @ [sub]) (f_sessions f)"

text \<open>\<open>fill\<close>: the recursion follows the parent links of the rows. In tables whose links form a
  circle it does not end; the bound on its depth, which is then exceeded, gives \<open>None\<close>.\<close>

fun fill :: "nat \<Rightarrow> database \<Rightarrow> nat \<Rightarrow> SessionFolder \<Rightarrow> SessionFolder option" where
  "fill 0 db i f = None"
| "fill (Suc depth) db i f =
     fold (\<lambda>(c, p, n) acc.
         case acc of None \<Rightarrow> None
         | Some f \<Rightarrow> map_option (append_folder f) (fill depth db c (Folder n [] [])))
       (child_rows i db)
       (Some (fold (\<lambda>r. addSession (load_session db r)) (filter (\<lambda>r. sr_folder r = i) (db_sessions db)) f))"

definition loadTree :: "store \<Rightarrow> SessionFolder option" where
  "loadTree st =
     (if \<not> m_open st then Some (Folder ''Sessions'' [] [])
      else case List.find (\<lambda>(i, p, n). p = None) (db_folders (st_db st)) of
             None \<Rightarrow> Some (Folder ''Sessions'' [] [])
           | Some (i, p, n) \<Rightarrow> fill (length (db_folders (st_db st))) (st_db st) i (Folder n [] []))"

section \<open>Known hosts\<close>

definition look_host :: "database \<Rightarrow> string \<times> int \<times> string \<Rightarrow> string option" where
  "look_host db k = map_of (db_hosts db) k"

definition pin_host :: "string \<times> int \<times> string \<Rightarrow> string \<Rightarrow> database \<Rightarrow> database" where
  "pin_host k fp db =
     db\<lparr>db_hosts := (if k \<in> fst ` set (db_hosts db) then map (\<lambda>e. (fst e, if fst e = k then fp else snd e)) (db_hosts db)
                    else db_hosts db @ [(k, fp)])\<rparr>"

definition upsertKnownHost :: "string \<Rightarrow> int \<Rightarrow> string \<Rightarrow> string \<Rightarrow> store \<Rightarrow> bool \<times> store" where
  "upsertKnownHost h p keyType fp st =
     (if \<not> m_open st then (False, st)
      else let db = pin_host (h, p, keyType) fp (st_db st)
           in (True, st\<lparr>st_db := db, st_file := if st_pending st then st_file st else db\<rparr>))"

definition knownHostFingerprint :: "string \<Rightarrow> int \<Rightarrow> string \<Rightarrow> store \<Rightarrow> string" where
  "knownHostFingerprint h p keyType st =
     (if \<not> m_open st then [] else case look_host (st_db st) (h, p, keyType) of None \<Rightarrow> [] | Some fp \<Rightarrow> fp)"

lemma map_of_replace:
  "map_of (map (\<lambda>e. (fst e, if fst e = k then v else snd e)) l) x = (if x = k \<and> k \<in> fst ` set l then Some v else map_of l x)"
proof (induction l)
  case (Cons e l)
  then show ?case by (cases e; cases "x = k") simp_all
qed simp

interpretation known_hosts: kv_store look_host pin_host
proof
  show "look_host (pin_host k v m) x = (if x = k then Some v else look_host m x)" for k v m x
  proof (cases "k \<in> fst ` set (db_hosts m)")
    case True
    then show ?thesis by (simp add: look_host_def pin_host_def map_of_replace)
  next
    case False
    then have "map_of (db_hosts m) k = None" by (simp add: map_of_eq_None_iff)
    with False show ?thesis by (auto simp: look_host_def pin_host_def map_add_def split: option.split)
  qed
qed

section \<open>One session\<close>

text \<open>What a session is after a save: its port is explicit.\<close>

definition stored :: "Session \<Rightarrow> Session" where
  "stored s = (if map_of (s_params s) ''port'' = None then setPort (port s) s else s)"

fun stored_tree :: "SessionFolder \<Rightarrow> SessionFolder" where
  "stored_tree (Folder n fs ss) = Folder n (map stored_tree fs) (map stored ss)"

fun params_ok :: "SessionFolder \<Rightarrow> bool" where
  "params_ok (Folder n fs ss) \<longleftrightarrow> list_all (\<lambda>s. qmap_ok (s_params s)) ss \<and> list_all params_ok fs"

lemma fold_setParam_map:
  "s_params (fold (\<lambda>(k, v). setParam k v) kvs s) = fold (\<lambda>(k, v). qinsert k v) kvs (s_params s)"
  "s_name (fold (\<lambda>(k, v). setParam k v) kvs s) = s_name s" "s_type (fold (\<lambda>(k, v). setParam k v) kvs s) = s_type s"
  by (induction kvs arbitrary: s) (auto simp: setParam_def)

lemma qmap_ok_fold: "qmap_ok m \<Longrightarrow> qmap_ok (fold (\<lambda>(k, v). qinsert k v) kvs m)"
  by (induction kvs arbitrary: m) auto

definition row_of :: "nat \<Rightarrow> nat \<Rightarrow> Session \<Rightarrow> session_row" where
  "row_of sid fid s =
     \<lparr>sr_id = sid, sr_folder = fid, sr_name = s_name s, sr_type = sessionTypeToString (s_type s),
      sr_host = map_of (s_params s) ''host'', sr_port = Some (port s),
      sr_username = map_of (s_params s) ''username'', sr_vault_ref = map_of (s_params s) ''vault_ref''\<rparr>"

lemma load_stored:
  assumes "qmap_ok (s_params s)" and "params_of sid db = s_params s"
  shows "load_session db (row_of sid fid s) = stored s"
proof -
  let ?t = "load_session db (row_of sid fid s)"
  have "qmap_ok (s_params ?t)"
    unfolding load_session_def Let_def fold_setParam_map
    by (rule qmap_ok_fold) (auto simp: setParam_def new_session_def row_of_def split: option.split)
  moreover have "map_of (s_params ?t) x = map_of (s_params (stored s)) x" for x
    unfolding load_session_def Let_def fold_setParam_map qmap.look_inserts
    by (auto simp: setParam_def new_session_def row_of_def assms(2) map_of_rev_ok [OF assms(1)] stored_def split: option.split)
  ultimately have "s_params ?t = s_params (stored s)"
    using assms(1) by (intro qmap_eqI ext) (auto simp: stored_def setParam_def)
  then show ?thesis
    by (simp add: load_session_def Let_def fold_setParam_map row_of_def stored_def setParam_def new_session_def type_name_roundtrip split: option.split)
qed

section \<open>Fresh keys\<close>

lemma next_id_fresh: "i \<in> set ids \<Longrightarrow> i < next_id ids"
  by (auto simp: next_id_def less_Suc_eq_le)

lemma next_id_snoc: "next_id (ids @ [next_id ids]) = Suc (next_id ids)"
proof -
  have "Max (insert (next_id ids) (set ids)) = next_id ids"
    using next_id_fresh [of _ ids] by (intro Max_eqI) (auto simp: less_imp_le)
  then show ?thesis unfolding next_id_def [of "ids @ [next_id ids]"] by simp
qed

abbreviation next_folder :: "database \<Rightarrow> nat" where
  "next_folder db \<equiv> next_id (map fst (db_folders db))"

abbreviation next_session :: "database \<Rightarrow> nat" where
  "next_session db \<equiv> next_id (map sr_id (db_sessions db))"

text \<open>What refers to a key refers to one in use.\<close>

definition db_ok :: "database \<Rightarrow> bool" where
  "db_ok db \<longleftrightarrow>
     (\<forall>(i, p, n) \<in> set (db_folders db). \<forall>x. p = Some x \<longrightarrow> x < next_folder db) \<and>
     (\<forall>r \<in> set (db_sessions db). sr_folder r < next_folder db) \<and>
     (\<forall>(s, k, v) \<in> set (db_params db). s < next_session db)"

text \<open>\<open>grows A db db'\<close>: rows were added, none of them below a folder of \<open>A\<close> or for a session there was.\<close>

definition grows :: "nat set \<Rightarrow> database \<Rightarrow> database \<Rightarrow> bool" where
  "grows A db db' \<longleftrightarrow>
     (\<exists>F S P. db_folders db' = db_folders db @ F \<and> db_sessions db' = db_sessions db @ S \<and> db_params db' = db_params db @ P \<and>
        (\<forall>(i, p, n) \<in> set F. \<forall>x. p = Some x \<longrightarrow> x \<notin> A) \<and> (\<forall>r \<in> set S. sr_folder r \<notin> A) \<and>
        (\<forall>(s, k, v) \<in> set P. next_session db \<le> s))"

lemma next_session_append: "next_session db \<le> next_id (map sr_id (db_sessions db @ S))"
proof (cases "db_sessions db = []")
  case False
  have "Max (sr_id ` set (db_sessions db)) \<le> Max (sr_id ` set (db_sessions db) \<union> sr_id ` set S)"
    using False by (intro Max_mono) auto
  with False show ?thesis by (simp add: next_id_def image_Un)
qed (simp add: next_id_def)

lemma rows_grow_refl [simp]: "grows A db db"
  by (simp add: grows_def)

lemma grows_mono: "grows A db db' \<Longrightarrow> B \<subseteq> A \<Longrightarrow> grows B db db'"
  unfolding grows_def by (elim exE conjE) (intro exI conjI, assumption+, fastforce+)

lemma grows_trans: "grows A db db' \<Longrightarrow> grows A db' db'' \<Longrightarrow> grows A db db''"
proof -
  assume "grows A db db'" "grows A db' db''"
  then obtain F S P F' S' P' where
    a: "db_folders db' = db_folders db @ F" "db_sessions db' = db_sessions db @ S" "db_params db' = db_params db @ P"
      "\<forall>(i, p, n) \<in> set F. \<forall>x. p = Some x \<longrightarrow> x \<notin> A" "\<forall>r \<in> set S. sr_folder r \<notin> A" "\<forall>(s, k, v) \<in> set P. next_session db \<le> s" and
    b: "db_folders db'' = db_folders db' @ F'" "db_sessions db'' = db_sessions db' @ S'" "db_params db'' = db_params db' @ P'"
      "\<forall>(i, p, n) \<in> set F'. \<forall>x. p = Some x \<longrightarrow> x \<notin> A" "\<forall>r \<in> set S'. sr_folder r \<notin> A" "\<forall>(s, k, v) \<in> set P'. next_session db' \<le> s"
    unfolding grows_def by (elim exE conjE)
  have "next_session db \<le> next_session db'" using next_session_append [of db S] a(2) by simp
  then have "\<forall>(s, k, v) \<in> set (P @ P'). next_session db \<le> s" using a(6) b(6) by fastforce
  moreover have "\<forall>(i, p, n) \<in> set (F @ F'). \<forall>x. p = Some x \<longrightarrow> x \<notin> A" "\<forall>r \<in> set (S @ S'). sr_folder r \<notin> A"
    using a(4,5) b(4,5) by auto
  ultimately show ?thesis
    unfolding grows_def using a(1-3) b(1-3) by (intro exI [where x = "F @ F'"] exI [where x = "S @ S'"] exI [where x = "P @ P'"]) simp
qed

lemma grows_keeps:
  assumes "grows A db db'"
  shows "i \<in> A \<Longrightarrow> child_rows i db' = child_rows i db"
    and "i \<in> A \<Longrightarrow> filter (\<lambda>r. sr_folder r = i) (db_sessions db') = filter (\<lambda>r. sr_folder r = i) (db_sessions db)"
    and "sid < next_session db \<Longrightarrow> params_of sid db' = params_of sid db"
proof -
  obtain F S P where g: "db_folders db' = db_folders db @ F" "db_sessions db' = db_sessions db @ S" "db_params db' = db_params db @ P"
      "\<forall>(i, p, n) \<in> set F. \<forall>x. p = Some x \<longrightarrow> x \<notin> A" "\<forall>r \<in> set S. sr_folder r \<notin> A" "\<forall>(s, k, v) \<in> set P. next_session db \<le> s"
    using assms unfolding grows_def by (elim exE conjE)
  show "i \<in> A \<Longrightarrow> child_rows i db' = child_rows i db" using g(1,4) by (auto simp: child_rows_def filter_empty_conv)
  show "i \<in> A \<Longrightarrow> filter (\<lambda>r. sr_folder r = i) (db_sessions db') = filter (\<lambda>r. sr_folder r = i) (db_sessions db)"
    using g(2,5) by (auto simp: filter_empty_conv)
  show "sid < next_session db \<Longrightarrow> params_of sid db' = params_of sid db"
    using g(3,6) by (force simp: params_of_def filter_empty_conv)
qed

section \<open>Saving sessions\<close>

lemma fold_put_param:
  "distinct (map fst kvs) \<Longrightarrow> \<forall>(s, k, v) \<in> set (db_params db). s = sid \<longrightarrow> k \<notin> fst ` set kvs \<Longrightarrow>
   fold (put_param sid) kvs db = db\<lparr>db_params := db_params db @ map (\<lambda>(k, v). (sid, k, v)) kvs\<rparr>"
proof (induction kvs arbitrary: db)
  case (Cons kv kvs)
  have "filter (\<lambda>(s, k, v). \<not> (s = sid \<and> k = fst kv)) (db_params db) = db_params db"
    using Cons.prems(2) by (intro filter_True) auto
  then have p: "put_param sid kv db = db\<lparr>db_params := db_params db @ [(sid, fst kv, snd kv)]\<rparr>"
    by (simp add: put_param_def)
  have "fold (put_param sid) kvs (put_param sid kv db) =
      (put_param sid kv db)\<lparr>db_params := db_params (put_param sid kv db) @ map (\<lambda>(k, v). (sid, k, v)) kvs\<rparr>"
    using Cons.prems by (intro Cons.IH) (auto simp: p intro: rev_image_eqI)
  then show ?case by (simp add: p case_prod_unfold)
qed simp

lemma save_session_eq:
  assumes "db_ok db" and "qmap_ok (s_params s)"
  shows "save_session fid s db =
    db\<lparr>db_sessions := db_sessions db @ [row_of (next_session db) fid s],
       db_params := db_params db @ map (\<lambda>(k, v). (next_session db, k, v)) (s_params s)\<rparr>"
proof -
  have "distinct (map fst (s_params s))" using assms(2) by (auto simp: qmap_ok_def strict_sorted_iff)
  moreover have "\<forall>(i, k, v) \<in> set (db_params db). i \<noteq> next_session db" using assms(1) by (auto simp: db_ok_def)
  ultimately show ?thesis
    by (simp add: save_session_def Let_def flip: row_of_def) (subst fold_put_param; force)
qed

lemma next_session_Suc: "next_id (map sr_id (db_sessions db) @ [next_session db]) = Suc (next_session db)"
  by (rule next_id_snoc)

text \<open>The sessions of a folder that was just entered.\<close>

definition sessions_saved :: "nat \<Rightarrow> Session list \<Rightarrow> database \<Rightarrow> database \<Rightarrow> bool" where
  "sessions_saved fid ss db db' \<longleftrightarrow>
     db_ok db' \<and> db_folders db' = db_folders db \<and>
     (\<exists>S P. db_sessions db' = db_sessions db @ S \<and> db_params db' = db_params db @ P \<and>
        (\<forall>r \<in> set S. sr_folder r = fid \<and> sr_id r < next_session db') \<and> (\<forall>(s, k, v) \<in> set P. next_session db \<le> s) \<and>
        map (load_session db') S = map stored ss)"

lemma save_sessions:
  "db_ok db \<Longrightarrow> \<forall>s \<in> set ss. qmap_ok (s_params s) \<Longrightarrow> fid < next_folder db \<Longrightarrow>
   sessions_saved fid ss db (fold (save_session fid) ss db)"
proof (induction ss arbitrary: db)
  case Nil
  then show ?case by (simp add: sessions_saved_def)
next
  case (Cons s ss)
  let ?db1 = "save_session fid s db"
  have s1: "?db1 = db\<lparr>db_sessions := db_sessions db @ [row_of (next_session db) fid s],
       db_params := db_params db @ map (\<lambda>(k, v). (next_session db, k, v)) (s_params s)\<rparr>"
    using Cons.prems by (intro save_session_eq) simp_all
  have n1: "next_session ?db1 = Suc (next_session db)"
    using next_session_Suc [of db] by (simp add: s1 row_of_def)
  have ok1: "db_ok ?db1" using Cons.prems(1,3) n1 unfolding db_ok_def by (auto simp: s1 row_of_def less_Suc_eq)
  have f1: "db_folders ?db1 = db_folders db" by (simp add: s1)
  let ?db2 = "fold (save_session fid) ss ?db1"
  have IH: "sessions_saved fid ss ?db1 ?db2" using Cons.prems f1 by (intro Cons.IH [OF ok1]) simp_all
  then obtain S P where SP: "db_sessions ?db2 = db_sessions ?db1 @ S" "db_params ?db2 = db_params ?db1 @ P"
      "\<forall>r \<in> set S. sr_folder r = fid \<and> sr_id r < next_session ?db2" "\<forall>(s, k, v) \<in> set P. next_session ?db1 \<le> s"
      "map (load_session ?db2) S = map stored ss"
    unfolding sessions_saved_def by (elim exE conjE)
  have "params_of (next_session db) ?db2 = s_params s"
  proof -
    have "filter (\<lambda>r. fst r = next_session db) (db_params db) = []"
      using Cons.prems(1) by (force simp: db_ok_def filter_empty_conv)
    moreover have "filter (\<lambda>r. fst r = next_session db) P = []"
      using SP(4) n1 by (force simp: filter_empty_conv)
    moreover have "db_params ?db2 = db_params db @ map (\<lambda>(k, v). (next_session db, k, v)) (s_params s) @ P"
      unfolding SP(2) by (simp add: s1)
    ultimately show ?thesis by (simp add: params_of_def filter_map comp_def case_prod_unfold)
  qed
  then have l: "load_session ?db2 (row_of (next_session db) fid s) = stored s"
    using Cons.prems(2) by (intro load_stored) simp_all
  let ?S = "row_of (next_session db) fid s # S"
  let ?P = "map (\<lambda>(k, v). (next_session db, k, v)) (s_params s) @ P"
  have "next_session ?db1 \<le> next_session ?db2" using next_session_append [of ?db1 S] SP(1) by simp
  then have "\<forall>r \<in> set ?S. sr_folder r = fid \<and> sr_id r < next_session ?db2" using SP(3) n1 by (simp add: row_of_def)
  moreover have "\<forall>(s, k, v) \<in> set ?P. next_session db \<le> s" using SP(4) n1 by fastforce
  moreover have "db_sessions ?db2 = db_sessions db @ ?S" "db_params ?db2 = db_params db @ ?P" using SP(1,2) by (simp_all add: s1)
  moreover have "map (load_session ?db2) ?S = map stored (s # ss)" using SP(5) l by simp
  moreover have "db_ok ?db2" "db_folders ?db2 = db_folders db" using IH f1 by (simp_all add: sessions_saved_def)
  ultimately show ?case unfolding sessions_saved_def fold_simps(2) by (intro conjI exI) 
qed

section \<open>Saving folders\<close>

fun folder_count :: "SessionFolder \<Rightarrow> nat" where
  "folder_count (Folder n fs ss) = Suc (sum_list (map folder_count fs))"

text \<open>The tree below a row reads back, also after the database has grown elsewhere.\<close>

definition holds :: "nat set \<Rightarrow> database \<Rightarrow> nat \<Rightarrow> SessionFolder \<Rightarrow> bool" where
  "holds A db i f \<longleftrightarrow>
     (\<forall>db'. grows A db db' \<longrightarrow>
        (\<forall>depth \<ge> folder_count f. fill depth db' i (Folder (f_name f) [] []) = Some (stored_tree f)))"

definition row_from :: "nat \<Rightarrow> nat \<Rightarrow> folder_row \<Rightarrow> bool" where
  "row_from i j r \<longleftrightarrow> (\<exists>x. fst (snd r) = Some x \<and> (x = i \<or> j \<le> x))"

text \<open>The rows a list of folders adds below folder \<open>fid\<close>.\<close>

definition subs_saved :: "nat \<Rightarrow> SessionFolder list \<Rightarrow> database \<Rightarrow> database \<Rightarrow> bool" where
  "subs_saved fid fs db db' \<longleftrightarrow>
     db_ok db' \<and> next_folder db \<le> next_folder db' \<and>
     (\<exists>F S P cs. db_folders db' = db_folders db @ F \<and> db_sessions db' = db_sessions db @ S \<and> db_params db' = db_params db @ P \<and>
        length F = sum_list (map folder_count fs) \<and>
        (\<forall>r \<in> set F. row_from fid (next_folder db) r) \<and> (\<forall>r \<in> set S. next_folder db \<le> sr_folder r) \<and>
        (\<forall>(s, k, v) \<in> set P. next_session db \<le> s) \<and>
        filter (\<lambda>(c, p, n). p = Some fid) F = map (\<lambda>(c, f). (c, Some fid, f_name f)) (zip cs fs) \<and>
        list_all2 (\<lambda>c f. holds {next_folder db ..< next_folder db'} db' c f) cs fs)"

definition folder_saved :: "nat option \<Rightarrow> SessionFolder \<Rightarrow> database \<Rightarrow> database \<Rightarrow> bool" where
  "folder_saved up f db db' \<longleftrightarrow>
     db_ok db' \<and> next_folder db < next_folder db' \<and>
     (\<exists>F S P. db_folders db' = db_folders db @ (next_folder db, up, f_name f) # F \<and>
        db_sessions db' = db_sessions db @ S \<and> db_params db' = db_params db @ P \<and>
        Suc (length F) = folder_count f \<and>
        (\<forall>r \<in> set F. row_from (next_folder db) (next_folder db) r) \<and> (\<forall>r \<in> set S. next_folder db \<le> sr_folder r) \<and>
        (\<forall>(s, k, v) \<in> set P. next_session db \<le> s)) \<and>
     holds {next_folder db ..< next_folder db'} db' (next_folder db) f"

lemma holds_grows: "holds A db i f \<Longrightarrow> grows A db db' \<Longrightarrow> A \<subseteq> B \<Longrightarrow> holds B db' i f"
  unfolding holds_def by (meson grows_mono grows_trans)

lemma fold_children:
  "list_all2 (\<lambda>c f. fill depth db c (Folder (f_name f) [] []) = Some (stored_tree f)) cs fs \<Longrightarrow>
   fold (\<lambda>(c, p, n) acc. case acc of None \<Rightarrow> None | Some f \<Rightarrow> map_option (append_folder f) (fill depth db c (Folder n [] [])))
     (map (\<lambda>(c, f). (c, p, f_name f)) (zip cs fs)) (Some g) =
   Some (Folder (f_name g) (f_folders g @ map stored_tree fs) (f_sessions g))"
  by (induction cs fs arbitrary: g rule: list_all2_induct) (simp_all add: append_folder_def)

lemma subs_grow:
  assumes "subs_saved fid fs db db'" and "fid < next_folder db" and "A \<subseteq> {..< next_folder db}" and "fid \<notin> A"
  shows "grows A db db'"
proof -
  obtain F S P where "db_folders db' = db_folders db @ F" "db_sessions db' = db_sessions db @ S" "db_params db' = db_params db @ P"
    "\<forall>r \<in> set F. row_from fid (next_folder db) r" "\<forall>r \<in> set S. next_folder db \<le> sr_folder r"
    "\<forall>(s, k, v) \<in> set P. next_session db \<le> s"
    using assms(1) unfolding subs_saved_def by (elim exE conjE)
  moreover from this(4) have "\<forall>(i, p, n) \<in> set F. \<forall>x. p = Some x \<longrightarrow> x \<notin> A"
    using assms(3,4) by (fastforce simp: row_from_def)
  moreover from calculation(5) have "\<forall>r \<in> set S. sr_folder r \<notin> A" using assms(3) by fastforce
  ultimately show ?thesis unfolding grows_def by (intro exI conjI)
qed

lemma save_subs:
  assumes "\<forall>f \<in> set fs. \<forall>db up. db_ok db \<longrightarrow> (\<forall>u. up = Some u \<longrightarrow> u < next_folder db) \<longrightarrow> folder_saved up f db (saveFolder f up db)"
  shows "db_ok db \<Longrightarrow> fid < next_folder db \<Longrightarrow> subs_saved fid fs db (fold (\<lambda>sub. saveFolder sub (Some fid)) fs db)"
  using assms
proof (induction fs arbitrary: db)
  case Nil
  then show ?case by (simp add: subs_saved_def)
next
  case (Cons f fs)
  let ?db1 = "saveFolder f (Some fid) db" and ?db2 = "fold (\<lambda>sub. saveFolder sub (Some fid)) fs (saveFolder f (Some fid) db)"
  have 1: "folder_saved (Some fid) f db ?db1" using Cons.prems by simp
  then have n1: "next_folder db < next_folder ?db1" and ok1: "db_ok ?db1"
    and h1: "holds {next_folder db ..< next_folder ?db1} ?db1 (next_folder db) f"
    by (simp_all add: folder_saved_def)
  have 2: "subs_saved fid fs ?db1 ?db2" using Cons.prems n1 by (intro Cons.IH [OF ok1]) simp_all
  then have n2: "next_folder ?db1 \<le> next_folder ?db2" and ok2: "db_ok ?db2" by (simp_all add: subs_saved_def)
  obtain F S P where a: "db_folders ?db1 = db_folders db @ (next_folder db, Some fid, f_name f) # F"
    "db_sessions ?db1 = db_sessions db @ S" "db_params ?db1 = db_params db @ P" "Suc (length F) = folder_count f"
    "\<forall>r \<in> set F. row_from (next_folder db) (next_folder db) r" "\<forall>r \<in> set S. next_folder db \<le> sr_folder r"
    "\<forall>(s, k, v) \<in> set P. next_session db \<le> s"
    using 1 unfolding folder_saved_def by (elim exE conjE)
  obtain F' S' P' cs where b: "db_folders ?db2 = db_folders ?db1 @ F'" "db_sessions ?db2 = db_sessions ?db1 @ S'"
    "db_params ?db2 = db_params ?db1 @ P'" "length F' = sum_list (map folder_count fs)"
    "\<forall>r \<in> set F'. row_from fid (next_folder ?db1) r" "\<forall>r \<in> set S'. next_folder ?db1 \<le> sr_folder r"
    "\<forall>(s, k, v) \<in> set P'. next_session ?db1 \<le> s"
    "filter (\<lambda>(c, p, n). p = Some fid) F' = map (\<lambda>(c, f). (c, Some fid, f_name f)) (zip cs fs)"
    "list_all2 (\<lambda>c f. holds {next_folder ?db1 ..< next_folder ?db2} ?db2 c f) cs fs"
    using 2 unfolding subs_saved_def by (elim exE conjE)
  have "grows {next_folder db ..< next_folder ?db1} ?db1 ?db2"
    using Cons.prems(2) n1 by (intro subs_grow [OF 2]) auto
  then have "holds {next_folder db ..< next_folder ?db2} ?db2 (next_folder db) f"
    using n2 by (intro holds_grows [OF h1]) auto
  moreover have "list_all2 (\<lambda>c f. holds {next_folder db ..< next_folder ?db2} ?db2 c f) cs fs"
    using b(9) by (rule list_all2_mono) (use n1 in \<open>auto intro: holds_grows\<close>)
  ultimately have h: "list_all2 (\<lambda>c f. holds {next_folder db ..< next_folder ?db2} ?db2 c f) (next_folder db # cs) (f # fs)" by simp
  have "filter (\<lambda>(c, p, n). p = Some fid) F = []"
    using a(5) Cons.prems(2) by (fastforce simp: row_from_def filter_empty_conv)
  then have c: "filter (\<lambda>(c, p, n). p = Some fid) ((next_folder db, Some fid, f_name f) # F @ F') =
      map (\<lambda>(c, f). (c, Some fid, f_name f)) (zip (next_folder db # cs) (f # fs))" using b(8) by simp
  have "next_session db \<le> next_session ?db1" using next_session_append [of db S] a(2) by simp
  then have p: "\<forall>(s, k, v) \<in> set (P @ P'). next_session db \<le> s" using a(7) b(7) by fastforce
  have r: "\<forall>r \<in> set ((next_folder db, Some fid, f_name f) # F @ F'). row_from fid (next_folder db) r"
    using a(5) b(5) n1 by (auto simp: row_from_def)
  have s: "\<forall>r \<in> set (S @ S'). next_folder db \<le> sr_folder r" using a(6) b(6) n1 by auto
  show ?case
    unfolding subs_saved_def fold_simps(2)
    using ok2 n1 n2 a(1-4) b(1-4) h c p r s
    by (intro conjI exI [where x = "(next_folder db, Some fid, f_name f) # F @ F'"] exI [where x = "S @ S'"]
        exI [where x = "P @ P'"] exI [where x = "next_folder db # cs"]) simp_all
qed

lemma fold_addSession_rows: "fold (\<lambda>r. addSession (l r)) rs f = Folder (f_name f) (f_folders f) (f_sessions f @ map l rs)"
  by (induction rs arbitrary: f) (simp_all add: addSession_def)

lemma load_session_cong: "params_of (sr_id r) db = params_of (sr_id r) db' \<Longrightarrow> load_session db r = load_session db' r"
  by (simp add: load_session_def)

lemma save_folder:
  "params_ok f \<Longrightarrow> db_ok db \<Longrightarrow> (\<forall>u. up = Some u \<longrightarrow> u < next_folder db) \<Longrightarrow> folder_saved up f db (saveFolder f up db)"
proof (induction f arbitrary: db up rule: folder_count.induct)
  case (1 n fs ss)
  let ?i = "next_folder db"
  let ?db1 = "db\<lparr>db_folders := db_folders db @ [(?i, up, n)]\<rparr>"
  let ?db2 = "fold (save_session ?i) ss ?db1"
  let ?db3 = "fold (\<lambda>sub. saveFolder sub (Some ?i)) fs ?db2"
  have n1: "next_folder ?db1 = Suc ?i" using next_id_snoc [of "map fst (db_folders db)"] by simp
  have ok1: "db_ok ?db1" using "1.prems"(2,3) n1 unfolding db_ok_def by (fastforce simp: less_Suc_eq)
  have 2: "sessions_saved ?i ss ?db1 ?db2"
    using "1.prems"(1) n1 by (intro save_sessions [OF ok1]) (simp_all add: list_all_iff)
  then have ok2: "db_ok ?db2" and f2: "db_folders ?db2 = db_folders db @ [(?i, up, n)]" and n2: "next_folder ?db2 = Suc ?i"
    using n1 by (simp_all add: sessions_saved_def)
  obtain S P where s2: "db_sessions ?db2 = db_sessions db @ S" "db_params ?db2 = db_params db @ P"
    "\<forall>r \<in> set S. sr_folder r = ?i \<and> sr_id r < next_session ?db2" "\<forall>(s, k, v) \<in> set P. next_session db \<le> s"
    "map (load_session ?db2) S = map stored ss"
    using 2 unfolding sessions_saved_def by (elim exE conjE) simp
  have 3: "subs_saved ?i fs ?db2 ?db3"
    using "1.prems"(1) n2 by (intro save_subs) (auto simp: list_all_iff ok2 intro!: "1.IH")
  then have ok3: "db_ok ?db3" and n3: "Suc ?i \<le> next_folder ?db3" using n2 by (simp_all add: subs_saved_def)
  obtain F S' P' cs where b: "db_folders ?db3 = db_folders ?db2 @ F" "db_sessions ?db3 = db_sessions ?db2 @ S'"
    "db_params ?db3 = db_params ?db2 @ P'" "length F = sum_list (map folder_count fs)"
    "\<forall>r \<in> set F. row_from ?i (Suc ?i) r" "\<forall>r \<in> set S'. Suc ?i \<le> sr_folder r"
    "\<forall>(s, k, v) \<in> set P'. next_session ?db2 \<le> s"
    "filter (\<lambda>(c, p, n). p = Some ?i) F = map (\<lambda>(c, f). (c, Some ?i, f_name f)) (zip cs fs)"
    "list_all2 (\<lambda>c f. holds {Suc ?i ..< next_folder ?db3} ?db3 c f) cs fs"
    using 3 unfolding subs_saved_def n2 by (elim exE conjE)
  have grow23: "grows {} ?db2 ?db3" using n2 by (intro subs_grow [OF 3]) auto
  have rows: "child_rows ?i ?db3 = map (\<lambda>(c, f). (c, Some ?i, f_name f)) (zip cs fs)"
  proof -
    have "filter (\<lambda>(c, p, n). p = Some ?i) (db_folders db @ [(?i, up, n)]) = []"
      using "1.prems"(2,3) by (auto simp: db_ok_def filter_empty_conv)
    then show ?thesis unfolding child_rows_def b(1) f2 filter_append b(8) by (simp only: append_Nil)
  qed
  have sess: "filter (\<lambda>r. sr_folder r = ?i) (db_sessions ?db3) = S"
  proof -
    have "filter (\<lambda>r. sr_folder r = ?i) (db_sessions db) = []" "filter (\<lambda>r. sr_folder r = ?i) S' = []"
      using "1.prems"(2) b(6) by (fastforce simp: db_ok_def filter_empty_conv)+
    moreover have "filter (\<lambda>r. sr_folder r = ?i) S = S" using s2(3) by simp
    ultimately show ?thesis using b(2) s2(1) by simp
  qed
  have "holds {?i ..< next_folder ?db3} ?db3 ?i (Folder n fs ss)"
    unfolding holds_def
  proof (intro allI impI)
    fix db' depth assume g: "grows {?i ..< next_folder ?db3} ?db3 db'" and d: "folder_count (Folder n fs ss) \<le> depth"
    then obtain d' where d': "depth = Suc d'" "sum_list (map folder_count fs) \<le> d'" by (cases depth) auto
    have i: "?i \<in> {?i ..< next_folder ?db3}" using n3 by simp
    have "grows {} ?db2 db'" using grow23 grows_mono [OF g] grows_trans by blast
    then have "params_of (sr_id r) db' = params_of (sr_id r) ?db2" if "r \<in> set S" for r
      using grows_keeps(3) s2(3) that by blast
    then have ses: "map (load_session db') S = map stored ss"
      using s2(5) load_session_cong by (metis (no_types, lifting) map_cong)
    have "grows {Suc ?i ..< next_folder ?db3} ?db3 db'" by (rule grows_mono [OF g]) auto
    moreover have "folder_count f \<le> d'" if "f \<in> set fs" for f
      using member_le_sum_list [of "folder_count f" "map folder_count fs"] that d'(2) by simp
    ultimately have "list_all2 (\<lambda>c f. fill d' db' c (Folder (f_name f) [] []) = Some (stored_tree f)) cs fs"
      using b(9) unfolding list_all2_conv_all_nth holds_def by (metis nth_mem)
    then show "fill depth db' ?i (Folder (f_name (Folder n fs ss)) [] []) = Some (stored_tree (Folder n fs ss))"
      by (simp add: d'(1) grows_keeps(1,2) [OF g i] rows sess fold_addSession_rows ses fold_children)
  qed
  moreover have "saveFolder (Folder n fs ss) up db = ?db3"
    by (simp add: insert_folder_def Let_def)
  moreover have "next_session db \<le> next_session ?db2" using next_session_append [of db S] s2(1) by simp
  ultimately show ?case
    unfolding folder_saved_def
    using ok3 n3 b(1-4) f2 s2(1,2)
    apply (intro conjI exI [where x = F] exI [where x = "S @ S'"] exI [where x = "P @ P'"])
              apply (simp_all)
    subgoal using b(5) by (fastforce simp: row_from_def)
    subgoal using b(6) s2(3) by auto
    subgoal using b(7) s2(4) by fastforce
    done
qed

lemma saved_loads:
  assumes "params_ok root" and "m_open st" and "st_db st = saveFolder root None (delete_folders db)"
  shows "loadTree st = Some (stored_tree root)"
proof -
  let ?db = "delete_folders db"
  have ok: "db_ok ?db" by (simp add: db_ok_def delete_folders_def)
  have one: "next_folder ?db = 1" by (simp add: delete_folders_def next_id_def)
  have "folder_saved None root ?db (st_db st)"
    unfolding assms(3) using save_folder [OF assms(1) ok] by simp
  then obtain F where F: "db_folders (st_db st) = (1, None, f_name root) # F" "Suc (length F) = folder_count root"
    and h: "holds {1 ..< next_folder (st_db st)} (st_db st) 1 root"
    unfolding folder_saved_def one by (elim exE conjE) (simp add: delete_folders_def)
  then show ?thesis using assms(2) by (simp add: loadTree_def holds_def)
qed

lemma applySchema_loads:
  "st_db st = snd (applySchema ddl (st_db st')) \<Longrightarrow> m_open st = m_open st' \<Longrightarrow> loadTree st = loadTree st'"
proof -
  assume a: "st_db st = snd (applySchema ddl (st_db st'))" "m_open st = m_open st'"
  have d: "db_folders (st_db st) = db_folders (st_db st')" "db_sessions (st_db st) = db_sessions (st_db st')"
    "db_params (st_db st) = db_params (st_db st')"
    unfolding a(1) by (simp_all add: applySchema_def)
  then have l: "load_session (st_db st) = load_session (st_db st')" "child_rows i (st_db st) = child_rows i (st_db st')" for i
    by (simp_all add: load_session_def fun_eq_iff params_of_def child_rows_def)
  have f: "fill k (st_db st) i f = fill k (st_db st') i f" for k i f
    by (induction k arbitrary: i f) (simp_all add: l d)
  show ?thesis unfolding loadTree_def f d a(2) ..
qed

lemma store_reloads:
  assumes "m_open st" and "params_ok root" and "saveTree Commits root st = (b, st')" and "store_open (Some (st_file st')) True old = (b', st'')"
  shows "b \<and> b' \<and> loadTree st'' = Some (stored_tree root)"
proof -
  have f: "b" "st_file st' = saveFolder root None (delete_folders (st_db st))" using assms(1,3) by (auto simp: saveTree_def Let_def)
  let ?o = "\<lparr>m_open = True, st_db = st_file st', st_file = st_file st', st_pending = False\<rparr>"
  have o: "b'" "m_open st''" "st_db st'' = snd (applySchema True (st_file st'))"
    using assms(4) by (auto simp: store_open_def Let_def applySchema_def split: prod.splits if_splits)
  then have "loadTree st'' = loadTree ?o" by (intro applySchema_loads) simp_all
  also have "\<dots> = Some (stored_tree root)" using f(2) by (intro saved_loads [OF assms(2)]) simp_all
  finally show ?thesis using f(1) o(1) by simp
qed

text \<open>A tree that was saved and committed is the same tree when the file is opened again, at any depth and whatever
  the database held before, except that every session's port is now explicit; its recursion ends within the number
  of folder rows. Without the commit the connection shows the new tree, or the old one, and the file keeps the old one.\<close>

theorem store_roundtrip:
  assumes "m_open st" and "params_ok root" and "saveTree commit root st = (b, st')" and "store_open (Some (st_file st')) True old = (b', st'')"
  shows "b = (commit = Commits) \<and> (if b then b' \<and> loadTree st'' = Some (stored_tree root) else st_file st' = st_file st)"
proof (cases "commit = Commits")
  case True
  then show ?thesis using store_reloads [OF assms(1,2) _ assms(4)] assms(3) by simp
next
  case False
  then show ?thesis using assms(1,3) by (auto simp: saveTree_def Let_def split: commit.splits)
qed

text \<open>Saving what was loaded changes nothing any more.\<close>

lemma stored_stored: "stored (stored s) = stored s"
  by (simp add: stored_def setParam_def)

section \<open>Pinned host keys\<close>

definition pin_all :: "((string \<times> int \<times> string) \<times> string) list \<Rightarrow> store \<Rightarrow> store" where
  "pin_all ps st = fold (\<lambda>((h, p, t), fp) st. snd (upsertKnownHost h p t fp st)) ps st"

lemma pin_all_db: "m_open st \<Longrightarrow> m_open (pin_all ps st) \<and> st_db (pin_all ps st) = fold (\<lambda>(k, fp). pin_host k fp) ps (st_db st)"
proof (induction ps arbitrary: st)
  case (Cons e ps)
  obtain h p t fp where e: "e = ((h, p, t), fp)" by (metis prod.collapse)
  have "m_open (snd (upsertKnownHost h p t fp st))" "st_db (snd (upsertKnownHost h p t fp st)) = pin_host (h, p, t) fp (st_db st)"
    using Cons.prems by (simp_all add: upsertKnownHost_def Let_def)
  then show ?case using Cons.IH [of "snd (upsertKnownHost h p t fp st)"] by (simp add: pin_all_def e)
qed (simp add: pin_all_def)

text \<open>The fingerprint of a host, port and key type is the last one pinned for exactly that host, port and key type;
  pinning another one does not touch it, and neither does saving the session tree.\<close>

theorem store_pinned_fingerprint:
  assumes "m_open st"
  shows "knownHostFingerprint h p t (snd (saveTree Commits root (pin_all ps st))) =
    (case map_of (rev ps) (h, p, t) of Some fp \<Rightarrow> fp | None \<Rightarrow> knownHostFingerprint h p t st)"
proof -
  have hosts: "db_hosts (saveFolder f up db) = db_hosts db" for f up db
  proof (induction f arbitrary: up db rule: folder_count.induct)
    case (1 n fs ss)
    have p: "db_hosts (fold (put_param i) kvs db) = db_hosts db" for i kvs db
      by (induction kvs arbitrary: db) (simp_all add: put_param_def)
    have s: "db_hosts (fold (save_session i) ss db) = db_hosts db" for i db
      by (induction ss arbitrary: db) (simp_all add: save_session_def Let_def p)
    have "db_hosts (fold (\<lambda>sub. saveFolder sub (Some i)) fs db) = db_hosts db" for i db
      using 1 by (induction fs arbitrary: db) simp_all
    then show ?case by (simp add: insert_folder_def Let_def s)
  qed
  have "m_open (pin_all ps st)" "st_db (pin_all ps st) = fold (\<lambda>(k, fp). pin_host k fp) ps (st_db st)"
    using pin_all_db [OF assms] by simp_all
  then have "knownHostFingerprint h p t (snd (saveTree Commits root (pin_all ps st))) =
      (case look_host (fold (\<lambda>(k, fp). pin_host k fp) ps (st_db st)) (h, p, t) of None \<Rightarrow> [] | Some fp \<Rightarrow> fp)"
    by (simp add: knownHostFingerprint_def saveTree_def look_host_def hosts delete_folders_def Let_def)
  then show ?thesis
    using assms by (simp add: known_hosts.look_inserts knownHostFingerprint_def split: option.split)
qed

section \<open>Witnesses\<close>

definition demo_store :: store where
  "demo_store = snd (store_open (Some (empty_db\<lparr>db_folders := [(4, None, ''old'')]\<rparr>)) True no_store)"

lemma demo_open: "m_open demo_store"
  by (simp add: demo_store_def store_open_def applySchema_def empty_db_def no_store_def store_close_def)

theorem store_roundtrip_witness:
  "loadTree (snd (store_open (Some (st_file (snd (saveTree Commits demo_tree demo_store)))) True no_store)) = Some (stored_tree demo_tree)"
proof -
  let ?s = "saveTree Commits demo_tree demo_store"
  note s = demo_open
  have p: "params_ok demo_tree" by code_simp
  obtain b st' where a: "?s = (b, st')" by (metis surj_pair)
  obtain b' st'' where o: "store_open (Some (st_file st')) True no_store = (b', st'')" by (metis surj_pair)
  have "b" using s a by (auto simp: saveTree_def Let_def)
  then show ?thesis using store_roundtrip [OF s p a o] by (simp add: a o)
qed

theorem store_pinned_fingerprint_witness:
  "knownHostFingerprint ''h'' 22 ''ed25519''
     (snd (saveTree Commits demo_tree (pin_all [((''h'', 22, ''ed25519''), ''aa''), ((''h'', 2222, ''ed25519''), ''bb''), ((''h'', 22, ''ed25519''), ''cc'')] demo_store))) = ''cc''"
  using store_pinned_fingerprint [of demo_store "''h''" 22 "''ed25519''" demo_tree
      "[((''h'', 22, ''ed25519''), ''aa''), ((''h'', 2222, ''ed25519''), ''bb''), ((''h'', 22, ''ed25519''), ''cc'')]"]
  by (simp add: demo_open)

end
