(* ===== verification/Connection.thy ===== *)
theory Connection
  imports Vnc_Connection
begin

text \<open>
  The interface of every protocol, \<open>src/src/connect/IConnection.h\<close>: a state that only \<open>setState\<close>
  changes, which announces each change. The contract is the locale \<open>announcing\<close>: whatever a
  connection does, those who listen to its announcements know its state. The VNC connection keeps
  it, as do the connections of the other theories, which share the record \<open>iconn\<close>.
\<close>

section \<open>State and signals\<close>

record Capabilities =
  cap_sftp :: bool
  cap_x11 :: bool
  cap_tunnel :: bool
  cap_gui :: bool

datatype conn_event =
    DataReceived bytes
  | NewState State
  | Error string
  | Sent bytes
  | Dialled string u16

record iconn =
  ic_state :: State
  ic_log :: "conn_event list"

definition qemit :: "conn_event \<Rightarrow> 'a iconn_scheme \<Rightarrow> 'a iconn_scheme" where
  "qemit e c = c\<lparr>ic_log := ic_log c @ [e]\<rparr>"

definition change_state :: "State \<Rightarrow> 'a iconn_scheme \<Rightarrow> 'a iconn_scheme" where
  "change_state s c = (if s \<noteq> ic_state c then qemit (NewState s) (c\<lparr>ic_state := s\<rparr>) else c)"

definition fail_conn :: "string \<Rightarrow> 'a iconn_scheme \<Rightarrow> 'a iconn_scheme" where
  "fail_conn msg c = qemit (Error msg) (change_state Failed c)"

text \<open>The bytes a connection has handed to the terminal, and those it has sent.\<close>

definition shown :: "'a iconn_scheme \<Rightarrow> bytes" where
  "shown c = concat (map (\<lambda>e. case e of DataReceived b \<Rightarrow> b | _ \<Rightarrow> []) (ic_log c))"

definition sent :: "'a iconn_scheme \<Rightarrow> bytes" where
  "sent c = concat (map (\<lambda>e. case e of Sent b \<Rightarrow> b | _ \<Rightarrow> []) (ic_log c))"

definition told :: "'a iconn_scheme \<Rightarrow> State list" where
  "told c = concat (map (\<lambda>e. case e of NewState s \<Rightarrow> [s] | _ \<Rightarrow> []) (ic_log c))"

section \<open>The contract\<close>

text \<open>\<open>announces a ks b\<close>: from state \<open>a\<close>, the changes \<open>ks\<close> lead to \<open>b\<close>, and each is a change.\<close>

fun announces :: "State \<Rightarrow> State list \<Rightarrow> State \<Rightarrow> bool" where
  "announces a [] b \<longleftrightarrow> a = b"
| "announces a (k # ks) b \<longleftrightarrow> k \<noteq> a \<and> announces k ks b"

lemma announces_append: "announces a ks b \<Longrightarrow> announces b ls c \<Longrightarrow> announces a (ks @ ls) c"
  by (induction ks arbitrary: a) auto

lemma announces_last: "announces a ks b \<Longrightarrow> last (a # ks) = b"
  by (induction ks arbitrary: a) auto

lemma announces_distinct: "announces a ks b \<Longrightarrow> successively (\<noteq>) (a # ks)"
  by (induction ks arbitrary: a) auto

locale announcing =
  fixes state_of :: "'s \<Rightarrow> State" and told_of :: "'s \<Rightarrow> State list" and step :: "'s \<Rightarrow> 's \<Rightarrow> bool"
  assumes step_announces: "step s s' \<Longrightarrow> \<exists>ks. told_of s' = told_of s @ ks \<and> announces (state_of s) ks (state_of s')"
begin

lemma steps_announce: "step\<^sup>*\<^sup>* s s' \<Longrightarrow> \<exists>ks. told_of s' = told_of s @ ks \<and> announces (state_of s) ks (state_of s')"
proof (induction rule: rtranclp_induct)
  case base
  show ?case by (rule exI [of _ "[]"]) simp
next
  case (step t u)
  then show ?case using step_announces announces_append by (metis append.assoc)
qed

lemma listener_knows:
  assumes "step\<^sup>*\<^sup>* s s'" and "told_of s = []"
  shows "last (state_of s # told_of s') = state_of s' \<and> successively (\<noteq>) (state_of s # told_of s')"
  using steps_announce [OF assms(1)] assms(2) announces_last announces_distinct by fastforce

end

section \<open>What keeps it\<close>

definition announced :: "'a iconn_scheme \<Rightarrow> 'a iconn_scheme \<Rightarrow> bool" where
  "announced c c' \<longleftrightarrow> (\<exists>ks. told c' = told c @ ks \<and> announces (ic_state c) ks (ic_state c'))"

named_theorems announced_intro "operations that announce every change of the state"

lemma announced_refl [announced_intro]: "announced c c"
  unfolding announced_def by (rule exI [of _ "[]"]) simp

lemma announced_trans: "announced a b \<Longrightarrow> announced b c \<Longrightarrow> announced a c"
  unfolding announced_def using announces_append by (metis append.assoc)

lemma announced_change_state [announced_intro]: "announced a c \<Longrightarrow> announced a (change_state s c)"
proof (erule announced_trans)
  show "announced c (change_state s c)"
    unfolding announced_def
    by (rule exI [of _ "if s = ic_state c then [] else [s]"]) (simp add: change_state_def qemit_def told_def)
qed

lemma announced_signal [announced_intro]:
  "announced a c \<Longrightarrow> (case e of NewState _ \<Rightarrow> False | _ \<Rightarrow> True) \<Longrightarrow> announced a (qemit e c)"
proof (erule announced_trans)
  show "(case e of NewState _ \<Rightarrow> False | _ \<Rightarrow> True) \<Longrightarrow> announced c (qemit e c)"
    unfolding announced_def by (rule exI [of _ "[]"]) (cases e; simp add: qemit_def told_def)
qed

lemma announced_fail [announced_intro]: "announced a c \<Longrightarrow> announced a (fail_conn msg c)"
  unfolding fail_conn_def by (intro announced_intro) simp_all

lemma announced_more [announced_intro]: "announced a c \<Longrightarrow> announced a (c\<lparr>iconn.more := x\<rparr>)"
  by (simp add: announced_def told_def)

lemma announced_if [announced_intro]: "announced a c \<Longrightarrow> announced a d \<Longrightarrow> announced a (if b then c else d)"
  by simp

section \<open>The VNC connection\<close>

definition vnc_told :: "'z vnc \<Rightarrow> State list" where
  "vnc_told v = concat (map (\<lambda>e. case e of StateChanged s \<Rightarrow> [s] | _ \<Rightarrow> []) (v_log v))"

definition vnc_announced :: "'z vnc \<Rightarrow> 'z vnc \<Rightarrow> bool" where
  "vnc_announced v v' \<longleftrightarrow> (\<exists>ks. vnc_told v' = vnc_told v @ ks \<and> announces (v_state v) ks (v_state v'))"

lemma vnc_refl: "vnc_announced v v"
  unfolding vnc_announced_def by (rule exI [of _ "[]"]) simp

lemma vnc_trans: "vnc_announced a b \<Longrightarrow> vnc_announced b c \<Longrightarrow> vnc_announced a c"
  unfolding vnc_announced_def using announces_append by (metis append.assoc)

named_theorems vnc_intro "VNC operations that announce every change of the state"

lemma vnc_setState [vnc_intro]: "vnc_announced a v \<Longrightarrow> vnc_announced a (setState s v)"
proof (erule vnc_trans)
  show "vnc_announced v (setState s v)"
    unfolding vnc_announced_def
    by (rule exI [of _ "if s = v_state v then [] else [s]"]) (simp add: setState_def emit_def vnc_told_def)
qed

lemma vnc_emit [vnc_intro]:
  "vnc_announced a v \<Longrightarrow> (case e of StateChanged _ \<Rightarrow> False | _ \<Rightarrow> True) \<Longrightarrow> vnc_announced a (emit e v)"
proof (erule vnc_trans)
  show "(case e of StateChanged _ \<Rightarrow> False | _ \<Rightarrow> True) \<Longrightarrow> vnc_announced v (emit e v)"
    unfolding vnc_announced_def by (rule exI [of _ "[]"]) (cases e; simp add: emit_def vnc_told_def)
qed

lemma vnc_other [vnc_intro]:
  "vnc_announced a v \<Longrightarrow> vnc_announced a (v\<lparr>v_buf := b\<rparr>)" "vnc_announced a v \<Longrightarrow> vnc_announced a (v\<lparr>v_phase := p\<rparr>)"
  "vnc_announced a v \<Longrightarrow> vnc_announced a (v\<lparr>v_sock := k\<rparr>)" "vnc_announced a v \<Longrightarrow> vnc_announced a (v\<lparr>v_init := i\<rparr>)"
  "vnc_announced a v \<Longrightarrow> vnc_announced a (v\<lparr>v_zlib := z\<rparr>)" "vnc_announced a v \<Longrightarrow> vnc_announced a (v\<lparr>v_buttonMask := m\<rparr>)"
  by (simp_all add: vnc_announced_def vnc_told_def)

lemma vnc_handshake:
  "vnc_announced a v \<Longrightarrow> vnc_announced a (snd (handshake h v))"
proof -
  have go: "vnc_announced a (snd r) \<Longrightarrow> (\<And>u. vnc_announced a u \<Longrightarrow> vnc_announced a (snd (f u))) \<Longrightarrow> vnc_announced a (snd (then_go r f))"
    for r f by (simp add: then_go_def)
  show "vnc_announced a v \<Longrightarrow> vnc_announced a (snd (handshake h v))"
    unfolding handshake_def
    by (intro go)
       (auto simp: vnc_version_def vnc_security_def vnc_result_def vnc_init_def requestFramebuffer_def fail_with_def Let_def intro!: vnc_intro)
qed

lemma vnc_rects_announced: "vnc_announced a v \<Longrightarrow> vnc_rects zl rs off v = Inr (c, off', v') \<Longrightarrow> vnc_announced a v'"
proof (induction rs arbitrary: off v)
  case (Cons r rs)
  have "vnc_announced a (emit (rect_event r d) (v\<lparr>v_zlib := z\<rparr>))" "vnc_announced a (v\<lparr>v_zlib := z\<rparr>)" for d z
    using Cons.prems(1) by (auto simp: rect_event_def intro!: vnc_intro)
  with Cons.prems(2) show ?case by (auto simp: bindF_eq_ok_iff Let_def split: if_splits dest: Cons.IH [rotated])
qed simp

lemma vnc_round_announced: "vnc_round zl v = Inr (again, v') \<Longrightarrow> vnc_announced v v'"
  by (auto simp: vnc_round_def bindF_eq_ok_iff Let_def intro: vnc_refl vnc_other split: if_splits
      dest!: vnc_rects_announced [OF vnc_refl])

lemma vnc_updates_announced: "vnc_updates zl v = Some (Inr v') \<Longrightarrow> vnc_announced v v'"
proof -
  have "case r of Inl e \<Rightarrow> True | Inr v' \<Rightarrow> vnc_announced v v'" if "vnc_updates zl v = Some r" for r
  proof (rule vnc_updates.raw_induct [OF _ that])
    fix f :: "'a zlib \<Rightarrow> 'a vnc \<Rightarrow> (fault + 'a vnc) option" and zl v r
    assume 1: "\<And>zl v r. f zl v = Some r \<Longrightarrow> case r of Inl e \<Rightarrow> True | Inr v' \<Rightarrow> vnc_announced v v'"
      "(case vnc_round zl v of Inl e \<Rightarrow> Some (Inl e) | Inr (again, v') \<Rightarrow> if again then f zl v' else Some (Inr v')) = Some r"
    show "case r of Inl e \<Rightarrow> True | Inr v' \<Rightarrow> vnc_announced v v'"
    proof (cases "vnc_round zl v")
      case (Inr p)
      obtain again u where p: "p = (again, u)" by (cases p)
      have u: "vnc_announced v u" using vnc_round_announced Inr p by blast
      show ?thesis
      proof (cases again)
        case True
        then have "f zl u = Some r" using 1(2) Inr p by simp
        with 1(1) have "case r of Inl e \<Rightarrow> True | Inr v' \<Rightarrow> vnc_announced u v'" by blast
        with u show ?thesis by (auto split: sum.splits intro: vnc_trans)
      qed (use 1 Inr p u in auto)
    qed (use 1 in auto)
  qed
  then show "vnc_updates zl v = Some (Inr v') \<Longrightarrow> vnc_announced v v'" by fastforce
qed

text \<open>One message or signal of the outside, or one request of the user.\<close>

inductive vnc_step :: "host \<Rightarrow> 'z zlib \<Rightarrow> 'z vnc \<Rightarrow> 'z vnc \<Rightarrow> bool" for h zl where
  vnc_connect: "vnc_step h zl v (connectSession v)"
| vnc_disconnect: "vnc_step h zl v (disconnectSession v)"
| vnc_lost: "vnc_step h zl v (on_disconnected v)"
| vnc_error: "vnc_step h zl v (on_error msg v)"
| vnc_read: "onReadyRead h zl data v = Some (Inr v') \<Longrightarrow> vnc_step h zl v v'"
| vnc_pointer: "vnc_step h zl v (sendPointerEvent x y b v)"
| vnc_key: "vnc_step h zl v (sendKeyEvent k d v)"

lemma vnc_step_announced: "vnc_step h zl v v' \<Longrightarrow> vnc_announced v v'"
proof (induction rule: vnc_step.induct)
  case (vnc_read data v v')
  let ?r = "handshake h (v\<lparr>v_buf := v_buf v @ data\<rparr>)"
  have "vnc_announced v (snd ?r)" by (intro vnc_handshake vnc_intro vnc_refl)
  with vnc_read show ?case
    by (auto simp: onReadyRead_def split: prod.splits if_splits dest: vnc_updates_announced vnc_trans)
qed (auto simp: connectSession_def disconnectSession_def on_disconnected_def on_error_def fail_with_def
    sendPointerEvent_def sendKeyEvent_def intro!: vnc_intro intro: vnc_refl)

interpretation vnc: announcing v_state vnc_told "vnc_step h zl"
  using vnc_step_announced by unfold_locales (auto simp: vnc_announced_def)

end
