(* ===== verification/Tcp_Connections.thy ===== *)
theory Tcp_Connections
  imports Connection Telnet Ini_Store
begin

text \<open>
  The terminal protocols over one stream: \<open>SimpleTcpConnection\<close> (rlogin, rsh and the XDMCP
  bootstrap), \<open>TelnetConnection\<close> over \<open>TelnetProtocol\<close>, \<open>FtpConnection\<close>, \<open>SerialConnection\<close> and
  \<open>MoshConnection\<close> of \<open>src/src/connect/\<close>. What happens to a connection is a list of inputs: the calls
  of the interface and the signals of the socket (or port, or process). A signal reaches a
  connection only while it has a socket: Qt delivers none of a deleted one.
\<close>

section \<open>Inputs\<close>

datatype conn_in =
    Open Session
  | Established
  | Lost
  | SockError string
  | Arrived bytes
  | Send bytes
  | Close

text \<open>What a socket accepts of a write.\<close>

type_synonym writer = "bytes \<Rightarrow> int"

definition sock_write :: "bytes \<Rightarrow> 'a iconn_scheme \<Rightarrow> 'a iconn_scheme" where
  "sock_write b c = qemit (Sent b) c"

definition quint16 :: "int \<Rightarrow> u16" where
  "quint16 p = of_int p"

section \<open>rlogin, rsh, XDMCP\<close>

record simple_tcp = iconn +
  m_type :: SessionType
  m_sock :: bool
  m_awaitingAck :: bool
  m_session :: Session

definition new_simple :: "SessionType \<Rightarrow> simple_tcp" where
  "new_simple t = \<lparr>ic_state = Disconnected, ic_log = [], m_type = t, m_sock = False, m_awaitingAck = False, m_session = new_session [] t\<rparr>"

definition startupHandshake :: "host \<Rightarrow> SessionType \<Rightarrow> Session \<Rightarrow> bytes" where
  "startupHandshake h t s =
     (if t = Rlogin then
        let user = toUtf8 h (param s ''username'')
        in [0] @ user @ [0] @ user @ [0] @ to_latin1 ''xterm-256color/38400'' @ [0]
      else if t = Rsh then
        let remote = toUtf8 h (param s ''username''); local = toUtf8 h (param_def s ''localuser'' (param s ''username''));
            cmd = toUtf8 h (param s ''remotecommand'')
        in to_latin1 ''0'' @ [0] @ local @ [0] @ remote @ [0] @ cmd @ [0]
      else if t = Xdmcp then [0, 1, 0, 2]
      else [])"

definition expectsAckByte :: "SessionType \<Rightarrow> bool" where
  "expectsAckByte t \<longleftrightarrow> t = Rlogin \<or> t = Rsh"

definition simple_connect :: "Session \<Rightarrow> simple_tcp \<Rightarrow> simple_tcp" where
  "simple_connect s c =
     qemit (Dialled (param s ''host'') (quint16 (port s)))
       ((change_state Connecting c)\<lparr>m_sock := True, m_awaitingAck := expectsAckByte (m_type c), m_session := s\<rparr>)"

definition simple_connected :: "host \<Rightarrow> simple_tcp \<Rightarrow> simple_tcp" where
  "simple_connected h c =
     (let b = startupHandshake h (m_type c) (m_session c)
      in change_state Connected (if b \<noteq> [] then sock_write b c else c))"

definition simple_onReadyRead :: "bytes \<Rightarrow> simple_tcp \<Rightarrow> simple_tcp" where
  "simple_onReadyRead b c =
     (let ack = m_awaitingAck c \<and> b \<noteq> [];
          data = (if ack then tl b else b);
          c = (if ack then c\<lparr>m_awaitingAck := False\<rparr> else c)
      in if ack \<and> hd b \<noteq> 0 then fail_conn ''Remote rejected the connection'' c
         else if data \<noteq> [] then qemit (DataReceived data) c else c)"

definition simple_send :: "writer \<Rightarrow> bytes \<Rightarrow> simple_tcp \<Rightarrow> int \<times> simple_tcp" where
  "simple_send w b c = (if m_sock c then (w b, sock_write b c) else (- 1, c))"

definition simple_disconnect :: "simple_tcp \<Rightarrow> simple_tcp" where
  "simple_disconnect c = change_state Disconnected (c\<lparr>m_sock := False\<rparr>)"

fun simple_in :: "host \<Rightarrow> writer \<Rightarrow> conn_in \<Rightarrow> simple_tcp \<Rightarrow> simple_tcp" where
  "simple_in h w (Open s) c = simple_connect s c"
| "simple_in h w Established c = (if m_sock c then simple_connected h c else c)"
| "simple_in h w Lost c = (if m_sock c then change_state Closed c else c)"
| "simple_in h w (SockError m) c = (if m_sock c then fail_conn m c else c)"
| "simple_in h w (Arrived b) c = (if m_sock c then simple_onReadyRead b c else c)"
| "simple_in h w (Send b) c = snd (simple_send w b c)"
| "simple_in h w Close c = simple_disconnect c"

section \<open>Telnet\<close>

record telnet_conn = iconn +
  t_sock :: bool
  t_proto :: St

definition new_telnet :: telnet_conn where
  "new_telnet = \<lparr>ic_state = Disconnected, ic_log = [], t_sock = False, t_proto = St_Data\<rparr>"

definition telnet_connect :: "Session \<Rightarrow> telnet_conn \<Rightarrow> telnet_conn" where
  "telnet_connect s c = qemit (Dialled (param s ''host'') (quint16 (port s))) ((change_state Connecting c)\<lparr>t_sock := True\<rparr>)"

definition telnet_onReadyRead :: "bytes \<Rightarrow> telnet_conn \<Rightarrow> telnet_conn" where
  "telnet_onReadyRead b c =
     (let (st, r) = process (t_proto c) b;
          c = c\<lparr>t_proto := st\<rparr>;
          c = (if response r \<noteq> [] then sock_write (response r) c else c)
      in if appData r \<noteq> [] then qemit (DataReceived (appData r)) c else c)"

definition telnet_send :: "writer \<Rightarrow> bytes \<Rightarrow> telnet_conn \<Rightarrow> int \<times> telnet_conn" where
  "telnet_send w b c = (if \<not> t_sock c then (- 1, c) else (w b, sock_write b c))"

definition telnet_disconnect :: "telnet_conn \<Rightarrow> telnet_conn" where
  "telnet_disconnect c = change_state Disconnected (c\<lparr>t_sock := False\<rparr>)"

fun telnet_in :: "writer \<Rightarrow> conn_in \<Rightarrow> telnet_conn \<Rightarrow> telnet_conn" where
  "telnet_in w (Open s) c = telnet_connect s c"
| "telnet_in w Established c = (if t_sock c then change_state Connected c else c)"
| "telnet_in w Lost c = (if t_sock c then change_state Closed c else c)"
| "telnet_in w (SockError m) c = (if t_sock c then fail_conn m c else c)"
| "telnet_in w (Arrived b) c = (if t_sock c then telnet_onReadyRead b c else c)"
| "telnet_in w (Send b) c = snd (telnet_send w b c)"
| "telnet_in w Close c = telnet_disconnect c"

section \<open>FTP control dialogue\<close>

record ftp_conn = iconn +
  f_sock :: bool
  f_username :: string
  f_sentUser :: bool

definition new_ftp_conn :: ftp_conn where
  "new_ftp_conn = \<lparr>ic_state = Disconnected, ic_log = [], f_sock = False, f_username = [], f_sentUser = False\<rparr>"

definition ftpc_connect :: "Session \<Rightarrow> ftp_conn \<Rightarrow> ftp_conn" where
  "ftpc_connect s c =
     qemit (Dialled (param s ''host'') (quint16 (if port s > 0 then port s else 21)))
       ((change_state Connecting c)\<lparr>f_username := param s ''username'', f_sentUser := False, f_sock := True\<rparr>)"

fun has_part :: "bytes \<Rightarrow> bytes \<Rightarrow> bool" where
  "has_part p [] \<longleftrightarrow> p = []"
| "has_part p (b # bs) \<longleftrightarrow> take (length p) (b # bs) = p \<or> has_part p bs"

definition user_line :: "host \<Rightarrow> string \<Rightarrow> bytes" where
  "user_line h u = to_latin1 ''USER '' @ toUtf8 h u @ [13, 10]"

definition ftpc_onReadyRead :: "host \<Rightarrow> bytes \<Rightarrow> ftp_conn \<Rightarrow> ftp_conn" where
  "ftpc_onReadyRead h b c =
     (let c = qemit (DataReceived b) c
      in if \<not> f_sentUser c \<and> f_username c \<noteq> [] \<and> has_part (to_latin1 ''220'') b
         then sock_write (user_line h (f_username c)) (c\<lparr>f_sentUser := True\<rparr>) else c)"

definition ftpc_send :: "writer \<Rightarrow> bytes \<Rightarrow> ftp_conn \<Rightarrow> int \<times> ftp_conn" where
  "ftpc_send w b c = (if f_sock c then (w b, sock_write b c) else (- 1, c))"

definition ftpc_disconnect :: "ftp_conn \<Rightarrow> ftp_conn" where
  "ftpc_disconnect c = change_state Disconnected (c\<lparr>f_sock := False\<rparr>)"

fun ftpc_in :: "host \<Rightarrow> writer \<Rightarrow> conn_in \<Rightarrow> ftp_conn \<Rightarrow> ftp_conn" where
  "ftpc_in h w (Open s) c = ftpc_connect s c"
| "ftpc_in h w Established c = (if f_sock c then change_state Connected c else c)"
| "ftpc_in h w Lost c = (if f_sock c then change_state Closed c else c)"
| "ftpc_in h w (SockError m) c = (if f_sock c then fail_conn m c else c)"
| "ftpc_in h w (Arrived b) c = (if f_sock c then ftpc_onReadyRead h b c else c)"
| "ftpc_in h w (Send b) c = snd (ftpc_send w b c)"
| "ftpc_in h w Close c = ftpc_disconnect c"

section \<open>Serial lines\<close>

datatype data_bits = Data5 | Data6 | Data7 | Data8
datatype parity_bit = NoParity | EvenParity | OddParity
datatype stop_bits = OneStop | TwoStop
datatype flow_control = NoFlowControl | HardwareControl | SoftwareControl

record Config =
  portName :: string
  baud :: int
  dataBits :: data_bits
  parity :: parity_bit
  stopBits :: stop_bits
  flow :: flow_control

definition parseConfig :: "Session \<Rightarrow> Config" where
  "parseConfig s =
     (let b = to_int (param s ''baud''); d = to_int0 (param_def s ''databits'' ''8'');
          p = to_lower (param_def s ''parity'' ''none''); f = to_lower (param_def s ''flow'' ''none'')
      in \<lparr>portName = param s ''port'',
          baud = (case b of Some n \<Rightarrow> if n > 0 then n else 9600 | None \<Rightarrow> 9600),
          dataBits = (if d = 5 then Data5 else if d = 6 then Data6 else if d = 7 then Data7 else Data8),
          parity = (if p = ''even'' then EvenParity else if p = ''odd'' then OddParity else NoParity),
          stopBits = (if param_def s ''stopbits'' ''1'' = ''2'' then TwoStop else OneStop),
          flow = (if f = ''hardware'' \<or> f = ''rtscts'' then HardwareControl
                  else if f = ''software'' \<or> f = ''xonxoff'' then SoftwareControl else NoFlowControl)\<rparr>)"

text \<open>The port opens or says why not, for a configuration.\<close>

type_synonym opener = "Config \<Rightarrow> string option"

record serial_conn = iconn +
  s_port :: bool

definition serial_connect :: "opener \<Rightarrow> Session \<Rightarrow> serial_conn \<Rightarrow> bool \<times> serial_conn" where
  "serial_connect opens s c =
     (let c = (change_state Connecting c)\<lparr>s_port := True\<rparr>
      in case opens (parseConfig s) of
           Some why \<Rightarrow> (False, fail_conn why c)
         | None \<Rightarrow> (True, change_state Connected c))"

definition serial_onReadyRead :: "bytes \<Rightarrow> serial_conn \<Rightarrow> serial_conn" where
  "serial_onReadyRead b c = (if s_port c then qemit (DataReceived b) c else c)"

definition serial_send :: "writer \<Rightarrow> bytes \<Rightarrow> serial_conn \<Rightarrow> int \<times> serial_conn" where
  "serial_send w b c = (if s_port c then (w b, sock_write b c) else (- 1, c))"

definition serial_disconnect :: "serial_conn \<Rightarrow> serial_conn" where
  "serial_disconnect c = change_state Disconnected (c\<lparr>s_port := False\<rparr>)"

fun serial_in :: "opener \<Rightarrow> writer \<Rightarrow> conn_in \<Rightarrow> serial_conn \<Rightarrow> serial_conn" where
  "serial_in ops w (Open s) c = snd (serial_connect ops s c)"
| "serial_in ops w (Arrived b) c = serial_onReadyRead b c"
| "serial_in ops w (Send b) c = snd (serial_send w b c)"
| "serial_in ops w Close c = serial_disconnect c"
| "serial_in ops w _ c = c"

section \<open>Mosh\<close>

definition buildArgs :: "Session \<Rightarrow> string list" where
  "buildArgs s =
     (let key = param s ''keyfile''; p = port s;
          ssh = ''ssh'' @ (if key \<noteq> [] then '' -i '' @ key else []) @ (if p > 0 \<and> p \<noteq> 22 then '' -p '' @ dec_of_int p else []);
          moshPort = param s ''moshport''; predict = param s ''predict'';
          user = param s ''username''
      in (if ssh \<noteq> ''ssh'' then [''--ssh'', ssh] else []) @ (if moshPort \<noteq> [] then [''-p'', moshPort] else []) @
         (if predict \<noteq> [] then [''--predict='' @ predict] else []) @
         [(if user \<noteq> [] then user @ ''@'' else []) @ param s ''host''])"

record mosh_conn = iconn +
  p_proc :: bool

definition mosh_connect :: "(string list \<Rightarrow> bool) \<Rightarrow> Session \<Rightarrow> mosh_conn \<Rightarrow> bool \<times> mosh_conn" where
  "mosh_connect starts s c =
     (let c = (change_state Connecting c)\<lparr>p_proc := True\<rparr>
      in if \<not> starts (buildArgs s) then (False, fail_conn ''Failed to launch mosh (is it installed?)'' c)
         else (True, change_state Connected c))"

definition mosh_send :: "writer \<Rightarrow> bytes \<Rightarrow> mosh_conn \<Rightarrow> int \<times> mosh_conn" where
  "mosh_send w b c = (if p_proc c then (w b, sock_write b c) else (- 1, c))"

definition mosh_disconnect :: "mosh_conn \<Rightarrow> mosh_conn" where
  "mosh_disconnect c = change_state Disconnected (c\<lparr>p_proc := False\<rparr>)"

fun mosh_in :: "(string list \<Rightarrow> bool) \<Rightarrow> writer \<Rightarrow> conn_in \<Rightarrow> mosh_conn \<Rightarrow> mosh_conn" where
  "mosh_in starts w (Open s) c = snd (mosh_connect starts s c)"
| "mosh_in starts w Lost c = (if p_proc c then change_state Closed c else c)"
| "mosh_in starts w (Arrived b) c = (if p_proc c then qemit (DataReceived b) c else c)"
| "mosh_in starts w (Send b) c = snd (mosh_send w b c)"
| "mosh_in starts w Close c = mosh_disconnect c"
| "mosh_in starts w _ c = c"

section \<open>Every connection announces its state\<close>

lemma announced_simple [announced_intro]:
  "announced a c \<Longrightarrow> announced a (c\<lparr>m_sock := k\<rparr>)" "announced a c \<Longrightarrow> announced a (c\<lparr>m_awaitingAck := k\<rparr>)"
  "announced a c \<Longrightarrow> announced a (c\<lparr>m_session := s\<rparr>)"
  by (simp_all add: announced_def told_def)

lemma announced_fields [announced_intro]:
  "announced a t \<Longrightarrow> announced a (t\<lparr>t_sock := k\<rparr>)" "announced a t \<Longrightarrow> announced a (t\<lparr>t_proto := x\<rparr>)"
  "announced b f \<Longrightarrow> announced b (f\<lparr>f_sock := k\<rparr>)" "announced b f \<Longrightarrow> announced b (f\<lparr>f_username := u\<rparr>)"
  "announced b f \<Longrightarrow> announced b (f\<lparr>f_sentUser := k\<rparr>)" "announced d s \<Longrightarrow> announced d (s\<lparr>s_port := k\<rparr>)"
  "announced e m \<Longrightarrow> announced e (m\<lparr>p_proc := k\<rparr>)"
  by (simp_all add: announced_def told_def)

lemma announced_write [announced_intro]: "announced a c \<Longrightarrow> announced a (sock_write b c)"
  by (simp add: sock_write_def announced_intro)

lemma simple_in_announced: "announced c (simple_in h w i c)"
  by (cases i)
    (simp_all add: simple_connect_def simple_connected_def simple_onReadyRead_def simple_send_def simple_disconnect_def
      Let_def announced_intro)

lemma telnet_in_announced: "announced c (telnet_in w i c)"
  by (cases i)
    (simp_all add: telnet_connect_def telnet_onReadyRead_def telnet_send_def telnet_disconnect_def case_prod_unfold Let_def announced_intro)

lemma ftpc_in_announced: "announced c (ftpc_in h w i c)"
  by (cases i)
    (simp_all add: ftpc_connect_def ftpc_onReadyRead_def ftpc_send_def ftpc_disconnect_def Let_def announced_intro)

lemma serial_in_announced: "announced c (serial_in ops w i c)"
  by (cases i)
    (simp_all add: serial_connect_def serial_onReadyRead_def serial_send_def serial_disconnect_def Let_def announced_intro split: option.split)

lemma mosh_in_announced: "announced c (mosh_in starts w i c)"
  by (cases i) (simp_all add: mosh_connect_def mosh_send_def mosh_disconnect_def Let_def announced_intro)

interpretation simple: announcing ic_state told "\<lambda>c c'. \<exists>i. c' = simple_in h w i c"
  using simple_in_announced by unfold_locales (auto simp: announced_def)

interpretation telnetc: announcing ic_state told "\<lambda>c c'. \<exists>i. c' = telnet_in w i c"
  using telnet_in_announced by unfold_locales (auto simp: announced_def)

interpretation ftpc: announcing ic_state told "\<lambda>c c'. \<exists>i. c' = ftpc_in h w i c"
  using ftpc_in_announced by unfold_locales (auto simp: announced_def)

interpretation serial: announcing ic_state told "\<lambda>c c'. \<exists>i. c' = serial_in ops w i c"
  using serial_in_announced by unfold_locales (auto simp: announced_def)

interpretation mosh: announcing ic_state told "\<lambda>c c'. \<exists>i. c' = mosh_in starts w i c"
  using mosh_in_announced by unfold_locales (auto simp: announced_def)

lemma fold_steps: "(\<lambda>c c'. \<exists>i. c' = f i c)\<^sup>*\<^sup>* c (fold f is c)"
  by (induction "is" arbitrary: c) (auto intro: converse_rtranclp_into_rtranclp)

definition knows_state :: "'a iconn_scheme \<Rightarrow> bool" where
  "knows_state c \<longleftrightarrow> last (Disconnected # told c) = ic_state c \<and> successively (\<noteq>) (Disconnected # told c)"

definition new_serial :: serial_conn where
  "new_serial = \<lparr>ic_state = Disconnected, ic_log = [], s_port = False\<rparr>"

definition new_mosh :: mosh_conn where
  "new_mosh = \<lparr>ic_state = Disconnected, ic_log = [], p_proc = False\<rparr>"

text \<open>C14: Whatever happens to a connection, who listens to its state changes knows its state, and is
  never told of a change that is none: for rlogin, rsh, Telnet, FTP, serial and Mosh connections.\<close>

theorem connections_announce:
  "knows_state (fold (simple_in h w) is (new_simple t)) \<and> knows_state (fold (telnet_in w) is new_telnet) \<and>
   knows_state (fold (ftpc_in h w) is new_ftp_conn) \<and> knows_state (fold (serial_in ops w) is new_serial) \<and>
   knows_state (fold (mosh_in starts w) is new_mosh)"
  using simple.listener_knows [OF fold_steps, where s = "new_simple t"] telnetc.listener_knows [OF fold_steps, where s = new_telnet]
    ftpc.listener_knows [OF fold_steps, where s = new_ftp_conn] serial.listener_knows [OF fold_steps, where s = new_serial]
    mosh.listener_knows [OF fold_steps, where s = new_mosh]
  by (simp add: knows_state_def new_simple_def new_telnet_def new_ftp_conn_def new_serial_def new_mosh_def told_def)

section \<open>One connected session\<close>

text \<open>What happens between the call that connects and the one that disconnects.\<close>

fun in_session :: "conn_in \<Rightarrow> bool" where
  "in_session (Open s) = False"
| "in_session Close = False"
| "in_session _ = True"

fun read_of :: "conn_in \<Rightarrow> bytes" where
  "read_of (Arrived b) = b"
| "read_of _ = []"

fun typed_of :: "conn_in \<Rightarrow> bytes" where
  "typed_of (Send b) = b"
| "typed_of _ = []"

definition arrived :: "conn_in list \<Rightarrow> bytes" where
  "arrived is = concat (map read_of is)"

definition typed :: "conn_in list \<Rightarrow> bytes" where
  "typed is = concat (map typed_of is)"

lemma stream_simps [simp]:
  "arrived [] = []" "arrived (i # is) = read_of i @ arrived is" "typed [] = []" "typed (i # is) = typed_of i @ typed is"
  by (simp_all add: arrived_def typed_def)

lemma log_signal [simp]:
  "shown (qemit e c) = shown c @ (case e of DataReceived b \<Rightarrow> b | _ \<Rightarrow> [])"
  "sent (qemit e c) = sent c @ (case e of Sent b \<Rightarrow> b | _ \<Rightarrow> [])"
  by (simp_all add: shown_def sent_def qemit_def)

lemma log_state [simp]:
  "shown (change_state s c) = shown c" "sent (change_state s c) = sent c"
  "shown (fail_conn m c) = shown c" "sent (fail_conn m c) = sent c"
  by (simp_all add: change_state_def fail_conn_def) (simp_all add: shown_def sent_def)

lemma log_write [simp]: "shown (sock_write b c) = shown c" "sent (sock_write b c) = sent c @ b"
  by (simp_all add: sock_write_def)

lemma fields_kept [simp]:
  "iconn.more (qemit e c) = iconn.more c" "iconn.more (change_state s c) = iconn.more c"
  "iconn.more (fail_conn m c) = iconn.more c" "iconn.more (sock_write b c) = iconn.more c"
  by (simp_all add: qemit_def change_state_def fail_conn_def sock_write_def)

lemma telnet_kept [simp]:
  "t_sock (qemit e c) = t_sock c" "t_proto (qemit e c) = t_proto c"
  "t_sock (change_state s c) = t_sock c" "t_proto (change_state s c) = t_proto c"
  "t_sock (fail_conn m c) = t_sock c" "t_proto (fail_conn m c) = t_proto c"
  "t_sock (sock_write b c) = t_sock c" "t_proto (sock_write b c) = t_proto c"
  by (simp_all add: qemit_def change_state_def fail_conn_def sock_write_def)

lemma telnet_log_fields [simp]:
  "shown (c\<lparr>t_sock := k\<rparr>) = shown c" "sent (c\<lparr>t_sock := k\<rparr>) = sent c"
  "shown (c\<lparr>t_proto := x\<rparr>) = shown c" "sent (c\<lparr>t_proto := x\<rparr>) = sent c"
  by (simp_all add: shown_def sent_def)

lemma shuffles_append_left: "zs \<in> shuffles xs ys \<Longrightarrow> zs @ us \<in> shuffles (xs @ us) ys"
proof (induction xs ys arbitrary: zs rule: shuffles.induct)
  case (1 ys)
  then show ?case by (induction ys arbitrary: zs) (auto intro: Cons_in_shuffles_rightI)
next
  case (2 xs)
  then show ?case by simp
next
  case (3 x xs y ys)
  then show ?case by auto
qed

lemma shuffles_append_right: "zs \<in> shuffles xs ys \<Longrightarrow> zs @ us \<in> shuffles xs (ys @ us)"
  using shuffles_append_left shuffles_commutes by metis

lemma process_step:
  "appData (snd (process st (b @ bs))) = appData (snd (process st b)) @ appData (snd (process (fst (process st b)) bs))"
  "response (snd (process st (b @ bs))) = response (snd (process st b)) @ response (snd (process (fst (process st b)) bs))"
  "fst (process st (b @ bs)) = fst (process (fst (process st b)) bs)"
  by (simp_all add: process_append result_cat_def case_prod_unfold Let_def)

lemma telnet_session:
  assumes "list_all in_session is" and "t_sock c"
  shows "shown (fold (telnet_in w) is c) = shown c @ appData (snd (process (t_proto c) (arrived is)))"
    and "t_proto (fold (telnet_in w) is c) = fst (process (t_proto c) (arrived is))"
    and "t_sock (fold (telnet_in w) is c)"
    and "zs \<in> shuffles as ts \<Longrightarrow> sent c = zs \<Longrightarrow>
      sent (fold (telnet_in w) is c) \<in> shuffles (as @ response (snd (process (t_proto c) (arrived is)))) (ts @ typed is)"
proof -
  have one: "shown (telnet_in w i c) = shown c @ appData (snd (process (t_proto c) (read_of i))) \<and>
      t_proto (telnet_in w i c) = fst (process (t_proto c) (read_of i)) \<and> t_sock (telnet_in w i c) \<and>
      sent (telnet_in w i c) = sent c @ response (snd (process (t_proto c) (read_of i))) @ typed_of i"
    if "in_session i" "t_sock c" for i c
    using that by (cases i) (simp_all add: telnet_onReadyRead_def telnet_send_def case_prod_unfold Let_def)
  show "shown (fold (telnet_in w) is c) = shown c @ appData (snd (process (t_proto c) (arrived is)))"
    "t_proto (fold (telnet_in w) is c) = fst (process (t_proto c) (arrived is))" "t_sock (fold (telnet_in w) is c)"
    using assms by (induction "is" arbitrary: c) (simp_all add: one process_step)
  show "zs \<in> shuffles as ts \<Longrightarrow> sent c = zs \<Longrightarrow>
      sent (fold (telnet_in w) is c) \<in> shuffles (as @ response (snd (process (t_proto c) (arrived is)))) (ts @ typed is)"
    using assms
  proof (induction "is" arbitrary: c zs as ts)
    case (Cons i "is")
    let ?r = "response (snd (process (t_proto c) (read_of i)))"
    have "zs @ ?r @ typed_of i \<in> shuffles (as @ ?r) (ts @ typed_of i)"
      using shuffles_append_right [OF shuffles_append_left [OF Cons.prems(1), of ?r]] by (metis append.assoc)
    with Cons.IH [OF this, of "telnet_in w i c"] Cons.prems show ?case by (simp add: one process_step)
  qed simp
qed

text \<open>C13: A Telnet session shows the data of the server's stream and answers its option requests,
  however the stream is cut and whatever else happens in between: what it sends is the answers and what the
  user types, each in its order.\<close>

theorem telnet_session_stream:
  assumes "list_all wf_item items" and "arrived is = concat (map wire items)" and "list_all in_session is"
  shows "shown (fold (telnet_in w) (Open s # is) new_telnet) = concat (map item_data items) \<and>
    sent (fold (telnet_in w) (Open s # is) new_telnet) \<in> shuffles (concat (map item_answer items)) (typed is)"
proof -
  let ?c = "telnet_connect s new_telnet"
  have c: "t_sock ?c" "t_proto ?c = St_Data" "shown ?c = []" "sent ?c = []"
    by (simp_all add: telnet_connect_def new_telnet_def) (simp_all add: shown_def sent_def)
  show ?thesis
    using telnet_session(1) [OF assms(3) c(1)] telnet_session(4) [OF assms(3) c(1), of "[]" "[]" "[]"]
    by (simp add: c(2-4) process_items [OF assms(1)] assms(2))
qed

text \<open>The Telnet state machine is not reset by a new connection: after a session that was cut
  inside a subnegotiation, a server that sends no \<open>IAC\<close> is never shown.\<close>

theorem telnet_reconnect_swallows:
  assumes "list_all in_session is" and "fst (process St_Data (arrived is)) = St_Sb"
    and "list_all in_session js" and "IAC \<notin> set (arrived js)"
  shows "shown (fold (telnet_in w) (Open s # is @ [Close, Open s'] @ js) new_telnet) =
    shown (fold (telnet_in w) (Open s # is) new_telnet)"
proof -
  have sb: "process St_Sb bs = (St_Sb, result_nil)" if "IAC \<notin> set bs" for bs
    using that by (induction bs) (simp_all add: process_def)
  let ?c = "fold (telnet_in w) is (telnet_connect s new_telnet)"
  let ?d = "telnet_connect s' (telnet_disconnect ?c)"
  have "t_sock (telnet_connect s new_telnet)" "t_proto (telnet_connect s new_telnet) = St_Data"
    by (simp_all add: telnet_connect_def new_telnet_def)
  then have "t_proto ?c = St_Sb" using telnet_session(2) [OF assms(1)] assms(2) by simp
  then have "t_sock ?d" "t_proto ?d = St_Sb" "shown ?d = shown ?c"
    by (simp_all add: telnet_connect_def telnet_disconnect_def)
  then have "shown (fold (telnet_in w) js ?d) = shown ?c"
    using telnet_session(1) [OF assms(3)] sb [OF assms(4)] by simp
  then show ?thesis by simp
qed

section \<open>The status byte of rlogin and rsh\<close>

lemma simple_kept [simp]:
  "m_sock (qemit e c) = m_sock c" "m_awaitingAck (qemit e c) = m_awaitingAck c"
  "m_sock (change_state s c) = m_sock c" "m_awaitingAck (change_state s c) = m_awaitingAck c"
  "m_sock (fail_conn m c) = m_sock c" "m_awaitingAck (fail_conn m c) = m_awaitingAck c"
  "m_sock (sock_write b c) = m_sock c" "m_awaitingAck (sock_write b c) = m_awaitingAck c"
  "shown (c\<lparr>m_sock := k\<rparr>) = shown c" "shown (c\<lparr>m_awaitingAck := k\<rparr>) = shown c" "shown (c\<lparr>m_session := x\<rparr>) = shown c"
  by (simp_all add: qemit_def change_state_def fail_conn_def sock_write_def shown_def)

lemma simple_quiet:
  "in_session i \<Longrightarrow> read_of i = [] \<Longrightarrow>
   m_sock (simple_in h w i c) = m_sock c \<and> m_awaitingAck (simple_in h w i c) = m_awaitingAck c \<and> shown (simple_in h w i c) = shown c"
  by (cases i) (simp_all add: simple_connected_def simple_onReadyRead_def simple_send_def Let_def)

lemma simple_read:
  "in_session i \<Longrightarrow> m_sock c \<Longrightarrow> \<not> m_awaitingAck c \<Longrightarrow>
   m_sock (simple_in h w i c) \<and> \<not> m_awaitingAck (simple_in h w i c) \<and> shown (simple_in h w i c) = shown c @ read_of i"
  by (cases i) (simp_all add: simple_connected_def simple_onReadyRead_def simple_send_def Let_def)

lemma simple_first:
  "m_sock c \<Longrightarrow> m_awaitingAck c \<Longrightarrow> b \<noteq> [] \<Longrightarrow>
   m_sock (simple_in h w (Arrived b) c) \<and> \<not> m_awaitingAck (simple_in h w (Arrived b) c) \<and>
   shown (simple_in h w (Arrived b) c) = shown c @ (if hd b = 0 then tl b else [])"
  by (simp add: simple_onReadyRead_def Let_def)

lemma simple_streams:
  "list_all in_session is \<Longrightarrow> m_sock c \<Longrightarrow> \<not> m_awaitingAck c \<Longrightarrow> shown (fold (simple_in h w) is c) = shown c @ arrived is"
  by (induction "is" arbitrary: c) (simp_all add: simple_read)

lemma read_nonempty: "read_of i \<noteq> [] \<Longrightarrow> \<exists>b. i = Arrived b \<and> b \<noteq> []"
  by (cases i) auto

lemma simple_acknowledged:
  "list_all in_session is \<Longrightarrow> m_sock c \<Longrightarrow> m_awaitingAck c \<Longrightarrow> arrived is = 0 # data \<Longrightarrow>
   shown (fold (simple_in h w) is c) = shown c @ data"
proof (induction "is" arbitrary: c)
  case (Cons i "is")
  show ?case
  proof (cases "read_of i = []")
    case True
    with Cons.prems simple_quiet [of i h w c] show ?thesis by (simp add: Cons.IH)
  next
    case False
    then obtain b where b: "i = Arrived b" "b \<noteq> []" using read_nonempty by blast
    then have "hd b = 0" "tl b @ arrived is = data" using Cons.prems(4) by (cases b; simp)+
    then show ?thesis using simple_first [OF Cons.prems(2,3) b(2), of h w] Cons.prems(1) b(1) simple_streams by auto
  qed
qed simp

lemma simple_opened:
  "m_sock (simple_connect s (new_simple t))" "m_awaitingAck (simple_connect s (new_simple t)) = expectsAckByte t"
  "shown (simple_connect s (new_simple t)) = []"
  by (simp_all add: simple_connect_def new_simple_def) (simp add: shown_def)

text \<open>An rlogin or rsh session that the server accepts - its first byte is zero - shows exactly
  what follows that byte, and an XDMCP session all of the stream, however it is cut.\<close>

theorem simple_session_stream:
  assumes "list_all in_session is" and "arrived is = (if expectsAckByte t then 0 # data else data)"
  shows "shown (fold (simple_in h w) (Open s # is) (new_simple t)) = data"
  using assms simple_opened [of s t] simple_streams simple_acknowledged by (cases "expectsAckByte t") simp_all

text \<open>A server that refuses, with a first byte that is not zero, makes the connection fail, but it
  is not closed: the rest of the read that brought the byte is dropped, and every later read is shown.\<close>

theorem simple_refusal_shown:
  assumes "expectsAckByte t" and "x \<noteq> 0" and "list_all in_session is"
  shows "shown (fold (simple_in h w) (Open s # Arrived (x # b) # is) (new_simple t)) = arrived is \<and>
    ic_state (fold (simple_in h w) [Open s, Arrived (x # b)] (new_simple t)) = Failed \<and>
    m_sock (fold (simple_in h w) [Open s, Arrived (x # b)] (new_simple t))"
proof -
  let ?c = "simple_connect s (new_simple t)" and ?i = "Arrived (x # b)"
  have f: "m_sock (simple_in h w ?i ?c)" "\<not> m_awaitingAck (simple_in h w ?i ?c)" "shown (simple_in h w ?i ?c) = []"
    using simple_first [of ?c "x # b" h w] simple_opened [of s t] assms(1,2) by simp_all
  have "ic_state (simple_in h w ?i ?c) = Failed"
    using assms(1,2) simple_opened [of s t] by (simp add: simple_onReadyRead_def fail_conn_def change_state_def qemit_def Let_def)
  with f simple_streams [OF assms(3) f(1,2)] show ?thesis by simp
qed

text \<open>The two handshakes that open a session have their fields between zero bytes: a server reads
  back the names, the terminal and the command.\<close>

theorem handshake_fields:
  assumes "0 \<notin> set (toUtf8 h (param s ''username''))" and "0 \<notin> set (toUtf8 h (param_def s ''localuser'' (param s ''username'')))"
    and "0 \<notin> set (toUtf8 h (param s ''remotecommand''))"
  shows "split_on 0 (startupHandshake h Rlogin s) =
      [[], toUtf8 h (param s ''username''), toUtf8 h (param s ''username''), to_latin1 ''xterm-256color/38400'', []] \<and>
    split_on 0 (startupHandshake h Rsh s) =
      [to_latin1 ''0'', toUtf8 h (param_def s ''localuser'' (param s ''username'')), toUtf8 h (param s ''username''),
       toUtf8 h (param s ''remotecommand''), []]"
proof -
  define tt where "tt = to_latin1 ''xterm-256color/38400''"
  define z where "z = to_latin1 ''0''"
  have t: "0 \<notin> set tt" "0 \<notin> set z" unfolding tt_def z_def by code_simp+
  have sep: "0 \<notin> set p \<Longrightarrow> split_on 0 (p @ 0 # r) = p # split_on 0 r" for p r :: bytes by simp
  have "split_on 0 (startupHandshake h Rlogin s) = [[], toUtf8 h (param s ''username''), toUtf8 h (param s ''username''), tt, []]"
    using assms(1) t sep [of "[]"] sep by (simp add: startupHandshake_def Let_def tt_def [symmetric] del: list.map)
  moreover have "split_on 0 (startupHandshake h Rsh s) = [z, toUtf8 h (param_def s ''localuser'' (param s ''username'')),
      toUtf8 h (param s ''username''), toUtf8 h (param s ''remotecommand''), []]"
    using assms t sep by (simp add: startupHandshake_def Let_def z_def [symmetric] del: list.map)
  ultimately show ?thesis by (simp only: tt_def z_def)
qed

section \<open>The user name of an FTP dialogue\<close>

lemma ftpc_kept [simp]:
  "f_sock (qemit e c) = f_sock c" "f_username (qemit e c) = f_username c" "f_sentUser (qemit e c) = f_sentUser c"
  "f_sock (change_state s c) = f_sock c" "f_username (change_state s c) = f_username c" "f_sentUser (change_state s c) = f_sentUser c"
  "f_sock (fail_conn m c) = f_sock c" "f_username (fail_conn m c) = f_username c" "f_sentUser (fail_conn m c) = f_sentUser c"
  "f_sock (sock_write b c) = f_sock c" "f_username (sock_write b c) = f_username c" "f_sentUser (sock_write b c) = f_sentUser c"
  "sent (c\<lparr>f_sentUser := k\<rparr>) = sent c" "shown (c\<lparr>f_sentUser := k\<rparr>) = shown c"
  "sent (c\<lparr>f_sock := k\<rparr>) = sent c" "shown (c\<lparr>f_sock := k\<rparr>) = shown c"
  "sent (c\<lparr>f_username := u\<rparr>) = sent c" "shown (c\<lparr>f_username := u\<rparr>) = shown c"
  by (simp_all add: qemit_def change_state_def fail_conn_def sock_write_def shown_def sent_def)

definition greets :: "conn_in \<Rightarrow> bool" where
  "greets i \<longleftrightarrow> has_part (to_latin1 ''220'') (read_of i)"

lemma ftpc_session:
  assumes "list_all in_session is" and "typed is = []" and "f_sock c"
  shows "shown (fold (ftpc_in h w) is c) = shown c @ arrived is \<and>
    sent (fold (ftpc_in h w) is c) =
      sent c @ (if \<not> f_sentUser c \<and> f_username c \<noteq> [] \<and> list_ex greets is then user_line h (f_username c) else [])"
  using assms
proof (induction "is" arbitrary: c)
  case (Cons i "is")
  have none: "\<not> has_part (to_latin1 ''220'') []" by simp
  have "f_sock (ftpc_in h w i c) \<and> f_username (ftpc_in h w i c) = f_username c \<and>
      shown (ftpc_in h w i c) = shown c @ read_of i \<and>
      f_sentUser (ftpc_in h w i c) = (f_sentUser c \<or> f_username c \<noteq> [] \<and> greets i) \<and>
      sent (ftpc_in h w i c) = sent c @ (if \<not> f_sentUser c \<and> f_username c \<noteq> [] \<and> greets i then user_line h (f_username c) else [])"
    using Cons.prems none by (cases i) (auto simp: ftpc_onReadyRead_def ftpc_send_def greets_def Let_def simp del: has_part.simps)
  then show ?case using Cons by (cases "greets i"; cases "f_username c = []") simp_all
qed simp

text \<open>An FTP dialogue in which the user types nothing shows all that the server sends, and sends
  the name of the user exactly once, when a read - not two reads that follow each other - holds
  the digits 220, and never without.\<close>

theorem ftp_user_sent_once:
  assumes "list_all in_session is" and "typed is = []"
  shows "shown (fold (ftpc_in h w) (Open s # is) new_ftp_conn) = arrived is \<and>
    sent (fold (ftpc_in h w) (Open s # is) new_ftp_conn) =
      (if param s ''username'' \<noteq> [] \<and> list_ex greets is then user_line h (param s ''username'') else [])"
proof -
  let ?c = "ftpc_connect s new_ftp_conn"
  have "f_sock ?c" "f_username ?c = param s ''username''" "\<not> f_sentUser ?c" "shown ?c = []" "sent ?c = []"
    by (simp_all add: ftpc_connect_def new_ftp_conn_def) (simp_all add: shown_def sent_def)
  with ftpc_session [OF assms, of ?c h w] show ?thesis by simp
qed

lemma serial_baud: "0 < baud (parseConfig s) \<and> baud (parseConfig s) < 2 ^ 31"
proof -
  have "to_int x = Some n \<Longrightarrow> n < 2 ^ 31" for x n
    by (auto simp: to_int_def fitsInt_def Let_def split: option.splits if_splits)
  then show ?thesis by (fastforce simp: parseConfig_def Let_def split: option.split)
qed

section \<open>Concrete runs\<close>

definition demo_tcp :: Session where
  "demo_tcp = new_session ''s'' Telnet"

definition demo_writer :: writer where
  "demo_writer b = int (length b)"

theorem telnet_session_stream_witness:
  "shown (fold (telnet_in demo_writer) [Open demo_tcp, Arrived [104, IAC], Send [13], Arrived [WILL, OPT_ECHO, 105]] new_telnet) = [104, 105]"
  using telnet_session_stream [of "[Plain 104, Negotiation WILL OPT_ECHO, Plain 105]"
      "[Arrived [104, IAC], Send [13], Arrived [WILL, OPT_ECHO, 105]]" demo_writer demo_tcp] by simp

theorem telnet_reconnect_swallows_witness:
  "shown (fold (telnet_in demo_writer) [Open demo_tcp, Arrived [104, IAC, SB, 24], Close, Open demo_tcp, Arrived [105, 106]] new_telnet) =
   shown (fold (telnet_in demo_writer) [Open demo_tcp, Arrived [104, IAC, SB, 24]] new_telnet)"
  using telnet_reconnect_swallows [of "[Arrived [104, IAC, SB, 24]]" "[Arrived [105, 106]]" demo_writer demo_tcp demo_tcp]
  by (simp add: process_def)

theorem simple_session_stream_witness:
  "shown (fold (simple_in ini_host demo_writer) [Open demo_tcp, Established, Arrived [], Arrived [0], Arrived [104], Lost] (new_simple Rlogin)) = [104]"
  using simple_session_stream [of "[Established, Arrived [], Arrived [0], Arrived [104], Lost]" Rlogin "[104]" ini_host demo_writer demo_tcp]
  by (simp add: expectsAckByte_def)

theorem simple_refusal_shown_witness:
  "shown (fold (simple_in ini_host demo_writer) [Open demo_tcp, Arrived [1, 104], Arrived [105]] (new_simple Rsh)) = [105]"
proof -
  have "expectsAckByte Rsh" "list_all in_session [Arrived [105]]" by (simp_all add: expectsAckByte_def)
  from simple_refusal_shown [OF this(1) _ this(2), of 1 ini_host demo_writer demo_tcp "[104]"]
  show ?thesis by (simp only: one_neq_zero not_False_eq_True simp_thms fold_simps stream_simps read_of.simps append_Nil2)
qed

theorem ftp_user_sent_once_witness:
  "sent (fold (ftpc_in ini_host demo_writer) [Open (setParam ''username'' ''u'' demo_tcp), Arrived [50, 50], Arrived [48, 32]] new_ftp_conn) = []"
  using ftp_user_sent_once [of "[Arrived [50, 50], Arrived [48, 32]]" ini_host demo_writer "setParam ''username'' ''u'' demo_tcp"]
  by (simp add: greets_def byte_of_char_def)

end
