(* ===== verification/Ssh_Lib.thy ===== *)
theory Ssh_Lib
  imports Connection Tunnels Ini_Store
begin

text \<open>
  What the SSH clients of the program use of libssh2 and of sockets. The library is not modelled;
  its objects - sockets, sessions, channels, SFTP sessions, handles - are numbered, and what a
  client does with them is a log of calls, against which the rules of the library are checked: an
  object is used and released while it is alive, it is released once, and before the object it was
  made from. What the peer answers is a record of results that the definitions take as an argument.
\<close>

section \<open>Objects and calls\<close>

datatype kind = KSocket | KSession | KChannel | KSftp | KHandle | KListener

datatype handle = Handle (h_kind: kind) (h_id: nat) (h_owner: "handle option")

datatype request =
    Handshake
  | AuthKey bytes bytes bytes
  | AuthPassword bytes bytes
  | AuthInteractive bytes bytes
  | AuthAgent bytes
  | DirectTcp bytes int
  | RequestPty int int
  | PtySize int int
  | RequestX11
  | ForwardAgent
  | StartShell
  | StartExec bytes
  | Compress
  | Keepalive int
  | Bye
  | Transfer

datatype call = Acquire handle | Request handle request | Release handle

record lib =
  l_calls :: "call list"
  l_next :: nat

definition empty_lib :: lib where
  "empty_lib = \<lparr>l_calls = [], l_next = 0\<rparr>"

definition acquire :: "kind \<Rightarrow> handle option \<Rightarrow> lib \<Rightarrow> handle \<times> lib" where
  "acquire k owner l =
     (let h = Handle k (l_next l) owner in (h, \<lparr>l_calls = l_calls l @ [Acquire h], l_next = l_next l + 1\<rparr>))"

definition request :: "handle \<Rightarrow> request \<Rightarrow> lib \<Rightarrow> lib" where
  "request h r l = l\<lparr>l_calls := l_calls l @ [Request h r]\<rparr>"

definition release :: "handle \<Rightarrow> lib \<Rightarrow> lib" where
  "release h l = l\<lparr>l_calls := l_calls l @ [Release h]\<rparr>"

section \<open>The rules\<close>

text \<open>The objects alive after a log, from those alive before; \<open>None\<close> when a call breaks a rule.\<close>

definition call_ok :: "handle set \<Rightarrow> call \<Rightarrow> handle set option" where
  "call_ok L c =
     (case c of
        Acquire h \<Rightarrow> if h \<notin> L \<and> (case h_owner h of None \<Rightarrow> True | Some p \<Rightarrow> p \<in> L) then Some (insert h L) else None
      | Request h _ \<Rightarrow> if h \<in> L then Some L else None
      | Release h \<Rightarrow> if h \<in> L \<and> (\<forall>x \<in> L. h_owner x \<noteq> Some h) then Some (L - {h}) else None)"

fun calls_ok :: "handle set \<Rightarrow> call list \<Rightarrow> handle set option" where
  "calls_ok L [] = Some L"
| "calls_ok L (c # cs) = (case call_ok L c of None \<Rightarrow> None | Some L \<Rightarrow> calls_ok L cs)"

lemma calls_ok_append: "calls_ok L (cs @ ds) = (case calls_ok L cs of None \<Rightarrow> None | Some M \<Rightarrow> calls_ok M ds)"
  by (induction cs arbitrary: L) (simp_all split: option.split)

text \<open>\<open>holds L l\<close>: the calls so far broke no rule, and the objects of \<open>L\<close> are those alive.\<close>

definition holds :: "handle set \<Rightarrow> lib \<Rightarrow> bool" where
  "holds L l \<longleftrightarrow> calls_ok {} (l_calls l) = Some L \<and> (\<forall>h \<in> L. h_id h < l_next l) \<and>
     (\<forall>h \<in> L. \<forall>p. h_owner h = Some p \<longrightarrow> p \<in> L)"

named_theorems lib_rules "what the calls do to the objects alive"

lemma holds_empty [lib_rules]: "holds {} empty_lib"
  by (simp add: holds_def empty_lib_def)

lemma owner_not_self: "h_owner h \<noteq> Some h"
proof
  assume o: "h_owner h = Some h"
  have "size h = Suc (size_option size (h_owner h))" by (cases h) simp
  with o show False by simp
qed

lemma holds_acquire:
  assumes "holds L l" and "case p of None \<Rightarrow> True | Some x \<Rightarrow> x \<in> L" and "acquire k p l = (h, l')"
  shows "holds (insert h L) l'" and "h \<notin> L" and "h_owner h = p" and "\<forall>x \<in> L. h_owner x \<noteq> Some h"
proof -
  have h: "h = Handle k (l_next l) p" "l' = \<lparr>l_calls = l_calls l @ [Acquire h], l_next = l_next l + 1\<rparr>"
    using assms(3) by (auto simp: acquire_def Let_def)
  then show new: "h \<notin> L" using assms(1) by (fastforce simp: holds_def)
  then show "\<forall>x \<in> L. h_owner x \<noteq> Some h" using assms(1) by (auto simp: holds_def)
  show "h_owner h = p" by (simp add: h(1))
  have "calls_ok {} (l_calls l) = Some L" "\<forall>x \<in> L. h_id x < l_next l" "\<forall>x \<in> L. \<forall>q. h_owner x = Some q \<longrightarrow> q \<in> L"
    using assms(1) by (simp_all add: holds_def)
  moreover from this(1) have "calls_ok {} (l_calls l') = Some (insert h L)"
    using new assms(2) by (simp add: h calls_ok_append call_ok_def)
  moreover have "\<forall>q. p = Some q \<longrightarrow> q \<in> L" using assms(2) by auto
  ultimately show "holds (insert h L) l'" by (auto simp: holds_def h less_Suc_eq)
qed

lemma holds_request [lib_rules]: "holds L l \<Longrightarrow> h \<in> L \<Longrightarrow> holds L (request h r l)"
  by (simp add: holds_def request_def calls_ok_append call_ok_def)

lemma holds_release:
  assumes "holds (insert h L) l" and "h \<notin> L" and "\<forall>x \<in> L. h_owner x \<noteq> Some h"
  shows "holds L (release h l)"
  using assms owner_not_self [of h]
  by (auto simp: holds_def release_def calls_ok_append call_ok_def) blast

section \<open>Clients\<close>

text \<open>
  The contract of a client that keeps objects between its calls: what it holds is what is alive.
  Then no call it makes breaks a rule, and when it holds nothing, nothing it made is left.
\<close>

locale ssh_client =
  fixes held :: "'s \<Rightarrow> handle set" and lib_of :: "'s \<Rightarrow> lib" and wf :: "'s \<Rightarrow> bool" and step :: "'s \<Rightarrow> 's \<Rightarrow> bool"
  assumes step_holds: "wf s \<Longrightarrow> holds (held s) (lib_of s) \<Longrightarrow> step s s' \<Longrightarrow> wf s' \<and> holds (held s') (lib_of s')"
begin

lemma steps_hold: "step\<^sup>*\<^sup>* s s' \<Longrightarrow> wf s \<Longrightarrow> holds (held s) (lib_of s) \<Longrightarrow> wf s' \<and> holds (held s') (lib_of s')"
  by (induction rule: rtranclp_induct) (auto dest: step_holds)

lemma no_leak:
  assumes "step\<^sup>*\<^sup>* s s'" and "wf s" and "holds (held s) (lib_of s)"
  shows "calls_ok {} (l_calls (lib_of s')) = Some (held s')"
  using steps_hold [OF assms] by (simp add: holds_def)

end

section \<open>The peer\<close>

datatype dialled = NoHost | Refused | Dialled

record peer =
  p_dial :: "bytes \<Rightarrow> int \<Rightarrow> dialled"
  p_session :: bool
  p_handshake :: bool
  p_key :: "bytes \<Rightarrow> bytes \<Rightarrow> bytes \<Rightarrow> bool"
  p_password :: "bytes \<Rightarrow> bytes \<Rightarrow> bool"
  p_interactive :: "bytes \<Rightarrow> bytes \<Rightarrow> bool"
  p_agent :: "bool list option"
  p_tcp :: "bytes \<Rightarrow> int \<Rightarrow> bool"
  p_sftp :: bool
  p_channel :: bool
  p_shell :: bool
  p_exec :: "bytes \<Rightarrow> bool"

text \<open>\<open>connectTcp\<close> of \<open>src/src/platform/Net.cpp\<close>, as its callers see it.\<close>

definition connectTcp :: "peer \<Rightarrow> bytes \<Rightarrow> int \<Rightarrow> lib \<Rightarrow> handle option \<times> lib" where
  "connectTcp p hn pt l =
     (if p_dial p hn pt = Dialled then (case acquire KSocket None l of (k, l) \<Rightarrow> (Some k, l)) else (None, l))"

text \<open>The credentials of a session: its key file, or else its password.\<close>

definition authSession :: "host \<Rightarrow> peer \<Rightarrow> handle \<Rightarrow> Session \<Rightarrow> lib \<Rightarrow> bool \<times> lib" where
  "authSession h p sess srv l =
     (let user = toUtf8 h (param srv ''username''); key = toUtf8 h (param srv ''keyfile'')
      in if key \<noteq> [] then
           let pass = toUtf8 h (param srv ''passphrase'') in (p_key p user key pass, request sess (AuthKey user key pass) l)
         else let pw = toUtf8 h (param srv ''password'') in (p_password p user pw, request sess (AuthPassword user pw) l))"

lemma holds_auth [lib_rules]: "holds L l \<Longrightarrow> s \<in> L \<Longrightarrow> holds L (snd (authSession h p s srv l))"
  by (simp add: authSession_def Let_def holds_request)

end
