(* ===== verification/Ssh_Relay.thy ===== *)
theory Ssh_Relay
  imports Ssh_Lib "HOL-Library.Sublist"
begin

text \<open>
  Moving bytes between a socket and an SSH channel, as \<open>SshTunnel.cpp\<close> and \<open>SshConnection.cpp\<close> do
  it in four places. A write to a channel that is not ready is tried again at once and for ever:
  its results are a script, and a script that runs out is a loop that does not end (\<open>None\<close>).
\<close>

section \<open>Writing all of a buffer\<close>

definition EAGAIN :: int where
  "EAGAIN = - 37"

text \<open>Whether it failed, what was written, and the rest of the script.\<close>

fun write_all :: "bytes \<Rightarrow> int list \<Rightarrow> (bool \<times> bytes \<times> int list) option" where
  "write_all [] res = Some (False, [], res)"
| "write_all data [] = None"
| "write_all data (w # res) =
     (if w = EAGAIN then write_all data res
      else if w < 0 then Some (True, [], res)
      else map_option (\<lambda>(bad, out, res). (bad, take (nat w) data @ out, res)) (write_all (drop (nat w) data) res))"

lemma write_all_prefix: "write_all data res = Some (bad, out, rest) \<Longrightarrow> (\<exists>t. data = out @ t) \<and> (\<not> bad \<longrightarrow> out = data)"
proof (induction data res arbitrary: out rule: write_all.induct)
  case (3 v va w res)
  let ?d = "v # va"
  show ?case
  proof (cases "w = EAGAIN \<or> w < 0")
    case True
    with 3 show ?thesis by (auto split: if_splits)
  next
    case False
    then obtain o2 where o: "write_all (drop (nat w) ?d) res = Some (bad, o2, rest)" "out = take (nat w) ?d @ o2"
      using 3(3) by (auto simp del: drop_Cons' take_Cons')
    with 3(2) False have ih: "(\<exists>t. drop (nat w) ?d = o2 @ t) \<and> (\<not> bad \<longrightarrow> o2 = drop (nat w) ?d)" by blast
    then obtain t where t: "drop (nat w) ?d = o2 @ t" by blast
    then have "?d = out @ t" using o(2) by (metis append.assoc append_take_drop_id)
    moreover have "\<not> bad \<Longrightarrow> out = ?d" using ih o(2) by (metis append_take_drop_id)
    ultimately show ?thesis by blast
  qed
qed auto

text \<open>A channel that never gets ready, however often it is asked.\<close>

lemma write_all_spins: "data \<noteq> [] \<Longrightarrow> write_all data (replicate n EAGAIN) = None"
  by (induction n) (cases data; simp)+

section \<open>A relay\<close>

text \<open>
  \<open>pumpRelay\<close>. A round looks at the flag that stops it, takes what the client sent if anything
  (nothing, when it has closed), hands it to the channel, and then reads the channel until it has
  no more; each of these reads is sent to the client, which takes a number of its bytes.
\<close>

datatype chan_read = Chunk bytes nat | NotReady | ChanEnd

record relay_round =
  r_stop :: bool
  r_client :: "bytes option"
  r_chan :: "chan_read list"
  r_eof :: bool

fun read_chan :: "chan_read list \<Rightarrow> bool \<times> bytes \<times> bytes" where
  "read_chan [] = (False, [], [])"
| "read_chan (NotReady # _) = (False, [], [])"
| "read_chan (ChanEnd # _) = (True, [], [])"
| "read_chan (Chunk b k # rs) = (let (closed, got, to) = read_chan rs in (closed, b @ got, take k b @ to))"

text \<open>What the channel and the client have been given when the relay ends, or when the rounds do.\<close>

fun pumpRelay :: "relay_round list \<Rightarrow> int list \<Rightarrow> (bytes \<times> bytes) option" where
  "pumpRelay [] res = Some ([], [])"
| "pumpRelay (r # rs) res =
     (if r_stop r then Some ([], [])
      else let go = (\<lambda>chan res.
             let (closed, _, to) = read_chan (r_chan r)
             in if closed \<or> r_eof r then Some (chan, to)
                else map_option (\<lambda>(c, t). (chan @ c, to @ t)) (pumpRelay rs res))
           in case r_client r of
                None \<Rightarrow> go [] res
              | Some b \<Rightarrow>
                  if b = [] then Some ([], [])
                  else (case write_all b res of
                          None \<Rightarrow> None
                        | Some (bad, out, res) \<Rightarrow> if bad then Some (out, []) else go out res))"

text \<open>The two streams as they would arrive whole.\<close>

definition client_stream :: "relay_round list \<Rightarrow> bytes" where
  "client_stream rs = concat (map (\<lambda>r. case r_client r of None \<Rightarrow> [] | Some b \<Rightarrow> b) rs)"

definition chan_stream :: "relay_round list \<Rightarrow> bytes" where
  "chan_stream rs = concat (map (\<lambda>r. fst (snd (read_chan (r_chan r)))) rs)"

definition takes_all :: "relay_round \<Rightarrow> bool" where
  "takes_all r \<longleftrightarrow> list_all (\<lambda>c. case c of Chunk b k \<Rightarrow> length b \<le> k | _ \<Rightarrow> True) (r_chan r)"

lemma stream_Cons:
  "client_stream (r # rs) = (case r_client r of None \<Rightarrow> [] | Some b \<Rightarrow> b) @ client_stream rs"
  "chan_stream (r # rs) = fst (snd (read_chan (r_chan r))) @ chan_stream rs"
  by (simp_all add: client_stream_def chan_stream_def)

lemma read_chan_all:
  "list_all (\<lambda>c. case c of Chunk b k \<Rightarrow> length b \<le> k | _ \<Rightarrow> True) cs \<Longrightarrow> read_chan cs = (closed, got, to) \<Longrightarrow> to = got"
  by (induction cs arbitrary: closed got to rule: read_chan.induct) (auto split: prod.splits)

lemma read_chan_some: "read_chan cs = (closed, got, to) \<Longrightarrow> subseq to got"
proof (induction cs arbitrary: closed got to rule: read_chan.induct)
  case (4 b k rs)
  obtain c g t where r: "read_chan rs = (c, g, t)" by (metis surj_pair)
  have "subseq (take k b) b" using take_is_prefix by (rule prefix_imp_subseq)
  then show ?case using 4 r by (auto intro: list_emb_append_mono)
qed auto

text \<open>C12: A relay that ends has given the channel a beginning of what the client sent: nothing is added, left out in
  between or reordered. The client has got nothing but what the channel gave, in order, and a beginning of it if its
  socket always took all it was sent; of bytes that it does not take at once the rest is dropped, see below.\<close>

theorem relay_faithful:
  assumes "pumpRelay rs res = Some (chan, to)"
  shows "(\<exists>t. client_stream rs = chan @ t) \<and> subseq to (chan_stream rs) \<and>
    (list_all takes_all rs \<longrightarrow> (\<exists>t. chan_stream rs = to @ t))"
  using assms
proof (induction rs arbitrary: res chan to)
  case (Cons r rs)
  obtain closed got given where rc: "read_chan (r_chan r) = (closed, got, given)" by (metis surj_pair)
  have same: "given = got" if "takes_all r" using read_chan_all [OF _ rc] that by (simp add: takes_all_def)
  define go where "go = (\<lambda>chan res. if closed \<or> r_eof r then Some (chan, given)
    else map_option (\<lambda>(c, t). (chan @ c, given @ t)) (pumpRelay rs res))"
  have step: "(\<exists>t. c @ client_stream rs = chan @ t) \<and> subseq to (chan_stream (r # rs)) \<and>
      (list_all takes_all (r # rs) \<longrightarrow> (\<exists>t. chan_stream (r # rs) = to @ t))"
    if g: "go c res' = Some (chan, to)" for c res'
  proof (cases "closed \<or> r_eof r")
    case True
    with g same read_chan_some [OF rc] show ?thesis by (auto simp: go_def stream_Cons rc)
  next
    case False
    then obtain c1 t1 where p: "pumpRelay rs res' = Some (c1, t1)" "chan = c @ c1" "to = given @ t1"
      using g by (auto simp: go_def)
    with Cons.IH [OF p(1)] same read_chan_some [OF rc] show ?thesis by (auto simp: stream_Cons rc intro: list_emb_append_mono)
  qed
  show ?case
  proof (cases "r_stop r \<or> r_client r = Some []")
    case True
    then have "chan = [] \<and> to = []" using Cons.prems(1) by (auto simp: Let_def split: if_splits)
    then show ?thesis by simp
  next
    case False
    have run: "pumpRelay (r # rs) res = (case r_client r of None \<Rightarrow> go [] res
        | Some b \<Rightarrow> (case write_all b res of None \<Rightarrow> None | Some (bad, out, res) \<Rightarrow> if bad then Some (out, []) else go out res))"
      using False by (auto simp: rc go_def split: option.split)
    show ?thesis
    proof (cases "r_client r")
      case None
      with run Cons.prems(1) step [of "[]" res] show ?thesis by (simp add: stream_Cons)
    next
      case (Some b)
      then obtain bad out res' where w: "write_all b res = Some (bad, out, res')"
        using run Cons.prems(1) by (auto split: option.splits)
      obtain t where t: "b = out @ t" using write_all_prefix [OF w] by blast
      show ?thesis
      proof (cases bad)
        case True
        with run Some w Cons.prems(1) t show ?thesis by (simp add: stream_Cons)
      next
        case bad: False
        then have "out = b" using write_all_prefix [OF w] by simp
        with run Some w Cons.prems(1) bad step [of b res'] show ?thesis by (simp add: stream_Cons)
      qed
    qed
  qed
qed (simp add: client_stream_def chan_stream_def)

text \<open>Of bytes that the client cannot take at once the rest is dropped, and the relay goes on with
  what comes next: the client misses a piece in the middle.\<close>

theorem relay_drops_rest:
  assumes "\<not> r_stop r" and "r_client r = None" and "r_chan r = [Chunk b k, NotReady]" and "\<not> r_eof r"
    and "pumpRelay rs res = Some (chan, to)"
  shows "pumpRelay (r # rs) res = Some (chan, take k b @ to)"
  using assms by (simp add: Let_def)

text \<open>A relay whose channel never gets ready to take the client's bytes does not end, and does not
  see that it is stopped: the flag is looked at between the rounds only.\<close>

theorem relay_unstoppable:
  assumes "\<not> r_stop r" and "r_client r = Some b" and "b \<noteq> []"
  shows "pumpRelay (r # rs) (replicate n EAGAIN) = None"
  using assms write_all_spins [OF assms(3), of n] by (simp add: Let_def)

section \<open>The relay of a gateway\<close>

text \<open>
  The thread of \<open>SshConnection::openViaJump\<close> that stands between the gateway's channel and the socket pair
  of the target's session. A round takes what the session wrote if anything (nothing, when it has
  closed), and one read of the channel, of which the pair takes a number of bytes. A write to the channel that fails
  ends the writing of this buffer only.
\<close>

record jump_round =
  jr_stop :: bool
  jr_recv :: "bytes option"
  jr_read :: "(bytes \<times> nat) option"
  jr_eof :: bool

fun jump_pump :: "jump_round list \<Rightarrow> int list \<Rightarrow> (bytes \<times> bytes) option" where
  "jump_pump [] res = Some ([], [])"
| "jump_pump (r # rs) res =
     (if jr_stop r \<or> jr_recv r = Some [] then Some ([], [])
      else case write_all (case jr_recv r of None \<Rightarrow> [] | Some b \<Rightarrow> b) res of
             None \<Rightarrow> None
           | Some (_, out, res) \<Rightarrow>
               (case jr_read r of
                  Some (b, k) \<Rightarrow> map_option (\<lambda>(c, t). (out @ c, take k b @ t)) (jump_pump rs res)
                | None \<Rightarrow> if jr_eof r then Some (out, []) else map_option (\<lambda>(c, t). (out @ c, t)) (jump_pump rs res)))"

definition session_stream :: "jump_round list \<Rightarrow> bytes" where
  "session_stream rs = concat (map (\<lambda>r. case jr_recv r of None \<Rightarrow> [] | Some b \<Rightarrow> b) rs)"

definition never_fails :: "int list \<Rightarrow> bool" where
  "never_fails res \<longleftrightarrow> list_all (\<lambda>w. 0 \<le> w \<or> w = EAGAIN) res"

lemma write_all_never_fails: "write_all b res = Some (bad, out, res') \<Longrightarrow> never_fails res \<Longrightarrow> \<not> bad \<and> never_fails res'"
  by (induction b res arbitrary: out rule: write_all.induct) (auto simp: never_fails_def split: if_splits)

text \<open>As long as no write fails, the gateway is given the session's bytes, all and in order.\<close>

lemma jump_faithful:
  "jump_pump rs res = Some (chan, to) \<Longrightarrow> never_fails res \<Longrightarrow> \<exists>t. session_stream rs = chan @ t"
proof (induction rs arbitrary: res chan to)
  case (Cons r rs)
  let ?b = "case jr_recv r of None \<Rightarrow> [] | Some b \<Rightarrow> b"
  have s: "session_stream (r # rs) = ?b @ session_stream rs" by (simp add: session_stream_def)
  show ?case
  proof (cases "jr_stop r \<or> jr_recv r = Some []")
    case False
    then obtain bad out res' where w: "write_all ?b res = Some (bad, out, res')"
      using Cons.prems(1) by (auto split: option.splits)
    have out: "out = ?b" "never_fails res'" using write_all_prefix [OF w] write_all_never_fails [OF w Cons.prems(2)] by simp_all
    show ?thesis
    proof (cases "jr_read r = None \<and> jr_eof r")
      case True
      then have "chan = out" using Cons.prems(1) False w by simp
      then show ?thesis by (simp add: s out)
    next
      case more: False
      then obtain c t where j: "jump_pump rs res' = Some (c, t)" "chan = out @ c"
        using Cons.prems(1) False w by (cases "jr_read r") (auto split: if_splits)
      with Cons.IH [OF j(1) out(2)] show ?thesis by (auto simp: s out)
    qed
  qed (use Cons.prems in simp)
qed (simp add: session_stream_def)

text \<open>After a write that fails, the gateway is given what comes after a piece that is missing.\<close>

lemma jump_leaves_hole:
  assumes "\<not> jr_stop r" and "jr_recv r = Some b" and "b \<noteq> []" and "write_all b res = Some (True, out, res')"
    and "jump_pump rs res' = Some (chan, to)" and "jr_read r = None" and "\<not> jr_eof r"
  shows "jump_pump (r # rs) res = Some (out @ chan, to)"
  using assms by simp

section \<open>Objects of a session\<close>

lemma chain_distinct:
  "h_owner k = None \<Longrightarrow> h_owner s = Some k \<Longrightarrow> h_owner f = Some s \<Longrightarrow> k \<noteq> s \<and> k \<noteq> f \<and> s \<noteq> f"
  using owner_not_self by (metis option.distinct(1))

lemma holds_fresh_sock:
  "acquire KSocket None l = (k, l') \<Longrightarrow> holds L l \<Longrightarrow> holds (insert k L) l' \<and> k \<notin> L \<and> h_owner k = None \<and> (\<forall>x \<in> L. h_owner x \<noteq> Some k)"
  using holds_acquire [of L l None KSocket k l'] by simp

lemma connectTcp_holds:
  assumes "connectTcp p hn pt l = (r, l')" and "holds L l"
  shows "case r of None \<Rightarrow> l' = l | Some fd \<Rightarrow> holds (insert fd L) l' \<and> fd \<notin> L \<and> h_owner fd = None \<and> (\<forall>x \<in> L. h_owner x \<noteq> Some fd)"
proof (cases "p_dial p hn pt = Dialled")
  case True
  obtain k m where a: "acquire KSocket None l = (k, m)" by fastforce
  with assms(1) True have "r = Some k" "l' = m" by (simp_all add: connectTcp_def)
  with holds_fresh_sock [OF a assms(2)] show ?thesis by simp
qed (use assms(1) in \<open>simp add: connectTcp_def\<close>)

text \<open>A session on a socket, over objects that have nothing to do with it.\<close>

lemma session_released:
  assumes "holds (insert s (insert k L)) l" and "h_owner s = Some k" and "h_owner k = None"
    and "s \<notin> L" and "k \<notin> L" and "\<forall>x \<in> L. h_owner x \<noteq> Some s" and "\<forall>x \<in> L. h_owner x \<noteq> Some k"
  shows "holds L (release k (release s l))"
proof -
  have "s \<noteq> k" using assms(2,3) by auto
  then have "holds (insert k L) (release s l)" using holds_release [OF assms(1)] assms by auto
  then show ?thesis using holds_release assms(5,7) by blast
qed

lemma release_session:
  assumes "holds {s, k} l" and "h_owner k = None" and "h_owner s = Some k"
  shows "holds {} (release k (release s l))" and "holds {} (release k (release s (request s r l)))"
proof -
  have "k \<noteq> s" using assms(2,3) by auto
  then have "holds {k} (release s l')" if "holds {s, k} l'" for l' using holds_release [OF that] assms(2) by simp
  then have "holds {} (release k (release s l'))" if "holds {s, k} l'" for l' using holds_release [of k "{}"] that by simp
  then show "holds {} (release k (release s l))" "holds {} (release k (release s (request s r l)))"
    using assms(1) holds_request [OF assms(1), of s r] by simp_all
qed

lemma transfer_holds:
  assumes "acquire k (Some f) (request f r l) = (d, l1)" and "holds L l" and "f \<in> L"
  shows "holds L (release d l1)" and "holds L (release d (request d q l1))"
proof -
  have a: "holds (insert d L) l1" "d \<notin> L" "\<forall>x \<in> L. h_owner x \<noteq> Some d"
    using holds_acquire [OF holds_request [OF assms(2,3)] _ assms(1)] assms(3) by auto
  then show "holds L (release d l1)" "holds L (release d (request d q l1))"
    using holds_release [OF a] holds_release [OF holds_request [OF a(1), of d q] a(2,3)] by simp_all
qed

text \<open>Pairs of a channel and a socket, over other objects \<open>B\<close>, the session of the channels among them.\<close>

fun pairs_ok :: "handle \<Rightarrow> handle set \<Rightarrow> (handle \<times> handle) list \<Rightarrow> bool" where
  "pairs_ok s B [] \<longleftrightarrow> s \<in> B"
| "pairs_ok s B ((c, f) # ps) \<longleftrightarrow>
     s \<in> B \<and> c \<notin> B \<and> f \<notin> B \<and> c \<noteq> f \<and> h_owner c = Some s \<and> h_owner f = None \<and>
     (\<forall>x \<in> B. h_owner x \<noteq> Some c \<and> h_owner x \<noteq> Some f) \<and> pairs_ok s (insert c (insert f B)) ps"

definition with_pairs :: "(handle \<times> handle) list \<Rightarrow> handle set \<Rightarrow> handle set" where
  "with_pairs ps B = fst ` set ps \<union> snd ` set ps \<union> B"

lemma with_pairs_simps [simp]:
  "with_pairs [] B = B" "with_pairs ((c, f) # ps) B = with_pairs ps (insert c (insert f B))"
  by (auto simp: with_pairs_def)

lemma with_pairs_insert: "with_pairs ps (insert c (insert f B)) = insert c (insert f (with_pairs ps B))"
  by (auto simp: with_pairs_def)

lemma pairs_ok_mem:
  "pairs_ok s B ps \<Longrightarrow> p \<in> set ps \<Longrightarrow> fst p \<notin> B \<and> snd p \<notin> B \<and> h_owner (fst p) = Some s \<and> h_owner (snd p) = None"
  by (induction s B ps rule: pairs_ok.induct) auto

lemma pairs_ok_less: "pairs_ok s B ps \<Longrightarrow> s \<in> C \<Longrightarrow> C \<subseteq> B \<Longrightarrow> pairs_ok s C ps"
proof (induction s B ps arbitrary: C rule: pairs_ok.induct)
  case (2 s B c f ps)
  from 2(1) [of "insert c (insert f C)"] 2(2-4) show ?case by auto
qed simp

lemma pairs_ok_snoc:
  "pairs_ok s B ps \<Longrightarrow> c \<notin> with_pairs ps B \<Longrightarrow> f \<notin> with_pairs ps B \<Longrightarrow> c \<noteq> f \<Longrightarrow> h_owner c = Some s \<Longrightarrow> h_owner f = None \<Longrightarrow>
   \<forall>x \<in> with_pairs ps B. h_owner x \<noteq> Some c \<and> h_owner x \<noteq> Some f \<Longrightarrow> pairs_ok s B (ps @ [(c, f)])"
  by (induction s B ps rule: pairs_ok.induct) simp_all

lemma release_pair:
  assumes "pairs_ok s B ((c, f) # ps)" and "holds (with_pairs ((c, f) # ps) B) l"
  shows "pairs_ok s B ps \<and> holds (with_pairs ps B) (release f (release c l)) \<and> holds (with_pairs ps B) (release c (release f l))"
proof -
  have ok: "s \<in> B" "c \<notin> B" "f \<notin> B" "c \<noteq> f" "h_owner c = Some s" "h_owner f = None"
    "\<forall>x \<in> B. h_owner x \<noteq> Some c \<and> h_owner x \<noteq> Some f" "pairs_ok s (insert c (insert f B)) ps"
    using assms(1) by simp_all
  let ?A = "with_pairs ps B"
  have mem: "fst p \<notin> insert c (insert f B) \<and> snd p \<notin> insert c (insert f B) \<and> h_owner (fst p) = Some s \<and> h_owner (snd p) = None"
    if "p \<in> set ps" for p using pairs_ok_mem [OF ok(8) that] .
  then have out: "c \<notin> ?A" "f \<notin> ?A" using ok(2,3) by (fastforce simp: with_pairs_def)+
  have "s \<noteq> c" "s \<noteq> f" using ok(1-3) by auto
  then have own: "\<forall>x \<in> ?A. h_owner x \<noteq> Some c \<and> h_owner x \<noteq> Some f" using mem ok(7) by (fastforce simp: with_pairs_def)
  have h: "holds (insert c (insert f ?A)) l" using assms(2) by (simp add: with_pairs_insert)
  then have "holds (insert f ?A) (release c l)" using holds_release out(1) ok(4,6) own by auto
  then have "holds ?A (release f (release c l))" using holds_release out(2) own by blast
  moreover have "h_owner c \<noteq> Some f" using ok(1,3,5) by auto
  then have "holds (insert c ?A) (release f l)" using holds_release [of f "insert c ?A"] h out(2) ok(4) own by (auto simp: insert_commute)
  then have "holds ?A (release c (release f l))" using holds_release out(1) own by blast
  ultimately have "holds ?A (release f (release c l)) \<and> holds ?A (release c (release f l))" ..
  then show ?thesis using pairs_ok_less [OF ok(8,1)] by blast
qed

end
