(* ===== verification/Ftp_Client.thy ===== *)
theory Ftp_Client
  imports Ftp_Server Ini_Store "HOL-Library.Multiset"
begin

text \<open>
  The FTP browser: directory entries (\<open>src/src/sftp/SftpEntry.cpp\<close>) and the client
  (\<open>FtpClient.{h,cpp}\<close>). The control connection delivers lines; \<open>None\<close> among them is a wait
  that times out, and the end of the list is a peer that sends nothing more. A data connection
  delivers chunks in the same way. What the client writes is a log.
\<close>

section \<open>Directory entries\<close>

record SftpEntry =
  e_name :: string
  e_size :: nat
  e_dir :: bool
  e_permissions :: u32
  e_mtime :: int

definition rwx :: "u32 \<Rightarrow> string" where
  "rwx w = [''---'', ''--x'', ''-w-'', ''-wx'', ''r--'', ''r-x'', ''rw-'', ''rwx''] ! unat (w AND 7)"

definition permString :: "SftpEntry \<Rightarrow> string" where
  "permString e =
     (if e_dir e then ''d'' else ''-'') @ rwx (drop_bit 6 (e_permissions e)) @ rwx (drop_bit 3 (e_permissions e)) @ rwx (e_permissions e)"

text \<open>The comparison of \<open>sortListing\<close>, and the sort. Of entries that compare equal, whose order
  \<open>std::sort\<close> leaves open, the first stays first.\<close>

definition entry_less :: "SftpEntry \<Rightarrow> SftpEntry \<Rightarrow> bool" where
  "entry_less a b =
     (if e_name a = ''..'' then e_name b \<noteq> ''..''
      else if e_name b = ''..'' then False
      else if e_dir a \<noteq> e_dir b then e_dir a
      else to_lower (e_name a) < to_lower (e_name b))"

fun insert_entry :: "SftpEntry \<Rightarrow> SftpEntry list \<Rightarrow> SftpEntry list" where
  "insert_entry a [] = [a]"
| "insert_entry a (b # bs) = (if entry_less b a then b # insert_entry a bs else a # b # bs)"

definition sortListing :: "SftpEntry list \<Rightarrow> SftpEntry list" where
  "sortListing es = foldr insert_entry es []"

section \<open>The listing\<close>

text \<open>The expression \<open>\s\<close> and its runs.\<close>

definition ws :: "char \<Rightarrow> bool" where
  "ws c \<longleftrightarrow> of_char c \<in> {9 .. 13 :: nat} \<or> c = CHR '' ''"

fun words_from :: "string \<Rightarrow> string \<Rightarrow> string list" where
  "words_from w [] = (if w = [] then [] else [w])"
| "words_from w (c # cs) = (if ws c then (if w = [] then [] else [w]) @ words_from [] cs else words_from (w @ [c]) cs)"

abbreviation words :: "string \<Rightarrow> string list" where
  "words \<equiv> words_from []"

definition to_ulonglong0 :: "string \<Rightarrow> nat" where
  "to_ulonglong0 s =
     (let t = trimmed s; t = (if t \<noteq> [] \<and> hd t = CHR ''+'' then tl t else t)
      in case nat_of_dec t of None \<Rightarrow> 0 | Some n \<Rightarrow> if n < 2 ^ 64 then n else 0)"

text \<open>The loop that looks for the name: the position behind the blank that begins the eighth gap.\<close>

fun name_start :: "nat \<Rightarrow> char option \<Rightarrow> nat \<Rightarrow> string \<Rightarrow> nat" where
  "name_start i before fld [] = 0"
| "name_start i before fld (c # cs) =
     (if fld < 8 then
        let fld = (if c = CHR '' '' \<and> before \<noteq> Some CHR '' '' then fld + 1 else fld)
        in if fld = 8 then i + 1 else name_start (i + 1) (Some c) fld cs
      else 0)"

definition perm_mode :: "string \<Rightarrow> u32" where
  "perm_mode perms =
     fold (\<lambda>i mode. if i < length perms \<and> perms ! i \<noteq> CHR ''-'' then mode OR push_bit (9 - i) 1 else mode) [1..<10] 0"

definition list_entry :: "string \<Rightarrow> SftpEntry option" where
  "list_entry raw =
     (let line = trimmed raw
      in if line = [] then None
         else let f = words line
              in if length f < 9 then None
                 else let perms = hd f
                      in if length perms < 10 then None
                         else let n = trimmed (drop (name_start 0 None 0 line) line)
                              in if n = [] \<or> n = ''.'' \<or> n = ''..'' then None
                                 else Some \<lparr>e_name = n, e_size = to_ulonglong0 (f ! 4), e_dir = starts_with ''d'' perms,
                                            e_permissions = perm_mode perms, e_mtime = 0\<rparr>)"

definition parseFtpList :: "host \<Rightarrow> bytes \<Rightarrow> SftpEntry list" where
  "parseFtpList h b = sortListing (List.map_filter (\<lambda>raw. list_entry (fromUtf8 h raw)) (split_on 10 b))"

section \<open>The control connection\<close>

text \<open>The socket: null, or whether it is connected.\<close>

record ftp_client =
  m_ctrl :: "bool option"
  m_cwd :: string
  c_in :: "bytes option list"
  c_sent :: "bytes list"
  c_errors :: "string list"

definition isReady :: "ftp_client \<Rightarrow> bool" where
  "isReady c \<longleftrightarrow> m_ctrl c = Some True"

definition reply_code :: "string \<Rightarrow> int" where
  "reply_code line = to_int0 (take 3 line)"

definition has_code :: "string \<Rightarrow> bool" where
  "has_code line \<longleftrightarrow> length line \<ge> 3 \<and> list_all is_digit (take 3 line)"

fun read_loop :: "host \<Rightarrow> int \<Rightarrow> string \<Rightarrow> bytes option list \<Rightarrow> int \<times> string \<times> bytes option list" where
  "read_loop h code acc [] = (code, trimmed acc, [])"
| "read_loop h code acc (None # rest) = (code, trimmed acc, rest)"
| "read_loop h code acc (Some b # rest) =
     (let line = fromUtf8 h b;
          acc = acc @ line;
          code = (if has_code line \<and> code = 0 then reply_code line else code)
      in if has_code line \<and> length line \<ge> 4 \<and> line ! 3 = CHR '' '' \<and> reply_code line = code
         then (code, trimmed acc, rest)
         else read_loop h code acc rest)"

definition readReply :: "host \<Rightarrow> ftp_client \<Rightarrow> int \<times> string \<times> ftp_client" where
  "readReply h c =
     (if m_ctrl c = None then (0, [], c)
      else let (code, txt, rest) = read_loop h 0 [] (c_in c) in (code, txt, c\<lparr>c_in := rest\<rparr>))"

text \<open>A write reaches the peer when the socket is connected.\<close>

definition ctrl_write :: "bytes \<Rightarrow> ftp_client \<Rightarrow> ftp_client" where
  "ctrl_write b c = (if m_ctrl c = Some True then c\<lparr>c_sent := c_sent c @ [b]\<rparr> else c)"

definition command_line :: "host \<Rightarrow> string \<Rightarrow> string \<Rightarrow> bytes" where
  "command_line h v a = toUtf8 h v @ (if a \<noteq> [] then to_latin1 '' '' @ toUtf8 h a else []) @ to_latin1 crlf"

definition sendCmd :: "host \<Rightarrow> string \<Rightarrow> string \<Rightarrow> ftp_client \<Rightarrow> int \<times> string \<times> ftp_client" where
  "sendCmd h v a c = (if m_ctrl c = None then (0, [], c) else readReply h (ctrl_write (command_line h v a) c))"

definition ftp_error :: "string \<Rightarrow> ftp_client \<Rightarrow> ftp_client" where
  "ftp_error m c = c\<lparr>c_errors := c_errors c @ [m]\<rparr>"

definition ftp_disconnect :: "host \<Rightarrow> ftp_client \<Rightarrow> ftp_client" where
  "ftp_disconnect h c = (ctrl_write (toUtf8 h ''QUIT'' @ to_latin1 crlf) c)\<lparr>m_ctrl := None, c_in := []\<rparr>"

text \<open>What is quoted in the answer to \<open>PWD\<close>.\<close>

definition quoted :: "string \<Rightarrow> string option" where
  "quoted s =
     (case (index_of CHR 0x22 s, last_index_of CHR 0x22 s) of
        (Some a, Some b) \<Rightarrow> if b > a then Some (take (b - a - 1) (drop (a + 1) s)) else None
      | _ \<Rightarrow> None)"

definition ftp_login :: "host \<Rightarrow> Session \<Rightarrow> ftp_client \<Rightarrow> bool \<times> ftp_client" where
  "ftp_login h s c =
     (let user = (if param s ''username'' = [] then ''anonymous'' else param s ''username'');
          (code, _, c) = sendCmd h ''USER'' user c;
          (code, c) = (if code = 331 then (let (code, _, c) = sendCmd h ''PASS'' (param s ''password'') c in (code, c)) else (code, c))
      in if code div 100 \<noteq> 2 then (False, ftp_error ''FTP login failed'' c)
         else let (_, _, c) = sendCmd h ''TYPE'' ''I'' c;
                  (code, pwd, c) = sendCmd h ''PWD'' [] c
              in (True, if code = 257 then (case quoted pwd of None \<Rightarrow> c | Some d \<Rightarrow> c\<lparr>m_cwd := d\<rparr>) else c))"

text \<open>\<open>connectSession\<close>: the lines of the peer, if there is a connection.\<close>

definition ftp_connect :: "host \<Rightarrow> bytes option list option \<Rightarrow> Session \<Rightarrow> ftp_client \<Rightarrow> bool \<times> ftp_client" where
  "ftp_connect h peer s c =
     (let c = ftp_disconnect h c
      in case peer of
           None \<Rightarrow> (False, ftp_error ''FTP connect failed'' (c\<lparr>m_ctrl := Some False\<rparr>))
         | Some lines \<Rightarrow>
             let (code, _, c) = readReply h (c\<lparr>m_ctrl := Some True, c_in := lines\<rparr>)
             in if code div 100 \<noteq> 2 then (False, ftp_error ''No FTP greeting'' c) else ftp_login h s c)"

section \<open>Transfers\<close>

text \<open>Where a passive reply points to: host and port.\<close>

definition pasv_target :: "string \<Rightarrow> (string \<times> u16) option" where
  "pasv_target txt =
     (case (index_of CHR ''('' txt, index_of CHR '')'' txt) of
        (Some a, Some b) \<Rightarrow>
          if b < a then None
          else let n = split_on CHR '','' (take (b - a - 1) (drop (a + 1) txt))
               in if length n < 6 then None
                  else Some (join_with ''.'' (take 4 n), of_int (to_int0 (n ! 4) * 256) OR of_int (to_int0 (n ! 5)))
      | _ \<Rightarrow> None)"

text \<open>The connection to it, if one comes about: its chunks.\<close>

type_synonym dialer = "string \<Rightarrow> u16 \<Rightarrow> bytes option list option"

definition openPasv :: "host \<Rightarrow> dialer \<Rightarrow> ftp_client \<Rightarrow> bytes option list option \<times> ftp_client" where
  "openPasv h dial c =
     (let (code, txt, c) = sendCmd h ''PASV'' [] c
      in if code \<noteq> 227 then (None, c)
         else (case pasv_target txt of None \<Rightarrow> None | Some (a, p) \<Rightarrow> dial a p, c))"

text \<open>The receiving loop ends with the connection or with a wait that times out.\<close>

fun received :: "bytes option list \<Rightarrow> bytes" where
  "received [] = []"
| "received (None # _) = []"
| "received (Some b # rest) = b @ received rest"

definition ftp_list :: "host \<Rightarrow> dialer \<Rightarrow> string \<Rightarrow> ftp_client \<Rightarrow> SftpEntry list option \<times> ftp_client" where
  "ftp_list h dial path c =
     (if \<not> isReady c then (None, c)
      else case openPasv h dial c of
             (None, c) \<Rightarrow> (None, ftp_error ''PASV failed'' c)
           | (Some chunks, c) \<Rightarrow>
               let (code, _, c) = sendCmd h ''LIST'' path c
               in if code \<noteq> 150 \<and> code \<noteq> 125 then (None, ftp_error ''LIST failed'' c)
                  else let (_, _, c) = readReply h c in (Some (parseFtpList h (received chunks)), c))"

text \<open>The local file is its new content; \<open>opens\<close> says whether it can be written, and read.\<close>

definition ftp_download :: "host \<Rightarrow> dialer \<Rightarrow> bool \<Rightarrow> string \<Rightarrow> ftp_client \<Rightarrow> (int \<times> bytes option) \<times> ftp_client" where
  "ftp_download h dial opens path c =
     (if \<not> isReady c then ((- 1, None), c)
      else case openPasv h dial c of
             (None, c) \<Rightarrow> ((- 1, None), c)
           | (Some chunks, c) \<Rightarrow>
               let (code, _, c) = sendCmd h ''RETR'' path c
               in if code div 100 \<noteq> 1 then ((- 1, None), c)
                  else if \<not> opens then ((- 1, None), c)
                  else let (_, _, c) = readReply h c in ((int (length (received chunks)), Some (received chunks)), c))"

definition ftp_upload :: "host \<Rightarrow> dialer \<Rightarrow> bytes option \<Rightarrow> string \<Rightarrow> ftp_client \<Rightarrow> (int \<times> bytes option) \<times> ftp_client" where
  "ftp_upload h dial file path c =
     (if \<not> isReady c then ((- 1, None), c)
      else case file of None \<Rightarrow> ((- 1, None), c) | Some body \<Rightarrow>
        (case openPasv h dial c of
           (None, c) \<Rightarrow> ((- 1, None), c)
         | (Some chunks, c) \<Rightarrow>
             let (code, _, c) = sendCmd h ''STOR'' path c
             in if code div 100 \<noteq> 1 then ((- 1, None), c)
                else let (_, _, c) = readReply h c in ((int (length body), Some body), c)))"

section \<open>Other requests\<close>

definition ftp_realpath :: "string \<Rightarrow> ftp_client \<Rightarrow> string" where
  "ftp_realpath path c = (if path = ''.'' then m_cwd c else path)"

definition done_2xx :: "int \<times> string \<times> ftp_client \<Rightarrow> bool \<times> ftp_client" where
  "done_2xx r = (fst r div 100 = 2, snd (snd r))"

definition ftp_makeDir :: "host \<Rightarrow> string \<Rightarrow> ftp_client \<Rightarrow> bool \<times> ftp_client" where
  "ftp_makeDir h path c = done_2xx (sendCmd h ''MKD'' path c)"

definition ftp_removeFile :: "host \<Rightarrow> string \<Rightarrow> ftp_client \<Rightarrow> bool \<times> ftp_client" where
  "ftp_removeFile h path c = done_2xx (sendCmd h ''DELE'' path c)"

definition ftp_removeDir :: "host \<Rightarrow> string \<Rightarrow> ftp_client \<Rightarrow> bool \<times> ftp_client" where
  "ftp_removeDir h path c = done_2xx (sendCmd h ''RMD'' path c)"

definition ftp_rename :: "host \<Rightarrow> string \<Rightarrow> string \<Rightarrow> ftp_client \<Rightarrow> bool \<times> ftp_client" where
  "ftp_rename h a b c =
     (let (code, _, c) = sendCmd h ''RNFR'' a c
      in if code = 350 then done_2xx (sendCmd h ''RNTO'' b c) else (False, c))"

fun oct_of_nat :: "nat \<Rightarrow> string" where
  "oct_of_nat n = (if n < 8 then [char_of (48 + n)] else oct_of_nat (n div 8) @ [char_of (48 + n mod 8)])"

declare oct_of_nat.simps [simp del]

definition ftp_chmod :: "host \<Rightarrow> string \<Rightarrow> u32 \<Rightarrow> ftp_client \<Rightarrow> bool \<times> ftp_client" where
  "ftp_chmod h path mode c = done_2xx (sendCmd h ''SITE'' (''CHMOD '' @ oct_of_nat (unat mode) @ '' '' @ path) c)"

section \<open>Sorting\<close>

lemma mset_insert_entry: "mset (insert_entry a es) = add_mset a (mset es)"
  by (induction es) auto

lemma mset_sortListing: "mset (sortListing es) = mset es"
  by (induction es) (simp_all add: sortListing_def mset_insert_entry)

lemma entry_less_irrefl: "\<not> entry_less a a"
  by (simp add: entry_less_def)

lemma entry_less_trans: "entry_less a b \<Longrightarrow> entry_less b c \<Longrightarrow> entry_less a c"
  by (auto simp: entry_less_def split: if_splits)

lemma entry_incomp: "\<not> entry_less b a \<Longrightarrow> \<not> entry_less c b \<Longrightarrow> \<not> entry_less c a"
  by (auto simp: entry_less_def split: if_splits)

abbreviation listed :: "SftpEntry list \<Rightarrow> bool" where
  "listed \<equiv> sorted_wrt (\<lambda>a b. \<not> entry_less b a)"

lemma listed_insert: "listed es \<Longrightarrow> listed (insert_entry a es)"
proof (induction es)
  case (Cons b es)
  have s: "set (insert_entry a es) = insert a (set es)" by (metis mset_insert_entry set_mset_add_mset_insert set_mset_mset)
  show ?case
  proof (cases "entry_less b a")
    case True
    then have "\<not> entry_less a b" using entry_less_trans entry_less_irrefl by blast
    with True Cons s show ?thesis by simp
  next
    case False
    then have "\<forall>x \<in> set es. \<not> entry_less x a" using Cons.prems entry_incomp by (meson sorted_wrt.simps(2))
    with False Cons.prems show ?thesis by simp
  qed
qed simp

lemma listed_sortListing: "listed (sortListing es)"
  by (induction es) (simp_all add: sortListing_def listed_insert)

section \<open>Reading the server's listing\<close>

abbreviation blank :: char where
  "blank \<equiv> CHR '' ''"

definition token :: "string \<Rightarrow> bool" where
  "token p \<longleftrightarrow> p \<noteq> [] \<and> list_all (\<lambda>c. \<not> ws c) p"

lemma ws_blank [simp]: "ws blank"
  by (simp add: ws_def)

lemma words_token: "list_all (\<lambda>c. \<not> ws c) p \<Longrightarrow> words_from w (p @ blank # r) = (if w @ p = [] then [] else [w @ p]) @ words r"
  by (induction p arbitrary: w) auto

lemma words_blanks: "words (replicate k blank @ r) = words r"
  by (induction k) auto

lemma words_from_nonempty: "w \<noteq> [] \<Longrightarrow> words_from w r \<noteq> []"
  by (induction r arbitrary: w) auto

lemma name_start_token:
  "list_all (\<lambda>c. \<not> ws c) p \<Longrightarrow> p \<noteq> [] \<or> before \<noteq> Some blank \<Longrightarrow> fld < 8 \<Longrightarrow>
   name_start i before fld (p @ blank # r) =
     (if fld = 7 then i + length p + 1 else name_start (i + length p + 1) (Some blank) (fld + 1) r)"
proof (induction p arbitrary: i before)
  case (Cons c p)
  then have "c \<noteq> blank" by auto
  with Cons show ?case by simp
qed simp

lemma name_start_blanks: "fld < 8 \<Longrightarrow> name_start i (Some blank) fld (replicate k blank @ r) = name_start (i + k) (Some blank) fld r"
  by (induction k arbitrary: i) simp_all

definition listing_text :: "bool \<Rightarrow> nat \<Rightarrow> string \<Rightarrow> string \<Rightarrow> string \<Rightarrow> string \<Rightarrow> string" where
  "listing_text isDir sz m d t n =
     (if isDir then ''d'' else ''-'') @ ''rw-r--r-- 1 owner group '' @ pad_left 12 (dec_of_nat sz) @ blank # m @ blank # d @ blank # t @ blank # n"

lemma token_dec: "token (dec_of_nat n)"
proof -
  have "is_digit c \<Longrightarrow> \<not> ws c" for c by (auto simp: is_digit_def ws_def Let_def)
  then show ?thesis using dec_of_nat_digits by (auto simp: token_def list_all_iff)
qed

lemma token_consts: "token ''drw-r--r--''" "token ''-rw-r--r--''" "token ''1''" "token ''owner''" "token ''group''"
  by (simp_all add: token_def ws_def)

lemma listing_words:
  assumes "token m" and "token d" and "token t"
  shows "words (listing_text isDir sz m d t n) =
    [if isDir then ''drw-r--r--'' else ''-rw-r--r--'', ''1'', ''owner'', ''group'', dec_of_nat sz, m, d, t] @ words n"
proof -
  define P where "P = (if isDir then ''drw-r--r--'' else ''-rw-r--r--'')"
  have "token P" using token_consts by (simp add: P_def)
  moreover have "listing_text isDir sz m d t n = P @ blank # ''1'' @ blank # ''owner'' @ blank # ''group'' @ blank #
      replicate (12 - length (dec_of_nat sz)) blank @ dec_of_nat sz @ blank # m @ blank # d @ blank # t @ blank # n"
    by (simp add: listing_text_def P_def pad_left_def)
  moreover have "words (''1'' @ blank # r) = ''1'' # words r" "words (''owner'' @ blank # r) = ''owner'' # words r"
    "words (''group'' @ blank # r) = ''group'' # words r" for r
    using token_consts words_token by (simp_all only: token_def) auto
  ultimately show ?thesis
    using assms token_dec [of sz] unfolding token_def P_def [symmetric]
    by (simp only: words_token words_blanks) simp
qed

lemma listing_name_start:
  assumes "token m" and "token d" and "token t"
  shows "drop (name_start 0 None 0 (listing_text isDir sz m d t n)) (listing_text isDir sz m d t n) = n"
proof -
  define P where "P = (if isDir then ''drw-r--r--'' else ''-rw-r--r--'')"
  define a b c where "a = ''1''" and "b = ''owner''" and "c = ''group''"
  define z where "z = dec_of_nat sz"
  define k where "k = 12 - length (dec_of_nat sz)"
  define Q where "Q = P @ blank # a @ blank # b @ blank # c @ blank # replicate k blank @ z @ blank # m @ blank # d @ blank # t @ [blank]"
  have l: "listing_text isDir sz m d t n = Q @ n"
    by (simp add: listing_text_def Q_def P_def pad_left_def a_def b_def c_def z_def k_def)
  have "token P" "token a" "token b" "token c" "token z"
    using token_consts token_dec by (simp_all add: P_def a_def b_def c_def z_def)
  then have "name_start 0 None 0 (Q @ n) = length Q"
    using assms unfolding Q_def token_def append_assoc append_Cons append_Nil
    by (simp add: name_start_token name_start_blanks)
  then show ?thesis by (simp add: l)
qed

lemma perm_mode_listing: "perm_mode ''drw-r--r--'' = 420" "perm_mode ''-rw-r--r--'' = 420"
  by code_simp+

lemma to_ulonglong_dec: "n < 2 ^ 64 \<Longrightarrow> to_ulonglong0 (dec_of_nat n) = n"
proof -
  have "is_digit (hd (dec_of_nat n))" by (rule dec_of_nat_digits [of _ n]) simp
  then have "hd (dec_of_nat n) \<noteq> CHR ''+''" by (auto simp: is_digit_def)
  then show "n < 2 ^ 64 \<Longrightarrow> ?thesis" by (simp add: to_ulonglong0_def Let_def)
qed

text \<open>An entry of the server's directory whose line the client can read.\<close>

definition listable :: "string \<times> bool \<times> nat \<times> string \<Rightarrow> bool" where
  "listable fi \<longleftrightarrow>
     (case fi of (n, isDir, sz, stamp) \<Rightarrow>
        n \<noteq> [] \<and> \<not> is_space (hd n) \<and> \<not> is_space (last n) \<and> nl \<notin> set n \<and> n \<noteq> ''.'' \<and> n \<noteq> ''..'' \<and> sz < 2 ^ 64 \<and> nl \<notin> set stamp \<and>
        (\<exists>m d t. token m \<and> token d \<and> token t \<and> stamp = m @ blank # d @ blank # t))"

definition entry_of :: "string \<times> bool \<times> nat \<times> string \<Rightarrow> SftpEntry" where
  "entry_of fi = (case fi of (n, isDir, sz, stamp) \<Rightarrow> \<lparr>e_name = n, e_size = sz, e_dir = isDir, e_permissions = 420, e_mtime = 0\<rparr>)"

lemma list_entry_line:
  assumes "listable fi" and "fi = (n, isDir, sz, m @ blank # d @ blank # t)" and "token m" and "token d" and "token t"
  shows "list_entry (listing_text isDir sz m d t n @ [char_of (13 :: nat)]) = Some (entry_of fi)"
proof -
  let ?l = "listing_text isDir sz m d t n" and ?cr = "char_of (13 :: nat)"
  have n: "n \<noteq> []" "n \<noteq> ''.''" "n \<noteq> ''..''" "sz < 2 ^ 64" and ends: "\<not> is_space (hd n)" "\<not> is_space (last n)"
    using assms(1,2) by (auto simp: listable_def)
  then have tn: "trimmed n = n" by (intro trimmed_id)
  have hd: "\<not> is_space (hd ?l)" "?l \<noteq> []" by (auto simp: listing_text_def is_space_def)
  have last: "last ?l = last n" using n(1) by (simp add: listing_text_def pad_left_def)
  have "is_space ?cr" by code_simp
  then have "dropWhile is_space (rev (?l @ [?cr])) = rev ?l"
    using last ends(2) hd(2) by (simp add: dropWhile_hd hd_rev)
  moreover have "dropWhile is_space (?l @ [?cr]) = ?l @ [?cr]" using hd by (intro dropWhile_hd) simp
  ultimately have tr: "trimmed (?l @ [?cr]) = ?l" by (simp add: trimmed_def)
  have "ws c \<Longrightarrow> is_space c" for c by (auto simp: ws_def is_space_def Let_def)
  then have "\<not> ws (hd n)" using ends(1) by blast
  then have w: "words n \<noteq> []" using n(1) words_from_nonempty by (cases n) auto
  then have "length (words ?l) \<ge> 9" using listing_words [OF assms(3-5), of isDir sz n] by (cases "words n") auto
  then show ?thesis
    using tr hd(2) listing_words [OF assms(3-5), of isDir sz n] listing_name_start [OF assms(3-5), of isDir sz n] n tn w
    by (simp add: list_entry_def Let_def entry_of_def assms(2) to_ulonglong_dec perm_mode_listing starts_with_def)
qed

text \<open>UTF-8 has the byte of a line break only for a line break.\<close>

definition utf8_newline :: "host \<Rightarrow> bool" where
  "utf8_newline h \<longleftrightarrow> (\<forall>x. nl \<notin> set x \<longrightarrow> 10 \<notin> set (toUtf8 h x))"

lemma crlf_utf8: "utf8_laws h \<Longrightarrow> toUtf8 h crlf = [13, 10]" "to_latin1 crlf = [13, 10]"
proof -
  have "ascii crlf" "to_latin1 crlf = [13, 10]" by code_simp+
  then show "utf8_laws h \<Longrightarrow> toUtf8 h crlf = [13, 10]" "to_latin1 crlf = [13, 10]" by (simp_all add: utf8_laws_def)
qed

lemma nl_ascii: "nl \<notin> set ''drw-r--r-- 1 owner group ''" "nl \<noteq> CHR ''-''" "nl \<noteq> blank" "\<not> is_digit nl" "nl \<noteq> char_of (13 :: nat)"
  by code_simp+

lemma server_line:
  assumes "utf8_laws h" and "utf8_newline h" and "listable fi"
  shows "\<exists>l. list_line h False fi = toUtf8 h l @ [10] \<and> 10 \<notin> set (toUtf8 h l) \<and> list_entry l = Some (entry_of fi)"
proof -
  obtain n isDir sz m d t where fi: "fi = (n, isDir, sz, m @ blank # d @ blank # t)" and tok: "token m" "token d" "token t"
    using assms(3) by (cases fi) (auto simp: listable_def)
  let ?l = "listing_text isDir sz m d t n @ [char_of (13 :: nat)]"
  have cat: "toUtf8 h (x @ y) = toUtf8 h x @ toUtf8 h y" for x y using assms(1) by (simp add: utf8_laws_def)
  have "toUtf8 h newline = [10]" using ascii_utf8 [OF assms(1) ascii_parts(1)] by (simp add: newline_def byte_of_char_def)
  moreover have "list_line h False fi = toUtf8 h (?l @ newline)"
    by (simp add: fi list_line_def listing_text_def crlf_def newline_def)
  ultimately have "list_line h False fi = toUtf8 h ?l @ [10]" by (simp only: cat)
  moreover have "nl \<notin> set ?l"
  proof -
    have "nl \<notin> set (dec_of_nat sz)" using nl_ascii(4) dec_of_nat_digits by blast
    moreover have "nl \<notin> set ''rw-r--r-- 1 owner group ''" "nl \<notin> set ''d''" "nl \<notin> set ''-''" using nl_ascii(1,2) by auto
    ultimately show ?thesis
      using assms(3) nl_ascii(3,5) unfolding listing_text_def fi listable_def pad_left_def set_append
      by (auto simp del: set_replicate_conv_if)
  qed
  then have "10 \<notin> set (toUtf8 h ?l)" using assms(2) by (simp add: utf8_newline_def)
  ultimately show ?thesis using list_entry_line [OF assms(3) fi tok] by blast
qed

lemma parse_server_listing:
  assumes "utf8_laws h" and "utf8_newline h" and "\<forall>fi \<in> set es. listable fi"
  shows "parseFtpList h (concat (map (list_line h False) es)) = sortListing (map entry_of es)"
proof -
  have empty: "list_entry [] = None" "fromUtf8 h [] = []"
  proof -
    show "list_entry [] = None" by (simp add: list_entry_def trimmed_def)
    show "fromUtf8 h [] = []" using assms(1) unfolding utf8_laws_def by (metis append_Nil append_self_conv2)
  qed
  have "List.map_filter (\<lambda>raw. list_entry (fromUtf8 h raw)) (split_on 10 (concat (map (list_line h False) es))) = map entry_of es"
    using assms(3)
  proof (induction es)
    case Nil
    then show ?case by (simp add: map_filter_simps empty)
  next
    case (Cons fi es)
    then obtain l where l: "list_line h False fi = toUtf8 h l @ [10]" "10 \<notin> set (toUtf8 h l)" "list_entry l = Some (entry_of fi)"
      using server_line [OF assms(1,2)] by (meson list.set_intros(1))
    have "fromUtf8 h (toUtf8 h l) = l" using assms(1) by (simp add: utf8_laws_def)
    with l Cons show ?case by (simp add: map_filter_simps)
  qed
  then show ?thesis by (simp add: parseFtpList_def)
qed

section \<open>Client and server\<close>

lemma from_reply: "utf8_laws h \<Longrightarrow> fromUtf8 h (reply h n t) = dec_of_nat n @ blank # t @ crlf"
proof -
  assume h: "utf8_laws h"
  define B where "B = '' ''"
  have cat: "toUtf8 h (x @ y) = toUtf8 h x @ toUtf8 h y" for x y using h by (simp add: utf8_laws_def)
  have "is_digit c \<Longrightarrow> of_char c < (128 :: nat)" for c by (auto simp: is_digit_def Let_def)
  then have "ascii (dec_of_nat n @ B)" using dec_of_nat_digits by (fastforce simp: ascii_def B_def list_all_iff)
  moreover have "ascii crlf" by code_simp
  ultimately have "reply h n t = toUtf8 h (dec_of_nat n @ B) @ toUtf8 h t @ toUtf8 h crlf"
    using ascii_utf8 [OF h] unfolding reply_def B_def [symmetric] by metis
  also have "\<dots> = toUtf8 h ((dec_of_nat n @ B) @ t @ crlf)" by (simp only: cat)
  finally have "reply h n t = toUtf8 h ((dec_of_nat n @ B) @ t @ crlf)" .
  moreover have "fromUtf8 h (toUtf8 h x) = x" for x using h by (simp add: utf8_laws_def)
  ultimately have "fromUtf8 h (reply h n t) = (dec_of_nat n @ B) @ t @ crlf" by metis
  then show ?thesis by (simp add: B_def)
qed

definition three_digits :: "nat \<Rightarrow> bool" where
  "three_digits n \<longleftrightarrow> length (dec_of_nat n) = 3"

lemma read_reply:
  assumes "utf8_laws h" and "three_digits n" and "n > 0"
  shows "read_loop h 0 [] (Some (reply h n t) # rest) = (int n, trimmed (dec_of_nat n @ blank # t @ crlf), rest)"
proof -
  let ?l = "dec_of_nat n @ blank # t @ crlf"
  have n: "int n < 2 ^ 31"
  proof (rule ccontr)
    assume "\<not> int n < 2 ^ 31"
    then have "n \<ge> 1000" by simp
    then have "dec_of_nat n = dec_of_nat (n div 10 div 10 div 10) @ [char_of (48 + n div 10 div 10 mod 10), char_of (48 + n div 10 mod 10), char_of (48 + n mod 10)]"
      by (subst dec_of_nat.simps, subst dec_of_nat.simps, subst dec_of_nat.simps) auto
    then show False using assms(2) by (simp add: three_digits_def del: dec_of_nat.simps)
  qed
  have t: "take 3 ?l = dec_of_nat n" using assms(2) by (simp add: three_digits_def)
  have code: "reply_code ?l = int n" unfolding reply_code_def t to_int0_def to_int_dec_of_nat [OF n] by simp
  have "has_code ?l" using assms(2) dec_of_nat_digits by (auto simp: has_code_def t list_all_iff three_digits_def)
  moreover have "?l ! 3 = blank" "length ?l \<ge> 4" using assms(2) by (simp_all add: three_digits_def nth_append)
  ultimately show ?thesis using code by (simp add: from_reply [OF assms(1)] Let_def)
qed

lemma codes_ok: "three_digits 150" "three_digits 226" "three_digits 227" "three_digits 550"
  by (simp_all add: three_digits_def, code_simp+)

text \<open>An address of four decimal numbers.\<close>

definition ip_address :: "string \<Rightarrow> bool" where
  "ip_address a \<longleftrightarrow> (\<exists>n1 n2 n3 n4. a = join_with ''.'' (map dec_of_nat [n1, n2, n3, n4]))"

lemma port_bytes: "of_int (int (unat p div 256) * 256) OR of_int (int (unat p mod 256)) = (p :: u16)"
proof -
  have "of_int (int (unat p div 256) * 256) = (push_bit 8 (drop_bit 8 p) :: u16)"
    by (simp add: push_bit_eq_mult drop_bit_eq_div word_arith_nat_div)
  moreover have "of_int (int (unat p mod 256)) = (take_bit 8 p :: u16)"
    by (simp add: take_bit_eq_mod word_arith_nat_mod)
  moreover have "push_bit 8 (drop_bit 8 p) OR take_bit 8 p = p"
    by (rule bit_word_eqI) (auto simp: bit_simps)
  ultimately show ?thesis by simp
qed

lemma pasv_target_text:
  assumes "ip_address a"
  shows "pasv_target (trimmed (dec_of_nat 227 @ blank # pasv_text a p @ crlf)) = Some (a, p)"
proof -
  obtain n1 n2 n3 n4 where a: "a = join_with ''.'' (map dec_of_nat [n1, n2, n3, n4])" using assms by (auto simp: ip_address_def)
  have sep: "CHR ''.'' \<notin> set (dec_of_nat n)" "CHR '','' \<notin> set (dec_of_nat n)" "CHR ''('' \<notin> set (dec_of_nat n)" "CHR '')'' \<notin> set (dec_of_nat n)" for n
    using dec_of_nat_digits by (fastforce simp: is_digit_def)+
  have oct: "split_on CHR ''.'' a = map dec_of_nat [n1, n2, n3, n4]" unfolding a by (rule split_join) (simp_all add: sep)
  define hi where "hi = unat p div 256"
  define lo where "lo = unat p mod 256"
  define inner where "inner = join_with '','' (map dec_of_nat [n1, n2, n3, n4, hi, lo])"
  define pre where "pre = dec_of_nat 227 @ '' Entering Passive Mode ''"
  have tx: "dec_of_nat 227 @ blank # pasv_text a p = pre @ CHR ''('' # inner @ '')''"
    by (simp add: pasv_text_def oct nth_or_empty_def inner_def pre_def hi_def lo_def)
  have "trimmed (dec_of_nat 227 @ blank # pasv_text a p @ crlf) = pre @ CHR ''('' # inner @ '')''"
  proof -
    have "trimmed ((pre @ CHR ''('' # inner @ '')'') @ crlf) = pre @ CHR ''('' # inner @ '')''"
    proof -
      have "is_space (char_of (13 :: nat))" "is_space (char_of (10 :: nat))" "\<not> is_space (hd pre)" "pre \<noteq> []" "\<not> is_space CHR '')''"
        unfolding pre_def by code_simp+
      then show ?thesis by (simp add: trimmed_def crlf_def dropWhile_hd)
    qed
    then show ?thesis using tx by (metis append_Cons append_assoc)
  qed
  moreover have "CHR ''('' \<notin> set pre" "CHR '')'' \<notin> set pre" unfolding pre_def by code_simp+
  moreover have "CHR '')'' \<notin> set inner" using sep(4) by (simp add: inner_def)
  moreover have "split_on CHR '','' inner = map dec_of_nat [n1, n2, n3, n4, hi, lo]"
    unfolding inner_def by (rule split_join) (simp_all add: sep)
  moreover have "index_of CHR '')'' (pre @ CHR ''('' # inner @ '')'') = Some (length pre + 1 + length inner)"
    using index_of_append_hit [of "CHR '')''" "pre @ CHR ''('' # inner" "[]"] calculation by simp
  moreover have "int hi < 2 ^ 31" "int lo < 2 ^ 31"
    using unsigned_less [of p, where 'a = nat] by (simp_all add: hi_def lo_def)
  then have "to_int0 (dec_of_nat hi) = int hi" "to_int0 (dec_of_nat lo) = int lo"
    by (simp_all add: to_int0_def to_int_dec_of_nat)
  moreover have "of_int (int hi * 256) OR of_int (int lo) = p" unfolding hi_def lo_def by (rule port_bytes)
  ultimately show ?thesis by (simp add: pasv_target_def a)
qed

text \<open>What the server makes of a command line of the client.\<close>

lemma from_command: "utf8_laws h \<Longrightarrow> fromUtf8 h (command_line h v a) = v @ (if a \<noteq> [] then blank # a else []) @ crlf"
proof -
  assume h: "utf8_laws h"
  define B where "B = '' ''"
  have "ascii B" "ascii crlf" unfolding B_def by code_simp+
  then have u: "toUtf8 h B = to_latin1 B" "toUtf8 h crlf = to_latin1 crlf" using ascii_utf8 [OF h] by simp_all
  have cat: "toUtf8 h (x @ y) = toUtf8 h x @ toUtf8 h y" for x y using h by (simp add: utf8_laws_def)
  have "command_line h v a = toUtf8 h (v @ (if a \<noteq> [] then B @ a else []) @ crlf)"
    unfolding command_line_def B_def [symmetric] using u by (cases "a = []") (simp_all only: cat if_True if_False append_Nil append_assoc simp_thms not_True_eq_False not_False_eq_True)
  moreover have "fromUtf8 h (toUtf8 h x) = x" for x using h by (simp add: utf8_laws_def)
  ultimately show ?thesis by (simp add: B_def)
qed

lemma trim_crlf: "s \<noteq> [] \<Longrightarrow> \<not> is_space (hd s) \<Longrightarrow> \<not> is_space (last s) \<Longrightarrow> trimmed (s @ crlf) = s"
proof -
  have "is_space (char_of (13 :: nat))" "is_space (char_of (10 :: nat))" by code_simp+
  then show "s \<noteq> [] \<Longrightarrow> \<not> is_space (hd s) \<Longrightarrow> \<not> is_space (last s) \<Longrightarrow> ?thesis"
    by (simp add: trimmed_def crlf_def dropWhile_hd hd_rev)
qed

lemma parse_command:
  assumes "utf8_laws h" and "v \<noteq> []" and "blank \<notin> set v" and "\<not> is_space (hd v)" and "\<not> is_space (last (v @ a))"
  shows "parse h (command_line h v a) = \<lparr>verb = to_upper v, arg = a, cvalid = True\<rparr>"
proof -
  have "trimmed (fromUtf8 h (command_line h v a)) = v @ (if a \<noteq> [] then blank # a else [])"
    using trim_crlf [of "v @ (if a \<noteq> [] then blank # a else [])"] assms(2,4,5)
    by (simp add: from_command [OF assms(1)] last_append split: if_splits)
  moreover have none: "index_of blank v = None" using assms(3) by simp
  moreover have "index_of blank (v @ blank # a) = Some (length v)" using assms(3) by simp
  ultimately show ?thesis using assms(2)
    by (cases "a = []") (simp_all add: parse_def Let_def none del: index_of_None_iff)
qed

definition controls :: "out list \<Rightarrow> bytes list" where
  "controls os = concat (map (\<lambda>x. case x of Control b \<Rightarrow> [b] | _ \<Rightarrow> []) os)"

definition data_sent :: "out list \<Rightarrow> bytes" where
  "data_sent os = concat (map (\<lambda>x. case x of Data b \<Rightarrow> b | _ \<Rightarrow> []) os)"

lemma received_chunks: "received (map Some cs) = concat cs"
  by (induction cs) simp_all

lemma sendCmd_reply:
  assumes "utf8_laws h" and "isReady c" and "c_in c = Some (reply h n t) # rest" and "three_digits n" and "n > 0"
  shows "sendCmd h v a c = (int n, trimmed (dec_of_nat n @ blank # t @ crlf), c\<lparr>c_in := rest, c_sent := c_sent c @ [command_line h v a]\<rparr>)"
  using assms read_reply [OF assms(1,4,5), of t rest]
  by (simp add: sendCmd_def readReply_def ctrl_write_def isReady_def)

text \<open>A passive reply opens the data connection that it names.\<close>

lemma openPasv_reply:
  assumes "utf8_laws h" and "ip_address a" and "isReady c" and "c_in c = Some (reply h 227 (pasv_text a p)) # rest"
  shows "openPasv h dial c = (dial a p, c\<lparr>c_in := rest, c_sent := c_sent c @ [command_line h ''PASV'' []]\<rparr>)"
  using sendCmd_reply [OF assms(1,3,4) codes_ok(3), of "''PASV''" "[]"] pasv_target_text [OF assms(2), of p]
  by (simp add: openPasv_def)

text \<open>Browsing a directory of the program's own FTP server with its own FTP client shows exactly the
  directory: the names, sizes and kinds that the server lists, directories first and by name, for any
  division of the data connection into reads; and the client's control connection is in step again.\<close>

theorem ftp_list_end_to_end:
  assumes "utf8_laws h" and "utf8_newline h" and "ip_address (m_bindAddr s)"
    and "e_listen e = Some p" and "e_accept e" and "path = [] \<or> \<not> is_space (last path)"
    and "handleLine h e s (command_line h ''PASV'' []) conn fs = (out1, conn1, fs1)"
    and "handleLine h e s (command_line h ''LIST'' path) conn1 fs1 = (out2, conn2, fs2)"
    and "\<forall>fi \<in> set (e_list e fs (resolve h s conn path)). listable fi"
    and "isReady c" and "c_in c = map Some (controls out1 @ controls out2) @ rest"
    and "dial (m_bindAddr s) p = Some (map Some chunks)" and "concat chunks = data_sent out2"
  shows "ftp_list h dial path c =
    (Some (sortListing (map entry_of (e_list e fs (resolve h s conn path)))),
     c\<lparr>c_in := rest, c_sent := c_sent c @ [command_line h ''PASV'' [], command_line h ''LIST'' path]\<rparr>)"
proof -
  have p1: "parse h (command_line h ''PASV'' []) = \<lparr>verb = ''PASV'', arg = [], cvalid = True\<rparr>"
    using parse_command [OF assms(1), of "''PASV''" "[]"] by (simp add: is_space_def upper_char_def)
  have p2: "parse h (command_line h ''LIST'' path) = \<lparr>verb = ''LIST'', arg = path, cvalid = True\<rparr>"
    using parse_command [OF assms(1), of "''LIST''" path] assms(6) by (auto simp: is_space_def upper_char_def)
  let ?es = "e_list e fs (resolve h s conn path)"
  have o1: "out1 = [Control (reply h 227 (pasv_text (m_bindAddr s) p))]" "conn1 = conn\<lparr>dataSrv := True\<rparr>" "fs1 = fs"
    using assms(7) by (simp_all add: handleLine_def p1 cmd_pasv_def assms(4) Let_def)
  have "resolve h s conn1 path = resolve h s conn path" by (simp add: o1(2) resolve_def)
  then have o2: "out2 = [Control (reply h 150 ''Opening data connection for directory list''),
      Data (concat (map (list_line h False) ?es)), Control (reply h 226 ''Transfer complete'')]"
    using arg_cong [OF assms(8), of fst] by (simp add: handleLine_def p2 cmd_list_def acceptData_def assms(5) o1(2,3) Let_def)
  have c_in: "c_in c = Some (reply h 227 (pasv_text (m_bindAddr s) p)) #
      Some (reply h 150 ''Opening data connection for directory list'') # Some (reply h 226 ''Transfer complete'') # rest"
    using assms(11) by (simp add: o1(1) o2 controls_def)
  let ?c1 = "c\<lparr>c_in := tl (c_in c), c_sent := c_sent c @ [command_line h ''PASV'' []]\<rparr>"
  have s1: "openPasv h dial c = (Some (map Some chunks), ?c1)"
    using openPasv_reply [OF assms(1,3,10) c_in] assms(12) by (simp add: c_in)
  let ?c2 = "?c1\<lparr>c_in := tl (c_in ?c1), c_sent := c_sent ?c1 @ [command_line h ''LIST'' path]\<rparr>"
  have "isReady ?c1" "c_in ?c1 = Some (reply h 150 ''Opening data connection for directory list'') # Some (reply h 226 ''Transfer complete'') # rest"
    using assms(10) c_in by (simp_all add: isReady_def)
  from sendCmd_reply [OF assms(1) this codes_ok(1), of "''LIST''" path]
  have s2: "fst (sendCmd h ''LIST'' path ?c1) = 150" "snd (snd (sendCmd h ''LIST'' path ?c1)) = ?c2" by (simp_all add: c_in)
  have s3: "snd (snd (readReply h ?c2)) = ?c2\<lparr>c_in := rest\<rparr>"
    using assms(10) read_reply [OF assms(1) codes_ok(2), of "''Transfer complete''" rest]
    by (simp add: readReply_def isReady_def c_in)
  have "parseFtpList h (received (map Some chunks)) = sortListing (map entry_of ?es)"
    using parse_server_listing [OF assms(1,2,9)] assms(13) by (simp add: received_chunks data_sent_def o2)
  then show ?thesis
    using s1 s2 s3 assms(10) by (simp add: ftp_list_def case_prod_unfold Let_def)
qed

section \<open>Transfers that fail at the end\<close>

text \<open>The control connection of a transfer: the passive reply, the go-ahead, and whatever follows.\<close>

definition transfer_begun :: "host \<Rightarrow> string \<Rightarrow> u16 \<Rightarrow> ftp_client \<Rightarrow> bytes option list \<Rightarrow> bool" where
  "transfer_begun h a p c after \<longleftrightarrow>
     isReady c \<and> c_in c = Some (reply h 227 (pasv_text a p)) # Some (reply h 150 ''Opening data connection'') # after"

definition logged :: "host \<Rightarrow> string \<Rightarrow> string \<Rightarrow> bytes option list \<Rightarrow> ftp_client \<Rightarrow> ftp_client" where
  "logged h v path rest c = c\<lparr>c_in := rest, c_sent := c_sent c @ [command_line h ''PASV'' [], command_line h v path]\<rparr>"

lemma transfer_replies:
  assumes "utf8_laws h" and "ip_address a" and "transfer_begun h a p c after"
  shows "openPasv h dial c = (dial a p, c\<lparr>c_in := tl (c_in c), c_sent := c_sent c @ [command_line h ''PASV'' []]\<rparr>)"
    and "fst (sendCmd h v path (c\<lparr>c_in := tl (c_in c), c_sent := c_sent c @ [command_line h ''PASV'' []]\<rparr>)) = 150"
    and "snd (snd (sendCmd h v path (c\<lparr>c_in := tl (c_in c), c_sent := c_sent c @ [command_line h ''PASV'' []]\<rparr>))) = logged h v path after c"
proof -
  have c: "isReady c" "c_in c = Some (reply h 227 (pasv_text a p)) # Some (reply h 150 ''Opening data connection'') # after"
    using assms(3) by (simp_all add: transfer_begun_def)
  let ?c1 = "c\<lparr>c_in := tl (c_in c), c_sent := c_sent c @ [command_line h ''PASV'' []]\<rparr>"
  show "openPasv h dial c = (dial a p, ?c1)" using openPasv_reply [OF assms(1,2) c] by (simp add: c(2))
  have "isReady ?c1" "c_in ?c1 = Some (reply h 150 ''Opening data connection'') # after" using c by (simp_all add: isReady_def)
  from sendCmd_reply [OF assms(1) this codes_ok(1), of v path]
  show "fst (sendCmd h v path ?c1) = 150" "snd (snd (sendCmd h v path ?c1)) = logged h v path after c"
    by (simp_all add: c(2) logged_def)
qed

lemma completion_read:
  assumes "utf8_laws h" and "isReady c" and "three_digits n" and "n > 0"
  shows "snd (snd (readReply h (logged h v path (Some (reply h n t) # rest) c))) = logged h v path rest c"
  using assms(2) read_reply [OF assms(1,3,4), of t rest] by (simp add: readReply_def isReady_def logged_def)

lemma received_stalled: "received (map Some cs @ None # later) = concat cs"
  by (induction cs) simp_all

text \<open>The end of a transfer is not looked at: an upload counts as done, with its full length, and
  a download whose data connection stalled counts as done with the part that came, whatever the
  server's completion reply says (\<open>550\<close> as well as \<open>226\<close>).\<close>

theorem ftp_completion_ignored:
  assumes "utf8_laws h" and "ip_address a" and "transfer_begun h a p c (Some (reply h n t) # rest)"
    and "three_digits n" and "n > 0" and "dial a p = Some (map Some cs @ None # later)"
  shows "ftp_upload h dial (Some body) path c = ((int (length body), Some body), logged h ''STOR'' path rest c) \<and>
    ftp_download h dial True path c = ((int (length (concat cs)), Some (concat cs)), logged h ''RETR'' path rest c)"
proof -
  have "isReady c" using assms(3) by (simp add: transfer_begun_def)
  with transfer_replies [OF assms(1-3)] completion_read [OF assms(1) _ assms(4,5)] show ?thesis
    by (simp add: ftp_upload_def ftp_download_def assms(6) case_prod_unfold Let_def received_stalled)
qed

text \<open>When the local file cannot be opened after the go-ahead, the completion reply stays unread and
  the next command takes it for its own answer.\<close>

lemma ftp_reply_left_over:
  assumes "utf8_laws h" and "ip_address a" and "transfer_begun h a p c (Some (reply h 226 t) # rest)" and "dial a p = Some chunks"
  shows "ftp_download h dial False path c = ((- 1, None), logged h ''RETR'' path (Some (reply h 226 t) # rest) c) \<and>
    fst (ftp_removeFile h q (snd (ftp_download h dial False path c)))"
proof -
  have r: "isReady c" using assms(3) by (simp add: transfer_begun_def)
  then have d: "ftp_download h dial False path c = ((- 1, None), logged h ''RETR'' path (Some (reply h 226 t) # rest) c)"
    using transfer_replies [OF assms(1-3)] by (simp add: ftp_download_def assms(4) case_prod_unfold Let_def)
  have "isReady (logged h ''RETR'' path (Some (reply h 226 t) # rest) c)" using r by (simp add: isReady_def logged_def)
  from sendCmd_reply [OF assms(1) this _ codes_ok(2), of t rest "''DELE''" q]
  show ?thesis by (simp add: d ftp_removeFile_def done_2xx_def logged_def)
qed

section \<open>Concrete runs\<close>

lemma demo_ftp_utf8: "utf8_laws demo_ftp_host" "utf8_newline demo_ftp_host"
proof -
  have b: "byte_of_char (char_of_byte x) = x" for x
    using unsigned_less [of x, where 'a = nat] by (simp add: byte_of_char_def char_of_byte_def)
  show "utf8_laws demo_ftp_host"
    by (simp add: utf8_laws_def demo_ftp_host_def ascii_def comp_def b)
  have "byte_of_char nl = 10" by code_simp
  then have "byte_of_char c = 10 \<Longrightarrow> c = nl" for c by (metis char_of_byte_of_char)
  then show "utf8_newline demo_ftp_host" by (auto simp: utf8_newline_def demo_ftp_host_def)
qed

lemma demo_ip: "ip_address ''127.0.0.1''"
  unfolding ip_address_def by (intro exI [of _ "127 :: nat"] exI [of _ "0 :: nat"] exI [of _ "1 :: nat"]) code_simp

definition demo_list_env :: "string set ftp_env" where
  "demo_list_env = (demo_env)\<lparr>e_list := \<lambda>_ _. [(''b.txt'', False, 5, ''Jan 1 2024''), (''A'', True, 0, ''Jan 2 2024'')]\<rparr>"

definition demo_served :: ftp_server where
  "demo_served = \<lparr>m_root = ''/srv'', m_bindAddr = ''127.0.0.1''\<rparr>"

text \<open>The server's two answers, and the client that reads them.\<close>

definition demo_pasv :: "string set result" where
  "demo_pasv = handleLine demo_ftp_host demo_list_env demo_served (command_line demo_ftp_host ''PASV'' []) new_conn {}"

definition demo_listing :: "string set result" where
  "demo_listing = handleLine demo_ftp_host demo_list_env demo_served (command_line demo_ftp_host ''LIST'' []) (fst (snd demo_pasv)) (snd (snd demo_pasv))"

definition demo_client :: ftp_client where
  "demo_client = \<lparr>m_ctrl = Some True, m_cwd = ''/'', c_in = map Some (controls (fst demo_pasv) @ controls (fst demo_listing)),
     c_sent = [], c_errors = []\<rparr>"

theorem ftp_list_end_to_end_witness:
  "map_option (map e_name) (fst (ftp_list demo_ftp_host (\<lambda>_ _. Some [Some (data_sent (fst demo_listing))]) [] demo_client)) =
     Some [''A'', ''b.txt'']"
proof -
  let ?es = "e_list demo_list_env {} (resolve demo_ftp_host demo_served new_conn [])"
  have es: "?es = [(''b.txt'', False, 5, ''Jan 1 2024''), (''A'', True, 0, ''Jan 2 2024'')]" by (simp add: demo_list_env_def)
  have st: "(\<exists>m d t. token m \<and> token d \<and> token t \<and> ''Jan 1 2024'' = m @ blank # d @ blank # t) \<and>
    (\<exists>m d t. token m \<and> token d \<and> token t \<and> ''Jan 2 2024'' = m @ blank # d @ blank # t)"
    by (rule conjI; rule exI [of _ "''Jan''"]; (rule exI [of _ "''1''"] exI [of _ "''2''"]); rule exI [of _ "''2024''"]; simp add: token_def ws_def)
  then have "\<forall>fi \<in> set ?es. listable fi" 
  proof -
    have "nl \<notin> set ''b.txt''" "nl \<notin> set ''A''" "nl \<notin> set ''Jan 1 2024''" "nl \<notin> set ''Jan 2 2024''" by code_simp+
    then show ?thesis using st unfolding es by (simp add: listable_def is_space_def)
  qed
  moreover have "handleLine demo_ftp_host demo_list_env demo_served (command_line demo_ftp_host ''PASV'' []) new_conn {} =
      (fst demo_pasv, fst (snd demo_pasv), snd (snd demo_pasv))" by (simp add: demo_pasv_def)
  moreover have "handleLine demo_ftp_host demo_list_env demo_served (command_line demo_ftp_host ''LIST'' []) (fst (snd demo_pasv)) (snd (snd demo_pasv)) =
      (fst demo_listing, fst (snd demo_listing), snd (snd demo_listing))" by (simp add: demo_listing_def)
  moreover have "e_listen demo_list_env = Some 5000" "e_accept demo_list_env" "ip_address (m_bindAddr demo_served)"
    using demo_ip by (simp_all add: demo_list_env_def demo_env_def demo_served_def)
  moreover have "isReady demo_client" "c_in demo_client = map Some (controls (fst demo_pasv) @ controls (fst demo_listing)) @ []"
    by (simp_all add: isReady_def demo_client_def)
  ultimately have "ftp_list demo_ftp_host (\<lambda>_ _. Some [Some (data_sent (fst demo_listing))]) [] demo_client =
      (Some (sortListing (map entry_of ?es)), demo_client\<lparr>c_in := [], c_sent := c_sent demo_client @
        [command_line demo_ftp_host ''PASV'' [], command_line demo_ftp_host ''LIST'' []]\<rparr>)"
    using ftp_list_end_to_end [OF demo_ftp_utf8, of demo_served demo_list_env 5000 "[]" new_conn "{}" "fst demo_pasv"
        "fst (snd demo_pasv)" "snd (snd demo_pasv)" "fst demo_listing" "fst (snd demo_listing)" "snd (snd demo_listing)"
        demo_client "[]" "\<lambda>_ _. Some [Some (data_sent (fst demo_listing))]" "[data_sent (fst demo_listing)]"] by simp
  moreover have "map e_name (sortListing (map entry_of ?es)) = [''A'', ''b.txt'']" unfolding es by code_simp
  ultimately show ?thesis by simp
qed

theorem ftp_completion_ignored_witness:
  "let c = \<lparr>m_ctrl = Some True, m_cwd = ''/'', c_in = map Some [reply demo_ftp_host 227 (pasv_text ''127.0.0.1'' 5000),
      reply demo_ftp_host 150 ''Opening data connection'', reply demo_ftp_host 550 ''Disk full''], c_sent = [], c_errors = []\<rparr>
   in fst (fst (ftp_upload demo_ftp_host (\<lambda>_ _. Some [None]) (Some [1, 2, 3]) ''a'' c)) = 3 \<and>
      fst (fst (ftp_download demo_ftp_host (\<lambda>_ _. Some [None]) True ''a'' c)) = 0"
proof -
  let ?c = "\<lparr>m_ctrl = Some True, m_cwd = ''/'', c_in = map Some [reply demo_ftp_host 227 (pasv_text ''127.0.0.1'' 5000),
      reply demo_ftp_host 150 ''Opening data connection'', reply demo_ftp_host 550 ''Disk full''], c_sent = [], c_errors = []\<rparr>"
  have "transfer_begun demo_ftp_host ''127.0.0.1'' 5000 ?c (Some (reply demo_ftp_host 550 ''Disk full'') # [])"
    by (simp add: transfer_begun_def isReady_def)
  from ftp_completion_ignored [OF demo_ftp_utf8(1) demo_ip this codes_ok(4), of "\<lambda>_ _. Some [None]" "[]" "[]" "[1, 2, 3]" "''a''"]
  show ?thesis by (simp add: Let_def)
qed

end
