(* ===== verification/Sftp_Client.thy ===== *)
theory Sftp_Client
  imports Ssh_Relay Ftp_Client
begin

text \<open>
  \<open>SftpConnection\<close> (\<open>src/src/sftp/SftpConnection.{h,cpp}\<close>), the SFTP and SCP back end of the file
  browser, and \<open>SshExec\<close> (\<open>src/src/tools/SshExec.{h,cpp}\<close>), which runs one command at a time. The
  answers of the server to the reads and writes of a transfer are scripts.
\<close>

section \<open>The connection\<close>

record sftp_conn =
  sc_session :: "handle option"
  sc_sftp :: "handle option"
  sc_sock :: "handle option"
  sc_owns :: bool
  sc_lib :: lib
  sc_errors :: "string list"

definition new_sftp :: "lib \<Rightarrow> sftp_conn" where
  "new_sftp l = \<lparr>sc_session = None, sc_sftp = None, sc_sock = None, sc_owns = False, sc_lib = l, sc_errors = []\<rparr>"

definition sc_error :: "string \<Rightarrow> sftp_conn \<Rightarrow> sftp_conn" where
  "sc_error m c = c\<lparr>sc_errors := sc_errors c @ [m]\<rparr>"

definition sftp_disconnect :: "sftp_conn \<Rightarrow> sftp_conn" where
  "sftp_disconnect c =
     (let l = (case sc_sftp c of None \<Rightarrow> sc_lib c | Some f \<Rightarrow> release f (sc_lib c));
          l = (case sc_session c of
                 None \<Rightarrow> l
               | Some s \<Rightarrow> if sc_owns c then
                   (let l = release s (request s Bye l) in case sc_sock c of None \<Rightarrow> l | Some k \<Rightarrow> release k l) else l)
      in c\<lparr>sc_sftp := None, sc_session := None, sc_sock := None, sc_owns := False, sc_lib := l\<rparr>)"

definition sftp_connect :: "host \<Rightarrow> peer \<Rightarrow> Session \<Rightarrow> sftp_conn \<Rightarrow> bool \<times> sftp_conn" where
  "sftp_connect h p s c =
     (let c = sftp_disconnect c; hn = toUtf8 h (param s ''host'')
      in if p_dial p hn (port s) = NoHost then (False, sc_error ''SFTP: host lookup failed'' c)
         else case connectTcp p hn (port s) (sc_lib c) of
                (None, l) \<Rightarrow> (False, sc_error ''SFTP: connection refused'' (c\<lparr>sc_lib := l\<rparr>))
              | (Some fd, l) \<Rightarrow>
                  if \<not> p_session p then (False, c\<lparr>sc_lib := release fd l\<rparr>)
                  else let (sess, l) = acquire KSession (Some fd) l; l = request sess Handshake l
                       in if \<not> p_handshake p then
                            (False, (sc_error ''SFTP: SSH handshake failed'' c)\<lparr>sc_lib := release fd (release sess l)\<rparr>)
                          else let (authed, l) = authSession h p sess s l
                               in if \<not> authed then
                                    (False, (sc_error ''SFTP: authentication failed'' c)\<lparr>sc_lib := release fd (release sess (request sess Bye l))\<rparr>)
                                  else if \<not> p_sftp p then
                                    (False, (sc_error ''SFTP: failed to start subsystem'' c)
                                       \<lparr>sc_sftp := None, sc_lib := release fd (release sess (request sess Bye l))\<rparr>)
                                  else let (f, l) = acquire KSftp (Some sess) l
                                       in (True, c\<lparr>sc_sftp := Some f, sc_session := Some sess, sc_sock := Some fd, sc_owns := True, sc_lib := l\<rparr>))"

definition sftp_attach :: "bool \<Rightarrow> handle \<Rightarrow> handle \<Rightarrow> sftp_conn \<Rightarrow> bool \<times> sftp_conn" where
  "sftp_attach starts sess fd c =
     (let c = c\<lparr>sc_session := Some sess, sc_sock := Some fd\<rparr>
      in if \<not> starts then (False, sc_error ''Failed to initialize SFTP subsystem'' (c\<lparr>sc_sftp := None\<rparr>))
         else case acquire KSftp (Some sess) (sc_lib c) of (f, l) \<Rightarrow> (True, c\<lparr>sc_sftp := Some f, sc_lib := l\<rparr>))"

definition sftp_detach :: "sftp_conn \<Rightarrow> sftp_conn" where
  "sftp_detach c =
     c\<lparr>sc_lib := (case sc_sftp c of None \<Rightarrow> sc_lib c | Some f \<Rightarrow> release f (sc_lib c)), sc_sftp := None, sc_session := None, sc_sock := None\<rparr>"

section \<open>Listing\<close>

text \<open>What \<open>readdir\<close> tells of an entry: name, and of the attributes those that are there. The list
  ends with the directory or with an error, which the code does not tell apart.\<close>

record sftp_attrs =
  a_name :: bytes
  a_size :: "nat option"
  a_perm :: "u32 option"
  a_mtime :: "int option"

definition is_dir_mode :: "u32 \<Rightarrow> bool" where
  "is_dir_mode m \<longleftrightarrow> m AND 0xF000 = 0x4000"

definition sftp_entry :: "host \<Rightarrow> sftp_attrs \<Rightarrow> SftpEntry option" where
  "sftp_entry h a =
     (let n = fromUtf8 h (a_name a)
      in if n = ''.'' then None
         else Some \<lparr>e_name = n, e_size = (case a_size a of None \<Rightarrow> 0 | Some z \<Rightarrow> z),
                    e_dir = (case a_perm a of None \<Rightarrow> False | Some m \<Rightarrow> is_dir_mode m),
                    e_permissions = (case a_perm a of None \<Rightarrow> 0 | Some m \<Rightarrow> m AND 0x1FF),
                    e_mtime = (case a_mtime a of None \<Rightarrow> 0 | Some t \<Rightarrow> t)\<rparr>)"

definition sftp_list :: "host \<Rightarrow> (bytes \<Rightarrow> sftp_attrs list option) \<Rightarrow> string \<Rightarrow> sftp_conn \<Rightarrow> SftpEntry list option \<times> sftp_conn" where
  "sftp_list h dir path c =
     (case sc_sftp c of
        None \<Rightarrow> (None, c)
      | Some f \<Rightarrow>
          (case dir (toUtf8 h path) of
             None \<Rightarrow> (None, sc_error (''Cannot open directory: '' @ path) (c\<lparr>sc_lib := request f Transfer (sc_lib c)\<rparr>))
           | Some es \<Rightarrow>
               let (d, l) = acquire KHandle (Some f) (request f Transfer (sc_lib c))
               in (Some (sortListing (List.map_filter (sftp_entry h) es)), c\<lparr>sc_lib := release d (request d Transfer l)\<rparr>)))"

section \<open>Transfers\<close>

text \<open>
  A read gives bytes, the end (no bytes) or an error. The local file is a \<open>QFile\<close>, which is buffered:
  \<open>takes\<close> is what a write answers, the number of bytes it accepts, depending on how much it has
  accepted before; \<open>keeps\<close> is what the file holds in the end of the bytes that were accepted, after
  the flush of the close, whose result the code never asks for.
\<close>

datatype read = Got bytes | Failed_read

record disk =
  takes :: "nat \<Rightarrow> bytes \<Rightarrow> nat"
  keeps :: "bytes \<Rightarrow> bytes"

datatype read_end = AtEof | DiskFull | ReadError

fun read_file :: "disk \<Rightarrow> bytes \<Rightarrow> read list \<Rightarrow> read_end \<times> bytes" where
  "read_file disk acc [] = (AtEof, acc)"
| "read_file disk acc (Failed_read # _) = (ReadError, acc)"
| "read_file disk acc (Got b # rs) =
     (if b = [] then (AtEof, acc)
      else if takes disk (length acc) b < length b then (DiskFull, acc)
      else read_file disk (acc @ b) rs)"

text \<open>The local file: its content if it can be opened for writing.\<close>

definition sftp_download ::
  "host \<Rightarrow> (bytes \<Rightarrow> read list option) \<Rightarrow> string \<Rightarrow> bool \<Rightarrow> disk \<Rightarrow> bytes option \<Rightarrow> sftp_conn \<Rightarrow> (int \<times> bytes option) \<times> sftp_conn" where
  "sftp_download h remote path opens disk before c =
     (case sc_sftp c of
        None \<Rightarrow> ((- 1, before), c)
      | Some f \<Rightarrow>
          (case remote (toUtf8 h path) of
             None \<Rightarrow> ((- 1, before), c\<lparr>sc_lib := request f Transfer (sc_lib c)\<rparr>)
           | Some rs \<Rightarrow>
               let (d, l) = acquire KHandle (Some f) (request f Transfer (sc_lib c))
               in if \<not> opens then ((- 1, before), c\<lparr>sc_lib := release d l\<rparr>)
                  else let c = c\<lparr>sc_lib := release d (request d Transfer l)\<rparr>
                       in case read_file disk [] rs of
                            (DiskFull, _) \<Rightarrow> ((- 1, None), sc_error ''SFTP download: local write failed'' c)
                          | (ReadError, _) \<Rightarrow> ((- 1, None), sc_error ''SFTP download failed mid-transfer'' c)
                          | (AtEof, body) \<Rightarrow> ((int (length body), Some (keeps disk body)), c)))"

text \<open>The results of the writes: how much each took, or a failure. A script that runs out is a write
  that does not return.\<close>

fun send_file :: "bytes \<Rightarrow> int list \<Rightarrow> (bytes \<times> bytes) option" where
  "send_file [] res = Some ([], [])"
| "send_file data [] = None"
| "send_file data (w # res) =
     (if w \<le> 0 then Some ([], data)
      else map_option (\<lambda>(passed, missing). (take (nat w) data @ passed, missing)) (send_file (drop (nat w) data) res))"

definition sftp_upload ::
  "host \<Rightarrow> (bytes \<Rightarrow> bool) \<Rightarrow> string \<Rightarrow> bytes option \<Rightarrow> int list \<Rightarrow> sftp_conn \<Rightarrow> ((int \<times> bytes option) \<times> sftp_conn) option" where
  "sftp_upload h remote path local res c =
     (case (sc_sftp c, local) of
        (Some f, Some data) \<Rightarrow>
          if \<not> remote (toUtf8 h path) then Some ((- 1, None), c\<lparr>sc_lib := request f Transfer (sc_lib c)\<rparr>)
          else let (d, l) = acquire KHandle (Some f) (request f Transfer (sc_lib c)); c = c\<lparr>sc_lib := release d (request d Transfer l)\<rparr>
               in map_option (\<lambda>(passed, missing).
                      if missing \<noteq> [] then ((- 1, Some passed), sc_error ''SFTP upload failed mid-transfer'' c)
                      else ((int (length passed), Some passed), c))
                    (send_file data res)
      | _ \<Rightarrow> Some ((- 1, None), c))"

text \<open>SCP: the size is announced, and a read asks for at most what is missing.\<close>

definition kBuf :: nat where "kBuf = 16384"

fun scp_read :: "disk \<Rightarrow> nat \<Rightarrow> nat \<Rightarrow> bytes \<Rightarrow> read list \<Rightarrow> nat \<times> nat \<times> bytes" where
  "scp_read disk missing got acc [] = (missing, got, acc)"
| "scp_read disk missing got acc (Failed_read # _) = (missing, got, acc)"
| "scp_read disk missing got acc (Got b # rs) =
     (if missing = 0 then (missing, got, acc)
      else let b = take (min kBuf missing) b
           in if b = [] then (missing, got, acc)
              else scp_read disk (missing - length b) (got + length b) (acc @ take (takes disk (length acc) b) b) rs)"

definition scp_download ::
  "host \<Rightarrow> (bytes \<Rightarrow> (nat \<times> read list) option) \<Rightarrow> string \<Rightarrow> bool \<Rightarrow> disk \<Rightarrow> bytes option \<Rightarrow> sftp_conn \<Rightarrow> (int \<times> bytes option) \<times> sftp_conn" where
  "scp_download h remote path opens disk before c =
     (case sc_session c of
        None \<Rightarrow> ((- 1, before), c)
      | Some s \<Rightarrow>
          (case remote (toUtf8 h path) of
             None \<Rightarrow> ((- 1, before), sc_error ''SCP download failed'' (c\<lparr>sc_lib := request s Transfer (sc_lib c)\<rparr>))
           | Some (full, rs) \<Rightarrow>
               let (ch, l) = acquire KChannel (Some s) (request s Transfer (sc_lib c))
               in if \<not> opens then ((- 1, before), c\<lparr>sc_lib := release ch l\<rparr>)
                  else let (missing, got, body) = scp_read disk full 0 [] rs; c = c\<lparr>sc_lib := release ch (request ch Transfer l)\<rparr>
                       in if missing > 0 then ((- 1, None), sc_error ''SCP download truncated'' c)
                          else ((int got, Some (keeps disk body)), c)))"

fun scp_write :: "bytes \<Rightarrow> int list \<Rightarrow> (bytes \<times> bytes) option" where
  "scp_write [] res = Some ([], [])"
| "scp_write data [] = None"
| "scp_write data (w # res) =
     (if w < 0 then Some ([], data)
      else map_option (\<lambda>(passed, missing). (take (nat w) data @ passed, missing)) (scp_write (drop (nat w) data) res))"

definition scp_upload ::
  "host \<Rightarrow> (bytes \<Rightarrow> nat \<Rightarrow> bool) \<Rightarrow> string \<Rightarrow> bytes option \<Rightarrow> int list \<Rightarrow> sftp_conn \<Rightarrow> ((int \<times> bytes option) \<times> sftp_conn) option" where
  "scp_upload h remote path local res c =
     (case (sc_session c, local) of
        (Some s, Some data) \<Rightarrow>
          if \<not> remote (toUtf8 h path) (length data) then Some ((- 1, None), sc_error ''SCP upload failed'' (c\<lparr>sc_lib := request s Transfer (sc_lib c)\<rparr>))
          else let (ch, l) = acquire KChannel (Some s) (request s Transfer (sc_lib c)); c = c\<lparr>sc_lib := release ch (request ch Transfer l)\<rparr>
               in map_option (\<lambda>(passed, missing).
                      if missing \<noteq> [] then ((- 1, Some passed), sc_error ''SCP upload truncated'' c)
                      else ((int (length passed), Some passed), c))
                    (scp_write data res)
      | _ \<Rightarrow> Some ((- 1, None), c))"

section \<open>Other requests\<close>

text \<open>The server answers a call with a result code, or a path with its text.\<close>

datatype sftp_call =
    Setstat bytes u32
  | Mkdir bytes u32
  | Unlink bytes
  | Rmdir bytes
  | Rename bytes bytes

type_synonym sftp_server = "sftp_call \<Rightarrow> int"

definition sftpc_realpath :: "host \<Rightarrow> (bytes \<Rightarrow> bytes) \<Rightarrow> string \<Rightarrow> sftp_conn \<Rightarrow> string \<times> sftp_conn" where
  "sftpc_realpath h answer path c =
     (case sc_sftp c of
        None \<Rightarrow> ([], c)
      | Some f \<Rightarrow>
          let r = answer (toUtf8 h path)
          in (if r = [] then [] else fromUtf8 h r, c\<lparr>sc_lib := request f Transfer (sc_lib c)\<rparr>))"

definition sftp_request :: "int \<Rightarrow> string \<Rightarrow> sftp_conn \<Rightarrow> bool \<times> sftp_conn" where
  "sftp_request rc failure c =
     (case sc_sftp c of
        None \<Rightarrow> (False, c)
      | Some f \<Rightarrow> let c = c\<lparr>sc_lib := request f Transfer (sc_lib c)\<rparr> in (rc = 0, if rc \<noteq> 0 then sc_error failure c else c))"

definition sftp_chmod :: "host \<Rightarrow> sftp_server \<Rightarrow> string \<Rightarrow> u32 \<Rightarrow> sftp_conn \<Rightarrow> bool \<times> sftp_conn" where
  "sftp_chmod h srv path mode = sftp_request (srv (Setstat (toUtf8 h path) (mode AND 0xFFF))) (''chmod failed: '' @ path)"

definition sftp_makeDir :: "host \<Rightarrow> sftp_server \<Rightarrow> string \<Rightarrow> u32 \<Rightarrow> sftp_conn \<Rightarrow> bool \<times> sftp_conn" where
  "sftp_makeDir h srv path mode = sftp_request (srv (Mkdir (toUtf8 h path) (mode AND 0xFFF))) (''mkdir failed: '' @ path)"

definition sftp_removeFile :: "host \<Rightarrow> sftp_server \<Rightarrow> string \<Rightarrow> sftp_conn \<Rightarrow> bool \<times> sftp_conn" where
  "sftp_removeFile h srv path = sftp_request (srv (Unlink (toUtf8 h path))) (''delete failed: '' @ path)"

definition sftp_removeDir :: "host \<Rightarrow> sftp_server \<Rightarrow> string \<Rightarrow> sftp_conn \<Rightarrow> bool \<times> sftp_conn" where
  "sftp_removeDir h srv path = sftp_request (srv (Rmdir (toUtf8 h path))) (''rmdir failed: '' @ path)"

definition sftp_rename :: "host \<Rightarrow> sftp_server \<Rightarrow> string \<Rightarrow> string \<Rightarrow> sftp_conn \<Rightarrow> bool \<times> sftp_conn" where
  "sftp_rename h srv a b = sftp_request (srv (Rename (toUtf8 h a) (toUtf8 h b))) (''rename failed: '' @ a)"

section \<open>One command at a time\<close>

record ssh_exec =
  se_session :: "handle option"
  se_sock :: "handle option"
  se_lib :: lib

definition exec_disconnect :: "ssh_exec \<Rightarrow> ssh_exec" where
  "exec_disconnect c =
     (let l = (case se_session c of None \<Rightarrow> se_lib c | Some s \<Rightarrow> release s (request s Bye (se_lib c)));
          l = (case se_sock c of None \<Rightarrow> l | Some k \<Rightarrow> release k l)
      in \<lparr>se_session = None, se_sock = None, se_lib = l\<rparr>)"

definition exec_connect :: "host \<Rightarrow> peer \<Rightarrow> Session \<Rightarrow> ssh_exec \<Rightarrow> bool \<times> ssh_exec" where
  "exec_connect h p s c =
     (let c = exec_disconnect c
      in case connectTcp p (toUtf8 h (param s ''host'')) (port s) (se_lib c) of
           (None, l) \<Rightarrow> (False, c\<lparr>se_lib := l\<rparr>)
         | (Some fd, l) \<Rightarrow>
             if \<not> p_session p then (False, c\<lparr>se_lib := release fd l\<rparr>)
             else let (sess, l) = acquire KSession (Some fd) l; l = request sess Handshake l
                  in if \<not> p_handshake p then (False, c\<lparr>se_lib := release fd (release sess l)\<rparr>)
                     else let (authed, l) = authSession h p sess s l
                          in if \<not> authed then (False, c\<lparr>se_lib := release fd (release sess (request sess Bye l))\<rparr>)
                             else (True, \<lparr>se_session = Some sess, se_sock = Some fd, se_lib = l\<rparr>))"

fun until_end :: "read list \<Rightarrow> bytes" where
  "until_end [] = []"
| "until_end (Failed_read # _) = []"
| "until_end (Got b # rs) = (if b = [] then [] else b @ until_end rs)"

definition exec_run :: "host \<Rightarrow> peer \<Rightarrow> string \<Rightarrow> read list \<Rightarrow> ssh_exec \<Rightarrow> bytes \<times> ssh_exec" where
  "exec_run h p command rs c =
     (case se_session c of
        None \<Rightarrow> ([], c)
      | Some s \<Rightarrow>
          if \<not> p_channel p then ([], c)
          else let (ch, l) = acquire KChannel (Some s) (se_lib c); cmd = toUtf8 h command; l = request ch (StartExec cmd) l
               in (if p_exec p cmd then until_end rs else [], c\<lparr>se_lib := release ch l\<rparr>))"

section \<open>Nothing is leaked or used too long\<close>

text \<open>
  A connection has a session of its own, or is attached to one of another party. \<open>F\<close> are the objects
  that other parties hold in the same library. Of its members a connection holds only the SFTP session when it
  is attached.
\<close>

definition sftp_own :: "sftp_conn \<Rightarrow> handle set" where
  "sftp_own c = set_option (sc_sftp c) \<union> (if sc_owns c then set_option (sc_sock c) \<union> set_option (sc_session c) else {})"

definition sftp_idle :: "sftp_conn \<Rightarrow> bool" where
  "sftp_idle c \<longleftrightarrow> sc_session c = None \<and> sc_sock c = None \<and> sc_sftp c = None \<and> \<not> sc_owns c"

definition sftp_owning :: "handle set \<Rightarrow> sftp_conn \<Rightarrow> bool" where
  "sftp_owning F c \<longleftrightarrow>
     (\<exists>k s f. sc_sock c = Some k \<and> sc_session c = Some s \<and> sc_sftp c = Some f \<and> sc_owns c \<and>
        h_owner k = None \<and> h_owner s = Some k \<and> h_owner f = Some s \<and>
        {k, s, f} \<inter> F = {} \<and> (\<forall>x \<in> F. \<forall>y \<in> {k, s, f}. h_owner x \<noteq> Some y))"

definition sftp_attached :: "handle set \<Rightarrow> sftp_conn \<Rightarrow> bool" where
  "sftp_attached F c \<longleftrightarrow>
     (\<exists>k s. sc_sock c = Some k \<and> sc_session c = Some s \<and> \<not> sc_owns c \<and> k \<in> F \<and> s \<in> F \<and>
        (\<forall>f. sc_sftp c = Some f \<longrightarrow> h_owner f = Some s \<and> f \<notin> F \<and> (\<forall>x \<in> F. h_owner x \<noteq> Some f)))"

definition sftp_wf :: "handle set \<Rightarrow> sftp_conn \<Rightarrow> bool" where
  "sftp_wf F c \<longleftrightarrow> sftp_idle c \<or> sftp_owning F c \<or> sftp_attached F c"

lemma idle_wf: "sftp_idle c \<Longrightarrow> sftp_wf F c \<and> sftp_own c = {}"
  by (simp add: sftp_wf_def sftp_own_def sftp_idle_def)

lemma sftp_shut_holds:
  assumes "sftp_attached F c" and "holds (sftp_own c \<union> F) (sc_lib c)"
  shows "holds F (case sc_sftp c of None \<Rightarrow> sc_lib c | Some f \<Rightarrow> release f (sc_lib c))"
  using assms holds_release [of _ F "sc_lib c"] by (auto simp: sftp_attached_def sftp_own_def split: option.split)

lemma sftp_disconnect_holds:
  assumes "sftp_wf F c" and "holds (sftp_own c \<union> F) (sc_lib c)"
  shows "sftp_idle (sftp_disconnect c)" and "holds F (sc_lib (sftp_disconnect c))"
proof -
  show "sftp_idle (sftp_disconnect c)" by (simp add: sftp_idle_def sftp_disconnect_def Let_def)
  from assms(1) consider "sftp_idle c" | "sftp_attached F c" | "sftp_owning F c" by (auto simp: sftp_wf_def)
  then show "holds F (sc_lib (sftp_disconnect c))"
  proof cases
    case 1
    then show ?thesis using assms(2) by (simp add: sftp_idle_def sftp_disconnect_def sftp_own_def)
  next
    case 2
    then have "\<not> sc_owns c" by (auto simp: sftp_attached_def)
    then have "sc_lib (sftp_disconnect c) = (case sc_sftp c of None \<Rightarrow> sc_lib c | Some f \<Rightarrow> release f (sc_lib c))"
      by (simp add: sftp_disconnect_def Let_def split: option.split)
    with sftp_shut_holds [OF 2 assms(2)] show ?thesis by simp
  next
    case 3
    then obtain k s f where c: "sc_sock c = Some k" "sc_session c = Some s" "sc_sftp c = Some f" "sc_owns c"
      "h_owner k = None" "h_owner s = Some k" "h_owner f = Some s" "{k, s, f} \<inter> F = {}" "\<forall>x \<in> F. \<forall>y \<in> {k, s, f}. h_owner x \<noteq> Some y"
      unfolding sftp_owning_def by blast
    have d: "k \<noteq> s" "k \<noteq> f" "s \<noteq> f" using chain_distinct c(5-7) by blast+
    have "sftp_own c \<union> F = insert f (insert s (insert k F))" by (auto simp: sftp_own_def c(1-4))
    then have "holds (insert s (insert k F)) (release f (sc_lib c))"
      using holds_release [of f "insert s (insert k F)"] assms(2) d c(5,6,8,9) by auto
    then have "holds (insert s (insert k F)) (request s Bye (release f (sc_lib c)))" by (rule holds_request) simp
    from session_released [OF this c(6,5)] c(8,9) show ?thesis by (simp add: sftp_disconnect_def c(1-4) Let_def)
  qed
qed

text \<open>Connecting: a socket and a session on it, which are kept or released.\<close>

lemma connect_holds:
  assumes "holds L l" and "connectTcp p hn pt l = (Some fd, l1)" and "acquire KSession (Some fd) l1 = (s, l2)"
  shows "holds L (release fd l1)" and "h_owner fd = None" and "h_owner s = Some fd" and "holds (insert s (insert fd L)) l2"
    and "fd \<notin> L \<and> s \<notin> L \<and> (\<forall>x \<in> L. h_owner x \<noteq> Some fd \<and> h_owner x \<noteq> Some s)"
proof -
  have k: "acquire KSocket None l = (fd, l1)" using assms(2) by (auto simp: connectTcp_def split: if_splits prod.splits)
  have h: "holds (insert fd L) l1" "h_owner fd = None" "fd \<notin> L" "\<forall>x \<in> L. h_owner x \<noteq> Some fd"
    using holds_acquire [OF assms(1) _ k] by simp_all
  show "holds L (release fd l1)" using holds_release [of fd L] h by simp
  show "h_owner fd = None" by (rule h(2))
  note a = holds_acquire [OF h(1) _ assms(3)]
  show "h_owner s = Some fd" "holds (insert s (insert fd L)) l2" using a by simp_all
  show "fd \<notin> L \<and> s \<notin> L \<and> (\<forall>x \<in> L. h_owner x \<noteq> Some fd \<and> h_owner x \<noteq> Some s)"
    using a h(3,4) by auto
qed

lemma connectTcp_none: "connectTcp p hn pt l = (None, l1) \<Longrightarrow> l1 = l"
  by (auto simp: connectTcp_def split: if_splits prod.splits)

lemma sftp_connect_holds:
  assumes "sftp_wf F c" and "holds (sftp_own c \<union> F) (sc_lib c)"
  shows "sftp_wf F (snd (sftp_connect h p s c)) \<and>
    holds (sftp_own (snd (sftp_connect h p s c)) \<union> F) (sc_lib (snd (sftp_connect h p s c)))"
proof -
  let ?d = "sftp_disconnect c" and ?hn = "toUtf8 h (param s ''host'')"
  have d: "sftp_idle ?d" "holds F (sc_lib ?d)" using sftp_disconnect_holds [OF assms] by simp_all
  then have i: "sc_session ?d = None" "sc_sock ?d = None" "sc_sftp ?d = None" "\<not> sc_owns ?d" by (simp_all add: sftp_idle_def)
  show ?thesis
  proof (cases "connectTcp p ?hn (port s) (sc_lib ?d)")
    case (Pair k l1)
    show ?thesis
    proof (cases k)
      case None
      then have "l1 = sc_lib ?d" using connectTcp_none Pair by simp
      then show ?thesis using d None Pair
        by (auto simp: sftp_connect_def Let_def sc_error_def sftp_wf_def sftp_idle_def sftp_own_def)
    next
      case (Some fd)
      obtain sess l2 where a: "acquire KSession (Some fd) l1 = (sess, l2)" by fastforce
      note c = connect_holds [OF d(2) Pair [unfolded Some] a]
      have look: "p_dial p ?hn (port s) \<noteq> NoHost" using Pair Some by (auto simp: connectTcp_def split: if_splits)
      let ?L = "insert sess (insert fd F)" and ?l3 = "request sess Handshake l2"
      have l3: "holds ?L ?l3" using holds_request [OF c(4)] by simp
      obtain authed l4 where auth: "authSession h p sess s ?l3 = (authed, l4)" by fastforce
      have l4: "holds ?L l4" using holds_auth [OF l3, of sess h p s] auth by simp
      obtain f l5 where f: "acquire KSftp (Some sess) l4 = (f, l5)" by fastforce
      have l5: "holds (insert f ?L) l5" "h_owner f = Some sess" "f \<notin> ?L" "\<forall>x \<in> ?L. h_owner x \<noteq> Some f"
        using holds_acquire [OF l4 _ f] by simp_all
      have r: "holds F (release fd (release sess ?l3))" "holds F (release fd (release sess (request sess Bye l4)))"
        using session_released [OF l3 c(3,2)] session_released [OF holds_request [OF l4, of sess Bye] c(3,2)] c(5) by simp_all
      have own: "sftp_owning F (?d\<lparr>sc_sftp := Some f, sc_session := Some sess, sc_sock := Some fd, sc_owns := True, sc_lib := l5\<rparr>)"
        using c(2,3,5) l5(2-4) by (simp add: sftp_owning_def)
      have held: "insert sess (insert fd (insert f F)) = insert f ?L" by auto
      show ?thesis
        using look d(1) c(1) r l5(1) own
        by (auto simp: sftp_connect_def Let_def Pair Some a auth f sc_error_def sftp_wf_def sftp_idle_def sftp_own_def held)
    qed
  qed
qed

text \<open>An operation that leaves the connection's objects as they are, and releases its own.\<close>

definition keeps_objects :: "sftp_conn \<Rightarrow> sftp_conn \<Rightarrow> bool" where
  "keeps_objects c c' \<longleftrightarrow> sc_session c' = sc_session c \<and> sc_sock c' = sc_sock c \<and> sc_sftp c' = sc_sftp c \<and> sc_owns c' = sc_owns c \<and>
     (\<forall>L. holds L (sc_lib c) \<longrightarrow> (\<forall>f. sc_sftp c = Some f \<longrightarrow> f \<in> L) \<longrightarrow> (\<forall>s. sc_session c = Some s \<longrightarrow> s \<in> L) \<longrightarrow> holds L (sc_lib c'))"

lemma keeps_step:
  assumes "keeps_objects c c'" and "sftp_wf F c" and "holds (sftp_own c \<union> F) (sc_lib c)"
  shows "sftp_wf F c' \<and> holds (sftp_own c' \<union> F) (sc_lib c')"
proof -
  have "\<forall>f. sc_sftp c = Some f \<longrightarrow> f \<in> sftp_own c \<union> F" by (simp add: sftp_own_def)
  moreover have "\<forall>s. sc_session c = Some s \<longrightarrow> s \<in> sftp_own c \<union> F"
    using assms(2) by (auto simp: sftp_wf_def sftp_idle_def sftp_owning_def sftp_attached_def sftp_own_def)
  ultimately have "holds (sftp_own c \<union> F) (sc_lib c')" using assms(1,3) unfolding keeps_objects_def by blast
  moreover have "sftp_own c' = sftp_own c" "sftp_wf F c' = sftp_wf F c" using assms(1)
    by (simp_all add: keeps_objects_def sftp_wf_def sftp_idle_def sftp_owning_def sftp_attached_def sftp_own_def)
  ultimately show ?thesis using assms(2) by simp
qed

lemma sftp_ops_keep:
  "keeps_objects c (snd (sftp_list h dir path c))"
  "keeps_objects c (snd (sftp_download h rd path opens disk before c))"
  "sftp_upload h op path local res c = Some (r, c') \<Longrightarrow> keeps_objects c c'"
  "keeps_objects c (snd (scp_download h scp path opens disk before c))"
  "scp_upload h op2 path local res c = Some (r, c') \<Longrightarrow> keeps_objects c c'"
  "keeps_objects c (snd (sftpc_realpath h answer path c))"
  "keeps_objects c (snd (sftp_request rc m c))"
  by (auto simp: keeps_objects_def sftp_list_def sftp_download_def sftp_upload_def scp_download_def scp_upload_def sftpc_realpath_def
      sftp_request_def sc_error_def Let_def holds_request split: option.splits prod.splits read_end.splits if_splits
      intro: transfer_holds)

lemma sftp_attach_holds:
  assumes "sftp_wf F c" and "holds (sftp_own c \<union> F) (sc_lib c)" and "\<not> sc_owns c" and "sc_sftp c = None" and "s \<in> F" and "k \<in> F"
  shows "sftp_wf F (snd (sftp_attach starts s k c)) \<and>
    holds (sftp_own (snd (sftp_attach starts s k c)) \<union> F) (sc_lib (snd (sftp_attach starts s k c)))"
proof -
  have F: "holds F (sc_lib c)" using assms(2-4) by (simp add: sftp_own_def)
  obtain f l where f: "acquire KSftp (Some s) (sc_lib c) = (f, l)" by fastforce
  have "holds (insert f F) l" "f \<notin> F" "h_owner f = Some s" "\<forall>x \<in> F. h_owner x \<noteq> Some f"
    using holds_acquire [OF F _ f] assms(5) by simp_all
  then show ?thesis using assms(3-6) F
    by (simp add: sftp_attach_def f sc_error_def sftp_wf_def sftp_attached_def sftp_own_def Let_def)
qed

lemma sftp_detach_holds:
  assumes "sftp_wf F c" and "holds (sftp_own c \<union> F) (sc_lib c)" and "\<not> sc_owns c"
  shows "sftp_wf F (sftp_detach c) \<and> holds (sftp_own (sftp_detach c) \<union> F) (sc_lib (sftp_detach c))"
proof -
  have "sftp_idle (sftp_detach c)" using assms(3) by (simp add: sftp_idle_def sftp_detach_def)
  moreover have "holds F (sc_lib (sftp_detach c))"
  proof (cases "sftp_idle c")
    case True
    then show ?thesis using assms(2) by (simp add: sftp_idle_def sftp_own_def sftp_detach_def)
  next
    case False
    then have "sftp_attached F c" using assms(1,3) by (auto simp: sftp_wf_def sftp_owning_def)
    from sftp_shut_holds [OF this assms(2)] show ?thesis by (simp add: sftp_detach_def split: option.split)
  qed
  ultimately show ?thesis using idle_wf by simp
qed

text \<open>
  The uses of a connection, beside other parties who make, use and release sessions on sockets of
  their own. \<open>attach\<close> is called when the connection has neither a session of its own nor an SFTP session, with
  the session and the socket of another party, who does not release them before the connection lets go of them;
  \<open>detach\<close> when it has no session of its own.
\<close>

inductive sftp_use :: "host \<Rightarrow> sftp_conn \<times> handle set \<Rightarrow> sftp_conn \<times> handle set \<Rightarrow> bool" for h where
  use_connect: "sftp_use h (c, F) (snd (sftp_connect h p s c), F)"
| use_disconnect: "sftp_use h (c, F) (sftp_disconnect c, F)"
| use_attach: "\<not> sc_owns c \<Longrightarrow> sc_sftp c = None \<Longrightarrow> sess \<in> F \<Longrightarrow> k \<in> F \<Longrightarrow> sftp_use h (c, F) (snd (sftp_attach starts sess k c), F)"
| use_detach: "\<not> sc_owns c \<Longrightarrow> sftp_use h (c, F) (sftp_detach c, F)"
| use_list: "sftp_use h (c, F) (snd (sftp_list h dir path c), F)"
| use_download: "sftp_use h (c, F) (snd (sftp_download h rd path opens disk before c), F)"
| use_upload: "sftp_upload h op path local res c = Some (r, c') \<Longrightarrow> sftp_use h (c, F) (c', F)"
| use_scp_download: "sftp_use h (c, F) (snd (scp_download h scp path opens disk before c), F)"
| use_scp_upload: "scp_upload h op2 path local res c = Some (r, c') \<Longrightarrow> sftp_use h (c, F) (c', F)"
| use_realpath: "sftp_use h (c, F) (snd (sftpc_realpath h answer path c), F)"
| use_request: "sftp_use h (c, F) (snd (sftp_request rc m c), F)"
| other_makes: "acquire KSocket None (sc_lib c) = (k, l) \<Longrightarrow> acquire KSession (Some k) l = (sess, l') \<Longrightarrow>
    sftp_use h (c, F) (c\<lparr>sc_lib := l'\<rparr>, insert sess (insert k F))"
| other_uses: "a \<in> F \<Longrightarrow> sftp_use h (c, F) (c\<lparr>sc_lib := request a q (sc_lib c)\<rparr>, F)"
| other_releases: "a \<in> F \<Longrightarrow> sc_session c \<noteq> Some a \<Longrightarrow> sc_sock c \<noteq> Some a \<Longrightarrow> \<forall>x \<in> F. h_owner x \<noteq> Some a \<Longrightarrow>
    sftp_use h (c, F) (c\<lparr>sc_lib := release a (sc_lib c)\<rparr>, F - {a})"

lemma sftp_wf_lib: "sftp_wf F (c\<lparr>sc_lib := l\<rparr>) = sftp_wf F c" "sftp_own (c\<lparr>sc_lib := l\<rparr>) = sftp_own c"
  by (simp_all add: sftp_wf_def sftp_idle_def sftp_owning_def sftp_attached_def sftp_own_def)

lemma sftp_other_made:
  assumes "sftp_wf F c" and "holds (sftp_own c \<union> F) (sc_lib c)"
    and "acquire KSocket None (sc_lib c) = (k, l)" and "acquire KSession (Some k) l = (s, l')"
  shows "sftp_wf (insert s (insert k F)) c \<and> holds (sftp_own c \<union> insert s (insert k F)) l'"
proof -
  have k: "holds (insert k (sftp_own c \<union> F)) l" "k \<notin> sftp_own c \<union> F" "h_owner k = None" "\<forall>x \<in> sftp_own c \<union> F. h_owner x \<noteq> Some k"
    using holds_acquire [OF assms(2) _ assms(3)] by simp_all
  have s: "holds (insert s (insert k (sftp_own c \<union> F))) l'" "s \<notin> insert k (sftp_own c \<union> F)" "h_owner s = Some k"
    using holds_acquire [OF k(1) _ assms(4)] by simp_all
  have "sftp_own c \<union> insert s (insert k F) = insert s (insert k (sftp_own c \<union> F))" by auto
  moreover have "sftp_wf (insert s (insert k F)) c"
    using assms(1) k s by (auto simp: sftp_wf_def sftp_owning_def sftp_attached_def sftp_own_def split: if_splits)
  ultimately show ?thesis using s(1) by simp
qed

lemma sftp_other_released:
  assumes "sftp_wf F c" and "holds (sftp_own c \<union> F) (sc_lib c)" and "a \<in> F" and "sc_session c \<noteq> Some a" and "sc_sock c \<noteq> Some a"
    and "\<forall>x \<in> F. h_owner x \<noteq> Some a"
  shows "sftp_wf (F - {a}) c \<and> holds (sftp_own c \<union> (F - {a})) (release a (sc_lib c))"
proof -
  have own: "a \<notin> sftp_own c \<and> (\<forall>x \<in> sftp_own c. h_owner x \<noteq> Some a)"
    using assms(1,3-5) by (auto simp: sftp_wf_def sftp_idle_def sftp_owning_def sftp_attached_def sftp_own_def split: if_splits)
  have "insert a (sftp_own c \<union> (F - {a})) = sftp_own c \<union> F" using assms(3) by auto
  then have "holds (sftp_own c \<union> (F - {a})) (release a (sc_lib c))"
    using holds_release [of a "sftp_own c \<union> (F - {a})"] assms(2,6) own by auto
  moreover have "sftp_wf (F - {a}) c"
    using assms(1,4,5) by (auto simp: sftp_wf_def sftp_owning_def sftp_attached_def)
  ultimately show ?thesis by simp
qed

interpretation sftp: ssh_client "\<lambda>(c, F). sftp_own c \<union> F" "\<lambda>(c, F). sc_lib c" "\<lambda>(c, F). sftp_wf F c" "sftp_use h"
proof unfold_locales
  fix st st' :: "sftp_conn \<times> handle set"
  obtain c F where st: "st = (c, F)" by fastforce
  assume "case st of (c, F) \<Rightarrow> sftp_wf F c" "holds (case st of (c, F) \<Rightarrow> sftp_own c \<union> F) (case st of (c, F) \<Rightarrow> sc_lib c)" and u: "sftp_use h st st'"
  then have c: "sftp_wf F c" "holds (sftp_own c \<union> F) (sc_lib c)" by (simp_all add: st)
  from u [unfolded st] have "\<exists>d G. st' = (d, G) \<and> sftp_wf G d \<and> holds (sftp_own d \<union> G) (sc_lib d)"
  proof cases
    case use_disconnect
    with sftp_disconnect_holds [OF c] idle_wf [of "sftp_disconnect c" F] show ?thesis by simp
  next
    case (other_makes k l sess l')
    with sftp_other_made [OF c] show ?thesis by (simp add: sftp_wf_lib)
  next
    case (other_uses a q)
    with holds_request [OF c(2), of a q] c(1) show ?thesis by (simp add: sftp_wf_lib)
  next
    case (other_releases a)
    with sftp_other_released [OF c] show ?thesis by (simp add: sftp_wf_lib)
  qed (use sftp_connect_holds [OF c] sftp_attach_holds [OF c] sftp_detach_holds [OF c] sftp_ops_keep keeps_step [OF _ c] in auto)
  then show "(case st' of (c, F) \<Rightarrow> sftp_wf F c) \<and> holds (case st' of (c, F) \<Rightarrow> sftp_own c \<union> F) (case st' of (c, F) \<Rightarrow> sc_lib c)"
    by auto
qed

text \<open>C15: Whatever is done with an SFTP connection - with a session of its own or attached to one of
  another party - and however the server fails, no object of the library is used after its release or released
  twice or in the wrong order; what is alive is what the connection and the other parties hold, and after a
  disconnect only what the others do: their sessions are not touched. Excepted are \<open>attach\<close> and \<open>detach\<close> on a
  connection that has a session of its own, and \<open>attach\<close> on one that has an SFTP session: they forget it.\<close>

theorem sftp_no_leak:
  assumes "(sftp_use h)\<^sup>*\<^sup>* (new_sftp empty_lib, {}) (c, F)"
  shows "calls_ok {} (l_calls (sc_lib c)) = Some (sftp_own c \<union> F) \<and> calls_ok {} (l_calls (sc_lib (sftp_disconnect c))) = Some F"
proof -
  let ?new = "(new_sftp empty_lib, {}) :: sftp_conn \<times> handle set"
  have new: "case ?new of (c, F) \<Rightarrow> sftp_wf F c" "holds (case ?new of (c, F) \<Rightarrow> sftp_own c \<union> F) (case ?new of (c, F) \<Rightarrow> sc_lib c)"
    by (simp_all add: new_sftp_def sftp_wf_def sftp_idle_def sftp_own_def holds_empty)
  have "(sftp_use h)\<^sup>*\<^sup>* ?new (sftp_disconnect c, F)"
    using assms use_disconnect by (rule rtranclp.rtrancl_into_rtrancl)
  from sftp.no_leak [OF this new] sftp.no_leak [OF assms new] show ?thesis
    by (simp add: sftp_own_def sftp_disconnect_def Let_def)
qed

text \<open>An attachment to a session of another connection does not forget an own session: the one it had
  is leaked, and the next disconnect releases the other's.\<close>

lemma attach_releases_foreign:
  assumes "sc_owns c" and "sc_sftp c = None"
  shows "\<exists>l. sc_lib (sftp_disconnect (snd (sftp_attach False s k c))) = release k (release s l)"
  using assms by (auto simp: sftp_attach_def sftp_disconnect_def sc_error_def Let_def)

text \<open>\<open>detach\<close> drops a session of its own without releasing it.\<close>

lemma detach_forgets_own:
  assumes "sftp_owning F c" and "holds (sftp_own c \<union> F) (sc_lib c)"
  shows "\<exists>s k. sc_session c = Some s \<and> sc_sock c = Some k \<and> sc_session (sftp_detach c) = None \<and>
    holds (insert s (insert k F)) (sc_lib (sftp_disconnect (sftp_detach c)))"
proof -
  obtain k s f where c: "sc_sock c = Some k" "sc_session c = Some s" "sc_sftp c = Some f" "sc_owns c"
    "h_owner k = None" "h_owner s = Some k" "h_owner f = Some s" "{k, s, f} \<inter> F = {}" "\<forall>x \<in> F. \<forall>y \<in> {k, s, f}. h_owner x \<noteq> Some y"
    using assms(1) unfolding sftp_owning_def by blast
  have d: "k \<noteq> f" "s \<noteq> f" using chain_distinct c(5-7) by blast+
  have "sftp_own c \<union> F = insert f (insert s (insert k F))" by (auto simp: sftp_own_def c(1-4))
  then have "holds (insert s (insert k F)) (release f (sc_lib c))"
    using holds_release [of f "insert s (insert k F)"] assms(2) d c(5,6,8,9) by auto
  then show ?thesis by (simp add: c sftp_detach_def sftp_disconnect_def)
qed

section \<open>What a transfer leaves\<close>

text \<open>The server's side of a download: the bytes until its end, and whether the end was reached.\<close>

fun clean_end :: "read list \<Rightarrow> bool" where
  "clean_end [] = True"
| "clean_end (Failed_read # _) = False"
| "clean_end (Got b # rs) = (b = [] \<or> clean_end rs)"

lemma read_file_eof: "read_file disk acc rs = (AtEof, body) \<Longrightarrow> clean_end rs \<and> body = acc @ until_end rs"
  by (induction disk acc rs rule: read_file.induct) (auto split: if_splits)


text \<open>A full disk that is noticed only when the buffer is written out at the close: the download
  reports its full size and no error, and the file is cut.\<close>

lemma sftp_flush_unnoticed:
  assumes "sc_sftp c = Some f" and "rd (toUtf8 h path) = Some [Got b]" and "b \<noteq> []" and "takes disk 0 b = length b" and "keeps disk b = []"
  shows "fst (sftp_download h rd path True disk before c) = (int (length b), Some []) \<and>
    sc_errors (snd (sftp_download h rd path True disk before c)) = sc_errors c"
  using assms by (simp add: sftp_download_def case_prod_unfold Let_def)

lemma send_file_all: "send_file data res = Some (passed, missing) \<Longrightarrow> passed @ missing = data"
proof (induction data res arbitrary: passed missing rule: send_file.induct)
  case (3 v va w res)
  show ?case
  proof (cases "w \<le> 0")
    case False
    then obtain t where t: "send_file (drop (nat w) (v # va)) res = Some (t, missing)" "passed = take (nat w) (v # va) @ t"
      using 3(2) by (auto simp del: drop_Cons' take_Cons')
    with 3(1) [OF False t(1)] show ?thesis by (metis append.assoc append_take_drop_id)
  qed (use 3(2) in simp)
qed simp_all

text \<open>An SFTP upload that reports a size has handed the server the whole of the local file, and any
  other reports a failure.\<close>

theorem sftp_upload_exact:
  assumes "sftp_upload h op path local res c = Some ((n, remote), c')"
  shows "if n < 0 then n = - 1 else \<exists>data. local = Some data \<and> remote = Some data \<and> n = int (length data)"
  using assms send_file_all
  by (fastforce simp: sftp_upload_def Let_def split: option.splits prod.splits if_splits)

lemma scp_read_all:
  "\<forall>b \<in> set bs. b \<noteq> [] \<and> length b \<le> kBuf \<Longrightarrow>
   \<exists>body. scp_read disk (length (concat bs)) got acc (map Got bs) = (0, got + length (concat bs), body)"
proof (induction bs arbitrary: got acc)
  case (Cons b bs)
  then obtain body where "scp_read disk (length (concat bs)) (got + length b) (acc @ take (takes disk (length acc) b) b) (map Got bs) =
      (0, got + length b + length (concat bs), body)" by (metis list.set_intros(2))
  with Cons.prems show ?case by (auto simp: min_def add.assoc)
qed simp

lemma scp_read_no_disk: "takes disk = (\<lambda>_ _. 0) \<Longrightarrow> scp_read disk missing got acc rs = (m, g, body) \<Longrightarrow> body = acc"
  by (induction disk missing got acc rs rule: scp_read.induct) (auto simp: Let_def split: if_splits)

text \<open>An SCP download does not look at what its writes to the local disk store: it reports the full
  size on any disk, also on one that is full, where the file it leaves is empty.\<close>

theorem scp_disk_full_unnoticed:
  assumes "sc_session c = Some s" and "scp (toUtf8 h path) = Some (length (concat bs), map Got bs)"
    and "\<forall>b \<in> set bs. b \<noteq> [] \<and> length b \<le> kBuf" and "takes full_disk = (\<lambda>_ _. 0)"
  shows "fst (fst (scp_download h scp path True disk before c)) = int (length (concat bs)) \<and>
    fst (scp_download h scp path True full_disk before c) = (int (length (concat bs)), Some (keeps full_disk []))"
proof -
  obtain body where r: "scp_read disk (length (concat bs)) 0 [] (map Got bs) = (0, length (concat bs), body)"
    using scp_read_all [OF assms(3), of disk 0 "[]"] by auto
  obtain body' where r': "scp_read full_disk (length (concat bs)) 0 [] (map Got bs) = (0, length (concat bs), body')"
    using scp_read_all [OF assms(3), of full_disk 0 "[]"] by auto
  with scp_read_no_disk [OF assms(4)] have "body' = []" by blast
  then show ?thesis by (simp add: scp_download_def assms(1,2) r r' case_prod_unfold Let_def)
qed

lemma sftp_list_sorted:
  assumes "sftp_list h dir path c = (Some es, c')"
  shows "\<exists>as. dir (toUtf8 h path) = Some as \<and> mset es = mset (List.map_filter (sftp_entry h) as) \<and> listed es"
  using assms by (auto simp: sftp_list_def Let_def mset_sortListing listed_sortListing split: option.splits prod.splits)

section \<open>The command runner\<close>

definition exec_held :: "ssh_exec \<Rightarrow> handle set" where
  "exec_held c = set_option (se_sock c) \<union> set_option (se_session c)"

definition exec_wf :: "ssh_exec \<Rightarrow> bool" where
  "exec_wf c \<longleftrightarrow> se_session c = None \<and> se_sock c = None \<or>
     (\<exists>k s. se_sock c = Some k \<and> se_session c = Some s \<and> h_owner k = None \<and> h_owner s = Some k)"

lemma exec_disconnect_holds:
  assumes "exec_wf c" and "holds (exec_held c) (se_lib c)"
  shows "holds {} (se_lib (exec_disconnect c))"
proof (cases "se_session c")
  case None
  then show ?thesis using assms by (auto simp: exec_wf_def exec_held_def exec_disconnect_def)
next
  case (Some s)
  then obtain k where k: "se_sock c = Some k" "h_owner k = None" "h_owner s = Some k" using assms(1) by (auto simp: exec_wf_def)
  have "exec_held c = {s, k}" by (auto simp: exec_held_def k Some)
  with assms(2) release_session(2) [OF _ k(2,3)] show ?thesis by (simp add: exec_disconnect_def Let_def k(1) Some)
qed

lemma exec_connect_holds:
  assumes "exec_wf c" and "holds (exec_held c) (se_lib c)"
  shows "exec_wf (snd (exec_connect h p s c)) \<and> holds (exec_held (snd (exec_connect h p s c))) (se_lib (snd (exec_connect h p s c)))"
proof -
  let ?d = "exec_disconnect c" and ?hn = "toUtf8 h (param s ''host'')"
  have d: "holds {} (se_lib ?d)" "se_session ?d = None" "se_sock ?d = None"
    using exec_disconnect_holds [OF assms] by (simp_all add: exec_disconnect_def Let_def)
  show ?thesis
  proof (cases "connectTcp p ?hn (port s) (se_lib ?d)")
    case (Pair k l1)
    show ?thesis
    proof (cases k)
      case None
      then have "l1 = se_lib ?d" using connectTcp_none Pair by simp
      then show ?thesis using d None Pair by (simp add: exec_connect_def Let_def exec_wf_def exec_held_def)
    next
      case (Some fd)
      obtain sess l2 where a: "acquire KSession (Some fd) l1 = (sess, l2)" by fastforce
      note c = connect_holds [OF d(1) Pair [unfolded Some] a]
      let ?l3 = "request sess Handshake l2"
      have l3: "holds {sess, fd} ?l3" using holds_request [OF c(4)] by simp
      obtain authed l4 where auth: "authSession h p sess s ?l3 = (authed, l4)" by fastforce
      have l4: "holds {sess, fd} l4" using holds_auth [OF l3, of sess h p s] auth by simp
      have "holds {} (release fd (release sess ?l3))" "holds {} (release fd (release sess (request sess Bye l4)))"
        using release_session(1) [OF l3 c(2,3)] release_session(2) [OF l4 c(2,3)] by simp_all
      with d(2,3) c(1-3) l4 show ?thesis
        by (auto simp: exec_connect_def Let_def Pair Some a auth exec_wf_def exec_held_def insert_commute)
    qed
  qed
qed

lemma exec_run_holds:
  assumes "holds (exec_held c) (se_lib c)"
  shows "holds (exec_held c) (se_lib (snd (exec_run h p cmd rs c)))"
proof (cases "se_session c")
  case (Some s)
  obtain ch l where a: "acquire KChannel (Some s) (se_lib c) = (ch, l)" by fastforce
  have "s \<in> exec_held c" by (simp add: exec_held_def Some)
  then have h: "holds (insert ch (exec_held c)) l" "ch \<notin> exec_held c" "\<forall>x \<in> exec_held c. h_owner x \<noteq> Some ch"
    using holds_acquire [OF assms _ a] by simp_all
  show ?thesis using assms holds_release [OF holds_request [OF h(1), of ch] h(2,3)]
    by (simp add: exec_run_def Some a Let_def)
qed (simp add: exec_run_def assms)

inductive exec_use :: "host \<Rightarrow> ssh_exec \<Rightarrow> ssh_exec \<Rightarrow> bool" for h where
  exec_connects: "exec_use h c (snd (exec_connect h p s c))"
| exec_disconnects: "exec_use h c (exec_disconnect c)"
| exec_runs: "exec_use h c (snd (exec_run h p cmd rs c))"

interpretation exec: ssh_client exec_held se_lib exec_wf "exec_use h"
proof unfold_locales
  fix c c' :: ssh_exec
  assume c: "exec_wf c" "holds (exec_held c) (se_lib c)" and "exec_use h c c'"
  from this(3) show "exec_wf c' \<and> holds (exec_held c') (se_lib c')"
  proof cases
    case exec_disconnects
    with exec_disconnect_holds [OF c] show ?thesis by (simp add: exec_wf_def exec_held_def exec_disconnect_def Let_def)
  next
    case (exec_runs p cmd rs)
    have "se_session c' = se_session c \<and> se_sock c' = se_sock c"
      by (auto simp: exec_runs exec_run_def Let_def split: option.split prod.split)
    with exec_run_holds [OF c(2), of h p cmd rs] c(1) exec_runs show ?thesis by (simp add: exec_wf_def exec_held_def)
  qed (use exec_connect_holds [OF c] in auto)
qed

section \<open>Concrete runs\<close>

text \<open>A server that takes any password and serves SFTP.\<close>

definition demo_peer :: peer where
  "demo_peer = \<lparr>p_dial = (\<lambda>_ _. Dialled), p_session = True, p_handshake = True, p_key = (\<lambda>_ _ _. False), p_password = (\<lambda>_ _. True),
     p_interactive = (\<lambda>_ _. False), p_agent = None, p_tcp = (\<lambda>_ _. True), p_sftp = True, p_channel = True, p_shell = True,
     p_exec = (\<lambda>_. True)\<rparr>"

definition demo_sftp :: sftp_conn where
  "demo_sftp = snd (sftp_connect demo_ftp_host demo_peer (new_session ''s'' Sftp) (new_sftp empty_lib))"

text \<open>A connection attached to the session of another party, who made it before.\<close>

definition demo_other :: "handle \<times> lib" where
  "demo_other = (let (k, l) = acquire KSocket None empty_lib in acquire KSession (Some k) l)"

definition demo_attached :: sftp_conn where
  "demo_attached = snd (sftp_attach True (fst demo_other) (the (h_owner (fst demo_other))) ((new_sftp empty_lib)\<lparr>sc_lib := snd demo_other\<rparr>))"

theorem sftp_no_leak_witness:
  "sc_sftp demo_attached \<noteq> None \<and>
   calls_ok {} (l_calls (sc_lib (sftp_disconnect demo_attached))) = Some {fst demo_other, the (h_owner (fst demo_other))}"
proof -
  obtain k l where k: "acquire KSocket None (sc_lib (new_sftp empty_lib)) = (k, l)" by fastforce
  obtain s l' where s: "acquire KSession (Some k) l = (s, l')" by fastforce
  have owner: "h_owner s = Some k" using s by (auto simp: acquire_def Let_def)
  have d: "demo_other = (s, l')" using k s by (simp add: demo_other_def new_sftp_def)
  have "(sftp_use demo_ftp_host)\<^sup>*\<^sup>* (new_sftp empty_lib, {}) ((new_sftp empty_lib)\<lparr>sc_lib := l'\<rparr>, {s, k})"
    by (rule r_into_rtranclp, rule other_makes [OF k s])
  moreover have "sftp_use demo_ftp_host ((new_sftp empty_lib)\<lparr>sc_lib := l'\<rparr>, {s, k}) (demo_attached, {s, k})"
    unfolding demo_attached_def d fst_conv snd_conv owner option.sel by (rule use_attach) (simp_all add: new_sftp_def)
  ultimately have "(sftp_use demo_ftp_host)\<^sup>*\<^sup>* (new_sftp empty_lib, {}) (demo_attached, {s, k})" by (rule rtranclp.rtrancl_into_rtrancl)
  moreover have "sc_sftp demo_attached \<noteq> None" by code_simp
  ultimately show ?thesis using sftp_no_leak [of demo_ftp_host demo_attached "{s, k}"] unfolding d fst_conv owner option.sel by blast
qed

definition demo_disk :: disk where
  "demo_disk = \<lparr>takes = (\<lambda>_ b. length b), keeps = id\<rparr>"


theorem sftp_upload_exact_witness:
  "map_option fst (sftp_upload demo_ftp_host (\<lambda>_. True) ''a'' (Some [1, 2, 3]) [2, 1] demo_sftp) = Some (3, Some [1, 2, 3])"
proof -
  obtain n remote c' where u: "sftp_upload demo_ftp_host (\<lambda>_. True) ''a'' (Some [1, 2, 3]) [2, 1] demo_sftp = Some ((n, remote), c')" "n = 3"
  proof -
    have "map_option (fst \<circ> fst) (sftp_upload demo_ftp_host (\<lambda>_. True) ''a'' (Some [1, 2, 3]) [2, 1] demo_sftp) = Some 3" by code_simp
    then show ?thesis using that by (auto simp: comp_def)
  qed
  with sftp_upload_exact [OF u(1)] show ?thesis by simp
qed

theorem scp_disk_full_unnoticed_witness:
  "fst (scp_download demo_ftp_host (\<lambda>_. Some (3, [Got [1, 2], Got [3]])) ''a'' True (demo_disk\<lparr>takes := \<lambda>_ _. 0\<rparr>) None demo_sftp) = (3, Some [])"
proof -
  have "\<exists>s. sc_session demo_sftp = Some s" unfolding not_None_eq [symmetric] by code_simp
  then obtain s where "sc_session demo_sftp = Some s" ..
  from scp_disk_full_unnoticed [OF this, of "\<lambda>_. Some (3, [Got [1, 2], Got [3]])" demo_ftp_host "''a''" "[[1, 2], [3]]" "demo_disk\<lparr>takes := \<lambda>_ _. 0\<rparr>"]
  show ?thesis by (simp add: kBuf_def demo_disk_def)
qed

end
