(* ===== verification/Ssh_Tunnel.thy ===== *)
theory Ssh_Tunnel
  imports Ssh_Relay
begin

text \<open>
  SSH tunnels, \<open>src/src/tunnel/SshTunnel.{h,cpp}\<close>: the worker of a local or dynamic tunnel, which
  serves one client over a session of its own, the listener of a remote tunnel, which serves all
  of its connections over one session, and the object that starts and stops them. The
  descriptors of clients are objects of \<open>Ssh_Lib\<close>.
\<close>

section \<open>The worker of a client\<close>

text \<open>The result: the library, what is left of the client's first bytes, and what was relayed.\<close>

definition relayWorker ::
  "(bytes \<Rightarrow> bytes) \<Rightarrow> host \<Rightarrow> peer \<Rightarrow> Session \<Rightarrow> Tunnel \<Rightarrow> sock \<Rightarrow> relay_round list \<Rightarrow> int list \<Rightarrow> handle \<Rightarrow> lib \<Rightarrow>
   (lib \<times> sock \<times> bytes \<times> bytes) option" where
  "relayWorker ntop h p srv t cs rounds res client l =
     (case if t_kind t = Dynamic then socksNegotiate ntop cs else (Some (toUtf8 h (t_targetHost t), unat (t_targetPort t)), cs) of
        (None, cs) \<Rightarrow> Some (release client l, cs, [], [])
      | (Some (hn, pt), cs) \<Rightarrow>
          (case connectTcp p (toUtf8 h (param srv ''host'')) (port srv) l of
             (None, l) \<Rightarrow> Some (release client l, cs, [], [])
           | (Some fd, l) \<Rightarrow>
               if \<not> p_session p then Some (release client (release fd l), cs, [], [])
               else let (sess, l) = acquire KSession (Some fd) l; l = request sess Handshake l;
                        (good, l) = (if p_handshake p then authSession h p sess srv l else (False, l));
                        finish = (\<lambda>l. release client (release fd (release sess (request sess Bye l))))
                    in if \<not> good then Some (finish l, cs, [], [])
                       else let l = request sess (DirectTcp hn (int pt)) l
                            in if \<not> p_tcp p hn (int pt) then Some (finish l, cs, [], [])
                               else let (ch, l) = acquire KChannel (Some sess) l
                                    in map_option (\<lambda>(chan, to). (finish (release ch (request ch Transfer l)), cs, chan, to))
                                         (pumpRelay rounds res)))"

section \<open>The listener of a remote tunnel\<close>

text \<open>What a round finds: whether a channel was opened and the target can be dialled for it, and for
  each connection what its channel and its socket have.\<close>

record pair_io =
  po_reads :: "chan_read list"
  po_client :: "bytes option"
  po_writes :: "int list"
  po_eof :: bool

record remote_round =
  rr_accept :: bool
  rr_dials :: bool
  rr_io :: "handle \<Rightarrow> pair_io"

text \<open>One connection: \<open>None\<close> when a write does not end, or whether the connection is over.\<close>

definition service_pair :: "pair_io \<Rightarrow> bool option" where
  "service_pair io =
     (let (dead, _, _) = read_chan (po_reads io)
      in if dead then Some True
         else case po_client io of
                None \<Rightarrow> Some (po_eof io)
              | Some b \<Rightarrow>
                  if b = [] then Some True
                  else map_option (\<lambda>(bad, _, _). bad \<or> po_eof io) (write_all b (po_writes io)))"

fun service_pairs :: "(handle \<Rightarrow> pair_io) \<Rightarrow> (handle \<times> handle) list \<Rightarrow> lib \<Rightarrow> ((handle \<times> handle) list \<times> lib) option" where
  "service_pairs io [] l = Some ([], l)"
| "service_pairs io ((ch, fd) # ps) l =
     (case service_pair (io ch) of
        None \<Rightarrow> None
      | Some over \<Rightarrow>
          let l = request ch Transfer l
          in if over then service_pairs io ps (release fd (release ch l))
             else map_option (\<lambda>(ps, l). ((ch, fd) # ps, l)) (service_pairs io ps l))"

text \<open>The rounds up to the one that finds the flag set.\<close>

definition accept_channel :: "remote_round \<Rightarrow> handle \<Rightarrow> (handle \<times> handle) list \<Rightarrow> lib \<Rightarrow> (handle \<times> handle) list \<times> lib" where
  "accept_channel r sess ps l =
     (if \<not> rr_accept r then (ps, l)
      else let (ch, l) = acquire KChannel (Some sess) l
           in if rr_dials r then (case acquire KSocket None l of (fd, l) \<Rightarrow> (ps @ [(ch, fd)], l)) else (ps, release ch l))"

fun remote_loop :: "remote_round list \<Rightarrow> handle \<Rightarrow> (handle \<times> handle) list \<Rightarrow> lib \<Rightarrow> ((handle \<times> handle) list \<times> lib) option" where
  "remote_loop [] sess ps l = Some (ps, l)"
| "remote_loop (r # rs) sess ps l =
     (case accept_channel r sess ps l of
        (ps, l) \<Rightarrow> (case service_pairs (rr_io r) ps l of None \<Rightarrow> None | Some (ps, l) \<Rightarrow> remote_loop rs sess ps l))"

definition release_pairs :: "(handle \<times> handle) list \<Rightarrow> lib \<Rightarrow> lib" where
  "release_pairs ps l = fold (\<lambda>(ch, fd) l. release fd (release ch l)) ps l"

text \<open>\<open>listens\<close>: whether the server listens for the tunnel. The result is the library and the errors.\<close>

definition remoteListenerWorker ::
  "host \<Rightarrow> peer \<Rightarrow> bool \<Rightarrow> Session \<Rightarrow> Tunnel \<Rightarrow> remote_round list \<Rightarrow> lib \<Rightarrow> (lib \<times> string list) option" where
  "remoteListenerWorker h p listens srv t rounds l =
     (case connectTcp p (toUtf8 h (param srv ''host'')) (port srv) l of
        (None, l) \<Rightarrow> Some (l, [''Remote tunnel: SSH connect failed''])
      | (Some fd, l) \<Rightarrow>
          if \<not> p_session p then Some (release fd l, [])
          else let (sess, l) = acquire KSession (Some fd) l; l = request sess Handshake l;
                   (good, l) = (if p_handshake p then authSession h p sess srv l else (False, l))
               in if \<not> good then Some (release fd (release sess l), [''Remote tunnel: SSH auth failed''])
                  else if \<not> listens then
                    Some (release fd (release sess (request sess Bye l)),
                      [''Remote tunnel: server refused to listen on port '' @ dec_of_nat (unat (t_bindPort t))])
                  else let (ln, l) = acquire KListener (Some sess) l
                       in map_option (\<lambda>(ps, l). (release fd (release sess (request sess Bye (release ln (release_pairs ps l)))), []))
                            (remote_loop rounds sess [] l))"

section \<open>The tunnel\<close>

text \<open>The server socket and whether it listens, the workers that were started, and whether there is a
  listener thread, whatever has become of it.\<close>

record ssh_tunnel =
  st_server :: "bool option"
  st_session :: Session
  st_tunnel :: Tunnel
  st_stopping :: bool
  st_workers :: "handle list"
  st_remote :: bool
  st_errors :: "string list"
  st_lib :: lib

definition tunnel_stop :: "ssh_tunnel \<Rightarrow> ssh_tunnel" where
  "tunnel_stop s = s\<lparr>st_stopping := True, st_server := None, st_workers := [], st_remote := False\<rparr>"

definition tunnel_start :: "(string \<Rightarrow> u16 \<Rightarrow> bool) \<Rightarrow> Session \<Rightarrow> Tunnel \<Rightarrow> ssh_tunnel \<Rightarrow> bool \<times> ssh_tunnel" where
  "tunnel_start listens srv t s =
     (let s = (tunnel_stop s)\<lparr>st_session := srv, st_tunnel := t, st_stopping := False\<rparr>
      in if t_kind t = Remote then (True, s\<lparr>st_remote := True\<rparr>)
         else if \<not> listens (t_bindAddr t) (t_bindPort t) then
           (False, s\<lparr>st_server := Some False,
              st_errors := st_errors s @ [''Tunnel: failed to listen on '' @ t_bindAddr t @ '':'' @ dec_of_nat (unat (t_bindPort t))]\<rparr>)
         else (True, s\<lparr>st_server := Some True\<rparr>))"

definition isRunning :: "ssh_tunnel \<Rightarrow> bool" where
  "isRunning s \<longleftrightarrow> st_server s = Some True \<or> st_remote s"

text \<open>Pending clients: whether the descriptor of one is valid and can be duplicated.\<close>

definition tunnel_onNewConnection :: "(bool \<times> bool) list \<Rightarrow> ssh_tunnel \<Rightarrow> ssh_tunnel" where
  "tunnel_onNewConnection clients s =
     (if st_server s = None then s
      else fold (\<lambda>(valid, dups) s.
             if valid \<and> dups then (case acquire KSocket None (st_lib s) of (fd, l) \<Rightarrow> s\<lparr>st_workers := st_workers s @ [fd], st_lib := l\<rparr>)
             else s) clients s)"

section \<open>Nothing is leaked\<close>

text \<open>However its peers behave, the worker of a client closes all it opened and the client's
  socket, once, in the order the library asks for.\<close>

theorem worker_releases_all:
  assumes "holds (insert client L) l" and "client \<notin> L" and "\<forall>x \<in> L. h_owner x \<noteq> Some client"
    and "relayWorker ntop h p srv t cs rounds res client l = Some (l', cs', relayed)"
  shows "holds L l'"
proof -
  have fin: "holds (insert client L) m \<Longrightarrow> holds L (release client m)" for m using holds_release assms(2,3) by blast
  let ?M = "insert client L"
  obtain start cs1 where st: "(if t_kind t = Dynamic then socksNegotiate ntop cs
      else (Some (toUtf8 h (t_targetHost t), unat (t_targetPort t)), cs)) = (start, cs1)" by fastforce
  show ?thesis
  proof (cases start)
    case None
    then have "l' = release client l" using assms(4) by (simp add: relayWorker_def st)
    then show ?thesis using fin assms(1) by simp
  next
    case (Some a)
    obtain hn pt where a: "a = (hn, pt)" by fastforce
    obtain k l1 where c: "connectTcp p (toUtf8 h (param srv ''host'')) (port srv) l = (k, l1)" by fastforce
    note ct = connectTcp_holds [OF c assms(1)]
    show ?thesis
    proof (cases k)
      case None
      then have "l' = release client l" using assms(4) ct by (simp add: relayWorker_def st Some a c)
      then show ?thesis using fin assms(1) by simp
    next
      case fd: (Some fd)
      have k: "holds (insert fd ?M) l1" "fd \<notin> ?M" "h_owner fd = None" "\<forall>x \<in> ?M. h_owner x \<noteq> Some fd" using ct fd by auto
      obtain s l2 where s: "acquire KSession (Some fd) l1 = (s, l2)" by fastforce
      have sh: "holds (insert s (insert fd ?M)) l2" "s \<notin> insert fd ?M" "h_owner s = Some fd" "\<forall>x \<in> insert fd ?M. h_owner x \<noteq> Some s"
        using holds_acquire [OF k(1) _ s] by simp_all
      let ?S = "insert s (insert fd ?M)"
      obtain good l3 where g: "(if p_handshake p then authSession h p s srv (request s Handshake l2) else (False, request s Handshake l2)) = (good, l3)"
        by fastforce
      have hs: "holds ?S (request s Handshake l2)" using holds_request [OF sh(1)] by simp
      then have l3: "holds ?S l3" using g holds_auth [OF hs, of s h p srv] by (auto split: if_splits)
      have finish: "holds L (release client (release fd (release s (request s Bye m))))" if "holds ?S m" for m
        using session_released [OF holds_request [OF that] sh(3) k(3)] sh(2,4) k(2,4) fin by auto
      have l4: "holds ?S (request s (DirectTcp hn (int pt)) l3)" using holds_request [OF l3] by simp
      obtain ch l5 where ch: "acquire KChannel (Some s) (request s (DirectTcp hn (int pt)) l3) = (ch, l5)" by fastforce
      have "holds (insert ch ?S) l5" "ch \<notin> ?S" "\<forall>x \<in> ?S. h_owner x \<noteq> Some ch" using holds_acquire [OF l4 _ ch] by simp_all
      then have "holds ?S (release ch (request ch Transfer l5))" using holds_release holds_request by blast
      with finish [OF this] finish [OF l3] finish [OF l4] holds_release [OF k(1,2,4)] fin assms(4) show ?thesis
        by (auto simp: relayWorker_def st Some a c fd s g ch Let_def split: if_splits)
    qed
  qed
qed

lemma service_holds:
  "pairs_ok s B ps \<Longrightarrow> holds (with_pairs ps B) l \<Longrightarrow> service_pairs io ps l = Some (ps', l') \<Longrightarrow>
   pairs_ok s B ps' \<and> holds (with_pairs ps' B) l'"
proof (induction io ps l arbitrary: B ps' l' rule: service_pairs.induct)
  case (2 io c f ps l)
  obtain over where o: "service_pair (io c) = Some over" using 2(5) by (auto split: option.splits)
  have l: "holds (with_pairs ((c, f) # ps) B) (request c Transfer l)"
    using holds_request [OF 2(4), of c Transfer] by (simp add: with_pairs_insert)
  show ?case
  proof (cases over)
    case True
    with release_pair [OF 2(3) l] 2(1) [OF o refl True] 2(5) o show ?thesis by simp
  next
    case False
    then obtain qs where q: "service_pairs io ps (request c Transfer l) = Some (qs, l')" "ps' = (c, f) # qs"
      using 2(5) o by auto
    with 2(2) [OF o refl False _ _ q(1), of "insert c (insert f B)"] 2(3) l show ?thesis by simp
  qed
qed simp

lemma accept_holds:
  assumes "pairs_ok s B ps" and "holds (with_pairs ps B) l" and "accept_channel r s ps l = (ps', l')"
  shows "pairs_ok s B ps' \<and> holds (with_pairs ps' B) l'"
proof (cases "rr_accept r")
  case True
  let ?A = "with_pairs ps B"
  have "s \<in> B" using assms(1) by (cases ps) (auto elim: pairs_ok.elims)
  then have s: "s \<in> ?A" by (simp add: with_pairs_def)
  obtain c l1 where c: "acquire KChannel (Some s) l = (c, l1)" by fastforce
  have ch: "holds (insert c ?A) l1" "c \<notin> ?A" "h_owner c = Some s" "\<forall>x \<in> ?A. h_owner x \<noteq> Some c"
    using holds_acquire [OF assms(2) _ c] s by simp_all
  show ?thesis
  proof (cases "rr_dials r")
    case True
    obtain f l2 where f: "acquire KSocket None l1 = (f, l2)" by fastforce
    have fh: "holds (insert f (insert c ?A)) l2" "f \<notin> insert c ?A" "h_owner f = None" "\<forall>x \<in> insert c ?A. h_owner x \<noteq> Some f"
      using holds_fresh_sock [OF f ch(1)] by auto
    have r: "ps' = ps @ [(c, f)]" "l' = l2" using assms(3) \<open>rr_accept r\<close> True c f by (simp_all add: accept_channel_def)
    have "with_pairs (ps @ [(c, f)]) B = insert f (insert c ?A)" by (auto simp: with_pairs_def)
    with pairs_ok_snoc [OF assms(1) ch(2) _ _ ch(3) fh(3)] fh ch(4) show ?thesis by (auto simp: r)
  next
    case False
    then have "ps' = ps" "l' = release c l1" using assms(3) \<open>rr_accept r\<close> c by (simp_all add: accept_channel_def)
    with assms(1) holds_release [OF ch(1,2,4)] show ?thesis by simp
  qed
qed (use assms in \<open>simp add: accept_channel_def\<close>)

lemma remote_loop_holds:
  "pairs_ok s B ps \<Longrightarrow> holds (with_pairs ps B) l \<Longrightarrow> remote_loop rs s ps l = Some (ps', l') \<Longrightarrow>
   pairs_ok s B ps' \<and> holds (with_pairs ps' B) l'"
proof (induction rs arbitrary: ps l)
  case (Cons r rs)
  obtain ps1 l1 where a: "accept_channel r s ps l = (ps1, l1)" by fastforce
  then obtain ps2 l2 where v: "service_pairs (rr_io r) ps1 l1 = Some (ps2, l2)" using Cons.prems(3) by (auto split: option.splits)
  have "pairs_ok s B ps2 \<and> holds (with_pairs ps2 B) l2"
    using service_holds accept_holds [OF Cons.prems(1,2) a] v by blast
  with Cons.IH [of ps2 l2] Cons.prems(3) a v show ?case by simp
qed simp

lemma release_pairs_holds: "pairs_ok s B ps \<Longrightarrow> holds (with_pairs ps B) l \<Longrightarrow> holds B (release_pairs ps l)"
proof (induction ps arbitrary: l)
  case (Cons p ps)
  obtain c f where "p = (c, f)" by fastforce
  with Cons release_pair [of s B c f ps l] show ?case by (simp add: release_pairs_def)
qed (simp add: release_pairs_def)

text \<open>C11: However the server and the local targets behave, the listener of a remote tunnel releases
  every channel, socket and session it had, once and in order, when it ends.\<close>

theorem listener_releases_all:
  assumes "holds L l" and "remoteListenerWorker h p listens srv t rounds l = Some (l', errors)"
  shows "holds L l'"
proof -
  obtain k l1 where c: "connectTcp p (toUtf8 h (param srv ''host'')) (port srv) l = (k, l1)" by fastforce
  note ct = connectTcp_holds [OF c assms(1)]
  show ?thesis
  proof (cases k)
    case None
    then show ?thesis using assms ct by (simp add: remoteListenerWorker_def c)
  next
    case fd: (Some fd)
    have k: "holds (insert fd L) l1" "fd \<notin> L" "h_owner fd = None" "\<forall>x \<in> L. h_owner x \<noteq> Some fd" using ct fd by auto
    obtain s l2 where s: "acquire KSession (Some fd) l1 = (s, l2)" by fastforce
    have sh: "holds (insert s (insert fd L)) l2" "s \<notin> insert fd L" "h_owner s = Some fd" "\<forall>x \<in> insert fd L. h_owner x \<noteq> Some s"
      using holds_acquire [OF k(1) _ s] by simp_all
    let ?S = "insert s (insert fd L)"
    have hs: "holds ?S (request s Handshake l2)" using holds_request [OF sh(1)] by simp
    obtain good l3 where g: "(if p_handshake p then authSession h p s srv (request s Handshake l2) else (False, request s Handshake l2)) = (good, l3)"
      by fastforce
    then have l3: "holds ?S l3" using hs holds_auth [OF hs, of s h p srv] by (auto split: if_splits)
    have finish: "holds L (release fd (release s m))" if "holds ?S m" for m
      using session_released [OF that sh(3) k(3)] sh(2,4) k(2,4) by auto
    have bye: "holds ?S m \<Longrightarrow> holds ?S (request s Bye m)" for m using holds_request by blast
    obtain ln l4 where ln: "acquire KListener (Some s) l3 = (ln, l4)" by fastforce
    have lh: "holds (insert ln ?S) l4" "ln \<notin> ?S" "\<forall>x \<in> ?S. h_owner x \<noteq> Some ln" using holds_acquire [OF l3 _ ln] by simp_all
    have "holds L (release fd (release s (request s Bye (release ln (release_pairs ps m)))))"
      if "remote_loop rounds s [] l4 = Some (ps, m)" for ps m
    proof -
      have "pairs_ok s (insert ln ?S) ps \<and> holds (with_pairs ps (insert ln ?S)) m"
        using remote_loop_holds [OF _ _ that, of "insert ln ?S"] lh(1) by simp
      then have "holds (insert ln ?S) (release_pairs ps m)" using release_pairs_holds by blast
      then have "holds ?S (release ln (release_pairs ps m))" using holds_release lh(2,3) by blast
      with finish bye show ?thesis by blast
    qed
    with finish [OF l3] finish [OF bye [OF l3]] holds_release [OF k(1,2,4)] assms(2) show ?thesis
      by (auto simp: remoteListenerWorker_def c fd s g ln Let_def split: if_splits)
  qed
qed

section \<open>Where a tunnel leads\<close>

definition accepts_login :: "host \<Rightarrow> peer \<Rightarrow> Session \<Rightarrow> bool" where
  "accepts_login h p srv \<longleftrightarrow>
     (if param srv ''keyfile'' \<noteq> [] \<and> toUtf8 h (param srv ''keyfile'') \<noteq> []
      then p_key p (toUtf8 h (param srv ''username'')) (toUtf8 h (param srv ''keyfile'')) (toUtf8 h (param srv ''passphrase''))
      else p_password p (toUtf8 h (param srv ''username'')) (toUtf8 h (param srv ''password'')))"

lemma auth_accepts: "toUtf8 h [] = [] \<Longrightarrow> fst (authSession h p s srv l) = accepts_login h p srv"
  by (auto simp: authSession_def accepts_login_def Let_def)

text \<open>A client of a dynamic tunnel that sends a SOCKS request is answered, the server is asked for
  the host and port of that request, and the relay begins with the first byte after it.\<close>

theorem dynamic_tunnel_target:
  assumes "t_kind t = Dynamic" and "req_ok q" and "length ms < 256"
    and "p_dial p (toUtf8 h (param srv ''host'')) (port srv) = Dialled" and "p_session p" and "p_handshake p"
    and "toUtf8 h [] = []" and "accepts_login h p srv" and "p_tcp p (req_host ntop q) (int (unat pt))"
    and "pumpRelay rounds res = Some (chan, to)"
  shows "\<exists>l' s. relayWorker ntop h p srv t \<lparr>s_in = encode_req ms q pt @ rest, s_out = []\<rparr> rounds res client l =
      Some (l', \<lparr>s_in = rest, s_out = req_replies q\<rparr>, chan, to) \<and>
    Request s (DirectTcp (req_host ntop q) (int (unat pt))) \<in> set (l_calls l')"
proof -
  have neg: "socksNegotiate ntop \<lparr>s_in = encode_req ms q pt @ rest, s_out = []\<rparr> =
      (Some (req_host ntop q, unat pt), \<lparr>s_in = rest, s_out = req_replies q\<rparr>)"
    using socks_accepts [OF assms(2,3)] by simp
  obtain fd l1 where c: "connectTcp p (toUtf8 h (param srv ''host'')) (port srv) l = (Some fd, l1)"
    using assms(4) by (cases "acquire KSocket None l") (simp add: connectTcp_def)
  obtain s l2 where s: "acquire KSession (Some fd) l1 = (s, l2)" by fastforce
  obtain l3 where g: "authSession h p s srv (request s Handshake l2) = (True, l3)"
    using auth_accepts [OF assms(7), of p s srv "request s Handshake l2"] assms(8) by (metis prod.collapse)
  obtain ch l5 where ch: "acquire KChannel (Some s) (request s (DirectTcp (req_host ntop q) (uint pt)) l3) = (ch, l5)" by fastforce
  have "Request s (DirectTcp (req_host ntop q) (uint pt)) \<in> set (l_calls l5)"
    using ch by (auto simp: acquire_def request_def Let_def)
  then show ?thesis
    using assms(1,5,6,9,10) by (simp add: relayWorker_def neg c s g ch Let_def) (auto simp: request_def release_def)
qed

text \<open>A remote tunnel is reported as started and as running whatever becomes of its listener; another
  one when it listens.\<close>

lemma tunnel_start_running:
  "t_kind t = Remote \<Longrightarrow> fst (tunnel_start listens srv t s) \<and> isRunning (snd (tunnel_start listens srv t s))"
  "t_kind t \<noteq> Remote \<Longrightarrow> fst (tunnel_start listens srv t s) = listens (t_bindAddr t) (t_bindPort t) \<and>
     isRunning (snd (tunnel_start listens srv t s)) = listens (t_bindAddr t) (t_bindPort t)"
  by (auto simp: tunnel_start_def tunnel_stop_def isRunning_def Let_def)

section \<open>Concrete runs\<close>

definition demo_gate :: peer where
  "demo_gate = \<lparr>p_dial = (\<lambda>_ _. dialled.Dialled), p_session = True, p_handshake = True, p_key = (\<lambda>_ _ _. False), p_password = (\<lambda>_ _. True),
     p_interactive = (\<lambda>_ _. False), p_agent = None, p_tcp = (\<lambda>_ _. True), p_sftp = False, p_channel = True, p_shell = True,
     p_exec = (\<lambda>_. True)\<rparr>"

definition demo_dynamic :: Tunnel where
  "demo_dynamic = new_tunnel\<lparr>t_kind := Dynamic, t_bindPort := 1080\<rparr>"

definition demo_rounds :: "relay_round list" where
  "demo_rounds = [\<lparr>r_stop = False, r_client = Some [1, 2], r_chan = [Chunk [3] 1, NotReady], r_eof = False\<rparr>,
     \<lparr>r_stop = False, r_client = None, r_chan = [ChanEnd], r_eof = False\<rparr>]"

lemma demo_relay: "pumpRelay demo_rounds [1, EAGAIN, 1] = Some ([1, 2], [3])"
  by code_simp

theorem relay_faithful_witness:
  "(\<exists>t. client_stream demo_rounds = [1, 2] @ t) \<and> (\<exists>t. chan_stream demo_rounds = [3] @ t)"
proof -
  have "list_all takes_all demo_rounds" by code_simp
  then show ?thesis using relay_faithful [OF demo_relay] by simp
qed

theorem relay_unstoppable_witness:
  "pumpRelay (\<lparr>r_stop = False, r_client = Some [1], r_chan = [], r_eof = False\<rparr> # demo_rounds) (replicate 9 EAGAIN) = None"
  by (rule relay_unstoppable [where b = "[1]"]) simp_all

theorem dynamic_tunnel_target_witness:
  "\<exists>l' s. relayWorker id ini_host demo_gate (new_session ''s'' Ssh) demo_dynamic
      \<lparr>s_in = encode_req [0, 2] (Socks5_name [97, 46, 98]) 443 @ [22, 3], s_out = []\<rparr> demo_rounds [1, EAGAIN, 1] (Handle KSocket 0 None) empty_lib =
      Some (l', \<lparr>s_in = [22, 3], s_out = req_replies (Socks5_name [97, 46, 98])\<rparr>, [1, 2], [3]) \<and>
    Request s (DirectTcp [97, 46, 98] 443) \<in> set (l_calls l')"
proof -
  have "t_kind demo_dynamic = Dynamic" "req_ok (Socks5_name [97, 46, 98])" "length [0 :: byte, 2] < 256"
    "p_dial demo_gate (toUtf8 ini_host (param (new_session ''s'' Ssh) ''host'')) (port (new_session ''s'' Ssh)) = dialled.Dialled"
    "p_session demo_gate" "p_handshake demo_gate" "toUtf8 ini_host [] = []" "accepts_login ini_host demo_gate (new_session ''s'' Ssh)"
    "p_tcp demo_gate (req_host id (Socks5_name [97, 46, 98])) (int (unat (443 :: u16)))"
    by (simp_all add: demo_dynamic_def demo_gate_def accepts_login_def param_def_def new_session_def qvalue_def ini_host_def)
  from dynamic_tunnel_target [OF this demo_relay, of "[22, 3]" "Handle KSocket 0 None" empty_lib]
  show ?thesis by simp
qed

theorem worker_releases_all_witness:
  "\<exists>l'. relayWorker id ini_host demo_gate (new_session ''s'' Ssh) (demo_dynamic\<lparr>t_kind := Local\<rparr>) \<lparr>s_in = [], s_out = []\<rparr>
      demo_rounds [1, EAGAIN, 1] (fst (acquire KSocket None empty_lib)) (snd (acquire KSocket None empty_lib)) =
      Some (l', \<lparr>s_in = [], s_out = []\<rparr>, [1, 2], [3]) \<and> calls_ok {} (l_calls l') = Some {}"
proof -
  let ?c = "fst (acquire KSocket None empty_lib)" and ?l = "snd (acquire KSocket None empty_lib)"
  let ?r = "relayWorker id ini_host demo_gate (new_session ''s'' Ssh) (demo_dynamic\<lparr>t_kind := Local\<rparr>) \<lparr>s_in = [], s_out = []\<rparr>
      demo_rounds [1, EAGAIN, 1] ?c ?l"
  have "map_option snd ?r = Some (\<lparr>s_in = [], s_out = []\<rparr>, [1, 2], [3])" by code_simp
  then obtain l' where r: "?r = Some (l', \<lparr>s_in = [], s_out = []\<rparr>, [1, 2], [3])" by auto
  have "holds {?c} ?l" using holds_acquire(1) [OF holds_empty, of None KSocket ?c ?l] by simp
  from worker_releases_all [OF this _ _ r] have "holds {} l'" by simp
  then show ?thesis using r by (auto simp: holds_def)
qed

theorem listener_releases_all_witness:
  "map_option (\<lambda>r. calls_ok {} (l_calls (fst r))) (remoteListenerWorker ini_host demo_gate True (new_session ''s'' Ssh) demo_dynamic
     [\<lparr>rr_accept = True, rr_dials = True, rr_io = (\<lambda>_. \<lparr>po_reads = [], po_client = None, po_writes = [], po_eof = False\<rparr>)\<rparr>] empty_lib) =
   Some (Some {})"
proof -
  let ?r = "remoteListenerWorker ini_host demo_gate True (new_session ''s'' Ssh) demo_dynamic
     [\<lparr>rr_accept = True, rr_dials = True, rr_io = (\<lambda>_. \<lparr>po_reads = [], po_client = None, po_writes = [], po_eof = False\<rparr>)\<rparr>] empty_lib"
  have "map_option snd ?r = Some []" by code_simp
  then obtain l' where r: "?r = Some (l', [])" by auto
  from listener_releases_all [OF holds_empty r] show ?thesis unfolding r by (simp add: holds_def)
qed

end
