(* ===== verification/Ssh_Client.thy ===== *)
theory Ssh_Client
  imports Ssh_Relay Ini_Store
begin

text \<open>
  The SSH terminal session, \<open>src/src/connect/SshConnection.{h,cpp}\<close>: connecting directly or through
  a gateway, authentication, the shell or command, reading, X11 forwarding, and the release of
  everything. The answers of the servers are arguments, as are the results of reads and writes.
\<close>

section \<open>The connection\<close>

record jump =
  j_session :: handle
  j_channel :: handle
  j_sock :: handle
  j_pumpEnd :: handle

record ssh_conn = iconn +
  m_sock :: "handle option"
  m_session :: "handle option"
  m_channel :: "handle option"
  m_notifier :: bool
  m_x11 :: "(handle \<times> handle) list"
  m_jump :: "jump option"
  m_kbdPassword :: bytes
  m_keepalive :: "int option"
  m_stayOpen :: bool
  m_cols :: int
  m_rows :: int
  m_lib :: lib

definition new_ssh :: "lib \<Rightarrow> ssh_conn" where
  "new_ssh l = \<lparr>ic_state = Disconnected, ic_log = [], m_sock = None, m_session = None, m_channel = None, m_notifier = False,
     m_x11 = [], m_jump = None, m_kbdPassword = [], m_keepalive = None, m_stayOpen = False, m_cols = 80, m_rows = 24, m_lib = l\<rparr>"

definition on_lib :: "(lib \<Rightarrow> lib) \<Rightarrow> ssh_conn \<Rightarrow> ssh_conn" where
  "on_lib f c = c\<lparr>m_lib := f (m_lib c)\<rparr>"

section \<open>The gateway\<close>

text \<open>User, host and port of a gateway, from its text and the session.\<close>

definition gateway_of :: "Session \<Rightarrow> string \<times> string \<times> int" where
  "gateway_of s =
     (let spec = param s ''gateway''; user = param s ''username'';
          (user, spec) = (case index_of CHR ''@'' spec of None \<Rightarrow> (user, spec) | Some a \<Rightarrow> (take a spec, drop (a + 1) spec));
          (hn, pt) = (case index_of CHR '':'' spec of
                        None \<Rightarrow> (spec, 22)
                      | Some k \<Rightarrow> let p = to_int0 (drop (k + 1) spec) in (take k spec, if p \<le> 0 then 22 else p))
      in (if param s ''gateway_user'' \<noteq> [] then param s ''gateway_user'' else user, hn, pt))"

definition gateway_auth :: "host \<Rightarrow> peer \<Rightarrow> handle \<Rightarrow> string \<Rightarrow> Session \<Rightarrow> lib \<Rightarrow> bool \<times> lib" where
  "gateway_auth h g gw user s l =
     (let gu = toUtf8 h user; gkey = toUtf8 h (param s ''gateway_keyfile'')
      in if gkey \<noteq> [] then
           let gpass = toUtf8 h (param s ''gateway_passphrase'') in (p_key g gu gkey gpass, request gw (AuthKey gu gkey gpass) l)
         else let gpw = toUtf8 h (param s ''gateway_password''); gpw = (if gpw = [] then toUtf8 h (param s ''password'') else gpw)
              in (p_password g gu gpw, request gw (AuthPassword gu gpw) l))"

text \<open>The socket the target's session runs over, if the gateway opens a channel to it. \<open>pairs\<close>: whether
  a pair of connected sockets can be made.\<close>

definition openViaJump :: "host \<Rightarrow> peer \<Rightarrow> bool \<Rightarrow> Session \<Rightarrow> ssh_conn \<Rightarrow> handle option \<times> ssh_conn" where
  "openViaJump h g pairs s c =
     (if param s ''gateway'' = [] then (None, c)
      else let (user, hn, pt) = gateway_of s
           in case connectTcp g (toUtf8 h hn) pt (m_lib c) of
                (None, l) \<Rightarrow> (None, qemit (Error ''Gateway: connect failed'') (c\<lparr>m_lib := l\<rparr>))
              | (Some fd, l) \<Rightarrow>
                  if \<not> p_session g then (None, c\<lparr>m_lib := release fd l\<rparr>)
                  else let (gw, l) = acquire KSession (Some fd) l; l = request gw Handshake l
                       in if \<not> p_handshake g then
                            (None, qemit (Error ''Gateway: SSH handshake failed'') (c\<lparr>m_lib := release fd (release gw l)\<rparr>))
                          else let (authed, l) = gateway_auth h g gw user s l
                               in if \<not> authed then
                                    (None, qemit (Error ''Gateway: authentication failed'')
                                       (c\<lparr>m_lib := release fd (release gw (request gw Bye l))\<rparr>))
                                  else let target = toUtf8 h (param s ''host''); l = request gw (DirectTcp target (port s)) l
                                       in if \<not> p_tcp g target (port s) then
                                            (None, qemit (Error ''Gateway: could not open channel to target'')
                                               (c\<lparr>m_lib := release fd (release gw (request gw Bye l))\<rparr>))
                                          else let (ch, l) = acquire KChannel (Some gw) l
                                               in if \<not> pairs then
                                                    (None, c\<lparr>m_lib := release fd (release gw (request gw Bye (release ch l)))\<rparr>)
                                                  else let (a, l) = acquire KSocket None l; (b, l) = acquire KSocket None l
                                                       in (Some a, c\<lparr>m_lib := l, m_jump := Some \<lparr>j_session = gw, j_channel = ch, j_sock = fd, j_pumpEnd = b\<rparr>\<rparr>))"

section \<open>X11 forwarding\<close>

text \<open>Where the local X server is, from the display variable.\<close>

datatype x_target = XPath string | XUnix int | XTcp string int

definition x11_target :: "string option \<Rightarrow> x_target option" where
  "x11_target disp =
     (case disp of
        None \<Rightarrow> None
      | Some d \<Rightarrow>
          if d = [] then None
          else if starts_with ''/'' d then Some (XPath d)
          else case last_index_of CHR '':'' d of
                 None \<Rightarrow> None
               | Some k \<Rightarrow>
                   let hn = take k d; display = to_int0 (hd (split_on CHR ''.'' (drop (k + 1) d)))
                   in if hn = [] \<or> hn = ''unix'' then Some (XUnix display) else Some (XTcp hn (6000 + display)))"

text \<open>The library hands over a channel that the server opened.\<close>

definition acceptX11 :: "(x_target \<Rightarrow> bool) \<Rightarrow> string option \<Rightarrow> handle \<Rightarrow> ssh_conn \<Rightarrow> ssh_conn" where
  "acceptX11 dials disp ch c =
     (if (case x11_target disp of None \<Rightarrow> False | Some t \<Rightarrow> dials t)
      then (case acquire KSocket None (m_lib c) of (fd, l) \<Rightarrow> c\<lparr>m_x11 := m_x11 c @ [(ch, fd)], m_lib := l\<rparr>)
      else on_lib (release ch) (qemit (Error ''X11 forwarding: no local X server ($DISPLAY)'') c))"

text \<open>
  \<open>acceptX11\<close> is not called by the program: the library calls it back (\<open>ssh_x11_cb\<close>) from inside
  another call on the session, when the server opens an X11 channel while that call waits for the
  network. Which channels a server opens during a call is its own affair: a function of the calls so
  far, the running one included. \<open>ssh_call\<close> is a request with what happens inside it, \<open>ssh_free\<close> the
  release of a channel, during which the library reads from the network as well.
\<close>

record x11_open =
  xd_display :: "string option"
  xd_dials :: "x_target \<Rightarrow> bool"

type_synonym x11_server = "call list \<Rightarrow> x11_open list"

definition x11_quiet :: x11_server where
  "x11_quiet cs = []"

definition ssh_x11_cb :: "x11_open \<Rightarrow> ssh_conn \<Rightarrow> ssh_conn" where
  "ssh_x11_cb a c =
     (case m_session c of
        None \<Rightarrow> c
      | Some s \<Rightarrow> (case acquire KChannel (Some s) (m_lib c) of
                    (ch, l) \<Rightarrow> acceptX11 (xd_dials a) (xd_display a) ch (c\<lparr>m_lib := l\<rparr>)))"

definition in_call :: "x11_server \<Rightarrow> ssh_conn \<Rightarrow> ssh_conn" where
  "in_call x c = fold ssh_x11_cb (x (l_calls (m_lib c))) c"

definition ssh_call :: "x11_server \<Rightarrow> handle \<Rightarrow> request \<Rightarrow> ssh_conn \<Rightarrow> ssh_conn" where
  "ssh_call x r q c = in_call x (on_lib (request r q) c)"

definition ssh_free :: "x11_server \<Rightarrow> handle \<Rightarrow> ssh_conn \<Rightarrow> ssh_conn" where
  "ssh_free x ch c = in_call x (on_lib (release ch) c)"

section \<open>Authentication\<close>

text \<open>The identities of the agent are tried until one is accepted.\<close>

fun try_agent :: "x11_server \<Rightarrow> bytes \<Rightarrow> handle \<Rightarrow> bool list \<Rightarrow> ssh_conn \<Rightarrow> bool \<times> ssh_conn" where
  "try_agent x user s [] c = (False, c)"
| "try_agent x user s (accepted # ids) c =
     (let c = ssh_call x s (AuthAgent user) c in if accepted then (True, c) else try_agent x user s ids c)"

definition agent_auth :: "x11_server \<Rightarrow> peer \<Rightarrow> bytes \<Rightarrow> handle \<Rightarrow> ssh_conn \<Rightarrow> bool \<times> ssh_conn" where
  "agent_auth x p user s c =
     (case p_agent p of
        None \<Rightarrow> (False, c)
      | Some ids \<Rightarrow>
          let (agent, l) = acquire KHandle (Some s) (m_lib c); (good, c) = try_agent x user s ids (c\<lparr>m_lib := l\<rparr>)
          in (good, on_lib (release agent) c))"

definition doHandshakeAndAuth :: "x11_server \<Rightarrow> host \<Rightarrow> peer \<Rightarrow> handle \<Rightarrow> Session \<Rightarrow> ssh_conn \<Rightarrow> bool \<times> ssh_conn" where
  "doHandshakeAndAuth x h p sess s c =
     (let c = ssh_call x sess Handshake c
      in if \<not> p_handshake p then (False, qemit (Error ''SSH handshake failed'') c)
         else let user = toUtf8 h (param s ''username''); keyfile = toUtf8 h (param s ''keyfile'')
              in if keyfile \<noteq> [] then
                   let pass = toUtf8 h (param s ''passphrase''); c = ssh_call x sess (AuthKey user keyfile pass) c
                   in if p_key p user keyfile pass then (True, c)
                      else (False, qemit (Error ''Public-key authentication failed'') c)
                 else let (agentOk, c) = (if param s ''agent'' = ''1'' then agent_auth x p user sess c else (False, c))
                      in if agentOk then (True, c)
                         else let pass = toUtf8 h (param s ''password''); c = ssh_call x sess (AuthPassword user pass) c
                              in if p_password p user pass then (True, c)
                                 else let c = ssh_call x sess (AuthInteractive user pass) (c\<lparr>m_kbdPassword := pass\<rparr>)
                                      in if p_interactive p user pass then (True, c)
                                         else (False, qemit (Error ''Authentication failed'') c))"

section \<open>Releasing\<close>

definition release_opt :: "handle option \<Rightarrow> lib \<Rightarrow> lib" where
  "release_opt x l = (case x of None \<Rightarrow> l | Some y \<Rightarrow> release y l)"

definition release_jump :: "jump option \<Rightarrow> lib \<Rightarrow> lib" where
  "release_jump j l =
     (case j of
        None \<Rightarrow> l
      | Some j \<Rightarrow> release (j_sock j) (release (j_pumpEnd j) (release (j_session j) (request (j_session j) Bye (release (j_channel j) l)))))"

text \<open>The loop over the forwarded clients, and \<open>cleanup\<close>. \<open>y\<close> is what the server opens during these
  calls: the loop is over the clients that were there, and one that is accepted later is dropped from
  the list by \<open>clear\<close>, or added to the cleared one.\<close>

definition release_clients :: "x11_server \<Rightarrow> ssh_conn \<Rightarrow> ssh_conn" where
  "release_clients y c = (fold (\<lambda>(ch, fd) c. ssh_free y ch (on_lib (release fd) c)) (m_x11 c) c)\<lparr>m_x11 := []\<rparr>"

definition free_channel :: "x11_server \<Rightarrow> ssh_conn \<Rightarrow> ssh_conn" where
  "free_channel y c = (case m_channel c of None \<Rightarrow> c | Some ch \<Rightarrow> (ssh_free y ch c)\<lparr>m_channel := None\<rparr>)"

definition free_session :: "x11_server \<Rightarrow> ssh_conn \<Rightarrow> ssh_conn" where
  "free_session y c = (case m_session c of None \<Rightarrow> c | Some s \<Rightarrow> (on_lib (release s) (ssh_call y s Bye c))\<lparr>m_session := None\<rparr>)"

definition cleanup :: "x11_server \<Rightarrow> ssh_conn \<Rightarrow> ssh_conn" where
  "cleanup y c =
     (let c = free_session y (free_channel y (release_clients y (c\<lparr>m_keepalive := None, m_notifier := False\<rparr>)))
      in c\<lparr>m_sock := None, m_jump := None, m_lib := release_jump (m_jump c) (release_opt (m_sock c) (m_lib c))\<rparr>)"

section \<open>Connecting\<close>

text \<open>The requests made of the channel before the shell, and the result of shell or command.\<close>

definition channel_setup :: "x11_server \<Rightarrow> host \<Rightarrow> handle \<Rightarrow> Session \<Rightarrow> ssh_conn \<Rightarrow> ssh_conn" where
  "channel_setup x h ch s c =
     (let c = ssh_call x ch (RequestPty (m_cols c) (m_rows c)) c;
          c = (if param_def s ''x11'' ''1'' \<noteq> ''0'' then ssh_call x ch RequestX11 c else c);
          c = (if param s ''agentforward'' = ''1'' then ssh_call x ch ForwardAgent c else c);
          cmd = toUtf8 h (param s ''remotecommand'')
      in ssh_call x ch (if cmd = [] then StartShell else StartExec cmd) c)"

definition ssh_connected :: "handle \<Rightarrow> Session \<Rightarrow> ssh_conn \<Rightarrow> ssh_conn" where
  "ssh_connected sess s c =
     (let c = c\<lparr>m_stayOpen := (param s ''stayopen'' = ''1'')\<rparr>; secs = to_int0 (param s ''keepalive'');
          c = (if secs > 0 then (on_lib (request sess (Keepalive secs)) c)\<lparr>m_keepalive := Some (secs * 1000)\<rparr> else c)
      in change_state Connected (c\<lparr>m_notifier := True\<rparr>))"

text \<open>The channel is a member only when the call that opens it has returned.\<close>

definition open_channel :: "x11_server \<Rightarrow> handle \<Rightarrow> ssh_conn \<Rightarrow> handle \<times> ssh_conn" where
  "open_channel x sess c =
     (let (ch, l) = acquire KChannel (Some sess) (m_lib c); c = in_call x (c\<lparr>m_lib := l\<rparr>)
      in (ch, c\<lparr>m_channel := Some ch\<rparr>))"

definition ssh_start_session :: "x11_server \<Rightarrow> x11_server \<Rightarrow> host \<Rightarrow> peer \<Rightarrow> handle \<Rightarrow> Session \<Rightarrow> ssh_conn \<Rightarrow> bool \<times> ssh_conn" where
  "ssh_start_session x y h p sess s c =
     (let c = (if param s ''compression'' = ''1'' then on_lib (request sess Compress) c else c);
          (authed, c) = doHandshakeAndAuth x h p sess s c
      in if \<not> authed then (False, change_state Failed (cleanup y c))
         else let c = ssh_call x sess Transfer c
              in if \<not> p_channel p then (False, change_state Failed (cleanup y c))
                 else let (ch, c) = open_channel x sess c;
                          c = channel_setup x h ch s c;
                          cmd = toUtf8 h (param s ''remotecommand'')
                      in if \<not> (if cmd = [] then p_shell p else p_exec p cmd) then
                           (False, qemit (Error (if cmd = [] then ''Failed to open shell channel'' else ''Failed to run remote command''))
                              (change_state Failed (cleanup y c)))
                         else (True, ssh_connected sess s c))"

text \<open>\<open>connectSession\<close>: \<open>p\<close> is the target, \<open>g\<close> the gateway; \<open>x\<close> says which X11 channels the target opens
  during the calls, \<open>y\<close> which during those of a release.\<close>

definition ssh_connect :: "x11_server \<Rightarrow> x11_server \<Rightarrow> host \<Rightarrow> peer \<Rightarrow> peer \<Rightarrow> bool \<Rightarrow> Session \<Rightarrow> ssh_conn \<Rightarrow> bool \<times> ssh_conn" where
  "ssh_connect x y h p g pairs s c =
     (let c = change_state Connecting c; jumps = (param s ''gateway'' \<noteq> []);
          (sock, c) = (if jumps then openViaJump h g pairs s c
                       else case connectTcp p (toUtf8 h (param s ''host'')) (port s) (m_lib c) of (k, l) \<Rightarrow> (k, c\<lparr>m_lib := l\<rparr>));
          c = c\<lparr>m_sock := sock\<rparr>
      in case sock of
           None \<Rightarrow> (False, if jumps then change_state Failed c
                           else qemit (Error ''Failed to connect socket'') (change_state Failed c))
         | Some fd \<Rightarrow>
             if \<not> p_session p then (False, change_state Failed c)
             else let (sess, l) = acquire KSession (Some fd) (m_lib c)
                  in ssh_start_session x y h p sess s (c\<lparr>m_session := Some sess, m_lib := l\<rparr>))"

section \<open>Disconnecting, sending, resizing\<close>

definition ssh_disconnect :: "x11_server \<Rightarrow> ssh_conn \<Rightarrow> ssh_conn" where
  "ssh_disconnect y c = change_state Disconnected (cleanup y c)"

text \<open>A write to the channel takes a number of the bytes, or fails.\<close>

definition ssh_send :: "x11_server \<Rightarrow> int \<Rightarrow> bytes \<Rightarrow> ssh_conn \<Rightarrow> int \<times> ssh_conn" where
  "ssh_send x w b c =
     (case m_channel c of
        None \<Rightarrow> (- 1, c)
      | Some ch \<Rightarrow> (w, qemit (Sent (take (nat w) b)) (ssh_call x ch Transfer c)))"

definition ssh_resize :: "x11_server \<Rightarrow> int \<Rightarrow> int \<Rightarrow> ssh_conn \<Rightarrow> ssh_conn" where
  "ssh_resize x cols rows c =
     (let c = c\<lparr>m_cols := cols, m_rows := rows\<rparr>
      in case m_channel c of None \<Rightarrow> c | Some ch \<Rightarrow> ssh_call x ch (PtySize cols rows) c)"

text \<open>What the timer does.\<close>

definition ssh_keepalive :: "x11_server \<Rightarrow> ssh_conn \<Rightarrow> ssh_conn" where
  "ssh_keepalive x c =
     (case m_session c of None \<Rightarrow> c | Some s \<Rightarrow> if m_keepalive c = None then c else ssh_call x s Transfer c)"

section \<open>Forwarded X11 clients\<close>

text \<open>What the socket and the channel of a forwarded client have: chunks of the X server (an empty one:
  it has closed), results of writes, and whether the channel is at its end.\<close>

record x11_io =
  xo_recv :: "bytes list"
  xo_writes :: "int list"
  xo_eof :: bool

fun x11_up :: "bytes list \<Rightarrow> int list \<Rightarrow> bool option" where
  "x11_up [] res = Some False"
| "x11_up (b # bs) res =
     (if b = [] then Some True
      else case write_all b res of
             None \<Rightarrow> None
           | Some (bad, _, res) \<Rightarrow> if bad then Some True else x11_up bs res)"

text \<open>
  The loop holds an iterator into the vector of the clients: \<open>kept\<close> are those it is past. When a
  client is accepted inside a call of the loop, the vector grows under the iterator, which is
  then taken for wild (it is when the vector has to move). \<open>None\<close>: the loop does not end.
\<close>

fun pump_list :: "x11_server \<Rightarrow> (handle \<Rightarrow> x11_io) \<Rightarrow> (handle \<times> handle) list \<Rightarrow> (handle \<times> handle) list \<Rightarrow> ssh_conn \<Rightarrow>
    (fault + ssh_conn) option" where
  "pump_list x io kept [] c = Some (ok c)"
| "pump_list x io kept ((ch, fd) # xs) c =
     (case x11_up (xo_recv (io ch)) (xo_writes (io ch)) of
        None \<Rightarrow> None
      | Some dead \<Rightarrow>
          let c1 = ssh_call x ch Transfer c
          in if m_x11 c1 \<noteq> m_x11 c then Some (Inl WildPointer)
             else if dead \<or> xo_eof (io ch) then
               let c2 = ssh_free x ch (on_lib (release fd) c1)
               in if m_x11 c2 \<noteq> m_x11 c then Some (Inl WildPointer)
                  else pump_list x io kept xs (c2\<lparr>m_x11 := kept @ xs\<rparr>)
             else pump_list x io (kept @ [(ch, fd)]) xs c1)"

definition pumpX11 :: "x11_server \<Rightarrow> (handle \<Rightarrow> x11_io) \<Rightarrow> ssh_conn \<Rightarrow> (fault + ssh_conn) option" where
  "pumpX11 x io c = pump_list x io [] (m_x11 c) c"

section \<open>Reading\<close>

text \<open>The reads of the channel, up to an empty one for its end or an error, or one that would block.\<close>

fun read_shell :: "x11_server \<Rightarrow> handle \<Rightarrow> bytes list \<Rightarrow> ssh_conn \<Rightarrow> ssh_conn" where
  "read_shell x ch [] c = ssh_call x ch Transfer c"
| "read_shell x ch (b # bs) c =
     (let c = ssh_call x ch Transfer c in if b = [] then c else read_shell x ch bs (qemit (DataReceived b) c))"

text \<open>\<open>onSocketReadable\<close>: the reads, and whether the channel is at its end.\<close>

definition onSocketReadable :: "x11_server \<Rightarrow> x11_server \<Rightarrow> bytes list \<Rightarrow> (handle \<Rightarrow> x11_io) \<Rightarrow> bool \<Rightarrow> ssh_conn \<Rightarrow>
    (fault + ssh_conn) option" where
  "onSocketReadable x y reads io eof c =
     (case m_channel c of
        None \<Rightarrow> Some (ok c)
      | Some ch \<Rightarrow>
          map_option (\<lambda>r. bindF r (\<lambda>c. ok (if eof \<and> \<not> m_stayOpen c then change_state Closed (ssh_disconnect y c) else c)))
            (pumpX11 x io (read_shell x ch reads c)))"

section \<open>Nothing is leaked or used too long\<close>

definition jump_set :: "jump option \<Rightarrow> handle set" where
  "jump_set j = (case j of None \<Rightarrow> {} | Some j \<Rightarrow> {j_session j, j_channel j, j_sock j, j_pumpEnd j})"

definition ssh_held :: "ssh_conn \<Rightarrow> handle set" where
  "ssh_held c = with_pairs (m_x11 c) (set_option (m_channel c) \<union> set_option (m_session c) \<union> set_option (m_sock c) \<union> jump_set (m_jump c))"

definition ssh_idle :: "ssh_conn \<Rightarrow> bool" where
  "ssh_idle c \<longleftrightarrow> m_sock c = None \<and> m_session c = None \<and> m_channel c = None \<and> m_x11 c = [] \<and> m_jump c = None"

text \<open>The gateway's objects, none of which is in \<open>X\<close> or owns an object of \<open>X\<close>.\<close>

definition jump_ok :: "handle set \<Rightarrow> jump option \<Rightarrow> bool" where
  "jump_ok X j \<longleftrightarrow>
     (case j of
        None \<Rightarrow> True
      | Some j \<Rightarrow> h_owner (j_sock j) = None \<and> h_owner (j_session j) = Some (j_sock j) \<and> h_owner (j_channel j) = Some (j_session j) \<and>
          h_owner (j_pumpEnd j) = None \<and> j_pumpEnd j \<noteq> j_sock j \<and>
          jump_set (Some j) \<inter> X = {} \<and> (\<forall>x \<in> X. \<forall>y \<in> jump_set (Some j). h_owner x \<noteq> Some y))"

definition ssh_wf :: "ssh_conn \<Rightarrow> bool" where
  "ssh_wf c \<longleftrightarrow> ssh_idle c \<or>
     (\<exists>k. m_sock c = Some k \<and> h_owner k = None \<and>
        (m_session c = None \<and> m_channel c = None \<and> m_x11 c = [] \<and> jump_ok {k} (m_jump c) \<or>
         (\<exists>s. m_session c = Some s \<and> h_owner s = Some k \<and> (\<forall>ch. m_channel c = Some ch \<longrightarrow> h_owner ch = Some s) \<and>
            jump_ok (set_option (m_channel c) \<union> {s, k}) (m_jump c) \<and>
            pairs_ok s (set_option (m_channel c) \<union> {s, k} \<union> jump_set (m_jump c)) (m_x11 c))))"

lemma jump_owner_out:
  assumes "jump_ok X j" and "\<forall>x \<in> X. x \<notin> jump_set j"
  shows "\<forall>y \<in> jump_set j. \<forall>x \<in> X. h_owner y \<noteq> Some x"
  using assms by (auto simp: jump_ok_def jump_set_def split: option.splits)

lemma release_jump_holds:
  assumes "jump_ok {} j" and "holds (jump_set j) l"
  shows "holds {} (release_jump j l)"
proof (cases j)
  case (Some g)
  define k s ch p where "k = j_sock g" and "s = j_session g" and "ch = j_channel g" and "p = j_pumpEnd g"
  have o: "h_owner k = None" "h_owner s = Some k" "h_owner ch = Some s" "h_owner p = None" "p \<noteq> k"
    using assms(1) by (simp_all add: jump_ok_def Some k_def s_def ch_def p_def)
  have d: "k \<noteq> s" "k \<noteq> ch" "s \<noteq> ch" "p \<noteq> s" "p \<noteq> ch" using chain_distinct [OF o(1-3)] o by auto
  have l: "holds (insert ch {s, p, k}) l" using assms(2) by (simp add: jump_set_def Some k_def s_def ch_def p_def insert_commute)
  have "holds (insert s {p, k}) (release ch l)" using holds_release [OF l] d o by auto
  then have "holds (insert s {p, k}) (request s Bye (release ch l))" by (rule holds_request) simp
  then have "holds (insert p {k}) (release s (request s Bye (release ch l)))" using holds_release [of s "{p, k}"] d o by auto
  then have "holds (insert k {}) (release p (release s (request s Bye (release ch l))))" using holds_release [of p "{k}"] o by auto
  then have "holds {} (release k (release p (release s (request s Bye (release ch l)))))" using holds_release [of k "{}"] by auto
  then show ?thesis by (simp add: release_jump_def Some k_def s_def ch_def p_def)
qed (use assms in \<open>simp add: release_jump_def jump_set_def\<close>)

text \<open>A release during which the server opens nothing.\<close>

definition release_x11 :: "(handle \<times> handle) list \<Rightarrow> lib \<Rightarrow> lib" where
  "release_x11 xs l = fold (\<lambda>(ch, fd) l. release ch (release fd l)) xs l"

lemma release_opt_simps [simp]: "release_opt None l = l" "release_opt (Some a) l = release a l"
  by (simp_all add: release_opt_def)

lemma in_call_quiet [simp]: "in_call x11_quiet c = c"
  by (simp add: in_call_def x11_quiet_def)

lemma release_clients_quiet: "release_clients x11_quiet c = (on_lib (release_x11 (m_x11 c)) c)\<lparr>m_x11 := []\<rparr>"
proof -
  have "fold (\<lambda>(ch, fd) c. ssh_free x11_quiet ch (on_lib (release fd) c)) xs c = on_lib (release_x11 xs) c" for xs
    by (induction xs arbitrary: c) (auto simp: ssh_free_def on_lib_def release_x11_def)
  then show ?thesis by (simp add: release_clients_def)
qed

lemma cleanup_quiet:
  "cleanup x11_quiet c =
     (let l = release_opt (m_channel c) (release_x11 (m_x11 c) (m_lib c));
          l = (case m_session c of None \<Rightarrow> l | Some s \<Rightarrow> release s (request s Bye l));
          l = release_jump (m_jump c) (release_opt (m_sock c) l)
      in c\<lparr>m_keepalive := None, m_notifier := False, m_x11 := [], m_channel := None, m_session := None, m_sock := None,
           m_jump := None, m_lib := l\<rparr>)"
  by (cases c; cases "m_channel c"; cases "m_session c")
    (simp_all add: cleanup_def release_clients_quiet free_channel_def free_session_def ssh_free_def ssh_call_def on_lib_def Let_def)

lemma release_x11_holds: "pairs_ok s B xs \<Longrightarrow> holds (with_pairs xs B) l \<Longrightarrow> holds B (release_x11 xs l)"
proof (induction xs arbitrary: l)
  case (Cons x xs)
  obtain c f where "x = (c, f)" by fastforce
  with Cons release_pair [of s B c f xs l] show ?case by (simp add: release_x11_def)
qed (simp add: release_x11_def)

lemma jump_ok_less: "jump_ok X j \<Longrightarrow> jump_ok {} j"
  by (auto simp: jump_ok_def split: option.splits)

lemma cleanup_holds:
  assumes "ssh_wf c" and "holds (ssh_held c) (m_lib c)"
  shows "ssh_idle (cleanup x11_quiet c)" and "holds {} (m_lib (cleanup x11_quiet c))"
proof -
  show "ssh_idle (cleanup x11_quiet c)" by (simp add: ssh_idle_def cleanup_quiet Let_def)
  show "holds {} (m_lib (cleanup x11_quiet c))"
  proof (cases "ssh_idle c")
    case True
    with assms(2) show ?thesis
      by (simp add: ssh_idle_def ssh_held_def cleanup_quiet release_opt_def release_x11_def release_jump_def jump_set_def)
  next
    case False
    then obtain k where k: "m_sock c = Some k" "h_owner k = None"
      and "m_session c = None \<and> m_channel c = None \<and> m_x11 c = [] \<and> jump_ok {k} (m_jump c) \<or>
         (\<exists>s. m_session c = Some s \<and> h_owner s = Some k \<and> (\<forall>ch. m_channel c = Some ch \<longrightarrow> h_owner ch = Some s) \<and>
            jump_ok (set_option (m_channel c) \<union> {s, k}) (m_jump c) \<and>
            pairs_ok s (set_option (m_channel c) \<union> {s, k} \<union> jump_set (m_jump c)) (m_x11 c))"
      using assms(1) by (auto simp: ssh_wf_def)
    from this(3) show ?thesis
    proof (elim disjE exE conjE)
      assume c: "m_session c = None" "m_channel c = None" "m_x11 c = []" "jump_ok {k} (m_jump c)"
      have j: "k \<notin> jump_set (m_jump c)" "\<forall>y \<in> jump_set (m_jump c). h_owner y \<noteq> Some k"
        using c(4) by (auto simp: jump_ok_def jump_set_def split: option.splits)
      have "holds (insert k (jump_set (m_jump c))) (m_lib c)" using assms(2) by (simp add: ssh_held_def c k)
      then have "holds (jump_set (m_jump c)) (release k (m_lib c))" using holds_release j by blast
      with release_jump_holds [OF jump_ok_less [OF c(4)]] show ?thesis
        by (simp add: cleanup_quiet c k release_opt_def release_x11_def)
    next
      fix s
      assume c: "m_session c = Some s" "h_owner s = Some k" "\<forall>ch. m_channel c = Some ch \<longrightarrow> h_owner ch = Some s"
        "jump_ok (set_option (m_channel c) \<union> {s, k}) (m_jump c)"
        "pairs_ok s (set_option (m_channel c) \<union> {s, k} \<union> jump_set (m_jump c)) (m_x11 c)"
      let ?J = "jump_set (m_jump c)" and ?l = "release_opt (m_channel c) (release_x11 (m_x11 c) (m_lib c))"
      have j: "(set_option (m_channel c) \<union> {s, k}) \<inter> ?J = {}" using c(4) by (auto simp: jump_ok_def jump_set_def split: option.splits)
      then have jo: "\<forall>y \<in> ?J. \<forall>x \<in> set_option (m_channel c) \<union> {s, k}. h_owner y \<noteq> Some x"
        using jump_owner_out [OF c(4)] by blast
      have d: "k \<noteq> s" using k(2) c(2) by auto
      have "holds (set_option (m_channel c) \<union> {s, k} \<union> ?J) (release_x11 (m_x11 c) (m_lib c))"
        using release_x11_holds [OF c(5)] assms(2) by (simp add: ssh_held_def c(1) k insert_commute)
      then have "holds (insert s (insert k ?J)) ?l"
      proof (cases "m_channel c")
        case (Some ch)
        then have ch: "h_owner ch = Some s" using c(3) by simp
        then have dc: "k \<noteq> ch" "s \<noteq> ch" using chain_distinct [OF k(2) c(2)] by auto
        assume "holds (set_option (m_channel c) \<union> {s, k} \<union> ?J) (release_x11 (m_x11 c) (m_lib c))"
        then have "holds (insert ch (insert s (insert k ?J))) (release_x11 (m_x11 c) (m_lib c))" using Some by (simp add: insert_commute)
        then have "holds (insert s (insert k ?J)) (release ch (release_x11 (m_x11 c) (m_lib c)))"
          using holds_release [of ch] Some dc c(2) k(2) j jo by auto
        then show ?thesis using Some by (simp add: release_opt_def)
      qed (simp add: release_opt_def)
      then have "holds (insert s (insert k ?J)) (request s Bye ?l)" by (rule holds_request) simp
      then have "holds (insert k ?J) (release s (request s Bye ?l))" using holds_release [of s] d k(2) j jo by auto
      then have "holds ?J (release k (release s (request s Bye ?l)))" using holds_release [of k] j jo by auto
      with release_jump_holds [OF jump_ok_less [OF c(4)]] show ?thesis
        by (simp add: cleanup_quiet c(1) k Let_def release_opt_def [of "Some k"])
    qed
  qed
qed

text \<open>What does not touch the objects.\<close>

lemma ssh_fields [simp]:
  "m_sock (qemit e c) = m_sock c" "m_session (qemit e c) = m_session c" "m_channel (qemit e c) = m_channel c"
  "m_x11 (qemit e c) = m_x11 c" "m_jump (qemit e c) = m_jump c" "m_lib (qemit e c) = m_lib c"
  "m_sock (change_state st c) = m_sock c" "m_session (change_state st c) = m_session c" "m_channel (change_state st c) = m_channel c"
  "m_x11 (change_state st c) = m_x11 c" "m_jump (change_state st c) = m_jump c" "m_lib (change_state st c) = m_lib c"
  by (simp_all add: qemit_def change_state_def)

lemma ssh_on_lib [simp]:
  "m_sock (on_lib f c) = m_sock c" "m_session (on_lib f c) = m_session c" "m_channel (on_lib f c) = m_channel c"
  "m_x11 (on_lib f c) = m_x11 c" "m_jump (on_lib f c) = m_jump c" "m_lib (on_lib f c) = f (m_lib c)"
  by (simp_all add: on_lib_def)

definition same_objects :: "ssh_conn \<Rightarrow> ssh_conn \<Rightarrow> bool" where
  "same_objects c c' \<longleftrightarrow> m_sock c' = m_sock c \<and> m_session c' = m_session c \<and> m_channel c' = m_channel c \<and>
     m_x11 c' = m_x11 c \<and> m_jump c' = m_jump c"

lemma same_wf: "same_objects c c' \<Longrightarrow> ssh_wf c' = ssh_wf c \<and> ssh_held c' = ssh_held c"
  by (simp add: same_objects_def ssh_wf_def ssh_idle_def ssh_held_def)

lemma same_refl: "same_objects c c"
  by (simp add: same_objects_def)

lemma jump_ok_empty: "jump_ok X None"
  by (simp add: jump_ok_def)

text \<open>What does not touch the members, the list of clients apart.\<close>

definition same_core :: "ssh_conn \<Rightarrow> ssh_conn \<Rightarrow> bool" where
  "same_core c c' \<longleftrightarrow> m_sock c' = m_sock c \<and> m_session c' = m_session c \<and> m_channel c' = m_channel c \<and> m_jump c' = m_jump c \<and>
     m_stayOpen c' = m_stayOpen c \<and> ic_state c' = ic_state c \<and> shown c' = shown c \<and> told c' = told c"

lemma same_core_refl [simp]: "same_core c c"
  by (simp add: same_core_def)

lemma same_core_trans: "same_core a b \<Longrightarrow> same_core b c \<Longrightarrow> same_core a c"
  by (simp add: same_core_def)

lemma same_core_on_lib [simp]: "same_core c (on_lib f c)"
  by (simp add: same_core_def on_lib_def shown_def told_def)

lemma same_core_lib [simp]: "same_core c (c\<lparr>m_lib := l\<rparr>)" "same_core c (c\<lparr>m_kbdPassword := w\<rparr>)"
  by (simp_all add: same_core_def shown_def told_def)

lemma same_core_error [simp]: "same_core c (qemit (Error e) c)"
  by (simp add: same_core_def qemit_def shown_def told_def)

lemma x11_cb_core: "same_core c (ssh_x11_cb a c)"
  by (auto simp: ssh_x11_cb_def acceptX11_def same_core_def on_lib_def qemit_def shown_def told_def split: option.split prod.split)

lemma in_call_core [simp]: "same_core c (in_call x c)"
proof -
  have "same_core c (fold ssh_x11_cb as c)" for as
    by (induction as arbitrary: c) (auto intro: same_core_trans x11_cb_core)
  then show ?thesis by (simp add: in_call_def)
qed

lemma ssh_call_core [simp]: "same_core c (ssh_call x r q c)"
  unfolding ssh_call_def by (rule same_core_trans [OF same_core_on_lib in_call_core])

lemma ssh_free_core [simp]: "same_core c (ssh_free x r c)"
  unfolding ssh_free_def by (rule same_core_trans [OF same_core_on_lib in_call_core])

text \<open>
  The invariant while the connection holds \<open>E\<close> as well, outside its members: objects that a running
  operation has made and not yet released or stored.
\<close>

definition ssh_base :: "ssh_conn \<Rightarrow> handle set" where
  "ssh_base c = set_option (m_channel c) \<union> set_option (m_session c) \<union> set_option (m_sock c) \<union> jump_set (m_jump c)"

lemma held_base: "ssh_held c = with_pairs (m_x11 c) (ssh_base c)"
  by (simp add: ssh_held_def ssh_base_def)

definition ssh_inv :: "handle set \<Rightarrow> ssh_conn \<Rightarrow> bool" where
  "ssh_inv E c \<longleftrightarrow> ssh_wf c \<and> holds (E \<union> ssh_held c) (m_lib c) \<and>
     (\<forall>e \<in> E. e \<notin> ssh_held c \<and> (\<forall>y \<in> ssh_held c. h_owner y \<noteq> Some e))"

lemma ssh_inv_empty: "ssh_inv {} c \<longleftrightarrow> ssh_wf c \<and> holds (ssh_held c) (m_lib c)"
  by (simp add: ssh_inv_def)

lemma inv_same: "ssh_inv E c \<Longrightarrow> same_objects c c' \<Longrightarrow> m_lib c' = m_lib c \<Longrightarrow> ssh_inv E c'"
  using same_wf [of c c'] by (simp add: ssh_inv_def)

lemma inv_request: "ssh_inv E c \<Longrightarrow> r \<in> E \<union> ssh_held c \<Longrightarrow> ssh_inv E (on_lib (request r q) c)"
  using same_wf [of c "on_lib (request r q) c"] holds_request [of "E \<union> ssh_held c" "m_lib c" r q]
  by (auto simp: ssh_inv_def same_objects_def)

lemma held_core: "same_core c c' \<Longrightarrow> ssh_base c' = ssh_base c"
  by (simp add: same_core_def ssh_base_def)

lemma session_alive: "m_session c = Some s \<Longrightarrow> s \<in> ssh_held c"
  by (simp add: ssh_held_def with_pairs_def)

lemma channel_alive: "m_channel c = Some ch \<Longrightarrow> ch \<in> ssh_held c"
  by (simp add: ssh_held_def with_pairs_def)

lemma wf_pairs: "ssh_wf c \<Longrightarrow> m_session c = Some s \<Longrightarrow> pairs_ok s (ssh_base c) (m_x11 c)"
  by (auto simp: ssh_wf_def ssh_idle_def ssh_base_def insert_commute)

lemma wf_with_x11:
  assumes "ssh_wf c" and "m_session c = Some s" and "pairs_ok s (ssh_base c) xs"
  shows "ssh_wf (c\<lparr>m_x11 := xs, m_lib := l\<rparr>)"
  using assms by (auto simp: ssh_wf_def ssh_idle_def ssh_base_def insert_commute)

lemma held_with_x11: "ssh_held (c\<lparr>m_x11 := xs, m_lib := l\<rparr>) = with_pairs xs (ssh_base c)"
  by (simp add: ssh_held_def ssh_base_def)

text \<open>A channel that the server opens inside a call is stored with its socket, or released.\<close>

lemma inv_x11_cb:
  assumes "ssh_inv E c"
  shows "ssh_inv E (ssh_x11_cb a c)"
proof (cases "m_session c")
  case (Some s)
  let ?H = "ssh_held c" and ?A = "E \<union> ssh_held c"
  have inv: "ssh_wf c" "holds ?A (m_lib c)" "\<forall>e \<in> E. e \<notin> ?H \<and> (\<forall>y \<in> ?H. h_owner y \<noteq> Some e)"
    using assms by (simp_all add: ssh_inv_def)
  obtain ch l where ch: "acquire KChannel (Some s) (m_lib c) = (ch, l)" by fastforce
  have s: "s \<in> ?H" by (rule session_alive [OF Some])
  have h: "holds (insert ch ?A) l" "ch \<notin> ?A" "h_owner ch = Some s" "\<forall>x \<in> ?A. h_owner x \<noteq> Some ch"
    using holds_acquire [OF inv(2) _ ch] s by simp_all
  have cb: "ssh_x11_cb a c = acceptX11 (xd_dials a) (xd_display a) ch (c\<lparr>m_lib := l\<rparr>)" by (simp add: ssh_x11_cb_def Some ch)
  show ?thesis
  proof (cases "case x11_target (xd_display a) of None \<Rightarrow> False | Some t \<Rightarrow> xd_dials a t")
    case True
    obtain fd l2 where f: "acquire KSocket None l = (fd, l2)" by fastforce
    note fh = holds_fresh_sock [OF f h(1)]
    let ?xs = "m_x11 c @ [(ch, fd)]"
    have c': "ssh_x11_cb a c = c\<lparr>m_x11 := ?xs, m_lib := l2\<rparr>" using True by (simp add: cb acceptX11_def f)
    have "pairs_ok s (ssh_base c) ?xs"
      using pairs_ok_snoc [OF wf_pairs [OF inv(1) Some], of ch fd] h(2-4) fh by (auto simp: held_base [symmetric])
    then have "ssh_wf (c\<lparr>m_x11 := ?xs, m_lib := l2\<rparr>)" by (rule wf_with_x11 [OF inv(1) Some])
    moreover have held: "ssh_held (c\<lparr>m_x11 := ?xs, m_lib := l2\<rparr>) = insert fd (insert ch ?H)"
      unfolding held_with_x11 held_base by (auto simp: with_pairs_def ssh_base_def)
    have "E \<union> insert fd (insert ch ?H) = insert fd (insert ch ?A)" by auto
    then have "holds (E \<union> insert fd (insert ch ?H)) l2" using fh by simp
    moreover have "e \<notin> insert fd (insert ch ?H) \<and> (\<forall>y \<in> insert fd (insert ch ?H). h_owner y \<noteq> Some e)" if "e \<in> E" for e
      using that inv(3) h(2,3) fh s by auto
    ultimately show ?thesis unfolding c' by (simp add: ssh_inv_def held)
  next
    case False
    let ?c' = "ssh_x11_cb a c"
    have "same_objects c ?c'" "m_lib ?c' = release ch l" using False by (auto simp: cb acceptX11_def same_objects_def)
    with same_wf [OF this(1)] inv holds_release [OF h(1,2,4)] show ?thesis by (simp add: ssh_inv_def)
  qed
qed (simp add: ssh_x11_cb_def assms)

lemma inv_in_call: "ssh_inv E c \<Longrightarrow> ssh_inv E (in_call x c)"
proof -
  assume "ssh_inv E c"
  then have "ssh_inv E (fold ssh_x11_cb as c)" for as
    by (induction as arbitrary: c) (simp_all add: inv_x11_cb)
  then show ?thesis by (simp add: in_call_def)
qed

lemma inv_call: "ssh_inv E c \<Longrightarrow> r \<in> E \<union> ssh_held c \<Longrightarrow> ssh_inv E (ssh_call x r q c)"
  unfolding ssh_call_def by (rule inv_in_call [OF inv_request])

lemma inv_session_call: "ssh_inv E c \<Longrightarrow> m_session c = Some s \<Longrightarrow> ssh_inv E (ssh_call x s q c)"
  using inv_call [of E c s x q] session_alive by blast

lemma inv_channel_call: "ssh_inv E c \<Longrightarrow> m_channel c = Some ch \<Longrightarrow> ssh_inv E (ssh_call x ch q c)"
  using inv_call [of E c ch x q] channel_alive by blast

lemma core_session: "same_core c c' \<Longrightarrow> m_session c = Some s \<Longrightarrow> m_session c' = Some s"
  by (simp add: same_core_def)

text \<open>An object that an operation makes and releases in between.\<close>

lemma inv_acquired:
  assumes "ssh_inv {} c" and "m_session c = Some s" and "acquire k (Some s) (m_lib c) = (a, l)"
  shows "ssh_inv {a} (c\<lparr>m_lib := l\<rparr>)" and "h_owner a = Some s"
proof -
  have h: "holds (insert a (ssh_held c)) l" "a \<notin> ssh_held c" "h_owner a = Some s" "\<forall>x \<in> ssh_held c. h_owner x \<noteq> Some a"
    using holds_acquire [OF _ _ assms(3), of "ssh_held c"] assms(1) session_alive [OF assms(2)] by (simp_all add: ssh_inv_def)
  moreover have "ssh_wf (c\<lparr>m_lib := l\<rparr>) \<and> ssh_held (c\<lparr>m_lib := l\<rparr>) = ssh_held c"
    using same_wf [of c "c\<lparr>m_lib := l\<rparr>"] assms(1) by (simp add: same_objects_def ssh_inv_def)
  ultimately show "ssh_inv {a} (c\<lparr>m_lib := l\<rparr>)" "h_owner a = Some s" by (auto simp: ssh_inv_def)
qed

lemma inv_released:
  assumes "ssh_inv {a} c"
  shows "ssh_inv {} (on_lib (release a) c)"
proof -
  have "holds (ssh_held c) (release a (m_lib c))"
    using holds_release [of a "ssh_held c" "m_lib c"] assms by (simp add: ssh_inv_def)
  then show ?thesis
    using same_wf [of c "on_lib (release a) c"] assms by (simp add: ssh_inv_def same_objects_def)
qed

lemma try_agent_inv:
  "ssh_inv E c \<Longrightarrow> m_session c = Some s \<Longrightarrow>
   ssh_inv E (snd (try_agent x u s ids c)) \<and> same_core c (snd (try_agent x u s ids c))"
proof (induction ids arbitrary: c)
  case (Cons i ids)
  let ?c = "ssh_call x s (AuthAgent u) c"
  have c: "ssh_inv E ?c" "same_core c ?c" using inv_session_call Cons.prems by simp_all
  then have "m_session ?c = Some s" using Cons.prems(2) core_session by blast
  with Cons.IH [OF c(1)] c same_core_trans [OF c(2)] show ?case by (simp add: Let_def)
qed simp

lemma agent_inv:
  assumes "ssh_inv {} c" and "m_session c = Some s"
  shows "ssh_inv {} (snd (agent_auth x p u s c)) \<and> same_core c (snd (agent_auth x p u s c))"
proof (cases "p_agent p")
  case (Some ids)
  obtain a l where a: "acquire KHandle (Some s) (m_lib c) = (a, l)" by fastforce
  let ?r = "try_agent x u s ids (c\<lparr>m_lib := l\<rparr>)"
  have t: "ssh_inv {a} (snd ?r)" "same_core (c\<lparr>m_lib := l\<rparr>) (snd ?r)"
    using try_agent_inv [OF inv_acquired(1) [OF assms a], of s x u ids] assms(2) by simp_all
  have "agent_auth x p u s c = (fst ?r, on_lib (release a) (snd ?r))"
    by (simp add: agent_auth_def Some a case_prod_unfold Let_def)
  moreover have "same_core c (on_lib (release a) (snd ?r))"
    by (rule same_core_trans [OF same_core_lib(1) same_core_trans [OF t(2) same_core_on_lib]])
  ultimately show ?thesis using inv_released [OF t(1)] by simp
qed (simp add: agent_auth_def assms)

lemma inv_kbd: "ssh_inv E (c\<lparr>m_kbdPassword := w\<rparr>) = ssh_inv E c"
  by (simp add: ssh_inv_def ssh_wf_def ssh_idle_def ssh_held_def)

lemma inv_error: "ssh_inv E (qemit e c) = ssh_inv E c"
  by (simp add: ssh_inv_def ssh_wf_def ssh_idle_def ssh_held_def)

lemma auth_inv:
  assumes "ssh_inv {} c" and "m_session c = Some s"
  shows "ssh_inv {} (snd (doHandshakeAndAuth x h p s srv c)) \<and> same_core c (snd (doHandshakeAndAuth x h p s srv c))"
proof -
  define P where "P d \<longleftrightarrow> ssh_inv {} d \<and> same_core c d" for d
  define u where "u = toUtf8 h (param srv ''username'')"
  have call: "P (ssh_call x s q d)" if "P d" for d q
    using that inv_session_call [of "{}" d s x q] core_session [of c d s] assms(2) same_core_trans [OF _ ssh_call_core, of c d x s q]
    by (simp add: P_def)
  have err: "P (qemit (Error e) d)" if "P d" for d e
    using that same_core_trans [OF _ same_core_error, of c d e] by (simp add: inv_error P_def)
  have kbd: "P (d\<lparr>m_kbdPassword := w\<rparr>)" if "P d" for d w
    using that same_core_trans [OF _ same_core_lib(2), of c d w] by (simp add: inv_kbd P_def)
  let ?c1 = "ssh_call x s Handshake c"
  have start: "P ?c1" using assms(1) by (intro call) (simp add: P_def)
  obtain agreed c2 where ag: "(if param srv ''agent'' = ''1'' then agent_auth x p u s ?c1 else (False, ?c1)) = (agreed, c2)" by fastforce
  have c2: "P c2"
    using start ag agent_inv [of ?c1 s x p u] core_session [of c ?c1 s] assms(2) same_core_trans [of c ?c1 c2]
    by (auto simp: P_def split: if_splits)
  have "P (snd (doHandshakeAndAuth x h p s srv c))"
    unfolding doHandshakeAndAuth_def u_def [symmetric] Let_def ag
    using start c2 by (auto intro!: call err kbd)
  then show ?thesis by (simp add: P_def)
qed

lemma gateway_auth_holds: "holds L l \<Longrightarrow> gw \<in> L \<Longrightarrow> holds L (snd (gateway_auth h g gw u s l))"
  by (simp add: gateway_auth_def Let_def holds_request)

lemma jump_holds:
  assumes "holds {} (m_lib c)" and "openViaJump h g pairs srv c = (r, c')"
  shows "case r of
      None \<Rightarrow> same_objects c c' \<and> holds {} (m_lib c')
    | Some a \<Rightarrow> h_owner a = None \<and> jump_ok {a} (m_jump c') \<and> holds (insert a (jump_set (m_jump c'))) (m_lib c') \<and>
        m_session c' = m_session c \<and> m_channel c' = m_channel c \<and> m_x11 c' = m_x11 c"
proof (cases "param srv ''gateway'' = []")
  case True
  then show ?thesis using assms by (auto simp: openViaJump_def same_refl)
next
  case False
  obtain u hn pt where gw: "gateway_of srv = (u, hn, pt)" by (metis surj_pair)
  obtain k l1 where c: "connectTcp g (toUtf8 h hn) pt (m_lib c) = (k, l1)" by fastforce
  note ct = connectTcp_holds [OF c assms(1)]
  show ?thesis
  proof (cases k)
    case None
    then show ?thesis using assms ct False by (auto simp: openViaJump_def gw c same_objects_def)
  next
    case fd: (Some fd)
    have k: "holds {fd} l1" "h_owner fd = None" using ct fd by auto
    obtain s l2 where s: "acquire KSession (Some fd) l1 = (s, l2)" by fastforce
    have sh: "holds {s, fd} l2" "h_owner s = Some fd" using holds_acquire [OF k(1) _ s] by simp_all
    let ?l3 = "request s Handshake l2"
    have l3: "holds {s, fd} ?l3" using holds_request [OF sh(1)] by simp
    obtain authed l4 where g: "gateway_auth h g s u srv ?l3 = (authed, l4)" by fastforce
    have l4: "holds {s, fd} l4" using gateway_auth_holds [OF l3, of s h g u srv] g by simp
    let ?l5 = "request s (DirectTcp (toUtf8 h (param srv ''host'')) (port srv)) l4"
    have l5: "holds {s, fd} ?l5" using holds_request [OF l4] by simp
    obtain ch l6 where ch: "acquire KChannel (Some s) ?l5 = (ch, l6)" by fastforce
    have lch: "holds (insert ch {s, fd}) l6" "ch \<notin> {s, fd}" "h_owner ch = Some s" "\<forall>x \<in> {s, fd}. h_owner x \<noteq> Some ch"
      using holds_acquire [OF l5 _ ch] by simp_all
    obtain a l7 where a: "acquire KSocket None l6 = (a, l7)" by fastforce
    note ah = holds_fresh_sock [OF a lch(1)]
    obtain b l8 where b: "acquire KSocket None l7 = (b, l8)" by fastforce
    note bh = holds_fresh_sock [OF b conjunct1 [OF ah]]
    have rel: "holds {} (release fd (release s m))" if "holds {s, fd} m" for m
      using release_session(1) [OF that k(2) sh(2)] .
    have bye: "holds {} (release fd (release s (request s Bye m)))" if "holds {s, fd} m" for m
      using release_session(2) [OF that k(2) sh(2)] .
    have f: "holds {} (release fd l1)" using holds_release [of fd "{}"] k(1) by simp
    have pch: "holds {s, fd} (release ch l6)" using holds_release [OF lch(1,2,4)] .
    let ?j = "Some \<lparr>j_session = s, j_channel = ch, j_sock = fd, j_pumpEnd = b\<rparr>"
    have j: "jump_ok {a} ?j" "insert b (insert a (insert ch {s, fd})) = insert a (jump_set ?j)"
      using k(2) sh(2) lch(2,3) ah bh by (auto simp: jump_ok_def jump_set_def)
    note [simp] = openViaJump_def gw c fd s g ch a b
    show ?thesis
    proof (cases "p_session g \<and> p_handshake g \<and> authed \<and> p_tcp g (toUtf8 h (param srv ''host'')) (port srv) \<and> pairs")
      case True
      then have "r = Some a" "c' = c\<lparr>m_lib := l8, m_jump := ?j\<rparr>" using assms(2) False by (simp_all add: Let_def)
      with j ah bh show ?thesis by simp
    next
      case broken: False
      then have "r = None" using assms(2) False by (simp add: Let_def split: if_splits)
      moreover have "same_objects c c' \<and> m_lib c' \<in> {release fd l1, release fd (release s ?l3), release fd (release s (request s Bye l4)),
          release fd (release s (request s Bye ?l5)), release fd (release s (request s Bye (release ch l6)))}"
        using assms(2) False broken by (simp add: same_objects_def Let_def split: if_splits) auto
      ultimately show ?thesis using f rel [OF l3] bye [OF l4] bye [OF l5] bye [OF pch] by auto
    qed
  qed
qed

lemma connected_inv: "ssh_inv {} c \<Longrightarrow> m_session c = Some s \<Longrightarrow> ssh_inv {} (ssh_connected s srv c)"
proof -
  assume c: "ssh_inv {} c" "m_session c = Some s"
  have "same_objects c (ssh_connected s srv c)"
    by (simp add: ssh_connected_def same_objects_def Let_def)
  moreover have "m_lib (ssh_connected s srv c) = m_lib c \<or> (\<exists>q. m_lib (ssh_connected s srv c) = request s q (m_lib c))"
    by (auto simp: ssh_connected_def Let_def)
  ultimately show ?thesis
    using c same_wf [of c "ssh_connected s srv c"] holds_request [of "ssh_held c" "m_lib c" s] session_alive [OF c(2)]
    by (auto simp: ssh_inv_empty)
qed

lemma setup_inv:
  assumes "ssh_inv {} c" and "m_channel c = Some ch"
  shows "ssh_inv {} (channel_setup x h ch srv c) \<and> same_core c (channel_setup x h ch srv c)"
proof -
  define P where "P d \<longleftrightarrow> ssh_inv {} d \<and> same_core c d" for d
  have call: "P (ssh_call x ch q d)" if "P d" for d q
    using that inv_channel_call [of "{}" d ch x q] assms(2) same_core_trans [OF _ ssh_call_core, of c d x ch q]
    by (simp add: P_def same_core_def)
  have "P c" using assms(1) by (simp add: P_def)
  then have "P (channel_setup x h ch srv c)" unfolding channel_setup_def Let_def by (auto intro!: call)
  then show ?thesis by (simp add: P_def)
qed

lemma idle_after_cleanup:
  assumes "ssh_inv {} c"
  shows "ssh_inv {} (change_state st (cleanup x11_quiet c))"
  using cleanup_holds [of c] assms by (simp add: ssh_inv_empty ssh_wf_def ssh_idle_def ssh_held_def jump_set_def)

lemma jump_ok_insert:
  assumes "jump_ok X j" and "a \<notin> jump_set j" and "\<forall>y \<in> jump_set j. h_owner a \<noteq> Some y"
  shows "jump_ok (insert a X) j"
  using assms by (auto simp: jump_ok_def jump_set_def split: option.splits)

lemma pairs_ok_insert:
  "pairs_ok s B ps \<Longrightarrow> a \<notin> with_pairs ps B \<Longrightarrow> h_owner a = Some s \<Longrightarrow> (\<forall>y \<in> with_pairs ps B. h_owner y \<noteq> Some a) \<Longrightarrow> pairs_ok s (insert a B) ps"
proof (induction s B ps rule: pairs_ok.induct)
  case (2 s B c f ps)
  have "pairs_ok s (insert a (insert c (insert f B))) ps" using 2 by simp
  moreover have "a \<noteq> c" "a \<noteq> f" using 2(3) by (auto simp: with_pairs_insert)
  moreover have "s \<noteq> c" "s \<noteq> f" using 2(2) by auto
  ultimately show ?case using 2(2,4) by (auto simp: insert_commute)
qed simp

text \<open>The channel of the shell becomes a member.\<close>

lemma open_channel_inv:
  assumes "ssh_inv {} c" and "m_session c = Some s" and "m_channel c = None" and "open_channel x s c = (ch, c')"
  shows "ssh_inv {} c' \<and> m_session c' = Some s \<and> m_channel c' = Some ch"
proof -
  obtain l where ch: "acquire KChannel (Some s) (m_lib c) = (ch, l)"
    using assms(4) by (cases "acquire KChannel (Some s) (m_lib c)") (simp add: open_channel_def Let_def)
  let ?d = "in_call x (c\<lparr>m_lib := l\<rparr>)"
  have c': "c' = ?d\<lparr>m_channel := Some ch\<rparr>" using assms(4) ch by (simp add: open_channel_def)
  have d: "ssh_inv {ch} ?d" and o: "h_owner ch = Some s"
    using inv_in_call inv_acquired [OF assms(1,2) ch] by blast+
  have core: "m_session ?d = Some s" "m_channel ?d = None"
    using in_call_core [of "c\<lparr>m_lib := l\<rparr>" x] assms(2,3) by (simp_all add: same_core_def)
  have inv: "ssh_wf ?d" "holds (insert ch (ssh_held ?d)) (m_lib ?d)" "ch \<notin> ssh_held ?d" "\<forall>y \<in> ssh_held ?d. h_owner y \<noteq> Some ch"
    using d by (simp_all add: ssh_inv_def)
  from inv(1) core obtain k where k: "m_sock ?d = Some k" "h_owner k = None" "h_owner s = Some k" "jump_ok {s, k} (m_jump ?d)"
    "pairs_ok s ({s, k} \<union> jump_set (m_jump ?d)) (m_x11 ?d)"
    by (auto simp: ssh_wf_def ssh_idle_def)
  have held: "ssh_held ?d = with_pairs (m_x11 ?d) ({s, k} \<union> jump_set (m_jump ?d))"
    by (simp add: ssh_held_def core k(1) insert_commute)
  have "jump_set (m_jump ?d) \<subseteq> ssh_held ?d" "s \<in> ssh_held ?d" by (auto simp: ssh_held_def with_pairs_def core)
  moreover have "s \<notin> jump_set (m_jump ?d)" using k(4) by (auto simp: jump_ok_def jump_set_def split: option.splits)
  ultimately have "jump_ok (insert ch {s, k}) (m_jump ?d)"
    using k(4) inv(3) o by (intro jump_ok_insert [of "{s, k}"]) auto
  moreover have "pairs_ok s (insert ch ({s, k} \<union> jump_set (m_jump ?d))) (m_x11 ?d)"
    by (rule pairs_ok_insert [OF k(5) _ o]) (use inv(3,4) in \<open>simp_all add: held\<close>)
  ultimately have "ssh_wf c'" unfolding c' ssh_wf_def using k(1-3) core(1) o by (auto simp: insert_commute)
  moreover have "ssh_held c' = insert ch (ssh_held ?d)"
    unfolding c' ssh_held_def with_pairs_def using core(2) by auto
  ultimately show ?thesis using inv(2) core(1) by (simp add: ssh_inv_empty c')
qed

text \<open>A session on a socket, with no channel yet: it is completed, or everything is released.\<close>

lemma session_started:
  assumes "ssh_inv {} c" and "m_session c = Some s" and "m_channel c = None"
    and r: "ssh_start_session x x11_quiet h p s srv c = (r, c')"
  shows "ssh_inv {} c'"
proof -
  define c1 where "c1 = (if param srv ''compression'' = ''1'' then on_lib (request s Compress) c else c)"
  have c1: "ssh_inv {} c1" "m_session c1 = Some s" "m_channel c1 = None"
    using inv_request [OF assms(1)] session_alive [OF assms(2)] assms(1-3) by (simp_all add: c1_def)
  obtain authed c2 where a: "doHandshakeAndAuth x h p s srv c1 = (authed, c2)" by fastforce
  have c2: "ssh_inv {} c2" "m_session c2 = Some s" "m_channel c2 = None"
    using auth_inv [OF c1(1,2), of x h p srv] a c1(2,3) by (simp_all add: same_core_def)
  let ?c3 = "ssh_call x s Transfer c2"
  have c3: "ssh_inv {} ?c3" "m_session ?c3 = Some s" "m_channel ?c3 = None"
    using inv_session_call [OF c2(1,2)] ssh_call_core [of c2 x s Transfer] c2(2,3) by (simp_all add: same_core_def)
  obtain ch c4 where o: "open_channel x s ?c3 = (ch, c4)" by fastforce
  have c4: "ssh_inv {} c4" "m_session c4 = Some s" "m_channel c4 = Some ch" using open_channel_inv [OF c3 o] by simp_all
  let ?c5 = "channel_setup x h ch srv c4"
  have c5: "ssh_inv {} ?c5" "m_session ?c5 = Some s" using setup_inv [OF c4(1,3), of x h srv] c4(2) by (auto simp: same_core_def)
  have "ssh_inv {} (ssh_connected s srv ?c5)" by (rule connected_inv [OF c5])
  moreover have "ssh_inv {} (change_state Failed (cleanup x11_quiet c2))" "ssh_inv {} (change_state Failed (cleanup x11_quiet ?c3))"
    "ssh_inv {} (change_state Failed (cleanup x11_quiet ?c5))"
    by (rule idle_after_cleanup, fact)+
  ultimately show ?thesis
    using r by (auto simp: ssh_start_session_def c1_def [symmetric] a o Let_def inv_error split: if_splits)
qed

lemma ssh_connect_holds:
  assumes "ssh_idle c" and "holds {} (m_lib c)" and "ssh_connect x x11_quiet h p g pairs srv c = (r, c')"
  shows "ssh_wf c' \<and> holds (ssh_held c') (m_lib c')"
proof -
  define c0 where "c0 = change_state Connecting c"
  have c0: "ssh_idle c0" "holds {} (m_lib c0)" using assms(1,2) by (simp_all add: c0_def ssh_idle_def)
  obtain sock c1 where o: "(if param srv ''gateway'' \<noteq> [] then openViaJump h g pairs srv c0
      else case connectTcp p (toUtf8 h (param srv ''host'')) (port srv) (m_lib c0) of (k, l) \<Rightarrow> (k, c0\<lparr>m_lib := l\<rparr>)) = (sock, c1)"
    by fastforce
  have c1: "case sock of
      None \<Rightarrow> ssh_idle c1 \<and> holds {} (m_lib c1)
    | Some a \<Rightarrow> h_owner a = None \<and> jump_ok {a} (m_jump c1) \<and> holds (insert a (jump_set (m_jump c1))) (m_lib c1) \<and>
        m_session c1 = None \<and> m_channel c1 = None \<and> m_x11 c1 = []"
  proof (cases "param srv ''gateway'' = []")
    case True
    obtain k l where ct: "connectTcp p (toUtf8 h (param srv ''host'')) (port srv) (m_lib c0) = (k, l)" by fastforce
    with o True have "sock = k" "c1 = c0\<lparr>m_lib := l\<rparr>" by simp_all
    with connectTcp_holds [OF ct c0(2)] c0(1) show ?thesis
      by (cases k) (auto simp: ssh_idle_def jump_ok_empty jump_set_def c0(2))
  next
    case False
    with o have "openViaJump h g pairs srv c0 = (sock, c1)" by simp
    from jump_holds [OF c0(2) this] c0(1) show ?thesis by (cases sock) (simp_all add: same_objects_def ssh_idle_def)
  qed
  show ?thesis
  proof (cases sock)
    case None
    then have "same_objects c1 c' \<and> m_lib c' = m_lib c1"
      using assms(3) c1 o by (auto simp: ssh_connect_def c0_def [symmetric] Let_def same_objects_def ssh_idle_def split: if_splits prod.splits)
    with None c1 same_wf [of c1 c'] show ?thesis by (auto simp: ssh_wf_def ssh_idle_def ssh_held_def jump_set_def same_objects_def)
  next
    case (Some a)
    let ?c2 = "c1\<lparr>m_sock := Some a\<rparr>"
    obtain s l where s: "acquire KSession (Some a) (m_lib c1) = (s, l)" by fastforce
    have h: "holds (insert s (insert a (jump_set (m_jump c1)))) l" "s \<notin> insert a (jump_set (m_jump c1))" "h_owner s = Some a"
      "\<forall>x \<in> insert a (jump_set (m_jump c1)). h_owner x \<noteq> Some s"
      using holds_acquire [OF _ _ s] c1 Some by auto
    have run: "ssh_connect x x11_quiet h p g pairs srv c = (if \<not> p_session p then (False, change_state Failed ?c2)
        else ssh_start_session x x11_quiet h p s srv (?c2\<lparr>m_session := Some s, m_lib := l\<rparr>))"
      using o Some s by (simp add: ssh_connect_def c0_def [symmetric] Let_def)
    show ?thesis
    proof (cases "p_session p")
      case True
      have "jump_ok {s, a} (m_jump c1)"
      proof (cases "m_jump c1")
        case (Some j)
        have "a \<notin> jump_set (m_jump c1)" using c1 \<open>sock = Some a\<close> by (auto simp: jump_ok_def Some)
        then show ?thesis using c1 h(2,3) \<open>sock = Some a\<close> by (auto simp: jump_ok_def Some)
      qed (simp add: jump_ok_empty)
      then have "ssh_inv {} (?c2\<lparr>m_session := Some s, m_lib := l\<rparr>)"
        using c1 Some h by (auto simp: ssh_inv_empty ssh_wf_def ssh_held_def insert_commute)
      then show ?thesis
        using session_started [of "?c2\<lparr>m_session := Some s, m_lib := l\<rparr>" s x h p srv r c'] run True assms(3) c1 Some
        by (simp add: ssh_inv_empty)
    next
      case False
      then have "c' = change_state Failed ?c2" using run assms(3) by simp
      with c1 Some show ?thesis by (auto simp: ssh_wf_def ssh_held_def)
    qed
  qed
qed

lemma with_pairs_append: "with_pairs (ps @ qs) B = with_pairs qs (with_pairs ps B)"
  by (auto simp: with_pairs_def)

lemma pairs_ok_append: "pairs_ok s B (ps @ qs) \<longleftrightarrow> pairs_ok s B ps \<and> pairs_ok s (with_pairs ps B) qs"
proof (induction s B ps rule: pairs_ok.induct)
  case (1 s B)
  have "pairs_ok s B qs \<Longrightarrow> s \<in> B" by (cases qs) auto
  then show ?case by auto
qed auto

text \<open>A call that leaves the list of clients as it was has only refused them.\<close>

lemma x11_cb_grows: "\<exists>ys. m_x11 (ssh_x11_cb a c) = m_x11 c @ ys"
  by (auto simp: ssh_x11_cb_def acceptX11_def split: option.split prod.split)

lemma fold_x11_grows: "\<exists>ys. m_x11 (fold ssh_x11_cb as c) = m_x11 c @ ys"
proof (induction as arbitrary: c)
  case (Cons a as)
  from x11_cb_grows [of a c] Cons [of "ssh_x11_cb a c"] show ?case by (metis append.assoc fold_simps(2))
qed simp

lemma refused_holds:
  assumes "m_x11 (ssh_x11_cb a c) = m_x11 c" and "holds L (m_lib c)" and "\<And>s. m_session c = Some s \<Longrightarrow> s \<in> L"
  shows "holds L (m_lib (ssh_x11_cb a c))"
proof (cases "m_session c")
  case (Some s)
  obtain ch l where ch: "acquire KChannel (Some s) (m_lib c) = (ch, l)" by fastforce
  have h: "holds (insert ch L) l" "ch \<notin> L" "\<forall>x \<in> L. h_owner x \<noteq> Some ch"
    using holds_acquire [OF assms(2) _ ch] assms(3) [OF Some] by simp_all
  have "m_lib (ssh_x11_cb a c) = release ch l"
    using assms(1) by (auto simp: ssh_x11_cb_def Some ch acceptX11_def split: if_splits prod.splits)
  then show ?thesis using holds_release [OF h] by simp
qed (simp add: ssh_x11_cb_def assms(2))

lemma in_call_refused:
  assumes "m_x11 (in_call x c) = m_x11 c" and "holds L (m_lib c)" and "\<And>s. m_session c = Some s \<Longrightarrow> s \<in> L"
  shows "holds L (m_lib (in_call x c))"
proof -
  have "holds L (m_lib (fold ssh_x11_cb as d))"
    if "m_x11 (fold ssh_x11_cb as d) = m_x11 d" "holds L (m_lib d)" "\<And>s. m_session d = Some s \<Longrightarrow> s \<in> L" for as d
    using that
  proof (induction as arbitrary: d)
    case (Cons a as)
    let ?d = "ssh_x11_cb a d"
    obtain ys zs where g: "m_x11 ?d = m_x11 d @ ys" "m_x11 (fold ssh_x11_cb as ?d) = m_x11 ?d @ zs"
      using x11_cb_grows fold_x11_grows by blast
    then have same: "m_x11 ?d = m_x11 d" "m_x11 (fold ssh_x11_cb as ?d) = m_x11 ?d" using Cons.prems(1) by simp_all
    have "m_session ?d = m_session d" using x11_cb_core [of d a] by (simp add: same_core_def)
    then show ?case using Cons.IH [OF same(2) refused_holds [OF same(1) Cons.prems(2,3)]] Cons.prems(3) by simp
  qed simp
  from this [of "x (l_calls (m_lib c))" c] show ?thesis using assms unfolding in_call_def by blast
qed

text \<open>The loop over the clients: those before the iterator are in \<open>kept\<close>.\<close>

lemma same_core_objects: "same_core c d \<Longrightarrow> m_x11 d = m_x11 c \<Longrightarrow> same_objects c d"
  by (simp add: same_core_def same_objects_def)

lemma client_removed:
  assumes "ssh_wf c" and "m_session c = Some s" and "m_x11 c = kept @ (ch, fd) # xs" and "same_core c d"
    and "holds (with_pairs (kept @ xs) (ssh_base c)) (m_lib d)"
  shows "ssh_inv {} (d\<lparr>m_x11 := kept @ xs\<rparr>)"
proof -
  let ?K = "with_pairs kept (ssh_base c)" and ?e = "c\<lparr>m_x11 := kept @ xs, m_lib := m_lib d\<rparr>" and ?f = "d\<lparr>m_x11 := kept @ xs\<rparr>"
  have "pairs_ok s (ssh_base c) (kept @ (ch, fd) # xs)" using wf_pairs [OF assms(1,2)] by (simp only: assms(3))
  then have p: "pairs_ok s (ssh_base c) kept" "pairs_ok s ?K ((ch, fd) # xs)" unfolding pairs_ok_append by blast+
  then have q: "pairs_ok s (insert ch (insert fd ?K)) xs" "s \<in> ?K" by simp_all
  have "pairs_ok s ?K xs" by (rule pairs_ok_less [OF q]) blast
  with p(1) have "pairs_ok s (ssh_base c) (kept @ xs)" unfolding pairs_ok_append ..
  then have wf: "ssh_wf ?e" by (rule wf_with_x11 [OF assms(1,2)])
  have held: "ssh_held ?e = with_pairs (kept @ xs) (ssh_base c)" by (rule held_with_x11)
  have "same_objects ?e ?f" using assms(4) by (simp add: same_objects_def same_core_def)
  from same_wf [OF this] wf held have "ssh_wf ?f" "ssh_held ?f = with_pairs (kept @ xs) (ssh_base c)" by simp_all
  moreover have "m_lib ?f = m_lib d" by simp
  ultimately show ?thesis using assms(5) by (simp only: ssh_inv_empty simp_thms)
qed

lemma client_released:
  assumes "ssh_inv {} c" and "m_session c = Some s" and "m_x11 c = kept @ (ch, fd) # xs"
    and "m_x11 (ssh_free x ch (on_lib (release fd) c)) = m_x11 c"
  shows "ssh_inv {} ((ssh_free x ch (on_lib (release fd) c))\<lparr>m_x11 := kept @ xs\<rparr>)"
proof (rule client_removed [OF _ assms(2,3)])
  let ?B = "with_pairs kept (ssh_base c)" and ?d = "on_lib (release ch) (on_lib (release fd) c)"
  show wf: "ssh_wf c" using assms(1) by (simp add: ssh_inv_empty)
  show "same_core c (ssh_free x ch (on_lib (release fd) c))"
    by (rule same_core_trans [OF same_core_on_lib ssh_free_core])
  have p: "pairs_ok s ?B ((ch, fd) # xs)" using wf_pairs [OF wf assms(2)] by (simp only: assms(3) pairs_ok_append)
  have "holds (with_pairs ((ch, fd) # xs) ?B) (m_lib c)"
    using assms(1) by (simp add: ssh_inv_empty held_base assms(3) with_pairs_append)
  from release_pair [OF p this] have h: "holds (with_pairs xs ?B) (m_lib ?d)" by simp
  have "s \<in> ?B" using p by simp
  then have "s \<in> with_pairs xs ?B" by (simp add: with_pairs_def)
  then have "holds (with_pairs xs ?B) (m_lib (in_call x ?d))"
    using in_call_refused [OF _ h, of x] assms(2,4) by (simp add: ssh_free_def)
  then show "holds (with_pairs (kept @ xs) (ssh_base c)) (m_lib (ssh_free x ch (on_lib (release fd) c)))"
    by (simp add: ssh_free_def with_pairs_append)
qed

lemma pump_list_inv:
  "ssh_inv {} c \<Longrightarrow> m_session c = Some s \<Longrightarrow> m_x11 c = kept @ xs \<Longrightarrow> pump_list x io kept xs c = Some (ok c') \<Longrightarrow>
   ssh_inv {} c' \<and> same_core c c'"
proof (induction x io kept xs c rule: pump_list.induct)
  case (2 x io kept ch fd xs c)
  obtain dead where d: "x11_up (xo_recv (io ch)) (xo_writes (io ch)) = Some dead" using 2(6) by (auto split: option.splits)
  let ?c1 = "ssh_call x ch Transfer c"
  let ?c2 = "ssh_free x ch (on_lib (release fd) ?c1)"
  have x1: "m_x11 ?c1 = m_x11 c" using 2(6) d by (auto simp: Let_def split: if_splits)
  have "ch \<in> ssh_held c" using 2(5) by (simp add: ssh_held_def with_pairs_def)
  then have c1: "ssh_inv {} ?c1" using inv_call [OF 2(3)] by simp
  have s1: "m_session ?c1 = Some s" using ssh_call_core 2(4) by (rule core_session)
  show ?case
  proof (cases "dead \<or> xo_eof (io ch)")
    case True
    have x2: "m_x11 ?c2 = m_x11 c" using 2(6) d x1 True by (auto simp: Let_def split: if_splits)
    have inv: "ssh_inv {} (?c2\<lparr>m_x11 := kept @ xs\<rparr>)"
      using client_released [OF c1 s1, of kept ch fd xs x] x1 x2 2(5) by simp
    have "same_core c ?c2"
      by (rule same_core_trans [OF ssh_call_core same_core_trans [OF same_core_on_lib ssh_free_core]])
    then have core: "same_core c (?c2\<lparr>m_x11 := kept @ xs\<rparr>)" by (simp add: same_core_def shown_def told_def)
    have run: "pump_list x io kept xs (?c2\<lparr>m_x11 := kept @ xs\<rparr>) = Some (ok c')"
      using 2(6) d True x1 x2 by (simp add: Let_def)
    have "m_session (?c2\<lparr>m_x11 := kept @ xs\<rparr>) = Some s" by (rule core_session [OF core 2(4)])
    with 2(1) [OF d refl _ True refl _ inv this _ run] x1 x2 have "ssh_inv {} c' \<and> same_core (?c2\<lparr>m_x11 := kept @ xs\<rparr>) c'" by simp
    then show ?thesis using same_core_trans [OF core] by blast
  next
    case False
    have run: "pump_list x io (kept @ [(ch, fd)]) xs ?c1 = Some (ok c')"
      using 2(6) d False x1 by (simp add: Let_def)
    from 2(2) [OF d refl _ False c1 s1 _ run] x1 2(5) have "ssh_inv {} c' \<and> same_core ?c1 c'" by simp
    then show ?thesis using same_core_trans [OF ssh_call_core] by blast
  qed
qed simp

lemma pump_inv:
  assumes "ssh_inv {} c" and "pumpX11 x io c = Some (ok c')"
  shows "ssh_inv {} c' \<and> same_core c c'"
proof (cases "m_session c")
  case None
  then have "m_x11 c = []" using assms(1) by (auto simp: ssh_inv_empty ssh_wf_def ssh_idle_def)
  then show ?thesis using assms by (simp add: pumpX11_def)
next
  case (Some s)
  then show ?thesis using pump_list_inv [OF assms(1) Some, of "[]"] assms(2) by (simp add: pumpX11_def)
qed

lemma read_shell_inv:
  "ssh_inv {} c \<Longrightarrow> m_channel c = Some ch \<Longrightarrow> ssh_inv {} (read_shell x ch bs c)"
proof (induction bs arbitrary: c)
  case (Cons b bs)
  let ?c = "ssh_call x ch Transfer c"
  have "ssh_inv {} ?c" using inv_channel_call Cons.prems by blast
  moreover have "m_channel (qemit (DataReceived b) ?c) = Some ch"
    using ssh_call_core [of c x ch Transfer] Cons.prems(2) by (simp add: same_core_def)
  ultimately show ?case using Cons.IH by (simp add: Let_def inv_error)
qed (simp add: inv_channel_call)

lemma disconnect_inv: "ssh_inv {} c \<Longrightarrow> ssh_inv {} (change_state st (ssh_disconnect x11_quiet c))"
  using idle_after_cleanup [of c] by (simp add: ssh_disconnect_def ssh_inv_empty ssh_wf_def ssh_idle_def ssh_held_def)

lemma readable_inv:
  assumes "ssh_inv {} c" and "onSocketReadable x x11_quiet reads io eof c = Some (ok c')"
  shows "ssh_inv {} c'"
proof (cases "m_channel c")
  case (Some ch)
  obtain c2 where c2: "pumpX11 x io (read_shell x ch reads c) = Some (ok c2)"
    "c' = (if eof \<and> \<not> m_stayOpen c2 then change_state Closed (ssh_disconnect x11_quiet c2) else c2)"
    using assms(2) Some by (auto simp: onSocketReadable_def bindF_eq_ok_iff)
  with pump_inv [OF read_shell_inv [OF assms(1) Some] c2(1)] disconnect_inv show ?thesis by auto
qed (use assms in \<open>simp add: onSocketReadable_def\<close>)

text \<open>The uses of a connection: it is connected when it holds nothing. The server opens X11 channels
  inside any of the calls; only while the program releases the objects of the connection it opens
  none, and while it relays none that is accepted (the relay has a result).\<close>

inductive ssh_use :: "host \<Rightarrow> ssh_conn \<Rightarrow> ssh_conn \<Rightarrow> bool" for h where
  ssh_connects: "ssh_idle c \<Longrightarrow> ssh_use h c (snd (ssh_connect x x11_quiet h p g pairs s c))"
| ssh_disconnects: "ssh_use h c (ssh_disconnect x11_quiet c)"
| ssh_sends: "ssh_use h c (snd (ssh_send x w b c))"
| ssh_resizes: "ssh_use h c (ssh_resize x cols rows c)"
| ssh_keeps_alive: "ssh_use h c (ssh_keepalive x c)"
| ssh_reads: "onSocketReadable x x11_quiet reads io eof c = Some (ok c') \<Longrightarrow> ssh_use h c c'"
| ssh_x11_reads: "pumpX11 x io c = Some (ok c') \<Longrightarrow> ssh_use h c c'"

lemma ssh_simple_inv:
  assumes "ssh_inv {} c"
  shows "ssh_inv {} (snd (ssh_send x w b c))" "ssh_inv {} (ssh_resize x cols rows c)" "ssh_inv {} (ssh_keepalive x c)"
proof -
  have "ssh_inv {} (c\<lparr>m_cols := cols, m_rows := rows\<rparr>)" by (rule inv_same [OF assms]) (simp_all add: same_objects_def)
  then show "ssh_inv {} (snd (ssh_send x w b c))" "ssh_inv {} (ssh_resize x cols rows c)" "ssh_inv {} (ssh_keepalive x c)"
    using assms by (auto simp: ssh_send_def ssh_resize_def ssh_keepalive_def Let_def inv_error
        intro: inv_channel_call inv_session_call split: option.split)
qed

interpretation ssh: ssh_client ssh_held m_lib ssh_wf "ssh_use h"
proof unfold_locales
  fix c c' :: ssh_conn
  assume "ssh_wf c" "holds (ssh_held c) (m_lib c)" and u: "ssh_use h c c'"
  then have c: "ssh_inv {} c" by (simp add: ssh_inv_empty)
  from u have "ssh_inv {} c'"
  proof cases
    case (ssh_connects x p g pairs s)
    then have "holds {} (m_lib c)" using c by (simp add: ssh_inv_empty ssh_idle_def ssh_held_def jump_set_def)
    with ssh_connect_holds [OF ssh_connects(2)] ssh_connects(1) show ?thesis by (metis ssh_inv_empty prod.collapse)
  next
    case ssh_disconnects
    with idle_after_cleanup [OF c] show ?thesis by (simp add: ssh_disconnect_def)
  qed (use ssh_simple_inv [OF c] readable_inv [OF c] pump_inv [OF c] in auto)
  then show "ssh_wf c' \<and> holds (ssh_held c') (m_lib c')" by (simp add: ssh_inv_empty)
qed

text \<open>C9: Over the life of an SSH connection, with a gateway or without, however the servers behave
  and wherever connecting fails, no object of the library is used after its release, released twice or in the wrong
  order; what is alive is what the connection holds, and after a disconnect nothing is. The server may
  open X11 channels inside any call of the library (connecting, authenticating, reading, writing, the
  keepalive), where \<open>acceptX11\<close> then runs; excepted are the calls that release the connection, in
  which it is taken to open none, and the relay of X11 clients, in which none is accepted.\<close>

theorem ssh_no_leak:
  assumes "(ssh_use h)\<^sup>*\<^sup>* (new_ssh empty_lib) c"
  shows "calls_ok {} (l_calls (m_lib c)) = Some (ssh_held c) \<and>
    calls_ok {} (l_calls (m_lib (ssh_disconnect x11_quiet c))) = Some {}"
proof -
  have new: "ssh_wf (new_ssh empty_lib)" "holds (ssh_held (new_ssh empty_lib)) (m_lib (new_ssh empty_lib))"
    by (simp_all add: new_ssh_def ssh_wf_def ssh_idle_def ssh_held_def jump_set_def holds_empty)
  have "(ssh_use h)\<^sup>*\<^sup>* (new_ssh empty_lib) (ssh_disconnect x11_quiet c)"
    using assms ssh_disconnects by (rule rtranclp.rtrancl_into_rtrancl)
  moreover have "ssh_held (ssh_disconnect x11_quiet c) = {}"
    by (simp add: ssh_held_def ssh_disconnect_def cleanup_quiet jump_set_def Let_def)
  ultimately show ?thesis using ssh.no_leak [OF _ new] assms by metis
qed

section \<open>Who learns the password\<close>

definition agent_accepts :: "peer \<Rightarrow> bool" where
  "agent_accepts p = (case p_agent p of None \<Rightarrow> False | Some ids \<Rightarrow> True \<in> set ids)"

definition passwords_in :: "call list \<Rightarrow> (handle \<times> bytes \<times> bytes) list" where
  "passwords_in cs = concat (map (\<lambda>c. case c of Request h (AuthPassword u w) \<Rightarrow> [(h, u, w)] | _ \<Rightarrow> []) cs)"

lemma passwords_append [simp]: "passwords_in (cs @ ds) = passwords_in cs @ passwords_in ds" "passwords_in [] = []"
  by (simp_all add: passwords_in_def)

lemma passwords_calls [simp]:
  "passwords_in (l_calls (request h r l)) = passwords_in (l_calls l) @ (case r of AuthPassword u w \<Rightarrow> [(h, u, w)] | _ \<Rightarrow> [])"
  "passwords_in (l_calls (release h l)) = passwords_in (l_calls l)"
  by (simp_all add: request_def release_def passwords_in_def split: request.split)

lemma acquire_passwords: "acquire k p l = (h, l') \<Longrightarrow> passwords_in (l_calls l') = passwords_in (l_calls l)"
  by (auto simp: acquire_def Let_def passwords_in_def)

lemma x11_cb_passwords: "passwords_in (l_calls (m_lib (ssh_x11_cb a c))) = passwords_in (l_calls (m_lib c))"
  by (auto simp: ssh_x11_cb_def acceptX11_def dest!: acquire_passwords split: option.split prod.split)

lemma in_call_passwords [simp]: "passwords_in (l_calls (m_lib (in_call x c))) = passwords_in (l_calls (m_lib c))"
proof -
  have "passwords_in (l_calls (m_lib (fold ssh_x11_cb as c))) = passwords_in (l_calls (m_lib c))" for as
    by (induction as arbitrary: c) (simp_all add: x11_cb_passwords)
  then show ?thesis by (simp add: in_call_def)
qed

lemma ssh_call_passwords [simp]:
  "passwords_in (l_calls (m_lib (ssh_call x r q c))) =
     passwords_in (l_calls (m_lib c)) @ (case q of AuthPassword u w \<Rightarrow> [(r, u, w)] | _ \<Rightarrow> [])"
  by (simp add: ssh_call_def)

lemma try_agent_result:
  "fst (try_agent x u s ids c) = (True \<in> set ids) \<and>
   passwords_in (l_calls (m_lib (snd (try_agent x u s ids c)))) = passwords_in (l_calls (m_lib c))"
  by (induction ids arbitrary: c) (simp_all add: Let_def)

lemma agent_result:
  "fst (agent_auth x p u s c) = agent_accepts p \<and>
   passwords_in (l_calls (m_lib (snd (agent_auth x p u s c)))) = passwords_in (l_calls (m_lib c))"
proof (cases "p_agent p")
  case (Some ids)
  obtain a l1 where a: "acquire KHandle (Some s) (m_lib c) = (a, l1)" by fastforce
  show ?thesis
    using try_agent_result [of x u s ids "c\<lparr>m_lib := l1\<rparr>"] acquire_passwords [OF a]
    by (simp add: agent_auth_def Some a agent_accepts_def case_prod_unfold Let_def)
qed (simp add: agent_auth_def agent_accepts_def)

text \<open>The server lets a session in by its key file alone if there is one, and otherwise by an
  identity of the agent, if asked for, or the password, as such or for its prompts; and it is sent the password
  exactly when there is no key file and no identity was accepted.\<close>

theorem ssh_auth_decision:
  "let r = doHandshakeAndAuth x h p sess s c; user = toUtf8 h (param s ''username''); key = toUtf8 h (param s ''keyfile'');
       pass = toUtf8 h (param s ''password''); agent = (param s ''agent'' = ''1'' \<and> agent_accepts p)
   in fst r = (p_handshake p \<and>
        (if key \<noteq> [] then p_key p user key (toUtf8 h (param s ''passphrase''))
         else agent \<or> p_password p user pass \<or> p_interactive p user pass)) \<and>
      passwords_in (l_calls (m_lib (snd r))) =
        passwords_in (l_calls (m_lib c)) @ (if p_handshake p \<and> key = [] \<and> \<not> agent then [(sess, user, pass)] else [])"
proof -
  let ?c = "ssh_call x sess Handshake c" and ?u = "toUtf8 h (param s ''username'')"
  obtain a d where ag: "(if param s ''agent'' = ''1'' then agent_auth x p ?u sess ?c else (False, ?c)) = (a, d)" by fastforce
  have "a = (param s ''agent'' = ''1'' \<and> agent_accepts p)" "passwords_in (l_calls (m_lib d)) = passwords_in (l_calls (m_lib c))"
    using ag agent_result [of x p ?u sess ?c] by (auto split: if_splits)
  then show ?thesis using ag
    by (cases "param s ''agent'' = ''1''") (simp_all add: doHandshakeAndAuth_def Let_def)
qed

text \<open>A gateway for which neither a key file nor a password is set is sent the password of the
  target, whoever the gateway is.\<close>

theorem gateway_learns_password:
  assumes "param s ''gateway'' \<noteq> []" and "gateway_of s = (user, hn, pt)" and "p_dial g (toUtf8 h hn) pt = Dialled"
    and "p_session g" and "p_handshake g" and "toUtf8 h (param s ''gateway_keyfile'') = []" and "toUtf8 h (param s ''gateway_password'') = []"
  shows "\<exists>gw. (gw, toUtf8 h user, toUtf8 h (param s ''password'')) \<in> set (passwords_in (l_calls (m_lib (snd (openViaJump h g pairs s c)))))"
proof -
  obtain fd l1 where fd: "connectTcp g (toUtf8 h hn) pt (m_lib c) = (Some fd, l1)"
    using assms(3) by (cases "acquire KSocket None (m_lib c)") (simp add: connectTcp_def)
  obtain gw l2 where gw: "acquire KSession (Some fd) l1 = (gw, l2)" by fastforce
  let ?l3 = "request gw (AuthPassword (toUtf8 h user) (toUtf8 h (param s ''password''))) (request gw Handshake l2)"
  let ?l4 = "request gw (DirectTcp (toUtf8 h (param s ''host'')) (port s)) ?l3"
  obtain ch l5 where ch: "acquire KChannel (Some gw) ?l4 = (ch, l5)" by fastforce
  obtain a l6 where a: "acquire KSocket None l5 = (a, l6)" by fastforce
  obtain b l7 where b: "acquire KSocket None l6 = (b, l7)" by fastforce
  have p: "passwords_in (l_calls l7) = passwords_in (l_calls ?l4)" "passwords_in (l_calls l5) = passwords_in (l_calls ?l4)"
    using acquire_passwords [OF ch] acquire_passwords [OF a] acquire_passwords [OF b] by simp_all
  show ?thesis
    using assms p by (intro exI [of _ gw]) (simp add: openViaJump_def gateway_auth_def fd gw ch a b Let_def)
qed

text \<open>A gateway written as user, host and port is read as these.\<close>

theorem gateway_read_back:
  assumes "param s ''gateway'' = u @ CHR ''@'' # hn @ CHR '':'' # dec_of_int pt" and "CHR ''@'' \<notin> set u" and "CHR '':'' \<notin> set hn"
    and "0 < pt" and "pt < 2 ^ 31" and "param s ''gateway_user'' = []"
  shows "gateway_of s = (u, hn, pt)"
proof -
  have "to_int0 (dec_of_int pt) = pt" using assms(4,5) by (simp add: to_int0_def to_int_dec_of_int fitsInt_def)
  then show ?thesis using assms by (simp add: gateway_of_def Let_def)
qed

section \<open>What the terminal sees\<close>

lemma read_shell_shown: "[] \<notin> set bs \<Longrightarrow> shown (read_shell x ch bs c) = shown c @ concat bs"
proof (induction bs arbitrary: c)
  case Nil
  then show ?case using ssh_call_core [of c x ch Transfer] by (simp add: same_core_def)
next
  case (Cons b bs)
  let ?c = "ssh_call x ch Transfer c"
  have "shown (qemit (DataReceived b) ?c) = shown c @ b"
    using ssh_call_core [of c x ch Transfer] by (simp add: same_core_def shown_def qemit_def)
  with Cons show ?case by (auto simp: Let_def)
qed

lemma read_shell_members:
  "m_channel (read_shell x ch bs c) = m_channel c \<and> ic_state (read_shell x ch bs c) = ic_state c \<and>
   m_stayOpen (read_shell x ch bs c) = m_stayOpen c"
proof (induction bs arbitrary: c)
  case (Cons b bs)
  then show ?case using ssh_call_core [of c x ch Transfer] by (simp add: same_core_def Let_def qemit_def)
qed (use ssh_call_core in \<open>simp add: same_core_def\<close>)

lemma shown_change_state: "shown (change_state st c) = shown c"
  by (simp add: shown_def change_state_def qemit_def)

text \<open>The calls are logged one after the other, and an object that is no longer alive was released.\<close>

definition log_grows :: "ssh_conn \<Rightarrow> ssh_conn \<Rightarrow> bool" where
  "log_grows c c' \<longleftrightarrow> (\<exists>ds. l_calls (m_lib c') = l_calls (m_lib c) @ ds)"

lemma log_grows_refl: "m_lib c' = m_lib c \<Longrightarrow> log_grows c c'"
  by (simp add: log_grows_def)

lemma log_grows_trans: "log_grows a b \<Longrightarrow> log_grows b c \<Longrightarrow> log_grows a c"
  by (auto simp: log_grows_def)

lemma log_grows_lib: "log_grows c (on_lib (request r q) c)" "log_grows c (on_lib (release r) c)"
  by (simp_all add: log_grows_def request_def release_def)

lemma log_grows_in_call: "log_grows c (in_call x c)"
proof -
  have "log_grows c (ssh_x11_cb a c)" for a c
    by (auto simp: log_grows_def ssh_x11_cb_def acceptX11_def acquire_def release_def Let_def split: option.split)
  then have "log_grows c (fold ssh_x11_cb as c)" for as
    by (induction as arbitrary: c) (simp_all add: log_grows_refl, blast intro: log_grows_trans)
  then show ?thesis by (simp add: in_call_def)
qed

lemma log_grows_call: "log_grows c (ssh_call x r q c)" "log_grows c (ssh_free x r c)"
  unfolding ssh_call_def ssh_free_def by (rule log_grows_trans [OF log_grows_lib(1) log_grows_in_call] log_grows_trans [OF log_grows_lib(2) log_grows_in_call])+

lemma log_grows_read_shell: "log_grows c (read_shell x ch bs c)"
proof (induction bs arbitrary: c)
  case (Cons b bs)
  have "log_grows c (qemit (DataReceived b) (ssh_call x ch Transfer c))"
    by (rule log_grows_trans [OF log_grows_call(1) log_grows_refl]) simp
  from log_grows_trans [OF this Cons] show ?case by (simp add: Let_def log_grows_call)
qed (simp add: log_grows_call)

lemma log_grows_pump: "pump_list x io kept xs c = Some (ok c') \<Longrightarrow> log_grows c c'"
proof (induction x io kept xs c rule: pump_list.induct)
  case (2 x io kept ch fd xs c)
  obtain dead where d: "x11_up (xo_recv (io ch)) (xo_writes (io ch)) = Some dead" using 2(3) by (auto split: option.splits)
  let ?c1 = "ssh_call x ch Transfer c"
  let ?c2 = "ssh_free x ch (on_lib (release fd) ?c1)"
  have x1: "m_x11 ?c1 = m_x11 c" using 2(3) d by (auto simp: Let_def split: if_splits)
  show ?case
  proof (cases "dead \<or> xo_eof (io ch)")
    case True
    have "log_grows c ?c2" by (rule log_grows_trans [OF log_grows_call(1) log_grows_trans [OF log_grows_lib(2) log_grows_call(2)]])
    then have g: "log_grows c (?c2\<lparr>m_x11 := kept @ xs\<rparr>)" by (simp add: log_grows_def)
    have x2: "m_x11 ?c2 = m_x11 c" using 2(3) d x1 True by (auto simp: Let_def split: if_splits)
    have run: "pump_list x io kept xs (?c2\<lparr>m_x11 := kept @ xs\<rparr>) = Some (ok c')" using 2(3) d True x1 x2 by (simp add: Let_def)
    have "log_grows (?c2\<lparr>m_x11 := kept @ xs\<rparr>) c'" using 2(1) [OF d refl _ True refl _ run] x1 x2 by simp
    then show ?thesis by (rule log_grows_trans [OF g])
  next
    case False
    have run: "pump_list x io (kept @ [(ch, fd)]) xs ?c1 = Some (ok c')" using 2(3) d False x1 by (simp add: Let_def)
    have "log_grows ?c1 c'" using 2(2) [OF d refl _ False run] x1 by simp
    then show ?thesis by (rule log_grows_trans [OF log_grows_call(1)])
  qed
qed (simp add: log_grows_refl)

lemma log_grows_cleanup: "log_grows c (cleanup x11_quiet c)"
proof -
  define G where "G l l' \<longleftrightarrow> (\<exists>ds. l_calls l' = l_calls l @ ds)" for l l' :: lib
  have refl: "G l l" for l by (simp add: G_def)
  have rel: "G k l \<Longrightarrow> G k (release h l)" and req: "G k l \<Longrightarrow> G k (request h q l)" for k l h q
    by (auto simp: G_def release_def request_def)
  have xs: "G k l \<Longrightarrow> G k (release_x11 xs l)" for k xs l
    by (induction xs arbitrary: l) (simp_all add: release_x11_def split_def rel)
  have opt: "G k l \<Longrightarrow> G k (release_opt r l)" for k r l by (cases r) (simp_all add: rel)
  have jump: "G k l \<Longrightarrow> G k (release_jump j l)" for k j l by (cases j) (simp_all add: release_jump_def rel req)
  have sess: "G k l \<Longrightarrow> G k (case m of None \<Rightarrow> l | Some s \<Rightarrow> release s (request s Bye l))" for k m l
    by (cases m) (simp_all add: rel req)
  have "G (m_lib c) (m_lib (cleanup x11_quiet c))"
    by (simp add: cleanup_quiet Let_def jump opt sess xs refl)
  then show ?thesis by (simp add: G_def log_grows_def)
qed

lemma gone_released: "calls_ok L cs = Some M \<Longrightarrow> a \<in> L \<Longrightarrow> a \<notin> M \<Longrightarrow> Release a \<in> set cs"
proof (induction cs arbitrary: L)
  case (Cons c cs)
  then obtain N where N: "call_ok L c = Some N" "calls_ok N cs = Some M" by (auto split: option.splits)
  show ?case
  proof (cases "a \<in> N")
    case True
    then show ?thesis using Cons.IH [OF N(2)] Cons.prems(3) by simp
  next
    case False
    with N(1) Cons.prems(2) have "c = Release a" by (cases c) (auto simp: call_ok_def split: if_splits)
    then show ?thesis by simp
  qed
qed simp


section \<open>X11 clients accepted at the wrong moment\<close>

text \<open>A client that the server opens while the relay is inside a call of the library is added to the
  vector under the loop's iterator.\<close>

lemma relay_invalidated:
  assumes "x (l_calls (m_lib (on_lib (request ch Transfer) c))) = [a]" and "m_session c = Some s"
    and "x11_target (xd_display a) = Some t" and "xd_dials a t" and "x11_up (xo_recv (io ch)) (xo_writes (io ch)) = Some dead"
  shows "pump_list x io kept ((ch, fd) # xs) c = Some (Inl WildPointer)"
proof -
  have "m_x11 (ssh_call x ch Transfer c) \<noteq> m_x11 c"
    using assms(1-4)
    by (auto simp: ssh_call_def in_call_def ssh_x11_cb_def acceptX11_def split: prod.split)
  then show ?thesis using assms(5) by (simp add: Let_def)
qed

text \<open>One that it opens while \<open>cleanup\<close> frees the channel of the shell is added to the list that was
  cleared before: the connection keeps a channel of the session it then frees, and its socket.\<close>

lemma cleanup_keeps_client:
  assumes "m_x11 c = []" and "m_channel c = Some ch" and "m_session c = Some s" and "m_jump c = None" and "m_sock c = Some k"
    and "\<And>cs. y cs = (if cs = l_calls (m_lib c) @ [Release ch] then [a] else [])"
    and "x11_target (xd_display a) = Some t" and "xd_dials a t"
  shows "\<exists>x fd. m_x11 (cleanup y c) = [(x, fd)] \<and> h_owner x = Some s \<and> m_session (cleanup y c) = None \<and>
    l_calls (m_lib (cleanup y c)) =
      l_calls (m_lib c) @ [Release ch, Acquire x, Acquire fd, Request s Bye, Release s, Release k]"
  using assms
  by (simp add: cleanup_def release_clients_def free_channel_def free_session_def ssh_free_def ssh_call_def in_call_def
      ssh_x11_cb_def acceptX11_def acquire_def release_def request_def on_lib_def release_jump_def release_opt_def Let_def)

section \<open>Announcements\<close>

lemma announced_ssh [simp]:
  "announced a (c\<lparr>m_sock := v1\<rparr>) = announced a c" "announced a (c\<lparr>m_session := v2\<rparr>) = announced a c"
  "announced a (c\<lparr>m_channel := v3\<rparr>) = announced a c" "announced a (c\<lparr>m_notifier := v4\<rparr>) = announced a c"
  "announced a (c\<lparr>m_x11 := v5\<rparr>) = announced a c" "announced a (c\<lparr>m_jump := v6\<rparr>) = announced a c"
  "announced a (c\<lparr>m_kbdPassword := v7\<rparr>) = announced a c" "announced a (c\<lparr>m_keepalive := v8\<rparr>) = announced a c"
  "announced a (c\<lparr>m_stayOpen := v9\<rparr>) = announced a c" "announced a (c\<lparr>m_cols := v10\<rparr>) = announced a c"
  "announced a (c\<lparr>m_rows := v10\<rparr>) = announced a c" "announced a (c\<lparr>m_lib := v11\<rparr>) = announced a c"
  "announced a (on_lib f c) = announced a c"
  by (simp_all add: announced_def told_def on_lib_def)

lemma announced_core: "same_core c c' \<Longrightarrow> announced a c' = announced a c"
  by (simp add: announced_def same_core_def)

lemma announced_call [simp]: "announced a (ssh_call x r q c) = announced a c" "announced a (ssh_free x r c) = announced a c"
  "announced a (in_call x c) = announced a c"
  by (rule announced_core, simp)+

lemma announced_clients: "announced a (release_clients y c) = announced a c"
proof -
  have "announced a (fold (\<lambda>(ch, fd) c. ssh_free y ch (on_lib (release fd) c)) xs c) = announced a c" for xs
  proof (induction xs arbitrary: c)
    case (Cons p xs)
    then show ?case by (cases p) simp
  qed simp
  then show ?thesis by (simp add: release_clients_def)
qed

lemma announced_cleanup [simp]: "announced a (cleanup y c) = announced a c"
  by (simp add: cleanup_def free_channel_def free_session_def announced_clients Let_def split: option.split)

lemma announced_agent: "announced a (snd (agent_auth x p u s c)) = announced a c"
proof -
  have "announced a (snd (try_agent x u s ids d)) = announced a d" for ids d
    by (induction ids arbitrary: d) (simp_all add: Let_def)
  then show ?thesis by (simp add: agent_auth_def case_prod_unfold Let_def split: option.split)
qed

lemma announced_open_channel: "announced a (snd (open_channel x s c)) = announced a c"
  by (simp add: open_channel_def case_prod_unfold Let_def)

lemma ssh_auth_announced: "announced a c \<Longrightarrow> announced a (snd (doHandshakeAndAuth x h p s srv c))"
  by (simp add: doHandshakeAndAuth_def Let_def case_prod_unfold announced_intro announced_agent)

lemma ssh_connect_announced: "announced c (snd (ssh_connect x y h p g pairs s c))"
proof -
  have jump: "announced a d \<Longrightarrow> announced a (snd (openViaJump h g pairs s d))" for a d
    by (auto simp: openViaJump_def Let_def announced_intro split: prod.split option.split)
  have start: "announced a d \<Longrightarrow> announced a (snd (ssh_start_session x y h p sess s d))" for a d sess
    by (simp add: ssh_start_session_def Let_def case_prod_unfold announced_intro ssh_auth_announced channel_setup_def ssh_connected_def
        announced_open_channel)
  have "announced c (snd (if param s ''gateway'' \<noteq> [] then openViaJump h g pairs s (change_state Connecting c)
      else case connectTcp p (toUtf8 h (param s ''host'')) (port s) (m_lib (change_state Connecting c)) of
        (k, l) \<Rightarrow> (k, (change_state Connecting c)\<lparr>m_lib := l\<rparr>)))"
    by (simp add: case_prod_unfold jump announced_intro)
  then show ?thesis
    unfolding ssh_connect_def Let_def
    by (auto split: prod.split option.split intro!: announced_intro start)
qed

lemma pump_announced: "pump_list x io kept xs c = Some (ok c') \<Longrightarrow> announced a c \<Longrightarrow> announced a c'"
proof (induction x io kept xs c rule: pump_list.induct)
  case (2 x io kept ch fd xs c)
  then show ?case by (auto simp: Let_def split: option.splits if_splits)
qed simp

lemma ssh_use_announced: "ssh_use h c c' \<Longrightarrow> announced c c'"
proof (induction rule: ssh_use.induct)
  case (ssh_connects c x p g pairs s)
  show ?case by (rule ssh_connect_announced)
next
  case (ssh_reads x reads io eof c c')
  have "announced a d \<Longrightarrow> announced a (read_shell x ch reads d)" for a ch and d :: ssh_conn
    by (induction reads arbitrary: d) (simp_all add: announced_intro Let_def)
  with ssh_reads pump_announced show ?case
    by (fastforce simp: onSocketReadable_def pumpX11_def bindF_eq_ok_iff ssh_disconnect_def announced_intro split: option.splits if_splits)
next
  case (ssh_x11_reads x io c c')
  then show ?case using pump_announced [of x io "[]" "m_x11 c" c c' c] by (simp add: pumpX11_def announced_intro)
qed (auto simp: ssh_disconnect_def ssh_send_def ssh_resize_def ssh_keepalive_def Let_def announced_intro
    split: option.splits prod.splits)

interpretation ssh_state: announcing ic_state told "ssh_use h"
  using ssh_use_announced by unfold_locales (auto simp: announced_def)

lemma ssh_announces:
  "(ssh_use h)\<^sup>*\<^sup>* (new_ssh empty_lib) c \<Longrightarrow> last (Disconnected # told c) = ic_state c \<and> successively (\<noteq>) (Disconnected # told c)"
  using ssh_state.listener_knows [of h "new_ssh empty_lib" c] by (simp add: new_ssh_def told_def)

section \<open>Examples\<close>

definition demo_server :: peer where
  "demo_server = \<lparr>p_dial = (\<lambda>_ _. dialled.Dialled), p_session = True, p_handshake = True, p_key = (\<lambda>_ _ _. False),
     p_password = (\<lambda>_ w. w = [112, 119]), p_interactive = (\<lambda>_ _. False), p_agent = None, p_tcp = (\<lambda>_ _. True), p_sftp = False,
     p_channel = True, p_shell = True, p_exec = (\<lambda>_. True)\<rparr>"

definition demo_session :: Session where
  "demo_session = setParam ''gateway'' ''op@gate:2022'' (setParam ''host'' ''web'' (setParam ''password'' ''pw'' (new_session ''s'' Ssh)))"

text \<open>The connection through the gateway, up to its socket and from there.\<close>

definition demo_opened :: "handle option \<times> ssh_conn" where
  "demo_opened = openViaJump ini_host demo_server True demo_session (change_state Connecting (new_ssh empty_lib))"

definition demo_sock :: handle where
  "demo_sock = Handle KSocket 3 None"

definition demo_started :: "bool \<times> ssh_conn" where
  "demo_started =
     (let (s, l) = acquire KSession (Some demo_sock) (m_lib (snd demo_opened))
      in ssh_start_session x11_quiet x11_quiet ini_host demo_server s demo_session ((snd demo_opened)\<lparr>m_sock := Some demo_sock, m_session := Some s, m_lib := l\<rparr>))"

abbreviation demo_conn :: ssh_conn where
  "demo_conn \<equiv> snd demo_started"

lemma demo_connects: "ssh_connect x11_quiet x11_quiet ini_host demo_server demo_server True demo_session (new_ssh empty_lib) = demo_started"
proof -
  have "fst demo_opened = Some demo_sock" "param demo_session ''gateway'' \<noteq> []" "p_session demo_server" by code_simp+
  then show ?thesis
    by (cases demo_opened) (simp add: ssh_connect_def demo_started_def demo_opened_def [symmetric] Let_def case_prod_unfold)
qed

lemma demo_reached: "(ssh_use ini_host)\<^sup>*\<^sup>* (new_ssh empty_lib) demo_conn"
  unfolding demo_connects [symmetric] by (rule r_into_rtranclp, rule ssh_connects) (simp add: ssh_idle_def new_ssh_def)

theorem ssh_no_leak_witness:
  "ic_state demo_conn = Connected \<and> calls_ok {} (l_calls (m_lib (ssh_disconnect x11_quiet demo_conn))) = Some {}"
proof -
  have "ic_state demo_conn = Connected" by code_simp
  then show ?thesis using ssh_no_leak [OF demo_reached] by blast
qed

theorem gateway_read_back_witness: "gateway_of demo_session = (''op'', ''gate'', 2022)"
proof (rule gateway_read_back)
  show "param demo_session ''gateway'' = ''op'' @ CHR ''@'' # ''gate'' @ CHR '':'' # dec_of_int 2022" by code_simp
  show "param demo_session ''gateway_user'' = []" by code_simp
qed simp_all

theorem gateway_learns_password_witness:
  "\<exists>gw. (gw, [111, 112], [112, 119]) \<in>
    set (passwords_in (l_calls (m_lib (snd (openViaJump ini_host demo_server True demo_session (new_ssh empty_lib))))))"
proof -
  have u: "toUtf8 ini_host ''op'' = [111, 112]" "toUtf8 ini_host (param demo_session ''password'') = [112, 119]" by code_simp+
  have k: "param demo_session ''gateway'' \<noteq> []" "toUtf8 ini_host (param demo_session ''gateway_keyfile'') = []"
    "toUtf8 ini_host (param demo_session ''gateway_password'') = []" "gateway_of demo_session = (''op'', ''gate'', 2022)" by code_simp+
  have p: "p_dial demo_server b n = dialled.Dialled" "p_session demo_server" "p_handshake demo_server" for b n
    by (simp_all add: demo_server_def)
  show ?thesis using gateway_learns_password [OF k(1,4) p k(2,3)] unfolding u .
qed

text \<open>A server that opens an X11 channel inside the first read, for which there is an X server.\<close>

definition demo_x11 :: x11_server where
  "demo_x11 cs = (if length cs = length (l_calls (m_lib demo_conn)) + 1 then [\<lparr>xd_display = Some '':0'', xd_dials = (\<lambda>_. True)\<rparr>] else [])"


text \<open>There the client was accepted, and was released with the rest.\<close>

lemma demo_x11_accepted: "length (m_x11 (ssh_call demo_x11 (the (m_channel demo_conn)) Transfer demo_conn)) = 1"
  by code_simp

lemma demo_jumps: "m_jump demo_conn \<noteq> None"
  by code_simp

end
