(* ===== verification/Terminal_Widget.thy ===== *)
theory Terminal_Widget
  imports Vt_History Vt_Text Ini_Store "HOL-Library.Signed_Division"
begin

text \<open>
  A terminal pane, \<open>src/src/ui/TerminalWidget.{h,cpp}\<close>: keys, the mouse, pasting, the selection, scrolling and
  searching the history, what is painted, and the traffic between engine and connection. Events
  arrive as Qt delivers them; what the pane does to others (its connection, the handler that spreads the
  input over many panes, timers, the clipboard) is a log. The handlers read cells through a checked access, as
  an index out of range is undefined.
\<close>

section \<open>Events\<close>

datatype key = KeyReturn | KeyEnter | KeyBackspace | KeyTab | KeyEscape | KeyUp | KeyDown | KeyRight | KeyLeft
  | KeyPageUp | KeyPageDown | KeyInsert | KeyC | KeyV | KeyF | KeyOther

datatype button = LeftButton | MiddleButton | RightButton | OtherButton

record modifiers =
  shift_held :: bool
  ctrl_held :: bool
  alt_held :: bool

record key_event =
  k_key :: key
  k_mods :: modifiers
  k_text :: string

record mouse_event =
  e_x :: int
  e_y :: int
  e_button :: button
  e_mods :: modifiers

datatype pane_event = ToConnection bytes | ToHandler bytes | AfterMs int bytes | NewSize int int
  | ToClipboard text16 | OpenedUrl string | FindBarShown | Titled string | CwdIs string

section \<open>The pane\<close>

text \<open>\<open>w_log\<close> is what has been written to the log file, while one is open; \<open>w_conn\<close> and \<open>w_handler\<close> say whether
  there is a connection and an input handler.\<close>

record 'v pane =
  w_vt :: "'v VtEngine"
  w_conn :: bool
  w_handler :: bool
  w_log :: "bytes option"
  w_pasteDelayMs :: int
  w_backspaceCode :: bytes
  w_cellW :: int
  w_cellH :: int
  w_scrollOffset :: int
  w_selecting :: bool
  w_hasSelection :: bool
  w_mouseBtn :: int
  w_lastMouseCell :: "int \<times> int"
  w_findMatches :: "(nat \<times> nat) list"
  w_findLen :: nat
  w_findIndex :: int
  w_selAnchor :: "int \<times> int"
  w_selHead :: "int \<times> int"
  w_out :: "pane_event list"

definition new_pane :: "'v VtEngine \<Rightarrow> int \<Rightarrow> int \<Rightarrow> 'v pane" where
  "new_pane vt cw cheight = \<lparr>w_vt = vt, w_conn = False, w_handler = False, w_log = None, w_pasteDelayMs = 0,
     w_backspaceCode = [0x7f], w_cellW = cw, w_cellH = cheight, w_scrollOffset = 0, w_selecting = False, w_hasSelection = False,
     w_mouseBtn = - 1, w_lastMouseCell = (- 1, - 1), w_findMatches = [], w_findLen = 0, w_findIndex = - 1,
     w_selAnchor = (0, 0), w_selHead = (0, 0), w_out = []\<rparr>"

definition tell :: "pane_event \<Rightarrow> 'v pane \<Rightarrow> 'v pane" where
  "tell e w = w\<lparr>w_out := w_out w @ [e]\<rparr>"

definition feedInput :: "bytes \<Rightarrow> 'v pane \<Rightarrow> 'v pane" where
  "feedInput b w = (if w_conn w then tell (ToConnection b) w else w)"

definition sendInput :: "bytes \<Rightarrow> 'v pane \<Rightarrow> 'v pane" where
  "sendInput b w = (if w_handler w then tell (ToHandler b) w else feedInput b w)"

definition clampI :: "int \<Rightarrow> int \<Rightarrow> int \<Rightarrow> int" where
  "clampI v lo hi = (if v < lo then lo else if hi < v then hi else v)"

section \<open>Lines of history and screen\<close>

abbreviation w_screen :: "'v pane \<Rightarrow> ScreenBuffer" where
  "w_screen w \<equiv> m_screen (w_vt w)"

abbreviation pane_rows :: "'v pane \<Rightarrow> int" where
  "pane_rows w \<equiv> int (m_rows (w_screen w))"

abbreviation pane_cols :: "'v pane \<Rightarrow> int" where
  "pane_cols w \<equiv> int (m_cols (w_screen w))"

abbreviation scrollbackCount :: "'v pane \<Rightarrow> int" where
  "scrollbackCount w \<equiv> int (length (m_scrollback (w_vt w)))"

definition totalLines :: "'v pane \<Rightarrow> int" where
  "totalLines w = scrollbackCount w + pane_rows w"

definition topLine :: "'v pane \<Rightarrow> int" where
  "topLine w = max 0 (totalLines w - pane_rows w - w_scrollOffset w)"

definition cellAt :: "'v pane \<Rightarrow> int \<Rightarrow> int \<Rightarrow> fault + Cell option" where
  "cellAt w absLine col =
     (if col < 0 then Inl OutOfBounds
      else if absLine < scrollbackCount w then
        (if absLine < 0 then Inl OutOfBounds
         else bindF (nthF (m_scrollback (w_vt w)) (nat absLine)) (\<lambda>line.
           if col < int (length line) then bindF (nthF line (nat col)) (\<lambda>c. ok (Some c)) else ok None))
      else let r = absLine - scrollbackCount w
           in if r < 0 \<or> pane_rows w \<le> r \<or> pane_cols w \<le> col then ok None
              else bindF (screen_at (w_screen w) (nat r) (nat col)) (\<lambda>c. ok (Some c)))"

definition lineText :: "'v pane \<Rightarrow> int \<Rightarrow> fault + text16" where
  "lineText w absLine =
     foldF (\<lambda>c s. bindF (cellAt w absLine (int c)) (\<lambda>cell.
       ok (s @ [case cell of None \<Rightarrow> 32 | Some x \<Rightarrow> if ch x \<noteq> 0 then cellUnit (ch x) else 32])))
     [0..<m_cols (w_screen w)] []"

definition scroll_to :: "int \<Rightarrow> 'v pane \<Rightarrow> 'v pane" where
  "scroll_to n w = w\<lparr>w_scrollOffset := clampI n 0 (scrollbackCount w)\<rparr>"

definition cellForPos :: "int \<Rightarrow> int \<Rightarrow> 'v pane \<Rightarrow> int \<times> int" where
  "cellForPos x y w =
     (clampI (x sdiv w_cellW w) 0 (pane_cols w - 1), topLine w + clampI (y sdiv w_cellH w) 0 (pane_rows w - 1))"

section \<open>Selection and clipboard\<close>

definition ordered_selection :: "'v pane \<Rightarrow> (int \<times> int) \<times> (int \<times> int)" where
  "ordered_selection w =
     (let a = w_selAnchor w; b = w_selHead w
      in if snd a > snd b \<or> (snd a = snd b \<and> fst a > fst b) then (b, a) else (a, b))"

definition selected_row :: "'v pane \<Rightarrow> int \<Rightarrow> int \<Rightarrow> int \<Rightarrow> fault + text16" where
  "selected_row w line c0 c1 =
     bindF (foldF (\<lambda>c row. bindF (cellAt w line c) (\<lambda>cell.
         ok (case cell of Some x \<Rightarrow> appendCodePoint row (ch x) | None \<Rightarrow> row @ [32]))) [c0..c1 - 1] [])
       (\<lambda>row. ok (chop_trailing (\<lambda>u. u = 32) row))"

definition selectedText :: "'v pane \<Rightarrow> fault + text16" where
  "selectedText w =
     (if \<not> w_hasSelection w then ok []
      else let (a, b) = ordered_selection w
           in foldF (\<lambda>line t.
                bindF (selected_row w line (if line = snd a then fst a else 0) (if line = snd b then fst b else pane_cols w))
                  (\<lambda>row. ok (t @ row @ (if line \<noteq> snd b then [10] else [])))) [snd a..snd b] [])"

definition copySelection :: "'v pane \<Rightarrow> fault + 'v pane" where
  "copySelection w = bindF (selectedText w) (\<lambda>t. ok (if t \<noteq> [] then tell (ToClipboard t) w else w))"

definition selectAll :: "'v pane \<Rightarrow> 'v pane" where
  "selectAll w =
     (if totalLines w \<le> 0 then w
      else w\<lparr>w_selAnchor := (0, 0), w_selHead := (max 0 (pane_cols w - 1), totalLines w - 1), w_hasSelection := True\<rparr>)"

definition clearHistory :: "'v pane \<Rightarrow> 'v pane" where
  "clearHistory w = w\<lparr>w_vt := clearScrollback (w_vt w), w_scrollOffset := 0, w_hasSelection := False\<rparr>"

section \<open>Pasting\<close>

definition line_feed :: char where
  "line_feed = char_of (10 :: nat)"

definition paste_open :: bytes where
  "paste_open = [0x1b, 0x5b, 0x32, 0x30, 0x30, 0x7e]"

definition paste_close :: bytes where
  "paste_close = [0x1b, 0x5b, 0x32, 0x30, 0x31, 0x7e]"

abbreviation modes :: "'v pane \<Rightarrow> vt_modes" where
  "modes w \<equiv> m_modes (m_csi (w_vt w))"

text \<open>\<open>confirm\<close> is the answer to the question that is asked before many lines are pasted. A timer sends later:
  \<open>AfterMs\<close>. The code adds its delays up in an \<open>int\<close>; the menu offers at most 250 ms for a line, so that the sums here
  are those of the code for texts of up to eight million lines.\<close>

definition deliver_paste :: "host \<Rightarrow> string \<Rightarrow> 'v pane \<Rightarrow> 'v pane" where
  "deliver_paste h clip w =
     (let bracket = m_bracketedPaste (modes w); ms = w_pasteDelayMs w; w = w\<lparr>w_scrollOffset := 0\<rparr>;
          w = (if bracket then sendInput paste_open w else w)
      in if 0 < ms \<and> line_feed \<in> set clip then
           let parts = split_on line_feed clip;
               w = fold (\<lambda>i. tell (AfterMs (int i * ms)
                     (toUtf8 h (parts ! i) @ (if i + 1 < length parts then [10] else [])))) [0..<length parts] w
           in if bracket then tell (AfterMs (int (length parts) * ms) paste_close) w else w
         else let w = sendInput (toUtf8 h clip) w
              in if bracket then sendInput paste_close w else w)"

definition paste :: "host \<Rightarrow> string \<Rightarrow> bool \<Rightarrow> 'v pane \<Rightarrow> 'v pane" where
  "paste h clip confirm w =
     (if \<not> w_conn w \<or> clip = [] then w
      else let lines = length (filter (\<lambda>c. c = line_feed) clip) + (if last clip = line_feed then 0 else 1)
           in if \<not> m_bracketedPaste (modes w) \<and> line_feed \<in> set clip \<and> 1 < lines \<and> \<not> confirm then w
              else deliver_paste h clip w)"

section \<open>The keyboard\<close>

definition key_bytes :: "host \<Rightarrow> key_event \<Rightarrow> 'v pane \<Rightarrow> bytes" where
  "key_bytes h e w =
     (case k_key e of
        KeyReturn \<Rightarrow> [0x0d] | KeyEnter \<Rightarrow> [0x0d]
      | KeyBackspace \<Rightarrow> w_backspaceCode w
      | KeyTab \<Rightarrow> [0x09]
      | KeyEscape \<Rightarrow> [0x1b]
      | KeyUp \<Rightarrow> [0x1b, 0x5b, 0x41]
      | KeyDown \<Rightarrow> [0x1b, 0x5b, 0x42]
      | KeyRight \<Rightarrow> [0x1b, 0x5b, 0x43]
      | KeyLeft \<Rightarrow> [0x1b, 0x5b, 0x44]
      | _ \<Rightarrow> toUtf8 h (k_text e))"

text \<open>\<open>mac\<close>: the build for macOS, where no shift is needed for copy, paste and find.\<close>

definition keyPressEvent :: "host \<Rightarrow> bool \<Rightarrow> string \<Rightarrow> bool \<Rightarrow> key_event \<Rightarrow> 'v pane \<Rightarrow> fault + 'v pane" where
  "keyPressEvent h mac clip confirm e w =
     (let cmd = ctrl_held (k_mods e); shift = shift_held (k_mods e);
          combo = (\<lambda>k. cmd \<and> (mac \<or> shift) \<and> k_key e = k)
      in if combo KeyC \<and> w_hasSelection w then copySelection w
         else if combo KeyV \<or> (k_key e = KeyInsert \<and> shift) then ok (paste h clip confirm w)
         else if combo KeyF then ok (tell FindBarShown w)
         else if shift \<and> (k_key e = KeyPageUp \<or> k_key e = KeyPageDown) then
           ok (scroll_to (w_scrollOffset w + (if k_key e = KeyPageUp then pane_rows w else - pane_rows w)) w)
         else if \<not> w_conn w then ok w
         else let w = w\<lparr>w_scrollOffset := 0\<rparr>; out = key_bytes h e w
              in ok (if out \<noteq> [] then sendInput out w else w))"

definition inputMethodEvent :: "host \<Rightarrow> string \<Rightarrow> 'v pane \<Rightarrow> 'v pane" where
  "inputMethodEvent h commit w =
     (let w = w\<lparr>w_scrollOffset := 0\<rparr>; out = toUtf8 h commit in if out \<noteq> [] then sendInput out w else w)"

section \<open>The mouse\<close>

abbreviation mouseEnabled :: "'v pane \<Rightarrow> bool" where
  "mouseEnabled w \<equiv> m_mouseTracking (modes w) \<noteq> TrackNone"

definition sendMouseReport :: "int \<Rightarrow> int \<Rightarrow> int \<Rightarrow> bool \<Rightarrow> 'v pane \<Rightarrow> 'v pane" where
  "sendMouseReport cb col1 row1 release w =
     sendInput (encodeMouseReport (m_mouseEncoding (modes w)) cb col1 row1 release) w"

text \<open>Column and row on the screen, from one.\<close>

definition mouse_cell :: "int \<Rightarrow> int \<Rightarrow> 'v pane \<Rightarrow> int \<times> int" where
  "mouse_cell x y w =
     (clampI (x sdiv w_cellW w) 0 (pane_cols w - 1) + 1, clampI (y sdiv w_cellH w) 0 (pane_rows w - 1) + 1)"

definition reportMouseIfEnabled :: "mouse_event \<Rightarrow> int \<Rightarrow> bool \<Rightarrow> bool \<Rightarrow> 'v pane \<Rightarrow> bool \<times> 'v pane" where
  "reportMouseIfEnabled e cbBase release motion w =
     (let tracking = m_mouseTracking (modes w)
      in if \<not> mouseEnabled w \<or> shift_held (e_mods e) then (False, w)
         else if motion \<and> tracking \<noteq> AnyMotion \<and> \<not> (tracking = ButtonEvent \<and> 0 \<le> w_mouseBtn w) then (False, w)
         else let cell = mouse_cell (e_x e) (e_y e) w
              in if motion \<and> cell = w_lastMouseCell w then (True, w)
                 else let w = (if motion then w\<lparr>w_lastMouseCell := cell\<rparr> else w);
                          cb = cbBase + (if motion then 32 else 0) + (if shift_held (e_mods e) then 4 else 0) +
                               (if alt_held (e_mods e) then 8 else 0) + (if ctrl_held (e_mods e) then 16 else 0)
                      in (True, sendMouseReport cb (fst cell) (snd cell) release w))"

definition buttonBaseCode :: "button \<Rightarrow> int" where
  "buttonBaseCode b = (case b of LeftButton \<Rightarrow> 0 | MiddleButton \<Rightarrow> 1 | RightButton \<Rightarrow> 2 | OtherButton \<Rightarrow> 0)"

text \<open>\<open>url\<close> is \<open>detectUrlAt\<close> of the engine, on the text of a line (modelled on bytes in \<open>Vt_Text\<close>).\<close>

definition urlAt :: "(text16 \<Rightarrow> int \<Rightarrow> string) \<Rightarrow> int \<Rightarrow> int \<Rightarrow> 'v pane \<Rightarrow> fault + string" where
  "urlAt url absLine col w = bindF (lineText w absLine) (\<lambda>t. ok (url t col))"

definition press_button :: "host \<Rightarrow> string \<Rightarrow> bool \<Rightarrow> mouse_event \<Rightarrow> 'v pane \<Rightarrow> 'v pane" where
  "press_button h clip confirm e w =
     (let base = buttonBaseCode (e_button e); (reported, w) = reportMouseIfEnabled e base False False w
      in if reported then w\<lparr>w_mouseBtn := base, w_lastMouseCell := (- 1, - 1)\<rparr>
         else if e_button e = LeftButton then
           let cell = cellForPos (e_x e) (e_y e) w
           in w\<lparr>w_selecting := True, w_hasSelection := False, w_selAnchor := cell, w_selHead := cell\<rparr>
         else if e_button e = MiddleButton then paste h clip confirm w
         else w)"

definition mousePressEvent ::
  "host \<Rightarrow> (text16 \<Rightarrow> int \<Rightarrow> string) \<Rightarrow> string \<Rightarrow> bool \<Rightarrow> mouse_event \<Rightarrow> 'v pane \<Rightarrow> fault + 'v pane" where
  "mousePressEvent h url clip confirm e w =
     (if e_button e = LeftButton \<and> ctrl_held (e_mods e) then
        let (col, line) = cellForPos (e_x e) (e_y e) w
        in bindF (urlAt url line col w) (\<lambda>u. ok (if u \<noteq> [] then tell (OpenedUrl u) w else press_button h clip confirm e w))
      else ok (press_button h clip confirm e w))"

definition mouseMoveEvent :: "mouse_event \<Rightarrow> 'v pane \<Rightarrow> 'v pane" where
  "mouseMoveEvent e w =
     (let (reported, w) =
        (if mouseEnabled w \<and> \<not> w_selecting w
         then reportMouseIfEnabled e (if 0 \<le> w_mouseBtn w then w_mouseBtn w else 3) False True w
         else (False, w))
      in if reported then w
         else if w_selecting w then
           let head = cellForPos (e_x e) (e_y e) w in w\<lparr>w_selHead := head, w_hasSelection := (head \<noteq> w_selAnchor w)\<rparr>
         else w)"

definition mouseReleaseEvent :: "mouse_event \<Rightarrow> 'v pane \<Rightarrow> fault + 'v pane" where
  "mouseReleaseEvent e w =
     (if 0 \<le> w_mouseBtn w \<and> mouseEnabled w then
        ok ((snd (reportMouseIfEnabled e (buttonBaseCode (e_button e)) True False w))\<lparr>w_mouseBtn := - 1\<rparr>)
      else if e_button e = LeftButton then
        let w = w\<lparr>w_selecting := False\<rparr> in if w_hasSelection w then copySelection w else ok w
      else ok w)"

definition wheelEvent :: "mouse_event \<Rightarrow> int \<Rightarrow> 'v pane \<Rightarrow> 'v pane" where
  "wheelEvent e angle w =
     (let steps = angle sdiv 120
      in if steps = 0 then w
         else if mouseEnabled w \<and> \<not> shift_held (e_mods e) then
           let (col1, row1) = mouse_cell (e_x e) (e_y e) w
           in ((sendMouseReport (if 0 < steps then 64 else 65) col1 row1 False) ^^ nat \<bar>steps\<bar>) w
         else scroll_to (w_scrollOffset w + steps * 3) w)"

section \<open>Searching the history\<close>

definition findReveal :: "int \<Rightarrow> 'v pane \<Rightarrow> 'v pane" where
  "findReveal index w =
     (if index < 0 \<or> int (length (w_findMatches w)) \<le> index then w
      else let (x, y) = w_findMatches w ! nat index
           in scroll_to (totalLines w - pane_rows w - int y + pane_rows w sdiv 2)
                (w\<lparr>w_selAnchor := (int x, int y), w_selHead := (int x + int (w_findLen w), int y), w_hasSelection := True\<rparr>))"

definition findUpdate :: "(u16 \<Rightarrow> u16) \<Rightarrow> text16 \<Rightarrow> 'v pane \<Rightarrow> fault + 'v pane" where
  "findUpdate fold_case query w =
     bindF (foldF (\<lambda>l ls. bindF (lineText w l) (\<lambda>t. ok (ls @ [t]))) [0..totalLines w - 1] []) (\<lambda>lines.
       let ms = findMatches fold_case lines query;
           w = w\<lparr>w_findIndex := - 1, w_findLen := length query, w_findMatches := ms\<rparr>
       in ok (if ms \<noteq> [] then findReveal (int (length ms) - 1) (w\<lparr>w_findIndex := int (length ms) - 1\<rparr>)
              else w\<lparr>w_hasSelection := False\<rparr>))"

definition findStep :: "bool \<Rightarrow> 'v pane \<Rightarrow> 'v pane" where
  "findStep forward w =
     (if w_findMatches w = [] then w
      else let n = int (length (w_findMatches w)); i = (w_findIndex w + (if forward then 1 else - 1) + n) smod n
           in findReveal i (w\<lparr>w_findIndex := i\<rparr>))"

definition findClose :: "'v pane \<Rightarrow> 'v pane" where
  "findClose w = w\<lparr>w_findMatches := [], w_findIndex := - 1\<rparr>"

section \<open>Engine and connection\<close>

definition startLogging :: "bool \<Rightarrow> bytes \<Rightarrow> 'v pane \<Rightarrow> bool \<times> 'v pane" where
  "startLogging opens before w =
     (let w = w\<lparr>w_log := None\<rparr> in if opens then (True, w\<lparr>w_log := Some before\<rparr>) else (False, w))"

definition stopLogging :: "'v pane \<Rightarrow> 'v pane" where
  "stopLogging w = w\<lparr>w_log := None\<rparr>"

text \<open>What the signals of the engine are connected to.\<close>

fun on_signal :: "signal \<Rightarrow> 'v pane \<Rightarrow> 'v pane" where
  "on_signal (OutputReady b) w = feedInput b w"
| "on_signal ScreenUpdated w = w"
| "on_signal (TitleChanged t) w = tell (Titled t) w"
| "on_signal (CwdChanged p) w = tell (CwdIs p) w"

text \<open>The data of an attached connection: first the engine, then the log.\<close>

definition receive :: "host \<Rightarrow> (string \<Rightarrow> string) \<Rightarrow> 'v vterm \<Rightarrow> bytes \<Rightarrow> 'v pane \<Rightarrow> fault + 'v pane" where
  "receive h url_path vt b w =
     bindF (input h url_path vt b (w_vt w)) (\<lambda>(sigs, s).
       let w = fold on_signal sigs (w\<lparr>w_vt := s\<rparr>) in ok (w\<lparr>w_log := map_option (\<lambda>l. l @ b) (w_log w)\<rparr>))"

definition recomputeGrid :: "host \<Rightarrow> 'v vterm \<Rightarrow> int \<Rightarrow> int \<Rightarrow> 'v pane \<Rightarrow> fault + 'v pane" where
  "recomputeGrid h vt width height w =
     (let cols = max 1 (width sdiv w_cellW w); rows = max 1 (height sdiv w_cellH w)
      in bindF (vt_resize h vt rows cols (w_vt w)) (\<lambda>(sigs, s).
           let w = fold on_signal sigs (w\<lparr>w_vt := s\<rparr>) in ok (if w_conn w then tell (NewSize cols rows) w else w)))"

text \<open>The font: its cell, and the grid anew.\<close>

definition setTerminalFont :: "host \<Rightarrow> 'v vterm \<Rightarrow> int \<Rightarrow> int \<Rightarrow> int \<Rightarrow> int \<Rightarrow> 'v pane \<Rightarrow> fault + 'v pane" where
  "setTerminalFont h vt advance font_height width height w =
     recomputeGrid h vt width height (w\<lparr>w_cellW := max 1 advance, w_cellH := max 1 font_height\<rparr>)"

section \<open>Painting\<close>

text \<open>A glyph is drawn at a point, or centred in a rectangle if it is wide.\<close>

datatype 'col draw = Fill int int int int 'col | Glyph int int text16 'col | WideGlyph int int int int text16 'col

record 'col palette =
  pal_fg :: 'col
  pal_bg :: 'col
  pal_ansi :: "nat \<Rightarrow> 'col"
  pal_rgb :: "u32 \<Rightarrow> 'col"
  pal_bar :: 'col

definition resolveFg :: "'col palette \<Rightarrow> Cell option \<Rightarrow> 'col" where
  "resolveFg p cell =
     (case cell of
        None \<Rightarrow> pal_fg p
      | Some c \<Rightarrow>
          (case fgKind c of
             Default \<Rightarrow> pal_fg p
           | Ansi \<Rightarrow> let idx = unat (fgIndex c) in pal_ansi p (if bold c \<and> idx < 8 then idx + 8 else idx)
           | Rgb \<Rightarrow> pal_rgb p (0xff000000 OR fgRgb c)))"

definition resolveBg :: "'col palette \<Rightarrow> Cell option \<Rightarrow> 'col" where
  "resolveBg p cell =
     (case cell of
        None \<Rightarrow> pal_bg p
      | Some c \<Rightarrow>
          (case bgKind c of
             Default \<Rightarrow> pal_bg p
           | Ansi \<Rightarrow> pal_ansi p (unat (bgIndex c))
           | Rgb \<Rightarrow> pal_rgb p (0xff000000 OR bgRgb c)))"

definition in_selection :: "'v pane \<Rightarrow> int \<Rightarrow> int \<Rightarrow> bool" where
  "in_selection w line c \<longleftrightarrow>
     w_hasSelection w \<and>
     (let (a, b) = ordered_selection w
      in (line > snd a \<or> (line = snd a \<and> c \<ge> fst a)) \<and> (line < snd b \<or> (line = snd b \<and> c < fst b)))"

definition paint_cell :: "'col palette \<Rightarrow> 'v pane \<Rightarrow> int \<Rightarrow> int \<Rightarrow> int \<Rightarrow> 'col option \<Rightarrow> Cell option \<Rightarrow> 'col draw list" where
  "paint_cell p w absLine y c hl cell =
     (let x = c * w_cellW w;
          fg = (case hl of Some k \<Rightarrow> k | None \<Rightarrow> resolveFg p cell);
          cbg = resolveBg p cell;
          (fg, cbg) = (if (case cell of None \<Rightarrow> False | Some k \<Rightarrow> reverse k) then (cbg, fg) else (fg, cbg));
          (fg, cbg) = (if in_selection w absLine c then (cbg, fg) else (fg, cbg));
          is_wide = (case cell of None \<Rightarrow> False | Some k \<Rightarrow> wide k);
          cw = (if is_wide then 2 * w_cellW w else w_cellW w);
          cp = (case cell of None \<Rightarrow> 32 | Some k \<Rightarrow> ch k)
      in (if cbg \<noteq> pal_bg p then [Fill x y cw (w_cellH w) cbg] else []) @
         (if cp \<noteq> 32 \<and> cp \<noteq> 0 then
            (if is_wide then [WideGlyph x y cw (w_cellH w) (codePointString cp) fg]
             else [Glyph x (y + w_cellH w - 3) (codePointString cp) fg])
          else []))"

definition highlight_text :: "'v pane \<Rightarrow> int \<Rightarrow> fault + text16" where
  "highlight_text w absLine =
     foldF (\<lambda>c s. bindF (cellAt w absLine (int c)) (\<lambda>cell.
       ok (s @ [case cell of None \<Rightarrow> 32 | Some x \<Rightarrow> cellUnit (ch x)]))) [0..<m_cols (w_screen w)] []"

text \<open>The colour of a column after all spans have been entered: the last one that covers it.\<close>

definition span_colour :: "(nat \<times> nat \<times> 'col) list \<Rightarrow> nat \<Rightarrow> 'col option" where
  "span_colour spans c = fold (\<lambda>(start, len, col) k. if start \<le> c \<and> c < start + len then Some col else k) spans None"

text \<open>\<open>hl\<close> is the highlighter, if it is on: the spans of a line.\<close>

definition paint_row :: "'col palette \<Rightarrow> (text16 \<Rightarrow> (nat \<times> nat \<times> 'col) list) option \<Rightarrow> 'v pane \<Rightarrow> nat \<Rightarrow> fault + 'col draw list" where
  "paint_row p hl w r =
     (let absLine = topLine w + int r
      in bindF (case hl of None \<Rightarrow> ok [] | Some f \<Rightarrow> bindF (highlight_text w absLine) (\<lambda>t. ok (f t))) (\<lambda>spans.
           foldF (\<lambda>c ds. bindF (cellAt w absLine (int c)) (\<lambda>cell.
             ok (ds @ paint_cell p w absLine (int r * w_cellH w) (int c) (span_colour spans c) cell)))
             [0..<m_cols (w_screen w)] []))"

definition paintEvent ::
  "'col palette \<Rightarrow> (text16 \<Rightarrow> (nat \<times> nat \<times> 'col) list) option \<Rightarrow> int \<Rightarrow> int \<Rightarrow> 'v pane \<Rightarrow> fault + 'col draw list" where
  "paintEvent p hl width height w =
     bindF (foldF (\<lambda>r ds. bindF (paint_row p hl w r) (\<lambda>row. ok (ds @ row))) [0..<m_rows (w_screen w)]
              [Fill 0 0 width height (pal_bg p)]) (\<lambda>ds.
       ok (if 0 < w_scrollOffset w then ds @ [Fill (width - 3) 0 3 height (pal_bar p)] else ds))"

section \<open>No access out of range\<close>

definition point_ok :: "int \<times> int \<Rightarrow> bool" where
  "point_ok p \<longleftrightarrow> 0 \<le> fst p \<and> 0 \<le> snd p"

definition pane_ok :: "'v pane \<Rightarrow> bool" where
  "pane_ok w \<longleftrightarrow> engine_ok (w_vt w) \<and> 1 \<le> w_cellW w \<and> 1 \<le> w_cellH w \<and> 0 \<le> w_scrollOffset w \<and>
     point_ok (w_selAnchor w) \<and> point_ok (w_selHead w) \<and>
     (if w_findMatches w = [] then w_findIndex w = - 1 else 0 \<le> w_findIndex w) \<and> w_findIndex w < int (length (w_findMatches w))"

lemma pane_ok_tell [simp]: "pane_ok (tell e w) = pane_ok w" "pane_ok (feedInput b w) = pane_ok w" "pane_ok (sendInput b w) = pane_ok w"
  by (simp_all add: tell_def feedInput_def sendInput_def pane_ok_def)

lemma pane_ok_simps [simp]:
  "pane_ok (w\<lparr>w_lastMouseCell := p\<rparr>) = pane_ok w" "pane_ok (w\<lparr>w_mouseBtn := b\<rparr>) = pane_ok w"
  "pane_ok (w\<lparr>w_selecting := s\<rparr>) = pane_ok w" "pane_ok (w\<lparr>w_log := l\<rparr>) = pane_ok w"
  "pane_ok (w\<lparr>w_hasSelection := s\<rparr>) = pane_ok w"
  by (simp_all add: pane_ok_def)

lemma screen_of_ok: "pane_ok w \<Longrightarrow> screen_ok (w_screen w)"
  by (simp add: pane_ok_def engine_ok_def)

lemma okP_cellAt:
  assumes "pane_ok w" and "0 \<le> col" and "0 \<le> absLine"
  shows "okP (cellAt w absLine col) (\<lambda>_. True)"
proof -
  have "nat (absLine - scrollbackCount w) < m_rows (w_screen w)" "nat col < m_cols (w_screen w)"
    if "absLine - scrollbackCount w \<ge> 0" "absLine - scrollbackCount w < pane_rows w" "col < pane_cols w"
    using that assms(2) by linarith+
  then show ?thesis
    using assms screen_index [OF screen_of_ok [OF assms(1)]]
    by (auto simp: cellAt_def Let_def nthF_def screen_at_def intro!: okP_bind [where P = "\<lambda>_. True"] okP_nth)
qed

lemma pane_ok_scroll: "pane_ok w \<Longrightarrow> 0 \<le> n \<Longrightarrow> pane_ok (w\<lparr>w_scrollOffset := n\<rparr>)"
  by (simp add: pane_ok_def)

lemma pane_ok_scroll_to: "pane_ok w \<Longrightarrow> pane_ok (scroll_to n w)"
  by (simp add: scroll_to_def clampI_def pane_ok_scroll)

lemma top_line_nonneg: "0 \<le> topLine w"
  by (simp add: topLine_def)

lemma okP_read_cells:
  assumes "pane_ok w" and "0 \<le> line" and "\<forall>c \<in> set cs. 0 \<le> f c"
  shows "okP (foldF (\<lambda>c s. bindF (cellAt w line (f c)) (\<lambda>cell. ok (g c cell s))) cs a) (\<lambda>_. True)"
  using assms by (intro okP_foldF okP_bind [OF okP_cellAt]) auto

lemma okP_lineText: "pane_ok w \<Longrightarrow> 0 \<le> line \<Longrightarrow> okP (lineText w line) (\<lambda>_. True)"
  unfolding lineText_def by (rule okP_read_cells) auto

lemma ordered_ok:
  assumes "pane_ok w"
  shows "0 \<le> snd (fst (ordered_selection w))" and "0 \<le> fst (fst (ordered_selection w))"
  using assms by (auto simp: pane_ok_def point_ok_def ordered_selection_def Let_def)

lemma okP_selected_row: "pane_ok w \<Longrightarrow> 0 \<le> line \<Longrightarrow> 0 \<le> c0 \<Longrightarrow> okP (selected_row w line c0 c1) (\<lambda>_. True)"
  unfolding selected_row_def
  by (rule okP_bind [where P = "\<lambda>_. True"], rule okP_foldF) (auto intro: okP_bind [OF okP_cellAt] split: option.split)

lemma okP_selectedText:
  assumes "pane_ok w"
  shows "okP (selectedText w) (\<lambda>_. True)"
proof -
  obtain a b where o: "ordered_selection w = (a, b)" by (metis surj_pair)
  have "0 \<le> snd a" "0 \<le> fst a" using ordered_ok [OF assms] by (simp_all add: o)
  then have "okP (foldF (\<lambda>line t. bindF (selected_row w line (if line = snd a then fst a else 0) (if line = snd b then fst b else pane_cols w))
      (\<lambda>row. ok (t @ row @ (if line \<noteq> snd b then [10] else [])))) [snd a..snd b] []) (\<lambda>_. True)"
    using assms by (intro okP_foldF okP_bind [OF okP_selected_row]) auto
  then show ?thesis by (simp add: selectedText_def o)
qed

lemma okP_copy: "pane_ok w \<Longrightarrow> okP (copySelection w) pane_ok"
  unfolding copySelection_def by (rule okP_bind [OF okP_selectedText]) simp_all

lemma cell_for_pos_ok: "pane_ok w \<Longrightarrow> point_ok (cellForPos x y w)"
  using screen_of_ok [of w] top_line_nonneg [of w] by (auto simp: cellForPos_def clampI_def point_ok_def screen_ok_def)

lemma pane_ok_timers: "pane_ok (fold (\<lambda>i. tell (f i)) is w) = pane_ok w"
  by (induction "is" arbitrary: w) simp_all

lemma pane_ok_paste: "pane_ok w \<Longrightarrow> pane_ok (paste h clip confirm w)"
  by (simp add: paste_def deliver_paste_def Let_def pane_ok_timers pane_ok_scroll)

lemma pane_ok_report: "pane_ok (snd (reportMouseIfEnabled e b release motion w)) = pane_ok w"
  by (simp add: reportMouseIfEnabled_def Let_def sendMouseReport_def)

lemma report_cases:
  "reportMouseIfEnabled e b release motion w = (r, w') \<Longrightarrow> pane_ok w' = pane_ok w \<and> (\<not> r \<longrightarrow> w' = w)"
  by (auto simp: reportMouseIfEnabled_def Let_def sendMouseReport_def split: if_splits)

lemma pane_ok_press: "pane_ok w \<Longrightarrow> pane_ok (press_button h clip confirm e w)"
proof -
  assume ok: "pane_ok w"
  obtain r w' where r: "reportMouseIfEnabled e (buttonBaseCode (e_button e)) False False w = (r, w')" by fastforce
  have w': "pane_ok w'" using report_cases [OF r] ok by simp
  have "pane_ok (w'\<lparr>w_selecting := True, w_hasSelection := False, w_selAnchor := p, w_selHead := p\<rparr>)" if "point_ok p" for p
    using w' that by (simp add: pane_ok_def)
  with w' cell_for_pos_ok [OF w'] show ?thesis by (simp add: press_button_def r Let_def pane_ok_paste)
qed

lemma okP_mousePress: "pane_ok w \<Longrightarrow> okP (mousePressEvent h url clip confirm e w) pane_ok"
proof -
  assume ok: "pane_ok w"
  obtain col line where c: "cellForPos (e_x e) (e_y e) w = (col, line)" by fastforce
  have "0 \<le> line" using cell_for_pos_ok [OF ok, of "e_x e" "e_y e"] by (simp add: point_ok_def c)
  then have "okP (urlAt url line col w) (\<lambda>_. True)" unfolding urlAt_def by (intro okP_bind [OF okP_lineText]) (simp_all add: ok)
  then have "okP (bindF (urlAt url line col w) (\<lambda>u. ok (if u \<noteq> [] then tell (OpenedUrl u) w else press_button h clip confirm e w))) pane_ok"
    by (rule okP_bind) (simp add: ok pane_ok_press)
  then show ?thesis by (simp add: mousePressEvent_def c pane_ok_press [OF ok])
qed

lemma pane_ok_mouseMove: "pane_ok w \<Longrightarrow> pane_ok (mouseMoveEvent e w)"
proof -
  assume ok: "pane_ok w"
  obtain r w' where r: "(if mouseEnabled w \<and> \<not> w_selecting w
      then reportMouseIfEnabled e (if 0 \<le> w_mouseBtn w then w_mouseBtn w else 3) False True w else (False, w)) = (r, w')" by fastforce
  then have w': "pane_ok w'" using report_cases ok by (metis prod.inject)
  have "pane_ok (w'\<lparr>w_selHead := p, w_hasSelection := s\<rparr>)" if "point_ok p" for p s
    using w' that by (simp add: pane_ok_def)
  with w' cell_for_pos_ok [OF w'] show ?thesis by (simp add: mouseMoveEvent_def r Let_def)
qed

lemma okP_mouseRelease: "pane_ok w \<Longrightarrow> okP (mouseReleaseEvent e w) pane_ok"
  by (simp add: mouseReleaseEvent_def Let_def pane_ok_report okP_copy)

lemma pane_ok_wheel: "pane_ok w \<Longrightarrow> pane_ok (wheelEvent e angle w)"
proof -
  assume "pane_ok w"
  then have "pane_ok ((sendMouseReport cb c r False ^^ n) w)" for cb c r n
    by (induction n) (simp_all add: sendMouseReport_def)
  with \<open>pane_ok w\<close> show ?thesis by (simp add: wheelEvent_def Let_def case_prod_unfold pane_ok_scroll_to)
qed

lemma okP_keyPress: "pane_ok w \<Longrightarrow> okP (keyPressEvent h mac clip confirm e w) pane_ok"
  by (simp add: keyPressEvent_def Let_def okP_copy pane_ok_paste pane_ok_scroll_to pane_ok_scroll)

lemma pane_ok_reveal: "pane_ok w \<Longrightarrow> pane_ok (findReveal i w)"
proof -
  assume ok: "pane_ok w"
  have "pane_ok (w\<lparr>w_selAnchor := (int x, int y), w_selHead := (int x + int n, int y), w_hasSelection := True\<rparr>)" for x y n
    using ok by (simp add: pane_ok_def point_ok_def)
  with ok show ?thesis by (simp add: findReveal_def case_prod_unfold pane_ok_scroll_to Let_def)
qed

lemma okP_findUpdate: "pane_ok w \<Longrightarrow> okP (findUpdate fc query w) pane_ok"
proof -
  assume ok: "pane_ok w"
  have "okP (foldF (\<lambda>l ls. bindF (lineText w l) (\<lambda>t. ok (ls @ [t]))) [0..totalLines w - 1] []) (\<lambda>_. True)"
    using ok by (intro okP_foldF okP_bind [OF okP_lineText]) auto
  moreover have "pane_ok (w\<lparr>w_findLen := n, w_findMatches := ms, w_findIndex := i\<rparr>)" if "ms \<noteq> []" "0 \<le> i" "i < int (length ms)" for i n ms
    using ok that by (simp add: pane_ok_def)
  then have "pane_ok (findReveal (int (length ms) - 1) (w\<lparr>w_findLen := n, w_findMatches := ms, w_findIndex := int (length ms) - 1\<rparr>))" if "ms \<noteq> []" for n ms
    using that by (intro pane_ok_reveal) (cases ms; simp)
  moreover have "pane_ok (w\<lparr>w_findIndex := - 1, w_findLen := n, w_findMatches := []\<rparr>)" for n
    using ok by (simp add: pane_ok_def)
  ultimately show ?thesis
    unfolding findUpdate_def by (elim okP_bind) (simp add: Let_def)
qed

lemma smod_mod: "0 \<le> a \<Longrightarrow> 0 < b \<Longrightarrow> a smod b = a mod b" for a b :: int
  by (cases "a = 0") (simp_all add: signed_modulo_int_def)

lemma pane_ok_findStep: "pane_ok w \<Longrightarrow> pane_ok (findStep forward w)"
proof -
  assume ok: "pane_ok w"
  have "pane_ok (w\<lparr>w_findIndex := i smod int (length (w_findMatches w))\<rparr>)" if "w_findMatches w \<noteq> []" "0 \<le> i" for i
    using ok that by (simp add: pane_ok_def smod_mod order.trans [OF _ pos_mod_sign])
  moreover have "0 \<le> w_findIndex w + d + int (length (w_findMatches w))" if "w_findMatches w \<noteq> []" "- 1 \<le> d" for d
    using ok that by (simp add: pane_ok_def)
  ultimately show ?thesis using ok by (simp add: findStep_def Let_def pane_ok_reveal)
qed

lemma pane_ok_signals: "pane_ok (fold on_signal sigs w) = pane_ok w"
proof (induction sigs arbitrary: w)
  case (Cons s sigs)
  then show ?case by (cases s) simp_all
qed simp

lemma pane_ok_engine: "pane_ok w \<Longrightarrow> engine_ok s \<Longrightarrow> pane_ok (w\<lparr>w_vt := s\<rparr>)"
  by (simp add: pane_ok_def)

lemma okP_receive: "pane_ok w \<Longrightarrow> okP (receive h u vt b w) pane_ok"
proof -
  assume ok: "pane_ok w"
  then have "okP (input h u vt b (w_vt w)) (\<lambda>r. engine_ok (snd r))" by (simp add: pane_ok_def okP_input)
  then show ?thesis
    unfolding receive_def by (rule okP_bind) (simp add: Let_def case_prod_unfold pane_ok_signals pane_ok_engine [OF ok])
qed

lemma pane_ok_told: "pane_ok (if b then tell e w else w) = pane_ok w"
  by simp

text \<open>A window is not larger than 32767 pixels in each direction.\<close>

definition window_ok :: "int \<Rightarrow> int \<Rightarrow> bool" where
  "window_ok width height \<longleftrightarrow> width < 2 ^ 15 \<and> height < 2 ^ 15"

lemma cells_fit:
  assumes "1 \<le> c" and "n < 2 ^ 15"
  shows "max 1 (n sdiv c) < (2 :: int) ^ 15"
proof -
  have "n sdiv c \<le> max 0 n" using assms(1)
    using zdiv_mono2 [of "\<bar>n\<bar>" 1 c] pos_imp_zdiv_nonneg_iff [of c "- n"]
    by (cases "0 \<le> n") (auto simp: signed_divide_int_def sgn_if)
  with assms(2) show ?thesis by auto
qed

lemma okP_recomputeGrid:
  assumes "pane_ok w" and "window_ok width height"
  shows "okP (recomputeGrid h vt width height w) pane_ok"
proof -
  define cols rows where "cols = max 1 (width sdiv w_cellW w)" and "rows = max 1 (height sdiv w_cellH w)"
  have bounds: "cols < 2 ^ 15" "rows < 2 ^ 15" "1 \<le> cols" "1 \<le> rows"
    using cells_fit assms by (simp_all add: cols_def rows_def pane_ok_def window_ok_def)
  have "rows * cols \<le> 2 ^ 15 * 2 ^ 15" using bounds by (intro mult_mono) simp_all
  moreover have "- 2147483648 \<le> rows * cols" using mult_nonneg_nonneg [of rows cols] bounds by linarith
  ultimately have "fitsInt (at_least_1 rows * at_least_1 cols)" using bounds by (simp add: at_least_1_def fitsInt_def)
  then have "okP (vt_resize h vt rows cols (w_vt w)) (\<lambda>r. engine_ok (snd r))"
    using assms(1) by (intro okP_resize) (simp_all add: pane_ok_def)
  then have "okP (bindF (vt_resize h vt rows cols (w_vt w)) (\<lambda>(sigs, s).
      let w = fold on_signal sigs (w\<lparr>w_vt := s\<rparr>) in ok (if w_conn w then tell (NewSize cols rows) w else w))) pane_ok"
    by (rule okP_bind) (simp add: Let_def case_prod_unfold pane_ok_signals pane_ok_engine [OF assms(1)])
  then show ?thesis by (simp add: recomputeGrid_def cols_def [symmetric] rows_def [symmetric] Let_def)
qed

lemma okP_setFont: "pane_ok w \<Longrightarrow> window_ok width height \<Longrightarrow> okP (setTerminalFont h vt a f width height w) pane_ok"
  unfolding setTerminalFont_def by (rule okP_recomputeGrid) (simp_all add: pane_ok_def)

lemma okP_paint_pane: "pane_ok w \<Longrightarrow> okP (paintEvent p hl width height w) (\<lambda>_. True)"
proof -
  assume ok: "pane_ok w"
  have "0 \<le> topLine w + int r" for r using top_line_nonneg [of w] by simp
  note line = this
  have "okP (paint_row p hl w r) (\<lambda>_. True)" for r
    unfolding paint_row_def Let_def
  proof (rule okP_bind)
    show "okP (case hl of None \<Rightarrow> ok [] | Some f \<Rightarrow> bindF (highlight_text w (topLine w + int r)) (\<lambda>t. ok (f t))) (\<lambda>_. True)"
      using okP_read_cells [OF ok line, of "[0..<m_cols (w_screen w)]" int]
      by (auto simp: highlight_text_def split: option.split intro!: okP_bind [where P = "\<lambda>_. True"])
  qed (rule okP_read_cells [OF ok line], simp)
  then show ?thesis
    unfolding paintEvent_def by (intro okP_bind [where P = "\<lambda>_. True"] okP_foldF) (auto intro: okP_bind)
qed

section \<open>Everything that happens to a pane\<close>

record 'v pane_env =
  pe_host :: host
  pe_mac :: bool
  pe_vterm :: "'v vterm"
  pe_urlPath :: "string \<Rightarrow> string"
  pe_url :: "text16 \<Rightarrow> int \<Rightarrow> string"
  pe_fold :: "u16 \<Rightarrow> u16"

datatype pane_input = Key key_event string bool | Commit string | Press mouse_event string bool | Move mouse_event
  | Release mouse_event | Wheel mouse_event int | PasteAction string bool | CopyAction | SelectAllAction | ClearAction
  | FindText text16 | FindNext bool | FindClosed | Timer bytes | Data bytes | Resized int int | FontChanged int int int int
  | History int | Attached | Handler bool | PasteDelay int | BackspaceCode bytes | LogTo bool bytes | LogStop | Fed bytes

fun pane_do :: "'v pane_env \<Rightarrow> pane_input \<Rightarrow> 'v pane \<Rightarrow> fault + 'v pane" where
  "pane_do v (Key e clip yes) w = keyPressEvent (pe_host v) (pe_mac v) clip yes e w"
| "pane_do v (Commit t) w = ok (inputMethodEvent (pe_host v) t w)"
| "pane_do v (Press e clip yes) w = mousePressEvent (pe_host v) (pe_url v) clip yes e w"
| "pane_do v (Move e) w = ok (mouseMoveEvent e w)"
| "pane_do v (Release e) w = mouseReleaseEvent e w"
| "pane_do v (Wheel e angle) w = ok (wheelEvent e angle w)"
| "pane_do v (PasteAction clip yes) w = ok (paste (pe_host v) clip yes w)"
| "pane_do v CopyAction w = copySelection w"
| "pane_do v SelectAllAction w = ok (selectAll w)"
| "pane_do v ClearAction w = ok (clearHistory w)"
| "pane_do v (FindText q) w = findUpdate (pe_fold v) q w"
| "pane_do v (FindNext onward) w = ok (findStep onward w)"
| "pane_do v FindClosed w = ok (findClose w)"
| "pane_do v (Timer b) w = ok (sendInput b w)"
| "pane_do v (Data b) w = receive (pe_host v) (pe_urlPath v) (pe_vterm v) b w"
| "pane_do v (Resized width height) w = recomputeGrid (pe_host v) (pe_vterm v) width height w"
| "pane_do v (FontChanged a f width height) w = setTerminalFont (pe_host v) (pe_vterm v) a f width height w"
| "pane_do v (History n) w = ok (w\<lparr>w_vt := setScrollbackMax n (w_vt w)\<rparr>)"
| "pane_do v Attached w = ok (w\<lparr>w_conn := True\<rparr>)"
| "pane_do v (Handler on) w = ok (w\<lparr>w_handler := on\<rparr>)"
| "pane_do v (PasteDelay ms) w = ok (w\<lparr>w_pasteDelayMs := ms\<rparr>)"
| "pane_do v (BackspaceCode b) w = ok (if b \<noteq> [] then w\<lparr>w_backspaceCode := b\<rparr> else w)"
| "pane_do v (LogTo opens before) w = ok (snd (startLogging opens before w))"
| "pane_do v LogStop w = ok (stopLogging w)"
| "pane_do v (Fed b) w = ok (feedInput b w)"

fun input_ok :: "pane_input \<Rightarrow> bool" where
  "input_ok (Resized width height) = window_ok width height"
| "input_ok (FontChanged a f width height) = window_ok width height"
| "input_ok i = True"

lemma okP_do:
  assumes "pane_ok w" and "input_ok i"
  shows "okP (pane_do v i w) pane_ok"
proof -
  have "engine_ok (setScrollbackMax n (w_vt w))" for n
    using assms(1) engine_ok_trim by (simp add: setScrollbackMax_def Let_def pane_ok_def engine_ok_def trim_oldest_drop)
  note hist = this
  have small: "pane_ok (selectAll w)" "pane_ok (clearHistory w)" "pane_ok (findClose w)" "pane_ok (inputMethodEvent h t w)"
    "pane_ok (w\<lparr>w_conn := b\<rparr>)" "pane_ok (w\<lparr>w_handler := b\<rparr>)" "pane_ok (w\<lparr>w_pasteDelayMs := n\<rparr>)" "pane_ok (w\<lparr>w_backspaceCode := c\<rparr>)"
    "pane_ok (stopLogging w)" "pane_ok (snd (startLogging b c w))" for h t b n c
    using assms(1) by (auto simp: pane_ok_def selectAll_def point_ok_def clearHistory_def engine_ok_def clearScrollback_def
      findClose_def inputMethodEvent_def Let_def sendInput_def feedInput_def tell_def stopLogging_def startLogging_def)
  show ?thesis
    using assms by (cases i) (simp_all add: small hist okP_keyPress okP_mousePress pane_ok_mouseMove okP_mouseRelease pane_ok_wheel
      pane_ok_paste okP_copy okP_findUpdate pane_ok_findStep okP_receive okP_recomputeGrid okP_setFont pane_ok_engine)
qed

lemma okP_all: "pane_ok w \<Longrightarrow> list_all input_ok is \<Longrightarrow> okP (foldF (pane_do v) is w) pane_ok"
  by (rule okP_foldF) (auto simp: list_all_iff okP_do)

end
