(* ===== verification/Terminal_Input.thy ===== *)
theory Terminal_Input
  imports Terminal_Widget
begin

text \<open>
  What a terminal pane does: no access out of range in any run, the reports of a mouse drag, what a
  paste sends, what a search shows, what the selection of everything copies, and the session log.
\<close>

section \<open>Any run\<close>

lemma top_line_le: "pane_ok w \<Longrightarrow> topLine w \<le> scrollbackCount w"
  by (simp add: pane_ok_def topLine_def totalLines_def)

text \<open>C17: Whatever happens to a pane and in whatever order, no handler reads a cell, a line of the history or a
  search result that is not there, and what is then painted lies within history and screen.\<close>

theorem pane_safe:
  assumes "vt_new (pe_host v) (pe_vterm v) rows cols x = ok (sigs, s)" and "1 \<le> cw" and "1 \<le> cheight"
    and "list_all input_ok is"
  shows "okP (foldF (pane_do v) is (new_pane s cw cheight))
    (\<lambda>w. okP (paintEvent p hl width height w) (\<lambda>_. True) \<and> 0 \<le> topLine w \<and> topLine w \<le> scrollbackCount w)"
proof -
  have "pane_ok (new_pane s cw cheight)"
    using engine_ok_new [OF assms(1)] assms(2,3) by (simp add: pane_ok_def new_pane_def point_ok_def)
  from okP_all [OF this assms(4)] show ?thesis
    by (rule okP_mono) (auto simp: okP_paint_pane top_line_le top_line_nonneg)
qed

section \<open>Sending\<close>

definition sends :: "'v pane \<Rightarrow> bytes \<Rightarrow> pane_event" where
  "sends w b = (if w_handler w then ToHandler b else ToConnection b)"

definition listens :: "'v pane \<Rightarrow> bool" where
  "listens w \<longleftrightarrow> w_handler w \<or> w_conn w"

lemma sendInput_tells: "listens w \<Longrightarrow> sendInput b w = tell (sends w b) w"
  by (auto simp: sendInput_def feedInput_def sends_def listens_def)

lemma told [simp]:
  "w_out (tell e w) = w_out w @ [e]" "sends (tell e w) b = sends w b" "listens (tell e w) = listens w"
  "w_vt (tell e w) = w_vt w" "w_mouseBtn (tell e w) = w_mouseBtn w" "w_lastMouseCell (tell e w) = w_lastMouseCell w"
  "w_cellW (tell e w) = w_cellW w" "w_cellH (tell e w) = w_cellH w" "w_selecting (tell e w) = w_selecting w"
  "w_hasSelection (tell e w) = w_hasSelection w" "w_pasteDelayMs (tell e w) = w_pasteDelayMs w" "w_conn (tell e w) = w_conn w"
  "w_log (tell e w) = w_log w" "w_handler (tell e w) = w_handler w"
  by (simp_all add: tell_def sends_def listens_def)

section \<open>Dragging with the mouse\<close>

definition no_mods :: modifiers where
  "no_mods = \<lparr>shift_held = False, ctrl_held = False, alt_held = False\<rparr>"

text \<open>The report of a cell.\<close>

definition report :: "'v pane \<Rightarrow> int \<Rightarrow> bool \<Rightarrow> int \<times> int \<Rightarrow> pane_event" where
  "report w cb release cell = sends w (encodeMouseReport (m_mouseEncoding (modes w)) cb (fst cell) (snd cell) release)"

definition cell_of :: "'v pane \<Rightarrow> mouse_event \<Rightarrow> int \<times> int" where
  "cell_of w e = mouse_cell (e_x e) (e_y e) w"

lemma report_sent:
  assumes "mouseEnabled w" and "e_mods e = no_mods" and "listens w"
  shows "reportMouseIfEnabled e b release False w = (True, tell (report w b release (cell_of w e)) w)"
  using assms by (simp add: reportMouseIfEnabled_def Let_def no_mods_def sendMouseReport_def sendInput_tells report_def cell_of_def)

text \<open>A button is held that was reported: the pane reports every cell that is entered.\<close>

lemma move_held:
  assumes "m_mouseTracking (modes w) \<in> {ButtonEvent, AnyMotion}" and "e_mods e = no_mods" and "listens w" and "0 \<le> w_mouseBtn w"
    and "\<not> w_selecting w"
  shows "mouseMoveEvent e w =
    (if cell_of w e = w_lastMouseCell w then w
     else tell (report w (w_mouseBtn w + 32) False (cell_of w e)) (w\<lparr>w_lastMouseCell := cell_of w e\<rparr>))"
proof -
  have "listens (w\<lparr>w_lastMouseCell := c\<rparr>)" "sends (w\<lparr>w_lastMouseCell := c\<rparr>) b = sends w b" for c b
    using assms(3) by (simp_all add: listens_def sends_def)
  with assms show ?thesis
    by (auto simp: mouseMoveEvent_def reportMouseIfEnabled_def Let_def no_mods_def sendMouseReport_def sendInput_tells report_def cell_of_def)
qed

lemma cell_positive: "pane_ok w \<Longrightarrow> 1 \<le> fst (cell_of w e)"
  using screen_of_ok [of w] by (auto simp: cell_of_def mouse_cell_def clampI_def screen_ok_def)

lemma moves_held:
  assumes "m_mouseTracking (modes w) \<in> {ButtonEvent, AnyMotion}" and "list_all (\<lambda>e. e_mods e = no_mods) es" and "listens w" and "0 \<le> w_mouseBtn w"
    and "\<not> w_selecting w"
  shows "\<exists>w' l. foldF (pane_do v) (map Move es) w = ok w' \<and>
    w' = w\<lparr>w_lastMouseCell := l, w_out := w_out w @ map (report w (w_mouseBtn w + 32) False) (tl (remdups_adj (w_lastMouseCell w # map (cell_of w) es)))\<rparr>"
  using assms
proof (induction es arbitrary: w)
  case Nil
  show ?case by (rule exI [of _ w], rule exI [of _ "w_lastMouseCell w"]) simp
next
  case (Cons e es)
  let ?w1 = "mouseMoveEvent e w" and ?c = "cell_of w e"
  have w1: "?w1 = (if ?c = w_lastMouseCell w then w else tell (report w (w_mouseBtn w + 32) False ?c) (w\<lparr>w_lastMouseCell := ?c\<rparr>))"
    using Cons.prems by (intro move_held) simp_all
  have same: "report ?w1 b r c = report w b r c" "cell_of ?w1 x = cell_of w x" for b r c x
    unfolding w1 by (simp_all add: report_def sends_def cell_of_def mouse_cell_def)
  then have fs: "report ?w1 b r = report w b r" "cell_of ?w1 = cell_of w" for b r by (simp_all add: fun_eq_iff)
  have "\<exists>w' l. foldF (pane_do v) (map Move es) ?w1 = ok w' \<and>
      w' = ?w1\<lparr>w_lastMouseCell := l, w_out := w_out ?w1 @ map (report ?w1 (w_mouseBtn ?w1 + 32) False)
        (tl (remdups_adj (w_lastMouseCell ?w1 # map (cell_of ?w1) es)))\<rparr>"
    using Cons.prems w1 by (intro Cons.IH) (auto simp: listens_def)
  then obtain w' l where "foldF (pane_do v) (map Move es) ?w1 = ok w'"
    "w' = ?w1\<lparr>w_lastMouseCell := l, w_out := w_out ?w1 @ map (report w (w_mouseBtn ?w1 + 32) False)
        (tl (remdups_adj (w_lastMouseCell ?w1 # map (cell_of w) es)))\<rparr>" unfolding fs by blast
  then show ?case
    by (intro exI [of _ w'] exI [of _ l]) (auto simp: w1 tell_def remdups_adj_Cons [of ?c] split: list.split)
qed

text \<open>C26: While a program has asked for drags and nothing is being selected, pressing a button, moving and releasing the
  same button, all without a modifier key, tells the program the press, every cell entered on the way once, and the
  release, in this order. With Shift held at the release it is never told that, see \<open>shift_loses_release\<close>.\<close>

theorem drag_reported:
  assumes "pane_ok w" and "m_mouseTracking (modes w) \<in> {ButtonEvent, AnyMotion}" and "listens w" and "\<not> w_selecting w"
    and "list_all (\<lambda>e. e_mods e = no_mods) (e0 # es @ [e1])" and "e_button e0 = b" and "e_button e1 = b"
  shows "\<exists>w'. foldF (pane_do v) (Press e0 clip yes # map Move es @ [Release e1]) w = ok w' \<and> w_mouseBtn w' = - 1 \<and>
    w_out w' = w_out w @ [report w (buttonBaseCode b) False (cell_of w e0)] @
      map (report w (buttonBaseCode b + 32) False) (remdups_adj (map (cell_of w) es)) @
      [report w (buttonBaseCode b) True (cell_of w e1)]"
proof -
  let ?w1 = "(tell (report w (buttonBaseCode b) False (cell_of w e0)) w)\<lparr>w_mouseBtn := buttonBaseCode b, w_lastMouseCell := (- 1, - 1)\<rparr>"
  have on: "mouseEnabled w" using assms(2) by auto
  have press: "pane_do v (Press e0 clip yes) w = ok ?w1"
    using report_sent [OF on _ assms(3), of e0 "buttonBaseCode b" False] assms(5,6)
    by (simp add: mousePressEvent_def press_button_def no_mods_def Let_def)
  have f: "report ?w1 c r = report w c r" "cell_of ?w1 = cell_of w" "listens ?w1" "0 \<le> w_mouseBtn ?w1" "w_mouseBtn ?w1 = buttonBaseCode b" for c r
    using assms(3) by (auto simp: report_def sends_def cell_of_def mouse_cell_def listens_def fun_eq_iff buttonBaseCode_def split: button.split)
  have "\<exists>w2 l. foldF (pane_do v) (map Move es) ?w1 = ok w2 \<and>
      w2 = ?w1\<lparr>w_lastMouseCell := l, w_out := w_out ?w1 @ map (report ?w1 (w_mouseBtn ?w1 + 32) False)
        (tl (remdups_adj (w_lastMouseCell ?w1 # map (cell_of ?w1) es)))\<rparr>"
    using assms(2,4,5) f(3,4) by (intro moves_held) simp_all
  then obtain w2 l where w2: "foldF (pane_do v) (map Move es) ?w1 = ok w2"
    "w2 = ?w1\<lparr>w_lastMouseCell := l, w_out := w_out ?w1 @ map (report w (buttonBaseCode b + 32) False)
        (tl (remdups_adj ((- 1, - 1) # map (cell_of w) es)))\<rparr>" unfolding f by auto
  have "(- 1, - 1) \<noteq> cell_of w x" for x using cell_positive [OF assms(1), of x] by (cases "cell_of w x") auto
  then have "tl (remdups_adj ((- 1, - 1) # map (cell_of w) es)) = remdups_adj (map (cell_of w) es)"
    by (cases es) simp_all
  then have out2: "w_out w2 = w_out w @ [report w (buttonBaseCode b) False (cell_of w e0)] @
      map (report w (buttonBaseCode b + 32) False) (remdups_adj (map (cell_of w) es))" by (simp add: w2(2))
  have g: "report w2 c r = report w c r" "cell_of w2 = cell_of w" "mouseEnabled w2" "listens w2" "0 \<le> w_mouseBtn w2" for c r
    using on f assms(3) by (auto simp: w2(2) report_def sends_def cell_of_def mouse_cell_def listens_def fun_eq_iff)
  have rel: "pane_do v (Release e1) w2 = ok ((tell (report w (buttonBaseCode b) True (cell_of w e1)) w2)\<lparr>w_mouseBtn := - 1\<rparr>)"
    using report_sent [OF g(3) _ g(4), of e1 "buttonBaseCode b" True] g assms(5,7) by (simp add: mouseReleaseEvent_def)
  show ?thesis
    using press w2(1) rel out2 by (simp add: foldF_append)
qed

section \<open>Pasting\<close>

fun event_bytes :: "pane_event \<Rightarrow> bytes" where
  "event_bytes (ToConnection b) = b"
| "event_bytes (ToHandler b) = b"
| "event_bytes (AfterMs n b) = b"
| "event_bytes e = []"

text \<open>When an event is delivered: at once, or when its timer ends.\<close>

fun event_time :: "pane_event \<Rightarrow> int" where
  "event_time (AfterMs n b) = n"
| "event_time e = - 1"

lemma line_feed_bytes:
  assumes "utf8_laws h"
  shows "toUtf8 h (x @ line_feed # y) = toUtf8 h x @ 10 # toUtf8 h y"
proof -
  have cat: "toUtf8 h (a @ b) = toUtf8 h a @ toUtf8 h b" for a b using assms by (simp add: utf8_laws_def)
  have "ascii [line_feed]" "to_latin1 [line_feed] = [10]" by code_simp+
  with assms have "toUtf8 h [line_feed] = [10]" by (simp add: utf8_laws_def)
  with cat [of x "[line_feed] @ y"] cat [of "[line_feed]" y] show ?thesis by simp
qed

definition paste_chunk :: "host \<Rightarrow> string list \<Rightarrow> nat \<Rightarrow> bytes" where
  "paste_chunk h parts i = toUtf8 h (parts ! i) @ (if i + 1 < length parts then [10] else [])"

lemma paste_chunks:
  assumes "utf8_laws h"
  shows "parts \<noteq> [] \<Longrightarrow> concat (map (paste_chunk h parts) [0..<length parts]) = toUtf8 h (join_with [line_feed] parts)"
proof (induction parts rule: induct_list012)
  case (3 x y ys)
  have "map (paste_chunk h (x # y # ys)) [0..<length (x # y # ys)] =
      (toUtf8 h x @ [10]) # map (paste_chunk h (y # ys)) [0..<length (y # ys)]"
    by (simp add: map_upt_Suc paste_chunk_def del: upt_Suc)
  then show ?case
    using 3 line_feed_bytes [OF assms, of x] by (simp del: upt_Suc)
qed (simp_all add: paste_chunk_def)

lemma timers:
  "w_out (fold (\<lambda>i. tell (AfterMs (t i) (c i))) is w) = w_out w @ map (\<lambda>i. AfterMs (t i) (c i)) is"
  by (induction "is" arbitrary: w) simp_all

lemma asked_lines:
  assumes "clip \<noteq> []"
  shows "line_feed \<in> set clip \<and> 1 < length (filter (\<lambda>c. c = line_feed) clip) + (if last clip = line_feed then 0 else 1) \<longleftrightarrow>
    line_feed \<in> set (butlast clip)"
proof -
  obtain xs c where "clip = xs @ [c]" using assms by (metis append_butlast_last_id)
  then show ?thesis by (cases "c = line_feed") (auto simp: filter_empty_conv)
qed

lemma increasing: "0 < m \<Longrightarrow> sorted_wrt (\<lambda>e f. event_time e < event_time f) (map (\<lambda>i. AfterMs (int i * m) (c i)) [0..<n])"
  by (simp add: sorted_wrt_map sorted_wrt_iff_nth_less)

definition in_order :: "pane_event list \<Rightarrow> bool" where
  "in_order es \<longleftrightarrow> sorted_wrt (\<lambda>e f. event_time e < event_time f \<or> event_time e = - 1) es"

lemma deliver_delivers:
  assumes "utf8_laws h" and "listens w"
  shows "\<exists>es. w_out (deliver_paste h clip w) = w_out w @ es \<and> in_order es \<and>
    concat (map event_bytes es) = (if m_bracketedPaste (modes w) then paste_open @ toUtf8 h clip @ paste_close else toUtf8 h clip)"
proof -
  define br ms where "br = m_bracketedPaste (modes w)" and "ms = w_pasteDelayMs w"
  define begins where "begins = (if br then [sends w paste_open] else [])"
  define parts where "parts = split_on line_feed clip"
  define timed where "timed = map (\<lambda>i. AfterMs (int i * ms) (paste_chunk h parts i)) [0..<length parts]"
  define w1 where "w1 = (if br then sendInput paste_open (w\<lparr>w_scrollOffset := 0\<rparr>) else w\<lparr>w_scrollOffset := 0\<rparr>)"
  have w1: "listens w1" "w_out w1 = w_out w @ begins" "sends w1 b = sends w b" for b
    using assms(2) by (auto simp: w1_def sendInput_tells begins_def listens_def sends_def)
  have one: "event_bytes (sends w b) = b" "event_time (sends w b) = - 1" for b by (simp_all add: sends_def)
  have run: "deliver_paste h clip w =
      (if 0 < ms \<and> line_feed \<in> set clip then
         let w = fold (\<lambda>i. tell (AfterMs (int i * ms) (paste_chunk h parts i))) [0..<length parts] w1
         in if br then tell (AfterMs (int (length parts) * ms) paste_close) w else w
       else let w = sendInput (toUtf8 h clip) w1 in if br then sendInput paste_close w else w)"
    by (simp add: deliver_paste_def Let_def br_def ms_def parts_def paste_chunk_def w1_def)
  show ?thesis
  proof (cases "0 < ms \<and> line_feed \<in> set clip")
    case True
    let ?es = "begins @ timed @ (if br then [AfterMs (int (length parts) * ms) paste_close] else [])"
    have "w_out (deliver_paste h clip w) = w_out w @ ?es"
      unfolding run using True w1(2) by (simp add: Let_def timers timed_def)
    moreover have "concat (map event_bytes timed) = toUtf8 h clip"
      using paste_chunks [OF assms(1), of parts] by (simp add: timed_def parts_def comp_def join_split)
    moreover have "in_order timed"
      unfolding in_order_def timed_def by (rule sorted_wrt_mono_rel [OF _ increasing]) (use True in simp_all)
    then have "in_order ?es" using True by (auto simp: in_order_def sorted_wrt_append begins_def one timed_def)
    ultimately show ?thesis by (auto simp: begins_def one br_def)
  next
    case False
    let ?es = "begins @ sends w (toUtf8 h clip) # (if br then [sends w paste_close] else [])"
    have "w_out (deliver_paste h clip w) = w_out w @ ?es"
      unfolding run using False w1 by (auto simp: Let_def sendInput_tells)
    moreover have "in_order ?es" by (simp add: in_order_def begins_def one)
    ultimately show ?thesis by (auto simp: begins_def one br_def)
  qed
qed

lemma paste_done:
  assumes "w_conn w" and "clip \<noteq> []"
  shows "paste h clip confirm w =
    (if \<not> m_bracketedPaste (modes w) \<and> line_feed \<in> set (butlast clip) \<and> \<not> confirm then w else deliver_paste h clip w)"
  using asked_lines [OF assms(2)] assms by (auto simp: paste_def Let_def split: if_splits)

text \<open>A button that is released with Shift held: the program is not told.\<close>

lemma shift_loses_release:
  assumes "0 \<le> w_mouseBtn w" and "mouseEnabled w" and "shift_held (e_mods e)"
  shows "mouseReleaseEvent e w = ok (w\<lparr>w_mouseBtn := - 1\<rparr>)"
  using assms by (simp add: mouseReleaseEvent_def reportMouseIfEnabled_def)

text \<open>C29: Pasting asks first if there is a line feed before the end and the program has not asked for bracketed
  pastes; otherwise, and if the answer is yes, exactly the text is delivered, in order and between the brackets if
  they are asked for, at once or, with a delay, by timers of which each ends after the one before.\<close>

theorem paste_delivers:
  assumes "utf8_laws h" and "w_conn w" and "clip \<noteq> []"
  shows "\<exists>es. w_out (paste h clip confirm w) = w_out w @ es \<and> in_order es \<and>
    concat (map event_bytes es) =
      (if m_bracketedPaste (modes w) then paste_open @ toUtf8 h clip @ paste_close
       else if line_feed \<in> set (butlast clip) \<and> \<not> confirm then [] else toUtf8 h clip)"
proof (cases "\<not> m_bracketedPaste (modes w) \<and> line_feed \<in> set (butlast clip) \<and> \<not> confirm")
  case True
  then show ?thesis using paste_done [OF assms(2,3)] by (simp add: in_order_def)
next
  case False
  then have "paste h clip confirm w = deliver_paste h clip w" by (simp only: paste_done [OF assms(2,3)] False if_False)
  with deliver_delivers [OF assms(1), of w clip] assms(2) False show ?thesis by (auto simp: listens_def)
qed

text \<open>The end of a bracketed paste is the first closing bracket, wherever it comes from: a text that
  holds one is typed from there on.\<close>

lemma paste_breaks_out:
  assumes "utf8_laws h" and "w_conn w" and "m_bracketedPaste (modes w)" and "toUtf8 h clip = a @ paste_close @ cmd"
    and "clip \<noteq> []"
  shows "\<exists>es. w_out (paste h clip confirm w) = w_out w @ es \<and>
    concat (map event_bytes es) = paste_open @ a @ paste_close @ cmd @ paste_close"
  using deliver_delivers [OF assms(1), of w clip] paste_done [OF assms(2,5)] assms(2-4) by (auto simp: listens_def)

section \<open>Lines as they are read\<close>

text \<open>What \<open>cellAt\<close> finds, without its checks.\<close>

definition cell_value :: "'v pane \<Rightarrow> int \<Rightarrow> int \<Rightarrow> Cell option" where
  "cell_value w line col =
     (if line < scrollbackCount w then
        let cells = m_scrollback (w_vt w) ! nat line in if col < int (length cells) then Some (cells ! nat col) else None
      else let r = line - scrollbackCount w
           in if pane_rows w \<le> r \<or> pane_cols w \<le> col then None
              else Some (m_cells (w_screen w) ! (nat r * m_cols (w_screen w) + nat col)))"

lemma cellAt_value:
  assumes "pane_ok w" and "0 \<le> col" and "0 \<le> line"
  shows "cellAt w line col = ok (cell_value w line col)"
proof -
  have "nat (line - scrollbackCount w) * m_cols (w_screen w) + nat col < length (m_cells (w_screen w))"
    if "line - scrollbackCount w \<ge> 0" "line - scrollbackCount w < pane_rows w" "col < pane_cols w"
    using that assms(2) by (intro screen_index [OF screen_of_ok [OF assms(1)]]) linarith+
  then show ?thesis
    using assms(2,3) by (auto simp: cellAt_def cell_value_def Let_def nthF_def screen_at_def)
qed

definition unit_of :: "Cell option \<Rightarrow> u16" where
  "unit_of cell = (case cell of None \<Rightarrow> 32 | Some x \<Rightarrow> if ch x \<noteq> 0 then cellUnit (ch x) else 32)"

lemma foldF_cells:
  assumes "pane_ok w" and "0 \<le> line" and "\<forall>c \<in> set cs. 0 \<le> f c"
  shows "foldF (\<lambda>c s. bindF (cellAt w line (f c)) (\<lambda>cell. ok (g cell s))) cs a = ok (fold (\<lambda>c. g (cell_value w line (f c))) cs a)"
  using assms(3) by (induction cs arbitrary: a) (simp_all add: cellAt_value [OF assms(1) _ assms(2)])

lemma lineText_value:
  assumes "pane_ok w" and "0 \<le> line"
  shows "lineText w line = ok (map (\<lambda>c. unit_of (cell_value w line (int c))) [0..<m_cols (w_screen w)])"
proof -
  have "fold (\<lambda>c s. s @ [f c]) cs a = a @ map f cs" for f :: "nat \<Rightarrow> u16" and cs a by (induction cs arbitrary: a) simp_all
  then show ?thesis
    using foldF_cells [OF assms, of "[0..<m_cols (w_screen w)]" int "\<lambda>cell s. s @ [unit_of cell]" "[]"]
    by (simp add: lineText_def unit_of_def)
qed

section \<open>Searching\<close>

definition line_units :: "'v pane \<Rightarrow> nat \<Rightarrow> text16" where
  "line_units w l = map (\<lambda>c. unit_of (cell_value w (int l) (int c))) [0..<m_cols (w_screen w)]"

lemma all_lines:
  assumes "pane_ok w"
  shows "foldF (\<lambda>l ls. bindF (lineText w l) (\<lambda>t. ok (ls @ [t]))) [0..totalLines w - 1] [] = ok (map (line_units w) [0..<nat (totalLines w)])"
proof -
  have "[0..totalLines w - 1] = map int [0..<nat (totalLines w)]"
    by (rule nth_equalityI) (auto simp: totalLines_def)
  moreover have "foldF (\<lambda>l ls. bindF (lineText w l) (\<lambda>t. ok (ls @ [t]))) (map int ls) acc = ok (acc @ map (line_units w) ls)" for ls acc
    by (induction ls arbitrary: acc) (simp_all add: lineText_value [OF assms] line_units_def)
  ultimately show ?thesis by simp
qed

text \<open>The newest match: in the last line that has one, the last.\<close>

lemma find_matches_in:
  assumes "(x, y) \<in> set (findMatches fc ls q)"
  shows "y < length ls \<and> x < length (ls ! y) \<and> occurs_at fc q (ls ! y) x"
  using assms by (auto simp: findMatches_def matches_from_filter split: if_splits)

lemma reveal_shows:
  assumes "pane_ok w" and "0 \<le> i" and "i < int (length (w_findMatches w))" and "w_findMatches w ! nat i = (x, y)" and "int y < totalLines w"
  shows "let w' = findReveal i w in
    w_hasSelection w' \<and> w_selAnchor w' = (int x, int y) \<and> w_selHead w' = (int x + int (w_findLen w), int y) \<and>
    topLine w' \<le> int y \<and> int y < topLine w' + pane_rows w'"
proof -
  have rows: "1 \<le> pane_rows w" using screen_of_ok [OF assms(1)] by (simp add: screen_ok_def)
  then have half: "0 \<le> pane_rows w sdiv 2" "pane_rows w sdiv 2 < pane_rows w"
    by (auto simp: signed_divide_int_def sgn_if)
  let ?n = "totalLines w - pane_rows w - int y + pane_rows w sdiv 2"
  define w1 where "w1 = scroll_to ?n (w\<lparr>w_selAnchor := (int x, int y), w_selHead := (int x + int (w_findLen w), int y), w_hasSelection := True\<rparr>)"
  have w': "findReveal i w = w1" using assms(2-4) by (simp add: findReveal_def w1_def)
  have f: "w_vt w1 = w_vt w" "w_hasSelection w1" "w_selAnchor w1 = (int x, int y)" "w_selHead w1 = (int x + int (w_findLen w), int y)"
    "w_scrollOffset w1 = clampI ?n 0 (scrollbackCount w)"
    by (simp_all add: w1_def scroll_to_def)
  have "topLine w1 \<le> int y \<and> int y < topLine w1 + pane_rows w"
    using half rows assms(5) by (auto simp: topLine_def totalLines_def f clampI_def)
  then show ?thesis by (simp add: w' f Let_def)
qed

text \<open>A search that finds something selects the newest place where the text stands, ignoring case, and
  scrolls until its line is on the screen; one that finds nothing clears the selection.\<close>

theorem search_shows_newest:
  assumes "pane_ok w" and "q \<noteq> []" and "findUpdate fc q w = ok w'"
  shows "case w_findMatches w' of
      [] \<Rightarrow> \<not> w_hasSelection w' \<and> (\<forall>l < nat (totalLines w). \<forall>x < m_cols (w_screen w). \<not> occurs_at fc q (line_units w l) x)
    | m # ms \<Rightarrow> let (x, y) = last (m # ms) in
        occurs_at fc q (line_units w y) x \<and> w_hasSelection w' \<and> w_selAnchor w' = (int x, int y) \<and>
        w_selHead w' = (int x + int (length q), int y) \<and> topLine w' \<le> int y \<and> int y < topLine w' + pane_rows w'"
proof -
  let ?ls = "map (line_units w) [0..<nat (totalLines w)]" and ?ms = "findMatches fc (map (line_units w) [0..<nat (totalLines w)]) q"
  define w1 where "w1 = w\<lparr>w_findLen := length q, w_findMatches := ?ms, w_findIndex := int (length ?ms) - 1\<rparr>"
  have w': "w' = (if ?ms \<noteq> [] then findReveal (int (length ?ms) - 1) w1
      else w\<lparr>w_findIndex := - 1, w_findLen := length q, w_findMatches := [], w_hasSelection := False\<rparr>)"
    using assms(3) by (auto simp: findUpdate_def all_lines [OF assms(1)] Let_def w1_def)
  show ?thesis
  proof (cases ?ms)
    case Nil
    have "\<not> occurs_at fc q (line_units w l) x" if "l < nat (totalLines w)" "x < m_cols (w_screen w)" for l x
    proof
      assume "occurs_at fc q (line_units w l) x"
      with that assms(2) have "(x, l) \<in> set ?ms"
        by (auto simp: findMatches_def matches_from_filter line_units_def intro!: bexI [of _ l])
      with Nil show False by simp
    qed
    with Nil show ?thesis by (simp add: w')
  next
    case (Cons m ms)
    obtain x y where l: "last ?ms = (x, y)" by fastforce
    have in_ms: "(x, y) \<in> set ?ms" using last_in_set [of ?ms] Cons l by simp
    have y: "y < nat (totalLines w)" using find_matches_in [OF in_ms] by simp
    have "occurs_at fc q (?ls ! y) x" using find_matches_in [OF in_ms] by blast
    with y have occ: "occurs_at fc q (line_units w y) x" by simp
    have "- 1 < int (length ?ms) - 1" using Cons by simp
    then have ok1: "pane_ok w1" using assms(1) Cons by (simp add: w1_def pane_ok_def)
    have "?ms ! (length ?ms - 1) = (x, y)" using l last_conv_nth [of ?ms] Cons by (metis list.distinct(1))
    moreover have "nat (int n - 1) = n - 1" for n by linarith
    ultimately have at: "w_findMatches w1 ! nat (int (length ?ms) - 1) = (x, y)" by (simp only: w1_def) simp
    have same: "totalLines w1 = totalLines w" "w_findMatches (findReveal i w1) = ?ms" "w_findLen w1 = length q" for i
      by (simp_all add: w1_def totalLines_def findReveal_def scroll_to_def case_prod_unfold Let_def)
    have "let w' = findReveal (int (length ?ms) - 1) w1 in
        w_hasSelection w' \<and> w_selAnchor w' = (int x, int y) \<and> w_selHead w' = (int x + int (w_findLen w1), int y) \<and>
        topLine w' \<le> int y \<and> int y < topLine w' + pane_rows w'"
      using Cons y by (intro reveal_shows [OF ok1 _ _ at]) (auto simp: w1_def totalLines_def)
    then show ?thesis
      using Cons l occ by (simp add: w' same Let_def)
  qed
qed

section \<open>Selecting everything\<close>

definition row_text :: "'v pane \<Rightarrow> nat \<Rightarrow> nat \<Rightarrow> text16" where
  "row_text w n l = chop_trailing (\<lambda>u. u = 32)
     (concat (map (\<lambda>c. case cell_value w (int l) (int c) of Some x \<Rightarrow> codePointString (ch x) | None \<Rightarrow> [32]) [0..<n]))"

lemma append_code_point: "appendCodePoint row cp = row @ codePointString cp"
  by (simp add: codePointString_def appendCodePoint_def)

lemma selected_row_value:
  assumes "pane_ok w"
  shows "selected_row w (int l) 0 (int n) = ok (row_text w n l)"
proof -
  have "[0..int n - 1] = map int [0..<n]" by (rule nth_equalityI) auto
  moreover have "foldF (\<lambda>c row. bindF (cellAt w (int l) c) (\<lambda>cell.
      ok (case cell of Some x \<Rightarrow> appendCodePoint row (ch x) | None \<Rightarrow> row @ [32]))) (map int cs) acc =
    ok (acc @ concat (map (\<lambda>c. case cell_value w (int l) (int c) of Some x \<Rightarrow> codePointString (ch x) | None \<Rightarrow> [32]) cs))" for cs acc
    by (induction cs arbitrary: acc) (simp_all add: cellAt_value [OF assms] append_code_point split: option.split)
  ultimately show ?thesis by (simp add: selected_row_def row_text_def)
qed

text \<open>Selecting everything copies every line of history and screen without its trailing blanks,
  separated by line feeds, but of the last line all columns except the last.\<close>

theorem select_all_text:
  assumes "pane_ok w"
  shows "selectedText (selectAll w) =
    ok (join_with [10] (map (row_text w (m_cols (w_screen w))) [0..<nat (totalLines w) - 1] @
      [row_text w (m_cols (w_screen w) - 1) (nat (totalLines w) - 1)]))"
proof -
  define n where "n = nat (totalLines w) - 1"
  define w' where "w' = selectAll w"
  have size: "1 \<le> pane_rows w" "1 \<le> pane_cols w" using screen_of_ok [OF assms] by (simp_all add: screen_ok_def)
  then have n: "totalLines w = int n + 1" by (simp add: n_def totalLines_def)
  have w': "w_hasSelection w'" "w_selAnchor w' = (0, 0)" "w_selHead w' = (pane_cols w - 1, int n)" "w_vt w' = w_vt w"
    using size n by (simp_all add: w'_def selectAll_def)
  have ok': "pane_ok w'" using okP_do [OF assms, of SelectAllAction] by (simp add: w'_def)
  have "cell_value w' = cell_value w" by (simp add: cell_value_def w'(4) fun_eq_iff Let_def)
  then have vals: "row_text w' m l = row_text w m l" for m l by (simp add: row_text_def)
  have sel: "ordered_selection w' = ((0, 0), (pane_cols w - 1, int n))" using size by (simp add: ordered_selection_def w')
  define body where "body = (\<lambda>line t. bindF (selected_row w' line 0 (if line = int n then pane_cols w - 1 else pane_cols w))
      (\<lambda>row. ok (t @ row @ (if line \<noteq> int n then [10] else []))))"
  have "selected_row w' (int n) 0 (pane_cols w - 1) = ok (row_text w (m_cols (w_screen w) - 1) n)"
    using selected_row_value [OF ok', of n "m_cols (w_screen w) - 1"] size by (simp add: vals of_nat_diff)
  then have last: "body (int n) t = ok (t @ row_text w (m_cols (w_screen w) - 1) n)" for t by (simp add: body_def)
  have "body (int l) t = ok (t @ row_text w (m_cols (w_screen w)) l @ [10])" if "l < n" for l t
    using that by (simp add: body_def selected_row_value [OF ok'] vals)
  then have others: "foldF body (map int ls) acc = ok (acc @ concat (map (\<lambda>l. row_text w (m_cols (w_screen w)) l @ [10]) ls))"
    if "\<forall>l \<in> set ls. l < n" for ls acc
    using that by (induction ls arbitrary: acc) simp_all
  have joined: "join_with [10] (map f ls @ [z]) = concat (map (\<lambda>l. f l @ [10]) ls) @ z" for f :: "nat \<Rightarrow> text16" and ls z
    by (induction ls) (simp_all add: join_with_Cons)
  have upto: "[0..int n] = map int [0..<n] @ [int n]"
    by (rule nth_equalityI) (auto simp: nth_append less_Suc_eq)
  have "selectedText w' = foldF body [0..int n] []"
    using w'(1) sel by (simp add: selectedText_def body_def w'(4) cong: if_cong)
  also have "\<dots> = ok (concat (map (\<lambda>l. row_text w (m_cols (w_screen w)) l @ [10]) [0..<n]) @ row_text w (m_cols (w_screen w) - 1) n)"
    by (simp only: upto foldF_append others [of "[0..<n]"]) (simp add: others last)
  finally show ?thesis unfolding w'_def n_def joined .
qed

section \<open>The session log\<close>

definition keeps_log :: "pane_input \<Rightarrow> bool" where
  "keeps_log i \<longleftrightarrow> (case i of LogTo _ _ \<Rightarrow> False | LogStop \<Rightarrow> False | _ \<Rightarrow> True)"

fun data_of :: "pane_input \<Rightarrow> bytes" where
  "data_of (Data b) = b"
| "data_of i = []"

lemma log_report: "reportMouseIfEnabled e b release motion w = (r, w') \<Longrightarrow> w_log w' = w_log w"
  by (auto simp: reportMouseIfEnabled_def Let_def sendMouseReport_def sendInput_def feedInput_def split: if_splits)

lemma log_kept [simp]:
  "w_log (feedInput b w) = w_log w" "w_log (sendInput b w) = w_log w" "w_log (scroll_to n w) = w_log w"
  "w_log (snd (reportMouseIfEnabled e cb release motion w)) = w_log w"
  by (simp_all add: feedInput_def sendInput_def scroll_to_def log_report [OF prod.collapse [symmetric]])

lemma log_folds [simp]:
  "w_log (fold (\<lambda>i. tell (f i)) is w) = w_log w" "w_log ((sendMouseReport cb c r False ^^ n) w) = w_log w"
  "w_log (fold on_signal sigs w) = w_log w"
proof -
  show "w_log (fold (\<lambda>i. tell (f i)) is w) = w_log w" by (induction "is" arbitrary: w) simp_all
  show "w_log ((sendMouseReport cb c r False ^^ n) w) = w_log w" by (induction n) (simp_all add: sendMouseReport_def)
  show "w_log (fold on_signal sigs w) = w_log w"
  proof (induction sigs arbitrary: w)
    case (Cons s sigs)
    then show ?case by (cases s) simp_all
  qed simp
qed

lemma log_handlers [simp]:
  "w_log (paste h clip confirm w) = w_log w" "w_log (press_button h clip confirm e w) = w_log w"
  "w_log (mouseMoveEvent e w) = w_log w" "w_log (wheelEvent e angle w) = w_log w" "w_log (findReveal i w) = w_log w"
  by (auto simp: paste_def deliver_paste_def press_button_def mouseMoveEvent_def wheelEvent_def findReveal_def Let_def case_prod_unfold)

lemma log_copy: "copySelection w = ok w' \<Longrightarrow> w_log w' = w_log w"
  by (auto simp: copySelection_def bindF_eq_ok_iff)

lemma log_resize: "recomputeGrid h vt width height w = ok w' \<Longrightarrow> w_log w' = w_log w"
  by (auto simp: recomputeGrid_def Let_def case_prod_unfold bindF_eq_ok_iff)

lemma log_step:
  assumes "pane_do v i w = ok w'" and "keeps_log i"
  shows "w_log w' = map_option (\<lambda>l. l @ data_of i) (w_log w)"
proof (cases "\<exists>b. i = Data b")
  case True
  then show ?thesis using assms(1) by (auto simp: receive_def Let_def case_prod_unfold bindF_eq_ok_iff)
next
  case False
  then have "data_of i = []" by (cases i) simp_all
  moreover have "w_log w' = w_log w"
    using assms False log_copy [of _ w'] log_resize [of _ _ _ _ _ w']
    by (cases i) (auto simp: keeps_log_def keyPressEvent_def mousePressEvent_def mouseReleaseEvent_def inputMethodEvent_def selectAll_def
      clearHistory_def findUpdate_def findStep_def findClose_def setTerminalFont_def startLogging_def Let_def case_prod_unfold bindF_eq_ok_iff split: if_splits)
  ultimately show ?thesis by (simp add: option.map_ident)
qed

text \<open>While a log is open it is given exactly the bytes that arrive, all of them and in order, whatever else
  happens to the pane.\<close>

theorem log_holds_data:
  assumes "foldF (pane_do v) is w = ok w'" and "list_all keeps_log is" and "w_log w = Some b"
  shows "w_log w' = Some (b @ concat (map data_of is))"
  using assms
proof (induction "is" arbitrary: w b)
  case (Cons i "is")
  then obtain w1 where "pane_do v i w = ok w1" "foldF (pane_do v) is w1 = ok w'" by (auto simp: bindF_eq_ok_iff)
  with Cons log_step [OF this(1)] show ?case by simp
qed simp

section \<open>Examples\<close>

definition demo_env :: "unit pane_env" where
  "demo_env = \<lparr>pe_host = demo_host, pe_mac = False, pe_vterm = demo_vterm, pe_urlPath = id, pe_url = (\<lambda>_ _. []), pe_fold = id\<rparr>"

definition demo_line :: "string \<Rightarrow> Cell list" where
  "demo_line t = map (\<lambda>c. blank_cell\<lparr>ch := of_nat (of_char c)\<rparr>) t"

text \<open>One line of history and a screen of one row, with drags and bracketed pastes asked for.\<close>

definition demo_pane :: "unit pane" where
  "demo_pane = (new_pane (demo_engine\<lparr>m_screen := \<lparr>m_rows = 1, m_cols = 3, m_cells = demo_line ''ab ''\<rparr>, m_scrollback := [demo_line ''xab''],
       m_sbWrapped := [False],
       m_csi := \<lparr>m_csiState = 0, m_csiParams = [],
         m_modes = \<lparr>m_bracketedPaste = True, m_mouseTracking = ButtonEvent, m_mouseEncoding = Sgr\<rparr>\<rparr>\<rparr>) 8 16)\<lparr>w_conn := True\<rparr>"

lemma demo_pane_ok: "pane_ok demo_pane"
  by (simp add: pane_ok_def demo_pane_def new_pane_def engine_ok_def screen_ok_def point_ok_def demo_engine_def demo_line_def)

definition demo_mouse :: "int \<Rightarrow> mouse_event" where
  "demo_mouse x = \<lparr>e_x = x, e_y = 3, e_button = LeftButton, e_mods = no_mods\<rparr>"

theorem pane_safe_witness:
  "\<exists>sigs s. vt_new demo_host demo_vterm 2 3 () = ok (sigs, s) \<and>
     okP (foldF (pane_do demo_env) [Attached, Data [65, 66], Resized 300 (- 5), Press (demo_mouse 400) [] True, Release (demo_mouse 0), FindText [65]]
       (new_pane s 8 16)) (\<lambda>w. 0 \<le> topLine w)"
proof -
  obtain sigs s where new: "vt_new demo_host demo_vterm 2 3 () = ok (sigs, s)"
    by (simp add: vt_new_def screen_resize_def intOp_def fitsInt_def at_least_1_def demo_vterm_def)
  let ?is = "[Attached, Data [65, 66], Resized 300 (- 5), Press (demo_mouse 400) [] True, Release (demo_mouse 0), FindText [65]]"
  have v: "pe_host demo_env = demo_host" "pe_vterm demo_env = demo_vterm" by (simp_all add: demo_env_def)
  have "list_all input_ok ?is" by (simp add: window_ok_def)
  with pane_safe [of demo_env 2 3 "()" sigs s 8 16 ?is] new
  have "okP (foldF (pane_do demo_env) ?is (new_pane s 8 16)) (\<lambda>w. okP (paintEvent p hl width height w) (\<lambda>_. True) \<and>
      0 \<le> topLine w \<and> topLine w \<le> scrollbackCount w)" for p hl width height
    unfolding v by fastforce
  then have "okP (foldF (pane_do demo_env) ?is (new_pane s 8 16)) (\<lambda>w. 0 \<le> topLine w)" by (rule okP_mono) blast
  with new show ?thesis by blast
qed

theorem drag_reported_witness:
  "\<exists>w'. foldF (pane_do demo_env) [Press (demo_mouse 1) [] True, Move (demo_mouse 2), Move (demo_mouse 9), Move (demo_mouse 10), Release (demo_mouse 10)] demo_pane = ok w' \<and>
     w_out w' = [report demo_pane 0 False (1, 1), report demo_pane 32 False (1, 1), report demo_pane 32 False (2, 1), report demo_pane 0 True (2, 1)]"
proof -
  have on: "m_mouseTracking (modes demo_pane) \<in> {ButtonEvent, AnyMotion}" "listens demo_pane" "\<not> w_selecting demo_pane"
    "list_all (\<lambda>e. e_mods e = no_mods) (demo_mouse 1 # [demo_mouse 2, demo_mouse 9, demo_mouse 10] @ [demo_mouse 10])"
    by (simp_all add: demo_pane_def new_pane_def demo_mouse_def listens_def)
  have cells: "cell_of demo_pane (demo_mouse 1) = (1, 1)" "cell_of demo_pane (demo_mouse 2) = (1, 1)"
    "cell_of demo_pane (demo_mouse 9) = (2, 1)" "cell_of demo_pane (demo_mouse 10) = (2, 1)" by code_simp+
  have "w_out demo_pane = []" by (simp add: demo_pane_def new_pane_def)
  with drag_reported [OF demo_pane_ok on, of LeftButton demo_env "[]" True] cells
  show ?thesis by (simp add: demo_mouse_def buttonBaseCode_def) (metis)
qed

theorem paste_delivers_witness:
  "\<exists>es. w_out (paste demo_host [CHR ''a'', line_feed, CHR ''b''] False demo_pane) = es \<and>
     concat (map event_bytes es) = paste_open @ [97, 10, 98] @ paste_close"
proof -
  have "w_conn demo_pane" "m_bracketedPaste (modes demo_pane)" "w_out demo_pane = []" "utf8_laws demo_host"
    by (simp_all add: demo_pane_def new_pane_def utf8_laws_def demo_host_def comp_def)
  moreover have "toUtf8 demo_host [CHR ''a'', line_feed, CHR ''b''] = [97, 10, 98]" by code_simp
  ultimately show ?thesis using paste_delivers [of demo_host demo_pane "[CHR ''a'', line_feed, CHR ''b'']" False] by auto
qed

theorem search_shows_newest_witness:
  "\<exists>w'. findUpdate id [97, 98] demo_pane = ok w' \<and> w_findMatches w' = [(1, 0), (0, 1)] \<and> w_selAnchor w' = (0, 1) \<and> w_selHead w' = (2, 1)"
proof -
  have "case findUpdate id [97, 98] demo_pane of Inl _ \<Rightarrow> False | Inr w' \<Rightarrow> w_findMatches w' = [(1, 0), (0, 1)]" by code_simp
  then obtain w' where w': "findUpdate id [97, 98] demo_pane = ok w'" "w_findMatches w' = [(1, 0), (0, 1)]" by (auto split: sum.splits)
  from search_shows_newest [OF demo_pane_ok _ w'(1)] w'(2) have "w_selAnchor w' = (0, 1) \<and> w_selHead w' = (2, 1)" by simp
  with w' show ?thesis by blast
qed

theorem select_all_text_witness: "selectedText (selectAll demo_pane) = ok [120, 97, 98, 10, 97, 98]"
proof -
  have "join_with [10] (map (row_text demo_pane (m_cols (w_screen demo_pane))) [0..<nat (totalLines demo_pane) - 1] @
      [row_text demo_pane (m_cols (w_screen demo_pane) - 1) (nat (totalLines demo_pane) - 1)]) = [120, 97, 98, 10, 97, 98]" by code_simp
  with select_all_text [OF demo_pane_ok] show ?thesis by simp
qed

theorem log_holds_data_witness:
  "okP (foldF (pane_do demo_env) [Data [65], SelectAllAction, Data [66]] (demo_pane\<lparr>w_log := Some [1]\<rparr>)) (\<lambda>w'. w_log w' = Some [1, 65, 66])"
proof -
  let ?r = "foldF (pane_do demo_env) [Data [65], SelectAllAction, Data [66]] (demo_pane\<lparr>w_log := Some [1]\<rparr>)"
  have "okP ?r pane_ok" by (rule okP_all) (simp_all add: demo_pane_ok)
  then obtain w' where w': "?r = ok w'" by (cases ?r) simp_all
  from log_holds_data [OF this, of "[1]"] show ?thesis unfolding w' by (simp add: keeps_log_def)
qed

end
