(* ===== verification/Remote_Transfer.thy ===== *)
theory Remote_Transfer
  imports Ftp_Client Confined
begin

text \<open>
  Transfers of whole directory trees, \<open>src/src/sftp/RemoteTransfer.cpp\<close>, over the interface of a remote
  file system, \<open>src/src/sftp/IRemoteFs.h\<close>. The interface, the local disk and the progress dialog are a
  record of operations on a world of any type. The recursion is bounded by fuel: \<open>None\<close> is a transfer that is
  not over within it, and a server can make it endless.
\<close>

section \<open>The interface\<close>

text \<open>Listing yields the entries or fails; transfers yield a number of bytes, negative if they fail.\<close>

record 'w remote_fs =
  rf_connect :: "Session \<Rightarrow> 'w \<Rightarrow> bool \<times> 'w"
  rf_ready :: "'w \<Rightarrow> bool"
  rf_realpath :: "string \<Rightarrow> 'w \<Rightarrow> string \<times> 'w"
  rf_list :: "string \<Rightarrow> 'w \<Rightarrow> SftpEntry list option \<times> 'w"
  rf_download :: "string \<Rightarrow> string \<Rightarrow> 'w \<Rightarrow> int \<times> 'w"
  rf_upload :: "string \<Rightarrow> string \<Rightarrow> 'w \<Rightarrow> int \<times> 'w"
  rf_makeDir :: "string \<Rightarrow> 'w \<Rightarrow> bool \<times> 'w"
  rf_removeFile :: "string \<Rightarrow> 'w \<Rightarrow> bool \<times> 'w"
  rf_removeDir :: "string \<Rightarrow> 'w \<Rightarrow> bool \<times> 'w"
  rf_rename :: "string \<Rightarrow> string \<Rightarrow> 'w \<Rightarrow> bool \<times> 'w"
  rf_chmod :: "string \<Rightarrow> u32 \<Rightarrow> 'w \<Rightarrow> bool \<times> 'w"
  rf_scpDownload :: "string \<Rightarrow> string \<Rightarrow> 'w \<Rightarrow> int \<times> 'w"

text \<open>The local disk, \<open>canceled\<close>, and \<open>onItem\<close>, which lets the dialog handle its events.\<close>

record 'w local_fs =
  lf_mkpath :: "string \<Rightarrow> 'w \<Rightarrow> bool \<times> 'w"
  lf_isDir :: "string \<Rightarrow> 'w \<Rightarrow> bool"
  lf_names :: "string \<Rightarrow> 'w \<Rightarrow> string list"
  lf_remove :: "string \<Rightarrow> 'w \<Rightarrow> 'w"
  lf_canceled :: "'w \<Rightarrow> bool"
  lf_item :: "string \<Rightarrow> 'w \<Rightarrow> 'w"

section \<open>Transfers\<close>

text \<open>The loop over the entries of a directory; \<open>go\<close> transfers one of them.\<close>

fun transfer_entries :: "('e \<Rightarrow> 'w \<Rightarrow> (int \<times> 'w) option) \<Rightarrow> ('w \<Rightarrow> bool) \<Rightarrow> 'e list \<Rightarrow> int \<Rightarrow> 'w \<Rightarrow> (int \<times> 'w) option" where
  "transfer_entries go canceled [] n w = Some (n, w)"
| "transfer_entries go canceled (e # es) n w =
     (if canceled w then Some (- 1, w)
      else case go e w of
             None \<Rightarrow> None
           | Some (k, w) \<Rightarrow> if k < 0 then Some (- 1, w) else transfer_entries go canceled es (n + k) w)"

definition dot_entry :: "SftpEntry \<Rightarrow> bool" where
  "dot_entry e \<longleftrightarrow> e_name e = ''.'' \<or> e_name e = ''..''"

fun downloadTree :: "nat \<Rightarrow> host \<Rightarrow> 'w remote_fs \<Rightarrow> 'w local_fs \<Rightarrow> string \<Rightarrow> string \<Rightarrow> bool \<Rightarrow> 'w \<Rightarrow> (int \<times> 'w) option" where
  "downloadTree 0 h fs lf remote loc isDir w = None"
| "downloadTree (Suc k) h fs lf remote loc isDir w =
     (if lf_canceled lf w then Some (- 1, w)
      else if \<not> isDir then Some (rf_download fs remote loc (lf_item lf remote w))
      else let (made, w) = lf_mkpath lf loc w
           in if \<not> made then Some (- 1, w)
              else case rf_list fs remote w of
                     (None, w) \<Rightarrow> Some (- 1, w)
                   | (Some es, w) \<Rightarrow>
                       transfer_entries (\<lambda>e. downloadTree k h fs lf (join_path remote (e_name e)) (filePath h loc (e_name e)) (e_dir e))
                         (lf_canceled lf) (filter (\<lambda>e. \<not> dot_entry e) es) 0 w)"

text \<open>The iterator yields the names in a directory; whether the directory on the server can be made is not looked at.\<close>

fun uploadTree :: "nat \<Rightarrow> host \<Rightarrow> 'w remote_fs \<Rightarrow> 'w local_fs \<Rightarrow> string \<Rightarrow> string \<Rightarrow> 'w \<Rightarrow> (int \<times> 'w) option" where
  "uploadTree 0 h fs lf loc remote w = None"
| "uploadTree (Suc k) h fs lf loc remote w =
     (if lf_canceled lf w then Some (- 1, w)
      else if \<not> lf_isDir lf loc w then Some (rf_upload fs loc remote (lf_item lf loc w))
      else let (_, w) = rf_makeDir fs remote w
           in transfer_entries (\<lambda>n. uploadTree k h fs lf (filePath h loc n) (join_path remote n))
                (lf_canceled lf) (lf_names lf loc w) 0 w)"

declare downloadTree.simps [simp del] uploadTree.simps [simp del]

section \<open>Where a download writes\<close>

text \<open>An invariant of the world that no operation on a path that stays below a local directory breaks holds
  after the download into it, if every name the server lists is one of an entry of a directory. Of a path with a
  \<open>..\<close> behind the directory nothing is assumed: that the loop passes over \<open>..\<close> counts.\<close>

definition writes_below :: "string \<Rightarrow> ('w \<Rightarrow> bool) \<Rightarrow> 'w remote_fs \<Rightarrow> 'w local_fs \<Rightarrow> bool" where
  "writes_below root I fs lf \<longleftrightarrow>
     (\<forall>p w. I w \<longrightarrow> stays root p \<longrightarrow> I (snd (lf_mkpath lf p w))) \<and>
     (\<forall>r p w. I w \<longrightarrow> stays root p \<longrightarrow> I (snd (rf_download fs r p w))) \<and>
     (\<forall>r w. I w \<longrightarrow> I (lf_item lf r w))"

definition lists_names :: "('w \<Rightarrow> bool) \<Rightarrow> 'w remote_fs \<Rightarrow> bool" where
  "lists_names I fs \<longleftrightarrow>
     (\<forall>r w. I w \<longrightarrow> I (snd (rf_list fs r w)) \<and>
        (case fst (rf_list fs r w) of None \<Rightarrow> True | Some es \<Rightarrow> list_all (\<lambda>e. CHR ''/'' \<notin> set (e_name e)) es))"

text \<open>What \<open>QDir::filePath\<close> does with a name that is not a path.\<close>

definition plain_dir :: "string \<Rightarrow> bool" where
  "plain_dir d \<longleftrightarrow> d \<noteq> [] \<and> last d \<noteq> CHR ''/''"

definition file_path_law :: "host \<Rightarrow> bool" where
  "file_path_law h \<longleftrightarrow>
     (\<forall>d n. plain_dir d \<longrightarrow> CHR ''/'' \<notin> set n \<longrightarrow> filePath h d n = (if n = [] then d else d @ ''/'' @ n))"

lemma file_path_plain:
  assumes "file_path_law h" and "plain_dir d" and "CHR ''/'' \<notin> set n"
  shows "plain_dir (filePath h d n)"
proof -
  have "n \<noteq> [] \<Longrightarrow> last n \<noteq> CHR ''/''" using assms(3) last_in_set [of n] by metis
  then show ?thesis using assms by (auto simp: file_path_law_def plain_dir_def)
qed

lemma file_path_below:
  "file_path_law h \<Longrightarrow> plain_dir d \<Longrightarrow> CHR ''/'' \<notin> set n \<Longrightarrow> n \<noteq> ''..'' \<Longrightarrow> stays d (filePath h d n)"
  by (auto simp: file_path_law_def stays_name)

lemma transfer_entries_keeps:
  assumes "\<And>e w n w'. e \<in> set es \<Longrightarrow> I w \<Longrightarrow> go e w = Some (n, w') \<Longrightarrow> I w'" and "I w"
    and "transfer_entries go canceled es acc w = Some (n, w')"
  shows "I w'"
  using assms
proof (induction es arbitrary: acc w)
  case (Cons e es)
  show ?case
  proof (cases "canceled w")
    case True
    with Cons.prems show ?thesis by simp
  next
    case False
    with Cons.prems(3) obtain m u where u: "go e w = Some (m, u)" by (auto split: option.splits)
    with Cons.prems(1) [of e w m u] Cons.prems(2) have "I u" by simp
    with Cons.IH [of u "acc + m"] Cons.prems(1,3) False u show ?thesis by (auto split: if_splits)
  qed
qed simp

text \<open>C28: A download of a directory tree creates and writes nothing outside the local directory it was asked
  for, as long as no name the server lists has a slash in it: every directory it makes and every file it
  downloads is the local one or lies below it with no \<open>..\<close> on the way, whatever is listed, \<open>..\<close> included.
  An invariant that such calls keep holds afterwards.\<close>

theorem download_stays_below:
  assumes "writes_below root I fs lf" and "lists_names I fs" and "file_path_law h"
    and "I w" and "stays root loc" and "plain_dir loc" and "downloadTree k h fs lf remote loc isDir w = Some (n, w')"
  shows "I w'"
  using assms(4-)
proof (induction k arbitrary: remote loc isDir w n w')
  case (Suc k)
  let ?go = "\<lambda>e. downloadTree k h fs lf (join_path remote (e_name e)) (filePath h loc (e_name e)) (e_dir e)"
  have item: "I (lf_item lf r u)" if "I u" for r u using that assms(1) by (simp add: writes_below_def)
  have made: "I (snd (lf_mkpath lf loc w))" using Suc.prems(1,2) assms(1) by (simp add: writes_below_def)
  show ?case
  proof (cases "lf_canceled lf w \<or> \<not> isDir")
    case True
    have "I (snd (rf_download fs remote loc (lf_item lf remote w)))"
      using item [OF Suc.prems(1)] Suc.prems(2) assms(1) by (simp add: writes_below_def)
    with True Suc.prems(1,4) show ?thesis by (auto simp: downloadTree.simps split: if_splits)
  next
    case False
    let ?w = "snd (lf_mkpath lf loc w)"
    have listed: "I (snd (rf_list fs remote ?w))" "case fst (rf_list fs remote ?w) of None \<Rightarrow> True
        | Some es \<Rightarrow> list_all (\<lambda>e. CHR ''/'' \<notin> set (e_name e)) es"
      using assms(2) made by (simp_all add: lists_names_def)
    have step: "I w2" if "e \<in> set es" "\<not> dot_entry e" "list_all (\<lambda>e. CHR ''/'' \<notin> set (e_name e)) es" "I w1"
      "?go e w1 = Some (n, w2)" for e es w1 n w2
      using Suc.IH [OF that(4) _ _ that(5)] file_path_plain [OF assms(3) Suc.prems(3), of "e_name e"] file_path_below [OF assms(3) Suc.prems(3), of "e_name e"]
        stays_trans [OF Suc.prems(2)] that(1-3) by (auto simp: list_all_iff dot_entry_def)
    have run: "Some (n, w') = (if \<not> fst (lf_mkpath lf loc w) then Some (- 1, ?w)
        else case fst (rf_list fs remote ?w) of None \<Rightarrow> Some (- 1, snd (rf_list fs remote ?w))
          | Some es \<Rightarrow> transfer_entries ?go (lf_canceled lf) (filter (\<lambda>e. \<not> dot_entry e) es) 0 (snd (rf_list fs remote ?w)))"
      using False Suc.prems(4) by (cases "rf_list fs remote ?w"; cases "fst (rf_list fs remote ?w)")
        (auto simp: downloadTree.simps split_beta split: if_splits)
    show ?thesis
    proof (cases "fst (rf_list fs remote ?w)")
      case None
      with run listed(1) made show ?thesis by (auto split: if_splits)
    next
      case (Some es)
      with listed have names: "list_all (\<lambda>e. CHR ''/'' \<notin> set (e_name e)) es" by simp
      show ?thesis
      proof (cases "fst (lf_mkpath lf loc w)")
        case True
        with run Some have "transfer_entries ?go (lf_canceled lf) (filter (\<lambda>e. \<not> dot_entry e) es) 0 (snd (rf_list fs remote ?w)) = Some (n, w')"
          by simp
        then show ?thesis by (rule transfer_entries_keeps [rotated 2]) (use step names listed(1) in auto)
      qed (use run made in simp)
    qed
  qed
qed (simp add: downloadTree.simps)

text \<open>A name with a slash is a path of its own: a server that lists \<open>../x\<close> has its file written beside the
  directory, and \<open>/x\<close> anywhere.\<close>

lemma download_escapes:
  assumes "rf_list fs remote w1 = (Some [e], w2)" and "lf_mkpath lf loc w = (True, w1)" and "\<not> dot_entry e" and "\<not> e_dir e"
    and "\<not> lf_canceled lf w" and "\<not> lf_canceled lf w2"
    and "rf_download fs (join_path remote (e_name e)) (filePath h loc (e_name e)) (lf_item lf (join_path remote (e_name e)) w2) = (n, w3)"
    and "0 \<le> n"
  shows "downloadTree (Suc (Suc k)) h fs lf remote loc True w = Some (n, w3)"
  using assms by (simp add: downloadTree.simps)

text \<open>A server that has a directory in every directory keeps the transfer going for ever: no fuel is enough.\<close>

lemma download_endless:
  assumes "\<And>r w. \<exists>es w'. rf_list fs r w = (Some (e # es), w')" and "\<not> dot_entry e" and "e_dir e"
    and "\<And>q w. fst (lf_mkpath lf q w)" and "\<And>w. \<not> lf_canceled lf w"
  shows "downloadTree k h fs lf remote loc True w = None"
proof (induction k arbitrary: remote loc w)
  case (Suc k)
  obtain es w' where "rf_list fs remote (snd (lf_mkpath lf loc w)) = (Some (e # es), w')" using assms(1) by blast
  with Suc assms(2-5) show ?case by (simp add: downloadTree.simps split_beta)
qed (simp add: downloadTree.simps)

section \<open>What a download leaves on the disk\<close>

datatype node = FileNode bytes | DirNode "(string \<times> node) list"

datatype disk = FileAt bytes | DirAt

fun is_dir_node :: "node \<Rightarrow> bool" where
  "is_dir_node (FileNode b) \<longleftrightarrow> False"
| "is_dir_node (DirNode es) \<longleftrightarrow> True"

fun tree_bytes :: "node \<Rightarrow> nat" where
  "tree_bytes (FileNode b) = length b"
| "tree_bytes (DirNode es) = sum_list (map (\<lambda>(n, t). tree_bytes t) es)"

fun tree_height :: "node \<Rightarrow> nat" where
  "tree_height (FileNode b) = 0"
| "tree_height (DirNode es) = Suc (foldr max (map (\<lambda>(n, t). tree_height t) es) 0)"

fun tree_ok :: "node \<Rightarrow> bool" where
  "tree_ok (FileNode b) \<longleftrightarrow> True"
| "tree_ok (DirNode es) \<longleftrightarrow> distinct (map fst es) \<and> (\<forall>(n, t) \<in> set es. proper_seg n \<and> tree_ok t)"

text \<open>A tree below a path of the disk.\<close>

fun on_disk :: "node \<Rightarrow> string \<Rightarrow> string \<Rightarrow> disk option" where
  "on_disk (FileNode b) p = [p \<mapsto> FileAt b]"
| "on_disk (DirNode es) p = foldl (++) [p \<mapsto> DirAt] (map (\<lambda>(n, t). on_disk t (p @ ''/'' @ n)) es)"

text \<open>\<open>look\<close> reads the local disk in the world. A path that can be made lies in a directory.\<close>

definition inside :: "('w \<Rightarrow> string \<Rightarrow> disk option) \<Rightarrow> 'w \<Rightarrow> string \<Rightarrow> bool" where
  "inside look w p \<longleftrightarrow> (\<exists>d n. p = d @ ''/'' @ n \<and> CHR ''/'' \<notin> set n \<and> look w d = Some DirAt)"

text \<open>The server holds a tree at a path: it lists what is there and hands out the files.\<close>

fun serves :: "'w remote_fs \<Rightarrow> ('w \<Rightarrow> string \<Rightarrow> disk option) \<Rightarrow> string \<Rightarrow> node \<Rightarrow> bool" where
  "serves fs look r (FileNode b) \<longleftrightarrow>
     (\<forall>p w. inside look w p \<longrightarrow> look w p = None \<longrightarrow>
        (\<exists>w'. rf_download fs r p w = (int (length b), w') \<and> look w' = (look w)(p \<mapsto> FileAt b)))"
| "serves fs look r (DirNode es) \<longleftrightarrow>
     (\<forall>w. \<exists>l w'. rf_list fs r w = (Some l, w') \<and> look w' = look w \<and>
        map (\<lambda>e. (e_name e, e_dir e)) (filter (\<lambda>e. \<not> dot_entry e) l) = map (\<lambda>(n, t). (n, is_dir_node t)) es) \<and>
     (\<forall>(n, t) \<in> set es. serves fs look (join_path r n) t)"

definition disk_laws :: "'w local_fs \<Rightarrow> ('w \<Rightarrow> string \<Rightarrow> disk option) \<Rightarrow> bool" where
  "disk_laws lf look \<longleftrightarrow>
     (\<forall>p w. inside look w p \<longrightarrow> look w p = None \<longrightarrow> (\<exists>w'. lf_mkpath lf p w = (True, w') \<and> look w' = (look w)(p \<mapsto> DirAt))) \<and>
     (\<forall>r w. look (lf_item lf r w) = look w) \<and> (\<forall>w. \<not> lf_canceled lf w)"

lemma on_disk_below: "on_disk t p q \<noteq> None \<Longrightarrow> under p q"
proof (induction t arbitrary: p q)
  case (DirNode es)
  have "foldl (++) m ms q \<noteq> None \<Longrightarrow> m q \<noteq> None \<or> (\<exists>m' \<in> set ms. m' q \<noteq> None)" for m and ms :: "(string \<Rightarrow> disk option) list"
    by (induction ms arbitrary: m) (force simp: map_add_def split: option.splits)+
  from this [of "[p \<mapsto> DirAt]" "map (\<lambda>(n, t). on_disk t (p @ ''/'' @ n)) es"] DirNode.prems
  consider "q = p" | n t where "(n, t) \<in> set es" "on_disk t (p @ ''/'' @ n) q \<noteq> None" by (auto split: if_splits)
  then show ?case
  proof cases
    case 2
    with DirNode.IH [OF 2(1), of t] have "under (p @ ''/'' @ n) q" by simp
    moreover have "under p (p @ ''/'' @ n)" by (simp add: under_iff)
    ultimately show ?thesis by (rule under_trans [rotated])
  qed simp
qed (simp split: if_splits)

lemma siblings_apart:
  assumes "CHR ''/'' \<notin> set n" and "CHR ''/'' \<notin> set m" and "n \<noteq> m" and "under (p @ ''/'' @ n) q"
  shows "\<not> under (p @ ''/'' @ m) q"
proof
  have cut: "takeWhile (\<lambda>c. c \<noteq> CHR ''/'') (drop (Suc (length p)) q) = k" if "CHR ''/'' \<notin> set k" "under (p @ ''/'' @ k) q" for k
    using that by (auto simp: under_iff takeWhile_append takeWhile_eq_all_conv)
  assume "under (p @ ''/'' @ m) q"
  with cut assms show False by blast
qed

definition free_below :: "('w \<Rightarrow> string \<Rightarrow> disk option) \<Rightarrow> 'w \<Rightarrow> string \<Rightarrow> bool" where
  "free_below look w p \<longleftrightarrow> (\<forall>q. under p q \<longrightarrow> look w q = None)"

text \<open>What the transfer of one entry has to do, and that the loop then does it for all.\<close>

definition mirrors_entry :: "('w \<Rightarrow> string \<Rightarrow> disk option) \<Rightarrow> string \<Rightarrow> ('w \<Rightarrow> (int \<times> 'w) option) \<Rightarrow> string \<times> node \<Rightarrow> bool" where
  "mirrors_entry look p act x \<longleftrightarrow> (case x of (n, t) \<Rightarrow>
     \<forall>w. free_below look w (p @ ''/'' @ n) \<longrightarrow> look w p = Some DirAt \<longrightarrow>
       (\<exists>w'. act w = Some (int (tree_bytes t), w') \<and> look w' = look w ++ on_disk t (p @ ''/'' @ n)))"

lemma entries_mirror:
  assumes "list_all2 (\<lambda>e. mirrors_entry look p (go e)) l es" and "distinct (map fst es)"
    and "\<And>n t. (n, t) \<in> set es \<Longrightarrow> CHR ''/'' \<notin> set n \<and> free_below look w (p @ ''/'' @ n)" and "look w p = Some DirAt"
    and "\<And>w. \<not> canceled w"
  shows "\<exists>w'. transfer_entries go canceled l acc w = Some (acc + int (sum_list (map (\<lambda>(n, t). tree_bytes t) es)), w') \<and>
    look w' = foldl (++) (look w) (map (\<lambda>(n, t). on_disk t (p @ ''/'' @ n)) es)"
  using assms(1-4)
proof (induction es arbitrary: l acc w rule: list.induct)
  case (Cons x es)
  obtain n t where x: "x = (n, t)" by (cases x)
  with Cons.prems(1) obtain e l' where l: "l = e # l'" "mirrors_entry look p (go e) (n, t)"
    "list_all2 (\<lambda>e. mirrors_entry look p (go e)) l' es" by (auto simp: list_all2_Cons2)
  with Cons.prems(3) [of n t] Cons.prems(4) obtain w1 where w1: "go e w = Some (int (tree_bytes t), w1)"
    "look w1 = look w ++ on_disk t (p @ ''/'' @ n)" by (auto simp: x mirrors_entry_def)
  have keep: "look w1 q = look w q" if "\<not> under (p @ ''/'' @ n) q" for q
    using on_disk_below [of t "p @ ''/'' @ n" q] that w1(2) by (auto simp: map_add_def split: option.split)
  have "\<not> under (p @ ''/'' @ n) p" by (simp add: under_iff)
  with keep Cons.prems(4) have dir: "look w1 p = Some DirAt" by simp
  have sibling: "CHR ''/'' \<notin> set m \<and> free_below look w1 (p @ ''/'' @ m)" if "(m, u) \<in> set es" for m u
  proof -
    have "m \<noteq> n" using that Cons.prems(2) x by force
    moreover have "CHR ''/'' \<notin> set m \<and> free_below look w (p @ ''/'' @ m)" "CHR ''/'' \<notin> set n"
      using Cons.prems(3) [of m u] Cons.prems(3) [of n t] that x by simp_all
    ultimately show ?thesis using siblings_apart [of m n p] keep by (simp add: free_below_def)
  qed
  have rest: "distinct (map fst es)" using Cons.prems(2) by simp
  have "\<exists>w'. transfer_entries go canceled l' (acc + int (tree_bytes t)) w1 =
      Some (acc + int (tree_bytes t) + int (sum_list (map (\<lambda>(n, t). tree_bytes t) es)), w') \<and>
    look w' = foldl (++) (look w1) (map (\<lambda>(n, t). on_disk t (p @ ''/'' @ n)) es)"
    by (rule Cons.IH [OF l(3) rest sibling dir])
  moreover have "canceled = (\<lambda>_. False)" using assms(5) by (simp add: fun_eq_iff)
  ultimately show ?case using w1 l(1) by (simp add: x add.assoc)
qed simp

lemma foldl_map_add: "foldl (++) (a ++ b) ms = a ++ foldl (++) b (ms :: (string \<Rightarrow> disk option) list)"
  by (induction ms arbitrary: b) (simp_all del: map_add_assoc add: map_add_assoc [symmetric])

lemma height_member: "(n, t) \<in> set es \<Longrightarrow> tree_height t < tree_height (DirNode es)"
  by (induction es) auto

text \<open>A directory is made, then its entries are transferred: together the tree.\<close>

lemma directory_mirror:
  assumes "list_all2 (\<lambda>e. mirrors_entry look p (go e)) l es" and "tree_ok (DirNode es)" and "free_below look w p"
    and "look w1 = (look w)(p \<mapsto> DirAt)" and "\<And>w. \<not> canceled w"
  shows "\<exists>w'. transfer_entries go canceled l 0 w1 = Some (int (tree_bytes (DirNode es)), w') \<and> look w' = look w ++ on_disk (DirNode es) p"
proof -
  have "CHR ''/'' \<notin> set n \<and> free_below look w1 (p @ ''/'' @ n)" if "(n, u) \<in> set es" for n u
  proof -
    have "under p q \<and> q \<noteq> p" if "under (p @ ''/'' @ n) q" for q using that by (auto simp: under_iff)
    with assms(2,3,4) that show ?thesis by (auto simp: free_below_def proper_seg_def)
  qed
  with entries_mirror [OF assms(1), of w1 canceled 0] assms(2,4,5)
  obtain w' where "transfer_entries go canceled l 0 w1 = Some (int (tree_bytes (DirNode es)), w')"
    "look w' = foldl (++) (look w1) (map (\<lambda>(n, t). on_disk t (p @ ''/'' @ n)) es)" by auto
  moreover have "foldl (++) (look w1) ms = look w ++ foldl (++) [p \<mapsto> DirAt] ms" for ms
    using foldl_map_add [of "look w" "[p \<mapsto> DirAt]"] assms(4) by simp
  ultimately show ?thesis by simp
qed

lemma member_facts:
  assumes "tree_ok (DirNode es)" and "tree_height (DirNode es) < Suc k" and "(n, u) \<in> set es"
  shows "proper_seg n" "CHR ''/'' \<notin> set n" "n \<noteq> []" "tree_ok u" "tree_height u < k"
  using assms height_member [OF assms(3)] by (auto simp: proper_seg_def)


section \<open>What an upload leaves on the server\<close>

text \<open>The local disk holds a tree at a path, and the server takes its files. Whether a directory was made is
  not looked at: it is there or it was there.\<close>

fun on_local :: "'w remote_fs \<Rightarrow> 'w local_fs \<Rightarrow> ('w \<Rightarrow> string \<Rightarrow> disk option) \<Rightarrow> string \<Rightarrow> node \<Rightarrow> bool" where
  "on_local fs lf look loc (FileNode b) \<longleftrightarrow>
     (\<forall>w. \<not> lf_isDir lf loc w) \<and>
     (\<forall>p w. inside look w p \<longrightarrow> look w p = None \<longrightarrow>
        (\<exists>w'. rf_upload fs loc p w = (int (length b), w') \<and> look w' = (look w)(p \<mapsto> FileAt b)))"
| "on_local fs lf look loc (DirNode es) \<longleftrightarrow>
     (\<forall>w. lf_isDir lf loc w \<and> lf_names lf loc w = map fst es) \<and> (\<forall>(n, t) \<in> set es. on_local fs lf look (loc @ ''/'' @ n) t)"

definition server_laws :: "'w remote_fs \<Rightarrow> 'w local_fs \<Rightarrow> ('w \<Rightarrow> string \<Rightarrow> disk option) \<Rightarrow> bool" where
  "server_laws fs lf look \<longleftrightarrow>
     (\<forall>p w. inside look w p \<longrightarrow> look w p = None \<longrightarrow> look (snd (rf_makeDir fs p w)) = (look w)(p \<mapsto> DirAt)) \<and>
     (\<forall>r w. look (lf_item lf r w) = look w) \<and> (\<forall>w. \<not> lf_canceled lf w)"

lemma join_path_child:
  assumes "list_all proper_seg segs" and "segs \<noteq> []" and "proper_seg n"
  shows "join_path (abs_path segs) n = abs_path segs @ ''/'' @ n"
  using join_abs_seg [OF assms(1,3)] join_with_append [OF assms(2), of "[n]" "''/''"] by (simp add: abs_path_def)

theorem upload_mirrors:
  assumes "tree_ok t" and "on_local fs lf look loc t" and "server_laws fs lf look" and "file_path_law h"
    and "plain_dir loc" and "list_all proper_seg segs" and "segs \<noteq> []" and "inside look w (abs_path segs)"
    and "free_below look w (abs_path segs)" and "tree_height t < k"
  shows "\<exists>w'. uploadTree k h fs lf loc (abs_path segs) w = Some (int (tree_bytes t), w') \<and> look w' = look w ++ on_disk t (abs_path segs)"
  using assms(1,2,5-)
proof (induction k arbitrary: t loc segs w)
  case (Suc k)
  let ?p = "abs_path segs"
  have laws: "\<not> lf_canceled lf u" "look (lf_item lf x u) = look u" for u x using assms(3) by (simp_all add: server_laws_def)
  have free: "look w ?p = None" using Suc.prems(7) by (simp add: free_below_def)
  show ?case
  proof (cases t)
    case (FileNode b)
    have "inside look (lf_item lf loc w) ?p" "look (lf_item lf loc w) ?p = None" using Suc.prems(6) free laws(2) by (simp_all add: inside_def)
    with Suc.prems(2) have "\<not> lf_isDir lf loc w"
      "\<exists>w'. rf_upload fs loc ?p (lf_item lf loc w) = (int (length b), w') \<and> look w' = (look (lf_item lf loc w))(?p \<mapsto> FileAt b)"
      unfolding FileNode on_local.simps by blast+
    with laws show ?thesis by (auto simp: uploadTree.simps FileNode fun_eq_iff map_add_def)
  next
    case (DirNode es)
    let ?go = "\<lambda>n. uploadTree k h fs lf (filePath h loc n) (join_path ?p n)" and ?w = "snd (rf_makeDir fs ?p w)"
    have "list_all2 (\<lambda>e. mirrors_entry look ?p (?go e)) (map fst es) es"
    proof (rule list_all2_all_nthI)
      show "length (map fst es) = length es" by simp
      fix i assume "i < length (map fst es)"
      then have i: "i < length es" by simp
      obtain n u where nu: "es ! i = (n, u)" by (cases "es ! i")
      then have u: "(n, u) \<in> set es" using i nth_mem [of i es] by simp
      note facts = member_facts [OF Suc.prems(1) [unfolded DirNode] Suc.prems(8) [unfolded DirNode] u]
      have paths: "filePath h loc n = loc @ ''/'' @ n" "join_path ?p n = abs_path (segs @ [n])"
        using assms(4) Suc.prems(3-5) facts join_abs_seg by (simp_all add: file_path_law_def)
      moreover have "plain_dir (loc @ ''/'' @ n)" using file_path_plain [OF assms(4) Suc.prems(3) facts(2)] paths(1) by simp
      moreover have "on_local fs lf look (loc @ ''/'' @ n) u" using Suc.prems(2) DirNode u by auto
      moreover have at: "abs_path (segs @ [n]) = ?p @ ''/'' @ n"
        using join_path_child [OF Suc.prems(4,5) facts(1)] paths(2) by simp
      moreover have "inside look w (?p @ ''/'' @ n)" if "look w ?p = Some DirAt" for w using that facts(2) unfolding inside_def by blast
      ultimately show "mirrors_entry look ?p (?go (map fst es ! i)) (es ! i)"
        using Suc.IH [of u "loc @ ''/'' @ n" "segs @ [n]"] facts Suc.prems(4) i by (simp add: mirrors_entry_def nu)
    qed
    moreover have "look ?w = (look w)(?p \<mapsto> DirAt)" using assms(3) Suc.prems(6) free by (simp add: server_laws_def)
    ultimately have "\<exists>w'. transfer_entries ?go (lf_canceled lf) (map fst es) 0 ?w =
        Some (int (tree_bytes (DirNode es)), w') \<and> look w' = look w ++ on_disk (DirNode es) ?p"
      by (rule directory_mirror [OF _ Suc.prems(1) [unfolded DirNode] Suc.prems(7) _ laws(1)])
    with Suc.prems(2) laws(1) show ?thesis by (simp add: uploadTree.simps DirNode split_beta)
  qed
qed simp

section \<open>Examples\<close>

definition transfer_host :: host where
  "transfer_host = \<lparr>cleanPath = id, filePath = (\<lambda>d n. if n = [] then d else d @ ''/'' @ n), toUtf8 = (\<lambda>_. []), fromUtf8 = (\<lambda>_. [])\<rparr>"

definition demo_entry :: "string \<Rightarrow> bool \<Rightarrow> SftpEntry" where
  "demo_entry n d = \<lparr>e_name = n, e_size = 0, e_dir = d, e_permissions = 0, e_mtime = 0\<rparr>"

text \<open>A server of two files, one of them in a directory; the world is the local disk.\<close>

definition demo_tree :: node where
  "demo_tree = DirNode [(''a'', FileNode [1]), (''d'', DirNode [(''b'', FileNode [2, 3])])]"

definition demo_list :: "string \<Rightarrow> SftpEntry list option" where
  "demo_list r =
     (if r = ''/srv'' then Some [demo_entry ''..'' True, demo_entry ''a'' False, demo_entry ''d'' True]
      else if r = ''/srv/d'' then Some [demo_entry ''b'' False] else None)"

definition demo_file :: "string \<Rightarrow> bytes option" where
  "demo_file r = (if r = ''/srv/a'' then Some [1] else if r = ''/srv/d/b'' then Some [2, 3] else None)"

definition demo_fs :: "(string \<Rightarrow> disk option) remote_fs" where
  "demo_fs = \<lparr>rf_connect = (\<lambda>_ w. (True, w)), rf_ready = (\<lambda>_. True), rf_realpath = (\<lambda>p w. (p, w)), rf_list = (\<lambda>r w. (demo_list r, w)),
     rf_download = (\<lambda>r p w. case demo_file r of None \<Rightarrow> (- 1, w) | Some b \<Rightarrow> (int (length b), w(p \<mapsto> FileAt b))),
     rf_upload = (\<lambda>_ _ w. (- 1, w)), rf_makeDir = (\<lambda>_ w. (False, w)), rf_removeFile = (\<lambda>_ w. (False, w)), rf_removeDir = (\<lambda>_ w. (False, w)),
     rf_rename = (\<lambda>_ _ w. (False, w)), rf_chmod = (\<lambda>_ _ w. (False, w)), rf_scpDownload = (\<lambda>_ _ w. (- 1, w))\<rparr>"

definition demo_disk :: "(string \<Rightarrow> disk option) local_fs" where
  "demo_disk = \<lparr>lf_mkpath = (\<lambda>p w. (True, w(p \<mapsto> DirAt))), lf_isDir = (\<lambda>p w. w p = Some DirAt), lf_names = (\<lambda>_ _. []),
     lf_remove = (\<lambda>p w. w(p := None)), lf_canceled = (\<lambda>_. False), lf_item = (\<lambda>_ w. w)\<rparr>"

lemma demo_laws: "file_path_law transfer_host" "disk_laws demo_disk id" "serves demo_fs id ''/srv'' demo_tree" "tree_ok demo_tree"
proof -
  have "join_path ''/srv'' ''a'' = ''/srv/a''" "join_path ''/srv'' ''d'' = ''/srv/d''" "join_path ''/srv/d'' ''b'' = ''/srv/d/b''"
    by code_simp+
  then show "serves demo_fs id ''/srv'' demo_tree"
    by (simp add: demo_tree_def demo_fs_def demo_list_def demo_file_def demo_entry_def dot_entry_def)
qed (simp_all add: file_path_law_def transfer_host_def disk_laws_def demo_disk_def demo_tree_def proper_seg_def)


text \<open>The same server and disk, with the paths of the disk resolved: \<open>/home/d/../x\<close> is \<open>/home/x\<close>.\<close>

definition resolving_fs :: "(string \<Rightarrow> disk option) remote_fs" where
  "resolving_fs = demo_fs\<lparr>rf_download := \<lambda>r l. rf_download demo_fs r (real_path l)\<rparr>"

definition resolving_disk :: "(string \<Rightarrow> disk option) local_fs" where
  "resolving_disk = demo_disk\<lparr>lf_mkpath := \<lambda>p. lf_mkpath demo_disk (real_path p)\<rparr>"

lemma stays_real_home: "stays ''/home/d'' p \<Longrightarrow> under ''/home/d'' (real_path p)"
  using stays_real [of "[''home'', ''d'']" p] by (simp add: abs_path_def proper_seg_def)

lemma resolving_climbs: "snd (lf_mkpath resolving_disk ''/home/d/../x'' Map.empty) = [''/home/x'' \<mapsto> DirAt]"
proof -
  have "real_path ''/home/d/../x'' = ''/home/x''" by code_simp
  then show ?thesis by (simp add: resolving_disk_def demo_disk_def)
qed

lemma resolving_laws:
  "writes_below ''/home/d'' (\<lambda>w. w ''/home/x'' = None) resolving_fs resolving_disk"
  "lists_names (\<lambda>w. w ''/home/x'' = None) resolving_fs" "plain_dir ''/home/d''"
proof -
  have "(''/home/x'' = real_path p) = False" if "stays ''/home/d'' p" for p
    using stays_real_home [OF that] by (auto simp: under_iff)
  then show "writes_below ''/home/d'' (\<lambda>w. w ''/home/x'' = None) resolving_fs resolving_disk"
    by (auto simp: writes_below_def resolving_fs_def resolving_disk_def demo_fs_def demo_disk_def split: option.split)
  show "lists_names (\<lambda>w. w ''/home/x'' = None) resolving_fs"
    by (auto simp: lists_names_def resolving_fs_def demo_fs_def demo_list_def demo_entry_def)
qed (simp add: plain_dir_def)

theorem download_stays_below_witness:
  "case downloadTree 3 transfer_host resolving_fs resolving_disk ''/srv'' ''/home/d'' True Map.empty of
     None \<Rightarrow> True | Some (n, w') \<Rightarrow> w' ''/home/x'' = None"
  using download_stays_below [OF resolving_laws(1,2) demo_laws(1) _ stays_refl resolving_laws(3)]
  by (auto split: option.split)

end
