(* ===== verification/File_Panel.thy ===== *)
theory File_Panel
  imports Remote_Transfer
begin

text \<open>
  The file browser beside a terminal, \<open>src/src/ui/SftpPanel.{h,cpp}\<close>: following the terminal's directory,
  editing remote files, transfers, and the operations of its menu, over the remote file system of theory
  \<open>Remote_Transfer\<close>. What the user chooses in dialogs arrives with the event; an operation that does not come
  back is \<open>None\<close>. A text of the status line is a constructor, and the messages of a failing backend,
  which overwrite the line, belong to its world.
\<close>

section \<open>The panel\<close>

datatype status = Idle | ConnectFailed | Gone | Items nat | EditFailed | SavedBack int string | SaveBackFailed | Editing string
  | Downloaded int | DownloadCanceled | DownloadFailed | Uploaded int | UploadCanceled | UploadFailed
  | ScpDownloaded int | ScpFailed | UploadedItems nat

text \<open>\<open>fp_editing\<close> maps the local copy of a file that is being edited to the file.\<close>

record 'w file_panel =
  fp_world :: 'w
  fp_cwd :: string
  fp_home :: string
  fp_follow :: bool
  fp_shown :: "SftpEntry list"
  fp_bar :: string
  fp_status :: status
  fp_editing :: "string \<Rightarrow> string option"

text \<open>The world around: the backend, a fresh backend in place of the old one, the local disk, and where temporary
  files go.\<close>

record 'w panel_around =
  pa_host :: host
  pa_fs :: "'w remote_fs"
  pa_lf :: "'w local_fs"
  pa_fresh :: "'w \<Rightarrow> 'w"
  pa_tmp :: string

definition fileName :: "string \<Rightarrow> string" where
  "fileName p = (case last_index_of CHR ''/'' p of None \<Rightarrow> p | Some i \<Rightarrow> drop (Suc i) p)"

definition panel_ready :: "'w panel_around \<Rightarrow> 'w file_panel \<Rightarrow> bool" where
  "panel_ready v p = rf_ready (pa_fs v) (fp_world p)"

section \<open>Walking the directories\<close>

definition navigateTo :: "'w panel_around \<Rightarrow> string \<Rightarrow> 'w file_panel \<Rightarrow> 'w file_panel" where
  "navigateTo v path p =
     (if \<not> panel_ready v p then p
      else case rf_list (pa_fs v) path (fp_world p) of
             (None, w) \<Rightarrow> p\<lparr>fp_world := w\<rparr>
           | (Some es, w) \<Rightarrow> p\<lparr>fp_world := w, fp_cwd := path, fp_shown := es, fp_bar := path, fp_status := Items (length es)\<rparr>)"

definition refresh :: "'w panel_around \<Rightarrow> 'w file_panel \<Rightarrow> 'w file_panel" where
  "refresh v p = navigateTo v (fp_cwd p) p"

definition goUp :: "'w panel_around \<Rightarrow> 'w file_panel \<Rightarrow> 'w file_panel" where
  "goUp v p = navigateTo v (parent (fp_cwd p)) p"

definition goHome :: "'w panel_around \<Rightarrow> 'w file_panel \<Rightarrow> 'w file_panel" where
  "goHome v p = (if fp_home p \<noteq> [] then navigateTo v (fp_home p) p else p)"

definition setRemoteCwd :: "'w panel_around \<Rightarrow> string \<Rightarrow> 'w file_panel \<Rightarrow> 'w file_panel" where
  "setRemoteCwd v path p =
     (if \<not> fp_follow p then p
      else if path = [] \<or> path = fp_cwd p then p
      else if \<not> panel_ready v p then p
      else navigateTo v path p)"

definition openFor :: "'w panel_around \<Rightarrow> Session \<Rightarrow> 'w file_panel \<Rightarrow> bool \<times> 'w file_panel" where
  "openFor v s p =
     (let (ok, w) = rf_connect (pa_fs v) s (fp_world p)
      in if \<not> ok then (False, p\<lparr>fp_world := w, fp_status := ConnectFailed\<rparr>)
         else let (abs, w) = rf_realpath (pa_fs v) ''.'' w; cwd = (if abs = [] then ''.'' else abs)
              in (True, navigateTo v cwd (p\<lparr>fp_world := w, fp_cwd := cwd, fp_home := cwd\<rparr>)))"

definition closeSession :: "'w panel_around \<Rightarrow> 'w file_panel \<Rightarrow> 'w file_panel" where
  "closeSession v p = p\<lparr>fp_world := pa_fresh v (fp_world p), fp_cwd := ''.'', fp_shown := [], fp_bar := [], fp_status := Gone\<rparr>"

section \<open>Editing\<close>

definition edit_copy :: "'w panel_around \<Rightarrow> string \<Rightarrow> string \<Rightarrow> string" where
  "edit_copy v uuid remote = filePath (pa_host v) (pa_tmp v) (''macxterm-'' @ uuid @ ''-'' @ fileName remote)"

definition editRemote :: "'w panel_around \<Rightarrow> string \<Rightarrow> string \<Rightarrow> 'w file_panel \<Rightarrow> 'w file_panel" where
  "editRemote v uuid remote p =
     (if \<not> panel_ready v p then p
      else let loc = edit_copy v uuid remote; (n, w) = rf_download (pa_fs v) remote loc (fp_world p)
           in if n < 0 then p\<lparr>fp_world := w, fp_status := EditFailed\<rparr>
              else p\<lparr>fp_world := w, fp_status := Editing remote, fp_editing := (fp_editing p)(loc \<mapsto> remote)\<rparr>)"

text \<open>The editor of a local copy saves it; the editor is closed.\<close>

definition fileSaved :: "'w panel_around \<Rightarrow> string \<Rightarrow> 'w file_panel \<Rightarrow> 'w file_panel" where
  "fileSaved v loc p =
     (let remote = (case fp_editing p loc of None \<Rightarrow> [] | Some r \<Rightarrow> r)
      in if remote = [] then p
         else let (n, w) = rf_upload (pa_fs v) loc remote (fp_world p)
              in p\<lparr>fp_world := w, fp_status := (if 0 \<le> n then SavedBack n remote else SaveBackFailed)\<rparr>)"

definition editorClosed :: "'w panel_around \<Rightarrow> string \<Rightarrow> 'w file_panel \<Rightarrow> 'w file_panel" where
  "editorClosed v loc p = p\<lparr>fp_world := lf_remove (pa_lf v) loc (fp_world p), fp_editing := (fp_editing p)(loc := None)\<rparr>"

text \<open>\<open>sel\<close> is the selected entry of those shown.\<close>

definition onItemActivated :: "'w panel_around \<Rightarrow> string \<Rightarrow> SftpEntry option \<Rightarrow> 'w file_panel \<Rightarrow> 'w file_panel" where
  "onItemActivated v uuid sel p =
     (case sel of
        None \<Rightarrow> p
      | Some e \<Rightarrow>
          if e_name e = [] \<or> e_name e = ''.'' then p
          else let target = join_path (fp_cwd p) (e_name e)
               in if e_dir e then navigateTo v target p else editRemote v uuid target p)"

section \<open>Transfers\<close>

text \<open>\<open>choice\<close> is what the user picks in a dialog, empty if nothing. \<open>again\<close> says whether the dialog of the
  transfer, once closed, counts as cancelled.\<close>

definition download :: "nat \<Rightarrow> 'w panel_around \<Rightarrow> SftpEntry option \<Rightarrow> string \<Rightarrow> ('w \<Rightarrow> bool) \<Rightarrow> 'w file_panel \<Rightarrow> 'w file_panel option" where
  "download k v sel choice again p =
     (case sel of
        None \<Rightarrow> Some p
      | Some e \<Rightarrow>
          if e_name e = [] \<or> \<not> panel_ready v p then Some p
          else let remote = join_path (fp_cwd p) (e_name e);
                   loc = (if choice = [] then [] else if e_dir e then filePath (pa_host v) choice (e_name e) else choice)
               in if loc = [] then Some p
                  else case downloadTree k (pa_host v) (pa_fs v) (pa_lf v) remote loc (e_dir e) (fp_world p) of
                         None \<Rightarrow> None
                       | Some (n, w) \<Rightarrow> Some (p\<lparr>fp_world := w, fp_status :=
                           (if 0 \<le> n then Downloaded n else if again w then DownloadCanceled else DownloadFailed)\<rparr>))"

definition upload :: "'w panel_around \<Rightarrow> string \<Rightarrow> 'w file_panel \<Rightarrow> 'w file_panel" where
  "upload v choice p =
     (if \<not> panel_ready v p \<or> choice = [] then p
      else let (n, w) = rf_upload (pa_fs v) choice (join_path (fp_cwd p) (fileName choice)) (fp_world p);
               p = p\<lparr>fp_world := w, fp_status := (if 0 \<le> n then Uploaded n else UploadFailed)\<rparr>
           in if 0 \<le> n then refresh v p else p)"

definition uploadFolder :: "nat \<Rightarrow> 'w panel_around \<Rightarrow> string \<Rightarrow> ('w \<Rightarrow> bool) \<Rightarrow> 'w file_panel \<Rightarrow> 'w file_panel option" where
  "uploadFolder k v choice again p =
     (if \<not> panel_ready v p \<or> choice = [] then Some p
      else case uploadTree k (pa_host v) (pa_fs v) (pa_lf v) choice (join_path (fp_cwd p) (fileName choice)) (fp_world p) of
             None \<Rightarrow> None
           | Some (n, w) \<Rightarrow>
               let p = p\<lparr>fp_world := w, fp_status := (if 0 \<le> n then Uploaded n else if again w then UploadCanceled else UploadFailed)\<rparr>
               in Some (if 0 \<le> n then refresh v p else p))"

text \<open>Files dropped on the panel: the loop over the local ones among them, and what follows it.\<close>

fun drop_files :: "nat \<Rightarrow> 'w panel_around \<Rightarrow> string \<Rightarrow> string list \<Rightarrow> nat \<Rightarrow> 'w \<Rightarrow> (nat \<times> 'w) option" where
  "drop_files k v dir [] n w = Some (n, w)"
| "drop_files k v dir (loc # ls) n w =
     (if lf_canceled (pa_lf v) w then drop_files k v dir ls n w
      else case uploadTree k (pa_host v) (pa_fs v) (pa_lf v) loc (join_path dir (fileName loc)) w of
             None \<Rightarrow> None
           | Some (b, w) \<Rightarrow> drop_files k v dir ls (if 0 \<le> b then n + 1 else n) w)"

definition dropEvent :: "nat \<Rightarrow> 'w panel_around \<Rightarrow> string list \<Rightarrow> 'w file_panel \<Rightarrow> 'w file_panel option" where
  "dropEvent k v locals p =
     (if \<not> panel_ready v p then Some p
      else case drop_files k v (fp_cwd p) locals 0 (fp_world p) of
             None \<Rightarrow> None
           | Some (n, w) \<Rightarrow> let p = p\<lparr>fp_world := w, fp_status := UploadedItems n\<rparr> in Some (if n \<noteq> 0 then refresh v p else p))"

text \<open>A file dragged out of the list is downloaded first; the result is what is then offered.\<close>

definition drag_out :: "'w panel_around \<Rightarrow> SftpEntry option \<Rightarrow> 'w file_panel \<Rightarrow> string option \<times> 'w file_panel" where
  "drag_out v sel p =
     (case sel of
        None \<Rightarrow> (None, p)
      | Some e \<Rightarrow>
          if e_name e = [] \<or> e_dir e \<or> \<not> panel_ready v p then (None, p)
          else let tmp = filePath (pa_host v) (pa_tmp v) (e_name e);
                   (n, w) = rf_download (pa_fs v) (join_path (fp_cwd p) (e_name e)) tmp (fp_world p)
               in (if 0 \<le> n then Some tmp else None, p\<lparr>fp_world := w\<rparr>))"

section \<open>The menu\<close>

text \<open>The menu is for the selected entry, and appears only while there is a connection.\<close>

definition done_refresh :: "'w panel_around \<Rightarrow> bool \<times> 'w \<Rightarrow> 'w file_panel \<Rightarrow> 'w file_panel" where
  "done_refresh v r p = (let p = p\<lparr>fp_world := snd r\<rparr> in if fst r then refresh v p else p)"

definition scpDownload :: "'w panel_around \<Rightarrow> string \<Rightarrow> string \<Rightarrow> 'w file_panel \<Rightarrow> 'w file_panel" where
  "scpDownload v target choice p =
     (if choice = [] then p
      else let (n, w) = rf_scpDownload (pa_fs v) target choice (fp_world p)
           in p\<lparr>fp_world := w, fp_status := (if 0 \<le> n then ScpDownloaded n else ScpFailed)\<rparr>)"

text \<open>\<open>QString::toUInt\<close> in base 8.\<close>

definition oct_val :: "string \<Rightarrow> nat" where
  "oct_val s = foldl (\<lambda>n c. n * 8 + (of_char c - 48)) 0 s"

definition to_uint_oct :: "string \<Rightarrow> u32 option" where
  "to_uint_oct s =
     (let t = trimmed s; t = (if t \<noteq> [] \<and> hd t = CHR ''+'' then tl t else t)
      in if t \<noteq> [] \<and> list_all (\<lambda>c. of_char c \<in> {48 .. 55 :: nat}) t \<and> oct_val t < 2 ^ 32 then Some (of_nat (oct_val t)) else None)"

definition chmod_entry :: "'w panel_around \<Rightarrow> string \<Rightarrow> string option \<Rightarrow> 'w file_panel \<Rightarrow> 'w file_panel" where
  "chmod_entry v target mode p =
     (case mode of
        None \<Rightarrow> p
      | Some s \<Rightarrow> (case to_uint_oct s of None \<Rightarrow> p | Some m \<Rightarrow> done_refresh v (rf_chmod (pa_fs v) target m (fp_world p)) p))"

definition rename_entry :: "'w panel_around \<Rightarrow> string \<Rightarrow> string option \<Rightarrow> 'w file_panel \<Rightarrow> 'w file_panel" where
  "rename_entry v target new p =
     (case new of
        None \<Rightarrow> p
      | Some n \<Rightarrow> if n = [] then p else done_refresh v (rf_rename (pa_fs v) target (join_path (fp_cwd p) n) (fp_world p)) p)"

definition delete_entry :: "'w panel_around \<Rightarrow> string \<Rightarrow> bool \<Rightarrow> bool \<Rightarrow> 'w file_panel \<Rightarrow> 'w file_panel" where
  "delete_entry v target isDir yes p =
     (if \<not> yes then p
      else done_refresh v ((if isDir then rf_removeDir (pa_fs v) else rf_removeFile (pa_fs v)) target (fp_world p)) p)"

definition new_folder :: "'w panel_around \<Rightarrow> string option \<Rightarrow> 'w file_panel \<Rightarrow> 'w file_panel" where
  "new_folder v new p =
     (case new of
        None \<Rightarrow> p
      | Some n \<Rightarrow> if n = [] then p else done_refresh v (rf_makeDir (pa_fs v) (join_path (fp_cwd p) n) (fp_world p)) p)"

datatype menu_choice = MEdit string | MDownload string bool | MScp string | MChmod "string option" | MRename "string option" | MDelete bool
  | MNewFolder "string option" | MUpload string | MUploadFolder string bool | MRefresh

text \<open>The choices for an entry are offered only where one is selected, and those for files only for files.\<close>

definition showContextMenu :: "nat \<Rightarrow> 'w panel_around \<Rightarrow> SftpEntry option \<Rightarrow> menu_choice \<Rightarrow> 'w file_panel \<Rightarrow> 'w file_panel option" where
  "showContextMenu k v sel m p =
     (if \<not> panel_ready v p then Some p
      else case m of
             MNewFolder n \<Rightarrow> Some (new_folder v n p)
           | MUpload c \<Rightarrow> Some (upload v c p)
           | MUploadFolder c again \<Rightarrow> uploadFolder k v c (\<lambda>_. again) p
           | MRefresh \<Rightarrow> Some (refresh v p)
           | _ \<Rightarrow>
             (case sel of
                None \<Rightarrow> Some p
              | Some e \<Rightarrow>
                  if e_name e = [] \<or> e_name e = ''.'' then Some p
                  else let target = join_path (fp_cwd p) (e_name e)
                       in (case m of
                             MEdit uuid \<Rightarrow> Some (if e_dir e then p else editRemote v uuid target p)
                           | MDownload c again \<Rightarrow> if e_dir e then Some p else download k v sel c (\<lambda>_. again) p
                           | MScp c \<Rightarrow> Some (if e_dir e then p else scpDownload v target c p)
                           | MChmod a \<Rightarrow> Some (chmod_entry v target a p)
                           | MRename a \<Rightarrow> Some (rename_entry v target a p)
                           | MDelete yes \<Rightarrow> Some (delete_entry v target (e_dir e) yes p)
                           | _ \<Rightarrow> Some p)))"

section \<open>Events\<close>

datatype browse_event = OpenFor Session | CloseSession | PathEntered string | Refresh | Up | Home | TerminalAt string | Follow bool
  | Activated string "SftpEntry option" | Download "SftpEntry option" string bool | Upload string | UploadFolder string bool
  | Dropped "string list" | DraggedOut "SftpEntry option" | Menu "SftpEntry option" menu_choice | Saved string | Closed string

fun browse :: "nat \<Rightarrow> 'w panel_around \<Rightarrow> browse_event \<Rightarrow> 'w file_panel \<Rightarrow> 'w file_panel option" where
  "browse k v (OpenFor s) p = Some (snd (openFor v s p))"
| "browse k v CloseSession p = Some (closeSession v p)"
| "browse k v (PathEntered t) p = Some (navigateTo v t p)"
| "browse k v Refresh p = Some (refresh v p)"
| "browse k v Up p = Some (goUp v p)"
| "browse k v Home p = Some (goHome v p)"
| "browse k v (TerminalAt t) p = Some (setRemoteCwd v t p)"
| "browse k v (Follow on) p = Some (p\<lparr>fp_follow := on\<rparr>)"
| "browse k v (Activated uuid sel) p = Some (onItemActivated v uuid sel p)"
| "browse k v (Download sel c again) p = download k v sel c (\<lambda>_. again) p"
| "browse k v (Upload c) p = Some (upload v c p)"
| "browse k v (UploadFolder c again) p = uploadFolder k v c (\<lambda>_. again) p"
| "browse k v (Dropped ls) p = dropEvent k v ls p"
| "browse k v (DraggedOut sel) p = Some (snd (drag_out v sel p))"
| "browse k v (Menu sel m) p = showContextMenu k v sel m p"
| "browse k v (Saved l) p = Some (fileSaved v l p)"
| "browse k v (Closed l) p = Some (editorClosed v l p)"

fun browse_all :: "nat \<Rightarrow> 'w panel_around \<Rightarrow> browse_event list \<Rightarrow> 'w file_panel \<Rightarrow> 'w file_panel option" where
  "browse_all k v [] p = Some p"
| "browse_all k v (e # es) p = (case browse k v e p of None \<Rightarrow> None | Some p \<Rightarrow> browse_all k v es p)"

section \<open>Where an edited file goes\<close>

lemmas walk_defs = refresh_def goUp_def goHome_def setRemoteCwd_def navigateTo_def

lemma navigate_editing [simp]: "fp_editing (navigateTo v path p) = fp_editing p"
  by (auto simp: navigateTo_def split: option.split prod.split)

lemma refresh_editing [simp]: "fp_editing (refresh v p) = fp_editing p"
  by (simp add: refresh_def)

lemma done_refresh_editing [simp]: "fp_editing (done_refresh v r p) = fp_editing p"
  by (simp add: done_refresh_def Let_def)

lemma open_editing [simp]: "fp_editing (snd (openFor v s p)) = fp_editing p"
  by (simp add: openFor_def Let_def split: prod.split)

lemma walk_editing [simp]:
  "fp_editing (goUp v p) = fp_editing p" "fp_editing (goHome v p) = fp_editing p" "fp_editing (setRemoteCwd v path p) = fp_editing p"
  "fp_editing (closeSession v p) = fp_editing p" "fp_editing (upload v c p) = fp_editing p" "fp_editing (fileSaved v l p) = fp_editing p"
  "fp_editing (snd (drag_out v sel p)) = fp_editing p" "fp_editing (scpDownload v t c p) = fp_editing p"
  "fp_editing (chmod_entry v t m p) = fp_editing p" "fp_editing (rename_entry v t n p) = fp_editing p"
  "fp_editing (delete_entry v t d yes p) = fp_editing p" "fp_editing (new_folder v n p) = fp_editing p"
  by (simp_all add: goUp_def goHome_def setRemoteCwd_def closeSession_def upload_def fileSaved_def drag_out_def scpDownload_def
      chmod_entry_def rename_entry_def delete_entry_def new_folder_def Let_def split: prod.split option.split)

lemma transfer_editing:
  "download k v sel c again p = Some p' \<Longrightarrow> fp_editing p' = fp_editing p"
  "uploadFolder k v c again p = Some p' \<Longrightarrow> fp_editing p' = fp_editing p"
  "dropEvent k v ls p = Some p' \<Longrightarrow> fp_editing p' = fp_editing p"
  by (auto simp: download_def uploadFolder_def dropEvent_def Let_def split: if_splits option.splits)

text \<open>The name made up for the local copy of a file.\<close>

fun copy_ids :: "browse_event \<Rightarrow> string set" where
  "copy_ids (Activated uuid sel) = {uuid}"
| "copy_ids (Menu sel (MEdit uuid)) = {uuid}"
| "copy_ids e = {}"

definition leaves_copy :: "'w panel_around \<Rightarrow> string \<Rightarrow> browse_event \<Rightarrow> bool" where
  "leaves_copy v loc e \<longleftrightarrow> e \<noteq> Closed loc \<and> (\<forall>u \<in> copy_ids e. \<forall>r. edit_copy v u r \<noteq> loc)"

lemma edit_editing: "(\<forall>r. edit_copy v u r \<noteq> loc) \<Longrightarrow> fp_editing (editRemote v u r p) loc = fp_editing p loc"
  by (auto simp: editRemote_def Let_def split: prod.split)

lemma activated_editing: "(\<forall>r. edit_copy v u r \<noteq> loc) \<Longrightarrow> fp_editing (onItemActivated v u sel p) loc = fp_editing p loc"
  by (auto simp: onItemActivated_def Let_def edit_editing split: option.split)

lemma menu_editing:
  assumes "showContextMenu k v sel m p = Some p'" and "\<forall>u \<in> copy_ids (Menu sel m). \<forall>r. edit_copy v u r \<noteq> loc"
  shows "fp_editing p' loc = fp_editing p loc"
  using assms transfer_editing(1,2)
  by (cases m) (fastforce simp: showContextMenu_def Let_def edit_editing split: if_splits option.splits)+

lemma browse_editing:
  assumes "browse k v e p = Some p'" and "leaves_copy v loc e"
  shows "fp_editing p' loc = fp_editing p loc"
  using assms
  by (cases e) (auto simp: leaves_copy_def editorClosed_def activated_editing menu_editing dest: transfer_editing)

lemma browse_all_editing:
  "browse_all k v es p = Some p' \<Longrightarrow> list_all (leaves_copy v loc) es \<Longrightarrow> fp_editing p' loc = fp_editing p loc"
proof (induction es arbitrary: p)
  case (Cons e es)
  then obtain p1 where "browse k v e p = Some p1" "browse_all k v es p1 = Some p'" by (auto split: option.splits)
  with Cons browse_editing [OF this(1)] show ?case by simp
qed simp

text \<open>What the backend is connected to, which only opening and closing a session changes: no other operation of the
  backend, of the disk or of a progress dialog does.\<close>

definition one_peer :: "('w \<Rightarrow> 'p) \<Rightarrow> 'w remote_fs \<Rightarrow> 'w local_fs \<Rightarrow> bool" where
  "one_peer peer fs lf \<longleftrightarrow>
     (\<forall>x w. peer (snd (rf_realpath fs x w)) = peer w) \<and> (\<forall>x w. peer (snd (rf_list fs x w)) = peer w) \<and>
     (\<forall>x y w. peer (snd (rf_download fs x y w)) = peer w) \<and> (\<forall>x y w. peer (snd (rf_upload fs x y w)) = peer w) \<and>
     (\<forall>x w. peer (snd (rf_makeDir fs x w)) = peer w) \<and> (\<forall>x w. peer (snd (rf_removeFile fs x w)) = peer w) \<and>
     (\<forall>x w. peer (snd (rf_removeDir fs x w)) = peer w) \<and> (\<forall>x y w. peer (snd (rf_rename fs x y w)) = peer w) \<and>
     (\<forall>x m w. peer (snd (rf_chmod fs x m w)) = peer w) \<and> (\<forall>x y w. peer (snd (rf_scpDownload fs x y w)) = peer w) \<and>
     (\<forall>x w. peer (snd (lf_mkpath lf x w)) = peer w) \<and> (\<forall>x w. peer (lf_remove lf x w) = peer w) \<and> (\<forall>x w. peer (lf_item lf x w) = peer w)"

lemma one_peerD:
  assumes "one_peer peer fs lf"
  shows "peer (snd (rf_realpath fs x w)) = peer w" "peer (snd (rf_list fs x w)) = peer w" "peer (snd (rf_download fs x y w)) = peer w"
    "peer (snd (rf_upload fs x y w)) = peer w" "peer (snd (rf_makeDir fs x w)) = peer w" "peer (snd (rf_removeFile fs x w)) = peer w"
    "peer (snd (rf_removeDir fs x w)) = peer w" "peer (snd (rf_rename fs x y w)) = peer w" "peer (snd (rf_chmod fs x m w)) = peer w"
    "peer (snd (rf_scpDownload fs x y w)) = peer w" "peer (snd (lf_mkpath lf x w)) = peer w" "peer (lf_remove lf x w) = peer w"
    "peer (lf_item lf x w) = peer w"
  using assms by (simp_all add: one_peer_def)

lemma entries_peer:
  "(\<And>e w n w'. go e w = Some (n, w') \<Longrightarrow> peer w' = peer w) \<Longrightarrow> transfer_entries go c es n w = Some (m, w') \<Longrightarrow> peer w' = peer w"
proof (induction es arbitrary: n w)
  case (Cons e es)
  show ?case
  proof (cases "c w")
    case False
    then obtain b w1 where g: "go e w = Some (b, w1)" using Cons.prems(2) by (auto split: option.splits)
    with False Cons.prems(2) have "w' = w1 \<or> transfer_entries go c es (n + b) w1 = Some (m, w')" by (auto split: if_splits)
    then show ?thesis using Cons.IH [OF Cons.prems(1)] Cons.prems(1) [OF g] by auto
  qed (use Cons.prems(2) in simp)
qed simp

lemma trees_peer:
  assumes "one_peer peer fs lf"
  shows "downloadTree k h fs lf r l d w = Some (n, w') \<Longrightarrow> peer w' = peer w"
    "uploadTree k h fs lf l r w = Some (n, w') \<Longrightarrow> peer w' = peer w"
proof -
  note keep = one_peerD [OF assms]
  have swap: "peer w' = peer w" if "f = (a, w')" "peer (snd f) = peer w" for f :: "'c \<times> 'a" and a w w' using that by simp
  show "downloadTree k h fs lf r l d w = Some (n, w') \<Longrightarrow> peer w' = peer w"
  proof (induction k arbitrary: r l d w n w')
    case (Suc k)
    obtain made w1 where m: "lf_mkpath lf l w = (made, w1)" by (metis surj_pair)
    obtain es w2 where e: "rf_list fs r w1 = (es, w2)" by (metis surj_pair)
    have p: "peer w1 = peer w" "peer w2 = peer w" using keep(11) [of l w] keep(2) [of r w1] by (simp_all add: m e)
    show ?case
    proof (cases "lf_canceled lf w \<or> \<not> d \<or> \<not> made \<or> es = None")
      case True
      then show ?thesis using Suc.prems p keep(3) [of r l "lf_item lf r w"] keep(13) [of r w]
        by (auto simp: downloadTree.simps m e split: if_splits option.splits)
    next
      case False
      then have "transfer_entries (\<lambda>e. downloadTree k h fs lf (join_path r (e_name e)) (filePath h l (e_name e)) (e_dir e))
          (lf_canceled lf) (filter (\<lambda>e. \<not> dot_entry e) (the es)) 0 w2 = Some (n, w')"
        using Suc.prems by (auto simp: downloadTree.simps m e)
      from entries_peer [OF _ this, of peer] Suc.IH p show ?thesis by metis
    qed
  qed (simp add: downloadTree.simps)
  show "uploadTree k h fs lf l r w = Some (n, w') \<Longrightarrow> peer w' = peer w"
  proof (induction k arbitrary: r l w n w')
    case (Suc k)
    obtain made w1 where m: "rf_makeDir fs r w = (made, w1)" by (metis surj_pair)
    have p: "peer w1 = peer w" using keep(5) [of r w] by (simp add: m)
    show ?case
    proof (cases "lf_canceled lf w \<or> \<not> lf_isDir lf l w")
      case True
      then show ?thesis using Suc.prems keep(4) [of l r "lf_item lf l w"] keep(13) [of l w]
        by (auto simp: uploadTree.simps m split: if_splits)
    next
      case False
      then have "transfer_entries (\<lambda>x. uploadTree k h fs lf (filePath h l x) (join_path r x)) (lf_canceled lf) (lf_names lf l w1) 0 w1 = Some (n, w')"
        using Suc.prems by (simp add: uploadTree.simps m)
      from entries_peer [OF _ this, of peer] Suc.IH p show ?thesis by metis
    qed
  qed (simp add: uploadTree.simps)
qed

lemma drops_peer:
  assumes "one_peer peer (pa_fs v) (pa_lf v)"
  shows "drop_files k v dir ls n w = Some (m, w') \<Longrightarrow> peer w' = peer w"
proof (induction ls arbitrary: n w)
  case (Cons l ls)
  show ?case
  proof (cases "lf_canceled (pa_lf v) w")
    case False
    then obtain b w1 n1 where u: "uploadTree k (pa_host v) (pa_fs v) (pa_lf v) l (join_path dir (fileName l)) w = Some (b, w1)"
      "drop_files k v dir ls n1 w1 = Some (m, w')"
      using Cons.prems by (auto split: option.splits)
    show ?thesis using Cons.IH [OF u(2)] trees_peer(2) [OF assms u(1)] by simp
  qed (use Cons in simp)
qed simp

definition keeps_session :: "browse_event \<Rightarrow> bool" where
  "keeps_session e \<longleftrightarrow> e \<noteq> CloseSession \<and> (\<forall>s. e \<noteq> OpenFor s)"

lemma walk_peer:
  assumes "one_peer peer (pa_fs v) (pa_lf v)"
  shows "peer (fp_world (navigateTo v path p)) = peer (fp_world p)" "peer (fp_world (refresh v p)) = peer (fp_world p)"
    "peer (fp_world (goUp v p)) = peer (fp_world p)" "peer (fp_world (goHome v p)) = peer (fp_world p)"
    "peer (fp_world (setRemoteCwd v path p)) = peer (fp_world p)"
    "peer (snd r) = peer (fp_world p) \<Longrightarrow> peer (fp_world (done_refresh v r p)) = peer (fp_world p)"
proof -
  have n: "peer (fp_world (navigateTo v path p)) = peer (fp_world p)" for path p
    using one_peerD(2) [OF assms, of path "fp_world p"] by (auto simp: navigateTo_def split: option.split prod.split)
  then show "peer (fp_world (navigateTo v path p)) = peer (fp_world p)" "peer (fp_world (refresh v p)) = peer (fp_world p)"
    "peer (fp_world (goUp v p)) = peer (fp_world p)" "peer (fp_world (goHome v p)) = peer (fp_world p)"
    "peer (fp_world (setRemoteCwd v path p)) = peer (fp_world p)"
    "peer (snd r) = peer (fp_world p) \<Longrightarrow> peer (fp_world (done_refresh v r p)) = peer (fp_world p)"
    by (simp_all add: refresh_def goUp_def goHome_def setRemoteCwd_def done_refresh_def Let_def)
qed

lemma steps_peer:
  assumes "one_peer peer (pa_fs v) (pa_lf v)"
  shows "peer (fp_world (editRemote v uuid r p)) = peer (fp_world p)" "peer (fp_world (fileSaved v l p)) = peer (fp_world p)"
    "peer (fp_world (editorClosed v l p)) = peer (fp_world p)" "peer (fp_world (upload v c p)) = peer (fp_world p)"
    "peer (fp_world (snd (drag_out v sel p))) = peer (fp_world p)" "peer (fp_world (scpDownload v t c p)) = peer (fp_world p)"
    "peer (fp_world (chmod_entry v t md p)) = peer (fp_world p)" "peer (fp_world (rename_entry v t n p)) = peer (fp_world p)"
    "peer (fp_world (delete_entry v t d yes p)) = peer (fp_world p)" "peer (fp_world (new_folder v n p)) = peer (fp_world p)"
  using one_peerD [OF assms] walk_peer [OF assms]
  by (simp_all add: editRemote_def fileSaved_def editorClosed_def upload_def drag_out_def scpDownload_def chmod_entry_def rename_entry_def
      delete_entry_def new_folder_def Let_def split_beta split: option.split)

lemma transfers_peer:
  assumes "one_peer peer (pa_fs v) (pa_lf v)"
  shows "download k v sel c again p = Some p' \<Longrightarrow> peer (fp_world p') = peer (fp_world p)"
    "uploadFolder k v c again p = Some p' \<Longrightarrow> peer (fp_world p') = peer (fp_world p)"
    "dropEvent k v ls p = Some p' \<Longrightarrow> peer (fp_world p') = peer (fp_world p)"
proof -
  note r = walk_peer(2) [OF assms]
  show "download k v sel c again p = Some p' \<Longrightarrow> peer (fp_world p') = peer (fp_world p)"
    by (auto simp: download_def Let_def split: if_splits option.splits dest: trees_peer(1) [OF assms])
  show "uploadFolder k v c again p = Some p' \<Longrightarrow> peer (fp_world p') = peer (fp_world p)"
    by (auto simp: uploadFolder_def Let_def r split: if_splits option.splits dest: trees_peer(2) [OF assms])
  show "dropEvent k v ls p = Some p' \<Longrightarrow> peer (fp_world p') = peer (fp_world p)"
    by (auto simp: dropEvent_def Let_def r split: if_splits option.splits dest: drops_peer [OF assms])
qed

lemma menu_peer:
  assumes "one_peer peer (pa_fs v) (pa_lf v)" and "showContextMenu k v sel m p = Some p'"
  shows "peer (fp_world p') = peer (fp_world p)"
  using assms(2) transfers_peer(1,2) [OF assms(1)]
  by (cases m) (auto simp: showContextMenu_def Let_def steps_peer [OF assms(1)] walk_peer [OF assms(1)] split: if_splits option.splits)

lemma browse_peer:
  assumes "one_peer peer (pa_fs v) (pa_lf v)" and "browse k v e p = Some p'" and "keeps_session e"
  shows "peer (fp_world p') = peer (fp_world p)"
  using assms(2,3)
  by (cases e) (auto simp: keeps_session_def onItemActivated_def Let_def steps_peer [OF assms(1)] walk_peer [OF assms(1)]
      dest: transfers_peer [OF assms(1)] menu_peer [OF assms(1)] split: option.splits)

lemma browse_all_peer:
  assumes "one_peer peer (pa_fs v) (pa_lf v)"
  shows "browse_all k v es p = Some p' \<Longrightarrow> list_all keeps_session es \<Longrightarrow> peer (fp_world p') = peer (fp_world p)"
proof (induction es arbitrary: p)
  case (Cons e es)
  then obtain p1 where "browse k v e p = Some p1" "browse_all k v es p1 = Some p'" by (auto split: option.splits)
  with Cons browse_peer [OF assms this(1)] show ?case by simp
qed simp

text \<open>C30: When a file that was opened from the panel is saved in its editor, its local copy is uploaded to the path
  it was opened from, whatever was done in the panel in between but closing that editor, and the user is told whether
  that worked. The upload goes over the same connection if the panel was neither given another session nor closed
  since (only this changes what the backend is connected to). The names made up for copies are different.\<close>

theorem edit_saves_back:
  assumes "panel_ready v p" and "\<not> e_dir e" and "e_name e \<noteq> []" and "e_name e \<noteq> ''.''"
    and "remote = join_path (fp_cwd p) (e_name e)" and "loc = edit_copy v uuid remote"
    and "0 \<le> fst (rf_download (pa_fs v) remote loc (fp_world p))"
    and "browse_all k v (Activated uuid (Some e) # es) p = Some p'" and "list_all (leaves_copy v loc) es" and "remote \<noteq> []"
    and "one_peer peer (pa_fs v) (pa_lf v)"
  shows "browse k v (Saved loc) p' = (case rf_upload (pa_fs v) loc remote (fp_world p') of
      (n, w) \<Rightarrow> Some (p'\<lparr>fp_world := w, fp_status := (if 0 \<le> n then SavedBack n remote else SaveBackFailed)\<rparr>)) \<and>
    (list_all keeps_session es \<longrightarrow> peer (fp_world p') = peer (fp_world p))"
proof -
  obtain p1 where p1: "onItemActivated v uuid (Some e) p = p1" "browse_all k v es p1 = Some p'" using assms(8) by simp
  have "fp_editing p1 loc = Some remote"
    using p1(1) assms(1-7) by (auto simp: onItemActivated_def editRemote_def Let_def split: prod.splits)
  with browse_all_editing [OF p1(2) assms(9)] have "fp_editing p' loc = Some remote" by simp
  moreover have "peer (fp_world p') = peer (fp_world p)" if "list_all keeps_session es"
    using browse_all_peer [OF assms(11,8)] that by (simp add: keeps_session_def)
  ultimately show ?thesis using assms(10) by (simp add: fileSaved_def split: prod.split)
qed

text \<open>Nothing ties the copy to the connection it came over: after another session was opened in the panel
  it is written to that session's server.\<close>

lemma edit_saved_elsewhere:
  assumes "fp_editing p loc = Some remote" and "remote \<noteq> []"
  shows "fp_world (fileSaved v loc (snd (openFor v other p))) = snd (rf_upload (pa_fs v) loc remote (fp_world (snd (openFor v other p))))"
  using assms by (simp add: fileSaved_def Let_def split_beta)

section \<open>What is shown\<close>

text \<open>The names shown are those of the current directory.\<close>

definition shows_cwd :: "'w file_panel \<Rightarrow> bool" where
  "shows_cwd p \<longleftrightarrow> fp_shown p = [] \<or> fp_bar p = fp_cwd p"

lemma navigate_shows: "shows_cwd p \<Longrightarrow> shows_cwd (navigateTo v path p)"
  by (auto simp: shows_cwd_def navigateTo_def split: option.split prod.split)

lemma shows_fields: "shows_cwd (p\<lparr>fp_world := w\<rparr>) = shows_cwd p" "shows_cwd (p\<lparr>fp_status := st\<rparr>) = shows_cwd p"
  "shows_cwd (p\<lparr>fp_editing := m\<rparr>) = shows_cwd p" "shows_cwd (p\<lparr>fp_follow := on\<rparr>) = shows_cwd p"
  "shows_cwd (p\<lparr>fp_world := w, fp_status := st\<rparr>) = shows_cwd p"
  "shows_cwd (p\<lparr>fp_world := w, fp_status := st, fp_editing := m\<rparr>) = shows_cwd p"
  "shows_cwd (p\<lparr>fp_world := w, fp_editing := m\<rparr>) = shows_cwd p"
  by (simp_all add: shows_cwd_def)

lemmas shows_intros = navigate_shows shows_fields [THEN iffD2]

lemma shows_done: "shows_cwd p \<Longrightarrow> shows_cwd (done_refresh v r p)"
  by (simp add: done_refresh_def refresh_def Let_def shows_intros)

lemma shows_steps:
  assumes "shows_cwd p"
  shows "shows_cwd (refresh v p)" "shows_cwd (goUp v p)" "shows_cwd (goHome v p)" "shows_cwd (setRemoteCwd v path p)"
    "shows_cwd (editRemote v u r p)" "shows_cwd (fileSaved v l p)" "shows_cwd (editorClosed v l p)"
    "shows_cwd (onItemActivated v u sel p)" "shows_cwd (snd (drag_out v sel p))" "shows_cwd (scpDownload v t c p)"
    "shows_cwd (chmod_entry v t m p)" "shows_cwd (rename_entry v t n p)" "shows_cwd (delete_entry v t d yes p)" "shows_cwd (new_folder v n p)"
    "shows_cwd (upload v c p)"
  using assms
  by (auto simp: refresh_def goUp_def goHome_def setRemoteCwd_def editRemote_def fileSaved_def editorClosed_def onItemActivated_def
      drag_out_def scpDownload_def chmod_entry_def rename_entry_def delete_entry_def new_folder_def upload_def Let_def
      intro: shows_intros shows_done split: prod.split option.split)

lemma shows_close: "shows_cwd (closeSession v p)"
  by (simp add: shows_cwd_def closeSession_def)

lemma shows_transfers:
  assumes "shows_cwd p"
  shows "download k v sel c again p = Some p' \<Longrightarrow> shows_cwd p'" "uploadFolder k v c again p = Some p' \<Longrightarrow> shows_cwd p'"
    "dropEvent k v ls p = Some p' \<Longrightarrow> shows_cwd p'"
  using assms
  by (auto simp: download_def uploadFolder_def dropEvent_def refresh_def Let_def shows_fields navigate_shows split: if_splits option.splits)

lemma shows_menu: "showContextMenu k v sel m p = Some p' \<Longrightarrow> shows_cwd p \<Longrightarrow> shows_cwd p'"
  by (cases m) (auto simp: showContextMenu_def Let_def intro: shows_steps dest: shows_transfers split: if_splits option.splits)

lemma shows_browse:
  assumes "browse k v e p = Some p'" and "shows_cwd p" and "\<forall>s. e = OpenFor s \<longrightarrow> fp_shown p = []"
  shows "shows_cwd p'"
  using assms
  by (cases e) (auto simp: openFor_def Let_def shows_cwd_def [of "p\<lparr>fp_world := _, fp_cwd := _, fp_home := _\<rparr>"]
      intro: shows_steps shows_intros shows_close dest: shows_transfers shows_menu split: prod.splits if_splits)

text \<open>A session that is opened in a panel that still shows another's files, and whose directory cannot be
  listed: the names of the one stand beside the path of the other, and the menu acts on the mixture.\<close>

lemma reopen_mixes:
  assumes "rf_connect (pa_fs v) s (fp_world p) = (True, w1)" and "rf_realpath (pa_fs v) ''.'' w1 = (dir, w2)" and "dir \<noteq> []"
    and "rf_ready (pa_fs v) w2" and "rf_list (pa_fs v) dir w2 = (None, w3)"
  shows "fp_shown (snd (openFor v s p)) = fp_shown p" "fp_cwd (snd (openFor v s p)) = dir" "fp_bar (snd (openFor v s p)) = fp_bar p"
  using assms by (simp_all add: openFor_def navigateTo_def panel_ready_def)

section \<open>An example\<close>

text \<open>A backend over the name of the server it is connected to and the uploads that were made, each with its server.\<close>

definition demo_servers :: "(string \<times> (string \<times> string) list) remote_fs" where
  "demo_servers = \<lparr>rf_connect = (\<lambda>s w. (True, (param s ''host'', snd w))), rf_ready = (\<lambda>w. fst w \<noteq> []), rf_realpath = Pair,
     rf_list = (\<lambda>_ w. (Some [], w)), rf_download = (\<lambda>_ _ w. (3, w)), rf_upload = (\<lambda>_ r w. (4, (fst w, (fst w, r) # snd w))),
     rf_makeDir = (\<lambda>_ w. (True, w)), rf_removeFile = (\<lambda>_ w. (True, w)), rf_removeDir = (\<lambda>_ w. (True, w)), rf_rename = (\<lambda>_ _ w. (True, w)),
     rf_chmod = (\<lambda>_ _ w. (True, w)), rf_scpDownload = (\<lambda>_ _ w. (3, w))\<rparr>"

definition demo_around :: "(string \<times> (string \<times> string) list) panel_around" where
  "demo_around = \<lparr>pa_host = transfer_host, pa_fs = demo_servers,
     pa_lf = \<lparr>lf_mkpath = (\<lambda>_ w. (True, w)), lf_isDir = (\<lambda>_ _. False), lf_names = (\<lambda>_ _. []), lf_remove = (\<lambda>_ w. w),
       lf_canceled = (\<lambda>_. False), lf_item = (\<lambda>_ w. w)\<rparr>,
     pa_fresh = (\<lambda>w. ([], snd w)), pa_tmp = ''/tmp''\<rparr>"

definition demo_panel :: "(string \<times> (string \<times> string) list) file_panel" where
  "demo_panel = \<lparr>fp_world = (''alpha'', []), fp_cwd = ''/srv'', fp_home = ''/'', fp_follow = True, fp_shown = [], fp_bar = ''/srv'',
     fp_status = Idle, fp_editing = Map.empty\<rparr>"

theorem edit_saves_back_witness:
  "case browse_all 1 demo_around [Activated ''7'' (Some (demo_entry ''a'' False)), TerminalAt ''/srv/d''] demo_panel of
     None \<Rightarrow> False
   | Some p' \<Rightarrow> \<exists>p''. browse 1 demo_around (Saved ''/tmp/macxterm-7-a'') p' = Some p'' \<and> fp_status p'' = SavedBack 4 ''/srv/a'' \<and>
       hd (snd (fp_world p'')) = (''alpha'', ''/srv/a'')"
proof -
  have j: "join_path ''/srv'' ''a'' = ''/srv/a''" by code_simp
  have f: "edit_copy demo_around ''7'' ''/srv/a'' = ''/tmp/macxterm-7-a''"
  proof -
    have "fileName ''/srv/a'' = ''a''" by code_simp
    then show ?thesis by (simp add: edit_copy_def demo_around_def transfer_host_def)
  qed
  have pre: "panel_ready demo_around demo_panel" "\<not> e_dir (demo_entry ''a'' False)" "e_name (demo_entry ''a'' False) \<noteq> []"
    "e_name (demo_entry ''a'' False) \<noteq> ''.''" "''/srv/a'' = join_path (fp_cwd demo_panel) (e_name (demo_entry ''a'' False))"
    "0 \<le> fst (rf_download (pa_fs demo_around) ''/srv/a'' ''/tmp/macxterm-7-a'' (fp_world demo_panel))"
    by (simp_all add: panel_ready_def demo_around_def demo_panel_def demo_servers_def demo_entry_def j)
  obtain p' where p': "browse_all 1 demo_around [Activated ''7'' (Some (demo_entry ''a'' False)), TerminalAt ''/srv/d''] demo_panel = Some p'"
    by (cases "browse_all 1 demo_around [Activated ''7'' (Some (demo_entry ''a'' False)), TerminalAt ''/srv/d''] demo_panel") simp_all
  have l: "list_all (leaves_copy demo_around ''/tmp/macxterm-7-a'') [TerminalAt ''/srv/d'']" by (simp add: leaves_copy_def)
  have peer: "one_peer fst (pa_fs demo_around) (pa_lf demo_around)" by (simp add: one_peer_def demo_around_def demo_servers_def)
  have up: "rf_upload (pa_fs demo_around) x r w = (4, (fst w, (fst w, r) # snd w))" for x r w by (simp add: demo_around_def demo_servers_def)
  have "browse 1 demo_around (Saved ''/tmp/macxterm-7-a'') p' =
      Some (p'\<lparr>fp_world := (fst (fp_world p'), (fst (fp_world p'), ''/srv/a'') # snd (fp_world p')), fp_status := SavedBack 4 ''/srv/a''\<rparr>) \<and>
      fst (fp_world p') = ''alpha''"
    using edit_saves_back [OF pre(1-5) f [symmetric] pre(6) p' l _ peer] by (simp add: up keeps_session_def demo_panel_def)
  with p' show ?thesis by (simp del: browse.simps browse_all.simps)
qed

end
