(* ===== verification/Session_Manager.thy ===== *)
theory Session_Manager
  imports Session_Edit Importers Vault Store Tunnels
begin

text \<open>
  The main window's side of the saved sessions, \<open>src/src/ui/MainWindow.cpp\<close>: the tree of sessions, its copy in
  the database, and the vault that keeps the passwords; adding, editing, deleting, importing and exporting sessions,
  unlocking the vault, the quick connection and the way through a gateway. It puts the theories \<open>Session_Edit\<close>,
  \<open>Importers\<close>, \<open>Vault\<close> and \<open>Store\<close> together. What the user answers in a dialog is an argument.
\<close>

section \<open>State\<close>

record manager =
  mg_tree :: SessionFolder
  mg_store :: store
  mg_vault :: secrets
  mg_file :: "bytes option"
  mg_unlocked :: bool
  mg_dpapi :: bool
  mg_master :: string

text \<open>The libraries, and what chance and the disk give an operation that saves.\<close>

record manager_env =
  mn_host :: host
  mn_crypto :: crypto
  mn_dpapi :: "dpapi option"

record luck =
  lk_salt :: "bytes option"
  lk_nonce :: "bytes option"
  lk_opens :: bool
  lk_stores :: "bytes \<Rightarrow> nat"
  lk_commit :: commit

text \<open>The constructor: the sessions come from the database, if it opens; what is saved later goes there also when the
  tables could not be made.\<close>

definition start_manager :: "database option \<Rightarrow> bool \<Rightarrow> bytes option \<Rightarrow> manager option" where
  "start_manager content ddl_ok file =
     (let (good, st) = store_open content ddl_ok no_store
      in map_option (\<lambda>t. \<lparr>mg_tree = t, mg_store = st, mg_vault = [], mg_file = file, mg_unlocked = False, mg_dpapi = False, mg_master = []\<rparr>)
           (if good then loadTree st else Some (Folder ''Sessions'' [] [])))"

definition persistSessions :: "luck \<Rightarrow> manager \<Rightarrow> manager" where
  "persistSessions lk m =
     (if m_open (mg_store m) then m\<lparr>mg_store := snd (saveTree (lk_commit lk) (mg_tree m) (mg_store m))\<rparr> else m)"

section \<open>The vault\<close>

definition persistVault :: "manager_env \<Rightarrow> luck \<Rightarrow> manager \<Rightarrow> manager" where
  "persistVault v lk m =
     m\<lparr>mg_file := snd (if mg_dpapi m then saveDpapi (mn_host v) (mn_dpapi v) (lk_opens lk) (lk_stores lk) (mg_vault m) (mg_file m)
       else vault_save (mn_host v) (mn_crypto v) (lk_salt lk) (lk_nonce lk) (lk_opens lk) (lk_stores lk) (mg_master m) (mg_vault m) (mg_file m))\<rparr>"

text \<open>\<open>account\<close> is the answer to the question whether a new vault shall be protected by the Windows account, and
  \<open>answer\<close> the password of the dialog.\<close>

definition open_by_password :: "manager_env \<Rightarrow> luck \<Rightarrow> string option \<Rightarrow> manager \<Rightarrow> manager" where
  "open_by_password v lk answer m =
     (case answer of
        None \<Rightarrow> m
      | Some pw \<Rightarrow>
          let unlock = (\<lambda>m. m\<lparr>mg_unlocked := True, mg_dpapi := False, mg_master := pw\<rparr>)
          in if mg_file m \<noteq> None then
               let (good, secrets) = vault_load (mn_host v) (mn_crypto v) (mg_file m) pw (mg_vault m)
               in if good then unlock (m\<lparr>mg_vault := secrets\<rparr>) else m\<lparr>mg_vault := secrets\<rparr>
             else unlock (m\<lparr>mg_vault := [], mg_file :=
               snd (vault_save (mn_host v) (mn_crypto v) (lk_salt lk) (lk_nonce lk) (lk_opens lk) (lk_stores lk) pw [] (mg_file m))\<rparr>))"

definition openVault :: "manager_env \<Rightarrow> luck \<Rightarrow> bool \<Rightarrow> string option \<Rightarrow> manager \<Rightarrow> manager" where
  "openVault v lk account answer m =
     (let (good, secrets) = (if mg_file m \<noteq> None \<and> mn_dpapi v \<noteq> None then loadDpapi (mn_host v) (mn_dpapi v) (mg_file m) (mg_vault m)
                             else (False, mg_vault m))
      in if good then m\<lparr>mg_vault := secrets, mg_dpapi := True, mg_unlocked := True\<rparr>
         else if mn_dpapi v \<noteq> None \<and> mg_file m = None \<and> account then
           let m = m\<lparr>mg_vault := []\<rparr>; (saved, file) = saveDpapi (mn_host v) (mn_dpapi v) (lk_opens lk) (lk_stores lk) [] (mg_file m); m = m\<lparr>mg_file := file\<rparr>
           in if saved then m\<lparr>mg_dpapi := True, mg_unlocked := True\<rparr> else m
         else open_by_password v lk answer m)"

definition resolveSecrets :: "manager \<Rightarrow> Session \<Rightarrow> Session" where
  "resolveSecrets m s =
     (let ref = param s ''vault_ref''
      in if ref \<noteq> [] \<and> mg_unlocked m \<and> hasSecret (mg_vault m) ref then setParam ''password'' (secret (mg_vault m) ref) s else s)"

section \<open>Adding, editing and deleting\<close>

definition secret_ref :: "string \<Rightarrow> string" where
  "secret_ref n = ''session:'' @ n"

definition addAndSaveSession :: "manager_env \<Rightarrow> luck \<Rightarrow> Session \<Rightarrow> manager \<Rightarrow> manager" where
  "addAndSaveSession v lk s m =
     (let (s, m) =
        (if param s ''password'' \<noteq> [] \<and> mg_unlocked m then
           let ref = secret_ref (s_name s);
               m = persistVault v lk (m\<lparr>mg_vault := setSecret ref (param s ''password'') (mg_vault m)\<rparr>);
               s = setParam ''vault_ref'' ref s
           in (s\<lparr>s_params := qremove ''password'' (s_params s)\<rparr>, m)
         else (s, m))
      in persistSessions lk (m\<lparr>mg_tree := addSession s (mg_tree m)\<rparr>))"

definition with_sessions :: "(Session list \<Rightarrow> Session list) \<Rightarrow> SessionFolder \<Rightarrow> SessionFolder" where
  "with_sessions g f = Folder (f_name f) (f_folders f) (g (f_sessions f))"

fun remove_named :: "string \<Rightarrow> Session list \<Rightarrow> Session list" where
  "remove_named n [] = []"
| "remove_named n (s # ss) = (if s_name s = n then ss else s # remove_named n ss)"

definition deleteSession :: "luck \<Rightarrow> string \<Rightarrow> manager \<Rightarrow> manager" where
  "deleteSession lk n m = persistSessions lk (m\<lparr>mg_tree := with_sessions (remove_named n) (mg_tree m)\<rparr>)"

text \<open>\<open>result\<close> is the session of the dialog, if it was accepted.\<close>

definition openSessionEditor :: "manager_env \<Rightarrow> luck \<Rightarrow> Session option \<Rightarrow> string \<Rightarrow> manager \<Rightarrow> manager" where
  "openSessionEditor v lk result replaceName m =
     (case result of
        None \<Rightarrow> m
      | Some s \<Rightarrow> addAndSaveSession v lk s (if replaceName \<noteq> [] then deleteSession lk replaceName m else m))"

text \<open>The menu of a session and of a folder.\<close>

definition rename_session :: "luck \<Rightarrow> string \<Rightarrow> string option \<Rightarrow> manager \<Rightarrow> manager" where
  "rename_session lk n answer m =
     (case answer of
        None \<Rightarrow> m
      | Some new \<Rightarrow>
          let (good, ss) = renameSessionInList (f_sessions (mg_tree m)) n new; m = m\<lparr>mg_tree := with_sessions (\<lambda>_. ss) (mg_tree m)\<rparr>
          in if good then persistSessions lk m else m)"

definition duplicate_session :: "manager_env \<Rightarrow> luck \<Rightarrow> string \<Rightarrow> manager \<Rightarrow> manager" where
  "duplicate_session v lk n m =
     (case findSession n (mg_tree m) of
        None \<Rightarrow> m
      | Some s \<Rightarrow> addAndSaveSession v lk (s\<lparr>s_name := uniqueCopyName (f_sessions (mg_tree m)) n\<rparr>) m)"

definition set_icon :: "luck \<Rightarrow> string \<Rightarrow> string option \<Rightarrow> manager \<Rightarrow> manager" where
  "set_icon lk n answer m =
     (case answer of
        None \<Rightarrow> m
      | Some g \<Rightarrow> persistSessions lk (m\<lparr>mg_tree := with_sessions (\<lambda>ss. snd (setSessionIcon ss n g)) (mg_tree m)\<rparr>))"

definition move_session :: "luck \<Rightarrow> string \<Rightarrow> string \<Rightarrow> manager \<Rightarrow> manager" where
  "move_session lk n folder m = persistSessions lk (m\<lparr>mg_tree := with_sessions (\<lambda>ss. snd (moveSessionToFolder ss n folder)) (mg_tree m)\<rparr>)"

definition rename_folder :: "luck \<Rightarrow> string \<Rightarrow> string option \<Rightarrow> manager \<Rightarrow> manager" where
  "rename_folder lk folder answer m =
     (case answer of
        None \<Rightarrow> m
      | Some new \<Rightarrow>
          if trimmed new = [] then m
          else persistSessions lk (m\<lparr>mg_tree := with_sessions (\<lambda>ss. snd (renameFolderInList ss folder new)) (mg_tree m)\<rparr>))"

definition remove_folder :: "luck \<Rightarrow> string \<Rightarrow> bool \<Rightarrow> manager \<Rightarrow> manager" where
  "remove_folder lk folder yes m =
     (if yes then persistSessions lk (m\<lparr>mg_tree := with_sessions (\<lambda>ss. snd (renameFolderInList ss folder [])) (mg_tree m)\<rparr>) else m)"

definition ssh_command :: "Session \<Rightarrow> string" where
  "ssh_command s =
     ''ssh '' @ (if param s ''username'' \<noteq> [] then param s ''username'' @ ''@'' else []) @ param s ''host'' @
     (if port s > 0 \<and> port s \<noteq> 22 then '' -p '' @ dec_of_int (port s) else [])"

section \<open>Importing and exporting\<close>

text \<open>The sessions at the top of an imported tree whose names are free.\<close>

definition merge_imported :: "SessionFolder \<Rightarrow> nat \<times> SessionFolder \<Rightarrow> nat \<times> SessionFolder" where
  "merge_imported imported =
     fold (\<lambda>s (added, t). if findSession (s_name s) t = None then (added + 1, addSession s t) else (added, t)) (f_sessions imported)"

definition importSshConfig :: "manager_env \<Rightarrow> luck \<Rightarrow> bool \<Rightarrow> bytes option \<Rightarrow> manager \<Rightarrow> manager" where
  "importSshConfig v lk exists content m =
     (if \<not> exists then m
      else persistSessions lk (m\<lparr>mg_tree := snd (merge_imported (ssh_config_importFile (mn_host v) content) (0, mg_tree m))\<rparr>))"

definition importPutty :: "manager_env \<Rightarrow> (bytes \<Rightarrow> bytes) \<Rightarrow> luck \<Rightarrow> reg_session list \<Rightarrow> (string \<times> bytes option) list option \<Rightarrow> manager \<Rightarrow> manager" where
  "importPutty v pct lk regs dir m =
     persistSessions lk (m\<lparr>mg_tree := snd (merge_imported (importFromDir (mn_host v) pct dir)
       (merge_imported (putty_registry (mn_host v) pct regs) (0, mg_tree m)))\<rparr>)"

text \<open>\<open>choice\<close>: the file that is picked when the registry had nothing new, with its content where it can be read.\<close>

definition importWinScp :: "manager_env \<Rightarrow> (bytes \<Rightarrow> bytes) \<Rightarrow> luck \<Rightarrow> reg_session list \<Rightarrow> bytes option option \<Rightarrow> manager \<Rightarrow> manager" where
  "importWinScp v pct lk regs choice m =
     (let r = merge_imported (winscp_registry (mn_host v) pct regs) (0, mg_tree m);
          r = (if fst r = 0 then (case choice of None \<Rightarrow> r | Some c \<Rightarrow> merge_imported (winscp_importFile (mn_host v) pct c) r) else r)
      in persistSessions lk (m\<lparr>mg_tree := snd r\<rparr>))"

definition importSharedSessions :: "manager_env \<Rightarrow> luck \<Rightarrow> bytes option option \<Rightarrow> manager \<Rightarrow> manager" where
  "importSharedSessions v lk choice m =
     (case choice of
        None \<Rightarrow> m
      | Some c \<Rightarrow>
          let (good, imported) = ini_load (mn_host v) c (Folder [] [] [])
          in if good then persistSessions lk (m\<lparr>mg_tree := snd (merge_imported imported (0, mg_tree m))\<rparr>) else m)"

text \<open>A session for a WSL distribution that is picked from a list.\<close>

definition wsl_session :: "string \<Rightarrow> Session" where
  "wsl_session distro =
     setParam ''loginshell'' ''0'' (setParam ''shellargs'' (''-d '' @ distro) (setParam ''shell'' ''wsl.exe'' (new_session (''WSL: '' @ distro) Shell)))"

definition newWslSession :: "luck \<Rightarrow> string option \<Rightarrow> manager \<Rightarrow> manager" where
  "newWslSession lk answer m =
     (case answer of
        None \<Rightarrow> m
      | Some distro \<Rightarrow>
          if distro = [] \<or> findSession (s_name (wsl_session distro)) (mg_tree m) \<noteq> None then m
          else persistSessions lk (m\<lparr>mg_tree := addSession (wsl_session distro) (mg_tree m)\<rparr>))"

definition exportSessions :: "manager_env \<Rightarrow> bool \<Rightarrow> bool \<Rightarrow> manager \<Rightarrow> bytes option \<Rightarrow> bool \<times> bytes option" where
  "exportSessions v opens writes m file = ini_save (mn_host v) opens writes (mg_tree m) file"

section \<open>Connecting\<close>

text \<open>The quick connection: \<open>user@host:port\<close>.\<close>

definition quick_session :: "string \<Rightarrow> Session option" where
  "quick_session typed =
     (let txt' = trimmed typed
      in if txt' = [] then None
         else let s = new_session txt' Ssh;
                  (s, r) = (case index_of CHR ''@'' txt' of
                              None \<Rightarrow> (s, txt') | Some i \<Rightarrow> (setParam ''username'' (take i txt') s, drop (i + 1) txt'))
              in Some (case index_of CHR '':'' r of
                         None \<Rightarrow> setParam ''host'' r s
                       | Some i \<Rightarrow> setPort (to_int0 (drop (i + 1) r)) (setParam ''host'' (take i r) s)))"

text \<open>The session of the gateway that a session names, as \<open>[user@]host[:port]\<close>, and the tunnel through it. \<open>listens\<close> is
  the port the tunnel got, if it started; without one the connection is made directly.\<close>

definition gateway_session :: "Session \<Rightarrow> Session" where
  "gateway_session s =
     (let spec = param s ''gateway'';
          (user, spec) = (case index_of CHR ''@'' spec of
                            None \<Rightarrow> (param s ''username'', spec) | Some i \<Rightarrow> (take i spec, drop (i + 1) spec));
          (gw, gwPort) = (case index_of CHR '':'' spec of
                            None \<Rightarrow> (spec, 22)
                          | Some i \<Rightarrow> (take i spec, let p = to_int0 (drop (i + 1) spec) in if p \<le> 0 then 22 else p));
          user = (if param s ''gateway_user'' \<noteq> [] then param s ''gateway_user'' else user);
          g = setParam ''username'' user (setPort gwPort (setParam ''host'' gw (new_session gw Ssh)));
          g = (if param s ''gateway_password'' \<noteq> [] then setParam ''password'' (param s ''gateway_password'') g
               else if param s ''password'' \<noteq> [] then setParam ''password'' (param s ''password'') g else g);
          g = param_if (param s ''gateway_keyfile'' \<noteq> []) ''keyfile'' (param s ''gateway_keyfile'') g
      in param_if (param s ''gateway_passphrase'' \<noteq> []) ''passphrase'' (param s ''gateway_passphrase'') g)"

definition gateway_tunnel :: "Session \<Rightarrow> Tunnel" where
  "gateway_tunnel s =
     new_tunnel\<lparr>t_kind := Local, t_bindAddr := ''127.0.0.1'', t_bindPort := 0, t_targetHost := param s ''host'', t_targetPort := word_of_int (port s)\<rparr>"

definition resolveGateway :: "(Session \<Rightarrow> Tunnel \<Rightarrow> int option) \<Rightarrow> Session \<Rightarrow> Session" where
  "resolveGateway listens s =
     (if param s ''gateway'' = [] then s
      else case listens (gateway_session s) (gateway_tunnel s) of
             None \<Rightarrow> s
           | Some p \<Rightarrow> if p = 0 then s else setPort p (setParam ''host'' ''127.0.0.1'' s))"

section \<open>Events\<close>

datatype manager_event = Add luck Session | Edit luck "Session option" string | Delete luck string | RenameSession luck string "string option"
  | DuplicateSession luck string | Icon luck string "string option" | MoveTo luck string string | RenameTo luck string "string option"
  | RemoveFolder luck string bool | UnlockVault luck bool "string option" | ImportSsh luck bool "bytes option"
  | ImportPutty luck "reg_session list" "(string \<times> bytes option) list option" | ImportWinScp luck "reg_session list" "bytes option option"
  | ImportShared luck "bytes option option" | Wsl luck "string option"

fun manager_do :: "manager_env \<Rightarrow> (bytes \<Rightarrow> bytes) \<Rightarrow> manager_event \<Rightarrow> manager \<Rightarrow> manager" where
  "manager_do v pct (Add lk s) m = addAndSaveSession v lk s m"
| "manager_do v pct (Edit lk r n) m = openSessionEditor v lk r n m"
| "manager_do v pct (Delete lk n) m = deleteSession lk n m"
| "manager_do v pct (RenameSession lk n a) m = rename_session lk n a m"
| "manager_do v pct (DuplicateSession lk n) m = duplicate_session v lk n m"
| "manager_do v pct (Icon lk n a) m = set_icon lk n a m"
| "manager_do v pct (MoveTo lk n f) m = move_session lk n f m"
| "manager_do v pct (RenameTo lk f a) m = rename_folder lk f a m"
| "manager_do v pct (RemoveFolder lk f yes) m = remove_folder lk f yes m"
| "manager_do v pct (UnlockVault lk acc a) m = openVault v lk acc a m"
| "manager_do v pct (ImportSsh lk e c) m = importSshConfig v lk e c m"
| "manager_do v pct (ImportPutty lk rs d) m = importPutty v pct lk rs d m"
| "manager_do v pct (ImportWinScp lk rs c) m = importWinScp v pct lk rs c m"
| "manager_do v pct (ImportShared lk c) m = importSharedSessions v lk c m"
| "manager_do v pct (Wsl lk a) m = newWslSession lk a m"

section \<open>Passwords in the clear\<close>

text \<open>The passwords among the parameters of a session, of the sessions of a tree, and in the rows of a database; and
  all that a manager keeps in the clear: in its tree, in the database as it sees it, and in the file of the database.\<close>

definition session_passwords :: "Session \<Rightarrow> string list" where
  "session_passwords s = filter (\<lambda>v. v \<noteq> []) (map snd (filter (\<lambda>e. fst e = ''password'') (s_params s)))"

fun tree_passwords :: "SessionFolder \<Rightarrow> string list" where
  "tree_passwords (Folder n fs ss) = concat (map session_passwords ss) @ concat (map tree_passwords fs)"

definition row_passwords :: "database \<Rightarrow> string list" where
  "row_passwords db = filter (\<lambda>v. v \<noteq> []) (map (snd \<circ> snd) (filter (\<lambda>r. fst (snd r) = ''password'') (db_params db)))"

definition clear_passwords :: "manager \<Rightarrow> string set" where
  "clear_passwords m = set (tree_passwords (mg_tree m)) \<union> set (row_passwords (st_db (mg_store m))) \<union> set (row_passwords (st_file (mg_store m)))"

text \<open>The passwords of a shared file of sessions that is imported.\<close>

fun shared_passwords :: "manager_env \<Rightarrow> manager_event \<Rightarrow> string list" where
  "shared_passwords v (ImportShared lk (Some c)) = concat (map session_passwords (f_sessions (snd (ini_load (mn_host v) c (Folder [] [] [])))))"
| "shared_passwords v e = []"

text \<open>No password is in the clear but those of \<open>P\<close>.\<close>

definition bare :: "string set \<Rightarrow> Session \<Rightarrow> bool" where
  "bare P s \<longleftrightarrow> list_all (\<lambda>(k, v). k = ''password'' \<longrightarrow> v = [] \<or> v \<in> P) (s_params s)"

fun bare_tree :: "string set \<Rightarrow> SessionFolder \<Rightarrow> bool" where
  "bare_tree P (Folder n fs ss) \<longleftrightarrow> list_all (bare P) ss \<and> list_all (bare_tree P) fs"

definition rows_bare :: "string set \<Rightarrow> database \<Rightarrow> bool" where
  "rows_bare P db \<longleftrightarrow> list_all (\<lambda>(i, k, v). k = ''password'' \<longrightarrow> v = [] \<or> v \<in> P) (db_params db)"

lemma bare_iff: "bare P s \<longleftrightarrow> set (session_passwords s) \<subseteq> P"
  by (fastforce simp: bare_def session_passwords_def list_all_iff)

lemma bare_tree_iff: "bare_tree P f \<longleftrightarrow> set (tree_passwords f) \<subseteq> P"
  by (induction P f rule: bare_tree.induct) (auto simp: list_all_iff bare_iff)

lemma rows_bare_iff: "rows_bare P db \<longleftrightarrow> set (row_passwords db) \<subseteq> P"
  by (fastforce simp: rows_bare_def row_passwords_def list_all_iff)

lemma set_qinsert: "set (qinsert k v m) \<subseteq> insert (k, v) (set m)"
  by (induction k v m rule: qinsert.induct) (auto simp: qinsert.simps)

lemma bare_setParam: "bare P s \<Longrightarrow> k \<noteq> ''password'' \<or> v = [] \<Longrightarrow> bare P (setParam k v s)"
  using set_qinsert [of k v "s_params s"] by (fastforce simp: bare_def setParam_def list_all_iff)

lemma bare_param_if: "bare P s \<Longrightarrow> k \<noteq> ''password'' \<Longrightarrow> bare P (param_if b k v s)"
  by (simp add: param_if_def bare_setParam)

lemma bare_simps [simp]: "bare P (s\<lparr>s_name := n\<rparr>) = bare P s" "bare P (new_session n t)"
  by (simp_all add: bare_def new_session_def)

lemma bare_removed: "bare P (s\<lparr>s_params := qremove ''password'' m\<rparr>)"
  by (simp add: bare_def qremove_def list_all_iff)

lemma bare_without: "qmap_ok (s_params s) \<Longrightarrow> param s ''password'' = [] \<Longrightarrow> bare P s"
  by (auto simp: bare_def list_all_iff param_def_def qvalue_def qmap_ok_def strict_sorted_iff split: option.splits dest: map_of_is_SomeI [rotated])

text \<open>What is imported from other programs has none.\<close>

lemma bare_pending: "bare P (pending_session p)"
  by (simp add: pending_session_def Let_def bare_setParam bare_param_if)

lemma bare_putty: "bare P (putty_session n kv)"
  by (simp add: putty_session_def putty_gateway_def Let_def bare_setParam bare_param_if)

lemma bare_winscp: "bare P (sessionFromKv n kv)"
  by (simp add: sessionFromKv_def Let_def bare_setParam bare_param_if)

lemma bare_config: "list_all (bare P) (snd st) \<Longrightarrow> list_all (bare P) (snd (config_line l st))"
  by (cases st) (auto simp: config_line_def set_option_def flush_pending_def Let_def bare_pending split: option.split)

lemma bare_ssh_config: "list_all (bare P) (f_sessions (ssh_config_importFile h c))"
proof -
  have "list_all (bare P) (snd (fold config_line ls st))" if "list_all (bare P) (snd st)" for ls st
    using that bare_config by (induction ls arbitrary: st) auto
  then have run: "list_all (bare P) (snd (fold config_line ls (no_pending, [])))" for ls by simp
  show ?thesis
  proof (cases c)
    case (Some b)
    obtain cur ss where "fold config_line (text_lines h b) (no_pending, []) = (cur, ss)" by (metis prod.collapse)
    with run [of "text_lines h b"] show ?thesis
      by (simp add: Some ssh_config_importFile_def ssh_config_parse_def flush_pending_def bare_pending)
  qed (simp add: ssh_config_importFile_def)
qed

lemma bare_putty_imports:
  "list_all (bare P) (f_sessions (putty_registry h pct rs))" "list_all (bare P) (f_sessions (importFromDir h pct dir))"
  by (auto simp: putty_registry_def importFromDir_def parseSession_def list_all_iff bare_putty split: option.splits)

lemma bare_winscp_line: "list_all (bare P) (w_root w) \<Longrightarrow> list_all (bare P) (w_root (winscp_line h pct l w))"
  by (simp add: winscp_line_def winscp_flush_def Let_def bare_winscp split: option.split)

lemma bare_winscp_imports:
  "list_all (bare P) (f_sessions (winscp_registry h pct rs))" "list_all (bare P) (f_sessions (winscp_importFile h pct c))"
proof -
  have "list_all (bare P) (w_root (fold (winscp_line h pct) ls w))" if "list_all (bare P) (w_root w)" for ls w
    using that bare_winscp_line by (induction ls arbitrary: w) auto
  then show "list_all (bare P) (f_sessions (winscp_importFile h pct c))"
    by (simp add: winscp_importFile_def parseIni_def winscp_flush_def Let_def bare_winscp split: option.split)
qed (simp add: winscp_registry_def list_all_iff bare_winscp)

text \<open>The operations on the tree.\<close>

lemma bare_tree_parts: "bare_tree P f \<longleftrightarrow> list_all (bare P) (f_sessions f) \<and> list_all (bare_tree P) (f_folders f)"
  by (cases f) simp

lemma bare_tree_changes:
  "bare_tree P f \<Longrightarrow> bare P s \<Longrightarrow> bare_tree P (addSession s f)"
  "bare_tree P f \<Longrightarrow> list_all (bare P) (g (f_sessions f)) \<Longrightarrow> bare_tree P (with_sessions g f)"
  by (simp_all add: bare_tree_parts addSession_def with_sessions_def)

lemma bare_merge: "bare_tree P (snd r) \<Longrightarrow> list_all (bare P) (f_sessions imp) \<Longrightarrow> bare_tree P (snd (merge_imported imp r))"
proof -
  have "bare_tree P (snd (fold (\<lambda>s (added, t). if findSession (s_name s) t = None then (added + 1, addSession s t) else (added, t)) ss r))"
    if "bare_tree P (snd r)" "list_all (bare P) ss" for ss and r :: "nat \<times> SessionFolder"
    using that by (induction ss arbitrary: r) (auto simp: bare_tree_changes split: prod.split)
  then show "bare_tree P (snd r) \<Longrightarrow> list_all (bare P) (f_sessions imp) \<Longrightarrow> ?thesis" by (simp add: merge_imported_def)
qed

lemma bare_removes: "list_all (bare P) ss \<Longrightarrow> list_all (bare P) (remove_named n ss)"
  by (induction ss) auto

lemma bare_renamed: "list_all (bare P) ss \<Longrightarrow> list_all (bare P) (snd (renameSessionInList ss a b))"
  by (auto simp: renameSessionInList_def Let_def list_all_iff split: option.split
      dest!: subsetD [OF set_update_subset_insert] find_index_Some intro: nth_mem)

lemma bare_set: "list_all (bare P) ss \<Longrightarrow> k \<noteq> ''password'' \<Longrightarrow> list_all (bare P) (snd (set_in_list k ss n v))"
  by (auto simp: set_in_list_def list_all_iff split: option.split
      dest!: subsetD [OF set_update_subset_insert] find_index_Some intro!: bare_setParam)

lemma bare_folders: "list_all (bare P) ss \<Longrightarrow> list_all (bare P) (snd (renameFolderInList ss a b))"
  by (auto simp: renameFolderInList_def list_all_iff intro: bare_setParam)

lemma bare_found: "findSession n f = Some s \<Longrightarrow> bare_tree P f \<Longrightarrow> bare P s" "findIn n fs = Some s \<Longrightarrow> list_all (bare_tree P) fs \<Longrightarrow> bare P s"
  by (induction n f and n fs arbitrary: s and s rule: findSession_findIn.induct)
    (auto simp: list_all_iff find_Some_iff split: option.splits)

text \<open>What a save writes.\<close>

lemma rows_saved: "rows_bare P db \<Longrightarrow> bare P s \<Longrightarrow> rows_bare P (save_session i s db)"
proof -
  assume "rows_bare P db" "bare P s"
  have "rows_bare P (fold (put_param j) kvs d)" if "rows_bare P d" "list_all (\<lambda>(k, v). k = ''password'' \<longrightarrow> v = [] \<or> v \<in> P) kvs" for j kvs d
    using that
  proof (induction kvs arbitrary: d)
    case (Cons kv kvs)
    then have "rows_bare P (put_param j kv d)" by (auto simp: put_param_def rows_bare_def list_all_iff)
    with Cons show ?case by simp
  qed simp
  with \<open>rows_bare P db\<close> \<open>bare P s\<close> show ?thesis by (simp add: save_session_def Let_def bare_def rows_bare_def)
qed

lemma rows_tree: "rows_bare P db \<Longrightarrow> bare_tree P f \<Longrightarrow> rows_bare P (saveFolder f up db)"
proof (induction f arbitrary: up db rule: bare_tree.induct)
  case (1 P n fs ss)
  have "rows_bare P (fold (save_session i) ss d)" if "rows_bare P d" for i d
    using that 1(3) rows_saved by (induction ss arbitrary: d) auto
  moreover have "rows_bare P (fold (\<lambda>sub. saveFolder sub (Some i)) fs d)" if "rows_bare P d" for i d
    using that 1(1,3) by (induction fs arbitrary: d) auto
  moreover have "rows_bare P (snd (insert_folder up n db))" using 1(2) by (simp add: insert_folder_def Let_def rows_bare_def)
  ultimately show ?case by (simp add: split_beta)
qed

section \<open>The passwords stay in the vault\<close>

definition passwords_kept :: "string set \<Rightarrow> manager \<Rightarrow> bool" where
  "passwords_kept P m \<longleftrightarrow> mg_unlocked m \<and> bare_tree P (mg_tree m) \<and> rows_bare P (st_db (mg_store m)) \<and> rows_bare P (st_file (mg_store m))"

lemma passwords_kept_iff: "passwords_kept P m \<longleftrightarrow> mg_unlocked m \<and> clear_passwords m \<subseteq> P"
  by (auto simp: passwords_kept_def clear_passwords_def bare_tree_iff rows_bare_iff)

text \<open>The parameters of the session that a dialog gives are a map.\<close>

fun params_map :: "manager_event \<Rightarrow> bool" where
  "params_map (Add lk s) \<longleftrightarrow> qmap_ok (s_params s)"
| "params_map (Edit lk r n) \<longleftrightarrow> (case r of None \<Rightarrow> True | Some s \<Rightarrow> qmap_ok (s_params s))"
| "params_map e \<longleftrightarrow> True"

lemma rows_deleted: "rows_bare P (delete_folders db)"
  by (simp add: rows_bare_def delete_folders_def)

lemma kept_persist:
  assumes "mg_unlocked m" and "bare_tree P (mg_tree m)" and "rows_bare P (st_db (mg_store m))" and "rows_bare P (st_file (mg_store m))"
  shows "passwords_kept P (persistSessions lk m)"
  using assms rows_tree [OF rows_deleted assms(2)]
  by (simp add: passwords_kept_def persistSessions_def saveTree_def Let_def split: commit.split)

lemma kept_tree: "passwords_kept P m \<Longrightarrow> bare_tree P t \<Longrightarrow> passwords_kept P (persistSessions lk (m\<lparr>mg_tree := t\<rparr>))"
  by (rule kept_persist) (simp_all add: passwords_kept_def)

lemma kept_add:
  assumes "passwords_kept P m" and "qmap_ok (s_params s)"
  shows "passwords_kept P (addAndSaveSession v lk s m)"
proof (cases "param s ''password'' = []")
  case True
  then have "bare_tree P (addSession s (mg_tree m))" using assms by (simp add: bare_tree_changes bare_without passwords_kept_def)
  from kept_tree [OF assms(1) this] True show ?thesis by (simp add: addAndSaveSession_def)
next
  case False
  let ?m = "persistVault v lk (m\<lparr>mg_vault := setSecret (secret_ref (s_name s)) (param s ''password'') (mg_vault m)\<rparr>)"
  have m: "passwords_kept P ?m" using assms(1) by (simp add: passwords_kept_def persistVault_def)
  then have "bare_tree P (mg_tree ?m)" by (simp add: passwords_kept_def)
  from kept_tree [OF m bare_tree_changes(1) [OF this bare_removed]] False assms(1) show ?thesis
    by (simp add: addAndSaveSession_def Let_def passwords_kept_def [of P m])
qed

lemma kept_list: "passwords_kept P m \<Longrightarrow> list_all (bare P) (g (f_sessions (mg_tree m))) \<Longrightarrow>
  passwords_kept P (persistSessions lk (m\<lparr>mg_tree := with_sessions g (mg_tree m)\<rparr>))"
  by (rule kept_tree) (simp_all add: passwords_kept_def bare_tree_changes)

lemma kept_sessions: "passwords_kept P m \<Longrightarrow> list_all (bare P) (f_sessions (mg_tree m))"
  by (simp add: passwords_kept_def bare_tree_parts)

lemma kept_vault: "passwords_kept P m \<Longrightarrow> passwords_kept P (openVault v lk acc a m)"
  by (auto simp: openVault_def open_by_password_def passwords_kept_def Let_def split: option.split prod.split)

lemma kept_shared:
  assumes "passwords_kept P m" and "set (shared_passwords v (ImportShared lk c)) \<subseteq> P"
  shows "passwords_kept P (importSharedSessions v lk c m)"
proof (cases c)
  case (Some b)
  let ?t = "snd (ini_load (mn_host v) b (Folder [] [] []))"
  have "list_all (bare P) (f_sessions ?t)" "bare_tree P (mg_tree m)" using assms Some by (auto simp: passwords_kept_def bare_iff list_all_iff)
  then have "bare_tree P (snd (merge_imported ?t (0, mg_tree m)))" by (simp add: bare_merge)
  from kept_tree [OF assms(1) this] assms(1) show ?thesis by (simp add: importSharedSessions_def Some Let_def split_beta)
qed (simp add: importSharedSessions_def assms(1))

lemma kept_delete: "passwords_kept P m \<Longrightarrow> passwords_kept P (deleteSession lk n m)"
  unfolding deleteSession_def by (rule kept_list) (simp_all add: kept_sessions bare_removes)

text \<open>A copy of a session whose password is in the clear (it came from a shared file) is added like a new one.\<close>

lemma kept_duplicate:
  assumes "passwords_kept P m"
  shows "passwords_kept P (duplicate_session v lk n m)"
proof (cases "findSession n (mg_tree m)")
  case (Some s)
  have b: "bare P (s\<lparr>s_name := k\<rparr>)" for k using bare_found(1) [OF Some] assms by (simp add: passwords_kept_def)
  let ?s = "s\<lparr>s_name := uniqueCopyName (f_sessions (mg_tree m)) n\<rparr>"
  have "passwords_kept P (addAndSaveSession v lk ?s m)"
  proof (cases "param ?s ''password'' = []")
    case True
    then show ?thesis using assms kept_tree [OF assms bare_tree_changes(1) [OF _ b]] by (simp add: addAndSaveSession_def passwords_kept_def [of P m])
  next
    case False
    let ?m = "persistVault v lk (m\<lparr>mg_vault := setSecret (secret_ref (s_name ?s)) (param ?s ''password'') (mg_vault m)\<rparr>)"
    have m: "passwords_kept P ?m" using assms(1) by (simp add: passwords_kept_def persistVault_def)
    then have "bare_tree P (mg_tree ?m)" by (simp add: passwords_kept_def)
    from kept_tree [OF m bare_tree_changes(1) [OF this bare_removed]] False assms(1) show ?thesis
      by (simp add: addAndSaveSession_def Let_def passwords_kept_def [of P m])
  qed
  then show ?thesis by (simp add: duplicate_session_def Some)
qed (simp add: duplicate_session_def assms)

lemma kept_rename:
  assumes "passwords_kept P m"
  shows "passwords_kept P (rename_session lk n a m)"
proof -
  let ?m = "\<lambda>new. m\<lparr>mg_tree := with_sessions (\<lambda>_. snd (renameSessionInList (f_sessions (mg_tree m)) n new)) (mg_tree m)\<rparr>"
  have l: "list_all (bare P) (snd (renameSessionInList (f_sessions (mg_tree m)) n new))" for new
    using bare_renamed kept_sessions assms by blast
  then have "passwords_kept P (?m new)" for new using assms by (simp add: passwords_kept_def bare_tree_changes)
  moreover have "passwords_kept P (persistSessions lk (?m new))" for new using assms l by (rule kept_list)
  ultimately show ?thesis using assms by (simp add: rename_session_def Let_def split_beta split: option.split)
qed

lemma kept_step:
  assumes "passwords_kept P m" and "params_map e" and "set (shared_passwords v e) \<subseteq> P"
  shows "passwords_kept P (manager_do v pct e m)"
proof (cases e)
  case (Edit lk r n)
  with assms show ?thesis by (auto simp: openSessionEditor_def kept_add kept_delete split: option.split)
next
  case (ImportShared lk c)
  with assms kept_shared show ?thesis by (simp del: shared_passwords.simps)
qed (use assms(1,2) kept_sessions [OF assms(1)] in \<open>auto simp: kept_add kept_delete kept_duplicate kept_rename kept_vault set_icon_def move_session_def
    rename_folder_def remove_folder_def setSessionIcon_def moveSessionToFolder_def importSshConfig_def importPutty_def importWinScp_def Let_def
    passwords_kept_def [of P m] bare_set bare_folders bare_merge bare_ssh_config bare_putty_imports bare_winscp_imports
    newWslSession_def wsl_session_def bare_setParam
    intro!: kept_tree [of P m] bare_tree_changes bare_merge split: option.split\<close>)

text \<open>C20: Once the vault is open, nothing that is done to the sessions leaves a password in the clear - among the
  parameters named \<open>password\<close> of the sessions in the tree, in the database or in its file - that was not there before
  or in a shared file of sessions that is imported: not adding, editing, duplicating or renaming sessions, nor importing
  them from other programs, and whether or not the commits succeed. The sessions that the dialogs give have their
  parameters in a map. The password of a gateway and the passphrase of a key are other parameters, which stay in the clear.\<close>

theorem passwords_stay_in_vault:
  assumes "mg_unlocked m" and "list_all params_map es"
  shows "clear_passwords (fold (manager_do v pct) es m) \<subseteq> clear_passwords m \<union> set (concat (map (shared_passwords v) es))"
proof -
  define P where "P = clear_passwords m \<union> set (concat (map (shared_passwords v) es))"
  have "passwords_kept P m" using assms(1) by (simp add: passwords_kept_iff P_def)
  moreover have "list_all (\<lambda>e. set (shared_passwords v e) \<subseteq> P) es" by (auto simp: P_def list_all_iff)
  ultimately have "passwords_kept P (fold (manager_do v pct) es m)"
    using assms(2) by (induction es arbitrary: m) (simp_all add: kept_step)
  then show ?thesis by (simp add: passwords_kept_iff P_def)
qed

text \<open>The password of a gateway goes into the tree as it is, also while the vault is open, and so does the passphrase
  of a key file.\<close>

lemma other_secrets_in_clear:
  assumes "k \<in> {''gateway_password'', ''passphrase'', ''gateway_passphrase''}"
  shows "param (last (f_sessions (mg_tree (addAndSaveSession v lk s m)))) k = param s k"
  using assms
  by (auto simp: addAndSaveSession_def persistSessions_def persistVault_def Let_def addSession_def param_def_def qvalue_def setParam_def)

section \<open>A password after a restart\<close>

lemma param_setParam: "param (setParam k v s) j = (if j = k then v else param s j)"
  by (simp add: param_def_def setParam_def qvalue_def)

lemma param_stored: "k \<noteq> ''port'' \<Longrightarrow> param (stored s) k = param s k"
  by (simp add: stored_def param_setParam)

lemma vault_not_dpapi: "fst (vault_save h c rsalt rnonce opens stores pw m before) \<Longrightarrow>
  loadDpapi h w (snd (vault_save h c rsalt rnonce opens stores pw m before)) old = (False, old)"
proof -
  assume saved: "fst (vault_save h c rsalt rnonce opens stores pw m before)"
  let ?b = "vault_encrypt h c rsalt rnonce pw m"
  have b: "?b \<noteq> []" "snd (vault_save h c rsalt rnonce opens stores pw m before) = Some ?b"
    using saved by (auto simp: vault_save_def write_file_def Let_def split: if_splits)
  then obtain r where "?b = kMagic @ r" using encrypt_blob [of h c rsalt rnonce pw m] by (auto simp: vault_blob_def)
  moreover have "kMagic \<noteq> kDpapiMagic" "length kDpapiMagic = 8" by code_simp+
  ultimately show ?thesis using b(2) by (auto simp: loadDpapi_def split: option.split)
qed

lemma vault_reopens:
  assumes "vault_load (mn_host v) (mn_crypto v) (Some b) pw [] = (True, secrets)" and "\<And>w. loadDpapi (mn_host v) w (Some b) [] = (False, [])"
    and "mg_vault m = []" and "mg_file m = Some b"
  shows "mg_unlocked (openVault v lk account (Some pw) m)" "mg_vault (openVault v lk account (Some pw) m) = secrets"
  using assms by (simp_all add: openVault_def open_by_password_def Let_def)

text \<open>C21: A password that is entered for a new session while a vault is open that a master password protects is
  not in the session of the database, and is back after a restart, if the vault was written, the database committed
  and no secret has a line break (nor a key of one a tab): the session loaded from the file of the database, with the
  vault opened by its master password, connects with it.\<close>

theorem password_survives_restart:
  assumes "utf8_laws (mn_host v)" and "gcm_laws (mn_crypto v)"
    and "mg_unlocked m" and "\<not> mg_dpapi m" and "m_open (mg_store m)" and "param s ''password'' \<noteq> []" and "params_ok (mg_tree m)" and "qmap_ok (s_params s)"
    and "secrets' = setSecret (secret_ref (s_name s)) (param s ''password'') (mg_vault m)" and "qmap_ok (mg_vault m)" and "\<forall>e \<in> set secrets'. secret_ok e"
    and "\<forall>salt. lk_salt lk = Some salt \<longrightarrow> length salt = kSaltLen" and "\<forall>nonce. lk_nonce lk = Some nonce \<longrightarrow> length nonce = kNonceLen"
    and "fst (vault_save (mn_host v) (mn_crypto v) (lk_salt lk) (lk_nonce lk) (lk_opens lk) (lk_stores lk) (mg_master m) secrets' (mg_file m))"
    and "lk_commit lk = Commits"
    and "m' = addAndSaveSession v lk s m"
  shows "\<exists>m0. start_manager (Some (st_file (mg_store m'))) True (mg_file m') = Some m0 \<and>
    (let s' = last (f_sessions (mg_tree m0)); m1 = openVault v lk' account (Some (mg_master m)) m0 in
       s_name s' = s_name s \<and> param s' ''password'' = [] \<and> param (resolveSecrets m1 s') ''password'' = param s ''password'')"
proof -
  let ?ref = "secret_ref (s_name s)" and ?save = "vault_save (mn_host v) (mn_crypto v) (lk_salt lk) (lk_nonce lk) (lk_opens lk) (lk_stores lk) (mg_master m) secrets' (mg_file m)"
  define kept where "kept = (setParam ''vault_ref'' ?ref s)\<lparr>s_params := qremove ''password'' (s_params (setParam ''vault_ref'' ?ref s))\<rparr>"
  define tree where "tree = addSession kept (mg_tree m)"
  have m': "mg_file m' = snd ?save" "mg_store m' = snd (saveTree (lk_commit lk) tree (mg_store m))"
    using assms(3-6,9,16) by (simp_all add: addAndSaveSession_def Let_def persistVault_def persistSessions_def tree_def kept_def)
  have kept: "s_name kept = s_name s" "param kept ''password'' = []" "param kept ''vault_ref'' = ?ref" "qmap_ok (s_params kept)"
    using assms(8) by (simp_all add: kept_def param_def_def qvalue_def setParam_def)
  have "params_ok tree" using assms(7) kept(4) by (cases "mg_tree m") (simp add: tree_def addSession_def)
  moreover obtain b st' where saved: "saveTree (lk_commit lk) tree (mg_store m) = (b, st')" by (metis surj_pair)
  moreover obtain good st'' where opened: "store_open (Some (st_file st')) True no_store = (good, st'')" by (metis surj_pair)
  ultimately have load: "good" "loadTree st'' = Some (stored_tree tree)"
    using store_reloads [OF assms(5), of tree b st' no_store good st''] assms(15) by simp_all
  let ?m0 = "\<lparr>mg_tree = stored_tree tree, mg_store = st'', mg_vault = [], mg_file = snd ?save, mg_unlocked = False, mg_dpapi = False, mg_master = []\<rparr>"
  have start: "start_manager (Some (st_file (mg_store m'))) True (mg_file m') = Some ?m0"
    by (simp add: start_manager_def m' saved opened load)
  have last: "last (f_sessions (mg_tree ?m0)) = stored kept" by (cases "mg_tree m") (simp add: tree_def addSession_def)
  have "qmap_ok secrets'" using assms(9,10) by (simp add: setSecret_def)
  moreover have "?save = (True, snd ?save)" using assms(14) by (simp add: prod_eq_iff)
  ultimately have load: "vault_load (mn_host v) (mn_crypto v) (snd ?save) (mg_master m) [] = (True, secrets')"
    by (intro vault_roundtrip [OF assms(1,2) _ _ assms(11-13)]) (simp_all add: reads_vaults_of_def)
  obtain b where written: "snd ?save = Some b" using assms(14) by (auto simp: vault_save_def write_file_def Let_def split: if_splits)
  let ?m1 = "openVault v lk' account (Some (mg_master m)) ?m0"
  have m1: "mg_unlocked ?m1" "mg_vault ?m1 = secrets'"
    using vault_not_dpapi [OF assms(14)] load by (simp_all add: written vault_reopens)
  have "?ref \<noteq> []" "hasSecret secrets' ?ref" "secret secrets' ?ref = param s ''password''"
    by (simp_all add: secret_ref_def hasSecret_def qcontains_def secret_def qvalue_def assms(9) setSecret_def)
  with m1 kept have "param (resolveSecrets ?m1 (stored kept)) ''password'' = param s ''password''"
    by (simp add: resolveSecrets_def Let_def param_stored param_setParam)
  moreover have "s_name (stored kept) = s_name s" using kept(1) by (simp add: stored_def)
  ultimately show ?thesis using start last kept(2) by (simp add: param_stored Let_def)
qed

text \<open>The reference to a secret is made of the name a session has when it is added. A session that was renamed
  since shares it with a new one of its old name, and is connected with the new one's password.\<close>

lemma renamed_gets_other_password:
  assumes "mg_unlocked m" and "param old ''vault_ref'' = secret_ref (s_name s)" and "param s ''password'' \<noteq> []"
  shows "param (resolveSecrets (addAndSaveSession v lk s m) old) ''password'' = param s ''password''"
  using assms
  by (simp add: addAndSaveSession_def Let_def persistVault_def persistSessions_def resolveSecrets_def secret_ref_def hasSecret_def
      qcontains_def setSecret_def secret_def qvalue_def param_setParam)

text \<open>While the vault is closed, a password goes into the tree, and with it into the database.\<close>

lemma locked_password_stored:
  assumes "\<not> mg_unlocked m"
  shows "mg_tree (addAndSaveSession v lk s m) = addSession s (mg_tree m)"
  using assms by (simp add: addAndSaveSession_def persistSessions_def)

section \<open>Examples\<close>

definition demo_manager_env :: manager_env where
  "demo_manager_env = \<lparr>mn_host = ini_host, mn_crypto = demo_crypto, mn_dpapi = None\<rparr>"

definition demo_luck :: luck where
  "demo_luck = \<lparr>lk_salt = Some demo_salt, lk_nonce = Some demo_nonce, lk_opens = True, lk_stores = length, lk_commit = Commits\<rparr>"

definition demo_manager :: manager where
  "demo_manager = \<lparr>mg_tree = demo_tree, mg_store = demo_store, mg_vault = demo_secrets, mg_file = None, mg_unlocked = True, mg_dpapi = False,
     mg_master = ''pw''\<rparr>"

definition demo_login :: Session where
  "demo_login = \<lparr>s_name = ''web1'', s_type = Ssh, s_params = [(''host'', ''h''), (''password'', ''s3'')]\<rparr>"

theorem passwords_stay_in_vault_witness:
  "clear_passwords (fold (manager_do demo_manager_env id)
     [Add demo_luck demo_login, DuplicateSession demo_luck ''web1'', RenameSession demo_luck ''web1'' (Some ''w'')] demo_manager) = {}"
proof -
  have "mg_unlocked demo_manager" by (simp add: demo_manager_def)
  moreover have "list_all params_map [Add demo_luck demo_login, DuplicateSession demo_luck ''web1'', RenameSession demo_luck ''web1'' (Some ''w'')]"
    by code_simp
  moreover have "row_passwords (st_db demo_store) = []" "row_passwords (st_file demo_store) = []" "tree_passwords demo_tree = []" by code_simp+
  then have "clear_passwords demo_manager = {}" by (simp add: clear_passwords_def demo_manager_def)
  ultimately show ?thesis
    using passwords_stay_in_vault [of demo_manager
        "[Add demo_luck demo_login, DuplicateSession demo_luck ''web1'', RenameSession demo_luck ''web1'' (Some ''w'')]" demo_manager_env id]
    by simp
qed

theorem password_survives_restart_witness:
  "\<exists>m0. start_manager (Some (st_file (mg_store (addAndSaveSession demo_manager_env demo_luck demo_login demo_manager)))) True
       (mg_file (addAndSaveSession demo_manager_env demo_luck demo_login demo_manager)) = Some m0 \<and>
     param (resolveSecrets (openVault demo_manager_env demo_luck False (Some ''pw'') m0) (last (f_sessions (mg_tree m0)))) ''password'' = ''s3''"
proof -
  let ?v = demo_manager_env and ?lk = demo_luck and ?m = demo_manager and ?s = demo_login
  let ?secrets = "setSecret (secret_ref (s_name ?s)) (param ?s ''password'') (mg_vault ?m)"
  have laws: "utf8_laws (mn_host ?v)" "gcm_laws (mn_crypto ?v)" by (simp_all add: demo_manager_env_def ini_host_utf8 demo_crypto_laws)
  have state: "mg_unlocked ?m" "\<not> mg_dpapi ?m" "m_open (mg_store ?m)" "mg_master ?m = ''pw''" by (simp_all add: demo_manager_def demo_open)
  have commits: "lk_commit ?lk = Commits" by (simp add: demo_luck_def)
  have pw: "param ?s ''password'' = ''s3''" by code_simp
  then have "param ?s ''password'' \<noteq> []" by simp
  moreover have "params_ok (mg_tree ?m)" "qmap_ok (s_params ?s)" by code_simp+
  moreover have "qmap_ok (mg_vault ?m)" "\<forall>e \<in> set ?secrets. secret_ok e" by code_simp+
  moreover have "\<forall>salt. lk_salt ?lk = Some salt \<longrightarrow> length salt = kSaltLen" "\<forall>nonce. lk_nonce ?lk = Some nonce \<longrightarrow> length nonce = kNonceLen"
    by (simp_all add: demo_luck_def demo_salt_def demo_nonce_def vault_lens)
  moreover have "fst (vault_save (mn_host ?v) (mn_crypto ?v) (lk_salt ?lk) (lk_nonce ?lk) (lk_opens ?lk) (lk_stores ?lk) (mg_master ?m) ?secrets (mg_file ?m))"
  proof -
    have "vault_encrypt ini_host demo_crypto (Some demo_salt) (Some demo_nonce) ''pw'' ?secrets \<noteq> []" by code_simp
    then show ?thesis by (simp add: vault_save_def write_file_def Let_def demo_manager_env_def demo_luck_def demo_manager_def)
  qed
  ultimately show ?thesis
    using password_survives_restart [OF laws state(1-3) _ _ _ refl _ _ _ _ _ commits refl, of ?s ?lk False] state(4) pw
    by (auto simp: Let_def)
qed

end
