(* ===== verification/Main_Window.thy ===== *)
theory Main_Window
  imports Session_Manager "HOL-Library.Multiset"
begin

text \<open>
  The tabs of the main window, \<open>src/src/ui/MainWindow.cpp\<close>, with what runs through them: opening sessions,
  splitting, closing and detaching tabs, typing into many panes at once (MultiExec), macros
  (\<open>src/src/core/Macro.h\<close>), and the file browsers docked beside the tabs. A pane is a number; the
  terminal in it is theory \<open>Terminal_Widget\<close>, its handler for input is one of the three the window installs,
  and what reaches the pane's connection is a log.
\<close>

section \<open>Macros\<close>

record macro =
  mc_name :: string
  mc_recording :: bool
  mc_events :: "bytes list"

definition new_macro :: "string \<Rightarrow> macro" where
  "new_macro n = \<lparr>mc_name = n, mc_recording = False, mc_events = []\<rparr>"

definition beginRecording :: "macro \<Rightarrow> macro" where
  "beginRecording m = m\<lparr>mc_recording := True, mc_events := []\<rparr>"

definition endRecording :: "macro \<Rightarrow> macro" where
  "endRecording m = m\<lparr>mc_recording := False\<rparr>"

definition record_chunk :: "bytes \<Rightarrow> macro \<Rightarrow> macro" where
  "record_chunk b m = (if mc_recording m then m\<lparr>mc_events := mc_events m @ [b]\<rparr> else m)"

section \<open>The window\<close>

datatype handler = Direct | Broadcast | Recorder

text \<open>A tab: one pane, a splitter with panes, or a surface without any, and what a splitter was made around.\<close>

record window_tab =
  tb_split :: bool
  tb_panes :: "nat list"

datatype dock = NoDock | Docked Session | Undocked

record window =
  wn_tabs :: "window_tab list"
  wn_current :: nat
  wn_focus :: "nat option"
  wn_next :: nat
  wn_sessions :: "nat \<Rightarrow> Session option"
  wn_handler :: "nat \<Rightarrow> handler"
  wn_multi :: bool
  wn_recording :: bool
  wn_macro :: macro
  wn_sent :: "(nat \<times> bytes) list"
  wn_sftp :: dock
  wn_ftp :: dock

definition empty_window :: window where
  "empty_window = \<lparr>wn_tabs = [], wn_current = 0, wn_focus = None, wn_next = 0, wn_sessions = Map.empty, wn_handler = (\<lambda>_. Direct),
     wn_multi = False, wn_recording = False, wn_macro = new_macro [], wn_sent = [], wn_sftp = NoDock, wn_ftp = NoDock\<rparr>"

text \<open>The panes under the tab widget, and the current one: the focused pane of the current tab, else its first.\<close>

definition all_panes :: "window \<Rightarrow> nat list" where
  "all_panes w = concat (map tb_panes (wn_tabs w))"

definition currentPane :: "window \<Rightarrow> nat option" where
  "currentPane w =
     (if wn_tabs w = [] then None
      else case tb_panes (wn_tabs w ! wn_current w) of
             [] \<Rightarrow> None
           | p # ps \<Rightarrow> (case wn_focus w of Some q \<Rightarrow> if q \<in> set (p # ps) then Some q else Some p | None \<Rightarrow> Some p))"

section \<open>Opening\<close>

definition showSftpFor :: "Session \<Rightarrow> window \<Rightarrow> window" where
  "showSftpFor s w = w\<lparr>wn_sftp := Docked s\<rparr>"

definition showFtpFor :: "Session \<Rightarrow> window \<Rightarrow> window" where
  "showFtpFor s w = w\<lparr>wn_ftp := Docked s\<rparr>"

text \<open>Only the connection of an SSH session has files to browse. The number of the new pane is the second result.\<close>

definition makePane :: "Session \<Rightarrow> window \<Rightarrow> nat \<times> window" where
  "makePane s w =
     (let p = wn_next w;
          w = w\<lparr>wn_next := p + 1, wn_sessions := (wn_sessions w)(p \<mapsto> s), wn_handler := (wn_handler w)(p := if wn_multi w then Broadcast else Direct)\<rparr>
      in (p, if s_type s = Ssh then showSftpFor s w else w))"

definition addTab :: "window_tab \<Rightarrow> window \<Rightarrow> window" where
  "addTab t w = w\<lparr>wn_tabs := wn_tabs w @ [t], wn_current := length (wn_tabs w)\<rparr>"

text \<open>\<open>webengine\<close>: a build with an embedded browser.\<close>

definition openSession :: "bool \<Rightarrow> Session \<Rightarrow> window \<Rightarrow> window" where
  "openSession webengine s w =
     (case s_type s of
        S3 \<Rightarrow> w
      | Browser \<Rightarrow> if webengine then addTab \<lparr>tb_split = False, tb_panes = []\<rparr> w else w
      | Rdp \<Rightarrow> addTab \<lparr>tb_split = False, tb_panes = []\<rparr> w
      | Vnc \<Rightarrow> addTab \<lparr>tb_split = False, tb_panes = []\<rparr> w
      | Sftp \<Rightarrow> showSftpFor s w
      | Ftp \<Rightarrow> showFtpFor s w
      | _ \<Rightarrow> let (p, w) = makePane s w
             in (addTab \<lparr>tb_split = False, tb_panes = [p]\<rparr> w)\<lparr>wn_focus := Some p\<rparr>)"

definition local_session :: Session where
  "local_session = new_session ''local'' Shell"

definition openLocalShell :: "window \<Rightarrow> window" where
  "openLocalShell w = openSession False local_session w"

definition ref_session :: "window \<Rightarrow> Session" where
  "ref_session w =
     (case currentPane w of
        None \<Rightarrow> local_session
      | Some p \<Rightarrow> (case wn_sessions w p of None \<Rightarrow> local_session | Some s \<Rightarrow> s))"

definition splitCurrent :: "window \<Rightarrow> window" where
  "splitCurrent w =
     (if wn_tabs w = [] then w
      else let i = wn_current w; (p, w') = makePane (ref_session w) w
           in w'\<lparr>wn_tabs := (wn_tabs w')[i := \<lparr>tb_split = True, tb_panes = tb_panes (wn_tabs w' ! i) @ [p]\<rparr>], wn_focus := Some p\<rparr>)"

definition splitQuad :: "window \<Rightarrow> window" where
  "splitQuad w =
     (if wn_tabs w = [] then w
      else let i = wn_current w; s = ref_session w; (p1, w1) = makePane s w; (p2, w2) = makePane s w1; (p3, w3) = makePane s w2
           in w3\<lparr>wn_tabs := (wn_tabs w3)[i := \<lparr>tb_split = True, tb_panes = tb_panes (wn_tabs w3 ! i) @ [p1, p2, p3]\<rparr>]\<rparr>)"

section \<open>Closing and detaching\<close>

text \<open>What the tab widget does when a tab goes: the tab to the right of the current one takes its place.\<close>

definition removeTab :: "nat \<Rightarrow> window \<Rightarrow> window" where
  "removeTab i w =
     (let tabs = take i (wn_tabs w) @ drop (Suc i) (wn_tabs w); c = wn_current w
      in w\<lparr>wn_tabs := tabs, wn_current := (if i < c then c - 1 else if i = c then min c (length tabs - 1) else c)\<rparr>)"

text \<open>Whether a remaining session needs a browser. \<open>m_tabSessions\<close> is finite; the model asks the panes there were.\<close>

definition needs :: "(SessionType \<Rightarrow> bool) \<Rightarrow> window \<Rightarrow> bool" where
  "needs P w \<longleftrightarrow> list_ex (\<lambda>p. case wn_sessions w p of None \<Rightarrow> False | Some s \<Rightarrow> P (s_type s)) [0..<wn_next w]"

definition syncRemoteDocks :: "window \<Rightarrow> window" where
  "syncRemoteDocks w =
     (let w1 = (if wn_sftp w \<noteq> NoDock \<and> \<not> needs (\<lambda>t. t = Ssh \<or> t = Sftp) w then w\<lparr>wn_sftp := Undocked\<rparr> else w)
      in if wn_ftp w1 \<noteq> NoDock \<and> \<not> needs (\<lambda>t. t = Ftp) w1 then w1\<lparr>wn_ftp := Undocked\<rparr> else w1)"

definition closeTab :: "nat \<Rightarrow> window \<Rightarrow> window" where
  "closeTab i w =
     (if length (wn_tabs w) \<le> i then w
      else let gone = tb_panes (wn_tabs w ! i); w = w\<lparr>wn_sessions := (\<lambda>p. if p \<in> set gone then None else wn_sessions w p)\<rparr>
           in syncRemoteDocks (removeTab i w))"

text \<open>A detached tab lives on in a window of its own.\<close>

definition detachCurrentTab :: "window \<Rightarrow> window" where
  "detachCurrentTab w = (if wn_tabs w = [] then w else removeTab (wn_current w) w)"

definition tab_next :: "window \<Rightarrow> window" where
  "tab_next w = (if wn_tabs w \<noteq> [] then w\<lparr>wn_current := (wn_current w + 1) mod length (wn_tabs w)\<rparr> else w)"

definition tab_prev :: "window \<Rightarrow> window" where
  "tab_prev w = (if wn_tabs w \<noteq> [] then w\<lparr>wn_current := (wn_current w + length (wn_tabs w) - 1) mod length (wn_tabs w)\<rparr> else w)"

section \<open>Input\<close>

definition feedPane :: "bytes \<Rightarrow> nat \<Rightarrow> window \<Rightarrow> window" where
  "feedPane b p w = w\<lparr>wn_sent := wn_sent w @ [(p, b)]\<rparr>"

definition broadcastInput :: "bytes \<Rightarrow> window \<Rightarrow> window" where
  "broadcastInput b w = fold (feedPane b) (all_panes w) w"

text \<open>What a pane does with the bytes of a key or a paste: \<open>sendInput\<close> of theory \<open>Terminal_Widget\<close>.\<close>

definition typeInto :: "nat \<Rightarrow> bytes \<Rightarrow> window \<Rightarrow> window" where
  "typeInto p b w =
     (case wn_handler w p of
        Direct \<Rightarrow> feedPane b p w
      | Broadcast \<Rightarrow> broadcastInput b w
      | Recorder \<Rightarrow> feedPane b p (w\<lparr>wn_macro := record_chunk b (wn_macro w)\<rparr>))"

definition toggleMultiExec :: "bool \<Rightarrow> window \<Rightarrow> window" where
  "toggleMultiExec on w =
     w\<lparr>wn_multi := on, wn_handler := (\<lambda>p. if p \<in> set (all_panes w) then if on then Broadcast else Direct else wn_handler w p)\<rparr>"

definition toggleMacroRecording :: "window \<Rightarrow> window" where
  "toggleMacroRecording w =
     (case currentPane w of
        None \<Rightarrow> w
      | Some p \<Rightarrow>
          if \<not> wn_recording w then
            w\<lparr>wn_recording := True, wn_macro := beginRecording (new_macro ''recorded''), wn_handler := (wn_handler w)(p := Recorder)\<rparr>
          else w\<lparr>wn_recording := False, wn_macro := endRecording (wn_macro w),
                 wn_handler := (wn_handler w)(p := if wn_multi w then Broadcast else Direct)\<rparr>)"

definition playMacro :: "window \<Rightarrow> window" where
  "playMacro w =
     (case currentPane w of
        None \<Rightarrow> w
      | Some p \<Rightarrow> if mc_events (wn_macro w) = [] then w else fold (\<lambda>b. feedPane b p) (mc_events (wn_macro w)) w)"

section \<open>Events\<close>

datatype window_event = OpenS bool Session | NewShell | Split | Quad | CloseT nat | Detach | NextTab | PrevTab | SelectTab nat "nat option"
  | Type nat bytes | Multi bool | RecordMacro | PlayMacro

fun window_do :: "window_event \<Rightarrow> window \<Rightarrow> window" where
  "window_do (OpenS web s) w = openSession web s w"
| "window_do NewShell w = openLocalShell w"
| "window_do Split w = splitCurrent w"
| "window_do Quad w = splitQuad w"
| "window_do (CloseT i) w = closeTab i w"
| "window_do Detach w = detachCurrentTab w"
| "window_do NextTab w = tab_next w"
| "window_do PrevTab w = tab_prev w"
| "window_do (SelectTab i f) w = (if i < length (wn_tabs w) then w\<lparr>wn_current := i, wn_focus := f\<rparr> else w)"
| "window_do (Type p b) w = typeInto p b w"
| "window_do (Multi on) w = toggleMultiExec on w"
| "window_do RecordMacro w = toggleMacroRecording w"
| "window_do PlayMacro w = playMacro w"

text \<open>New settings are applied to the panes that are tabs of their own, not to those of splitters.\<close>

definition settings_panes :: "window \<Rightarrow> nat list" where
  "settings_panes w = concat (map tb_panes (filter (\<lambda>t. \<not> tb_split t) (wn_tabs w)))"

section \<open>Well-formed windows\<close>

text \<open>Every pane has its place and its number once, there is a current tab if there is any, no session of a kind
  that has no pane is kept for one, and, where \<open>r\<close> is set, input goes where MultiExec says.\<close>

definition paneless :: "SessionType set" where
  "paneless = {S3, Browser, Rdp, Vnc, Sftp, Ftp}"

definition routed :: "window \<Rightarrow> bool" where
  "routed w \<longleftrightarrow> (\<forall>p \<in> set (all_panes w). wn_handler w p = (if wn_multi w then Broadcast else Direct))"

definition window_ok :: "bool \<Rightarrow> window \<Rightarrow> bool" where
  "window_ok r w \<longleftrightarrow>
     distinct (all_panes w) \<and> (\<forall>p \<in> set (all_panes w). p < wn_next w) \<and> (wn_tabs w \<noteq> [] \<longrightarrow> wn_current w < length (wn_tabs w)) \<and>
     (\<forall>p s. wn_sessions w p = Some s \<longrightarrow> s_type s \<notin> paneless) \<and> (r \<longrightarrow> routed w \<and> \<not> wn_recording w)"

lemma window_ok_empty: "window_ok r empty_window"
  by (simp add: window_ok_def empty_window_def all_panes_def routed_def)

lemma makePane_parts:
  assumes "makePane s w = (p, w')"
  shows "p = wn_next w" "wn_next w' = wn_next w + 1" "wn_tabs w' = wn_tabs w" "wn_current w' = wn_current w" "wn_multi w' = wn_multi w"
    "wn_recording w' = wn_recording w" "wn_sessions w' = (wn_sessions w)(p \<mapsto> s)"
    "wn_handler w' = (wn_handler w)(p := if wn_multi w then Broadcast else Direct)" "wn_sent w' = wn_sent w" "wn_macro w' = wn_macro w"
  using assms by (auto simp: makePane_def Let_def showSftpFor_def split: if_splits)

lemma all_panes_of: "wn_tabs w' = wn_tabs w \<Longrightarrow> all_panes w' = all_panes w"
  by (simp add: all_panes_def)

lemma makePane_ok:
  assumes "makePane s w = (p, w')" and "window_ok r w" and "s_type s \<notin> paneless"
  shows "window_ok r w'" "p \<notin> set (all_panes w')" "p < wn_next w'" "r \<Longrightarrow> wn_handler w' p = (if wn_multi w' then Broadcast else Direct)"
proof -
  note parts = makePane_parts [OF assms(1)]
  have "p \<notin> set (all_panes w)" using assms(2) parts(1) by (auto simp: window_ok_def)
  then show "p \<notin> set (all_panes w')" "p < wn_next w'" "r \<Longrightarrow> wn_handler w' p = (if wn_multi w' then Broadcast else Direct)"
    using parts by (simp_all add: all_panes_def)
  show "window_ok r w'"
    using assms(2,3) parts \<open>p \<notin> set (all_panes w)\<close> all_panes_of [OF parts(3)] by (auto simp: window_ok_def routed_def)
qed

text \<open>Panes that are new are put into tabs.\<close>

lemma all_panes_update:
  assumes "i < length tabs"
  shows "mset (concat (map tb_panes (tabs[i := \<lparr>tb_split = b, tb_panes = tb_panes (tabs ! i) @ ps\<rparr>]))) = mset (concat (map tb_panes tabs)) + mset ps"
proof -
  obtain xs t ys where tabs: "tabs = xs @ t # ys" "i = length xs" using id_take_nth_drop [OF assms] assms by (metis length_take min.absorb4)
  show ?thesis by (simp add: tabs)
qed

lemma window_ok_mset:
  assumes "window_ok r w" and "mset (all_panes w') = mset (all_panes w) + mset ps" and "distinct ps" and "set ps \<inter> set (all_panes w) = {}"
    and "\<forall>p \<in> set ps. p < wn_next w \<and> (r \<longrightarrow> wn_handler w p = (if wn_multi w then Broadcast else Direct))"
    and "wn_next w' = wn_next w" and "wn_current w' < length (wn_tabs w')" and "wn_sessions w' = wn_sessions w"
    and "wn_handler w' = wn_handler w" and "wn_multi w' = wn_multi w" and "wn_recording w' = wn_recording w"
  shows "window_ok r w'"
proof -
  have "set (all_panes w') = set (all_panes w) \<union> set ps" using assms(2) by (metis set_mset_mset set_mset_union)
  moreover have "distinct (all_panes w')"
    using assms(1-4) mset_eq_imp_distinct_iff [of "all_panes w'" "all_panes w @ ps"] by (simp add: window_ok_def Int_commute)
  ultimately show ?thesis using assms by (auto simp: window_ok_def routed_def)
qed

lemma addTab_ok:
  assumes "window_ok r w" and "distinct ps" and "set ps \<inter> set (all_panes w) = {}"
    and "\<forall>p \<in> set ps. p < wn_next w \<and> (r \<longrightarrow> wn_handler w p = (if wn_multi w then Broadcast else Direct))"
  shows "window_ok r (addTab \<lparr>tb_split = False, tb_panes = ps\<rparr> w)"
  by (rule window_ok_mset [OF assms(1) _ assms(2-4)]) (simp_all add: addTab_def all_panes_def)

lemma window_ok_focus [simp]: "window_ok r (w\<lparr>wn_focus := f\<rparr>) = window_ok r w"
  by (simp add: window_ok_def all_panes_def routed_def)

lemma window_ok_docks [simp]: "window_ok r (w\<lparr>wn_sftp := d\<rparr>) = window_ok r w" "window_ok r (w\<lparr>wn_ftp := d\<rparr>) = window_ok r w"
  by (simp_all add: window_ok_def all_panes_def routed_def)

lemma window_ok_sent [simp]: "window_ok r (w\<lparr>wn_sent := x\<rparr>) = window_ok r w" "window_ok r (w\<lparr>wn_macro := m\<rparr>) = window_ok r w"
  by (simp_all add: window_ok_def all_panes_def routed_def)

lemma open_pane_ok:
  assumes "window_ok r w" and "s_type s \<notin> paneless"
  shows "window_ok r (let (p, w) = makePane s w in (addTab \<lparr>tb_split = False, tb_panes = [p]\<rparr> w)\<lparr>wn_focus := Some p\<rparr>)"
proof -
  obtain p w1 where m: "makePane s w = (p, w1)" by (cases "makePane s w")
  note ok = makePane_ok [OF m assms]
  show ?thesis using ok by (simp add: m addTab_ok)
qed

lemma open_ok: "window_ok r w \<Longrightarrow> window_ok r (openSession web s w)"
proof (cases "s_type s \<in> paneless")
  case True
  then show "window_ok r w \<Longrightarrow> ?thesis" by (auto simp: paneless_def openSession_def addTab_ok showSftpFor_def showFtpFor_def)
next
  case False
  then show "window_ok r w \<Longrightarrow> ?thesis" using open_pane_ok [of r w s] by (cases "s_type s") (simp_all add: openSession_def paneless_def)
qed

lemma ref_session_kind: "window_ok r w \<Longrightarrow> s_type (ref_session w) \<notin> paneless"
  by (auto simp: ref_session_def window_ok_def local_session_def new_session_def paneless_def split: option.split)

lemma split_ok:
  assumes "window_ok r w"
  shows "window_ok r (splitCurrent w)"
proof (cases "wn_tabs w = []")
  case False
  obtain p w1 where m: "makePane (ref_session w) w = (p, w1)" by (cases "makePane (ref_session w) w")
  note ok = makePane_ok [OF m assms ref_session_kind [OF assms]] and parts = makePane_parts [OF m]
  have i: "wn_current w < length (wn_tabs w1)" using assms False parts(3) by (simp add: window_ok_def)
  have "window_ok r (w1\<lparr>wn_tabs := (wn_tabs w1)[wn_current w := \<lparr>tb_split = True, tb_panes = tb_panes (wn_tabs w1 ! wn_current w) @ [p]\<rparr>]\<rparr>)"
    by (rule window_ok_mset [OF ok(1), where ps = "[p]"]) (use ok i all_panes_update [OF i] parts(4) in \<open>auto simp: all_panes_def\<close>)
  then show ?thesis using False m by (simp add: splitCurrent_def Let_def)
qed (simp add: splitCurrent_def assms)

lemma quad_ok:
  assumes "window_ok r w"
  shows "window_ok r (splitQuad w)"
proof (cases "wn_tabs w = []")
  case False
  define s where "s = ref_session w"
  have s: "s_type s \<notin> paneless" using ref_session_kind [OF assms] by (simp add: s_def)
  obtain p1 w1 where m1: "makePane s w = (p1, w1)" by (cases "makePane s w")
  obtain p2 w2 where m2: "makePane s w1 = (p2, w2)" by (cases "makePane s w1")
  obtain p3 w3 where m3: "makePane s w2 = (p3, w3)" by (cases "makePane s w2")
  note ok1 = makePane_ok [OF m1 assms s] and parts1 = makePane_parts [OF m1]
  note ok2 = makePane_ok [OF m2 ok1(1) s] and parts2 = makePane_parts [OF m2]
  note ok3 = makePane_ok [OF m3 ok2(1) s] and parts3 = makePane_parts [OF m3]
  have tabs: "wn_tabs w3 = wn_tabs w" using parts1(3) parts2(3) parts3(3) by simp
  have i: "wn_current w < length (wn_tabs w3)" using assms False tabs by (simp add: window_ok_def)
  have "window_ok r (w3\<lparr>wn_tabs := (wn_tabs w3)[wn_current w := \<lparr>tb_split = True, tb_panes = tb_panes (wn_tabs w3 ! wn_current w) @ [p1, p2, p3]\<rparr>]\<rparr>)"
  proof (rule window_ok_mset [OF ok3(1), where ps = "[p1, p2, p3]"])
    show "distinct [p1, p2, p3]" using parts1(1,2) parts2(1,2) parts3(1) by simp
    show "set [p1, p2, p3] \<inter> set (all_panes w3) = {}"
      using ok1(2) ok2(2) ok3(2) parts2(3) parts3(3) by (simp add: all_panes_def)
    show "\<forall>p \<in> set [p1, p2, p3]. p < wn_next w3 \<and> (r \<longrightarrow> wn_handler w3 p = (if wn_multi w3 then Broadcast else Direct))"
      using ok1(4) ok2(4) ok3(4) parts1(1,2) parts2(1,2,5,8) parts3(1,2,5,8) by simp
  qed (use i all_panes_update [OF i] parts1(4) parts2(4) parts3(4) in \<open>simp_all add: all_panes_def\<close>)
  then show ?thesis using False m1 m2 m3 by (simp add: splitQuad_def Let_def s_def)
qed (simp add: splitQuad_def assms)

text \<open>Panes go with their tab.\<close>

lemma window_ok_sub:
  assumes "window_ok r w" and "distinct (all_panes w')" and "set (all_panes w') \<subseteq> set (all_panes w)"
    and "wn_tabs w' \<noteq> [] \<Longrightarrow> wn_current w' < length (wn_tabs w')" and "\<And>p s. wn_sessions w' p = Some s \<Longrightarrow> wn_sessions w p = Some s"
    and "wn_next w' = wn_next w" and "wn_handler w' = wn_handler w" and "wn_multi w' = wn_multi w" and "wn_recording w' = wn_recording w"
  shows "window_ok r w'"
proof -
  have "\<forall>p s. wn_sessions w' p = Some s \<longrightarrow> s_type s \<notin> paneless" using assms(1,5) unfolding window_ok_def by blast
  moreover have "\<forall>p \<in> set (all_panes w'). p < wn_next w'" using assms(1,3,6) by (auto simp: window_ok_def)
  moreover have "r \<longrightarrow> routed w' \<and> \<not> wn_recording w'" using assms(1,3,7-9) by (auto simp: window_ok_def routed_def)
  ultimately show ?thesis using assms(2,4) by (simp add: window_ok_def)
qed

lemma remove_ok:
  assumes "window_ok r w" and "i < length (wn_tabs w)"
  shows "window_ok r (removeTab i w)"
proof (rule window_ok_sub [OF assms(1)])
  obtain xs t ys where tabs: "wn_tabs w = xs @ t # ys" "i = length xs"
    using id_take_nth_drop [OF assms(2)] assms(2) by (metis length_take min.absorb4)
  then have panes: "all_panes (removeTab i w) = concat (map tb_panes xs) @ concat (map tb_panes ys)"
    by (simp add: removeTab_def all_panes_def Let_def)
  show "distinct (all_panes (removeTab i w))" "set (all_panes (removeTab i w)) \<subseteq> set (all_panes w)"
    unfolding panes using assms(1) by (auto simp: tabs window_ok_def all_panes_def)
  show "wn_current (removeTab i w) < length (wn_tabs (removeTab i w))" if "wn_tabs (removeTab i w) \<noteq> []"
    using that assms tabs by (cases "wn_current w") (auto simp: removeTab_def Let_def window_ok_def min_def)
qed (simp_all add: removeTab_def Let_def)

lemma sync_ok: "window_ok r w \<Longrightarrow> window_ok r (syncRemoteDocks w)"
  by (simp add: syncRemoteDocks_def Let_def)

lemma close_ok:
  assumes "window_ok r w"
  shows "window_ok r (closeTab i w)"
proof (cases "i < length (wn_tabs w)")
  case True
  define w1 where "w1 = w\<lparr>wn_sessions := (\<lambda>p. if p \<in> set (tb_panes (wn_tabs w ! i)) then None else wn_sessions w p)\<rparr>"
  have "window_ok r w1"
    by (rule window_ok_sub [OF assms]) (use assms in \<open>auto simp: w1_def all_panes_def window_ok_def split: if_splits\<close>)
  then have "window_ok r (removeTab i w1)" using True by (intro remove_ok) (simp_all add: w1_def)
  then show ?thesis using True sync_ok by (simp add: closeTab_def Let_def w1_def)
qed (simp add: closeTab_def assms)

lemma move_ok: "window_ok r w \<Longrightarrow> (wn_tabs w \<noteq> [] \<Longrightarrow> i < length (wn_tabs w)) \<Longrightarrow> window_ok r (w\<lparr>wn_current := i\<rparr>)"
  by (rule window_ok_sub) (auto simp: window_ok_def all_panes_def)

text \<open>Input changes what was sent and what was recorded.\<close>

lemma feed_ok [simp]: "window_ok r (feedPane b p w) = window_ok r w"
  by (simp add: feedPane_def)

lemma feed_fields [simp]: "wn_tabs (feedPane b p w) = wn_tabs w" "wn_handler (feedPane b p w) = wn_handler w" "wn_macro (feedPane b p w) = wn_macro w"
  "wn_sent (feedPane b p w) = wn_sent w @ [(p, b)]" "wn_current (feedPane b p w) = wn_current w" "wn_focus (feedPane b p w) = wn_focus w"
  by (simp_all add: feedPane_def)

lemma feeds_ok: "window_ok r w \<Longrightarrow> window_ok r (fold (feedPane b) ps w)"
  by (induction ps arbitrary: w) simp_all

lemma feed_many: "wn_sent (fold (feedPane b) ps w) = wn_sent w @ map (\<lambda>p. (p, b)) ps"
  by (induction ps arbitrary: w) simp_all

lemma play_ok: "window_ok r w \<Longrightarrow> window_ok r (fold (\<lambda>b. feedPane b p) bs w)"
  by (induction bs arbitrary: w) simp_all

lemma play_many: "wn_sent (fold (\<lambda>b. feedPane b p) bs w) = wn_sent w @ map (Pair p) bs"
  by (induction bs arbitrary: w) simp_all

lemma input_ok: "window_ok r w \<Longrightarrow> window_ok r (typeInto p b w)"
  by (auto simp: typeInto_def broadcastInput_def feeds_ok split: handler.split)

lemma playMacro_ok: "window_ok r w \<Longrightarrow> window_ok r (playMacro w)"
  by (simp add: playMacro_def play_ok split: option.split)

lemma multi_ok: "window_ok r w \<Longrightarrow> window_ok r (toggleMultiExec on w)"
  by (auto simp: window_ok_def routed_def toggleMultiExec_def all_panes_def)

lemma record_ok: "window_ok False w \<Longrightarrow> window_ok False (toggleMacroRecording w)"
  by (auto simp: window_ok_def toggleMacroRecording_def all_panes_def split: option.split)

lemmas window_operations_ok = open_ok split_ok quad_ok close_ok input_ok multi_ok playMacro_ok

lemma window_do_ok:
  assumes "window_ok r w" and "r \<Longrightarrow> e \<noteq> RecordMacro"
  shows "window_ok r (window_do e w)"
proof (cases e)
  case RecordMacro
  then show ?thesis using assms record_ok by (cases r) simp_all
next
  case Detach
  then show ?thesis using assms(1) remove_ok [OF assms(1), of "wn_current w"] by (simp add: detachCurrentTab_def window_ok_def)
next
  case NextTab
  then show ?thesis using assms(1) by (auto simp: tab_next_def intro: move_ok)
next
  case PrevTab
  then show ?thesis using assms(1) by (auto simp: tab_prev_def intro: move_ok)
next
  case (SelectTab i f)
  have "wn_current_update (\<lambda>_. i) (w\<lparr>wn_focus := f\<rparr>) = w\<lparr>wn_current := i, wn_focus := f\<rparr>" by simp
  then show ?thesis using assms(1) SelectTab by (auto intro: move_ok)
qed (use assms(1) window_operations_ok in \<open>simp_all add: openLocalShell_def\<close>)

lemma window_run_ok:
  "window_ok r w \<Longrightarrow> (r \<Longrightarrow> RecordMacro \<notin> set es) \<Longrightarrow> window_ok r (fold window_do es w)"
proof (induction es arbitrary: w)
  case (Cons e es)
  have "window_ok r (window_do e w)" using Cons.prems by (intro window_do_ok) auto
  then show ?case using Cons.IH [of "window_do e w"] Cons.prems(2) by simp
qed simp

section \<open>What is typed\<close>

text \<open>C22: MultiExec. Whatever tabs were opened, split, closed, detached and moved to, and however often MultiExec
  was switched, as long as no macro was ever recorded (see \<open>recorder_left_behind\<close>): what is typed in a pane of the tab widget is sent once to every
  pane of the tab widget if MultiExec is on, and to that pane alone if it is off.\<close>

theorem multiexec_reaches_all:
  assumes "w = fold window_do es empty_window" and "RecordMacro \<notin> set es" and "p \<in> set (all_panes w)"
  shows "\<exists>ps. wn_sent (window_do (Type p b) w) = wn_sent w @ map (\<lambda>q. (q, b)) ps \<and> distinct ps \<and>
     set ps = (if wn_multi w then set (all_panes w) else {p})"
proof -
  have ok: "window_ok True w" using window_run_ok [OF window_ok_empty, of True es] assms(1,2) by simp
  then have "wn_handler w p = (if wn_multi w then Broadcast else Direct)" using assms(3) by (simp add: window_ok_def routed_def)
  moreover have "distinct (all_panes w)" using ok by (simp add: window_ok_def)
  ultimately show ?thesis
    by (intro exI [of _ "if wn_multi w then all_panes w else [p]"]) (simp add: typeInto_def broadcastInput_def feed_many)
qed

text \<open>What the panes typed into while one of them is recorded do.\<close>

definition type_all :: "(nat \<times> bytes) list \<Rightarrow> window \<Rightarrow> window" where
  "type_all qs w = fold window_do (map (\<lambda>(q, b). Type q b) qs) w"

lemma broadcast_fields [simp]:
  "wn_handler (fold (feedPane b) ps w) = wn_handler w" "wn_macro (fold (feedPane b) ps w) = wn_macro w" "wn_tabs (fold (feedPane b) ps w) = wn_tabs w"
  "wn_current (fold (feedPane b) ps w) = wn_current w" "wn_focus (fold (feedPane b) ps w) = wn_focus w"
  by (induction ps arbitrary: w) simp_all

lemma feed_modes [simp]: "wn_recording (feedPane b p w) = wn_recording w" "wn_multi (feedPane b p w) = wn_multi w"
  by (simp_all add: feedPane_def)

lemma broadcast_modes [simp]: "wn_recording (fold (feedPane b) ps w) = wn_recording w" "wn_multi (fold (feedPane b) ps w) = wn_multi w"
  by (induction ps arbitrary: w) simp_all

lemma typeInto_fields:
  "wn_handler (typeInto p b w) = wn_handler w" "wn_tabs (typeInto p b w) = wn_tabs w" "wn_current (typeInto p b w) = wn_current w"
  "wn_focus (typeInto p b w) = wn_focus w" "wn_recording (typeInto p b w) = wn_recording w" "wn_multi (typeInto p b w) = wn_multi w"
  "wn_macro (typeInto p b w) = (if wn_handler w p = Recorder then record_chunk b (wn_macro w) else wn_macro w)"
  by (simp_all add: typeInto_def broadcastInput_def split: handler.split)

lemma recorded_input:
  assumes "\<And>q. (wn_handler w q = Recorder) = (q = p)" and "mc_recording (wn_macro w)"
  shows "wn_handler (type_all qs w) = wn_handler w \<and> wn_tabs (type_all qs w) = wn_tabs w \<and> wn_current (type_all qs w) = wn_current w \<and>
    wn_focus (type_all qs w) = wn_focus w \<and> wn_recording (type_all qs w) = wn_recording w \<and> wn_multi (type_all qs w) = wn_multi w \<and>
    mc_events (wn_macro (type_all qs w)) = mc_events (wn_macro w) @ map snd (filter (\<lambda>(q, b). q = p) qs)"
  using assms
proof (induction qs arbitrary: w)
  case (Cons e qs)
  obtain q b where e: "e = (q, b)" by (cases e)
  let ?w = "typeInto q b w"
  have step: "type_all (e # qs) w = type_all qs ?w" by (simp add: type_all_def e)
  have "(wn_handler ?w x = Recorder) = (x = p)" for x using Cons.prems(1) by (simp add: typeInto_fields)
  moreover have "mc_recording (wn_macro ?w)" using Cons.prems(2) by (simp add: typeInto_fields record_chunk_def)
  moreover have "mc_events (wn_macro ?w) = mc_events (wn_macro w) @ (if q = p then [b] else [])"
    using Cons.prems by (simp add: typeInto_fields record_chunk_def)
  ultimately show ?case using Cons.IH [of ?w] typeInto_fields(1-6) [of q b w] by (simp only: step) (simp add: e)
qed (simp add: type_all_def)

lemma currentPane_of:
  "wn_tabs w' = wn_tabs w \<Longrightarrow> wn_current w' = wn_current w \<Longrightarrow> wn_focus w' = wn_focus w \<Longrightarrow> currentPane w' = currentPane w"
  by (simp add: currentPane_def split: list.split option.split)

text \<open>C23: macros. Recording is started, while none goes on, and stopped in the same pane; in between there is only
  typing, there and in other panes (switching MultiExec would end it, see \<open>multi_ends_recording\<close>). Then the macro is what was typed in that pane, replaying it sends this to the pane in order, and the
  pane's input goes where it went before.\<close>

theorem macro_replays:
  assumes "\<And>q. wn_handler w q \<noteq> Recorder" and "\<not> wn_recording w" and "currentPane w = Some p"
    and "w' = fold window_do (RecordMacro # map (\<lambda>(q, b). Type q b) qs @ [RecordMacro]) w"
    and "typed = map snd (filter (\<lambda>(q, b). q = p) qs)"
  shows "mc_events (wn_macro w') = typed \<and> \<not> mc_recording (wn_macro w') \<and>
    wn_sent (window_do PlayMacro w') = wn_sent w' @ map (Pair p) typed \<and>
    wn_handler w' = (wn_handler w)(p := if wn_multi w then Broadcast else Direct)"
proof -
  define w1 where "w1 = toggleMacroRecording w"
  have w1: "wn_handler w1 = (wn_handler w)(p := Recorder)" "mc_events (wn_macro w1) = []" "mc_recording (wn_macro w1)" "wn_recording w1"
    "wn_tabs w1 = wn_tabs w" "wn_current w1 = wn_current w" "wn_focus w1 = wn_focus w" "wn_multi w1 = wn_multi w"
    using assms(2,3) by (simp_all add: w1_def toggleMacroRecording_def beginRecording_def new_macro_def)
  define w2 where "w2 = type_all qs w1"
  have "(wn_handler w1 q = Recorder) = (q = p)" for q using assms(1) w1(1) by simp
  from recorded_input [OF this w1(3), of qs, folded w2_def]
  have typed: "wn_handler w2 = wn_handler w1" "wn_tabs w2 = wn_tabs w1" "wn_current w2 = wn_current w1" "wn_focus w2 = wn_focus w1"
    "wn_recording w2 = wn_recording w1" "wn_multi w2 = wn_multi w1" "mc_events (wn_macro w2) = mc_events (wn_macro w1) @ typed"
    by (simp_all add: assms(5))
  have "currentPane w2 = Some p" using currentPane_of [of w2 w] typed(2-4) w1(5-7) assms(3) by simp
  then have current: "currentPane (toggleMacroRecording w2) = Some p"
    using currentPane_of [of "toggleMacroRecording w2" w2] by (simp add: toggleMacroRecording_def)
  have w': "w' = toggleMacroRecording w2" using assms(4) by (simp add: w2_def w1_def type_all_def)
  have stop: "w' = w2\<lparr>wn_recording := False, wn_macro := endRecording (wn_macro w2),
      wn_handler := (wn_handler w2)(p := if wn_multi w2 then Broadcast else Direct)\<rparr>"
    using \<open>currentPane w2 = Some p\<close> typed(5) w1(4) by (simp add: w' toggleMacroRecording_def)
  have events: "mc_events (wn_macro w') = typed" using typed(7) w1(2) assms(5) by (simp add: stop endRecording_def)
  have "wn_sent (playMacro w') = wn_sent w' @ map (Pair p) typed"
    using current w' events by (simp add: playMacro_def play_many)
  then show ?thesis using events typed(1,6) w1(1,8) by (simp add: stop endRecording_def)
qed

text \<open>A window with two tabs, the second split.\<close>

definition demo_events :: "window_event list" where
  "demo_events = [NewShell, OpenS False (new_session ''web'' Ssh), Split, PrevTab, SelectTab 1 (Some 1)]"

definition demo_window :: window where
  "demo_window = fold window_do demo_events empty_window"

lemmas window_code = demo_window_def demo_events_def empty_window_def openLocalShell_def openSession_def makePane_def splitCurrent_def addTab_def
  local_session_def new_session_def tab_prev_def ref_session_def currentPane_def showSftpFor_def

lemma demo_window_code:
  "wn_tabs demo_window = [\<lparr>tb_split = False, tb_panes = [0]\<rparr>, \<lparr>tb_split = True, tb_panes = [1, 2]\<rparr>]" "wn_current demo_window = 1"
  "wn_focus demo_window = Some 1" "wn_handler demo_window = (\<lambda>p. Direct)" "\<not> wn_recording demo_window" "\<not> wn_multi demo_window"
  by (simp_all add: window_code Let_def fun_eq_iff)

theorem multiexec_reaches_all_witness:
  "\<exists>ps. wn_sent (window_do (Type 1 [108]) (toggleMultiExec True demo_window)) =
     wn_sent (toggleMultiExec True demo_window) @ map (\<lambda>q. (q, [108])) ps \<and> distinct ps \<and> set ps = {0, 1, 2}"
proof -
  have "toggleMultiExec True demo_window = fold window_do (demo_events @ [Multi True]) empty_window" by (simp add: demo_window_def)
  moreover have "all_panes (toggleMultiExec True demo_window) = [0, 1, 2]" by (simp add: all_panes_def toggleMultiExec_def demo_window_code)
  ultimately show ?thesis
    using multiexec_reaches_all [of "toggleMultiExec True demo_window" "demo_events @ [Multi True]" 1 "[108]"]
    by (simp add: demo_events_def toggleMultiExec_def)
qed

theorem macro_replays_witness:
  "mc_events (wn_macro (fold window_do [RecordMacro, Type 1 [108], Type 0 [120], Type 1 [13], RecordMacro] demo_window)) = [[108], [13]]"
proof -
  let ?qs = "[(1, [108]), (0, [120]), (1, [13])] :: (nat \<times> bytes) list"
  have events: "RecordMacro # map (\<lambda>(q, b). Type q b) ?qs @ [RecordMacro] =
      [RecordMacro, Type 1 [108], Type 0 [120], Type 1 [13], RecordMacro]" by simp
  have "currentPane demo_window = Some 1" by (simp add: currentPane_def demo_window_code)
  with macro_replays [of demo_window 1 _ ?qs, OF _ _ _ refl refl, unfolded events] demo_window_code(4,5)
  have "mc_events (wn_macro (fold window_do [RecordMacro, Type 1 [108], Type 0 [120], Type 1 [13], RecordMacro] demo_window)) =
      map snd (filter (\<lambda>(q, b). q = 1) ?qs)" by (metis handler.distinct(3))
  then show ?thesis by (simp only: list.map filter.simps prod.case snd_conv) simp
qed

section \<open>What the window gets wrong\<close>

text \<open>A session that has a file browser of its own has no pane, so nothing keeps its browser: closing any tab
  closes the FTP browser.\<close>

lemma no_ftp_pane: "window_ok r w \<Longrightarrow> \<not> needs (\<lambda>t. t = Ftp) w"
  by (auto simp: needs_def window_ok_def list_ex_iff paneless_def split: option.splits)

lemma ftp_browser_closed:
  assumes "w = fold window_do es empty_window" and "i < length (wn_tabs w)" and "wn_ftp w \<noteq> NoDock"
  shows "wn_ftp (closeTab i w) = Undocked"
proof -
  let ?w = "removeTab i (w\<lparr>wn_sessions := (\<lambda>p. if p \<in> set (tb_panes (wn_tabs w ! i)) then None else wn_sessions w p)\<rparr>)"
  have ok: "window_ok False w" using window_run_ok [OF window_ok_empty, of False es] assms(1) by simp
  have "window_ok False (w\<lparr>wn_sessions := (\<lambda>p. if p \<in> set (tb_panes (wn_tabs w ! i)) then None else wn_sessions w p)\<rparr>)"
    by (rule window_ok_sub [OF ok]) (use ok in \<open>auto simp: all_panes_def window_ok_def split: if_splits\<close>)
  then have "window_ok False ?w" by (rule remove_ok) (use assms(2) in simp)
  moreover have "wn_ftp ?w \<noteq> NoDock" using assms(3) by (simp add: removeTab_def Let_def)
  ultimately show ?thesis using assms(2) no_ftp_pane [of False "?w\<lparr>wn_sftp := Undocked\<rparr>"] no_ftp_pane [of False ?w]
    by (simp add: closeTab_def syncRemoteDocks_def Let_def)
qed

text \<open>Recording that is stopped in another pane leaves its pane recording: it takes no part in MultiExec as a
  source. Switching MultiExec while recording ends the recording unnoticed. A pane that was detached while MultiExec
  was on sends what is typed in it to the panes left behind and not to its own connection.\<close>

lemma recorder_left_behind:
  "wn_handler (fold window_do [RecordMacro, SelectTab 0 None, RecordMacro] demo_window) 1 = Recorder"
  by (simp add: toggleMacroRecording_def currentPane_def demo_window_code)

lemma multi_ends_recording:
  "mc_events (wn_macro (fold window_do [RecordMacro, Type 1 [108], Multi False, Type 1 [13], RecordMacro] demo_window)) = [[108]]"
proof -
  define w1 where "w1 = toggleMacroRecording demo_window"
  have w1: "wn_handler w1 1 = Recorder" "wn_macro w1 = \<lparr>mc_name = ''recorded'', mc_recording = True, mc_events = []\<rparr>" "wn_tabs w1 = wn_tabs demo_window"
    "wn_recording w1"
    by (simp_all add: w1_def toggleMacroRecording_def currentPane_def demo_window_code new_macro_def beginRecording_def del: One_nat_def)
  define w2 where "w2 = toggleMultiExec False (typeInto 1 [108] w1)"
  have w2: "wn_handler w2 1 = Direct" "mc_events (wn_macro w2) = [[108]]" "wn_recording w2"
    by (simp_all add: w2_def toggleMultiExec_def typeInto_fields w1 record_chunk_def all_panes_def demo_window_code del: One_nat_def)
  have "mc_events (wn_macro (toggleMacroRecording (typeInto 1 [13] w2))) = [[108]]"
    using w2 by (simp add: toggleMacroRecording_def typeInto_fields endRecording_def split: option.split)
  then show ?thesis by (simp add: w1_def w2_def)
qed

lemma detached_pane_misroutes:
  "wn_sent (fold window_do [Multi True, Detach, Type 1 [108]] demo_window) = wn_sent demo_window @ [(0, [108])]"
  by (simp add: toggleMultiExec_def typeInto_def all_panes_def demo_window_code detachCurrentTab_def removeTab_def broadcastInput_def feedPane_def)

end
