(* ===== verification/Surface.thy ===== *)
theory Surface
  imports Connection "HOL-Library.Signed_Division"
begin

text \<open>
  The drawing surface of graphical sessions, \<open>src/src/ui/RdpSurfaceWidget.{h,cpp}\<close>, and how the main window feeds
  it from a VNC connection, \<open>openGraphicalSession\<close> of \<open>src/src/ui/MainWindow.cpp\<close>. An image is its size and the
  colour of each place; memory that suffices for an image, and the mixing of half transparent colours, are
  parameters.
\<close>

section \<open>Images\<close>

record image =
  im_w :: int
  im_h :: int
  im_at :: "int \<Rightarrow> int \<Rightarrow> pixel"

record painter =
  pn_fits :: "int \<Rightarrow> int \<Rightarrow> bool"
  pn_blend :: "pixel \<Rightarrow> pixel \<Rightarrow> pixel"

text \<open>\<open>QImage(w, h, Format_ARGB32)\<close>, with every place set. An image without places, or without memory, is null.\<close>

definition make_image :: "painter \<Rightarrow> int \<Rightarrow> int \<Rightarrow> (int \<Rightarrow> int \<Rightarrow> pixel) \<Rightarrow> image option" where
  "make_image p w h f = (if w \<le> 0 \<or> h \<le> 0 \<or> \<not> pn_fits p w h then None else Some \<lparr>im_w = w, im_h = h, im_at = f\<rparr>)"

definition inside :: "int \<Rightarrow> int \<Rightarrow> int \<Rightarrow> int \<Rightarrow> int \<Rightarrow> int \<Rightarrow> bool" where
  "inside x y w h i j \<longleftrightarrow> x \<le> i \<and> i < x + w \<and> y \<le> j \<and> j < y + h"

text \<open>\<open>QPainter::drawImage\<close>: opaque colours replace, transparent ones leave what is there.\<close>

definition over :: "painter \<Rightarrow> pixel \<Rightarrow> pixel \<Rightarrow> pixel" where
  "over p src dst = (if drop_bit 24 src = 255 then src else if drop_bit 24 src = 0 then dst else pn_blend p src dst)"

definition drawImage :: "painter \<Rightarrow> int \<Rightarrow> int \<Rightarrow> image \<Rightarrow> image \<Rightarrow> image" where
  "drawImage p x y tile img =
     img\<lparr>im_at := (\<lambda>i j. if inside x y (im_w tile) (im_h tile) i j then over p (im_at tile (i - x) (j - y)) (im_at img i j) else im_at img i j)\<rparr>"

text \<open>\<open>QImage::copy\<close>: places beyond the image are transparent, and a rectangle of no width and no height stands for
  the whole image.\<close>

definition copy_image :: "painter \<Rightarrow> int \<Rightarrow> int \<Rightarrow> int \<Rightarrow> int \<Rightarrow> image \<Rightarrow> image option" where
  "copy_image p x y w h img =
     (if w = 0 \<and> h = 0 then Some img
      else make_image p w h (\<lambda>i j. if inside 0 0 (im_w img) (im_h img) (x + i) (y + j) then im_at img (x + i) (y + j) else 0))"

section \<open>The surface\<close>

datatype surface_signal = PointerEvent int int int | KeyEvent u32 bool

record surface =
  sf_frame :: "image option"
  sf_viewOnly :: bool
  sf_w :: int
  sf_h :: int

definition setFrame :: "image option \<Rightarrow> surface \<Rightarrow> surface" where
  "setFrame f s = s\<lparr>sf_frame := f\<rparr>"

definition updateRect :: "painter \<Rightarrow> int \<Rightarrow> int \<Rightarrow> image option \<Rightarrow> surface \<Rightarrow> surface" where
  "updateRect p x y tile s =
     (case sf_frame s of
        None \<Rightarrow> s\<lparr>sf_frame := tile\<rparr>
      | Some img \<Rightarrow> (case tile of None \<Rightarrow> s | Some t \<Rightarrow> s\<lparr>sf_frame := Some (drawImage p x y t img)\<rparr>))"

section \<open>Mouse and keyboard\<close>

record mouse_buttons =
  mb_left :: bool
  mb_middle :: bool
  mb_right :: bool

definition buttonMaskFromQt :: "mouse_buttons \<Rightarrow> int" where
  "buttonMaskFromQt b = (if mb_left b then 1 else 0) + (if mb_middle b then 2 else 0) + (if mb_right b then 4 else 0)"

text \<open>\<open>x\<close> and \<open>y\<close>: the place of the mouse, cut to whole pixels.\<close>

definition emitPointer :: "int \<Rightarrow> int \<Rightarrow> mouse_buttons \<Rightarrow> surface \<Rightarrow> fault + surface_signal list" where
  "emitPointer x y b s =
     (case sf_frame s of
        None \<Rightarrow> ok []
      | Some img \<Rightarrow>
          if sf_viewOnly s \<or> sf_w s \<le> 0 \<or> sf_h s \<le> 0 then ok []
          else bindF (intOp (x * im_w img)) (\<lambda>px. bindF (intOp (y * im_h img)) (\<lambda>py.
               ok [PointerEvent (px sdiv sf_w s) (py sdiv sf_h s) (buttonMaskFromQt b)])))"

text \<open>The keys by the numbers Qt gives them: those with a keysym of their own, the function keys, and the rest, whose
  text counts.\<close>

definition named_keys :: "(int \<times> u32) list" where
  "named_keys =
     [(0x01000003, 0xff08), (0x01000001, 0xff09), (0x01000004, 0xff0d), (0x01000005, 0xff0d), (0x01000000, 0xff1b),
      (0x01000007, 0xffff), (0x01000010, 0xff50), (0x01000012, 0xff51), (0x01000013, 0xff52), (0x01000014, 0xff53),
      (0x01000015, 0xff54), (0x01000016, 0xff55), (0x01000017, 0xff56), (0x01000011, 0xff57), (0x01000006, 0xff63),
      (0x01000020, 0xffe1), (0x01000021, 0xffe3), (0x01000023, 0xffe9), (0x01000022, 0xffeb)]"

definition key_f1 :: int where "key_f1 = 0x01000030"

definition key_f35 :: int where "key_f35 = 0x01000052"

definition qtKeyToKeysym :: "int \<Rightarrow> u16 list \<Rightarrow> u32" where
  "qtKeyToKeysym key typed =
     (case map_of named_keys key of
        Some ks \<Rightarrow> ks
      | None \<Rightarrow>
          if key_f1 \<le> key \<and> key \<le> key_f35 then 0xffbe + of_int (key - key_f1)
          else case typed of [] \<Rightarrow> 0 | c # cs \<Rightarrow> ucast c)"

definition key_signal :: "bool \<Rightarrow> int \<Rightarrow> u16 list \<Rightarrow> surface \<Rightarrow> surface_signal list" where
  "key_signal down key typed s =
     (let ks = qtKeyToKeysym key typed in if sf_viewOnly s \<or> ks = 0 then [] else [KeyEvent ks down])"

section \<open>A VNC session\<close>

text \<open>What the window does with the signals of the connection.\<close>

definition black :: pixel where "black = 0xff000000"

definition vnc_show :: "painter \<Rightarrow> vnc_event \<Rightarrow> surface \<Rightarrow> fault + surface" where
  "vnc_show p e s =
     (case e of
        ServerReady w h n \<Rightarrow> ok (setFrame (make_image p (uint w) (uint h) (\<lambda>i j. black)) s)
      | RectDecoded x y w h px \<Rightarrow>
          bindF (intOp (uint w * uint h)) (\<lambda>n.
          if int (length px) < n then ok s
          else ok (updateRect p (uint x) (uint y) (make_image p (uint w) (uint h) (\<lambda>c r. px ! nat (r * uint w + c))) s))
      | CopyRect sx sy x y w h \<Rightarrow>
          (case sf_frame s of
             None \<Rightarrow> ok s
           | Some fb \<Rightarrow> ok (updateRect p (uint x) (uint y) (copy_image p (int sx) (int sy) (uint w) (uint h) fb) s))
      | _ \<Rightarrow> ok s)"

text \<open>What it does with those of the surface.\<close>

definition vnc_input :: "surface_signal \<Rightarrow> 'z vnc \<Rightarrow> 'z vnc" where
  "vnc_input g v = (case g of PointerEvent x y m \<Rightarrow> sendPointerEvent x y m v | KeyEvent ks d \<Rightarrow> sendKeyEvent ks d v)"

section \<open>The screen that is meant\<close>

text \<open>The protocol's own description of the updates: what is the colour of each place of the server's screen of
  width \<open>W\<close> and height \<open>H\<close>. A rectangle that has not as many pixels as places is none, and a place that is copied from
  outside the screen keeps its colour.\<close>

definition screen_step :: "int \<Rightarrow> int \<Rightarrow> vnc_event \<Rightarrow> (int \<Rightarrow> int \<Rightarrow> pixel) \<Rightarrow> int \<Rightarrow> int \<Rightarrow> pixel" where
  "screen_step W H e scr i j =
     (case e of
        RectDecoded x y w h px \<Rightarrow>
          if uint w * uint h \<le> int (length px) \<and> inside (uint x) (uint y) (uint w) (uint h) i j
          then px ! nat ((j - uint y) * uint w + (i - uint x)) else scr i j
      | CopyRect sx sy x y w h \<Rightarrow>
          if inside (uint x) (uint y) (uint w) (uint h) i j \<and> inside 0 0 W H (i - uint x + int sx) (j - uint y + int sy)
          then scr (i - uint x + int sx) (j - uint y + int sy) else scr i j
      | _ \<Rightarrow> scr i j)"

definition opaque :: "pixel \<Rightarrow> bool" where
  "opaque c \<longleftrightarrow> drop_bit 24 c = 255"

text \<open>An update with opaque pixels (the decoders give every pixel the alpha value 255) and of a size that \<open>int\<close> can count
  and an image can have. Not the copy of a rectangle without width and height, see below.\<close>

definition proper_update :: "painter \<Rightarrow> vnc_event \<Rightarrow> bool" where
  "proper_update p e \<longleftrightarrow>
     (case e of
        ServerReady w h n \<Rightarrow> False
      | RectDecoded x y w h px \<Rightarrow> uint w * uint h < 2 ^ 31 \<and> list_all opaque px \<and> pn_fits p (uint w) (uint h)
      | CopyRect sx sy x y w h \<Rightarrow> pn_fits p (uint w) (uint h) \<and> (w \<noteq> 0 \<or> h \<noteq> 0)
      | _ \<Rightarrow> True)"

definition displays :: "int \<Rightarrow> int \<Rightarrow> (int \<Rightarrow> int \<Rightarrow> pixel) \<Rightarrow> surface \<Rightarrow> bool" where
  "displays W H scr s \<longleftrightarrow>
     (\<exists>img. sf_frame s = Some img \<and> im_w img = W \<and> im_h img = H \<and>
        (\<forall>i j. inside 0 0 W H i j \<longrightarrow> im_at img i j = scr i j \<and> opaque (scr i j)))"

section \<open>The surface shows the server's screen\<close>

lemma over_opaque [simp]: "opaque c \<Longrightarrow> over p c d = c"
  by (simp add: opaque_def over_def)

lemma index_inside:
  assumes "inside x y w h i j"
  shows "0 \<le> (j - y) * w + (i - x)" "(j - y) * w + (i - x) < w * h"
proof -
  have *: "0 \<le> i - x" "i - x < w" "0 \<le> j - y" "j - y \<le> h - 1" using assms by (auto simp: inside_def)
  then show "0 \<le> (j - y) * w + (i - x)" by simp
  have "(j - y) * w \<le> (h - 1) * w" using * by (intro mult_right_mono) auto
  also have "\<dots> = w * h - w" by (simp add: algebra_simps)
  finally show "(j - y) * w + (i - x) < w * h" using * by simp
qed

lemma over_clear [simp]: "over p 0 d = d"
  by (simp add: over_def)

lemma drawn:
  assumes "displays W H scr s"
    and "\<And>i j. inside x y (im_w t) (im_h t) i j \<Longrightarrow> inside 0 0 W H i j \<Longrightarrow> opaque (im_at t (i - x) (j - y)) \<or> im_at t (i - x) (j - y) = 0"
  shows "displays W H (\<lambda>i j. if inside x y (im_w t) (im_h t) i j \<and> im_at t (i - x) (j - y) \<noteq> 0 then im_at t (i - x) (j - y) else scr i j)
    (updateRect p x y (Some t) s)"
proof -
  obtain img where img: "sf_frame s = Some img" "im_w img = W" "im_h img = H" "\<And>i j. inside 0 0 W H i j \<Longrightarrow> im_at img i j = scr i j \<and> opaque (scr i j)"
    using assms(1) by (auto simp: displays_def)
  define scr' where "scr' = (\<lambda>i j. if inside x y (im_w t) (im_h t) i j \<and> im_at t (i - x) (j - y) \<noteq> 0 then im_at t (i - x) (j - y) else scr i j)"
  have "im_at (drawImage p x y t img) i j = scr' i j \<and> opaque (scr' i j)" if "inside 0 0 W H i j" for i j
    using assms(2) [OF _ that] img(4) [OF that] by (cases "im_at t (i - x) (j - y) = 0") (auto simp: drawImage_def scr'_def)
  moreover have "im_w (drawImage p x y t img) = W" "im_h (drawImage p x y t img) = H" using img(2,3) by (simp_all add: drawImage_def)
  ultimately show ?thesis using img(1) unfolding scr'_def [symmetric] displays_def updateRect_def by simp
qed

lemma empty_tile: "w \<le> 0 \<or> h \<le> 0 \<Longrightarrow> \<not> inside x y w h i j"
  by (auto simp: inside_def)

lemma no_tile: "displays W H scr s \<Longrightarrow> updateRect p x y None s = s"
  by (auto simp: displays_def updateRect_def)

lemma displays_cong:
  assumes "displays W H scr s" and "\<And>i j. inside 0 0 W H i j \<Longrightarrow> scr' i j = scr i j"
  shows "displays W H scr' s"
  using assms unfolding displays_def by metis

text \<open>A tile of a size the update names, whose places are opaque or wholly transparent.\<close>

lemma tile_shown:
  assumes "displays W H scr s" and "pn_fits p w h"
    and "\<And>i j. inside x y w h i j \<Longrightarrow> inside 0 0 W H i j \<Longrightarrow> opaque (f (i - x) (j - y)) \<or> f (i - x) (j - y) = 0"
  shows "displays W H (\<lambda>i j. if inside x y w h i j \<and> f (i - x) (j - y) \<noteq> 0 then f (i - x) (j - y) else scr i j)
    (updateRect p x y (make_image p w h f) s)"
proof (cases "w \<le> 0 \<or> h \<le> 0")
  case True
  then have "make_image p w h f = None" "\<And>i j. \<not> inside x y w h i j" using empty_tile by (auto simp: make_image_def)
  with assms(1) show ?thesis by (simp add: no_tile)
next
  case False
  with assms drawn [OF assms(1), of x y "\<lparr>im_w = w, im_h = h, im_at = f\<rparr>" p] show ?thesis by (simp add: make_image_def cong: if_cong)
qed

lemma opaque_not_0: "opaque c \<Longrightarrow> c \<noteq> 0"
  by (auto simp: opaque_def)

lemma show_step:
  assumes "displays W H scr s" and "proper_update p e"
  shows "\<exists>s'. vnc_show p e s = ok s' \<and> displays W H (screen_step W H e scr) s'"
proof (cases e)
  case (RectDecoded x y w h px)
  have px: "uint w * uint h < 2 ^ 31" "list_all opaque px" "pn_fits p (uint w) (uint h)"
    using assms(2) by (simp_all add: proper_update_def RectDecoded)
  have "fitsInt (uint w * uint h)" using px(1) by (simp add: fitsInt_def order_trans [OF _ zero_le_mult_iff [THEN iffD2]])
  then have n: "intOp (uint w * uint h) = ok (uint w * uint h)" by (simp add: intOp_ok)
  show ?thesis
  proof (cases "uint w * uint h \<le> int (length px)")
    case True
    then have shown: "vnc_show p e s = ok (updateRect p (uint x) (uint y) (make_image p (uint w) (uint h) (\<lambda>c r. px ! nat (r * uint w + c))) s)"
      by (simp add: vnc_show_def RectDecoded n)
    have o: "opaque (px ! nat ((j - uint y) * uint w + (i - uint x)))" if "inside (uint x) (uint y) (uint w) (uint h) i j" for i j
      using index_inside [OF that] px(2) True by (simp add: list_all_length)
    have "displays W H (screen_step W H e scr) (updateRect p (uint x) (uint y) (make_image p (uint w) (uint h) (\<lambda>c r. px ! nat (r * uint w + c))) s)"
      by (rule displays_cong [OF tile_shown [OF assms(1) px(3)]])
        (use o opaque_not_0 True in \<open>auto simp: screen_step_def RectDecoded\<close>)
    with shown show ?thesis by blast
  next
    case False
    then have "vnc_show p e s = ok s" by (simp add: vnc_show_def RectDecoded n)
    with False assms(1) show ?thesis by (simp add: screen_step_def [abs_def] RectDecoded)
  qed
next
  case (CopyRect sx sy x y w h)
  have cp: "pn_fits p (uint w) (uint h)" "w \<noteq> 0 \<or> h \<noteq> 0"
    using assms(2) by (simp_all add: proper_update_def CopyRect)
  obtain fb where fb: "sf_frame s = Some fb" "im_w fb = W" "im_h fb = H" "\<And>i j. inside 0 0 W H i j \<Longrightarrow> im_at fb i j = scr i j \<and> opaque (scr i j)"
    using assms(1) by (auto simp: displays_def)
  let ?f = "\<lambda>i j. if inside 0 0 W H (int sx + i) (int sy + j) then im_at fb (int sx + i) (int sy + j) else 0"
  have "vnc_show p e s = ok (updateRect p (uint x) (uint y) (make_image p (uint w) (uint h) ?f) s)"
    using cp(2) by (cases "w = 0") (simp_all add: vnc_show_def CopyRect fb copy_image_def unsigned_eq_0_iff)
  moreover have "displays W H (screen_step W H e scr) (updateRect p (uint x) (uint y) (make_image p (uint w) (uint h) ?f) s)"
    by (rule displays_cong [OF tile_shown [OF assms(1) cp(1)]])
      (use fb(4) opaque_not_0 in \<open>auto simp: screen_step_def CopyRect add.commute\<close>)
  ultimately show ?thesis by blast
qed (use assms in \<open>simp_all add: vnc_show_def screen_step_def [abs_def] proper_update_def\<close>)

text \<open>C34: a VNC session on its surface. After the server has announced its screen (not empty, and not too large for an
  image) and sent any series of rectangles and copies - also with too few pixels, or from outside its screen - nothing
  has gone wrong, the image of the surface is of the screen's size, and each of its places has the colour the updates
  give it, in their order. The pixels are opaque, \<open>int\<close> can count those of a rectangle, and no copy is of a rectangle
  without width and height.\<close>

theorem vnc_surface_shows_screen:
  assumes "uint w > 0" and "uint h > 0" and "pn_fits p (uint w) (uint h)" and "list_all (proper_update p) es"
  shows "\<exists>s' img. foldF (vnc_show p) (ServerReady w h n # es) s = ok s' \<and> sf_frame s' = Some img \<and> im_w img = uint w \<and> im_h img = uint h \<and>
     (\<forall>i j. inside 0 0 (uint w) (uint h) i j \<longrightarrow> im_at img i j = fold (screen_step (uint w) (uint h)) es (\<lambda>i j. black) i j)"
proof -
  have run: "\<exists>s'. foldF (vnc_show p) es t = ok s' \<and> displays (uint w) (uint h) (fold (screen_step (uint w) (uint h)) es scr) s'"
    if "displays (uint w) (uint h) scr t" for t scr
    using that assms(4)
  proof (induction es arbitrary: t scr)
    case (Cons e es)
    obtain t' where t': "vnc_show p e t = ok t'" "displays (uint w) (uint h) (screen_step (uint w) (uint h) e scr) t'"
      using show_step [OF Cons.prems(1)] Cons.prems(2) by auto
    with Cons.IH [OF t'(2)] Cons.prems(2) show ?case by simp
  qed simp
  define t where "t = setFrame (Some \<lparr>im_w = uint w, im_h = uint h, im_at = (\<lambda>i j. black)\<rparr>) s"
  have "vnc_show p (ServerReady w h n) s = ok t" using assms(1-3) by (simp add: vnc_show_def make_image_def t_def)
  moreover have "displays (uint w) (uint h) (\<lambda>i j. black) t" by (simp add: displays_def t_def setFrame_def opaque_def black_def)
  ultimately show ?thesis using run [of "\<lambda>i j. black" t] by (auto simp: displays_def)
qed

text \<open>A place of the widget, scaled to the screen.\<close>

lemma scaled_place:
  fixes a n m :: int
  assumes that: "0 \<le> a" "a < m" "m \<le> 32767" "0 < n" "n \<le> 65535"
  shows "fitsInt (a * n) \<and> 0 \<le> (a * n) sdiv m \<and> (a * n) sdiv m < n"
proof -
  have "a * n \<le> 32766 * 65535" using that by (intro mult_mono) auto
  moreover have "0 \<le> a * n" using that by simp
  moreover have "a * n < n * m" using that by (simp add: mult.commute)
  moreover have "(a * n div m) * m \<le> a * n"
    using pos_mod_sign [of m "a * n"] div_mult_mod_eq [of "a * n" m] that by linarith
  ultimately have "(a * n div m) * m < n * m" by linarith
  then have "a * n div m < n" using that by simp
  moreover define q where "q = a * n"
  have "0 \<le> q" "q \<le> 32766 * 65535" using \<open>0 \<le> a * n\<close> \<open>a * n \<le> 32766 * 65535\<close> by (simp_all add: q_def)
  then have "fitsInt q" "q sdiv m = q div m" "0 \<le> q div m"
    using that by (auto simp: fitsInt_def signed_divide_int_def sgn_if pos_imp_zdiv_nonneg_iff)
  ultimately show ?thesis by (simp add: q_def)
qed

text \<open>The mouse over the surface. A place of the widget is reported as a place of the remote screen, without an
  overflow on the way, for every widget and screen of the sizes there are.\<close>

theorem pointer_on_screen:
  assumes "sf_frame s = Some img" and "\<not> sf_viewOnly s" and "0 < im_w img" and "im_w img \<le> 65535" and "0 < im_h img" and "im_h img \<le> 65535"
    and "0 \<le> x" and "x < sf_w s" and "sf_w s \<le> 32767" and "0 \<le> y" and "y < sf_h s" and "sf_h s \<le> 32767"
  shows "\<exists>fx fy. emitPointer x y b s = ok [PointerEvent fx fy (buttonMaskFromQt b)] \<and> inside 0 0 (im_w img) (im_h img) fx fy"
proof -
  note px = scaled_place [OF assms(7-9) assms(3,4)] and py = scaled_place [OF assms(10-12) assms(5,6)]
  have "emitPointer x y b s = ok [PointerEvent ((x * im_w img) sdiv sf_w s) ((y * im_h img) sdiv sf_h s) (buttonMaskFromQt b)]"
    using assms(1,2,7,8,10,11) px py by (simp add: emitPointer_def intOp_ok)
  then show ?thesis using px py by (intro exI conjI) (auto simp: inside_def)
qed

section \<open>Witnesses\<close>

definition demo_painter :: painter where
  "demo_painter = \<lparr>pn_fits = (\<lambda>w h. w * h < 10000), pn_blend = (\<lambda>s d. s)\<rparr>"

definition demo_updates :: "vnc_event list" where
  "demo_updates = [RectDecoded 1 0 2 1 [0xffff0000, 0xff00ff00], CopyRect 1 0 0 1 2 1, CopyRect 2 0 1 0 2 1]"

theorem vnc_surface_shows_screen_witness:
  "\<exists>s' img. foldF (vnc_show demo_painter) (ServerReady 3 2 ''demo'' # demo_updates) \<lparr>sf_frame = None, sf_viewOnly = False, sf_w = 30, sf_h = 20\<rparr> = ok s' \<and>
     sf_frame s' = Some img \<and> im_at img 0 1 = 0xffff0000 \<and> im_at img 1 0 = 0xff00ff00 \<and> im_at img 2 0 = 0xff00ff00 \<and> im_at img 2 1 = black"
proof -
  let ?s = "\<lparr>sf_frame = None, sf_viewOnly = False, sf_w = 30, sf_h = 20\<rparr>"
  have "list_all (proper_update demo_painter) demo_updates"
    by (simp add: demo_updates_def demo_painter_def proper_update_def opaque_def)
  with vnc_surface_shows_screen [of 3 2 demo_painter demo_updates "''demo''" ?s]
  obtain s' img where run: "foldF (vnc_show demo_painter) (ServerReady 3 2 ''demo'' # demo_updates) ?s = ok s'" "sf_frame s' = Some img"
    and px: "\<forall>i j. inside 0 0 3 2 i j \<longrightarrow> im_at img i j = fold (screen_step 3 2) demo_updates (\<lambda>i j. black) i j"
    by (auto simp: demo_painter_def)
  have "im_at img 0 1 = 0xffff0000" "im_at img 1 0 = 0xff00ff00" "im_at img 2 0 = 0xff00ff00" "im_at img 2 1 = black"
    using px by (simp_all add: inside_def demo_updates_def screen_step_def)
  with run show ?thesis by blast
qed

theorem pointer_on_screen_witness:
  "\<exists>fx fy. emitPointer 29 19 \<lparr>mb_left = True, mb_middle = False, mb_right = False\<rparr>
     \<lparr>sf_frame = Some \<lparr>im_w = 3, im_h = 2, im_at = (\<lambda>i j. black)\<rparr>, sf_viewOnly = False, sf_w = 30, sf_h = 20\<rparr> =
     ok [PointerEvent fx fy 1] \<and> inside 0 0 3 2 fx fy"
  using pointer_on_screen [of "\<lparr>sf_frame = Some \<lparr>im_w = 3, im_h = 2, im_at = (\<lambda>i j. black)\<rparr>, sf_viewOnly = False, sf_w = 30, sf_h = 20\<rparr>"
      _ 29 19 "\<lparr>mb_left = True, mb_middle = False, mb_right = False\<rparr>"]
  by (simp add: buttonMaskFromQt_def)

section \<open>What the surface gets wrong\<close>

text \<open>A copy of no width and height copies the whole screen to the place. A key is looked up again when it is
  released: with shift let go in between, another key is released than was pressed. A mouse that is dragged out of the
  widget is reported outside the screen.\<close>

lemma empty_copy_draws_screen: "copy_image p x y 0 0 img = Some img"
  by (simp add: copy_image_def)

lemma stuck_key: "key_signal True 65 [65] s = [KeyEvent 65 True] \<and> key_signal False 65 [97] s = [KeyEvent 97 False]" if "\<not> sf_viewOnly s"
  using that by (simp add: key_signal_def qtKeyToKeysym_def named_keys_def key_f1_def)

text \<open>With control pressed the text of a letter is a control character, which then is the keysym.\<close>

lemma control_letter_keysym: "key_signal True 67 [3] s = [KeyEvent 3 True]" if "\<not> sf_viewOnly s"
  using that by (simp add: key_signal_def qtKeyToKeysym_def named_keys_def key_f1_def)

lemma dragged_outside:
  "emitPointer 40 5 b \<lparr>sf_frame = Some \<lparr>im_w = 30, im_h = 20, im_at = (\<lambda>i j. black)\<rparr>, sf_viewOnly = False, sf_w = 30, sf_h = 20\<rparr> =
     ok [PointerEvent 40 5 (buttonMaskFromQt b)]"
  by (simp add: emitPointer_def intOp_def fitsInt_def signed_divide_int_def)

end
