(* ===== verification/Rdp.thy ===== *)
theory Rdp
  imports Surface
begin

text \<open>
  The RDP connection, \<open>src/src/connect/RdpConnection.{h,cpp}\<close>, and what the main window connects it to. The library
  FreeRDP is a parameter: whether it gives an instance, a context and a connection, and whether the program was built
  with it. Its constants are constructors here.
\<close>

section \<open>Settings\<close>

definition buildFreeRdpArgs :: "Session \<Rightarrow> string list" where
  "buildFreeRdpArgs s =
     [''/v:'' @ param s ''host'' @ '':'' @ dec_of_int (port s)] @
     (if param s ''username'' \<noteq> [] then [''/u:'' @ param s ''username''] else []) @
     (if param s ''admin'' = ''1'' then [''/admin''] else []) @
     (if param_def s ''clipboard'' ''1'' \<noteq> ''0'' then [''+clipboard''] else []) @
     (if param s ''drives'' = ''1'' then [''/drive:home,/''] else [])"

datatype rdp_setting = ServerHostname string | ServerPort u32 | Username string | Password string | Domain string
  | DesktopWidth u32 | DesktopHeight u32 | IgnoreCertificate | RedirectClipboard | RedirectDrives | RedirectPrinters
  | RedirectSmartCards | AudioPlayback | RemoteFxCodec | NoNlaSecurity

definition on_text :: "(string \<Rightarrow> rdp_setting) \<Rightarrow> string \<Rightarrow> rdp_setting list" where
  "on_text f t = (if t \<noteq> [] then [f t] else [])"

definition rdp_size :: "Session \<Rightarrow> rdp_setting list" where
  "rdp_size s =
     (let w = to_int0 (param s ''width''); h = to_int0 (param s ''height'')
      in if 0 < w \<and> 0 < h then [DesktopWidth (of_int w), DesktopHeight (of_int h)] else [])"

definition rdp_settings :: "Session \<Rightarrow> rdp_setting list" where
  "rdp_settings s =
     [ServerHostname (param s ''host''), ServerPort (of_int (port s))] @ on_text Username (param s ''username'') @
     on_text Password (param s ''password'') @ on_text Domain (param s ''domain'') @ rdp_size s @
     (if param s ''ignorecert'' = ''1'' then [IgnoreCertificate] else []) @
     (if param_def s ''redirect_clipboard'' ''1'' \<noteq> ''0'' then [RedirectClipboard] else []) @
     (if param s ''redirect_drives'' = ''1'' then [RedirectDrives] else []) @
     (if param s ''redirect_printers'' = ''1'' then [RedirectPrinters] else []) @
     (if param s ''redirect_smartcard'' = ''1'' then [RedirectSmartCards] else []) @
     (if param s ''redirect_audio'' = ''1'' then [AudioPlayback] else []) @
     (if param s ''remotefx'' = ''1'' then [RemoteFxCodec] else []) @
     (if param s ''nla'' = ''0'' then [NoNlaSecurity] else [])"

section \<open>The connection\<close>

datatype rdp_instance = NoInstance | NoContext | Context

datatype rdp_button = BUTTON1 | BUTTON2 | BUTTON3

datatype scancode = ScBackspace | ScTab | ScReturn | ScEscape | ScHome | ScLeft | ScUp | ScRight | ScDown | ScPrior | ScNext | ScEnd
  | ScInsert | ScDelete | ScLShift | ScLControl | ScLMenu

datatype rdp_input = MouseMove u16 u16 | MouseButton rdp_button bool u16 u16 | Keyboard bool bool scancode | UnicodeKey bool u16

record rdp_lib =
  rl_built :: bool
  rl_new :: bool
  rl_context :: bool
  rl_connect :: "rdp_setting list \<Rightarrow> bool"

record rdp_conn = iconn +
  r_instance :: rdp_instance
  r_prev :: int
  r_input :: "rdp_input list"

definition new_rdp :: rdp_conn where
  "new_rdp = \<lparr>ic_state = Disconnected, ic_log = [], r_instance = NoInstance, r_prev = 0, r_input = []\<rparr>"

definition rdp_connect :: "rdp_lib \<Rightarrow> Session \<Rightarrow> rdp_conn \<Rightarrow> bool \<times> rdp_conn" where
  "rdp_connect l s c =
     (let c = change_state Connecting c
      in if \<not> rl_built l then (False, fail_conn ''RDP support requires building with FreeRDP (MACXTERM_HAVE_FREERDP)'' c)
         else if \<not> rl_new l then (False, fail_conn ''Failed to create FreeRDP context'' (c\<lparr>r_instance := NoInstance\<rparr>))
         else if \<not> rl_context l then (False, fail_conn ''Failed to create FreeRDP context'' (c\<lparr>r_instance := NoContext\<rparr>))
         else let c = c\<lparr>r_instance := Context\<rparr>
              in if \<not> rl_connect l (rdp_settings s) then (False, fail_conn (''RDP connection to '' @ param s ''host'' @ '' failed'') c)
                 else (True, change_state Connected c))"

definition rdp_disconnect :: "rdp_conn \<Rightarrow> rdp_conn" where
  "rdp_disconnect c = change_state Disconnected (c\<lparr>r_instance := NoInstance\<rparr>)"

section \<open>Input\<close>

text \<open>The scancode of a key that has no character, and whether it is an extended one.\<close>

definition keysymToRdpScancode :: "u32 \<Rightarrow> (scancode \<times> bool) option" where
  "keysymToRdpScancode ks =
     map_of [(0xff08, (ScBackspace, False)), (0xff09, (ScTab, False)), (0xff0d, (ScReturn, False)), (0xff1b, (ScEscape, False)),
       (0xff50, (ScHome, True)), (0xff51, (ScLeft, True)), (0xff52, (ScUp, True)), (0xff53, (ScRight, True)), (0xff54, (ScDown, True)),
       (0xff55, (ScPrior, True)), (0xff56, (ScNext, True)), (0xff57, (ScEnd, True)), (0xff63, (ScInsert, True)), (0xffff, (ScDelete, True)),
       (0xffe1, (ScLShift, False)), (0xffe3, (ScLControl, False)), (0xffe9, (ScLMenu, False))] ks"

definition rdp_put :: "rdp_input \<Rightarrow> rdp_conn \<Rightarrow> rdp_conn" where
  "rdp_put i c = c\<lparr>r_input := r_input c @ [i]\<rparr>"

text \<open>A button whose state is another than before. The bits of the mask: left, middle, right.\<close>

definition tell_button :: "int \<Rightarrow> u16 \<Rightarrow> u16 \<Rightarrow> nat \<times> rdp_button \<Rightarrow> rdp_conn \<Rightarrow> rdp_conn" where
  "tell_button now_held px py = (\<lambda>(n, f) c.
     (let now = bit now_held n; was = bit (r_prev c) n in if now \<noteq> was then rdp_put (MouseButton f now px py) c else c))"

definition rdp_pointer :: "int \<Rightarrow> int \<Rightarrow> int \<Rightarrow> rdp_conn \<Rightarrow> rdp_conn" where
  "rdp_pointer x y now_held c =
     (if r_instance c \<noteq> Context then c
      else let px = of_int (if x < 0 then 0 else x); py = of_int (if y < 0 then 0 else y);
               c = rdp_put (MouseMove px py) c;
               c = fold (tell_button now_held px py) [(0, BUTTON1), (1, BUTTON3), (2, BUTTON2)] c
           in c\<lparr>r_prev := now_held\<rparr>)"

definition rdp_key :: "u32 \<Rightarrow> bool \<Rightarrow> rdp_conn \<Rightarrow> rdp_conn" where
  "rdp_key ks down c =
     (if r_instance c \<noteq> Context then c
      else case keysymToRdpScancode ks of
             Some (sc, extended) \<Rightarrow> rdp_put (Keyboard down extended sc) c
           | None \<Rightarrow> if 0x20 \<le> ks \<and> ks < 0xff00 then rdp_put (UnicodeKey down (ucast ks)) c else c)"

section \<open>In the window\<close>

definition rdp_signal :: "surface_signal \<Rightarrow> rdp_conn \<Rightarrow> rdp_conn" where
  "rdp_signal g c = (case g of PointerEvent x y m \<Rightarrow> rdp_pointer x y m c | KeyEvent ks d \<Rightarrow> rdp_key ks d c)"

text \<open>The timer: \<open>polled\<close> is what \<open>poll\<close> answers and \<open>frame\<close> the current frame; the first result is whether it goes on.\<close>

definition rdp_tick :: "bool \<Rightarrow> image option \<Rightarrow> surface \<Rightarrow> bool \<times> surface" where
  "rdp_tick polled frame s = (if \<not> polled then (False, s) else (True, if frame = None then s else setFrame frame s))"

text \<open>Movements, presses and releases of the mouse on the surface.\<close>

definition rdp_mouse :: "surface \<Rightarrow> int \<times> int \<times> mouse_buttons \<Rightarrow> rdp_conn \<Rightarrow> fault + rdp_conn" where
  "rdp_mouse s = (\<lambda>(x, y, b) c. bindF (emitPointer x y b s) (\<lambda>gs. ok (fold rdp_signal gs c)))"

section \<open>What the server is told of the mouse\<close>

text \<open>The presses and releases of a button, and its state if each of them is a change.\<close>

definition presses :: "rdp_button \<Rightarrow> rdp_input list \<Rightarrow> bool list" where
  "presses f is = concat (map (\<lambda>i. case i of MouseButton g d x y \<Rightarrow> if g = f then [d] else [] | _ \<Rightarrow> []) is)"

fun held_after :: "bool \<Rightarrow> bool list \<Rightarrow> bool option" where
  "held_after h [] = Some h"
| "held_after h (d # ds) = (if d = h then None else held_after d ds)"

lemma held_append: "held_after h (ds @ es) = Option.bind (held_after h ds) (\<lambda>k. held_after k es)"
  by (induction ds arbitrary: h) auto

lemma presses_append [simp]: "presses f (a @ b) = presses f a @ presses f b"
  by (simp add: presses_def)

definition mouse_known :: "rdp_conn \<Rightarrow> bool" where
  "mouse_known c \<longleftrightarrow>
     held_after False (presses BUTTON1 (r_input c)) = Some (bit (r_prev c) 0) \<and>
     held_after False (presses BUTTON3 (r_input c)) = Some (bit (r_prev c) 1) \<and>
     held_after False (presses BUTTON2 (r_input c)) = Some (bit (r_prev c) 2)"

lemma pointer_keeps:
  assumes "mouse_known c"
  shows "mouse_known (rdp_pointer x y now_held c)"
  using assms by (auto simp: mouse_known_def rdp_pointer_def Let_def tell_button_def rdp_put_def held_append presses_def)

lemma pointer_state: "r_instance c = Context \<Longrightarrow> r_prev (rdp_pointer x y now_held c) = now_held \<and> r_instance (rdp_pointer x y now_held c) = Context"
  by (auto simp: rdp_pointer_def Let_def tell_button_def rdp_put_def)

lemma mask_bits: "bit (buttonMaskFromQt b) 0 = mb_left b" "bit (buttonMaskFromQt b) (Suc 0) = mb_middle b" "bit (buttonMaskFromQt b) 2 = mb_right b"
  by (cases "mb_left b"; cases "mb_middle b"; cases "mb_right b"; simp add: buttonMaskFromQt_def bit_numeral_rec bit_1_iff bit_Suc)+

text \<open>The mouse of an RDP session. After any movements, presses and releases within the surface, however many at
  once, nothing has overflowed, the server was told of every button alternately that it is pressed and that it is
  released, and what it was told last is how the button is held.\<close>

theorem rdp_mouse_told:
  assumes "sf_frame s = Some img" and "\<not> sf_viewOnly s" and "0 < im_w img" and "im_w img \<le> 65535" and "0 < im_h img" and "im_h img \<le> 65535"
    and "sf_w s \<le> 32767" and "sf_h s \<le> 32767" and "list_all (\<lambda>(x, y, b). 0 \<le> x \<and> x < sf_w s \<and> 0 \<le> y \<and> y < sf_h s) (es @ [(x, y, b)])"
    and "r_instance c = Context" and "r_prev c = 0" and "r_input c = []"
  shows "\<exists>c'. foldF (rdp_mouse s) (es @ [(x, y, b)]) c = ok c' \<and> held_after False (presses BUTTON1 (r_input c')) = Some (mb_left b) \<and>
     held_after False (presses BUTTON3 (r_input c')) = Some (mb_middle b) \<and> held_after False (presses BUTTON2 (r_input c')) = Some (mb_right b)"
proof -
  have step: "\<exists>fx fy. rdp_mouse s (u, v, k) d = ok (rdp_pointer fx fy (buttonMaskFromQt k) d)"
    if "0 \<le> u" "u < sf_w s" "0 \<le> v" "v < sf_h s" for u v k d
    using that assms(1-8) scaled_place [of u "sf_w s" "im_w img"] scaled_place [of v "sf_h s" "im_h img"]
    by (simp add: rdp_mouse_def emitPointer_def intOp_ok rdp_signal_def) blast
  have run: "\<exists>d'. foldF (rdp_mouse s) fs d = ok d' \<and> mouse_known d' \<and> r_instance d' = Context"
    if "list_all (\<lambda>(x, y, b). 0 \<le> x \<and> x < sf_w s \<and> 0 \<le> y \<and> y < sf_h s) fs" "mouse_known d" "r_instance d = Context" for fs d
    using that
  proof (induction fs arbitrary: d)
    case (Cons e fs)
    obtain u v k where e: "e = (u, v, k)" by (cases e)
    obtain fx fy where "rdp_mouse s e d = ok (rdp_pointer fx fy (buttonMaskFromQt k) d)" using step [of u v k d] Cons.prems(1) e by auto
    with Cons.IH [OF _ pointer_keeps [OF Cons.prems(2)]] Cons.prems(1) pointer_state [OF Cons.prems(3)] show ?case by simp
  qed simp
  have "mouse_known c" using assms(11,12) by (simp add: mouse_known_def presses_def)
  with run [of es c] assms(9,10) obtain d where d: "foldF (rdp_mouse s) es c = ok d" "mouse_known d" "r_instance d = Context" by auto
  obtain fx fy where last: "rdp_mouse s (x, y, b) d = ok (rdp_pointer fx fy (buttonMaskFromQt b) d)" using step [of x y b d] assms(9) by auto
  have "mouse_known (rdp_pointer fx fy (buttonMaskFromQt b) d)" using d(2) by (rule pointer_keeps)
  with d(1,3) last pointer_state [OF d(3)] show ?thesis by (simp add: foldF_append mouse_known_def mask_bits)
qed

definition demo_surface :: surface where
  "demo_surface = \<lparr>sf_frame = Some \<lparr>im_w = 1920, im_h = 1080, im_at = (\<lambda>i j. black)\<rparr>, sf_viewOnly = False, sf_w = 960, sf_h = 540\<rparr>"

theorem rdp_mouse_told_witness:
  "\<exists>c'. foldF (rdp_mouse demo_surface) [(10, 10, \<lparr>mb_left = True, mb_middle = False, mb_right = False\<rparr>), (11, 10, \<lparr>mb_left = True, mb_middle = False, mb_right = True\<rparr>)]
     (new_rdp\<lparr>r_instance := Context\<rparr>) = ok c' \<and> held_after False (presses BUTTON1 (r_input c')) = Some True"
  using rdp_mouse_told [of demo_surface _ "[(10, 10, \<lparr>mb_left = True, mb_middle = False, mb_right = False\<rparr>)]" 11 10
      "\<lparr>mb_left = True, mb_middle = False, mb_right = True\<rparr>" "new_rdp\<lparr>r_instance := Context\<rparr>"]
  by (auto simp: demo_surface_def new_rdp_def)

section \<open>States\<close>

lemma announced_rdp: "announced c (snd (rdp_connect l s c))" "announced c (rdp_disconnect c)"
proof -
  have kept: "announced a (d\<lparr>r_instance := x\<rparr>)" if "announced a d" for a d :: rdp_conn and x using that by (simp add: announced_def told_def)
  show "announced c (snd (rdp_connect l s c))" unfolding rdp_connect_def Let_def by (auto intro!: announced_intro kept split: if_split)
  show "announced c (rdp_disconnect c)" unfolding rdp_disconnect_def by (intro announced_intro kept)
qed

section \<open>What gets lost\<close>

text \<open>Neither the function keys nor a letter with control reach an RDP session. The library object of a connection that
  failed is kept, and input goes to it; the next attempt overwrites it. The end of a session, seen by the timer, is
  not announced.\<close>

lemma function_keys_lost: "fold rdp_signal (key_signal True (key_f1 + int n) [] s) c = c" if "n < 35" "\<not> sf_viewOnly s"
proof -
  have "map_of named_keys (key_f1 + int n) = None" using that(1) by (simp add: named_keys_def key_f1_def)
  moreover have "list_all (\<lambda>n. keysymToRdpScancode (0xffbe + of_nat n) = None \<and> \<not> (0xffbe + of_nat n :: u32) < 0xff00 \<and> (0xffbe + of_nat n :: u32) \<noteq> 0) [0..<35]"
    by code_simp
  then have "keysymToRdpScancode (0xffbe + of_nat n) = None" "\<not> (0xffbe + of_nat n :: u32) < 0xff00" "(0xffbe + of_nat n :: u32) \<noteq> 0"
    using that(1) by (simp_all add: list_all_iff)
  ultimately show ?thesis using that
    by (simp add: key_signal_def qtKeyToKeysym_def key_f1_def key_f35_def rdp_signal_def rdp_key_def)
qed

lemma control_letter_lost: "fold rdp_signal (key_signal True 67 [3] s) c = c" if "\<not> sf_viewOnly s"
  using that control_letter_keysym [OF that] by (simp add: rdp_signal_def rdp_key_def keysymToRdpScancode_def)

lemma failed_instance_kept:
  "rl_built l \<Longrightarrow> rl_new l \<Longrightarrow> rl_context l \<Longrightarrow> \<not> rl_connect l (rdp_settings s) \<Longrightarrow> r_instance (snd (rdp_connect l s c)) = Context"
  by (simp add: rdp_connect_def Let_def fail_conn_def change_state_def qemit_def)

end
