(* ===== verification/Config.thy ===== *)
theory Config
  imports Main_Window Field_Codec "HOL-Library.AList"
begin

text \<open>
  Small parts of the core, \<open>src/src/core\<close>: the options of the command line (\<open>CliOptions\<close>), paths of Windows and
  Cygwin (\<open>CygPath\<close>), the settings and what a pane makes of them (\<open>Settings\<close>, \<open>TerminalConfig\<close>), the shortcuts
  (\<open>ShortcutRegistry\<close>), the stored form of a macro (\<open>Macro\<close>), the list of targets of \<open>InputBroadcaster\<close>, the names of
  X displays (\<open>src/src/x11/X11Display\<close>), and the choice of a language (\<open>src/src/i18n/LanguageManager\<close>).
\<close>

section \<open>The command line\<close>

record CliOptions =
  cl_exec :: string
  cl_bookmark :: string
  cl_runMacro :: string
  cl_configPath :: string
  cl_openFolder :: string
  cl_logPath :: string
  cl_shortcutsPath :: string
  cl_dpi :: int
  cl_newTab :: bool
  cl_noX :: bool
  cl_hideTerm :: bool
  cl_exitWhenDone :: bool

definition no_options :: CliOptions where
  "no_options = \<lparr>cl_exec = [], cl_bookmark = [], cl_runMacro = [], cl_configPath = [], cl_openFolder = [], cl_logPath = [],
     cl_shortcutsPath = [], cl_dpi = 0, cl_newTab = False, cl_noX = False, cl_hideTerm = False, cl_exitWhenDone = False\<rparr>"

text \<open>The flags that stand alone, and those with a value and the field it goes to.\<close>

definition switch_flags :: "(string \<times> (CliOptions \<Rightarrow> CliOptions)) list" where
  "switch_flags =
     [(''-newtab'', cl_newTab_update (\<lambda>_. True)), (''-noX'', cl_noX_update (\<lambda>_. True)), (''-hideterm'', cl_hideTerm_update (\<lambda>_. True)),
      (''-exitwhendone'', cl_exitWhenDone_update (\<lambda>_. True))]"

definition value_flags :: "(string \<times> (string \<Rightarrow> CliOptions \<Rightarrow> CliOptions)) list" where
  "value_flags =
     [(''-exec'', \<lambda>v. cl_exec_update (\<lambda>_. v)), (''-bookmark'', \<lambda>v. cl_bookmark_update (\<lambda>_. v)),
      (''-runmacro'', \<lambda>v. cl_runMacro_update (\<lambda>_. v)), (''-i'', \<lambda>v. cl_configPath_update (\<lambda>_. v)),
      (''-config'', \<lambda>v. cl_configPath_update (\<lambda>_. v)), (''-openfolder'', \<lambda>v. cl_openFolder_update (\<lambda>_. v)),
      (''-log'', \<lambda>v. cl_logPath_update (\<lambda>_. v)), (''-shortcuts'', \<lambda>v. cl_shortcutsPath_update (\<lambda>_. v))]"

text \<open>A value within the argument, behind an equals sign.\<close>

definition inline_value :: "string \<Rightarrow> string \<times> string" where
  "inline_value a =
     (case index_of CHR ''='' a of
        None \<Rightarrow> (a, [])
      | Some i \<Rightarrow> if starts_with ''-'' a \<and> 0 < i then (take i a, drop (i + 1) a) else (a, []))"

fun cli_parse :: "string list \<Rightarrow> CliOptions \<Rightarrow> CliOptions" where
  "cli_parse [] o' = o'"
| "cli_parse (arg # args) o' =
     (let (a, v) = inline_value arg
      in case map_of switch_flags a of
           Some f \<Rightarrow> cli_parse args (f o')
         | None \<Rightarrow>
             if a = ''-dpi'' then
               if v \<noteq> [] then cli_parse args (o'\<lparr>cl_dpi := to_int0 v\<rparr>)
               else (case args of [] \<Rightarrow> o'\<lparr>cl_dpi := to_int0 []\<rparr> | b # rest \<Rightarrow> cli_parse rest (o'\<lparr>cl_dpi := to_int0 b\<rparr>))
             else (case map_of value_flags a of
                     None \<Rightarrow> cli_parse args o'
                   | Some store \<Rightarrow>
                       if v \<noteq> [] then cli_parse args (store v o')
                       else (case args of [] \<Rightarrow> o' | b # rest \<Rightarrow> cli_parse rest (store b o'))))"

text \<open>Arguments as they are meant: a flag alone, or a flag with its value, behind it or within it.\<close>

datatype cli_item = Switch string | Valued bool string string

fun item_args :: "cli_item \<Rightarrow> string list" where
  "item_args (Switch f) = [f]"
| "item_args (Valued inline f v) = (if inline then [f @ ''='' @ v] else [f, v])"

fun item_does :: "cli_item \<Rightarrow> CliOptions \<Rightarrow> CliOptions" where
  "item_does (Switch f) o' = (case map_of switch_flags f of None \<Rightarrow> o' | Some g \<Rightarrow> g o')"
| "item_does (Valued i f v) o' =
     (if f = ''-dpi'' then o'\<lparr>cl_dpi := to_int0 v\<rparr> else case map_of value_flags f of None \<Rightarrow> o' | Some store \<Rightarrow> store v o')"

fun item_ok :: "cli_item \<Rightarrow> bool" where
  "item_ok (Switch f) \<longleftrightarrow> f \<in> fst ` set switch_flags"
| "item_ok (Valued i f v) \<longleftrightarrow> v \<noteq> [] \<and> f \<in> insert ''-dpi'' (fst ` set value_flags)"

lemma inline_none: "CHR ''='' \<notin> set f \<Longrightarrow> inline_value f = (f, [])"
proof -
  assume f: "CHR ''='' \<notin> set f"
  then have "index_of CHR ''='' f = None" by (induction f) auto
  then show ?thesis unfolding inline_value_def by (simp only: option.case)
qed

lemma inline_some: "CHR ''='' \<notin> set f \<Longrightarrow> starts_with ''-'' f \<Longrightarrow> inline_value (f @ ''='' @ v) = (f, v)"
proof -
  have *: "CHR ''='' \<notin> set f \<Longrightarrow> index_of CHR ''='' (f @ CHR ''='' # v) = Some (length f)" by (induction f) auto
  assume f: "CHR ''='' \<notin> set f" "starts_with ''-'' f"
  then obtain g where "f = CHR ''-'' # g" by (auto simp: starts_with_iff)
  with * f show ?thesis by (auto simp: inline_value_def starts_with_def)
qed

text \<open>The command line. Whatever flags are given, in whatever order, their values behind them or within them and
  whatever the values look like, each sets its own option.\<close>

theorem cli_options_set:
  assumes "list_all item_ok items"
  shows "cli_parse (concat (map item_args items)) o' = fold item_does items o'"
  using assms
proof (induction items arbitrary: o')
  case (Cons it items)
  then have it: "item_ok it" and IH: "cli_parse (concat (map item_args items)) p = fold item_does items p" for p by simp_all
  show ?case
  proof (cases it)
    case (Switch f)
    with it show ?thesis using IH by (auto simp: switch_flags_def inline_none)
  next
    case (Valued i f v)
    have f: "CHR ''='' \<notin> set f" "starts_with ''-'' f" "map_of switch_flags f = None" "v \<noteq> []"
      using it Valued by (auto simp: value_flags_def switch_flags_def starts_with_def)
    have known: "f = ''-dpi'' \<or> (\<exists>g. map_of value_flags f = Some g)" using it Valued by (auto simp: value_flags_def)
    show ?thesis
    proof (cases i)
      case True
      then show ?thesis using Valued f known IH inline_some [OF f(1,2)] by (auto simp: value_flags_def)
    next
      case False
      then show ?thesis using Valued f known IH inline_none [OF f(1)] by (auto simp: value_flags_def)
    qed
  qed
qed simp

theorem cli_options_set_witness:
  "cli_parse [''-exec'', ''-newtab'', ''-dpi=96'', ''-noX''] no_options = no_options\<lparr>cl_exec := ''-newtab'', cl_dpi := 96, cl_noX := True\<rparr>"
proof -
  have "list_all item_ok [Valued False ''-exec'' ''-newtab'', Valued True ''-dpi'' ''96'', Switch ''-noX'']"
    by (simp add: value_flags_def switch_flags_def)
  from cli_options_set [OF this, of no_options] show ?thesis by (simp add: value_flags_def switch_flags_def no_options_def) code_simp
qed

text \<open>An empty value behind an equals sign takes the next argument for the value.\<close>

lemma empty_inline_swallows: "cli_parse [''-exec='', ''-newtab''] no_options = no_options\<lparr>cl_exec := ''-newtab''\<rparr>"
  by code_simp

section \<open>Windows paths\<close>

definition is_letter :: "char \<Rightarrow> bool" where
  "is_letter c \<longleftrightarrow> (let n = of_char c :: nat in 65 \<le> n \<and> n \<le> 90 \<or> 97 \<le> n \<and> n \<le> 122 \<or> n \<in> {170, 181, 186} \<or> 192 \<le> n \<and> n \<noteq> 215 \<and> n \<noteq> 247)"

definition to_slashes :: "string \<Rightarrow> string" where
  "to_slashes = map (\<lambda>c. if c = CHR 0x5C then CHR ''/'' else c)"

definition to_backslashes :: "string \<Rightarrow> string" where
  "to_backslashes = map (\<lambda>c. if c = CHR ''/'' then CHR 0x5C else c)"

definition windowsToPosix :: "string \<Rightarrow> string" where
  "windowsToPosix w =
     (if w = [] then w
      else let p = to_slashes w
           in if starts_with ''//'' p then p
              else if 2 \<le> length p \<and> p ! 1 = CHR '':'' \<and> is_letter (p ! 0) then
                let rest = dropWhile (\<lambda>c. c = CHR ''/'') (drop 2 p); out = ''/drives/'' @ [lower_char (p ! 0)]
                in if rest \<noteq> [] then out @ ''/'' @ rest else out
              else p)"

definition posixToWindows :: "string \<Rightarrow> string" where
  "posixToWindows x =
     (if x = [] then x
      else let p = to_slashes x;
               rest = (if starts_with ''/drives/'' p then Some (drop 8 p) else if starts_with ''/cygdrive/'' p then Some (drop 10 p) else None)
           in case rest of
                None \<Rightarrow> p
              | Some [] \<Rightarrow> p
              | Some (c # tail) \<Rightarrow>
                  let tail = dropWhile (\<lambda>c. c = CHR ''/'') tail; out = upper_char c # [CHR '':'', CHR 0x5C]
                  in if tail \<noteq> [] then out @ to_backslashes tail else out)"

lemma slashes_back: "CHR ''/'' \<notin> set s \<Longrightarrow> to_backslashes (to_slashes s) = s"
  by (induction s) (auto simp: to_slashes_def to_backslashes_def)

lemma cased_letter: "is_letter c \<Longrightarrow> of_char c < (128 :: nat) \<Longrightarrow> upper_char (lower_char c) = upper_char c"
  by (auto simp: is_letter_def upper_char_def lower_char_def Let_def)

text \<open>A path on a drive comes back as it was, with the drive in upper case.\<close>

lemma windows_path_there:
  assumes "is_letter c" and "rest = [] \<or> hd rest \<noteq> CHR 0x5C" and "CHR ''/'' \<notin> set rest"
  shows "windowsToPosix (c # CHR '':'' # CHR 0x5C # rest) = ''/drives/'' @ lower_char c # (if rest = [] then [] else CHR ''/'' # to_slashes rest)"
proof -
  have "c \<noteq> CHR ''/''" "c \<noteq> CHR 0x5C" using assms(1) by (auto simp: is_letter_def)
  moreover have "dropWhile (\<lambda>x. x = CHR ''/'') (to_slashes rest) = to_slashes rest"
    using assms(2,3) by (cases rest) (auto simp: to_slashes_def)
  moreover have "to_slashes rest = [] \<longleftrightarrow> rest = []" by (simp add: to_slashes_def)
  ultimately show ?thesis using assms(1) by (simp add: windowsToPosix_def to_slashes_def starts_with_def)
qed

theorem windows_path_roundtrip:
  assumes "is_letter c" and "of_char c < (128 :: nat)" and "rest = [] \<or> hd rest \<noteq> CHR 0x5C" and "CHR ''/'' \<notin> set rest"
  shows "posixToWindows (windowsToPosix (c # CHR '':'' # CHR 0x5C # rest)) = upper_char c # CHR '':'' # CHR 0x5C # rest"
proof -
  have idem: "to_slashes (to_slashes rest) = to_slashes rest" by (auto simp: to_slashes_def)
  have "97 \<le> (of_char (lower_char c) :: nat)" using assms(1,2) by (auto simp: is_letter_def lower_char_def Let_def)
  then have l: "lower_char c \<noteq> CHR 0x5C" "lower_char c \<noteq> CHR ''/''" by auto
  have drop: "dropWhile (\<lambda>x. x = CHR ''/'') (to_slashes rest) = to_slashes rest"
    using assms(3,4) by (cases rest) (auto simp: to_slashes_def)
  define tail where "tail = (if rest = [] then [] else CHR ''/'' # to_slashes rest)"
  define p where "p = ''/drives/'' @ lower_char c # tail"
  have p: "to_slashes p = p" "p \<noteq> []" "starts_with ''/drives/'' p" "drop 8 p = lower_char c # tail"
    using l idem by (simp_all add: p_def tail_def to_slashes_def starts_with_def)
  have t: "dropWhile (\<lambda>x. x = CHR ''/'') tail = to_slashes rest" "to_slashes rest \<noteq> [] \<longleftrightarrow> rest \<noteq> []"
    using drop by (auto simp: tail_def to_slashes_def)
  have "posixToWindows p = upper_char (lower_char c) # [CHR '':'', CHR 0x5C] @ rest"
    using t slashes_back [OF assms(4)] by (cases "rest = []") (simp_all add: posixToWindows_def p Let_def del: dropWhile_eq_Nil_conv)
  then show ?thesis
    unfolding windows_path_there [OF assms(1,3,4)] cased_letter [OF assms(1,2)] by (simp add: p_def tail_def)
qed

theorem windows_path_roundtrip_witness: "posixToWindows (windowsToPosix (''C:'' @ [CHR 0x5C] @ ''a.txt'')) = ''C:'' @ [CHR 0x5C] @ ''a.txt''"
  using windows_path_roundtrip [of "CHR ''C''" "''a.txt''"] by (simp add: is_letter_def upper_char_def)

text \<open>No slash is demanded behind the letter of a drive, and none before it is a letter.\<close>

lemma no_drive_taken_for_one: "posixToWindows ''/drives/usr/x'' = ''U:'' @ [CHR 0x5C] @ ''sr'' @ [CHR 0x5C] @ ''x''"
  by code_simp

section \<open>Settings\<close>

definition default_settings :: fields where
  "default_settings =
     fold (\<lambda>(k, v). qinsert k v)
       [(''terminal.font'', ''Menlo''), (''terminal.fontSize'', ''12''), (''terminal.scheme'', ''Dark''), (''terminal.scrollback'', ''10000''),
        (''terminal.encoding'', ''UTF-8''), (''x11.autoStart'', ''true''), (''x11.displayMode'', ''multiwindow''),
        (''ssh.x11Forwarding'', ''true''), (''ssh.compression'', ''true'')] []"

definition fontFamily :: "fields \<Rightarrow> string" where
  "fontFamily s = qvalue s ''terminal.font'' ''Menlo''"

definition fontSize :: "fields \<Rightarrow> int" where
  "fontSize s = to_int0 (qvalue s ''terminal.fontSize'' ''12'')"

definition colorScheme :: "fields \<Rightarrow> string" where
  "colorScheme s = qvalue s ''terminal.scheme'' ''Dark''"

definition scrollbackLines :: "fields \<Rightarrow> int" where
  "scrollbackLines s = to_int0 (qvalue s ''terminal.scrollback'' ''10000'')"

record TermConfig =
  tc_fontFamily :: string
  tc_fontSize :: int
  tc_colorScheme :: string
  tc_scrollbackLines :: int
  tc_backspaceCode :: bytes

definition resolveTermConfig :: "fields \<Rightarrow> fields \<Rightarrow> TermConfig" where
  "resolveTermConfig global p =
     (let fam = qvalue p ''term.font'' []; size = to_int0 (qvalue p ''term.fontSize'' []); scheme = qvalue p ''term.scheme'' []
      in \<lparr>tc_fontFamily = (if fam = [] then fontFamily global else fam),
          tc_fontSize = (if 0 < size then size else fontSize global),
          tc_colorScheme = (if scheme = [] then colorScheme global else scheme),
          tc_scrollbackLines = (case to_int (qvalue p ''term.scrollback'' []) of
             None \<Rightarrow> scrollbackLines global | Some n \<Rightarrow> if 0 \<le> n then n else scrollbackLines global),
          tc_backspaceCode = (if qvalue p ''term.backspace'' [] = ''ctrl-h'' then [0x08] else [0x7f])\<rparr>)"

text \<open>A session's own values win where they are sensible, so a pane is usable whenever the global settings are.\<close>

lemma term_config_sensible:
  assumes "0 < fontSize global" and "0 \<le> scrollbackLines global"
  shows "0 < tc_fontSize (resolveTermConfig global p) \<and> 0 \<le> tc_scrollbackLines (resolveTermConfig global p) \<and>
    length (tc_backspaceCode (resolveTermConfig global p)) = 1"
  using assms by (auto simp: resolveTermConfig_def Let_def split: option.split)

section \<open>Shortcuts\<close>

text \<open>Actions with their key sequences, each as text; a sequence that was cleared is empty.\<close>

type_synonym shortcuts = "(string \<times> string) list"

definition defaultShortcuts :: shortcuts where
  "defaultShortcuts =
     [(''terminal.new'', ''Ctrl+Alt+T''), (''terminal.close'', ''Ctrl+Shift+W''), (''tab.next'', ''Ctrl+Tab''), (''tab.prev'', ''Ctrl+Shift+Tab''),
      (''tab.detach'', ''Ctrl+Shift+D''), (''view.fullscreen'', ''F11''), (''edit.paste'', ''Shift+Ins''),
      (''session.quickConnect'', ''Ctrl+Shift+Q''), (''x11.toggle'', ''Ctrl+Shift+X''), (''editor.open'', ''Ctrl+Shift+M'')]"

definition sequence_of :: "shortcuts \<Rightarrow> string \<Rightarrow> string" where
  "sequence_of m a = (case map_of m a of None \<Rightarrow> [] | Some k \<Rightarrow> k)"

definition actionFor :: "shortcuts \<Rightarrow> string \<Rightarrow> string" where
  "actionFor m k = (case List.find (\<lambda>(a, j). j = k) m of None \<Rightarrow> [] | Some (a, j) \<Rightarrow> a)"

definition rebind :: "string \<Rightarrow> string \<Rightarrow> shortcuts \<Rightarrow> bool \<times> shortcuts" where
  "rebind a k m = (let owner = actionFor m k in if owner \<noteq> [] \<and> owner \<noteq> a then (False, m) else (True, AList.update a k m))"

text \<open>The editor: every action that is wired, with what stands in its field; and what is read back at the next start.\<close>

definition editShortcuts :: "(string \<times> string) list \<Rightarrow> shortcuts \<times> shortcuts \<Rightarrow> shortcuts \<times> shortcuts" where
  "editShortcuts edits st = fold (\<lambda>(a, k) (m, saved). (snd (rebind a k m), AList.update a k saved)) edits st"

definition load_shortcuts :: "string list \<Rightarrow> shortcuts \<Rightarrow> shortcuts \<Rightarrow> shortcuts" where
  "load_shortcuts actions saved m =
     fold (\<lambda>a m. let k = sequence_of saved a in if k \<noteq> [] then snd (rebind a k m) else m) actions m"

definition shortcuts_ok :: "shortcuts \<Rightarrow> bool" where
  "shortcuts_ok m \<longleftrightarrow> distinct (map fst m) \<and> distinct (map snd m) \<and> [] \<notin> fst ` set m"

lemma found_action:
  assumes "shortcuts_ok m" and "(a, k) \<in> set m"
  shows "actionFor m k = a"
proof -
  have "distinct (map snd m) \<Longrightarrow> (a, k) \<in> set m \<Longrightarrow> List.find (\<lambda>(b, j). j = k) m = Some (a, k)" by (induction m) force+
  then show ?thesis using assms by (simp add: actionFor_def shortcuts_ok_def)
qed

lemma set_update_alist: "distinct (map fst m) \<Longrightarrow> set (AList.update a k m) = insert (a, k) {p \<in> set m. fst p \<noteq> a}"
  by (induction m) (auto simp: rev_image_eqI)

lemma rebind_ok:
  assumes "shortcuts_ok m" and "a \<noteq> []"
  shows "shortcuts_ok (snd (rebind a k m))"
proof (cases "fst (rebind a k m)")
  case True
  have m: "distinct (map fst m)" "inj_on snd (set m)" "[] \<notin> fst ` set m"
    using assms(1) by (auto simp: shortcuts_ok_def distinct_map)
  have free: "b = a" if "(b, k) \<in> set m" for b
  proof -
    have "b \<noteq> []" using m(3) that by force
    with True found_action [OF assms(1) that] show ?thesis by (simp add: rebind_def Let_def split: if_splits)
  qed
  have new: "set (AList.update a k m) = insert (a, k) {p \<in> set m. fst p \<noteq> a}" using m(1) by (rule set_update_alist)
  have "inj_on snd (insert (a, k) {p \<in> set m. fst p \<noteq> a})"
    using inj_on_subset [OF m(2), of "{p \<in> set m. fst p \<noteq> a}"] free by (auto simp: inj_on_insert)
  then have "distinct (map snd (AList.update a k m))" using distinct_update [OF m(1), of a k] new by (simp add: distinct_map)
  moreover have "[] \<notin> fst ` set (AList.update a k m)" using new m(3) assms(2) by auto
  ultimately have "shortcuts_ok (AList.update a k m)" using distinct_update [OF m(1)] by (simp add: shortcuts_ok_def)
  then show ?thesis using True by (auto simp: rebind_def Let_def split: if_splits)
next
  case False
  then show ?thesis using assms by (simp add: rebind_def Let_def split: if_splits)
qed

lemma rebind_keeps_actions: "fst ` set m \<subseteq> fst ` set (snd (rebind a k m))"
proof -
  have "fst ` set m \<subseteq> fst ` set (AList.update a k m)" by (induction m) auto
  then show ?thesis by (simp add: rebind_def Let_def)
qed

lemma defaults_ok: "shortcuts_ok defaultShortcuts"
  by code_simp

text \<open>Shortcuts. Whatever is rebound, read back or edited, no two actions ever have the same key sequence and
  no action of the defaults is lost.\<close>

theorem shortcuts_never_clash:
  assumes "list_all (\<lambda>(a, k). a \<noteq> []) edits" and "list_all (\<lambda>a. a \<noteq> []) actions"
  shows "\<exists>m saved'. editShortcuts edits (load_shortcuts actions saved defaultShortcuts, saved) = (m, saved') \<and> distinct (map snd m) \<and>
     distinct (map fst m) \<and> fst ` set defaultShortcuts \<subseteq> fst ` set m"
proof -
  define good where "good = (\<lambda>m. shortcuts_ok m \<and> fst ` set defaultShortcuts \<subseteq> fst ` set m)"
  have step: "good (snd (rebind a k m))" if "good m" "a \<noteq> []" for a k m
  proof -
    have "fst ` set defaultShortcuts \<subseteq> fst ` set m" "shortcuts_ok m" using that(1) by (simp_all add: good_def)
    then show ?thesis using rebind_ok [of m a k] that(2) subset_trans [OF _ rebind_keeps_actions [of m a k]] by (simp add: good_def)
  qed
  have "good defaultShortcuts" using defaults_ok by (simp add: good_def)
  then have "good (fold (\<lambda>a m. let k = sequence_of saved a in if k \<noteq> [] then snd (rebind a k m) else m) actions defaultShortcuts)"
    using assms(2)
  proof (induction actions rule: rev_induct)
    case (snoc a actions)
    then show ?case by (simp add: Let_def step)
  qed simp
  then have loaded: "good (load_shortcuts actions saved defaultShortcuts)" by (simp add: load_shortcuts_def)
  have "good (fst (editShortcuts edits (m, s)))" if "good m" for m s
    using that assms(1) unfolding editShortcuts_def
  proof (induction edits arbitrary: m s)
    case (Cons e edits)
    then show ?case by (cases e) (simp add: step)
  qed simp
  from this [OF loaded, of saved] show ?thesis
    by (cases "editShortcuts edits (load_shortcuts actions saved defaultShortcuts, saved)") (simp add: good_def shortcuts_ok_def)
qed

theorem shortcuts_never_clash_witness:
  "distinct (map snd (fst (editShortcuts [(''tab.next'', ''F11''), (''tab.prev'', ''F9'')] (load_shortcuts [''tab.next''] [] defaultShortcuts, []))))"
proof -
  obtain m s where "editShortcuts [(''tab.next'', ''F11''), (''tab.prev'', ''F9'')] (load_shortcuts [''tab.next''] [] defaultShortcuts, []) = (m, s)"
      "distinct (map snd m)"
    using shortcuts_never_clash [of "[(''tab.next'', ''F11''), (''tab.prev'', ''F9'')]" "[''tab.next'']" "[]"] by auto
  then show ?thesis by simp
qed

text \<open>What is refused is saved all the same; of two actions with cleared fields the second keeps its old sequence; two
  actions cannot exchange theirs; and a sequence is held by actions that are not wired to anything.\<close>

lemma refused_is_saved: "sequence_of (snd (editShortcuts [(''tab.next'', ''F11'')] (defaultShortcuts, []))) ''tab.next'' = ''F11''"
  by code_simp

lemma one_cleared_only:
  "sequence_of (fst (editShortcuts [(''tab.next'', []), (''tab.prev'', [])] (defaultShortcuts, []))) ''tab.prev'' = ''Ctrl+Shift+Tab''"
  by code_simp

lemma no_exchange:
  "fst (editShortcuts [(''tab.next'', ''Ctrl+Shift+Tab''), (''tab.prev'', ''Ctrl+Tab'')] (defaultShortcuts, [])) = defaultShortcuts"
  by code_simp

section \<open>The stored form of a macro\<close>

text \<open>\<open>QDataStream\<close>: a count of 32 bits, and a byte array as its length and its bytes; the length of all ones stands for
  the null array.\<close>

definition put_array :: "bytes \<Rightarrow> bytes" where
  "put_array b = be32 (of_nat (length b)) @ b"

definition get_array :: "bytes \<Rightarrow> nat \<Rightarrow> (bytes \<times> nat) option" where
  "get_array buf pos =
     (case get32 buf pos of
        None \<Rightarrow> None
      | Some (n, p) \<Rightarrow>
          if n = 0xffffffff then Some ([], p)
          else if length buf < p + unat n then None else Some (take (unat n) (drop p buf), p + unat n))"

definition macro_serialize :: "macro \<Rightarrow> bytes" where
  "macro_serialize m = be32 (of_nat (length (mc_events m))) @ concat (map put_array (mc_events m))"

fun read_events :: "nat \<Rightarrow> bytes \<Rightarrow> nat \<Rightarrow> bytes list" where
  "read_events 0 buf pos = []"
| "read_events (Suc n) buf pos = (case get_array buf pos of None \<Rightarrow> [] | Some (e, p) \<Rightarrow> e # read_events n buf p)"

definition macro_deserialize :: "string \<Rightarrow> bytes \<Rightarrow> macro" where
  "macro_deserialize name blob =
     (let n = (case get32 blob 0 of None \<Rightarrow> 0 | Some (n, p) \<Rightarrow> unat n)
      in (new_macro name)\<lparr>mc_events := read_events n blob 4\<rparr>)"

interpretation macro_event: field_codec 1 "\<lambda>b. length b < 2 ^ 31" "\<lambda>_. True" put_array get_array
proof unfold_locales
  fix x pre post :: bytes
  assume x: "length x < 2 ^ 31"
  have n: "unat (of_nat (length x) :: u32) = length x" using x by (intro unat_of_nat_small) simp
  have "(of_nat (length x) :: u32) \<noteq> 0xffffffff"
  proof
    assume "(of_nat (length x) :: u32) = 0xffffffff"
    with n have "unat (0xffffffff :: u32) = length x" by simp
    with x show False by simp
  qed
  with n show "get_array (pre @ put_array x @ post) (length pre) = Some (x, length pre + length (put_array x))"
    using get32_put [of pre "of_nat (length x)" "x @ post"] by (simp add: get_array_def put_array_def)
qed simp_all

lemma read_events_seq: "get_seq get_array n buf pos = Some (xs, p) \<Longrightarrow> read_events n buf pos = xs"
  by (induction n arbitrary: pos xs) (auto split: option.splits)

theorem macro_stored:
  assumes "length (mc_events m) < 2 ^ 32" and "list_all (\<lambda>b. length b < 2 ^ 31) (mc_events m)"
  shows "macro_deserialize (mc_name m) (macro_serialize m) = m\<lparr>mc_recording := False\<rparr>"
proof -
  let ?n = "of_nat (length (mc_events m)) :: u32"
  have "get32 (macro_serialize m) 0 = Some (?n, 4)"
    using get32_put [of "[]" ?n "concat (map put_array (mc_events m))"] by (simp add: macro_serialize_def)
  moreover have "unat ?n = length (mc_events m)" using assms(1) by (intro unat_of_nat_small) simp
  moreover have "read_events (length (mc_events m)) (macro_serialize m) 4 = mc_events m"
    using macro_event.get_seq_put [OF assms(2), of "be32 ?n" "[]"] by (simp add: macro_serialize_def read_events_seq)
  ultimately show ?thesis by (simp add: macro_deserialize_def new_macro_def)
qed

theorem macro_stored_witness:
  "macro_deserialize ''m'' (macro_serialize \<lparr>mc_name = ''m'', mc_recording = True, mc_events = [[108, 115], [], [13]]\<rparr>) =
     \<lparr>mc_name = ''m'', mc_recording = False, mc_events = [[108, 115], [], [13]]\<rparr>"
  using macro_stored [of "\<lparr>mc_name = ''m'', mc_recording = True, mc_events = [[108, 115], [], [13]]\<rparr>"] by simp

section \<open>Broadcasting to a list of targets\<close>

text \<open>Of a target: its number, whether there is a sink behind it, and whether it takes part. What the sinks got is a log.\<close>

record broadcaster =
  bc_targets :: "(nat \<times> bool \<times> bool) list"
  bc_next :: nat
  bc_got :: "(nat \<times> bytes) list"

definition new_broadcaster :: broadcaster where
  "new_broadcaster = \<lparr>bc_targets = [], bc_next = 1, bc_got = []\<rparr>"

definition addTarget :: "bool \<Rightarrow> broadcaster \<Rightarrow> nat \<times> broadcaster" where
  "addTarget sink b = (bc_next b, b\<lparr>bc_next := bc_next b + 1, bc_targets := AList.update (bc_next b) (sink, True) (bc_targets b)\<rparr>)"

definition removeTarget :: "nat \<Rightarrow> broadcaster \<Rightarrow> broadcaster" where
  "removeTarget i b = b\<lparr>bc_targets := filter (\<lambda>(j, t). j \<noteq> i) (bc_targets b)\<rparr>"

definition setEnabled :: "nat \<Rightarrow> bool \<Rightarrow> broadcaster \<Rightarrow> broadcaster" where
  "setEnabled i on b =
     (case map_of (bc_targets b) i of None \<Rightarrow> b | Some (sink, e) \<Rightarrow> b\<lparr>bc_targets := AList.update i (sink, on) (bc_targets b)\<rparr>)"

definition isEnabled :: "nat \<Rightarrow> broadcaster \<Rightarrow> bool" where
  "isEnabled i b = (case map_of (bc_targets b) i of None \<Rightarrow> False | Some (sink, e) \<Rightarrow> e)"

definition enabledCount :: "broadcaster \<Rightarrow> nat" where
  "enabledCount b = length (filter (\<lambda>(i, sink, e). e) (bc_targets b))"

definition broadcast :: "bytes \<Rightarrow> broadcaster \<Rightarrow> nat \<times> broadcaster" where
  "broadcast d b =
     fold (\<lambda>(i, sink, e) (n, b). if e \<and> sink then (n + 1, b\<lparr>bc_got := bc_got b @ [(i, d)]\<rparr>) else (n, b)) (bc_targets b) (0, b)"

definition broadcaster_ok :: "broadcaster \<Rightarrow> bool" where
  "broadcaster_ok b \<longleftrightarrow> distinct (map fst (bc_targets b)) \<and> list_all (\<lambda>(i, t). i < bc_next b) (bc_targets b)"

lemma broadcaster_keeps:
  "broadcaster_ok new_broadcaster"
  "broadcaster_ok b \<Longrightarrow> broadcaster_ok (snd (addTarget sink b))"
  "broadcaster_ok b \<Longrightarrow> broadcaster_ok (removeTarget i b)"
  "broadcaster_ok b \<Longrightarrow> broadcaster_ok (setEnabled i on b)"
proof -
  show "broadcaster_ok new_broadcaster" by (simp add: broadcaster_ok_def new_broadcaster_def)
  show "broadcaster_ok b \<Longrightarrow> broadcaster_ok (snd (addTarget sink b))"
    by (auto simp: broadcaster_ok_def addTarget_def distinct_update set_update_alist list_all_iff)
  show "broadcaster_ok b \<Longrightarrow> broadcaster_ok (removeTarget i b)"
    by (auto simp: broadcaster_ok_def removeTarget_def list_all_iff distinct_map inj_on_def)
  show "broadcaster_ok b \<Longrightarrow> broadcaster_ok (setEnabled i on b)"
    by (auto simp: broadcaster_ok_def setEnabled_def distinct_update set_update_alist list_all_iff split: option.split dest: map_of_SomeD)
qed

text \<open>Every target that takes part and has a sink gets the bytes once; their number is the answer.\<close>

lemma broadcast_reaches:
  "bc_got (snd (broadcast d b)) = bc_got b @ map (\<lambda>(i, t). (i, d)) (filter (\<lambda>(i, sink, e). e \<and> sink) (bc_targets b)) \<and>
   fst (broadcast d b) = length (filter (\<lambda>(i, sink, e). e \<and> sink) (bc_targets b))"
proof -
  have "bc_got (snd (fold (\<lambda>(i, sink, e) (n, b). if e \<and> sink then (n + 1, b\<lparr>bc_got := bc_got b @ [(i, d)]\<rparr>) else (n, b)) ts (n, c))) =
      bc_got c @ map (\<lambda>(i, t). (i, d)) (filter (\<lambda>(i, sink, e). e \<and> sink) ts) \<and>
    fst (fold (\<lambda>(i, sink, e) (n, b). if e \<and> sink then (n + 1, b\<lparr>bc_got := bc_got b @ [(i, d)]\<rparr>) else (n, b)) ts (n, c)) =
      n + length (filter (\<lambda>(i, sink, e). e \<and> sink) ts)" for ts :: "(nat \<times> bool \<times> bool) list" and n c
    by (induction ts arbitrary: n c) auto
  from this [of "bc_targets b" 0 b] show ?thesis unfolding broadcast_def by simp
qed

section \<open>X displays\<close>

record DisplaySpec =
  ds_host :: string
  ds_display :: int
  ds_screen :: int
  ds_valid :: bool

definition display_parse :: "string \<Rightarrow> DisplaySpec" where
  "display_parse d =
     (let s = \<lparr>ds_host = [], ds_display = 0, ds_screen = 0, ds_valid = False\<rparr>
      in case last_index_of CHR '':'' d of
           None \<Rightarrow> s
         | Some i \<Rightarrow>
             let s = s\<lparr>ds_host := take i d\<rparr>; rest = drop (i + 1) d
             in if rest = [] then s
                else case index_of CHR ''.'' rest of
                       None \<Rightarrow> s\<lparr>ds_display := to_int0 rest, ds_screen := 0, ds_valid := to_int rest \<noteq> None\<rparr>
                     | Some j \<Rightarrow>
                         let a = take j rest; b = drop (j + 1) rest; s = s\<lparr>ds_display := to_int0 a, ds_screen := to_int0 b\<rparr>
                         in if to_int b = None then s else s\<lparr>ds_valid := to_int a \<noteq> None\<rparr>)"

definition display_format :: "DisplaySpec \<Rightarrow> string" where
  "display_format s = ds_host s @ '':'' @ dec_of_int (ds_display s) @ ''.'' @ dec_of_int (ds_screen s)"

definition forwardingDisplay :: "int \<Rightarrow> int \<Rightarrow> fault + string" where
  "forwardingDisplay channel base =
     bindF (intOp (base + channel)) (\<lambda>n. ok (display_format \<lparr>ds_host = ''localhost'', ds_display = n, ds_screen = 0, ds_valid = False\<rparr>))"

definition serverAvailable :: "string \<Rightarrow> bool" where
  "serverAvailable d = ds_valid (display_parse d)"

lemma dec_int_chars: "c \<in> set (dec_of_int n) \<Longrightarrow> c = CHR ''-'' \<or> is_digit c"
  by (auto simp: dec_of_int_def dest: dec_of_nat_digits split: if_splits)

lemma no_mark_in_number: "CHR '':'' \<notin> set (dec_of_int n)" "CHR ''.'' \<notin> set (dec_of_int n)"
  using dec_int_chars [of "CHR '':''" n] dec_int_chars [of "CHR ''.''" n] by (auto simp: is_digit_def)

text \<open>The name of a display reads back: whatever the host, colons in it included, and every display and screen an
  int can count.\<close>

theorem display_roundtrip:
  assumes "fitsInt (ds_display s)" and "fitsInt (ds_screen s)"
  shows "display_parse (display_format s) = s\<lparr>ds_valid := True\<rparr>"
proof -
  let ?num = "dec_of_int (ds_display s) @ CHR ''.'' # dec_of_int (ds_screen s)"
  have colon: "last_index_of CHR '':'' (display_format s) = Some (length (ds_host s))"
    using no_mark_in_number by (simp add: display_format_def)
  have dot: "index_of CHR ''.'' ?num = Some (length (dec_of_int (ds_display s)))"
    using no_mark_in_number(2) [of "ds_display s"] by simp
  have rest: "drop (length (ds_host s) + 1) (display_format s) = ?num" "take (length (ds_host s)) (display_format s) = ds_host s"
    by (simp_all add: display_format_def)
  show ?thesis
    using dot to_int_dec_of_int [OF assms(1)] to_int_dec_of_int [OF assms(2)]
    unfolding display_parse_def colon Let_def option.case rest by (simp add: to_int0_def)
qed

theorem display_roundtrip_witness:
  "display_parse ''fe80::1:10.0'' = \<lparr>ds_host = ''fe80::1'', ds_display = 10, ds_screen = 0, ds_valid = True\<rparr>"
proof -
  have "display_format \<lparr>ds_host = ''fe80::1'', ds_display = 10, ds_screen = 0, ds_valid = False\<rparr> = ''fe80::1:10.0''" by code_simp
  then show ?thesis
    using display_roundtrip [of "\<lparr>ds_host = ''fe80::1'', ds_display = 10, ds_screen = 0, ds_valid = False\<rparr>"] by (simp add: fitsInt_def)
qed

section \<open>The language\<close>

definition languages :: "string list" where
  "languages = [''en'', ''zh_TW'', ''zh_CN'', ''ja'']"

text \<open>What is saved, what is current, and the translators that are installed; \<open>loads\<close> says which translation files there are.\<close>

record language_manager =
  lm_current :: string
  lm_saved :: string
  lm_installed :: "string list"
  lm_told :: "string list"

definition install_language :: "(string \<Rightarrow> bool) \<Rightarrow> string \<Rightarrow> language_manager \<Rightarrow> language_manager" where
  "install_language loads c m =
     (let m = m\<lparr>lm_installed := []\<rparr>
      in if c = ''en'' then m
         else m\<lparr>lm_installed := filter loads ['':/i18n/macxterm_'' @ c, ''qtbase_'' @ c]\<rparr>)"

definition applySaved :: "(string \<Rightarrow> bool) \<Rightarrow> string \<Rightarrow> language_manager \<Rightarrow> language_manager" where
  "applySaved loads sys m =
     (let c = (if lm_saved m \<noteq> [] then lm_saved m
               else case List.find (\<lambda>l. sys = l \<or> starts_with (l @ ''_'') sys \<or> l = ''ja'' \<and> starts_with ''ja'' sys) languages of
                      None \<Rightarrow> ''en'' | Some l \<Rightarrow> l)
      in (install_language loads c m)\<lparr>lm_current := c\<rparr>)"

definition setLanguage :: "(string \<Rightarrow> bool) \<Rightarrow> string \<Rightarrow> language_manager \<Rightarrow> language_manager" where
  "setLanguage loads c m =
     (if c = lm_current m then m
      else let m = install_language loads c m in m\<lparr>lm_current := c, lm_saved := c, lm_told := lm_told m @ [c]\<rparr>)"

text \<open>At any time the translators are those of the current language.\<close>

definition language_ok :: "(string \<Rightarrow> bool) \<Rightarrow> language_manager \<Rightarrow> bool" where
  "language_ok loads m \<longleftrightarrow> lm_installed m = lm_installed (install_language loads (lm_current m) m)"

lemma language_keeps: "language_ok loads (applySaved loads sys m)" "language_ok loads m \<Longrightarrow> language_ok loads (setLanguage loads c m)"
  by (simp_all add: language_ok_def applySaved_def setLanguage_def install_language_def Let_def)

section \<open>Colour schemes\<close>

type_synonym colour = "nat \<times> nat \<times> nat"

record ColorScheme =
  cs_name :: string
  cs_ansi :: "colour list"
  cs_fg :: colour
  cs_bg :: colour

definition xtermBase :: "colour list" where
  "xtermBase =
     [(0, 0, 0), (205, 0, 0), (0, 205, 0), (205, 205, 0), (0, 0, 238), (205, 0, 205), (0, 205, 205), (229, 229, 229),
      (127, 127, 127), (255, 0, 0), (0, 255, 0), (255, 255, 0), (92, 92, 255), (255, 0, 255), (0, 255, 255), (255, 255, 255)]"

definition scheme_dark :: ColorScheme where
  "scheme_dark = \<lparr>cs_name = ''Dark'', cs_ansi = xtermBase, cs_fg = (229, 229, 229), cs_bg = (0, 0, 0)\<rparr>"

definition scheme_light :: ColorScheme where
  "scheme_light = \<lparr>cs_name = ''Light'', cs_ansi = xtermBase, cs_fg = (0, 0, 0), cs_bg = (255, 255, 255)\<rparr>"

definition solarizedDark :: ColorScheme where
  "solarizedDark =
     \<lparr>cs_name = ''Solarized Dark'', cs_ansi = xtermBase[0 := (0x07, 0x36, 0x42), 15 := (0xfd, 0xf6, 0xe3)], cs_fg = (0x83, 0x94, 0x96),
      cs_bg = (0x00, 0x2b, 0x36)\<rparr>"

definition scheme_byName :: "string \<Rightarrow> ColorScheme" where
  "scheme_byName name =
     (let n = to_lower name
      in if n = ''light'' then scheme_light else if n = ''solarized dark'' \<or> n = ''solarized'' then solarizedDark else scheme_dark)"

lemma scheme_full: "length (cs_ansi (scheme_byName n)) = 16 \<and> scheme_byName (cs_name (scheme_byName n)) = scheme_byName n"
proof -
  have "scheme_byName (cs_name scheme_dark) = scheme_dark \<and> length (cs_ansi scheme_dark) = 16" by code_simp
  moreover have "scheme_byName (cs_name scheme_light) = scheme_light \<and> length (cs_ansi scheme_light) = 16" by code_simp
  moreover have "scheme_byName (cs_name solarizedDark) = solarizedDark \<and> length (cs_ansi solarizedDark) = 16" by code_simp
  moreover have "scheme_byName n = scheme_dark \<or> scheme_byName n = scheme_light \<or> scheme_byName n = solarizedDark"
    by (simp add: scheme_byName_def Let_def)
  ultimately show ?thesis by (elim disjE) simp_all
qed

end
