(* ===== verification/Local_Shell.thy ===== *)
theory Local_Shell
  imports Config Tcp_Connections
begin

text \<open>
  What runs on the user's own machine: the local shell (\<open>src/src/connect/LocalShellConnection\<close>), the shells that the
  Telnet server of \<open>src/src/tools/TelnetServer\<close> gives out, and the local X server (\<open>src/src/x11/X11Server\<close>). The
  terminals of the operating system (\<open>platform::Pty\<close>), its environment and its processes are parameters.
\<close>

section \<open>The local shell\<close>

text \<open>The environment, and the account's entry where there is one.\<close>

record shell_env =
  se_windows :: bool
  se_SHELL :: "string option"
  se_ComSpec :: "string option"
  se_HOME :: "string option"
  se_USERPROFILE :: "string option"
  se_login :: "string option"
  se_homedir :: "string option"

definition or_empty :: "string option \<Rightarrow> string" where
  "or_empty v = (case v of None \<Rightarrow> [] | Some x \<Rightarrow> x)"

definition shell_program :: "shell_env \<Rightarrow> Session \<Rightarrow> string" where
  "shell_program e s =
     (let shell = param s ''shell''; shell = (if shell = [] then or_empty (se_SHELL e) else shell)
      in if \<not> se_windows e then
           let shell = (if shell = [] then or_empty (se_login e) else shell) in if shell = [] then ''/bin/sh'' else shell
         else if shell = [] then
           (case se_ComSpec e of None \<Rightarrow> ''C:'' @ [CHR 0x5C] @ ''Windows'' @ [CHR 0x5C] @ ''System32'' @ [CHR 0x5C] @ ''cmd.exe'' | Some c \<Rightarrow> c)
         else shell)"

definition file_name :: "bool \<Rightarrow> string \<Rightarrow> string" where
  "file_name windows f =
     (let p = (if windows then to_slashes f else f) in case last_index_of CHR ''/'' p of None \<Rightarrow> p | Some i \<Rightarrow> drop (i + 1) p)"

definition shell_argv0 :: "shell_env \<Rightarrow> Session \<Rightarrow> string" where
  "shell_argv0 e s = (if param_def s ''loginshell'' ''1'' \<noteq> ''0'' then ''-'' @ file_name (se_windows e) (shell_program e s) else [])"

definition shell_workDir :: "shell_env \<Rightarrow> Session \<Rightarrow> string" where
  "shell_workDir e s =
     (let d = param s ''cwd''
      in if d \<noteq> [] then d
         else if se_windows e then or_empty (se_USERPROFILE e)
         else if or_empty (se_HOME e) \<noteq> [] then or_empty (se_HOME e) else or_empty (se_homedir e))"

definition shell_args :: "Session \<Rightarrow> string list" where
  "shell_args s = split_skip CHR '' '' (param s ''shellargs'')"

text \<open>A terminal is asked for with program, arguments, size, name and directory; what is written to it is kept.\<close>

record pty_request =
  pq_program :: string
  pq_args :: "string list"
  pq_cols :: int
  pq_rows :: int
  pq_argv0 :: string
  pq_cwd :: string

record shell_conn = iconn +
  l_cols :: int
  l_rows :: int
  l_running :: bool
  l_written :: bytes

definition new_shell :: shell_conn where
  "new_shell = \<lparr>ic_state = Disconnected, ic_log = [], l_cols = 80, l_rows = 24, l_running = False, l_written = []\<rparr>"

definition shell_connect :: "shell_env \<Rightarrow> (pty_request \<Rightarrow> bool) \<Rightarrow> Session \<Rightarrow> shell_conn \<Rightarrow> bool \<times> shell_conn" where
  "shell_connect e starts s c =
     (let c = change_state Connecting c; shell = shell_program e s
      in if \<not> starts \<lparr>pq_program = shell, pq_args = shell_args s, pq_cols = l_cols c, pq_rows = l_rows c, pq_argv0 = shell_argv0 e s,
                       pq_cwd = shell_workDir e s\<rparr>
         then (False, fail_conn (''Failed to start shell: '' @ shell) c)
         else (True, change_state Connected (c\<lparr>l_running := True\<rparr>)))"

definition shell_disconnect :: "shell_conn \<Rightarrow> shell_conn" where
  "shell_disconnect c = change_state Disconnected (c\<lparr>l_running := False\<rparr>)"

definition shell_send :: "bytes \<Rightarrow> shell_conn \<Rightarrow> shell_conn" where
  "shell_send b c = (if l_running c then c\<lparr>l_written := l_written c @ b\<rparr> else c)"

definition shell_resize :: "int \<Rightarrow> int \<Rightarrow> shell_conn \<Rightarrow> shell_conn" where
  "shell_resize cols rows c = c\<lparr>l_cols := cols, l_rows := rows\<rparr>"

definition shell_output :: "bytes \<Rightarrow> shell_conn \<Rightarrow> shell_conn" where
  "shell_output b c = qemit (DataReceived b) c"

definition shell_finished :: "shell_conn \<Rightarrow> shell_conn" where
  "shell_finished c = change_state Closed c"

datatype shell_event = ShConnect Session | ShDisconnect | ShSend bytes | ShResize int int | ShOutput bytes | ShFinished

fun shell_do :: "shell_env \<Rightarrow> (pty_request \<Rightarrow> bool) \<Rightarrow> shell_event \<Rightarrow> shell_conn \<Rightarrow> shell_conn" where
  "shell_do e starts (ShConnect s) c = snd (shell_connect e starts s c)"
| "shell_do e starts ShDisconnect c = shell_disconnect c"
| "shell_do e starts (ShSend b) c = shell_send b c"
| "shell_do e starts (ShResize cols rows) c = shell_resize cols rows c"
| "shell_do e starts (ShOutput b) c = shell_output b c"
| "shell_do e starts ShFinished c = shell_finished c"

lemma announced_shell_fields [announced_intro]:
  "announced a c \<Longrightarrow> announced a (c\<lparr>l_running := r\<rparr>)" "announced a c \<Longrightarrow> announced a (c\<lparr>l_written := w\<rparr>)"
  "announced a c \<Longrightarrow> announced a (c\<lparr>l_cols := x, l_rows := y\<rparr>)" for a c :: shell_conn
  by (simp_all add: announced_def told_def)

lemma announced_shell: "announced c (shell_do e starts ev c)"
proof (cases ev)
  case (ShConnect s)
  have "announced c (snd (shell_connect e starts s c))"
    unfolding shell_connect_def Let_def by (auto intro!: announced_intro split: if_split)
  then show ?thesis by (simp add: ShConnect)
qed (auto simp: shell_disconnect_def shell_send_def shell_resize_def shell_output_def shell_finished_def intro!: announced_intro)

interpretation shell_listener: announcing ic_state told "\<lambda>c c'. \<exists>e starts ev. c' = shell_do e starts ev c"
  by unfold_locales (use announced_shell in \<open>auto simp: announced_def\<close>)

text \<open>There is a program to start, in every environment that is not Windows.\<close>

lemma shell_program_found: "\<not> se_windows e \<Longrightarrow> shell_program e s \<noteq> []"
  by (simp add: shell_program_def Let_def)

section \<open>The Telnet server\<close>

text \<open>Sessions pair a socket with a terminal. What goes to the sockets and to the terminals is a log.\<close>

datatype telnetd_out = Started nat | ToSocket nat bytes | ToPty nat bytes | HangUp nat | Terminate nat

record telnetd =
  td_listening :: bool
  td_sessions :: "(nat \<times> nat) list"
  td_out :: "telnetd_out list"

definition td_put :: "telnetd_out \<Rightarrow> telnetd \<Rightarrow> telnetd" where
  "td_put x t = t\<lparr>td_out := td_out t @ [x]\<rparr>"

definition telnetd_stop :: "telnetd \<Rightarrow> telnetd" where
  "telnetd_stop t =
     (let t = fold (\<lambda>(sock, pty). td_put (Terminate pty)) (td_sessions t) t in t\<lparr>td_sessions := [], td_listening := False\<rparr>)"

definition telnetd_start :: "bool \<Rightarrow> telnetd \<Rightarrow> bool \<times> telnetd" where
  "telnetd_start listens t = (let t = telnetd_stop t in if listens then (True, t\<lparr>td_listening := True\<rparr>) else (False, t))"

text \<open>A new client, and whether a shell could be started for it.\<close>

definition onNewConnection :: "nat \<Rightarrow> nat option \<Rightarrow> telnetd \<Rightarrow> telnetd" where
  "onNewConnection sock started t =
     (if \<not> td_listening t then t
      else case started of
             None \<Rightarrow> td_put (HangUp sock) t
           | Some pty \<Rightarrow> td_put (Started pty) (t\<lparr>td_sessions := AList.update sock pty (td_sessions t)\<rparr>))"

definition client_data :: "nat \<Rightarrow> bytes \<Rightarrow> telnetd \<Rightarrow> telnetd" where
  "client_data sock b t = (case map_of (td_sessions t) sock of None \<Rightarrow> t | Some pty \<Rightarrow> td_put (ToPty pty b) t)"

text \<open>\<open>connected\<close>: the socket is still connected.\<close>

definition pty_data :: "nat \<Rightarrow> bool \<Rightarrow> bytes \<Rightarrow> telnetd \<Rightarrow> telnetd" where
  "pty_data sock connected b t = (if connected \<and> sock \<in> fst ` set (td_sessions t) then td_put (ToSocket sock b) t else t)"

definition client_gone :: "nat \<Rightarrow> telnetd \<Rightarrow> telnetd" where
  "client_gone sock t =
     (let t = (case map_of (td_sessions t) sock of None \<Rightarrow> t | Some pty \<Rightarrow> td_put (Terminate pty) t)
      in t\<lparr>td_sessions := filter (\<lambda>(s, p). s \<noteq> sock) (td_sessions t)\<rparr>)"

definition pty_finished :: "nat \<Rightarrow> telnetd \<Rightarrow> telnetd" where
  "pty_finished sock t = (if sock \<in> fst ` set (td_sessions t) then td_put (HangUp sock) t else t)"

datatype telnetd_event = TdStart bool | TdStop | TdNew nat "nat option" | TdClient nat bytes | TdPty nat bool bytes | TdGone nat | TdEnded nat

fun telnetd_do :: "telnetd_event \<Rightarrow> telnetd \<Rightarrow> telnetd" where
  "telnetd_do (TdStart l) t = snd (telnetd_start l t)"
| "telnetd_do TdStop t = telnetd_stop t"
| "telnetd_do (TdNew s p) t = onNewConnection s p t"
| "telnetd_do (TdClient s b) t = client_data s b t"
| "telnetd_do (TdPty s c b) t = pty_data s c b t"
| "telnetd_do (TdGone s) t = client_gone s t"
| "telnetd_do (TdEnded s) t = pty_finished s t"

definition started :: "telnetd \<Rightarrow> nat list" where
  "started t = concat (map (\<lambda>x. case x of Started p \<Rightarrow> [p] | _ \<Rightarrow> []) (td_out t))"

definition terminated :: "telnetd \<Rightarrow> nat list" where
  "terminated t = concat (map (\<lambda>x. case x of Terminate p \<Rightarrow> [p] | _ \<Rightarrow> []) (td_out t))"

definition new_telnetd :: telnetd where
  "new_telnetd = \<lparr>td_listening = False, td_sessions = [], td_out = []\<rparr>"

definition new_sockets :: "telnetd_event list \<Rightarrow> nat list" where
  "new_sockets es = concat (map (\<lambda>e. case e of TdNew s p \<Rightarrow> [s] | _ \<Rightarrow> []) es)"

definition accounted :: "telnetd \<Rightarrow> bool" where
  "accounted t \<longleftrightarrow> distinct (map fst (td_sessions t)) \<and> mset (started t) = mset (terminated t) + mset (map snd (td_sessions t))"

lemma td_put_fields [simp]:
  "td_sessions (td_put x t) = td_sessions t" "td_listening (td_put x t) = td_listening t" "td_out (td_put x t) = td_out t @ [x]"
  by (simp_all add: td_put_def)

lemma put_counts [simp]:
  "started (td_put x t) = started t @ (case x of Started p \<Rightarrow> [p] | _ \<Rightarrow> [])"
  "terminated (td_put x t) = terminated t @ (case x of Terminate p \<Rightarrow> [p] | _ \<Rightarrow> [])"
  by (simp_all add: started_def terminated_def)

lemma count_fields [simp]:
  "started (t\<lparr>td_sessions := s\<rparr>) = started t" "terminated (t\<lparr>td_sessions := s\<rparr>) = terminated t"
  "started (t\<lparr>td_listening := l\<rparr>) = started t" "terminated (t\<lparr>td_listening := l\<rparr>) = terminated t"
  by (simp_all add: started_def terminated_def)

lemma stop_counts:
  "started (telnetd_stop t) = started t" "terminated (telnetd_stop t) = terminated t @ map snd (td_sessions t)"
  "td_sessions (telnetd_stop t) = []"
proof -
  have "started (fold (\<lambda>(sock, pty). td_put (Terminate pty)) ss u) = started u \<and>
      terminated (fold (\<lambda>(sock, pty). td_put (Terminate pty)) ss u) = terminated u @ map snd ss" for ss u
    by (induction ss arbitrary: u) auto
  from this [of "td_sessions t" t] show "started (telnetd_stop t) = started t" "terminated (telnetd_stop t) = terminated t @ map snd (td_sessions t)"
    "td_sessions (telnetd_stop t) = []" by (simp_all add: telnetd_stop_def Let_def)
qed

lemma removed_session:
  assumes "distinct (map fst ss)" and "map_of ss k = Some v"
  shows "mset (map snd ss) = mset (map snd (filter (\<lambda>(s, p). s \<noteq> k) ss)) + {#v#}"
  using assms
proof (induction ss)
  case (Cons e ss)
  have "filter (\<lambda>(s, p). s \<noteq> k) ss = ss" if "k \<notin> fst ` set ss" using that by (force simp: filter_id_conv)
  with Cons show ?case by (cases e) (auto simp del: mset_map mset_filter)
qed simp

lemma update_new: "k \<notin> fst ` set m \<Longrightarrow> AList.update k v m = m @ [(k, v)]"
  by (induction m) auto

lemma accounted_step:
  assumes "accounted t" and "\<And>s p. e = TdNew s p \<Longrightarrow> s \<notin> fst ` set (td_sessions t)"
  shows "accounted (telnetd_do e t)"
proof (cases e)
  case (TdStart l)
  with assms(1) show ?thesis by (simp add: accounted_def telnetd_start_def Let_def stop_counts)
next
  case TdStop
  with assms(1) show ?thesis by (simp add: accounted_def stop_counts)
next
  case (TdNew s p)
  have "AList.update s q (td_sessions t) = td_sessions t @ [(s, q)]" for q
    using assms(2) [OF TdNew] by (rule update_new)
  with assms TdNew show ?thesis by (auto simp: accounted_def onNewConnection_def split: option.split)
next
  case (TdClient s b)
  with assms(1) show ?thesis by (simp add: accounted_def client_data_def split: option.split)
next
  case (TdPty s c b)
  with assms(1) show ?thesis by (simp add: accounted_def pty_data_def)
next
  case (TdEnded s)
  with assms(1) show ?thesis by (simp add: accounted_def pty_finished_def)
next
  case (TdGone s)
  have d: "distinct (map fst (filter (\<lambda>(a, p). a \<noteq> s) (td_sessions t)))"
    using assms(1) by (auto simp: accounted_def distinct_map inj_on_def)
  show ?thesis
  proof (cases "map_of (td_sessions t) s")
    case None
    then have "filter (\<lambda>(a, p). a \<noteq> s) (td_sessions t) = td_sessions t" by (force simp: filter_id_conv map_of_eq_None_iff)
    with None assms(1) TdGone show ?thesis by (simp add: accounted_def client_gone_def)
  next
    case (Some p)
    with removed_session [of "td_sessions t" s p] assms(1) d TdGone show ?thesis by (simp add: accounted_def client_gone_def)
  qed
qed

text \<open>The Telnet server. Whatever clients come and go and whatever shells end, every shell that was started has been
  terminated once or belongs to a client that is still there; once the server is stopped, every shell has been
  terminated, and none twice.\<close>

theorem telnetd_leaves_no_shell:
  assumes "distinct (new_sockets es)" and "distinct (started (fold telnetd_do es new_telnetd))"
  shows "mset (terminated (fold telnetd_do (es @ [TdStop]) new_telnetd)) = mset (started (fold telnetd_do es new_telnetd)) \<and>
    distinct (terminated (fold telnetd_do (es @ [TdStop]) new_telnetd))"
proof -
  have run: "accounted (fold telnetd_do es t)"
    if "accounted t" "distinct (new_sockets es)" "set (new_sockets es) \<inter> fst ` set (td_sessions t) = {}" for t
    using that
  proof (induction es arbitrary: t)
    case (Cons e es)
    have fresh: "s \<notin> fst ` set (td_sessions t)" if "e = TdNew s p" for s p using that Cons.prems(3) by (auto simp: new_sockets_def)
    have step: "accounted (telnetd_do e t)" by (rule accounted_step [OF Cons.prems(1) fresh])
    define ns where "ns = (case e of TdNew s p \<Rightarrow> [s] | _ \<Rightarrow> [])"
    have grown: "fst ` set (td_sessions (telnetd_do e t)) \<subseteq> fst ` set (td_sessions t) \<union> set ns"
      by (cases e) (auto simp: ns_def telnetd_start_def Let_def stop_counts onNewConnection_def client_data_def pty_data_def client_gone_def
          pty_finished_def dom_update split: option.split)
    have "new_sockets (e # es) = ns @ new_sockets es" by (simp add: new_sockets_def ns_def)
    then have "distinct (new_sockets es)" "set ns \<inter> set (new_sockets es) = {}" "set (new_sockets es) \<inter> fst ` set (td_sessions t) = {}"
      using Cons.prems(2,3) by auto
    moreover from this(2,3) grown have "set (new_sockets es) \<inter> fst ` set (td_sessions (telnetd_do e t)) = {}" by blast
    ultimately have "distinct (new_sockets es)" "set (new_sockets es) \<inter> fst ` set (td_sessions (telnetd_do e t)) = {}" by simp_all
    with Cons.IH [OF step] show ?case by simp
  qed simp
  have "accounted (fold telnetd_do es new_telnetd)"
    by (rule run) (use assms(1) in \<open>auto simp: accounted_def new_telnetd_def started_def terminated_def\<close>)
  then have "mset (terminated (telnetd_stop (fold telnetd_do es new_telnetd))) = mset (started (fold telnetd_do es new_telnetd))"
    by (simp add: accounted_def stop_counts)
  with assms(2) mset_eq_imp_distinct_iff [OF this] show ?thesis by simp
qed

theorem telnetd_leaves_no_shell_witness:
  "mset (terminated (fold telnetd_do [TdStart True, TdNew 1 (Some 7), TdNew 2 None, TdNew 3 (Some 8), TdClient 1 [108], TdGone 1, TdStop] new_telnetd)) =
     mset [7, 8]"
  using telnetd_leaves_no_shell [of "[TdStart True, TdNew 1 (Some 7), TdNew 2 None, TdNew 3 (Some 8), TdClient 1 [108], TdGone 1]"]
  by (simp add: new_sockets_def new_telnetd_def telnetd_start_def telnetd_stop_def onNewConnection_def client_data_def client_gone_def started_def)

section \<open>The X server\<close>

datatype os = MacOS | Windows | Linux

definition candidateCommands :: "os \<Rightarrow> string list" where
  "candidateCommands sys =
     (case sys of
        MacOS \<Rightarrow> [''open -a XQuartz'', ''/opt/X11/bin/Xquartz'', ''/usr/X11/bin/Xquartz'']
      | Windows \<Rightarrow> [''C:/Program Files/VcXsrv/vcxsrv.exe :0 -multiwindow -clipboard -wgl'', ''C:/Program Files (x86)/Xming/Xming.exe :0 -multiwindow -clipboard'']
      | Linux \<Rightarrow> [''Xephyr :10 -screen 1024x768'', ''Xvfb :10 -screen 0 1024x768x24''])"

definition currentDisplay :: "os \<Rightarrow> string \<Rightarrow> string" where
  "currentDisplay sys display = (if display \<noteq> [] then display else if sys = Windows then ''localhost:0.0'' else '':0'')"

definition display_number :: "string \<Rightarrow> int" where
  "display_number rest = to_int0 (hd (split_on CHR ''.'' rest))"

text \<open>\<open>exists\<close>: the files there are; \<open>port0\<close>: whether something listens on TCP port 6000.\<close>

definition x_isRunning :: "os \<Rightarrow> string \<Rightarrow> (string \<Rightarrow> bool) \<Rightarrow> bool \<Rightarrow> bool" where
  "x_isRunning sys display exists port0 =
     (if sys = Windows then port0 \<or> display \<noteq> []
      else if starts_with ''/'' display then exists display
      else let n = (if starts_with '':'' display then display_number (drop 1 display)
                    else case last_index_of CHR '':'' display of None \<Rightarrow> 0 | Some c \<Rightarrow> display_number (drop (c + 1) display))
           in exists (''/tmp/.X11-unix/X'' @ dec_of_int n))"

text \<open>A command of the list as \<open>splitCommand\<close> cuts it, and the world after it was started: what can be waited for, and
  what is there at the end.\<close>

record x_world =
  xw_display :: string
  xw_split :: "string \<Rightarrow> string list"
  xw_exists :: "string \<Rightarrow> bool"
  xw_port0 :: bool
  xw_starts :: "string \<Rightarrow> string list \<Rightarrow> bool"
  xw_soon :: "string \<Rightarrow> bool"
  xw_later :: "string \<Rightarrow> bool"

definition dash :: string where "dash = [char_of (226 :: nat), char_of (128 :: nat), char_of (148 :: nat)]"

text \<open>The last result is the display variable afterwards.\<close>

fun try_commands :: "os \<Rightarrow> x_world \<Rightarrow> string list \<Rightarrow> bool \<times> string \<times> string" where
  "try_commands sys w [] =
     (False, ''No local X server found. Install XQuartz (macOS), VcXsrv (Windows), or start your X server, then retry.'', xw_display w)"
| "try_commands sys w (cmd # cmds) =
     (case xw_split w cmd of
        [] \<Rightarrow> try_commands sys w cmds
      | program # args \<Rightarrow>
          if CHR ''/'' \<in> set program \<and> \<not> xw_exists w program then try_commands sys w cmds
          else if xw_starts w program args then
            if xw_soon w cmd then
              (True, ''Launched X server via: '' @ cmd, if sys = Windows \<and> xw_display w = [] then ''localhost:0.0'' else xw_display w)
            else (xw_later w cmd, ''Launched '' @ program @ '' '' @ dash @ '' waiting for it to come up'', xw_display w)
          else try_commands sys w cmds)"

definition ensureRunning :: "os \<Rightarrow> x_world \<Rightarrow> bool \<times> string \<times> string" where
  "ensureRunning sys w =
     (if x_isRunning sys (xw_display w) (xw_exists w) (xw_port0 w) then
        (True, ''X server already running (DISPLAY='' @ currentDisplay sys (xw_display w) @ '')'', xw_display w)
      else try_commands sys w (candidateCommands sys))"

text \<open>On Linux the servers that are started are number 10, but without a display variable it is number 0 that is
  looked for: a server that was started is never found.\<close>

lemma started_server_not_seen:
  "x_isRunning Linux [] (\<lambda>f. f = ''/tmp/.X11-unix/X10'') p = False"
  by code_simp

end
