(* ===== verification/Net_Tools.thy ===== *)
theory Net_Tools
  imports Config Checked
begin

text \<open>
  The network tools of \<open>src/src/tools\<close>: the decoder of captured packets and the capture loop (\<open>PacketCapture\<close>), the
  list of a subnet's hosts (\<open>Subnet\<close>), the port scanner (\<open>PortScanner\<close>), the comparison of folders (\<open>FolderDiff\<close>)
  and the signed listing of a bucket (\<open>AwsSigV4\<close>, \<open>S3Client\<close>). Every access to a packet is checked.
\<close>

section \<open>Captured packets\<close>

record PacketSummary =
  ps_length :: int
  ps_protocol :: string
  ps_info :: string

definition byteAt :: "bytes \<Rightarrow> int \<Rightarrow> fault + nat" where
  "byteAt data i = (if i < 0 then Inl OutOfBounds else bindF (nthF data (nat i)) (\<lambda>b. ok (unat b)))"

definition be16At :: "bytes \<Rightarrow> int \<Rightarrow> fault + nat" where
  "be16At data i = bindF (byteAt data i) (\<lambda>a. bindF (byteAt data (i + 1)) (\<lambda>b. ok (256 * a + b)))"

definition ipv4At :: "bytes \<Rightarrow> int \<Rightarrow> fault + string" where
  "ipv4At data i =
     bindF (byteAt data i) (\<lambda>a. bindF (byteAt data (i + 1)) (\<lambda>b. bindF (byteAt data (i + 2)) (\<lambda>c. bindF (byteAt data (i + 3)) (\<lambda>d.
     ok (dec_of_nat a @ ''.'' @ dec_of_nat b @ ''.'' @ dec_of_nat c @ ''.'' @ dec_of_nat d)))))"

fun hex_of_nat :: "nat \<Rightarrow> nat \<Rightarrow> string" where
  "hex_of_nat 0 n = []"
| "hex_of_nat (Suc k) n = hex_of_nat k (n div 16) @ [''0123456789abcdef'' ! (n mod 16)]"

definition arrow :: string where "arrow = '' -> ''"

definition ports_info :: "bytes \<Rightarrow> int \<Rightarrow> string \<Rightarrow> string \<Rightarrow> fault + string" where
  "ports_info data l4 src dst =
     bindF (be16At data l4) (\<lambda>p. bindF (be16At data (l4 + 2)) (\<lambda>q.
     ok (src @ '':'' @ dec_of_nat p @ arrow @ dst @ '':'' @ dec_of_nat q)))"

text \<open>The packet without its first \<open>off\<close> bytes, an IPv4 header.\<close>

definition summarize_ip :: "bytes \<Rightarrow> int \<Rightarrow> PacketSummary \<Rightarrow> fault + PacketSummary" where
  "summarize_ip data off s =
     (let caplen = int (length data) in
      if caplen < off + 20 then ok (s\<lparr>ps_protocol := ''IPv4?''\<rparr>)
      else bindF (byteAt data off) (\<lambda>v. bindF (byteAt data (off + 9)) (\<lambda>proto.
           bindF (ipv4At data (off + 12)) (\<lambda>src. bindF (ipv4At data (off + 16)) (\<lambda>dst.
           let ihl = int (v mod 16) * 4; l4 = off + ihl in
           if proto = 6 \<and> l4 + 4 \<le> caplen then bindF (ports_info data l4 src dst) (\<lambda>i. ok (s\<lparr>ps_protocol := ''TCP'', ps_info := i\<rparr>))
           else if proto = 17 \<and> l4 + 4 \<le> caplen then bindF (ports_info data l4 src dst) (\<lambda>i. ok (s\<lparr>ps_protocol := ''UDP'', ps_info := i\<rparr>))
           else if proto = 1 then ok (s\<lparr>ps_protocol := ''ICMP'', ps_info := src @ arrow @ dst\<rparr>)
           else ok (s\<lparr>ps_protocol := ''IPv4'', ps_info := src @ arrow @ dst @ '' (proto '' @ dec_of_nat proto @ '')''\<rparr>))))))"

definition summarize :: "bytes \<Rightarrow> int \<Rightarrow> fault + PacketSummary" where
  "summarize data linktype =
     (let caplen = int (length data); s = \<lparr>ps_length = caplen, ps_protocol = [], ps_info = []\<rparr>
      in if caplen \<le> 0 then ok (s\<lparr>ps_protocol := ''?''\<rparr>)
         else if linktype = 1 then
           if caplen < 14 then ok (s\<lparr>ps_protocol := ''ETH?''\<rparr>)
           else bindF (be16At data 12) (\<lambda>ethertype.
                if ethertype = 0x0806 then ok (s\<lparr>ps_protocol := ''ARP''\<rparr>)
                else if ethertype = 0x86DD then ok (s\<lparr>ps_protocol := ''IPv6''\<rparr>)
                else if ethertype \<noteq> 0x0800 then ok (s\<lparr>ps_protocol := ''0x'' @ hex_of_nat 4 ethertype\<rparr>)
                else summarize_ip data 14 s)
         else if linktype = 0 then
           if caplen < 4 then ok (s\<lparr>ps_protocol := ''NULL?''\<rparr>) else summarize_ip data 4 s
         else summarize_ip data 0 s)"

lemma byteAt_ok: "0 \<le> i \<Longrightarrow> i < int (length data) \<Longrightarrow> byteAt data i = ok (unat (data ! nat i))"
  by (simp add: byteAt_def nthF_def nat_less_iff)

lemma be16At_ok: "0 \<le> i \<Longrightarrow> i + 1 < int (length data) \<Longrightarrow> be16At data i = ok (256 * unat (data ! nat i) + unat (data ! nat (i + 1)))"
  by (simp add: be16At_def byteAt_ok)

lemma ipv4At_ok: "0 \<le> i \<Longrightarrow> i + 3 < int (length data) \<Longrightarrow> \<exists>t. ipv4At data i = ok t"
  by (simp add: ipv4At_def byteAt_ok)

lemma ports_info_ok: "0 \<le> i \<Longrightarrow> i + 4 \<le> int (length data) \<Longrightarrow> isOk (ports_info data i src dst)"
  by (simp add: ports_info_def be16At_ok)

lemma ip_inside:
  assumes off: "0 \<le> off"
  shows "isOk (summarize_ip data off s)"
proof (cases "int (length data) < off + 20")
  case False
  then obtain src dst where addr: "ipv4At data (off + 12) = ok src" "ipv4At data (off + 16) = ok dst"
    using off ipv4At_ok [of "off + 12" data] ipv4At_ok [of "off + 16" data] by auto
  have "0 \<le> int (unat (data ! nat off) mod 16) * 4" by simp
  with False off addr show ?thesis
    by (auto simp: summarize_ip_def Let_def byteAt_ok intro!: isOk_bindF ports_info_ok)
qed (simp add: summarize_ip_def)

text \<open>The packet decoder. Whatever was captured, on whatever kind of link, however short or wrong its headers: no
  byte beyond the capture is read.\<close>

theorem packet_reads_inside: "isOk (summarize data linktype)"
proof -
  show ?thesis by (auto simp: summarize_def Let_def be16At_ok ip_inside)
qed

section \<open>Subnets\<close>

definition parseIpv4 :: "string \<Rightarrow> u32 option" where
  "parseIpv4 s =
     (let parts = split_on CHR ''.'' s
      in if length parts \<noteq> 4 then None
         else fold (\<lambda>p v. case v of None \<Rightarrow> None
             | Some v \<Rightarrow> (case to_uint p of None \<Rightarrow> None | Some b \<Rightarrow> if b > 255 then None else Some (push_bit 8 v OR of_nat b))) parts (Some 0))"

definition formatIpv4 :: "u32 \<Rightarrow> string" where
  "formatIpv4 v =
     join_with ''.'' (map (\<lambda>n. dec_of_nat (unat (drop_bit n v AND 0xff))) [24, 16, 8, 0])"

text \<open>The two loops: to a last address that is excluded, and to one that is included.\<close>

function addresses :: "u32 \<Rightarrow> u32 \<Rightarrow> u32 list" where
  "addresses v last' = (if v < last' then v # addresses (v + 1) last' else [])"
  by auto
termination
proof (relation "measure (\<lambda>(v, last'). unat (last' - v))")
  fix v last' :: u32 assume "v < last'"
  then have "unat (last' - v - 1) < unat (last' - v)" by (intro measure_unat) auto
  then show "((v + 1, last'), v, last') \<in> measure (\<lambda>(v, last'). unat (last' - v))" by (simp add: diff_diff_eq)
qed simp

function addresses_to :: "u32 \<Rightarrow> u32 \<Rightarrow> u32 list" where
  "addresses_to v last' = v # (if v = last' then [] else addresses_to (v + 1) last')"
  by auto
termination
proof (relation "measure (\<lambda>(v, last'). unat (last' - v))")
  fix v last' :: u32 assume "v \<noteq> last'"
  then have "unat (last' - v - 1) < unat (last' - v)" by (intro measure_unat) auto
  then show "((v + 1, last'), v, last') \<in> measure (\<lambda>(v, last'). unat (last' - v))" by (simp add: diff_diff_eq)
qed simp

declare addresses.simps [simp del] addresses_to.simps [simp del]

definition net_mask :: "nat \<Rightarrow> u32" where
  "net_mask plen = (if plen = 0 then 0 else push_bit (32 - plen) 0xffffffff)"

definition subnet_hosts :: "string \<Rightarrow> string list" where
  "subnet_hosts cidr =
     (case index_of CHR ''/'' cidr of
        None \<Rightarrow> []
      | Some slash \<Rightarrow>
          (case parseIpv4 (take slash cidr) of
             None \<Rightarrow> []
           | Some base \<Rightarrow>
               (case to_int (drop (slash + 1) cidr) of
                  None \<Rightarrow> []
                | Some plen \<Rightarrow>
                    if plen < 16 \<or> plen > 32 then []
                    else let mask' = net_mask (nat plen); network = base AND mask'; broadcast' = network OR NOT mask'
                         in map formatIpv4 (if 31 \<le> plen then addresses_to network broadcast' else addresses (network + 1) broadcast'))))"

lemma set_addresses: "set (addresses v l) = {x. v \<le> x \<and> x < l} \<and> distinct (addresses v l)"
proof (induction v l rule: addresses.induct)
  case (1 v l)
  show ?case
  proof (cases "v < l")
    case True
    then have "unat v + 1 < 2 ^ 32" using unsigned_less [of l, where 'a = nat] by (simp add: word_less_nat_alt)
    then have "unat (v + 1) = unat v + 1" by (simp add: unat_word_ariths)
    then have next': "v + 1 \<le> x \<longleftrightarrow> v < x" for x by (simp add: word_le_nat_alt word_less_nat_alt Suc_le_eq)
    from 1 [OF True] have IH: "set (addresses (v + 1) l) = {x. v < x \<and> x < l}" "distinct (addresses (v + 1) l)"
      unfolding next' by simp_all
    have "addresses v l = v # addresses (v + 1) l" using True by (simp add: addresses.simps [of v l])
    then have "set (addresses v l) = insert v {x. v < x \<and> x < l}" "distinct (addresses v l)" using IH by simp_all
    moreover have "insert v {x. v < x \<and> x < l} = {x. v \<le> x \<and> x < l}" using True unfolding le_less by blast
    ultimately show ?thesis by simp
  next
    case False
    then have "addresses v l = []" by (simp add: addresses.simps [of v l])
    moreover have "{x. v \<le> x \<and> x < l} = {}" using False by (simp add: not_less) (metis leD order.trans)
    ultimately show ?thesis by simp
  qed
qed

lemma set_addresses_to:
  "v \<le> l \<Longrightarrow> set (addresses_to v l) = {x. v \<le> x \<and> x \<le> l} \<and> distinct (addresses_to v l)"
proof (induction v l rule: addresses_to.induct)
  case (1 v l)
  show ?case
  proof (cases "v = l")
    case True
    then have "addresses_to v l = [v]" by (simp add: addresses_to.simps [of l l])
    moreover have "{x. v \<le> x \<and> x \<le> l} = {v}" using True by (auto intro: order.antisym)
    ultimately show ?thesis by simp
  next
    case False
    then have lt: "v < l" using 1(2) by simp
    then have "unat v + 1 < 2 ^ 32" using unsigned_less [of l, where 'a = nat] by (simp add: word_less_nat_alt)
    then have "unat (v + 1) = unat v + 1" by (simp add: unat_word_ariths)
    then have next': "v + 1 \<le> x \<longleftrightarrow> v < x" for x by (simp add: word_le_nat_alt word_less_nat_alt Suc_le_eq)
    have "v + 1 \<le> l" unfolding next' by (rule lt)
    from 1(1) [OF False this] have IH: "set (addresses_to (v + 1) l) = {x. v < x \<and> x \<le> l}" "distinct (addresses_to (v + 1) l)"
      unfolding next' by simp_all
    have "addresses_to v l = v # addresses_to (v + 1) l" using False by (simp add: addresses_to.simps [of v l])
    then have "set (addresses_to v l) = insert v {x. v < x \<and> x \<le> l}" "distinct (addresses_to v l)" using IH by simp_all
    moreover have "insert v {x. v < x \<and> x \<le> l} = {x. v \<le> x \<and> x \<le> l}" using 1(2) unfolding le_less by blast
    ultimately show ?thesis by simp
  qed
qed

text \<open>The network of an address: the addresses with its upper bits lie between its own address and its broadcast
  address.\<close>

definition same_network :: "nat \<Rightarrow> u32 \<Rightarrow> u32 \<Rightarrow> bool" where
  "same_network plen v w \<longleftrightarrow> v AND net_mask plen = w AND net_mask plen"

lemma network_bounds:
  fixes base :: u32
  assumes "0 < plen" and "plen \<le> 32"
  defines "network \<equiv> base AND net_mask plen" and "bcast \<equiv> (base AND net_mask plen) OR NOT (net_mask plen)"
  shows "same_network plen x base \<longleftrightarrow> network \<le> x \<and> x \<le> bcast" "network \<le> bcast"
proof -
  define k where "k = 32 - plen"
  have k: "k < 32" using assms(1) by (simp add: k_def)
  have "(0xffffffff :: u32) = - 1" by simp
  then have m: "net_mask plen = NOT (mask k)" using assms(1) by (simp only: net_mask_def k_def push_bit_minus_one_eq_not_mask) simp
  have high: "drop_bit k (v AND net_mask plen) = drop_bit k v" for v :: u32
    by (rule bit_eqI) (auto simp: m bit_simps dest: bit_imp_le_length)
  have "v AND net_mask plen = w AND net_mask plen \<longleftrightarrow> drop_bit k v = drop_bit k w" for v w :: u32
  proof
    show "v AND net_mask plen = w AND net_mask plen \<Longrightarrow> drop_bit k v = drop_bit k w" using high by metis
    assume eq: "drop_bit k v = drop_bit k w"
    show "v AND net_mask plen = w AND net_mask plen"
    proof (rule bit_eqI)
      fix n assume "possible_bit TYPE(u32) n"
      have "bit v n = bit w n" if "k \<le> n" using arg_cong [OF eq, of "\<lambda>u. bit u (n - k)"] that by (simp add: bit_simps)
      then show "bit (v AND net_mask plen) n = bit (w AND net_mask plen) n" by (auto simp: m bit_simps)
    qed
  qed
  moreover have un: "unat (drop_bit k v) = unat v div 2 ^ k" for v :: u32
  proof -
    have "unat (drop_bit k v) = drop_bit k (take_bit LENGTH(32) (unat v))" by (rule unsigned_drop_bit_eq)
    then show ?thesis using unsigned_less [of v, where 'a = nat] by (simp add: drop_bit_eq_div take_bit_nat_eq_self)
  qed
  ultimately have same: "same_network plen x base \<longleftrightarrow> unat x div 2 ^ k = unat base div 2 ^ k"
    by (simp add: same_network_def word_unat_eq_iff un)
  have dropped: "unat v = 2 ^ k * (unat base div 2 ^ k) + unat (take_bit k v)" if "drop_bit k v = drop_bit k base" for v :: u32
  proof -
    have "unat v div 2 ^ k = unat base div 2 ^ k" using arg_cong [OF that, of unat] by (simp add: un)
    moreover have "unat (take_bit k v) = take_bit k (unat v)" by (rule unsigned_take_bit_eq)
    then have "unat (take_bit k v) = unat v mod 2 ^ k" by (simp only: take_bit_eq_mod)
    ultimately show ?thesis by (metis mult_div_mod_eq)
  qed
  have "take_bit k network = 0" unfolding network_def by (rule bit_eqI) (auto simp: m bit_simps)
  then have net: "unat network = 2 ^ k * (unat base div 2 ^ k)" using dropped [of network] high by (simp add: network_def)
  have "drop_bit k bcast = drop_bit k base" unfolding bcast_def by (rule bit_eqI) (auto simp: m bit_simps dest: bit_imp_le_length)
  moreover have "take_bit k bcast = mask k" unfolding bcast_def by (rule bit_eqI) (auto simp: m bit_simps)
  moreover have "unat (mask k :: u32) = 2 ^ k - 1"
  proof -
    have "unat (take_bit k (- 1) :: u32) = take_bit k (unat (- 1 :: u32))" by (rule unsigned_take_bit_eq)
    moreover have "unat (- 1 :: u32) = mask 32" using unsigned_minus_1_eq_mask [where ?'a = nat and ?'b = 32] by simp
    moreover have "take_bit k (mask 32 :: nat) = mask k" using k by (intro bit_eqI) (auto simp: bit_simps)
    ultimately show ?thesis by (simp only: take_bit_minus_one_eq_mask mask_eq_exp_minus_1)
  qed
  ultimately have bc: "unat bcast = 2 ^ k * (unat base div 2 ^ k) + (2 ^ k - 1)" using dropped [of bcast] by simp
  show "network \<le> bcast" unfolding word_le_nat_alt net bc by (rule le_add1)
  have "y div 2 ^ k = q \<longleftrightarrow> 2 ^ k * q \<le> y \<and> y \<le> 2 ^ k * q + (2 ^ k - 1)" for y q :: nat
  proof -
    define b :: nat where "b = 2 ^ k"
    have "0 < b" by (simp add: b_def)
    then have "y div b = q \<longleftrightarrow> b * q \<le> y \<and> y < b * q + b"
    proof -
      have "y < b * (y div b) + b" "b * (y div b) \<le> y" using mult_div_mod_eq [of b y] mod_less_divisor [OF \<open>0 < b\<close>, of y] by linarith+
      then show ?thesis using div_nat_eqI [of b q y] by (auto simp: algebra_simps)
    qed
    moreover have "y < b * q + b \<longleftrightarrow> y \<le> b * q + (b - 1)" using \<open>0 < b\<close> by linarith
    ultimately show ?thesis by (simp add: b_def)
  qed
  then show "same_network plen x base \<longleftrightarrow> network \<le> x \<and> x \<le> bcast" by (simp add: same word_le_nat_alt net bc)
qed

lemma subnet_addresses:
  assumes "parseIpv4 addr = Some base" and "CHR ''/'' \<notin> set addr" and "16 \<le> plen" and "plen \<le> 32"
  shows "\<exists>vs. subnet_hosts (addr @ ''/'' @ dec_of_nat plen) = map formatIpv4 vs \<and> distinct vs \<and>
     set vs = {v. same_network plen v base \<and>
       (plen < 31 \<longrightarrow> v \<noteq> base AND net_mask plen \<and> v \<noteq> base AND net_mask plen OR NOT (net_mask plen))}"
proof -
  define lo where "lo = base AND net_mask plen"
  define hi where "hi = lo OR NOT (net_mask plen)"
  have same: "same_network plen v base \<longleftrightarrow> lo \<le> v \<and> v \<le> hi" and le: "lo \<le> hi" for v
    using network_bounds(1) [of plen v base] network_bounds(2) [of plen base] assms(3,4) by (simp_all add: lo_def hi_def)
  have hosts: "subnet_hosts (addr @ ''/'' @ dec_of_nat plen) = map formatIpv4 (if 31 \<le> plen then addresses_to lo hi else addresses (lo + 1) hi)"
    using assms to_int_dec_of_nat [of plen] by (simp add: subnet_hosts_def lo_def hi_def Let_def)
  show ?thesis
  proof (cases "31 \<le> plen")
    case True
    then show ?thesis using hosts set_addresses_to [OF le] same by (intro exI [of _ "addresses_to lo hi"]) auto
  next
    case False
    have "same_network plen lo base" "same_network plen hi base" using same le by simp_all
    have "lo \<noteq> hi"
    proof
      assume "lo = hi"
      then have "bit lo 0 \<longleftrightarrow> bit lo 0 \<or> \<not> bit (net_mask plen) 0" by (metis bit_not_iff bit_or_iff hi_def bit_imp_possible_bit possible_bit_word possible_bit_0)
      moreover have "\<not> bit (net_mask plen) 0" using False assms(3) by (auto simp: net_mask_def bit_simps)
      ultimately show False by (simp add: lo_def bit_simps)
    qed
    then have "lo < hi" using le by simp
    then have "unat lo + 1 < 2 ^ 32" using unsigned_less [of hi, where 'a = nat] by (simp add: word_less_nat_alt)
    then have "unat (lo + 1) = unat lo + 1" by (simp add: unat_word_ariths)
    then have "lo + 1 \<le> v \<longleftrightarrow> lo < v" for v by (simp add: word_le_nat_alt word_less_nat_alt Suc_le_eq)
    then have "set (addresses (lo + 1) hi) = {v. lo < v \<and> v < hi}" using set_addresses [of "lo + 1" hi] by simp
    moreover have "{v. lo < v \<and> v < hi} = {v. same_network plen v base \<and> v \<noteq> lo \<and> v \<noteq> hi}" by (auto simp: same order.strict_iff_order)
    ultimately show ?thesis using False hosts set_addresses [of "lo + 1" hi]
      by (intro exI [of _ "addresses (lo + 1) hi"]) (simp add: lo_def [symmetric] hi_def [symmetric])
  qed
qed

text \<open>The text of an address: its four bytes in decimal, the highest first. The program writes it, and reads it back.\<close>

definition address_text :: "u32 \<Rightarrow> string" where
  "address_text v = join_with ''.'' (map dec_of_nat
     [unat v div 2 ^ 24, unat v div 2 ^ 16 mod 256, unat v div 2 ^ 8 mod 256, unat v mod 256])"

lemma unat_byte: "unat (drop_bit n (v :: u32) AND 0xff) = unat v div 2 ^ n mod 256"
proof -
  have m: "(0xff :: u32) = mask 8" by (simp add: mask_eq_exp_minus_1)
  have "unat (drop_bit n v AND 0xff) = take_bit 8 (unat (drop_bit n v))"
    unfolding m by (simp only: take_bit_eq_mask [symmetric] unsigned_take_bit_eq)
  moreover have "unat (drop_bit n v) = unat v div 2 ^ n"
  proof -
    have "unat (drop_bit n v) = drop_bit n (take_bit LENGTH(32) (unat v))" by (rule unsigned_drop_bit_eq)
    then show ?thesis using unsigned_less [of v, where 'a = nat] by (simp add: drop_bit_eq_div take_bit_nat_eq_self)
  qed
  ultimately show ?thesis by (simp add: take_bit_eq_mod)
qed

lemma formatIpv4_text: "formatIpv4 v = address_text v"
proof -
  have "unat v < 2 ^ 32" using unsigned_less [of v, where 'a = nat] by simp
  then have "unat v div 2 ^ 24 mod 256 = unat v div 2 ^ 24"
    by (intro mod_less) (simp add: less_mult_imp_div_less)
  then have "unat (drop_bit 24 v AND 0xff) = unat v div 2 ^ 24" using unat_byte [of 24 v] by simp
  moreover have "unat (drop_bit 0 v AND 0xff) = unat v mod 256" using unat_byte [of 0 v] by simp
  ultimately show ?thesis
    by (simp add: formatIpv4_def address_text_def unat_byte del: drop_bit_0)
qed

lemma bytes_join:
  "push_bit 8 (push_bit 8 (push_bit 8 (push_bit 8 0 OR (drop_bit 24 v AND 0xff)) OR (drop_bit 16 v AND 0xff)) OR
     (drop_bit 8 v AND 0xff)) OR (drop_bit 0 v AND 0xff) = (v :: u32)" (is "?w = v")
proof (rule bit_word_eqI)
  fix n assume n: "n < LENGTH(32)"
  have m: "(0xff :: u32) = mask 8" by (simp add: mask_eq_exp_minus_1)
  consider "n < 8" | "8 \<le> n" "n < 16" | "16 \<le> n" "n < 24" | "24 \<le> n" by linarith
  then show "bit ?w n = bit v n"
    using n by cases (auto simp: m bit_simps)
qed

lemma to_uint_dec:
  assumes "n < 2 ^ 32"
  shows "to_uint (dec_of_nat n) = Some n"
proof -
  obtain c cs where d: "dec_of_nat n = c # cs" by (meson dec_of_nat_nonempty neq_Nil_conv)
  then have "is_digit c" by (metis dec_of_nat_digits list.set_intros(1))
  then have "c \<noteq> CHR ''+''" by (auto simp: is_digit_def)
  then show ?thesis
    using assms d nat_of_dec_dec [of n] trimmed_dec [of n] by (simp add: to_uint_def)
qed

lemma dec_no_dot: "CHR ''.'' \<notin> set (dec_of_nat n)"
  using dec_of_nat_digits [of "CHR ''.''" n] by (auto simp: is_digit_def)

lemma parse_address_text: "parseIpv4 (address_text v) = Some v"
proof -
  let ?b = "\<lambda>n. unat (drop_bit n v AND 0xff)"
  let ?f = "\<lambda>p w. case w of None \<Rightarrow> None
             | Some w \<Rightarrow> (case to_uint p of None \<Rightarrow> None | Some b \<Rightarrow> if b > 255 then None else Some (push_bit 8 w OR of_nat b))"
  have "?b n < 256" for n by (simp add: unat_byte)
  then have u: "to_uint (dec_of_nat (?b n)) = Some (?b n)" "\<not> 255 < ?b n" for n
    using to_uint_dec [of "?b n"] by (simp_all add: less_trans [of _ 256] not_less less_Suc_eq_le [symmetric])
  have step: "?f (dec_of_nat (?b n)) (Some w) = Some (push_bit 8 w OR (drop_bit n v AND 0xff))" for n and w :: u32
    by (simp only: option.case u if_False of_nat_unat ucast_id)
  have parts: "split_on CHR ''.'' (address_text v) = map (\<lambda>n. dec_of_nat (?b n)) [24, 16, 8, 0]"
    unfolding formatIpv4_text [symmetric] by (simp add: formatIpv4_def dec_no_dot)
  have len: "length (map (\<lambda>n. dec_of_nat (?b n)) [24, 16, 8, 0]) = 4" by simp
  show ?thesis
    unfolding parseIpv4_def parts Let_def len
    by (simp only: list.map fold_simps step bytes_join simp_thms if_False not_True_eq_False)
qed

text \<open>C35: the hosts of a subnet of at least 16 bits. The scanner probes every address of the network, each once: all but
  the network's own and the broadcast address, or simply all when there are no more than two. What it is given are the
  texts of these addresses, four decimal bytes with the highest first, all different, and each reads back as its address.
  (For a prefix below 16 the list is empty.)\<close>

theorem subnet_hosts_exact:
  assumes "parseIpv4 addr = Some base" and "CHR ''/'' \<notin> set addr" and "16 \<le> plen" and "plen \<le> 32"
  shows "\<exists>vs. subnet_hosts (addr @ ''/'' @ dec_of_nat plen) = map address_text vs \<and>
     map parseIpv4 (subnet_hosts (addr @ ''/'' @ dec_of_nat plen)) = map Some vs \<and>
     distinct (subnet_hosts (addr @ ''/'' @ dec_of_nat plen)) \<and>
     set vs = {v. same_network plen v base \<and>
       (plen < 31 \<longrightarrow> v \<noteq> base AND net_mask plen \<and> v \<noteq> base AND net_mask plen OR NOT (net_mask plen))}"
proof -
  from subnet_addresses [OF assms] obtain vs where vs: "subnet_hosts (addr @ ''/'' @ dec_of_nat plen) = map formatIpv4 vs"
    "distinct vs" "set vs = {v. same_network plen v base \<and>
       (plen < 31 \<longrightarrow> v \<noteq> base AND net_mask plen \<and> v \<noteq> base AND net_mask plen OR NOT (net_mask plen))}" by blast
  then have texts: "subnet_hosts (addr @ ''/'' @ dec_of_nat plen) = map address_text vs"
    using formatIpv4_text by (simp cong: map_cong)
  moreover have "inj_on address_text (set vs)" by (rule inj_onI) (metis parse_address_text option.inject)
  ultimately show ?thesis using vs(2,3)
    by (intro exI [of _ vs]) (simp add: distinct_map parse_address_text comp_def)
qed

theorem subnet_hosts_exact_witness:
  "set (subnet_hosts ''10.0.0.9/30'') = {''10.0.0.9'', ''10.0.0.10''} \<and> distinct (subnet_hosts ''10.0.0.9/30'')"
proof -
  have base: "parseIpv4 ''10.0.0.9'' = Some 0x0a000009"
    by (simp add: parseIpv4_def to_uint_def trimmed_def is_space_def nat_of_dec_def is_digit_def digit_val_def)
  have thirty: "dec_of_nat 30 = ''30''" by code_simp
  have m: "net_mask 30 = 0xfffffffc" by (simp add: net_mask_def)
  have hi: "(- 4127195125 :: u32) = 0x0a00000b" by simp
  from subnet_hosts_exact [OF base, of 30] obtain vs where vs: "subnet_hosts ''10.0.0.9/30'' = map address_text vs" "distinct (subnet_hosts ''10.0.0.9/30'')"
    "set vs = {v. same_network 30 v 0x0a000009 \<and> v \<noteq> 0x0a000008 \<and> v \<noteq> 0x0a00000b}" by (auto simp: thirty m hi)
  have "same_network 30 v 0x0a000009 \<longleftrightarrow> 0x0a000008 \<le> v \<and> v \<le> 0x0a00000b" for v
    using network_bounds(1) [of 30 v "0x0a000009"] by (simp add: m hi)
  then have "set vs = set (addresses_to 0x0a000008 0x0a00000b) - {0x0a000008, 0x0a00000b}" using vs(3) set_addresses_to [of "0x0a000008" "0x0a00000b"] by auto
  also have "\<dots> = {0x0a000009, 0x0a00000a}" by (auto simp: addresses_to.simps)
  finally have "set vs = {0x0a000009, 0x0a00000a}" .
  moreover have "dec_of_nat 0 = ''0''" "dec_of_nat 9 = ''9''" "dec_of_nat 10 = ''10''" by code_simp+
  then have "address_text 0x0a000009 = ''10.0.0.9''" "address_text 0x0a00000a = ''10.0.0.10''" by (simp_all add: address_text_def)
  ultimately show ?thesis using vs(1,2) by simp
qed

section \<open>Capturing\<close>

text \<open>What the capture library answers to a wait: a packet, nothing in time, or an error; \<open>Halt\<close> is the moment the user
  stops the capture. What the window is told is a list.\<close>

datatype capture_answer = Packet bytes | Nothing | Broken | Halt

datatype capture_signal = Captured PacketSummary | CaptureFailed string

fun capture_wait :: "int \<Rightarrow> capture_answer list \<Rightarrow> fault + capture_signal list" where
  "capture_wait link [] = ok []"
| "capture_wait link (Packet d # as) = bindF (summarize d link) (\<lambda>s. bindF (capture_wait link as) (\<lambda>gs. ok (Captured s # gs)))"
| "capture_wait link (Nothing # as) = capture_wait link as"
| "capture_wait link (Broken # as) = ok []"
| "capture_wait link (Halt # as) = ok []"

text \<open>\<open>opened\<close>: why the interface could not be opened, or its kind of link; \<open>compiled\<close>: why the filter is wrong.\<close>

definition captureLoop :: "string \<Rightarrow> string \<Rightarrow> string + int \<Rightarrow> string option \<Rightarrow> capture_answer list \<Rightarrow> fault + capture_signal list" where
  "captureLoop iface bpf opened compiled answers =
     (case opened of
        Inl why \<Rightarrow> ok [CaptureFailed (''Cannot open '' @ iface @ '': '' @ why)]
      | Inr link \<Rightarrow>
          bindF (capture_wait link answers) (\<lambda>gs.
          ok ((if bpf \<noteq> [] then case compiled of None \<Rightarrow> [] | Some why \<Rightarrow> [CaptureFailed (''Bad filter: '' @ why)] else []) @ gs)))"

lemma capture_safe: "isOk (captureLoop iface bpf opened compiled answers)"
proof -
  have "isOk (summarize d l)" for d l by (auto simp: summarize_def Let_def be16At_ok ip_inside)
  then have "isOk (capture_wait l as)" for l as by (induction l as rule: capture_wait.induct) (auto intro!: isOk_bindF)
  then show ?thesis by (auto simp: captureLoop_def intro!: isOk_bindF split: sum.split)
qed

section \<open>Ports\<close>

function scanRange :: "(u16 \<Rightarrow> bool) \<Rightarrow> u16 \<Rightarrow> u16 \<Rightarrow> u16 list" where
  "scanRange opens p last' =
     (if p \<le> last' then (if opens p then [p] else []) @ (if p = last' then [] else scanRange opens (p + 1) last') else [])"
  by auto
termination
proof (relation "measure (\<lambda>(opens, p, last'). unat (last' - p))")
  fix opens :: "u16 \<Rightarrow> bool" and p last' :: u16 assume "p \<noteq> last'"
  then have "unat (last' - p - 1) < unat (last' - p)" by (intro measure_unat) auto
  then show "((opens, p + 1, last'), opens, p, last') \<in> measure (\<lambda>(opens, p, last'). unat (last' - p))" by (simp add: diff_diff_eq)
qed simp

declare scanRange.simps [simp del]

text \<open>The scan ends, also at the highest port, and finds the open ports of the range, each once.\<close>

lemma scan_exact: "set (scanRange opens p l) = {q. p \<le> q \<and> q \<le> l \<and> opens q} \<and> distinct (scanRange opens p l)"
proof (induction opens p l rule: scanRange.induct)
  case (1 opens p l)
  consider "\<not> p \<le> l" | "p = l" | "p < l" by fastforce
  then show ?case
  proof cases
    case 1
    then have "{q. p \<le> q \<and> q \<le> l \<and> opens q} = {}" using order.trans [of p _ l] by blast
    then show ?thesis using 1 by (simp add: scanRange.simps [of opens p l])
  next
    case 2
    then show ?thesis by (auto simp: scanRange.simps [of opens l l])
  next
    case 3
    then have "unat p + 1 < 2 ^ 16" using unsigned_less [of l, where 'a = nat] by (simp add: word_less_nat_alt)
    then have "unat (p + 1) = unat p + 1" by (simp add: unat_word_ariths)
    then have next': "p + 1 \<le> q \<longleftrightarrow> p < q" for q by (simp add: word_le_nat_alt word_less_nat_alt Suc_le_eq)
    have "p \<le> l" "p \<noteq> l" using 3 by auto
    from "1.IH" [OF this] have IH: "set (scanRange opens (p + 1) l) = {q. p < q \<and> q \<le> l \<and> opens q}" "distinct (scanRange opens (p + 1) l)"
      unfolding next' by simp_all
    have "scanRange opens p l = (if opens p then [p] else []) @ scanRange opens (p + 1) l"
      using \<open>p \<le> l\<close> \<open>p \<noteq> l\<close> by (simp add: scanRange.simps [of opens p l])
    then have "set (scanRange opens p l) = {q. (q = p \<or> p < q) \<and> q \<le> l \<and> opens q}" "distinct (scanRange opens p l)"
      using IH \<open>p \<le> l\<close> by auto
    moreover have "(q = p \<or> p < q) \<longleftrightarrow> p \<le> q" for q by auto
    ultimately show ?thesis by simp
  qed
qed

section \<open>Folders\<close>

datatype diff_kind = OnlyLeft | OnlyRight | Differ | Same

text \<open>A file that cannot be opened has no content.\<close>

function same_chunks :: "bytes \<Rightarrow> bytes \<Rightarrow> bool" where
  "same_chunks a b =
     (if a = [] then True else if take 65536 a \<noteq> take 65536 b then False else same_chunks (drop 65536 a) (drop 65536 b))"
  by auto
termination
  by (relation "measure (\<lambda>(a, b). length a)") auto

declare same_chunks.simps [simp del]

definition sameContent :: "bytes option \<Rightarrow> bytes option \<Rightarrow> bool" where
  "sameContent a b =
     (case (a, b) of (Some x, Some y) \<Rightarrow> if length x \<noteq> length y then False else same_chunks x y | _ \<Rightarrow> False)"

definition folder_compare :: "string list \<Rightarrow> string list \<Rightarrow> (string \<Rightarrow> bytes option) \<Rightarrow> (string \<Rightarrow> bytes option) \<Rightarrow> (string \<times> diff_kind) list" where
  "folder_compare left' right' lfile rfile =
     map (\<lambda>p. (p, if p \<in> set left' \<and> p \<notin> set right' then OnlyLeft
                  else if p \<notin> set left' \<and> p \<in> set right' then OnlyRight
                  else if sameContent (lfile p) (rfile p) then Same else Differ))
       (sort (remdups (left' @ right')))"

lemma same_chunks_iff: "length a = length b \<Longrightarrow> same_chunks a b \<longleftrightarrow> a = b"
proof (induction a b rule: same_chunks.induct)
  case (1 a b)
  have split: "a = b \<longleftrightarrow> take 65536 a = take 65536 b \<and> drop 65536 a = drop 65536 b" by (metis append_take_drop_id)
  show ?case
  proof (cases "a = [] \<or> take 65536 a \<noteq> take 65536 b")
    case True
    then show ?thesis using 1(2) split by (auto simp: same_chunks.simps [of a b])
  next
    case False
    then have "same_chunks (drop 65536 a) (drop 65536 b) \<longleftrightarrow> drop 65536 a = drop 65536 b" using 1 by (simp add: 1(1))
    then show ?thesis using False split by (simp add: same_chunks.simps [of a b])
  qed
qed

text \<open>Every file of either side is listed once, in order, and called the same exactly if both sides have it, readable
  and with the same bytes.\<close>

lemma folder_compare_exact:
  "map fst (folder_compare L R f g) = sorted_list_of_set (set L \<union> set R)"
  "(p, k) \<in> set (folder_compare L R f g) \<Longrightarrow>
     (k = OnlyLeft \<longleftrightarrow> p \<in> set L - set R) \<and> (k = OnlyRight \<longleftrightarrow> p \<in> set R - set L) \<and>
     (k = Same \<longleftrightarrow> p \<in> set L \<inter> set R \<and> f p \<noteq> None \<and> f p = g p)"
proof -
  have "map fst (folder_compare L R f g) = sort (remdups (L @ R))" by (simp add: folder_compare_def comp_def)
  then show "map fst (folder_compare L R f g) = sorted_list_of_set (set L \<union> set R)"
    using sorted_list_of_set_sort_remdups [of "L @ R"] by simp
  have same: "sameContent x y \<longleftrightarrow> x \<noteq> None \<and> x = y" for x y
    by (cases x; cases y) (auto simp: sameContent_def same_chunks_iff)
  show "(p, k) \<in> set (folder_compare L R f g) \<Longrightarrow>
     (k = OnlyLeft \<longleftrightarrow> p \<in> set L - set R) \<and> (k = OnlyRight \<longleftrightarrow> p \<in> set R - set L) \<and>
     (k = Same \<longleftrightarrow> p \<in> set L \<inter> set R \<and> f p \<noteq> None \<and> f p = g p)"
    unfolding folder_compare_def same by (simp add: image_iff) (elim conjE, simp split: if_splits, auto)
qed

section \<open>Signed requests\<close>

text \<open>\<open>hmac\<close> and \<open>sha\<close>: HMAC-SHA-256 and SHA-256 of the OpenSSL library; \<open>utf8\<close>: the encoding of a text.\<close>

record sig_lib =
  sg_hmac :: "bytes \<Rightarrow> bytes \<Rightarrow> bytes"
  sg_sha :: "bytes \<Rightarrow> bytes"
  sg_utf8 :: "string \<Rightarrow> bytes"

definition hex_text :: "bytes \<Rightarrow> string" where
  "hex_text b = concat (map (\<lambda>x. hex_of_nat 2 (unat x)) b)"

definition sha256Hex :: "sig_lib \<Rightarrow> bytes \<Rightarrow> string" where
  "sha256Hex l d = hex_text (sg_sha l d)"

definition signingKey :: "sig_lib \<Rightarrow> string \<Rightarrow> string \<Rightarrow> string \<Rightarrow> string \<Rightarrow> bytes" where
  "signingKey l secretKey dateStamp region service =
     (let kSecret = sg_utf8 l (''AWS4'' @ secretKey);
          kDate = sg_hmac l kSecret (sg_utf8 l dateStamp);
          kRegion = sg_hmac l kDate (sg_utf8 l region);
          kService = sg_hmac l kRegion (sg_utf8 l service)
      in sg_hmac l kService (to_latin1 ''aws4_request''))"

definition aws_sign :: "sig_lib \<Rightarrow> string \<Rightarrow> string \<Rightarrow> string \<Rightarrow> string \<Rightarrow> string \<Rightarrow> string" where
  "aws_sign l secretKey dateStamp region service stringToSign =
     hex_text (sg_hmac l (signingKey l secretKey dateStamp region service) (sg_utf8 l stringToSign))"

record SignedRequest =
  sr_url :: string
  sr_authorization :: string
  sr_amzDate :: string

definition nl :: string where "nl = [char_of (10 :: nat)]"

definition buildListRequest :: "sig_lib \<Rightarrow> string \<Rightarrow> string \<Rightarrow> string \<Rightarrow> string \<Rightarrow> string \<Rightarrow> SignedRequest" where
  "buildListRequest l accessKey secretKey region bucket amzDate =
     (let dateStamp = take 8 amzDate;
          host = bucket @ ''.s3.'' @ region @ ''.amazonaws.com'';
          payloadHash = sha256Hex l [];
          query = ''list-type=2'';
          headers = ''host:'' @ host @ nl @ ''x-amz-content-sha256:'' @ payloadHash @ nl @ ''x-amz-date:'' @ amzDate @ nl;
          signedHeaders = ''host;x-amz-content-sha256;x-amz-date'';
          request = join_with nl [''GET'', ''/'', query, headers, signedHeaders, payloadHash];
          scope = dateStamp @ ''/'' @ region @ ''/s3/aws4_request'';
          stringToSign = join_with nl [''AWS4-HMAC-SHA256'', amzDate, scope, sha256Hex l (sg_utf8 l request)];
          signature = aws_sign l secretKey dateStamp region ''s3'' stringToSign
      in \<lparr>sr_url = ''https://'' @ host @ ''/?'' @ query,
          sr_authorization = ''AWS4-HMAC-SHA256 Credential='' @ accessKey @ ''/'' @ scope @ '', SignedHeaders='' @ signedHeaders @ '', Signature='' @ signature,
          sr_amzDate = amzDate\<rparr>)"

text \<open>What \<open>listBucket\<close> sends, whatever the time is.\<close>

definition list_request :: "sig_lib \<Rightarrow> string \<Rightarrow> string \<Rightarrow> string \<Rightarrow> string \<Rightarrow> SignedRequest" where
  "list_request l accessKey secretKey region bucket = buildListRequest l accessKey secretKey region bucket ''20200101T000000Z''"

lemma request_of_2020: "sr_amzDate (list_request l a k r b) = ''20200101T000000Z''"
  by (simp add: list_request_def buildListRequest_def Let_def)

end
