(* ===== verification/Session_Dialog.thy ===== *)
theory Session_Dialog
  imports Session_Form
begin

text \<open>
  The session editor, \<open>src/src/ui/SessionDialog.{h,cpp}\<close>: what its widgets hold, filling them from a session, reading a
  session from them, and the check of the \<open>OK\<close> button. Widgets keep what Qt's documentation says they keep: a line of
  text at most 32767 characters, a spin box a number of its range, a list one of its items. Texts outside Latin-1 are
  written as the bytes of UTF-8.
\<close>

section \<open>Widgets\<close>

definition line_edit :: "string \<Rightarrow> string" where
  "line_edit s = take 32767 s"

definition spin :: "int \<Rightarrow> int \<Rightarrow> int \<Rightarrow> int" where
  "spin lo hi v = (if v < lo then lo else if hi < v then hi else v)"

text \<open>The types the list offers.\<close>

definition offered_types :: "SessionType list" where
  "offered_types = [Ssh, Telnet, Serial, Mosh, Rdp, Vnc, Rsh, Rlogin, Xdmcp, Ftp, S3, Browser, Shell]"

definition utf8 :: "nat list \<Rightarrow> string" where
  "utf8 = map char_of"

definition offered_icons :: "string list" where
  "offered_icons =
     [utf8 [0xf0, 0x9f, 0x94, 0x91], utf8 [0xf0, 0x9f, 0x96, 0xa5, 0xef, 0xb8, 0x8f], utf8 [0xf0, 0x9f, 0x8c, 0x90],
      utf8 [0xf0, 0x9f, 0x93, 0x81], utf8 [0xe2, 0xad, 0x90], utf8 [0xf0, 0x9f, 0x90, 0x9a], utf8 [0xf0, 0x9f, 0x94, 0x92],
      utf8 [0xf0, 0x9f, 0xa7, 0xaa]]"

definition default_icon :: string where
  "default_icon = ''(default for type)''"

text \<open>The sign between width and height.\<close>

definition cross :: char where
  "cross = char_of (0xd7 :: nat)"

definition resolution :: "string \<Rightarrow> string \<Rightarrow> string" where
  "resolution w h = w @ [cross] @ h"

definition resolutions :: "string list" where
  "resolutions =
     [''Default'', resolution ''1920'' ''1080'', resolution ''1600'' ''900'', resolution ''1440'' ''900'', resolution ''1366'' ''768'',
      resolution ''1280'' ''1024'', resolution ''1280'' ''800'', resolution ''1024'' ''768'']"

definition schemes :: "string list" where
  "schemes = [''Dark'', ''Light'', ''Solarized Dark'']"

record session_dialog =
  d_name :: string
  d_type :: string
  d_host :: string
  d_port :: int
  d_user :: string
  d_password :: string
  d_keyfile :: string
  d_passphrase :: string
  d_gateway :: string
  d_shell :: string
  d_folder :: string
  d_icon :: string
  d_compression :: bool
  d_x11 :: bool
  d_agent :: bool
  d_agentForward :: bool
  d_sshKeepalive :: int
  d_sshRemoteCmd :: string
  d_sshStayOpen :: bool
  d_gwUser :: string
  d_gwPassword :: string
  d_gwPassphrase :: string
  d_domain :: string
  d_rdpResolution :: string
  d_rdpClipboard :: bool
  d_rdpDrives :: bool
  d_rdpAudio :: bool
  d_rdpNla :: bool
  d_rdpIgnoreCert :: bool
  d_vncViewOnly :: bool
  d_termFont :: string
  d_termFontSize :: int
  d_termScheme :: string
  d_termScrollback :: int
  d_termBackspace :: string

definition new_dialog :: session_dialog where
  "new_dialog =
     \<lparr>d_name = [], d_type = ''SSH'', d_host = [], d_port = 0, d_user = [], d_password = [], d_keyfile = [], d_passphrase = [],
      d_gateway = [], d_shell = [], d_folder = [], d_icon = [], d_compression = False, d_x11 = True, d_agent = False,
      d_agentForward = False, d_sshKeepalive = 0, d_sshRemoteCmd = [], d_sshStayOpen = False, d_gwUser = [], d_gwPassword = [],
      d_gwPassphrase = [], d_domain = [], d_rdpResolution = ''Default'', d_rdpClipboard = True, d_rdpDrives = False,
      d_rdpAudio = False, d_rdpNla = True, d_rdpIgnoreCert = False, d_vncViewOnly = False, d_termFont = [], d_termFontSize = 0,
      d_termScheme = [], d_termScrollback = -1, d_termBackspace = []\<rparr>"

section \<open>From a session to the widgets\<close>

text \<open>A list that can only show its items stays where it is when the text is not among them; the list of icons gets a
  new item, unless the text is the one that stands for none.\<close>

definition pick :: "string list \<Rightarrow> string \<Rightarrow> string \<Rightarrow> string" where
  "pick items now t = (if t \<in> set items then t else now)"

definition pick_icon :: "string \<Rightarrow> string" where
  "pick_icon ic = (if ic \<in> set offered_icons then ic else if ic = default_icon then [] else ic)"

definition setSession :: "Session \<Rightarrow> session_dialog \<Rightarrow> session_dialog" where
  "setSession s d =
     (let f = fromSession s;
          w = param s ''width''; h = param s ''height'';
          sc = param s ''term.scheme'';
          sb = param s ''term.scrollback''
      in \<lparr>d_name = line_edit (field f ''name''),
          d_type = pick (map sessionTypeToString offered_types) (d_type d) (field f ''type''),
          d_host = line_edit (field f ''host''),
          d_port = spin 0 65535 (to_int0 (field f ''port'')),
          d_user = line_edit (field f ''username''),
          d_password = line_edit (param s ''password''),
          d_keyfile = line_edit (param s ''keyfile''),
          d_passphrase = line_edit (param s ''passphrase''),
          d_gateway = line_edit (param s ''gateway''),
          d_shell = line_edit (param s ''shell''),
          d_folder = line_edit (param s ''folder''),
          d_icon = pick_icon (param s ''icon''),
          d_compression = (param s ''compression'' = ''1''),
          d_x11 = (param_def s ''x11'' ''1'' \<noteq> ''0''),
          d_agent = (param s ''agent'' = ''1''),
          d_agentForward = (param s ''agentforward'' = ''1''),
          d_sshKeepalive = spin 0 86400 (to_int0 (param s ''keepalive'')),
          d_sshRemoteCmd = line_edit (param s ''remotecommand''),
          d_sshStayOpen = (param s ''stayopen'' = ''1''),
          d_gwUser = line_edit (param s ''gateway_user''),
          d_gwPassword = line_edit (param s ''gateway_password''),
          d_gwPassphrase = line_edit (param s ''gateway_passphrase''),
          d_domain = line_edit (param s ''domain''),
          d_rdpResolution = pick resolutions ''Default'' (if w \<noteq> [] \<and> h \<noteq> [] then resolution w h else ''Default''),
          d_rdpClipboard = (param_def s ''redirect_clipboard'' ''1'' \<noteq> ''0''),
          d_rdpDrives = (param s ''redirect_drives'' = ''1''),
          d_rdpAudio = (param s ''redirect_audio'' = ''1''),
          d_rdpNla = (param_def s ''nla'' ''1'' \<noteq> ''0''),
          d_rdpIgnoreCert = (param s ''ignorecert'' = ''1''),
          d_vncViewOnly = (param s ''viewonly'' = ''1''),
          d_termFont = line_edit (param s ''term.font''),
          d_termFontSize = spin 0 72 (to_int0 (param s ''term.fontSize'')),
          d_termScheme = pick schemes [] sc,
          d_termScrollback = spin (-1) 1000000 (if sb = [] then -1 else to_int0 sb),
          d_termBackspace = (if param s ''term.backspace'' = ''ctrl-h'' then ''ctrl-h'' else [])\<rparr>)"

section \<open>From the widgets to a session\<close>

definition general_fields :: "session_dialog \<Rightarrow> fields" where
  "general_fields d =
     put_if (d_icon d \<noteq> []) ''icon'' (d_icon d)
     (put_if (trimmed (d_folder d) \<noteq> []) ''folder'' (trimmed (d_folder d))
     (put_if (sessionTypeFromString (d_type d) = Shell \<and> trimmed (d_shell d) \<noteq> []) ''shell'' (trimmed (d_shell d))
     (put_if (d_gateway d \<noteq> []) ''gateway'' (d_gateway d)
     (put_if (d_passphrase d \<noteq> []) ''passphrase'' (d_passphrase d)
     (put_if (d_keyfile d \<noteq> []) ''keyfile'' (d_keyfile d)
     (put_if (d_password d \<noteq> []) ''password'' (d_password d)
     (qinsert ''username'' (d_user d)
     (put_if (0 < d_port d) ''port'' (dec_of_int (d_port d))
     (qinsert ''host'' (d_host d)
     (qinsert ''type'' (d_type d)
     (qinsert ''name'' (d_name d) [])))))))))))"

definition resolution_size :: "string \<Rightarrow> int \<times> int" where
  "resolution_size res =
     (case index_of cross res of
        None \<Rightarrow> (0, 0)
      | Some c \<Rightarrow> if 0 < c then (to_int0 (take c res), to_int0 (drop (c + 1) res)) else (0, 0))"

definition dialog_options :: "session_dialog \<Rightarrow> AdvancedOptions" where
  "dialog_options d =
     (let (w, h) = resolution_size (d_rdpResolution d)
      in \<lparr>compression = d_compression d, x11 = d_x11 d, agent = d_agent d, agentForward = d_agentForward d,
          sshKeepalive = d_sshKeepalive d, sshRemoteCommand = d_sshRemoteCmd d, sshStayOpen = d_sshStayOpen d,
          gatewayUser = d_gwUser d, gatewayPassword = d_gwPassword d, gatewayPassphrase = d_gwPassphrase d,
          domain = d_domain d, rdpWidth = w, rdpHeight = h, rdpClipboard = d_rdpClipboard d, rdpDrives = d_rdpDrives d,
          rdpAudio = d_rdpAudio d, rdpNla = d_rdpNla d, rdpIgnoreCert = d_rdpIgnoreCert d, vncViewOnly = d_vncViewOnly d\<rparr>)"

definition terminal_fields :: "session_dialog \<Rightarrow> fields \<Rightarrow> fields" where
  "terminal_fields d f =
     put_if (d_termBackspace d \<noteq> []) ''term.backspace'' (d_termBackspace d)
     (put_if (0 \<le> d_termScrollback d) ''term.scrollback'' (dec_of_int (d_termScrollback d))
     (put_if (d_termScheme d \<noteq> []) ''term.scheme'' (d_termScheme d)
     (put_if (0 < d_termFontSize d) ''term.fontSize'' (dec_of_int (d_termFontSize d))
     (put_if (d_termFont d \<noteq> []) ''term.font'' (d_termFont d) f))))"

definition dialog_session :: "session_dialog \<Rightarrow> Session" where
  "dialog_session d =
     toSession (terminal_fields d
       (applyAdvanced (sessionTypeFromString (d_type d)) (d_gateway d \<noteq> []) (dialog_options d) (general_fields d)))"

text \<open>The answer of the \<open>OK\<close> button: a complaint, or nothing and the dialog is accepted.\<close>

definition onAccept :: "session_dialog \<Rightarrow> string" where
  "onAccept d =
     validate (qinsert ''port'' (if 0 < d_port d then dec_of_int (d_port d) else [])
       (qinsert ''host'' (d_host d) (qinsert ''type'' (d_type d) (qinsert ''name'' (d_name d) []))))"

section \<open>What the parameters are\<close>

lemma map_of_put_if [simp]: "map_of (put_if b k v f) x = (if b \<and> x = k then Some v else map_of f x)"
  by (simp add: put_if_def)

lemma put_if_ok [simp]: "qmap_ok f \<Longrightarrow> qmap_ok (put_if b k v f)"
  by (simp add: put_if_def)

lemma value_if [simp]: "(case (if b then Some v else x) of None \<Rightarrow> e | Some y \<Rightarrow> y) = (if b then v else case x of None \<Rightarrow> e | Some y \<Rightarrow> y)"
  by simp

definition dialog_fields :: "session_dialog \<Rightarrow> fields" where
  "dialog_fields d =
     terminal_fields d (applyAdvanced (sessionTypeFromString (d_type d)) (d_gateway d \<noteq> []) (dialog_options d) (general_fields d))"

lemma applyAdvanced_ok: "qmap_ok f \<Longrightarrow> qmap_ok (applyAdvanced t g opts f)"
  by (simp add: applyAdvanced_def Let_def)

lemma dialog_fields_ok: "qmap_ok (dialog_fields d)"
  by (simp add: dialog_fields_def terminal_fields_def general_fields_def applyAdvanced_ok)

lemma dialog_session_fields: "dialog_session d = toSession (dialog_fields d)"
  by (simp add: dialog_session_def dialog_fields_def)

lemma dialog_core:
  "map_of (dialog_fields d) ''name'' = Some (d_name d)" "map_of (dialog_fields d) ''type'' = Some (d_type d)"
  "map_of (dialog_fields d) ''host'' = Some (d_host d)" "map_of (dialog_fields d) ''username'' = Some (d_user d)"
  "map_of (dialog_fields d) ''port'' = (if 0 < d_port d then Some (dec_of_int (d_port d)) else None)"
  by (simp_all add: dialog_fields_def terminal_fields_def general_fields_def applyAdvanced_def Let_def)

lemma dialog_param: "k \<notin> set kCoreFields \<Longrightarrow> param_def (dialog_session d) k e = qvalue (dialog_fields d) k e"
  by (simp add: dialog_session_fields param_def_def qvalue_def param_toSession [OF dialog_fields_ok])

lemma put_if_nest: "(if c then put_if b k v f else g) = put_if (c \<and> b) k v (if c then f else g)"
  by (simp add: put_if_def)

text \<open>All options in one chain, each with the condition under which it is written.\<close>

lemma applyAdvanced_chain:
  "applyAdvanced t g opts f =
     put_if (t = Vnc \<and> vncViewOnly opts) ''viewonly'' ''1''
     (put_if (t = Rdp \<and> rdpIgnoreCert opts) ''ignorecert'' ''1''
     (put_if (t = Rdp \<and> \<not> rdpNla opts) ''nla'' ''0''
     (put_if (t = Rdp \<and> rdpAudio opts) ''redirect_audio'' ''1''
     (put_if (t = Rdp \<and> rdpDrives opts) ''redirect_drives'' ''1''
     (put_if (t = Rdp \<and> \<not> rdpClipboard opts) ''redirect_clipboard'' ''0''
     (put_if (t = Rdp \<and> 0 < rdpWidth opts \<and> 0 < rdpHeight opts) ''height'' (dec_of_int (rdpHeight opts))
     (put_if (t = Rdp \<and> 0 < rdpWidth opts \<and> 0 < rdpHeight opts) ''width'' (dec_of_int (rdpWidth opts))
     (put_if (t = Rdp \<and> domain opts \<noteq> []) ''domain'' (domain opts)
     (put_if (g \<and> gatewayPassphrase opts \<noteq> []) ''gateway_passphrase'' (gatewayPassphrase opts)
     (put_if (g \<and> gatewayPassword opts \<noteq> []) ''gateway_password'' (gatewayPassword opts)
     (put_if (g \<and> gatewayUser opts \<noteq> []) ''gateway_user'' (gatewayUser opts)
     (put_if (t = Ssh \<and> sshStayOpen opts) ''stayopen'' ''1''
     (put_if (t = Ssh \<and> sshRemoteCommand opts \<noteq> []) ''remotecommand'' (sshRemoteCommand opts)
     (put_if (t = Ssh \<and> 0 < sshKeepalive opts) ''keepalive'' (dec_of_int (sshKeepalive opts))
     (put_if (t = Ssh \<and> agentForward opts) ''agentforward'' ''1''
     (put_if (t = Ssh \<and> agent opts) ''agent'' ''1''
     (put_if (t = Ssh \<and> \<not> x11 opts) ''x11'' ''0''
     (put_if (t = Ssh \<and> compression opts) ''compression'' ''1'' f))))))))))))))))))"
  by (simp only: applyAdvanced_def Let_def put_if_nest if_cancel)

lemma dialog_options_simps [simp]:
  "compression (dialog_options d) = d_compression d" "x11 (dialog_options d) = d_x11 d" "agent (dialog_options d) = d_agent d"
  "agentForward (dialog_options d) = d_agentForward d" "sshKeepalive (dialog_options d) = d_sshKeepalive d"
  "sshRemoteCommand (dialog_options d) = d_sshRemoteCmd d" "sshStayOpen (dialog_options d) = d_sshStayOpen d"
  "gatewayUser (dialog_options d) = d_gwUser d" "gatewayPassword (dialog_options d) = d_gwPassword d"
  "gatewayPassphrase (dialog_options d) = d_gwPassphrase d" "domain (dialog_options d) = d_domain d"
  "rdpClipboard (dialog_options d) = d_rdpClipboard d" "rdpDrives (dialog_options d) = d_rdpDrives d"
  "rdpAudio (dialog_options d) = d_rdpAudio d" "rdpNla (dialog_options d) = d_rdpNla d"
  "rdpIgnoreCert (dialog_options d) = d_rdpIgnoreCert d" "vncViewOnly (dialog_options d) = d_vncViewOnly d"
  "rdpWidth (dialog_options d) = fst (resolution_size (d_rdpResolution d))" "rdpHeight (dialog_options d) = snd (resolution_size (d_rdpResolution d))"
  by (simp_all add: dialog_options_def Let_def split: prod.split)

lemma dialog_chain: "dialog_fields d = terminal_fields d (applyAdvanced (sessionTypeFromString (d_type d)) (d_gateway d \<noteq> []) (dialog_options d) (general_fields d))"
  by (simp add: dialog_fields_def)

lemmas dialog_look = dialog_chain terminal_fields_def applyAdvanced_chain general_fields_def qvalue_def

lemma dialog_general:
  "param (dialog_session d) ''password'' = d_password d"
  "param (dialog_session d) ''keyfile'' = d_keyfile d"
  "param (dialog_session d) ''passphrase'' = d_passphrase d"
  "param (dialog_session d) ''gateway'' = d_gateway d"
  "param (dialog_session d) ''shell'' = (if sessionTypeFromString (d_type d) = Shell then trimmed (d_shell d) else [])"
  "param (dialog_session d) ''folder'' = trimmed (d_folder d)"
  "param (dialog_session d) ''icon'' = d_icon d"
  by (simp_all add: dialog_param kCoreFields_def dialog_look Let_def)

lemma dialog_ssh:
  "param (dialog_session d) ''compression'' = (if sessionTypeFromString (d_type d) = Ssh \<and> d_compression d then ''1'' else [])"
  "param_def (dialog_session d) ''x11'' ''1'' = (if sessionTypeFromString (d_type d) = Ssh \<and> \<not> d_x11 d then ''0'' else ''1'')"
  "param (dialog_session d) ''agent'' = (if sessionTypeFromString (d_type d) = Ssh \<and> d_agent d then ''1'' else [])"
  "param (dialog_session d) ''agentforward'' = (if sessionTypeFromString (d_type d) = Ssh \<and> d_agentForward d then ''1'' else [])"
  "param (dialog_session d) ''keepalive'' =
     (if sessionTypeFromString (d_type d) = Ssh \<and> 0 < d_sshKeepalive d then dec_of_int (d_sshKeepalive d) else [])"
  "param (dialog_session d) ''remotecommand'' = (if sessionTypeFromString (d_type d) = Ssh then d_sshRemoteCmd d else [])"
  "param (dialog_session d) ''stayopen'' = (if sessionTypeFromString (d_type d) = Ssh \<and> d_sshStayOpen d then ''1'' else [])"
  by (simp_all add: dialog_param kCoreFields_def dialog_look)

lemma dialog_gateway:
  "param (dialog_session d) ''gateway_user'' = (if d_gateway d \<noteq> [] then d_gwUser d else [])"
  "param (dialog_session d) ''gateway_password'' = (if d_gateway d \<noteq> [] then d_gwPassword d else [])"
  "param (dialog_session d) ''gateway_passphrase'' = (if d_gateway d \<noteq> [] then d_gwPassphrase d else [])"
  "param (dialog_session d) ''viewonly'' = (if sessionTypeFromString (d_type d) = Vnc \<and> d_vncViewOnly d then ''1'' else [])"
  by (simp_all add: dialog_param kCoreFields_def dialog_look)

lemma dialog_rdp:
  "param (dialog_session d) ''domain'' = (if sessionTypeFromString (d_type d) = Rdp then d_domain d else [])"
  "param_def (dialog_session d) ''redirect_clipboard'' ''1'' = (if sessionTypeFromString (d_type d) = Rdp \<and> \<not> d_rdpClipboard d then ''0'' else ''1'')"
  "param (dialog_session d) ''redirect_drives'' = (if sessionTypeFromString (d_type d) = Rdp \<and> d_rdpDrives d then ''1'' else [])"
  "param (dialog_session d) ''redirect_audio'' = (if sessionTypeFromString (d_type d) = Rdp \<and> d_rdpAudio d then ''1'' else [])"
  "param_def (dialog_session d) ''nla'' ''1'' = (if sessionTypeFromString (d_type d) = Rdp \<and> \<not> d_rdpNla d then ''0'' else ''1'')"
  "param (dialog_session d) ''ignorecert'' = (if sessionTypeFromString (d_type d) = Rdp \<and> d_rdpIgnoreCert d then ''1'' else [])"
  by (simp_all add: dialog_param kCoreFields_def dialog_look)

lemma dialog_size:
  "param (dialog_session d) ''width'' =
     (case resolution_size (d_rdpResolution d) of (w, h) \<Rightarrow>
        if sessionTypeFromString (d_type d) = Rdp \<and> 0 < w \<and> 0 < h then dec_of_int w else [])"
  "param (dialog_session d) ''height'' =
     (case resolution_size (d_rdpResolution d) of (w, h) \<Rightarrow>
        if sessionTypeFromString (d_type d) = Rdp \<and> 0 < w \<and> 0 < h then dec_of_int h else [])"
  by (simp_all add: dialog_param kCoreFields_def dialog_look Let_def case_prod_unfold)

lemma dialog_terminal:
  "param (dialog_session d) ''term.font'' = d_termFont d"
  "param (dialog_session d) ''term.fontSize'' = (if 0 < d_termFontSize d then dec_of_int (d_termFontSize d) else [])"
  "param (dialog_session d) ''term.scheme'' = d_termScheme d"
  "param (dialog_session d) ''term.scrollback'' = (if 0 \<le> d_termScrollback d then dec_of_int (d_termScrollback d) else [])"
  "param (dialog_session d) ''term.backspace'' = d_termBackspace d"
  by (simp_all add: dialog_param kCoreFields_def dialog_look Let_def)

lemma dialog_from:
  assumes "d_type d \<in> sessionTypeToString ` set offered_types" and "d_port d \<le> 65535"
  shows "field (fromSession (dialog_session d)) ''name'' = d_name d" "field (fromSession (dialog_session d)) ''type'' = d_type d"
    "field (fromSession (dialog_session d)) ''host'' = d_host d" "field (fromSession (dialog_session d)) ''username'' = d_user d"
    "to_int0 (field (fromSession (dialog_session d)) ''port'') = (if 0 < d_port d then d_port d else 0)"
proof -
  have ok: "qmap_ok (s_params (dialog_session d))" by (simp add: dialog_session_fields toSession_ok)
  have empty: "to_int0 [] = 0" by code_simp
  have port: "to_int (dec_of_int (d_port d)) = Some (d_port d)" if "0 < d_port d"
    using assms(2) that by (simp add: to_int_dec_of_int fitsInt_def)
  have type: "sessionTypeToString (s_type (dialog_session d)) = d_type d"
    using assms(1) by (auto simp: dialog_session_fields toSession_core qvalue_def dialog_core type_name_roundtrip)
  have params: "map_of (s_params (dialog_session d)) k =
      (if k \<notin> set kCoreFields then map_of (dialog_fields d) k
       else if k = ''host'' \<or> k = ''username'' then map_of (dialog_fields d) k
       else if k = ''port'' then (if 0 < d_port d then Some (dec_of_int (d_port d)) else None) else None)" for k
    using port empty by (simp add: dialog_session_fields param_toSession [OF dialog_fields_ok] qvalue_def dialog_core to_int0_def)
      (auto simp: to_int0_def split: option.splits)
  show "field (fromSession (dialog_session d)) ''name'' = d_name d" "field (fromSession (dialog_session d)) ''type'' = d_type d"
    "field (fromSession (dialog_session d)) ''host'' = d_host d" "field (fromSession (dialog_session d)) ''username'' = d_user d"
    "to_int0 (field (fromSession (dialog_session d)) ''port'') = (if 0 < d_port d then d_port d else 0)"
    using port empty type
    by (simp_all add: qvalue_def map_of_fromSession [OF ok] params param_def_def dialog_core to_int0_def)
      (simp add: dialog_session_fields toSession_core qvalue_def dialog_core)
qed

section \<open>Editing what was edited\<close>

lemma trimmed_short: "length (trimmed s) \<le> length s"
proof -
  have "length (trimmed s) \<le> length (dropWhile is_space s)"
    unfolding trimmed_def using length_dropWhile_le [of is_space "rev (dropWhile is_space s)"] by simp
  then show ?thesis using length_dropWhile_le [of is_space s] by linarith
qed

lemma trimmed_trimmed [simp]: "trimmed (trimmed s) = trimmed s"
proof (cases "trimmed s = []")
  case False
  define m where "m = dropWhile is_space s"
  have t: "trimmed s = rev (dropWhile is_space (rev m))" by (simp add: trimmed_def m_def)
  then have last: "\<not> is_space (last (trimmed s))"
    using False hd_dropWhile [of is_space "rev m"] by (simp add: last_rev)
  obtain r where "rev m = r @ dropWhile is_space (rev m)" by (metis takeWhile_dropWhile_id)
  then have "m = trimmed s @ rev r" using t by (metis rev_append rev_rev_ident)
  then have "hd (trimmed s) = hd m" "m \<noteq> []" using False by (metis hd_append2, auto)
  then have "\<not> is_space (hd (trimmed s))" using hd_dropWhile [of is_space s] by (simp add: m_def)
  from this last show ?thesis by (rule trimmed_id)
next
  case True
  then show ?thesis by (simp only: True) (simp add: trimmed_def)
qed

text \<open>What the widgets can hold, as their ranges and items have it.\<close>

definition dialog_ok :: "session_dialog \<Rightarrow> bool" where
  "dialog_ok d \<longleftrightarrow>
     (\<forall>t \<in> {d_name d, d_host d, d_user d, d_password d, d_keyfile d, d_passphrase d, d_gateway d, d_shell d, d_folder d,
        d_sshRemoteCmd d, d_gwUser d, d_gwPassword d, d_gwPassphrase d, d_domain d, d_termFont d}. length t \<le> 32767) \<and>
     d_type d \<in> sessionTypeToString ` set offered_types \<and> d_icon d \<noteq> default_icon \<and>
     d_port d \<in> {0..65535} \<and> d_sshKeepalive d \<in> {0..86400} \<and> d_rdpResolution d \<in> set resolutions \<and>
     d_termFontSize d \<in> {0..72} \<and> d_termScheme d \<in> {[]} \<union> set schemes \<and> d_termScrollback d \<in> {-1..1000000} \<and>
     d_termBackspace d \<in> {[], ''ctrl-h''}"

text \<open>What is left of the widgets: what does not apply to the type is as in a new dialog.\<close>

definition effective :: "session_dialog \<Rightarrow> session_dialog" where
  "effective d =
     (let t = sessionTypeFromString (d_type d); g = d_gateway d \<noteq> []
      in d\<lparr>d_shell := (if t = Shell then trimmed (d_shell d) else []), d_folder := trimmed (d_folder d),
           d_compression := (t = Ssh \<and> d_compression d), d_x11 := (t = Ssh \<longrightarrow> d_x11 d), d_agent := (t = Ssh \<and> d_agent d),
           d_agentForward := (t = Ssh \<and> d_agentForward d), d_sshKeepalive := (if t = Ssh then d_sshKeepalive d else 0),
           d_sshRemoteCmd := (if t = Ssh then d_sshRemoteCmd d else []), d_sshStayOpen := (t = Ssh \<and> d_sshStayOpen d),
           d_gwUser := (if g then d_gwUser d else []), d_gwPassword := (if g then d_gwPassword d else []),
           d_gwPassphrase := (if g then d_gwPassphrase d else []), d_domain := (if t = Rdp then d_domain d else []),
           d_rdpResolution := (if t = Rdp then d_rdpResolution d else ''Default''),
           d_rdpClipboard := (t = Rdp \<longrightarrow> d_rdpClipboard d), d_rdpDrives := (t = Rdp \<and> d_rdpDrives d),
           d_rdpAudio := (t = Rdp \<and> d_rdpAudio d), d_rdpNla := (t = Rdp \<longrightarrow> d_rdpNla d),
           d_rdpIgnoreCert := (t = Rdp \<and> d_rdpIgnoreCert d), d_vncViewOnly := (t = Vnc \<and> d_vncViewOnly d)\<rparr>)"

text \<open>Each resolution of the list is read as two numbers and found again by them.\<close>

definition size_found :: "string \<Rightarrow> bool" where
  "size_found r =
     (case resolution_size r of (w, h) \<Rightarrow>
        if 0 < w \<and> 0 < h then resolution (dec_of_int w) (dec_of_int h) = r else r = ''Default'')"

lemma sizes_found: "r \<in> set resolutions \<Longrightarrow> size_found r"
proof -
  have "list_all size_found resolutions" by code_simp
  then show "r \<in> set resolutions \<Longrightarrow> size_found r" by (simp add: list_all_iff)
qed

lemma put_if_cong: "b = b' \<Longrightarrow> (b' \<Longrightarrow> v = v') \<Longrightarrow> f = f' \<Longrightarrow> put_if b k v f = put_if b' k v' f'"
  by (simp add: put_if_def)

lemma effective_same: "dialog_session (effective d) = dialog_session d"
proof -
  have "dialog_fields (effective d) = dialog_fields d"
    by (simp add: dialog_chain terminal_fields_def applyAdvanced_chain general_fields_def effective_def Let_def
        cong: put_if_cong conj_cong)
  then show ?thesis by (simp add: dialog_session_fields)
qed

lemma spin_id: "lo \<le> v \<Longrightarrow> v \<le> hi \<Longrightarrow> spin lo hi v = v"
  by (simp add: spin_def)

lemma number_back: "0 \<le> v \<Longrightarrow> v \<le> 1000000 \<Longrightarrow> to_int0 (dec_of_int v) = v"
  by (simp add: to_int0_def to_int_dec_of_int fitsInt_def)

lemma dialog_number_nonempty [simp]: "dec_of_int v \<noteq> []"
  by (simp add: dec_of_int_def)

lemma effective_accepted: "onAccept (effective d) = onAccept d"
proof -
  have "d_name (effective d) = d_name d" "d_type (effective d) = d_type d" "d_host (effective d) = d_host d" "d_port (effective d) = d_port d"
    by (simp_all add: effective_def Let_def)
  then show ?thesis by (simp only: onAccept_def)
qed

lemma setSession_dialog:
  assumes "dialog_ok d"
  shows "setSession (dialog_session d) new_dialog = effective d"
proof -
  let ?s = "dialog_session d"
  have zero: "to_int0 [] = 0" "to_int0 (dec_of_int 0) = 0" by code_simp+
  have short: "line_edit (d_name d) = d_name d" "line_edit (d_host d) = d_host d" "line_edit (d_user d) = d_user d"
    "line_edit (d_password d) = d_password d" "line_edit (d_keyfile d) = d_keyfile d" "line_edit (d_passphrase d) = d_passphrase d"
    "line_edit (d_gateway d) = d_gateway d" "line_edit (trimmed (d_shell d)) = trimmed (d_shell d)"
    "line_edit (trimmed (d_folder d)) = trimmed (d_folder d)" "line_edit (d_sshRemoteCmd d) = d_sshRemoteCmd d"
    "line_edit (d_gwUser d) = d_gwUser d" "line_edit (d_gwPassword d) = d_gwPassword d"
    "line_edit (d_gwPassphrase d) = d_gwPassphrase d" "line_edit (d_domain d) = d_domain d" "line_edit (d_termFont d) = d_termFont d"
    "line_edit [] = []"
    using assms trimmed_short [of "d_shell d"] trimmed_short [of "d_folder d"] by (simp_all add: dialog_ok_def line_edit_def)
  have icon: "pick_icon (d_icon d) = d_icon d" using assms by (simp add: dialog_ok_def pick_icon_def)
  have scheme: "pick schemes [] (d_termScheme d) = d_termScheme d" using assms by (auto simp: dialog_ok_def pick_def)
  have bsp: "(if d_termBackspace d = ''ctrl-h'' then ''ctrl-h'' else []) = d_termBackspace d" using assms by (auto simp: dialog_ok_def)
  have type: "pick (map sessionTypeToString offered_types) (d_type new_dialog) (d_type d) = d_type d"
    using assms by (simp add: dialog_ok_def pick_def)
  have res: "pick resolutions ''Default'' (if param ?s ''width'' \<noteq> [] \<and> param ?s ''height'' \<noteq> []
        then resolution (param ?s ''width'') (param ?s ''height'') else ''Default'') =
      (if sessionTypeFromString (d_type d) = Rdp then d_rdpResolution d else ''Default'')"
    using sizes_found [of "d_rdpResolution d"] assms
    by (cases "resolution_size (d_rdpResolution d)") (auto simp: dialog_ok_def dialog_size size_found_def pick_def)
  have numbers: "spin 0 86400 (to_int0 (if sessionTypeFromString (d_type d) = Ssh \<and> 0 < d_sshKeepalive d then dec_of_int (d_sshKeepalive d) else [])) =
        (if sessionTypeFromString (d_type d) = Ssh then d_sshKeepalive d else 0)"
      "spin 0 72 (to_int0 (if 0 < d_termFontSize d then dec_of_int (d_termFontSize d) else [])) = d_termFontSize d"
      "spin (-1) 1000000 (if (if 0 \<le> d_termScrollback d then dec_of_int (d_termScrollback d) else []) = [] then -1
         else to_int0 (if 0 \<le> d_termScrollback d then dec_of_int (d_termScrollback d) else [])) = d_termScrollback d"
      "spin 0 65535 (if 0 < d_port d then d_port d else 0) = d_port d"
  proof -
    have r: "0 \<le> d_sshKeepalive d" "d_sshKeepalive d \<le> 86400" "0 \<le> d_termFontSize d" "d_termFontSize d \<le> 72"
      "-1 \<le> d_termScrollback d" "d_termScrollback d \<le> 1000000" "0 \<le> d_port d" "d_port d \<le> 65535"
      using assms by (simp_all add: dialog_ok_def)
    then show "spin 0 86400 (to_int0 (if sessionTypeFromString (d_type d) = Ssh \<and> 0 < d_sshKeepalive d then dec_of_int (d_sshKeepalive d) else [])) =
        (if sessionTypeFromString (d_type d) = Ssh then d_sshKeepalive d else 0)"
      "spin 0 72 (to_int0 (if 0 < d_termFontSize d then dec_of_int (d_termFontSize d) else [])) = d_termFontSize d"
      "spin (-1) 1000000 (if (if 0 \<le> d_termScrollback d then dec_of_int (d_termScrollback d) else []) = [] then -1
         else to_int0 (if 0 \<le> d_termScrollback d then dec_of_int (d_termScrollback d) else [])) = d_termScrollback d"
      "spin 0 65535 (if 0 < d_port d then d_port d else 0) = d_port d"
      by (simp_all add: zero number_back spin_def)
  qed
  have core: "field (fromSession ?s) ''name'' = d_name d" "field (fromSession ?s) ''type'' = d_type d"
    "field (fromSession ?s) ''host'' = d_host d" "field (fromSession ?s) ''username'' = d_user d"
    "to_int0 (field (fromSession ?s) ''port'') = (if 0 < d_port d then d_port d else 0)"
    using dialog_from [of d] assms by (simp_all add: dialog_ok_def)
  note params = dialog_general dialog_ssh dialog_gateway dialog_rdp dialog_terminal
  show ?thesis
    unfolding setSession_def Let_def core res params numbers short icon scheme bsp type
    by (rule session_dialog.equality) (simp_all add: effective_def Let_def short)
qed

text \<open>Whatever session the editor is opened on, it can hold what it then shows.\<close>

lemma setSession_ok: "d_type d \<in> sessionTypeToString ` set offered_types \<Longrightarrow> dialog_ok (setSession s d)"
proof -
  assume type: "d_type d \<in> sessionTypeToString ` set offered_types"
  have "length (line_edit t) \<le> 32767" for t by (simp add: line_edit_def)
  moreover have "pick_icon ic \<noteq> default_icon" for ic
  proof -
    have "default_icon \<notin> set offered_icons" "default_icon \<noteq> []" by code_simp+
    then show ?thesis by (auto simp: pick_icon_def)
  qed
  moreover have "''Default'' \<in> set resolutions" by (simp add: resolutions_def)
  moreover have "spin 0 65535 n \<in> {0..65535}" "spin 0 86400 n \<in> {0..86400}" "spin 0 72 n \<in> {0..72}" "spin (-1) 1000000 n \<in> {-1..1000000}" for n
    by (simp_all add: spin_def)
  moreover have "pick schemes [] sc \<in> {[]} \<union> set schemes" "pick resolutions ''Default'' r \<in> set resolutions"
    "pick (map sessionTypeToString offered_types) (d_type d) t \<in> sessionTypeToString ` set offered_types" for sc r t
    using type \<open>''Default'' \<in> set resolutions\<close> by (auto simp: pick_def)
  ultimately show ?thesis by (auto simp: dialog_ok_def setSession_def Let_def simp del: Un_iff)
qed

lemma offered_names: "''SSH'' \<in> sessionTypeToString ` set offered_types" "''RDP'' \<in> sessionTypeToString ` set offered_types"
  "default_icon \<noteq> []" "''Default'' \<in> set resolutions"
  by code_simp+

lemma new_dialog_ok: "dialog_ok new_dialog"
  using offered_names by (simp add: dialog_ok_def new_dialog_def)

text \<open>C36: the session editor. A session that the editor gave, with whatever was entered, comes back unchanged when the
  editor is opened on it and left by \<open>OK\<close>, and is accepted again.\<close>

theorem editor_keeps_its_own:
  assumes "dialog_ok d" and "onAccept d = []"
  shows "dialog_session (setSession (dialog_session d) new_dialog) = dialog_session d \<and>
     onAccept (setSession (dialog_session d) new_dialog) = []"
  using assms(2) by (simp add: setSession_dialog [OF assms(1)] effective_same effective_accepted)

theorem editor_keeps_its_own_witness:
  "let s = dialog_session (new_dialog\<lparr>d_name := ''desk'', d_type := ''RDP'', d_host := ''h'', d_rdpResolution := resolution ''1440'' ''900''\<rparr>)
   in dialog_session (setSession s new_dialog) = s \<and> param s ''width'' = ''1440''"
proof -
  let ?d = "new_dialog\<lparr>d_name := ''desk'', d_type := ''RDP'', d_host := ''h'', d_rdpResolution := resolution ''1440'' ''900''\<rparr>"
  have "resolution ''1440'' ''900'' \<in> set resolutions" by (simp add: resolutions_def)
  then have "dialog_ok ?d" using offered_names by (simp add: dialog_ok_def new_dialog_def)
  moreover have "onAccept ?d = []" by code_simp
  moreover have "resolution_size (resolution ''1440'' ''900'') = (1440, 900)" "sessionTypeFromString ''RDP'' = Rdp" "dec_of_int 1440 = ''1440''" by code_simp+
  then have "param (dialog_session ?d) ''width'' = ''1440''" by (simp add: dialog_size new_dialog_def)
  ultimately show ?thesis using editor_keeps_its_own [of ?d] by (simp add: Let_def)
qed

text \<open>What the editor has no widget for is gone.\<close>

definition known_params :: "string list" where
  "known_params =
     [''icon'', ''folder'', ''shell'', ''gateway'', ''passphrase'', ''keyfile'', ''password'', ''host'', ''port'', ''username'',
      ''compression'', ''x11'', ''agent'', ''agentforward'', ''keepalive'', ''remotecommand'', ''stayopen'',
      ''gateway_user'', ''gateway_password'', ''gateway_passphrase'', ''domain'', ''width'', ''height'', ''redirect_clipboard'',
      ''redirect_drives'', ''redirect_audio'', ''nla'', ''ignorecert'', ''viewonly'',
      ''term.font'', ''term.fontSize'', ''term.scheme'', ''term.scrollback'', ''term.backspace'']"

lemma editor_drops:
  assumes "k \<notin> set known_params"
  shows "map_of (s_params (dialog_session d)) k = None"
proof -
  have "k \<notin> set kCoreFields \<Longrightarrow> map_of (dialog_fields d) k = None"
    using assms by (simp add: known_params_def kCoreFields_def dialog_chain terminal_fields_def applyAdvanced_chain general_fields_def)
  then show ?thesis using assms
    by (auto simp: dialog_session_fields param_toSession [OF dialog_fields_ok] known_params_def)
qed

lemma editor_forgets_distribution: "param (dialog_session d) ''shellargs'' = []"
  using editor_drops [of "''shellargs''" d] by (simp add: known_params_def param_def_def qvalue_def)

text \<open>The list of types has no SFTP: the editor makes an SSH session of it.\<close>

lemma sftp_becomes_ssh:
  assumes "qmap_ok (s_params s)" and "s_type s = Sftp"
  shows "s_type (dialog_session (setSession s new_dialog)) = Ssh"
proof -
  have "field (fromSession s) ''type'' = ''SFTP''"
    using assms by (simp add: qvalue_def map_of_fromSession [OF assms(1)]) code_simp
  moreover have "pick (map sessionTypeToString offered_types) ''SSH'' ''SFTP'' = ''SSH''" "sessionTypeFromString ''SSH'' = Ssh" by code_simp+
  ultimately have "sessionTypeFromString (d_type (setSession s new_dialog)) = Ssh"
    by (simp add: setSession_def Let_def new_dialog_def)
  then show ?thesis by (simp add: dialog_session_fields toSession_core qvalue_def dialog_core)
qed

section \<open>What is shown\<close>

text \<open>The rows of the dialog that come and go with the type.\<close>

datatype dialog_row =
  RowPassword | RowShell | RowKey | RowPassphrase | RowGateway | RowCompression | RowX11 | RowAgent | RowAgentForward | RowKeepalive
  | RowRemoteCmd | RowStayOpen | RowGwUser | RowGwPassword | RowGwPassphrase | RowDomain | RowResolution | RowClipboard | RowDrives
  | RowAudio | RowNla | RowIgnoreCert | RowViewOnly

definition visible_rows :: "SessionType \<Rightarrow> dialog_row list" where
  "visible_rows t =
     (let net = (t \<noteq> Shell \<and> t \<noteq> Serial);
          key = (t = Ssh \<or> t = Sftp \<or> t = Mosh);
          gateway = (key \<or> t = Rdp \<or> t = Vnc)
      in (if net \<and> t \<noteq> Mosh then [RowPassword] else []) @ (if t = Shell then [RowShell] else []) @
         (if key then [RowKey, RowPassphrase] else []) @ (if gateway then [RowGateway] else []) @
         (if t = Ssh then [RowCompression, RowX11, RowAgent, RowAgentForward, RowKeepalive, RowRemoteCmd, RowStayOpen] else []) @
         (if gateway then [RowGwUser, RowGwPassword, RowGwPassphrase] else []) @
         (if t = Rdp then [RowDomain, RowResolution, RowClipboard, RowDrives, RowAudio, RowNla, RowIgnoreCert] else []) @
         (if t = Vnc then [RowViewOnly] else []))"

definition advanced_tab :: "SessionType \<Rightarrow> bool" where
  "advanced_tab t \<longleftrightarrow> t = Ssh \<or> t = Rdp \<or> t = Vnc \<or> (t = Ssh \<or> t = Sftp \<or> t = Mosh) \<or> t = Rdp \<or> t = Vnc"

definition terminal_tab :: "SessionType \<Rightarrow> bool" where
  "terminal_tab t \<longleftrightarrow> t \<in> {Ssh, Telnet, Serial, Mosh, Rsh, Rlogin, Shell}"

definition general_row :: "dialog_row \<Rightarrow> bool" where
  "general_row r \<longleftrightarrow> r \<in> {RowPassword, RowShell, RowKey, RowPassphrase, RowGateway}"

text \<open>The second tab is there exactly if something is on it.\<close>

lemma advanced_tab_rows: "advanced_tab t \<longleftrightarrow> (\<exists>r \<in> set (visible_rows t). \<not> general_row r)"
  by (cases t) (simp_all add: advanced_tab_def visible_rows_def general_row_def)

text \<open>A gateway that was entered for another type is saved though its row is gone.\<close>

lemma hidden_gateway_saved:
  "RowGateway \<notin> set (visible_rows Telnet)"
  "param (dialog_session (new_dialog\<lparr>d_type := ''Telnet'', d_gateway := ''jump''\<rparr>)) ''gateway'' = ''jump''"
  by (simp_all add: visible_rows_def dialog_general)

text \<open>The folders there are, each once, behind the blank item; what was entered stays.\<close>

definition setKnownFolders :: "string list \<Rightarrow> string \<Rightarrow> string list \<times> string" where
  "setKnownFolders folders now = (fold (\<lambda>f items. if f \<in> set items then items else items @ [f]) folders [[]], now)"

lemma known_folders_once: "distinct (fst (setKnownFolders fs now)) \<and> set (fst (setKnownFolders fs now)) = insert [] (set fs)"
proof -
  have "distinct items \<Longrightarrow> distinct (fold (\<lambda>f items. if f \<in> set items then items else items @ [f]) fs items) \<and>
      set (fold (\<lambda>f items. if f \<in> set items then items else items @ [f]) fs items) = set items \<union> set fs" for items
    by (induction fs arbitrary: items) auto
  from this [of "[[]]"] show ?thesis by (simp add: setKnownFolders_def)
qed

end
