(* ===== verification/Pseudo_Terminal.thy ===== *)
theory Pseudo_Terminal
  imports Checked Qt_Core
begin

text \<open>
  The pseudo terminal under a local shell, \<open>src/src/platform/Pty.{h,cpp}\<close>: on POSIX systems the whole class, with the
  calls of the system as a log and their answers as arguments; on Windows the command line that a program is started
  with, against the rules by which the C runtime of that program cuts it into arguments again.
\<close>

section \<open>The command line on Windows\<close>

definition bs :: char where "bs = CHR 0x5c"

definition dq :: char where "dq = CHR 0x22"

definition is_blank :: "char \<Rightarrow> bool" where
  "is_blank c \<longleftrightarrow> c = CHR '' '' \<or> c = CHR 0x09"

fun quote_loop :: "nat \<Rightarrow> string \<Rightarrow> string" where
  "quote_loop n [] = replicate (n * 2) bs @ [dq]"
| "quote_loop n (c # cs) =
     (if c = bs then quote_loop (n + 1) cs
      else if c = dq then replicate (n * 2 + 1) bs @ [c] @ quote_loop 0 cs
      else replicate n bs @ [c] @ quote_loop 0 cs)"

definition winQuoteArg :: "string \<Rightarrow> string" where
  "winQuoteArg arg = (if arg \<noteq> [] \<and> \<not> list_ex is_blank arg \<and> dq \<notin> set arg then arg else dq # quote_loop 0 arg)"

definition win_command_line :: "string \<Rightarrow> string list \<Rightarrow> string" where
  "win_command_line program args = fold (\<lambda>a line. line @ CHR '' '' # winQuoteArg a) args (winQuoteArg program)"

text \<open>
  The rules of the runtime. The program's name ends at a blank outside of quotes, which are left out; in the arguments
  backslashes count only before a quote, where each pair stands for one and an odd one makes the quote a character, and
  a quote that is doubled within quotes is a character. \<open>started\<close>: an argument has begun; \<open>quoted\<close>: within quotes; \<open>n\<close>:
  backslashes not yet counted; \<open>cur\<close>: the argument so far.
\<close>

fun cut_program :: "bool \<Rightarrow> string \<Rightarrow> string \<Rightarrow> string \<times> string" where
  "cut_program quoted cur [] = (cur, [])"
| "cut_program quoted cur (c # cs) =
     (if c = dq then cut_program (\<not> quoted) cur cs
      else if is_blank c \<and> \<not> quoted then (cur, cs)
      else cut_program quoted (cur @ [c]) cs)"

function cut_args :: "bool \<Rightarrow> bool \<Rightarrow> nat \<Rightarrow> string \<Rightarrow> string \<Rightarrow> string list" where
  "cut_args started quoted n cur [] = (if started then [cur @ replicate n bs] else [])"
| "cut_args started quoted n cur (c # cs) =
     (if c = bs then cut_args True quoted (n + 1) cur cs
      else if c = dq then
        if odd n then cut_args True quoted 0 (cur @ replicate (n div 2) bs @ [dq]) cs
        else if quoted \<and> cs \<noteq> [] \<and> hd cs = dq then cut_args True quoted 0 (cur @ replicate (n div 2) bs @ [dq]) (tl cs)
        else cut_args True (\<not> quoted) 0 (cur @ replicate (n div 2) bs) cs
      else if is_blank c \<and> \<not> quoted then
        (if started then [cur @ replicate n bs] else []) @ cut_args False False 0 [] cs
      else cut_args True quoted 0 (cur @ replicate n bs @ [c]) cs)"
  by pat_completeness auto
termination
  by (relation "measure (\<lambda>(started, quoted, n, cur, cs). length cs)") (auto simp: le_imp_less_Suc)

definition cut_line :: "string \<Rightarrow> string list" where
  "cut_line line = (case cut_program False [] line of (program, rest) \<Rightarrow> program # cut_args False False 0 [] rest)"

section \<open>An argument comes back\<close>

text \<open>What may follow an argument in the line: nothing, or a blank and the rest.\<close>

definition next_args :: "string \<Rightarrow> string list" where
  "next_args rest = (if rest = [] then [] else cut_args False False 0 [] (tl rest))"

definition ends_arg :: "string \<Rightarrow> bool" where
  "ends_arg rest \<longleftrightarrow> rest = [] \<or> hd rest = CHR '' ''"

lemma blank_chars: "is_blank (CHR '' '')" "\<not> is_blank bs" "\<not> is_blank dq" "bs \<noteq> dq" "dq \<noteq> bs" "CHR '' '' \<noteq> bs" "CHR '' '' \<noteq> dq"
  by (simp_all add: is_blank_def bs_def dq_def)

lemma cut_end: "ends_arg rest \<Longrightarrow> cut_args True False n cur rest = (cur @ replicate n bs) # next_args rest"
  by (cases rest) (auto simp: ends_arg_def next_args_def blank_chars)

lemma cut_backslashes: "cut_args True quoted n cur (replicate k bs @ cs) = cut_args True quoted (n + k) cur cs"
  by (induction k arbitrary: n) simp_all

text \<open>The run of backslashes that the quoting still holds back is a part of the text.\<close>

lemma cut_quoted: "ends_arg rest \<Longrightarrow> cut_args True True 0 cur (quote_loop n cs @ rest) = (cur @ replicate n bs @ cs) # next_args rest"
proof (induction n cs arbitrary: cur rule: quote_loop.induct)
  case (1 n)
  have "\<not> (rest \<noteq> [] \<and> hd rest = dq)" using 1 blank_chars by (auto simp: ends_arg_def)
  then have "cut_args True True (n * 2) cur (dq # rest) = cut_args True False 0 (cur @ replicate n bs) rest"
    by (auto simp: blank_chars)
  then show ?case using cut_end [OF 1] cut_backslashes [of True 0 cur "n * 2" "dq # rest"] by simp
next
  case (2 n c cs)
  have bsn: "replicate n bs @ bs # cs = bs # replicate n bs @ cs" by (simp add: replicate_app_Cons_same)
  consider "c = bs" | "c = dq" | "c \<noteq> bs" "c \<noteq> dq" by blast
  then show ?case
  proof cases
    case 1
    then show ?thesis using 2 bsn by simp
  next
    case 2
    then have "cut_args True True (n * 2 + 1) cur (dq # quote_loop 0 cs @ rest) =
        cut_args True True 0 (cur @ replicate n bs @ [dq]) (quote_loop 0 cs @ rest)"
      by (simp add: blank_chars)
    then show ?thesis
      using 2 "2.IH"(2) [OF _ _ "2.prems", of "cur @ replicate n bs @ [dq]"] cut_backslashes [of True 0 cur "n * 2 + 1" "dq # quote_loop 0 cs @ rest"]
      by (simp add: blank_chars)
  next
    case 3
    then have "cut_args True True n cur (c # quote_loop 0 cs @ rest) =
        cut_args True True 0 (cur @ replicate n bs @ [c]) (quote_loop 0 cs @ rest)"
      by simp
    then show ?thesis
      using 3 "2.IH"(3) [OF _ _ "2.prems", of "cur @ replicate n bs @ [c]"] cut_backslashes [of True 0 cur n "c # quote_loop 0 cs @ rest"]
      by simp
  qed
qed

lemma cut_plain:
  "\<not> list_ex is_blank cs \<Longrightarrow> dq \<notin> set cs \<Longrightarrow> ends_arg rest \<Longrightarrow>
   cut_args True False n cur (cs @ rest) = (cur @ replicate n bs @ cs) # next_args rest"
proof (induction cs arbitrary: n cur)
  case (Cons c cs)
  have "replicate n bs @ bs # cs = bs # replicate n bs @ cs" by (simp add: replicate_app_Cons_same)
  with Cons show ?case by (cases "c = bs") (auto simp: blank_chars)
qed (simp add: cut_end)

lemma cut_arg: "ends_arg rest \<Longrightarrow> cut_args False False 0 [] (winQuoteArg a @ rest) = a # next_args rest"
proof -
  assume e: "ends_arg rest"
  show ?thesis
  proof (cases "a \<noteq> [] \<and> \<not> list_ex is_blank a \<and> dq \<notin> set a")
    case True
    then obtain c cs where a: "a = c # cs" by (cases a) auto
    have "cut_args False False 0 [] (c # cs @ rest) = cut_args True False 0 [] (c # cs @ rest)"
      using True a by (auto simp: blank_chars)
    then show ?thesis using True a cut_plain [of a rest 0 "[]"] e by (simp add: winQuoteArg_def)
  next
    case False
    then show ?thesis using cut_quoted [OF e, of "[]" 0 a] by (auto simp: winQuoteArg_def blank_chars)
  qed
qed

lemma win_command_line_concat: "win_command_line p args = winQuoteArg p @ concat (map (\<lambda>a. CHR '' '' # winQuoteArg a) args)"
proof -
  have "fold (\<lambda>a line. line @ CHR '' '' # winQuoteArg a) args l = l @ concat (map (\<lambda>a. CHR '' '' # winQuoteArg a) args)" for l
    by (induction args arbitrary: l) simp_all
  then show ?thesis by (simp add: win_command_line_def)
qed

lemma cut_all: "cut_args False False 0 [] (concat (map (\<lambda>a. CHR '' '' # winQuoteArg a) args)) = args"
proof (induction args)
  case (Cons a args)
  let ?rest = "concat (map (\<lambda>a. CHR '' '' # winQuoteArg a) args)"
  have "ends_arg ?rest" by (cases args) (simp_all add: ends_arg_def)
  from cut_arg [OF this] have "cut_args False False 0 [] (winQuoteArg a @ ?rest) = a # next_args ?rest" .
  moreover have "next_args ?rest = cut_args False False 0 [] ?rest"
    by (cases args) (simp_all add: next_args_def blank_chars)
  ultimately show ?case using Cons by (simp add: blank_chars)
qed simp

text \<open>The name of a program: no quotes, and no backslash at its end.\<close>

lemma cut_program_quoted:
  "dq \<notin> set cs \<Longrightarrow> cs \<noteq> [] \<longrightarrow> last cs \<noteq> bs \<Longrightarrow> cs = [] \<longrightarrow> n = 0 \<Longrightarrow>
   cut_program True cur (quote_loop n cs @ rest) = cut_program False (cur @ replicate n bs @ cs) rest"
proof (induction n cs arbitrary: cur rule: quote_loop.induct)
  case (2 n c cs)
  have run: "cut_program True cur (replicate k bs @ xs) = cut_program True (cur @ replicate k bs) xs" for k cur xs
    by (induction k arbitrary: cur) (simp_all add: blank_chars replicate_app_Cons_same)
  show ?case
  proof (cases "c = bs")
    case True
    with 2 have "cs \<noteq> []" by auto
    with True 2 show ?thesis by (auto simp: replicate_app_Cons_same)
  next
    case False
    with 2 have "c \<noteq> dq" by auto
    with False 2 run [of cur n "c # quote_loop 0 cs @ rest"] show ?thesis by (auto split: if_splits)
  qed
qed (simp add: blank_chars)

lemma cut_program_plain:
  "\<not> list_ex is_blank cs \<Longrightarrow> dq \<notin> set cs \<Longrightarrow> cut_program False cur (cs @ rest) = cut_program False (cur @ cs) rest"
  by (induction cs arbitrary: cur) auto

text \<open>C37: starting a program on Windows. Whatever its arguments are, blanks, quotes, backslashes and empty ones included,
  the program is found under its name and gets exactly these arguments.\<close>

theorem win_args_arrive:
  assumes "dq \<notin> set program" and "program \<noteq> [] \<Longrightarrow> last program \<noteq> bs"
  shows "cut_line (win_command_line program args) = program # args"
proof -
  let ?rest = "concat (map (\<lambda>a. CHR '' '' # winQuoteArg a) args)"
  have "cut_program False [] (winQuoteArg program @ ?rest) = cut_program False program ?rest"
    using assms cut_program_plain [of program "[]" ?rest] cut_program_quoted [of program 0 "[]" ?rest]
    by (auto simp: winQuoteArg_def)
  moreover have "cut_program False program ?rest = (program, tl ?rest)"
    by (cases args) (simp_all add: blank_chars)
  moreover have "cut_args False False 0 [] (tl ?rest) = args"
    using cut_all [of args] by (cases args) (simp_all add: blank_chars)
  ultimately show ?thesis by (simp add: cut_line_def win_command_line_concat)
qed

theorem win_args_arrive_witness:
  "cut_line (win_command_line ''C:/Program Files/x.exe'' [''say \"a b\"'', ''dir name'' @ [bs], [], [bs, dq]]) =
     [''C:/Program Files/x.exe'', ''say \"a b\"'', ''dir name'' @ [bs], [], [bs, dq]]"
  by (rule win_args_arrive) (simp_all add: dq_def bs_def)

section \<open>The terminal on POSIX systems\<close>

text \<open>What the child does between fork and the program: where it goes, its arguments and its environment. A variable of
  the locale that is set stays.\<close>

record child =
  ch_chdir :: "string option"
  ch_program :: string
  ch_argv :: "string list"
  ch_env :: "string \<rightharpoonup> string"

definition child_start :: "string \<Rightarrow> string list \<Rightarrow> string \<Rightarrow> string \<Rightarrow> (string \<rightharpoonup> string) \<Rightarrow> child" where
  "child_start program args argv0 workDir env =
     (let keep = (\<lambda>k v e. if e k = None then e(k \<mapsto> v) else e)
      in \<lparr>ch_chdir = (if workDir \<noteq> [] then Some workDir else None), ch_program = program,
          ch_argv = (if argv0 = [] then program else argv0) # args,
          ch_env = keep ''LC_CTYPE'' ''en_US.UTF-8'' (keep ''LANG'' ''en_US.UTF-8'' (env(''TERM'' \<mapsto> ''xterm-256color'')))\<rparr>)"

text \<open>What was done and told, in order. Descriptors and processes are numbers, which the system gives.\<close>

datatype pty_call =
  Forked nat nat child "16 word" "16 word" | Close nat | Hangup nat | WriteTo nat bytes | SetSize nat "16 word" "16 word"
  | Reaped nat | ReadyRead bytes | Finished int

record pty =
  pt_master :: "nat option"
  pt_pid :: "nat option"
  pt_notifier :: bool
  pt_log :: "pty_call list"

definition new_pty :: pty where
  "new_pty = \<lparr>pt_master = None, pt_pid = None, pt_notifier = False, pt_log = []\<rparr>"

definition pt_put :: "pty_call \<Rightarrow> pty \<Rightarrow> pty" where
  "pt_put c p = p\<lparr>pt_log := pt_log p @ [c]\<rparr>"

definition pty_isRunning :: "pty \<Rightarrow> bool" where
  "pty_isRunning p \<longleftrightarrow> pt_pid p \<noteq> None"

text \<open>\<open>forked\<close>: what \<open>forkpty\<close> gives the parent, the descriptor and the process.\<close>

definition pty_start ::
  "(nat \<times> nat) option \<Rightarrow> (string \<rightharpoonup> string) \<Rightarrow> string \<Rightarrow> string list \<Rightarrow> int \<Rightarrow> int \<Rightarrow> string \<Rightarrow> string \<Rightarrow> pty \<Rightarrow> bool \<times> pty" where
  "pty_start forked env program args cols rows argv0 workDir p =
     (if pty_isRunning p then (False, p)
      else case forked of
             None \<Rightarrow> (False, p)
           | Some (fd, pid) \<Rightarrow>
               (True, (pt_put (Forked fd pid (child_start program args argv0 workDir env) (of_int cols) (of_int rows)) p)
                  \<lparr>pt_master := Some fd, pt_pid := Some pid, pt_notifier := True\<rparr>))"

definition pty_write :: "(nat \<Rightarrow> bytes \<Rightarrow> int) \<Rightarrow> bytes \<Rightarrow> pty \<Rightarrow> int \<times> pty" where
  "pty_write writes data p = (case pt_master p of None \<Rightarrow> (-1, p) | Some fd \<Rightarrow> (writes fd data, pt_put (WriteTo fd data) p))"

definition pty_resize :: "int \<Rightarrow> int \<Rightarrow> pty \<Rightarrow> pty" where
  "pty_resize cols rows p = (case pt_master p of None \<Rightarrow> p | Some fd \<Rightarrow> pt_put (SetSize fd (of_int cols) (of_int rows)) p)"

definition pty_terminate :: "pty \<Rightarrow> pty" where
  "pty_terminate p =
     (let p = p\<lparr>pt_notifier := False\<rparr>;
          p = (case pt_master p of None \<Rightarrow> p | Some fd \<Rightarrow> (pt_put (Close fd) p)\<lparr>pt_master := None\<rparr>)
      in case pt_pid p of None \<Rightarrow> p | Some pid \<Rightarrow> (pt_put (Hangup pid) p)\<lparr>pt_pid := None\<rparr>)"

text \<open>What a read of the descriptor answers, and a wait for the process that does not block.\<close>

datatype read_answer = Got bytes | Eof | NotYet | ReadError

datatype wait_answer = StillThere | Exited int | Killed

definition readAvailable :: "read_answer \<Rightarrow> pty \<Rightarrow> int \<times> bytes" where
  "readAvailable answer p =
     (if pt_master p = None then (-1, [])
      else case answer of Got b \<Rightarrow> (int (length b), b) | Eof \<Rightarrow> (-1, []) | NotYet \<Rightarrow> (0, []) | ReadError \<Rightarrow> (-1, []))"

definition exit_code :: "wait_answer \<Rightarrow> int" where
  "exit_code w = (case w of StillThere \<Rightarrow> 0 | Exited n \<Rightarrow> n | Killed \<Rightarrow> -1)"

definition onReadable :: "read_answer \<Rightarrow> wait_answer \<Rightarrow> pty \<Rightarrow> pty" where
  "onReadable answer waited p =
     (case readAvailable answer p of (n, data) \<Rightarrow>
        if 0 < n then pt_put (ReadyRead data) p
        else if n < 0 then
          (let w = (if pt_pid p = None then StillThere else waited);
               p = (case pt_pid p of Some pid \<Rightarrow> if w \<noteq> StillThere then pt_put (Reaped pid) p else p | None \<Rightarrow> p)
           in pt_put (Finished (exit_code w)) (pty_terminate p))
        else p)"

datatype pty_event =
  PtStart "(nat \<times> nat) option" "string \<rightharpoonup> string" string "string list" int int string string
  | PtWrite bytes int | PtResize int int | PtReadable read_answer wait_answer | PtTerminate

fun pty_do :: "pty_event \<Rightarrow> pty \<Rightarrow> pty" where
  "pty_do (PtStart f env prog args c r a w) p = snd (pty_start f env prog args c r a w p)"
| "pty_do (PtWrite b n) p = snd (pty_write (\<lambda>fd d. n) b p)"
| "pty_do (PtResize c r) p = pty_resize c r p"
| "pty_do (PtReadable a w) p = onReadable a w p"
| "pty_do PtTerminate p = pty_terminate p"

section \<open>Its life\<close>

text \<open>Running through a log: the descriptor and the process that are there, or \<open>None\<close> when a call was on another one, a
  second one was opened, or one was left behind.\<close>

fun pty_track :: "pty_call list \<Rightarrow> nat option \<times> nat option \<Rightarrow> (nat option \<times> nat option) option" where
  "pty_track [] s = Some s"
| "pty_track (c # cs) (m, k) =
     (case c of
        Forked fd pid ch w h \<Rightarrow> if m = None \<and> k = None then pty_track cs (Some fd, Some pid) else None
      | Close fd \<Rightarrow> if m = Some fd then pty_track cs (None, k) else None
      | Hangup pid \<Rightarrow> if k = Some pid then pty_track cs (m, None) else None
      | WriteTo fd b \<Rightarrow> if m = Some fd then pty_track cs (m, k) else None
      | SetSize fd w h \<Rightarrow> if m = Some fd then pty_track cs (m, k) else None
      | Reaped pid \<Rightarrow> if k = Some pid then pty_track cs (m, k) else None
      | ReadyRead b \<Rightarrow> pty_track cs (m, k)
      | Finished n \<Rightarrow> if m = None \<and> k = None then pty_track cs (m, k) else None)"

definition pty_ok :: "pty \<Rightarrow> bool" where
  "pty_ok p \<longleftrightarrow> pty_track (pt_log p) (None, None) = Some (pt_master p, pt_pid p) \<and>
     (pt_master p = None \<longleftrightarrow> pt_pid p = None) \<and> (pt_notifier p \<longleftrightarrow> pt_pid p \<noteq> None)"

lemma track_append: "pty_track (cs @ ds) s = (case pty_track cs s of None \<Rightarrow> None | Some t \<Rightarrow> pty_track ds t)"
proof (induction cs s rule: pty_track.induct)
  case (2 c cs m k)
  then show ?case by (cases c) simp_all
qed simp

lemma pt_put_simps [simp]: "pt_log (pt_put c p) = pt_log p @ [c]" "pt_master (pt_put c p) = pt_master p"
  "pt_pid (pt_put c p) = pt_pid p" "pt_notifier (pt_put c p) = pt_notifier p"
  by (simp_all add: pt_put_def)

lemma terminate_ok: "pty_track (pt_log p) (None, None) = Some (pt_master p, pt_pid p) \<Longrightarrow>
  pty_ok (pty_terminate p) \<and> pt_master (pty_terminate p) = None \<and> pt_pid (pty_terminate p) = None"
  by (auto simp: pty_terminate_def pty_ok_def track_append Let_def split: option.splits)

lemma readable_ok: "pty_ok p \<Longrightarrow> pty_ok (onReadable a w p)"
proof -
  assume ok: "pty_ok p"
  have put: "pty_ok (pt_put (ReadyRead b) p)" for b using ok by (simp add: pty_ok_def track_append)
  define q where "q = (case pt_pid p of Some pid \<Rightarrow> if w \<noteq> StillThere then pt_put (Reaped pid) p else p | None \<Rightarrow> p)"
  have "pty_track (pt_log q) (None, None) = Some (pt_master q, pt_pid q)"
    using ok by (auto simp: q_def pty_ok_def track_append split: option.splits)
  from terminate_ok [OF this] have fin: "pty_ok (pt_put (Finished n) (pty_terminate q))" for n
    by (auto simp: pty_ok_def track_append)
  have "onReadable a w p = (case readAvailable a p of (n, data) \<Rightarrow>
      if 0 < n then pt_put (ReadyRead data) p
      else if n < 0 then
        pt_put (Finished (exit_code (if pt_pid p = None then StillThere else w))) (pty_terminate q)
      else p)"
    by (cases "pt_pid p") (auto simp: onReadable_def q_def Let_def split: prod.splits)
  then show ?thesis using put fin ok by (auto split: prod.splits)
qed

lemma do_ok: "pty_ok p \<Longrightarrow> pty_ok (pty_do e p)"
proof (cases e)
  case (PtReadable a w)
  then show "pty_ok p \<Longrightarrow> ?thesis" by (simp add: readable_ok)
next
  case PtTerminate
  then show "pty_ok p \<Longrightarrow> ?thesis" using terminate_ok [of p] by (simp add: pty_ok_def)
qed (auto simp: pty_ok_def pty_start_def pty_isRunning_def pty_write_def pty_resize_def track_append split: option.splits prod.splits)

text \<open>Whatever is done with a terminal and whatever its child does: it writes to, resizes and closes only the
  descriptor it has, signals only the child it has, opens no second one, tells the end only after both are given up;
  and terminating it gives up whatever there is.\<close>

theorem pty_gives_up_all:
  "pty_track (pt_log (pty_terminate (fold pty_do es new_pty))) (None, None) = Some (None, None)"
proof -
  have "pty_ok p \<Longrightarrow> pty_ok (fold pty_do es p)" for p by (induction es arbitrary: p) (simp_all add: do_ok)
  moreover have "pty_ok new_pty" by (simp add: pty_ok_def new_pty_def)
  ultimately have "pty_ok (fold pty_do es new_pty)" by blast
  with terminate_ok [of "fold pty_do es new_pty"] show ?thesis by (simp add: pty_ok_def)
qed

text \<open>A child that was waited for is signalled after it is gone, when its number may be another's.\<close>

lemma signalled_after_wait:
  "pt_log (onReadable Eof (Exited 3) \<lparr>pt_master = Some 5, pt_pid = Some 77, pt_notifier = True, pt_log = []\<rparr>) =
     [Reaped 77, Close 5, Hangup 77, Finished 3]"
  by (simp add: onReadable_def readAvailable_def pty_terminate_def pt_put_def exit_code_def Let_def)

text \<open>One that has closed its terminal and is still there counts as ended with success, and is never waited for.\<close>

lemma unfinished_reported:
  "pt_log (onReadable Eof StillThere \<lparr>pt_master = Some 5, pt_pid = Some 77, pt_notifier = True, pt_log = []\<rparr>) =
     [Close 5, Hangup 77, Finished 0]"
  by (simp add: onReadable_def readAvailable_def pty_terminate_def pt_put_def exit_code_def Let_def)

end
